(* ===== verification/Prelude.thy ===== *)
theory Prelude
  imports Main "HOL-Library.Word" "HOL-Library.Monad_Syntax"
begin

text \<open>
  Shared vocabulary of the development: the C++ fixed-width integer types, little-endian
  byte images of machine words (what \<open>memcpy\<close> of an integer moves on the little-endian hosts
  the runtime supports), and the generic list and option lemmas the component theories use.

  A run of code that can end the process (\<open>abort()\<close>) or never return is a value of
  type \<open>'a option\<close>: \<open>None\<close> is "does not return".
\<close>

unbundle bit_operations_syntax

section \<open>Machine integers\<close>

type_synonym u8 = "8 word"
type_synonym u16 = "16 word"
type_synonym u32 = "32 word"
type_synonym u64 = "64 word"

section \<open>Collections\<close>

named_theorems frame_simps \<open>fields an operation leaves unchanged\<close>
named_theorems inv_intros \<open>operations that keep a component's invariant\<close>
named_theorems codec_simps \<open>byte images of encoded values\<close>

section \<open>Words and their little-endian bytes\<close>

definition byte_of :: "'a::len word \<Rightarrow> nat \<Rightarrow> u8" where
  "byte_of w i = ucast (drop_bit (8 * i) w)"

definition bytes_of :: "nat \<Rightarrow> 'a::len word \<Rightarrow> u8 list" where
  "bytes_of n w = map (byte_of w) [0..<n]"

primrec word_of_bytes :: "u8 list \<Rightarrow> 'a::len word" where
  "word_of_bytes [] = 0"
| "word_of_bytes (b # bs) = ucast b OR push_bit 8 (word_of_bytes bs)"

lemma length_bytes_of [simp]: "length (bytes_of n w) = n"
  by (simp add: bytes_of_def)

lemma nth_bytes_of [simp]: "i < n \<Longrightarrow> bytes_of n w ! i = byte_of w i"
  by (simp add: bytes_of_def)

lemma bytes_of_Nil_iff [simp]: "bytes_of n w = [] \<longleftrightarrow> n = 0"
  by (simp add: bytes_of_def)

lemma bit_byte_of: "bit (byte_of w i) k \<longleftrightarrow> k < 8 \<and> bit w (8 * i + k)"
  for w :: "'a::len word"
  by (auto simp: byte_of_def bit_simps dest: bit_imp_le_length)

lemma bit_word_of_bytes:
  "bit (word_of_bytes bs :: 'a::len word) k \<longleftrightarrow>
     k < LENGTH('a) \<and> k < 8 * length bs \<and> bit (bs ! (k div 8)) (k mod 8)"
proof (induction bs arbitrary: k)
  case Nil
  then show ?case by simp
next
  case (Cons b bs)
  have small: "bit b k \<Longrightarrow> k < 8"
    using bit_imp_le_length [of b k] by simp
  show ?case
  proof (cases "k < 8")
    case True
    then show ?thesis by (auto simp: bit_simps)
  next
    case False
    then have "k div 8 = Suc ((k - 8) div 8)" "k mod 8 = (k - 8) mod 8"
      by (auto simp: le_div_geq le_mod_geq)
    with False Cons.IH [of "k - 8"] small show ?thesis
      by (auto simp: bit_simps dest: bit_imp_le_length)
  qed
qed

theorem word_of_bytes_of [simp]:
  "LENGTH('a) \<le> 8 * n \<Longrightarrow> word_of_bytes (bytes_of n w) = (w :: 'a::len word)"
  by (rule bit_word_eqI)
    (auto simp: bit_word_of_bytes bit_byte_of less_mult_imp_div_less mult.commute)

theorem bytes_of_word_of [simp]:
  assumes "8 * length bs \<le> LENGTH('a)"
  shows "bytes_of (length bs) (word_of_bytes bs :: 'a::len word) = bs"
proof (rule nth_equalityI)
  fix i assume "i < length (bytes_of (length bs) (word_of_bytes bs :: 'a word))"
  then have i: "i < length bs" by simp
  show "bytes_of (length bs) (word_of_bytes bs :: 'a word) ! i = bs ! i"
  proof (rule bit_word_eqI)
    fix k assume k: "k < LENGTH(8)"
    then have "8 * i + k < 8 * length bs" using i by simp
    with k i assms show "bit (bytes_of (length bs) (word_of_bytes bs :: 'a word) ! i) k =
        bit (bs ! i) k"
      by (simp add: bit_byte_of bit_word_of_bytes)
  qed
qed simp

lemma bytes_of_inject:
  "LENGTH('a) \<le> 8 * n \<Longrightarrow> bytes_of n v = bytes_of n w \<Longrightarrow> v = (w :: 'a::len word)"
  by (metis word_of_bytes_of)

lemma ucast_ucast_u8 [simp]: "ucast (ucast v :: u32) = (v :: u8)"
  by (rule bit_word_eqI) (simp add: bit_simps)

lemma unat_and_le: "unat (x AND m) \<le> unat (m :: 'a::len word)"
  using word_and_le1 [of x m] by (simp add: word_le_nat_alt)

lemma unat_of_nat_small [simp]: "n < 2 ^ LENGTH('a) \<Longrightarrow> unat (of_nat n :: 'a::len word) = n"
  by (simp add: unat_of_nat take_bit_nat_eq_self)

lemma unat_less: "unat w < 2 ^ LENGTH('a)" for w :: "'a::len word"
  by (rule unsigned_less)

lemma unat_add_small:
  "unat x + unat y < 2 ^ LENGTH('a) \<Longrightarrow> unat (x + y) = unat x + unat (y :: 'a::len word)"
  by (simp add: unat_word_ariths)

lemma of_nat_inj_small:
  "of_nat i = (of_nat j :: 'a::len word) \<Longrightarrow> i < 2 ^ LENGTH('a) \<Longrightarrow> j < 2 ^ LENGTH('a) \<Longrightarrow> i = j"
  by (metis unat_of_nat_small)

lemma and_mask_take_bit:
  "x AND 0xFF = take_bit 8 x" "x AND 0xFFFF = take_bit 16 x" "x AND 0xFFFFFFFF = take_bit 32 x"
  for x :: "'a::len word"
  by (simp_all add: take_bit_eq_mask mask_eq_exp_minus_1)

lemma and_not_mask: "x AND NOT (mask n) = x - take_bit n x" for x :: "'a::len word"
proof -
  have "NOT x AND take_bit n x = 0" by (rule bit_word_eqI) (simp add: bit_simps)
  then have "x - take_bit n x = x AND NOT (take_bit n x)" by (rule disjunctive_diff_eq_and_not)
  also have "\<dots> = x AND NOT (mask n)" by (rule bit_word_eqI) (auto simp: bit_simps)
  finally show ?thesis by simp
qed

lemma unat_and_not_mask: "unat (x AND NOT (mask n)) = unat x - unat x mod 2 ^ n" for x :: "'a::len word"
proof -
  have "unat (take_bit n x) = unat x mod 2 ^ n"
    by (simp only: unsigned_take_bit_eq) (simp only: take_bit_eq_mod)
  moreover from this have "take_bit n x \<le> x" by (simp add: word_le_nat_alt)
  ultimately show ?thesis by (simp add: and_not_mask unat_sub)
qed

lemma bytes_of_add: "bytes_of (m + n) v = bytes_of m v @ bytes_of n (drop_bit (8 * m) v)"
  by (rule nth_equalityI)
    (auto simp: nth_append bytes_of_def byte_of_def drop_bit_drop_bit add.commute distrib_left
      simp flip: add_mult_distrib2)

lemma bytes_of_ucast: "8 * n \<le> LENGTH('b) \<Longrightarrow> bytes_of n (ucast v :: 'b::len word) = bytes_of n v"
  for v :: "'a::len word"
  by (rule nth_equalityI; simp) (rule bit_word_eqI, auto simp: bit_byte_of bit_simps dest: bit_imp_le_length)

lemma bytes_of_take_bit: "8 * n \<le> k \<Longrightarrow> bytes_of n (take_bit k v) = bytes_of n v"
  for v :: "'a::len word"
  by (rule nth_equalityI; simp) (rule bit_word_eqI, auto simp: bit_byte_of bit_simps)

lemma word_of_bytes_append:
  "8 * length xs \<le> LENGTH('b) \<Longrightarrow> 8 * length ys \<le> LENGTH('c) \<Longrightarrow> k = 8 * length xs \<Longrightarrow>
     ucast (word_of_bytes xs :: 'b::len word) OR push_bit k (ucast (word_of_bytes ys :: 'c::len word)) =
     (word_of_bytes (xs @ ys) :: 'a::len word)"
proof (rule bit_word_eqI)
  assume xs: "8 * length xs \<le> LENGTH('b)" and ys: "8 * length ys \<le> LENGTH('c)"
    and k: "k = 8 * length xs"
  fix i assume i: "i < LENGTH('a)"
  show "bit (ucast (word_of_bytes xs :: 'b word) OR
      push_bit k (ucast (word_of_bytes ys :: 'c word)) :: 'a word) i =
    bit (word_of_bytes (xs @ ys) :: 'a word) i"
  proof (cases "i < 8 * length xs")
    case True
    then have "i div 8 < length xs" by (simp add: less_mult_imp_div_less mult.commute)
    with True i xs k show ?thesis by (auto simp: bit_simps bit_word_of_bytes nth_append)
  next
    case False
    then obtain j where j: "i = 8 * length xs + j" by (metis le_Suc_ex not_less)
    have "(8 * length xs + j) div 8 = length xs + j div 8" "(8 * length xs + j) mod 8 = j mod 8"
      by simp_all
    with i j ys k show ?thesis by (auto simp: bit_simps bit_word_of_bytes nth_append)
  qed
qed

section \<open>Lists and options\<close>

lemma Some_bind_iff: "m \<bind> f = Some y \<longleftrightarrow> (\<exists>x. m = Some x \<and> f x = Some y)"
  by (cases m) auto

lemma take_append_exact [simp]: "length xs = n \<Longrightarrow> take n (xs @ ys) = xs"
  by simp

lemma drop_append_exact [simp]: "length xs = n \<Longrightarrow> drop n (xs @ ys) = ys"
  by simp

lemma take_drop_nth: "i < n \<Longrightarrow> k + i < length xs \<Longrightarrow> take n (drop k xs) ! i = xs ! (k + i)"
  by simp

section \<open>Decimal text\<close>

text \<open>\<open>std::to_string\<close> of an unsigned integer.\<close>

fun show_nat :: "nat \<Rightarrow> string" where
  "show_nat n =
     (if n < 10 then [char_of (48 + n)] else show_nat (n div 10) @ [char_of (48 + n mod 10)])"

declare show_nat.simps [simp del]

end
