(* ===== verification/Memory_Interface.thy ===== *)
theory Memory_Interface
  imports Prelude
begin

text \<open>
  The contract of byte-addressed guest storage as its clients (the BIOS string leaves, the DMA
  channels) use it. An address names a cell or none; a load of a mapped address reads its
  cell and changes nothing; a store changes that one cell. Several addresses may name one cell (the
  KUSEG, KSEG0 and KSEG1 names and the RAM mirrors), so two addresses are independent when their
  cells differ, not when the addresses do.
\<close>

locale byte_memory =
  fixes rd :: "'s \<Rightarrow> u32 \<Rightarrow> (u8 \<times> 's) option"
    and wr :: "'s \<Rightarrow> u32 \<Rightarrow> u8 \<Rightarrow> 's option"
    and cell :: "u32 \<Rightarrow> 'c option"
    and peek :: "'s \<Rightarrow> 'c \<Rightarrow> u8"
    and ready :: "'s \<Rightarrow> bool"
  assumes rd_mapped: "cell a = Some x \<Longrightarrow> rd s a = Some (peek s x, s)"
    and wr_mapped: "cell a = Some x \<Longrightarrow> ready s \<Longrightarrow>
      \<exists>s'. wr s a v = Some s' \<and> ready s' \<and> (\<forall>y. peek s' y = (if y = x then v else peek s y))"
begin

definition mapped :: "u32 \<Rightarrow> nat \<Rightarrow> bool" where
  "mapped a n \<longleftrightarrow> (\<forall>i<n. cell (a + of_nat i) \<noteq> None)"

text \<open>The bytes at \<open>a\<close>, read through the map.\<close>

definition bytes_at :: "'s \<Rightarrow> u32 \<Rightarrow> nat \<Rightarrow> u8 list" where
  "bytes_at s a n = map (\<lambda>i. peek s (the (cell (a + of_nat i)))) [0..<n]"

text \<open>No cell has two names in the span, and none is shared by the two spans.\<close>

definition injective :: "u32 \<Rightarrow> nat \<Rightarrow> bool" where
  "injective a n \<longleftrightarrow> (\<forall>i<n. \<forall>j<n. cell (a + of_nat i) = cell (a + of_nat j) \<longrightarrow> i = j)"

definition apart :: "u32 \<Rightarrow> nat \<Rightarrow> u32 \<Rightarrow> nat \<Rightarrow> bool" where
  "apart a n b m \<longleftrightarrow> (\<forall>i<n. \<forall>j<m. cell (a + of_nat i) \<noteq> cell (b + of_nat j))"

lemma mapped_cell: "mapped a n \<Longrightarrow> i < n \<Longrightarrow> \<exists>x. cell (a + of_nat i) = Some x"
  by (auto simp: mapped_def)

lemma length_bytes_at [simp]: "length (bytes_at s a n) = n"
  by (simp add: bytes_at_def)

lemma nth_bytes_at: "i < n \<Longrightarrow> bytes_at s a n ! i = peek s (the (cell (a + of_nat i)))"
  by (simp add: bytes_at_def)

lemma rd_bytes_at: "mapped a n \<Longrightarrow> i < n \<Longrightarrow> rd s (a + of_nat i) = Some (bytes_at s a n ! i, s)"
  using mapped_cell [of a n i] by (auto simp: nth_bytes_at rd_mapped)

end

end
