(* ===== verification/Guest_Memory.thy ===== *)
theory Guest_Memory
  imports Memory_Interface
begin

text \<open>
  Guest memory: the physical address map (\<open>core/guest_memory_map.h\<close>), address ranges
  (\<open>core/guest_address_range.h\<close>), the host mapping of a guest span (\<open>Core::host_ptr\<close>), the
  loads and stores of \<open>core/guest_memory.cpp\<close>, the undo log of \<open>core/write_rollback.h\<close> and the
  invalidation ranges of \<open>cpu/invalidation.cpp\<close>.

  RAM and scratchpad are functions from byte offsets to bytes. What lies behind an unmapped
  address (\<open>Core::io_read\<close>, \<open>Core::io_write\<close>) is an argument of the loads and stores that reach
  it; the observers a store is booked with (packet tracking, emission scope, vertex depths) and the
  dynarec's invalidation are the traces \<open>storeLog\<close> and \<open>execWrites\<close>. No override-differential
  journal is attached (the product state) and the store watch, a diagnostic, is off.
\<close>

section \<open>The physical memory map\<close>

definition kPhysicalMask :: u32 where "kPhysicalMask = 0x1FFFFFFF"
definition kKseg0Base :: u32 where "kKseg0Base = 0x80000000"
definition kMainRamBytes :: u32 where "kMainRamBytes = 0x200000"
definition kRamMirrorSpan :: u32 where "kRamMirrorSpan = 0x800000"
definition kScratchpadPhysicalBase :: u32 where "kScratchpadPhysicalBase = 0x1F800000"
definition kScratchpadBytes :: u32 where "kScratchpadBytes = 0x400"

lemmas map_consts = kPhysicalMask_def kKseg0Base_def kMainRamBytes_def kRamMirrorSpan_def
  kScratchpadPhysicalBase_def kScratchpadBytes_def

definition physical :: "u32 \<Rightarrow> u32" where
  "physical address = address AND kPhysicalMask"

definition mainRamOffset :: "u32 \<Rightarrow> u32 option" where
  "mainRamOffset address =
     (let p = physical address
      in if p \<ge> kRamMirrorSpan then None else Some (p AND (kMainRamBytes - 1)))"

definition kseg0Address :: "u32 \<Rightarrow> u32" where
  "kseg0Address address =
     (case mainRamOffset address of Some offset \<Rightarrow> kKseg0Base OR offset | None \<Rightarrow> physical address)"

section \<open>Spans, ranges and the host mapping\<close>

record GuestSpan =
  sp_address :: u32
  sp_bytes :: u32

record GuestAddressRange =
  rg_begin :: u32
  rg_end :: u32

definition range_empty :: "GuestAddressRange \<Rightarrow> bool" where
  "range_empty r \<longleftrightarrow> rg_end r = 0"

definition range_valid :: "GuestAddressRange \<Rightarrow> bool" where
  "range_valid r \<longleftrightarrow> rg_begin r < rg_end r"

definition containsPhysical :: "GuestAddressRange \<Rightarrow> u32 \<Rightarrow> bool" where
  "containsPhysical r address =
     (let p = address AND 0x1FFFFFFF in range_valid r \<and> p \<ge> rg_begin r \<and> p < rg_end r)"

text \<open>A pointer \<open>host_ptr\<close> returns: into \<open>ram\<close> or into \<open>scratch\<close>, at an index.\<close>

datatype host_loc = RamAt u32 | ScratchAt u32

definition host_ptr :: "u32 \<Rightarrow> u32 \<Rightarrow> host_loc option" where
  "host_ptr address bytes =
     (let p = physical address
      in case mainRamOffset p of
           Some offset \<Rightarrow> if offset + bytes \<le> kMainRamBytes then Some (RamAt offset) else None
         | None \<Rightarrow>
             if p \<ge> kScratchpadPhysicalBase \<and> p + bytes \<le> kScratchpadPhysicalBase + kScratchpadBytes
             then Some (ScratchAt (p - kScratchpadPhysicalBase)) else None)"

text \<open>
  The pointer comparisons of \<open>mappedMainRamRange\<close> run in \<open>uintptr_t\<close>, where they cannot wrap;
  \<open>begin\<close> is the index into \<open>ram\<close>.
\<close>

definition mappedMainRamRange :: "u32 \<Rightarrow> u32 \<Rightarrow> GuestAddressRange option" where
  "mappedMainRamRange address bytes =
     (if bytes = 0 then None
      else case host_ptr address bytes of
             None \<Rightarrow> None
           | Some (ScratchAt _) \<Rightarrow> None
           | Some (RamAt b) \<Rightarrow>
               if unat b \<ge> unat kMainRamBytes \<or> unat bytes > unat kMainRamBytes - unat b then None
               else Some \<lparr>rg_begin = b, rg_end = b + bytes\<rparr>)"

section \<open>Invalidation of translated code\<close>

text \<open>
  \<open>notifyExecutableWrite\<close>: nothing for an empty range, everything for one that covers the
  physical space, else one word-aligned physical segment, and a second from address 0 when
  the range runs past the end of the physical space.
\<close>

definition kPhysicalAddressSpaceSize :: nat where
  "kPhysicalAddressSpaceSize = unat kPhysicalMask + 1"

definition invalidatePhysicalSegment :: "u32 \<Rightarrow> u32 \<Rightarrow> GuestAddressRange list" where
  "invalidatePhysicalSegment b length' =
     (if length' = 0 then []
      else [\<lparr>rg_begin = b AND NOT 3,
             rg_end = of_nat ((unat b + unat length' + 3) div 4 * 4)\<rparr>])"

datatype invalidation = InvalidateAll | InvalidateRanges "GuestAddressRange list"

definition invalidationOf :: "GuestAddressRange \<Rightarrow> invalidation" where
  "invalidationOf r =
     (if rg_end r \<le> rg_begin r then InvalidateRanges []
      else let len = unat (rg_end r) - unat (rg_begin r) in
           if len \<ge> kPhysicalAddressSpaceSize then InvalidateAll
           else let b = physical (rg_begin r);
                    first = min len (kPhysicalAddressSpaceSize - unat b);
                    remaining = len - first
                in InvalidateRanges (invalidatePhysicalSegment b (of_nat first) @
                     (if remaining \<noteq> 0 then invalidatePhysicalSegment 0 (of_nat remaining) else [])))"

section \<open>Machine memory\<close>

record rollback_entry =
  re_at :: host_loc
  re_width :: u32
  re_held :: nat

record write_rollback =
  wr_entries :: "rollback_entry list"
  wr_held :: "u8 list"
  wr_armed :: bool

text \<open>
  The source tag a caller passes (\<open>cpu/executable_write_source.h\<close>) labels an invalidation and does
  not change its ranges; it is left out.
\<close>

record 'd core =
  ram :: "u32 \<Rightarrow> u8"
  scratch :: "u32 \<Rightarrow> u8"
  writeRollback :: write_rollback
  displayPassArmed :: bool
  storeLog :: "GuestSpan list"
  execWrites :: "invalidation list"
  dev :: 'd

text \<open>The device side of an access; \<open>None\<close> is the abort of \<open>warn_unmapped_ram\<close>.\<close>

record 'd io_ops =
  io_read :: "'d core \<Rightarrow> u32 \<Rightarrow> u32 \<Rightarrow> (u32 \<times> 'd core) option"
  io_write :: "'d core \<Rightarrow> u32 \<Rightarrow> u32 \<Rightarrow> u32 \<Rightarrow> 'd core option"

fun loc_add :: "host_loc \<Rightarrow> nat \<Rightarrow> host_loc" where
  "loc_add (RamAt o') i = RamAt (o' + of_nat i)"
| "loc_add (ScratchAt o') i = ScratchAt (o' + of_nat i)"

fun byte_at :: "'d core \<Rightarrow> host_loc \<Rightarrow> u8" where
  "byte_at c (RamAt o') = ram c o'"
| "byte_at c (ScratchAt o') = scratch c o'"

fun set_byte :: "'d core \<Rightarrow> host_loc \<Rightarrow> u8 \<Rightarrow> 'd core" where
  "set_byte c (RamAt o') v = c\<lparr>ram := (ram c)(o' := v)\<rparr>"
| "set_byte c (ScratchAt o') v = c\<lparr>scratch := (scratch c)(o' := v)\<rparr>"

definition copy_in :: "'d core \<Rightarrow> host_loc \<Rightarrow> nat \<Rightarrow> u8 list" where
  "copy_in c p n = map (\<lambda>i. byte_at c (loc_add p i)) [0..<n]"

fun copy_out :: "'d core \<Rightarrow> host_loc \<Rightarrow> u8 list \<Rightarrow> 'd core" where
  "copy_out c p [] = c"
| "copy_out c p (b # bs) = copy_out (set_byte c p b) (loc_add p 1) bs"

section \<open>Loads\<close>

definition deviceRead :: "'d io_ops \<Rightarrow> 'd core \<Rightarrow> u32 \<Rightarrow> u32 \<Rightarrow> (u32 \<times> 'd core) option" where
  "deviceRead io c a bytes = io_read io c a bytes"

definition deviceWrite :: "'d io_ops \<Rightarrow> 'd core \<Rightarrow> u32 \<Rightarrow> u32 \<Rightarrow> u32 \<Rightarrow> 'd core option" where
  "deviceWrite io c a v bytes = io_write io c a v bytes"

definition mem_r8 :: "'d io_ops \<Rightarrow> 'd core \<Rightarrow> u32 \<Rightarrow> (u8 \<times> 'd core) option" where
  "mem_r8 io c a =
     (case host_ptr a 1 of
        Some p \<Rightarrow> Some (byte_at c p, c)
      | None \<Rightarrow> do { (v, c') \<leftarrow> deviceRead io c a 1; Some (ucast v, c') })"

definition mem_r16 :: "'d io_ops \<Rightarrow> 'd core \<Rightarrow> u32 \<Rightarrow> (u16 \<times> 'd core) option" where
  "mem_r16 io c a =
     (case host_ptr a 2 of
        None \<Rightarrow> do { (v, c') \<leftarrow> deviceRead io c a 2; Some (ucast v, c') }
      | Some p \<Rightarrow> Some (word_of_bytes (copy_in c p 2), c))"

definition mem_r32 :: "'d io_ops \<Rightarrow> 'd core \<Rightarrow> u32 \<Rightarrow> (u32 \<times> 'd core) option" where
  "mem_r32 io c a =
     (case host_ptr a 4 of
        None \<Rightarrow> deviceRead io c a 4
      | Some p \<Rightarrow> Some (word_of_bytes (copy_in c p 4), c))"

fun read_each :: "'d io_ops \<Rightarrow> 'd core \<Rightarrow> u32 \<Rightarrow> nat \<Rightarrow> (u8 list \<times> 'd core) option" where
  "read_each io c a 0 = Some ([], c)"
| "read_each io c a (Suc n) =
     do { (b, c') \<leftarrow> mem_r8 io c a; (bs, c'') \<leftarrow> read_each io c' (a + 1) n; Some (b # bs, c'') }"

definition readBytes :: "'d io_ops \<Rightarrow> 'd core \<Rightarrow> u32 \<Rightarrow> nat \<Rightarrow> (u8 list \<times> 'd core) option" where
  "readBytes io c address n =
     (case host_ptr address (of_nat n) of
        Some p \<Rightarrow> Some (copy_in c p n, c)
      | None \<Rightarrow> read_each io c address n)"

text \<open>
  \<open>readCString\<close> with a buffer of \<open>cap\<close> bytes: \<open>fuel\<close> is \<open>cap - 1 - i\<close>, the reads the
  loop condition still allows. The result is what the buffer holds before its terminator. A zero
  \<open>cap\<close> would write \<open>out[-1]\<close>; every caller passes the size of an array.
\<close>

fun cstring_loop :: "'d io_ops \<Rightarrow> 'd core \<Rightarrow> u32 \<Rightarrow> nat \<Rightarrow> (u8 list \<times> 'd core) option" where
  "cstring_loop io c a 0 = Some ([], c)"
| "cstring_loop io c a (Suc fuel) =
     do { (ch, c') \<leftarrow> mem_r8 io c a;
          if ch = 0 then Some ([], c')
          else do { (s, c'') \<leftarrow> cstring_loop io c' (a + 1) fuel; Some (ch # s, c'') } }"

definition readCString :: "'d io_ops \<Rightarrow> 'd core \<Rightarrow> u32 \<Rightarrow> nat \<Rightarrow> (u8 list \<times> 'd core) option" where
  "readCString io c address cap = cstring_loop io c address (cap - 1)"

section \<open>Stores and the undo log\<close>

definition rollback_arm :: "write_rollback \<Rightarrow> write_rollback" where
  "rollback_arm r = \<lparr>wr_entries = [], wr_held = [], wr_armed = True\<rparr>"

definition rollback_note :: "write_rollback \<Rightarrow> 'd core \<Rightarrow> host_loc \<Rightarrow> u32 \<Rightarrow> write_rollback" where
  "rollback_note r c p w =
     r\<lparr>wr_entries := wr_entries r @ [\<lparr>re_at = p, re_width = w, re_held = length (wr_held r)\<rparr>],
       wr_held := wr_held r @ copy_in c p (unat w)\<rparr>"

fun undo_entries :: "'d core \<Rightarrow> u8 list \<Rightarrow> rollback_entry list \<Rightarrow> 'd core" where
  "undo_entries c held [] = c"
| "undo_entries c held (e # es) =
     undo_entries (copy_out c (re_at e) (take (unat (re_width e)) (drop (re_held e) held))) held es"

definition rollBack :: "'d core \<Rightarrow> 'd core" where
  "rollBack c =
     (let r = writeRollback c in
      (undo_entries c (wr_held r) (rev (wr_entries r)))
        \<lparr>writeRollback := \<lparr>wr_entries = [], wr_held = [], wr_armed = False\<rparr>\<rparr>)"

definition arm :: "'d core \<Rightarrow> 'd core" where
  "arm c = c\<lparr>writeRollback := rollback_arm (writeRollback c)\<rparr>"

definition display_pass_write_guard :: "'d core \<Rightarrow> u32 \<Rightarrow> u32 \<Rightarrow> unit option" where
  "display_pass_write_guard c a width =
     (if \<not> displayPassArmed c \<or> host_ptr a width = None then Some () else None)"

definition bookStore :: "'d core \<Rightarrow> host_loc option \<Rightarrow> u32 \<Rightarrow> u32 \<Rightarrow> bool \<times> 'd core" where
  "bookStore c p a bytes =
     (case p of
        Some q \<Rightarrow>
          if wr_armed (writeRollback c)
          then (False, c\<lparr>writeRollback := rollback_note (writeRollback c) c q bytes\<rparr>)
          else (True, c\<lparr>storeLog := storeLog c @ [\<lparr>sp_address = a, sp_bytes = bytes\<rparr>]\<rparr>)
      | None \<Rightarrow> (True, c\<lparr>storeLog := storeLog c @ [\<lparr>sp_address = a, sp_bytes = bytes\<rparr>]\<rparr>))"

definition notifyExecutableWrite :: "'d core \<Rightarrow> u32 \<Rightarrow> u32 \<Rightarrow> 'd core" where
  "notifyExecutableWrite c b e =
     c\<lparr>execWrites := execWrites c @ [invalidationOf \<lparr>rg_begin = b, rg_end = e\<rparr>]\<rparr>"

definition writeGuestMemory ::
  "'d io_ops \<Rightarrow> bool \<Rightarrow> u32 \<Rightarrow> 'd core \<Rightarrow> u32 \<Rightarrow> u32 \<Rightarrow> 'd core option" where
  "writeGuestMemory io notify width c a v =
     do { let p = host_ptr a width;
          _ \<leftarrow> display_pass_write_guard c a width;
          let (booked, c1) = bookStore c p a width;
          (case p of
             None \<Rightarrow> deviceWrite io c1 a v width
           | Some q \<Rightarrow>
               let c2 = copy_out c1 q (bytes_of (unat width) v)
               in Some (if notify \<and> booked then notifyExecutableWrite c2 a (a + width) else c2)) }"

definition mem_w8 :: "'d io_ops \<Rightarrow> 'd core \<Rightarrow> u32 \<Rightarrow> u8 \<Rightarrow> 'd core option" where
  "mem_w8 io c a v = writeGuestMemory io True 1 c a (ucast v)"

definition mem_w16 :: "'d io_ops \<Rightarrow> 'd core \<Rightarrow> u32 \<Rightarrow> u16 \<Rightarrow> 'd core option" where
  "mem_w16 io c a v = writeGuestMemory io True 2 c a (ucast v)"

definition mem_w32 :: "'d io_ops \<Rightarrow> 'd core \<Rightarrow> u32 \<Rightarrow> u32 \<Rightarrow> 'd core option" where
  "mem_w32 io c a v = writeGuestMemory io True 4 c a v"

definition mem_w8_unnotified :: "'d io_ops \<Rightarrow> 'd core \<Rightarrow> u32 \<Rightarrow> u8 \<Rightarrow> 'd core option" where
  "mem_w8_unnotified io c a v = writeGuestMemory io False 1 c a (ucast v)"

definition mem_w32_unnotified :: "'d io_ops \<Rightarrow> 'd core \<Rightarrow> u32 \<Rightarrow> u32 \<Rightarrow> 'd core option" where
  "mem_w32_unnotified io c a v = writeGuestMemory io False 4 c a v"

fun write_each :: "'d io_ops \<Rightarrow> 'd core \<Rightarrow> u32 \<Rightarrow> u8 list \<Rightarrow> 'd core option" where
  "write_each io c a [] = Some c"
| "write_each io c a (b # bs) =
     do { c' \<leftarrow> mem_w8_unnotified io c a b; write_each io c' (a + 1) bs }"

definition mem_write :: "'d io_ops \<Rightarrow> 'd core \<Rightarrow> u32 \<Rightarrow> u8 list \<Rightarrow> 'd core option" where
  "mem_write io c a bytes =
     (if bytes = [] then Some c
      else let size' = of_nat (length bytes) in
        case host_ptr a size' of
          None \<Rightarrow> do { c' \<leftarrow> write_each io c a bytes; Some (notifyExecutableWrite c' a (a + size')) }
        | Some q \<Rightarrow>
            do { _ \<leftarrow> display_pass_write_guard c a size';
                 let (booked, c1) = bookStore c (Some q) a size';
                 let c2 = copy_out c1 q bytes;
                 Some (if booked then notifyExecutableWrite c2 a (a + size') else c2) })"


section \<open>The map: names of one byte\<close>

lemma physical_idem [simp]: "physical (physical a) = physical a"
  by (simp add: physical_def and.assoc)

lemma mainRamOffset_physical [simp]: "mainRamOffset (physical a) = mainRamOffset a"
  by (simp add: mainRamOffset_def)

lemma unat_and_mask_less: "unat (x AND 0x1FFFFF :: u32) < 0x200000"
  using unat_and_le [of x "0x1FFFFF"] by simp

lemma mainRamOffset_bound: "mainRamOffset a = Some off \<Longrightarrow> unat off < 0x200000"
  by (auto simp: mainRamOffset_def map_consts Let_def unat_and_mask_less split: if_splits)

lemma mainRamOffset_fix: "mainRamOffset a = Some off \<Longrightarrow> off AND 0x1FFFFF = off"
  by (auto simp: mainRamOffset_def map_consts Let_def and.assoc split: if_splits)

lemma kseg0_of_offset:
  assumes "off AND 0x1FFFFF = (off :: u32)"
  shows "physical (kKseg0Base OR off) = off" and "mainRamOffset (kKseg0Base OR off) = Some off"
proof -
  have small: "unat off < 0x200000"
    using unat_and_mask_less [of off] by (simp add: assms)
  have "off AND 0x1FFFFFFF = off AND (0x1FFFFF AND 0x1FFFFFFF)"
    by (metis and.assoc assms)
  then have "(0x80000000 OR off) AND 0x1FFFFFFF = off"
    by (simp add: bit.conj_disj_distrib2 assms)
  then show p: "physical (kKseg0Base OR off) = off"
    by (simp add: physical_def map_consts)
  have "off < 0x800000" using small by (simp add: word_less_nat_alt)
  then show "mainRamOffset (kKseg0Base OR off) = Some off"
    using assms p by (simp add: mainRamOffset_def map_consts)
qed


lemma host_ptr_physical [simp]: "host_ptr (physical a) n = host_ptr a n"
  by (simp add: host_ptr_def)

lemma host_ptr_offset:
  "mainRamOffset a = Some off \<Longrightarrow>
     host_ptr a n = (if off + n \<le> kMainRamBytes then Some (RamAt off) else None)"
  by (simp add: host_ptr_def)

lemma host_ptr_kseg0: "host_ptr (kseg0Address a) n = host_ptr a n"
  by (auto simp: kseg0Address_def host_ptr_offset kseg0_of_offset mainRamOffset_fix
      split: option.split)

lemma mainRamOffset_kseg0: "mainRamOffset (kseg0Address a) = mainRamOffset a"
  by (auto simp: kseg0Address_def kseg0_of_offset mainRamOffset_fix split: option.split)

lemma kseg0Address_idem: "kseg0Address (kseg0Address a) = kseg0Address a"
  unfolding kseg0Address_def [of "kseg0Address a"] mainRamOffset_kseg0
  by (auto simp: kseg0Address_def split: option.split)

lemma host_ptr_cases:
  assumes "host_ptr a n = Some p" and "unat n < 2 ^ 31"
  shows "(\<exists>off. p = RamAt off \<and> mainRamOffset a = Some off \<and> unat off + unat n \<le> 0x200000) \<or>
    (\<exists>off. p = ScratchAt off \<and> mainRamOffset a = None \<and> unat off + unat n \<le> 0x400)"
proof (cases "mainRamOffset a")
  case (Some off)
  note b = mainRamOffset_bound [OF Some]
  have "unat (off + n) = unat off + unat n"
    using b assms(2) by (intro unat_add_small) simp
  with Some assms(1) show ?thesis
    by (auto simp: host_ptr_offset map_consts word_le_nat_alt split: if_splits)
next
  case None
  let ?p = "physical a" and ?b = "0x1F800000 :: u32"
  have p: "unat ?p \<le> 0x1FFFFFFF"
    using unat_and_le [of a "0x1FFFFFFF"] by (simp add: physical_def map_consts)
  have sum: "unat (?p + n) = unat ?p + unat n"
    using p assms(2) by (intro unat_add_small) simp
  from None assms(1) have base: "?p \<ge> ?b" and le: "?p + n \<le> ?b + 0x400"
    and loc: "p = ScratchAt (?p - ?b)"
    by (auto simp: host_ptr_def map_consts Let_def split: if_splits)
  have "unat (?p - ?b) = unat ?p - 0x1F800000"
    using base by (simp add: unat_sub)
  moreover have "unat ?p + unat n \<le> 0x1F800400"
    using le sum by (simp add: word_le_nat_alt)
  moreover have "0x1F800000 \<le> unat ?p"
    using base by (simp add: word_le_nat_alt)
  ultimately show ?thesis using loc None by auto
qed

section \<open>Bytes under copies\<close>

definition same_mem :: "'d core \<Rightarrow> 'd core \<Rightarrow> bool" where
  "same_mem c d \<longleftrightarrow> (\<forall>q. byte_at c q = byte_at d q)"

lemma same_mem_iff: "same_mem c d \<longleftrightarrow> ram c = ram d \<and> scratch c = scratch d"
  unfolding same_mem_def
proof (intro iffI conjI allI ext)
  fix x assume *: "\<forall>q. byte_at c q = byte_at d q"
  from * [rule_format, of "RamAt x"] show "ram c x = ram d x" by simp
  from * [rule_format, of "ScratchAt x"] show "scratch c x = scratch d x" by simp
next
  fix q assume "ram c = ram d \<and> scratch c = scratch d"
  then show "byte_at c q = byte_at d q" by (cases q) auto
qed

lemma same_mem_refl [simp]: "same_mem c c"
  by (simp add: same_mem_def)

lemma byte_at_set_byte: "byte_at (set_byte c p v) q = (if q = p then v else byte_at c q)"
  by (cases p; cases q) auto

lemma loc_add_add [simp]: "loc_add (loc_add p i) j = loc_add p (i + j)"
  by (cases p) (simp_all add: add.assoc)

lemma loc_add_0 [simp]: "loc_add p 0 = p"
  by (cases p) simp_all

lemma loc_add_inj: "loc_add p i = loc_add p j \<Longrightarrow> i < 2 ^ 32 \<Longrightarrow> j < 2 ^ 32 \<Longrightarrow> i = j"
  by (cases p) (auto dest: of_nat_inj_small)

lemma byte_at_copy_out_other:
  "(\<And>i. i < length bs \<Longrightarrow> q \<noteq> loc_add p i) \<Longrightarrow> byte_at (copy_out c p bs) q = byte_at c q"
proof (induction bs arbitrary: c p)
  case Nil
  then show ?case by simp
next
  case (Cons b bs)
  have "q \<noteq> p" using Cons.prems [of 0] by simp
  moreover have "q \<noteq> loc_add (loc_add p 1) i" if "i < length bs" for i
    using Cons.prems [of "Suc i"] that by simp
  ultimately show ?case by (simp add: Cons.IH byte_at_set_byte)
qed

lemma byte_at_copy_out_at:
  "i < length bs \<Longrightarrow> length bs \<le> 2 ^ 32 \<Longrightarrow> byte_at (copy_out c p bs) (loc_add p i) = bs ! i"
proof (induction bs arbitrary: c p i)
  case Nil
  then show ?case by simp
next
  case (Cons b bs)
  show ?case
  proof (cases i)
    case 0
    have "p \<noteq> loc_add (loc_add p 1) j" if "j < length bs" for j
      using loc_add_inj [of p 0 "Suc j"] that Cons.prems by auto
    with 0 show ?thesis by (simp add: byte_at_copy_out_other byte_at_set_byte)
  next
    case (Suc k)
    with Cons.IH [of k "set_byte c p b" "loc_add p 1"] Cons.prems show ?thesis by simp
  qed
qed

lemma length_copy_in [simp]: "length (copy_in c p n) = n"
  by (simp add: copy_in_def)

lemma nth_copy_in [simp]: "i < n \<Longrightarrow> copy_in c p n ! i = byte_at c (loc_add p i)"
  by (simp add: copy_in_def)

lemma copy_in_copy_out: "length bs \<le> 2 ^ 32 \<Longrightarrow> copy_in (copy_out c p bs) p (length bs) = bs"
  by (rule nth_equalityI) (simp_all add: byte_at_copy_out_at)

text \<open>Writing the old bytes back over a store restores every byte.\<close>

lemma copy_out_undo:
  assumes "length new = n" and "n \<le> 2 ^ 32"
  shows "same_mem (copy_out (copy_out c p new) p (copy_in c p n)) c"
  unfolding same_mem_def
proof
  fix q
  show "byte_at (copy_out (copy_out c p new) p (copy_in c p n)) q = byte_at c q"
  proof (cases "\<exists>i<n. q = loc_add p i")
    case True
    then show ?thesis using assms by (auto simp: byte_at_copy_out_at)
  next
    case False
    then have "byte_at (copy_out (copy_out c p new) p (copy_in c p n)) q = byte_at (copy_out c p new) q"
      by (intro byte_at_copy_out_other) auto
    also have "\<dots> = byte_at c q"
      using False assms by (intro byte_at_copy_out_other) auto
    finally show ?thesis .
  qed
qed

lemma same_mem_copy_out: "same_mem c d \<Longrightarrow> same_mem (copy_out c p bs) (copy_out d p bs)"
proof (induction bs arbitrary: c d p)
  case (Cons b bs)
  have "same_mem (set_byte c p b) (set_byte d p b)"
    using Cons.prems by (simp add: same_mem_def byte_at_set_byte)
  with Cons.IH show ?case by simp
qed simp

lemma same_mem_undo: "same_mem c d \<Longrightarrow> same_mem (undo_entries c h es) (undo_entries d h es)"
  by (induction es arbitrary: c d) (auto intro: same_mem_copy_out)


section \<open>Stores into guest storage\<close>

lemma byte_at_record [simp]:
  "byte_at (c\<lparr>writeRollback := r\<rparr>) q = byte_at c q"
  "byte_at (c\<lparr>storeLog := l\<rparr>) q = byte_at c q"
  "byte_at (c\<lparr>execWrites := w\<rparr>) q = byte_at c q"
  by (cases q; simp)+

lemma set_byte_frame [frame_simps]:
  "writeRollback (set_byte c p v) = writeRollback c"
  "displayPassArmed (set_byte c p v) = displayPassArmed c"
  "storeLog (set_byte c p v) = storeLog c"
  "execWrites (set_byte c p v) = execWrites c"
  "dev (set_byte c p v) = dev c"
  by (cases p; simp)+

lemma copy_out_frame [frame_simps]:
  "writeRollback (copy_out c p bs) = writeRollback c"
  "displayPassArmed (copy_out c p bs) = displayPassArmed c"
  "storeLog (copy_out c p bs) = storeLog c"
  "execWrites (copy_out c p bs) = execWrites c"
  "dev (copy_out c p bs) = dev c"
  by (induction bs arbitrary: c p) (simp_all add: frame_simps)

lemma same_mem_record [simp]:
  "same_mem (c\<lparr>writeRollback := r\<rparr>) d \<longleftrightarrow> same_mem c d"
  "same_mem c (d\<lparr>writeRollback := r\<rparr>) \<longleftrightarrow> same_mem c d"
  "same_mem (c\<lparr>storeLog := l\<rparr>) d \<longleftrightarrow> same_mem c d"
  "same_mem (c\<lparr>execWrites := w\<rparr>) d \<longleftrightarrow> same_mem c d"
  by (simp_all add: same_mem_def)

text \<open>The effect of a store whose span is guest storage: the bytes, the traces, the log.\<close>

definition stored :: "bool \<Rightarrow> 'd core \<Rightarrow> host_loc \<Rightarrow> u32 \<Rightarrow> u32 \<Rightarrow> u8 list \<Rightarrow> 'd core" where
  "stored notify c q a n bs =
     (let (booked, c1) = bookStore c (Some q) a n;
          c2 = copy_out c1 q bs
      in if notify \<and> booked then notifyExecutableWrite c2 a (a + n) else c2)"

lemma writeGuestMemory_mapped:
  "host_ptr a n = Some q \<Longrightarrow> \<not> displayPassArmed c \<Longrightarrow>
     writeGuestMemory io notify n c a v = Some (stored notify c q a n (bytes_of (unat n) v))"
  by (simp add: writeGuestMemory_def display_pass_write_guard_def stored_def Let_def split: prod.split)

lemma mem_write_mapped:
  "host_ptr a (of_nat (length bs)) = Some q \<Longrightarrow> bs \<noteq> [] \<Longrightarrow> \<not> displayPassArmed c \<Longrightarrow>
     mem_write io c a bs = Some (stored True c q a (of_nat (length bs)) bs)"
  by (simp add: mem_write_def display_pass_write_guard_def stored_def Let_def split: prod.split)

lemma byte_at_stored [simp]: "byte_at (stored nt c q a n bs) p = byte_at (copy_out c q bs) p"
proof -
  have "same_mem (copy_out (snd (bookStore c (Some q) a n)) q bs) (copy_out c q bs)"
    by (rule same_mem_copy_out) (simp add: bookStore_def)
  then show ?thesis
    by (auto simp: stored_def same_mem_def notifyExecutableWrite_def Let_def split: prod.splits)
qed

lemma stored_frame [frame_simps]:
  "displayPassArmed (stored nt c q a n bs) = displayPassArmed c"
  "dev (stored nt c q a n bs) = dev c"
  by (simp_all add: stored_def bookStore_def notifyExecutableWrite_def Let_def frame_simps)

text \<open>
  The byte accessors are an instance of the storage contract, on the RAM and scratchpad cells and while
  no display pass is armed.
\<close>

interpretation gm: byte_memory "mem_r8 io" "mem_w8 io" "\<lambda>a. host_ptr a 1" byte_at
  "\<lambda>c. \<not> displayPassArmed c" for io
proof unfold_locales
  fix a x s
  assume "host_ptr a 1 = Some x"
  then show "mem_r8 io s a = Some (byte_at s x, s)" by (simp add: mem_r8_def)
next
  fix a x and s :: "'a core" and v :: u8
  assume a: "host_ptr a 1 = Some x" and r: "\<not> displayPassArmed s"
  let ?s = "stored True s x a 1 (bytes_of 1 (ucast v :: u32))"
  have "mem_w8 io s a v = Some ?s"
    using writeGuestMemory_mapped [OF a r] by (simp add: mem_w8_def)
  moreover have "bytes_of 1 (ucast v :: u32) = [v]"
    by (simp add: bytes_of_def byte_of_def)
  ultimately show "\<exists>s'. mem_w8 io s a v = Some s' \<and> \<not> displayPassArmed s' \<and>
      (\<forall>y. byte_at s' y = (if y = x then v else byte_at s y))"
    using r by (intro exI [of _ ?s]) (simp add: frame_simps byte_at_set_byte)
qed


section \<open>Loads after stores\<close>

lemma copy_in_stored:
  "length bs = n \<Longrightarrow> n \<le> 2 ^ 32 \<Longrightarrow> copy_in (stored nt c q a k bs) q n = bs"
  by (rule nth_equalityI) (simp_all add: byte_at_copy_out_at)

lemma mem_r32_mapped:
  "host_ptr b 4 = Some q \<Longrightarrow> mem_r32 io c b = Some (word_of_bytes (copy_in c q 4), c)"
  by (simp add: mem_r32_def)

text \<open>A word stored at one name of a RAM or scratchpad word is what a load at any other
  name of the same word returns, whatever segment or mirror either address uses; a store
  outside the display pass always succeeds there, and the load changes nothing.\<close>

theorem word_store_load:
  assumes "host_ptr a 4 = Some q" and "host_ptr b 4 = Some q" and "\<not> displayPassArmed c"
  shows "\<exists>c'. mem_w32 io c a v = Some c' \<and> mem_r32 io c' b = Some (v, c')"
proof -
  let ?c = "stored True c q a 4 (bytes_of 4 v)"
  have "mem_w32 io c a v = Some ?c"
    using writeGuestMemory_mapped [OF assms(1,3)] by (simp add: mem_w32_def)
  moreover have "mem_r32 io ?c b = Some (v, ?c)"
    using assms(2) by (simp add: mem_r32_mapped copy_in_stored)
  ultimately show ?thesis by blast
qed

section \<open>The undo log\<close>

text \<open>A guest store, as the CPU callbacks, the HLE and the loaders issue it.\<close>

datatype guest_store = St8 u32 u8 | St16 u32 u16 | St32 u32 u32 | StSpan u32 "u8 list"

fun do_store :: "'d io_ops \<Rightarrow> 'd core \<Rightarrow> guest_store \<Rightarrow> 'd core option" where
  "do_store io c (St8 a v) = mem_w8 io c a v"
| "do_store io c (St16 a v) = mem_w16 io c a v"
| "do_store io c (St32 a v) = mem_w32 io c a v"
| "do_store io c (StSpan a bs) = mem_write io c a bs"

fun do_stores :: "'d io_ops \<Rightarrow> 'd core \<Rightarrow> guest_store list \<Rightarrow> 'd core option" where
  "do_stores io c [] = Some c"
| "do_stores io c (st # sts) = do { c' \<leftarrow> do_store io c st; do_stores io c' sts }"

text \<open>The store lands in guest storage.\<close>

fun store_mapped :: "guest_store \<Rightarrow> bool" where
  "store_mapped (St8 a v) \<longleftrightarrow> host_ptr a 1 \<noteq> None"
| "store_mapped (St16 a v) \<longleftrightarrow> host_ptr a 2 \<noteq> None"
| "store_mapped (St32 a v) \<longleftrightarrow> host_ptr a 4 \<noteq> None"
| "store_mapped (StSpan a bs) \<longleftrightarrow>
     length bs < 2 ^ 32 \<and> (bs = [] \<or> host_ptr a (of_nat (length bs)) \<noteq> None)"

text \<open>The log of a run from \<open>c0\<close>: undoing it gives back the memory of \<open>c0\<close>.\<close>

definition log_ok :: "'d core \<Rightarrow> 'd core \<Rightarrow> bool" where
  "log_ok c0 c \<longleftrightarrow>
     (let r = writeRollback c in
       wr_armed r \<and>
       (\<forall>e\<in>set (wr_entries r). re_held e + unat (re_width e) \<le> length (wr_held r)) \<and>
       same_mem (undo_entries c (wr_held r) (rev (wr_entries r))) c0)"

lemma undo_entries_held_append:
  "\<forall>e\<in>set es. re_held e + unat (re_width e) \<le> length h \<Longrightarrow>
     undo_entries c (h @ h') es = undo_entries c h es"
proof (induction es arbitrary: c)
  case (Cons e es)
  have "re_held e + unat (re_width e) \<le> length h" using Cons.prems by simp
  then have *: "take (unat (re_width e)) (drop (re_held e) (h @ h')) =
      take (unat (re_width e)) (drop (re_held e) h)"
    by simp
  show ?case unfolding undo_entries.simps * using Cons by simp
qed simp

lemma stored_armed:
  assumes "wr_armed (writeRollback c)"
  shows "stored nt c q a n bs =
    copy_out (c\<lparr>writeRollback := rollback_note (writeRollback c) c q n\<rparr>) q bs"
  using assms by (simp add: stored_def bookStore_def Let_def)

lemma log_ok_stored:
  assumes ok: "log_ok c0 c" and len: "length bs = unat n"
  shows "log_ok c0 (stored nt c q a n bs)"
proof -
  let ?r = "writeRollback c" and ?old = "copy_in c q (unat n)"
  let ?c1 = "c\<lparr>writeRollback := rollback_note ?r c q n\<rparr>"
  have armed: "wr_armed ?r" using ok by (simp add: log_ok_def Let_def)
  have n: "unat n < 2 ^ 32" using unat_less [of n] by simp
  have in_h: "\<forall>e\<in>set (rev (wr_entries ?r)).
      re_held e + unat (re_width e) \<le> length (wr_held ?r)"
    using ok by (auto simp: log_ok_def Let_def)
  have cin: "copy_in ?c1 q (unat n) = ?old"
    by (simp add: copy_in_def)
  have "same_mem (copy_out (copy_out ?c1 q bs) q ?old) ?c1"
    using copy_out_undo [of bs "unat n" ?c1 q] len n by (simp add: cin)
  then have "same_mem (copy_out (copy_out ?c1 q bs) q ?old) c" by simp
  from same_mem_undo [OF this, of "wr_held ?r" "rev (wr_entries ?r)"] ok
  have "same_mem (undo_entries (copy_out (copy_out ?c1 q bs) q ?old) (wr_held ?r)
      (rev (wr_entries ?r))) c0"
    by (auto simp: log_ok_def Let_def same_mem_def)
  moreover have "undo_entries (stored nt c q a n bs) (wr_held ?r @ ?old)
      (rev (wr_entries ?r @ [\<lparr>re_at = q, re_width = n, re_held = length (wr_held ?r)\<rparr>])) =
      undo_entries (copy_out (copy_out ?c1 q bs) q ?old) (wr_held ?r) (rev (wr_entries ?r))"
    using undo_entries_held_append [OF in_h] by (simp add: stored_armed [OF armed])
  moreover have "writeRollback (stored nt c q a n bs) = rollback_note ?r c q n"
    by (simp add: stored_armed [OF armed] frame_simps)
  ultimately show ?thesis
    using in_h armed by (auto simp: log_ok_def Let_def rollback_note_def intro: trans_le_add1)
qed

lemma stored_armed_frame:
  assumes "wr_armed (writeRollback c)"
  shows "storeLog (stored nt c q a n bs) = storeLog c"
    and "execWrites (stored nt c q a n bs) = execWrites c"
  using assms by (simp_all add: stored_armed frame_simps)

lemma log_ok_armed: "log_ok c0 c \<Longrightarrow> wr_armed (writeRollback c)"
  by (simp add: log_ok_def Let_def)

text \<open>What a mapped store does, whichever entry point it uses.\<close>

lemma do_store_cases:
  assumes "store_mapped st" and "\<not> displayPassArmed c"
  shows "do_store io c st = Some c \<or>
    (\<exists>q a n bs. do_store io c st = Some (stored True c q a n bs) \<and> length bs = unat n)"
proof (cases st)
  case (St8 a v)
  with assms obtain q where q: "host_ptr a 1 = Some q" by auto
  show ?thesis using writeGuestMemory_mapped [OF q assms(2), of io True "ucast v"] St8
    by (fastforce simp: mem_w8_def)
next
  case (St16 a v)
  with assms obtain q where q: "host_ptr a 2 = Some q" by auto
  show ?thesis using writeGuestMemory_mapped [OF q assms(2), of io True "ucast v"] St16
    by (fastforce simp: mem_w16_def)
next
  case (St32 a v)
  with assms obtain q where q: "host_ptr a 4 = Some q" by auto
  show ?thesis using writeGuestMemory_mapped [OF q assms(2), of io True v] St32
    by (fastforce simp: mem_w32_def)
next
  case (StSpan a bs)
  show ?thesis
  proof (cases "bs = []")
    case True
    with StSpan show ?thesis by (simp add: mem_write_def)
  next
    case False
    with StSpan assms obtain q where q: "host_ptr a (of_nat (length bs)) = Some q" by auto
    have "unat (of_nat (length bs) :: u32) = length bs" using StSpan assms by simp
    with mem_write_mapped [OF q False assms(2), of io] StSpan show ?thesis by fastforce
  qed
qed

text \<open>What a run of mapped stores keeps while the log is armed.\<close>

definition rb_inv :: "'d core \<Rightarrow> 'd core \<Rightarrow> bool" where
  "rb_inv c0 c \<longleftrightarrow> log_ok c0 c \<and> \<not> displayPassArmed c \<and>
     storeLog c = storeLog c0 \<and> execWrites c = execWrites c0 \<and> dev c = dev c0"

lemma rb_inv_store:
  assumes "rb_inv c0 c" and "store_mapped st"
  shows "\<exists>c'. do_store io c st = Some c' \<and> rb_inv c0 c'"
proof -
  have inv: "log_ok c0 c" "\<not> displayPassArmed c" using assms(1) by (auto simp: rb_inv_def)
  note armed = log_ok_armed [OF inv(1)]
  have "rb_inv c0 (stored True c q a n bs)" if "length bs = unat n" for q a n bs
    using assms(1) log_ok_stored [OF inv(1) that] stored_armed_frame [OF armed]
    by (simp add: rb_inv_def frame_simps)
  with do_store_cases [OF assms(2) inv(2), of io] assms(1) show ?thesis by blast
qed

lemma rb_inv_stores:
  "rb_inv c0 c \<Longrightarrow> list_all store_mapped sts \<Longrightarrow> \<exists>c'. do_stores io c sts = Some c' \<and> rb_inv c0 c'"
proof (induction sts arbitrary: c)
  case (Cons st sts)
  from rb_inv_store [OF Cons.prems(1), of st io] Cons.prems(2)
  obtain c1 where c1: "do_store io c st = Some c1" "rb_inv c0 c1" by auto
  with Cons.IH [OF c1(2)] Cons.prems(2) show ?case by simp
qed auto

lemma undo_entries_frame [frame_simps]:
  "displayPassArmed (undo_entries c h es) = displayPassArmed c"
  "storeLog (undo_entries c h es) = storeLog c"
  "execWrites (undo_entries c h es) = execWrites c"
  "dev (undo_entries c h es) = dev c"
  by (induction es arbitrary: c) (simp_all add: frame_simps)

text \<open>C1: A run of guest stores under the armed undo log, whatever their widths and however they
  overlap or alias, is undone exactly by \<open>rollBack\<close>: RAM and scratchpad are as they were when the log
  was armed, no store was booked with an observer, no translated code was invalidated, and the log is
  disarmed and empty.\<close>

theorem rollback_restores:
  assumes "list_all store_mapped sts" and "\<not> displayPassArmed c"
  shows "\<exists>c'. do_stores io (arm c) sts = Some c' \<and>
    ram (rollBack c') = ram c \<and> scratch (rollBack c') = scratch c \<and>
    storeLog (rollBack c') = storeLog c \<and> execWrites (rollBack c') = execWrites c \<and>
    writeRollback (rollBack c') = \<lparr>wr_entries = [], wr_held = [], wr_armed = False\<rparr>"
proof -
  have "rb_inv c (arm c)"
    using assms(2) by (simp add: rb_inv_def log_ok_def arm_def rollback_arm_def)
  from rb_inv_stores [OF this assms(1), of io] obtain c'
    where run: "do_stores io (arm c) sts = Some c'" and inv: "rb_inv c c'" by blast
  have "same_mem (undo_entries c' (wr_held (writeRollback c')) (rev (wr_entries (writeRollback c')))) c"
    using inv by (simp add: rb_inv_def log_ok_def Let_def)
  with run inv show ?thesis
    by (auto simp: same_mem_iff rollBack_def Let_def rb_inv_def frame_simps)
qed

section \<open>Invalidation\<close>

text \<open>The physical address \<open>p\<close> is inside an invalidated range.\<close>

fun invalidates :: "invalidation \<Rightarrow> u32 \<Rightarrow> bool" where
  "invalidates InvalidateAll p \<longleftrightarrow> True"
| "invalidates (InvalidateRanges rs) p \<longleftrightarrow>
     list_ex (\<lambda>r. unat (rg_begin r) \<le> unat p \<and> unat p < unat (rg_end r)) rs"

lemma unat_and_not3: "unat (b AND NOT 3 :: u32) \<le> unat b"
  using unat_and_le [of "NOT 3" b] by (simp add: and.commute)

lemma unat_physical: "unat (physical a) = unat a mod 2 ^ 29"
proof -
  have "physical a = take_bit 29 a"
    by (simp add: physical_def map_consts take_bit_eq_mask mask_eq_exp_minus_1)
  then have "unat (physical a) = take_bit 29 (unat a)" by (simp only: unsigned_take_bit_eq)
  then show ?thesis by (simp only: take_bit_eq_mod)
qed

lemma segment_covers:
  assumes "unat p < kPhysicalAddressSpaceSize" and "unat b \<le> unat p" and "unat p < unat b + unat n"
    and "unat b + unat n \<le> kPhysicalAddressSpaceSize"
  shows "invalidates (InvalidateRanges (invalidatePhysicalSegment b n)) p"
proof -
  have n: "n \<noteq> 0" using assms(2,3) by auto
  have k: "kPhysicalAddressSpaceSize = 0x20000000"
    by (simp add: kPhysicalAddressSpaceSize_def map_consts)
  let ?e = "(unat b + unat n + 3) div 4 * 4"
  have "?e < 2 ^ 32" using assms(4) k by simp
  then have "unat (of_nat ?e :: u32) = ?e" by (intro unat_of_nat_small) simp
  moreover have "unat b + unat n \<le> ?e" by presburger
  ultimately show ?thesis
    using n assms unat_and_not3 [of b] by (simp add: invalidatePhysicalSegment_def)
qed

text \<open>Below the size of the physical space a notification is one segment, or two when it wraps.\<close>

lemma invalidation_segments:
  fixes r :: GuestAddressRange
  defines "len \<equiv> unat (rg_end r) - unat (rg_begin r)" and "b \<equiv> physical (rg_begin r)"
  defines "first \<equiv> min len (kPhysicalAddressSpaceSize - unat b)"
  assumes "rg_begin r < rg_end r" and "len < kPhysicalAddressSpaceSize"
  shows "invalidationOf r = InvalidateRanges (invalidatePhysicalSegment b (of_nat first) @
      (if len - first \<noteq> 0 then invalidatePhysicalSegment 0 (of_nat (len - first)) else []))"
    and "unat (of_nat first :: u32) = first" and "unat (of_nat (len - first) :: u32) = len - first"
proof -
  have K: "kPhysicalAddressSpaceSize = 2 ^ 29" by (simp add: kPhysicalAddressSpaceSize_def map_consts)
  show "unat (of_nat first :: u32) = first" "unat (of_nat (len - first) :: u32) = len - first"
    using assms(5) K by (intro unat_of_nat_small; simp add: first_def)+
  show "invalidationOf r = InvalidateRanges (invalidatePhysicalSegment b (of_nat first) @
      (if len - first \<noteq> 0 then invalidatePhysicalSegment 0 (of_nat (len - first)) else []))"
    using assms(4) [unfolded not_le [symmetric]] assms(5)
    unfolding invalidationOf_def Let_def len_def b_def first_def by simp
qed

text \<open>C22: An executable-write notification over a non-empty range leaves no translated code behind:
  every physical byte of the range is inside an invalidated range, also when the range crosses the
  end of the 512 MiB physical space.\<close>

theorem invalidation_covers:
  assumes "rg_begin r < rg_end r" and "i < unat (rg_end r) - unat (rg_begin r)"
  shows "invalidates (invalidationOf r) (physical (rg_begin r + of_nat i))"
proof (cases "unat (rg_end r) - unat (rg_begin r) \<ge> kPhysicalAddressSpaceSize")
  case True
  with assms show ?thesis by (simp add: invalidationOf_def Let_def not_le [symmetric])
next
  case False
  let ?len = "unat (rg_end r) - unat (rg_begin r)" and ?b = "physical (rg_begin r)"
  let ?K = "kPhysicalAddressSpaceSize"
  let ?first = "min ?len (?K - unat ?b)" and ?p = "physical (rg_begin r + of_nat i)"
  have K: "?K = 2 ^ 29" by (simp add: kPhysicalAddressSpaceSize_def map_consts)
  have ph: "unat (physical x) = unat x mod 2 ^ 29" for x
    by (simp add: unat_physical)
  have b: "unat ?b < ?K" and p: "unat ?p < ?K" by (simp_all add: ph K)
  have i: "i < 2 ^ 29" using assms(2) False K by simp
  have sum: "unat (rg_begin r + of_nat i) = unat (rg_begin r) + i"
    using assms unat_less [of "rg_end r"] i by (subst unat_add_small) simp_all
  have pp: "unat ?p = (unat ?b + i) mod 2 ^ 29"
    by (simp add: ph sum mod_simps)
  note seg = invalidation_segments [OF assms(1)]
  note eq = seg(1) [OF False [unfolded not_le]]
  have fits: "unat (of_nat ?first :: u32) = ?first" "unat (of_nat (?len - ?first) :: u32) = ?len - ?first"
    using seg(2,3) False by simp_all
  show ?thesis
  proof (cases "unat ?b + i < ?K")
    case True
    then have "unat ?p = unat ?b + i" using K pp by simp
    moreover have "i < ?first" using True assms(2) b by simp
    moreover have "unat ?b + ?first \<le> ?K" using b min.cobounded2 [of ?len "?K - unat ?b"] by linarith
    ultimately have "invalidates (InvalidateRanges (invalidatePhysicalSegment ?b (of_nat ?first))) ?p"
      using p by (intro segment_covers) (simp_all only: fits)
    then show ?thesis unfolding eq by simp
  next
    case wrap: False
    then have q: "unat ?p = unat ?b + i - ?K"
      using K pp b i by (simp add: le_mod_geq)
    have rest: "?len - ?first = ?len - (?K - unat ?b)" "?len - ?first \<noteq> 0"
      using wrap b assms(2) by auto
    have "unat ?p < ?len - ?first" using q rest(1) assms(2) wrap b by linarith
    moreover have "?len - ?first \<le> ?K" using False by linarith
    ultimately have "invalidates
        (InvalidateRanges (invalidatePhysicalSegment 0 (of_nat (?len - ?first)))) ?p"
      using p by (intro segment_covers) (simp_all only: fits unsigned_0 add_0 le0)
    then show ?thesis
      unfolding eq if_P [OF rest(2)] by (simp only: invalidates.simps list_ex_append) blast
  qed
qed


section \<open>The host mapping\<close>

text \<open>Every segment and mirror name of a RAM byte folds to one KSEG0 address that maps to the same
  host bytes, folding is idempotent, and two RAM addresses fold together exactly when they name the
  same byte of RAM.\<close>

theorem kseg0_canonical:
  "host_ptr (kseg0Address a) n = host_ptr a n \<and> kseg0Address (kseg0Address a) = kseg0Address a \<and>
   (mainRamOffset a \<noteq> None \<longrightarrow> mainRamOffset b \<noteq> None \<longrightarrow>
     (kseg0Address a = kseg0Address b \<longleftrightarrow> mainRamOffset a = mainRamOffset b))"
proof -
  have "mainRamOffset a = mainRamOffset b" if "kseg0Address a = kseg0Address b"
    using mainRamOffset_kseg0 [of a] mainRamOffset_kseg0 [of b] that by simp
  moreover have "kseg0Address a = kseg0Address b"
    if "mainRamOffset a \<noteq> None" "mainRamOffset a = mainRamOffset b"
    using that by (auto simp: kseg0Address_def)
  ultimately show ?thesis
    by (simp add: host_ptr_kseg0 kseg0Address_idem) blast
qed

text \<open>A span of less than 2 GiB that \<open>host_ptr\<close> maps lies inside the array the pointer points
  into; a range \<open>mappedMainRamRange\<close> returns lies inside RAM for every span length, starts at the
  byte the address names and has the length asked for.\<close>

theorem host_ptr_in_bounds:
  "(host_ptr a n = Some (RamAt off) \<longrightarrow> unat n < 2 ^ 31 \<longrightarrow> unat off + unat n \<le> unat kMainRamBytes) \<and>
   (host_ptr a n = Some (ScratchAt off) \<longrightarrow> unat n < 2 ^ 31 \<longrightarrow>
      unat off + unat n \<le> unat kScratchpadBytes) \<and>
   (mappedMainRamRange a n = Some r \<longrightarrow>
      mainRamOffset a = Some (rg_begin r) \<and> n \<noteq> 0 \<and>
      unat (rg_end r) = unat (rg_begin r) + unat n \<and> unat (rg_end r) \<le> unat kMainRamBytes)"
proof (intro conjI impI)
  assume "host_ptr a n = Some (RamAt off)" "unat n < 2 ^ 31"
  from host_ptr_cases [OF this] show "unat off + unat n \<le> unat kMainRamBytes"
    by (auto simp: map_consts)
next
  assume "host_ptr a n = Some (ScratchAt off)" "unat n < 2 ^ 31"
  from host_ptr_cases [OF this] show "unat off + unat n \<le> unat kScratchpadBytes"
    by (auto simp: map_consts)
next
  assume m: "mappedMainRamRange a n = Some r"
  then have hp: "host_ptr a n = Some (RamAt (rg_begin r))" and n: "n \<noteq> 0"
    and fits: "unat (rg_begin r) + unat n \<le> 0x200000" and e: "rg_end r = rg_begin r + n"
    by (auto simp: mappedMainRamRange_def map_consts split: option.splits host_loc.splits if_splits)
  show "n \<noteq> 0" by (rule n)
  show "mainRamOffset a = Some (rg_begin r)"
    using hp by (auto simp: host_ptr_def Let_def split: option.splits if_splits)
  show sum: "unat (rg_end r) = unat (rg_begin r) + unat n"
    unfolding e using fits by (intro unat_add_small) simp
  show "unat (rg_end r) \<le> unat kMainRamBytes"
    using fits unfolding sum by (simp add: map_consts)
qed

text \<open>\<open>host_ptr\<close>'s bound is computed in 32 bits and wraps: a span whose length is close to
  4 GiB is mapped although it leaves RAM. \<open>mappedMainRamRange\<close> refuses that span.\<close>

theorem host_ptr_length_wraps:
  "\<exists>a n off. host_ptr a n = Some (RamAt off) \<and> unat off + unat n > unat kMainRamBytes \<and>
     mappedMainRamRange a n = None"
proof (intro exI conjI)
  show "host_ptr 0x80000010 0xFFFFFFF8 = Some (RamAt 0x10)"
    by (simp add: host_ptr_def mainRamOffset_def physical_def map_consts)
  show "unat (0x10 :: u32) + unat (0xFFFFFFF8 :: u32) > unat kMainRamBytes"
    by (simp add: map_consts)
  show "mappedMainRamRange 0x80000010 0xFFFFFFF8 = None"
    by (simp add: mappedMainRamRange_def host_ptr_def mainRamOffset_def physical_def map_consts)
qed

section \<open>A concrete machine\<close>

text \<open>A powered-on memory with no device behind it, for evaluating the operations.\<close>

definition no_devices :: "unit io_ops" where
  "no_devices = \<lparr>io_read = (\<lambda>c a n. None), io_write = (\<lambda>c a v n. None)\<rparr>"

definition blank_core :: "unit core" where
  "blank_core = \<lparr>ram = (\<lambda>_. 0), scratch = (\<lambda>_. 0),
     writeRollback = \<lparr>wr_entries = [], wr_held = [], wr_armed = False\<rparr>,
     displayPassArmed = False, storeLog = [], execWrites = [], dev = ()\<rparr>"

lemmas host_ptr_eval = host_ptr_def mainRamOffset_def physical_def map_consts

lemma word_store_load_witness:
  "\<exists>c'. mem_w32 no_devices blank_core 0x80001000 0xCAFE = Some c' \<and>
     mem_r32 no_devices c' 0xA0201000 = Some (0xCAFE, c')"
  by (rule word_store_load [where q = "RamAt 0x1000"]) (simp_all add: host_ptr_eval blank_core_def)

lemma rollback_restores_witness:
  "\<exists>c'. do_stores no_devices (arm blank_core)
       [St32 0x80001000 7, St8 0x1F800003 9, StSpan 0xA0000FFE [1, 2, 3, 4]] = Some c' \<and>
     ram (rollBack c') = ram blank_core \<and> scratch (rollBack c') = scratch blank_core"
  using rollback_restores [of "[St32 0x80001000 7, St8 0x1F800003 9, StSpan 0xA0000FFE [1, 2, 3, 4]]"
      blank_core no_devices]
  by (auto simp: host_ptr_eval blank_core_def)

lemma invalidation_covers_witness:
  "invalidates (invalidationOf \<lparr>rg_begin = 0x9FFFFFFE, rg_end = 0xA0000006\<rparr>)
     (physical (0x9FFFFFFE + of_nat 5))"
  using invalidation_covers [of "\<lparr>rg_begin = 0x9FFFFFFE, rg_end = 0xA0000006\<rparr>" 5]
  by (simp only: GuestAddressRange.select_convs) simp

lemma kseg0_canonical_witness:
  "kseg0Address 0xA0201000 = kseg0Address 0x00001000"
  using kseg0_canonical [of "0xA0201000" 1 "0x00001000"] by (simp add: host_ptr_eval)

lemma host_ptr_in_bounds_witness:
  "unat (0x1FFFFC :: u32) + unat (4 :: u32) \<le> unat kMainRamBytes"
  using host_ptr_in_bounds [of "0x801FFFFC" 4 "0x1FFFFC"] by (simp add: host_ptr_eval)

end
