(* ===== verification/Blob_Codec.thy ===== *)
theory Blob_Codec
  imports Prelude
begin

text \<open>
  The little-endian byte codec of save-state sections, pad recordings and oracle snapshots
  (\<open>platform/blob_codec.h\<close>). A \<open>BlobWriter\<close> is the byte vector it has written; a \<open>BlobReader\<close> is
  a record of its bytes, its offset and its latch. Sizes and offsets (\<open>size_t\<close>) are naturals:
  the reader's offset never exceeds its size, so the subtraction it compares with never wraps.

  The locale \<open>codec\<close> is the contract a pair of write and read operations keeps: whatever was
  written is read back, and the reader stands behind it. Every primitive is an instance, pairs and
  sequences of instances are instances, and the file formats are built from them.
\<close>

section \<open>BlobWriter\<close>

type_synonym BlobWriter = "u8 list"

definition w_u8 :: "u8 \<Rightarrow> BlobWriter \<Rightarrow> BlobWriter" where
  "w_u8 v w = w @ [v]"

definition w_u16 :: "u16 \<Rightarrow> BlobWriter \<Rightarrow> BlobWriter" where
  "w_u16 v w = w_u8 (ucast (drop_bit 8 v)) (w_u8 (ucast (v AND 0xFF)) w)"

definition w_u32 :: "u32 \<Rightarrow> BlobWriter \<Rightarrow> BlobWriter" where
  "w_u32 v w = w_u16 (ucast (drop_bit 16 v)) (w_u16 (ucast (v AND 0xFFFF)) w)"

definition w_u64 :: "u64 \<Rightarrow> BlobWriter \<Rightarrow> BlobWriter" where
  "w_u64 v w = w_u32 (ucast (drop_bit 32 v)) (w_u32 (ucast (v AND 0xFFFFFFFF)) w)"

definition w_i8 :: "int \<Rightarrow> BlobWriter \<Rightarrow> BlobWriter" where
  "w_i8 v = w_u8 (of_int v)"

definition w_i32 :: "int \<Rightarrow> BlobWriter \<Rightarrow> BlobWriter" where
  "w_i32 v = w_u32 (of_int v)"

definition w_i64 :: "int \<Rightarrow> BlobWriter \<Rightarrow> BlobWriter" where
  "w_i64 v = w_u64 (of_int v)"

definition w_boolean :: "bool \<Rightarrow> BlobWriter \<Rightarrow> BlobWriter" where
  "w_boolean v = w_u8 (if v then 1 else 0)"

definition w_bytes :: "u8 list \<Rightarrow> BlobWriter \<Rightarrow> BlobWriter" where
  "w_bytes v w = w @ v"

definition w_blob :: "u8 list \<Rightarrow> BlobWriter \<Rightarrow> BlobWriter" where
  "w_blob v w = w_bytes v (w_u32 (of_nat (length v)) w)"

section \<open>BlobReader\<close>

record BlobReader =
  br_bytes :: "u8 list"
  br_offset :: nat
  br_ok :: bool

definition reader_of :: "u8 list \<Rightarrow> BlobReader" where
  "reader_of bs = \<lparr>br_bytes = bs, br_offset = 0, br_ok = True\<rparr>"

definition r_u8 :: "BlobReader \<Rightarrow> u8 \<times> BlobReader" where
  "r_u8 r =
     (if \<not> br_ok r \<or> br_offset r \<ge> length (br_bytes r) then (0, r\<lparr>br_ok := False\<rparr>)
      else (br_bytes r ! br_offset r, r\<lparr>br_offset := br_offset r + 1\<rparr>))"

definition r_u16 :: "BlobReader \<Rightarrow> u16 \<times> BlobReader" where
  "r_u16 r = (let (low, r1) = r_u8 r; (high, r2) = r_u8 r1 in (ucast low OR push_bit 8 (ucast high), r2))"

definition r_u32 :: "BlobReader \<Rightarrow> u32 \<times> BlobReader" where
  "r_u32 r = (let (low, r1) = r_u16 r; (high, r2) = r_u16 r1 in (ucast low OR push_bit 16 (ucast high), r2))"

definition r_u64 :: "BlobReader \<Rightarrow> u64 \<times> BlobReader" where
  "r_u64 r = (let (low, r1) = r_u32 r; (high, r2) = r_u32 r1 in (ucast low OR push_bit 32 (ucast high), r2))"

definition r_i8 :: "BlobReader \<Rightarrow> int \<times> BlobReader" where
  "r_i8 r = apfst sint (r_u8 r)"

definition r_i32 :: "BlobReader \<Rightarrow> int \<times> BlobReader" where
  "r_i32 r = apfst sint (r_u32 r)"

definition r_i64 :: "BlobReader \<Rightarrow> int \<times> BlobReader" where
  "r_i64 r = apfst sint (r_u64 r)"

definition r_boolean :: "BlobReader \<Rightarrow> bool \<times> BlobReader" where
  "r_boolean r = apfst (\<lambda>b. b \<noteq> 0) (r_u8 r)"

text \<open>\<open>None\<close> is the return value false; the caller's buffer is then untouched.\<close>

definition copyOut :: "nat \<Rightarrow> BlobReader \<Rightarrow> u8 list \<times> BlobReader" where
  "copyOut n r = (take n (drop (br_offset r) (br_bytes r)), r\<lparr>br_offset := br_offset r + n\<rparr>)"

definition r_bytes :: "nat \<Rightarrow> BlobReader \<Rightarrow> u8 list option \<times> BlobReader" where
  "r_bytes n r =
     (if \<not> br_ok r \<or> n > length (br_bytes r) - br_offset r then (None, r\<lparr>br_ok := False\<rparr>)
      else apfst Some (copyOut n r))"

definition r_blob :: "BlobReader \<Rightarrow> u8 list option \<times> BlobReader" where
  "r_blob r =
     (let (len, r1) = r_u32 r in
      if \<not> br_ok r1 \<or> unat len > length (br_bytes r1) - br_offset r1 then (None, r1\<lparr>br_ok := False\<rparr>)
      else (Some (take (unat len) (drop (br_offset r1) (br_bytes r1))),
            r1\<lparr>br_offset := br_offset r1 + unat len\<rparr>))"

definition blobRef :: "nat \<Rightarrow> BlobReader \<Rightarrow> u8 list option \<times> BlobReader" where
  "blobRef n r =
     (let (len, r1) = r_u32 r in
      if \<not> br_ok r1 \<or> unat len > length (br_bytes r1) - br_offset r1 \<or> n \<noteq> unat len
      then (None, r1\<lparr>br_ok := False\<rparr>)
      else apfst Some (copyOut n r1))"

text \<open>The two checks of a section, with the message each leaves; \<open>None\<close> is the return value true.\<close>

definition expectLayout :: "string \<Rightarrow> u8 \<Rightarrow> BlobReader \<Rightarrow> string option \<times> BlobReader" where
  "expectLayout section' version r =
     (let (layout, r1) = r_u8 r in
      if br_ok r1 \<and> layout = version then (None, r1)
      else (Some (section' @ '' section layout '' @ show_nat (unat layout) @ '', this build writes '' @
              show_nat (unat version)), r1))"

definition decoded :: "string \<Rightarrow> BlobReader \<Rightarrow> string option" where
  "decoded section' r =
     (if br_ok r then None
      else Some (''the '' @ section' @ '' section is '' @ show_nat (length (br_bytes r)) @
        '' bytes and did not decode ('' @ show_nat (br_offset r) @ '' consumed)''))"

section \<open>What the writers append\<close>

lemma w_u16_bytes [codec_simps]: "w_u16 v w = w @ bytes_of 2 v"
proof -
  have "bytes_of 2 v = bytes_of (1 + 1) v" by (simp only: one_add_one)
  also have "\<dots> = [ucast (v AND 0xFF), ucast (drop_bit 8 v)]"
    unfolding bytes_of_add by (simp add: bytes_of_def byte_of_def and_mask_take_bit
      unsigned_take_bit_eq) (rule bit_word_eqI, auto simp: bit_simps)
  finally show ?thesis by (simp add: w_u16_def w_u8_def)
qed

lemma w_u32_bytes [codec_simps]: "w_u32 v w = w @ bytes_of 4 v"
proof -
  have "bytes_of 4 v = bytes_of (2 + 2) v" by simp
  also have "\<dots> = bytes_of 2 v @ bytes_of 2 (drop_bit 16 v)"
    unfolding bytes_of_add by simp
  finally show ?thesis
    by (simp add: w_u32_def w_u16_bytes and_mask_take_bit bytes_of_ucast bytes_of_take_bit)
qed

lemma w_u64_bytes [codec_simps]: "w_u64 v w = w @ bytes_of 8 v"
proof -
  have "bytes_of 8 v = bytes_of (4 + 4) v" by simp
  also have "\<dots> = bytes_of 4 v @ bytes_of 4 (drop_bit 32 v)"
    unfolding bytes_of_add by simp
  finally show ?thesis
    by (simp add: w_u64_def w_u32_bytes and_mask_take_bit bytes_of_ucast bytes_of_take_bit)
qed

lemma w_blob_bytes [codec_simps]: "w_blob v w = w @ bytes_of 4 (of_nat (length v) :: u32) @ v"
  by (simp add: w_blob_def w_bytes_def w_u32_bytes)

section \<open>What the readers do\<close>

text \<open>\<open>n\<close> more bytes can be read.\<close>

definition avail :: "nat \<Rightarrow> BlobReader \<Rightarrow> bool" where
  "avail n r \<longleftrightarrow> br_ok r \<and> br_offset r + n \<le> length (br_bytes r)"

definition ahead :: "nat \<Rightarrow> BlobReader \<Rightarrow> u8 list" where
  "ahead n r = take n (drop (br_offset r) (br_bytes r))"

definition advance :: "nat \<Rightarrow> BlobReader \<Rightarrow> BlobReader" where
  "advance n r = r\<lparr>br_offset := br_offset r + n\<rparr>"

lemma advance_simps [simp]:
  "br_bytes (advance n r) = br_bytes r" "br_ok (advance n r) = br_ok r"
  "br_offset (advance n r) = br_offset r + n" "advance m (advance n r) = advance (n + m) r"
  "advance 0 r = r"
  by (simp_all add: advance_def add.assoc)

lemma avail_advance [simp]: "avail n (advance m r) \<longleftrightarrow> avail (m + n) r"
  by (simp add: avail_def add.assoc)

lemma avail_mono: "avail n r \<Longrightarrow> m \<le> n \<Longrightarrow> avail m r"
  by (auto simp: avail_def)

lemma length_ahead [simp]: "avail n r \<Longrightarrow> length (ahead n r) = n"
  by (auto simp: ahead_def avail_def min_def)

lemma ahead_add: "avail (m + n) r \<Longrightarrow> ahead (m + n) r = ahead m r @ ahead n (advance m r)"
  by (simp add: ahead_def take_add add.commute)

lemma r_u8_avail: "avail 1 r \<Longrightarrow> r_u8 r = (word_of_bytes (ahead 1 r), advance 1 r)"
  by (auto simp: r_u8_def avail_def ahead_def advance_def take_Suc_conv_app_nth hd_drop_conv_nth)

lemma r_u16_avail:
  assumes "avail 2 r" shows "r_u16 r = (word_of_bytes (ahead 2 r), advance 2 r)"
proof -
  have a: "avail (1 + 1) r" using assms by (simp only: one_add_one)
  have "ahead 2 r = ahead 1 r @ ahead 1 (advance 1 r)"
    using ahead_add [OF a] by (simp only: one_add_one)
  with a show ?thesis
    by (simp add: r_u16_def r_u8_avail avail_mono [OF a] word_of_bytes_append)
qed

lemma r_u32_avail:
  assumes "avail 4 r" shows "r_u32 r = (word_of_bytes (ahead 4 r), advance 4 r)"
proof -
  have a: "avail (2 + 2) r" using assms by simp
  have "ahead 4 r = ahead 2 r @ ahead 2 (advance 2 r)"
    using ahead_add [OF a] by simp
  with a show ?thesis
    by (simp add: r_u32_def r_u16_avail avail_mono [OF a] word_of_bytes_append)
qed

lemma r_u64_avail:
  assumes "avail 8 r" shows "r_u64 r = (word_of_bytes (ahead 8 r), advance 8 r)"
proof -
  have a: "avail (4 + 4) r" using assms by simp
  have "ahead 8 r = ahead 4 r @ ahead 4 (advance 4 r)"
    using ahead_add [OF a] by simp
  with a show ?thesis
    by (simp add: r_u64_def r_u32_avail avail_mono [OF a] word_of_bytes_append)
qed

lemma avail_prefix:
  assumes "br_ok r" and "drop (br_offset r) (br_bytes r) = xs @ rest"
  shows "length xs = n \<Longrightarrow> n \<noteq> 0 \<Longrightarrow> avail n r" and "length xs = n \<Longrightarrow> ahead n r = xs"
proof -
  assume n: "length xs = n"
  show "ahead n r = xs" using assms n by (simp add: ahead_def)
  have "length (br_bytes r) - br_offset r = n + length rest"
    using arg_cong [OF assms(2), of length] n by simp
  then show "n \<noteq> 0 \<Longrightarrow> avail n r" using assms(1) by (simp add: avail_def)
qed

section \<open>The codec contract\<close>

text \<open>
  \<open>enc\<close> is what the writer appends, \<open>dec\<close> what the reader does, \<open>dom\<close> the values that fit the
  encoding.
\<close>

locale codec =
  fixes dom :: "'a \<Rightarrow> bool"
    and enc :: "'a \<Rightarrow> u8 list"
    and dec :: "BlobReader \<Rightarrow> 'a \<times> BlobReader"
  assumes dec_enc: "dom x \<Longrightarrow> br_ok r \<Longrightarrow> drop (br_offset r) (br_bytes r) = enc x @ rest \<Longrightarrow>
      dec r = (x, advance (length (enc x)) r)"
begin

lemma dec_at:
  assumes "dom x"
  shows "dec \<lparr>br_bytes = pre @ enc x @ post, br_offset = length pre, br_ok = True\<rparr> =
    (x, \<lparr>br_bytes = pre @ enc x @ post, br_offset = length pre + length (enc x), br_ok = True\<rparr>)"
  by (subst dec_enc [OF assms]) (auto simp: advance_def)

lemma enc_inject:
  assumes "dom x" "dom y" "enc x = enc y"
  shows "x = y"
proof -
  have "dec (reader_of (enc x)) = (x, advance (length (enc x)) (reader_of (enc x)))"
    by (rule dec_enc [OF assms(1), where rest = "[]"]) (simp_all add: reader_of_def)
  moreover have "dec (reader_of (enc x)) = (y, advance (length (enc y)) (reader_of (enc x)))"
    by (rule dec_enc [OF assms(2), where rest = "[]"]) (simp_all add: reader_of_def assms(3))
  ultimately show ?thesis by simp
qed

end

text \<open>Two fields one after the other.\<close>

definition dec_pair ::
  "(BlobReader \<Rightarrow> 'a \<times> BlobReader) \<Rightarrow> (BlobReader \<Rightarrow> 'b \<times> BlobReader) \<Rightarrow>
     BlobReader \<Rightarrow> ('a \<times> 'b) \<times> BlobReader" where
  "dec_pair f g r = (let (x, r1) = f r; (y, r2) = g r1 in ((x, y), r2))"

locale codec_pair = c1: codec dom1 enc1 dec1 + c2: codec dom2 enc2 dec2
  for dom1 :: "'a \<Rightarrow> bool" and enc1 dec1 and dom2 :: "'b \<Rightarrow> bool" and enc2 dec2
begin

lemma dec_pair_enc:
  assumes "dom1 x" "dom2 y" "br_ok r" "drop (br_offset r) (br_bytes r) = (enc1 x @ enc2 y) @ rest"
  shows "dec_pair dec1 dec2 r = ((x, y), advance (length (enc1 x @ enc2 y)) r)"
proof -
  have 1: "dec1 r = (x, advance (length (enc1 x)) r)"
    by (rule c1.dec_enc [OF assms(1,3), where rest = "enc2 y @ rest"]) (simp add: assms(4))
  have "drop (length (enc1 x)) (drop (br_offset r) (br_bytes r)) = enc2 y @ rest"
    by (simp add: assms(4) del: drop_drop)
  then have "drop (br_offset r + length (enc1 x)) (br_bytes r) = enc2 y @ rest"
    by (simp add: add.commute)
  then have "dec2 (advance (length (enc1 x)) r) = (y, advance (length (enc1 x) + length (enc2 y)) r)"
    using assms(3) by (subst c2.dec_enc [OF assms(2), where rest = rest]) simp_all
  with 1 show ?thesis by (simp add: dec_pair_def)
qed

end

sublocale codec_pair \<subseteq> pair: codec "\<lambda>(x, y). dom1 x \<and> dom2 y" "\<lambda>(x, y). enc1 x @ enc2 y"
  "dec_pair dec1 dec2"
  by unfold_locales (auto intro: dec_pair_enc [simplified])


section \<open>The primitives are codecs\<close>

lemma u8_bytes: "bytes_of 1 (v :: u8) = [v]"
  by (simp add: bytes_of_def byte_of_def)

text \<open>A reader of \<open>n\<close> bytes as one word, and the word it reads.\<close>

lemma codec_wordI:
  fixes rd :: "BlobReader \<Rightarrow> 'a::len word \<times> BlobReader"
  assumes "\<And>r. avail n r \<Longrightarrow> rd r = (word_of_bytes (ahead n r), advance n r)"
    and "\<And>v. enc v = bytes_of n v" and "LENGTH('a) \<le> 8 * n" and "n \<noteq> 0"
  shows "codec (\<lambda>_. True) enc rd"
proof
  fix x and r :: BlobReader and rest
  assume ok: "br_ok r" and d: "drop (br_offset r) (br_bytes r) = enc x @ rest"
  from avail_prefix [OF ok d] assms(2,4) have "avail n r" "ahead n r = bytes_of n x"
    by simp_all
  with assms show "rd r = (x, advance (length (enc x)) r)" by simp
qed

interpretation u8c: codec "\<lambda>_. True" "\<lambda>v. w_u8 v []" r_u8
  by (rule codec_wordI [of 1]) (simp_all add: r_u8_avail w_u8_def u8_bytes [simplified])

interpretation u16c: codec "\<lambda>_. True" "\<lambda>v. w_u16 v []" r_u16
  by (rule codec_wordI [of 2]) (simp_all add: r_u16_avail codec_simps)

interpretation u32c: codec "\<lambda>_. True" "\<lambda>v. w_u32 v []" r_u32
  by (rule codec_wordI [of 4]) (simp_all add: r_u32_avail codec_simps)

interpretation u64c: codec "\<lambda>_. True" "\<lambda>v. w_u64 v []" r_u64
  by (rule codec_wordI [of 8]) (simp_all add: r_u64_avail codec_simps)

text \<open>A signed value is the two's complement reading of an unsigned one.\<close>

lemma codec_signedI:
  fixes rd :: "BlobReader \<Rightarrow> 'a::len word \<times> BlobReader"
  assumes "codec (\<lambda>_. True) enc rd"
  shows "codec (\<lambda>v. - (2 ^ (LENGTH('a) - 1)) \<le> v \<and> v < 2 ^ (LENGTH('a) - 1))
    (\<lambda>v. enc (of_int v)) (\<lambda>r. apfst sint (rd r))"
proof
  fix v and r :: BlobReader and rest
  assume v: "- (2 ^ (LENGTH('a) - 1)) \<le> v \<and> v < 2 ^ (LENGTH('a) - 1)" and "br_ok r"
    and "drop (br_offset r) (br_bytes r) = enc (of_int v) @ rest"
  then have "rd r = (of_int v, advance (length (enc (of_int v))) r)"
    using codec.dec_enc [OF assms] by blast
  moreover have "sint (of_int v :: 'a word) = v"
    using v by (simp add: signed_of_int signed_take_bit_int_eq_self)
  ultimately show "apfst sint (rd r) = (v, advance (length (enc (of_int v))) r)" by simp
qed

interpretation i8c: codec "\<lambda>v. - (2 ^ 7) \<le> v \<and> v < 2 ^ 7" "\<lambda>v. w_i8 v []" r_i8
  using codec_signedI [OF u8c.codec_axioms] by (simp add: w_i8_def r_i8_def [abs_def])

interpretation i32c: codec "\<lambda>v. - (2 ^ 31) \<le> v \<and> v < 2 ^ 31" "\<lambda>v. w_i32 v []" r_i32
  using codec_signedI [OF u32c.codec_axioms] by (simp add: w_i32_def r_i32_def [abs_def])

interpretation i64c: codec "\<lambda>v. - (2 ^ 63) \<le> v \<and> v < 2 ^ 63" "\<lambda>v. w_i64 v []" r_i64
  using codec_signedI [OF u64c.codec_axioms] by (simp add: w_i64_def r_i64_def [abs_def])

interpretation boolc: codec "\<lambda>_. True" "\<lambda>v. w_boolean v []" r_boolean
proof
  fix x and r :: BlobReader and rest
  assume "br_ok r" and d: "drop (br_offset r) (br_bytes r) = w_boolean x [] @ rest"
  from u8c.dec_enc [OF TrueI this(1) this(2) [unfolded w_boolean_def]]
  show "r_boolean r = (x, advance (length (w_boolean x [])) r)"
    by (simp add: r_boolean_def w_boolean_def w_u8_def)
qed

interpretation bytesc: codec "\<lambda>v. \<exists>bs. v = Some bs \<and> length bs = n" "\<lambda>v. w_bytes (the v) []"
  "r_bytes n" for n
proof
  fix x and r :: BlobReader and rest
  assume "\<exists>bs. x = Some bs \<and> length bs = n" and ok: "br_ok r"
    and d: "drop (br_offset r) (br_bytes r) = w_bytes (the x) [] @ rest"
  then obtain bs where x: "x = Some bs" "length bs = n" by auto
  have "length (br_bytes r) - br_offset r = n + length rest"
    using arg_cong [OF d, of length] x by (simp add: w_bytes_def)
  with ok d x show "r_bytes n r = (x, advance (length (w_bytes (the x) [])) r)"
    by (simp add: r_bytes_def copyOut_def advance_def w_bytes_def)
qed

lemma blob_header:
  assumes "br_ok r" and "drop (br_offset r) (br_bytes r) = w_blob bs [] @ rest" and "length bs < 2 ^ 32"
  shows "r_u32 r = (of_nat (length bs), advance 4 r)"
    and "drop (br_offset r + 4) (br_bytes r) = bs @ rest"
proof -
  have d: "drop (br_offset r) (br_bytes r) = w_u32 (of_nat (length bs)) [] @ (bs @ rest)"
    using assms(2) by (simp add: codec_simps)
  show "r_u32 r = (of_nat (length bs), advance 4 r)"
    using u32c.dec_enc [OF TrueI assms(1) d] by (simp add: codec_simps)
  have "drop 4 (drop (br_offset r) (br_bytes r)) = bs @ rest"
    unfolding d by (simp add: codec_simps)
  then show "drop (br_offset r + 4) (br_bytes r) = bs @ rest" by (simp add: add.commute)
qed

interpretation blobc: codec "\<lambda>v. \<exists>bs. v = Some bs \<and> length bs < 2 ^ 32" "\<lambda>v. w_blob (the v) []" r_blob
proof
  fix x and r :: BlobReader and rest
  assume "\<exists>bs. x = Some bs \<and> length bs < 2 ^ 32" and ok: "br_ok r"
    and d: "drop (br_offset r) (br_bytes r) = w_blob (the x) [] @ rest"
  then obtain bs where x: "x = Some bs" "length bs < 2 ^ 32" by auto
  note h = blob_header [OF ok d [unfolded x(1) option.sel] x(2)]
  have "length (br_bytes r) - (br_offset r + 4) = length bs + length rest"
    using arg_cong [OF h(2), of length] by simp
  with h x ok show "r_blob r = (x, advance (length (w_blob (the x) [])) r)"
    by (simp add: r_blob_def advance_def codec_simps add.assoc)
qed

interpretation arrayc: codec "\<lambda>v. \<exists>bs. v = Some bs \<and> length bs = n \<and> n < 2 ^ 32"
  "\<lambda>v. w_blob (the v) []" "blobRef n" for n
proof
  fix x and r :: BlobReader and rest
  assume "\<exists>bs. x = Some bs \<and> length bs = n \<and> n < 2 ^ 32" and ok: "br_ok r"
    and d: "drop (br_offset r) (br_bytes r) = w_blob (the x) [] @ rest"
  then obtain bs where x: "x = Some bs" "length bs = n" "length bs < 2 ^ 32" by auto
  note h = blob_header [OF ok d [unfolded x(1) option.sel] x(3)]
  have "length (br_bytes r) - (br_offset r + 4) = n + length rest"
    using arg_cong [OF h(2), of length] x(2) by simp
  with h x ok show "blobRef n r = (x, advance (length (w_blob (the x) [])) r)"
    by (simp add: blobRef_def copyOut_def advance_def codec_simps add.assoc)
qed


section \<open>Sequences of fields\<close>

text \<open>A field as a section's writer and reader name it, and the calls they make for it.\<close>

datatype field =
    FU8 u8 | FU16 u16 | FU32 u32 | FU64 u64 | FI8 int | FI32 int | FI64 int | FBool bool
  | FBytes "u8 list" | FBlob "u8 list" | FArray "u8 list"

fun write_field :: "field \<Rightarrow> BlobWriter \<Rightarrow> BlobWriter" where
  "write_field (FU8 v) = w_u8 v"
| "write_field (FU16 v) = w_u16 v"
| "write_field (FU32 v) = w_u32 v"
| "write_field (FU64 v) = w_u64 v"
| "write_field (FI8 v) = w_i8 v"
| "write_field (FI32 v) = w_i32 v"
| "write_field (FI64 v) = w_i64 v"
| "write_field (FBool v) = w_boolean v"
| "write_field (FBytes v) = w_bytes v"
| "write_field (FBlob v) = w_blob v"
| "write_field (FArray v) = w_blob v"

text \<open>The read call for a field of the given kind; a failed span read yields \<open>None\<close>.\<close>

fun read_field :: "field \<Rightarrow> BlobReader \<Rightarrow> field option \<times> BlobReader" where
  "read_field (FU8 _) r = apfst (Some \<circ> FU8) (r_u8 r)"
| "read_field (FU16 _) r = apfst (Some \<circ> FU16) (r_u16 r)"
| "read_field (FU32 _) r = apfst (Some \<circ> FU32) (r_u32 r)"
| "read_field (FU64 _) r = apfst (Some \<circ> FU64) (r_u64 r)"
| "read_field (FI8 _) r = apfst (Some \<circ> FI8) (r_i8 r)"
| "read_field (FI32 _) r = apfst (Some \<circ> FI32) (r_i32 r)"
| "read_field (FI64 _) r = apfst (Some \<circ> FI64) (r_i64 r)"
| "read_field (FBool _) r = apfst (Some \<circ> FBool) (r_boolean r)"
| "read_field (FBytes v) r = apfst (map_option FBytes) (r_bytes (length v) r)"
| "read_field (FBlob _) r = apfst (map_option FBlob) (r_blob r)"
| "read_field (FArray v) r = apfst (map_option FArray) (blobRef (length v) r)"

fun field_fits :: "field \<Rightarrow> bool" where
  "field_fits (FI8 v) \<longleftrightarrow> - (2 ^ 7) \<le> v \<and> v < 2 ^ 7"
| "field_fits (FI32 v) \<longleftrightarrow> - (2 ^ 31) \<le> v \<and> v < 2 ^ 31"
| "field_fits (FI64 v) \<longleftrightarrow> - (2 ^ 63) \<le> v \<and> v < 2 ^ 63"
| "field_fits (FBlob v) \<longleftrightarrow> length v < 2 ^ 32"
| "field_fits (FArray v) \<longleftrightarrow> length v < 2 ^ 32"
| "field_fits _ \<longleftrightarrow> True"

primrec read_fields :: "field list \<Rightarrow> BlobReader \<Rightarrow> field option list \<times> BlobReader" where
  "read_fields [] r = ([], r)"
| "read_fields (f # fs) r =
     (let (x, r1) = read_field f r; (xs, r2) = read_fields fs r1 in (x # xs, r2))"

lemma write_field_append: "write_field f w = w @ write_field f []"
  by (cases f) (simp_all add: codec_simps w_u8_def w_i8_def w_i32_def w_i64_def w_boolean_def w_bytes_def)

lemma write_fields_append: "fold write_field fs w = w @ fold write_field fs []"
proof (induction fs arbitrary: w)
  case (Cons f fs)
  show ?case
    using Cons.IH [of "write_field f w"] Cons.IH [of "write_field f []"] write_field_append [of f w]
    by simp
qed simp

lemma read_write_field:
  assumes "field_fits f" and "br_ok r" and "drop (br_offset r) (br_bytes r) = write_field f [] @ rest"
  shows "read_field f r = (Some f, advance (length (write_field f [])) r)"
  using assms
  by (cases f)
    (auto simp: u8c.dec_enc u16c.dec_enc u32c.dec_enc u64c.dec_enc i8c.dec_enc i32c.dec_enc i64c.dec_enc
      boolc.dec_enc bytesc.dec_enc [where x = "Some v" for v, simplified]
      blobc.dec_enc [where x = "Some v" for v, simplified] arrayc.dec_enc [where x = "Some v" for v, simplified])

lemma read_write_fields:
  "list_all field_fits fs \<Longrightarrow> br_ok r \<Longrightarrow>
     drop (br_offset r) (br_bytes r) = fold write_field fs [] @ rest \<Longrightarrow>
     read_fields fs r = (map Some fs, advance (length (fold write_field fs [])) r)"
proof (induction fs arbitrary: r)
  case (Cons f fs)
  let ?w = "write_field f []" and ?ws = "fold write_field fs []"
  have d: "drop (br_offset r) (br_bytes r) = ?w @ (?ws @ rest)"
    using Cons.prems(3) write_fields_append [of fs ?w] by simp
  have 1: "read_field f r = (Some f, advance (length ?w) r)"
    using Cons.prems(1,2) d by (intro read_write_field) simp_all
  have "drop (length ?w) (drop (br_offset r) (br_bytes r)) = ?ws @ rest"
    unfolding d by simp
  then have "read_fields fs (advance (length ?w) r) = (map Some fs, advance (length ?w + length ?ws) r)"
    using Cons.prems(1,2) by (subst Cons.IH) (simp_all add: add.commute)
  then show ?case using 1 write_fields_append [of fs ?w] by simp
qed simp

text \<open>Whatever sequence of fields a section writes, reading the same kinds in the same order
  gives back exactly the values written, consumes exactly the bytes written and latches no
  error, whatever follows in the buffer.\<close>

theorem fields_roundtrip:
  assumes "list_all field_fits fs"
  shows "read_fields fs (reader_of (fold write_field fs [] @ rest)) =
    (map Some fs,
     \<lparr>br_bytes = fold write_field fs [] @ rest, br_offset = length (fold write_field fs []), br_ok = True\<rparr>)"
  using read_write_fields [OF assms, of "reader_of (fold write_field fs [] @ rest)" rest]
  by (simp add: reader_of_def advance_def)

section \<open>Bounded reads\<close>

text \<open>What every read keeps: the bytes, an offset inside them, and a latch that is never released.\<close>

definition reads_from :: "BlobReader \<Rightarrow> BlobReader \<Rightarrow> bool" where
  "reads_from r r' \<longleftrightarrow> br_bytes r' = br_bytes r \<and> br_offset r \<le> br_offset r' \<and>
     (br_offset r \<le> length (br_bytes r) \<longrightarrow> br_offset r' \<le> length (br_bytes r)) \<and>
     (\<not> br_ok r \<longrightarrow> \<not> br_ok r' \<and> br_offset r' = br_offset r)"

lemma reads_from_trans: "reads_from a b \<Longrightarrow> reads_from b c \<Longrightarrow> reads_from a c"
  by (auto simp: reads_from_def)

lemma reads_from_u8: "reads_from r (snd (r_u8 r))"
  by (auto simp: reads_from_def r_u8_def)

lemma reads_from_u16: "reads_from r (snd (r_u16 r))"
  using reads_from_trans [OF reads_from_u8 reads_from_u8, of r] by (simp add: r_u16_def split_def Let_def)

lemma reads_from_u32: "reads_from r (snd (r_u32 r))"
  using reads_from_trans [OF reads_from_u16 reads_from_u16, of r] by (simp add: r_u32_def split_def Let_def)

lemma reads_from_u64: "reads_from r (snd (r_u64 r))"
  using reads_from_trans [OF reads_from_u32 reads_from_u32, of r] by (simp add: r_u64_def split_def Let_def)

lemma reads_from_bytes: "br_offset r \<le> length (br_bytes r) \<Longrightarrow> reads_from r (snd (r_bytes n r))"
  by (auto simp: reads_from_def r_bytes_def copyOut_def)

lemma reads_from_blob:
  assumes "br_offset r \<le> length (br_bytes r)" shows "reads_from r (snd (r_blob r))"
  using reads_from_u32 [of r] assms by (auto simp: reads_from_def r_blob_def Let_def split: prod.split)

lemma reads_from_array:
  assumes "br_offset r \<le> length (br_bytes r)" shows "reads_from r (snd (blobRef n r))"
  using reads_from_u32 [of r] assms
  by (auto simp: reads_from_def blobRef_def copyOut_def Let_def split: prod.split)

lemma reads_from_field: "br_offset r \<le> length (br_bytes r) \<Longrightarrow> reads_from r (snd (read_field f r))"
  by (cases f) (simp_all add: reads_from_u8 reads_from_u16 reads_from_u32 reads_from_u64 reads_from_bytes
      reads_from_blob reads_from_array r_i8_def r_i32_def r_i64_def r_boolean_def)

text \<open>What a latched reader answers.\<close>

fun zero_field :: "field \<Rightarrow> field option" where
  "zero_field (FU8 _) = Some (FU8 0)"
| "zero_field (FU16 _) = Some (FU16 0)"
| "zero_field (FU32 _) = Some (FU32 0)"
| "zero_field (FU64 _) = Some (FU64 0)"
| "zero_field (FI8 _) = Some (FI8 0)"
| "zero_field (FI32 _) = Some (FI32 0)"
| "zero_field (FI64 _) = Some (FI64 0)"
| "zero_field (FBool _) = Some (FBool False)"
| "zero_field _ = None"

lemma latched_read: "\<not> br_ok r \<Longrightarrow> read_field f r = (zero_field f, r)"
  by (cases f) (simp_all add: r_u8_def r_u16_def r_u32_def r_u64_def r_i8_def r_i32_def r_i64_def
      r_boolean_def r_bytes_def r_blob_def blobRef_def)

text \<open>No sequence of reads leaves the buffer: the offset never passes its end and the bytes are
  never changed. After the first short read every later read answers zero (or fails, for a span)
  and moves nothing.\<close>

theorem reads_bounded:
  assumes "read_fields fs (reader_of bs) = (xs, r)"
  shows "br_bytes r = bs \<and> br_offset r \<le> length bs \<and>
    (\<not> br_ok r \<longrightarrow> (\<forall>gs. read_fields gs r = (map zero_field gs, r)))"
proof -
  have "reads_from q (snd (read_fields fs q))" if "br_offset q \<le> length (br_bytes q)" for q
    using that
  proof (induction fs arbitrary: q)
    case (Cons f fs)
    let ?q = "snd (read_field f q)"
    have "reads_from q ?q" using Cons.prems by (rule reads_from_field)
    then have "reads_from q (snd (read_fields fs ?q))"
      using Cons.IH [of ?q] Cons.prems by (auto simp: reads_from_def)
    then show ?case by (simp add: split_def Let_def)
  qed (simp add: reads_from_def)
  from this [of "reader_of bs"] assms have "reads_from (reader_of bs) r"
    by (simp add: reader_of_def)
  moreover have "read_fields gs r = (map zero_field gs, r)" if "\<not> br_ok r" for gs
    using that by (induction gs) (simp_all add: latched_read)
  ultimately show ?thesis by (auto simp: reads_from_def reader_of_def)
qed

lemma fields_roundtrip_witness:
  "read_fields [FU16 0xBEEF, FI32 (-5), FBlob [1, 2, 3]]
     (reader_of (fold write_field [FU16 0xBEEF, FI32 (-5), FBlob [1, 2, 3]] [] @ [9])) =
   ([Some (FU16 0xBEEF), Some (FI32 (-5)), Some (FBlob [1, 2, 3])],
    \<lparr>br_bytes = fold write_field [FU16 0xBEEF, FI32 (-5), FBlob [1, 2, 3]] [] @ [9],
      br_offset = length (fold write_field [FU16 0xBEEF, FI32 (-5), FBlob [1, 2, 3]] []), br_ok = True\<rparr>)"
  using fields_roundtrip [of "[FU16 0xBEEF, FI32 (-5), FBlob [1, 2, 3]]" "[9]"] by simp

lemma reads_bounded_witness:
  "br_offset (snd (read_fields [FU32 0] (reader_of [1, 2]))) \<le> length [1 :: u8, 2]"
  using reads_bounded [of "[FU32 0]" "[1, 2]", OF surjective_pairing] by simp

end
