(* ===== verification/State_File.thy ===== *)
theory State_File
  imports Blob_Codec
begin

text \<open>
  The save-state container (\<open>state/state_file.h\<close>, \<open>state/state_file.cpp\<close>): \<open>StateImage\<close> writes the
  header and one named section after another, \<open>StateFile::open\<close> validates and indexes a file,
  \<open>section\<close> looks a payload up. A refused file is \<open>Inl\<close> of the reason text.
\<close>

section \<open>Format constants\<close>

definition kStateMagic :: "u8 list" where
  "kStateMagic = map (\<lambda>c. of_nat (of_char c)) ''PSXSTATE''"

definition kFormatVersion :: u32 where "kFormatVersion = 1"
definition kSectionNameBytes :: nat where "kSectionNameBytes = 32"
definition kMaxSectionCount :: u32 where "kMaxSectionCount = 64"

definition kTitle :: string where "kTitle = ''title''"

definition kRequired :: "string list" where
  "kRequired = [''cpu'', ''ram'', ''images'', ''scratchpad'', ''gte'', ''gpu'', ''beetle.spu'',
     ''beetle.mdec'', ''cdc'', ''timing'', ''dma'', ''hle'', ''sio'', ''card'', ''cd'']"

definition isFrameworkSectionName :: "string \<Rightarrow> bool" where
  "isFrameworkSectionName name \<longleftrightarrow> name = kTitle \<or> name \<in> set kRequired"

definition char_bytes :: "string \<Rightarrow> u8 list" where
  "char_bytes s = map (\<lambda>c. of_nat (of_char c)) s"

definition bytes_chars :: "u8 list \<Rightarrow> string" where
  "bytes_chars bs = map (\<lambda>b. char_of (unat b)) bs"

section \<open>StateImage\<close>

record StateImage =
  si_bytes :: "u8 list"
  si_names :: "string list"

definition empty_image :: StateImage where
  "empty_image = \<lparr>si_bytes = [], si_names = []\<rparr>"

definition image_add :: "string \<Rightarrow> u8 list \<Rightarrow> StateImage \<Rightarrow> bool \<times> StateImage" where
  "image_add name payload img =
     (if name = [] \<or> length name \<ge> kSectionNameBytes then (False, img)
      else if name \<in> set (si_names img) then (False, img)
      else if length payload > 0xFFFFFFFF then (False, img)
      else
        let start = (if si_names img = []
                     then w_u32 0 (w_u32 kFormatVersion (w_bytes kStateMagic []))
                     else si_bytes img);
            padded = char_bytes name @ replicate (kSectionNameBytes - length name) 0;
            body = start @ padded @ w_u32 (of_nat (length payload)) [] @ payload;
            names = si_names img @ [name];
            count = w_u32 (of_nat (length names)) []
        in (True, \<lparr>si_bytes = take 12 body @ count @ drop (12 + length count) body, si_names = names\<rparr>))"

text \<open>A capture: the sections in order, stopping at nothing; all additions must have succeeded.\<close>

definition image_add_all :: "(string \<times> u8 list) list \<Rightarrow> bool \<times> StateImage" where
  "image_add_all secs =
     foldl (\<lambda>(ok, img) (n, p). apfst (\<lambda>b. ok \<and> b) (image_add n p img)) (True, empty_image) secs"

section \<open>StateFile\<close>

record state_entry =
  en_name :: string
  en_offset :: u32
  en_length :: u32

record StateFile =
  sf_bytes :: "u8 list"
  sf_entries :: "state_entry list"
  sf_names :: "string list"
  sf_version :: u32

definition quoted :: "string \<Rightarrow> string" where
  "quoted s = [char_of (39 :: nat)] @ s @ [char_of (39 :: nat)]"

definition e_past_end :: "nat \<Rightarrow> nat \<Rightarrow> string" where
  "e_past_end index count = ''section '' @ show_nat index @ '' of '' @ show_nat count @
     '' starts past the end of the image''"

definition e_empty_name :: "nat \<Rightarrow> string" where
  "e_empty_name index = ''section '' @ show_nat index @ '' has an empty name''"

definition e_unknown :: "string \<Rightarrow> string" where
  "e_unknown name = ''unknown section '' @ quoted name"

definition e_claims :: "string \<Rightarrow> nat \<Rightarrow> nat \<Rightarrow> string" where
  "e_claims name len left = ''section '' @ quoted name @ '' claims '' @ show_nat len @
     '' bytes but only '' @ show_nat left @ '' remain''"

definition e_twice :: "string \<Rightarrow> string" where
  "e_twice name = ''section '' @ quoted name @ '' appears twice''"

text \<open>The section loop of \<open>open\<close>: \<open>k\<close> sections are left of \<open>count\<close>, the next one starts at \<open>offset\<close>.\<close>

fun open_sections ::
  "u8 list \<Rightarrow> u32 \<Rightarrow> nat \<Rightarrow> nat \<Rightarrow> state_entry list \<Rightarrow> string list \<Rightarrow>
     string + (state_entry list \<times> string list)" where
  "open_sections bs count 0 offset entries names = Inr (entries, names)"
| "open_sections bs count (Suc k) offset entries names =
     (let index = unat count - Suc k in
      if length bs - offset < kSectionNameBytes + 4 then Inl (e_past_end index (unat count))
      else
        let raw = take kSectionNameBytes (drop offset bs);
            name = bytes_chars (takeWhile (\<lambda>b. b \<noteq> 0) raw)
        in if name = [] then Inl (e_empty_name index)
        else if \<not> isFrameworkSectionName name then Inl (e_unknown name)
        else
          let len = fst (r_u32 (reader_of (take 4 (drop (offset + kSectionNameBytes) bs))));
              offset' = offset + (kSectionNameBytes + 4)
          in if unat len > length bs - offset' then Inl (e_claims name (unat len) (length bs - offset'))
             else if name \<in> set names then Inl (e_twice name)
             else open_sections bs count k (offset' + unat len)
                    (entries @ [\<lparr>en_name = name, en_offset = of_nat offset', en_length = len\<rparr>])
                    (names @ [name]))"

definition state_open :: "u8 list \<Rightarrow> string + StateFile" where
  "state_open bs =
     (if length bs < 16 then Inl ''shorter than the 16-byte header''
      else if take 8 bs \<noteq> kStateMagic then Inl ''magic is not PSXSTATE''
      else
        let (_, h1) = r_u32 (reader_of (take 16 bs));
            (_, h2) = r_u32 h1;
            (version, h3) = r_u32 h2;
            (count, h4) = r_u32 h3
        in if \<not> br_ok h4 then Inl ''the header did not decode''
        else if version \<noteq> kFormatVersion
        then Inl (''format version '' @ show_nat (unat version) @ '', this build writes '' @
                  show_nat (unat kFormatVersion))
        else if count = 0 \<or> count > kMaxSectionCount
        then Inl (''section count '' @ show_nat (unat count) @ '' outside 1..'' @
                  show_nat (unat kMaxSectionCount))
        else case open_sections bs count (unat count) 16 [] [] of
               Inl e \<Rightarrow> Inl e
             | Inr (entries, names) \<Rightarrow>
                 Inr \<lparr>sf_bytes = bs, sf_entries = entries, sf_names = names, sf_version = version\<rparr>)"

fun find_entry :: "string \<Rightarrow> state_entry list \<Rightarrow> state_entry option" where
  "find_entry n [] = None"
| "find_entry n (e # es) = (if en_name e = n then Some e else find_entry n es)"

definition file_section :: "StateFile \<Rightarrow> string \<Rightarrow> u8 list option" where
  "file_section f name =
     map_option (\<lambda>e. take (unat (en_length e)) (drop (unat (en_offset e)) (sf_bytes f)))
       (find_entry name (sf_entries f))"

definition titlePayload :: "StateFile \<Rightarrow> u8 list option" where
  "titlePayload f = file_section f kTitle"

section \<open>The bytes of an image\<close>

text \<open>The container as a function of its sections.\<close>

definition sec_bytes :: "string \<times> u8 list \<Rightarrow> u8 list" where
  "sec_bytes s =
     char_bytes (fst s) @ replicate (kSectionNameBytes - length (fst s)) 0 @
     bytes_of 4 (of_nat (length (snd s)) :: u32) @ snd s"

definition head_bytes :: "nat \<Rightarrow> u8 list" where
  "head_bytes n = kStateMagic @ bytes_of 4 kFormatVersion @ bytes_of 4 (of_nat n :: u32)"

definition image_bytes :: "(string \<times> u8 list) list \<Rightarrow> u8 list" where
  "image_bytes secs = head_bytes (length secs) @ concat (map sec_bytes secs)"

definition sec_ok :: "string \<times> u8 list \<Rightarrow> bool" where
  "sec_ok s \<longleftrightarrow> isFrameworkSectionName (fst s) \<and> length (snd s) < 2 ^ 32"

lemma length_magic [simp]: "length kStateMagic = 8"
  by (simp add: kStateMagic_def)

lemma length_head [simp]: "length (head_bytes n) = 16"
  by (simp add: head_bytes_def)

lemma length_char_bytes [simp]: "length (char_bytes s) = length s"
  by (simp add: char_bytes_def)

lemma framework_name:
  assumes "isFrameworkSectionName n"
  shows "n \<noteq> []" and "length n < kSectionNameBytes" and "CHR 0x00 \<notin> set n"
  using assms by (auto simp: isFrameworkSectionName_def kRequired_def kTitle_def kSectionNameBytes_def)

lemma char_bytes_nonzero: "CHR 0x00 \<notin> set n \<Longrightarrow> 0 \<notin> set (char_bytes n)"
proof
  assume n: "CHR 0x00 \<notin> set n" and "0 \<in> set (char_bytes n)"
  then obtain c where c: "c \<in> set n" and "of_nat (of_char c) = (0 :: u8)"
    by (auto simp: char_bytes_def)
  then have "(of_char c :: nat) = 0"
    using unat_of_nat_small [where 'a = 8, of "of_char c"] by simp
  moreover have "char_of (0 :: nat) = CHR 0x00" by (simp add: char_of_def)
  ultimately have "c = CHR 0x00" by (metis char_of_char)
  with c n show False by simp
qed

lemma bytes_chars_char_bytes [simp]: "bytes_chars (char_bytes s) = s"
  by (simp add: bytes_chars_def char_bytes_def comp_def map_idI)

lemma image_add_bytes:
  assumes "si_names img = map fst secs" and "secs \<noteq> [] \<Longrightarrow> si_bytes img = image_bytes secs"
    and "sec_ok s" and "fst s \<notin> set (map fst secs)"
  shows "image_add (fst s) (snd s) img =
    (True, \<lparr>si_bytes = image_bytes (secs @ [s]), si_names = map fst (secs @ [s])\<rparr>)"
proof -
  have ok: "fst s \<noteq> []" "length (fst s) < kSectionNameBytes" "\<not> length (snd s) > 0xFFFFFFFF"
    using assms(3) framework_name by (auto simp: sec_ok_def)
  let ?start = "if si_names img = [] then w_u32 0 (w_u32 kFormatVersion (w_bytes kStateMagic []))
    else si_bytes img"
  have start: "?start = head_bytes (length secs) @ concat (map sec_bytes secs)"
    using assms(1,2) by (cases "secs = []")
      (simp_all add: codec_simps head_bytes_def image_bytes_def w_bytes_def)
  have "take 12 (head_bytes n) = take 12 (head_bytes m)" for n m
    by (simp add: head_bytes_def)
  moreover have "take 12 (head_bytes n) @ bytes_of 4 (of_nat n :: u32) = head_bytes n" for n
    by (simp add: head_bytes_def)
  ultimately have "take 12 (head_bytes m) @ bytes_of 4 (of_nat n :: u32) = head_bytes n" for m n
    by metis
  from this [of _ "Suc n" for n]
  have "take 12 (head_bytes m) @ bytes_of 4 (1 + of_nat n :: u32) = head_bytes (Suc n)" for m n
    by simp
  then show ?thesis
    using ok assms(1,4) start
    by (simp add: image_add_def Let_def codec_simps image_bytes_def sec_bytes_def)
qed


lemma image_adds:
  "list_all sec_ok secs \<Longrightarrow> distinct (map fst secs) \<Longrightarrow>
     image_add_all secs = (True, if secs = [] then empty_image
       else \<lparr>si_bytes = image_bytes secs, si_names = map fst secs\<rparr>)"
  unfolding image_add_all_def
proof (induction secs rule: rev_induct)
  case (snoc s secs)
  then have IH: "foldl (\<lambda>(ok, img) (n, p). apfst (\<lambda>b. ok \<and> b) (image_add n p img)) (True, empty_image) secs =
     (True, if secs = [] then empty_image
            else \<lparr>si_bytes = image_bytes secs, si_names = map fst secs\<rparr>)"
    by simp
  let ?img = "if secs = [] then empty_image else \<lparr>si_bytes = image_bytes secs, si_names = map fst secs\<rparr>"
  have "image_add (fst s) (snd s) ?img =
      (True, \<lparr>si_bytes = image_bytes (secs @ [s]), si_names = map fst (secs @ [s])\<rparr>)"
    using snoc.prems by (intro image_add_bytes) (auto simp: empty_image_def)
  with IH show ?case by (cases s) simp
qed simp

section \<open>Reading an image back\<close>

lemma length_sec_bytes:
  "length (fst s) < kSectionNameBytes \<Longrightarrow> length (sec_bytes s) = kSectionNameBytes + 4 + length (snd s)"
  by (simp add: sec_bytes_def)

lemma sec_name_bytes:
  assumes "isFrameworkSectionName (fst s)"
  shows "takeWhile (\<lambda>b. b \<noteq> 0) (take kSectionNameBytes (sec_bytes s @ rest)) = char_bytes (fst s)"
proof -
  note f = framework_name [OF assms]
  have nz: "\<forall>b\<in>set (char_bytes (fst s)). b \<noteq> 0"
    using char_bytes_nonzero [OF f(3)] by auto
  obtain k where k: "kSectionNameBytes - length (fst s) = Suc k"
    using f(2) by (metis Suc_diff_Suc)
  have "take kSectionNameBytes (sec_bytes s @ rest) = char_bytes (fst s) @ replicate (Suc k) 0"
    using f(2) k by (simp add: sec_bytes_def)
  then show ?thesis
    using nz by (simp add: takeWhile_append)
qed

lemma sec_length_bytes:
  assumes "length (fst s) < kSectionNameBytes" and "length (snd s) < 2 ^ 32"
  shows "fst (r_u32 (reader_of (take 4 (drop kSectionNameBytes (sec_bytes s @ rest))))) =
    of_nat (length (snd s))"
proof -
  have "take 4 (drop kSectionNameBytes (sec_bytes s @ rest)) = w_u32 (of_nat (length (snd s))) []"
    using assms by (simp add: sec_bytes_def codec_simps)
  moreover have "r_u32 (reader_of (w_u32 v [])) = (v, advance 4 (reader_of (w_u32 v [])))" for v
    using u32c.dec_enc [OF TrueI, of "reader_of (w_u32 v [])" v "[]"]
    by (simp add: reader_of_def codec_simps)
  ultimately show ?thesis by simp
qed

text \<open>The directory of the sections laid out from \<open>offset\<close>.\<close>

fun directory :: "nat \<Rightarrow> (string \<times> u8 list) list \<Rightarrow> state_entry list" where
  "directory offset [] = []"
| "directory offset (s # ss) =
     \<lparr>en_name = fst s, en_offset = of_nat (offset + (kSectionNameBytes + 4)),
       en_length = of_nat (length (snd s))\<rparr> #
     directory (offset + length (sec_bytes s)) ss"

lemma open_sections_image:
  "drop offset bs = concat (map sec_bytes secs) @ rest \<Longrightarrow> offset \<le> length bs \<Longrightarrow>
   list_all sec_ok secs \<Longrightarrow> distinct (names @ map fst secs) \<Longrightarrow>
   open_sections bs count (length secs) offset entries names =
     Inr (entries @ directory offset secs, names @ map fst secs)"
proof (induction secs arbitrary: offset entries names)
  case (Cons s secs)
  note ok = Cons.prems(3) [unfolded list.pred_inject sec_ok_def]
  note f = framework_name [OF ok [THEN conjunct1, THEN conjunct1]]
  let ?tail = "concat (map sec_bytes secs) @ rest"
  have d: "drop offset bs = sec_bytes s @ ?tail" using Cons.prems(1) by simp
  have len: "length bs - offset = kSectionNameBytes + 4 + length (snd s) + length ?tail"
    using arg_cong [OF d, of length] length_sec_bytes [OF f(2)] by simp
  have d4: "drop (offset + kSectionNameBytes) bs = drop kSectionNameBytes (sec_bytes s @ ?tail)"
    unfolding d [symmetric] by (simp add: add.commute)
  have lf: "fst (r_u32 (reader_of (take 4 (drop (offset + kSectionNameBytes) bs)))) =
      (of_nat (length (snd s)) :: u32)"
    unfolding d4 by (rule sec_length_bytes) (use f ok in auto)
  have lu: "unat (of_nat (length (snd s)) :: u32) = length (snd s)" using ok by simp
  have next_off: "offset + (kSectionNameBytes + 4) + length (snd s) = offset + length (sec_bytes s)"
    using length_sec_bytes [OF f(2)] by simp
  have "drop (length (sec_bytes s)) (drop offset bs) = ?tail" unfolding d by simp
  then have rest: "drop (offset + length (sec_bytes s)) bs = ?tail" by (simp add: add.commute)
  have nm: "bytes_chars (takeWhile (\<lambda>b. b \<noteq> 0) (take kSectionNameBytes (drop offset bs))) = fst s"
    unfolding d using ok by (simp only: sec_name_bytes bytes_chars_char_bytes)
  have fits: "\<not> length (snd s) > length bs - (offset + (kSectionNameBytes + 4))"
    using len by linarith
  have step: "open_sections bs count (length (s # secs)) offset entries names =
      open_sections bs count (length secs) (offset + length (sec_bytes s))
        (entries @ [\<lparr>en_name = fst s, en_offset = of_nat (offset + (kSectionNameBytes + 4)),
          en_length = of_nat (length (snd s))\<rparr>]) (names @ [fst s])"
    using f ok len fits Cons.prems(4)
    by (simp add: Let_def nm lf lu next_off)
  show ?case unfolding step
    by (subst Cons.IH) (use rest len Cons.prems length_sec_bytes [OF f(2)] in auto)
qed simp


lemma head_decodes:
  assumes "n < 2 ^ 32"
  shows "take 8 (head_bytes n @ rest) = kStateMagic"
    and "r_u32 (snd (r_u32 (snd (r_u32 (reader_of (take 16 (head_bytes n @ rest))))))) =
      (kFormatVersion, advance 12 (reader_of (head_bytes n)))"
    and "r_u32 (advance 12 (reader_of (head_bytes n))) = (of_nat n, advance 16 (reader_of (head_bytes n)))"
proof -
  let ?r = "reader_of (head_bytes n)"
  show "take 8 (head_bytes n @ rest) = kStateMagic" by (simp add: head_bytes_def)
  have t: "take 16 (head_bytes n @ rest) = head_bytes n" by simp
  have av: "avail k ?r" if "k \<le> 16" for k
    using that by (simp add: avail_def reader_of_def)
  have 1: "snd (r_u32 (snd (r_u32 ?r))) = advance 8 ?r"
    using av by (simp add: r_u32_avail)
  have "ahead 4 (advance 8 ?r) = bytes_of 4 kFormatVersion" "ahead 4 (advance 12 ?r) = bytes_of 4 (of_nat n :: u32)"
    by (simp_all add: ahead_def reader_of_def head_bytes_def)
  then show "r_u32 (snd (r_u32 (snd (r_u32 (reader_of (take 16 (head_bytes n @ rest))))))) =
      (kFormatVersion, advance 12 ?r)"
    and "r_u32 (advance 12 ?r) = (of_nat n, advance 16 ?r)"
    unfolding t 1 using av by (simp_all add: r_u32_avail)
qed

lemma framework_names_finite:
  assumes "list_all sec_ok secs" and "distinct (map fst secs)"
  shows "length secs \<le> 16"
proof -
  have "set (map fst secs) \<subseteq> set (kTitle # kRequired)"
    using assms(1) by (auto simp: list_all_iff sec_ok_def isFrameworkSectionName_def)
  then have "card (set (map fst secs)) \<le> card (set (kTitle # kRequired))"
    by (rule card_mono [rotated]) simp
  also have "\<dots> \<le> length (kTitle # kRequired)" by (rule card_length)
  finally show ?thesis using distinct_card [OF assms(2)] by (simp add: kRequired_def)
qed

lemma state_open_image:
  assumes "secs \<noteq> []" and "list_all sec_ok secs" and "distinct (map fst secs)"
  shows "state_open (image_bytes secs) =
    Inr \<lparr>sf_bytes = image_bytes secs, sf_entries = directory 16 secs, sf_names = map fst secs,
      sf_version = kFormatVersion\<rparr>"
proof -
  let ?n = "length secs" and ?bs = "image_bytes secs"
  have n: "?n \<le> 16" by (rule framework_names_finite [OF assms(2,3)])
  then have nu: "unat (of_nat ?n :: u32) = ?n" by simp
  then have c: "(of_nat ?n :: u32) \<noteq> 0" "\<not> (of_nat ?n :: u32) > kMaxSectionCount"
    using assms(1) n by (auto simp: word_less_nat_alt kMaxSectionCount_def simp flip: unat_eq_0)
  have bs: "?bs = head_bytes ?n @ concat (map sec_bytes secs)" by (simp add: image_bytes_def)
  have n32: "?n < 2 ^ 32" using n by simp
  note h12 = head_decodes(1,2) [OF n32, where rest = "concat (map sec_bytes secs)", folded bs]
  note h3 = head_decodes(3) [OF n32]
  have secs: "open_sections ?bs (of_nat ?n) ?n 16 [] [] = Inr (directory 16 secs, map fst secs)"
    by (subst open_sections_image [where rest = "[]"]) (use assms in \<open>auto simp: bs\<close>)
  have "br_ok (reader_of bytes)" for bytes by (simp add: reader_of_def)
  moreover have "\<not> length ?bs < 16" by (simp add: bs)
  ultimately show ?thesis
    using h12 h3 c secs nu
    unfolding state_open_def by (simp add: Let_def split_def)
qed

lemma find_directory:
  "drop offset bs = concat (map sec_bytes secs) @ rest \<Longrightarrow> length bs < 2 ^ 32 \<Longrightarrow>
   list_all sec_ok secs \<Longrightarrow> distinct (map fst secs) \<Longrightarrow> (n, p) \<in> set secs \<Longrightarrow>
   \<exists>e. find_entry n (directory offset secs) = Some e \<and>
     take (unat (en_length e)) (drop (unat (en_offset e)) bs) = p"
proof (induction secs arbitrary: offset)
  case (Cons s secs)
  note ok = Cons.prems(3) [unfolded list.pred_inject sec_ok_def]
  note f = framework_name [OF ok [THEN conjunct1, THEN conjunct1]]
  let ?tail = "concat (map sec_bytes secs) @ rest"
  have d: "drop offset bs = sec_bytes s @ ?tail" using Cons.prems(1) by simp
  have "length bs - offset = kSectionNameBytes + 4 + length (snd s) + length ?tail"
    using arg_cong [OF d, of length] length_sec_bytes [OF f(2)] by simp
  then have off: "unat (of_nat (offset + (kSectionNameBytes + 4)) :: u32) = offset + (kSectionNameBytes + 4)"
    using Cons.prems(2) by (intro unat_of_nat_small) simp
  have "drop (kSectionNameBytes + 4) (drop offset bs) = snd s @ ?tail"
    unfolding d using f(2) by (simp add: sec_bytes_def)
  then have pay: "drop (offset + (kSectionNameBytes + 4)) bs = snd s @ ?tail" by (simp add: add.commute)
  have "drop (length (sec_bytes s)) (drop offset bs) = ?tail" unfolding d by simp
  then have rest: "drop (offset + length (sec_bytes s)) bs = ?tail" by (simp add: add.commute)
  show ?case
  proof (cases "fst s = n")
    case True
    with Cons.prems(4,5) have "p = snd s" by (metis fst_conv image_eqI list.set_map
          distinct.simps(2) list.simps(9) set_ConsD snd_conv)
    with True ok off pay show ?thesis by (simp del: of_nat_add)
  next
    case False
    with Cons.prems have "(n, p) \<in> set secs" by auto
    with Cons.IH [OF rest Cons.prems(2)] Cons.prems(3,4) False show ?thesis by simp
  qed
qed simp

lemma find_directory_None: "n \<notin> set (map fst secs) \<Longrightarrow> find_entry n (directory offset secs) = None"
  by (induction secs arbitrary: offset) auto

lemma image_opens:
  assumes "secs \<noteq> []" and "list_all sec_ok secs" and "distinct (map fst secs)" and "length (image_bytes secs) < 2 ^ 32"
  shows "\<exists>f. state_open (image_bytes secs) = Inr f \<and> sf_names f = map fst secs \<and>
    (\<forall>n p. (n, p) \<in> set secs \<longrightarrow> file_section f n = Some p) \<and> (\<forall>n. n \<notin> set (map fst secs) \<longrightarrow> file_section f n = None)"
proof -
  let ?f = "\<lparr>sf_bytes = image_bytes secs, sf_entries = directory 16 secs, sf_names = map fst secs,
      sf_version = kFormatVersion\<rparr>"
  have "drop 16 (image_bytes secs) = concat (map sec_bytes secs) @ []"
    by (simp add: image_bytes_def)
  from find_directory [OF this assms(4,2,3)]
  have "file_section ?f n = Some p" if "(n, p) \<in> set secs" for n p
    using that by (fastforce simp: file_section_def)
  moreover have "file_section ?f n = None" if "n \<notin> set (map fst secs)" for n
    using find_directory_None [OF that] by (simp add: file_section_def)
  ultimately show ?thesis using state_open_image [OF assms(1-3)] by (intro exI [of _ ?f]) simp
qed

text \<open>A machine image written section by section, with distinct framework section names, is
  accepted by \<open>open\<close>, which lists the same names in the same order, and every section reads back
  as the payload it was given; a name that was not written has no section.\<close>

theorem state_image_roundtrip:
  assumes "secs \<noteq> []" and "list_all sec_ok secs" and "distinct (map fst secs)"
    and "length (image_bytes secs) < 2 ^ 32"
  shows "\<exists>img f. image_add_all secs = (True, img) \<and> state_open (si_bytes img) = Inr f \<and>
    sf_names f = map fst secs \<and> (\<forall>n p. (n, p) \<in> set secs \<longrightarrow> file_section f n = Some p) \<and>
    (\<forall>n. n \<notin> set (map fst secs) \<longrightarrow> file_section f n = None)"
proof -
  have "image_add_all secs = (True, \<lparr>si_bytes = image_bytes secs, si_names = map fst secs\<rparr>)"
    using image_adds [OF assms(2,3)] assms(1) by simp
  then show ?thesis using image_opens [OF assms] by simp
qed

section \<open>An accepted file is well formed\<close>

definition entry_ok :: "u8 list \<Rightarrow> state_entry \<Rightarrow> bool" where
  "entry_ok bs e \<longleftrightarrow> isFrameworkSectionName (en_name e) \<and>
     unat (en_offset e) + unat (en_length e) \<le> length bs"

lemma open_sections_sound:
  "open_sections bs count k offset entries names = Inr (es, ns) \<Longrightarrow> length bs < 2 ^ 32 \<Longrightarrow>
   offset \<le> length bs \<Longrightarrow> list_all (entry_ok bs) entries \<Longrightarrow> names = map en_name entries \<Longrightarrow>
   distinct names \<Longrightarrow>
   list_all (entry_ok bs) es \<and> ns = map en_name es \<and> distinct (map en_name es) \<and>
     length es = length entries + k"
proof (induction bs count k offset entries names rule: open_sections.induct)
  case (2 bs count k offset entries names)
  let ?name = "bytes_chars (takeWhile (\<lambda>b. b \<noteq> 0) (take kSectionNameBytes (drop offset bs)))"
  let ?len = "fst (r_u32 (reader_of (take 4 (drop (offset + kSectionNameBytes) bs))))"
  let ?off = "offset + (kSectionNameBytes + 4)"
  let ?e = "\<lparr>en_name = ?name, en_offset = of_nat ?off, en_length = ?len\<rparr>"
  from "2.prems"(1) have g: "\<not> length bs - offset < kSectionNameBytes + 4" "?name \<noteq> []"
    "isFrameworkSectionName ?name" "\<not> unat ?len > length bs - ?off" "?name \<notin> set names"
    and run: "open_sections bs count k (?off + unat ?len) (entries @ [?e]) (names @ [?name]) = Inr (es, ns)"
    by (auto simp: Let_def simp del: of_nat_add split: if_splits)
  have le: "?off + unat ?len \<le> length bs" using g(1,4) "2.prems"(3) by linarith
  then have "unat (of_nat ?off :: u32) = ?off"
    using "2.prems"(2) by (intro unat_of_nat_small) simp
  with g(3) le have "entry_ok bs ?e" by (simp add: entry_ok_def del: of_nat_add)
  with "2.IH" [OF refl g(1) refl refl g(2) _ refl refl g(4,5) run] "2.prems"(2-) g le show ?case
    by (simp del: of_nat_add)
qed simp


text \<open>C28: A file \<open>open\<close> accepts has between 1 and 64 sections, all with distinct framework names, and
  every section it can hand out lies inside the file (for a file under 4 GiB, the range of its
  32-bit offsets).\<close>

theorem state_open_sound:
  assumes "state_open bs = Inr f" and "length bs < 2 ^ 32"
  shows "sf_bytes f = bs \<and> sf_version f = kFormatVersion \<and> distinct (sf_names f) \<and>
    sf_names f = map en_name (sf_entries f) \<and> 1 \<le> length (sf_entries f) \<and> length (sf_entries f) \<le> 64 \<and>
    (\<forall>e\<in>set (sf_entries f). isFrameworkSectionName (en_name e) \<and>
      unat (en_offset e) + unat (en_length e) \<le> length bs)"
proof -
  from assms(1) obtain count es ns where g: "\<not> length bs < 16" "count \<noteq> 0" "\<not> count > kMaxSectionCount"
    and run: "open_sections bs count (unat count) 16 [] [] = Inr (es, ns)"
    and f: "f = \<lparr>sf_bytes = bs, sf_entries = es, sf_names = ns, sf_version = kFormatVersion\<rparr>"
    by (auto simp: state_open_def Let_def split: if_splits sum.splits prod.splits)
  have "unat count \<noteq> 0" "unat count \<le> 64"
    using g by (auto simp: kMaxSectionCount_def word_less_nat_alt unat_eq_0 not_less)
  moreover have "list_all (entry_ok bs) es \<and> ns = map en_name es \<and> distinct (map en_name es) \<and>
      length es = unat count"
    using open_sections_sound [OF run assms(2)] g(1) by simp
  ultimately show ?thesis
    by (auto simp: f list_all_iff entry_ok_def)
qed

lemma state_image_roundtrip_witness:
  "\<exists>img f. image_add_all [(''cpu'', [1, 2]), (''title'', [])] = (True, img) \<and>
     state_open (si_bytes img) = Inr f \<and> file_section f ''cpu'' = Some [1, 2] \<and>
     file_section f ''title'' = Some [] \<and> file_section f ''ram'' = None"
  using state_image_roundtrip [of "[(''cpu'', [1, 2]), (''title'', [])]"]
  by (fastforce simp: sec_ok_def isFrameworkSectionName_def kRequired_def kTitle_def image_bytes_def
      sec_bytes_def kSectionNameBytes_def)

definition tiny_image :: "u8 list" where
  "tiny_image = image_bytes [(''sio'', [7])]"

lemma tiny_image_opens:
  "state_open tiny_image = Inr \<lparr>sf_bytes = tiny_image, sf_entries = directory 16 [(''sio'', [7])],
     sf_names = [''sio''], sf_version = kFormatVersion\<rparr>"
  unfolding tiny_image_def
  by (subst state_open_image) (simp_all add: sec_ok_def isFrameworkSectionName_def kRequired_def)

lemma tiny_image_length: "length tiny_image = 53"
  by (simp add: tiny_image_def image_bytes_def sec_bytes_def kSectionNameBytes_def)

lemma state_open_sound_witness:
  "state_open tiny_image = Inr \<lparr>sf_bytes = tiny_image, sf_entries = directory 16 [(''sio'', [7])],
     sf_names = [''sio''], sf_version = kFormatVersion\<rparr> \<and>
   list_all (\<lambda>e. isFrameworkSectionName (en_name e) \<and> unat (en_offset e) + unat (en_length e) \<le> 53)
     (directory 16 [(''sio'', [7])])"
  using state_open_sound [OF tiny_image_opens] tiny_image_opens
  by (simp add: tiny_image_length list_all_iff)

end
