(* ===== verification/Pad_Recording.thy ===== *)
theory Pad_Recording
  imports Blob_Codec
begin

text \<open>
  The phase-keyed pad recording (\<open>input/pad_recording.h\<close>, \<open>input/pad_recording.cpp\<close>): the in-memory
  run-length form and its queries, the file format both ways, and the streaming sink. The frame total
  and the byte offsets (\<open>size_t\<close>) are naturals; a run's frame count stays a 32-bit word. The sink's
  stream is its bytes and its put position: a write goes where the position is and moves it on. Whether
  a seek or a write succeeds is an argument of the sink's operations.
\<close>

section \<open>Data\<close>

definition kNoButtons :: u16 where "kNoButtons = 0xFFFF"
definition kUnkeyedPhase :: u64 where "kUnkeyedPhase = 0xFFFFFFFFFFFFFFFF"

datatype CardKind = CardUnknown | CardAbsent | CardImage

record CardIdentity =
  card_kind :: CardKind
  card_sha256 :: "u8 list"

record PadRun =
  run_mask :: u16
  run_frames :: u32

record PadFrame =
  pf_phase :: u64
  pf_mask :: u16

record PadSegment =
  seg_phase :: u64
  seg_runs :: "PadRun list"

datatype PadAppend = Extended | NewRun | NewSegment

record PadRecording =
  pr_card :: CardIdentity
  pr_segments :: "PadSegment list"
  pr_totalFrames :: nat

definition new_recording :: "CardIdentity \<Rightarrow> PadRecording" where
  "new_recording cid = \<lparr>pr_card = cid, pr_segments = [], pr_totalFrames = 0\<rparr>"

lemma record_eta [simp]:
  "\<lparr>run_mask = run_mask x, run_frames = run_frames x\<rparr> = x"
  "\<lparr>card_kind = card_kind cid, card_sha256 = card_sha256 cid\<rparr> = cid"
  "\<lparr>pf_phase = pf_phase f, pf_mask = pf_mask f\<rparr> = f"
  by simp_all

section \<open>Segment queries\<close>

definition seg_frames :: "PadSegment \<Rightarrow> u32" where
  "seg_frames s = foldl (\<lambda>total run. total + run_frames run) 0 (seg_runs s)"

fun mask_at_runs :: "PadRun list \<Rightarrow> u32 \<Rightarrow> u16" where
  "mask_at_runs [] offset = kNoButtons"
| "mask_at_runs (run # runs) offset =
     (if offset < run_frames run then run_mask run else mask_at_runs runs (offset - run_frames run))"

definition maskAt :: "PadSegment \<Rightarrow> u32 \<Rightarrow> u16" where
  "maskAt s offset = mask_at_runs (seg_runs s) offset"

fun input_frames_loop :: "PadRun list \<Rightarrow> u32 \<Rightarrow> u32 \<Rightarrow> u32 \<Rightarrow> u32" where
  "input_frames_loop [] offset start pressed = pressed"
| "input_frames_loop (run # runs) offset start pressed =
     (let end' = start + run_frames run;
          pressed' = (if run_mask run \<noteq> kNoButtons \<and> end' > offset
                      then pressed + (end' - max start offset) else pressed)
      in input_frames_loop runs offset end' pressed')"

definition inputFramesFrom :: "PadSegment \<Rightarrow> u32 \<Rightarrow> u32" where
  "inputFramesFrom s offset = input_frames_loop (seg_runs s) offset 0 0"

definition seg_matches :: "PadSegment \<Rightarrow> u64 \<Rightarrow> bool" where
  "seg_matches s observedPhase \<longleftrightarrow> seg_phase s = kUnkeyedPhase \<or> seg_phase s = observedPhase"

definition keyed :: "PadRecording \<Rightarrow> bool" where
  "keyed r \<longleftrightarrow> list_ex (\<lambda>s. seg_phase s \<noteq> kUnkeyedPhase) (pr_segments r)"

section \<open>Append\<close>

definition recording_append :: "PadFrame \<Rightarrow> PadRecording \<Rightarrow> PadAppend \<times> PadRecording" where
  "recording_append frame r =
     (let newSeg = (pr_segments r = [] \<or> seg_phase (last (pr_segments r)) \<noteq> pf_phase frame);
          segs = (if newSeg then pr_segments r @ [\<lparr>seg_phase = pf_phase frame, seg_runs = []\<rparr>]
                  else pr_segments r);
          back = last segs;
          newRun = (seg_runs back = [] \<or> run_mask (last (seg_runs back)) \<noteq> pf_mask frame);
          runs = (if newRun then seg_runs back @ [\<lparr>run_mask = pf_mask frame, run_frames = 0\<rparr>]
                  else seg_runs back);
          runs' = butlast runs @ [(last runs)\<lparr>run_frames := run_frames (last runs) + 1\<rparr>];
          what = (if newSeg then NewSegment else if newRun then NewRun else Extended)
      in (what, r\<lparr>pr_segments := butlast segs @ [back\<lparr>seg_runs := runs'\<rparr>],
                  pr_totalFrames := pr_totalFrames r + 1\<rparr>))"

section \<open>The file format\<close>

definition kMagic :: "u8 list" where
  "kMagic = map (\<lambda>c. of_nat (of_char c)) ''PSXPADPH''"

definition kVersion :: u32 where "kVersion = 1"
definition kHeaderBytes :: nat where "kHeaderBytes = 8 + 4 + 4 + 32"
definition kPhaseTag :: u8 where "kPhaseTag = 80"
definition kRunTag :: u8 where "kRunTag = 82"
definition kPhaseRecordBytes :: nat where "kPhaseRecordBytes = 1 + 8"
definition kRunRecordBytes :: nat where "kRunRecordBytes = 1 + 2 + 4"
definition kRunFramesOffset :: nat where "kRunFramesOffset = 1 + 2"

fun card_kind_code :: "CardKind \<Rightarrow> u32" where
  "card_kind_code CardUnknown = 0"
| "card_kind_code CardAbsent = 1"
| "card_kind_code CardImage = 2"

definition card_kind_of :: "u32 \<Rightarrow> CardKind" where
  "card_kind_of k = (if k = 0 then CardUnknown else if k = 1 then CardAbsent else CardImage)"

definition putHeader :: "BlobWriter \<Rightarrow> CardIdentity \<Rightarrow> BlobWriter" where
  "putHeader out cid =
     (let out = foldl (\<lambda>w c. w_u8 c w) out kMagic;
          out = w_u32 (card_kind_code (card_kind cid)) (w_u32 kVersion out)
      in foldl (\<lambda>w b. w_u8 (if card_kind cid = CardImage then b else 0) w) out (card_sha256 cid))"

definition putPhase :: "BlobWriter \<Rightarrow> u64 \<Rightarrow> BlobWriter" where
  "putPhase out phase = w_u64 phase (w_u8 kPhaseTag out)"

definition putRun :: "BlobWriter \<Rightarrow> PadRun \<Rightarrow> BlobWriter" where
  "putRun out run = w_u32 (run_frames run) (w_u16 (run_mask run) (w_u8 kRunTag out))"

text \<open>The two nested loops of \<open>encode\<close>, each returning the bytes and the frames still to write.\<close>

fun encode_runs :: "PadRun list \<Rightarrow> BlobWriter \<Rightarrow> nat \<Rightarrow> BlobWriter \<times> nat" where
  "encode_runs [] out remaining = (out, remaining)"
| "encode_runs (run # runs) out remaining =
     (if remaining = 0 then (out, remaining)
      else let frames = of_nat (min (unat (run_frames run)) remaining)
           in encode_runs runs (putRun out \<lparr>run_mask = run_mask run, run_frames = frames\<rparr>)
                (remaining - unat frames))"

fun encode_segments :: "PadSegment list \<Rightarrow> BlobWriter \<Rightarrow> nat \<Rightarrow> BlobWriter" where
  "encode_segments [] out remaining = out"
| "encode_segments (s # ss) out remaining =
     (if remaining = 0 then out
      else let (out', remaining') = encode_runs (seg_runs s) (putPhase out (seg_phase s)) remaining
           in encode_segments ss out' remaining')"

definition encode_recording :: "nat \<Rightarrow> PadRecording \<Rightarrow> u8 list" where
  "encode_recording frameLimit r =
     encode_segments (pr_segments r) (putHeader [] (pr_card r))
       (if frameLimit \<noteq> 0 then frameLimit else pr_totalFrames r)"

text \<open>Why \<open>decode\<close> refuses a file; each reason has the values its message prints.\<close>

datatype decode_error =
    NotAPadRecording | TruncatedHeader nat | UnsupportedVersion u32 | UnknownCardKind u32
  | TruncatedPhase nat | EmptyPhase nat | TruncatedRun nat | RunBeforePhase nat | ZeroRun nat
  | UnknownTag u8 nat | NoFrames

definition field_at :: "u8 list \<Rightarrow> nat \<Rightarrow> BlobReader" where
  "field_at bs at = reader_of (drop at bs)"

function decode_records :: "u8 list \<Rightarrow> nat \<Rightarrow> PadRecording \<Rightarrow> decode_error + PadRecording" where
  "decode_records bs at r =
     (if at \<ge> length bs then
        (if pr_segments r = [] \<or> seg_runs (last (pr_segments r)) = [] then Inl NoFrames else Inr r)
      else if bs ! at = kPhaseTag then
        (if length bs - at < kPhaseRecordBytes then Inl (TruncatedPhase at)
         else if pr_segments r \<noteq> [] \<and> seg_runs (last (pr_segments r)) = [] then Inl (EmptyPhase at)
         else decode_records bs (at + kPhaseRecordBytes)
                (r\<lparr>pr_segments := pr_segments r @
                    [\<lparr>seg_phase = fst (r_u64 (field_at bs (at + 1))), seg_runs = []\<rparr>]\<rparr>))
      else if bs ! at = kRunTag then
        (if length bs - at < kRunRecordBytes then Inl (TruncatedRun at)
         else if pr_segments r = [] then Inl (RunBeforePhase at)
         else
           let mask = fst (r_u16 (field_at bs (at + 1)));
               frames = fst (r_u32 (field_at bs (at + kRunFramesOffset)));
               back = last (pr_segments r)
           in if frames = 0 then Inl (ZeroRun at)
              else decode_records bs (at + kRunRecordBytes)
                (r\<lparr>pr_segments := butlast (pr_segments r) @
                     [back\<lparr>seg_runs := seg_runs back @ [\<lparr>run_mask = mask, run_frames = frames\<rparr>]\<rparr>],
                   pr_totalFrames := pr_totalFrames r + unat frames\<rparr>))
      else Inl (UnknownTag (bs ! at) at))"
  by pat_completeness auto
termination
  by (relation "measure (\<lambda>(bs, at, _). length bs - at)")
    (auto simp: kPhaseRecordBytes_def kRunRecordBytes_def)

declare decode_records.simps [simp del]

definition decode_recording :: "u8 list \<Rightarrow> decode_error + PadRecording" where
  "decode_recording bs =
     (if length bs < length kMagic \<or> take (length kMagic) bs \<noteq> kMagic then Inl NotAPadRecording
      else if length bs < kHeaderBytes then Inl (TruncatedHeader (length bs))
      else
        let version = fst (r_u32 (field_at bs 8))
        in if version \<noteq> kVersion then Inl (UnsupportedVersion version)
        else
          let cardKind = fst (r_u32 (field_at bs 12))
          in if cardKind > card_kind_code CardImage then Inl (UnknownCardKind cardKind)
          else decode_records bs kHeaderBytes
            (new_recording \<lparr>card_kind = card_kind_of cardKind, card_sha256 = take 32 (drop 16 bs)\<rparr>))"

section \<open>The streaming sink\<close>

text \<open>
  What the stream answers during one operation: whether each seek and the position query succeed,
  and whether the write does or stops after some bytes.
\<close>

datatype write_outcome = WroteAll | WroteOnly nat

record sink_io =
  io_seek :: bool
  io_write_outcome :: write_outcome
  io_seek_end :: bool
  io_tell :: bool

record PadRecordingWriter =
  pw_file :: "u8 list"
  pw_put :: nat
  pw_failed :: bool
  pw_runFrames :: u32
  pw_runFramesPos :: int

definition overwrite :: "nat \<Rightarrow> u8 list \<Rightarrow> u8 list \<Rightarrow> u8 list" where
  "overwrite pos bs file = take pos file @ replicate (pos - length file) 0 @ bs @ drop (pos + length bs) file"

text \<open>The stream itself: a write at the put position, the seek to an offset and the one to the end.\<close>

definition stream_put :: "u8 list \<Rightarrow> PadRecordingWriter \<Rightarrow> PadRecordingWriter" where
  "stream_put bs w = w\<lparr>pw_file := overwrite (pw_put w) bs (pw_file w), pw_put := pw_put w + length bs\<rparr>"

definition stream_seek :: "nat \<Rightarrow> PadRecordingWriter \<Rightarrow> PadRecordingWriter" where
  "stream_seek pos w = w\<lparr>pw_put := pos\<rparr>"

definition stream_seek_end :: "PadRecordingWriter \<Rightarrow> PadRecordingWriter" where
  "stream_seek_end w = w\<lparr>pw_put := length (pw_file w)\<rparr>"

lemmas stream_defs = stream_put_def stream_seek_def stream_seek_end_def

definition sink_fail :: "PadRecordingWriter \<Rightarrow> bool \<times> PadRecordingWriter" where
  "sink_fail w = (False, w\<lparr>pw_failed := True\<rparr>)"

definition sink_write :: "write_outcome \<Rightarrow> u8 list \<Rightarrow> PadRecordingWriter \<Rightarrow> bool \<times> PadRecordingWriter" where
  "sink_write res bs w =
     (if pw_failed w then (False, w)
      else case res of
        WroteAll \<Rightarrow> (True, stream_put bs w)
      | WroteOnly n \<Rightarrow> sink_fail (stream_put (take n bs) w))"

definition sink_open :: "write_outcome \<Rightarrow> CardIdentity \<Rightarrow> PadRecordingWriter option" where
  "sink_open res cid =
     (let w = \<lparr>pw_file = [], pw_put = 0, pw_failed = False, pw_runFrames = 0, pw_runFramesPos = -1\<rparr>;
          (ok, w') = sink_write res (putHeader [] cid) w
      in if ok then Some w' else None)"

definition sink_append ::
  "sink_io \<Rightarrow> PadFrame \<Rightarrow> PadAppend \<Rightarrow> PadRecordingWriter \<Rightarrow> bool \<times> PadRecordingWriter" where
  "sink_append io frame what w =
     (if pw_failed w then (False, w)
      else if what = Extended then
        let w1 = w\<lparr>pw_runFrames := pw_runFrames w + 1\<rparr>;
            bytes = w_u32 (pw_runFrames w1) []
        in if \<not> io_seek io \<or> pw_runFramesPos w1 < 0 then sink_fail w1
        else
          let (wrote, w2) = sink_write (io_write_outcome io) bytes (stream_seek (nat (pw_runFramesPos w1)) w1)
          in if \<not> io_seek_end io \<or> \<not> wrote then sink_fail w2 else (wrote, stream_seek_end w2)
      else
        let bytes = (if what = NewSegment then putPhase [] (pf_phase frame) else [])
        in if \<not> io_tell io then sink_fail w
        else
          let end' = pw_put w;
              w1 = w\<lparr>pw_runFramesPos := int (end' + (length bytes + kRunFramesOffset))\<rparr>;
              bytes' = putRun bytes \<lparr>run_mask = pf_mask frame, run_frames = 1\<rparr>
          in sink_write (io_write_outcome io) bytes' (w1\<lparr>pw_runFrames := 1\<rparr>))"

section \<open>What the encoders append\<close>

lemma foldl_w_u8: "foldl (\<lambda>w b. w_u8 (f b) w) out bs = out @ map f bs"
  by (induction bs arbitrary: out) (simp_all add: w_u8_def)

definition head_of :: "CardIdentity \<Rightarrow> u8 list" where
  "head_of cid = kMagic @ bytes_of 4 kVersion @ bytes_of 4 (card_kind_code (card_kind cid)) @
     map (\<lambda>b. if card_kind cid = CardImage then b else 0) (card_sha256 cid)"

definition phase_bytes :: "u64 \<Rightarrow> u8 list" where
  "phase_bytes p = kPhaseTag # bytes_of 8 p"

definition run_bytes :: "PadRun \<Rightarrow> u8 list" where
  "run_bytes r = kRunTag # bytes_of 2 (run_mask r) @ bytes_of 4 (run_frames r)"

definition seg_bytes :: "PadSegment \<Rightarrow> u8 list" where
  "seg_bytes s = phase_bytes (seg_phase s) @ concat (map run_bytes (seg_runs s))"

lemma putHeader_bytes [codec_simps]: "putHeader out cid = out @ head_of cid"
  by (simp add: putHeader_def head_of_def Let_def codec_simps
      foldl_w_u8 [of "\<lambda>b. b", simplified] foldl_w_u8)

lemma putPhase_bytes [codec_simps]: "putPhase out p = out @ phase_bytes p"
  by (simp add: putPhase_def phase_bytes_def w_u8_def codec_simps)

lemma putRun_bytes [codec_simps]: "putRun out r = out @ run_bytes r"
  by (simp add: putRun_def run_bytes_def w_u8_def codec_simps)

lemma length_magic_pad [simp]: "length kMagic = 8"
  by (simp add: kMagic_def)

lemma length_run_bytes [simp]: "length (run_bytes r) = kRunRecordBytes"
  by (simp add: run_bytes_def kRunRecordBytes_def)

lemma length_phase_bytes [simp]: "length (phase_bytes p) = kPhaseRecordBytes"
  by (simp add: phase_bytes_def kPhaseRecordBytes_def)

section \<open>Frames\<close>

text \<open>The frames a recording stands for, in order, and the first \<open>n\<close> of them in run-length form.\<close>

definition run_expand :: "u64 \<Rightarrow> PadRun \<Rightarrow> PadFrame list" where
  "run_expand p r = replicate (unat (run_frames r)) \<lparr>pf_phase = p, pf_mask = run_mask r\<rparr>"

definition seg_expand :: "PadSegment \<Rightarrow> PadFrame list" where
  "seg_expand s = concat (map (run_expand (seg_phase s)) (seg_runs s))"

definition expand :: "PadSegment list \<Rightarrow> PadFrame list" where
  "expand ss = concat (map seg_expand ss)"

fun cut_runs :: "nat \<Rightarrow> PadRun list \<Rightarrow> PadRun list" where
  "cut_runs n [] = []"
| "cut_runs n (r # rs) =
     (if n = 0 then []
      else r\<lparr>run_frames := of_nat (min (unat (run_frames r)) n)\<rparr> # cut_runs (n - unat (run_frames r)) rs)"

fun cut_segments :: "nat \<Rightarrow> PadSegment list \<Rightarrow> PadSegment list" where
  "cut_segments n [] = []"
| "cut_segments n (s # ss) =
     (if n = 0 then []
      else s\<lparr>seg_runs := cut_runs n (seg_runs s)\<rparr> # cut_segments (n - length (seg_expand s)) ss)"

lemma length_run_expand [simp]: "length (run_expand p r) = unat (run_frames r)"
  by (simp add: run_expand_def)

lemma unat_min_of_nat [simp]: "unat (of_nat (min (unat (w :: 'a::len word)) n) :: 'a word) = min (unat w) n"
  by (rule unat_of_nat_small) (use unat_less [of w] in linarith)

lemma unat_pos: "0 < unat w \<longleftrightarrow> w \<noteq> 0" for w :: "'a::len word"
  by (metis unat_eq_0 gr_zeroI less_numeral_extra(3))

lemma encode_runs_cut:
  "encode_runs rs out n =
     (out @ concat (map run_bytes (cut_runs n rs)), n - length (concat (map (run_expand p) rs)))"
proof (induction rs arbitrary: out n)
  case (Cons r rs)
  have r: "\<lparr>run_mask = run_mask r, run_frames = f\<rparr> = r\<lparr>run_frames := f\<rparr>" for f by simp
  have m: "n - min (unat (run_frames r)) n = n - unat (run_frames r)" by simp
  show ?case unfolding encode_runs.simps Let_def r Cons.IH by (simp add: codec_simps m)
qed simp

lemma encode_segments_cut:
  "encode_segments ss out n = out @ concat (map seg_bytes (cut_segments n ss))"
proof (induction ss arbitrary: out n)
  case (Cons s ss)
  show ?case
    unfolding encode_segments.simps encode_runs_cut [of _ _ _ "seg_phase s"]
    by (simp add: Let_def Cons.IH seg_bytes_def codec_simps seg_expand_def)
qed simp

lemma run_expand_cut:
  "concat (map (run_expand p) (cut_runs n rs)) = take n (concat (map (run_expand p) rs))"
  by (induction n rs rule: cut_runs.induct) (simp_all add: run_expand_def, simp add: min.commute)

lemma expand_cut: "expand (cut_segments n ss) = take n (expand ss)"
  by (induction n ss rule: cut_segments.induct)
    (simp_all add: expand_def seg_expand_def run_expand_cut)

section \<open>Well-formed recordings\<close>

text \<open>The shape \<open>decode\<close> accepts: every phase holds frames and every run holds at least one.\<close>

definition seg_ok :: "PadSegment \<Rightarrow> bool" where
  "seg_ok s \<longleftrightarrow> seg_runs s \<noteq> [] \<and> (\<forall>r\<in>set (seg_runs s). run_frames r \<noteq> 0)"

definition rec_ok :: "PadRecording \<Rightarrow> bool" where
  "rec_ok r \<longleftrightarrow> list_all seg_ok (pr_segments r) \<and> pr_totalFrames r = length (expand (pr_segments r))"

definition card_ok :: "CardIdentity \<Rightarrow> bool" where
  "card_ok cid \<longleftrightarrow> length (card_sha256 cid) = 32 \<and>
     (card_kind cid \<noteq> CardImage \<longrightarrow> card_sha256 cid = replicate 32 0)"

lemma card_ok_head: "card_ok cid \<Longrightarrow> head_of cid =
    kMagic @ bytes_of 4 kVersion @ bytes_of 4 (card_kind_code (card_kind cid)) @ card_sha256 cid"
  by (auto simp: head_of_def card_ok_def)

lemma cut_runs_ok:
  "n \<noteq> 0 \<Longrightarrow> rs \<noteq> [] \<Longrightarrow> \<forall>r\<in>set rs. run_frames r \<noteq> 0 \<Longrightarrow>
     cut_runs n rs \<noteq> [] \<and> (\<forall>r\<in>set (cut_runs n rs). run_frames r \<noteq> 0)"
proof (induction n rs rule: cut_runs.induct)
  case (2 n r rs)
  have "unat (of_nat (min (unat (run_frames r)) n) :: u32) \<noteq> 0"
    using 2 by (simp add: unat_pos)
  then have "of_nat (min (unat (run_frames r)) n) \<noteq> (0 :: u32)" by (metis unat_0)
  with 2 show ?case by (cases "n - unat (run_frames r) = 0 \<or> rs = []") (auto split: if_splits,
        (cases rs; auto)+)
qed simp

lemma cut_segments_ok: "list_all seg_ok ss \<Longrightarrow> list_all seg_ok (cut_segments n ss)"
  by (induction n ss rule: cut_segments.induct) (use cut_runs_ok in \<open>auto simp: seg_ok_def\<close>)

lemma cut_runs_all: "length (concat (map (run_expand p) rs)) \<le> n \<Longrightarrow>
    \<forall>r\<in>set rs. run_frames r \<noteq> 0 \<Longrightarrow> cut_runs n rs = rs"
  by (induction n rs rule: cut_runs.induct) (auto simp: min_def, metis unat_pos gr_zeroI le_0_eq add_is_0 unat_eq_0)

lemma cut_segments_all: "length (expand ss) \<le> n \<Longrightarrow> list_all seg_ok ss \<Longrightarrow> cut_segments n ss = ss"
proof (induction n ss rule: cut_segments.induct)
  case (2 n s ss)
  have "length (seg_expand s) \<le> n" "length (expand ss) \<le> n - length (seg_expand s)"
    using "2.prems"(1) by (simp_all add: expand_def)
  moreover from this have "cut_runs n (seg_runs s) = seg_runs s"
    using "2.prems"(2) by (intro cut_runs_all [of "seg_phase s"]) (auto simp: seg_ok_def seg_expand_def)
  moreover have "seg_expand s \<noteq> []"
  proof -
    obtain r rs where "seg_runs s = r # rs" "run_frames r \<noteq> 0"
      using "2.prems"(2) by (cases "seg_runs s") (auto simp: seg_ok_def)
    then show ?thesis by (simp add: seg_expand_def run_expand_def unat_pos)
  qed
  ultimately show ?case using 2 by (cases "n = 0") auto
qed simp

lemma encode_recording_bytes:
  "encode_recording n r = head_of (pr_card r) @ concat (map seg_bytes
     (cut_segments (if n \<noteq> 0 then n else pr_totalFrames r) (pr_segments r)))"
  by (simp add: encode_recording_def encode_segments_cut codec_simps)

lemma encode_whole:
  "rec_ok r \<Longrightarrow> encode_recording 0 r = head_of (pr_card r) @ concat (map seg_bytes (pr_segments r))"
  by (simp add: encode_recording_bytes rec_ok_def cut_segments_all)

section \<open>Decoding what was encoded\<close>

lemma field_reads:
  "drop at bs = bytes_of 2 m @ rest \<Longrightarrow> fst (r_u16 (field_at bs at)) = m"
  "drop at bs = bytes_of 4 f @ rest \<Longrightarrow> fst (r_u32 (field_at bs at)) = f"
  "drop at bs = bytes_of 8 p @ rest \<Longrightarrow> fst (r_u64 (field_at bs at)) = p"
  using u16c.dec_enc [OF TrueI, of "field_at bs at" m rest]
    u32c.dec_enc [OF TrueI, of "field_at bs at" f rest]
    u64c.dec_enc [OF TrueI, of "field_at bs at" p rest]
  by (simp_all add: field_at_def reader_of_def codec_simps)

lemma drop_Cons_facts:
  assumes "drop at bs = x # xs"
  shows "\<not> at \<ge> length bs" "bs ! at = x" "drop (at + 1) bs = xs" "length bs - at = Suc (length xs)"
proof -
  show "\<not> at \<ge> length bs" using assms by auto
  then show "bs ! at = x" using assms by (metis hd_drop_conv_nth list.sel(1) not_le)
  have "drop 1 (drop at bs) = xs" by (simp add: assms)
  then show "drop (at + 1) bs = xs" by (simp add: add.commute)
  show "length bs - at = Suc (length xs)" using arg_cong [OF assms, of length] by simp
qed

lemma drop_plus: "drop at bs = xs @ ys \<Longrightarrow> length xs = n \<Longrightarrow> drop (at + n) bs = ys"
  by (metis add.commute append_eq_conv_conj drop_drop)

definition add_phase :: "u64 \<Rightarrow> PadRecording \<Rightarrow> PadRecording" where
  "add_phase p r = r\<lparr>pr_segments := pr_segments r @ [\<lparr>seg_phase = p, seg_runs = []\<rparr>]\<rparr>"

definition add_runs :: "PadRun list \<Rightarrow> PadRecording \<Rightarrow> PadRecording" where
  "add_runs rs r =
     (let back = last (pr_segments r) in
      r\<lparr>pr_segments := butlast (pr_segments r) @ [back\<lparr>seg_runs := seg_runs back @ rs\<rparr>],
        pr_totalFrames := pr_totalFrames r + sum_list (map (\<lambda>x. unat (run_frames x)) rs)\<rparr>)"

lemma decode_phase_step:
  assumes "drop at bs = phase_bytes p @ rest"
    and "pr_segments r = [] \<or> seg_runs (last (pr_segments r)) \<noteq> []"
  shows "decode_records bs at r = decode_records bs (at + kPhaseRecordBytes) (add_phase p r)"
proof -
  note d = drop_Cons_facts [OF assms(1) [unfolded phase_bytes_def append_Cons]]
  have "\<not> length bs - at < kPhaseRecordBytes" using d(4) by (simp add: kPhaseRecordBytes_def)
  moreover have "fst (r_u64 (field_at bs (at + 1))) = p" by (rule field_reads(3) [OF d(3)])
  ultimately show ?thesis
    using d assms(2) by (subst decode_records.simps) (auto simp: add_phase_def)
qed

lemma decode_run_step:
  assumes "drop at bs = run_bytes x @ rest" and "pr_segments r \<noteq> []" and "run_frames x \<noteq> 0"
  shows "decode_records bs at r = decode_records bs (at + kRunRecordBytes) (add_runs [x] r)"
proof -
  note d = drop_Cons_facts [OF assms(1) [unfolded run_bytes_def append_Cons append_assoc]]
  have "\<not> length bs - at < kRunRecordBytes" using d(4) by (simp add: kRunRecordBytes_def)
  moreover have "fst (r_u16 (field_at bs (at + 1))) = run_mask x" by (rule field_reads(1) [OF d(3)])
  moreover have "drop (at + kRunFramesOffset) bs = bytes_of 4 (run_frames x) @ rest"
    using drop_plus [OF d(3), of 2] by (simp add: kRunFramesOffset_def)
  then have "fst (r_u32 (field_at bs (at + kRunFramesOffset))) = run_frames x"
    by (rule field_reads(2))
  moreover have "kRunTag \<noteq> kPhaseTag" by (simp add: kRunTag_def kPhaseTag_def)
  ultimately show ?thesis
    using d assms(2,3) by (subst decode_records.simps) (simp add: Let_def add_runs_def)
qed

lemma add_runs_facts [simp]:
  "pr_segments (add_runs rs r) \<noteq> []"
  "pr_segments r \<noteq> [] \<Longrightarrow> add_runs [] r = r"
  "add_runs rs (add_runs [x] r) = add_runs (x # rs) r"
  "pr_segments (add_runs rs (add_phase p r)) = pr_segments r @ [\<lparr>seg_phase = p, seg_runs = rs\<rparr>]"
  "pr_totalFrames (add_runs rs (add_phase p r)) =
     pr_totalFrames r + sum_list (map (\<lambda>x. unat (run_frames x)) rs)"
  "pr_card (add_runs rs (add_phase p r)) = pr_card r"
  by (simp_all add: add_runs_def add_phase_def Let_def)

lemma decode_runs:
  "drop at bs = concat (map run_bytes rs) @ rest \<Longrightarrow> pr_segments r \<noteq> [] \<Longrightarrow>
   \<forall>x\<in>set rs. run_frames x \<noteq> 0 \<Longrightarrow>
   decode_records bs at r = decode_records bs (at + length (concat (map run_bytes rs))) (add_runs rs r)"
proof (induction rs arbitrary: at r)
  case (Cons x rs)
  have d: "drop at bs = run_bytes x @ (concat (map run_bytes rs) @ rest)" using Cons.prems(1) by simp
  have "decode_records bs at r = decode_records bs (at + kRunRecordBytes) (add_runs [x] r)"
    by (rule decode_run_step [OF d]) (use Cons.prems in simp_all)
  also have "\<dots> = decode_records bs (at + kRunRecordBytes + length (concat (map run_bytes rs)))
      (add_runs rs (add_runs [x] r))"
    by (rule Cons.IH [OF drop_plus [OF d]]) (use Cons.prems in simp_all)
  finally show ?case by (simp add: add.assoc)
qed simp

lemma length_seg_expand:
  "length (seg_expand s) = sum_list (map (\<lambda>x. unat (run_frames x)) (seg_runs s))"
  by (simp add: seg_expand_def length_concat comp_def)

lemma decode_segments:
  "drop at bs = concat (map seg_bytes ss) \<Longrightarrow> list_all seg_ok ss \<Longrightarrow>
   pr_segments r = [] \<or> seg_runs (last (pr_segments r)) \<noteq> [] \<Longrightarrow> pr_segments r @ ss \<noteq> [] \<Longrightarrow>
   decode_records bs at r =
     Inr (r\<lparr>pr_segments := pr_segments r @ ss, pr_totalFrames := pr_totalFrames r + length (expand ss)\<rparr>)"
proof (induction ss arbitrary: at r)
  case Nil
  then show ?case by (subst decode_records.simps) (simp add: expand_def)
next
  case (Cons s ss)
  let ?runs = "concat (map run_bytes (seg_runs s))" and ?tail = "concat (map seg_bytes ss)"
  let ?r = "add_runs (seg_runs s) (add_phase (seg_phase s) r)"
  have ok: "seg_ok s" using Cons.prems by simp
  have d: "drop at bs = phase_bytes (seg_phase s) @ (?runs @ ?tail)"
    using Cons.prems(1) by (simp add: seg_bytes_def [of s])
  note d1 = drop_plus [OF d length_phase_bytes]
  have "decode_records bs at r =
      decode_records bs (at + kPhaseRecordBytes) (add_phase (seg_phase s) r)"
    by (rule decode_phase_step [OF d Cons.prems(3)])
  also have "\<dots> = decode_records bs (at + kPhaseRecordBytes + length ?runs) ?r"
    by (rule decode_runs [OF d1]) (use ok in \<open>auto simp: add_phase_def seg_ok_def\<close>)
  also have "\<dots> = Inr (?r\<lparr>pr_segments := pr_segments ?r @ ss,
      pr_totalFrames := pr_totalFrames ?r + length (expand ss)\<rparr>)"
    by (rule Cons.IH [OF drop_plus [OF d1 refl]]) (use Cons.prems ok in \<open>auto simp: seg_ok_def\<close>)
  finally show ?case
    by (simp add: length_seg_expand expand_def)
qed

lemma card_kind_of_code [simp]: "card_kind_of (card_kind_code k) = k"
  by (cases k) (simp_all add: card_kind_of_def)

lemma card_kind_code_le: "\<not> card_kind_code k > card_kind_code CardImage"
  by (cases k) simp_all

lemma decode_head:
  assumes "card_ok cid" and bs: "bs = head_of cid @ rest"
  shows "decode_recording bs = decode_records bs kHeaderBytes (new_recording cid)"
    and "drop kHeaderBytes bs = rest"
proof -
  let ?k = "bytes_of 4 (card_kind_code (card_kind cid))"
  have h: "bs = kMagic @ bytes_of 4 kVersion @ ?k @ card_sha256 cid @ rest"
    using bs card_ok_head [OF assms(1)] by simp
  have d0: "drop 0 bs = kMagic @ (bytes_of 4 kVersion @ ?k @ card_sha256 cid @ rest)" by (simp add: h)
  have d8: "drop 8 bs = bytes_of 4 kVersion @ (?k @ card_sha256 cid @ rest)"
    using drop_plus [OF d0, of 8] by simp
  have d12: "drop 12 bs = ?k @ (card_sha256 cid @ rest)" using drop_plus [OF d8, of 4] by simp
  have d16: "drop 16 bs = card_sha256 cid @ rest" using drop_plus [OF d12, of 4] by simp
  have sha: "length (card_sha256 cid) = 32" using assms(1) by (simp add: card_ok_def)
  show d48: "drop kHeaderBytes bs = rest" using drop_plus [OF d16 sha] by (simp add: kHeaderBytes_def)
  have "length bs = 48 + length rest" using sha by (simp add: h)
  then have "\<not> length bs < length kMagic" "take (length kMagic) bs = kMagic" "\<not> length bs < kHeaderBytes"
    by (simp_all add: h kHeaderBytes_def)
  moreover have "fst (r_u32 (field_at bs 8)) = kVersion" by (rule field_reads(2) [OF d8])
  moreover have "fst (r_u32 (field_at bs 12)) = card_kind_code (card_kind cid)"
    by (rule field_reads(2) [OF d12])
  moreover have "take 32 (drop 16 bs) = card_sha256 cid" using d16 sha by simp
  ultimately show "decode_recording bs = decode_records bs kHeaderBytes (new_recording cid)"
    using card_kind_code_le [of "card_kind cid"]
    by (simp add: decode_recording_def Let_def del: card_kind_code.simps)
qed

lemma decode_encoded_segments:
  assumes "card_ok cid" and "list_all seg_ok ss" and "ss \<noteq> []"
  shows "decode_recording (head_of cid @ concat (map seg_bytes ss)) =
    Inr \<lparr>pr_card = cid, pr_segments = ss, pr_totalFrames = length (expand ss)\<rparr>"
  using decode_head [OF assms(1) refl, of "concat (map seg_bytes ss)"] assms(2,3)
  by (simp add: decode_segments new_recording_def)

text \<open>Decoding the file of the first \<open>n\<close> frames of a recording (0 for all of them) succeeds, with the
  card identity it was recorded against, and the decoded recording stands for exactly those frames in
  order; the file of the whole recording decodes to the recording itself.\<close>

theorem pad_file_roundtrip:
  assumes "rec_ok r" and "pr_segments r \<noteq> []" and "card_ok (pr_card r)"
  shows "(\<exists>r'. decode_recording (encode_recording n r) = Inr r' \<and> pr_card r' = pr_card r \<and> rec_ok r' \<and>
      expand (pr_segments r') = (if n = 0 then expand (pr_segments r) else take n (expand (pr_segments r)))) \<and>
    decode_recording (encode_recording 0 r) = Inr r"
proof -
  have ok: "list_all seg_ok (pr_segments r)" using assms(1) by (simp add: rec_ok_def)
  have whole: "decode_recording (encode_recording 0 r) = Inr r"
    using decode_encoded_segments [OF assms(3) ok assms(2)] assms(1)
    by (simp add: encode_whole rec_ok_def)
  have cut: "n \<noteq> 0 \<Longrightarrow> cut_segments n (pr_segments r) \<noteq> []"
    using assms(2) by (cases "pr_segments r") simp_all
  have "n \<noteq> 0 \<Longrightarrow> decode_recording (encode_recording n r) = Inr \<lparr>pr_card = pr_card r,
      pr_segments = cut_segments n (pr_segments r),
      pr_totalFrames = length (expand (cut_segments n (pr_segments r)))\<rparr>"
    using decode_encoded_segments [OF assms(3) cut_segments_ok [OF ok] cut]
    by (simp add: encode_recording_bytes)
  with whole assms(1) cut_segments_ok [OF ok] show ?thesis
    by (cases "n = 0") (simp_all add: rec_ok_def expand_cut)
qed

section \<open>Appending frames\<close>

text \<open>A frame can be appended without the count of the open run wrapping.\<close>

definition append_fits :: "PadRecording \<Rightarrow> bool" where
  "append_fits r \<longleftrightarrow> (\<forall>s\<in>set (pr_segments r). \<forall>x\<in>set (seg_runs s). unat (run_frames x) < 2 ^ 32 - 1)"

lemma unat_plus1: "unat f < 2 ^ 32 - 1 \<Longrightarrow> unat (f + 1 :: u32) = unat f + 1"
  by (subst unat_add_small) simp_all

lemma seg_expand_snoc:
  "seg_expand \<lparr>seg_phase = p, seg_runs = rs @ [x]\<rparr> =
     seg_expand \<lparr>seg_phase = p, seg_runs = rs\<rparr> @ run_expand p x"
  by (simp add: seg_expand_def)

lemma expand_snoc: "expand (ss @ [s]) = expand ss @ seg_expand s"
  by (simp add: expand_def)

text \<open>The three ways a frame lands in the segments.\<close>

lemma recording_append_cases:
  obtains (new_segment) "pr_segments r = [] \<or> seg_phase (last (pr_segments r)) \<noteq> pf_phase f"
      "recording_append f r = (NewSegment, r\<lparr>pr_segments := pr_segments r @
         [\<lparr>seg_phase = pf_phase f, seg_runs = [\<lparr>run_mask = pf_mask f, run_frames = 1\<rparr>]\<rparr>],
         pr_totalFrames := pr_totalFrames r + 1\<rparr>)"
  | (new_run) ss rs where "pr_segments r = ss @ [\<lparr>seg_phase = pf_phase f, seg_runs = rs\<rparr>]"
      "rs = [] \<or> run_mask (last rs) \<noteq> pf_mask f"
      "recording_append f r = (NewRun, r\<lparr>pr_segments := ss @ [\<lparr>seg_phase = pf_phase f,
         seg_runs = rs @ [\<lparr>run_mask = pf_mask f, run_frames = 1\<rparr>]\<rparr>],
         pr_totalFrames := pr_totalFrames r + 1\<rparr>)"
  | (extended) ss rs n where "pr_segments r = ss @ [\<lparr>seg_phase = pf_phase f,
         seg_runs = rs @ [\<lparr>run_mask = pf_mask f, run_frames = n\<rparr>]\<rparr>]"
      "recording_append f r = (Extended, r\<lparr>pr_segments := ss @ [\<lparr>seg_phase = pf_phase f,
         seg_runs = rs @ [\<lparr>run_mask = pf_mask f, run_frames = n + 1\<rparr>]\<rparr>],
         pr_totalFrames := pr_totalFrames r + 1\<rparr>)"
proof (cases "pr_segments r = [] \<or> seg_phase (last (pr_segments r)) \<noteq> pf_phase f")
  case True
  then show ?thesis by (intro new_segment) (auto simp: recording_append_def Let_def)
next
  case False
  then obtain ss s where s: "pr_segments r = ss @ [s]" "seg_phase s = pf_phase f"
    by (metis append_butlast_last_id)
  then have s': "s = \<lparr>seg_phase = pf_phase f, seg_runs = seg_runs s\<rparr>" by simp
  show ?thesis
  proof (cases "seg_runs s = [] \<or> run_mask (last (seg_runs s)) \<noteq> pf_mask f")
    case True
    with s s' show ?thesis
      by (intro new_run [of ss "seg_runs s"]) (auto simp: recording_append_def Let_def)
  next
    case False
    then obtain rs x where x: "seg_runs s = rs @ [x]" "run_mask x = pf_mask f"
      by (metis append_butlast_last_id)
    then have "x = \<lparr>run_mask = pf_mask f, run_frames = run_frames x\<rparr>" by simp
    with s s' x show ?thesis
      by (intro extended [of ss rs "run_frames x"]) (auto simp: recording_append_def Let_def)
  qed
qed

lemma run_expand_facts:
  "run_expand p \<lparr>run_mask = m, run_frames = 1\<rparr> = [\<lparr>pf_phase = p, pf_mask = m\<rparr>]"
  "unat n < 2 ^ 32 - 1 \<Longrightarrow> run_expand p \<lparr>run_mask = m, run_frames = n + 1\<rparr> =
     run_expand p \<lparr>run_mask = m, run_frames = n\<rparr> @ [\<lparr>pf_phase = p, pf_mask = m\<rparr>]"
  by (simp_all only: run_expand_def PadRun.select_convs unat_plus1 replicate_add unat_1) simp_all

lemma seg_expand_Nil: "seg_expand \<lparr>seg_phase = p, seg_runs = []\<rparr> = []"
  by (simp add: seg_expand_def)

lemma append_keeps_ok:
  assumes "rec_ok r" and "append_fits r"
  shows "rec_ok (snd (recording_append f r))"
    and "expand (pr_segments (snd (recording_append f r))) = expand (pr_segments r) @ [f]"
    and "pr_card (snd (recording_append f r)) = pr_card r"
proof -
  have "expand (pr_segments (snd (recording_append f r))) = expand (pr_segments r) @ [f] \<and>
    rec_ok (snd (recording_append f r)) \<and> pr_card (snd (recording_append f r)) = pr_card r"
  proof (cases rule: recording_append_cases [of r f])
    case new_segment
    then show ?thesis using assms
      by (simp add: rec_ok_def seg_ok_def expand_snoc seg_expand_snoc [of _ "[]", simplified]
          seg_expand_Nil run_expand_facts)
  next
    case (new_run ss rs)
    then show ?thesis using assms
      by (simp add: rec_ok_def seg_ok_def expand_snoc seg_expand_snoc run_expand_facts)
  next
    case (extended ss rs n)
    have n: "unat n < 2 ^ 32 - 1" using assms(2) extended(1) by (simp add: append_fits_def)
    then have "n + 1 \<noteq> 0" using unat_plus1 [of n] by (metis add_is_0 one_neq_zero unat_0)
    then show ?thesis using assms(1) extended run_expand_facts(2) [OF n]
      by (simp add: rec_ok_def seg_ok_def expand_snoc seg_expand_snoc)
  qed
  then show "rec_ok (snd (recording_append f r))"
    and "expand (pr_segments (snd (recording_append f r))) = expand (pr_segments r) @ [f]"
    and "pr_card (snd (recording_append f r)) = pr_card r" by blast+
qed

text \<open>A run is never longer than the recording that holds it.\<close>

lemma run_le_expand:
  assumes "s \<in> set ss" and "x \<in> set (seg_runs s)"
  shows "unat (run_frames x) \<le> length (expand ss)"
proof -
  have "unat (run_frames x) \<le> length (seg_expand s)"
    unfolding length_seg_expand using assms(2) by (auto intro: member_le_sum_list)
  also have "\<dots> \<le> length (expand ss)"
    unfolding expand_def length_concat using assms(1) by (auto intro: member_le_sum_list)
  finally show ?thesis .
qed

lemma append_fitsI: "length (expand (pr_segments r)) < 2 ^ 32 - 1 \<Longrightarrow> append_fits r"
  unfolding append_fits_def using run_le_expand le_less_trans by blast

definition record_frames :: "CardIdentity \<Rightarrow> PadFrame list \<Rightarrow> PadRecording" where
  "record_frames cid fs = foldl (\<lambda>r f. snd (recording_append f r)) (new_recording cid) fs"

lemma record_frames_snoc [simp]:
  "record_frames cid [] = new_recording cid"
  "record_frames cid (fs @ [f]) = snd (recording_append f (record_frames cid fs))"
  by (simp_all add: record_frames_def)

lemma record_frames_ok:
  "length fs < 2 ^ 32 \<Longrightarrow> rec_ok (record_frames cid fs) \<and>
     expand (pr_segments (record_frames cid fs)) = fs \<and> pr_card (record_frames cid fs) = cid"
proof (induction fs rule: rev_induct)
  case Nil
  show ?case by (simp add: new_recording_def rec_ok_def expand_def)
next
  case (snoc f fs)
  then have "append_fits (record_frames cid fs)" by (intro append_fitsI) simp
  with snoc append_keeps_ok [of "record_frames cid fs" f] show ?case by simp
qed

text \<open>A recording made frame by frame stands for exactly the frames it was given, in their order,
  counts them, and has the shape \<open>decode\<close> accepts (no empty phase, no empty run), for any session of
  fewer than \<open>2 ^ 32\<close> frames (the width of a run's count).\<close>

theorem recording_holds_frames:
  assumes "length fs < 2 ^ 32"
  shows "expand (pr_segments (record_frames cid fs)) = fs \<and>
    pr_totalFrames (record_frames cid fs) = length fs \<and> rec_ok (record_frames cid fs) \<and>
    pr_card (record_frames cid fs) = cid"
  using record_frames_ok [OF assms, of cid] by (simp add: rec_ok_def)

section \<open>Queries of a segment\<close>

lemma mask_at_runs_expand:
  "mask_at_runs rs k = (if unat k < length (concat (map (run_expand p) rs))
     then pf_mask (concat (map (run_expand p) rs) ! unat k) else kNoButtons)"
proof (induction rs k rule: mask_at_runs.induct)
  case (2 r rs k)
  show ?case
  proof (cases "k < run_frames r")
    case True
    then show ?thesis
      by (simp add: nth_append run_expand_def word_less_nat_alt)
  next
    case False
    then have "unat (k - run_frames r) = unat k - unat (run_frames r)" "\<not> unat k < unat (run_frames r)"
      by (simp_all add: not_less word_le_nat_alt unat_sub)
    with False 2 show ?thesis by (auto simp: nth_append)
  qed
qed simp

lemma foldl_run_frames:
  "foldl (\<lambda>total run. total + run_frames run) a rs =
     a + of_nat (sum_list (map (\<lambda>x. unat (run_frames x)) rs))"
  by (induction rs arbitrary: a) (simp_all add: algebra_simps)

definition pressed :: "nat \<Rightarrow> PadFrame list \<Rightarrow> nat" where
  "pressed k fs = length (filter (\<lambda>f. pf_mask f \<noteq> kNoButtons) (drop k fs))"

lemma pressed_append: "pressed k (xs @ ys) = pressed k xs + pressed (k - length xs) ys"
  by (simp add: pressed_def)

lemma pressed_run:
  "pressed k (run_expand p r) = (if run_mask r \<noteq> kNoButtons then unat (run_frames r) - k else 0)"
  by (simp add: pressed_def run_expand_def)

lemma input_frames_expand:
  "unat start + length (concat (map (run_expand p) rs)) < 2 ^ 32 \<Longrightarrow>
   acc + pressed (unat k - unat start) (concat (map (run_expand p) rs)) < 2 ^ 32 \<Longrightarrow>
   unat n = acc \<Longrightarrow>
   unat (input_frames_loop rs k start n) =
     acc + pressed (unat k - unat start) (concat (map (run_expand p) rs))"
proof (induction rs arbitrary: start n acc)
  case (Cons r rs)
  let ?rest = "concat (map (run_expand p) rs)" and ?stop = "start + run_frames r"
  have ue: "unat ?stop = unat start + unat (run_frames r)"
    using Cons.prems(1) by (intro unat_add_small) simp
  let ?hit = "run_mask r \<noteq> kNoButtons \<and> ?stop > k"
  let ?n = "if ?hit then n + (?stop - max start k) else n"
  let ?acc = "acc + pressed (unat k - unat start) (run_expand p r)"
  have um: "unat (?stop - max start k) = unat ?stop - max (unat start) (unat k)" if "?stop > k"
  proof -
    have "max start k \<le> ?stop" using that ue by (simp add: word_le_nat_alt word_less_nat_alt max_def)
    then show ?thesis by (simp add: unat_sub max_def word_le_nat_alt)
  qed
  have k: "unat k - unat start - unat (run_frames r) = unat k - unat ?stop" using ue by simp
  have "?acc + pressed (unat k - unat ?stop) ?rest < 2 ^ 32"
    using Cons.prems(2) k by (simp add: pressed_append)
  moreover from this have "unat ?n = ?acc"
    using Cons.prems(3) um ue
    by (auto simp: pressed_run word_less_nat_alt unat_word_ariths max_def split: if_splits)
  moreover have "unat ?stop + length ?rest < 2 ^ 32" using Cons.prems(1) ue by simp
  ultimately have "unat (input_frames_loop rs k ?stop ?n) = ?acc + pressed (unat k - unat ?stop) ?rest"
    using Cons.IH by blast
  then show ?case using k by (simp add: Let_def pressed_append)
qed (simp add: pressed_def)

text \<open>The queries of a segment agree with the frames it stands for: \<open>frames\<close> counts them,
  \<open>maskAt\<close> is the mask of the frame at that offset (and no buttons past the end), and
  \<open>inputFramesFrom\<close> counts the frames from an offset on that hold a button.\<close>

theorem segment_queries:
  assumes "length (seg_expand s) < 2 ^ 32"
  shows "unat (seg_frames s) = length (seg_expand s) \<and>
    maskAt s k = (if unat k < length (seg_expand s) then pf_mask (seg_expand s ! unat k) else kNoButtons) \<and>
    unat (inputFramesFrom s k) =
      length (filter (\<lambda>f. pf_mask f \<noteq> kNoButtons) (drop (unat k) (seg_expand s)))"
proof -
  have "pressed (unat k) (seg_expand s) \<le> length (seg_expand s)"
    unfolding pressed_def by (rule le_trans [OF length_filter_le]) simp
  then have "unat (inputFramesFrom s k) = pressed (unat k) (seg_expand s)"
    using assms input_frames_expand [of 0 "seg_phase s" "seg_runs s" 0 k 0]
    by (simp add: inputFramesFrom_def seg_expand_def)
  moreover have "unat (seg_frames s) = length (seg_expand s)"
    using assms by (simp add: seg_frames_def foldl_run_frames length_seg_expand)
  ultimately show ?thesis
    using mask_at_runs_expand [of "seg_runs s" k "seg_phase s"]
    by (simp add: maskAt_def pressed_def seg_expand_def)
qed

section \<open>The streaming sink writes the same file\<close>

definition io_fine :: sink_io where
  "io_fine = \<lparr>io_seek = True, io_write_outcome = WroteAll, io_seek_end = True, io_tell = True\<rparr>"

text \<open>A session with the sink open: every frame is appended to the recording and then to the sink.\<close>

definition session_step :: "sink_io \<Rightarrow> PadFrame \<Rightarrow> PadRecording \<times> PadRecordingWriter \<Rightarrow>
    PadRecording \<times> PadRecordingWriter" where
  "session_step io f = (\<lambda>(r, w).
     let (what, r') = recording_append f r in (r', snd (sink_append io f what w)))"

definition seg_image :: "PadRecording \<Rightarrow> u8 list" where
  "seg_image r = head_of (pr_card r) @ concat (map seg_bytes (pr_segments r))"

text \<open>The sink's file is the recording's image and it knows where the open run's count is.\<close>

definition sink_inv :: "PadRecording \<Rightarrow> PadRecordingWriter \<Rightarrow> bool" where
  "sink_inv r w \<longleftrightarrow> \<not> pw_failed w \<and> pw_file w = seg_image r \<and> pw_put w = length (seg_image r) \<and>
     (\<forall>ss p rs x. pr_segments r = ss @ [\<lparr>seg_phase = p, seg_runs = rs @ [x]\<rparr>] \<longrightarrow>
        pw_runFrames w = run_frames x \<and> pw_runFramesPos w = int (length (seg_image r) - 4))"

lemma overwrite_tail: "length xs = length ys \<Longrightarrow> overwrite (length f) ys (f @ xs) = f @ ys"
  by (simp add: overwrite_def)

lemma run_bytes_split: "run_bytes \<lparr>run_mask = m, run_frames = n\<rparr> = (kRunTag # bytes_of 2 m) @ bytes_of 4 n"
  by (simp add: run_bytes_def)

lemma sink_step:
  assumes "sink_inv r w"
  shows "sink_inv (snd (recording_append f r)) (snd (sink_append io_fine f (fst (recording_append f r)) w))"
proof (cases rule: recording_append_cases [of r f])
  case new_segment
  then show ?thesis using assms
    by (simp add: sink_inv_def sink_append_def sink_write_def stream_defs io_fine_def Let_def codec_simps
        overwrite_def seg_image_def seg_bytes_def run_bytes_def kRunFramesOffset_def)
next
  case (new_run ss rs)
  then show ?thesis using assms
    by (simp add: sink_inv_def sink_append_def sink_write_def stream_defs io_fine_def Let_def codec_simps
        overwrite_def seg_image_def seg_bytes_def run_bytes_def kRunFramesOffset_def)
next
  case (extended ss rs n)
  define pre where "pre = head_of (pr_card r) @ concat (map seg_bytes ss) @ phase_bytes (pf_phase f) @
    concat (map run_bytes rs) @ kRunTag # bytes_of 2 (pf_mask f)"
  have img: "seg_image (r\<lparr>pr_segments := ss @ [\<lparr>seg_phase = pf_phase f,
      seg_runs = rs @ [\<lparr>run_mask = pf_mask f, run_frames = m\<rparr>]\<rparr>], pr_totalFrames := t\<rparr>) =
      pre @ bytes_of 4 m" for m t
    by (simp add: seg_image_def seg_bytes_def run_bytes_def pre_def)
  have img0: "seg_image r = pre @ bytes_of 4 n"
    by (simp add: extended(1) seg_image_def seg_bytes_def run_bytes_def pre_def)
  have w: "\<not> pw_failed w" "pw_file w = pre @ bytes_of 4 n" "pw_runFrames w = n"
      "pw_runFramesPos w = int (length pre)"
    using assms extended(1) img0 unfolding sink_inv_def by auto
  have "overwrite (length pre) (bytes_of 4 (n + 1)) (pre @ bytes_of 4 n) = pre @ bytes_of 4 (n + 1)"
    by (rule overwrite_tail) simp
  with w have "snd (sink_append io_fine f Extended w) =
      w\<lparr>pw_runFrames := n + 1, pw_file := pre @ bytes_of 4 (n + 1), pw_put := length (pre @ bytes_of 4 (n + 1))\<rparr>"
    by (simp add: sink_append_def sink_write_def stream_defs io_fine_def Let_def w_u32_bytes)
  with w show ?thesis
    by (simp add: extended(2) sink_inv_def img)
qed

lemma session_inv:
  assumes "sink_open WroteAll cid = Some w"
  shows "\<exists>w'. foldl (\<lambda>s f. session_step io_fine f s) (new_recording cid, w) fs = (record_frames cid fs, w') \<and>
    sink_inv (record_frames cid fs) w'"
proof (induction fs rule: rev_induct)
  case Nil
  have "w = \<lparr>pw_file = head_of cid, pw_put = length (head_of cid), pw_failed = False, pw_runFrames = 0, pw_runFramesPos = -1\<rparr>"
    using assms by (simp add: sink_open_def sink_write_def stream_defs Let_def codec_simps overwrite_def)
  then show ?case by (simp add: sink_inv_def seg_image_def new_recording_def)
next
  case (snoc f fs)
  then obtain w' where w': "foldl (\<lambda>s f. session_step io_fine f s) (new_recording cid, w) fs =
      (record_frames cid fs, w')" "sink_inv (record_frames cid fs) w'" by blast
  then show ?case using sink_step [OF w'(2), of f]
    by (auto simp: session_step_def split_def Let_def)
qed

text \<open>An append that succeeds leaves the put position at the end of the file, wherever the count it rewrote stands.\<close>

lemma append_returns_to_end:
  assumes "fst (sink_append io g what v)" and "pw_put v = length (pw_file v)"
  shows "pw_put (snd (sink_append io g what v)) = length (pw_file (snd (sink_append io g what v)))"
  using assms
  by (auto simp: sink_append_def sink_write_def sink_fail_def stream_defs overwrite_def Let_def split_def
      split: write_outcome.splits if_splits)

text \<open>
  C29: While the stream accepts every write, the sink's file after any number of frames is byte for byte the encoding of the
  whole recording so far, so a run cut off there leaves a file that decodes to all the frames it was given. Whatever count an
  append rewrites, and wherever it stands, an append that succeeds leaves the stream at the end of the file, where the next
  run goes. In a recording the count rewritten is always the file's last four bytes.
\<close>

theorem sink_file_is_encoding:
  assumes "sink_open WroteAll cid = Some w" and "length fs < 2 ^ 32" and "card_ok cid" and "fs \<noteq> []"
  shows "(\<exists>r' w'. foldl (\<lambda>s f. session_step io_fine f s) (new_recording cid, w) fs = (r', w') \<and>
      pw_file w' = encode_recording 0 r' \<and> decode_recording (pw_file w') = Inr r' \<and>
      expand (pr_segments r') = fs \<and> pw_put w' = length (pw_file w')) \<and>
    (\<forall>io g what v. fst (sink_append io g what v) \<longrightarrow> pw_put v = length (pw_file v) \<longrightarrow>
      pw_put (snd (sink_append io g what v)) = length (pw_file (snd (sink_append io g what v))))"
proof -
  let ?r = "record_frames cid fs"
  obtain w' where run: "foldl (\<lambda>s f. session_step io_fine f s) (new_recording cid, w) fs = (?r, w')"
    and inv: "sink_inv ?r w'" using session_inv [OF assms(1)] by blast
  have ok: "rec_ok ?r" "expand (pr_segments ?r) = fs" "pr_card ?r = cid"
    using record_frames_ok [OF assms(2), of cid] by simp_all
  then have ne: "pr_segments ?r \<noteq> []" using assms(4) by (auto simp: expand_def)
  have "pw_file w' = seg_image ?r" "pw_put w' = length (seg_image ?r)" using inv by (simp_all add: sink_inv_def)
  moreover have "decode_recording (seg_image ?r) = Inr ?r"
    using decode_encoded_segments [OF assms(3) _ ne] ok by (simp add: seg_image_def rec_ok_def)
  ultimately show ?thesis
    using run ok encode_whole [OF ok(1)] append_returns_to_end by (auto simp: seg_image_def)
qed

text \<open>A failed seek, position query or write is sticky: the operation reports false, and every later
  append reports false and leaves the file as it is.\<close>

theorem sink_failure_sticky:
  "(fst (sink_append io f what w) \<longrightarrow> \<not> pw_failed (snd (sink_append io f what w))) \<and>
   (pw_failed w \<longrightarrow> sink_append io f what w = (False, w)) \<and>
   (\<not> fst (sink_append io f what w) \<longrightarrow> pw_failed (snd (sink_append io f what w)))"
  by (auto simp: sink_append_def sink_write_def sink_fail_def stream_defs Let_def split_def
      split: write_outcome.splits if_splits)

section \<open>Instances\<close>

definition sample_frames :: "PadFrame list" where
  "sample_frames = [\<lparr>pf_phase = 7, pf_mask = 0xFFFF\<rparr>, \<lparr>pf_phase = 7, pf_mask = 0xFFFF\<rparr>,
     \<lparr>pf_phase = 7, pf_mask = 0xBFFF\<rparr>, \<lparr>pf_phase = 9, pf_mask = 0xFFFF\<rparr>]"

definition no_card :: CardIdentity where
  "no_card = \<lparr>card_kind = CardAbsent, card_sha256 = replicate 32 0\<rparr>"

definition sample_recording :: PadRecording where
  "sample_recording = \<lparr>pr_card = no_card, pr_segments =
     [\<lparr>seg_phase = 7, seg_runs = [\<lparr>run_mask = 0xFFFF, run_frames = 2\<rparr>, \<lparr>run_mask = 0xBFFF, run_frames = 1\<rparr>]\<rparr>,
      \<lparr>seg_phase = 9, seg_runs = [\<lparr>run_mask = 0xFFFF, run_frames = 1\<rparr>]\<rparr>], pr_totalFrames = 4\<rparr>"

lemma replicate_two: "replicate 2 x = [x, x]"
  by (simp add: numeral_2_eq_2)

lemma sample_expand: "expand (pr_segments sample_recording) = sample_frames"
  by (simp add: sample_recording_def sample_frames_def expand_def seg_expand_def run_expand_def
      replicate_two)

lemma sample_ok: "rec_ok sample_recording" "card_ok no_card"
  using sample_expand
  by (simp_all add: rec_ok_def card_ok_def no_card_def)
    (simp_all add: sample_recording_def sample_frames_def seg_ok_def)

lemma pad_file_roundtrip_witness:
  "(\<exists>r'. decode_recording (encode_recording 3 sample_recording) = Inr r' \<and> pr_card r' = no_card \<and>
      rec_ok r' \<and> expand (pr_segments r') = take 3 sample_frames) \<and>
   decode_recording (encode_recording 0 sample_recording) = Inr sample_recording"
proof -
  have "pr_segments sample_recording \<noteq> []" "pr_card sample_recording = no_card"
    by (simp_all add: sample_recording_def)
  then show ?thesis
    using pad_file_roundtrip [of sample_recording 3] sample_ok sample_expand by simp
qed

lemma recording_holds_frames_witness:
  "expand (pr_segments (record_frames no_card sample_frames)) = sample_frames \<and>
   pr_totalFrames (record_frames no_card sample_frames) = 4"
  using recording_holds_frames [of sample_frames no_card] by (simp add: sample_frames_def)

lemma segment_queries_witness:
  "unat (seg_frames (hd (pr_segments sample_recording))) = 3 \<and>
   maskAt (hd (pr_segments sample_recording)) 2 = 0xBFFF \<and>
   unat (inputFramesFrom (hd (pr_segments sample_recording)) 1) = 1"
proof -
  let ?s = "hd (pr_segments sample_recording)"
  have "seg_expand ?s = take 3 sample_frames"
    by (simp add: sample_recording_def sample_frames_def seg_expand_def run_expand_def replicate_two)
  moreover have "take 3 sample_frames = [\<lparr>pf_phase = 7, pf_mask = 0xFFFF\<rparr>, \<lparr>pf_phase = 7, pf_mask = 0xFFFF\<rparr>,
     \<lparr>pf_phase = 7, pf_mask = 0xBFFF\<rparr>]" by (simp add: sample_frames_def)
  ultimately show ?thesis
    using segment_queries [of ?s 2] segment_queries [of ?s 1] by (simp add: kNoButtons_def)
qed

lemma sink_file_is_encoding_witness:
  "\<exists>r' w'. foldl (\<lambda>s f. session_step io_fine f s)
      (new_recording no_card, the (sink_open WroteAll no_card)) sample_frames = (r', w') \<and>
    decode_recording (pw_file w') = Inr r' \<and> expand (pr_segments r') = sample_frames \<and>
    pw_put w' = length (pw_file w')"
proof -
  have "sink_open WroteAll no_card = Some (the (sink_open WroteAll no_card))"
    by (simp add: sink_open_def sink_write_def Let_def)
  from sink_file_is_encoding [OF this _ sample_ok(2), of sample_frames] show ?thesis
    by (auto simp: sample_frames_def)
qed

lemma sink_failure_sticky_witness:
  "\<not> fst (sink_append (io_fine\<lparr>io_tell := False\<rparr>) (hd sample_frames) NewRun
      (the (sink_open WroteAll no_card))) \<and>
   pw_failed (snd (sink_append (io_fine\<lparr>io_tell := False\<rparr>) (hd sample_frames) NewRun
      (the (sink_open WroteAll no_card))))"
proof -
  let ?a = "sink_append (io_fine\<lparr>io_tell := False\<rparr>) (hd sample_frames) NewRun
      (the (sink_open WroteAll no_card))"
  have "\<not> fst ?a"
    by (simp add: sink_append_def io_fine_def sink_fail_def sink_open_def sink_write_def Let_def)
  then show ?thesis
    using sink_failure_sticky [of "io_fine\<lparr>io_tell := False\<rparr>" "hd sample_frames" NewRun
      "the (sink_open WroteAll no_card)"] by blast
qed

end
