(* ===== verification/Hle_Heap.thy ===== *)
theory Hle_Heap
  imports Prelude
begin

text \<open>
  The BIOS malloc arena (\<open>hle/hle_heap.cpp\<close>, state in \<open>hle/hle.h\<close>): a first-fit block table held outside
  guest RAM. The used part of the fixed table, \<open>blk[0 .. nblk)\<close>, is a list; its capacity is \<open>kHeapBlocks\<close>.

  The locale \<open>allocator\<close> is the contract the BIOS calls rely on; the arena is its instance.
\<close>

section \<open>State\<close>

definition kHeapBlocks :: nat where "kHeapBlocks = 4096"

record HleHeapBlock =
  hb_addr :: u32
  hb_size :: u32
  hb_used :: bool

record hle_heap =
  blk :: "HleHeapBlock list"
  heap_base :: u32
  heap_size :: u32
  heap_ok :: bool
  heap_refused :: u32

section \<open>Operations\<close>

definition heapInit :: "u32 \<Rightarrow> u32 \<Rightarrow> hle_heap \<Rightarrow> hle_heap" where
  "heapInit address bytes h =
     h\<lparr>heap_base := address, heap_size := bytes,
       blk := [\<lparr>hb_addr = address, hb_size = bytes, hb_used = False\<rparr>], heap_ok := True\<rparr>"

text \<open>The first-fit loop; \<open>n\<close> is the length of the whole table.\<close>

fun alloc_loop :: "u32 \<Rightarrow> nat \<Rightarrow> HleHeapBlock list \<Rightarrow> (u32 \<times> HleHeapBlock list) option" where
  "alloc_loop sz n [] = None"
| "alloc_loop sz n (b # bs) =
     (if hb_used b \<or> hb_size b < sz then map_option (apsnd ((#) b)) (alloc_loop sz n bs)
      else if hb_size b > sz \<and> n < kHeapBlocks
      then Some (hb_addr b, b\<lparr>hb_size := sz, hb_used := True\<rparr> #
                 \<lparr>hb_addr = hb_addr b + sz, hb_size = hb_size b - sz, hb_used = False\<rparr> # bs)
      else Some (hb_addr b, b\<lparr>hb_used := True\<rparr> # bs))"

definition heapAlloc :: "u32 \<Rightarrow> hle_heap \<Rightarrow> u32 \<times> hle_heap" where
  "heapAlloc sz h =
     (if \<not> heap_ok h \<or> sz = 0 then (0, h)
      else case alloc_loop ((sz + 7) AND NOT 7) (length (blk h)) (blk h) of
             Some (p, bs) \<Rightarrow> (p, h\<lparr>blk := bs\<rparr>)
           | None \<Rightarrow> (0, h\<lparr>heap_refused := heap_refused h + 1\<rparr>))"

fun coalesce :: "HleHeapBlock list \<Rightarrow> HleHeapBlock list" where
  "coalesce (a # b # bs) =
     (if \<not> hb_used a \<and> \<not> hb_used b then coalesce (a\<lparr>hb_size := hb_size a + hb_size b\<rparr> # bs)
      else a # coalesce (b # bs))"
| "coalesce bs = bs"

definition heapCoalesce :: "hle_heap \<Rightarrow> hle_heap" where
  "heapCoalesce h = h\<lparr>blk := coalesce (blk h)\<rparr>"

fun release :: "u32 \<Rightarrow> HleHeapBlock list \<Rightarrow> HleHeapBlock list option" where
  "release addr [] = None"
| "release addr (b # bs) =
     (if hb_addr b = addr \<and> hb_used b then Some (b\<lparr>hb_used := False\<rparr> # bs)
      else map_option ((#) b) (release addr bs))"

definition heapFree :: "u32 \<Rightarrow> hle_heap \<Rightarrow> hle_heap" where
  "heapFree addr h =
     (if addr = 0 then h
      else case release addr (blk h) of
             Some bs \<Rightarrow> heapCoalesce (h\<lparr>blk := bs\<rparr>)
           | None \<Rightarrow> h)"

fun block_size :: "u32 \<Rightarrow> HleHeapBlock list \<Rightarrow> u32" where
  "block_size addr [] = 0"
| "block_size addr (b # bs) = (if hb_addr b = addr \<and> hb_used b then hb_size b else block_size addr bs)"

definition heapBlockSize :: "u32 \<Rightarrow> hle_heap \<Rightarrow> u32" where
  "heapBlockSize addr h = block_size addr (blk h)"

section \<open>The allocator contract\<close>

text \<open>
  \<open>live s\<close> are the allocations a client holds, each an address and a length in bytes. \<open>request n\<close> are the
  sizes the provider takes.
\<close>

locale allocator =
  fixes inv :: "'s \<Rightarrow> bool"
    and live :: "'s \<Rightarrow> (nat \<times> nat) set"
    and request :: "u32 \<Rightarrow> bool"
    and alloc :: "u32 \<Rightarrow> 's \<Rightarrow> u32 \<times> 's"
    and release :: "u32 \<Rightarrow> 's \<Rightarrow> 's"
  assumes live_disjoint: "inv s \<Longrightarrow> (a, n) \<in> live s \<Longrightarrow> (b, m) \<in> live s \<Longrightarrow> (a, n) \<noteq> (b, m) \<Longrightarrow>
      a + n \<le> b \<or> b + m \<le> a"
    and live_pos: "inv s \<Longrightarrow> (a, n) \<in> live s \<Longrightarrow> 0 < a \<and> 0 < n"
    and alloc_inv: "inv s \<Longrightarrow> request k \<Longrightarrow> inv (snd (alloc k s))"
    and alloc_None: "inv s \<Longrightarrow> request k \<Longrightarrow> alloc k s = (0, s') \<Longrightarrow> live s' = live s"
    and alloc_Some: "inv s \<Longrightarrow> request k \<Longrightarrow> alloc k s = (p, s') \<Longrightarrow> p \<noteq> 0 \<Longrightarrow>
      \<exists>n. unat k \<le> n \<and> (unat p, n) \<notin> live s \<and> live s' = insert (unat p, n) (live s)"
    and release_inv: "inv s \<Longrightarrow> inv (release p s)"
    and release_live: "inv s \<Longrightarrow> live (release p s) = {(a, n) \<in> live s. a \<noteq> unat p}"
begin

text \<open>A client's calls in order, with the allocations it holds.\<close>

fun client :: "(u32 + u32) list \<Rightarrow> 's \<Rightarrow> 's" where
  "client [] s = s"
| "client (Inl k # rs) s = client rs (snd (alloc k s))"
| "client (Inr p # rs) s = client rs (release p s)"

definition polite :: "(u32 + u32) list \<Rightarrow> bool" where
  "polite rs \<longleftrightarrow> (\<forall>k. Inl k \<in> set rs \<longrightarrow> request k)"

lemma client_inv: "inv s \<Longrightarrow> polite rs \<Longrightarrow> inv (client rs s)"
  by (induction rs s rule: client.induct) (auto simp: polite_def intro: alloc_inv release_inv)

lemma alloc_keeps: "inv s \<Longrightarrow> request k \<Longrightarrow> x \<in> live s \<Longrightarrow> x \<in> live (snd (alloc k s))"
  using alloc_None alloc_Some by (metis insertCI prod.collapse)

lemma client_keeps:
  "inv s \<Longrightarrow> polite rs \<Longrightarrow> (a, n) \<in> live s \<Longrightarrow> (\<forall>p. Inr p \<in> set rs \<longrightarrow> unat p \<noteq> a) \<Longrightarrow>
     (a, n) \<in> live (client rs s)"
proof (induction rs s rule: client.induct)
  case (2 k rs s)
  then have "inv (snd (alloc k s))" "(a, n) \<in> live (snd (alloc k s))"
    using alloc_inv alloc_keeps by (auto simp: polite_def)
  with 2 show ?case by (simp add: polite_def)
next
  case (3 p rs s)
  then have "inv (release p s)" "(a, n) \<in> live (release p s)"
    using release_inv release_live by auto
  with 3 show ?case by (simp add: polite_def)
qed simp

text \<open>A block handed out stays where it is until it is freed, and nothing handed out meanwhile touches it.\<close>

lemma held_block_is_private:
  assumes "inv s" and "request k" and "alloc k s = (p, s')" and "p \<noteq> 0" and "polite rs"
    and "\<forall>q. Inr q \<in> set rs \<longrightarrow> q \<noteq> p"
  shows "\<exists>n. unat k \<le> n \<and> (unat p, n) \<in> live (client rs s') \<and>
    (\<forall>b m. (b, m) \<in> live (client rs s') \<and> (b, m) \<noteq> (unat p, n) \<longrightarrow> unat p + n \<le> b \<or> b + m \<le> unat p)"
proof -
  obtain n where n: "unat k \<le> n" "live s' = insert (unat p, n) (live s)"
    using alloc_Some [OF assms(1-4)] by blast
  have s': "inv s'" using alloc_inv [OF assms(1,2)] assms(3) by simp
  have "\<forall>q. Inr q \<in> set rs \<longrightarrow> unat q \<noteq> unat p" using assms(6) by (metis word_unat_eq_iff)
  then have "(unat p, n) \<in> live (client rs s')" using client_keeps [OF s' assms(5)] n(2) by blast
  with n(1) live_disjoint [OF client_inv [OF s' assms(5)]] show ?thesis by blast
qed

end

section \<open>The arena's invariant\<close>

text \<open>The blocks tile the arena from \<open>a\<close> to \<open>e\<close> without a gap, none of them empty.\<close>

fun tiles :: "nat \<Rightarrow> HleHeapBlock list \<Rightarrow> nat \<Rightarrow> bool" where
  "tiles a [] e \<longleftrightarrow> a = e"
| "tiles a (b # bs) e \<longleftrightarrow> unat (hb_addr b) = a \<and> 0 < unat (hb_size b) \<and> tiles (a + unat (hb_size b)) bs e"

text \<open>Free neighbours are merged.\<close>

fun spaced :: "HleHeapBlock list \<Rightarrow> bool" where
  "spaced (a # b # bs) \<longleftrightarrow> (hb_used a \<or> hb_used b) \<and> spaced (b # bs)"
| "spaced bs \<longleftrightarrow> True"

definition lives :: "HleHeapBlock list \<Rightarrow> (nat \<times> nat) set" where
  "lives bs = {(unat (hb_addr b), unat (hb_size b)) | b. b \<in> set bs \<and> hb_used b}"

definition heap_inv :: "hle_heap \<Rightarrow> bool" where
  "heap_inv h \<longleftrightarrow> heap_ok h \<and> 0 < unat (heap_base h) \<and> unat (heap_base h) + unat (heap_size h) \<le> 2 ^ 32 \<and>
     tiles (unat (heap_base h)) (blk h) (unat (heap_base h) + unat (heap_size h)) \<and> spaced (blk h) \<and>
     length (blk h) \<le> kHeapBlocks"

definition heap_live :: "hle_heap \<Rightarrow> (nat \<times> nat) set" where
  "heap_live h = lives (blk h)"

text \<open>The sizes whose rounding to 8 does not wrap.\<close>

definition heap_request :: "u32 \<Rightarrow> bool" where
  "heap_request n \<longleftrightarrow> n \<le> 0xFFFFFFF8"

lemma lives_simps [simp]:
  "lives [] = {}"
  "lives (b # bs) = (if hb_used b then insert (unat (hb_addr b), unat (hb_size b)) (lives bs) else lives bs)"
  by (auto simp: lives_def)

lemma tiles_le: "tiles a bs e \<Longrightarrow> a \<le> e"
  by (induction bs arbitrary: a) fastforce+

lemma lives_bounds: "tiles a bs e \<Longrightarrow> (p, n) \<in> lives bs \<Longrightarrow> a \<le> p \<and> 0 < n \<and> p + n \<le> e"
  by (induction bs arbitrary: a) (fastforce simp: tiles_le split: if_splits)+

lemma lives_disjoint:
  "tiles a bs e \<Longrightarrow> (p, n) \<in> lives bs \<Longrightarrow> (q, m) \<in> lives bs \<Longrightarrow> (p, n) \<noteq> (q, m) \<Longrightarrow>
     p + n \<le> q \<or> q + m \<le> p"
proof (induction bs arbitrary: a)
  case (Cons b bs)
  from Cons.prems(1) have t: "tiles (a + unat (hb_size b)) bs e" "unat (hb_addr b) = a" by simp_all
  show ?case
    using Cons.prems(2-4) Cons.IH [OF t(1)] lives_bounds [OF t(1)] t(2)
    by (fastforce split: if_splits)
qed simp

section \<open>Allocation\<close>

lemma unat_sub_add:
  "sz < w \<Longrightarrow> unat (w - sz) = unat w - unat (sz :: u32)" "sz < w \<Longrightarrow> unat sz + unat (w - sz) = unat w"
  by (simp_all add: unat_sub word_less_nat_alt word_le_nat_alt less_imp_le)

lemma alloc_loop_tiles:
  assumes "alloc_loop sz k bs = Some (p, bs')" and "tiles a bs e" and "e \<le> 2 ^ 32" and "0 < unat sz"
  shows "tiles a bs' e"
  using assms
proof (induction bs arbitrary: a bs')
  case (Cons b bs)
  show ?case
  proof (cases "hb_used b \<or> hb_size b < sz")
    case True
    then show ?thesis using Cons by auto
  next
    case free: False
    show ?thesis
    proof (cases "hb_size b > sz \<and> k < kHeapBlocks")
      case True
      have "unat (hb_addr b + sz) = unat (hb_addr b) + unat sz"
        using True Cons.prems(2,3) tiles_le [of "a + unat (hb_size b)" bs e]
        by (intro unat_add_small) (auto simp: word_less_nat_alt)
      with True free Cons.prems unat_sub_add [of sz "hb_size b"] show ?thesis
        by (auto simp: word_less_nat_alt add.assoc)
    next
      case False
      with free Cons.prems show ?thesis by (auto split: if_splits)
    qed
  qed
qed simp

lemma alloc_loop_spaced:
  "alloc_loop sz k bs = Some (p, bs') \<Longrightarrow> spaced bs \<Longrightarrow>
     spaced bs' \<and> (\<forall>b cs ds. bs = b # cs \<longrightarrow> hb_used b \<longrightarrow> (\<exists>ds. bs' = b # ds))"
proof (induction bs arbitrary: bs')
  case (Cons b bs)
  show ?case
  proof (cases "hb_used b \<or> hb_size b < sz")
    case True
    with Cons.prems(1) obtain cs where c: "alloc_loop sz k bs = Some (p, cs)" "bs' = b # cs" by auto
    with Cons have "spaced cs \<and> (\<forall>b cs' ds. bs = b # cs' \<longrightarrow> hb_used b \<longrightarrow> (\<exists>ds. cs = b # ds))"
      by (cases bs) auto
    with c Cons.prems(2) show ?thesis
      by (cases bs; cases cs) (auto split: if_splits)
  next
    case False
    with Cons.prems show ?thesis by (cases bs) (auto split: if_splits)
  qed
qed simp

lemma alloc_loop_lives:
  assumes "alloc_loop sz k bs = Some (p, bs')" and "tiles a bs e"
  shows "\<exists>n. unat sz \<le> n \<and> (unat p, n) \<notin> lives bs \<and> lives bs' = insert (unat p, n) (lives bs) \<and> a \<le> unat p"
  using assms
proof (induction bs arbitrary: a bs')
  case (Cons b bs)
  have t: "tiles (a + unat (hb_size b)) bs e" "unat (hb_addr b) = a" "0 < unat (hb_size b)"
    using Cons.prems(2) by simp_all
  have notin: "(a, n) \<notin> lives bs" for n using lives_bounds [OF t(1)] t(3) by fastforce
  show ?case
  proof (cases "hb_used b \<or> hb_size b < sz")
    case True
    with Cons.prems(1) obtain cs where c: "alloc_loop sz k bs = Some (p, cs)" "bs' = b # cs" by auto
    from Cons.IH [OF c(1) t(1)] show ?thesis using t c(2) by (auto simp: insert_commute)
  next
    case False
    then have "unat sz \<le> unat (hb_size b)" by (simp add: not_less word_le_nat_alt)
    with False Cons.prems(1) t(2) notin show ?thesis by (auto split: if_splits)
  qed
qed simp

lemma alloc_loop_length: "alloc_loop sz k bs = Some (p, bs') \<Longrightarrow>
    length bs' = length bs \<or> length bs' = Suc (length bs) \<and> k < kHeapBlocks"
  by (induction bs arbitrary: bs') (auto split: if_splits)

lemma alloc_loop_None: "alloc_loop sz k bs = None \<longleftrightarrow> list_all (\<lambda>b. hb_used b \<or> hb_size b < sz) bs"
  by (induction bs) auto

lemma round8:
  assumes "heap_request n"
  shows "unat n \<le> unat ((n + 7) AND NOT 7)" and "n \<noteq> 0 \<Longrightarrow> 0 < unat ((n + 7) AND NOT 7)"
    and "unat ((n + 7) AND NOT 7) < unat n + 8"
proof -
  have n: "unat n \<le> 0xFFFFFFF8" using assms by (simp add: heap_request_def word_le_nat_alt)
  have s: "unat (n + 7) = unat n + 7" using n by (subst unat_add_small) simp_all
  have u: "unat ((n + 7) AND NOT 7) = unat n + 7 - (unat n + 7) mod 8"
    using unat_and_not_mask [of "n + 7" 3] by (simp add: s mask_eq_exp_minus_1)
  show "unat n \<le> unat ((n + 7) AND NOT 7)" "unat ((n + 7) AND NOT 7) < unat n + 8"
    unfolding u by presburger+
  then show "n \<noteq> 0 \<Longrightarrow> 0 < unat ((n + 7) AND NOT 7)" by (metis gr0I le_zero_eq unat_eq_0)
qed

section \<open>Release\<close>

lemma spaced_coalesce: "spaced (coalesce bs)"
proof (induction bs rule: coalesce.induct)
  case (1 a b bs)
  show ?case
  proof (cases "\<not> hb_used a \<and> \<not> hb_used b")
    case False
    have "coalesce (c # cs) \<noteq> [] \<and> hb_used (hd (coalesce (c # cs))) = hb_used c" for c cs
      by (induction "c # cs" arbitrary: c cs rule: coalesce.induct) auto
    from this [of b bs] False 1 show ?thesis by (cases "coalesce (b # bs)") auto
  qed (use 1 in simp)
qed simp_all

lemma coalesce_spaced: "spaced bs \<Longrightarrow> coalesce bs = bs"
  by (induction bs rule: coalesce.induct) auto

lemma coalesce_tiles: "tiles a bs e \<Longrightarrow> 0 < a \<Longrightarrow> e \<le> 2 ^ 32 \<Longrightarrow> tiles a (coalesce bs) e"
proof (induction bs arbitrary: a rule: coalesce.induct)
  case (1 x y bs)
  have t: "tiles (a + unat (hb_size x) + unat (hb_size y)) bs e" using "1.prems"(1) by simp
  have "unat (hb_size x) + unat (hb_size y) < 2 ^ 32"
    using tiles_le [OF t] "1.prems"(2,3) by linarith
  then have "unat (hb_size x + hb_size y) = unat (hb_size x) + unat (hb_size y)"
    by (intro unat_add_small) simp
  with 1 t show ?case by (auto simp: add.assoc)
qed simp_all

lemma coalesce_lives: "lives (coalesce bs) = lives bs"
  by (induction bs rule: coalesce.induct) auto

lemma coalesce_length: "length (coalesce bs) \<le> length bs"
  by (induction bs rule: coalesce.induct) auto

lemma release_None: "release p bs = None \<longleftrightarrow> (\<forall>b\<in>set bs. \<not> (hb_addr b = p \<and> hb_used b))"
  by (induction bs) auto

lemma release_tiles: "release p bs = Some bs' \<Longrightarrow> tiles a bs e \<Longrightarrow> tiles a bs' e"
  by (induction bs arbitrary: a bs') (auto split: if_splits)

lemma release_length: "release p bs = Some bs' \<Longrightarrow> length bs' = length bs"
  by (induction bs arbitrary: bs') (auto split: if_splits)

lemma release_lives:
  "release p bs = Some bs' \<Longrightarrow> tiles a bs e \<Longrightarrow> lives bs' = {(q, n) \<in> lives bs. q \<noteq> unat p}"
proof (induction bs arbitrary: a bs')
  case (Cons b bs)
  have t: "tiles (a + unat (hb_size b)) bs e" "unat (hb_addr b) = a" "0 < unat (hb_size b)"
    using Cons.prems(2) by simp_all
  have gt: "(a, n) \<notin> lives bs" for n using lives_bounds [OF t(1)] t(3) by fastforce
  show ?case
  proof (cases "hb_addr b = p \<and> hb_used b")
    case True
    with t(2) gt have "{(q, n) \<in> lives bs. q \<noteq> unat p} = lives bs" by blast
    moreover have "lives bs' = lives bs" using True Cons.prems(1) by auto
    moreover have "{(q, n) \<in> lives (b # bs). q \<noteq> unat p} = {(q, n) \<in> lives bs. q \<noteq> unat p}"
      using True by auto
    ultimately show ?thesis by (simp only:)
  next
    case False
    with Cons.prems(1) obtain cs where c: "release p bs = Some cs" "bs' = b # cs" by auto
    have "hb_used b \<Longrightarrow> unat (hb_addr b) \<noteq> unat p" using False by (simp add: word_unat_eq_iff)
    then show ?thesis unfolding c(2) lives_simps Cons.IH [OF c(1) t(1)] by auto
  qed
qed simp

section \<open>The arena keeps the contract\<close>

lemma heapAlloc_cases:
  assumes "heap_inv h" and "heap_request n"
  obtains (zero) "n = 0" "heapAlloc n h = (0, h)"
  | (refused) "n \<noteq> 0" "list_all (\<lambda>b. hb_used b \<or> hb_size b < (n + 7) AND NOT 7) (blk h)"
      "heapAlloc n h = (0, h\<lparr>heap_refused := heap_refused h + 1\<rparr>)"
  | (given) p bs where "n \<noteq> 0" "alloc_loop ((n + 7) AND NOT 7) (length (blk h)) (blk h) = Some (p, bs)"
      "heapAlloc n h = (p, h\<lparr>blk := bs\<rparr>)" "p \<noteq> 0"
proof (cases "n = 0")
  case True
  then show ?thesis by (intro zero) (simp_all add: heapAlloc_def)
next
  case n: False
  have ok: "heap_ok h" and t: "tiles (unat (heap_base h)) (blk h) (unat (heap_base h) + unat (heap_size h))"
    and b: "0 < unat (heap_base h)" using assms(1) by (simp_all add: heap_inv_def)
  show ?thesis
  proof (cases "alloc_loop ((n + 7) AND NOT 7) (length (blk h)) (blk h)")
    case None
    then show ?thesis using n ok 
      by (intro refused) (simp_all add: heapAlloc_def, simp only: alloc_loop_None)
  next
    case (Some r)
    then obtain p bs where r: "alloc_loop ((n + 7) AND NOT 7) (length (blk h)) (blk h) = Some (p, bs)"
      by (cases r) auto
    then have "p \<noteq> 0" using alloc_loop_lives [OF r t] b by auto
    then show ?thesis using n ok r by (intro given) (simp_all add: heapAlloc_def)
  qed
qed

lemma heapAlloc_inv:
  assumes "heap_inv h" and "heap_request n"
  shows "heap_inv (snd (heapAlloc n h))"
  using assms
proof (cases rule: heapAlloc_cases)
  case (given p bs)
  have "0 < unat ((n + 7) AND NOT 7)" using round8(2) [OF assms(2) given(1)] .
  with alloc_loop_tiles [OF given(2)] alloc_loop_spaced [OF given(2)] alloc_loop_length [OF given(2)]
    assms(1) given(3) show ?thesis by (auto simp: heap_inv_def)
qed (use assms(1) in \<open>simp_all add: heap_inv_def\<close>)

lemma heapAlloc_live:
  assumes "heap_inv h" and "heap_request n" and "heapAlloc n h = (p, h')"
  shows "p = 0 \<Longrightarrow> heap_live h' = heap_live h"
    and "p \<noteq> 0 \<Longrightarrow> \<exists>m. unat n \<le> m \<and> (unat p, m) \<notin> heap_live h \<and>
      heap_live h' = insert (unat p, m) (heap_live h)"
proof -
  have "(p = 0 \<longrightarrow> heap_live h' = heap_live h) \<and> (p \<noteq> 0 \<longrightarrow> (\<exists>m. unat n \<le> m \<and>
      (unat p, m) \<notin> heap_live h \<and> heap_live h' = insert (unat p, m) (heap_live h)))"
    using assms(1,2)
  proof (cases rule: heapAlloc_cases)
    case (given q bs)
    have t: "tiles (unat (heap_base h)) (blk h) (unat (heap_base h) + unat (heap_size h))"
      using assms(1) by (simp add: heap_inv_def)
    from alloc_loop_lives [OF given(2) t] obtain m where m: "unat ((n + 7) AND NOT 7) \<le> m"
      "(unat q, m) \<notin> lives (blk h)" "lives bs = insert (unat q, m) (lives (blk h))" by blast
    have "unat n \<le> m" using round8(1) [OF assms(2)] m(1) by (rule le_trans)
    moreover have "p = q" "h' = h\<lparr>blk := bs\<rparr>" using given(3) assms(3) by simp_all
    ultimately show ?thesis using given(4) m(2,3) by (auto simp: heap_live_def)
  qed (use assms(3) in \<open>auto simp: heap_live_def\<close>)
  then show "p = 0 \<Longrightarrow> heap_live h' = heap_live h"
    and "p \<noteq> 0 \<Longrightarrow> \<exists>m. unat n \<le> m \<and> (unat p, m) \<notin> heap_live h \<and>
      heap_live h' = insert (unat p, m) (heap_live h)" by blast+
qed

lemma heapFree_inv_live:
  assumes "heap_inv h"
  shows "heap_inv (heapFree p h)" and "heap_live (heapFree p h) = {(a, n) \<in> heap_live h. a \<noteq> unat p}"
proof -
  let ?a = "unat (heap_base h)" and ?e = "unat (heap_base h) + unat (heap_size h)"
  have i: "0 < ?a" "?e \<le> 2 ^ 32" "tiles ?a (blk h) ?e" "length (blk h) \<le> kHeapBlocks"
    using assms by (simp_all add: heap_inv_def)
  have pos: "(a, n) \<in> heap_live h \<Longrightarrow> a \<noteq> 0" for a n
    using lives_bounds [OF i(3)] i(1) by (fastforce simp: heap_live_def)
  have "heap_inv (heapFree p h) \<and> heap_live (heapFree p h) = {(a, n) \<in> heap_live h. a \<noteq> unat p}"
  proof (cases "p = 0")
    case True
    then show ?thesis using assms pos by (auto simp: heapFree_def)
  next
    case False
    show ?thesis
    proof (cases "release p (blk h)")
      case None
      then have "a \<noteq> unat p" if "(a, n) \<in> heap_live h" for a n
        using that unfolding heap_live_def lives_def release_None by (auto simp: word_unat_eq_iff)
      with None False assms show ?thesis by (auto simp: heapFree_def)
    next
      case (Some bs)
      have t: "tiles ?a bs ?e" using release_tiles [OF Some i(3)] .
      have "length (coalesce bs) \<le> kHeapBlocks"
        using coalesce_length [of bs] release_length [OF Some] i(4) by simp
      with coalesce_tiles [OF t i(1,2)] spaced_coalesce [of bs] Some False assms
      show ?thesis
        by (simp add: heapFree_def heapCoalesce_def heap_inv_def heap_live_def coalesce_lives
            release_lives [OF Some i(3)])
    qed
  qed
  then show "heap_inv (heapFree p h)" and "heap_live (heapFree p h) = {(a, n) \<in> heap_live h. a \<noteq> unat p}"
    by blast+
qed

interpretation heap: allocator heap_inv heap_live heap_request heapAlloc heapFree
proof
  fix s a n b m
  assume i: "heap_inv s" and a: "(a, n) \<in> heap_live s"
  then have t: "tiles (unat (heap_base s)) (blk s) (unat (heap_base s) + unat (heap_size s))"
    and b: "0 < unat (heap_base s)" by (simp_all add: heap_inv_def)
  from lives_bounds [OF t a [unfolded heap_live_def]] b show "0 < a \<and> 0 < n" by simp
  assume "(b, m) \<in> heap_live s" "(a, n) \<noteq> (b, m)"
  with lives_disjoint [OF t] a show "a + n \<le> b \<or> b + m \<le> a" by (simp add: heap_live_def)
qed (simp_all add: heapAlloc_inv heapAlloc_live heapFree_inv_live)

lemma heapInit_inv:
  assumes "0 < unat base" and "0 < unat n" and "unat base + unat n \<le> 2 ^ 32"
  shows "heap_inv (heapInit base n h)"
  using assms by (simp add: heap_inv_def heapInit_def kHeapBlocks_def)

text \<open>C24: A block \<open>malloc\<close> hands out is at least as long as asked for, and until it is freed it stays where it
  is and apart from every other block held, whatever \<open>malloc\<close> and \<open>free\<close> calls follow; all of them keep
  the block table a gap-free tiling of the arena with merged free neighbours.\<close>

theorem malloc_block_private:
  assumes "heap_inv h" and "heap_request k" and "heapAlloc k h = (p, h')" and "p \<noteq> 0"
    and "heap.polite rs" and "\<forall>q. Inr q \<in> set rs \<longrightarrow> q \<noteq> p"
  shows "heap_inv (heap.client rs h') \<and> (\<exists>n. unat k \<le> n \<and> (unat p, n) \<in> heap_live (heap.client rs h') \<and>
    (\<forall>b m. (b, m) \<in> heap_live (heap.client rs h') \<and> (b, m) \<noteq> (unat p, n) \<longrightarrow>
      unat p + n \<le> b \<or> b + m \<le> unat p))"
proof -
  have "heap_inv h'" using heapAlloc_inv [OF assms(1,2)] assms(3) by simp
  with heap.held_block_is_private [OF assms] heap.client_inv [OF _ assms(5)] show ?thesis by blast
qed

text \<open>\<open>malloc\<close> of a non-zero size refuses only when no free block holds the size rounded up to 8, the block
  it gives lies inside the arena, and a refusal changes nothing but the refusal count.\<close>

theorem malloc_refuses_only_when_full:
  assumes "heap_inv h" and "heap_request k" and "k \<noteq> 0" and "heapAlloc k h = (p, h')"
  shows "(p = 0 \<longleftrightarrow> list_all (\<lambda>b. hb_used b \<or> unat (hb_size b) < unat ((k + 7) AND NOT 7)) (blk h)) \<and>
    (p = 0 \<longrightarrow> h' = h\<lparr>heap_refused := heap_refused h + 1\<rparr>) \<and>
    (p \<noteq> 0 \<longrightarrow> unat (heap_base h) \<le> unat p \<and> unat p + unat k \<le> unat (heap_base h) + unat (heap_size h))"
  using assms(1,2)
proof (cases rule: heapAlloc_cases)
  case refused
  then show ?thesis using assms(4) by (simp add: word_less_nat_alt)
next
  case (given q bs)
  have inv: "heap_inv h'" using heapAlloc_inv [OF assms(1,2)] assms(4) by simp
  have pq: "p = q" "h' = h\<lparr>blk := bs\<rparr>" using given assms(4) by simp_all
  have full: "\<not> list_all (\<lambda>b. hb_used b \<or> hb_size b < (k + 7) AND NOT 7) (blk h)"
    using given(2) unfolding alloc_loop_None [symmetric, where k = "length (blk h)"] by simp
  obtain m where m: "unat k \<le> m" "(unat p, m) \<in> lives bs"
    using heapAlloc_live(2) [OF assms(1,2,4)] given(4) pq by (auto simp: heap_live_def)
  moreover have "tiles (unat (heap_base h)) bs (unat (heap_base h) + unat (heap_size h))"
    using inv pq(2) by (simp add: heap_inv_def)
  ultimately have "unat (heap_base h) \<le> unat p" "unat p + m \<le> unat (heap_base h) + unat (heap_size h)"
    using lives_bounds by blast+
  with m(1) full given(4) pq(1) show ?thesis by (auto simp: word_less_nat_alt)
qed (use assms(3) in simp)

section \<open>Freeing what was allocated\<close>

lemma unused_id: "\<not> hb_used b \<Longrightarrow> b\<lparr>hb_used := False\<rparr> = b" for b :: HleHeapBlock
  by simp

lemma alloc_release_coalesce:
  assumes "alloc_loop sz k bs = Some (p, bs')" and "tiles a bs e" and "spaced bs" and "e \<le> 2 ^ 32"
  shows "\<exists>cs. release p bs' = Some cs \<and> coalesce cs = bs \<and>
    (\<forall>b ds. bs = b # ds \<longrightarrow> hb_used b \<longrightarrow> (\<exists>es. cs = b # es))"
  using assms
proof (induction bs arbitrary: a bs')
  case (Cons b bs)
  show ?case
  proof (cases "hb_used b \<or> hb_size b < sz")
    case True
    with Cons.prems(1) obtain ds where d: "alloc_loop sz k bs = Some (p, ds)" "bs' = b # ds" by auto
    have t: "tiles (a + unat (hb_size b)) bs e" "unat (hb_addr b) = a" "0 < unat (hb_size b)"
      using Cons.prems(2) by simp_all
    have sp: "spaced bs" using Cons.prems(3) by (cases bs) simp_all
    from Cons.IH [OF d(1) t(1) sp Cons.prems(4)] obtain cs where
      c: "release p ds = Some cs" "coalesce cs = bs" "\<forall>b ds. bs = b # ds \<longrightarrow> hb_used b \<longrightarrow> (\<exists>es. cs = b # es)"
      by blast
    have "hb_addr b \<noteq> p" using alloc_loop_lives [OF d(1) t(1)] t(2,3) by auto
    then have r: "release p bs' = Some (b # cs)" using d(2) c(1) by simp
    have "coalesce (b # cs) = b # coalesce cs"
    proof (cases "hb_used b")
      case True
      then show ?thesis by (cases cs) simp_all
    next
      case False
      then have "bs = [] \<or> hb_used (hd bs)" using Cons.prems(3) by (cases bs) simp_all
      moreover have "bs \<noteq> []" using d(1) by auto
      ultimately obtain x xs es where "bs = x # xs" "hb_used x" "cs = x # es"
        using c(3) by (cases bs) auto
      then show ?thesis by simp
    qed
    with r c(2) show ?thesis by auto
  next
    case free: False
    then have b: "\<not> hb_used b" "unat sz \<le> unat (hb_size b)" by (simp_all add: not_less word_le_nat_alt)
    have whole: "coalesce (b # bs) = b # bs" by (rule coalesce_spaced [OF Cons.prems(3)])
    from free b(1) whole Cons.prems(1) show ?thesis by (auto simp: unused_id split: if_splits)
  qed
qed simp

text \<open>Freeing the block \<open>malloc\<close> just gave restores the arena exactly.\<close>

theorem malloc_free_roundtrip:
  assumes "heap_inv h" and "heap_request k" and "heapAlloc k h = (p, h')" and "p \<noteq> 0"
  shows "heapFree p h' = h"
  using assms(1,2)
proof (cases rule: heapAlloc_cases)
  case (given q bs)
  have "tiles (unat (heap_base h)) (blk h) (unat (heap_base h) + unat (heap_size h))" "spaced (blk h)"
    "unat (heap_base h) + unat (heap_size h) \<le> 2 ^ 32" using assms(1) by (simp_all add: heap_inv_def)
  from alloc_release_coalesce [OF given(2) this] given(3,4) assms(3,4) show ?thesis
    by (auto simp: heapFree_def heapCoalesce_def)
qed (use assms(3,4) in simp_all)

text \<open>The rounding of a request wraps for the largest sizes: on an empty 4 KiB arena two calls of
  \<open>malloc(0xFFFFFFFF)\<close> succeed and return the same address.\<close>

definition fresh_heap :: hle_heap where
  "fresh_heap = heapInit 0x80010000 0x1000
     \<lparr>blk = [], heap_base = 0, heap_size = 0, heap_ok = False, heap_refused = 0\<rparr>"

theorem malloc_rounding_wraps:
  "fst (heapAlloc 0xFFFFFFFF fresh_heap) = 0x80010000 \<and>
   fst (heapAlloc 0xFFFFFFFF (snd (heapAlloc 0xFFFFFFFF fresh_heap))) = 0x80010000"
  by (simp add: heapAlloc_def fresh_heap_def heapInit_def kHeapBlocks_def)

section \<open>Instances\<close>

lemma fresh_heap_inv: "heap_inv fresh_heap"
  unfolding fresh_heap_def by (rule heapInit_inv) simp_all

lemma fresh_alloc: "heapAlloc 100 fresh_heap = (0x80010000, snd (heapAlloc 100 fresh_heap))"
  by (simp add: heapAlloc_def fresh_heap_def heapInit_def kHeapBlocks_def)

lemma fresh_request: "heap_request 100"
  by (simp add: heap_request_def)

lemma malloc_block_private_witness:
  "\<exists>n. 100 \<le> n \<and> (0x80010000, n) \<in> heap_live (heap.client [Inl 8, Inr 4] (snd (heapAlloc 100 fresh_heap)))"
  using malloc_block_private [OF fresh_heap_inv fresh_request fresh_alloc, of "[Inl 8, Inr 4]"]
  by (auto simp: heap.polite_def heap_request_def)

lemma malloc_refuses_only_when_full_witness:
  "unat (heap_base fresh_heap) \<le> 0x80010000 \<and>
   0x80010000 + 100 \<le> unat (heap_base fresh_heap) + unat (heap_size fresh_heap)"
  using malloc_refuses_only_when_full [OF fresh_heap_inv fresh_request _ fresh_alloc] by simp

lemma malloc_free_roundtrip_witness:
  "heapFree 0x80010000 (snd (heapAlloc 100 fresh_heap)) = fresh_heap"
  using malloc_free_roundtrip [OF fresh_heap_inv fresh_request fresh_alloc] by simp

end
