(* ===== verification/Bios_Libc.thy ===== *)
theory Bios_Libc
  imports Guest_Memory
begin

text \<open>
  The BIOS string, memory and character leaves (\<open>hle/bios_libc_string.cpp\<close>). Every leaf moves its bytes
  through \<open>Core::mem_r8\<close> and \<open>Core::mem_w8\<close>, the arguments \<open>rd\<close> and \<open>wr\<close> here; its laws are proved once
  from the contract \<open>byte_memory\<close> and hold for the guest memory map through its interpretation. A
  counted loop recurses on the iterations left. A loop that stops on a byte it reads may run for
  ever on a guest without a terminator, so it is a partial function whose value then is \<open>None\<close>;
  its lemma shows that it returns whenever there is a terminator.
\<close>

section \<open>Leaves\<close>

definition isAsciiSpace :: "u8 \<Rightarrow> bool" where
  "isAsciiSpace c \<longleftrightarrow> c = 32 \<or> (c \<ge> 9 \<and> c \<le> 13)"

datatype CopyOrder = Forward | OverlapSafe

fun copy_up :: "('s \<Rightarrow> u32 \<Rightarrow> (u8 \<times> 's) option) \<Rightarrow> ('s \<Rightarrow> u32 \<Rightarrow> u8 \<Rightarrow> 's option) \<Rightarrow>
    u32 \<Rightarrow> u32 \<Rightarrow> u32 \<Rightarrow> nat \<Rightarrow> 's \<Rightarrow> 's option" where
  "copy_up rd wr dst src i 0 s = Some s"
| "copy_up rd wr dst src i (Suc k) s =
     do { (v, s1) \<leftarrow> rd s (src + i); s2 \<leftarrow> wr s1 (dst + i) v; copy_up rd wr dst src (i + 1) k s2 }"

fun copy_down :: "('s \<Rightarrow> u32 \<Rightarrow> (u8 \<times> 's) option) \<Rightarrow> ('s \<Rightarrow> u32 \<Rightarrow> u8 \<Rightarrow> 's option) \<Rightarrow>
    u32 \<Rightarrow> u32 \<Rightarrow> nat \<Rightarrow> 's \<Rightarrow> 's option" where
  "copy_down rd wr dst src 0 s = Some s"
| "copy_down rd wr dst src (Suc k) s =
     do { (v, s1) \<leftarrow> rd s (src + of_nat k); s2 \<leftarrow> wr s1 (dst + of_nat k) v; copy_down rd wr dst src k s2 }"

definition guestCopy :: "('s \<Rightarrow> u32 \<Rightarrow> (u8 \<times> 's) option) \<Rightarrow> ('s \<Rightarrow> u32 \<Rightarrow> u8 \<Rightarrow> 's option) \<Rightarrow>
    u32 \<Rightarrow> u32 \<Rightarrow> u32 \<Rightarrow> CopyOrder \<Rightarrow> 's \<Rightarrow> 's option" where
  "guestCopy rd wr dst src n order s =
     (if order = OverlapSafe \<and> dst > src then copy_down rd wr dst src (unat n) s
      else copy_up rd wr dst src 0 (unat n) s)"

fun fill :: "('s \<Rightarrow> u32 \<Rightarrow> u8 \<Rightarrow> 's option) \<Rightarrow> u32 \<Rightarrow> u8 \<Rightarrow> u32 \<Rightarrow> nat \<Rightarrow> 's \<Rightarrow> 's option" where
  "fill wr a v i 0 s = Some s"
| "fill wr a v i (Suc k) s = do { s1 \<leftarrow> wr s (a + i) v; fill wr a v (i + 1) k s1 }"

partial_function (option) scan_nul ::
  "('s \<Rightarrow> u32 \<Rightarrow> (u8 \<times> 's) option) \<Rightarrow> u32 \<Rightarrow> u32 \<Rightarrow> 's \<Rightarrow> (u32 \<times> 's) option" where
  "scan_nul rd a n s =
     do { (ch, s1) \<leftarrow> rd s (a + n); if ch = 0 then Some (n, s1) else scan_nul rd a (n + 1) s1 }"

partial_function (option) strcpy_loop ::
  "('s \<Rightarrow> u32 \<Rightarrow> (u8 \<times> 's) option) \<Rightarrow> ('s \<Rightarrow> u32 \<Rightarrow> u8 \<Rightarrow> 's option) \<Rightarrow> u32 \<Rightarrow> u32 \<Rightarrow> u32 \<Rightarrow> 's \<Rightarrow> 's option" where
  "strcpy_loop rd wr dst src i s =
     do { (ch, s1) \<leftarrow> rd s (src + i); s2 \<leftarrow> wr s1 (dst + i) ch;
          if ch = 0 then Some s2 else strcpy_loop rd wr dst src (i + 1) s2 }"

text \<open>\<open>static_cast<uint32_t>(int(x) - int(y))\<close>.\<close>

definition byte_diff :: "u8 \<Rightarrow> u8 \<Rightarrow> u32" where
  "byte_diff x y = of_int (uint x - uint y)"

partial_function (option) strcmp_loop ::
  "('s \<Rightarrow> u32 \<Rightarrow> (u8 \<times> 's) option) \<Rightarrow> u32 \<Rightarrow> u32 \<Rightarrow> u32 \<Rightarrow> 's \<Rightarrow> (u32 \<times> 's) option" where
  "strcmp_loop rd a b i s =
     do { (x, s1) \<leftarrow> rd s (a + i); (y, s2) \<leftarrow> rd s1 (b + i);
          if x \<noteq> 0 \<and> x = y then strcmp_loop rd a b (i + 1) s2 else Some (byte_diff x y, s2) }"

text \<open>The loops of \<open>strncmp\<close> (\<open>nul\<close> set) and \<open>memcmp\<close>; \<open>d\<close> is the last difference.\<close>

fun compare_loop ::
  "('s \<Rightarrow> u32 \<Rightarrow> (u8 \<times> 's) option) \<Rightarrow> bool \<Rightarrow> u32 \<Rightarrow> u32 \<Rightarrow> u32 \<Rightarrow> nat \<Rightarrow> u32 \<Rightarrow> 's \<Rightarrow> (u32 \<times> 's) option" where
  "compare_loop rd nul a b i 0 d s = Some (d, s)"
| "compare_loop rd nul a b i (Suc k) d s =
     do { (x, s1) \<leftarrow> rd s (a + i); (y, s2) \<leftarrow> rd s1 (b + i);
          if x \<noteq> y \<or> (nul \<and> x = 0) then Some (byte_diff x y, s2)
          else compare_loop rd nul a b (i + 1) k (byte_diff x y) s2 }"

partial_function (option) skip_spaces ::
  "('s \<Rightarrow> u32 \<Rightarrow> (u8 \<times> 's) option) \<Rightarrow> u32 \<Rightarrow> u32 \<Rightarrow> 's \<Rightarrow> (u32 \<times> 's) option" where
  "skip_spaces rd a i s =
     do { (ch, s1) \<leftarrow> rd s (a + i); if isAsciiSpace ch then skip_spaces rd a (i + 1) s1 else Some (i, s1) }"

partial_function (option) atoi_digits ::
  "('s \<Rightarrow> u32 \<Rightarrow> (u8 \<times> 's) option) \<Rightarrow> u32 \<Rightarrow> u32 \<Rightarrow> u32 \<Rightarrow> 's \<Rightarrow> (u32 \<times> 's) option" where
  "atoi_digits rd a i v s =
     do { (digit, s1) \<leftarrow> rd s (a + i);
          if digit \<ge> 48 \<and> digit \<le> 57 then atoi_digits rd a (i + 1) (v * 10 + ucast (digit - 48)) s1
          else Some (v, s1) }"

definition atoi :: "('s \<Rightarrow> u32 \<Rightarrow> (u8 \<times> 's) option) \<Rightarrow> u32 \<Rightarrow> 's \<Rightarrow> (u32 \<times> 's) option" where
  "atoi rd a s =
     do { (i, s1) \<leftarrow> skip_spaces rd a 0 s;
          (sign, s2) \<leftarrow> rd s1 (a + i);
          let signed = (sign = 45 \<or> sign = 43);
          let negative = (sign = 45);
          let i' = (if signed then i + 1 else i);
          (v, s3) \<leftarrow> atoi_digits rd a i' 0 s2;
          Some (if negative then 0 - v else v, s3) }"

definition toupper :: "u32 \<Rightarrow> u32" where
  "toupper c = (if c \<ge> 97 \<and> c \<le> 122 then c - (97 - 65) else c)"

text \<open>The dispatch on the A0 function number; \<open>None\<close> inside is a number the leaf table does not have.\<close>

definition dispatchLibcString ::
  "('s \<Rightarrow> u32 \<Rightarrow> (u8 \<times> 's) option) \<Rightarrow> ('s \<Rightarrow> u32 \<Rightarrow> u8 \<Rightarrow> 's option) \<Rightarrow> u32 \<Rightarrow> u32 \<Rightarrow> u32 \<Rightarrow> u32 \<Rightarrow> 's \<Rightarrow>
     (u32 option \<times> 's) option" where
  "dispatchLibcString rd wr fn a0 a1 a2 s =
     (if fn = 0x27 \<or> fn = 0x2C then do { s' \<leftarrow> guestCopy rd wr a0 a1 a2 OverlapSafe s; Some (Some a0, s') }
      else if fn = 0x28 then do { s' \<leftarrow> fill wr a0 0 0 (unat a1) s; Some (Some a0, s') }
      else if fn = 0x2A then do { s' \<leftarrow> guestCopy rd wr a0 a1 a2 Forward s; Some (Some a0, s') }
      else if fn = 0x2B then do { s' \<leftarrow> fill wr a0 (ucast a1) 0 (unat a2) s; Some (Some a0, s') }
      else if fn = 0x15 then
        do { (n, s1) \<leftarrow> scan_nul rd a0 0 s; s' \<leftarrow> strcpy_loop rd wr (a0 + n) a1 0 s1; Some (Some a0, s') }
      else if fn = 0x17 then do { (d, s') \<leftarrow> strcmp_loop rd a0 a1 0 s; Some (Some d, s') }
      else if fn = 0x18 then do { (d, s') \<leftarrow> compare_loop rd True a0 a1 0 (unat a2) 0 s; Some (Some d, s') }
      else if fn = 0x19 then do { s' \<leftarrow> strcpy_loop rd wr a0 a1 0 s; Some (Some a0, s') }
      else if fn = 0x1A then do { (d, s') \<leftarrow> compare_loop rd False a0 a1 0 (unat a2) 0 s; Some (Some d, s') }
      else if fn = 0x1B then do { (n, s') \<leftarrow> scan_nul rd a0 0 s; Some (Some n, s') }
      else if fn = 0x10 \<or> fn = 0x11 then do { (v, s') \<leftarrow> atoi rd a0 s; Some (Some v, s') }
      else if fn = 0x25 then Some (Some (toupper a0), s)
      else Some (None, s))"

section \<open>Laws over any byte memory\<close>

context byte_memory
begin

text \<open>\<open>s'\<close> holds \<open>bs\<close> at \<open>a\<close> and everything else as \<open>s\<close> does.\<close>

definition updated :: "'s \<Rightarrow> u32 \<Rightarrow> u8 list \<Rightarrow> 's \<Rightarrow> bool" where
  "updated s a bs s' \<longleftrightarrow> ready s' \<and> bytes_at s' a (length bs) = bs \<and>
     (\<forall>y. (\<forall>i<length bs. cell (a + of_nat i) \<noteq> Some y) \<longrightarrow> peek s' y = peek s y)"

text \<open>The cells the first \<open>k\<close> writes of a forward copy touch are not read later.\<close>

definition up_safe :: "u32 \<Rightarrow> u32 \<Rightarrow> nat \<Rightarrow> bool" where
  "up_safe dst src n \<longleftrightarrow> (\<forall>i j. i < j \<longrightarrow> j < n \<longrightarrow> cell (dst + of_nat i) \<noteq> cell (src + of_nat j))"

definition down_safe :: "u32 \<Rightarrow> u32 \<Rightarrow> nat \<Rightarrow> bool" where
  "down_safe dst src n \<longleftrightarrow> (\<forall>i j. j < i \<longrightarrow> i < n \<longrightarrow> cell (dst + of_nat i) \<noteq> cell (src + of_nat j))"

lemma copy_up_rel:
  "mapped src n \<Longrightarrow> mapped dst n \<Longrightarrow> injective dst n \<Longrightarrow> up_safe dst src n \<Longrightarrow> ready s \<Longrightarrow> m + k = n \<Longrightarrow>
   \<exists>s'. copy_up rd wr dst src (of_nat m) k s = Some s' \<and> ready s' \<and>
     (\<forall>i. m \<le> i \<longrightarrow> i < n \<longrightarrow> peek s' (the (cell (dst + of_nat i))) = peek s (the (cell (src + of_nat i)))) \<and>
     (\<forall>y. (\<forall>i. m \<le> i \<longrightarrow> i < n \<longrightarrow> cell (dst + of_nat i) \<noteq> Some y) \<longrightarrow> peek s' y = peek s y)"
proof (induction k arbitrary: m s)
  case (Suc k)
  have m: "m < n" using Suc.prems(6) by simp
  obtain x z where x: "cell (src + of_nat m) = Some x" and z: "cell (dst + of_nat m) = Some z"
    using mapped_cell [OF Suc.prems(1) m] mapped_cell [OF Suc.prems(2) m] by blast
  obtain s2 where s2: "wr s (dst + of_nat m) (peek s x) = Some s2" "ready s2"
    "\<forall>y. peek s2 y = (if y = z then peek s x else peek s y)"
    using wr_mapped [OF z Suc.prems(5)] by blast
  obtain s' where s': "copy_up rd wr dst src (of_nat (Suc m)) k s2 = Some s'" "ready s'"
    "\<forall>i. Suc m \<le> i \<longrightarrow> i < n \<longrightarrow> peek s' (the (cell (dst + of_nat i))) = peek s2 (the (cell (src + of_nat i)))"
    "\<forall>y. (\<forall>i. Suc m \<le> i \<longrightarrow> i < n \<longrightarrow> cell (dst + of_nat i) \<noteq> Some y) \<longrightarrow> peek s' y = peek s2 y"
    using Suc.IH [OF Suc.prems(1-4) s2(2), of "Suc m"] Suc.prems(6) by auto
  have run: "copy_up rd wr dst src (of_nat m) (Suc k) s = Some s'"
    using s'(1) s2(1) rd_mapped [OF x] by (simp add: add.commute)
  have fresh: "the (cell (src + of_nat i)) \<noteq> z" if "m < i" "i < n" for i
    using that Suc.prems(4) mapped_cell [OF Suc.prems(1) that(2)] z by (fastforce simp: up_safe_def)
  have "cell (dst + of_nat i) \<noteq> Some z" if "Suc m \<le> i" "i < n" for i
    using that Suc.prems(3) z m unfolding injective_def by (metis Suc_n_not_le_n)
  then have "peek s' z = peek s x" using s'(4) s2(3) by simp
  then have "peek s' (the (cell (dst + of_nat i))) = peek s (the (cell (src + of_nat i)))"
    if "m \<le> i" "i < n" for i
    using that s'(3) s2(3) fresh x z by (cases "i = m") auto
  moreover have "peek s' y = peek s y" if "\<forall>i. m \<le> i \<longrightarrow> i < n \<longrightarrow> cell (dst + of_nat i) \<noteq> Some y" for y
    using that s'(4) s2(3) z m by (metis Suc_leD order_refl)
  ultimately show ?case using run s'(2) by blast
qed auto

lemma copy_up_updates:
  assumes "mapped src n" and "mapped dst n" and "injective dst n" and "up_safe dst src n" and "ready s"
  shows "\<exists>s'. copy_up rd wr dst src 0 n s = Some s' \<and> updated s dst (bytes_at s src n) s'"
  using copy_up_rel [OF assms, of 0 n]
  by (auto simp: updated_def bytes_at_def)

lemma copy_down_rel:
  "mapped src n \<Longrightarrow> mapped dst n \<Longrightarrow> injective dst n \<Longrightarrow> down_safe dst src n \<Longrightarrow> ready s \<Longrightarrow> k \<le> n \<Longrightarrow>
   \<exists>s'. copy_down rd wr dst src k s = Some s' \<and> ready s' \<and>
     (\<forall>i<k. peek s' (the (cell (dst + of_nat i))) = peek s (the (cell (src + of_nat i)))) \<and>
     (\<forall>y. (\<forall>i<k. cell (dst + of_nat i) \<noteq> Some y) \<longrightarrow> peek s' y = peek s y)"
proof (induction k arbitrary: s)
  case (Suc k)
  have m: "k < n" using Suc.prems(6) by simp
  obtain x z where x: "cell (src + of_nat k) = Some x" and z: "cell (dst + of_nat k) = Some z"
    using mapped_cell [OF Suc.prems(1) m] mapped_cell [OF Suc.prems(2) m] by blast
  obtain s2 where s2: "wr s (dst + of_nat k) (peek s x) = Some s2" "ready s2"
    "\<forall>y. peek s2 y = (if y = z then peek s x else peek s y)"
    using wr_mapped [OF z Suc.prems(5)] by blast
  obtain s' where s': "copy_down rd wr dst src k s2 = Some s'" "ready s'"
    "\<forall>i<k. peek s' (the (cell (dst + of_nat i))) = peek s2 (the (cell (src + of_nat i)))"
    "\<forall>y. (\<forall>i<k. cell (dst + of_nat i) \<noteq> Some y) \<longrightarrow> peek s' y = peek s2 y"
    using Suc.IH [OF Suc.prems(1-4) s2(2)] m by auto
  have run: "copy_down rd wr dst src (Suc k) s = Some s'"
    using s'(1) s2(1) rd_mapped [OF x] by simp
  have fresh: "the (cell (src + of_nat i)) \<noteq> z" if "i < k" for i
    using that Suc.prems(4) m mapped_cell [OF Suc.prems(1), of i] z by (fastforce simp: down_safe_def)
  have "cell (dst + of_nat i) \<noteq> Some z" if "i < k" for i
    using that Suc.prems(3) z m unfolding injective_def by (metis less_irrefl less_trans)
  then have "peek s' z = peek s x" using s'(4) s2(3) by simp
  then have "peek s' (the (cell (dst + of_nat i))) = peek s (the (cell (src + of_nat i)))"
    if "i < Suc k" for i
    using that s'(3) s2(3) fresh x z by (cases "i = k") auto
  moreover have "peek s' y = peek s y" if "\<forall>i<Suc k. cell (dst + of_nat i) \<noteq> Some y" for y
    using that s'(4) s2(3) z by (metis less_Suc_eq)
  ultimately show ?case using run s'(2) by blast
qed auto

lemma copy_down_updates:
  assumes "mapped src n" and "mapped dst n" and "injective dst n" and "down_safe dst src n" and "ready s"
  shows "\<exists>s'. copy_down rd wr dst src n s = Some s' \<and> updated s dst (bytes_at s src n) s'"
  using copy_down_rel [OF assms, of n] by (auto simp: updated_def bytes_at_def)

text \<open>The mapped bytes at \<open>a\<close> are \<open>bs\<close>.\<close>

definition holds :: "'s \<Rightarrow> u32 \<Rightarrow> u8 list \<Rightarrow> bool" where
  "holds s a bs \<longleftrightarrow> mapped a (length bs) \<and> bytes_at s a (length bs) = bs"

lemma holds_ConsD:
  assumes "holds s a (b # bs)"
  shows "rd s a = Some (b, s)" and "holds s (a + 1) bs"
proof -
  have c: "cell (a + of_nat i) \<noteq> None" "peek s (the (cell (a + of_nat i))) = (b # bs) ! i"
    if "i < Suc (length bs)" for i
  proof -
    have "mapped a (Suc (length bs))" "bytes_at s a (Suc (length bs)) = b # bs"
      using assms by (simp_all add: holds_def)
    with that nth_bytes_at [OF that, of s a] show "cell (a + of_nat i) \<noteq> None"
      "peek s (the (cell (a + of_nat i))) = (b # bs) ! i"
      unfolding mapped_def by auto
  qed
  show "rd s a = Some (b, s)" using c [of 0] rd_mapped by auto
  have "cell (a + 1 + of_nat i) \<noteq> None \<and> peek s (the (cell (a + 1 + of_nat i))) = bs ! i"
    if "i < length bs" for i
    using c [of "Suc i"] that by (simp add: add.assoc)
  then show "holds s (a + 1) bs"
    by (auto simp: holds_def mapped_def bytes_at_def intro!: nth_equalityI)
qed

lemma fill_rel:
  "mapped a n \<Longrightarrow> ready s \<Longrightarrow> m + k = n \<Longrightarrow>
   \<exists>s'. fill wr a v (of_nat m) k s = Some s' \<and> ready s' \<and>
     (\<forall>y. peek s' y = (if \<exists>i. m \<le> i \<and> i < n \<and> cell (a + of_nat i) = Some y then v else peek s y))"
proof (induction k arbitrary: m s)
  case (Suc k)
  have m: "m < n" using Suc.prems(3) by simp
  obtain z where z: "cell (a + of_nat m) = Some z" using mapped_cell [OF Suc.prems(1) m] by blast
  obtain s2 where s2: "wr s (a + of_nat m) v = Some s2" "ready s2"
    "\<forall>y. peek s2 y = (if y = z then v else peek s y)" using wr_mapped [OF z Suc.prems(2)] by blast
  obtain s' where s': "fill wr a v (of_nat (Suc m)) k s2 = Some s'" "ready s'" "\<forall>y. peek s' y =
      (if \<exists>i. Suc m \<le> i \<and> i < n \<and> cell (a + of_nat i) = Some y then v else peek s2 y)"
    using Suc.IH [OF Suc.prems(1) s2(2), of "Suc m"] Suc.prems(3) by auto
  have "fill wr a v (of_nat m) (Suc k) s = Some s'" using s'(1) s2(1) by (simp add: add.commute)
  moreover have "peek s' y = (if \<exists>i. m \<le> i \<and> i < n \<and> cell (a + of_nat i) = Some y then v else peek s y)" for y
  proof (cases "\<exists>i. Suc m \<le> i \<and> i < n \<and> cell (a + of_nat i) = Some y")
    case True
    then show ?thesis using s'(3) by (auto dest: Suc_leD)
  next
    case False
    then have "(\<exists>i. m \<le> i \<and> i < n \<and> cell (a + of_nat i) = Some y) \<longleftrightarrow> y = z"
      using z m by (metis le_antisym not_less_eq_eq option.inject order_refl)
    moreover have "peek s' y = (if y = z then v else peek s y)"
      unfolding s'(3) [rule_format, of y] if_not_P [OF False] using s2(3) by simp
    ultimately show ?thesis by simp
  qed
  ultimately show ?case using s'(2) by blast
qed auto

lemma fill_updates:
  assumes "mapped a n" and "ready s"
  shows "\<exists>s'. fill wr a v 0 n s = Some s' \<and> updated s a (replicate n v) s'"
proof -
  obtain s' where s': "fill wr a v 0 n s = Some s'" "ready s'"
    "\<forall>y. peek s' y = (if \<exists>i. 0 \<le> i \<and> i < n \<and> cell (a + of_nat i) = Some y then v else peek s y)"
    using fill_rel [OF assms, of 0 n v] by auto
  have "bytes_at s' a n = replicate n v"
  proof (rule nth_equalityI)
    fix i assume "i < length (bytes_at s' a n)"
    then have i: "i < n" by simp
    then obtain z where "cell (a + of_nat i) = Some z" using mapped_cell [OF assms(1)] by blast
    then show "bytes_at s' a n ! i = replicate n v ! i" using s'(3) i by (auto simp: nth_bytes_at)
  qed simp
  then show ?thesis using s' by (auto simp: updated_def)
qed

lemma scan_nul_holds:
  "holds s (a + of_nat m) (bs @ [0]) \<Longrightarrow> 0 \<notin> set bs \<Longrightarrow>
   scan_nul rd a (of_nat m) s = Some (of_nat (m + length bs), s)"
proof (induction bs arbitrary: m)
  case Nil
  then show ?case using holds_ConsD(1) [of s "a + of_nat m" 0 "[]"] by (simp add: scan_nul.simps)
next
  case (Cons b bs)
  note h = holds_ConsD [OF Cons.prems(1) [unfolded append_Cons]]
  have "holds s (a + of_nat (Suc m)) (bs @ [0])" using h(2) by (simp add: ac_simps)
  from Cons.IH [OF this] Cons.prems(2) have
    "scan_nul rd a (of_nat (Suc m)) s = Some (of_nat (Suc m + length bs), s)" by simp
  then show ?case using h(1) Cons.prems(2) by (subst scan_nul.simps) (simp add: add.commute)
qed

text \<open>The difference of the first bytes that differ, 0 when none do.\<close>

fun first_diff :: "u8 list \<Rightarrow> u8 list \<Rightarrow> int" where
  "first_diff (x # xs) (y # ys) = (if x \<noteq> y then uint x - uint y else first_diff xs ys)"
| "first_diff _ _ = 0"

lemma byte_diff_self [simp]: "byte_diff x x = 0"
  by (simp add: byte_diff_def)

lemma strcmp_loop_holds:
  "holds s (a + i) (xs @ [0]) \<Longrightarrow> holds s (b + i) (ys @ [0]) \<Longrightarrow> 0 \<notin> set xs \<Longrightarrow> 0 \<notin> set ys \<Longrightarrow>
   strcmp_loop rd a b i s = Some (of_int (first_diff (xs @ [0]) (ys @ [0])), s)"
proof (induction xs arbitrary: i ys)
  case Nil
  obtain y ys' where y: "ys @ [0] = y # ys'" by (cases ys) auto
  note h = holds_ConsD(1) [OF Nil(1) [simplified]] holds_ConsD(1) [OF Nil(2) [unfolded y]]
  show ?case using h y by (subst strcmp_loop.simps) (auto simp: byte_diff_def)
next
  case (Cons x xs)
  note hx = holds_ConsD [OF Cons.prems(1) [unfolded append_Cons]]
  obtain y ys' where y: "ys @ [0] = y # ys'" by (cases ys) auto
  note hy = holds_ConsD [OF Cons.prems(2) [unfolded y]]
  show ?case
  proof (cases "x = y")
    case True
    with Cons.prems(3) y obtain zs where zs: "ys = x # zs" "ys' = zs @ [0]" by (cases ys) auto
    have "strcmp_loop rd a b (i + 1) s = Some (of_int (first_diff (xs @ [0]) (zs @ [0])), s)"
      using hx(2) hy(2) Cons.prems(3,4) zs by (intro Cons.IH) (simp_all add: add.assoc)
    then show ?thesis using hx(1) hy(1) True Cons.prems(3) zs y
      by (subst strcmp_loop.simps) simp
  next
    case False
    then show ?thesis using hx(1) hy(1) y by (subst strcmp_loop.simps) (simp add: byte_diff_def)
  qed
qed

lemma compare_loop_holds:
  "holds s (a + i) xs \<Longrightarrow> holds s (b + i) ys \<Longrightarrow> length ys = length xs \<Longrightarrow>
   compare_loop rd False a b i (length xs) 0 s = Some (of_int (first_diff xs ys), s)"
proof (induction xs arbitrary: i ys)
  case (Cons x xs)
  then obtain y zs where y: "ys = y # zs" by (cases ys) auto
  note hx = holds_ConsD [OF Cons.prems(1)] and hy = holds_ConsD [OF Cons.prems(2) [unfolded y]]
  have "compare_loop rd False a b (i + 1) (length xs) 0 s = Some (of_int (first_diff xs zs), s)"
    using hx(2) hy(2) Cons.prems(3) y by (intro Cons.IH) (simp_all add: add.assoc)
  then show ?case using hx(1) hy(1) y by (simp add: byte_diff_def)
qed simp

lemma first_diff_0: "length xs = length ys \<Longrightarrow> first_diff xs ys = 0 \<longleftrightarrow> xs = ys"
  by (induction xs ys rule: first_diff.induct) (auto simp: word_uint_eq_iff)

lemma first_diff_range: "- 256 < first_diff xs ys \<and> first_diff xs ys < 256"
proof (induction xs ys rule: first_diff.induct)
  case (1 x xs y ys)
  have "0 \<le> uint v \<and> uint v < 256" for v :: u8 using unsigned_less [of v] by simp
  then have "0 \<le> uint x" "uint x < 256" "0 \<le> uint y" "uint y < 256" by blast+
  then show ?case using 1 by (simp, linarith)
qed simp_all

lemma first_diff_strings: "0 \<notin> set xs \<Longrightarrow> 0 \<notin> set ys \<Longrightarrow> first_diff (xs @ [0]) (ys @ [0]) = 0 \<longleftrightarrow> xs = ys"
proof (induction xs arbitrary: ys)
  case Nil
  then show ?case by (cases ys) (auto simp: word_uint_eq_iff)
next
  case (Cons x xs)
  then show ?case by (cases ys) (auto simp: word_uint_eq_iff)
qed

text \<open>A write elsewhere does not disturb the bytes held.\<close>

lemma holds_wr:
  assumes "holds s a bs" and "\<forall>y. peek s' y = (if y = z then v else peek s y)"
    and "\<forall>i<length bs. cell (a + of_nat i) \<noteq> Some z"
  shows "holds s' a bs"
proof -
  have m: "mapped a (length bs)" "bytes_at s a (length bs) = bs" using assms(1) by (simp_all add: holds_def)
  have "bytes_at s' a (length bs) = bytes_at s a (length bs)"
  proof (rule nth_equalityI)
    fix i assume "i < length (bytes_at s' a (length bs))"
    then have i: "i < length bs" by simp
    then obtain y where "cell (a + of_nat i) = Some y" using mapped_cell [OF m(1)] by blast
    with i assms(2,3) show "bytes_at s' a (length bs) ! i = bytes_at s a (length bs) ! i"
      by (auto simp: nth_bytes_at)
  qed simp
  with m show ?thesis by (simp add: holds_def)
qed

lemma strcpy_loop_copy:
  "holds s (src + of_nat m) (bs @ [0]) \<Longrightarrow> 0 \<notin> set bs \<Longrightarrow> ready s \<Longrightarrow>
   mapped dst (m + length bs + 1) \<Longrightarrow> apart dst (m + length bs + 1) src (m + length bs + 1) \<Longrightarrow>
   strcpy_loop rd wr dst src (of_nat m) s = copy_up rd wr dst src (of_nat m) (length bs + 1) s"
proof (induction bs arbitrary: m s)
  case Nil
  obtain z where z: "cell (dst + of_nat m) = Some z" using mapped_cell [OF Nil.prems(4), of m] by auto
  obtain s2 where "wr s (dst + of_nat m) 0 = Some s2" using wr_mapped [OF z Nil.prems(3)] by blast
  then show ?case using holds_ConsD(1) [of s "src + of_nat m" 0 "[]"] Nil.prems(1)
    by (subst strcpy_loop.simps) simp
next
  case (Cons b bs)
  note h = holds_ConsD [OF Cons.prems(1) [unfolded append_Cons]]
  obtain z where z: "cell (dst + of_nat m) = Some z" using mapped_cell [OF Cons.prems(4), of m] by auto
  obtain s2 where s2: "wr s (dst + of_nat m) b = Some s2" "ready s2"
    "\<forall>y. peek s2 y = (if y = z then b else peek s y)" using wr_mapped [OF z Cons.prems(3)] by blast
  have "cell (src + of_nat m + 1 + of_nat i) \<noteq> Some z" if "i < length (bs @ [0])" for i
  proof -
    have "cell (dst + of_nat m) \<noteq> cell (src + of_nat (m + 1 + i))"
      using Cons.prems(5) that unfolding apart_def by (simp del: of_nat_add of_nat_Suc)
    with z show ?thesis by (metis add.assoc of_nat_1 of_nat_add)
  qed
  then have "holds s2 (src + of_nat m + 1) (bs @ [0])" by (intro holds_wr [OF h(2) s2(3)]) blast
  then have "holds s2 (src + of_nat (Suc m)) (bs @ [0])" by (simp add: ac_simps)
  from Cons.IH [OF this _ s2(2)] Cons.prems
  have "strcpy_loop rd wr dst src (of_nat (Suc m)) s2 =
      copy_up rd wr dst src (of_nat (Suc m)) (length bs + 1) s2" by simp
  then show ?case using h(1) s2(1) Cons.prems(2)
    by (subst strcpy_loop.simps) (simp add: add.commute)
qed

text \<open>\<open>strcpy\<close> returns with the string and its terminator at the destination.\<close>

lemma strcpy_copies:
  assumes "holds s src (bs @ [0])" and "0 \<notin> set bs" and "ready s" and "mapped dst (length bs + 1)"
    and "injective dst (length bs + 1)" and "apart dst (length bs + 1) src (length bs + 1)"
  shows "\<exists>s'. strcpy_loop rd wr dst src 0 s = Some s' \<and> updated s dst (bs @ [0]) s'"
proof -
  have m: "mapped src (length bs + 1)" "bytes_at s src (length bs + 1) = bs @ [0]"
    using assms(1) by (simp_all add: holds_def)
  have "up_safe dst src (length bs + 1)" using assms(6) by (auto simp: up_safe_def apart_def)
  from copy_up_updates [OF m(1) assms(4,5) this assms(3)] m(2)
  show ?thesis using strcpy_loop_copy [of s src 0 bs dst] assms by simp
qed

section \<open>Decimal text\<close>

definition is_digit :: "u8 \<Rightarrow> bool" where
  "is_digit d \<longleftrightarrow> 48 \<le> d \<and> d \<le> 57"

fun decimal :: "nat \<Rightarrow> u8 list \<Rightarrow> nat" where
  "decimal acc [] = acc"
| "decimal acc (d # ds) = decimal (acc * 10 + (unat d - 48)) ds"

lemma digit_value: "is_digit d \<Longrightarrow> (ucast (d - 48) :: u32) = of_nat (unat d - 48)"
proof -
  assume "is_digit d"
  then have "unat (d - 48) = unat d - 48" by (subst unat_sub) (simp_all add: is_digit_def)
  then show ?thesis by (metis of_nat_unat)
qed

lemma atoi_digits_holds:
  "holds s (a + i) (ds @ [c]) \<Longrightarrow> list_all is_digit ds \<Longrightarrow> \<not> is_digit c \<Longrightarrow>
   atoi_digits rd a i (of_nat acc) s = Some (of_nat (decimal acc ds), s)"
proof (induction ds arbitrary: i acc)
  case Nil
  then show ?case using holds_ConsD(1) [of s "a + i" c "[]"]
    by (subst atoi_digits.simps) (auto simp: is_digit_def)
next
  case (Cons d ds)
  note h = holds_ConsD [OF Cons.prems(1) [unfolded append_Cons]]
  have "atoi_digits rd a (i + 1) (of_nat (acc * 10 + (unat d - 48))) s =
      Some (of_nat (decimal (acc * 10 + (unat d - 48)) ds), s)"
    using h(2) Cons.prems by (intro Cons.IH) (simp_all add: add.assoc)
  moreover have "of_nat (acc * 10 + (unat d - 48)) = of_nat acc * 10 + (ucast (d - 48) :: u32)"
    using Cons.prems(2) by (simp add: digit_value)
  ultimately show ?case using h(1) Cons.prems(2)
    by (subst atoi_digits.simps) (simp add: is_digit_def)
qed

lemma skip_spaces_holds:
  "holds s (a + of_nat m) (ws @ c # cs) \<Longrightarrow> list_all isAsciiSpace ws \<Longrightarrow> \<not> isAsciiSpace c \<Longrightarrow>
   skip_spaces rd a (of_nat m) s = Some (of_nat (m + length ws), s) \<and>
   holds s (a + of_nat (m + length ws)) (c # cs)"
proof (induction ws arbitrary: m)
  case Nil
  then show ?case using holds_ConsD(1) [of s "a + of_nat m" c cs] by (subst skip_spaces.simps) simp
next
  case (Cons w ws)
  note h = holds_ConsD [OF Cons.prems(1) [unfolded append_Cons]]
  have "holds s (a + of_nat (Suc m)) (ws @ c # cs)" using h(2) by (simp add: ac_simps)
  from Cons.IH [OF this] Cons.prems show ?case using h(1)
    by (subst skip_spaces.simps) (simp add: ac_simps)
qed

definition sign_ok :: "u8 list \<Rightarrow> bool" where
  "sign_ok sg \<longleftrightarrow> sg = [] \<or> sg = [43] \<or> sg = [45]"

lemma atoi_holds:
  assumes "holds s a (ws @ sg @ ds @ [c])" and "list_all isAsciiSpace ws" and "sign_ok sg"
    and "list_all is_digit ds" and "ds \<noteq> []" and "\<not> is_digit c"
  shows "atoi rd a s = Some (of_int ((if sg = [45] then - 1 else 1) * int (decimal 0 ds)), s)"
proof -
  obtain x xs where x: "sg @ ds @ [c] = x # xs" by (metis append_is_Nil_conv neq_Nil_conv)
  obtain d ds' where d: "ds = d # ds'" using assms(5) by (cases ds) auto
  have dig: "is_digit d" using assms(4) d by simp
  have "x = d \<or> x = 43 \<or> x = 45" using x assms(3) d by (auto simp: sign_ok_def)
  then have sp: "\<not> isAsciiSpace x"
    using dig by (auto simp: is_digit_def isAsciiSpace_def word_le_nat_alt)
  have h: "skip_spaces rd a 0 s = Some (of_nat (length ws), s)" "holds s (a + of_nat (length ws)) (x # xs)"
    using skip_spaces_holds [of s a 0 ws x xs] assms(1,2) sp x by simp_all
  note r = holds_ConsD [OF h(2)]
  have nd: "\<not> is_digit 43" "\<not> is_digit 45" by (simp_all add: is_digit_def)
  let ?i = "if x = 45 \<or> x = 43 then of_nat (length ws) + 1 else of_nat (length ws) :: u32"
  have "holds s (a + ?i) (ds @ [c])"
  proof (cases "sg = []")
    case True
    then have "x = d" using x d by simp
    then have "\<not> (x = 45 \<or> x = 43)" using nd dig by auto
    then show ?thesis using h(2) x True by simp
  next
    case False
    then have "x = 43 \<or> x = 45" "xs = ds @ [c]" using x assms(3) by (auto simp: sign_ok_def)
    then show ?thesis using r(2) by (auto simp: add.assoc)
  qed
  from atoi_digits_holds [OF this assms(4,6), of 0]
  have digits: "atoi_digits rd a ?i 0 s = Some (of_nat (decimal 0 ds), s)" by simp
  have "x = 45 \<longleftrightarrow> sg = [45]" using x assms(3) d nd dig by (auto simp: sign_ok_def)
  then show ?thesis using h(1) r(1) digits by (auto simp: atoi_def Let_def)
qed

end

section \<open>Spans of main RAM\<close>

text \<open>A span named through KSEG0 inside main RAM, where programs live; its addresses name distinct bytes.\<close>

definition kseg0_span :: "u32 \<Rightarrow> nat \<Rightarrow> bool" where
  "kseg0_span a n \<longleftrightarrow> 0x80000000 \<le> unat a \<and> unat a + n \<le> 0x80200000"

lemma kseg0_byte:
  assumes "0x80000000 \<le> unat x" and "unat x < 0x80200000"
  shows "host_ptr x 1 = Some (RamAt (x - 0x80000000))"
proof -
  have ux: "unat (x - 0x80000000) = unat x - 0x80000000"
    using assms(1) by (subst unat_sub) (simp_all add: word_le_nat_alt)
  obtain k where k: "unat x = 0x80000000 + k" using assms(1) by (metis le_Suc_ex)
  have "unat (physical x) = (k + 4 * 2 ^ 29) mod 2 ^ 29" by (simp add: unat_physical k add.commute)
  also have "\<dots> = k mod 2 ^ 29" by (rule mod_mult_self1)
  also have "\<dots> = k" using k assms(2) by (intro mod_less) simp
  finally have "unat (physical x) = unat (x - 0x80000000)" using ux k by simp
  then have p: "physical x = x - 0x80000000" by (simp only: word_unat_eq_iff)
  have lt: "unat (x - 0x80000000) < 0x200000" using assms ux by simp
  have "(x - 0x80000000) AND 0x1FFFFF = take_bit 21 (x - 0x80000000)"
    by (simp add: take_bit_eq_mask mask_eq_exp_minus_1)
  also have "\<dots> = x - 0x80000000"
    using lt by (simp only: word_unat_eq_iff unsigned_take_bit_eq) (rule take_bit_nat_eq_self, simp)
  finally have "mainRamOffset x = Some (x - 0x80000000)"
    using p lt by (simp add: mainRamOffset_def map_consts word_le_nat_alt)
  moreover have "unat (x - 0x80000000 + 1) = unat (x - 0x80000000) + 1"
    using lt by (subst unat_add_small) simp_all
  ultimately show ?thesis
    using lt by (simp add: host_ptr_offset map_consts word_le_nat_alt)
qed

lemma kseg0_cell:
  assumes "kseg0_span a n" and "i < n"
  shows "host_ptr (a + of_nat i) 1 = Some (RamAt (of_nat (unat a - 0x80000000 + i)))"
proof -
  have le: "0x80000000 \<le> unat a" "unat a + n \<le> 0x80200000" using assms(1) by (simp_all add: kseg0_span_def)
  have i: "i < 2 ^ 32" using le assms(2) by simp
  have "unat (a + of_nat i) = unat a + i"
    using le assms(2) i by (subst unat_add_small) simp_all
  then have "host_ptr (a + of_nat i) 1 = Some (RamAt (a + of_nat i - 0x80000000))"
    using le assms(2) by (intro kseg0_byte) simp_all
  moreover have "of_nat (unat a - 0x80000000 + i) = a + of_nat i - (0x80000000 :: u32)"
    using le(1) by (simp add: of_nat_diff algebra_simps)
  ultimately show ?thesis by simp
qed

lemma kseg0_cells_eq:
  assumes "kseg0_span a n" and "kseg0_span b m" and "i < n" and "j < m"
  shows "host_ptr (a + of_nat i) 1 = host_ptr (b + of_nat j) 1 \<longleftrightarrow> unat a + i = unat b + j"
proof -
  let ?x = "unat a - 0x80000000 + i" and ?y = "unat b - 0x80000000 + j"
  have "?x < 2 ^ 32" "?y < 2 ^ 32" using assms unfolding kseg0_span_def by auto
  then have "(of_nat ?x :: u32) = of_nat ?y \<longleftrightarrow> ?x = ?y"
    using of_nat_inj_small [where 'a = 32, of ?x ?y] by (auto simp del: of_nat_add)
  moreover have "?x = ?y \<longleftrightarrow> unat a + i = unat b + j"
    using assms(1,2) by (auto simp: kseg0_span_def)
  ultimately show ?thesis using kseg0_cell [OF assms(1,3)] kseg0_cell [OF assms(2,4)] by simp
qed

lemma kseg0_mapped: "kseg0_span a n \<Longrightarrow> gm.mapped a n"
  by (simp add: gm.mapped_def kseg0_cell)

lemma kseg0_injective: "kseg0_span a n \<Longrightarrow> gm.injective a n"
  by (simp add: gm.injective_def kseg0_cells_eq)

text \<open>\<open>memmove\<close> (A0:0x27 and 0x2C) between any two spans of main RAM, overlapping or not, leaves at the
  destination the bytes the source held before the call, changes no other byte, and returns the destination.\<close>

theorem memmove_overlap_safe:
  assumes "kseg0_span dst (unat n)" and "kseg0_span src (unat n)" and "\<not> displayPassArmed c"
    and "fn = 0x27 \<or> fn = 0x2C"
  shows "\<exists>c'. dispatchLibcString (mem_r8 io) (mem_w8 io) fn dst src n c = Some (Some dst, c') \<and>
    gm.bytes_at c' dst (unat n) = gm.bytes_at c src (unat n) \<and>
    (\<forall>y. (\<forall>i<unat n. host_ptr (dst + of_nat i) 1 \<noteq> Some y) \<longrightarrow> byte_at c' y = byte_at c y)"
proof -
  note m = kseg0_mapped [OF assms(2)] kseg0_mapped [OF assms(1)] kseg0_injective [OF assms(1)]
  have "\<exists>c'. guestCopy (mem_r8 io) (mem_w8 io) dst src n OverlapSafe c = Some c' \<and>
      gm.updated c dst (gm.bytes_at c src (unat n)) c'"
  proof (cases "dst > src")
    case True
    then have "gm.down_safe dst src (unat n)"
      using assms(1,2) by (auto simp: gm.down_safe_def kseg0_cells_eq word_less_nat_alt)
    from gm.copy_down_updates [OF m this assms(3)] True show ?thesis by (simp add: guestCopy_def)
  next
    case False
    then have "gm.up_safe dst src (unat n)"
      using assms(1,2) by (auto simp: gm.up_safe_def kseg0_cells_eq word_less_nat_alt)
    from gm.copy_up_updates [OF m this assms(3)] False show ?thesis by (simp add: guestCopy_def)
  qed
  then show ?thesis using assms(4) by (fastforce simp: dispatchLibcString_def gm.updated_def)
qed

lemma sint_byte_range: "- 256 < v \<Longrightarrow> v < 256 \<Longrightarrow> sint (of_int v :: u32) = v"
  by (simp add: signed_of_int signed_take_bit_int_eq_self)

text \<open>\<open>strcmp\<close> (A0:0x17) of two terminated strings in mapped memory returns, leaves memory as it was, and
  its result as a signed word is the difference of the first differing characters (the terminator
  counting as 0), so it is 0 exactly for equal strings.\<close>

theorem strcmp_result:
  assumes "gm.holds c a (xs @ [0])" and "gm.holds c b (ys @ [0])" and "0 \<notin> set xs" and "0 \<notin> set ys"
  shows "\<exists>d. dispatchLibcString (mem_r8 io) (mem_w8 io) 0x17 a b n c = Some (Some d, c) \<and>
    sint d = gm.first_diff (xs @ [0]) (ys @ [0]) \<and> (d = 0 \<longleftrightarrow> xs = ys)"
proof -
  let ?v = "gm.first_diff (xs @ [0]) (ys @ [0])"
  have "strcmp_loop (mem_r8 io) a b 0 c = Some (of_int ?v, c)"
    using gm.strcmp_loop_holds [of c a 0 xs b ys] assms by simp
  moreover have s: "sint (of_int ?v :: u32) = ?v"
    using gm.first_diff_range sint_byte_range by blast
  moreover have "(of_int ?v :: u32) = 0 \<longleftrightarrow> xs = ys"
    using s gm.first_diff_strings [OF assms(3,4)] by (metis of_int_0 sint_0)
  ultimately show ?thesis by (simp add: dispatchLibcString_def)
qed

text \<open>\<open>atoi\<close> and \<open>atol\<close> (A0:0x10, 0x11) of a text that is white space, an optional sign, decimal digits and
  a non-digit return, leave memory as it was, and give the signed decimal value modulo \<open>2 ^ 32\<close>.\<close>

theorem atoi_decimal:
  assumes "gm.holds c a (ws @ sg @ ds @ [e])" and "list_all isAsciiSpace ws" and "gm.sign_ok sg"
    and "list_all gm.is_digit ds" and "ds \<noteq> []" and "\<not> gm.is_digit e" and "fn = 0x10 \<or> fn = 0x11"
  shows "dispatchLibcString (mem_r8 io) (mem_w8 io) fn a b n c =
    Some (Some (of_int ((if sg = [45] then - 1 else 1) * int (gm.decimal 0 ds))), c)"
  using gm.atoi_holds [OF assms(1-6), of io] assms(7) by (auto simp: dispatchLibcString_def)

section \<open>Instances\<close>

definition text_core :: "u8 list \<Rightarrow> unit core" where
  "text_core bs = blank_core\<lparr>ram := (\<lambda>i. if unat i < length bs then bs ! unat i else 0)\<rparr>"

lemma text_core_holds:
  assumes "length bs \<le> 100"
  shows "gm.holds (text_core bs) 0x80000000 bs"
proof -
  have k: "kseg0_span 0x80000000 (length bs)" using assms by (simp add: kseg0_span_def)
  have "gm.bytes_at (text_core bs) 0x80000000 (length bs) = bs"
    using assms kseg0_cell [OF k]
    by (intro nth_equalityI) (simp_all add: gm.nth_bytes_at text_core_def)
  then show ?thesis using kseg0_mapped [OF k] by (simp add: gm.holds_def)
qed

lemma memmove_overlap_safe_witness:
  "\<exists>c'. dispatchLibcString (mem_r8 no_devices) (mem_w8 no_devices) 0x27 0x80000001 0x80000000 3
      (text_core [1, 2, 3, 4]) = Some (Some 0x80000001, c') \<and>
    gm.bytes_at c' 0x80000001 3 = gm.bytes_at (text_core [1, 2, 3, 4]) 0x80000000 3"
  using memmove_overlap_safe [of "0x80000001" 3 "0x80000000" "text_core [1, 2, 3, 4]" "0x27" no_devices]
  by (auto simp: kseg0_span_def text_core_def blank_core_def)

lemma strcmp_result_witness:
  "\<exists>d. dispatchLibcString (mem_r8 no_devices) (mem_w8 no_devices) 0x17 0x80000000 0x80000000 0
      (text_core [65, 0]) = Some (Some d, text_core [65, 0]) \<and> d = 0"
  using strcmp_result [of "text_core [65, 0]" "0x80000000" "[65]" "0x80000000" "[65]" no_devices 0]
    text_core_holds [of "[65, 0]"] by auto

lemma atoi_decimal_witness:
  "dispatchLibcString (mem_r8 no_devices) (mem_w8 no_devices) 0x10 0x80000000 0 0
      (text_core [32, 45, 52, 50, 0]) = Some (Some (- 42), text_core [32, 45, 52, 50, 0])"
  using atoi_decimal [of "text_core [32, 45, 52, 50, 0]" "0x80000000" "[32]" "[45]" "[52, 50]" 0 "0x10" no_devices 0 0]
    text_core_holds [of "[32, 45, 52, 50, 0]"]
  by (simp add: isAsciiSpace_def gm.sign_ok_def gm.is_digit_def)

end
