(* ===== verification/Dma_Controller.thy ===== *)
theory Dma_Controller
  imports Guest_Memory
begin

text \<open>
  The DMA controller's register rules (\<open>platform/dma_irq.h\<close>), the linked-list chain walk
  (\<open>platform/dma_linked_list.cpp\<close>), the transfer helpers and the ordering-table clear of
  \<open>core/mem.cpp\<close>, and the edge and spin detectors of \<open>platform/\<close>. Registers are 32-bit words; the chain
  walk and the clear run over the guest memory of \<open>Guest_Memory\<close>. A word count (\<open>int\<close>) is an \<open>int\<close>; the
  conversion from \<open>uint32_t\<close> is written out.
\<close>

section \<open>Channels and lanes\<close>

datatype DmaChannel = MdecIn | MdecOut | Gpu | Cdrom | Spu | Pio | Otc

definition kChannelCount :: nat where "kChannelCount = 7"

fun channelIndex :: "DmaChannel \<Rightarrow> nat" where
  "channelIndex MdecIn = 0"
| "channelIndex MdecOut = 1"
| "channelIndex Gpu = 2"
| "channelIndex Cdrom = 3"
| "channelIndex Spu = 4"
| "channelIndex Pio = 5"
| "channelIndex Otc = 6"

definition kDpcrReset :: u32 where "kDpcrReset = 0x07654321"
definition kDicrForce :: u32 where "kDicrForce = 0x00008000"
definition kDicrEnableMask :: u32 where "kDicrEnableMask = 0x007F0000"
definition kDicrMasterEnable :: u32 where "kDicrMasterEnable = 0x00800000"
definition kDicrFlagMask :: u32 where "kDicrFlagMask = 0x7F000000"
definition kDicrMasterFlag :: u32 where "kDicrMasterFlag = 0x80000000"
definition kDicrRwMask :: u32 where "kDicrRwMask = 0x00FF803F"

lemmas dicr_consts = kDicrForce_def kDicrEnableMask_def kDicrMasterEnable_def kDicrFlagMask_def
  kDicrMasterFlag_def kDicrRwMask_def

record GuestStore =
  st_address :: u32
  st_value :: u32
  st_width :: u32

definition laneMask :: "GuestStore \<Rightarrow> u32" where
  "laneMask s =
     (if st_width s \<ge> 4 then 0xFFFFFFFF
      else let shift = (st_address s AND 3) * 8;
               width = st_width s * 8
           in push_bit (unat shift) (if width \<ge> 32 then 0xFFFFFFFF else push_bit (unat width) 1 - 1))"

definition laneValue :: "GuestStore \<Rightarrow> u32" where
  "laneValue s =
     (if st_width s \<ge> 4 then st_value s else push_bit (unat ((st_address s AND 3) * 8)) (st_value s))"

section \<open>DICR\<close>

definition readDicr :: "u32 \<Rightarrow> u32" where
  "readDicr dicr =
     (let armedAndFlagged = (dicr AND kDicrMasterEnable \<noteq> 0 \<and>
            dicr AND push_bit 8 (dicr AND kDicrEnableMask) \<noteq> 0);
          out = dicr AND NOT kDicrMasterFlag
      in if dicr AND kDicrForce \<noteq> 0 \<or> armedAndFlagged then out OR kDicrMasterFlag else out)"

definition storeDicr :: "u32 \<Rightarrow> GuestStore \<Rightarrow> u32" where
  "storeDicr current s =
     (let lane = laneMask s;
          value = laneValue s AND lane;
          rw = kDicrRwMask AND lane;
          ack = kDicrFlagMask AND lane AND value
      in ((current AND NOT rw) OR (value AND rw)) AND NOT ack)"

definition storeDpcr :: "u32 \<Rightarrow> GuestStore \<Rightarrow> u32" where
  "storeDpcr dpcr s = (let lane = laneMask s in (dpcr AND NOT lane) OR (laneValue s AND lane))"

definition irqArmed :: "u32 \<Rightarrow> DmaChannel \<Rightarrow> bool" where
  "irqArmed dicr ch \<longleftrightarrow> dicr AND kDicrMasterEnable \<noteq> 0 \<and> dicr AND push_bit (16 + channelIndex ch) 1 \<noteq> 0"

definition completeDicr :: "u32 \<Rightarrow> DmaChannel \<Rightarrow> u32" where
  "completeDicr dicr ch = (if irqArmed dicr ch then dicr OR push_bit (24 + channelIndex ch) 1 else dicr)"

definition ackDicr :: "u32 \<Rightarrow> DmaChannel \<Rightarrow> u32" where
  "ackDicr dicr ch = dicr AND NOT (push_bit (24 + channelIndex ch) 1)"

definition callbackSlot :: "u32 \<Rightarrow> DmaChannel \<Rightarrow> u32" where
  "callbackSlot table ch = (if table \<noteq> 0 then table + 4 * of_nat (channelIndex ch) else 0)"

section \<open>Registers and completions\<close>

record ChannelRegisters =
  madr :: u32
  bcr :: u32
  chcr :: u32

record DmaRegisters =
  channel :: "DmaChannel \<Rightarrow> ChannelRegisters"
  mdec0Addr :: u32
  mdec0Left :: int
  mdec1Addr :: u32
  mdec1Left :: int
  spuXferAddr :: u32
  dpcr :: u32
  dicr :: u32
  done_mask :: u32

text \<open>\<open>DmaDone\<close>: the completion mask, and \<open>complete\<close>, which also sets the flag in DICR.\<close>

definition done_complete :: "u32 \<Rightarrow> u32 \<Rightarrow> DmaChannel \<Rightarrow> bool \<times> u32 \<times> u32" where
  "done_complete mask' dicr' ch =
     (if \<not> irqArmed dicr' ch then (False, mask', dicr')
      else (True, mask' OR push_bit (channelIndex ch) 1, completeDicr dicr' ch))"

definition owed :: "u32 \<Rightarrow> DmaChannel \<Rightarrow> bool" where
  "owed mask' ch \<longleftrightarrow> mask' AND push_bit (channelIndex ch) 1 \<noteq> 0"

definition taken :: "u32 \<Rightarrow> DmaChannel \<Rightarrow> u32" where
  "taken mask' ch = mask' AND NOT (push_bit (channelIndex ch) 1)"

definition done_any :: "u32 \<Rightarrow> bool" where
  "done_any mask' \<longleftrightarrow> mask' \<noteq> 0"

definition dma_completed :: "DmaRegisters \<Rightarrow> DmaChannel \<Rightarrow> bool \<times> DmaRegisters" where
  "dma_completed d ch =
     (let (o', mask', dicr') = done_complete (done_mask d) (dicr d) ch
      in (o', d\<lparr>done_mask := mask', dicr := dicr'\<rparr>))"

definition acknowledge :: "DmaRegisters \<Rightarrow> DmaChannel \<Rightarrow> DmaRegisters" where
  "acknowledge d ch = d\<lparr>done_mask := taken (done_mask d) ch, dicr := ackDicr (dicr d) ch\<rparr>"

section \<open>Transfers\<close>

definition syncMode :: "u32 \<Rightarrow> u32" where
  "syncMode c = drop_bit 9 c AND 3"

definition dma_block_words :: "u32 \<Rightarrow> int" where
  "dma_block_words b =
     (let bs = b AND 0xFFFF; bc = drop_bit 16 b in sint (bs * (if bc \<noteq> 0 then bc else 1)))"

definition kChainWordCap :: nat where "kChainWordCap = 0x10000"

text \<open>
  The walk of \<open>chainWords\<close>: \<open>hops\<close> are left, \<open>words\<close> words were counted. The result is the word count, the
  end address and the refusal flag.
\<close>

fun chain_loop :: "'d io_ops \<Rightarrow> u32 \<Rightarrow> nat \<Rightarrow> u32 \<Rightarrow> nat \<Rightarrow> 'd core \<Rightarrow> ((nat \<times> u32 \<times> bool) \<times> 'd core) option" where
  "chain_loop io start 0 node words c = Some ((words, start, False), c)"
| "chain_loop io start (Suc hops) node words c =
     do { (header, c1) \<leftarrow> mem_r32 io c node;
          let count = drop_bit 24 header;
          let nxt = header AND 0x00FFFFFF;
          if unat count > kChainWordCap \<or> words + unat count > kChainWordCap then Some ((0, start, True), c1)
          else
            let words' = words + unat count;
                landed = (node + 4 + count * 4) AND 0x1FFFFC
            in if nxt = 0x00FFFFFF \<or> nxt AND 0x1FFFFC = node then Some ((words', landed, False), c1)
               else chain_loop io start hops (nxt AND 0x1FFFFC) words' c1 }"

definition chainWords :: "'d io_ops \<Rightarrow> u32 \<Rightarrow> 'd core \<Rightarrow> ((nat \<times> u32 \<times> bool) \<times> 'd core) option" where
  "chainWords io m c = (let node = m AND 0x1FFFFC in chain_loop io node kChainWordCap node 0 c)"

text \<open>The ordering-table clear: \<open>k\<close> of \<open>n\<close> entries are left.\<close>

fun otc_loop :: "'d io_ops \<Rightarrow> u32 \<Rightarrow> u32 \<Rightarrow> u32 \<Rightarrow> nat \<Rightarrow> 'd core \<Rightarrow> 'd core option" where
  "otc_loop io m n i 0 c = Some c"
| "otc_loop io m n i (Suc k) c =
     (let addr = m - i * 4;
          word = (if i = n - 1 then 0x00FFFFFF else (addr - 4) AND 0x00FFFFFF)
      in do { c1 \<leftarrow> mem_w32_unnotified io c addr word; otc_loop io m n (i + 1) k c1 })"

definition otc_clear :: "'d io_ops \<Rightarrow> DmaRegisters \<Rightarrow> u32 \<Rightarrow> 'd core \<Rightarrow> (bool \<times> DmaRegisters \<times> 'd core) option" where
  "otc_clear io d v c =
     (let d1 = d\<lparr>channel := (channel d)(Otc := (channel d Otc)\<lparr>chcr := v\<rparr>)\<rparr> in
      if v AND 0x01000000 = 0 then Some (False, d1, c)
      else
        let n0 = bcr (channel d1 Otc) AND 0xFFFF;
            n = (if n0 = 0 then 0x10000 else n0);
            m = madr (channel d1 Otc) AND 0x1FFFFC
        in do { c1 \<leftarrow> otc_loop io m n 0 (unat n) c;
                let c2 = notifyExecutableWrite c1 (m - (n - 1) * 4) (m + 4);
                let d2 = d1\<lparr>channel := (channel d1)(Otc := (channel d1 Otc)\<lparr>chcr :=
                      chcr (channel d1 Otc) AND NOT 0x01000000\<rparr>)\<rparr>;
                let (pw, d3) = dma_completed d2 Otc;
                Some (pw, d3, c2) })"

section \<open>Edges and spins\<close>

definition latchIrqEdge :: "u32 \<Rightarrow> nat \<Rightarrow> bool \<Rightarrow> u32 \<times> u32" where
  "latchIrqEdge level b asserted =
     (let m = push_bit b 1;
          level' = (if asserted then level OR m else level AND NOT m)
      in ((level XOR level') AND level', level'))"

record ActiveLowEdges =
  mPrevious :: u16
  mPressed :: u16
  mReleased :: u16

definition edges_reset :: "u16 \<Rightarrow> ActiveLowEdges" where
  "edges_reset current = \<lparr>mPrevious = current, mPressed = 0, mReleased = 0\<rparr>"

definition edges_sample :: "u16 \<Rightarrow> ActiveLowEdges \<Rightarrow> ActiveLowEdges" where
  "edges_sample current e =
     \<lparr>mPrevious = current, mPressed = mPrevious e AND NOT current, mReleased = current AND NOT (mPrevious e)\<rparr>"

record SpinDetectorState =
  window_ticks :: u64
  anchor :: u32
  spin_run :: int

record SpinSample =
  sample_pc :: u32
  hostStarved :: bool
  sample_ticks :: u32

record SpinLimits =
  windowTicks :: u64
  maxRun :: int

definition sampleSpinDetector :: "SpinDetectorState \<Rightarrow> SpinSample \<Rightarrow> SpinLimits \<Rightarrow> bool \<times> SpinDetectorState" where
  "sampleSpinDetector st s l =
     (if windowTicks l = 0 \<or> maxRun l \<le> 0 then (False, st)
      else
        let st1 = st\<lparr>window_ticks := window_ticks st + ucast (sample_ticks s)\<rparr>
        in if window_ticks st1 < windowTicks l then (False, st1)
        else
          let st2 = st1\<lparr>window_ticks := 0\<rparr>;
              region = NOT (0x7FFFF :: u32);
              same = (anchor st2 \<noteq> 0 \<and> sample_pc s AND region = anchor st2 AND region)
          in if \<not> hostStarved s then (False, st2\<lparr>anchor := sample_pc s, spin_run := 0\<rparr>)
          else if \<not> same then (1 \<ge> maxRun l, st2\<lparr>anchor := sample_pc s, spin_run := 1\<rparr>)
          else
            let r = min (spin_run st2 + 1) (maxRun l + 1)
            in (r \<ge> maxRun l, st2\<lparr>spin_run := r\<rparr>))"

section \<open>DICR bit by bit\<close>

text \<open>The first bit of a store's lane, and the bits the lane covers.\<close>

definition lane_shift :: "GuestStore \<Rightarrow> nat" where
  "lane_shift s = (if st_width s \<ge> 4 then 0 else 8 * (unat (st_address s) mod 4))"

definition in_lane :: "GuestStore \<Rightarrow> nat \<Rightarrow> bool" where
  "in_lane s k \<longleftrightarrow> k < 32 \<and> (st_width s \<ge> 4 \<or> lane_shift s \<le> k \<and> k < lane_shift s + 8 * unat (st_width s))"

lemma and_bit_neq_0: "x AND push_bit n 1 \<noteq> 0 \<longleftrightarrow> bit x n" for x :: "'a::len word"
  by (simp add: and_exp_eq_0_iff_not_bit)

lemma lane_shift_unat: "st_width s < 4 \<Longrightarrow> unat ((st_address s AND 3) * 8) = lane_shift s"
proof -
  assume "st_width s < 4"
  have "st_address s AND 3 = take_bit 2 (st_address s)" by (simp add: take_bit_eq_mask mask_eq_exp_minus_1)
  then have "unat (st_address s AND 3) = unat (st_address s) mod 4"
    by (simp only: unsigned_take_bit_eq) (simp add: take_bit_eq_mod)
  moreover from this have "unat ((st_address s AND 3) * 8) = unat (st_address s AND 3) * 8"
    by (simp add: unat_word_ariths)
  ultimately show ?thesis using \<open>st_width s < 4\<close> by (simp add: lane_shift_def)
qed

lemma bit_laneMask: "bit (laneMask s) k \<longleftrightarrow> in_lane s k"
proof (cases "st_width s \<ge> 4")
  case True
  have m: "(0xFFFFFFFF :: u32) = mask 32" by (simp add: mask_eq_exp_minus_1)
  have "laneMask s = mask 32" unfolding m [symmetric] using True by (simp add: laneMask_def)
  then show ?thesis using True by (simp add: in_lane_def bit_mask_iff)
next
  case False
  then have w: "unat (st_width s) < 4" by (simp add: word_le_nat_alt)
  then have w8: "unat (st_width s * 8) = 8 * unat (st_width s)" by (simp add: unat_word_ariths)
  have "push_bit n 1 - 1 = (mask n :: u32)" for n by (simp add: mask_eq_exp_minus_1)
  moreover have "\<not> st_width s * 8 \<ge> 32" using w w8 by (simp add: word_le_nat_alt)
  ultimately have "laneMask s = push_bit (lane_shift s) (mask (8 * unat (st_width s)))"
    using False lane_shift_unat [of s] w8 by (simp add: laneMask_def Let_def not_le)
  then show ?thesis using False w by (auto simp: bit_simps in_lane_def)
qed

lemma bit_laneValue: "k < 32 \<Longrightarrow> bit (laneValue s) k \<longleftrightarrow> lane_shift s \<le> k \<and> bit (st_value s) (k - lane_shift s)"
  using lane_shift_unat [of s]
  by (cases "st_width s \<ge> 4") (auto simp: laneValue_def bit_simps lane_shift_def not_le)

lemma bit_rw: "k < 32 \<Longrightarrow> bit kDicrRwMask k \<longleftrightarrow> k < 6 \<or> (15 \<le> k \<and> k < 24)"
proof -
  assume k: "k < 32"
  have m: "kDicrRwMask = mask 6 OR push_bit 15 (mask 9)"
    by (simp add: kDicrRwMask_def mask_eq_exp_minus_1)
  show ?thesis unfolding m using k by (auto simp: bit_simps)
qed

lemma bit_flag: "k < 32 \<Longrightarrow> bit kDicrFlagMask k \<longleftrightarrow> 24 \<le> k \<and> k < 31"
proof -
  assume k: "k < 32"
  have m: "kDicrFlagMask = push_bit 24 (mask 7)"
    by (simp add: kDicrFlagMask_def mask_eq_exp_minus_1)
  show ?thesis unfolding m using k by (auto simp: bit_simps)
qed

lemma bit_enable: "k < 32 \<Longrightarrow> bit kDicrEnableMask k \<longleftrightarrow> 16 \<le> k \<and> k < 23"
proof -
  assume k: "k < 32"
  have m: "kDicrEnableMask = push_bit 16 (mask 7)"
    by (simp add: kDicrEnableMask_def mask_eq_exp_minus_1)
  show ?thesis unfolding m using k by (auto simp: bit_simps)
qed

text \<open>A store to any byte lane of DICR changes exactly the bits of its lane: the control and enable bits
  take the stored value, a flag bit is cleared by a stored 1 and kept by a 0, and bit 31 and the bits
  outside the lane keep their value.\<close>

theorem dicr_store_bits:
  assumes "k < 32"
  shows "bit (storeDicr cur s) k \<longleftrightarrow>
    (if \<not> in_lane s k then bit cur k
     else if k < 6 \<or> (15 \<le> k \<and> k < 24) then bit (st_value s) (k - lane_shift s)
     else if 24 \<le> k \<and> k < 31 then bit cur k \<and> \<not> bit (st_value s) (k - lane_shift s)
     else bit cur k)"
proof -
  have "in_lane s k \<Longrightarrow> bit (laneValue s) k \<longleftrightarrow> bit (st_value s) (k - lane_shift s)"
    using bit_laneValue [OF assms] by (auto simp: in_lane_def lane_shift_def)
  then show ?thesis using assms bit_rw [OF assms] bit_flag [OF assms]
    by (auto simp: storeDicr_def Let_def bit_simps bit_laneMask)
qed

lemma channelIndex_lt: "channelIndex ch < 7"
  by (cases ch) simp_all

lemma channel_of_index: "i < 7 \<Longrightarrow> \<exists>ch. channelIndex ch = i"
proof -
  assume "i < 7"
  then consider "i = 0" | "i = 1" | "i = 2" | "i = 3" | "i = 4" | "i = 5" | "i = 6" by linarith
  then show ?thesis using channelIndex.simps by cases metis+
qed

lemma channelIndex_inject: "channelIndex a = channelIndex b \<longleftrightarrow> a = b"
  by (cases a; cases b) simp_all

lemma irqArmed_bits: "irqArmed d ch \<longleftrightarrow> bit d 23 \<and> bit d (16 + channelIndex ch)"
proof -
  have m: "kDicrMasterEnable = push_bit 23 1" by (simp add: kDicrMasterEnable_def)
  show ?thesis unfolding irqArmed_def m and_bit_neq_0 ..
qed

text \<open>DICR reads back with its stored bits 0 to 30, and bit 31 set exactly when the force bit is set or
  the master enable is set and some channel has both its enable and its flag bit set.\<close>

theorem dicr_read_master:
  "(\<forall>k. k < 31 \<longrightarrow> bit (readDicr d) k = bit d k) \<and>
   (bit (readDicr d) 31 \<longleftrightarrow>
      bit d 15 \<or> (bit d 23 \<and> (\<exists>ch. bit d (16 + channelIndex ch) \<and> bit d (24 + channelIndex ch))))"
proof -
  have m: "kDicrMasterFlag = push_bit 31 1" "kDicrForce = push_bit 15 1" "kDicrMasterEnable = push_bit 23 1"
    by (simp_all add: dicr_consts)
  have "d AND push_bit 8 (d AND kDicrEnableMask) \<noteq> 0 \<longleftrightarrow> (\<exists>i<7. bit d (16 + i) \<and> bit d (24 + i))"
  proof
    assume "d AND push_bit 8 (d AND kDicrEnableMask) \<noteq> 0"
    then obtain k where k: "k < 32" "bit d k" "8 \<le> k" "bit d (k - 8)" "bit kDicrEnableMask (k - 8)"
      by (auto simp: bit_eq_iff bit_simps dest: bit_imp_le_length)
    then have "16 \<le> k - 8" "k - 8 < 23" using bit_enable [of "k - 8"] by auto
    with k show "\<exists>i<7. bit d (16 + i) \<and> bit d (24 + i)" by (intro exI [of _ "k - 24"]) simp
  next
    assume "\<exists>i<7. bit d (16 + i) \<and> bit d (24 + i)"
    then obtain i where i: "i < 7" "bit d (16 + i)" "bit d (24 + i)" by blast
    then have "bit (d AND push_bit 8 (d AND kDicrEnableMask)) (24 + i)"
      using bit_enable [of "16 + i"] by (simp add: bit_simps)
    then show "d AND push_bit 8 (d AND kDicrEnableMask) \<noteq> 0" by (metis bit_0_eq bot_apply bot_bool_def)
  qed
  then have any: "d AND push_bit 8 (d AND kDicrEnableMask) \<noteq> 0 \<longleftrightarrow>
      (\<exists>ch. bit d (16 + channelIndex ch) \<and> bit d (24 + channelIndex ch))"
    using channelIndex_lt channel_of_index by metis
  have "bit (push_bit 31 1 :: u32) k \<longleftrightarrow> k = 31" for k
    unfolding push_bit_of_1 bit_exp_iff by auto
  then show ?thesis
    unfolding readDicr_def Let_def any and_bit_neq_0 m
    by (auto simp: bit_and_iff bit_or_iff bit_not_iff simp del: push_bit_of_1)
qed

section \<open>Completions\<close>

lemma bit_push_1: "bit (push_bit n 1 :: u32) k \<longleftrightarrow> k = n \<and> n < 32"
  unfolding push_bit_of_1 bit_exp_iff by auto

lemma owed_bit: "owed m ch \<longleftrightarrow> bit m (channelIndex ch)"
  by (simp add: owed_def and_bit_neq_0 del: push_bit_of_1)

lemma owed_taken: "owed (taken m ch) ch' \<longleftrightarrow> ch' \<noteq> ch \<and> owed m ch'"
  using channelIndex_lt [of ch] channelIndex_lt [of ch']
  by (auto simp: owed_bit taken_def bit_and_iff bit_not_iff bit_push_1 channelIndex_inject
      simp del: push_bit_of_1)

text \<open>A completion is owed to the guest exactly when it armed the channel in DICR: then the channel's
  callback is owed and its flag set until it is acknowledged, which withdraws that channel and no other; an
  unarmed completion changes nothing.\<close>

theorem completion_owed_until_acknowledged:
  assumes "dma_completed d ch = (o', d')"
  shows "(o' \<longleftrightarrow> irqArmed (dicr d) ch) \<and> (\<not> o' \<longrightarrow> d' = d) \<and>
    (o' \<longrightarrow> bit (dicr d') (24 + channelIndex ch) \<and>
       (\<forall>x. owed (done_mask d') x \<longleftrightarrow> x = ch \<or> owed (done_mask d) x) \<and>
       \<not> bit (dicr (acknowledge d' ch)) (24 + channelIndex ch) \<and>
       (\<forall>x. owed (done_mask (acknowledge d' ch)) x \<longleftrightarrow> x \<noteq> ch \<and> owed (done_mask d) x))"
proof (cases "irqArmed (dicr d) ch")
  case True
  have lt: "24 + channelIndex ch < 32" "channelIndex ch < 32" using channelIndex_lt [of ch] by simp_all
  have d': "o'" "d' = d\<lparr>done_mask := done_mask d OR push_bit (channelIndex ch) 1,
      dicr := dicr d OR push_bit (24 + channelIndex ch) 1\<rparr>"
    using assms True by (simp_all add: dma_completed_def done_complete_def completeDicr_def del: push_bit_of_1)
  have o: "owed (done_mask d') x \<longleftrightarrow> x = ch \<or> owed (done_mask d) x" for x
    using lt(2) by (auto simp: d'(2) owed_bit bit_or_iff bit_push_1 channelIndex_inject simp del: push_bit_of_1)
  then have "owed (done_mask (acknowledge d' ch)) x \<longleftrightarrow> x \<noteq> ch \<and> owed (done_mask d) x" for x
    by (auto simp: acknowledge_def owed_taken)
  moreover have "bit (dicr d') (24 + channelIndex ch)" "\<not> bit (dicr (acknowledge d' ch)) (24 + channelIndex ch)"
    using lt by (simp_all add: d'(2) acknowledge_def ackDicr_def bit_and_iff bit_or_iff bit_not_iff bit_push_1
        del: push_bit_of_1)
  ultimately show ?thesis using True d'(1) o by blast
qed (use assms in \<open>auto simp: dma_completed_def done_complete_def\<close>)

section \<open>Words of main RAM\<close>

text \<open>The word at a word-aligned RAM offset, as the DMA masks form it.\<close>

definition ram_word :: "'d core \<Rightarrow> u32 \<Rightarrow> u32" where
  "ram_word c a = word_of_bytes (copy_in c (RamAt a) 4)"

lemma dma_mask: "x AND 0x1FFFFC = (x AND 0x1FFFFF) AND NOT (mask 2)" for x :: u32
  by (simp add: mask_eq_exp_minus_1 and.assoc)

lemma unat_dma_mask: "unat (x AND 0x1FFFFC :: u32) + 4 \<le> 0x200000" "unat (x AND 0x1FFFFC :: u32) mod 4 = 0"
proof -
  let ?y = "x AND 0x1FFFFF"
  have y: "unat ?y < 0x200000" by (rule unat_and_mask_less)
  have u: "unat (x AND 0x1FFFFC) = unat ?y - unat ?y mod 4"
    unfolding dma_mask using unat_and_not_mask [of ?y 2] by simp
  show "unat (x AND 0x1FFFFC) mod 4 = 0" unfolding u by presburger
  with u y show "unat (x AND 0x1FFFFC) + 4 \<le> 0x200000" by presburger
qed

lemma ram_offset:
  assumes "unat a < 0x200000"
  shows "mainRamOffset a = Some a"
proof -
  have "a AND 0x1FFFFFFF = take_bit 29 a" "a AND 0x1FFFFF = take_bit 21 a"
    by (simp_all add: take_bit_eq_mask mask_eq_exp_minus_1)
  moreover have "take_bit 29 a = a" "take_bit 21 a = a"
    using assms by (simp_all only: word_unat_eq_iff unsigned_take_bit_eq) (simp_all add: take_bit_nat_eq_self)
  ultimately show ?thesis
    using assms by (simp add: mainRamOffset_def physical_def map_consts word_le_nat_alt)
qed

lemma ram_host_ptr:
  assumes "unat a + 4 \<le> 0x200000"
  shows "host_ptr a 4 = Some (RamAt a)"
proof -
  have "unat (a + 4) = unat a + 4" using assms by (subst unat_add_small) simp_all
  then show ?thesis
    using assms ram_offset [of a] by (simp add: host_ptr_offset map_consts word_le_nat_alt)
qed

lemma mem_r32_ram: "unat a + 4 \<le> 0x200000 \<Longrightarrow> mem_r32 io c a = Some (ram_word c a, c)"
  by (simp add: mem_r32_mapped ram_host_ptr ram_word_def)

lemma ram_word_stored_other:
  assumes "unat a + 4 \<le> 0x200000" and "unat b + 4 \<le> 0x200000" and "unat b + 4 \<le> unat a \<or> unat a + 4 \<le> unat b"
  shows "ram_word (stored nt c (RamAt a) x n (bytes_of 4 v)) b = ram_word c b" (is "ram_word ?c b = _")
proof -
  have ne: "RamAt (b + of_nat j) \<noteq> loc_add (RamAt a) i" if "i < 4" "j < 4" for i j
  proof -
    have "unat (b + of_nat j) = unat b + j" "unat (a + of_nat i) = unat a + i"
      using that assms(1,2) by (subst unat_add_small; simp)+
    then show ?thesis using assms(3) that by auto
  qed
  have "copy_in ?c (RamAt b) 4 = copy_in c (RamAt b) 4"
  proof (rule nth_equalityI)
    fix j assume "j < length (copy_in ?c (RamAt b) 4)"
    then have j: "j < 4" by simp
    then have "byte_at ?c (RamAt (b + of_nat j)) = byte_at c (RamAt (b + of_nat j))"
      unfolding byte_at_stored using ne by (intro byte_at_copy_out_other) auto
    then show "copy_in ?c (RamAt b) 4 ! j = copy_in c (RamAt b) 4 ! j" using j by simp
  qed simp
  then show ?thesis by (simp add: ram_word_def)
qed

lemma mem_w32_ram:
  assumes "unat a + 4 \<le> 0x200000" and "\<not> displayPassArmed c"
  shows "\<exists>c'. mem_w32_unnotified io c a v = Some c' \<and> \<not> displayPassArmed c' \<and> ram_word c' a = v \<and>
    (\<forall>b. unat b + 4 \<le> 0x200000 \<longrightarrow> unat b + 4 \<le> unat a \<or> unat a + 4 \<le> unat b \<longrightarrow> ram_word c' b = ram_word c b)"
proof -
  let ?c = "stored False c (RamAt a) a 4 (bytes_of 4 v)"
  have "mem_w32_unnotified io c a v = Some ?c"
    using writeGuestMemory_mapped [OF ram_host_ptr [OF assms(1)] assms(2)] by (simp add: mem_w32_unnotified_def)
  moreover have "ram_word ?c a = v" by (simp add: ram_word_def copy_in_stored)
  moreover have "ram_word ?c b = ram_word c b"
    if "unat b + 4 \<le> 0x200000" "unat b + 4 \<le> unat a \<or> unat a + 4 \<le> unat b" for b
    by (rule ram_word_stored_other [OF assms(1) that])
  ultimately show ?thesis using assms(2) by (auto simp: frame_simps)
qed

section \<open>Chains\<close>

text \<open>The chain of headers at \<open>node\<close>: its payload counts and the address one past its last payload word.\<close>

fun chain_of :: "'d core \<Rightarrow> u32 \<Rightarrow> nat list \<Rightarrow> u32 \<Rightarrow> bool" where
  "chain_of c node [] e \<longleftrightarrow> False"
| "chain_of c node (n # ns) e \<longleftrightarrow>
     unat (drop_bit 24 (ram_word c node)) = n \<and>
     (let nxt = ram_word c node AND 0x00FFFFFF in
      if ns = [] then nxt = 0x00FFFFFF \<and> e = (node + 4 + of_nat n * 4) AND 0x1FFFFC
      else nxt \<noteq> 0x00FFFFFF \<and> nxt AND 0x1FFFFC \<noteq> node \<and> chain_of c (nxt AND 0x1FFFFC) ns e)"

lemma chain_loop_total:
  "unat node + 4 \<le> 0x200000 \<Longrightarrow> words \<le> kChainWordCap \<Longrightarrow>
   \<exists>w e f. chain_loop io start hops node words c = Some ((w, e, f), c) \<and> w \<le> kChainWordCap \<and>
     (f \<longrightarrow> w = 0 \<and> e = start)"
proof (induction hops arbitrary: node words)
  case (Suc hops)
  let ?h = "ram_word c node"
  let ?n = "unat (drop_bit 24 ?h)"
  note rd = mem_r32_ram [OF Suc.prems(1), of io c]
  show ?case
  proof (cases "?n > kChainWordCap \<or> words + ?n > kChainWordCap")
    case True
    with rd show ?thesis by (auto simp: Let_def)
  next
    case False
    then have "words + ?n \<le> kChainWordCap" by simp
    from Suc.IH [OF unat_dma_mask(1) this] rd False this show ?thesis by (auto simp: Let_def)
  qed
qed auto

lemma chain_loop_chain:
  "chain_of c node ns e \<Longrightarrow> unat node + 4 \<le> 0x200000 \<Longrightarrow> length ns \<le> hops \<Longrightarrow>
   words + sum_list ns \<le> kChainWordCap \<Longrightarrow>
   chain_loop io start hops node words c = Some ((words + sum_list ns, e, False), c)"
proof (induction ns arbitrary: node words hops)
  case (Cons n ns)
  obtain h where h: "hops = Suc h" using Cons.prems(3) by (cases hops) auto
  let ?w = "ram_word c node"
  have n: "unat (drop_bit 24 ?w) = n" "drop_bit 24 ?w = of_nat n" using Cons.prems(1) by auto
  note rd = mem_r32_ram [OF Cons.prems(2), of io c]
  have fits: "\<not> (n > kChainWordCap \<or> words + n > kChainWordCap)" using Cons.prems(4) by simp
  show ?case
  proof (cases "ns = []")
    case True
    with Cons.prems(1) rd n fits h show ?thesis by (simp add: Let_def)
  next
    case False
    with Cons.prems(1) have nx: "?w AND 0x00FFFFFF \<noteq> 0x00FFFFFF"
      "(?w AND 0x00FFFFFF) AND 0x1FFFFC \<noteq> node" "chain_of c ((?w AND 0x00FFFFFF) AND 0x1FFFFC) ns e"
      by (simp_all add: Let_def)
    have "chain_loop io start h ((?w AND 0x00FFFFFF) AND 0x1FFFFC) (words + n) c =
        Some ((words + n + sum_list ns, e, False), c)"
      using Cons.prems(3,4) h by (intro Cons.IH [OF nx(3) unat_dma_mask(1)]) simp_all
    with rd n fits nx h show ?thesis by (simp add: Let_def and.assoc)
  qed
qed simp

text \<open>The chain walk always returns and reads only, counts at most \<open>0x10000\<close> words, and a refusal reports no words
  and the start address; for a well-formed chain within the ceiling it returns the sum of the payload
  counts and the address one past the last payload word.\<close>

theorem chain_walk_counts:
  "(\<exists>w e f. chainWords io m c = Some ((w, e, f), c) \<and> w \<le> kChainWordCap \<and>
      (f \<longrightarrow> w = 0 \<and> e = m AND 0x1FFFFC)) \<and>
   (chain_of c (m AND 0x1FFFFC) ns e \<and> length ns \<le> kChainWordCap \<and> sum_list ns \<le> kChainWordCap \<longrightarrow>
      chainWords io m c = Some ((sum_list ns, e, False), c))"
  using chain_loop_total [OF unat_dma_mask(1) [of m] le0, of io "m AND 0x1FFFFC" kChainWordCap c]
    chain_loop_chain [OF _ unat_dma_mask(1) [of m], of c ns e kChainWordCap 0 io "m AND 0x1FFFFC"]
  by (simp add: chainWords_def Let_def)

text \<open>Two empty nodes that link to each other.\<close>

definition cyclic_core :: "unit core" where
  "cyclic_core = blank_core\<lparr>ram := (\<lambda>i. if i = 0 then 4 else 0)\<rparr>"

lemma cyclic_headers: "ram_word cyclic_core 0 = 4" "ram_word cyclic_core 4 = 0"
  by (simp_all add: ram_word_def cyclic_core_def copy_in_def upt_rec)

text \<open>A chain that never ends is not refused: on two empty nodes linked to each other the walk runs out its hops
  and reports a complete transfer of no words that ends where it started.\<close>

theorem chain_cycle_not_refused:
  "chainWords io 0 cyclic_core = Some ((0, 0, False), cyclic_core)"
proof -
  have rd: "mem_r32 io cyclic_core 0 = Some (4, cyclic_core)" "mem_r32 io cyclic_core 4 = Some (0, cyclic_core)"
    by (simp_all add: mem_r32_ram cyclic_headers)
  have "node = 0 \<or> node = 4 \<Longrightarrow> chain_loop io 0 hops node 0 cyclic_core = Some ((0, 0, False), cyclic_core)"
    for hops node
  proof (induction hops arbitrary: node)
    case (Suc hops)
    then consider "node = 0" | "node = 4" by blast
    then show ?case by cases (use Suc.IH [of 0] Suc.IH [of 4] rd in \<open>simp_all add: Let_def\<close>)
  qed simp
  then show ?thesis by (simp add: chainWords_def)
qed

section \<open>The ordering-table clear\<close>

definition otc_entry :: "u32 \<Rightarrow> nat \<Rightarrow> nat \<Rightarrow> u32" where
  "otc_entry m n j = (if j = n - 1 then 0x00FFFFFF else (m - of_nat j * 4 - 4) AND 0x00FFFFFF)"

lemma unat_entry:
  assumes "4 * j \<le> unat (m :: u32)"
  shows "unat (m - of_nat j * 4) = unat m - 4 * j"
proof -
  have "4 * j < 2 ^ 32" using assms unat_less [of m] by simp
  then have "unat (of_nat (4 * j) :: u32) = 4 * j" by (intro unat_of_nat_small) simp
  moreover have "of_nat (4 * j) = (of_nat j * 4 :: u32)" by simp
  ultimately have u: "unat (of_nat j * 4 :: u32) = 4 * j" by metis
  then have "of_nat j * 4 \<le> m" using assms by (simp only: word_le_nat_alt)
  then show ?thesis using u by (simp add: unat_sub)
qed

lemma otc_loop_writes:
  "i + k = n \<Longrightarrow> n < 2 ^ 32 \<Longrightarrow> 4 * n \<le> unat m + 4 \<Longrightarrow> unat m + 4 \<le> 0x200000 \<Longrightarrow> \<not> displayPassArmed c \<Longrightarrow>
   \<exists>c'. otc_loop io m (of_nat n) (of_nat i) k c = Some c' \<and> \<not> displayPassArmed c' \<and>
     (\<forall>j. i \<le> j \<longrightarrow> j < n \<longrightarrow> ram_word c' (m - of_nat j * 4) = otc_entry m n j) \<and>
     (\<forall>b. unat b + 4 \<le> 0x200000 \<longrightarrow> (\<forall>j. i \<le> j \<longrightarrow> j < n \<longrightarrow>
        unat b + 4 \<le> unat m - 4 * j \<or> unat m - 4 * j + 4 \<le> unat b) \<longrightarrow> ram_word c' b = ram_word c b)"
proof (induction k arbitrary: i c)
  case (Suc k)
  have i: "i < n" "4 * i \<le> unat m" using Suc.prems(1,3) by simp_all
  let ?a = "m - of_nat i * 4 :: u32"
  have ua: "unat (m - of_nat j * 4) = unat m - 4 * j" if "j < n" for j
    using that Suc.prems(3) by (intro unat_entry) simp
  have fit: "unat ?a + 4 \<le> 0x200000" using ua [OF i(1)] Suc.prems(4) by simp
  have last: "(of_nat i = (of_nat n - 1 :: u32)) \<longleftrightarrow> i = n - 1"
  proof -
    have "of_nat n - 1 = (of_nat (n - 1) :: u32)" using i(1) by (simp add: of_nat_diff)
    then show ?thesis using of_nat_inj_small [where 'a = 32, of i "n - 1"] i(1) Suc.prems(2) by auto
  qed
  obtain c1 where c1: "mem_w32_unnotified io c ?a (otc_entry m n i) = Some c1" "\<not> displayPassArmed c1"
    "ram_word c1 ?a = otc_entry m n i" "\<forall>b. unat b + 4 \<le> 0x200000 \<longrightarrow>
      unat b + 4 \<le> unat ?a \<or> unat ?a + 4 \<le> unat b \<longrightarrow> ram_word c1 b = ram_word c b"
    using mem_w32_ram [OF fit Suc.prems(5)] by blast
  have "Suc i + k = n" using Suc.prems(1) by simp
  from Suc.IH [OF this Suc.prems(2-4) c1(2)]
  obtain c' where c': "otc_loop io m (of_nat n) (of_nat (Suc i)) k c1 = Some c'" "\<not> displayPassArmed c'"
    "\<forall>j. Suc i \<le> j \<longrightarrow> j < n \<longrightarrow> ram_word c' (m - of_nat j * 4) = otc_entry m n j"
    "\<forall>b. unat b + 4 \<le> 0x200000 \<longrightarrow> (\<forall>j. Suc i \<le> j \<longrightarrow> j < n \<longrightarrow>
        unat b + 4 \<le> unat m - 4 * j \<or> unat m - 4 * j + 4 \<le> unat b) \<longrightarrow> ram_word c' b = ram_word c1 b"
    by blast
  have step: "otc_loop io m (of_nat n) (of_nat i) (Suc k) c = Some c'"
    using c1(1) c'(1) last by (simp add: Let_def otc_entry_def add.commute)
  have "unat ?a + 4 \<le> unat m - 4 * j \<or> unat m - 4 * j + 4 \<le> unat ?a" if "Suc i \<le> j" "j < n" for j
    using that ua [OF i(1)] Suc.prems(3) by linarith
  then have "ram_word c' ?a = otc_entry m n i" using c'(4) fit c1(3) by metis
  then have "ram_word c' (m - of_nat j * 4) = otc_entry m n j" if "i \<le> j" "j < n" for j
    using that c'(3) by (cases "j = i") auto
  moreover have "ram_word c' b = ram_word c b" if "unat b + 4 \<le> 0x200000" "\<forall>j. i \<le> j \<longrightarrow> j < n \<longrightarrow>
        unat b + 4 \<le> unat m - 4 * j \<or> unat m - 4 * j + 4 \<le> unat b" for b
    using that c'(4) c1(4) ua [OF i(1)] i(1) by (metis Suc_leD order_refl)
  ultimately show ?case using step c'(2) by blast
qed auto

text \<open>Starting DMA6 on a table that lies in main RAM builds the reversed ordering table: each of the \<open>n\<close> words
  below MADR links to the word before it, the last one is the end marker, every other word of RAM keeps its
  value, and the channel is no longer busy.\<close>

theorem otc_builds_list:
  assumes "m = madr (channel d Otc) AND 0x1FFFFC" and "n = unat (bcr (channel d Otc) AND 0xFFFF)" and "0 < n"
    and "4 * n \<le> unat m + 4" and "\<not> displayPassArmed c" and "v AND 0x01000000 \<noteq> 0"
  shows "\<exists>pw d' c'. otc_clear io d v c = Some (pw, d', c') \<and>
    (\<forall>j. j < n \<longrightarrow> ram_word c' (m - of_nat j * 4) =
       (if j = n - 1 then 0x00FFFFFF else (m - of_nat j * 4 - 4) AND 0x00FFFFFF)) \<and>
    (\<forall>b. unat b + 4 \<le> 0x200000 \<longrightarrow> unat b + 4 \<le> unat m - 4 * (n - 1) \<or> unat m + 4 \<le> unat b \<longrightarrow>
       ram_word c' b = ram_word c b) \<and>
    chcr (channel d' Otc) AND 0x01000000 = 0"
proof -
  let ?n = "bcr (channel d Otc) AND 0xFFFF"
  have n: "?n \<noteq> 0" "of_nat n = ?n" using assms(2,3) by auto
  have n32: "n < 2 ^ 32" using assms(2) unat_less [of ?n] by simp
  have m: "unat m + 4 \<le> 0x200000" unfolding assms(1) by (rule unat_dma_mask)
  obtain c1 where c1: "otc_loop io m ?n 0 n c = Some c1"
    "\<forall>j. j < n \<longrightarrow> ram_word c1 (m - of_nat j * 4) = otc_entry m n j"
    "\<forall>b. unat b + 4 \<le> 0x200000 \<longrightarrow> (\<forall>j. j < n \<longrightarrow>
       unat b + 4 \<le> unat m - 4 * j \<or> unat m - 4 * j + 4 \<le> unat b) \<longrightarrow> ram_word c1 b = ram_word c b"
    using otc_loop_writes [OF add_0 n32 assms(4) m assms(5), of io] unfolding n(2) by auto
  have word: "ram_word (notifyExecutableWrite c1 x y) b = ram_word c1 b" for x y b
    by (simp add: ram_word_def notifyExecutableWrite_def copy_in_def)
  let ?d = "d\<lparr>channel := (channel d)(Otc := (channel d Otc)\<lparr>chcr := v AND NOT 0x01000000\<rparr>)\<rparr>"
  let ?c = "notifyExecutableWrite c1 (m - (?n - 1) * 4) (m + 4)"
  have run: "otc_clear io d v c = Some (fst (dma_completed ?d Otc), snd (dma_completed ?d Otc), ?c)"
    using c1(1) assms(6) n(1) by (simp add: otc_clear_def Let_def split_def assms(1,2))
  have "chcr (channel (snd (dma_completed e ch)) x) = chcr (channel e x)" for e ch x
    by (simp add: dma_completed_def split: prod.split)
  then have "chcr (channel (snd (dma_completed ?d Otc)) Otc) AND 0x01000000 = 0"
    by (simp add: and.assoc)
  moreover have "ram_word ?c (m - of_nat j * 4) =
      (if j = n - 1 then 0x00FFFFFF else (m - of_nat j * 4 - 4) AND 0x00FFFFFF)" if "j < n" for j
    using c1(2) that word by (simp add: otc_entry_def)
  moreover have "ram_word ?c b = ram_word c b" if "unat b + 4 \<le> 0x200000"
    "unat b + 4 \<le> unat m - 4 * (n - 1) \<or> unat m + 4 \<le> unat b" for b
  proof -
    have "unat b + 4 \<le> unat m - 4 * j \<or> unat m - 4 * j + 4 \<le> unat b" if "j < n" for j
      using \<open>unat b + 4 \<le> unat m - 4 * (n - 1) \<or> unat m + 4 \<le> unat b\<close> that by auto
    then show ?thesis using c1(3) that(1) word by simp
  qed
  ultimately show ?thesis using run by blast
qed

section \<open>Instances\<close>

definition idle_dma :: DmaRegisters where
  "idle_dma = \<lparr>channel = (\<lambda>_. \<lparr>madr = 0x100, bcr = 2, chcr = 0\<rparr>), mdec0Addr = 0, mdec0Left = 0, mdec1Addr = 0,
     mdec1Left = 0, spuXferAddr = 0, dpcr = kDpcrReset, dicr = 0x00880000, done_mask = 0\<rparr>"

lemma dicr_store_bits_witness:
  "bit (storeDicr 0 \<lparr>st_address = 0x1F8010F6, st_value = 0x88, st_width = 1\<rparr>) 23"
proof -
  let ?s = "\<lparr>st_address = 0x1F8010F6, st_value = 0x88, st_width = 1\<rparr> :: GuestStore"
  have "lane_shift ?s = 16" "in_lane ?s 23" by (simp_all add: lane_shift_def in_lane_def word_le_nat_alt)
  then show ?thesis using dicr_store_bits [of 23 0 ?s] by simp
qed

lemma dicr_read_master_witness: "bit (readDicr 0x8000) 15 \<and> bit (readDicr 0x8000) 31"
  using dicr_read_master [of "0x8000"] by simp

lemma completion_owed_until_acknowledged_witness:
  "owed (done_mask (snd (dma_completed idle_dma Cdrom))) Cdrom \<and>
   \<not> owed (done_mask (acknowledge (snd (dma_completed idle_dma Cdrom)) Cdrom)) Cdrom"
proof -
  have "irqArmed (dicr idle_dma) Cdrom" by (simp add: irqArmed_def idle_dma_def kDicrMasterEnable_def)
  then show ?thesis
    using completion_owed_until_acknowledged [of idle_dma Cdrom, OF surjective_pairing] by simp
qed

definition one_node_core :: "unit core" where
  "one_node_core = blank_core\<lparr>ram := (\<lambda>i. if i < 3 then 0xFF else if i = 3 then 2 else 0)\<rparr>"

lemma chain_walk_counts_witness:
  "chainWords no_devices 0 one_node_core = Some ((2, 12, False), one_node_core)"
proof -
  have "ram_word one_node_core 0 = 0x02FFFFFF"
    by (simp add: ram_word_def one_node_core_def copy_in_def upt_rec word_less_nat_alt)
  then have "chain_of one_node_core (0 AND 0x1FFFFC) [2] 12" by simp
  then show ?thesis
    using chain_walk_counts [of no_devices 0 one_node_core "[2]" 12] by (simp add: kChainWordCap_def)
qed

lemma otc_builds_list_witness:
  "\<exists>pw d' c'. otc_clear no_devices idle_dma 0x11000002 blank_core = Some (pw, d', c') \<and>
     ram_word c' 0x100 = 0xFC \<and> ram_word c' 0xFC = 0x00FFFFFF"
proof -
  have "0x100 = madr (channel idle_dma Otc) AND 0x1FFFFC" "2 = unat (bcr (channel idle_dma Otc) AND 0xFFFF)"
    "\<not> displayPassArmed blank_core" by (simp_all add: idle_dma_def blank_core_def)
  from otc_builds_list [OF this(1,2) _ _ this(3), of "0x11000002" no_devices]
  have "\<exists>pw d' c'. otc_clear no_devices idle_dma 0x11000002 blank_core = Some (pw, d', c') \<and>
    (\<forall>j. j < 2 \<longrightarrow> ram_word c' (0x100 - of_nat j * 4) =
       (if j = 2 - 1 then 0x00FFFFFF else (0x100 - of_nat j * 4 - 4) AND 0x00FFFFFF))"
    by fastforce
  then obtain pw d' c' where c': "otc_clear no_devices idle_dma 0x11000002 blank_core = Some (pw, d', c')"
    "\<forall>j. j < 2 \<longrightarrow> ram_word c' (0x100 - of_nat j * 4) =
       (if j = 2 - 1 then 0x00FFFFFF else (0x100 - of_nat j * 4 - 4) AND 0x00FFFFFF)" by blast
  from c'(2) [rule_format, of 0] c'(2) [rule_format, of 1] have "ram_word c' 0x100 = 0xFC"
    "ram_word c' 0xFC = 0x00FFFFFF" by simp_all
  with c'(1) show ?thesis by blast
qed

end
