(* ===== verification/Hle_Kernel.thy ===== *)
theory Hle_Kernel
  imports Bios_Libc Hle_Heap Dma_Controller
begin

text \<open>
  The BIOS kernel of one machine: event control blocks, the SysEnqIntRP chain and interrupt
  delivery (\<open>hle/hle.cpp\<close>, \<open>hle/hle_interrupt.cpp\<close>, \<open>hle/bios_interrupt.cpp\<close>), the syscall exception
  (\<open>hle/kernel_syscall.cpp\<close>, \<open>hle/syscall_exception.cpp\<close>), the pad services
  (\<open>hle/bios_pad_work_area.cpp\<close>) and the A0/B0/C0 dispatch. Guest code the kernel calls is the argument
  \<open>run_guest\<close>: it takes the machine and an entry and gives back whether the call returned and the
  machine after it. The memory card, the executable loader, the host log and the title's own CD
  handler are arguments too.
\<close>

section \<open>Machine state\<close>

record R3000 =
  gpr :: "nat \<Rightarrow> u32"
  hi :: u32
  lo :: u32
  pc :: u32

definition kV0 :: nat where "kV0 = 2"
definition kA0 :: nat where "kA0 = 4"
definition kA1 :: nat where "kA1 = 5"
definition kA2 :: nat where "kA2 = 6"
definition kA3 :: nat where "kA3 = 7"
definition kS0 :: nat where "kS0 = 16"
definition kGp :: nat where "kGp = 28"
definition kSp :: nat where "kSp = 29"
definition kFp :: nat where "kFp = 30"
definition kRa :: nat where "kRa = 31"

lemmas gpr_numbers = kV0_def kA0_def kA1_def kA2_def kA3_def kS0_def kGp_def kSp_def kFp_def kRa_def

definition kCop0Status :: nat where "kCop0Status = 12"
definition kCop0Cause :: nat where "kCop0Cause = 13"
definition kCop0Epc :: nat where "kCop0Epc = 14"

definition EV_MD_INTR :: u32 where "EV_MD_INTR = 0x1000"
definition EV_MD_NOINTR :: u32 where "EV_MD_NOINTR = 0x2000"
definition EV_ID_BASE :: u32 where "EV_ID_BASE = 0xF1000000"
definition kEventSlots :: nat where "kEventSlots = 16"
definition IRQ_CHAIN_MAX :: nat where "IRQ_CHAIN_MAX = 8"
definition kB0Table :: u32 where "kB0Table = 0x8000F000"
definition kWorkBase :: u32 where "kWorkBase = 0x8000E000"
definition kExceptionStackTop :: u32 where "kExceptionStackTop = kWorkBase"
definition kInterruptReturnSentinel :: u32 where "kInterruptReturnSentinel = 0xDEAD0000"
definition HLE_C0TABLE :: u32 where "HLE_C0TABLE = 0x8000F800"
definition kBiosThreadHandle :: u32 where "kBiosThreadHandle = 0xFF000000"
definition IRQ_BIT_CD :: nat where "IRQ_BIT_CD = 2"
definition IRQ_BIT_DMA :: nat where "IRQ_BIT_DMA = 3"

record HleEvCB =
  ev_open :: bool
  ev_enabled :: bool
  ev_fired :: bool
  ev_class :: u32
  ev_spec :: u32
  ev_mode :: u32
  ev_func :: u32

record hle_state =
  ev :: "HleEvCB list"
  ev_depth :: nat
  heap :: hle_heap
  rand_state :: u32
  work_ok :: bool
  bios_pad_initialized :: bool
  bios_pad_irq_started :: bool
  exception_exit_buf :: u32
  irq_enabled :: bool
  i_stat :: u32
  i_mask :: u32
  irq_chain :: "(u32 \<times> u32) list"
  in_irq :: bool
  custom_exit_active :: bool
  dcb_n :: nat

record 'd machine =
  mem :: "'d core"
  cpu :: R3000
  cop0 :: "nat \<Rightarrow> u32"
  hle :: hle_state
  dmar :: DmaRegisters
  dma_callbacks :: "DmaChannel \<Rightarrow> u32"
  pw_irq :: bool
  active_native_address :: u32
  pending_guest_redirect :: u32
  exit_requested :: bool

text \<open>
  What the kernel calls outside itself; \<open>None\<close> is a call that does not return to it. \<open>guest_table\<close> is the
  address of a title's own DMACallback table, \<open>cd_path\<close> whether its CD library takes interrupts.
  \<open>run_exit\<close> answers whether the custom exit unwound through \<open>ReturnFromException\<close>.
\<close>

record 'd kernel_env =
  env_io :: "'d io_ops"
  run_guest :: "'d machine \<Rightarrow> u32 \<Rightarrow> (bool \<times> 'd machine) option"
  run_exit :: "'d machine \<Rightarrow> u32 \<Rightarrow> (bool \<times> 'd machine) option"
  latch :: "'d machine \<Rightarrow> 'd machine"
  guest_table :: "u32 option"
  cd_path :: bool
  cd_deliver :: "'d machine \<Rightarrow> (bool \<times> 'd machine) option"
  memcard_A0 :: "u32 \<Rightarrow> 'd machine \<Rightarrow> (bool \<times> 'd machine) option"
  memcard_B0 :: "u32 \<Rightarrow> 'd machine \<Rightarrow> (bool \<times> 'd machine) option"
  load_exec :: "'d machine \<Rightarrow> (bool \<times> 'd machine) option"
  guest_printf :: "'d machine \<Rightarrow> 'd machine option"

definition reg :: "'d machine \<Rightarrow> nat \<Rightarrow> u32" where
  "reg m n = gpr (cpu m) n"

definition set_reg :: "nat \<Rightarrow> u32 \<Rightarrow> 'd machine \<Rightarrow> 'd machine" where
  "set_reg n v m = m\<lparr>cpu := (cpu m)\<lparr>gpr := (gpr (cpu m))(n := v)\<rparr>\<rparr>"

definition set_hle :: "(hle_state \<Rightarrow> hle_state) \<Rightarrow> 'd machine \<Rightarrow> 'd machine" where
  "set_hle f m = m\<lparr>hle := f (hle m)\<rparr>"

definition m_r8 :: "'d io_ops \<Rightarrow> 'd machine \<Rightarrow> u32 \<Rightarrow> (u8 \<times> 'd machine) option" where
  "m_r8 io m a = map_option (\<lambda>(v, c). (v, m\<lparr>mem := c\<rparr>)) (mem_r8 io (mem m) a)"

definition m_r32 :: "'d io_ops \<Rightarrow> 'd machine \<Rightarrow> u32 \<Rightarrow> (u32 \<times> 'd machine) option" where
  "m_r32 io m a = map_option (\<lambda>(v, c). (v, m\<lparr>mem := c\<rparr>)) (mem_r32 io (mem m) a)"

definition m_w8 :: "'d io_ops \<Rightarrow> 'd machine \<Rightarrow> u32 \<Rightarrow> u8 \<Rightarrow> 'd machine option" where
  "m_w8 io m a v = map_option (\<lambda>c. m\<lparr>mem := c\<rparr>) (mem_w8 io (mem m) a v)"

definition m_w32 :: "'d io_ops \<Rightarrow> 'd machine \<Rightarrow> u32 \<Rightarrow> u32 \<Rightarrow> 'd machine option" where
  "m_w32 io m a v = map_option (\<lambda>c. m\<lparr>mem := c\<rparr>) (mem_w32 io (mem m) a v)"

section \<open>The interrupt chain\<close>

text \<open>The chain's two arrays, as far as \<open>irq_n\<close>, are one list of priorities and elements.\<close>

fun chain_deq :: "u32 \<Rightarrow> (u32 \<times> u32) list \<Rightarrow> (u32 \<times> u32) list" where
  "chain_deq elem [] = []"
| "chain_deq elem (x # xs) = (if snd x \<noteq> elem then x # chain_deq elem xs else xs)"

definition irqDeq :: "u32 \<Rightarrow> hle_state \<Rightarrow> hle_state" where
  "irqDeq elem h = h\<lparr>irq_chain := chain_deq elem (irq_chain h)\<rparr>"

text \<open>The shifting loop of \<open>irqEnq\<close>, from the end of the chain.\<close>

definition chain_place :: "u32 \<Rightarrow> u32 \<Rightarrow> (u32 \<times> u32) list \<Rightarrow> (u32 \<times> u32) list" where
  "chain_place prio elem xs =
     (let later = takeWhile (\<lambda>x. fst x > prio) (rev xs)
      in take (length xs - length later) xs @ [(prio, elem)] @ rev later)"

definition irqEnq :: "u32 \<Rightarrow> u32 \<Rightarrow> hle_state \<Rightarrow> hle_state" where
  "irqEnq prio elem h =
     (if elem = 0 then h
      else
        let h1 = irqDeq elem h
        in if length (irq_chain h1) \<ge> IRQ_CHAIN_MAX then h1
           else h1\<lparr>irq_chain := chain_place prio elem (irq_chain h1)\<rparr>)"

section \<open>Interrupt delivery\<close>

definition enterExceptionStack :: "'d machine \<Rightarrow> 'd machine" where
  "enterExceptionStack m = set_reg kRa kInterruptReturnSentinel (set_reg kSp kExceptionStackTop m)"

text \<open>\<open>InterruptScope\<close>: the constructor, and the destructor with the saved register file.\<close>

definition scope_enter :: "'d machine \<Rightarrow> 'd machine" where
  "scope_enter m =
     (let m1 = set_hle (\<lambda>h. h\<lparr>in_irq := True\<rparr>) m
      in if in_irq (hle m) then m1 else enterExceptionStack m1)"

definition scope_leave :: "'d machine \<Rightarrow> 'd machine \<Rightarrow> 'd machine" where
  "scope_leave outer m = (set_hle (\<lambda>h. h\<lparr>in_irq := in_irq (hle outer)\<rparr>) m)\<lparr>cpu := cpu outer\<rparr>"

definition runAsInterrupt :: "'d kernel_env \<Rightarrow> 'd machine \<Rightarrow> u32 \<Rightarrow> (bool \<times> 'd machine) option" where
  "runAsInterrupt g m entry =
     do { (ok, m1) \<leftarrow> run_guest g (scope_enter m) entry; Some (ok, scope_leave m m1) }"

definition completeOrPropagate :: "bool \<Rightarrow> 'd machine \<Rightarrow> bool \<times> 'd machine" where
  "completeOrPropagate returned m = (returned, if returned then m else m\<lparr>exit_requested := True\<rparr>)"

definition irqPendingEnabled :: "'d kernel_env \<Rightarrow> 'd machine \<Rightarrow> u32 \<times> 'd machine" where
  "irqPendingEnabled g m = (let m1 = latch g m in (i_stat (hle m1) AND i_mask (hle m1), m1))"

definition canDispatchInterrupt :: "'d machine \<Rightarrow> bool" where
  "canDispatchInterrupt m \<longleftrightarrow>
     irq_enabled (hle m) \<and> \<not> in_irq (hle m) \<and> active_native_address m = 0 \<and> pending_guest_redirect m = 0"

definition irqDeliverable :: "'d kernel_env \<Rightarrow> bool \<Rightarrow> 'd machine \<Rightarrow> bool \<times> 'd machine" where
  "irqDeliverable g cdDeliveryPath m =
     (let (pending, m1) = irqPendingEnabled g m
      in (pending \<noteq> 0 \<and> (irq_chain (hle m1) \<noteq> [] \<or> exception_exit_buf (hle m1) \<noteq> 0 \<or> cdDeliveryPath), m1))"

definition disarmIrqGateIfIdle :: "'d kernel_env \<Rightarrow> bool \<Rightarrow> 'd machine \<Rightarrow> 'd machine" where
  "disarmIrqGateIfIdle g cdDeliveryPath m =
     (if done_any (done_mask (dmar m)) then m
      else let (d, m1) = irqDeliverable g cdDeliveryPath m in if d then m1 else m1\<lparr>pw_irq := False\<rparr>)"

text \<open>The callback of a completed channel, from the title's table or from the registry.\<close>

definition dma_callback :: "'d kernel_env \<Rightarrow> DmaChannel \<Rightarrow> 'd machine \<Rightarrow> (u32 \<times> 'd machine) option" where
  "dma_callback g ch m =
     (case guest_table g of
        Some table \<Rightarrow>
          let slot = callbackSlot table ch in if slot \<noteq> 0 then m_r32 (env_io g) m slot else Some (0, m)
      | None \<Rightarrow> Some (dma_callbacks m ch, m))"

definition handlerRuns :: "'d machine \<Rightarrow> bool" where
  "handlerRuns m \<longleftrightarrow> i_mask (hle m) AND push_bit IRQ_BIT_DMA 1 \<noteq> 0"

definition all_channels :: "DmaChannel list" where
  "all_channels = [MdecIn, MdecOut, Gpu, Cdrom, Spu, Pio, Otc]"

text \<open>The callback loop of \<open>irqPoll\<close>; false when a guest exit was propagated.\<close>

fun poll_dma :: "'d kernel_env \<Rightarrow> DmaChannel list \<Rightarrow> 'd machine \<Rightarrow> (bool \<times> 'd machine) option" where
  "poll_dma g [] m = Some (True, m)"
| "poll_dma g (ch # chs) m =
     (if \<not> owed (done_mask (dmar m)) ch then poll_dma g chs m
      else do {
        (cb, m1) \<leftarrow> dma_callback g ch m;
        if in_irq (hle m1) then poll_dma g chs m1
        else if guest_table g \<noteq> None \<and> \<not> handlerRuns m1 then poll_dma g chs m1
        else
          let m2 = m1\<lparr>dmar := acknowledge ((dmar m1)\<lparr>done_mask := taken (done_mask (dmar m1)) ch\<rparr>) ch\<rparr>
          in if cb = 0 then poll_dma g chs m2
             else do {
               (ok, m3) \<leftarrow> runAsInterrupt g m2 cb;
               let (ok', m4) = completeOrPropagate ok m3;
               if ok' then poll_dma g chs m4 else Some (False, m4) } })"

text \<open>
  The chain walk, inside one scope: \<open>i\<close> counts the elements tried, and the chain is read again at every
  step; its arrays have \<open>IRQ_CHAIN_MAX\<close> slots, so \<open>i\<close> never passes that. The outcome is a claim, no claim, or a propagated exit.
\<close>

datatype walk = Claimed | Unclaimed | Exited

function chain_walk :: "'d kernel_env \<Rightarrow> nat \<Rightarrow> 'd machine \<Rightarrow> (walk \<times> 'd machine) option" where
  "chain_walk g i m =
     (if i \<ge> IRQ_CHAIN_MAX \<or> i \<ge> length (irq_chain (hle m)) then Some (Unclaimed, m)
      else do {
        let elem = snd (irq_chain (hle m) ! i);
        (handler, m1) \<leftarrow> m_r32 (env_io g) m (elem + 4);
        (verifier, m2) \<leftarrow> m_r32 (env_io g) m1 (elem + 8);
        (ok, m3) \<leftarrow> (if verifier \<noteq> 0 then
             do { (r, m') \<leftarrow> run_guest g m2 verifier; Some (completeOrPropagate r m') }
           else Some (True, m2));
        if \<not> ok then Some (Exited, m3)
        else if verifier \<noteq> 0 \<and> reg m3 kV0 = 0 then chain_walk g (i + 1) m3
        else if handler = 0 then chain_walk g (i + 1) m3
        else do {
          (r, m4) \<leftarrow> run_guest g (set_reg kA0 (reg m3 kV0) m3) handler;
          let (ok2, m5) = completeOrPropagate r m4;
          Some (if ok2 then Claimed else Exited, m5) } })"
  by pat_completeness auto
termination by (relation "measure (\<lambda>(_, i, _). IRQ_CHAIN_MAX - i)") auto

declare chain_walk.simps [simp del]

text \<open>The jump buffer of the custom exit.\<close>

fun write_saved :: "'d io_ops \<Rightarrow> u32 \<Rightarrow> nat \<Rightarrow> nat list \<Rightarrow> 'd machine \<Rightarrow> 'd machine option" where
  "write_saved io buffer off [] m = Some m"
| "write_saved io buffer off (n # ns) m =
     do { m1 \<leftarrow> m_w32 io m (buffer + of_nat off) (reg m n); write_saved io buffer (off + 4) ns m1 }"

fun read_saved :: "'d io_ops \<Rightarrow> u32 \<Rightarrow> nat \<Rightarrow> nat list \<Rightarrow> 'd machine \<Rightarrow> 'd machine option" where
  "read_saved io buffer off [] m = Some m"
| "read_saved io buffer off (n # ns) m =
     do { (v, m1) \<leftarrow> m_r32 io m (buffer + of_nat off); read_saved io buffer (off + 4) ns (set_reg n v m1) }"

definition saved_regs :: "nat list" where
  "saved_regs = [kSp, kFp] @ map (\<lambda>i. kS0 + i) [0..<8] @ [kGp]"

definition saveJmpBuf :: "'d io_ops \<Rightarrow> u32 \<Rightarrow> 'd machine \<Rightarrow> 'd machine option" where
  "saveJmpBuf io buffer m = write_saved io buffer 0 (kRa # saved_regs) m"

definition enterInterruptHandlerContext :: "'d io_ops \<Rightarrow> u32 \<Rightarrow> 'd machine \<Rightarrow> (bool \<times> 'd machine) option" where
  "enterInterruptHandlerContext io buffer m =
     (if buffer = 0 then Some (False, m)
      else do { m1 \<leftarrow> read_saved io buffer 4 saved_regs m; Some (True, m1) })"

definition enterInterruptCustomExit :: "'d io_ops \<Rightarrow> u32 \<Rightarrow> 'd machine \<Rightarrow> (u32 \<times> 'd machine) option" where
  "enterInterruptCustomExit io buffer m =
     (if buffer = 0 then Some (0, m)
      else do {
        (resume, m1) \<leftarrow> m_r32 io m buffer;
        if resume = 0 then Some (0, m1)
        else do { (_, m2) \<leftarrow> enterInterruptHandlerContext io buffer m1; Some (resume, set_reg kV0 1 m2) } })"

datatype exit_result = Refused | ReturnedFromException | FellThrough

definition dispatchInterruptCustomExit :: "'d kernel_env \<Rightarrow> u32 \<Rightarrow> 'd machine \<Rightarrow> (exit_result \<times> 'd machine) option" where
  "dispatchInterruptCustomExit g buffer m =
     do { (resume, m1) \<leftarrow> enterInterruptCustomExit (env_io g) buffer m;
          if resume = 0 then Some (Refused, m1)
          else do { (unwound, m2) \<leftarrow> run_exit g m1 resume;
                    Some (if unwound then ReturnedFromException else FellThrough, m2) } }"

text \<open>The custom exit of \<open>irqPoll\<close>, in a scope of its own; any other result is the abort.\<close>

definition poll_custom_exit :: "'d kernel_env \<Rightarrow> 'd machine \<Rightarrow> 'd machine option" where
  "poll_custom_exit g m =
     (if exception_exit_buf (hle m) = 0 then Some m
      else do {
        let m1 = set_reg kRa kInterruptReturnSentinel (scope_enter m);
        let m2 = set_hle (\<lambda>h. h\<lparr>custom_exit_active := True\<rparr>) m1;
        (result, m3) \<leftarrow> dispatchInterruptCustomExit g (exception_exit_buf (hle m2)) m2;
        let m4 = set_hle (\<lambda>h. h\<lparr>custom_exit_active := False\<rparr>) m3;
        if result \<noteq> ReturnedFromException then None else Some (scope_leave m m4) })"

text \<open>
  \<open>irqPoll\<close>. \<open>countDecline\<close> and the report of an unclaimed set are accounting of the log and are left out.
\<close>

definition irqPoll :: "'d kernel_env \<Rightarrow> 'd machine \<Rightarrow> 'd machine option" where
  "irqPoll g m =
     do {
       (ok, m1) \<leftarrow> poll_dma g all_channels m;
       if \<not> ok \<or> in_irq (hle m1) \<or> \<not> irq_enabled (hle m1) then Some m1
       else
         let (deliverable, m2) = irqDeliverable g (cd_path g) m1
         in if \<not> deliverable then Some (disarmIrqGateIfIdle g (cd_path g) m2)
            else if \<not> canDispatchInterrupt m2 then Some m2
            else
              let (pending, m3) = irqPendingEnabled g m2
              in do {
                (w, m4) \<leftarrow> chain_walk g 0 (scope_enter m3);
                let m5 = scope_leave m3 m4;
                if w = Exited then Some m5
                else do {
                  (exited, m6) \<leftarrow>
                    (if \<not> cd_path g then Some (False, m5)
                     else if w = Unclaimed then cd_deliver g m5
                     else let (p, m') = irqPendingEnabled g m5
                          in if p AND push_bit IRQ_BIT_CD 1 \<noteq> 0 then cd_deliver g m' else Some (False, m'));
                  if exited then Some m6
                  else do { m7 \<leftarrow> poll_custom_exit g m6; Some (disarmIrqGateIfIdle g (cd_path g) m7) } } } }"

section \<open>Events\<close>

definition eventIndex :: "u32 \<Rightarrow> hle_state \<Rightarrow> nat option" where
  "eventIndex i h =
     (let idx = i - EV_ID_BASE
      in if unat idx < kEventSlots \<and> ev_open (ev h ! unat idx) then Some (unat idx) else None)"

definition set_event :: "nat \<Rightarrow> (HleEvCB \<Rightarrow> HleEvCB) \<Rightarrow> hle_state \<Rightarrow> hle_state" where
  "set_event i f h = h\<lparr>ev := (ev h)[i := f (ev h ! i)]\<rparr>"

definition unDeliverEvent :: "u32 \<Rightarrow> u32 \<Rightarrow> hle_state \<Rightarrow> hle_state" where
  "unDeliverEvent evClass spec h =
     h\<lparr>ev := map (\<lambda>e. if ev_open e \<and> ev_class e = evClass \<and> ev_spec e AND spec \<noteq> 0 \<and> ev_mode e = EV_MD_NOINTR
                    then e\<lparr>ev_fired := False\<rparr> else e) (ev h)\<rparr>"

definition event_matches :: "u32 \<Rightarrow> u32 \<Rightarrow> HleEvCB \<Rightarrow> bool" where
  "event_matches evClass spec e \<longleftrightarrow>
     ev_open e \<and> ev_enabled e \<and> ev_class e = evClass \<and> ev_spec e AND spec \<noteq> 0"

text \<open>The slots of \<open>deliverEvent\<close> from the first of the list on.\<close>

fun deliver_slots :: "'d kernel_env \<Rightarrow> u32 \<Rightarrow> u32 \<Rightarrow> nat list \<Rightarrow> 'd machine \<Rightarrow> 'd machine option" where
  "deliver_slots g evClass spec [] m = Some m"
| "deliver_slots g evClass spec (i # is) m =
     (if \<not> event_matches evClass spec (ev (hle m) ! i) then deliver_slots g evClass spec is m
      else
        let m1 = set_hle (set_event i (\<lambda>e. e\<lparr>ev_fired := True\<rparr>)) m;
            e = ev (hle m1) ! i
        in if ev_mode e \<noteq> EV_MD_INTR \<or> ev_func e = 0 then deliver_slots g evClass spec is m1
           else if ev_depth (hle m1) \<noteq> 0 then deliver_slots g evClass spec is m1
           else do {
             (ok, m2) \<leftarrow> runAsInterrupt g (set_hle (\<lambda>h. h\<lparr>ev_depth := ev_depth h + 1\<rparr>) m1) (ev_func e);
             let m3 = set_hle (\<lambda>h. h\<lparr>ev_depth := ev_depth h - 1\<rparr>) m2;
             let (ok', m4) = completeOrPropagate ok m3;
             if ok' then deliver_slots g evClass spec is m4 else Some m4 })"

definition deliverEvent :: "'d kernel_env \<Rightarrow> u32 \<Rightarrow> u32 \<Rightarrow> 'd machine \<Rightarrow> 'd machine option" where
  "deliverEvent g evClass spec m = deliver_slots g evClass spec [0..<kEventSlots] m"

fun first_closed :: "nat \<Rightarrow> HleEvCB list \<Rightarrow> nat option" where
  "first_closed i [] = None"
| "first_closed i (e # es) = (if \<not> ev_open e then Some i else first_closed (i + 1) es)"

definition openEvent :: "u32 \<Rightarrow> u32 \<Rightarrow> u32 \<Rightarrow> u32 \<Rightarrow> hle_state \<Rightarrow> u32 \<times> hle_state" where
  "openEvent a0 a1 a2 a3 h =
     (case first_closed 0 (ev h) of
        Some i \<Rightarrow>
          (EV_ID_BASE + of_nat i,
           set_event i (\<lambda>e. \<lparr>ev_open = True, ev_enabled = False, ev_fired = False, ev_class = a0, ev_spec = a1,
             ev_mode = a2, ev_func = a3\<rparr>) h)
      | None \<Rightarrow> (0xFFFFFFFF, h))"

text \<open>CloseEvent, WaitEvent, EnableEvent and DisableEvent share one shape; TestEvent also asks for the mark.\<close>

definition event_call :: "(HleEvCB \<Rightarrow> HleEvCB) \<Rightarrow> u32 \<Rightarrow> hle_state \<Rightarrow> u32 \<times> hle_state" where
  "event_call f i h = (case eventIndex i h of Some k \<Rightarrow> (1, set_event k f h) | None \<Rightarrow> (0, h))"

definition testEvent :: "u32 \<Rightarrow> hle_state \<Rightarrow> u32 \<times> hle_state" where
  "testEvent i h =
     (case eventIndex i h of
        Some k \<Rightarrow> if ev_fired (ev h ! k) then (1, set_event k (\<lambda>e. e\<lparr>ev_fired := False\<rparr>) h) else (0, h)
      | None \<Rightarrow> (0, h))"

section \<open>The syscall exception\<close>

definition kCauseInterruptPending :: u32 where "kCauseInterruptPending = 0x0000FF00"
definition kSyscallExceptionCode :: u32 where "kSyscallExceptionCode = 8"
definition kCurrentModeStack :: u32 where "kCurrentModeStack = 0x3F"
definition kReturnModeStack :: u32 where "kReturnModeStack = 0x0F"
definition kPreviousInterruptEnable :: u32 where "kPreviousInterruptEnable = push_bit 2 1"

definition exception_enter :: "u32 \<Rightarrow> (nat \<Rightarrow> u32) \<Rightarrow> nat \<Rightarrow> u32" where
  "exception_enter syscallPc cop =
     (let c1 = cop(kCop0Epc := syscallPc);
          c2 = c1(kCop0Status := (c1 kCop0Status AND NOT kCurrentModeStack) OR
                (push_bit 2 (c1 kCop0Status) AND kCurrentModeStack))
      in c2(kCop0Cause := (c2 kCop0Cause AND kCauseInterruptPending) OR push_bit 2 kSyscallExceptionCode))"

definition setReturnInterruptEnabled :: "bool \<Rightarrow> (nat \<Rightarrow> u32) \<Rightarrow> nat \<Rightarrow> u32" where
  "setReturnInterruptEnabled enabled cop =
     cop(kCop0Status := (if enabled then cop kCop0Status OR kPreviousInterruptEnable
                         else cop kCop0Status AND NOT kPreviousInterruptEnable))"

definition exception_leave :: "(nat \<Rightarrow> u32) \<Rightarrow> nat \<Rightarrow> u32" where
  "exception_leave cop =
     cop(kCop0Status := (cop kCop0Status AND NOT kReturnModeStack) OR
           (drop_bit 2 (cop kCop0Status) AND kReturnModeStack))"

datatype SyscallResult = SyscallHandled | UnsupportedSelector

text \<open>\<open>handleSyscall\<close> on a machine with its game and no side-effect journal.\<close>

definition handleSyscall :: "u32 \<Rightarrow> 'd machine \<Rightarrow> SyscallResult \<times> 'd machine" where
  "handleSyscall instructionPc m =
     (let selector = reg m kA0 in
      if selector > 2 then (UnsupportedSelector, m)
      else
        let m1 = m\<lparr>cop0 := exception_enter instructionPc (cop0 m)\<rparr>;
            m2 = (if selector = 0 then set_reg kV0 0 m1
                  else if selector = 1 then
                    let m' = set_reg kV0 (if irq_enabled (hle m1) then 1 else 0) m1;
                        m'' = set_hle (\<lambda>h. h\<lparr>irq_enabled := False\<rparr>) m'
                    in m''\<lparr>cop0 := setReturnInterruptEnabled False (cop0 m'')\<rparr>
                  else
                    let m' = set_hle (\<lambda>h. h\<lparr>irq_enabled := True\<rparr>) m1
                    in set_reg kV0 0 (m'\<lparr>cop0 := setReturnInterruptEnabled True (cop0 m')\<rparr>))
        in (SyscallHandled, m2\<lparr>cop0 := exception_leave (cop0 m2)\<rparr>))"

section \<open>Work area and pad services\<close>

definition kPadEnableFlag :: u32 where "kPadEnableFlag = 0x000074B8"
definition kPadEnableEntry :: u32 where "kPadEnableEntry = (kWorkBase + 0x884) AND 0x1FFFFFFF"
definition kPadDisableEntry :: u32 where "kPadDisableEntry = (kWorkBase + 0x894) AND 0x1FFFFFFF"
definition kB0WorkBaseSlot :: u32 where "kB0WorkBaseSlot = kB0Table + 0x5B * 4"

definition workAreaInit :: "'d io_ops \<Rightarrow> 'd machine \<Rightarrow> 'd machine option" where
  "workAreaInit io m =
     (if work_ok (hle m) then Some m
      else do {
        let m1 = set_hle (\<lambda>h. h\<lparr>work_ok := True\<rparr>) m;
        m2 \<leftarrow> m_w32 io m1 (kB0Table + 0x16C) kWorkBase;
        m3 \<leftarrow> m_w32 io m2 HLE_C0TABLE 0x03E00008;
        m4 \<leftarrow> m_w32 io m3 (HLE_C0TABLE + 4) 0;
        m_w32 io m4 (HLE_C0TABLE + 0x06 * 4) 0x00000C80 })"

datatype PadWorkAreaAction = PadEnable | PadDisable

definition applyPadWorkAreaAction :: "'d io_ops \<Rightarrow> PadWorkAreaAction \<Rightarrow> 'd machine \<Rightarrow> 'd machine option" where
  "applyPadWorkAreaAction io action m = m_w32 io m kPadEnableFlag (if action = PadEnable then 1 else 0)"

definition isPadWorkAreaEntry :: "u32 \<Rightarrow> bool" where
  "isPadWorkAreaEntry a \<longleftrightarrow>
     (let p = a AND 0x1FFFFFFF in p = kPadEnableEntry \<or> p = kPadDisableEntry)"

definition padWorkAreaAction :: "'d io_ops \<Rightarrow> u32 \<Rightarrow> 'd machine \<Rightarrow> (PadWorkAreaAction option \<times> 'd machine) option" where
  "padWorkAreaAction io a m =
     (if \<not> isPadWorkAreaEntry a then Some (None, m)
      else if \<not> work_ok (hle m) then Some (None, m)
      else do {
        (base, m1) \<leftarrow> m_r32 io m kB0WorkBaseSlot;
        Some (if base \<noteq> kWorkBase then None
              else Some (if a AND 0x1FFFFFFF = kPadEnableEntry then PadEnable else PadDisable), m1) })"

definition biosPadShouldService :: "'d io_ops \<Rightarrow> 'd machine \<Rightarrow> (bool \<times> 'd machine) option" where
  "biosPadShouldService io m =
     (if \<not> bios_pad_initialized (hle m) then Some (True, m)
      else if \<not> bios_pad_irq_started (hle m) then Some (False, m)
      else do { (f, m1) \<leftarrow> m_r32 io m kPadEnableFlag; Some (f \<noteq> 0, m1) })"

definition dispatchPadBios :: "'d io_ops \<Rightarrow> u32 \<Rightarrow> 'd machine \<Rightarrow> (bool \<times> 'd machine) option" where
  "dispatchPadBios io fn m =
     (if fn = 0x12 then
        do { m1 \<leftarrow> applyPadWorkAreaAction io PadEnable
               (set_hle (\<lambda>h. h\<lparr>bios_pad_initialized := True, bios_pad_irq_started := False\<rparr>) m);
             Some (True, set_reg kV0 0 m1) }
      else if fn = 0x13 then
        Some (True, set_reg kV0 0 (set_hle (\<lambda>h. h\<lparr>bios_pad_irq_started := True\<rparr>) m))
      else if fn = 0x14 then
        Some (True, set_reg kV0 0 (set_hle (\<lambda>h. h\<lparr>bios_pad_irq_started := False\<rparr>) m))
      else Some (False, m))"

section \<open>BIOS calls\<close>

text \<open>\<open>Unwind\<close> is the exception \<open>ReturnFromException\<close> throws; an abort is \<open>None\<close>.\<close>

datatype bios_result = Handled | NotHandled | Unwind

definition ret :: "u32 \<Rightarrow> 'd machine \<Rightarrow> (bios_result \<times> 'd machine) option" where
  "ret v m = Some (Handled, set_reg kV0 v m)"

definition ret_hle :: "u32 \<times> hle_state \<Rightarrow> 'd machine \<Rightarrow> (bios_result \<times> 'd machine) option" where
  "ret_hle r m = ret (fst r) (m\<lparr>hle := snd r\<rparr>)"

definition of_bool_result :: "bool \<times> 'd machine \<Rightarrow> bios_result \<times> 'd machine" where
  "of_bool_result r = (if fst r then Handled else NotHandled, snd r)"

definition with_heap :: "u32 \<times> hle_heap \<Rightarrow> 'd machine \<Rightarrow> 'd machine" where
  "with_heap r m = set_hle (\<lambda>h. h\<lparr>heap := snd r\<rparr>) m"

definition rand_step :: "u32 \<Rightarrow> u32" where
  "rand_step st = st * 0x41C64E6D + 0x3039"

definition bios_calloc :: "'d io_ops \<Rightarrow> u32 \<Rightarrow> u32 \<Rightarrow> 'd machine \<Rightarrow> (bios_result \<times> 'd machine) option" where
  "bios_calloc io a0 a1 m =
     do { let n = a0 * a1;
          let r = heapAlloc n (heap (hle m));
          let m1 = with_heap r m;
          m2 \<leftarrow> (if fst r \<noteq> 0 then fill (m_w8 io) (fst r) 0 0 (unat n) m1 else Some m1);
          ret (fst r) m2 }"

definition bios_realloc :: "'d io_ops \<Rightarrow> u32 \<Rightarrow> u32 \<Rightarrow> 'd machine \<Rightarrow> (bios_result \<times> 'd machine) option" where
  "bios_realloc io old ns m =
     (if old = 0 then
        let r = heapAlloc ns (heap (hle m)) in ret (fst r) (with_heap r m)
      else if ns = 0 then ret 0 (with_heap (0, heapFree old (heap (hle m))) m)
      else do {
        let r = heapAlloc ns (heap (hle m));
        let m1 = with_heap r m;
        let os = heapBlockSize old (heap (hle m1));
        m2 \<leftarrow> (if fst r \<noteq> 0 then
             do { m' \<leftarrow> guestCopy (m_r8 io) (m_w8 io) (fst r) old (if os < ns then os else ns) Forward m1;
                  Some (with_heap (0, heapFree old (heap (hle m'))) m') }
           else Some m1);
        ret (fst r) m2 })"

definition dispatch_A0 :: "'d kernel_env \<Rightarrow> u32 \<Rightarrow> 'd machine \<Rightarrow> (bios_result \<times> 'd machine) option" where
  "dispatch_A0 g fn m =
     (let io = env_io g; a0 = reg m kA0; a1 = reg m kA1; a2 = reg m kA2 in
      do {
        (leaf, m1) \<leftarrow> dispatchLibcString (m_r8 io) (m_w8 io) fn a0 a1 a2 m;
        case leaf of
          Some v \<Rightarrow> ret v m1
        | None \<Rightarrow>
            if fn = 0x2F then
              let st = rand_step (rand_state (hle m1))
              in ret (drop_bit 16 st AND 0x7FFF) (set_hle (\<lambda>h. h\<lparr>rand_state := st\<rparr>) m1)
            else if fn = 0x30 then ret 0 (set_hle (\<lambda>h. h\<lparr>rand_state := a0\<rparr>) m1)
            else if fn = 0x33 then
              let r = heapAlloc a0 (heap (hle m1)) in ret (fst r) (with_heap r m1)
            else if fn = 0x34 then ret 0 (with_heap (0, heapFree a0 (heap (hle m1))) m1)
            else if fn = 0x37 then bios_calloc io a0 a1 m1
            else if fn = 0x38 then bios_realloc io a0 a1 m1
            else if fn = 0x39 then ret 0 (with_heap (0, heapInit a0 a1 (heap (hle m1))) m1)
            else if fn = 0x13 then do { m2 \<leftarrow> saveJmpBuf io a0 m1; ret 0 m2 }
            else if fn = 0x14 then None
            else if fn = 0x3F then do { m2 \<leftarrow> guest_printf g m1; ret 0 m2 }
            else if fn = 0x44 \<or> fn = 0x49 then ret 0 m1
            else if fn = 0x51 then map_option of_bool_result (load_exec g m1)
            else if fn = 0x70 \<or> fn = 0x71 \<or> fn = 0x72 then ret 0 m1
            else map_option of_bool_result (memcard_A0 g fn m1) })"

definition dispatch_B0 :: "'d kernel_env \<Rightarrow> u32 \<Rightarrow> 'd machine \<Rightarrow> (bios_result \<times> 'd machine) option" where
  "dispatch_B0 g fn m =
     (let io = env_io g; a0 = reg m kA0; a1 = reg m kA1; a2 = reg m kA2 in
      do {
        (pad, m1) \<leftarrow> dispatchPadBios io fn m;
        if pad then Some (Handled, m1)
        else if fn = 0x07 then do { m2 \<leftarrow> deliverEvent g a0 a1 m1; ret 0 m2 }
        else if fn = 0x20 then ret 0 (set_hle (unDeliverEvent a0 a1) m1)
        else if fn = 0x08 then ret_hle (openEvent a0 a1 a2 (reg m1 kA3) (hle m1)) m1
        else if fn = 0x09 then ret_hle (event_call (\<lambda>e. e\<lparr>ev_open := False\<rparr>) a0 (hle m1)) m1
        else if fn = 0x0A then ret_hle (event_call (\<lambda>e. e\<lparr>ev_fired := False\<rparr>) a0 (hle m1)) m1
        else if fn = 0x0B then ret_hle (testEvent a0 (hle m1)) m1
        else if fn = 0x0C then ret_hle (event_call (\<lambda>e. e\<lparr>ev_enabled := True\<rparr>) a0 (hle m1)) m1
        else if fn = 0x0D then ret_hle (event_call (\<lambda>e. e\<lparr>ev_enabled := False\<rparr>) a0 (hle m1)) m1
        else if fn = 0x3F then
          do { (_, c) \<leftarrow> readCString io (mem m1) a0 512; ret 0 (m1\<lparr>mem := c\<rparr>) }
        else if fn = 0x15 \<or> fn = 0x16 then ret 0 m1
        else if fn = 0x17 then (if custom_exit_active (hle m1) then Some (Unwind, m1) else None)
        else if fn = 0x18 then ret 0 (set_hle (\<lambda>h. h\<lparr>exception_exit_buf := 0\<rparr>) m1)
        else if fn = 0x19 then ret 0 (set_hle (\<lambda>h. h\<lparr>exception_exit_buf := a0\<rparr>) m1)
        else if fn = 0x0E then ret kBiosThreadHandle m1
        else if fn = 0x0F then ret 1 m1
        else if fn = 0x10 then ret a0 m1
        else if fn = 0x4A then ret 0 m1
        else if fn = 0x4B then ret 1 m1
        else if fn = 0x56 then do { m2 \<leftarrow> workAreaInit io m1; ret HLE_C0TABLE m2 }
        else if fn = 0x57 then do { m2 \<leftarrow> workAreaInit io m1; ret kB0Table m2 }
        else if fn = 0x5B then ret 0 m1
        else map_option of_bool_result (memcard_B0 g fn m1) })"

definition dispatch_C0 :: "u32 \<Rightarrow> 'd machine \<Rightarrow> (bios_result \<times> 'd machine) option" where
  "dispatch_C0 fn m =
     (let a0 = reg m kA0; a1 = reg m kA1 in
      if fn = 0x02 then ret a1 (set_hle (irqEnq a0 a1) m)
      else if fn = 0x03 then ret a1 (set_hle (irqDeq a1) m)
      else if fn \<in> {0x00, 0x01, 0x07, 0x08, 0x0A, 0x0C, 0x12, 0x1C} then ret 0 m
      else Some (NotHandled, m))"

definition dispatchBios :: "'d kernel_env \<Rightarrow> char \<Rightarrow> u32 \<Rightarrow> 'd machine \<Rightarrow> (bios_result \<times> 'd machine) option" where
  "dispatchBios g table fn m =
     (if table = CHR ''A'' then dispatch_A0 g fn m
      else if table = CHR ''B'' then dispatch_B0 g fn m
      else if table = CHR ''C'' then dispatch_C0 fn m
      else Some (NotHandled, m))"

end
