(* ===== verification/Kernel_Laws.thy ===== *)
theory Kernel_Laws
  imports Hle_Kernel
begin

text \<open>
  Properties of the BIOS kernel of \<open>Hle_Kernel\<close>: the interrupt chain stays a priority queue, delivery is
  transparent to the interrupted guest code, the syscall exception leaves the architectural state it
  should, event marks are neither lost nor duplicated, and a jump buffer restores what it saved.
\<close>

section \<open>The interrupt chain\<close>

definition chain_inv :: "(u32 \<times> u32) list \<Rightarrow> bool" where
  "chain_inv xs \<longleftrightarrow> sorted (map fst xs) \<and> distinct (map snd xs) \<and> 0 \<notin> set (map snd xs) \<and>
     length xs \<le> IRQ_CHAIN_MAX"

lemma chain_deq_filter: "distinct (map snd xs) \<Longrightarrow> chain_deq elem xs = filter (\<lambda>x. snd x \<noteq> elem) xs"
proof (induction xs)
  case (Cons x xs)
  have "snd x = elem \<Longrightarrow> filter (\<lambda>y. snd y \<noteq> elem) xs = xs"
    using Cons.prems by (intro filter_True) (metis distinct.simps(2) image_eqI list.set_map list.simps(9))
  with Cons show ?case by auto
qed simp

lemma chain_place_sorted:
  "sorted (map fst xs) \<Longrightarrow>
     chain_place p e xs = filter (\<lambda>x. fst x \<le> p) xs @ [(p, e)] @ filter (\<lambda>x. fst x > p) xs"
proof (induction xs rule: rev_induct)
  case (snoc y ys)
  have le: "\<forall>x\<in>set ys. fst x \<le> fst y" and ys: "sorted (map fst ys)"
    using snoc.prems by (auto simp: sorted_append)
  show ?case
  proof (cases "fst y > p")
    case True
    let ?l = "takeWhile (\<lambda>x. fst x > p) (rev ys)"
    have "length ?l \<le> length ys" using length_takeWhile_le [of _ "rev ys"] by simp
    then have "chain_place p e (ys @ [y]) = chain_place p e ys @ [y]"
      using True by (simp add: chain_place_def Let_def)
    with snoc.IH [OF ys] True show ?thesis by simp
  next
    case False
    then have "filter (\<lambda>x. fst x \<le> p) ys = ys" "filter (\<lambda>x. fst x > p) ys = []"
      using le by (auto simp: filter_empty_conv intro!: filter_True)
    with False show ?thesis by (simp add: chain_place_def)
  qed
qed (simp add: chain_place_def)

lemma chain_inv_filter: "chain_inv xs \<Longrightarrow> chain_inv (filter P xs)"
proof -
  assume "chain_inv xs"
  moreover have "sorted (map fst xs) \<Longrightarrow> sorted (map fst (filter P xs))"
    by (induction xs) auto
  moreover from \<open>chain_inv xs\<close> have "length (filter P xs) \<le> IRQ_CHAIN_MAX"
    using le_trans [OF length_filter_le] by (auto simp: chain_inv_def)
  ultimately show ?thesis by (auto simp: chain_inv_def distinct_map_filter)
qed

lemma chain_inv_place:
  assumes "chain_inv xs" and "e \<noteq> 0" and "e \<notin> snd ` set xs" and "length xs < IRQ_CHAIN_MAX"
  shows "chain_inv (chain_place p e xs)"
proof -
  have s: "sorted (map fst xs)" using assms(1) by (simp add: chain_inv_def)
  let ?l = "filter (\<lambda>x. fst x \<le> p) xs" and ?r = "filter (\<lambda>x. fst x > p) xs"
  have "length ?l + length ?r = length xs"
    using sum_length_filter_compl [of "\<lambda>x. fst x \<le> p" xs] by (simp add: not_le)
  moreover have "sorted (map fst ?l)" "sorted (map fst ?r)"
    using chain_inv_filter [OF assms(1)] by (simp_all add: chain_inv_def)
  moreover have "distinct (map snd ?l)" "distinct (map snd ?r)" "inj_on snd (set xs)"
    using assms(1) by (auto simp: chain_inv_def distinct_map distinct_map_filter inj_on_subset)
  moreover from this(3) have "snd ` set ?l \<inter> snd ` set ?r = {}"
    unfolding inj_on_def by fastforce
  ultimately show ?thesis
    using assms unfolding chain_place_sorted [OF s]
    by (auto simp: chain_inv_def sorted_append)
qed

lemma irqDeq_inv: "chain_inv (irq_chain h) \<Longrightarrow> chain_inv (irq_chain (irqDeq e h))"
  using chain_inv_filter by (simp add: irqDeq_def chain_inv_def chain_deq_filter)

text \<open>C30: \<open>SysEnqIntRP\<close> and \<open>SysDeqIntRP\<close> keep the chain sorted by priority, without duplicates and within its
  eight slots. Registering an element withdraws its old entry and, when a slot is free, puts it behind
  every element of the same or a more urgent priority and before every less urgent one; the others
  keep their order.\<close>

theorem irq_chain_priority:
  assumes "chain_inv (irq_chain h)" and "e \<noteq> 0"
  shows "chain_inv (irq_chain (irqEnq p e h)) \<and> chain_inv (irq_chain (irqDeq e h)) \<and>
    irq_chain (irqDeq e h) = filter (\<lambda>x. snd x \<noteq> e) (irq_chain h) \<and>
    (length (irq_chain (irqDeq e h)) < IRQ_CHAIN_MAX \<longrightarrow>
      irq_chain (irqEnq p e h) = filter (\<lambda>x. snd x \<noteq> e \<and> fst x \<le> p) (irq_chain h) @ [(p, e)] @
        filter (\<lambda>x. snd x \<noteq> e \<and> fst x > p) (irq_chain h))"
proof -
  let ?xs = "filter (\<lambda>x. snd x \<noteq> e) (irq_chain h)"
  have deq: "irq_chain (irqDeq e h) = ?xs"
    using assms(1) by (simp add: irqDeq_def chain_inv_def chain_deq_filter)
  have inv: "chain_inv ?xs" by (rule chain_inv_filter [OF assms(1)])
  then have s: "sorted (map fst ?xs)" by (simp add: chain_inv_def)
  have ne: "e \<notin> snd ` set ?xs" by auto
  show ?thesis
  proof (cases "length ?xs < IRQ_CHAIN_MAX")
    case True
    then have "irq_chain (irqEnq p e h) = chain_place p e ?xs"
      using assms(2) deq by (simp add: irqEnq_def)
    moreover have "filter Q ?xs = filter (\<lambda>x. snd x \<noteq> e \<and> Q x) (irq_chain h)" for Q
      by (simp add: conj_commute)
    ultimately show ?thesis
      using chain_inv_place [OF inv assms(2) ne True] inv deq chain_place_sorted [OF s] by simp
  next
    case False
    then have "irq_chain (irqEnq p e h) = ?xs" using assms(2) deq by (simp add: irqEnq_def)
    with False inv deq show ?thesis by simp
  qed
qed

section \<open>Transparent delivery\<close>

text \<open>What an interrupt must hand back: the register file, and whether an interrupt is running.\<close>

definition keeps :: "'d machine \<Rightarrow> 'd machine \<Rightarrow> bool" where
  "keeps m m' \<longleftrightarrow> cpu m' = cpu m \<and> in_irq (hle m') = in_irq (hle m)"

text \<open>
  The parts of the poll that other components provide, the interrupt latch and the CD handler, change neither. The kernel
  that \<open>Cd_Ready\<close> builds from the bus and the title's libcd satisfies it.
\<close>

definition env_transparent :: "'d kernel_env \<Rightarrow> bool" where
  "env_transparent g \<longleftrightarrow> (\<forall>m. keeps m (latch g m)) \<and>
     (\<forall>m r m'. cd_deliver g m = Some (r, m') \<longrightarrow> keeps m m')"

lemma keeps_refl [simp]: "keeps m m"
  by (simp add: keeps_def)

lemma keeps_trans: "keeps a b \<Longrightarrow> keeps b c \<Longrightarrow> keeps a c"
  by (simp add: keeps_def)

lemma keeps_scope: "keeps m (scope_leave m m')"
  by (simp add: keeps_def scope_leave_def set_hle_def)

lemma keeps_run: "runAsInterrupt g m e = Some (ok, m') \<Longrightarrow> keeps m m'"
  by (auto simp: runAsInterrupt_def Some_bind_iff keeps_scope)

lemma keeps_propagate: "completeOrPropagate r m = (ok, m') \<Longrightarrow> keeps m m'"
  by (auto simp: completeOrPropagate_def keeps_def)

lemma keeps_mem: "keeps m (m\<lparr>mem := c\<rparr>)" "keeps m (m\<lparr>dmar := d\<rparr>)" "keeps m (m\<lparr>pw_irq := b\<rparr>)"
  by (simp_all add: keeps_def)

lemma keeps_r32: "m_r32 io m a = Some (v, m') \<Longrightarrow> keeps m m'"
  by (auto simp: m_r32_def keeps_mem)

lemma keeps_callback: "dma_callback g ch m = Some (v, m') \<Longrightarrow> keeps m m'"
  by (auto simp: dma_callback_def Let_def keeps_r32 split: option.splits if_splits)

lemma keeps_poll_dma: "poll_dma g chs m = Some (ok, m') \<Longrightarrow> keeps m m'"
proof (induction chs arbitrary: m)
  case (Cons ch chs)
  show ?case
  proof (cases "owed (done_mask (dmar m)) ch")
    case False
    then show ?thesis using Cons by simp
  next
    case True
    then obtain cb m1 where cb: "dma_callback g ch m = Some (cb, m1)" using Cons.prems by (auto simp: Some_bind_iff)
    note k1 = keeps_callback [OF cb]
    let ?m2 = "m1\<lparr>dmar := acknowledge ((dmar m1)\<lparr>done_mask := taken (done_mask (dmar m1)) ch\<rparr>) ch\<rparr>"
    have k2: "keeps m1 ?m2" by (rule keeps_mem)
    show ?thesis
    proof (cases "in_irq (hle m1) \<or> guest_table g \<noteq> None \<and> \<not> handlerRuns m1 \<or> cb = 0")
      case skip: True
      then have "poll_dma g chs m1 = Some (ok, m') \<or> poll_dma g chs ?m2 = Some (ok, m')"
        using Cons.prems True cb by (auto split: if_splits)
      then show ?thesis using Cons.IH k1 k2 keeps_trans by blast
    next
      case False
      then obtain r m3 where r: "runAsInterrupt g ?m2 cb = Some (r, m3)"
        using Cons.prems True cb by (auto simp: Some_bind_iff Let_def split: if_splits)
      have k4: "keeps m3 (snd (completeOrPropagate r m3))" by (metis keeps_propagate prod.collapse)
      have "m' = snd (completeOrPropagate r m3) \<or>
          poll_dma g chs (snd (completeOrPropagate r m3)) = Some (ok, m')"
        using Cons.prems True cb False r by (auto simp: split_def Let_def split: if_splits)
      then show ?thesis using Cons.IH k1 k2 keeps_run [OF r] k4 keeps_trans by blast
    qed
  qed
qed simp

lemma keeps_custom_exit: "poll_custom_exit g m = Some m' \<Longrightarrow> keeps m m'"
  by (auto simp: poll_custom_exit_def Some_bind_iff Let_def keeps_scope split: if_splits)

lemma keeps_latch: "env_transparent g \<Longrightarrow> keeps m (latch g m)"
  by (simp add: env_transparent_def)

lemma keeps_pending: "env_transparent g \<Longrightarrow> irqPendingEnabled g m = (p, m') \<Longrightarrow> keeps m m'"
  using keeps_latch by (auto simp: irqPendingEnabled_def Let_def)

lemma keeps_deliverable: "env_transparent g \<Longrightarrow> irqDeliverable g c m = (d, m') \<Longrightarrow> keeps m m'"
  using keeps_latch by (auto simp: irqDeliverable_def irqPendingEnabled_def Let_def)

lemma keeps_disarm: "env_transparent g \<Longrightarrow> keeps m (disarmIrqGateIfIdle g c m)"
proof -
  assume t: "env_transparent g"
  obtain d m1 where d: "irqDeliverable g c m = (d, m1)" by fastforce
  have "keeps m m1" by (rule keeps_deliverable [OF t d])
  then have "keeps m (m1\<lparr>pw_irq := False\<rparr>)" by (simp add: keeps_def)
  with \<open>keeps m m1\<close> d show ?thesis by (simp add: disarmIrqGateIfIdle_def)
qed

text \<open>The last part of \<open>irqPoll\<close>: the CD handler and the custom exit after the chain walk.\<close>

lemma keeps_cd_step:
  assumes "env_transparent g"
    and "(if \<not> cd_path g then Some (False, m) else if w = Unclaimed then cd_deliver g m
          else let (p, m') = irqPendingEnabled g m
               in if p AND push_bit IRQ_BIT_CD 1 \<noteq> 0 then cd_deliver g m' else Some (False, m')) = Some (e, m2)"
  shows "keeps m m2"
proof -
  obtain p m1 where p: "irqPendingEnabled g m = (p, m1)" by fastforce
  have "keeps m m1" by (rule keeps_pending [OF assms(1) p])
  moreover have "cd_deliver g x = Some (e, m2) \<Longrightarrow> keeps x m2" for x
    using assms(1) by (simp add: env_transparent_def)
  ultimately show ?thesis
    using assms(2) p keeps_trans by (auto split: if_splits)
qed

lemma keeps_poll_tail:
  assumes "env_transparent g"
    and "do { m7 \<leftarrow> poll_custom_exit g m; Some (disarmIrqGateIfIdle g (cd_path g) m7) } = Some m'"
  shows "keeps m m'"
  using assms keeps_custom_exit keeps_disarm keeps_trans by (fastforce simp: Some_bind_iff)

text \<open>The poll keeps both whatever the handlers do, over a kernel whose latch and CD handler do.\<close>

lemma irq_poll_keeps:
  assumes "env_transparent g" and "irqPoll g m = Some m'"
  shows "cpu m' = cpu m \<and> in_irq (hle m') = in_irq (hle m)"
proof -
  note tr = keeps_trans
  obtain ok m1 where m1: "poll_dma g all_channels m = Some (ok, m1)"
    using assms(2) by (auto simp: irqPoll_def Some_bind_iff)
  obtain d m2 where m2: "irqDeliverable g (cd_path g) m1 = (d, m2)" by fastforce
  obtain p m3 where m3: "irqPendingEnabled g m2 = (p, m3)" by fastforce
  note k1 = keeps_poll_dma [OF m1] and k2 = keeps_deliverable [OF assms(1) m2] and k3 = keeps_pending [OF assms(1) m3]
  consider (stop) "m' = m1" | (idle) "m' = disarmIrqGateIfIdle g (cd_path g) m2" | (later) "m' = m2"
    | (walk) w m4 where "chain_walk g 0 (scope_enter m3) = Some (w, m4)"
        "(if w = Exited then Some (scope_leave m3 m4)
          else do { (exited, m6) \<leftarrow>
              (if \<not> cd_path g then Some (False, scope_leave m3 m4)
               else if w = Unclaimed then cd_deliver g (scope_leave m3 m4)
               else let (p, m') = irqPendingEnabled g (scope_leave m3 m4)
                    in if p AND push_bit IRQ_BIT_CD 1 \<noteq> 0 then cd_deliver g m' else Some (False, m'));
              if exited then Some m6
              else do { m7 \<leftarrow> poll_custom_exit g m6; Some (disarmIrqGateIfIdle g (cd_path g) m7) } }) = Some m'"
    using assms(2) m1 m2 m3 unfolding irqPoll_def
    by (cases "\<not> ok \<or> in_irq (hle m1) \<or> \<not> irq_enabled (hle m1)"; cases d; cases "canDispatchInterrupt m2";
        cases "chain_walk g 0 (scope_enter m3)") (auto simp: Let_def)
  then have "keeps m m'"
  proof cases
    case stop
    then show ?thesis using k1 by simp
  next
    case idle
    then show ?thesis using tr [OF tr [OF k1 k2] keeps_disarm [OF assms(1)]] by simp
  next
    case later
    then show ?thesis using tr [OF k1 k2] by simp
  next
    case walk
    have k5: "keeps m (scope_leave m3 m4)" using tr [OF tr [OF tr [OF k1 k2] k3] keeps_scope] .
    show ?thesis
    proof (cases "w = Exited")
      case True
      then show ?thesis using walk(2) k5 by simp
    next
      case False
      then obtain e m6 where m6: "(if \<not> cd_path g then Some (False, scope_leave m3 m4)
               else if w = Unclaimed then cd_deliver g (scope_leave m3 m4)
               else let (p, m') = irqPendingEnabled g (scope_leave m3 m4)
                    in if p AND push_bit IRQ_BIT_CD 1 \<noteq> 0 then cd_deliver g m' else Some (False, m')) = Some (e, m6)"
        and t: "(if e then Some m6
          else do { m7 \<leftarrow> poll_custom_exit g m6; Some (disarmIrqGateIfIdle g (cd_path g) m7) }) = Some m'"
        using walk(2) by (auto simp: Some_bind_iff)
      note k6 = keeps_cd_step [OF assms(1) m6]
      show ?thesis
      proof (cases e)
        case True
        then show ?thesis using t tr [OF k5 k6] by simp
      next
        case False
        then show ?thesis using t tr [OF tr [OF k5 k6] keeps_poll_tail [OF assms(1)]] by simp
      qed
    qed
  qed
  then show ?thesis by (simp add: keeps_def)
qed

section \<open>The syscall exception\<close>

lemma mode_stack_masks:
  "kCurrentModeStack = mask 6" "kReturnModeStack = mask 4" "kPreviousInterruptEnable = push_bit 2 1"
  by (simp_all add: kCurrentModeStack_def kReturnModeStack_def kPreviousInterruptEnable_def mask_eq_exp_minus_1)

lemma bit_exception_status:
  "bit (exception_enter p c kCop0Status) i \<longleftrightarrow>
     (if i < 6 then 2 \<le> i \<and> bit (c kCop0Status) (i - 2) else bit (c kCop0Status) i)"
proof -
  have "kCop0Status \<noteq> kCop0Epc" "kCop0Status \<noteq> kCop0Cause" by (simp_all add: kCop0Status_def kCop0Epc_def kCop0Cause_def)
  then show ?thesis
    by (auto simp: exception_enter_def Let_def mode_stack_masks bit_simps dest: bit_imp_le_length)
qed

lemma bit_return_status:
  "bit (setReturnInterruptEnabled b c kCop0Status) i \<longleftrightarrow> (if i = 2 then b else bit (c kCop0Status) i)"
proof -
  have "bit kPreviousInterruptEnable i \<longleftrightarrow> i = 2"
    unfolding kPreviousInterruptEnable_def by (auto simp: bit_push_1 simp del: push_bit_of_1)
  then show ?thesis
    by (auto simp: setReturnInterruptEnabled_def bit_or_iff bit_and_iff bit_not_iff dest: bit_imp_le_length)
qed

lemma bit_leave_status:
  "bit (exception_leave c kCop0Status) i \<longleftrightarrow>
     (if i < 4 then bit (c kCop0Status) (i + 2) else bit (c kCop0Status) i)"
  by (auto simp: exception_leave_def mode_stack_masks bit_simps add.commute dest: bit_imp_le_length)

lemma word_le_2: "(x :: u32) \<le> 2 \<Longrightarrow> x = 0 \<or> x = 1 \<or> x = 2"
proof -
  assume "x \<le> 2"
  then have "unat x \<le> 2" by (simp add: word_le_nat_alt)
  then have "unat x = 0 \<or> unat x = 1 \<or> unat x = 2" by arith
  then show ?thesis unfolding word_unat_eq_iff by simp
qed

lemma syscall_status:
  "bit (exception_leave (exception_enter p c) kCop0Status) i \<longleftrightarrow>
     bit (c kCop0Status) (if i = 4 \<or> i = 5 then i - 2 else i)"
  "bit (exception_leave (setReturnInterruptEnabled b (exception_enter p c)) kCop0Status) i \<longleftrightarrow>
     (if i = 0 then b else bit (c kCop0Status) (if i = 4 \<or> i = 5 then i - 2 else i))"
proof -
  have "i < 4 \<or> i = 4 \<or> i = 5 \<or> \<not> i < 6" by arith
  then show "bit (exception_leave (exception_enter p c) kCop0Status) i \<longleftrightarrow>
     bit (c kCop0Status) (if i = 4 \<or> i = 5 then i - 2 else i)"
    "bit (exception_leave (setReturnInterruptEnabled b (exception_enter p c)) kCop0Status) i \<longleftrightarrow>
     (if i = 0 then b else bit (c kCop0Status) (if i = 4 \<or> i = 5 then i - 2 else i))"
    by (elim disjE; simp add: bit_exception_status bit_return_status bit_leave_status)+
qed

definition syscall_status_bit :: "u32 \<Rightarrow> u32 \<Rightarrow> nat \<Rightarrow> bool" where
  "syscall_status_bit selector status i \<longleftrightarrow>
     (if i = 0 \<and> selector \<noteq> 0 then selector = 2
      else if i = 4 \<or> i = 5 then bit status (i - 2) else bit status i)"

text \<open>
  a syscall is an exception taken and returned from. EnterCriticalSection and ExitCriticalSection move
  the kernel's interrupt flag and Status bit 0 together, the first returns the flag it found, and no
  other Status bit changes but the old mode pair (bits 4 and 5), which becomes the previous one as the
  hardware's stack would leave it. The exception leaves its address in EPC and its code in Cause. Any
  selector above 2 is refused with the machine untouched.
\<close>

theorem syscall_effect:
  assumes "handleSyscall instructionPc m = (r, m')"
  shows "if reg m kA0 > 2 then r = UnsupportedSelector \<and> m' = m
    else r = SyscallHandled \<and>
      irq_enabled (hle m') = (if reg m kA0 = 0 then irq_enabled (hle m) else reg m kA0 = 2) \<and>
      reg m' kV0 = (if reg m kA0 = 1 \<and> irq_enabled (hle m) then 1 else 0) \<and>
      (\<forall>i. bit (cop0 m' kCop0Status) i = syscall_status_bit (reg m kA0) (cop0 m kCop0Status) i) \<and>
      cop0 m' kCop0Epc = instructionPc \<and>
      cop0 m' kCop0Cause = (cop0 m kCop0Cause AND kCauseInterruptPending) OR 0x20 \<and>
      mem m' = mem m \<and> cpu m' = (cpu m)\<lparr>gpr := (gpr (cpu m))(kV0 := reg m' kV0)\<rparr>"
proof (cases "reg m kA0 > 2")
  case False
  have sel: "reg m kA0 = 0 \<or> reg m kA0 = 1 \<or> reg m kA0 = 2" using word_le_2 [of "reg m kA0"] False by simp
  define st where "st = cop0 m kCop0Status"
  have st': "bit (cop0 m' kCop0Status) i = syscall_status_bit (reg m kA0) st i" for i
    using assms sel unfolding syscall_status_bit_def st_def
    by (auto simp: handleSyscall_def Let_def syscall_status set_reg_def set_hle_def reg_def)
  have cause: "kCop0Status \<noteq> kCop0Epc" "kCop0Status \<noteq> kCop0Cause" "kCop0Epc \<noteq> kCop0Cause"
    by (simp_all add: kCop0Status_def kCop0Epc_def kCop0Cause_def)
  have "cop0 m' kCop0Epc = instructionPc"
    "cop0 m' kCop0Cause = (cop0 m kCop0Cause AND kCauseInterruptPending) OR 0x20"
    using assms sel cause cause [symmetric]
    by (auto simp: handleSyscall_def Let_def set_reg_def set_hle_def exception_enter_def exception_leave_def
        setReturnInterruptEnabled_def kSyscallExceptionCode_def)
  moreover have "r = SyscallHandled" "mem m' = mem m"
    "irq_enabled (hle m') = (if reg m kA0 = 0 then irq_enabled (hle m) else reg m kA0 = 2)"
    "reg m' kV0 = (if reg m kA0 = 1 \<and> irq_enabled (hle m) then 1 else 0)"
    "cpu m' = (cpu m)\<lparr>gpr := (gpr (cpu m))(kV0 := reg m' kV0)\<rparr>"
    using assms sel by (auto simp: handleSyscall_def Let_def set_reg_def set_hle_def reg_def)
  ultimately show ?thesis using False st' by (simp add: st_def)
next
  case True
  then show ?thesis using assms by (simp add: handleSyscall_def)
qed


section \<open>Events\<close>

text \<open>Delivery to these slots runs no guest handler.\<close>

definition no_handler :: "u32 \<Rightarrow> u32 \<Rightarrow> HleEvCB \<Rightarrow> bool" where
  "no_handler evClass spec e \<longleftrightarrow> event_matches evClass spec e \<longrightarrow> ev_mode e \<noteq> EV_MD_INTR \<or> ev_func e = 0"

definition mark :: "u32 \<Rightarrow> u32 \<Rightarrow> HleEvCB \<Rightarrow> HleEvCB" where
  "mark evClass spec e = (if event_matches evClass spec e then e\<lparr>ev_fired := True\<rparr> else e)"

lemma mark_simps [simp]:
  "event_matches c s (mark c' s' e) = event_matches c s e" "ev_mode (mark c s e) = ev_mode e"
  "ev_func (mark c s e) = ev_func e" "ev_open (mark c s e) = ev_open e"
  by (simp_all add: mark_def event_matches_def)

lemma deliver_slots_marks:
  assumes "list_all (no_handler c s) (ev (hle m))" and "k \<le> length (ev (hle m))"
  shows "deliver_slots g c s [k..<length (ev (hle m))] m =
    Some (set_hle (\<lambda>h. h\<lparr>ev := take k (ev h) @ map (mark c s) (drop k (ev h))\<rparr>) m)"
  using assms
proof (induction "length (ev (hle m)) - k" arbitrary: k m)
  case 0
  then show ?case by (simp add: set_hle_def)
next
  case (Suc n)
  then have k: "k < length (ev (hle m))" by simp
  let ?m = "set_hle (\<lambda>h. h\<lparr>ev := (ev h)[k := mark c s (ev h ! k)]\<rparr>) m"
  have nh: "no_handler c s (ev (hle m) ! k)" using Suc.prems(1) k by (simp add: list_all_length)
  have "mark c s (ev (hle m) ! k) = ev (hle m) ! k \<Longrightarrow> ?m = m" by (simp add: set_hle_def)
  then have step: "deliver_slots g c s [k..<length (ev (hle m))] m =
      deliver_slots g c s [Suc k..<length (ev (hle ?m))] ?m"
    using nh k by (auto simp: upt_conv_Cons set_hle_def set_event_def mark_def no_handler_def Let_def)
  have "list_all (no_handler c s) (ev (hle ?m))"
    using Suc.prems(1) k by (auto simp: set_hle_def list_all_length nth_list_update no_handler_def)
  then have "deliver_slots g c s [Suc k..<length (ev (hle ?m))] ?m =
      Some (set_hle (\<lambda>h. h\<lparr>ev := take (Suc k) (ev h) @ map (mark c s) (drop (Suc k) (ev h))\<rparr>) ?m)"
    using Suc k by (intro Suc.hyps(1)) (simp_all add: set_hle_def)
  then show ?case
    using step k by (simp add: set_hle_def take_Suc_conv_app_nth Cons_nth_drop_Suc [symmetric] upd_conv_take_nth_drop)
qed

lemma deliver_marks:
  assumes "list_all (no_handler c s) (ev (hle m))" and "length (ev (hle m)) = kEventSlots"
  shows "deliverEvent g c s m = Some (set_hle (\<lambda>h. h\<lparr>ev := map (mark c s) (ev h)\<rparr>) m)"
  using deliver_slots_marks [OF assms(1), of 0] assms(2) by (simp add: deliverEvent_def)

lemma first_closed_bound: "first_closed j es = Some i \<Longrightarrow> j \<le> i \<and> i < j + length es"
  by (induction es arbitrary: j) (fastforce split: if_splits)+

lemma event_id: "i < kEventSlots \<Longrightarrow> eventIndex (EV_ID_BASE + of_nat i) h = (if ev_open (ev h ! i) then Some i else None)"
proof -
  assume "i < kEventSlots"
  then have "unat (of_nat i :: u32) = i" by (simp add: kEventSlots_def unat_of_nat take_bit_nat_eq_self)
  with \<open>i < kEventSlots\<close> show ?thesis by (simp add: eventIndex_def)
qed

text \<open>
  an event handle opened in a free slot, once enabled, is unfired until a delivery of its class and a
  matching specification; the delivery is seen by exactly one TestEvent, and the call after it sees
  nothing. No other slot is touched by opening it.
\<close>

theorem event_seen_once:
  assumes "length (ev (hle m)) = kEventSlots" and "first_closed 0 (ev (hle m)) = Some i"
    and "openEvent evClass spec mode func (hle m) = (handle, h1)"
    and "event_call (\<lambda>e. e\<lparr>ev_enabled := True\<rparr>) handle h1 = (r, h2)"
    and "list_all (no_handler evClass s) (ev h2)" and "spec AND s \<noteq> 0"
  shows "\<exists>m3 h4. r = 1 \<and> fst (testEvent handle h2) = 0 \<and> deliverEvent g evClass s (m\<lparr>hle := h2\<rparr>) = Some m3 \<and>
    testEvent handle (hle m3) = (1, h4) \<and> testEvent handle h4 = (0, h4) \<and>
    (\<forall>j. j = i \<or> ev h2 ! j = ev (hle m) ! j)"
proof -
  have i: "i < kEventSlots" using assms(1,2) using first_closed_bound by fastforce
  let ?e = "\<lparr>ev_open = True, ev_enabled = True, ev_fired = False, ev_class = evClass, ev_spec = spec,
    ev_mode = mode, ev_func = func\<rparr>"
  have h: "handle = EV_ID_BASE + of_nat i" using assms(2,3) by (simp add: openEvent_def)
  have h2: "r = 1" "ev h2 = (ev (hle m))[i := ?e]"
    using assms(1-4) i by (auto simp: openEvent_def event_call_def event_id set_event_def)
  define m3 where "m3 = set_hle (\<lambda>h. h\<lparr>ev := map (mark evClass s) (ev h)\<rparr>) (m\<lparr>hle := h2\<rparr>)"
  have d: "deliverEvent g evClass s (m\<lparr>hle := h2\<rparr>) = Some m3"
    unfolding m3_def using assms(1,5) h2(2) by (intro deliver_marks) simp_all
  have e3: "ev (hle m3) ! i = ?e\<lparr>ev_fired := True\<rparr>" "length (ev (hle m3)) = kEventSlots"
    using i assms(1,6) h2(2) by (simp_all add: m3_def set_hle_def mark_def event_matches_def)
  then obtain h4 where "testEvent handle (hle m3) = (1, h4)" "testEvent handle h4 = (0, h4)"
    using i h by (simp add: testEvent_def event_id set_event_def)
  moreover have "fst (testEvent handle h2) = 0"
    using i h h2(2) assms(1) by (simp add: testEvent_def event_id)
  ultimately show ?thesis using d h2 by (metis nth_list_update_neq)
qed

section \<open>The jump buffer\<close>

text \<open>The word at a KSEG0 address of main RAM.\<close>

definition kword :: "'d core \<Rightarrow> u32 \<Rightarrow> u32" where
  "kword c a = ram_word c (physical a)"

lemma kseg0_physical:
  assumes "kseg0_span a 4"
  shows "unat (physical a) = unat a - 0x80000000" "unat (physical a) + 4 \<le> 0x200000"
proof -
  obtain k where k: "unat a = 0x80000000 + k" using assms by (metis kseg0_span_def le_Suc_ex)
  then have "k + 4 \<le> 0x200000" using assms by (simp add: kseg0_span_def)
  moreover have "unat (physical a) = k"
    using k calculation by (simp add: unat_physical add.commute mod_add_eq [symmetric])
  ultimately show "unat (physical a) = unat a - 0x80000000" "unat (physical a) + 4 \<le> 0x200000" using k by simp_all
qed

lemma kword_read: "kseg0_span a 4 \<Longrightarrow> mem_r32 io c a = Some (kword c a, c)"
proof -
  assume "kseg0_span a 4"
  then have "host_ptr a 4 = Some (RamAt (physical a))"
    using ram_host_ptr [OF kseg0_physical(2)] by simp
  then show ?thesis by (simp add: mem_r32_mapped kword_def ram_word_def)
qed

lemma kword_write:
  assumes "kseg0_span a 4" and "\<not> displayPassArmed c"
  shows "\<exists>c'. mem_w32 io c a v = Some c' \<and> \<not> displayPassArmed c' \<and> kword c' a = v \<and>
    (\<forall>b. kseg0_span b 4 \<longrightarrow> unat b + 4 \<le> unat a \<or> unat a + 4 \<le> unat b \<longrightarrow> kword c' b = kword c b)"
proof -
  have hp: "host_ptr a 4 = Some (RamAt (physical a))"
    using ram_host_ptr [OF kseg0_physical(2) [OF assms(1)]] by simp
  let ?c = "stored True c (RamAt (physical a)) a 4 (bytes_of 4 v)"
  have "mem_w32 io c a v = Some ?c"
    using writeGuestMemory_mapped [OF hp assms(2)] by (simp add: mem_w32_def)
  moreover have "kword ?c a = v" by (simp add: kword_def ram_word_def copy_in_stored)
  moreover have "kword ?c b = kword c b"
    if "kseg0_span b 4" "unat b + 4 \<le> unat a \<or> unat a + 4 \<le> unat b" for b
  proof -
    have "0x80000000 \<le> unat a" "0x80000000 \<le> unat b" using assms(1) that(1) by (simp_all add: kseg0_span_def)
    then have "unat (physical b) + 4 \<le> unat (physical a) \<or> unat (physical a) + 4 \<le> unat (physical b)"
      using that kseg0_physical(1) [OF assms(1)] kseg0_physical(1) [OF that(1)] by arith
    then show ?thesis
      using ram_word_stored_other kseg0_physical(2) [OF assms(1)] kseg0_physical(2) [OF that(1)] by (simp add: kword_def)
  qed
  ultimately show ?thesis using assms(2) by (auto simp: frame_simps)
qed

lemma kseg0_word: "kseg0_span a n \<Longrightarrow> i + 4 \<le> n \<Longrightarrow> kseg0_span (a + of_nat i) 4 \<and> unat (a + of_nat i) = unat a + i"
  unfolding kseg0_span_def by (subst unat_add_small | subst (asm) unat_add_small | simp)+

lemma write_saved_words:
  assumes "kseg0_span buffer n" and "off + 4 * length ns \<le> n" and "\<not> displayPassArmed (mem m)"
  shows "\<exists>c. write_saved io buffer off ns m = Some (m\<lparr>mem := c\<rparr>) \<and> \<not> displayPassArmed c \<and>
    (\<forall>i<length ns. kword c (buffer + of_nat (off + 4 * i)) = reg m (ns ! i)) \<and>
    (\<forall>j. j + 4 \<le> off \<longrightarrow> kword c (buffer + of_nat j) = kword (mem m) (buffer + of_nat j))"
  using assms(2,3)
proof (induction ns arbitrary: off m)
  case (Cons r ns)
  have sp: "kseg0_span (buffer + of_nat off) 4" "unat (buffer + of_nat off) = unat buffer + off"
    using kseg0_word [OF assms(1), of off] Cons.prems(1) by simp_all
  obtain c1 where c1: "mem_w32 io (mem m) (buffer + of_nat off) (reg m r) = Some c1" "\<not> displayPassArmed c1"
    "kword c1 (buffer + of_nat off) = reg m r"
    and o1: "\<And>b. kseg0_span b 4 \<Longrightarrow> unat b + 4 \<le> unat (buffer + of_nat off) \<Longrightarrow> kword c1 b = kword (mem m) b"
    using kword_write [OF sp(1) Cons.prems(2)] by blast
  obtain c where c: "write_saved io buffer (off + 4) ns (m\<lparr>mem := c1\<rparr>) = Some (m\<lparr>mem := c\<rparr>)" "\<not> displayPassArmed c"
    and w: "\<And>i. i < length ns \<Longrightarrow> kword c (buffer + of_nat (off + 4 + 4 * i)) = reg m (ns ! i)"
    and o: "\<And>j. j + 4 \<le> off + 4 \<Longrightarrow> kword c (buffer + of_nat j) = kword c1 (buffer + of_nat j)"
    using Cons.IH [of "off + 4" "m\<lparr>mem := c1\<rparr>"] Cons.prems(1) c1(2) by (auto simp: reg_def)
  have "kword c (buffer + of_nat (off + 4 * i)) = reg m ((r # ns) ! i)" if "i < length (r # ns)" for i
  proof (cases i)
    case 0
    then show ?thesis using o [of off] c1(3) by simp
  next
    case (Suc k)
    then show ?thesis using w [of k] that by (simp add: ac_simps)
  qed
  moreover have "kword c (buffer + of_nat j) = kword (mem m) (buffer + of_nat j)" if "j + 4 \<le> off" for j
    using o [of j] o1 [of "buffer + of_nat j"] kseg0_word [OF assms(1), of j] sp(2) that Cons.prems(1) by simp
  ultimately show ?case using c c1(1) by (auto simp: m_w32_def)
next
  case Nil
  then show ?case by (intro exI [of _ "mem m"]) simp
qed

lemma read_saved_words:
  assumes "kseg0_span buffer n" and "off + 4 * length ns \<le> n"
    and "\<forall>i<length ns. kword (mem m) (buffer + of_nat (off + 4 * i)) = f (ns ! i)"
  shows "read_saved io buffer off ns m =
    Some (m\<lparr>cpu := (cpu m)\<lparr>gpr := (\<lambda>k. if k \<in> set ns then f k else gpr (cpu m) k)\<rparr>\<rparr>)"
  using assms(2,3)
proof (induction ns arbitrary: off m)
  case (Cons r ns)
  have "mem_r32 io (mem m) (buffer + of_nat off) = Some (f r, mem m)"
  proof -
    have "kword (mem m) (buffer + of_nat off) = f r" using Cons.prems(2) [rule_format, of 0] by simp
    then show ?thesis using kseg0_word [OF assms(1), of off] Cons.prems(1) by (simp add: kword_read)
  qed
  then have "read_saved io buffer off (r # ns) m = read_saved io buffer (off + 4) ns (set_reg r (f r) m)"
    by (simp add: m_r32_def)
  also have "\<dots> = Some ((set_reg r (f r) m)\<lparr>cpu := (cpu (set_reg r (f r) m))\<lparr>gpr :=
      (\<lambda>k. if k \<in> set ns then f k else gpr (cpu (set_reg r (f r) m)) k)\<rparr>\<rparr>)"
  proof (rule Cons.IH)
    show "\<forall>i<length ns. kword (mem (set_reg r (f r) m)) (buffer + of_nat (off + 4 + 4 * i)) = f (ns ! i)"
    proof (intro allI impI)
      fix i assume "i < length ns"
      then show "kword (mem (set_reg r (f r) m)) (buffer + of_nat (off + 4 + 4 * i)) = f (ns ! i)"
        using Cons.prems(2) [rule_format, of "Suc i"] by (simp add: set_reg_def ac_simps)
    qed
  qed (use Cons.prems(1) in simp)
  finally show ?case by (auto simp: set_reg_def fun_eq_iff intro!: arg_cong [where f = "\<lambda>x. m\<lparr>cpu := (cpu m)\<lparr>gpr := x\<rparr>\<rparr>"])
qed simp

text \<open>
  entering the handler context of a jump buffer is the inverse of saving it: for a 48-byte buffer in
  KSEG0 main RAM the resume address is the saved return address, \<open>v0\<close> is 1, the stack, frame and
  global pointers and the eight saved registers are those of the caller of \<open>setjmp\<close>, and every other
  register and the rest of the machine are left alone, whatever the registers held in between.
\<close>

theorem jmpbuf_roundtrip:
  assumes "kseg0_span buffer 48" and "\<not> displayPassArmed (mem m)" and "reg m kRa \<noteq> 0"
  shows "\<exists>m1. saveJmpBuf io buffer m = Some m1 \<and> cpu m1 = cpu m \<and>
    (\<forall>r. enterInterruptCustomExit io buffer (m1\<lparr>cpu := r\<rparr>) = Some (reg m kRa,
      m1\<lparr>cpu := r\<lparr>gpr := (\<lambda>n. if n = kV0 then 1 else if n \<in> set saved_regs then reg m n else gpr r n)\<rparr>\<rparr>))"
proof -
  have len: "length saved_regs = 11" by (simp add: saved_regs_def)
  obtain c where c: "saveJmpBuf io buffer m = Some (m\<lparr>mem := c\<rparr>)"
    and w: "\<And>i. i < 12 \<Longrightarrow> kword c (buffer + of_nat (4 * i)) = reg m ((kRa # saved_regs) ! i)"
    using write_saved_words [OF assms(1) _ assms(2), of 0 "kRa # saved_regs" io] len by (auto simp: saveJmpBuf_def)
  have nz: "buffer \<noteq> 0" using assms(1) by (auto simp: kseg0_span_def)
  have ra: "mem_r32 io c buffer = Some (reg m kRa, c)"
    using kword_read [of buffer io c] kseg0_word [OF assms(1), of 0] w [of 0] by simp
  have ws: "\<forall>i<length saved_regs. kword c (buffer + of_nat (4 + 4 * i)) = reg m (saved_regs ! i)"
  proof (intro allI impI)
    fix i assume "i < length saved_regs"
    then show "kword c (buffer + of_nat (4 + 4 * i)) = reg m (saved_regs ! i)" using w [of "Suc i"] len by simp
  qed
  define M where "M = m\<lparr>mem := c\<rparr>"
  have M: "mem (M\<lparr>cpu := r\<rparr>) = c" "M\<lparr>cpu := r, mem := c\<rparr> = M\<lparr>cpu := r\<rparr>" for r by (simp_all add: M_def)
  have "enterInterruptCustomExit io buffer (M\<lparr>cpu := r\<rparr>) = Some (reg m kRa, M\<lparr>
      cpu := r\<lparr>gpr := (\<lambda>n. if n = kV0 then 1 else if n \<in> set saved_regs then reg m n else gpr r n)\<rparr>\<rparr>)" for r
  proof -
    have "read_saved io buffer 4 saved_regs (M\<lparr>cpu := r\<rparr>) =
        Some (M\<lparr>cpu := r\<lparr>gpr := (\<lambda>k. if k \<in> set saved_regs then reg m k else gpr r k)\<rparr>\<rparr>)"
      using read_saved_words [OF assms(1), of 4 saved_regs "M\<lparr>cpu := r\<rparr>" "reg m" io] ws len M(1) by (simp cong: if_cong)
    then show ?thesis
      using nz ra assms(3)
      by (simp add: enterInterruptCustomExit_def enterInterruptHandlerContext_def m_r32_def set_reg_def M fun_upd_def
          cong: if_cong)
  qed
  with c show ?thesis unfolding M_def [symmetric] by (intro exI [of _ M]) (simp add: M_def)
qed

section \<open>Witnesses\<close>

definition idle_hle :: hle_state where
  "idle_hle = \<lparr>ev = replicate 16 \<lparr>ev_open = False, ev_enabled = False, ev_fired = False, ev_class = 0, ev_spec = 0,
       ev_mode = 0, ev_func = 0\<rparr>, ev_depth = 0, heap = heapInit 0x80100000 0x1000 \<lparr>blk = [], heap_base = 0, heap_size = 0,
       heap_ok = False, heap_refused = 0\<rparr>,
     rand_state = 0, work_ok = False, bios_pad_initialized = False, bios_pad_irq_started = False,
     exception_exit_buf = 0, irq_enabled = True, i_stat = 0, i_mask = 0, irq_chain = [(1, 0x80001000), (3, 0x80002000)],
     in_irq = False, custom_exit_active = False, dcb_n = 0\<rparr>"

definition one_handler_core :: "unit core" where
  "one_handler_core = blank_core\<lparr>ram := (\<lambda>i. if i = 0x1005 then 0x30 else 0)\<rparr>"

definition idle_machine :: "unit machine" where
  "idle_machine = \<lparr>mem = one_handler_core, cpu = \<lparr>gpr = (\<lambda>n. of_nat n), hi = 0, lo = 0, pc = 0\<rparr>, cop0 = (\<lambda>_. 0xF), hle = idle_hle,
     dmar = idle_dma, dma_callbacks = (\<lambda>_. 0), pw_irq = True, active_native_address = 0, pending_guest_redirect = 0,
     exit_requested = False\<rparr>"

text \<open>A handler that destroys every register and acknowledges the interrupt.\<close>

definition rough_handler :: "unit machine \<Rightarrow> u32 \<Rightarrow> (bool \<times> unit machine) option" where
  "rough_handler m entry =
     Some (True, set_hle (\<lambda>h. h\<lparr>i_stat := 0\<rparr>) (m\<lparr>cpu := \<lparr>gpr = (\<lambda>_. 0xBAD), hi = 1, lo = 1, pc = 1\<rparr>\<rparr>))"

definition rough_env :: "unit kernel_env" where
  "rough_env = \<lparr>env_io = no_devices, run_guest = rough_handler, run_exit = rough_handler, latch = id, guest_table = None,
     cd_path = False, cd_deliver = (\<lambda>m. Some (False, m)), memcard_A0 = (\<lambda>_ m. Some (False, m)),
     memcard_B0 = (\<lambda>_ m. Some (False, m)), load_exec = (\<lambda>m. Some (False, m)), guest_printf = Some\<rparr>"

lemma irq_chain_priority_witness:
  "irq_chain (irqEnq 2 0x80003000 idle_hle) = [(1, 0x80001000), (2, 0x80003000), (3, 0x80002000)]"
  using irq_chain_priority [of idle_hle "0x80003000" 2]
  by (simp add: chain_inv_def idle_hle_def IRQ_CHAIN_MAX_def irqDeq_def)

lemma syscall_effect_witness:
  "\<not> irq_enabled (hle (snd (handleSyscall 0x80012340 (set_reg kA0 1 idle_machine)))) \<and>
   reg (snd (handleSyscall 0x80012340 (set_reg kA0 1 idle_machine))) kV0 = 1"
  using syscall_effect [of "0x80012340" "set_reg kA0 1 idle_machine", OF surjective_pairing]
  by (simp add: reg_def set_reg_def idle_machine_def idle_hle_def)

lemma event_seen_once_witness:
  "\<exists>m3 h4. deliverEvent rough_env 0xF0000003 0x10
      (idle_machine\<lparr>hle := snd (event_call (\<lambda>e. e\<lparr>ev_enabled := True\<rparr>) EV_ID_BASE
        (snd (openEvent 0xF0000003 0x30 EV_MD_NOINTR 0 idle_hle)))\<rparr>) = Some m3 \<and>
     testEvent EV_ID_BASE (hle m3) = (1, h4) \<and> testEvent EV_ID_BASE h4 = (0, h4)"
proof -
  let ?o = "openEvent 0xF0000003 0x30 EV_MD_NOINTR 0 idle_hle"
  let ?c = "event_call (\<lambda>e. e\<lparr>ev_enabled := True\<rparr>) EV_ID_BASE (snd ?o)"
  have ev: "ev idle_hle = replicate 16 \<lparr>ev_open = False, ev_enabled = False, ev_fired = False, ev_class = 0,
      ev_spec = 0, ev_mode = 0, ev_func = 0\<rparr>" by (simp add: idle_hle_def)
  have h: "hle idle_machine = idle_hle" by (simp add: idle_machine_def)
  have f: "first_closed 0 (ev (hle idle_machine)) = Some 0" by (simp add: h ev numeral_eq_Suc)
  have o: "openEvent 0xF0000003 0x30 EV_MD_NOINTR 0 (hle idle_machine) = (EV_ID_BASE, snd ?o)"
    using f h by (simp add: openEvent_def)
  have "ev (snd ?c) = (ev idle_hle)[0 := \<lparr>ev_open = True, ev_enabled = True, ev_fired = False, ev_class = 0xF0000003,
      ev_spec = 0x30, ev_mode = EV_MD_NOINTR, ev_func = 0\<rparr>]"
    using f h by (simp add: openEvent_def event_call_def eventIndex_def set_event_def ev kEventSlots_def)
  then have n: "list_all (no_handler 0xF0000003 0x10) (ev (snd ?c))"
    by (simp add: ev no_handler_def event_matches_def EV_MD_NOINTR_def EV_MD_INTR_def numeral_eq_Suc)
  show ?thesis
    using event_seen_once [OF _ f o surjective_pairing n, of rough_env] by (simp add: h ev kEventSlots_def) blast
qed

lemma jmpbuf_roundtrip_witness:
  "\<exists>m1 m2. saveJmpBuf no_devices 0x80008000 idle_machine = Some m1 \<and>
     enterInterruptCustomExit no_devices 0x80008000 (m1\<lparr>cpu := \<lparr>gpr = (\<lambda>_. 7), hi = 0, lo = 0, pc = 0\<rparr>\<rparr>) = Some (31, m2) \<and>
     reg m2 kSp = 29 \<and> reg m2 kV0 = 1 \<and> reg m2 kA0 = 7"
proof -
  have "kseg0_span 0x80008000 48" "\<not> displayPassArmed (mem idle_machine)" "reg idle_machine kRa \<noteq> 0"
    by (simp_all add: kseg0_span_def idle_machine_def one_handler_core_def blank_core_def reg_def kRa_def)
  from jmpbuf_roundtrip [OF this, of no_devices] obtain m1 where
    "saveJmpBuf no_devices 0x80008000 idle_machine = Some m1"
    "\<And>r. enterInterruptCustomExit no_devices 0x80008000 (m1\<lparr>cpu := r\<rparr>) = Some (reg idle_machine kRa,
      m1\<lparr>cpu := r\<lparr>gpr := (\<lambda>n. if n = kV0 then 1 else if n \<in> set saved_regs then reg idle_machine n else gpr r n)\<rparr>\<rparr>)"
    by blast
  then show ?thesis by (simp add: reg_def idle_machine_def gpr_numbers saved_regs_def)
qed

end
