(* ===== verification/Sio_Pad.thy ===== *)
theory Sio_Pad
  imports Prelude
begin

text \<open>
  The controller port (\<open>input/sio_pad.h\<close>, \<open>input/sio_pad.cpp\<close>): its registers, the digital pad in slot 1, and the
  deadlines of the byte being shifted and of the acknowledge pulse. The emulated clock and the pad's
  buttons are arguments; \<open>service\<close> answers whether it raised the SIO interrupt, which the caller latches
  into I_STAT.
\<close>

section \<open>Registers\<close>

record Sio0 =
  sio_mode :: u16
  sio_ctrl :: u16
  sio_baud :: u16
  sio_rx :: int
  sio_pos :: int
  sio_irq :: bool
  rxReadyTicks :: u64
  ackTicks :: u64
  ackPulseEndTicks :: u64

definition kAckDelayTicks :: u64 where "kAckDelayTicks = 64"
definition kAckPulseTicks :: u64 where "kAckPulseTicks = 32"

definition sio_initial :: Sio0 where
  "sio_initial = \<lparr>sio_mode = 0, sio_ctrl = 0, sio_baud = 0, sio_rx = - 1, sio_pos = - 1, sio_irq = False,
     rxReadyTicks = 0, ackTicks = 0, ackPulseEndTicks = 0\<rparr>"

definition byteTicks :: "Sio0 \<Rightarrow> u64" where
  "byteTicks s =
     (let reload = (if sio_baud s \<noteq> 0 then ucast (sio_baud s) else 1) :: u64;
          sel = sio_mode s AND 3;
          factor = (if sel = 2 then 16 else if sel = 3 then 64 else 1);
          bitTicks = (if reload * factor < 0x20 then 0x20 else reload * factor)
      in 8 * bitTicks)"

text \<open>The device side of one byte: the response, whether it is acknowledged, and the next position.\<close>

definition device_step :: "u16 \<Rightarrow> u32 \<Rightarrow> int \<Rightarrow> int \<times> bool \<times> int" where
  "device_step buttons tx pos =
     (if pos < 0 then (if tx = 0x01 then (0xFF, True, 0) else (0xFF, False, pos))
      else if pos = 0 then (if tx = 0x42 then (0x41, True, pos + 1) else (0x41, False, - 1))
      else if pos = 1 then (0x5A, True, pos + 1)
      else if pos = 2 then (uint (buttons AND 0xFF), True, pos + 1)
      else if pos = 3 then (uint (drop_bit 8 buttons AND 0xFF), False, - 1)
      else (0xFF, False, - 1))"

definition dataWrite :: "u64 \<Rightarrow> u16 \<Rightarrow> u32 \<Rightarrow> Sio0 \<Rightarrow> Sio0" where
  "dataWrite now buttons byte s =
     (let tx = byte AND 0xFF;
          (r, a, p) = (if sio_ctrl s AND 0x2003 = 0x0003 then device_step buttons tx (sio_pos s)
                       else (0xFF, False, sio_pos s));
          ready = now + byteTicks s
      in s\<lparr>sio_pos := p, sio_rx := r, rxReadyTicks := ready, ackTicks := (if a then ready + kAckDelayTicks else 0)\<rparr>)"

definition sio_service :: "u64 \<Rightarrow> Sio0 \<Rightarrow> bool \<times> Sio0" where
  "sio_service now s =
     (if ackTicks s = 0 \<or> now < ackTicks s then (False, s)
      else
        let s1 = s\<lparr>ackTicks := 0, ackPulseEndTicks := ackTicks s + kAckPulseTicks\<rparr>
        in if sio_ctrl s AND 0x1000 \<noteq> 0 then (True, s1\<lparr>sio_irq := True\<rparr>) else (False, s1))"

definition dataRead :: "u64 \<Rightarrow> Sio0 \<Rightarrow> u32 \<times> bool \<times> Sio0" where
  "dataRead now s =
     (let (raised, s1) = sio_service now s
      in if sio_rx s1 < 0 \<or> now < rxReadyTicks s1 then (0xFF, raised, s1)
         else (of_int (sio_rx s1), raised, s1\<lparr>sio_rx := - 1\<rparr>))"

definition ctrlWrite :: "u16 \<Rightarrow> Sio0 \<Rightarrow> Sio0" where
  "ctrlWrite v s =
     (let before = sio_ctrl s;
          s1 = s\<lparr>sio_ctrl := v AND 0x3F2F AND NOT 0x0050\<rparr>;
          s2 = (if v AND 0x0040 \<noteq> 0 then sio_initial else s1);
          s3 = (if v AND 0x0010 \<noteq> 0 then s2\<lparr>sio_irq := False\<rparr> else s2)
      in if before AND 0x2002 \<noteq> sio_ctrl s3 AND 0x2002 then
           s3\<lparr>sio_pos := - 1, sio_rx := - 1, rxReadyTicks := 0, ackTicks := 0, ackPulseEndTicks := 0\<rparr>
         else s3)"

definition sio_status :: "u64 \<Rightarrow> Sio0 \<Rightarrow> u32 \<times> bool \<times> Sio0" where
  "sio_status now s =
     (let (raised, s1) = sio_service now s;
          rx_ready = sio_rx s1 \<ge> 0 \<and> now \<ge> rxReadyTicks s1;
          tx_finished = rxReadyTicks s1 = 0 \<or> now \<ge> rxReadyTicks s1;
          ack_active = ackPulseEndTicks s1 \<noteq> 0 \<and> now < ackPulseEndTicks s1
      in ((if tx_finished then 0x01 else 0) OR (if rx_ready then 0x02 else 0) OR (if ack_active then 0x80 else 0) OR
          (if sio_irq s1 then 0x200 else 0), raised, s1))"

section \<open>A pad poll\<close>

text \<open>
  A driver's exchange: each entry is the clock of a DATA write, the clock of the read after it and the byte. The
  result is what the read returned and whether the acknowledge raised the interrupt by then.
\<close>

fun exchange :: "u16 \<Rightarrow> (u64 \<times> u64 \<times> u32) list \<Rightarrow> Sio0 \<Rightarrow> (u32 \<times> bool) list \<times> Sio0" where
  "exchange buttons [] s = ([], s)"
| "exchange buttons ((tw, tr, b) # xs) s =
     (let (v, raised, s1) = dataRead tr (dataWrite tw buttons b s); (vs, s2) = exchange buttons xs s1
      in ((v, raised) # vs, s2))"

text \<open>A read late enough for the byte and its acknowledge, with no wrap of the clock.\<close>

definition served :: "Sio0 \<Rightarrow> u64 \<times> u64 \<times> u32 \<Rightarrow> bool" where
  "served s x = (case x of (tw, tr, b) \<Rightarrow> unat tw + unat (byteTicks s) + 64 \<le> unat tr)"

lemma device_response: "device_step buttons tx p = (r, a, p') \<Longrightarrow> 0 \<le> r \<and> r < 256"
proof -
  have "uint (x AND 0xFF :: u16) < 256" for x :: u16
    using word_and_le1 [of x "0xFF"] by (simp add: word_le_def and.commute)
  moreover assume "device_step buttons tx p = (r, a, p')"
  ultimately show ?thesis by (auto simp: device_step_def split: if_splits)
qed

lemma byteTicks_frame [simp]:
  "byteTicks (s\<lparr>sio_pos := x\<rparr>) = byteTicks s" "byteTicks (s\<lparr>sio_rx := x\<rparr>) = byteTicks s"
  "byteTicks (s\<lparr>sio_irq := y\<rparr>) = byteTicks s" "byteTicks (s\<lparr>rxReadyTicks := t\<rparr>) = byteTicks s"
  "byteTicks (s\<lparr>ackTicks := t\<rparr>) = byteTicks s" "byteTicks (s\<lparr>ackPulseEndTicks := t\<rparr>) = byteTicks s"
  by (simp_all add: byteTicks_def)

lemma served_frame: "byteTicks x = byteTicks s \<Longrightarrow> served x y = served s y"
  by (simp only: served_def)

lemma exchange_byte:
  assumes "sio_ctrl s AND 0x2003 = 0x0003" and "sio_ctrl s AND 0x1000 \<noteq> 0"
    and "served s (tw, tr, b)" and "device_step buttons (b AND 0xFF) (sio_pos s) = (r, a, p)"
  shows "\<exists>s1. dataRead tr (dataWrite tw buttons b s) = (of_int r, a, s1) \<and> sio_ctrl s1 = sio_ctrl s \<and>
    sio_pos s1 = p \<and> byteTicks s1 = byteTicks s"
proof -
  define bt where "bt = byteTicks s"
  have lim: "unat tr < 2 ^ 64" using unsigned_less [of tr] by simp
  have sv: "unat tw + unat bt + 64 \<le> unat tr" using assms(3) by (simp add: served_def bt_def)
  have rd: "unat (tw + bt) = unat tw + unat bt" using sv lim by (subst unat_add_small) simp_all
  then have ak: "unat (tw + bt + 64) = unat tw + unat bt + 64" using sv lim by (subst unat_add_small) simp_all
  have le: "\<not> tr < tw + bt" "\<not> tr < tw + bt + 64" "tw + bt + 64 \<noteq> 0"
    using sv rd ak by (auto simp: word_less_nat_alt simp del: unat_eq_0)
  have r: "0 \<le> r" using device_response [OF assms(4)] by simp
  show ?thesis
    using assms(1,2,4) r le
    by (auto simp: dataRead_def dataWrite_def sio_service_def Let_def bt_def [symmetric] kAckDelayTicks_def)
qed

text \<open>
  a driver that selects port 1 with the acknowledge interrupt enabled and clocks out address 1, command
  0x42 and three more bytes, giving each byte its transfer and acknowledge time, reads back the digital
  pad's answer 0xFF, 0x41, 0x5A and the two halves of the buttons, low byte first; exactly the first four bytes are
  acknowledged with an interrupt, and the device is unaddressed again at the end.
\<close>

theorem pad_poll_reads_buttons:
  assumes "sio_ctrl s AND 0x2003 = 0x0003" and "sio_ctrl s AND 0x1000 \<noteq> 0" and "sio_pos s = - 1"
    and "xs = [(t0, u0, 0x01), (t1, u1, 0x42), (t2, u2, b2), (t3, u3, b3), (t4, u4, b4)]"
    and "list_all (served s) xs"
  shows "\<exists>s'. exchange buttons xs s =
      ([(0xFF, True), (0x41, True), (0x5A, True), (ucast (buttons AND 0xFF), True),
        (ucast (drop_bit 8 buttons AND 0xFF), False)], s') \<and> sio_pos s' = - 1"
proof -
  have of_uint: "of_int (uint (w :: u16)) = (ucast w :: u32)" for w by simp
  from assms(5) have l: "served s (t0, u0, 0x01)" "served s (t1, u1, 0x42)" "served s (t2, u2, b2)" "served s (t3, u3, b3)"
    "served s (t4, u4, b4)" unfolding assms(4) by simp_all
  have d0: "device_step buttons (0x01 AND 0xFF) (sio_pos s) = (0xFF, True, 0)" using assms(3) by (simp add: device_step_def)
  obtain s1 where s1: "dataRead u0 (dataWrite t0 buttons 0x01 s) = (0xFF, True, s1)" "sio_ctrl s1 = sio_ctrl s"
    "sio_pos s1 = 0" "byteTicks s1 = byteTicks s" using exchange_byte [OF assms(1,2) l(1) d0] by auto
  have d1: "device_step buttons (0x42 AND 0xFF) (sio_pos s1) = (0x41, True, 1)" using s1(3) by (simp add: device_step_def)
  obtain s2 where s2: "dataRead u1 (dataWrite t1 buttons 0x42 s1) = (0x41, True, s2)" "sio_ctrl s2 = sio_ctrl s"
    "sio_pos s2 = 1" "byteTicks s2 = byteTicks s"
    using exchange_byte [OF _ _ _ d1, of t1 u1] assms(1,2) l(2) s1 served_frame [OF s1(4)] by auto
  have d2: "device_step buttons (b2 AND 0xFF) (sio_pos s2) = (0x5A, True, 2)" using s2(3) by (simp add: device_step_def)
  obtain s3 where s3: "dataRead u2 (dataWrite t2 buttons b2 s2) = (0x5A, True, s3)" "sio_ctrl s3 = sio_ctrl s"
    "sio_pos s3 = 2" "byteTicks s3 = byteTicks s"
    using exchange_byte [OF _ _ _ d2, of t2 u2] assms(1,2) l(3) s2 served_frame [OF s2(4)] by auto
  have d3: "device_step buttons (b3 AND 0xFF) (sio_pos s3) = (uint (buttons AND 0xFF), True, 3)"
    using s3(3) by (simp add: device_step_def)
  obtain s4 where s4: "dataRead u3 (dataWrite t3 buttons b3 s3) = (ucast (buttons AND 0xFF), True, s4)"
    "sio_ctrl s4 = sio_ctrl s" "sio_pos s4 = 3" "byteTicks s4 = byteTicks s"
    using exchange_byte [OF _ _ _ d3, of t3 u3] assms(1,2) l(4) s3 served_frame [OF s3(4)] unfolding of_uint by auto
  have d4: "device_step buttons (b4 AND 0xFF) (sio_pos s4) = (uint (drop_bit 8 buttons AND 0xFF), False, - 1)"
    using s4(3) by (simp add: device_step_def)
  obtain s5 where s5: "dataRead u4 (dataWrite t4 buttons b4 s4) = (ucast (drop_bit 8 buttons AND 0xFF), False, s5)"
    "sio_pos s5 = - 1"
    using exchange_byte [OF _ _ _ d4, of t4 u4] assms(1,2) l(5) s4 served_frame [OF s4(4)] unfolding of_uint by auto
  show ?thesis unfolding assms(4) using s1(1) s2(1) s3(1) s4(1) s5 by simp
qed

lemma pad_poll_reads_buttons_witness:
  "\<exists>s'. exchange 0xBFFE [(0, 1000, 0x01), (2000, 3000, 0x42), (4000, 5000, 0), (6000, 7000, 0), (8000, 9000, 0)]
      (sio_initial\<lparr>sio_ctrl := 0x1003, sio_baud := 0x88 div 2\<rparr>) =
      ([(0xFF, True), (0x41, True), (0x5A, True), (0xFE, True), (0xBF, False)], s')"
proof -
  let ?s = "sio_initial\<lparr>sio_ctrl := 0x1003, sio_baud := 0x88 div 2\<rparr>"
  have "byteTicks ?s = 544" by (simp add: byteTicks_def sio_initial_def)
  then have "list_all (served ?s) [(0, 1000, 0x01), (2000, 3000, 0x42), (4000, 5000, 0), (6000, 7000, 0), (8000, 9000, 0)]"
    by (simp add: served_def)
  from pad_poll_reads_buttons [OF _ _ _ refl this, of "0xBFFE"] show ?thesis
    by (auto simp: sio_initial_def)
qed

end
