(* ===== verification/Cd_Position.thy ===== *)
theory Cd_Position
  imports Prelude
begin

text \<open>
  Disc positions and the table of contents: BCD bytes, MSF and LBA (\<open>cd/cd_position.h\<close>), the drive timing
  that a Setmode byte selects (\<open>cd/cd_drive_timing.h\<close>), and the answers of GetTN, GetTD and GetlocP
  (\<open>cd/disc_toc.cpp\<close>, \<open>Disc::subqPosition\<close> of \<open>cd/disc.cpp\<close>). Opening the image is an argument, since the
  image is read by libchdr.
\<close>

section \<open>Positions\<close>

definition kLeadInSectors :: int where "kLeadInSectors = 150"
definition kSectorsPerSecond :: int where "kSectorsPerSecond = 75"
definition kSecondsPerMinute :: int where "kSecondsPerMinute = 60"
definition kRawSectorBytes :: nat where "kRawSectorBytes = 2352"
definition kDataSectorBytes :: nat where "kDataSectorBytes = 2048"
definition kSectorHeaderOffset :: nat where "kSectorHeaderOffset = 12"
definition kSectorHeaderBytes :: nat where "kSectorHeaderBytes = 8"

lemmas position_consts = kLeadInSectors_def kSectorsPerSecond_def kSecondsPerMinute_def

record SectorSubheader =
  sub_file :: u8
  sub_channel :: u8
  sub_submode :: u8
  sub_coding :: u8

definition sub_audio :: "SectorSubheader \<Rightarrow> bool" where
  "sub_audio h \<longleftrightarrow> sub_submode h AND 0x04 \<noteq> 0"

definition endOfFile :: "SectorSubheader \<Rightarrow> bool" where
  "endOfFile h \<longleftrightarrow> sub_submode h AND 0x80 \<noteq> 0"

definition isMode2 :: "u8 list \<Rightarrow> bool" where
  "isMode2 raw \<longleftrightarrow> raw ! 15 = 2"

definition sectorSubheader :: "u8 list \<Rightarrow> SectorSubheader" where
  "sectorSubheader raw = \<lparr>sub_file = raw ! 16, sub_channel = raw ! 17, sub_submode = raw ! 18, sub_coding = raw ! 19\<rparr>"

definition fromBcd :: "u8 \<Rightarrow> int" where
  "fromBcd value = uint (drop_bit 4 value) * 10 + uint (value AND 0x0F)"

definition isBcd :: "u8 \<Rightarrow> bool" where
  "isBcd value \<longleftrightarrow> value AND 0x0F \<le> 9 \<and> drop_bit 4 value \<le> 9"

definition toBcd :: "u32 \<Rightarrow> u8" where
  "toBcd value = ucast (push_bit 4 (value div 10) OR (value mod 10))"

definition msfToLba :: "u8 \<Rightarrow> u8 \<Rightarrow> u8 \<Rightarrow> int" where
  "msfToLba mm ss ff =
     (fromBcd mm * kSecondsPerMinute + fromBcd ss) * kSectorsPerSecond + fromBcd ff - kLeadInSectors"

definition sectorsToMsf :: "u32 \<Rightarrow> u8 \<times> u8 \<times> u8" where
  "sectorsToMsf sectors =
     (toBcd (sectors div of_int (kSecondsPerMinute * kSectorsPerSecond)),
      toBcd ((sectors div of_int kSectorsPerSecond) mod of_int kSecondsPerMinute),
      toBcd (sectors mod of_int kSectorsPerSecond))"

definition lbaToMsf :: "int \<Rightarrow> u8 \<times> u8 \<times> u8" where
  "lbaToMsf lba = sectorsToMsf (of_int (lba + kLeadInSectors))"

definition commandCarriesPosition :: "u8 \<Rightarrow> bool" where
  "commandCarriesPosition command \<longleftrightarrow> command \<in> {0x03, 0x06, 0x15, 0x16, 0x1B}"

section \<open>Drive timing\<close>

definition kModeDoubleSpeed :: u8 where "kModeDoubleSpeed = 0x80"
definition kModeXaAdpcm :: u8 where "kModeXaAdpcm = 0x40"
definition kModeWholeSector :: u8 where "kModeWholeSector = 0x20"
definition kModeSize2328 :: u8 where "kModeSize2328 = 0x10"
definition kModeXaFilter :: u8 where "kModeXaFilter = 0x08"
definition kNominalPsxCpuHz :: u64 where "kNominalPsxCpuHz = 33868800"

definition driveSectorsPerSecond :: "u8 \<Rightarrow> int" where
  "driveSectorsPerSecond m = (if m AND kModeDoubleSpeed \<noteq> 0 then 2 * kSectorsPerSecond else kSectorsPerSecond)"

definition driveSectorPeriodCpuTicks :: "u8 \<Rightarrow> u64" where
  "driveSectorPeriodCpuTicks m = kNominalPsxCpuHz div of_int (driveSectorsPerSecond m)"

record SectorFraming =
  fr_offset :: nat
  fr_bytes :: nat

definition sectorFraming :: "u8 \<Rightarrow> SectorFraming" where
  "sectorFraming m =
     (if m AND kModeSize2328 \<noteq> 0 then \<lparr>fr_offset = 24, fr_bytes = 2328\<rparr>
      else if m AND kModeWholeSector \<noteq> 0 then \<lparr>fr_offset = 12, fr_bytes = 2340\<rparr>
      else \<lparr>fr_offset = 24, fr_bytes = kDataSectorBytes\<rparr>)"

section \<open>The table of contents\<close>

definition kDiscMaxTracks :: nat where "kDiscMaxTracks = 99"

record DiscTrackInfo =
  number :: u8
  tr_lba :: int
  sectors :: u32
  pregap :: int
  pregap_dv :: int
  postgap :: int

text \<open>The parsed layout of a \<open>Disc\<close>; \<open>track_count\<close> is the length of the list.\<close>

record Disc =
  tracks :: "DiscTrackInfo list"

definition track_end :: "DiscTrackInfo \<Rightarrow> int" where
  "track_end t = tr_lba t + uint (sectors t) + postgap t"

fun toc_loop :: "int \<Rightarrow> nat \<Rightarrow> DiscTrackInfo list \<Rightarrow> bool" where
  "toc_loop previous_end previous_number [] = True"
| "toc_loop previous_end previous_number (t # ts) =
     (if number t = 0 \<or> number t > 99 \<or> unat (number t) \<noteq> previous_number + 1 \<or> tr_lba t < 0 \<or>
         sectors t = 0 \<or> postgap t < 0 \<or> tr_lba t < previous_end \<or> track_end t > 2147483647 then False
      else toc_loop (track_end t) (unat (number t)) ts)"

definition valid_toc :: "Disc \<Rightarrow> bool" where
  "valid_toc disc \<longleftrightarrow>
     \<not> (length (tracks disc) = 0 \<or> length (tracks disc) > kDiscMaxTracks) \<and> toc_loop (- 1) 0 (tracks disc)"

type_synonym BcdPair = "u8 \<times> u8"

definition lba_to_msf :: "int \<Rightarrow> BcdPair option" where
  "lba_to_msf lba =
     (if lba + kLeadInSectors \<ge> 100 * kSecondsPerMinute * kSectorsPerSecond then None
      else let (mm, ss, ff) = lbaToMsf lba in Some (mm, ss))"

text \<open>\<open>open_disc\<close> is \<open>Disc::open\<close>: whether the image opened, and the layout it left.\<close>

definition loaded :: "(Disc \<Rightarrow> bool \<times> Disc) \<Rightarrow> Disc \<Rightarrow> bool \<times> Disc" where
  "loaded open_disc disc =
     (let (opened, disc') = (if length (tracks disc) = 0 then open_disc disc else (True, disc))
      in (opened \<and> valid_toc disc', disc'))"

definition track_range :: "(Disc \<Rightarrow> bool \<times> Disc) \<Rightarrow> Disc \<Rightarrow> BcdPair option \<times> Disc" where
  "track_range open_disc disc =
     (let (ok, d) = loaded open_disc disc in
      if \<not> ok then (None, d)
      else (Some (toBcd (ucast (number (hd (tracks d)))), toBcd (ucast (number (last (tracks d))))), d))"

definition track_start :: "(Disc \<Rightarrow> bool \<times> Disc) \<Rightarrow> u8 \<Rightarrow> Disc \<Rightarrow> BcdPair option \<times> Disc" where
  "track_start open_disc track_bcd disc =
     (let (ok, d) = loaded open_disc disc in
      if \<not> ok \<or> \<not> isBcd track_bcd then (None, d)
      else
        let track_number = fromBcd track_bcd;
            lba = (if track_number = 0 then track_end (last (tracks d))
                   else case find (\<lambda>t. uint (number t) = track_number) (tracks d) of
                          Some t \<Rightarrow> tr_lba t | None \<Rightarrow> - 1)
        in (if lba \<ge> 0 then lba_to_msf lba else None, d))"

text \<open>
  \<open>Disc::subqPosition\<close>. The source reads \<open>tracks[0]\<close> when no track covers the position, zeroed when the
  open left no track, which a successful open excludes.
\<close>

definition covers :: "int \<Rightarrow> DiscTrackInfo \<Rightarrow> bool" where
  "covers position t \<longleftrightarrow> tr_lba t - pregap_dv t - pregap t \<le> position \<and> position < track_end t"

definition subqPosition :: "(Disc \<Rightarrow> bool \<times> Disc) \<Rightarrow> u32 \<Rightarrow> Disc \<Rightarrow> u8 list option \<times> Disc" where
  "subqPosition open_disc lba disc =
     (let (opened, d) = (if length (tracks disc) = 0 then open_disc disc else (True, disc)) in
      if \<not> opened then (None, d)
      else
        let position = uint lba;
            t = (case find (covers position) (tracks d) of Some t \<Rightarrow> t | None \<Rightarrow> hd (tracks d));
            relative = of_int (if position \<ge> tr_lba t then position - tr_lba t else tr_lba t - position);
            (tm, ts, tf) = sectorsToMsf relative;
            (am, as, af) = lbaToMsf (sint lba)
        in (Some [toBcd (ucast (number t)), toBcd (if position < tr_lba t then 0 else 1), tm, ts, tf, am, as, af], d))"

section \<open>Round trips\<close>

lemma bcd_table: "list_all (\<lambda>n. fromBcd (toBcd (of_nat n)) = int n \<and> isBcd (toBcd (of_nat n))) [0..<100]"
  by code_simp

lemma bcd_roundtrip: "uint v < 100 \<Longrightarrow> fromBcd (toBcd v) = uint v \<and> isBcd (toBcd v)"
proof -
  assume v: "uint v < 100"
  have u: "uint v = int (unat v)" by (rule uint_nat)
  have "unat v < 100" using v u by linarith
  then have "unat v \<in> set [0..<100]" by simp
  then have "fromBcd (toBcd (of_nat (unat v))) = int (unat v) \<and> isBcd (toBcd (of_nat (unat v)))"
    by (rule bcd_table [unfolded list_all_iff, rule_format])
  then show ?thesis unfolding u by simp
qed

lemma msf_parts:
  "0 \<le> n \<Longrightarrow> n < 450000 \<Longrightarrow> sectorsToMsf (of_int n) = (mm, ss, ff) \<Longrightarrow>
     fromBcd mm = n div 4500 \<and> fromBcd ss = n div 75 mod 60 \<and> fromBcd ff = n mod 75 \<and>
     isBcd mm \<and> isBcd ss \<and> isBcd ff"
proof -
  assume n: "0 \<le> n" "n < 450000" and m: "sectorsToMsf (of_int n) = (mm, ss, ff)"
  let ?s = "of_int n :: u32"
  have s: "uint ?s = n" using n by (simp add: uint_word_of_int)
  have "uint (?s div 4500) = n div 4500" "uint (?s div 75 mod 60) = n div 75 mod 60" "uint (?s mod 75) = n mod 75"
    by (simp_all add: uint_div uint_mod s)
  moreover have "n div 4500 < 100" "n div 75 mod 60 < 100" "n mod 75 < 100"
    using n(2) pos_mod_bound [of 60 "n div 75"] pos_mod_bound [of 75 n] by (linarith, linarith, linarith)
  ultimately show ?thesis
    using m bcd_roundtrip [of "?s div 4500"] bcd_roundtrip [of "?s div 75 mod 60"] bcd_roundtrip [of "?s mod 75"]
    by (auto simp: sectorsToMsf_def position_consts)
qed

text \<open>
  every sector from the start of the lead-in to the last of minute 99 has an MSF position in valid BCD,
  and the position names it again: Setloc of what GetlocP and GetTD answer is the identity.
\<close>

theorem msf_lba_roundtrip:
  assumes "- kLeadInSectors \<le> lba" and "lba + kLeadInSectors < 100 * kSecondsPerMinute * kSectorsPerSecond"
    and "lbaToMsf lba = (mm, ss, ff)"
  shows "msfToLba mm ss ff = lba \<and> isBcd mm \<and> isBcd ss \<and> isBcd ff"
proof -
  let ?n = "lba + 150"
  have "0 \<le> ?n" "?n < 450000" "sectorsToMsf (of_int ?n) = (mm, ss, ff)"
    using assms by (simp_all add: position_consts lbaToMsf_def)
  note p = msf_parts [OF this]
  have "?n div 4500 = ?n div 75 div 60" using zdiv_zmult2_eq [of 60 ?n 75] by simp
  then have "(?n div 4500 * 60 + ?n div 75 mod 60) * 75 + ?n mod 75 = ?n"
    by (metis div_mult_mod_eq)
  with p show ?thesis by (simp add: msfToLba_def position_consts)
qed

lemma msf_lba_roundtrip_witness:
  "lbaToMsf 100000 = (0x22, 0x15, 0x25) \<and> msfToLba 0x22 0x15 0x25 = 100000"
proof -
  have "lbaToMsf 100000 = (0x22, 0x15, 0x25)" by code_simp
  with msf_lba_roundtrip [OF _ _ this] show ?thesis by (simp add: position_consts)
qed

text \<open>The whole period of either speed is a positive number of ticks, far below the range of the clock.\<close>

lemma drive_period: "driveSectorPeriodCpuTicks m = (if m AND kModeDoubleSpeed \<noteq> 0 then 225792 else 451584)"
  by (simp add: driveSectorPeriodCpuTicks_def driveSectorsPerSecond_def kNominalPsxCpuHz_def kSectorsPerSecond_def)

lemma framing_bounds: "fr_offset (sectorFraming m) + fr_bytes (sectorFraming m) \<le> kRawSectorBytes"
  by (simp add: sectorFraming_def kRawSectorBytes_def kDataSectorBytes_def)

end
