(* ===== verification/Cd_Controller.thy ===== *)
theory Cd_Controller
  imports Cd_Position
begin

text \<open>
  The CD controller (\<open>cd/cdc_state.h\<close>, \<open>cd/cdc_native.cpp\<close>, \<open>cd/cdc_command_phase.cpp\<close>): its register file,
  the ring of pending responses, the data FIFO, the continuous read and the command phases, on an
  injected clock. The FIFO arrays are lists of their valid bytes; the response ring keeps its eight
  slots and its two indices. The sector source, the disc layout and the XA stream are arguments.
\<close>

section \<open>Registers\<close>

datatype CdcRegister = RegIndex | RegResponse | RegParameter | RegRequest
datatype CdcResponse = RespNone | DataReady | Complete | Acknowledge | Error
datatype CdcSectorRoute = RouteData | XaAudio | XaDropped
datatype DriveSector = ReadFailed | SectorData | SectorAudio
datatype CdcCommandEvent = NoEvent | Execute | CompleteEvent
datatype ReadStop = GuestCommand | DriveStopped

fun response_code :: "CdcResponse \<Rightarrow> u8" where
  "response_code RespNone = 0"
| "response_code DataReady = 1"
| "response_code Complete = 2"
| "response_code Acknowledge = 3"
| "response_code Error = 5"

definition cdcRegister :: "u32 \<Rightarrow> CdcRegister" where
  "cdcRegister address =
     (let r = address AND 3 in
      if r = 0 then RegIndex else if r = 1 then RegResponse else if r = 2 then RegParameter else RegRequest)"

record CdcIrqEnt =
  irq_type :: u8
  resp :: "u8 list"

text \<open>\<open>len\<close> of an entry is the length of its response; \<open>q\<close> has eight slots.\<close>

record 'x cdc =
  bank :: "2 word"
  param :: "u8 list"
  data :: "u8 list"
  data_rd :: nat
  irq_en :: u8
  stat :: u8
  loc_lba :: u32
  command_lba :: u32
  sector_header :: "u8 list"
  sector_header_valid :: bool
  cd_mode :: u8
  filter_file :: u8
  filter_chan :: u8
  reading :: bool
  first_sector_pending :: bool
  bfrd :: bool
  following_sector_ready :: bool
  drive_event_armed :: bool
  drive_deadline_ticks :: u64
  command_event_armed :: bool
  pending_command :: u8
  command_phase :: int
  command_arg_latch :: u8
  command_args :: "u8 list"
  command_deadline_ticks :: u64
  read_completion_deadline_ticks :: "u64 list"
  q :: "CdcIrqEnt list"
  q_head :: nat
  q_tail :: nat
  resp_rd :: nat
  irq_sequence :: u64
  irq_edge :: bool
  disc :: "Disc option"
  xa :: "'x option"

text \<open>
  What the controller calls: the bound clock, if any; the raw sector source; the GetlocP source; opening a
  disc image; and the XA stream's two entry points.
\<close>

record 'x cdc_env =
  tick_now :: "u64 option"
  disc_read_raw_fn :: "u32 \<Rightarrow> u8 list option"
  disc_get_subq_position_fn :: "u32 \<Rightarrow> u8 list option"
  open_disc :: "Disc \<Rightarrow> bool \<times> Disc"
  pushAudioSector :: "u8 list \<Rightarrow> u32 \<Rightarrow> 'x \<Rightarrow> 'x"
  stopForMode :: "u8 \<Rightarrow> 'x \<Rightarrow> 'x"

definition kCdlStatStandby :: u8 where "kCdlStatStandby = 0x02"
definition kCdlStatRead :: u8 where "kCdlStatRead = 0x20"
definition kCdcIrqEnableAll :: u8 where "kCdcIrqEnableAll = 0x1F"
definition kCdcErrorBadArgument :: u8 where "kCdcErrorBadArgument = 0x10"
definition kCdcStatResponseReady :: u32 where "kCdcStatResponseReady = 0x20"
definition kRingSlots :: nat where "kRingSlots = 8"

definition cdc_reset :: "'x cdc \<Rightarrow> 'x cdc" where
  "cdc_reset c = \<lparr>bank = 0, param = [], data = [], data_rd = 0, irq_en = kCdcIrqEnableAll, stat = kCdlStatStandby,
     loc_lba = 0, command_lba = 0, sector_header = replicate kSectorHeaderBytes 0, sector_header_valid = False,
     cd_mode = 0, filter_file = 0, filter_chan = 0, reading = False, first_sector_pending = False, bfrd = False,
     following_sector_ready = False, drive_event_armed = False, drive_deadline_ticks = 0,
     command_event_armed = False, pending_command = 0, command_phase = 0, command_arg_latch = 0, command_args = [],
     command_deadline_ticks = 0, read_completion_deadline_ticks = [],
     q = replicate kRingSlots \<lparr>irq_type = 0, resp = []\<rparr>, q_head = 0, q_tail = 0, resp_rd = 0, irq_sequence = 0,
     irq_edge = False, disc = disc c, xa = xa c\<rparr>"

section \<open>The response ring\<close>

definition queueEmpty :: "'x cdc \<Rightarrow> bool" where
  "queueEmpty c \<longleftrightarrow> q_head c = q_tail c"

definition irqLine :: "'x cdc \<Rightarrow> bool" where
  "irqLine c \<longleftrightarrow> \<not> queueEmpty c \<and> irq_type (q c ! q_head c) AND irq_en c AND kCdcIrqEnableAll \<noteq> 0"

definition responseBecameCurrent :: "'x cdc \<Rightarrow> 'x cdc" where
  "responseBecameCurrent c =
     (let c1 = c\<lparr>irq_sequence := irq_sequence c + 1\<rparr> in if irqLine c1 then c1\<lparr>irq_edge := True\<rparr> else c1)"

definition cdc_raise :: "CdcResponse \<Rightarrow> u8 list \<Rightarrow> 'x cdc \<Rightarrow> 'x cdc" where
  "cdc_raise type bs c =
     (let becomes_current = q_tail c = q_head c; n = (q_tail c + 1) mod 8 in
      if n = q_head c then c
      else
        let c1 = c\<lparr>q := (q c)[q_tail c := \<lparr>irq_type = response_code type, resp = bs\<rparr>]\<rparr>;
            c2 = (if becomes_current then c1\<lparr>resp_rd := 0\<rparr> else c1);
            c3 = c2\<lparr>q_tail := n\<rparr>
        in if becomes_current then responseBecameCurrent c3 else c3)"

definition resultsEntry :: "'x cdc \<Rightarrow> CdcIrqEnt" where
  "resultsEntry c = q c ! (if queueEmpty c then (q_head c + 7) mod 8 else q_head c)"

definition currentIrqType :: "'x cdc \<Rightarrow> u8" where
  "currentIrqType c = (if queueEmpty c then response_code RespNone else irq_type (q c ! q_head c))"

section \<open>The drive\<close>

definition seekTime :: "u32 \<Rightarrow> 'x cdc \<Rightarrow> u64" where
  "seekTime target_lba c =
     (let motor_on = stat c AND kCdlStatStandby \<noteq> 0;
          paused = motor_on \<and> \<not> reading c;
          initial_lba = (if motor_on then sint (loc_lba c) else 0);
          signed_target_lba = sint target_lba;
          difference = of_int (if initial_lba > signed_target_lba then initial_lba - signed_target_lba
                               else signed_target_lba - initial_lba) :: u64;
          ticks = (if motor_on then 0 else kNominalPsxCpuHz);
          seek_ticks = difference * kNominalPsxCpuHz div (72 * of_int kSecondsPerMinute * of_int kSectorsPerSecond);
          ticks = ticks + (if seek_ticks < 20000 then 20000 else seek_ticks)
      in if difference \<ge> 2250 then ticks + kNominalPsxCpuHz * 300 div 1000
         else if paused then ticks + (if cd_mode c AND kModeDoubleSpeed \<noteq> 0 then 1237952 else 1237952 * 2)
         else if difference \<ge> 3 \<and> difference < 12 then ticks + driveSectorPeriodCpuTicks (cd_mode c) * 4
         else ticks)"

definition commandArgumentCounts :: "u8 \<Rightarrow> (nat \<times> nat) option" where
  "commandArgumentCounts command =
     (if command = 0x02 then Some (3, 3)
      else if command = 0x03 then Some (0, 1)
      else if command \<in> {0x0D, 0x1D} then Some (2, 2)
      else if command \<in> {0x0E, 0x12, 0x14, 0x19} then Some (1, 1)
      else if command \<in> {0x01, 0x04, 0x05, 0x06, 0x07, 0x08, 0x09, 0x0A, 0x0B, 0x0C, 0x0F, 0x10, 0x11, 0x13, 0x15,
          0x16, 0x1A, 0x1B, 0x1C, 0x1E} then Some (0, 0)
      else None)"

definition sectorRoute :: "u8 list \<Rightarrow> 'x cdc \<Rightarrow> CdcSectorRoute" where
  "sectorRoute raw c =
     (let header = sectorSubheader raw in
      if cd_mode c AND kModeXaAdpcm = 0 \<or> \<not> isMode2 raw \<or> sub_submode header AND 0x64 \<noteq> 0x64 then RouteData
      else if cd_mode c AND kModeXaFilter = 0 \<or>
          (sub_file header = filter_file c \<and> sub_channel header = filter_chan c) then XaAudio
      else XaDropped)"

definition routeDriveSector :: "'x cdc_env \<Rightarrow> u32 \<Rightarrow> 'x cdc \<Rightarrow> (DriveSector \<times> u8 list) \<times> 'x cdc" where
  "routeDriveSector g lba c =
     (case disc_read_raw_fn g lba of
        None \<Rightarrow> ((ReadFailed, []), c)
      | Some raw \<Rightarrow>
          let c1 = c\<lparr>sector_header := take kSectorHeaderBytes (drop kSectorHeaderOffset raw), sector_header_valid := True\<rparr>;
              route = sectorRoute raw c1
          in if route = RouteData then ((SectorData, raw), c1)
             else if route = XaAudio then ((SectorAudio, raw), c1\<lparr>xa := map_option (pushAudioSector g raw lba) (xa c1)\<rparr>)
             else ((SectorAudio, raw), c1))"

definition fillDataFifo :: "u8 list \<Rightarrow> 'x cdc \<Rightarrow> 'x cdc" where
  "fillDataFifo raw c =
     (let framing = sectorFraming (cd_mode c)
      in c\<lparr>data := take (fr_bytes framing) (drop (fr_offset framing) raw), data_rd := 0\<rparr>)"

definition consumeSector :: "'x cdc_env \<Rightarrow> u32 \<Rightarrow> 'x cdc \<Rightarrow> DriveSector \<times> 'x cdc" where
  "consumeSector g lba c =
     (let ((sector, raw), c1) = routeDriveSector g lba c in
      if sector = ReadFailed then (sector, c1\<lparr>data := [], data_rd := 0\<rparr>)
      else if sector = SectorData then (sector, fillDataFifo raw c1)
      else (sector, c1))"

definition loadSector :: "'x cdc_env \<Rightarrow> u32 \<Rightarrow> 'x cdc \<Rightarrow> bool \<times> 'x cdc" where
  "loadSector g lba c =
     (case disc_read_raw_fn g lba of
        None \<Rightarrow> (False, c\<lparr>data := [], data_rd := 0\<rparr>)
      | Some raw \<Rightarrow> (True, fillDataFifo raw c))"

definition queueDataReady :: "'x cdc \<Rightarrow> 'x cdc" where
  "queueDataReady c = cdc_raise DataReady [stat c] c"

definition postDataReady :: "'x cdc \<Rightarrow> bool \<times> 'x cdc" where
  "postDataReady c = (if (q_tail c + 1) mod 8 = q_head c then (False, c) else (True, queueDataReady c))"

definition postDataReadyAfterRead :: "'x cdc_env \<Rightarrow> u32 \<Rightarrow> u32 \<Rightarrow> u8 \<Rightarrow> 'x cdc \<Rightarrow> bool \<times> 'x cdc" where
  "postDataReadyAfterRead g first_lba n_sectors m c =
     (if n_sectors = 0 \<or> length (read_completion_deadline_ticks c) \<ge> 4 then (False, c)
      else case tick_now g of
        None \<Rightarrow> postDataReady c
      | Some now \<Rightarrow>
          let ds = read_completion_deadline_ticks c;
              start = (if ds \<noteq> [] then last ds else now);
              deadline = (if start > now then start else now) + seekTime first_lba c +
                ucast n_sectors * driveSectorPeriodCpuTicks m
          in (True, c\<lparr>read_completion_deadline_ticks := ds @ [deadline], loc_lba := first_lba + n_sectors,
                      stat := stat c OR kCdlStatStandby\<rparr>))"

text \<open>The announcing loop of \<open>serviceReadCompletions\<close>, over the owed deadlines.\<close>

fun announce :: "u64 \<Rightarrow> u64 list \<Rightarrow> 'x cdc \<Rightarrow> bool \<times> 'x cdc" where
  "announce now [] c = (False, c\<lparr>read_completion_deadline_ticks := []\<rparr>)"
| "announce now (d # ds) c =
     (if now < d then (False, c\<lparr>read_completion_deadline_ticks := d # ds\<rparr>)
      else
        let (posted, c1) = postDataReady c
        in if \<not> posted then (False, c1\<lparr>read_completion_deadline_ticks := d # ds\<rparr>)
           else (True, snd (announce now ds c1)))"

definition serviceReadCompletions :: "'x cdc_env \<Rightarrow> 'x cdc \<Rightarrow> bool \<times> 'x cdc" where
  "serviceReadCompletions g c =
     (if read_completion_deadline_ticks c = [] then (False, c)
      else case tick_now g of
        None \<Rightarrow> (False, c)
      | Some now \<Rightarrow> announce now (read_completion_deadline_ticks c) c)"

definition cancelDriveEvent :: "'x cdc \<Rightarrow> 'x cdc" where
  "cancelDriveEvent c =
     (if \<not> drive_event_armed c then c else c\<lparr>drive_event_armed := False, drive_deadline_ticks := 0\<rparr>)"

definition scheduleSectorEventAfter :: "'x cdc_env \<Rightarrow> u64 \<Rightarrow> 'x cdc \<Rightarrow> 'x cdc" where
  "scheduleSectorEventAfter g origin c =
     (if \<not> reading c \<or> following_sector_ready c \<or> drive_event_armed c \<or> tick_now g = None then c
      else c\<lparr>drive_deadline_ticks := origin + driveSectorPeriodCpuTicks (cd_mode c), drive_event_armed := True\<rparr>)"

definition scheduleSectorEvent :: "'x cdc_env \<Rightarrow> 'x cdc \<Rightarrow> 'x cdc" where
  "scheduleSectorEvent g c = (case tick_now g of None \<Rightarrow> c | Some now \<Rightarrow> scheduleSectorEventAfter g now c)"

definition stopContinuousRead :: "ReadStop \<Rightarrow> 'x cdc \<Rightarrow> bool \<times> 'x cdc" where
  "stopContinuousRead stop c =
     (let c1 = (cancelDriveEvent c)\<lparr>reading := False, stat := stat c AND NOT kCdlStatRead, first_sector_pending := False\<rparr>
      in if stop = GuestCommand then (False, c1) else postDataReady (c1\<lparr>following_sector_ready := False\<rparr>))"

definition startContinuousRead :: "'x cdc_env \<Rightarrow> 'x cdc \<Rightarrow> 'x cdc" where
  "startContinuousRead g c =
     scheduleSectorEvent g ((cancelDriveEvent c)\<lparr>sector_header_valid := False, reading := True,
       stat := stat c OR kCdlStatRead, first_sector_pending := True, bfrd := False, following_sector_ready := False,
       data := [], data_rd := 0\<rparr>)"

definition serviceDueSector :: "'x cdc_env \<Rightarrow> 'x cdc \<Rightarrow> bool \<times> 'x cdc" where
  "serviceDueSector g c =
     (let due_ticks = drive_deadline_ticks c; c0 = c\<lparr>drive_event_armed := False, drive_deadline_ticks := 0\<rparr> in
      if \<not> reading c0 \<or> following_sector_ready c0 then (False, c0)
      else if first_sector_pending c0 then
        let (sector, c1) = consumeSector g (loc_lba c0) (c0\<lparr>first_sector_pending := False\<rparr>)
        in if sector = ReadFailed then stopContinuousRead DriveStopped c1
           else
             let c2 = c1\<lparr>stat := stat c1 OR kCdlStatRead\<rparr>
             in if sector = SectorAudio then (False, scheduleSectorEventAfter g due_ticks c2)
                else (True, queueDataReady c2)
      else if cd_mode c0 AND kModeXaAdpcm \<noteq> 0 then
        let ((sector, raw), c1) = routeDriveSector g (loc_lba c0 + 1) c0
        in if sector = ReadFailed then stopContinuousRead DriveStopped c1
           else if sector = SectorAudio then
             (False, scheduleSectorEventAfter g due_ticks (c1\<lparr>loc_lba := loc_lba c1 + 1\<rparr>))
           else (True, queueDataReady (c1\<lparr>following_sector_ready := True\<rparr>))
      else (True, queueDataReady (c0\<lparr>following_sector_ready := True\<rparr>)))"

text \<open>The loop of \<open>serviceDriveEvent\<close>: \<open>None\<close> would be a loop that does not end.\<close>

partial_function (option) drive_loop :: "'x cdc_env \<Rightarrow> u64 \<Rightarrow> 'x cdc \<Rightarrow> (bool \<times> 'x cdc) option" where
  "drive_loop g now c =
     (if drive_event_armed c \<and> now \<ge> drive_deadline_ticks c then
        let (current, c1) = serviceDueSector g c in if current then Some (True, c1) else drive_loop g now c1
      else Some (False, c))"

definition serviceDriveEvent :: "'x cdc_env \<Rightarrow> 'x cdc \<Rightarrow> (bool \<times> 'x cdc) option" where
  "serviceDriveEvent g c =
     (if \<not> drive_event_armed c then Some (False, c)
      else case tick_now g of None \<Rightarrow> Some (False, c) | Some now \<Rightarrow> drive_loop g now c)"

definition sectorConsumed :: "'x cdc \<Rightarrow> 'x cdc" where
  "sectorConsumed c = c\<lparr>data := [], data_rd := 0, bfrd := False\<rparr>"

definition setMode :: "'x cdc_env \<Rightarrow> u8 \<Rightarrow> 'x cdc \<Rightarrow> 'x cdc" where
  "setMode g v c =
     (let c1 = c\<lparr>cd_mode := v\<rparr>;
          c2 = (if v AND kModeXaAdpcm = 0 then c1\<lparr>xa := map_option (stopForMode g v) (xa c1)\<rparr> else c1)
      in if drive_event_armed c2 then scheduleSectorEvent g (cancelDriveEvent c2) else c2)"

definition setFilter :: "u8 \<Rightarrow> u8 \<Rightarrow> 'x cdc \<Rightarrow> 'x cdc" where
  "setFilter file channel c = c\<lparr>filter_file := file, filter_chan := channel\<rparr>"

section \<open>Command phases\<close>

definition kCdcCommandWritePhaseCpuTicks :: u64 where "kCdcCommandWritePhaseCpuTicks = 10500 + 1815"
definition kCdcCommandArgumentPhaseCpuTicks :: u64 where "kCdcCommandArgumentPhaseCpuTicks = 1815"
definition kCdcCommandExecutionPhaseCpuTicks :: u64 where "kCdcCommandExecutionPhaseCpuTicks = 8500"

definition commandAckDelayCpuTicks :: "u8 \<Rightarrow> u64" where
  "commandAckDelayCpuTicks n =
     kCdcCommandWritePhaseCpuTicks + ucast n * kCdcCommandArgumentPhaseCpuTicks + kCdcCommandExecutionPhaseCpuTicks"

definition popParameter :: "'x cdc \<Rightarrow> u8 \<times> 'x cdc" where
  "popParameter c = (hd (param c), c\<lparr>param := tl (param c)\<rparr>)"

text \<open>The source asserts that the clock is bound: \<open>None\<close> is that failure.\<close>

definition scheduleCommand :: "'x cdc_env \<Rightarrow> u8 \<Rightarrow> 'x cdc \<Rightarrow> 'x cdc option" where
  "scheduleCommand g command c =
     (case tick_now g of
        None \<Rightarrow> None
      | Some now \<Rightarrow>
          Some (c\<lparr>pending_command := command, command_phase := - 1, command_args := [], command_event_armed := True,
                  command_deadline_ticks := now + kCdcCommandWritePhaseCpuTicks\<rparr>))"

text \<open>The next argument byte, or the execution phase when no parameter is left.\<close>

definition next_argument :: "'x cdc \<Rightarrow> 'x cdc" where
  "next_argument c =
     (if param c \<noteq> [] then
        let (v, c1) = popParameter c
        in c1\<lparr>command_arg_latch := v, command_phase := 0,
              command_deadline_ticks := command_deadline_ticks c1 + kCdcCommandArgumentPhaseCpuTicks\<rparr>
      else c\<lparr>command_phase := 1,
             command_deadline_ticks := command_deadline_ticks c + kCdcCommandExecutionPhaseCpuTicks\<rparr>)"

definition latch_argument :: "'x cdc \<Rightarrow> 'x cdc" where
  "latch_argument c =
     (if length (command_args c) < 16 then c\<lparr>command_args := command_args c @ [command_arg_latch c]\<rparr> else c)"

definition disarm_command :: "'x cdc \<Rightarrow> 'x cdc" where
  "disarm_command c = c\<lparr>command_event_armed := False, command_deadline_ticks := 0\<rparr>"

function command_loop :: "bool \<Rightarrow> u64 \<Rightarrow> 'x cdc \<Rightarrow> CdcCommandEvent \<times> 'x cdc" where
  "command_loop completion_can_raise_irq now c =
     (if now < command_deadline_ticks c then (NoEvent, c)
      else if command_phase c = - 1 then command_loop completion_can_raise_irq now (next_argument c)
      else if command_phase c = 0 then
        command_loop completion_can_raise_irq now (next_argument (latch_argument c))
      else if command_phase c = 1 then (Execute, c)
      else if command_phase c = 2 then
        (if \<not> completion_can_raise_irq then (NoEvent, c) else (CompleteEvent, disarm_command c))
      else (NoEvent, disarm_command c))"
  by pat_completeness auto
termination
  by (relation "measure (\<lambda>(_, _, c). length (param c) +
        (if command_phase c = - 1 then 2 else if command_phase c = 0 then 1 else 0))")
    (auto simp: next_argument_def latch_argument_def popParameter_def)

declare command_loop.simps [simp del]

definition serviceCommand :: "'x cdc_env \<Rightarrow> bool \<Rightarrow> 'x cdc \<Rightarrow> CdcCommandEvent \<times> 'x cdc" where
  "serviceCommand g completion_can_raise_irq c =
     (if \<not> command_event_armed c then (NoEvent, c)
      else case tick_now g of None \<Rightarrow> (NoEvent, c) | Some now \<Rightarrow> command_loop completion_can_raise_irq now c)"

definition finishCommandExecution :: "u64 \<Rightarrow> 'x cdc \<Rightarrow> 'x cdc" where
  "finishCommandExecution completion_delay_ticks c =
     (if completion_delay_ticks = 0 then disarm_command c
      else c\<lparr>command_phase := 2, command_deadline_ticks := command_deadline_ticks c + completion_delay_ticks\<rparr>)"

section \<open>Commands\<close>

definition getlocL :: "'x cdc \<Rightarrow> u8 list option" where
  "getlocL c = (if sector_header_valid c then Some (sector_header c) else None)"

definition getlocP :: "'x cdc_env \<Rightarrow> 'x cdc \<Rightarrow> u8 list option" where
  "getlocP g c = disc_get_subq_position_fn g (loc_lba c)"

definition toc_answer :: "'x cdc_env \<Rightarrow> u8 \<Rightarrow> 'x cdc \<Rightarrow> BcdPair option \<times> 'x cdc" where
  "toc_answer g cmd c =
     (case disc c of
        None \<Rightarrow> (None, c)
      | Some d \<Rightarrow>
          let (answer, d') = (if cmd = 0x13 then track_range (open_disc g) d
                              else track_start (open_disc g) (command_args c ! 0) d)
          in (answer, c\<lparr>disc := Some d'\<rparr>))"

definition ack :: "'x cdc \<Rightarrow> 'x cdc" where
  "ack c = cdc_raise Acknowledge [stat c] c"

definition error_response :: "u8 \<Rightarrow> 'x cdc \<Rightarrow> 'x cdc" where
  "error_response code c = cdc_raise Error [stat c OR 0x01, code] c"

definition execCommand :: "'x cdc_env \<Rightarrow> u8 \<Rightarrow> 'x cdc \<Rightarrow> u64 \<times> 'x cdc" where
  "execCommand g cmd c =
     (case commandArgumentCounts cmd of
        None \<Rightarrow> (0, error_response 0x20 c)
      | Some (min_args, max_args) \<Rightarrow>
        if length (command_args c) < min_args \<or> length (command_args c) > max_args then (0, error_response 0x20 c)
        else if cmd = 0x02 then
          (0, ack (c\<lparr>command_lba :=
             of_int (msfToLba (command_args c ! 0) (command_args c ! 1) (command_args c ! 2))\<rparr>))
        else if cmd = 0x0E then (0, cdc_raise Acknowledge [stat c] (setMode g (command_args c ! 0) c))
        else if cmd = 0x0D then
          (0, cdc_raise Acknowledge [stat c] (setFilter (command_args c ! 0) (command_args c ! 1) c))
        else if cmd = 0x10 then
          (case getlocL c of
             None \<Rightarrow> (0, error_response 0x80 c) | Some header \<Rightarrow> (0, cdc_raise Acknowledge header c))
        else if cmd = 0x11 then
          (case getlocP g c of
             None \<Rightarrow> (0, error_response 0x80 c) | Some position \<Rightarrow> (0, cdc_raise Acknowledge position c))
        else if cmd = 0x06 \<or> cmd = 0x1B then
          (let c1 = ack c in (0, startContinuousRead g (c1\<lparr>loc_lba := command_lba c1\<rparr>)))
        else if cmd = 0x09 then
          (let c1 = cdc_raise Acknowledge [stat c] (snd (stopContinuousRead GuestCommand c))
           in if \<not> reading c then (5000, c1)
              else ((1124584 + ucast (loc_lba c1) * 42596 div (of_int kSectorsPerSecond * of_int kSecondsPerMinute)) *
                    (if cd_mode c1 AND kModeDoubleSpeed \<noteq> 0 then 1 else 2), c1))
        else if cmd = 0x08 then
          (let was_stopped = \<not> reading c \<and> stat c AND kCdlStatStandby = 0;
               c1 = (snd (stopContinuousRead GuestCommand c))\<lparr>stat := 0, sector_header_valid := False\<rparr>
           in (if was_stopped then 5000 else 33868, cdc_raise Acknowledge [stat c] c1))
        else if cmd = 0x0A then
          (let c1 = (snd (stopContinuousRead GuestCommand c))\<lparr>stat := kCdlStatStandby, cd_mode := 0, command_lba := 0\<rparr>
           in (4100000, cdc_raise Acknowledge [stat c] c1))
        else if cmd = 0x15 then (let c1 = ack c in (seekTime (command_lba c1) c1, c1))
        else if cmd = 0x16 then (let c1 = ack (c\<lparr>sector_header_valid := False\<rparr>) in (seekTime (command_lba c1) c1, c1))
        else if cmd = 0x1E then (let c1 = ack (c\<lparr>sector_header_valid := False\<rparr>) in (30000000 + seekTime 0 c1, c1))
        else if cmd = 0x07 then
          (if stat c \<noteq> 0 then (0, error_response 0x20 c)
           else (3386880, cdc_raise Acknowledge [stat c] (c\<lparr>stat := kCdlStatStandby\<rparr>)))
        else if cmd = 0x03 then (0, ack (c\<lparr>sector_header_valid := False\<rparr>))
        else if cmd = 0x19 then
          (0, if command_args c ! 0 = 0x20 then cdc_raise Acknowledge [0x94, 0x09, 0x19, 0xC0] c else ack c)
        else if cmd = 0x1A \<or> cmd = 0x12 then (33868, ack c)
        else if cmd = 0x13 \<or> cmd = 0x14 then
          (let (answer, c1) = toc_answer g cmd c in
           case answer of
             None \<Rightarrow> (0, error_response kCdcErrorBadArgument c1)
           | Some (a, b) \<Rightarrow> (0, cdc_raise Acknowledge [stat c1, a, b] c1))
        else (0, ack c))"

definition completeCommand :: "'x cdc \<Rightarrow> 'x cdc" where
  "completeCommand c =
     (if pending_command c = 0x1A then
        cdc_raise Complete [0x02, 0x00, 0x20, 0x00, 0x53, 0x43, 0x45, 0x41] c
      else
        let c1 = (if pending_command c = 0x0A then c\<lparr>loc_lba := 0\<rparr>
                  else if pending_command c = 0x15 \<or> pending_command c = 0x16 then
                    c\<lparr>loc_lba := command_lba c, stat := kCdlStatStandby\<rparr>
                  else c)
        in cdc_raise Complete [stat c1] c1)"

definition run_command_event :: "'x cdc_env \<Rightarrow> CdcCommandEvent \<Rightarrow> 'x cdc \<Rightarrow> 'x cdc" where
  "run_command_event g event c =
     (if event = Execute then let (delay, c1) = execCommand g (pending_command c) c in finishCommandExecution delay c1
      else if event = CompleteEvent then completeCommand c
      else c)"

fun retire_loop :: "nat \<Rightarrow> 'x cdc_env \<Rightarrow> u64 \<Rightarrow> 'x cdc \<Rightarrow> 'x cdc" where
  "retire_loop 0 g now c = c"
| "retire_loop (Suc n) g now c =
     (if \<not> command_event_armed c then c
      else
        let (event, c1) = serviceCommand g True (c\<lparr>command_deadline_ticks := now\<rparr>)
        in retire_loop n g now (run_command_event g event c1))"

definition retirePendingCommand :: "'x cdc_env \<Rightarrow> 'x cdc \<Rightarrow> 'x cdc" where
  "retirePendingCommand g c =
     (if \<not> command_event_armed c then c
      else case tick_now g of None \<Rightarrow> c | Some now \<Rightarrow> retire_loop 64 g now c)"

definition beginRead :: "'x cdc_env \<Rightarrow> u32 \<Rightarrow> 'x cdc \<Rightarrow> 'x cdc" where
  "beginRead g lba c = startContinuousRead g ((retirePendingCommand g c)\<lparr>loc_lba := lba, command_lba := lba\<rparr>)"

definition issueCommand :: "'x cdc_env \<Rightarrow> u8 \<Rightarrow> 'x cdc \<Rightarrow> 'x cdc option" where
  "issueCommand g command c = scheduleCommand g command (c\<lparr>bank := 0\<rparr>)"

definition consider_deadline :: "bool \<Rightarrow> u64 \<Rightarrow> u64 option \<Rightarrow> u64 option" where
  "consider_deadline isArmed deadline earliest =
     (if isArmed \<and> (case earliest of None \<Rightarrow> True | Some e \<Rightarrow> deadline < e) then Some deadline else earliest)"

definition nextDeadlineTicks :: "'x cdc \<Rightarrow> u64 option" where
  "nextDeadlineTicks c =
     consider_deadline (read_completion_deadline_ticks c \<noteq> []) (hd (read_completion_deadline_ticks c))
       (consider_deadline (command_event_armed c) (command_deadline_ticks c)
         (consider_deadline (drive_event_armed c) (drive_deadline_ticks c) None))"

definition service :: "'x cdc_env \<Rightarrow> 'x cdc \<Rightarrow> (bool \<times> 'x cdc) option" where
  "service g c =
     (case serviceDriveEvent g c of
        None \<Rightarrow> None
      | Some (_, c1) \<Rightarrow>
          let c2 = snd (serviceReadCompletions g c1);
              (event, c3) = serviceCommand g (queueEmpty c2) c2;
              c4 = run_command_event g event c3
          in Some (irq_sequence c4 \<noteq> irq_sequence c, c4))"

section \<open>Register access\<close>

definition sectorPayloadBytes :: "'x cdc \<Rightarrow> nat" where
  "sectorPayloadBytes c = (if cd_mode c AND kModeWholeSector \<noteq> 0 then 12 + kDataSectorBytes else kDataSectorBytes)"

definition writeRequestRegister :: "'x cdc_env \<Rightarrow> u8 \<Rightarrow> 'x cdc \<Rightarrow> 'x cdc" where
  "writeRequestRegister g v c =
     (if v AND 0x80 = 0 then
        let c1 = c\<lparr>bfrd := False\<rparr> in if v AND 0x40 = 0 then c1\<lparr>data_rd := length (data c1)\<rparr> else c1
      else
        let flushed = length (data c) > 0 \<and> data_rd c \<ge> length (data c);
            fresh_request = \<not> bfrd c;
            c1 = c\<lparr>bfrd := True\<rparr>
        in if \<not> reading c1 \<and> \<not> following_sector_ready c1 then (if flushed then c1\<lparr>data_rd := 0\<rparr> else c1)
           else if following_sector_ready c1 \<and> (length (data c1) = 0 \<or> data_rd c1 \<ge> sectorPayloadBytes c1) then
             let c2 = c1\<lparr>loc_lba := loc_lba c1 + 1, following_sector_ready := False\<rparr>;
                 (ok, c3) = loadSector g (loc_lba c2) c2
             in if \<not> ok then snd (stopContinuousRead DriveStopped c3) else scheduleSectorEvent g c3
           else
             let c2 = (if flushed then c1\<lparr>data_rd := 0\<rparr> else c1)
             in if fresh_request \<and> length (data c2) > 0 \<and> \<not> following_sector_ready c2 then scheduleSectorEvent g c2
                else c2)"

definition status_register :: "'x cdc \<Rightarrow> u8" where
  "status_register c =
     ucast (bank c) OR (if param c = [] then 0x08 else 0) OR (if length (param c) < 16 then 0x10 else 0) OR
     (if resp_rd c < length (resp (resultsEntry c)) then 0x20 else 0) OR
     (if bfrd c \<and> data_rd c < length (data c) then 0x40 else 0) OR
     (if command_event_armed c \<and> command_phase c \<le> 1 then 0x80 else 0)"

definition cdc_read :: "CdcRegister \<Rightarrow> 'x cdc \<Rightarrow> u32 \<times> 'x cdc" where
  "cdc_read r c =
     (case r of
        RegIndex \<Rightarrow> (ucast (status_register c), c)
      | RegResponse \<Rightarrow>
          let f = resultsEntry c
          in if resp_rd c < length (resp f) then (ucast (resp f ! resp_rd c), c\<lparr>resp_rd := resp_rd c + 1\<rparr>) else (0, c)
      | RegParameter \<Rightarrow>
          if \<not> bfrd c \<or> data_rd c \<ge> length (data c) then (0, c)
          else
            let b = data c ! data_rd c; c1 = c\<lparr>data_rd := data_rd c + 1\<rparr>
            in (ucast b, if data_rd c1 \<ge> length (data c1) then sectorConsumed c1 else c1)
      | RegRequest \<Rightarrow>
          (if bank c AND 1 \<noteq> 0 then (if queueEmpty c then 0xE0 else ucast (0xE0 OR irq_type (q c ! q_head c)))
           else ucast (irq_en c OR 0xE0), c))"

definition acknowledge_irq :: "u8 \<Rightarrow> 'x cdc \<Rightarrow> 'x cdc" where
  "acknowledge_irq v c =
     (if v AND 0x07 = 0 \<or> queueEmpty c then c
      else
        let c1 = c\<lparr>q_head := (q_head c + 1) mod 8\<rparr>
        in if queueEmpty c1 then c1 else responseBecameCurrent (c1\<lparr>resp_rd := 0\<rparr>))"

text \<open>\<open>None\<close> is the assertion of \<open>scheduleCommand\<close>.\<close>

definition cdc_write :: "'x cdc_env \<Rightarrow> CdcRegister \<Rightarrow> u8 \<Rightarrow> 'x cdc \<Rightarrow> 'x cdc option" where
  "cdc_write g r v c =
     (case r of
        RegIndex \<Rightarrow> Some (c\<lparr>bank := ucast v\<rparr>)
      | RegResponse \<Rightarrow> if bank c = 0 then scheduleCommand g v c else Some c
      | RegParameter \<Rightarrow>
          if bank c = 0 then Some (if length (param c) < 16 then c\<lparr>param := param c @ [v]\<rparr> else c)
          else if bank c = 1 then
            (let line_was_asserted = irqLine c; c1 = c\<lparr>irq_en := v\<rparr>
             in Some (if \<not> line_was_asserted \<and> irqLine c1 then c1\<lparr>irq_edge := True\<rparr> else c1))
          else Some c
      | RegRequest \<Rightarrow>
          if bank c = 1 then
            (let c1 = acknowledge_irq v c in Some (if v AND 0x40 \<noteq> 0 then c1\<lparr>param := []\<rparr> else c1))
          else if bank c = 0 then Some (writeRequestRegister g v c)
          else Some c)"

lemma status_response_ready:
  "fst (cdc_read RegIndex c) AND kCdcStatResponseReady \<noteq> 0 \<longleftrightarrow> resp_rd c < length (resp (resultsEntry c))"
proof -
  have "fst (cdc_read RegIndex c) AND 2 ^ 5 = 0 \<longleftrightarrow> \<not> bit (status_register c) 5"
    unfolding and_exp_eq_0_iff_not_bit by (simp add: cdc_read_def bit_simps)
  moreover have "\<not> bit (ucast (bank c) :: u8) 5" by (auto simp: bit_simps dest: bit_imp_le_length)
  then have "bit (status_register c) 5 \<longleftrightarrow> resp_rd c < length (resp (resultsEntry c))"
    unfolding status_register_def bit_or_iff by simp
  ultimately show ?thesis by (simp add: kCdcStatResponseReady_def)
qed

function take_loop :: "'x cdc \<Rightarrow> u8 list \<times> 'x cdc" where
  "take_loop c =
     (if fst (cdc_read RegIndex c) AND kCdcStatResponseReady \<noteq> 0 then
        let (v, c1) = cdc_read RegResponse c; (vs, c2) = take_loop c1 in (ucast v # vs, c2)
      else ([], c))"
  by pat_completeness auto
termination
  by (relation "measure (\<lambda>c. length (resp (resultsEntry c)) - resp_rd c)")
    (auto simp: status_response_ready, auto simp: cdc_read_def Let_def resultsEntry_def queueEmpty_def split: if_splits)

declare take_loop.simps [simp del]

text \<open>The first \<open>capacity\<close> bytes drained, how many there were, and the controller after them.\<close>

definition takeCurrentResponse :: "nat \<Rightarrow> 'x cdc \<Rightarrow> (u8 list \<times> nat) \<times> 'x cdc" where
  "takeCurrentResponse capacity c =
     (let savedBank = bank c; (bs, c1) = take_loop c in ((take capacity bs, length bs), c1\<lparr>bank := savedBank\<rparr>))"

text \<open>The FIFO words of \<open>dmaRead\<close>: how many are read and where the cursor ends.\<close>

fun dma_words :: "nat \<Rightarrow> nat \<Rightarrow> u8 list \<Rightarrow> u32 list \<times> nat" where
  "dma_words 0 rd bs = ([], rd)"
| "dma_words (Suc n) rd bs =
     (if rd + 4 \<le> length bs then
        let w = ucast (bs ! rd) OR push_bit 8 (ucast (bs ! (rd + 1))) OR push_bit 16 (ucast (bs ! (rd + 2))) OR
              push_bit 24 (ucast (bs ! (rd + 3)));
            (ws, rd') = dma_words n (rd + 4) bs
        in (w # ws, rd')
      else ([], rd))"

definition dmaRead :: "int \<Rightarrow> 'x cdc \<Rightarrow> (u32 list \<times> nat) \<times> 'x cdc" where
  "dmaRead n_words c =
     (if n_words \<le> 0 then (([], 0), c)
      else if \<not> bfrd c then ((replicate (nat n_words) 0, 0), c)
      else
        let (ws, rd) = dma_words (nat n_words) (data_rd c) (data c);
            c1 = c\<lparr>data_rd := rd\<rparr>
        in ((ws @ replicate (nat n_words - length ws) 0, length ws),
            if ws \<noteq> [] \<and> rd \<ge> length (data c) then sectorConsumed c1 else c1))"

end
