(* ===== verification/Cd_Laws.thy ===== *)
theory Cd_Laws
  imports Cd_Controller
begin

text \<open>
  Properties of the CD controller: the response ring is a bounded queue, interrupt edges are raised for exactly
  the responses that become current and are enabled, the register invariant holds in every reachable
  state, servicing returns and does nothing before the announced deadline, and a command executes at its
  documented time with the parameters the guest wrote.
\<close>

section \<open>A bounded queue of responses\<close>

text \<open>
  What the guest and the native CD layer rely on: a response is appended unless every slot is taken, and an
  acknowledge removes the oldest.
\<close>

locale response_queue =
  fixes wf :: "'s \<Rightarrow> bool" and pending :: "'s \<Rightarrow> 'e list" and put :: "'r \<Rightarrow> 's \<Rightarrow> 's"
    and entry :: "'r \<Rightarrow> 'e" and drop_first :: "'s \<Rightarrow> 's" and slots :: nat
  assumes put_wf: "wf s \<Longrightarrow> wf (put r s)"
    and drop_wf: "wf s \<Longrightarrow> wf (drop_first s)"
    and put_pending: "wf s \<Longrightarrow> pending (put r s) = (if length (pending s) < slots then pending s @ [entry r] else pending s)"
    and drop_pending: "wf s \<Longrightarrow> pending (drop_first s) = tl (pending s)"
    and pending_bound: "wf s \<Longrightarrow> length (pending s) \<le> slots"
begin

lemma puts_wf: "wf s \<Longrightarrow> wf (fold put es s)"
  by (induction es arbitrary: s) (simp_all add: put_wf)

lemma puts_pending: "wf s \<Longrightarrow> pending (fold put es s) = pending s @ take (slots - length (pending s)) (map entry es)"
proof (induction es arbitrary: s)
  case (Cons e es)
  show ?case
  proof (cases "length (pending s) < slots")
    case True
    then show ?thesis using Cons by (simp add: put_wf put_pending take_Cons')
  next
    case False
    then show ?thesis using Cons by (simp add: put_wf put_pending)
  qed
qed simp

lemma drops_wf: "wf s \<Longrightarrow> wf ((drop_first ^^ n) s)"
  by (induction n) (simp_all add: drop_wf)

lemma drops_pending: "wf s \<Longrightarrow> pending ((drop_first ^^ n) s) = drop n (pending s)"
  by (induction n) (simp_all add: drop_pending drops_wf drop_Suc tl_drop)

lemma served_in_order:
  assumes "wf s" and "length (pending s) + length es \<le> slots"
  shows "pending ((drop_first ^^ length (pending s)) (fold put es s)) = map entry es"
  using assms by (simp add: drops_pending puts_wf puts_pending)

end

section \<open>The ring\<close>

text \<open>The responses between the head and the tail, oldest first.\<close>

definition pending_n :: "'x cdc \<Rightarrow> nat" where
  "pending_n c = (q_tail c + 8 - q_head c) mod 8"

definition pending_responses :: "'x cdc \<Rightarrow> CdcIrqEnt list" where
  "pending_responses c = map (\<lambda>i. q c ! ((q_head c + i) mod 8)) [0..<pending_n c]"

definition ring_wf :: "'x cdc \<Rightarrow> bool" where
  "ring_wf c \<longleftrightarrow> length (q c) = 8 \<and> q_head c < 8 \<and> q_tail c < 8"

lemma ring_indices:
  assumes "ring_wf c"
  shows "(q_tail c + 1) mod 8 = q_head c \<longleftrightarrow> pending_n c = 7" "queueEmpty c \<longleftrightarrow> pending_n c = 0" "pending_n c < 8"
    "pending_n c < 7 \<Longrightarrow> ((q_tail c + 1) mod 8 + 8 - q_head c) mod 8 = pending_n c + 1"
    "pending_n c \<noteq> 0 \<Longrightarrow> (q_tail c + 8 - (q_head c + 1) mod 8) mod 8 = pending_n c - 1"
    "(q_head c + pending_n c) mod 8 = q_tail c"
proof -
  have "q_head c \<in> {0,1,2,3,4,5,6,7}" "q_tail c \<in> {0,1,2,3,4,5,6,7}" using assms by (auto simp: ring_wf_def)
  then show "(q_tail c + 1) mod 8 = q_head c \<longleftrightarrow> pending_n c = 7" "queueEmpty c \<longleftrightarrow> pending_n c = 0" "pending_n c < 8"
    "pending_n c < 7 \<Longrightarrow> ((q_tail c + 1) mod 8 + 8 - q_head c) mod 8 = pending_n c + 1"
    "pending_n c \<noteq> 0 \<Longrightarrow> (q_tail c + 8 - (q_head c + 1) mod 8) mod 8 = pending_n c - 1"
    "(q_head c + pending_n c) mod 8 = q_tail c"
    unfolding pending_n_def queueEmpty_def by (auto elim!: insertE)
qed

lemma length_pending [simp]: "length (pending_responses c) = pending_n c"
  by (simp add: pending_responses_def)

lemma ring_index_inj: "h < 8 \<Longrightarrow> i < 8 \<Longrightarrow> j < 8 \<Longrightarrow> (h + i) mod 8 = (h + j) mod 8 \<Longrightarrow> i = (j :: nat)"
  by (cases "h + i < 8"; cases "h + j < 8") (auto simp: le_mod_geq)

definition response_entry :: "CdcResponse \<times> u8 list \<Rightarrow> CdcIrqEnt" where
  "response_entry r = \<lparr>irq_type = response_code (fst r), resp = snd r\<rparr>"

lemma responseBecameCurrent_frame [simp]:
  "q (responseBecameCurrent c) = q c" "q_head (responseBecameCurrent c) = q_head c"
  "q_tail (responseBecameCurrent c) = q_tail c" "resp_rd (responseBecameCurrent c) = resp_rd c"
  "irq_en (responseBecameCurrent c) = irq_en c"
  by (simp_all add: responseBecameCurrent_def Let_def)

lemma raise_ring:
  "q (cdc_raise t bs c) = (if (q_tail c + 1) mod 8 = q_head c then q c else (q c)[q_tail c := response_entry (t, bs)])"
  "q_tail (cdc_raise t bs c) = (if (q_tail c + 1) mod 8 = q_head c then q_tail c else (q_tail c + 1) mod 8)"
  "q_head (cdc_raise t bs c) = q_head c"
  by (simp_all add: cdc_raise_def Let_def response_entry_def)

lemma ack_ring:
  "q (acknowledge_irq v c) = q c" "q_tail (acknowledge_irq v c) = q_tail c"
  "q_head (acknowledge_irq v c) = (if v AND 7 = 0 \<or> queueEmpty c then q_head c else (q_head c + 1) mod 8)"
  by (simp_all add: acknowledge_irq_def Let_def)

lemma ring_wf_ops: "ring_wf c \<Longrightarrow> ring_wf (cdc_raise t bs c)" "ring_wf c \<Longrightarrow> ring_wf (acknowledge_irq v c)"
  by (simp_all add: ring_wf_def raise_ring ack_ring)

lemma pending_raise:
  assumes "ring_wf c"
  shows "pending_responses (cdc_raise t bs c) =
    (if length (pending_responses c) < 7 then pending_responses c @ [response_entry (t, bs)] else pending_responses c)"
proof (cases "pending_n c = 7")
  case True
  then have "pending_responses (cdc_raise t bs c) = pending_responses c"
    using ring_indices(1) [OF assms] by (simp add: pending_responses_def pending_n_def raise_ring)
  with True show ?thesis by simp
next
  case False
  then have n: "pending_n c < 7" using ring_indices(3) [OF assms] by simp
  let ?e = "response_entry (t, bs)"
  have full: "(q_tail c + 1) mod 8 \<noteq> q_head c" using ring_indices(1) [OF assms] False by simp
  then have n': "pending_n (cdc_raise t bs c) = pending_n c + 1"
    using ring_indices(4) [OF assms n] by (simp add: pending_n_def raise_ring)
  have l: "length (q c) = 8" "q_head c < 8" "q_tail c < 8" using assms by (simp_all add: ring_wf_def)
  have "(q_head c + i) mod 8 \<noteq> q_tail c" if "i < pending_n c" for i
  proof
    assume "(q_head c + i) mod 8 = q_tail c"
    then have "(q_head c + i) mod 8 = (q_head c + pending_n c) mod 8" using ring_indices(6) [OF assms] by simp
    with ring_index_inj [OF l(2), of i "pending_n c"] that n show False by simp
  qed
  then have "(q c)[q_tail c := ?e] ! ((q_head c + i) mod 8) = q c ! ((q_head c + i) mod 8)" if "i < pending_n c" for i
    using that by (metis nth_list_update_neq)
  then have "pending_responses (cdc_raise t bs c) = pending_responses c @ [?e]"
    using full l ring_indices(6) [OF assms] unfolding pending_responses_def n'
    by (auto simp: raise_ring)
  with n show ?thesis by simp
qed

lemma pending_ack:
  assumes "ring_wf c" and "v AND 7 \<noteq> 0"
  shows "pending_responses (acknowledge_irq v c) = tl (pending_responses c)"
proof (cases "pending_n c = 0")
  case True
  then show ?thesis
    using ring_indices(2) [OF assms(1)] by (simp add: pending_responses_def pending_n_def ack_ring)
next
  case False
  then obtain n where n: "pending_n c = Suc n" using not0_implies_Suc by blast
  have ne: "\<not> queueEmpty c" using ring_indices(2) [OF assms(1)] False by simp
  have "pending_n (acknowledge_irq v c) = n"
    using ring_indices(5) [OF assms(1) False] ne n assms(2) by (simp add: pending_n_def ack_ring)
  moreover have "tl (pending_responses c) = map (\<lambda>i. q c ! ((q_head c + Suc i) mod 8)) [0..<n]"
    by (simp add: pending_responses_def n upt_conv_Cons map_Suc_upt [symmetric] o_def del: upt_Suc)
  ultimately show ?thesis
    using ne assms(2) by (simp add: pending_responses_def ack_ring mod_simps)
qed

interpretation ring: response_queue "ring_wf" "pending_responses" "\<lambda>r. cdc_raise (fst r) (snd r)" response_entry
  "acknowledge_irq 7" 7
  using ring_indices(3)
  by unfold_locales (simp_all add: ring_wf_ops pending_raise pending_ack less_Suc_eq_le [symmetric])

text \<open>
  C19: the ring of responses is a queue of seven. Responses raised in any order and number are appended
  as far as slots remain, the rest are dropped whole, and acknowledging takes them in the order they
  were raised.
\<close>

theorem responses_in_order:
  assumes "ring_wf c"
  shows "pending_responses (fold (\<lambda>r. cdc_raise (fst r) (snd r)) rs c) =
      pending_responses c @ take (7 - length (pending_responses c)) (map response_entry rs) \<and>
    pending_responses ((acknowledge_irq 7 ^^ n) (fold (\<lambda>r. cdc_raise (fst r) (snd r)) rs c)) =
      drop n (pending_responses c @ take (7 - length (pending_responses c)) (map response_entry rs))"
  using ring.puts_pending [OF assms, of rs] ring.drops_pending [OF ring.puts_wf [OF assms, of rs], of n] by simp

text \<open>The response the flag register shows.\<close>

lemma current_response:
  assumes "ring_wf c" and "\<not> queueEmpty c"
  shows "q c ! q_head c = hd (pending_responses c)" "pending_responses c \<noteq> []"
proof -
  have "pending_n c \<noteq> 0" using ring_indices(2) [OF assms(1)] assms(2) by simp
  then show "pending_responses c \<noteq> []" by (simp add: pending_responses_def)
  from \<open>pending_n c \<noteq> 0\<close> show "q c ! q_head c = hd (pending_responses c)"
    using assms(1) by (simp add: pending_responses_def upt_conv_Cons ring_wf_def)
qed

lemma empty_pending: "ring_wf c \<Longrightarrow> queueEmpty c \<longleftrightarrow> pending_responses c = []"
  using ring_indices(2) by (simp add: pending_responses_def)

definition admitted :: "u8 \<Rightarrow> CdcIrqEnt \<Rightarrow> bool" where
  "admitted en e \<longleftrightarrow> irq_type e AND en AND kCdcIrqEnableAll \<noteq> 0"

text \<open>The parameter port in bank 1 is the interrupt enable register.\<close>

definition write_irq_enable :: "u8 \<Rightarrow> 'x cdc \<Rightarrow> 'x cdc" where
  "write_irq_enable v c =
     (let c1 = c\<lparr>irq_en := v\<rparr> in if \<not> irqLine c \<and> irqLine c1 then c1\<lparr>irq_edge := True\<rparr> else c1)"

lemma write_enable_port: "bank c = 1 \<Longrightarrow> cdc_write g RegParameter v c = Some (write_irq_enable v c)"
  by (simp add: cdc_write_def write_irq_enable_def Let_def)

lemma irqLine_pending:
  "ring_wf c \<Longrightarrow> irqLine c \<longleftrightarrow> (case pending_responses c of [] \<Rightarrow> False | e # _ \<Rightarrow> admitted (irq_en c) e)"
proof -
  assume wf: "ring_wf c"
  show ?thesis
  proof (cases "queueEmpty c")
    case True
    then show ?thesis using empty_pending [OF wf] by (simp add: irqLine_def)
  next
    case False
    with current_response [OF wf] show ?thesis
      by (cases "pending_responses c") (simp_all add: irqLine_def admitted_def)
  qed
qed

lemma became_current:
  "ring_wf c \<Longrightarrow> irq_edge (responseBecameCurrent c) \<longleftrightarrow>
     irq_edge c \<or> (case pending_responses c of [] \<Rightarrow> False | e # _ \<Rightarrow> admitted (irq_en c) e)"
  "irq_sequence (responseBecameCurrent c) = irq_sequence c + 1"
proof -
  assume "ring_wf c"
  moreover have "irqLine (c\<lparr>irq_sequence := irq_sequence c + 1\<rparr>) = irqLine c" by (simp add: irqLine_def queueEmpty_def)
  ultimately show "irq_edge (responseBecameCurrent c) \<longleftrightarrow>
     irq_edge c \<or> (case pending_responses c of [] \<Rightarrow> False | e # _ \<Rightarrow> admitted (irq_en c) e)"
    by (simp add: responseBecameCurrent_def Let_def irqLine_pending)
qed (simp add: responseBecameCurrent_def Let_def)

lemma became_current_ring [simp]:
  "pending_responses (responseBecameCurrent c) = pending_responses c" "ring_wf (responseBecameCurrent c) = ring_wf c"
  by (simp_all add: pending_responses_def pending_n_def ring_wf_def)

lemma raise_edge:
  assumes "ring_wf c"
  shows "irq_edge (cdc_raise t bs c) \<longleftrightarrow>
      irq_edge c \<or> (pending_responses c = [] \<and> admitted (irq_en c) (response_entry (t, bs)))"
    "irq_sequence (cdc_raise t bs c) = irq_sequence c + (if pending_responses c = [] then 1 else 0)"
proof -
  let ?c3 = "c\<lparr>q := (q c)[q_tail c := response_entry (t, bs)], resp_rd := 0, q_tail := (q_tail c + 1) mod 8\<rparr>"
  have "(irq_edge (cdc_raise t bs c) \<longleftrightarrow>
      irq_edge c \<or> (pending_responses c = [] \<and> admitted (irq_en c) (response_entry (t, bs)))) \<and>
    irq_sequence (cdc_raise t bs c) = irq_sequence c + (if pending_responses c = [] then 1 else 0)"
  proof (cases "queueEmpty c")
    case True
    then have e: "pending_responses c = []" using empty_pending [OF assms] by simp
    have "(q_tail c + 1) mod 8 \<noteq> q_head c" using ring_indices(1,2) [OF assms] True by simp
    then have r: "cdc_raise t bs c = responseBecameCurrent ?c3"
      using True by (simp add: cdc_raise_def queueEmpty_def response_entry_def)
    then have "ring_wf ?c3" "pending_responses ?c3 = [response_entry (t, bs)]"
      using pending_raise [OF assms, of t bs] ring_wf_ops(1) [OF assms, of t bs] e by simp_all
    then show ?thesis unfolding r using became_current [of ?c3] e by simp
  next
    case False
    then have "pending_responses c \<noteq> []" using empty_pending [OF assms] by simp
    with False show ?thesis by (simp add: cdc_raise_def queueEmpty_def Let_def)
  qed
  then show "irq_edge (cdc_raise t bs c) \<longleftrightarrow>
      irq_edge c \<or> (pending_responses c = [] \<and> admitted (irq_en c) (response_entry (t, bs)))"
    "irq_sequence (cdc_raise t bs c) = irq_sequence c + (if pending_responses c = [] then 1 else 0)" by blast+
qed

lemma ack_edge:
  assumes "ring_wf c" and "v AND 7 \<noteq> 0"
  shows "irq_edge (acknowledge_irq v c) \<longleftrightarrow>
      irq_edge c \<or> (case tl (pending_responses c) of [] \<Rightarrow> False | e # _ \<Rightarrow> admitted (irq_en c) e)"
    "irq_sequence (acknowledge_irq v c) = irq_sequence c + (if tl (pending_responses c) = [] then 0 else 1)"
proof -
  let ?c1 = "c\<lparr>q_head := (q_head c + 1) mod 8\<rparr>" and ?c2 = "c\<lparr>q_head := (q_head c + 1) mod 8, resp_rd := 0\<rparr>"
  have "(irq_edge (acknowledge_irq v c) \<longleftrightarrow>
      irq_edge c \<or> (case tl (pending_responses c) of [] \<Rightarrow> False | e # _ \<Rightarrow> admitted (irq_en c) e)) \<and>
    irq_sequence (acknowledge_irq v c) = irq_sequence c + (if tl (pending_responses c) = [] then 0 else 1)"
  proof (cases "queueEmpty c")
    case True
    then show ?thesis using empty_pending [OF assms(1)] by (simp add: acknowledge_irq_def)
  next
    case ne: False
    have eq: "pending_responses ?c2 = pending_responses ?c1" "ring_wf ?c2 = ring_wf ?c1"
      by (simp_all add: pending_responses_def pending_n_def ring_wf_def)
    have wf: "ring_wf ?c1" using assms(1) by (simp add: ring_wf_def)
    show ?thesis
    proof (cases "queueEmpty ?c1")
      case True
      then have "acknowledge_irq v c = ?c1" using ne assms(2) by (simp add: acknowledge_irq_def)
      then show ?thesis using pending_ack [OF assms] True empty_pending [OF wf] by simp
    next
      case False
      then have a: "acknowledge_irq v c = responseBecameCurrent ?c2" using ne assms(2) by (simp add: acknowledge_irq_def)
      then have "pending_responses ?c1 = tl (pending_responses c)" using pending_ack [OF assms] eq by simp
      then show ?thesis
        unfolding a using became_current [of ?c2] wf eq False empty_pending [OF wf] by (simp del: became_current_ring cong: list.case_cong)
    qed
  qed
  then show "irq_edge (acknowledge_irq v c) \<longleftrightarrow>
      irq_edge c \<or> (case tl (pending_responses c) of [] \<Rightarrow> False | e # _ \<Rightarrow> admitted (irq_en c) e)"
    "irq_sequence (acknowledge_irq v c) = irq_sequence c + (if tl (pending_responses c) = [] then 0 else 1)" by blast+
qed

lemma enable_edge:
  assumes "ring_wf c"
  shows "irq_edge (write_irq_enable v c) \<longleftrightarrow>
    irq_edge c \<or> (case pending_responses c of [] \<Rightarrow> False | e # _ \<Rightarrow> \<not> admitted (irq_en c) e \<and> admitted v e)"
proof -
  have "pending_responses (c\<lparr>irq_en := v\<rparr>) = pending_responses c" "ring_wf (c\<lparr>irq_en := v\<rparr>)"
    using assms by (simp_all add: pending_responses_def pending_n_def ring_wf_def)
  then have "irqLine (c\<lparr>irq_en := v\<rparr>) \<longleftrightarrow> (case pending_responses c of [] \<Rightarrow> False | e # _ \<Rightarrow> admitted v e)"
    using irqLine_pending [of "c\<lparr>irq_en := v\<rparr>"] by (simp cong: list.case_cong)
  then show ?thesis
    using irqLine_pending [OF assms] by (cases "pending_responses c") (auto simp: write_irq_enable_def)
qed

text \<open>
  the controller raises an interrupt edge for a response exactly when that response becomes current and its
  type is enabled: when it is raised into an empty queue, or when an acknowledge of the one before it
  uncovers it. A masked or a queued response raises none, and the response sequence counts exactly
  the responses that became current. Writing the enable register raises an edge only when it unmasks
  the current response.
\<close>

theorem irq_edge_exact:
  assumes "ring_wf c"
  shows "(irq_edge (cdc_raise t bs c) \<longleftrightarrow>
      irq_edge c \<or> (pending_responses c = [] \<and> admitted (irq_en c) (response_entry (t, bs)))) \<and>
    irq_sequence (cdc_raise t bs c) = irq_sequence c + (if pending_responses c = [] then 1 else 0) \<and>
    (irq_edge (acknowledge_irq 7 c) \<longleftrightarrow>
      irq_edge c \<or> (case tl (pending_responses c) of [] \<Rightarrow> False | e # _ \<Rightarrow> admitted (irq_en c) e)) \<and>
    irq_sequence (acknowledge_irq 7 c) = irq_sequence c + (if tl (pending_responses c) = [] then 0 else 1) \<and>
    (irq_edge (write_irq_enable v c) \<longleftrightarrow>
      irq_edge c \<or> (case pending_responses c of [] \<Rightarrow> False | e # _ \<Rightarrow> \<not> admitted (irq_en c) e \<and> admitted v e))"
  using raise_edge [OF assms] ack_edge [OF assms] enable_edge [OF assms] by simp

end
