(* ===== verification/Cd_Reachable.thy ===== *)
theory Cd_Reachable
  imports Cd_Laws
begin

text \<open>
  The controller as a state machine: every entry point of \<open>CdController\<close> is a step, taken with any clock value
  and any disc, and the register invariant is proved of every reachable state.
\<close>

section \<open>The invariant\<close>

text \<open>
  The bounds of the arrays the registers index, the response cursor within the response the port shows, and the drive's rule that a sector event is armed only while a read
  is running and no announced sector waits.
\<close>

definition cdc_inv :: "'x cdc \<Rightarrow> bool" where
  "cdc_inv c \<longleftrightarrow> ring_wf c \<and> (\<forall>e\<in>set (q c). length (resp e) \<le> 16) \<and> data_rd c \<le> length (data c) \<and>
     length (data c) \<le> 2340 \<and> length (param c) \<le> 16 \<and> length (command_args c) \<le> 16 \<and>
     length (read_completion_deadline_ticks c) \<le> 4 \<and> length (sector_header c) = 8 \<and>
     resp_rd c \<le> length (resp (resultsEntry c)) \<and>
     (drive_event_armed c \<longrightarrow> reading c \<and> \<not> following_sector_ready c)"

text \<open>The disc backend's contract: a raw sector is 2352 bytes and a GetlocP answer eight.\<close>

definition env_ok :: "'x cdc_env \<Rightarrow> bool" where
  "env_ok g \<longleftrightarrow> (\<forall>lba raw. disc_read_raw_fn g lba = Some raw \<longrightarrow> length raw = kRawSectorBytes) \<and>
     (\<forall>lba p. disc_get_subq_position_fn g lba = Some p \<longrightarrow> length p = 8)"

lemma results_frame [simp]:
  "resultsEntry (c\<lparr>bank := y0\<rparr>) = resultsEntry c"
  "resultsEntry (c\<lparr>irq_en := y1\<rparr>) = resultsEntry c"
  "resultsEntry (c\<lparr>stat := y2\<rparr>) = resultsEntry c"
  "resultsEntry (c\<lparr>loc_lba := y3\<rparr>) = resultsEntry c"
  "resultsEntry (c\<lparr>command_lba := y4\<rparr>) = resultsEntry c"
  "resultsEntry (c\<lparr>sector_header_valid := y5\<rparr>) = resultsEntry c"
  "resultsEntry (c\<lparr>cd_mode := y6\<rparr>) = resultsEntry c"
  "resultsEntry (c\<lparr>filter_file := y7\<rparr>) = resultsEntry c"
  "resultsEntry (c\<lparr>filter_chan := y8\<rparr>) = resultsEntry c"
  "resultsEntry (c\<lparr>first_sector_pending := y9\<rparr>) = resultsEntry c"
  "resultsEntry (c\<lparr>bfrd := y10\<rparr>) = resultsEntry c"
  "resultsEntry (c\<lparr>drive_deadline_ticks := y11\<rparr>) = resultsEntry c"
  "resultsEntry (c\<lparr>command_event_armed := y12\<rparr>) = resultsEntry c"
  "resultsEntry (c\<lparr>pending_command := y13\<rparr>) = resultsEntry c"
  "resultsEntry (c\<lparr>command_phase := y14\<rparr>) = resultsEntry c"
  "resultsEntry (c\<lparr>command_arg_latch := y15\<rparr>) = resultsEntry c"
  "resultsEntry (c\<lparr>command_deadline_ticks := y16\<rparr>) = resultsEntry c"
  "resultsEntry (c\<lparr>irq_sequence := y17\<rparr>) = resultsEntry c"
  "resultsEntry (c\<lparr>irq_edge := y18\<rparr>) = resultsEntry c"
  "resultsEntry (c\<lparr>disc := y19\<rparr>) = resultsEntry c"
  "resultsEntry (c\<lparr>xa := y20\<rparr>) = resultsEntry c"
  "resultsEntry (c\<lparr>resp_rd := y21\<rparr>) = resultsEntry c"
  "resultsEntry (c\<lparr>data := y22\<rparr>) = resultsEntry c"
  "resultsEntry (c\<lparr>data_rd := y23\<rparr>) = resultsEntry c"
  "resultsEntry (c\<lparr>param := y24\<rparr>) = resultsEntry c"
  "resultsEntry (c\<lparr>command_args := y25\<rparr>) = resultsEntry c"
  "resultsEntry (c\<lparr>read_completion_deadline_ticks := y26\<rparr>) = resultsEntry c"
  "resultsEntry (c\<lparr>sector_header := y27\<rparr>) = resultsEntry c"
  "resultsEntry (c\<lparr>drive_event_armed := y28\<rparr>) = resultsEntry c"
  "resultsEntry (c\<lparr>reading := y29\<rparr>) = resultsEntry c"
  "resultsEntry (c\<lparr>following_sector_ready := y30\<rparr>) = resultsEntry c"
  by (simp_all add: resultsEntry_def queueEmpty_def)

lemma cdc_inv_frame:
  "cdc_inv (c\<lparr>bank := b\<rparr>) = cdc_inv c" "cdc_inv (c\<lparr>irq_en := v\<rparr>) = cdc_inv c" "cdc_inv (c\<lparr>stat := v\<rparr>) = cdc_inv c"
  "cdc_inv (c\<lparr>loc_lba := l\<rparr>) = cdc_inv c" "cdc_inv (c\<lparr>command_lba := l\<rparr>) = cdc_inv c"
  "cdc_inv (c\<lparr>sector_header_valid := b1\<rparr>) = cdc_inv c" "cdc_inv (c\<lparr>cd_mode := v\<rparr>) = cdc_inv c"
  "cdc_inv (c\<lparr>filter_file := v\<rparr>) = cdc_inv c" "cdc_inv (c\<lparr>filter_chan := v\<rparr>) = cdc_inv c"
  "cdc_inv (c\<lparr>first_sector_pending := b1\<rparr>) = cdc_inv c" "cdc_inv (c\<lparr>bfrd := b1\<rparr>) = cdc_inv c"
  "cdc_inv (c\<lparr>drive_deadline_ticks := t\<rparr>) = cdc_inv c" "cdc_inv (c\<lparr>command_event_armed := b1\<rparr>) = cdc_inv c"
  "cdc_inv (c\<lparr>pending_command := v\<rparr>) = cdc_inv c" "cdc_inv (c\<lparr>command_phase := ph\<rparr>) = cdc_inv c"
  "cdc_inv (c\<lparr>command_arg_latch := v\<rparr>) = cdc_inv c" "cdc_inv (c\<lparr>command_deadline_ticks := t\<rparr>) = cdc_inv c"
  "cdc_inv (c\<lparr>irq_sequence := t\<rparr>) = cdc_inv c"
  "cdc_inv (c\<lparr>irq_edge := b1\<rparr>) = cdc_inv c" "cdc_inv (c\<lparr>disc := d\<rparr>) = cdc_inv c" "cdc_inv (c\<lparr>xa := x\<rparr>) = cdc_inv c"
  by (simp_all add: cdc_inv_def ring_wf_def)

lemma cdc_inv_data: "cdc_inv c \<Longrightarrow> n \<le> length bs \<Longrightarrow> length bs \<le> 2340 \<Longrightarrow> cdc_inv (c\<lparr>data := bs, data_rd := n\<rparr>)"
  "cdc_inv c \<Longrightarrow> n \<le> length (data c) \<Longrightarrow> cdc_inv (c\<lparr>data_rd := n\<rparr>)"
  "cdc_inv c \<Longrightarrow> length ps \<le> 16 \<Longrightarrow> cdc_inv (c\<lparr>param := ps\<rparr>)"
  "cdc_inv c \<Longrightarrow> length ps \<le> 16 \<Longrightarrow> cdc_inv (c\<lparr>command_args := ps\<rparr>)"
  "cdc_inv c \<Longrightarrow> length ds \<le> 4 \<Longrightarrow> cdc_inv (c\<lparr>read_completion_deadline_ticks := ds\<rparr>)"
  "cdc_inv c \<Longrightarrow> length h = 8 \<Longrightarrow> cdc_inv (c\<lparr>sector_header := h\<rparr>)"
  "cdc_inv c \<Longrightarrow> n \<le> length (resp (resultsEntry c)) \<Longrightarrow> cdc_inv (c\<lparr>resp_rd := n\<rparr>)"
  by (simp_all add: cdc_inv_def ring_wf_def)

lemma cdc_inv_drive:
  "cdc_inv c \<Longrightarrow> cdc_inv (c\<lparr>drive_event_armed := False\<rparr>)"
  "cdc_inv c \<Longrightarrow> \<not> drive_event_armed c \<Longrightarrow> cdc_inv (c\<lparr>reading := b1\<rparr>)"
  "cdc_inv c \<Longrightarrow> cdc_inv (c\<lparr>following_sector_ready := False\<rparr>)"
  "cdc_inv c \<Longrightarrow> \<not> drive_event_armed c \<Longrightarrow> cdc_inv (c\<lparr>following_sector_ready := b1\<rparr>)"
  "cdc_inv c \<Longrightarrow> reading c \<Longrightarrow> \<not> following_sector_ready c \<Longrightarrow> cdc_inv (c\<lparr>drive_event_armed := b1\<rparr>)"
  by (simp_all add: cdc_inv_def ring_wf_def)

lemmas inv_rules = cdc_inv_frame cdc_inv_data cdc_inv_drive

section \<open>What raising a response leaves alone\<close>

lemma raise_frame [simp]:
  "bank (cdc_raise t bs c) = bank c" "param (cdc_raise t bs c) = param c" "data (cdc_raise t bs c) = data c"
  "data_rd (cdc_raise t bs c) = data_rd c" "stat (cdc_raise t bs c) = stat c" "loc_lba (cdc_raise t bs c) = loc_lba c"
  "command_lba (cdc_raise t bs c) = command_lba c" "sector_header (cdc_raise t bs c) = sector_header c"
  "cd_mode (cdc_raise t bs c) = cd_mode c" "reading (cdc_raise t bs c) = reading c"
  "following_sector_ready (cdc_raise t bs c) = following_sector_ready c"
  "drive_event_armed (cdc_raise t bs c) = drive_event_armed c"
  "command_args (cdc_raise t bs c) = command_args c"
  "read_completion_deadline_ticks (cdc_raise t bs c) = read_completion_deadline_ticks c"
  by (simp_all add: cdc_raise_def responseBecameCurrent_def Let_def)

text \<open>A response that is not the current one leaves the port where it was; one that becomes current is read from its start.\<close>

lemma raise_cursor:
  assumes "ring_wf c" and "resp_rd c \<le> length (resp (resultsEntry c))"
  shows "resp_rd (cdc_raise t bs c) \<le> length (resp (resultsEntry (cdc_raise t bs c)))"
proof (cases "(q_tail c + 1) mod 8 = q_head c \<or> q_tail c = q_head c")
  case True
  then show ?thesis
  proof
    assume full: "(q_tail c + 1) mod 8 = q_head c"
    then have "cdc_raise t bs c = c" by (simp add: cdc_raise_def Let_def)
    then show ?thesis using assms(2) by simp
  next
    assume empty: "q_tail c = q_head c"
    have "(q_tail c + 1) mod 8 \<noteq> q_tail c" using assms(1) by (auto simp: ring_wf_def mod_Suc)
    then have "resp_rd (cdc_raise t bs c) = 0" using empty by (simp add: cdc_raise_def Let_def)
    then show ?thesis by simp
  qed
next
  case False
  then have "resultsEntry (cdc_raise t bs c) = resultsEntry c"
    by (simp add: resultsEntry_def queueEmpty_def raise_ring)
  moreover have "resp_rd (cdc_raise t bs c) = resp_rd c" using False by (simp add: cdc_raise_def Let_def)
  ultimately show ?thesis using assms(2) by simp
qed

lemma inv_raise: "cdc_inv c \<Longrightarrow> length bs \<le> 16 \<Longrightarrow> cdc_inv (cdc_raise t bs c)"
  using set_update_subset_insert [of "q c" "q_tail c" "response_entry (t, bs)"] raise_cursor [of c t bs]
  by (auto simp: cdc_inv_def ring_wf_ops raise_ring response_entry_def split: if_splits)

lemma ack_cursor:
  assumes "ring_wf c" and "resp_rd c \<le> length (resp (resultsEntry c))"
  shows "resp_rd (acknowledge_irq v c) \<le> length (resp (resultsEntry (acknowledge_irq v c)))"
proof (cases "v AND 7 = 0 \<or> queueEmpty c")
  case True
  then show ?thesis using assms(2) by (auto simp: acknowledge_irq_def)
next
  case False
  have before: "((q_head c + 1) mod 8 + 7) mod 8 = q_head c"
    using assms(1) by (simp add: ring_wf_def mod_simps)
  show ?thesis
  proof (cases "(q_head c + 1) mod 8 = q_tail c")
    case True
    then have "acknowledge_irq v c = c\<lparr>q_head := (q_head c + 1) mod 8\<rparr>"
      using False by (simp add: acknowledge_irq_def Let_def queueEmpty_def)
    moreover have "resultsEntry (c\<lparr>q_head := (q_head c + 1) mod 8\<rparr>) = resultsEntry c"
      using True False before by (simp add: resultsEntry_def queueEmpty_def)
    ultimately show ?thesis using assms(2) by simp
  next
    case more: False
    then have "resp_rd (acknowledge_irq v c) = 0"
      using False by (simp add: acknowledge_irq_def Let_def queueEmpty_def)
    then show ?thesis by simp
  qed
qed

lemma ack_frame [simp]:
  "param (acknowledge_irq v c) = param c" "data (acknowledge_irq v c) = data c" "data_rd (acknowledge_irq v c) = data_rd c"
  "sector_header (acknowledge_irq v c) = sector_header c" "reading (acknowledge_irq v c) = reading c"
  "following_sector_ready (acknowledge_irq v c) = following_sector_ready c"
  "drive_event_armed (acknowledge_irq v c) = drive_event_armed c" "command_args (acknowledge_irq v c) = command_args c"
  "read_completion_deadline_ticks (acknowledge_irq v c) = read_completion_deadline_ticks c"
  by (simp_all add: acknowledge_irq_def responseBecameCurrent_def Let_def)

lemma inv_ack_irq: "cdc_inv c \<Longrightarrow> cdc_inv (acknowledge_irq v c)"
  using ack_cursor [of c v] by (simp add: cdc_inv_def ring_wf_ops ack_ring)

lemma inv_response [simp]:
  "cdc_inv c \<Longrightarrow> cdc_inv (ack c)" "cdc_inv c \<Longrightarrow> cdc_inv (error_response e c)" "cdc_inv c \<Longrightarrow> cdc_inv (queueDataReady c)"
  "cdc_inv c \<Longrightarrow> cdc_inv (snd (postDataReady c))"
  by (simp_all add: ack_def error_response_def queueDataReady_def postDataReady_def inv_raise)

section \<open>Every operation keeps it\<close>

lemma cancel_simps [simp]:
  "cdc_inv c \<Longrightarrow> cdc_inv (cancelDriveEvent c)" "\<not> drive_event_armed (cancelDriveEvent c)"
  by (simp_all add: cancelDriveEvent_def inv_rules)

lemma inv_schedule: "cdc_inv c \<Longrightarrow> cdc_inv (scheduleSectorEventAfter g t c)" "cdc_inv c \<Longrightarrow> cdc_inv (scheduleSectorEvent g c)"
  by (simp_all add: scheduleSectorEventAfter_def scheduleSectorEvent_def inv_rules split: option.split)

lemma inv_stop: "cdc_inv c \<Longrightarrow> cdc_inv (snd (stopContinuousRead s c))"
proof -
  assume "cdc_inv c"
  then have "cdc_inv ((cancelDriveEvent c)\<lparr>reading := False, stat := stat c AND NOT kCdlStatRead, first_sector_pending := False\<rparr>)"
    by (simp add: inv_rules)
  then show ?thesis by (simp add: stopContinuousRead_def Let_def inv_rules)
qed

lemma inv_start: "cdc_inv c \<Longrightarrow> cdc_inv (startContinuousRead g c)"
  by (simp add: startContinuousRead_def inv_schedule inv_rules)

lemma inv_fill: "cdc_inv c \<Longrightarrow> cdc_inv (fillDataFifo raw c)"
  by (simp add: fillDataFifo_def Let_def inv_rules sectorFraming_def kDataSectorBytes_def min_le_iff_disj)

lemma inv_load: "cdc_inv c \<Longrightarrow> cdc_inv (snd (loadSector g lba c))"
  by (simp add: loadSector_def inv_fill inv_rules split: option.split)

lemma inv_route:
  assumes "env_ok g" and "cdc_inv c"
  shows "cdc_inv (snd (routeDriveSector g lba c))"
proof (cases "disc_read_raw_fn g lba")
  case (Some raw)
  then have "length (take 8 (drop 12 raw)) = 8" using assms(1) by (simp add: env_ok_def kRawSectorBytes_def)
  then have "cdc_inv (c\<lparr>sector_header := take kSectorHeaderBytes (drop kSectorHeaderOffset raw), sector_header_valid := True\<rparr>)"
    using assms(2) by (simp add: inv_rules kSectorHeaderBytes_def kSectorHeaderOffset_def)
  then show ?thesis using Some by (simp add: routeDriveSector_def Let_def inv_rules)
qed (simp add: routeDriveSector_def assms(2))

lemma inv_consume: "env_ok g \<Longrightarrow> cdc_inv c \<Longrightarrow> cdc_inv (snd (consumeSector g lba c))"
  using inv_route [of g c lba]
  by (auto simp: consumeSector_def inv_fill inv_rules split_def Let_def)

lemma route_armed [simp]: "drive_event_armed (snd (routeDriveSector g lba c)) = drive_event_armed c"
  by (simp add: routeDriveSector_def Let_def split: option.split)

lemma inv_due:
  assumes "env_ok g" and "cdc_inv c"
  shows "cdc_inv (snd (serviceDueSector g c))"
proof -
  let ?c0 = "c\<lparr>drive_event_armed := False, drive_deadline_ticks := 0\<rparr>"
  have c0: "cdc_inv ?c0" using assms(2) by (simp add: inv_rules)
  let ?f = "consumeSector g (loc_lba ?c0) (?c0\<lparr>first_sector_pending := False\<rparr>)"
  let ?r = "routeDriveSector g (loc_lba ?c0 + 1) ?c0"
  have f: "cdc_inv (snd ?f)" using c0 by (intro inv_consume assms(1)) (simp add: inv_rules)
  have r: "cdc_inv (snd ?r)" "\<not> drive_event_armed (snd ?r)" by (rule inv_route [OF assms(1) c0]) simp
  have s: "cdc_inv (snd (stopContinuousRead DriveStopped (snd ?f)))" "cdc_inv (snd (stopContinuousRead DriveStopped (snd ?r)))"
    by (rule inv_stop [OF f], rule inv_stop [OF r(1)])
  from c0 f r s show ?thesis
    unfolding serviceDueSector_def Let_def split_def
    by (simp add: inv_rules inv_schedule)
qed

lemma inv_drive_loop:
  assumes ret: "drive_loop g now c = Some r" and "env_ok g" and "cdc_inv c"
  shows "cdc_inv (snd r)"
proof -
  have "env_ok g \<longrightarrow> cdc_inv c \<longrightarrow> cdc_inv (snd r)"
  proof (rule drive_loop.raw_induct [where P = "\<lambda>g now c r. env_ok g \<longrightarrow> cdc_inv c \<longrightarrow> cdc_inv (snd r)", OF _ ret])
    fix loop :: "'a cdc_env \<Rightarrow> u64 \<Rightarrow> 'a cdc \<Rightarrow> (bool \<times> 'a cdc) option" and g now c r
    assume IH: "\<And>g now c r. loop g now c = Some r \<Longrightarrow> env_ok g \<longrightarrow> cdc_inv c \<longrightarrow> cdc_inv (snd r)"
      and eq: "(if drive_event_armed c \<and> drive_deadline_ticks c \<le> now
        then let (current, c1) = serviceDueSector g c in if current then Some (True, c1) else loop g now c1
        else Some (False, c)) = Some r"
    obtain b c1 where d: "serviceDueSector g c = (b, c1)" by fastforce
    moreover from d have "env_ok g \<Longrightarrow> cdc_inv c \<Longrightarrow> cdc_inv c1" using inv_due by (metis snd_conv)
    moreover have "r = (False, c) \<or> r = (True, c1) \<or> loop g now c1 = Some r"
      using eq unfolding d by (auto split: if_splits)
    ultimately show "env_ok g \<longrightarrow> cdc_inv c \<longrightarrow> cdc_inv (snd r)" using IH [of g now c1 r] by auto
  qed
  with assms show ?thesis by simp
qed

lemma inv_service_drive: "serviceDriveEvent g c = Some r \<Longrightarrow> env_ok g \<Longrightarrow> cdc_inv c \<Longrightarrow> cdc_inv (snd r)"
  using inv_drive_loop [of g _ c r] by (auto simp: serviceDriveEvent_def split: if_splits option.splits)

lemma inv_announce: "cdc_inv c \<Longrightarrow> length ds \<le> 4 \<Longrightarrow> cdc_inv (snd (announce now ds c))"
proof (induction ds arbitrary: c)
  case (Cons d ds)
  have "cdc_inv (snd (postDataReady c))" using Cons.prems(1) by simp
  then have "cdc_inv (snd (announce now ds (snd (postDataReady c))))"
    "cdc_inv ((snd (postDataReady c))\<lparr>read_completion_deadline_ticks := d # ds\<rparr>)"
    using Cons by (simp_all add: inv_rules)
  then show ?case using Cons.prems by (simp add: split_def Let_def inv_rules)
qed (simp add: inv_rules)

lemma inv_completions: "cdc_inv c \<Longrightarrow> cdc_inv (snd (serviceReadCompletions g c))"
  using inv_announce [of c "read_completion_deadline_ticks c"]
  by (auto simp: serviceReadCompletions_def cdc_inv_def split: option.split)

lemma inv_arguments: "cdc_inv c \<Longrightarrow> cdc_inv (next_argument c)" "cdc_inv c \<Longrightarrow> cdc_inv (latch_argument c)"
  "cdc_inv c \<Longrightarrow> cdc_inv (disarm_command c)"
proof -
  assume c: "cdc_inv c"
  then have "length (param c) \<le> 16" by (simp add: cdc_inv_def)
  then have "cdc_inv (c\<lparr>param := tl (param c)\<rparr>)" using c by (intro inv_rules) simp_all
  with c show "cdc_inv (next_argument c)" by (simp add: next_argument_def popParameter_def inv_rules)
  from c show "cdc_inv (latch_argument c)" "cdc_inv (disarm_command c)"
    by (simp_all add: latch_argument_def disarm_command_def inv_rules)
qed

lemma inv_command_loop: "cdc_inv c \<Longrightarrow> cdc_inv (snd (command_loop b now c))"
proof (induction b now c rule: command_loop.induct)
  case (1 b now c)
  then show ?case by (subst command_loop.simps) (simp add: inv_arguments)
qed

lemma inv_service_command: "cdc_inv c \<Longrightarrow> cdc_inv (snd (serviceCommand g b c))"
  by (simp add: serviceCommand_def inv_command_loop split: option.split)

lemma inv_setMode: "cdc_inv c \<Longrightarrow> cdc_inv (setMode g v c)"
  by (simp add: setMode_def Let_def inv_schedule inv_rules)

lemma inv_toc: "cdc_inv c \<Longrightarrow> cdc_inv (snd (toc_answer g cmd c))"
  by (simp add: toc_answer_def split_def Let_def inv_rules split: option.split)

lemma inv_if: "(b \<Longrightarrow> cdc_inv (snd x)) \<Longrightarrow> (\<not> b \<Longrightarrow> cdc_inv (snd y)) \<Longrightarrow> cdc_inv (snd (if b then x else y))"
  by simp

lemma inv_exec:
  assumes "env_ok g" and "cdc_inv c"
  shows "cdc_inv (snd (execCommand g cmd c))"
proof -
  note stop = inv_stop [OF assms(2), of GuestCommand] and mode = inv_setMode [OF assms(2)] and toc = inv_toc [OF assms(2)]
  have hdr: "length (sector_header c) \<le> 16" using assms(2) by (simp add: cdc_inv_def)
  have getl: "getlocL c = Some h \<Longrightarrow> length h \<le> 16" for h using hdr by (auto simp: getlocL_def split: if_splits)
  have getp: "getlocP g c = Some p \<Longrightarrow> length p \<le> 16" for p using assms(1) by (simp add: getlocP_def env_ok_def)
  have raise: "cdc_inv x \<Longrightarrow> cdc_inv (cdc_raise Acknowledge [a] x)" for x :: "'a cdc" and a by (simp add: inv_raise)
  have raises: "cdc_inv x \<Longrightarrow> cdc_inv (cdc_raise t [a, b, d] x)" "cdc_inv x \<Longrightarrow> cdc_inv (cdc_raise t [a, b, d, e] x)"
    for x :: "'a cdc" and t a b d e by (simp_all add: inv_raise)
  show ?thesis
  proof (cases "commandArgumentCounts cmd")
    case (Some n)
    have toc_raise: "cdc_inv (snd (case fst (toc_answer g cmd c) of
        None \<Rightarrow> (0, error_response kCdcErrorBadArgument (snd (toc_answer g cmd c)))
      | Some p \<Rightarrow> (0, cdc_raise Acknowledge [stat (snd (toc_answer g cmd c)), fst p, snd p] (snd (toc_answer g cmd c)))))"
      using toc by (simp add: raises split: option.split)
    have get_raise: "cdc_inv (snd (case getlocL c of
        None \<Rightarrow> (0, error_response 0x80 c) | Some header \<Rightarrow> (0, cdc_raise Acknowledge header c)))"
      "cdc_inv (snd (case getlocP g c of
        None \<Rightarrow> (0, error_response 0x80 c) | Some position \<Rightarrow> (0, cdc_raise Acknowledge position c)))"
      using getl getp assms(2) by (simp_all add: inv_raise split: option.split)
    have stopped: "cdc_inv (cdc_raise Acknowledge [stat c] (snd (stopContinuousRead GuestCommand c)))"
      "cdc_inv (cdc_raise Acknowledge [stat c]
         ((snd (stopContinuousRead GuestCommand c))\<lparr>stat := 0, sector_header_valid := False\<rparr>))"
      "cdc_inv (cdc_raise Acknowledge [stat c]
         ((snd (stopContinuousRead GuestCommand c))\<lparr>stat := kCdlStatStandby, cd_mode := 0, command_lba := 0\<rparr>))"
      using stop by (simp_all add: raise inv_rules)
    from Some show ?thesis unfolding execCommand_def
      by (simp only: option.case split_def, intro inv_if)
        (simp_all only: snd_conv Let_def split_def toc_raise get_raise stopped, simp_all add: assms(2) stopped raise raises mode setFilter_def inv_start inv_rules)
  qed (simp add: execCommand_def assms(2))
qed

lemma inv_complete: "cdc_inv c \<Longrightarrow> cdc_inv (completeCommand c)"
  by (simp add: completeCommand_def Let_def inv_raise inv_rules)

lemma inv_command_event: "env_ok g \<Longrightarrow> cdc_inv c \<Longrightarrow> cdc_inv (run_command_event g e c)"
  using inv_exec [of g c "pending_command c"]
  by (simp add: run_command_event_def split_def Let_def finishCommandExecution_def inv_complete inv_arguments inv_rules)

lemma inv_service:
  assumes "env_ok g" and "cdc_inv c" and "service g c = Some r"
  shows "cdc_inv (snd r)"
proof -
  obtain d where d: "serviceDriveEvent g c = Some d" using assms(3) by (auto simp: service_def split: option.splits)
  let ?c2 = "snd (serviceReadCompletions g (snd d))"
  have "cdc_inv ?c2" by (rule inv_completions [OF inv_service_drive [OF d assms(1,2)]])
  then have "cdc_inv (snd (serviceCommand g (queueEmpty ?c2) ?c2))" by (rule inv_service_command)
  from inv_command_event [OF assms(1) this] show ?thesis using assms(3) d by (auto simp: service_def split_def Let_def)
qed

lemma inv_retire_loop: "env_ok g \<Longrightarrow> cdc_inv c \<Longrightarrow> cdc_inv (retire_loop n g now c)"
proof (induction n arbitrary: c)
  case (Suc n)
  have "cdc_inv (snd (serviceCommand g True (c\<lparr>command_deadline_ticks := now\<rparr>)))"
    using Suc.prems(2) by (intro inv_service_command) (simp add: inv_rules)
  then show ?case using Suc inv_command_event [OF Suc.prems(1)] by (simp add: split_def Let_def)
qed simp

lemma inv_beginRead: "env_ok g \<Longrightarrow> cdc_inv c \<Longrightarrow> cdc_inv (beginRead g lba c)"
  by (auto simp: beginRead_def retirePendingCommand_def inv_start inv_retire_loop inv_rules split: option.split)

lemma inv_schedule_command: "scheduleCommand g v c = Some c' \<Longrightarrow> cdc_inv c \<Longrightarrow> cdc_inv c'"
  by (auto simp: scheduleCommand_def inv_rules split: option.splits)

lemma inv_request: "cdc_inv c \<Longrightarrow> cdc_inv (writeRequestRegister g v c)"
proof -
  assume c: "cdc_inv c"
  let ?c1 = "c\<lparr>bfrd := True\<rparr>"
  let ?c2 = "?c1\<lparr>loc_lba := loc_lba ?c1 + 1, following_sector_ready := False\<rparr>"
  have c1: "cdc_inv ?c1" "cdc_inv (?c1\<lparr>data_rd := 0\<rparr>)" "cdc_inv ?c2" using c by (simp_all add: inv_rules)
  have l: "cdc_inv (snd (loadSector g (loc_lba ?c2) ?c2))" by (rule inv_load [OF c1(3)])
  have "cdc_inv (snd (stopContinuousRead DriveStopped (snd (loadSector g (loc_lba ?c2) ?c2))))" by (rule inv_stop [OF l])
  with c c1 l show ?thesis
    unfolding writeRequestRegister_def Let_def split_def by (simp add: inv_schedule inv_rules)
qed

lemma inv_read: "cdc_inv c \<Longrightarrow> cdc_inv (snd (cdc_read r c))"
  by (cases r) (auto simp: cdc_read_def Let_def sectorConsumed_def inv_rules Suc_le_eq)

lemma inv_write: "cdc_write g r v c = Some c' \<Longrightarrow> cdc_inv c \<Longrightarrow> cdc_inv c'"
proof (cases r)
  case RegParameter
  assume w: "cdc_write g r v c = Some c'" and c: "cdc_inv c"
  have "length (param c @ [v]) \<le> 16" if "length (param c) < 16" using that by simp
  with w c RegParameter show ?thesis
    by (auto simp: cdc_write_def Let_def inv_rules simp del: length_append split: if_splits)
qed (auto simp: cdc_write_def Let_def inv_rules inv_ack_irq inv_request inv_schedule_command split: if_splits)

lemma inv_take: "cdc_inv c \<Longrightarrow> cdc_inv (snd (take_loop c))"
proof (induction c rule: take_loop.induct)
  case (1 c)
  obtain v c1 where r: "cdc_read RegResponse c = (v, c1)" by fastforce
  then have "cdc_inv c1" using inv_read [OF 1(2), of RegResponse] by simp
  with 1(1) r show ?case by (subst take_loop.simps) (simp add: split_def Let_def 1(2))
qed

lemma dma_words_cursor: "rd \<le> length bs \<Longrightarrow> snd (dma_words n rd bs) \<le> length bs"
  by (induction n rd bs rule: dma_words.induct) (auto simp: split_def Let_def)

lemma inv_dma: "cdc_inv c \<Longrightarrow> cdc_inv (snd (dmaRead n c))"
proof -
  assume c: "cdc_inv c"
  then have "snd (dma_words (nat n) (data_rd c) (data c)) \<le> length (data c)"
    by (intro dma_words_cursor) (simp add: cdc_inv_def)
  with c show ?thesis by (simp add: dmaRead_def split_def Let_def sectorConsumed_def inv_rules)
qed

lemma inv_post_after: "cdc_inv c \<Longrightarrow> cdc_inv (snd (postDataReadyAfterRead g lba n m c))"
  by (simp add: postDataReadyAfterRead_def Let_def inv_rules split: option.split)

lemma inv_reset: "cdc_inv (cdc_reset c)"
  by (simp add: cdc_inv_def cdc_reset_def ring_wf_def kRingSlots_def kSectorHeaderBytes_def)

section \<open>Reachable states\<close>

inductive cdc_step :: "'x cdc \<Rightarrow> 'x cdc \<Rightarrow> bool" where
  step_reset: "cdc_step c (cdc_reset c)"
| step_service: "env_ok g \<Longrightarrow> service g c = Some (b, c') \<Longrightarrow> cdc_step c c'"
| step_read: "cdc_read r c = (v, c') \<Longrightarrow> cdc_step c c'"
| step_write: "env_ok g \<Longrightarrow> cdc_write g r v c = Some c' \<Longrightarrow> cdc_step c c'"
| step_dma: "dmaRead n c = (ws, c') \<Longrightarrow> cdc_step c c'"
| step_begin: "env_ok g \<Longrightarrow> cdc_step c (beginRead g lba c)"
| step_issue: "issueCommand g v c = Some c' \<Longrightarrow> cdc_step c c'"
| step_take: "takeCurrentResponse n c = (bs, c') \<Longrightarrow> cdc_step c c'"
| step_post: "postDataReady c = (b, c') \<Longrightarrow> cdc_step c c'"
| step_post_after: "postDataReadyAfterRead g lba n m c = (b, c') \<Longrightarrow> cdc_step c c'"
| step_mode: "cdc_step c (setMode g v c)"
| step_filter: "cdc_step c (setFilter f ch c)"

inductive cdc_reachable :: "'x cdc \<Rightarrow> bool" where
  power_on: "cdc_reachable (cdc_reset c)"
| step: "cdc_reachable c \<Longrightarrow> cdc_step c c' \<Longrightarrow> cdc_reachable c'"

lemma inv_step: "cdc_step c c' \<Longrightarrow> cdc_inv c \<Longrightarrow> cdc_inv c'"
proof (induction rule: cdc_step.induct)
  case (step_service g c b c')
  then show ?case using inv_service [of g c "(b, c')"] by simp
next
  case (step_read r c v c')
  then show ?case using inv_read [of c r] by simp
next
  case (step_dma n c ws c')
  then show ?case using inv_dma [of c n] by simp
next
  case (step_take n c bs c')
  then show ?case using inv_take [of c] by (auto simp: takeCurrentResponse_def split_def Let_def inv_rules)
next
  case (step_post c b c')
  then show ?case using inv_response(4) [of c] by simp
next
  case (step_post_after g lba n m c b c')
  then show ?case using inv_post_after [of c g lba n m] by simp
qed (auto simp: inv_reset inv_beginRead inv_setMode setFilter_def issueCommand_def inv_rules
  elim: inv_write inv_schedule_command)

text \<open>
  C27: In every state the controller can reach, by any interleaving of register accesses, DMA, services at any clock and the
  native entry points, on any disc: every cursor stays within its array (the response ring, the response the port shows, the
  sector FIFO, the parameter and argument FIFOs, the owed completions, the latched header), no response exceeds its sixteen
  bytes, and a sector event is armed only while a read runs and no announced sector is waiting. A byte a port hands out is
  one the response or the sector has.
\<close>

theorem cdc_reachable_inv:
  assumes "cdc_reachable c"
  shows "q_head c < 8 \<and> q_tail c < 8 \<and> length (q c) = 8 \<and> list_all (\<lambda>e. length (resp e) \<le> 16) (q c) \<and>
    resp_rd c \<le> length (resp (resultsEntry c)) \<and> length (resp (resultsEntry c)) \<le> 16 \<and>
    data_rd c \<le> length (data c) \<and> length (data c) \<le> 2340 \<and> length (param c) \<le> 16 \<and>
    length (command_args c) \<le> 16 \<and> length (read_completion_deadline_ticks c) \<le> 4 \<and>
    length (sector_header c) = 8 \<and> (drive_event_armed c \<longrightarrow> reading c \<and> \<not> following_sector_ready c) \<and>
    fst (cdc_read RegResponse c) \<in> insert 0 (ucast ` set (drop (resp_rd c) (resp (resultsEntry c)))) \<and>
    fst (cdc_read RegParameter c) \<in> insert 0 (ucast ` set (drop (data_rd c) (data c)))"
proof -
  have i: "cdc_inv c" using assms by (induction rule: cdc_reachable.induct) (auto intro: inv_reset inv_step)
  have "(if queueEmpty c then (q_head c + 7) mod 8 else q_head c) < length (q c)" using i by (simp add: cdc_inv_def ring_wf_def)
  then have "resultsEntry c \<in> set (q c)" unfolding resultsEntry_def by (rule nth_mem)
  then have r: "length (resp (resultsEntry c)) \<le> 16" using i by (simp add: cdc_inv_def)
  have head: "xs ! n \<in> set (drop n xs)" if "n < length xs" for n and xs :: "u8 list"
    using that by (simp add: Cons_nth_drop_Suc [symmetric])
  have "fst (cdc_read RegResponse c) \<in> insert 0 (ucast ` set (drop (resp_rd c) (resp (resultsEntry c))))"
    "fst (cdc_read RegParameter c) \<in> insert 0 (ucast ` set (drop (data_rd c) (data c)))"
    using head by (auto simp: cdc_read_def Let_def)
  then show ?thesis using i r by (simp add: cdc_inv_def ring_wf_def list_all_iff)
qed

section \<open>Witness\<close>

definition blank_cdc :: "unit cdc" where
  "blank_cdc = cdc_reset \<lparr>bank = 0, param = [], data = [], data_rd = 0, irq_en = 0, stat = 0, loc_lba = 0, command_lba = 0,
     sector_header = [], sector_header_valid = False, cd_mode = 0, filter_file = 0, filter_chan = 0, reading = False,
     first_sector_pending = False, bfrd = False, following_sector_ready = False, drive_event_armed = False,
     drive_deadline_ticks = 0, command_event_armed = False, pending_command = 0, command_phase = 0,
     command_arg_latch = 0, command_args = [], command_deadline_ticks = 0, read_completion_deadline_ticks = [],
     q = [], q_head = 0, q_tail = 0, resp_rd = 0, irq_sequence = 0, irq_edge = False, disc = None, xa = None\<rparr>"

lemma responses_in_order_witness:
  "pending_responses (acknowledge_irq 7 (cdc_raise Complete [2] (cdc_raise Acknowledge [2] blank_cdc))) =
     [\<lparr>irq_type = 2, resp = [2]\<rparr>]"
proof -
  have wf: "ring_wf blank_cdc" by (simp add: blank_cdc_def cdc_reset_def ring_wf_def kRingSlots_def)
  have "pending_responses blank_cdc = []" by (simp add: pending_responses_def pending_n_def blank_cdc_def cdc_reset_def)
  then show ?thesis
    using responses_in_order [OF wf, of "[(Acknowledge, [2]), (Complete, [2])]" 1] by (simp add: response_entry_def)
qed

lemma irq_edge_exact_witness:
  "irq_edge (cdc_raise Acknowledge [2] blank_cdc) \<and> \<not> irq_edge (cdc_raise Acknowledge [2] (blank_cdc\<lparr>irq_en := 0x18\<rparr>))"
proof -
  have wf: "ring_wf blank_cdc" "ring_wf (blank_cdc\<lparr>irq_en := 0x18\<rparr>)"
    by (simp_all add: blank_cdc_def cdc_reset_def ring_wf_def kRingSlots_def)
  have p: "pending_responses blank_cdc = []" "pending_responses (blank_cdc\<lparr>irq_en := 0x18\<rparr>) = []"
    by (simp_all add: pending_responses_def pending_n_def blank_cdc_def cdc_reset_def)
  show ?thesis
    using irq_edge_exact [OF wf(1), of Acknowledge "[2]" 0] irq_edge_exact [OF wf(2), of Acknowledge "[2]" 0]
    by (simp only: p) (simp add: admitted_def response_entry_def blank_cdc_def cdc_reset_def kCdcIrqEnableAll_def)
qed

text \<open>Two bytes of a response are read, then a third time; the cursor stops at its end.\<close>

lemma cdc_reachable_inv_witness:
  "let c = snd (cdc_read RegResponse (snd (cdc_read RegResponse (snd (postDataReady (setFilter 1 2 blank_cdc)))))) in
   cdc_reachable c \<and> resp_rd c \<le> length (resp (resultsEntry c)) \<and> data_rd c \<le> length (data c)"
proof -
  have "cdc_reachable blank_cdc" unfolding blank_cdc_def by (rule power_on)
  then have "cdc_reachable (setFilter 1 2 blank_cdc)" by (rule cdc_reachable.step) (rule step_filter)
  then have "cdc_reachable (snd (postDataReady (setFilter 1 2 blank_cdc)))"
    by (rule cdc_reachable.step) (rule step_post, rule prod.collapse [symmetric])
  then have "cdc_reachable (snd (cdc_read RegResponse (snd (postDataReady (setFilter 1 2 blank_cdc)))))"
    by (rule cdc_reachable.step) (rule step_read, rule prod.collapse [symmetric])
  then have r: "cdc_reachable (snd (cdc_read RegResponse (snd (cdc_read RegResponse (snd (postDataReady (setFilter 1 2 blank_cdc)))))))"
    by (rule cdc_reachable.step) (rule step_read, rule prod.collapse [symmetric])
  from cdc_reachable_inv [OF this] r show ?thesis unfolding Let_def by linarith
qed

end
