(* ===== verification/Cd_Timing.thy ===== *)
theory Cd_Timing
  imports Cd_Reachable
begin

text \<open>
  The controller on the guest clock: a service returns, it changes nothing before the deadline the controller
  announced, and a command executes exactly at its documented delay with the parameters that were in the
  FIFO, however it is polled in between.
\<close>

section \<open>A service returns\<close>

text \<open>An audio sector re-arms one period after its own deadline, so each pass of the loop moves the deadline on.\<close>

lemma period_positive: "0 < unat (driveSectorPeriodCpuTicks m)" "unat (driveSectorPeriodCpuTicks m) \<le> 451584"
  by (simp_all add: drive_period)

lemma schedule_deadline:
  "drive_event_armed (scheduleSectorEventAfter g t c) \<Longrightarrow> \<not> drive_event_armed c \<Longrightarrow>
     drive_deadline_ticks (scheduleSectorEventAfter g t c) = t + driveSectorPeriodCpuTicks (cd_mode c)"
  by (auto simp: scheduleSectorEventAfter_def split: if_splits)

lemma stop_disarms: "\<not> drive_event_armed (snd (stopContinuousRead s c))"
  by (simp add: stopContinuousRead_def Let_def postDataReady_def queueDataReady_def cancelDriveEvent_def)

lemma consume_armed [simp]: "drive_event_armed (snd (consumeSector g lba c)) = drive_event_armed c"
proof -
  obtain sr c1 where r: "routeDriveSector g lba c = (sr, c1)" by fastforce
  then have "drive_event_armed c1 = drive_event_armed c" using route_armed [of g lba c] by simp
  with r show ?thesis by (simp add: consumeSector_def split_def fillDataFifo_def Let_def)
qed

lemma due_deadline:
  assumes "serviceDueSector g c = (False, c1)" and "drive_event_armed c1"
  shows "\<exists>m. drive_deadline_ticks c1 = drive_deadline_ticks c + driveSectorPeriodCpuTicks m"
proof -
  define c0 where "c0 = c\<lparr>drive_event_armed := False, drive_deadline_ticks := 0\<rparr>"
  obtain sf cf where f: "consumeSector g (loc_lba c0) (c0\<lparr>first_sector_pending := False\<rparr>) = (sf, cf)" by fastforce
  obtain sr raw cr where r: "routeDriveSector g (loc_lba c0 + 1) c0 = ((sr, raw), cr)" by (metis surj_pair)
  have na: "\<not> drive_event_armed c0" by (simp add: c0_def)
  have nf: "\<not> drive_event_armed cf" using consume_armed [of g "loc_lba c0" "c0\<lparr>first_sector_pending := False\<rparr>"] f na by simp
  have nr: "\<not> drive_event_armed cr" using route_armed [of g "loc_lba c0 + 1" c0] r na by simp
  have st: "stopContinuousRead DriveStopped x = (b, c1) \<Longrightarrow> False" for x b
    using stop_disarms [of DriveStopped x] assms(2) by simp
  have "c1 = scheduleSectorEventAfter g (drive_deadline_ticks c) (cf\<lparr>stat := stat cf OR kCdlStatRead\<rparr>) \<or>
      c1 = scheduleSectorEventAfter g (drive_deadline_ticks c) (cr\<lparr>loc_lba := loc_lba cr + 1\<rparr>)"
    using assms na st unfolding serviceDueSector_def Let_def c0_def [symmetric] f r
    by (auto split: if_splits)
  then show ?thesis
    using schedule_deadline [of g "drive_deadline_ticks c" "cf\<lparr>stat := stat cf OR kCdlStatRead\<rparr>"]
      schedule_deadline [of g "drive_deadline_ticks c" "cr\<lparr>loc_lba := loc_lba cr + 1\<rparr>"] assms(2) nf nr by auto
qed

lemma drive_loop_idle: "\<not> (drive_event_armed c \<and> drive_deadline_ticks c \<le> now) \<Longrightarrow> drive_loop g now c = Some (False, c)"
  by (subst drive_loop.simps) auto

lemma drive_loop_due:
  "drive_event_armed c \<and> drive_deadline_ticks c \<le> now \<Longrightarrow> serviceDueSector g c = (b, c1) \<Longrightarrow>
     drive_loop g now c = (if b then Some (True, c1) else drive_loop g now c1)"
  by (subst drive_loop.simps) simp

lemma drive_loop_returns:
  assumes "unat now + 451584 < 2 ^ 64"
  shows "\<exists>r. drive_loop g now c = Some r"
proof (induction "unat now + 1 - unat (drive_deadline_ticks c)" arbitrary: c rule: less_induct)
  case less
  show ?case
  proof (cases "drive_event_armed c \<and> drive_deadline_ticks c \<le> now")
    case False
    then show ?thesis using drive_loop_idle by blast
  next
    case True
    obtain b c1 where d: "serviceDueSector g c = (b, c1)" by fastforce
    have u: "unat (drive_deadline_ticks c) \<le> unat now" using True by (simp add: word_le_nat_alt)
    have "\<exists>r. drive_loop g now c1 = Some r" if nb: "\<not> b"
    proof (cases "drive_event_armed c1")
      case True
      then obtain m where m: "drive_deadline_ticks c1 = drive_deadline_ticks c + driveSectorPeriodCpuTicks m"
        using due_deadline [of g c c1] d nb by auto
      then have "unat (drive_deadline_ticks c1) = unat (drive_deadline_ticks c) + unat (driveSectorPeriodCpuTicks m)"
        using u assms period_positive(2) [of m] by (simp add: unat_add_small)
      then show ?thesis using less [of c1] u period_positive(1) [of m] by simp
    next
      case False
      then show ?thesis using drive_loop_idle [of c1 now g] by blast
    qed
    then show ?thesis using drive_loop_due [OF True d] by (cases b) auto
  qed
qed

text \<open>
  C20: servicing the drive and the command always returns, whatever the disc holds, even a run of XA audio
  sectors that the drive consumes one after the other, as long as the clock is more than one sector period
  from its 64-bit limit.
\<close>

theorem service_returns:
  assumes "tick_now g = Some now" and "unat now + 451584 < 2 ^ 64"
  shows "\<exists>r. service g c = Some r"
proof -
  obtain d where "drive_loop g now c = Some d" using drive_loop_returns [OF assms(2)] by blast
  then have "\<exists>d. serviceDriveEvent g c = Some d" using assms(1) by (auto simp: serviceDriveEvent_def)
  then obtain d where "serviceDriveEvent g c = Some d" by blast
  then show ?thesis by (simp add: service_def split_def Let_def)
qed

section \<open>Nothing happens before the deadline\<close>

lemma consider_le: "consider_deadline a t e = Some d \<Longrightarrow> (a \<longrightarrow> d \<le> t) \<and> (\<forall>x. e = Some x \<longrightarrow> d \<le> x)"
  by (auto simp: consider_deadline_def not_less split: if_splits option.splits)

lemma consider_none: "consider_deadline a t e = None \<longleftrightarrow> \<not> a \<and> e = None"
  by (auto simp: consider_deadline_def split: option.splits)


text \<open>The clock has not reached a deadline; no deadline is never reached.\<close>

fun before :: "u64 \<Rightarrow> u64 option \<Rightarrow> bool" where
  "before now None = True"
| "before now (Some d) = (now < d)"

lemma before_consider: "before now (consider_deadline a t e) \<Longrightarrow> (a \<longrightarrow> now < t) \<and> before now e"
proof -
  assume b: "before now (consider_deadline a t e)"
  show ?thesis
  proof (cases "consider_deadline a t e")
    case None
    then show ?thesis using consider_none by auto
  next
    case (Some d)
    then show ?thesis using b consider_le [OF Some] by (cases e) (auto intro: less_le_trans)
  qed
qed

lemma before_all:
  assumes "before now (nextDeadlineTicks c)"
  shows "drive_event_armed c \<Longrightarrow> now < drive_deadline_ticks c"
    "command_event_armed c \<Longrightarrow> now < command_deadline_ticks c"
    "read_completion_deadline_ticks c \<noteq> [] \<Longrightarrow> now < hd (read_completion_deadline_ticks c)"
  using assms before_consider unfolding nextDeadlineTicks_def by blast+

text \<open>
  \<open>nextDeadlineTicks\<close> is a safe bound for running guest code without looking at the drive: a service at any
  time before the deadline it names, or at any time when it names none, reports nothing and changes
  nothing.
\<close>

theorem service_quiet_before_deadline:
  assumes "tick_now g = Some now" and "before now (nextDeadlineTicks c)"
  shows "service g c = Some (False, c)"
proof -
  note b = before_all [OF assms(2)]
  have "serviceDriveEvent g c = Some (False, c)"
    using assms(1) b(1) drive_loop_idle [of c now g] by (auto simp: serviceDriveEvent_def)
  moreover have "serviceReadCompletions g c = (False, c)"
  proof (cases "read_completion_deadline_ticks c")
    case (Cons d ds)
    then show ?thesis
      using assms(1) b(3) by (simp add: serviceReadCompletions_def)
  qed (simp add: serviceReadCompletions_def)
  moreover have "serviceCommand g e c = (NoEvent, c)" for e
    using assms(1) b(2) by (simp add: serviceCommand_def command_loop.simps [of e now c])
  ultimately show ?thesis by (simp add: service_def run_command_event_def)
qed

section \<open>Command timing\<close>

text \<open>
  A command with parameters \<open>ps\<close> written at \<open>t\<close>, after \<open>k\<close> phases: waiting for the write, shifting parameter \<open>k\<close>,
  or due to execute.
\<close>

definition phase_at :: "u64 \<Rightarrow> nat \<Rightarrow> u64" where
  "phase_at t k = t + kCdcCommandWritePhaseCpuTicks + of_nat k * kCdcCommandArgumentPhaseCpuTicks"

definition in_phase :: "u8 \<Rightarrow> u64 \<Rightarrow> u8 list \<Rightarrow> nat \<Rightarrow> 'x cdc \<Rightarrow> bool" where
  "in_phase cmd t ps k c \<longleftrightarrow> command_event_armed c \<and> pending_command c = cmd \<and>
     (if k = 0 then command_phase c = - 1 \<and> param c = ps \<and> command_args c = [] \<and> command_deadline_ticks c = phase_at t 0
      else if k \<le> length ps then command_phase c = 0 \<and> param c = drop k ps \<and> command_args c = take (k - 1) ps \<and>
        command_arg_latch c = ps ! (k - 1) \<and> command_deadline_ticks c = phase_at t k
      else k = length ps + 1 \<and> command_phase c = 1 \<and> param c = [] \<and> command_args c = ps \<and>
        command_deadline_ticks c = phase_at t (length ps) + kCdcCommandExecutionPhaseCpuTicks)"

lemma phase_at_Suc: "phase_at t (Suc k) = phase_at t k + kCdcCommandArgumentPhaseCpuTicks"
  by (simp add: phase_at_def algebra_simps)

definition phase_end :: "u64 \<Rightarrow> u8 list \<Rightarrow> nat \<Rightarrow> u64" where
  "phase_end t ps k = (if k \<le> length ps then phase_at t k else phase_at t (length ps) + kCdcCommandExecutionPhaseCpuTicks)"

lemma in_phase_deadline: "in_phase cmd t ps k c \<Longrightarrow> command_deadline_ticks c = phase_end t ps k"
  by (auto simp: in_phase_def phase_end_def split: if_splits)

lemma in_phase_next:
  assumes "in_phase cmd t ps k c" and "k \<le> length ps" and "length ps \<le> 16"
  shows "in_phase cmd t ps (k + 1) (next_argument (if k = 0 then c else latch_argument c))"
proof (cases "k = 0")
  case True
  then show ?thesis
    using assms(1) by (cases ps) (simp_all add: in_phase_def next_argument_def popParameter_def phase_at_Suc)
next
  case False
  then obtain j where j: "k = Suc j" using not0_implies_Suc by blast
  with assms(2) have jl: "j < length ps" by simp
  have st: "command_phase c = 0" "param c = drop k ps" "command_args c = take j ps" "command_arg_latch c = ps ! j"
    "command_deadline_ticks c = phase_at t k" "command_event_armed c" "pending_command c = cmd"
    using assms(1,2) j by (simp_all add: in_phase_def)
  have args: "command_args (latch_argument c) = take k ps"
    using st jl assms(3) j by (simp add: latch_argument_def take_Suc_conv_app_nth)
  have rest: "param (latch_argument c) = drop k ps" "command_deadline_ticks (latch_argument c) = phase_at t k"
    "command_event_armed (latch_argument c)" "pending_command (latch_argument c) = cmd" using st by (simp_all add: latch_argument_def)
  show ?thesis
  proof (cases "k = length ps")
    case True
    then show ?thesis using False args rest by (simp add: in_phase_def next_argument_def)
  next
    case ne: False
    then have kl: "k < length ps" using assms(2) by simp
    then show ?thesis
      using False args rest
      by (simp add: in_phase_def next_argument_def popParameter_def phase_at_Suc hd_drop_conv_nth drop_Suc [symmetric] tl_drop)
  qed
qed

lemma loop_in_phase:
  assumes "in_phase cmd t ps k c" and "k \<le> length ps" and "phase_end t ps k \<le> now"
  shows "command_loop b now c = command_loop b now (next_argument (if k = 0 then c else latch_argument c))"
proof -
  have "\<not> now < command_deadline_ticks c" using in_phase_deadline [OF assms(1)] assms(3) by (simp add: not_less)
  moreover have "command_phase c = (if k = 0 then - 1 else 0)" using assms(1,2) by (simp add: in_phase_def split: if_splits)
  ultimately show ?thesis by (simp add: command_loop.simps [of b now c])
qed

lemma phase_end_unat:
  assumes "unat t + 60000 < 2 ^ 64" and "length ps \<le> 16"
  shows "unat (phase_end t ps k) = unat t + 12315 + min k (length ps) * 1815 + (if k \<le> length ps then 0 else 8500)"
proof -
  have mul: "unat (of_nat j * 1815 :: u64) = j * 1815" if "j \<le> 16" for j
  proof -
    have "(of_nat j * 1815 :: u64) = of_nat (j * 1815)" by simp
    then show ?thesis using that by (simp only: unat_of_nat) (simp add: take_bit_nat_eq_self)
  qed
  have at: "unat (phase_at t j) = unat t + 12315 + j * 1815" if "j \<le> 16" for j
  proof -
    have "unat (t + 12315) = unat t + 12315" using assms(1) by (subst unat_add_small) simp_all
    then have "unat (t + 12315 + of_nat j * 1815) = unat t + 12315 + j * 1815"
      using assms(1) that mul [OF that] by (subst unat_add_small) simp_all
    then show ?thesis by (simp add: phase_at_def kCdcCommandWritePhaseCpuTicks_def kCdcCommandArgumentPhaseCpuTicks_def)
  qed
  show ?thesis
  proof (cases "k \<le> length ps")
    case True
    then show ?thesis using at [of k] assms(2) by (simp add: phase_end_def)
  next
    case False
    then have "unat (phase_at t (length ps) + 8500) = unat t + 12315 + length ps * 1815 + 8500"
      using at [OF assms(2)] assms by (subst unat_add_small) simp_all
    with False show ?thesis by (simp add: phase_end_def kCdcCommandExecutionPhaseCpuTicks_def)
  qed
qed

lemma phase_end_le:
  assumes "unat t + 60000 < 2 ^ 64" and "length ps \<le> 16"
  shows "phase_end t ps k \<le> phase_end t ps (length ps + 1)"
proof -
  have "min k (length ps) * 1815 \<le> length ps * 1815" by simp
  then show ?thesis unfolding word_le_nat_alt phase_end_unat [OF assms] by simp
qed

lemma loop_polls:
  assumes "unat t + 60000 < 2 ^ 64" and "length ps \<le> 16" and "in_phase cmd t ps k c" and "k \<le> length ps + 1"
  shows "\<exists>k' c'. command_loop b now c = (if now < phase_end t ps (length ps + 1) then NoEvent else Execute, c') \<and>
    in_phase cmd t ps k' c' \<and> k' \<le> length ps + 1 \<and> (now < phase_end t ps (length ps + 1) \<or> k' = length ps + 1)"
  using assms(3,4)
proof (induction "length ps + 1 - k" arbitrary: k c)
  case 0
  then have k: "k = length ps + 1" by simp
  have "command_deadline_ticks c = phase_end t ps (length ps + 1)" "command_phase c = 1"
    using in_phase_deadline [OF 0(2)] 0(2) k by (simp_all add: in_phase_def)
  then have "command_loop b now c = (if now < phase_end t ps (length ps + 1) then NoEvent else Execute, c)"
    by (simp add: command_loop.simps [of b now c])
  with 0(2) k show ?case by blast
next
  case (Suc n)
  then have k: "k \<le> length ps" by simp
  show ?case
  proof (cases "now < phase_end t ps k")
    case True
    then have "now < phase_end t ps (length ps + 1)" using phase_end_le [OF assms(1,2)] by (rule less_le_trans)
    moreover have "command_loop b now c = (NoEvent, c)"
      using True in_phase_deadline [OF Suc(3)] by (simp add: command_loop.simps [of b now c])
    ultimately show ?thesis using Suc(3,4) by auto
  next
    case False
    then have le: "phase_end t ps k \<le> now" by simp
    have "n = length ps + 1 - (k + 1)" using Suc(2) by simp
    from Suc(1) [OF this in_phase_next [OF Suc(3) k assms(2)]] k show ?thesis
      unfolding loop_in_phase [OF Suc(3) k le] by simp
  qed
qed

text \<open>Services of a pending command at the given clock values, and the events they reported.\<close>

fun poll_command :: "'x cdc_env \<Rightarrow> bool \<Rightarrow> u64 list \<Rightarrow> 'x cdc \<Rightarrow> CdcCommandEvent list \<times> 'x cdc" where
  "poll_command g b [] c = ([], c)"
| "poll_command g b (now # ts) c =
     (let (e, c1) = serviceCommand (g\<lparr>tick_now := Some now\<rparr>) b c; (es, c2) = poll_command g b ts c1 in (e # es, c2))"

lemma service_in_phase: "in_phase cmd t ps k c \<Longrightarrow> serviceCommand (g\<lparr>tick_now := Some now\<rparr>) b c = command_loop b now c"
  by (simp add: serviceCommand_def in_phase_def)

lemma early_polls:
  assumes "unat t + 60000 < 2 ^ 64" and "length ps \<le> 16" and "in_phase cmd t ps k c" and "k \<le> length ps + 1"
    and "list_all (\<lambda>now. now < phase_end t ps (length ps + 1)) ts"
  shows "\<exists>k' c'. poll_command g b ts c = (replicate (length ts) NoEvent, c') \<and> in_phase cmd t ps k' c' \<and> k' \<le> length ps + 1"
  using assms(3-5)
proof (induction ts arbitrary: k c)
  case (Cons now ts)
  have now: "now < phase_end t ps (length ps + 1)" using Cons.prems(3) by simp
  obtain k' c' where l: "command_loop b now c = (NoEvent, c')" "in_phase cmd t ps k' c'" "k' \<le> length ps + 1"
    using loop_polls [OF assms(1,2) Cons.prems(1,2), of b now] now by auto
  obtain k'' c'' where r: "poll_command g b ts c' = (replicate (length ts) NoEvent, c'')" "in_phase cmd t ps k'' c''"
    "k'' \<le> length ps + 1" using Cons.IH [OF l(2,3)] Cons.prems(3) by auto
  have "poll_command g b (now # ts) c = (replicate (length (now # ts)) NoEvent, c'')"
    using l(1) r(1) service_in_phase [OF Cons.prems(1)] by simp
  with r(2,3) show ?case by blast
qed auto

text \<open>
  C31: a command written at \<open>t\<close> with \<open>n\<close> bytes in the parameter FIFO executes at \<open>t + commandAckDelayCpuTicks n\<close> and
  not before, however often and at whatever earlier times the controller is serviced; it executes
  with exactly those bytes as its arguments, in order, and with the FIFO empty.
\<close>

theorem command_executes_on_time:
  assumes "tick_now g = Some t" and "scheduleCommand g cmd c = Some c0" and "length (param c) \<le> 16"
    and "unat t + 60000 < 2 ^ 64"
    and "deadline = t + commandAckDelayCpuTicks (of_nat (length (param c)))"
    and "list_all (\<lambda>x. x < deadline) ts" and "deadline \<le> now"
  shows "\<exists>c1 c2. poll_command g b ts c0 = (replicate (length ts) NoEvent, c1) \<and>
    serviceCommand (g\<lparr>tick_now := Some now\<rparr>) b c1 = (Execute, c2) \<and>
    pending_command c2 = cmd \<and> command_args c2 = param c \<and> param c2 = []"
proof -
  let ?ps = "param c"
  have p0: "in_phase cmd t ?ps 0 c0"
    using assms(1,2) by (auto simp: scheduleCommand_def in_phase_def phase_at_def)
  have "of_nat (length ?ps) = (ucast (of_nat (length ?ps) :: u8) :: u64)"
    using assms(3) by (simp add: unsigned_of_nat take_bit_nat_eq_self)
  then have d: "deadline = phase_end t ?ps (length ?ps + 1)"
    unfolding assms(5) commandAckDelayCpuTicks_def by (simp add: phase_end_def phase_at_def algebra_simps)
  obtain k c1 where c1: "poll_command g b ts c0 = (replicate (length ts) NoEvent, c1)" "in_phase cmd t ?ps k c1"
    "k \<le> length ?ps + 1" using early_polls [OF assms(4,3) p0 _ assms(6) [unfolded d], of g b] by auto
  have "\<not> now < phase_end t ?ps (length ?ps + 1)" using assms(7) d by simp
  then obtain c2 where c2: "command_loop b now c1 = (Execute, c2)" "in_phase cmd t ?ps (length ?ps + 1) c2"
    using loop_polls [OF assms(4,3) c1(2,3), of b now] by auto
  then show ?thesis
    using c1(1) service_in_phase [OF c1(2)] by (auto simp: in_phase_def)
qed

section \<open>Witnesses\<close>

definition quiet_env :: "u64 \<Rightarrow> unit cdc_env" where
  "quiet_env t = \<lparr>tick_now = Some t, disc_read_raw_fn = (\<lambda>_. Some (replicate 2352 0)), disc_get_subq_position_fn = (\<lambda>_. None),
     open_disc = (\<lambda>d. (False, d)), pushAudioSector = (\<lambda>_ _ x. x), stopForMode = (\<lambda>_ x. x)\<rparr>"

lemma service_returns_witness: "\<exists>r. service (quiet_env 500000) (startContinuousRead (quiet_env 0) blank_cdc) = Some r"
  using service_returns [of "quiet_env 500000" 500000] by (simp add: quiet_env_def)

lemma service_quiet_before_deadline_witness:
  "service (quiet_env 1000) (startContinuousRead (quiet_env 0) blank_cdc) =
     Some (False, startContinuousRead (quiet_env 0) blank_cdc)"
proof -
  have "nextDeadlineTicks (startContinuousRead (quiet_env 0) blank_cdc) = Some 451584"
    by (simp add: nextDeadlineTicks_def startContinuousRead_def scheduleSectorEvent_def scheduleSectorEventAfter_def
        quiet_env_def blank_cdc_def cdc_reset_def cancelDriveEvent_def consider_deadline_def drive_period)
  then show ?thesis using service_quiet_before_deadline [of "quiet_env 1000" 1000] by (simp add: quiet_env_def)
qed

lemma command_executes_on_time_witness:
  "\<exists>c1 c2. poll_command (quiet_env 0) True [100, 20000]
      (the (scheduleCommand (quiet_env 0) 0x0E (blank_cdc\<lparr>param := [0x80]\<rparr>))) = ([NoEvent, NoEvent], c1) \<and>
    serviceCommand ((quiet_env 0)\<lparr>tick_now := Some 22630\<rparr>) True c1 = (Execute, c2) \<and>
    pending_command c2 = 0x0E \<and> command_args c2 = [0x80] \<and> param c2 = []"
proof -
  have t: "tick_now (quiet_env 0) = Some 0" by (simp add: quiet_env_def)
  let ?c = "blank_cdc\<lparr>param := [0x80]\<rparr>"
  have s: "scheduleCommand (quiet_env 0) 0x0E ?c = Some (the (scheduleCommand (quiet_env 0) 0x0E ?c))"
    by (simp add: scheduleCommand_def quiet_env_def)
  have "0 + commandAckDelayCpuTicks (of_nat (length (param ?c))) = 22630"
    by (simp add: commandAckDelayCpuTicks_def kCdcCommandWritePhaseCpuTicks_def kCdcCommandArgumentPhaseCpuTicks_def
        kCdcCommandExecutionPhaseCpuTicks_def)
  moreover have "replicate (length [100, 20000 :: u64]) NoEvent = [NoEvent, NoEvent]" by simp
  ultimately show ?thesis
    using command_executes_on_time [OF t s, of 22630 "[100, 20000]" 22630 True] by (simp del: poll_command.simps)
qed

end
