(* ===== verification/Memory_Card.thy ===== *)
theory Memory_Card
  imports Prelude
begin

text \<open>
  The host-backed memory card (\<open>platform/memcard.h\<close>, \<open>platform/memcard.cpp\<close>): the image file and its
  frames, the directory frames, the descriptor table and the directory scan. The file the card lives
  in is part of the state: its bytes, and whether the host lets it be opened, created and written.
  A card name is a list of characters without its terminator.
\<close>

section \<open>Data\<close>

definition kFrameSize :: nat where "kFrameSize = 128"
definition kFrames :: nat where "kFrames = 1024"
definition kSize :: nat where "kSize = kFrameSize * kFrames"
definition kBlocks :: nat where "kBlocks = 16"
definition kBlockFrames :: nat where "kBlockFrames = 64"
definition kDirFree :: u8 where "kDirFree = 0xA0"
definition kDirUsedFirst :: u8 where "kDirUsedFirst = 0x51"
definition kFdBase :: nat where "kFdBase = 3"
definition kFdMax :: nat where "kFdMax = 11"

lemmas card_consts = kFrameSize_def kFrames_def kSize_def kBlocks_def kBlockFrames_def kDirFree_def
  kDirUsedFirst_def kFdBase_def kFdMax_def

record McFd =
  fd_used :: bool
  fd_block :: u32
  fd_pos :: u32
  fd_size :: u32

text \<open>
  The host file at \<open>mPath\<close>. \<open>fopen\<close> with \<open>r+b\<close> needs the file and \<open>host_may_open\<close>; with \<open>rb\<close> the file and
  \<open>host_may_read\<close>; with \<open>w+b\<close> it needs \<open>host_may_create\<close> and empties the file. A host that does not accept writes stores nothing.
  \<open>host_stale\<close> is what an unread local buffer holds.
\<close>

record card_host =
  host_file :: "u8 list option"
  host_may_open :: bool
  host_may_read :: bool
  host_may_create :: bool
  host_accepts :: bool
  host_stale :: "u8 list"

record Memcard =
  mCard :: bool
  mHost :: card_host
  mFd :: "McFd list"
  mScanPat :: "u8 list"
  mScanBlk :: nat

definition content :: "Memcard \<Rightarrow> u8 list" where
  "content m = (case host_file (mHost m) of Some f \<Rightarrow> f | None \<Rightarrow> [])"

definition set_content :: "u8 list \<Rightarrow> Memcard \<Rightarrow> Memcard" where
  "set_content f m = m\<lparr>mHost := (mHost m)\<lparr>host_file := Some f\<rparr>\<rparr>"

definition put_at :: "nat \<Rightarrow> u8 list \<Rightarrow> u8 list \<Rightarrow> u8 list" where
  "put_at p bs f = take p f @ replicate (p - length f) 0 @ bs @ drop (p + length bs) f"

text \<open>\<open>fseek\<close> to \<open>p\<close> and \<open>fwrite\<close>.\<close>

definition fwrite_at :: "nat \<Rightarrow> u8 list \<Rightarrow> Memcard \<Rightarrow> bool \<times> Memcard" where
  "fwrite_at p bs m = (if host_accepts (mHost m) then (True, set_content (put_at p bs (content m)) m) else (False, m))"

text \<open>\<open>n\<close> writes of a zero frame at the end of the file.\<close>

definition pad_frames :: "nat \<Rightarrow> Memcard \<Rightarrow> Memcard" where
  "pad_frames n m = snd (fwrite_at (length (content m)) (replicate (n * kFrameSize) 0) m)"

section \<open>Image\<close>

definition xor_sum :: "u8 list \<Rightarrow> u8" where
  "xor_sum bs = foldl (\<lambda>x b. x XOR b) 0 bs"

definition seal :: "u8 list \<Rightarrow> u8 list" where
  "seal frame = frame[0x7F := xor_sum (take 0x7F frame)]"

definition free_frame :: "u8 list" where
  "free_frame = seal ((replicate kFrameSize 0)[0 := kDirFree, 8 := 0xFF, 9 := 0xFF])"

definition formattedDirectory :: "u8 list" where
  "formattedDirectory =
     seal ((replicate kFrameSize 0)[0 := 0x4D, 1 := 0x43]) @ concat (replicate (kBlocks - 1) free_frame)"

definition open_image :: "Memcard \<Rightarrow> Memcard" where
  "open_image m =
     (if host_file (mHost m) \<noteq> None \<and> host_may_open (mHost m) then m\<lparr>mCard := True\<rparr>
      else if host_may_create (mHost m) then pad_frames kFrames ((set_content [] m)\<lparr>mCard := True\<rparr>)
      else m)"

definition complete_image :: "Memcard \<Rightarrow> Memcard" where
  "complete_image m =
     (let sz = length (content m)
      in if sz < kSize then pad_frames ((kSize - sz + kFrameSize - 1) div kFrameSize) m else m)"

definition format_image :: "Memcard \<Rightarrow> Memcard" where
  "format_image m =
     (let got = take kFrameSize (content m);
          hdr = got @ drop (length got) (host_stale (mHost m))
      in if hdr ! 0 \<noteq> 0x4D \<or> hdr ! 1 \<noteq> 0x43 then snd (fwrite_at 0 formattedDirectory m) else m)"

definition card_init :: "Memcard \<Rightarrow> Memcard" where
  "card_init m =
     (if mCard m then m
      else let m1 = open_image m in if \<not> mCard m1 then m1 else format_image (complete_image m1))"

text \<open>The bytes of \<open>snapshot\<close>, when they can be read: a file that does not exist is the card \<open>init\<close> would create.\<close>

definition snapshot_image :: "Memcard \<Rightarrow> u8 list option" where
  "snapshot_image m =
     (if \<not> mCard m \<and> host_file (mHost m) = None
      then Some (formattedDirectory @ replicate (kSize - length formattedDirectory) 0)
      else
        let image = take kSize (content m)
        in if \<not> host_may_read (mHost m) \<or> image = [] then None else Some image)"

section \<open>Frames\<close>

definition readFrame :: "u32 \<Rightarrow> Memcard \<Rightarrow> (bool \<times> u8 list) \<times> Memcard" where
  "readFrame frame m0 =
     (let m = (if mCard m0 then m0 else card_init m0)
      in if \<not> mCard m \<or> unat frame \<ge> kFrames then ((False, replicate kFrameSize 0), m)
         else let got = take kFrameSize (drop (unat frame * kFrameSize) (content m))
              in ((length got = kFrameSize, got @ replicate (kFrameSize - length got) 0), m))"

definition writeFrame :: "u32 \<Rightarrow> u8 list \<Rightarrow> Memcard \<Rightarrow> bool \<times> Memcard" where
  "writeFrame frame bs m0 =
     (let m = (if mCard m0 then m0 else card_init m0)
      in if \<not> mCard m \<or> unat frame \<ge> kFrames then (False, m)
         else fwrite_at (unat frame * kFrameSize) bs m)"

section \<open>Directory\<close>

definition mc_strip_dev :: "u8 list \<Rightarrow> u8 list" where
  "mc_strip_dev name = (case dropWhile (\<lambda>c. c \<noteq> 0x3A) name of [] \<Rightarrow> name | _ # rest \<Rightarrow> rest)"

text \<open>The name and the size a directory frame records.\<close>

definition entry_name :: "u8 list \<Rightarrow> u8 list" where
  "entry_name e = takeWhile (\<lambda>c. c \<noteq> 0) (drop 0x0A e)"

definition entry_size :: "u8 list \<Rightarrow> u32" where
  "entry_size e = word_of_bytes (take 4 (drop 4 e))"

definition entry_frame :: "u8 list \<Rightarrow> u32 \<Rightarrow> u8 list" where
  "entry_frame bare size' =
     (let e = (replicate kFrameSize 0)[0 := kDirUsedFirst, 4 := byte_of size' 0, 5 := byte_of size' 1,
                6 := byte_of size' 2, 7 := byte_of size' 3, 8 := 0xFF, 9 := 0xFF];
          name = take (kFrameSize - 1 - 0x0A) bare
      in seal (take 0x0A e @ name @ drop (0x0A + length name) e))"

fun find_loop :: "u8 list \<Rightarrow> nat list \<Rightarrow> Memcard \<Rightarrow> nat option \<times> Memcard" where
  "find_loop want [] m = (None, m)"
| "find_loop want (blk # blks) m =
     (let ((ok, e), m1) = readFrame (of_nat blk) m
      in if e ! 0 = kDirUsedFirst \<and> entry_name e = want then (Some blk, m1) else find_loop want blks m1)"

definition dirFind :: "u8 list \<Rightarrow> Memcard \<Rightarrow> nat option \<times> Memcard" where
  "dirFind name m = find_loop (mc_strip_dev name) [1..<kBlocks] m"

fun create_loop :: "u8 list \<Rightarrow> nat list \<Rightarrow> Memcard \<Rightarrow> nat option \<times> Memcard" where
  "create_loop entry [] m = (None, m)"
| "create_loop entry (blk # blks) m =
     (let ((ok, e), m1) = readFrame (of_nat blk) m
      in if e ! 0 \<noteq> kDirFree then create_loop entry blks m1
         else (Some blk, snd (writeFrame (of_nat blk) entry m1)))"

definition dirCreate :: "u8 list \<Rightarrow> u32 \<Rightarrow> Memcard \<Rightarrow> nat option \<times> Memcard" where
  "dirCreate name size' m = create_loop (entry_frame (mc_strip_dev name) size') [1..<kBlocks] m"

definition dirErase :: "nat \<Rightarrow> Memcard \<Rightarrow> Memcard" where
  "dirErase blk m = snd (writeFrame (of_nat blk) free_frame m)"

section \<open>Patterns and the scan\<close>

text \<open>
  The loop of \<open>mc_glob\<close>: \<open>star\<close> holds the pattern after the last star met and the text where it
  was met. A loop over pointers that are set back: \<open>None\<close> would be a call that does not return.
\<close>

partial_function (option) glob_loop :: "u8 list \<Rightarrow> u8 list \<Rightarrow> (u8 list \<times> u8 list) option \<Rightarrow> bool option" where
  "glob_loop pat s star =
     (case s of
        [] \<Rightarrow> Some (dropWhile (\<lambda>p. p = 0x2A) pat = [])
      | c # s' \<Rightarrow>
          if pat \<noteq> [] \<and> (hd pat = 0x3F \<or> hd pat = c) then glob_loop (tl pat) s' star
          else if pat \<noteq> [] \<and> hd pat = 0x2A then glob_loop (tl pat) s (Some (tl pat, s))
          else (case star of
                  None \<Rightarrow> Some False
                | Some (sp, ss) \<Rightarrow> glob_loop sp (tl ss) (Some (sp, tl ss))))"

definition mc_glob :: "u8 list \<Rightarrow> u8 list \<Rightarrow> bool option" where
  "mc_glob pat s = glob_loop pat s None"

definition dirScanBegin :: "u8 list \<Rightarrow> Memcard \<Rightarrow> Memcard" where
  "dirScanBegin pattern m = m\<lparr>mScanPat := take 63 pattern, mScanBlk := 1\<rparr>"

text \<open>
  The search of \<open>dirScanNext\<close>: the cursor stops on the block whose entry matches, or past the last one.
\<close>

fun scan_loop :: "nat list \<Rightarrow> Memcard \<Rightarrow> (u8 list option \<times> Memcard) option" where
  "scan_loop [] m = Some (None, m\<lparr>mScanBlk := max (mScanBlk m) kBlocks\<rparr>)"
| "scan_loop (blk # blks) m =
     (let ((ok, e), m1) = readFrame (of_nat blk) (m\<lparr>mScanBlk := blk\<rparr>)
      in if \<not> ok \<or> e ! 0 \<noteq> kDirUsedFirst then scan_loop blks m1
         else do { hit \<leftarrow> mc_glob (mScanPat m1) (entry_name e);
                   if hit then Some (Some e, m1) else scan_loop blks m1 })"

definition scan_next :: "Memcard \<Rightarrow> (u8 list option \<times> Memcard) option" where
  "scan_next m = scan_loop [mScanBlk m..<kBlocks] m"

definition restoreScanCursor :: "u8 list \<Rightarrow> nat \<Rightarrow> Memcard \<Rightarrow> Memcard" where
  "restoreScanCursor pattern block m = m\<lparr>mScanPat := take 63 pattern, mScanBlk := block\<rparr>"

section \<open>Descriptors\<close>

fun first_unused :: "McFd list \<Rightarrow> nat list \<Rightarrow> nat option" where
  "first_unused fds [] = None"
| "first_unused fds (i # is) = (if fd_used (fds ! i) then first_unused fds is else Some i)"

definition fdAlloc :: "nat \<Rightarrow> Memcard \<Rightarrow> nat option \<times> Memcard" where
  "fdAlloc block m =
     (let ((ok, entry), m1) = readFrame (of_nat block) m
      in case first_unused (mFd m1) [kFdBase..<kFdMax] of
           None \<Rightarrow> (None, m1)
         | Some i \<Rightarrow>
             (Some i, m1\<lparr>mFd := (mFd m1)[i := \<lparr>fd_used = True, fd_block = of_nat block, fd_pos = 0,
                                            fd_size = entry_size entry\<rparr>]\<rparr>))"

definition fdValid :: "int \<Rightarrow> Memcard \<Rightarrow> bool" where
  "fdValid fd m \<longleftrightarrow> int kFdBase \<le> fd \<and> fd < int kFdMax \<and> fd_used (mFd m ! nat fd)"

definition fdAt :: "int \<Rightarrow> Memcard \<Rightarrow> McFd option" where
  "fdAt fd m = (if fdValid fd m then Some (mFd m ! nat fd) else None)"

definition fdFree :: "int \<Rightarrow> Memcard \<Rightarrow> Memcard" where
  "fdFree fd m =
     (if int kFdBase \<le> fd \<and> fd < int kFdMax then m\<lparr>mFd := (mFd m)[nat fd := (mFd m ! nat fd)\<lparr>fd_used := False\<rparr>]\<rparr>
      else m)"

definition descriptorAt :: "int \<Rightarrow> Memcard \<Rightarrow> McFd option" where
  "descriptorAt index m = (if 0 \<le> index \<and> index < int kFdMax then Some (mFd m ! nat index) else None)"

definition restoreDescriptor :: "int \<Rightarrow> McFd \<Rightarrow> Memcard \<Rightarrow> Memcard" where
  "restoreDescriptor index entry m =
     (if 0 \<le> index \<and> index < int kFdMax then m\<lparr>mFd := (mFd m)[nat index := entry]\<rparr> else m)"

definition mc_data_frame :: "u32 \<Rightarrow> u32 \<Rightarrow> u32" where
  "mc_data_frame block off = block * of_nat kBlockFrames + 1 + off div of_nat kFrameSize"

end
