(* ===== verification/Card_Laws.thy ===== *)
theory Card_Laws
  imports Memory_Card
begin

text \<open>
  Laws of the memory card: the pattern matcher against the meaning of a shell pattern, the card a first
  access creates, frames and directory entries, the scan of the directory.
\<close>

section \<open>Patterns\<close>

text \<open>The meaning of a pattern: a star is any run of characters, a question mark any one.\<close>

fun glob_match :: "u8 list \<Rightarrow> u8 list \<Rightarrow> bool" where
  "glob_match [] s \<longleftrightarrow> s = []"
| "glob_match (p # ps) s \<longleftrightarrow>
     (if p = 0x2A then \<exists>k\<le>length s. glob_match ps (drop k s)
      else case s of [] \<Rightarrow> False | c # s' \<Rightarrow> (p = 0x3F \<or> p = c) \<and> glob_match ps s')"

text \<open>A run of the pattern without stars, character by character against the text.\<close>

definition align :: "u8 list \<Rightarrow> u8 list \<Rightarrow> bool" where
  "align pp ps = list_all2 (\<lambda>p c. p \<noteq> 0x2A \<and> (p = 0x3F \<or> p = c)) pp ps"

lemma align_glob: "align pp ps \<Longrightarrow> glob_match (pp @ q) (ps @ r) = glob_match q r"
  unfolding align_def by (induction rule: list_all2_induct) auto

lemma align_length: "align pp ps \<Longrightarrow> length pp = length ps"
  by (auto simp: align_def dest: list_all2_lengthD)

lemma align_no_star: "align pp ps \<Longrightarrow> 0x2A \<notin> set pp"
  unfolding align_def by (induction rule: list_all2_induct) auto

lemma glob_star_drop: "glob_match (0x2A # q) (drop k s) \<Longrightarrow> glob_match (0x2A # q) s"
proof (simp, elim exE conjE)
  fix j assume j: "j \<le> length s - k" "glob_match q (drop (j + k) s)"
  show "\<exists>k\<le>length s. glob_match q (drop k s)"
  proof (cases "k \<le> length s")
    case True
    then show ?thesis using j by (intro exI [of _ "j + k"]) simp
  next
    case False
    then show ?thesis using j by (intro exI [of _ "length s"]) simp
  qed
qed

lemma glob_literals:
  "0x2A \<notin> set pp \<Longrightarrow> glob_match (pp @ q) s \<Longrightarrow> length pp \<le> length s \<and> glob_match q (drop (length pp) s)"
  by (induction pp arbitrary: s) (auto split: list.splits)

lemma glob_empty: "glob_match q [] \<longleftrightarrow> dropWhile (\<lambda>p. p = 0x2A) q = []"
  by (induction q) auto

text \<open>A star after an aligned run makes the star before it idle.\<close>

lemma glob_later_star:
  assumes "align pp ps"
  shows "glob_match (0x2A # pp @ 0x2A # q) (ps @ s) = glob_match (0x2A # q) s"
proof
  assume "glob_match (0x2A # pp @ 0x2A # q) (ps @ s)"
  then obtain k where k: "glob_match (pp @ 0x2A # q) (drop k (ps @ s))" by auto
  have "glob_match (0x2A # q) (drop (length pp + k) (ps @ s))"
    using glob_literals [OF align_no_star [OF assms] k] by (simp only: drop_drop)
  then show "glob_match (0x2A # q) s"
    using align_length [OF assms] glob_star_drop [of q k s] by (simp del: glob_match.simps)
next
  assume "glob_match (0x2A # q) s"
  then have "glob_match (pp @ 0x2A # q) (ps @ s)" by (simp only: align_glob [OF assms])
  then show "glob_match (0x2A # pp @ 0x2A # q) (ps @ s)" by (auto intro: exI [of _ 0] simp del: glob_match.simps(1))
qed

lemma glob_star_tail: "s \<noteq> [] \<Longrightarrow> \<not> glob_match p s \<Longrightarrow> glob_match (0x2A # p) (tl s) = glob_match (0x2A # p) s"
proof
  assume "s \<noteq> []" and no: "\<not> glob_match p s" and "glob_match (0x2A # p) s"
  then obtain k where k: "k \<le> length s" "glob_match p (drop k s)" by auto
  then obtain j where "k = Suc j" using no by (cases k) auto
  then show "glob_match (0x2A # p) (tl s)" using k by (auto simp: drop_Suc intro: exI [of _ j])
qed (metis glob_star_drop drop_Suc drop0)

lemma glob_star_end:
  assumes "align pp ps"
  shows "glob_match (0x2A # pp @ pat) ps \<longleftrightarrow> dropWhile (\<lambda>p. p = 0x2A) pat = []"
proof
  assume "glob_match (0x2A # pp @ pat) ps"
  then obtain k where k: "k \<le> length ps" "glob_match (pp @ pat) (drop k ps)" by auto
  with glob_literals [OF align_no_star [OF assms] k(2)] show "dropWhile (\<lambda>p. p = 0x2A) pat = []"
    using align_length [OF assms] by (simp add: glob_empty)
next
  assume "dropWhile (\<lambda>p. p = 0x2A) pat = []"
  then have "glob_match (pp @ pat) ps" using align_glob [OF assms, of pat "[]"] by (simp add: glob_empty)
  then show "glob_match (0x2A # pp @ pat) ps" by (auto intro: exI [of _ 0])
qed

lemma glob_loop_star:
  assumes "align pp ps" and "0x2A \<notin> set (ps @ s)"
  shows "glob_loop pat s (Some (pp @ pat, ps @ s)) = Some (glob_match (0x2A # pp @ pat) (ps @ s))"
  using assms
proof (induction "(pp @ pat, ps @ s, s)" arbitrary: pp pat ps s
    rule: wf_induct_rule [OF wf_measures [of "[\<lambda>(p, _, _). length p, \<lambda>(_, t, _). length t, \<lambda>(_, _, u). length u]"]])
  case 1
  note IH = 1(1) and al = 1(2) and ns = 1(3)
  show ?case
  proof (cases s)
    case Nil
    then show ?thesis using glob_star_end [OF al] by (subst glob_loop.simps) (simp del: glob_match.simps)
  next
    case (Cons c s')
    then have c: "c \<noteq> 0x2A" using ns by auto
    consider (lit) p q where "pat = p # q" "p = 0x3F \<or> p = c" "p \<noteq> 0x2A" | (star) q where "pat = 0x2A # q"
      | (stop) "pat = [] \<or> hd pat \<noteq> 0x2A \<and> hd pat \<noteq> 0x3F \<and> hd pat \<noteq> c"
      using c by (cases pat) auto
    then show ?thesis
    proof cases
      case lit
      have "align (pp @ [p]) (ps @ [c])" using al lit by (simp add: align_def list_all2_appendI)
      then have "glob_loop q s' (Some ((pp @ [p]) @ q, (ps @ [c]) @ s')) = Some (glob_match (0x2A # (pp @ [p]) @ q) ((ps @ [c]) @ s'))"
        using ns lit Cons by (intro IH) auto
      then show ?thesis using lit Cons by (subst glob_loop.simps) (simp del: glob_match.simps)
    next
      case star
      have "glob_loop q s (Some ([] @ q, [] @ s)) = Some (glob_match (0x2A # [] @ q) ([] @ s))"
        using ns star by (intro IH) (auto simp: align_def)
      then show ?thesis
        using star Cons c glob_later_star [OF al, of q s] by (subst glob_loop.simps) (simp del: glob_match.simps)
    next
      case stop
      let ?p = "pp @ pat" and ?s = "ps @ s"
      have "\<not> glob_match pat s" using stop Cons by (cases pat) auto
      then have "\<not> glob_match ?p ?s" by (simp add: align_glob [OF al] del: glob_match.simps)
      then have "glob_match (0x2A # ?p) (tl ?s) = glob_match (0x2A # ?p) ?s" using Cons by (intro glob_star_tail) simp_all
      moreover have "glob_loop ?p (tl ?s) (Some ([] @ ?p, [] @ tl ?s)) = Some (glob_match (0x2A # [] @ ?p) ([] @ tl ?s))"
        using ns Cons by (intro IH) (auto simp: align_def dest: list.set_sel(2) [rotated])
      ultimately show ?thesis using stop Cons by (subst glob_loop.simps) (auto simp del: glob_match.simps)
    qed
  qed
qed

lemma glob_loop_plain: "0x2A \<notin> set s \<Longrightarrow> glob_loop pat s None = Some (glob_match pat s)"
proof (induction s arbitrary: pat)
  case Nil
  then show ?case by (subst glob_loop.simps) (simp add: glob_empty)
next
  case (Cons c s)
  show ?case
  proof (cases pat)
    case Nil
    then show ?thesis by (subst glob_loop.simps) simp
  next
    case (Cons p q)
    then show ?thesis
      using Cons.IH [of q] Cons.prems glob_loop_star [of "[]" "[]" "c # s" q]
      by (subst glob_loop.simps) (auto simp: align_def simp del: glob_match.simps, auto)
  qed
qed


text \<open>Whatever the text holds, the loop returns.\<close>

lemma glob_loop_returns: "\<exists>b. glob_loop pat s (Some (pp @ pat, ps @ s)) = Some b"
proof (induction "(pp @ pat, ps @ s, s)" arbitrary: pp pat ps s
    rule: wf_induct_rule [OF wf_measures [of "[\<lambda>(p, _, _). length p, \<lambda>(_, t, _). length t, \<lambda>(_, _, u). length u]"]])
  case 1
  note IH = 1(1)
  show ?case
  proof (cases s)
    case Nil
    then show ?thesis by (subst glob_loop.simps) simp
  next
    case (Cons c s')
    have lit: "\<exists>b. glob_loop q s' (Some (pp @ p # q, ps @ c # s')) = Some b" if "pat = p # q" for p q
      using IH [of "pp @ [p]" q "ps @ [c]" s'] that Cons by simp
    have star: "\<exists>b. glob_loop q s (Some (q, s)) = Some b" if "pat = p # q" for p q
      using IH [of "[]" q "[]" s] that by simp
    have again: "\<exists>b. glob_loop (pp @ pat) (tl (ps @ s)) (Some (pp @ pat, tl (ps @ s))) = Some b"
      using IH [of "[]" "pp @ pat" "[]" "tl (ps @ s)"] Cons by simp
    show ?thesis
      using Cons lit star again by (subst glob_loop.simps) (cases pat; auto)
  qed
qed

lemma mc_glob_returns: "\<exists>b. mc_glob pat s = Some b"
proof -
  have "\<exists>b. glob_loop pat s None = Some b"
  proof (induction s arbitrary: pat)
    case Nil
    then show ?case by (subst glob_loop.simps) simp
  next
    case (Cons c s)
    then show ?case
      using glob_loop_returns [of "tl pat" "c # s" "[]" "[]"] by (subst glob_loop.simps) auto
  qed
  then show ?thesis by (simp add: mc_glob_def)
qed

text \<open>
  C23: The matcher returns on every pattern and every text, and on a text without a star of its own it
  answers whether the text has the shape of the pattern.
\<close>

theorem glob_decides:
  "\<exists>b. mc_glob pat s = Some b \<and> (0x2A \<in> set s \<or> b = glob_match pat s)"
  using mc_glob_returns [of pat s] glob_loop_plain [of s pat] by (auto simp: mc_glob_def)

text \<open>A star in the text is taken for the star of the pattern: \<open>*\<close> does not match \<open>*a\<close>.\<close>

theorem glob_literal_star: "mc_glob [0x2A] [0x2A, 0x61] = Some False \<and> glob_match [0x2A] [0x2A, 0x61]"
  by (auto simp: mc_glob_def glob_loop.simps intro: exI [of _ 0])

section \<open>Frames\<close>

text \<open>The frames of an open card.\<close>

definition frame_at :: "Memcard \<Rightarrow> nat \<Rightarrow> u8 list" where
  "frame_at m i = take kFrameSize (drop (i * kFrameSize) (content m))"

definition usable :: "Memcard \<Rightarrow> bool" where
  "usable m \<longleftrightarrow> mCard m \<and> host_accepts (mHost m) \<and> kSize \<le> length (content m)"

lemma content_simps [simp]:
  "content (set_content f m) = f" "content (m\<lparr>mFd := x\<rparr>) = content m" "content (m\<lparr>mScanBlk := b\<rparr>) = content m"
  "content (m\<lparr>mScanPat := q\<rparr>) = content m" "content (m\<lparr>mCard := c\<rparr>) = content m"
  by (simp_all add: content_def set_content_def)

lemma set_content_simps [simp]:
  "mCard (set_content f m) = mCard m" "mFd (set_content f m) = mFd m" "mScanBlk (set_content f m) = mScanBlk m"
  "mScanPat (set_content f m) = mScanPat m" "host_accepts (mHost (set_content f m)) = host_accepts (mHost m)"
  by (simp_all add: set_content_def)

lemma set_content_again: "set_content f ((set_content f' m)\<lparr>mCard := c\<rparr>) = (set_content f m)\<lparr>mCard := c\<rparr>"
  by (simp add: set_content_def)

lemma kFrameSize_pos: "0 < kFrameSize"
  by (simp add: kFrameSize_def)

lemma length_put_at: "p + length bs \<le> length f \<Longrightarrow> length (put_at p bs f) = length f"
  by (simp add: put_at_def)

lemma frame_put_at:
  assumes "length bs = kFrameSize" and "(k + 1) * kFrameSize \<le> length f" and "(i + 1) * kFrameSize \<le> length f"
  shows "take kFrameSize (drop (i * kFrameSize) (put_at (k * kFrameSize) bs f)) =
    (if i = k then bs else take kFrameSize (drop (i * kFrameSize) f))"
proof (rule nth_equalityI)
  have len: "length (put_at (k * kFrameSize) bs f) = length f" using assms by (intro length_put_at) simp
  then show "length (take kFrameSize (drop (i * kFrameSize) (put_at (k * kFrameSize) bs f))) =
      length (if i = k then bs else take kFrameSize (drop (i * kFrameSize) f))"
    using assms by simp
  fix j assume "j < length (take kFrameSize (drop (i * kFrameSize) (put_at (k * kFrameSize) bs f)))"
  then have j: "j < kFrameSize" by simp
  have "k * kFrameSize + kFrameSize \<le> i * kFrameSize + j \<or> i * kFrameSize + j < k * kFrameSize" if "i \<noteq> k"
    using that j by (simp add: kFrameSize_def) arith
  then show "take kFrameSize (drop (i * kFrameSize) (put_at (k * kFrameSize) bs f)) ! j =
      (if i = k then bs else take kFrameSize (drop (i * kFrameSize) f)) ! j"
    using assms j len by (auto simp: put_at_def nth_append min_def kFrameSize_def)
qed

text \<open>
  The contract of the frame layer, as the directory and the file calls use it: a frame of the card reads as what
  was last written there, a frame past its end is refused and nothing moves.
\<close>

locale frame_store =
  fixes rd :: "u32 \<Rightarrow> 's \<Rightarrow> (bool \<times> u8 list) \<times> 's"
    and wr :: "u32 \<Rightarrow> u8 list \<Rightarrow> 's \<Rightarrow> bool \<times> 's"
    and ready :: "'s \<Rightarrow> bool"
    and frame :: "'s \<Rightarrow> nat \<Rightarrow> u8 list"
    and count :: nat
  assumes rd_frame: "ready s \<Longrightarrow> unat f < count \<Longrightarrow> rd f s = ((True, frame s (unat f)), s)"
    and rd_past: "ready s \<Longrightarrow> count \<le> unat f \<Longrightarrow> rd f s = ((False, replicate kFrameSize 0), s)"
    and wr_frame: "ready s \<Longrightarrow> unat f < count \<Longrightarrow> length bs = kFrameSize \<Longrightarrow>
      \<exists>s'. wr f bs s = (True, s') \<and> ready s' \<and> (\<forall>i<count. frame s' i = (if i = unat f then bs else frame s i))"
    and wr_past: "ready s \<Longrightarrow> count \<le> unat f \<Longrightarrow> wr f bs s = (False, s)"
    and frame_length: "ready s \<Longrightarrow> i < count \<Longrightarrow> length (frame s i) = kFrameSize"
begin

text \<open>A series of writes; each reports whether it moved its frame.\<close>

fun writes :: "(u32 \<times> u8 list) list \<Rightarrow> 's \<Rightarrow> bool \<times> 's" where
  "writes [] s = (True, s)"
| "writes ((f, bs) # ws) s = (let (ok, s1) = wr f bs s; (oks, s2) = writes ws s1 in (ok \<and> oks, s2))"

lemma writes_frames:
  assumes "ready s" and "list_all (\<lambda>(f, bs). length bs = kFrameSize) ws"
  shows "\<exists>s'. writes ws s = (list_all (\<lambda>(f, bs). unat f < count) ws, s') \<and> ready s' \<and>
    (\<forall>i<count. frame s' i = foldl (\<lambda>x (f, bs). if unat f = i then bs else x) (frame s i) ws)"
  using assms
proof (induction ws arbitrary: s)
  case (Cons w ws)
  obtain f bs where w: "w = (f, bs)" by (cases w)
  obtain s1 where s1: "wr f bs s = (unat f < count, s1)" "ready s1"
    "\<forall>i<count. frame s1 i = (if i = unat f then bs else frame s i)"
  proof (cases "unat f < count")
    case True
    then show ?thesis using wr_frame [of s f bs] Cons.prems w that by auto
  next
    case False
    then show ?thesis using wr_past [of s f bs] Cons.prems that [of s] by (auto simp: not_less)
  qed
  from Cons.IH [OF s1(2)] Cons.prems(2) w obtain s' where
    "writes ws s1 = (list_all (\<lambda>(f, bs). unat f < count) ws, s')" "ready s'"
    "\<forall>i<count. frame s' i = foldl (\<lambda>x (f, bs). if unat f = i then bs else x) (frame s1 i) ws" by auto
  then show ?case using s1 w by (auto simp: eq_commute)
qed simp

end

interpretation card: frame_store readFrame writeFrame usable frame_at kFrames
proof
  fix s :: Memcard and f :: u32 and bs :: "u8 list" and i :: nat
  assume u: "usable s"
  have len: "length (take kFrameSize (drop (j * kFrameSize) (content s))) = kFrameSize" if "j < kFrames" for j
    using u that by (auto simp: usable_def kFrameSize_def kFrames_def kSize_def min_def)
  show "unat f < kFrames \<Longrightarrow> readFrame f s = ((True, frame_at s (unat f)), s)"
    using u len by (simp add: readFrame_def usable_def frame_at_def)
  show "kFrames \<le> unat f \<Longrightarrow> readFrame f s = ((False, replicate kFrameSize 0), s)"
    using u by (simp add: readFrame_def usable_def)
  show "i < kFrames \<Longrightarrow> length (frame_at s i) = kFrameSize"
    using len by (simp add: frame_at_def)
  show "kFrames \<le> unat f \<Longrightarrow> writeFrame f bs s = (False, s)"
    using u by (simp add: writeFrame_def usable_def)
  assume f: "unat f < kFrames" and bs: "length bs = kFrameSize"
  have fit: "(k + 1) * kFrameSize \<le> length (content s)" if "k < kFrames" for k
    using u that by (simp add: usable_def kFrameSize_def kFrames_def kSize_def)
  let ?s = "set_content (put_at (unat f * kFrameSize) bs (content s)) s"
  have "writeFrame f bs s = (True, ?s)" using u f by (simp add: writeFrame_def fwrite_at_def usable_def)
  moreover have "usable ?s" using u fit [OF f] bs by (simp add: usable_def length_put_at)
  moreover have "\<forall>i<kFrames. frame_at ?s i = (if i = unat f then bs else frame_at s i)"
    using frame_put_at [OF bs fit [OF f] fit] by (simp add: frame_at_def)
  ultimately show "\<exists>s'. writeFrame f bs s = (True, s') \<and> usable s' \<and>
      (\<forall>i<kFrames. frame_at s' i = (if i = unat f then bs else frame_at s i))" by blast
qed


section \<open>The card of a first access\<close>

lemma xor_sum_Cons: "foldl (\<lambda>x b. x XOR b) a bs = a XOR foldl (\<lambda>x b. x XOR b) 0 bs" for a :: u8
  by (induction bs arbitrary: a) (simp, metis (no_types) foldl_Cons xor.assoc xor.left_neutral)

lemma seal_checks:
  assumes "length f = kFrameSize"
  shows "xor_sum (seal f) = 0" "length (seal f) = kFrameSize"
proof -
  have "seal f = take 0x7F f @ [xor_sum (take 0x7F f)]"
    using assms by (intro nth_equalityI) (auto simp: seal_def kFrameSize_def nth_append nth_list_update)
  then show "xor_sum (seal f) = 0" by (simp add: xor_sum_def)
  show "length (seal f) = kFrameSize" using assms by (simp add: seal_def)
qed

lemma free_frame_ok: "length free_frame = kFrameSize" "xor_sum free_frame = 0" "free_frame ! 0 = kDirFree"
  using seal_checks [of "(replicate kFrameSize 0)[0 := kDirFree, 8 := 0xFF, 9 := 0xFF]"] kFrameSize_pos
  by (simp_all add: free_frame_def) (simp add: seal_def nth_list_update)

lemma length_formatted: "length formattedDirectory = kBlocks * kFrameSize"
  by (simp add: formattedDirectory_def free_frame_ok seal_def length_concat sum_list_replicate kBlocks_def)

lemma formatted_frames:
  assumes "1 \<le> i" and "i < kBlocks"
  shows "take kFrameSize (drop (i * kFrameSize) (formattedDirectory @ rest)) = free_frame"
proof -
  have run: "take n (drop (j * n) (concat (replicate k f) @ r)) = f" if "length f = n" "j < k" for j k n :: nat and f r :: "u8 list"
    using that
  proof (induction k arbitrary: j)
    case (Suc k)
    then show ?case by (cases j) (simp_all add: add.commute)
  qed simp
  obtain j where "i = Suc j" using assms(1) by (cases i) auto
  moreover have "length (seal ((replicate kFrameSize 0)[0 := 0x4D, 1 := 0x43])) = kFrameSize" by (simp add: seal_def)
  ultimately show ?thesis
    using assms(2) run [OF free_frame_ok(1), of j "kBlocks - 1" rest]
    by (simp add: formattedDirectory_def add.commute del: replicate.simps)
qed


text \<open>
  The first access to a card whose file does not exist creates a whole card with an empty directory, every
  block of it free and every directory frame with its checksum; the snapshot taken before that
  access, which creates nothing, names the same bytes.
\<close>

theorem first_access_formats:
  assumes "\<not> mCard m" and "host_file (mHost m) = None" and "host_may_create (mHost m)" and "host_accepts (mHost m)"
  shows "usable (card_init m) \<and> snapshot_image m = Some (content (card_init m)) \<and>
    (\<forall>i. 1 \<le> i \<and> i < kBlocks \<longrightarrow> frame_at (card_init m) i = free_frame) \<and> xor_sum (frame_at (card_init m) 0) = 0"
proof -
  let ?z = "replicate kSize 0 :: u8 list"
  define m1 where "m1 = (set_content ?z m)\<lparr>mCard := True\<rparr>"
  have k: "0 < kSize" "kFrameSize \<le> kSize" "kFrames * kFrameSize = kSize" "kBlocks * kFrameSize \<le> kSize" by (simp_all add: card_consts)
  have m1: "content m1 = ?z" "mCard m1" "host_accepts (mHost m1)" using assms by (simp_all add: m1_def)
  have "open_image m = m1"
    using assms k by (simp add: open_image_def pad_frames_def fwrite_at_def put_at_def m1_def set_content_again)
  moreover have "complete_image m1 = m1" by (simp add: complete_image_def m1 Let_def)
  moreover have "(take kFrameSize ?z @ xs) ! 0 \<noteq> 0x4D" for xs
    using k kFrameSize_pos by (simp add: nth_append)
  then have "format_image m1 = set_content (put_at 0 formattedDirectory ?z) m1"
    by (simp add: format_image_def m1 fwrite_at_def Let_def)
  ultimately have init: "card_init m = set_content (put_at 0 formattedDirectory ?z) m1"
    using assms(1) by (simp add: card_init_def m1)
  have c: "content (card_init m) = formattedDirectory @ replicate (kSize - length formattedDirectory) 0"
    by (simp add: init put_at_def)
  have "usable (card_init m)" using k by (simp add: usable_def c) (simp add: init m1 length_formatted)
  moreover have "snapshot_image m = Some (content (card_init m))" using assms by (simp add: snapshot_image_def c)
  moreover have "frame_at (card_init m) i = free_frame" if "1 \<le> i" "i < kBlocks" for i
    using that by (simp only: frame_at_def c formatted_frames)
  moreover have "xor_sum (frame_at (card_init m) 0) = 0"
  proof -
    let ?h = "(replicate kFrameSize 0)[0 := 0x4D, 1 := 0x43] :: u8 list"
    have "frame_at (card_init m) 0 = seal ?h" by (simp add: frame_at_def c formattedDirectory_def seal_def)
    then show ?thesis using seal_checks(1) [of ?h] by simp
  qed
  ultimately show ?thesis by blast
qed

section \<open>Directory\<close>

definition entry_for :: "u8 list \<Rightarrow> u8 list \<Rightarrow> bool" where
  "entry_for want e \<longleftrightarrow> e ! 0 = kDirUsedFirst \<and> entry_name e = want"

lemma unat_block: "b < kBlocks \<Longrightarrow> unat (of_nat b :: u32) = b" "b < kBlocks \<Longrightarrow> b < kFrames"
  by (simp_all add: kBlocks_def kFrames_def)

lemma find_loop_usable:
  assumes "usable m" and "set bs \<subseteq> {..<kBlocks}"
  shows "find_loop want bs m = (find (\<lambda>b. entry_for want (frame_at m b)) bs, m)"
  using assms(2) by (induction bs) (auto simp: card.rd_frame [OF assms(1)] unat_block entry_for_def)

lemma find_upt_Some:
  "find P [a..<n] = Some i \<longleftrightarrow> a \<le> i \<and> i < n \<and> P i \<and> (\<forall>j. a \<le> j \<and> j < i \<longrightarrow> \<not> P j)" for P :: "nat \<Rightarrow> bool"
proof
  assume "find P [a..<n] = Some i"
  then obtain k where k: "k < n - a" "P (a + k)" "i = a + k" "\<forall>j<k. \<not> P (a + j)" by (auto simp: find_Some_iff)
  have "\<not> P j" if "a \<le> j" "j < i" for j using k(3,4) that by (metis le_Suc_ex nat_add_left_cancel_less)
  then show "a \<le> i \<and> i < n \<and> P i \<and> (\<forall>j. a \<le> j \<and> j < i \<longrightarrow> \<not> P j)" using k by auto
next
  assume "a \<le> i \<and> i < n \<and> P i \<and> (\<forall>j. a \<le> j \<and> j < i \<longrightarrow> \<not> P j)"
  then show "find P [a..<n] = Some i" by (auto simp: find_Some_iff intro!: exI [of _ "i - a"])
qed

lemma find_upt_None: "find P [a..<n] = None \<longleftrightarrow> (\<forall>j. a \<le> j \<and> j < n \<longrightarrow> \<not> P j)" for P :: "nat \<Rightarrow> bool"
  by (auto simp: find_None_iff)

text \<open>The directory as a map from names to the block of their entry, and that no two entries share a name.\<close>

definition lookup :: "Memcard \<Rightarrow> u8 list \<rightharpoonup> nat" where
  "lookup m want = find (\<lambda>b. entry_for want (frame_at m b)) [1..<kBlocks]"

definition dir_inv :: "Memcard \<Rightarrow> bool" where
  "dir_inv m \<longleftrightarrow> (\<forall>b\<in>{1..<kBlocks}. \<forall>c\<in>{1..<kBlocks}. \<forall>want.
     entry_for want (frame_at m b) \<longrightarrow> entry_for want (frame_at m c) \<longrightarrow> b = c)"

lemma dirFind_lookup: "usable m \<Longrightarrow> dirFind name m = (lookup m (mc_strip_dev name), m)"
  by (simp add: dirFind_def lookup_def find_loop_usable atLeastLessThan_def)

lemma lookup_inv: "dir_inv m \<Longrightarrow> lookup m want = Some b \<longleftrightarrow> 1 \<le> b \<and> b < kBlocks \<and> entry_for want (frame_at m b)"
  by (fastforce simp: lookup_def find_upt_Some dir_inv_def)

lemma create_loop_usable:
  assumes "usable m" and "set bs \<subseteq> {..<kBlocks}" and "length entry = kFrameSize"
  shows "case find (\<lambda>b. frame_at m b ! 0 = kDirFree) bs of
      None \<Rightarrow> create_loop entry bs m = (None, m)
    | Some b \<Rightarrow> \<exists>m'. create_loop entry bs m = (Some b, m') \<and> usable m' \<and>
        (\<forall>i<kFrames. frame_at m' i = (if i = b then entry else frame_at m i))"
  using assms(2)
proof (induction bs)
  case (Cons b bs)
  then have b: "unat (of_nat b :: u32) = b" "b < kFrames" by (simp_all add: unat_block)
  show ?case
  proof (cases "frame_at m b ! 0 = kDirFree")
    case True
    from card.wr_frame [OF assms(1) _ assms(3), of "of_nat b"] b obtain m' where
      "writeFrame (of_nat b) entry m = (True, m')" "usable m'"
      "\<forall>i<kFrames. frame_at m' i = (if i = b then entry else frame_at m i)" by auto
    then show ?thesis using True b by (simp add: card.rd_frame [OF assms(1)])
  next
    case False
    then show ?thesis
      using Cons b by (cases "find (\<lambda>b. frame_at m b ! 0 = kDirFree) bs") (simp_all add: card.rd_frame [OF assms(1)])
  qed
qed simp

text \<open>Names an entry can hold: the frame has room for 117 characters, and the search reads the checksum as the next one.\<close>

definition name_fits :: "u8 list \<Rightarrow> bool" where
  "name_fits bare \<longleftrightarrow> length bare \<le> 116 \<and> 0 \<notin> set bare"

lemma entry_frame_reads:
  assumes "name_fits bare"
  shows "length (entry_frame bare size') = kFrameSize" "entry_frame bare size' ! 0 = kDirUsedFirst"
    "entry_name (entry_frame bare size') = bare" "entry_size (entry_frame bare size') = size'"
    "xor_sum (entry_frame bare size') = 0"
proof -
  define h :: "u8 list" where "h = [kDirUsedFirst, 0, 0, 0] @ bytes_of 4 size' @ [0xFF, 0xFF]"
  have n: "length bare \<le> 116" "0 \<notin> set bare" using assms by (simp_all add: name_fits_def)
  have tk: "take (kFrameSize - 1 - 0x0A) bare = bare" using n by (simp add: kFrameSize_def)
  let ?e = "(replicate kFrameSize 0)[0 := kDirUsedFirst, 4 := byte_of size' 0, 5 := byte_of size' 1,
                6 := byte_of size' 2, 7 := byte_of size' 3, 8 := 0xFF, 9 := 0xFF] :: u8 list"
  have rep: "replicate kFrameSize 0 = replicate 10 0 @ (replicate (kFrameSize - 10) 0 :: u8 list)"
    by (simp add: kFrameSize_def flip: replicate_add)
  have "?e = h @ replicate (kFrameSize - 10) 0"
    unfolding rep by (simp add: h_def bytes_of_def numeral_eq_Suc list_update_append)
  moreover have lh: "length h = 10" by (simp add: h_def)
  ultimately have f: "entry_frame bare size' = seal (h @ bare @ replicate (kFrameSize - 10 - length bare) 0)"
    using n by (simp add: entry_frame_def tk Let_def kFrameSize_def)
  define r :: "u8 list" where "r = h @ bare @ replicate (kFrameSize - 10 - length bare) 0"
  have lr: "length r = kFrameSize" using n lh by (simp add: r_def kFrameSize_def)
  obtain x where seal_r: "seal r = h @ bare @ 0 # x"
  proof -
    have "kFrameSize - 10 - length bare = Suc (117 - length bare)" "0x7F - (10 + length bare) = Suc (116 - length bare)"
      using n by (simp_all add: kFrameSize_def)
    then show ?thesis using n lh that by (simp add: seal_def r_def list_update_append del: diff_diff_left)
  qed
  show "length (entry_frame bare size') = kFrameSize" "xor_sum (entry_frame bare size') = 0"
    using seal_checks [OF lr] by (simp_all add: f r_def)
  show "entry_frame bare size' ! 0 = kDirUsedFirst"
    using seal_r by (simp add: f r_def h_def)
  show "entry_name (entry_frame bare size') = bare"
    using seal_r n lh by (simp add: f r_def entry_name_def takeWhile_append)
  show "entry_size (entry_frame bare size') = size'"
    using seal_r by (simp add: f r_def h_def entry_size_def)
qed


lemma entry_for_frames:
  "name_fits bare \<Longrightarrow> entry_for want (entry_frame bare size') \<longleftrightarrow> want = bare" "\<not> entry_for want free_frame"
  by (auto simp: entry_for_def entry_frame_reads free_frame_ok kDirFree_def kDirUsedFirst_def)

text \<open>What a change of one directory block does to the map.\<close>

lemma dir_update:
  assumes "dir_inv m" and b: "1 \<le> b" "b < kBlocks"
    and fr: "\<forall>i<kFrames. frame_at m' i = (if i = b then e else frame_at m i)"
    and new: "\<And>want. entry_for want e \<Longrightarrow> lookup m want = None"
  shows "dir_inv m'"
    and "lookup m' want = (if entry_for want e then Some b else if lookup m want = Some b then None else lookup m want)"
proof -
  have fr': "frame_at m' i = (if i = b then e else frame_at m i)" if "i < kBlocks" for i
    using fr unat_block(2) [OF that] by simp
  have none: "\<not> entry_for want (frame_at m c)" if "entry_for want e" "1 \<le> c" "c < kBlocks" for want c
    using new [OF that(1)] that by (auto simp: lookup_def find_upt_None)
  show inv: "dir_inv m'"
    unfolding dir_inv_def
  proof (intro ballI allI impI)
    fix c d want
    assume "c \<in> {1..<kBlocks}" "d \<in> {1..<kBlocks}" "entry_for want (frame_at m' c)" "entry_for want (frame_at m' d)"
    then show "c = d" using assms(1) none fr' by (auto simp: dir_inv_def split: if_splits)
  qed
  have "lookup m' want = Some c \<longleftrightarrow>
      (if entry_for want e then Some b else if lookup m want = Some b then None else lookup m want) = Some c" for c
  proof -
    have "lookup m' want = Some c \<longleftrightarrow> 1 \<le> c \<and> c < kBlocks \<and> entry_for want (if c = b then e else frame_at m c)"
      unfolding lookup_inv [OF inv] using fr' by auto
    moreover have "c = b" if "1 \<le> c" "c < kBlocks" "entry_for want (frame_at m b)" "entry_for want (frame_at m c)"
      using assms(1) b that by (auto simp: dir_inv_def)
    ultimately show ?thesis using b none by (auto simp: lookup_inv [OF assms(1)] split: if_splits)
  qed
  then show "lookup m' want = (if entry_for want e then Some b else if lookup m want = Some b then None else lookup m want)"
    by (metis not_Some_eq)
qed

text \<open>
  C26: The directory is a map from names to blocks. Creating a file whose name is not there takes the first free block,
  records the name and the size in it and adds just that name to the map, or is refused because no block
  is free; erasing a file that is there removes just its name. No other frame of the card is changed, and no two
  entries ever share a name.
\<close>

theorem directory_is_map:
  assumes "usable m" and "dir_inv m" and "name_fits (mc_strip_dev name)"
  shows "dirFind name m = (lookup m (mc_strip_dev name), m) \<and>
    (lookup m (mc_strip_dev name) = None \<longrightarrow>
      (case dirCreate name size' m of
         (None, m') \<Rightarrow> m' = m \<and> (\<forall>b. 1 \<le> b \<and> b < kBlocks \<longrightarrow> frame_at m b ! 0 \<noteq> kDirFree)
       | (Some b, m') \<Rightarrow> usable m' \<and> dir_inv m' \<and> frame_at m b ! 0 = kDirFree \<and>
           (\<forall>i. 1 \<le> i \<and> i < b \<longrightarrow> frame_at m i ! 0 \<noteq> kDirFree) \<and>
           lookup m' = (lookup m)(mc_strip_dev name \<mapsto> b) \<and> entry_size (frame_at m' b) = size' \<and>
           (\<forall>i<kFrames. i = b \<or> frame_at m' i = frame_at m i))) \<and>
    (\<forall>b. lookup m (mc_strip_dev name) = Some b \<longrightarrow>
      (let m' = dirErase b m in usable m' \<and> dir_inv m' \<and> frame_at m' b = free_frame \<and>
        lookup m' = (lookup m)(mc_strip_dev name := None) \<and> (\<forall>i<kFrames. i = b \<or> frame_at m' i = frame_at m i)))"
    (is "_ \<and> (_ \<longrightarrow> ?create) \<and> (\<forall>b. _ \<longrightarrow> ?erase b)")
proof (intro conjI impI allI)
  let ?n = "mc_strip_dev name" and ?e = "entry_frame (mc_strip_dev name) size'"
  let ?free = "\<lambda>b. frame_at m b ! 0 = kDirFree"
  note e = entry_frame_reads [OF assms(3), of size']
  show "dirFind name m = (lookup m ?n, m)" using assms(1) by (rule dirFind_lookup)
  show ?create if none: "lookup m ?n = None"
  proof (cases "find ?free [1..<kBlocks]")
    case None
    then have "dirCreate name size' m = (None, m)"
      using create_loop_usable [OF assms(1) _ e(1), of "[1..<kBlocks]"] by (simp add: dirCreate_def atLeastLessThan_def)
    then show ?thesis using None by (simp add: find_upt_None)
  next
    case (Some b)
    then obtain m' where m': "dirCreate name size' m = (Some b, m')" "usable m'"
      "\<forall>i<kFrames. frame_at m' i = (if i = b then ?e else frame_at m i)"
      using create_loop_usable [OF assms(1) _ e(1), of "[1..<kBlocks]"]
      by (auto simp: dirCreate_def atLeastLessThan_def)
    have b: "1 \<le> b" "b < kBlocks" "?free b" "\<forall>i. 1 \<le> i \<and> i < b \<longrightarrow> \<not> ?free i"
      using Some by (simp_all add: find_upt_Some)
    have "\<not> entry_for want (frame_at m b)" for want using b(3) by (simp add: entry_for_def kDirFree_def kDirUsedFirst_def)
    then have nb: "lookup m want \<noteq> Some b" for want by (simp add: lookup_inv [OF assms(2)])
    note up = dir_update [OF assms(2) b(1,2) m'(3)]
    have "dir_inv m'" "\<And>want. lookup m' want = (if want = ?n then Some b else lookup m want)"
      using up none nb by (simp_all add: entry_for_frames(1) [OF assms(3)])
    then show ?thesis using m' b e unat_block(2) [OF b(2)] by (auto simp: fun_eq_iff)
  qed
  show "?erase b" if at: "lookup m ?n = Some b" for b
  proof -
    have b: "1 \<le> b" "b < kBlocks" "entry_for ?n (frame_at m b)" using at by (simp_all add: lookup_inv [OF assms(2)])
    define m' where "m' = dirErase b m"
    from card.wr_frame [OF assms(1) _ free_frame_ok(1), of "of_nat b"] unat_block [OF b(2)]
    have m': "usable m'" "\<forall>i<kFrames. frame_at m' i = (if i = b then free_frame else frame_at m i)"
      by (auto simp: m'_def dirErase_def)
    note up = dir_update [OF assms(2) b(1,2) m'(2)]
    have "lookup m want = Some b \<longleftrightarrow> want = ?n" for want
      using b at by (auto simp: lookup_inv [OF assms(2)] entry_for_def)
    then have "dir_inv m'" "\<And>want. lookup m' want = (if want = ?n then None else lookup m want)"
      using up by (simp_all add: entry_for_frames(2))
    then show ?thesis using m' unat_block(2) [OF b(2)] by (simp add: Let_def fun_eq_iff flip: m'_def)
  qed
qed


section \<open>Scan\<close>

definition scan_hit :: "u8 list \<Rightarrow> u8 list \<Rightarrow> bool" where
  "scan_hit pat e \<longleftrightarrow> e ! 0 = kDirUsedFirst \<and> mc_glob pat (entry_name e) = Some True"

lemma usable_cursor [simp]: "usable (m\<lparr>mScanBlk := b\<rparr>) = usable m" "frame_at (m\<lparr>mScanBlk := b\<rparr>) i = frame_at m i"
  "usable (m\<lparr>mScanPat := q\<rparr>) = usable m" "frame_at (m\<lparr>mScanPat := q\<rparr>) i = frame_at m i"
  "usable (m\<lparr>mFd := f\<rparr>) = usable m" "frame_at (m\<lparr>mFd := f\<rparr>) i = frame_at m i"
  by (simp_all add: usable_def frame_at_def)

lemma scan_loop_usable:
  assumes "usable m" and "set bs \<subseteq> {..<kBlocks}" and "mScanBlk m \<le> kBlocks"
  shows "scan_loop bs m =
    Some (case find (\<lambda>b. scan_hit (mScanPat m) (frame_at m b)) bs of
            None \<Rightarrow> (None, m\<lparr>mScanBlk := kBlocks\<rparr>)
          | Some b \<Rightarrow> (Some (frame_at m b), m\<lparr>mScanBlk := b\<rparr>))"
  using assms
proof (induction bs arbitrary: m)
  case Nil
  then show ?case by (simp add: max_absorb2)
next
  case (Cons b bs)
  let ?m = "m\<lparr>mScanBlk := b\<rparr>"
  have b: "unat (of_nat b :: u32) = b" "b < kFrames" "b < kBlocks" using Cons.prems(2) by (simp_all add: unat_block)
  have rd: "readFrame (of_nat b) ?m = ((True, frame_at m b), ?m)"
    using card.rd_frame [of ?m "of_nat b"] Cons.prems(1) b by simp
  have IH: "scan_loop bs ?m = Some (case find (\<lambda>b. scan_hit (mScanPat m) (frame_at m b)) bs of
            None \<Rightarrow> (None, m\<lparr>mScanBlk := kBlocks\<rparr>)
          | Some b \<Rightarrow> (Some (frame_at m b), m\<lparr>mScanBlk := b\<rparr>))"
    using Cons.IH [of ?m] Cons.prems b by (simp cong: option.case_cong)
  obtain hit where "mc_glob (mScanPat m) (entry_name (frame_at m b)) = Some hit" using mc_glob_returns by blast
  then show ?case using rd IH by (simp add: scan_hit_def)
qed

text \<open>The blocks a browser meets: the cursor is left one past each block found.\<close>

fun scan_blocks :: "nat \<Rightarrow> Memcard \<Rightarrow> nat list" where
  "scan_blocks 0 m = []"
| "scan_blocks (Suc n) m =
     (case scan_next m of
        Some (Some e, m1) \<Rightarrow> mScanBlk m1 # scan_blocks n (m1\<lparr>mScanBlk := mScanBlk m1 + 1\<rparr>)
      | _ \<Rightarrow> [])"

lemma filter_upt_find:
  "filter P [a..<n] = (case find P [a..<n] of None \<Rightarrow> [] | Some b \<Rightarrow> b # filter P [Suc b..<n])" for P :: "nat \<Rightarrow> bool"
proof (cases "find P [a..<n]")
  case None
  then have "filter P [a..<n] = []" by (simp add: find_upt_None filter_empty_conv)
  then show ?thesis using None by simp
next
  case (Some b)
  then have b: "a \<le> b" "b < n" "P b" "\<forall>j. a \<le> j \<and> j < b \<longrightarrow> \<not> P j" by (simp_all add: find_upt_Some)
  have "[a..<n] = [a..<b] @ b # [Suc b..<n]" using upt_add_eq_append [OF b(1), of "n - b"] b(2) by (simp add: upt_conv_Cons)
  moreover have "filter P [a..<b] = []" using b(4) by (simp add: filter_empty_conv)
  ultimately show ?thesis using Some b(3) by simp
qed

lemma scan_blocks_usable:
  assumes "usable m" and "mScanBlk m \<le> kBlocks" and "kBlocks - mScanBlk m < n"
  shows "scan_blocks n m = filter (\<lambda>b. scan_hit (mScanPat m) (frame_at m b)) [mScanBlk m..<kBlocks]"
  using assms
proof (induction n arbitrary: m)
  case (Suc n)
  let ?P = "\<lambda>b. scan_hit (mScanPat m) (frame_at m b)"
  have next': "scan_next m = Some (case find ?P [mScanBlk m..<kBlocks] of
      None \<Rightarrow> (None, m\<lparr>mScanBlk := kBlocks\<rparr>) | Some b \<Rightarrow> (Some (frame_at m b), m\<lparr>mScanBlk := b\<rparr>))"
    unfolding scan_next_def using Suc.prems by (intro scan_loop_usable) auto
  show ?case
  proof (cases "find ?P [mScanBlk m..<kBlocks]")
    case None
    then show ?thesis using next' by (subst filter_upt_find) simp
  next
    case (Some b)
    then have "mScanBlk m \<le> b" "b < kBlocks" by (simp_all add: find_upt_Some)
    then have "scan_blocks n (m\<lparr>mScanBlk := Suc b\<rparr>) = filter ?P [Suc b..<kBlocks]"
      using Suc.IH [of "m\<lparr>mScanBlk := Suc b\<rparr>"] Suc.prems by simp
    then show ?thesis using next' Some by (subst filter_upt_find) simp
  qed
qed simp

text \<open>
  A scan meets every file whose name has the shape of the pattern, each once and in the order of the blocks, and
  then ends.
\<close>

theorem scan_complete:
  assumes "usable m" and "kBlocks < n"
    and "\<forall>b. 1 \<le> b \<and> b < kBlocks \<longrightarrow> 0x2A \<notin> set (entry_name (frame_at m b))"
  shows "scan_blocks n (dirScanBegin pattern m) =
    filter (\<lambda>b. frame_at m b ! 0 = kDirUsedFirst \<and> glob_match (take 63 pattern) (entry_name (frame_at m b))) [1..<kBlocks]"
proof -
  have "scan_blocks n (dirScanBegin pattern m) = filter (\<lambda>b. scan_hit (take 63 pattern) (frame_at m b)) [1..<kBlocks]"
    using scan_blocks_usable [of "dirScanBegin pattern m" n] assms(1,2) by (simp add: dirScanBegin_def kBlocks_def)
  also have "\<dots> = filter (\<lambda>b. frame_at m b ! 0 = kDirUsedFirst \<and> glob_match (take 63 pattern) (entry_name (frame_at m b))) [1..<kBlocks]"
    using assms(3) glob_loop_plain by (intro filter_cong) (auto simp: scan_hit_def mc_glob_def)
  finally show ?thesis .
qed

end
