(* ===== verification/Card_Bios.thy ===== *)
theory Card_Bios
  imports Memory_Card Kernel_Laws
begin

text \<open>
  The BIOS card calls over the machine: the kernel's device table (\<open>hle/hle.cpp\<close>), and the libcard and file calls
  of \<open>platform/memcard.cpp\<close> with their dispatch. The card is the first device of the machine, so guest
  code that a delivered event runs can reach it. The log and its call counters are left out.
\<close>

section \<open>The device table of the kernel\<close>

definition HLE_DCB_TABLE :: u32 where "HLE_DCB_TABLE = 0x8000F900"
definition HLE_DCB_NAMES :: u32 where "HLE_DCB_NAMES = 0x8000FA40"
definition HLE_DCB_NAME_STRIDE :: nat where "HLE_DCB_NAME_STRIDE = 16"
definition DCB_STRIDE :: nat where "DCB_STRIDE = 0x50"
definition DCB_MAX :: nat where "DCB_MAX = 4"
definition DCB_OFF_NAME :: u32 where "DCB_OFF_NAME = 0"
definition DCB_OFF_FIRSTFILE :: u32 where "DCB_OFF_FIRSTFILE = 0x34"
definition DCB_OFF_NEXTFILE :: u32 where "DCB_OFF_NEXTFILE = 0x38"
definition KERNEL_DCB_ADDR :: u32 where "KERNEL_DCB_ADDR = 0x150"
definition KERNEL_DCB_SIZE :: u32 where "KERNEL_DCB_SIZE = 0x154"

lemmas dcb_consts = HLE_DCB_TABLE_def HLE_DCB_NAMES_def HLE_DCB_NAME_STRIDE_def DCB_STRIDE_def DCB_MAX_def
  DCB_OFF_NAME_def DCB_OFF_FIRSTFILE_def DCB_OFF_NEXTFILE_def KERNEL_DCB_ADDR_def KERNEL_DCB_SIZE_def

definition dcb_at :: "nat \<Rightarrow> u32" where
  "dcb_at i = HLE_DCB_TABLE + of_nat (i * DCB_STRIDE)"

definition m_cstring :: "'d io_ops \<Rightarrow> 'd machine \<Rightarrow> u32 \<Rightarrow> nat \<Rightarrow> (u8 list \<times> 'd machine) option" where
  "m_cstring io m a cap = map_option (\<lambda>(s, c). (s, m\<lparr>mem := c\<rparr>)) (readCString io (mem m) a cap)"

fun m_w8s :: "'d io_ops \<Rightarrow> 'd machine \<Rightarrow> u32 \<Rightarrow> u8 list \<Rightarrow> 'd machine option" where
  "m_w8s io m a [] = Some m"
| "m_w8s io m a (b # bs) = do { m1 \<leftarrow> m_w8 io m a b; m_w8s io m1 (a + 1) bs }"

fun find_dcb :: "'d io_ops \<Rightarrow> u8 list \<Rightarrow> nat list \<Rightarrow> 'd machine \<Rightarrow> (u32 \<times> 'd machine) option" where
  "find_dcb io name [] m = Some (0, m)"
| "find_dcb io name (i # is) m =
     do { (np, m1) \<leftarrow> m_r32 io m (dcb_at i + DCB_OFF_NAME);
          if np = 0 then find_dcb io name is m1
          else do { (got, m2) \<leftarrow> m_cstring io m1 np HLE_DCB_NAME_STRIDE;
                    if got = name then Some (dcb_at i, m2) else find_dcb io name is m2 } }"

definition deviceFind :: "'d io_ops \<Rightarrow> u8 list \<Rightarrow> 'd machine \<Rightarrow> (u32 \<times> 'd machine) option" where
  "deviceFind io name m = find_dcb io name [0..<dcb_n (hle m)] m"

definition deviceAdd :: "'d io_ops \<Rightarrow> u8 list \<Rightarrow> 'd machine \<Rightarrow> 'd machine option" where
  "deviceAdd io name m =
     do {
       (found, m1) \<leftarrow> deviceFind io name m;
       if found \<noteq> 0 \<or> dcb_n (hle m1) \<ge> DCB_MAX then Some m1
       else do {
         let slot = dcb_n (hle m1);
         let dcb = dcb_at slot;
         let np = HLE_DCB_NAMES + of_nat (slot * HLE_DCB_NAME_STRIDE);
         m2 \<leftarrow> m_w8s io m1 dcb (replicate DCB_STRIDE 0);
         m3 \<leftarrow> m_w8s io m2 np (take (HLE_DCB_NAME_STRIDE - 1) name @ [0]);
         m4 \<leftarrow> m_w32 io m3 (dcb + DCB_OFF_NAME) np;
         let m5 = set_hle (\<lambda>h. h\<lparr>dcb_n := slot + 1\<rparr>) m4;
         m6 \<leftarrow> m_w32 io m5 KERNEL_DCB_ADDR HLE_DCB_TABLE;
         m_w32 io m6 KERNEL_DCB_SIZE (of_nat (dcb_n (hle m6) * DCB_STRIDE)) } }"

definition deviceUnhook :: "'d io_ops \<Rightarrow> u32 \<Rightarrow> 'd machine \<Rightarrow> 'd machine option" where
  "deviceUnhook io dcb m =
     (if dcb = 0 then Some m
      else do { m1 \<leftarrow> m_w32 io m (dcb + DCB_OFF_FIRSTFILE) 0; m_w32 io m1 (dcb + DCB_OFF_NEXTFILE) 0 })"

definition bu :: "u8 list" where "bu = [0x62, 0x75]"

section \<open>The card of a machine\<close>

type_synonym 'e card_machine = "(Memcard \<times> 'e) machine"

definition memcard :: "'e card_machine \<Rightarrow> Memcard" where
  "memcard m = fst (dev (mem m))"

definition on_card :: "(Memcard \<Rightarrow> 'r \<times> Memcard) \<Rightarrow> 'e card_machine \<Rightarrow> 'r \<times> 'e card_machine" where
  "on_card f m = (let (r, k) = f (memcard m) in (r, m\<lparr>mem := (mem m)\<lparr>dev := (k, snd (dev (mem m)))\<rparr>\<rparr>))"

definition set_card :: "(Memcard \<Rightarrow> Memcard) \<Rightarrow> 'e card_machine \<Rightarrow> 'e card_machine" where
  "set_card f m = snd (on_card (\<lambda>k. ((), f k)) m)"

definition EvSpIOE :: u32 where "EvSpIOE = 0x0004"
definition EvSpERROR :: u32 where "EvSpERROR = 0x8000"
definition SwCARD :: u32 where "SwCARD = 0xF4000001"
definition HwCARD :: u32 where "HwCARD = 0xF0000011"

definition deliverComplete :: "(Memcard \<times> 'e) kernel_env \<Rightarrow> 'e card_machine \<Rightarrow> 'e card_machine option" where
  "deliverComplete g m = do { m1 \<leftarrow> deliverEvent g SwCARD EvSpIOE m; deliverEvent g HwCARD EvSpIOE m1 }"

definition deliverError :: "(Memcard \<times> 'e) kernel_env \<Rightarrow> 'e card_machine \<Rightarrow> 'e card_machine option" where
  "deliverError g m = do { m1 \<leftarrow> deliverEvent g SwCARD EvSpERROR m; deliverEvent g HwCARD EvSpERROR m1 }"

section \<open>Frame calls\<close>

definition card_read :: "(Memcard \<times> 'e) io_ops \<Rightarrow> 'e card_machine \<Rightarrow> 'e card_machine option" where
  "card_read io m =
     (let sector = reg m kA1; buf = reg m kA2; ((moved, f), m1) = on_card (readFrame sector) m
      in do { m2 \<leftarrow> m_w8s io m1 buf f; Some (set_reg kV0 1 m2) })"

definition card_write :: "(Memcard \<times> 'e) io_ops \<Rightarrow> 'e card_machine \<Rightarrow> 'e card_machine option" where
  "card_write io m =
     (let sector = reg m kA1; buf = reg m kA2
      in if buf = 0 then Some (set_reg kV0 1 m)
         else do { (f, c) \<leftarrow> read_each io (mem m) buf kFrameSize;
                   let (moved, m2) = on_card (writeFrame sector f) (m\<lparr>mem := c\<rparr>);
                   Some (set_reg kV0 1 m2) })"

section \<open>File calls\<close>

definition file_open :: "(Memcard \<times> 'e) io_ops \<Rightarrow> 'e card_machine \<Rightarrow> 'e card_machine option" where
  "file_open io m =
     do {
       (name, m1) \<leftarrow> m_cstring io m (reg m kA0) 0x100;
       let mode = reg m1 kA1;
       let (found, m2) = on_card (dirFind name) m1;
       let (blk, m3) =
         (if found = None \<and> mode AND 0x200 \<noteq> 0 then
            let n = drop_bit 16 mode AND 0xFFFF;
                nblocks = (if n = 0 then 1 else n)
            in on_card (dirCreate name (nblocks * (of_nat kBlockFrames - 1) * of_nat kFrameSize)) m2
          else (found, m2));
       case blk of
         None \<Rightarrow> Some (set_reg kV0 0xFFFFFFFF m3)
       | Some b \<Rightarrow>
           let (fd, m4) = on_card (fdAlloc b) m3
           in Some (set_reg kV0 (case fd of None \<Rightarrow> 0xFFFFFFFF | Some i \<Rightarrow> of_nat i) m4) }"

definition set_pos :: "int \<Rightarrow> u32 \<Rightarrow> 'e card_machine \<Rightarrow> 'e card_machine" where
  "set_pos fd p = set_card (\<lambda>k. k\<lparr>mFd := (mFd k)[nat fd := (mFd k ! nat fd)\<lparr>fd_pos := p\<rparr>]\<rparr>)"

definition file_lseek :: "'e card_machine \<Rightarrow> 'e card_machine" where
  "file_lseek m =
     (let fd = sint (reg m kA0); off = reg m kA1; whence = reg m kA2
      in if 0 \<le> fd \<and> fd \<le> 2 then set_reg kV0 0 m
         else case fdAt fd (memcard m) of
             None \<Rightarrow> set_reg kV0 0xFFFFFFFF m
           | Some f \<Rightarrow>
               let base = (if whence = 1 then fd_pos f else if whence = 2 then fd_size f else 0)
               in set_reg kV0 (base + off) (set_pos fd (base + off) m))"

text \<open>
  The transfer loops, from byte \<open>i\<close> on with \<open>n\<close> bytes left. \<open>0xFFFFFFFF\<close> is the frame number of an empty buffer;
  no frame of a card file has it. The descriptor's block and position are those the loop starts with.
\<close>

fun read_loop :: "(Memcard \<times> 'e) io_ops \<Rightarrow> u32 \<Rightarrow> u32 \<Rightarrow> u32 \<Rightarrow> nat \<Rightarrow> nat \<Rightarrow> u32 \<Rightarrow> u8 list \<Rightarrow> bool \<Rightarrow>
    'e card_machine \<Rightarrow> (bool \<times> 'e card_machine) option" where
  "read_loop io block pos buf i 0 loaded fr ok m = Some (ok, m)"
| "read_loop io block pos buf i (Suc n) loaded fr ok m =
     (let off = pos + of_nat i;
          gframe = mc_data_frame block off;
          boff = unat off mod kFrameSize;
          ((moved, fr1), m1) = (if gframe \<noteq> loaded then on_card (readFrame gframe) m else ((True, fr), m))
      in do { m2 \<leftarrow> m_w8 io m1 (buf + of_nat i) (fr1 ! boff);
              read_loop io block pos buf (i + 1) n gframe fr1 (moved \<and> ok) m2 })"

definition advance :: "int \<Rightarrow> u32 \<Rightarrow> 'e card_machine \<Rightarrow> 'e card_machine" where
  "advance fd len m = set_pos fd (fd_pos (mFd (memcard m) ! nat fd) + len) m"

definition file_read :: "(Memcard \<times> 'e) kernel_env \<Rightarrow> 'e card_machine \<Rightarrow> 'e card_machine option" where
  "file_read g m =
     (let io = env_io g; fd = sint (reg m kA0); buf = reg m kA1; len = reg m kA2
      in if 0 \<le> fd \<and> fd \<le> 2 then Some (set_reg kV0 0 m)
         else case fdAt fd (memcard m) of
             None \<Rightarrow> Some (set_reg kV0 0xFFFFFFFF m)
           | Some f \<Rightarrow> do {
               (ok, m1) \<leftarrow> read_loop io (fd_block f) (fd_pos f) buf 0 (unat len) 0xFFFFFFFF [] True m;
               let m2 = set_reg kV0 0 (advance fd len m1);
               if ok then deliverComplete g m2 else deliverError g m2 })"

text \<open>A write moves to another frame: the one held is put back, the next one is fetched.\<close>

definition turn_frame :: "u32 \<Rightarrow> u32 \<Rightarrow> u8 list \<Rightarrow> bool \<Rightarrow> 'e card_machine \<Rightarrow> bool \<times> u8 list \<times> 'e card_machine" where
  "turn_frame gframe cur fr ok m =
     (if gframe \<noteq> cur then
        let (stored', ma) = (if cur \<noteq> 0xFFFFFFFF then on_card (writeFrame cur fr) m else (True, m));
            ((loaded, fr'), mb) = on_card (readFrame gframe) ma
        in (loaded \<and> stored' \<and> ok, fr', mb)
      else (ok, fr, m))"

fun write_loop :: "(Memcard \<times> 'e) io_ops \<Rightarrow> u32 \<Rightarrow> u32 \<Rightarrow> u32 \<Rightarrow> nat \<Rightarrow> nat \<Rightarrow> u32 \<Rightarrow> u8 list \<Rightarrow> bool \<Rightarrow>
    'e card_machine \<Rightarrow> (u32 \<times> u8 list \<times> bool \<times> 'e card_machine) option" where
  "write_loop io block pos buf i 0 cur fr ok m = Some (cur, fr, ok, m)"
| "write_loop io block pos buf i (Suc n) cur fr ok m =
     (let off = pos + of_nat i;
          gframe = mc_data_frame block off;
          boff = unat off mod kFrameSize;
          (ok1, fr1, m1) = turn_frame gframe cur fr ok m
      in do { (b, m2) \<leftarrow> m_r8 io m1 (buf + of_nat i);
              write_loop io block pos buf (i + 1) n gframe (fr1[boff := b]) ok1 m2 })"

definition log_guest_file_output :: "(Memcard \<times> 'e) io_ops \<Rightarrow> u32 \<Rightarrow> u32 \<Rightarrow> 'e card_machine \<Rightarrow> 'e card_machine option" where
  "log_guest_file_output io address bytes m =
     map_option (\<lambda>(text', c). m\<lparr>mem := c\<rparr>) (read_each io (mem m) address (unat bytes))"

definition file_write :: "(Memcard \<times> 'e) kernel_env \<Rightarrow> 'e card_machine \<Rightarrow> 'e card_machine option" where
  "file_write g m =
     (let io = env_io g; fd = sint (reg m kA0); buf = reg m kA1; len = reg m kA2
      in if fd = 1 \<or> fd = 2 then map_option (set_reg kV0 len) (log_guest_file_output io buf len m)
         else case fdAt fd (memcard m) of
             None \<Rightarrow> Some (set_reg kV0 0xFFFFFFFF m)
           | Some f \<Rightarrow> do {
               (cur, fr, ok, m1) \<leftarrow> write_loop io (fd_block f) (fd_pos f) buf 0 (unat len) 0xFFFFFFFF [] True m;
               let (flushed, m2) = (if cur \<noteq> 0xFFFFFFFF then on_card (writeFrame cur fr) m1 else (True, m1));
               let m3 = set_reg kV0 0 (advance fd len m2);
               if flushed \<and> ok then deliverComplete g m3 else deliverError g m3 })"

definition file_close :: "'e card_machine \<Rightarrow> 'e card_machine" where
  "file_close m =
     (let fd = sint (reg m kA0)
      in if 0 \<le> fd \<and> fd \<le> 2 then set_reg kV0 (reg m kA0) m
         else if fdValid fd (memcard m) then set_reg kV0 (reg m kA0) (set_card (fdFree fd) m)
         else set_reg kV0 0xFFFFFFFF m)"

definition file_erase :: "(Memcard \<times> 'e) io_ops \<Rightarrow> 'e card_machine \<Rightarrow> 'e card_machine option" where
  "file_erase io m =
     do { (name, m1) \<leftarrow> m_cstring io m (reg m kA0) 0x100;
          let (blk, m2) = on_card (dirFind name) m1;
          Some (case blk of None \<Rightarrow> set_reg kV0 0 m2 | Some b \<Rightarrow> set_reg kV0 1 (set_card (dirErase b) m2)) }"

section \<open>Enumeration\<close>

definition kDirEntNameLen :: nat where "kDirEntNameLen = 20"
definition kDirEntAttr :: u32 where "kDirEntAttr = 0x14"
definition kDirEntSize :: u32 where "kDirEntSize = 0x18"
definition kDirEntNext :: u32 where "kDirEntNext = 0x1C"
definition kDirEntHead :: u32 where "kDirEntHead = 0x20"
definition kDirEntBytes :: nat where "kDirEntBytes = 0x28"

lemmas dirent_consts = kDirEntNameLen_def kDirEntAttr_def kDirEntSize_def kDirEntNext_def kDirEntHead_def kDirEntBytes_def

definition write_dirent :: "(Memcard \<times> 'e) io_ops \<Rightarrow> u32 \<Rightarrow> u8 list \<Rightarrow> 'e card_machine \<Rightarrow> 'e card_machine option" where
  "write_dirent io va e m =
     do { m1 \<leftarrow> m_w8s io m va (replicate kDirEntBytes 0);
          m2 \<leftarrow> m_w8s io m1 va (take (kDirEntNameLen - 1) (entry_name e));
          m3 \<leftarrow> m_w32 io m2 (va + kDirEntAttr) 0;
          m4 \<leftarrow> m_w32 io m3 (va + kDirEntSize) (entry_size e);
          m5 \<leftarrow> m_w32 io m4 (va + kDirEntNext) 0;
          m_w32 io m5 (va + kDirEntHead) (of_nat (mScanBlk (memcard m5))) }"

definition dirScanNext :: "(Memcard \<times> 'e) io_ops \<Rightarrow> u32 \<Rightarrow> 'e card_machine \<Rightarrow> (bool \<times> 'e card_machine) option" where
  "dirScanNext io va m =
     (if va = 0 then Some (False, m)
      else do {
        (hit, k) \<leftarrow> scan_next (memcard m);
        let m1 = set_card (\<lambda>_. k) m;
        case hit of
          None \<Rightarrow> Some (False, m1)
        | Some e \<Rightarrow> do {
            m2 \<leftarrow> write_dirent io va e m1;
            Some (True, set_card (\<lambda>k. k\<lparr>mScanBlk := mScanBlk k + 1\<rparr>) m2) } })"

definition file_nextfile :: "(Memcard \<times> 'e) kernel_env \<Rightarrow> 'e card_machine \<Rightarrow> 'e card_machine option" where
  "file_nextfile g m =
     do { let dirent = reg m kA0;
          (found, m1) \<leftarrow> dirScanNext (env_io g) dirent m;
          deliverComplete g (set_reg kV0 (if found then dirent else 0) m1) }"

definition file_firstfile :: "(Memcard \<times> 'e) kernel_env \<Rightarrow> 'e card_machine \<Rightarrow> 'e card_machine option" where
  "file_firstfile g m =
     do { let io = env_io g;
          (name, m1) \<leftarrow> m_cstring io m (reg m kA0) 0x100;
          let dirent = reg m1 kA1;
          let m2 = set_card (dirScanBegin (mc_strip_dev name)) m1;
          (dcb, m3) \<leftarrow> deviceFind io bu m2;
          m4 \<leftarrow> deviceUnhook io dcb m3;
          (found, m5) \<leftarrow> dirScanNext io dirent m4;
          deliverComplete g (set_reg kV0 (if found then dirent else 0) m5) }"

section \<open>Dispatch\<close>

definition card_info :: "(Memcard \<times> 'e) kernel_env \<Rightarrow> 'e card_machine \<Rightarrow> 'e card_machine option" where
  "card_info g m = map_option (set_reg kV0 1) (deliverComplete g m)"

definition card_status :: "'e card_machine \<Rightarrow> 'e card_machine" where
  "card_status m = set_reg kV0 1 m"

definition card_dispatch_b0 :: "(Memcard \<times> 'e) kernel_env \<Rightarrow> u32 \<Rightarrow> 'e card_machine \<Rightarrow> (bool \<times> 'e card_machine) option" where
  "card_dispatch_b0 g fn m =
     (let io = env_io g; handled = map_option (\<lambda>m'. (True, m')) in
      if fn = 0x32 then handled (file_open io m)
      else if fn = 0x33 then Some (True, file_lseek m)
      else if fn = 0x34 then handled (file_read g m)
      else if fn = 0x35 then handled (file_write g m)
      else if fn = 0x36 then Some (True, file_close m)
      else if fn = 0x42 then handled (file_firstfile g m)
      else if fn = 0x43 then handled (file_nextfile g m)
      else if fn = 0x45 then handled (file_erase io m)
      else if fn = 0x4C then handled (card_info g m)
      else if fn = 0x4E then handled (do { m1 \<leftarrow> card_write io m; deliverComplete g m1 })
      else if fn = 0x4F then handled (do { m1 \<leftarrow> card_read io m; deliverComplete g m1 })
      else if fn = 0x50 then Some (True, set_reg kV0 0 m)
      else if fn = 0x5C then Some (True, card_status m)
      else Some (False, m))"

definition card_dispatch_a0 :: "(Memcard \<times> 'e) kernel_env \<Rightarrow> u32 \<Rightarrow> 'e card_machine \<Rightarrow> (bool \<times> 'e card_machine) option" where
  "card_dispatch_a0 g fn m =
     (if fn = 0xAB \<or> fn = 0xAC then map_option (\<lambda>m'. (True, set_reg kV0 1 m')) (deliverComplete g m)
      else Some (False, m))"

text \<open>The kernel with this card behind its A0 and B0 vectors, and the card published as a device.\<close>

definition with_memcard :: "(Memcard \<times> 'e) kernel_env \<Rightarrow> (Memcard \<times> 'e) kernel_env" where
  "with_memcard g = g\<lparr>memcard_A0 := card_dispatch_a0 g, memcard_B0 := card_dispatch_b0 g\<rparr>"

definition memcard_install :: "(Memcard \<times> 'e) io_ops \<Rightarrow> 'e card_machine \<Rightarrow> 'e card_machine option" where
  "memcard_install io m = deviceAdd io bu m"

end
