(* ===== verification/Card_File_Laws.thy ===== *)
theory Card_File_Laws
  imports Card_Bios Card_Laws
begin

text \<open>
  Laws of the card's file calls: a transfer inside the block of a file, over the machine's memory and the
  frames of the card.
\<close>

section \<open>The machine under a transfer\<close>

definition kbyte :: "'d machine \<Rightarrow> u32 \<Rightarrow> u8" where
  "kbyte m a = byte_at (mem m) (the (host_ptr a 1))"

lemma byte_at_dev [simp]: "byte_at (c\<lparr>dev := d\<rparr>) p = byte_at c p"
  by (cases p) simp_all

lemma on_card_eq: "on_card f m = (fst (f (memcard m)), set_card (\<lambda>_. snd (f (memcard m))) m)"
  by (simp add: on_card_def set_card_def Let_def split_def)

lemma set_card_simps [simp]:
  "memcard (set_card f m) = f (memcard m)" "set_card f (set_card h m) = set_card (\<lambda>k. f (h k)) m"
  "hle (set_card f m) = hle m" "cpu (set_card f m) = cpu m" "kbyte (set_card f m) a = kbyte m a"
  "displayPassArmed (mem (set_card f m)) = displayPassArmed (mem m)"
  by (simp_all add: set_card_def on_card_def memcard_def kbyte_def split_def)

lemma set_card_same: "set_card (\<lambda>_. memcard m) m = m"
  by (simp add: set_card_def on_card_def memcard_def)

lemma kseg0_r8:
  assumes "kseg0_span buf n" and "i < n"
  shows "m_r8 io m (buf + of_nat i) = Some (kbyte m (buf + of_nat i), m)"
  using kseg0_cell [OF assms] by (simp add: m_r8_def kbyte_def gm.rd_mapped)

lemma kseg0_w8:
  assumes "kseg0_span buf n" and "i < n" and "\<not> displayPassArmed (mem m)"
  shows "\<exists>m'. m_w8 io m (buf + of_nat i) v = Some m' \<and> \<not> displayPassArmed (mem m') \<and> dev (mem m') = dev (mem m) \<and>
    hle m' = hle m \<and> cpu m' = cpu m \<and>
    (\<forall>j<n. kbyte m' (buf + of_nat j) = (if j = i then v else kbyte m (buf + of_nat j)))"
proof -
  obtain q where q: "host_ptr (buf + of_nat i) 1 = Some q" using kseg0_cell [OF assms(1,2)] by blast
  let ?c = "stored True (mem m) q (buf + of_nat i) 1 (bytes_of 1 (ucast v :: u32))"
  have b: "bytes_of 1 (ucast v :: u32) = [v]" by (simp add: bytes_of_def byte_of_def)
  have "kbyte (m\<lparr>mem := ?c\<rparr>) (buf + of_nat j) = (if j = i then v else kbyte m (buf + of_nat j))" if j: "j < n" for j
  proof -
    obtain r where r: "host_ptr (buf + of_nat j) 1 = Some r" using kseg0_cell [OF assms(1) j] by blast
    have "r = q \<longleftrightarrow> j = i" using kseg0_cells_eq [OF assms(1,1) j assms(2)] q r by simp
    then show ?thesis unfolding b using q r by (auto simp: kbyte_def byte_at_set_byte)
  qed
  moreover have "m_w8 io m (buf + of_nat i) v = Some (m\<lparr>mem := ?c\<rparr>)"
    using writeGuestMemory_mapped [OF q assms(3)] by (simp add: m_w8_def mem_w8_def)
  ultimately show ?thesis using assms(3) by (intro exI [of _ "m\<lparr>mem := ?c\<rparr>"]) (simp add: frame_simps)
qed

section \<open>Frames of a file\<close>

lemma card_on_read: "usable (memcard m) \<Longrightarrow> unat f < kFrames \<Longrightarrow>
    on_card (readFrame f) m = ((True, frame_at (memcard m) (unat f)), m)"
  by (simp add: on_card_eq card.rd_frame set_card_same)

lemma writeFrame_keeps: "usable k \<Longrightarrow> mFd (snd (writeFrame f bs k)) = mFd k"
  by (auto simp: writeFrame_def fwrite_at_def usable_def)

lemma card_on_write:
  assumes "usable (memcard m)" and "unat f < kFrames" and "length bs = kFrameSize"
  shows "\<exists>k. on_card (writeFrame f bs) m = (True, set_card (\<lambda>_. k) m) \<and> usable k \<and> mFd k = mFd (memcard m) \<and>
    (\<forall>i<kFrames. frame_at k i = (if i = unat f then bs else frame_at (memcard m) i))"
  using card.wr_frame [OF assms] writeFrame_keeps [OF assms(1), of f bs] by (auto simp: on_card_eq)

definition data_bytes :: nat where "data_bytes = (kBlockFrames - 1) * kFrameSize"

lemma data_frame:
  assumes "b < kBlocks" and "unat off < data_bytes"
  shows "unat (mc_data_frame (of_nat b) off) = b * kBlockFrames + 1 + unat off div kFrameSize"
    "unat (mc_data_frame (of_nat b) off) < kFrames"
proof -
  have b: "b < 16" and o: "unat off < 8064" using assms by (simp_all add: data_bytes_def card_consts)
  have d: "unat (off div 128) = unat off div 128" by (simp add: unat_div)
  have "unat off div 128 < 63" using o by (simp add: less_mult_imp_div_less)
  then have "unat (of_nat b * 64 + 1 + off div 128 :: u32) = b * 64 + 1 + unat off div 128"
    using b d by (simp add: unat_word_ariths unat_of_nat mod_simps)
  then show "unat (mc_data_frame (of_nat b) off) = b * kBlockFrames + 1 + unat off div kFrameSize"
    by (simp add: mc_data_frame_def card_consts)
  then show "unat (mc_data_frame (of_nat b) off) < kFrames"
    using b \<open>unat off div 128 < 63\<close> by (simp add: card_consts)
qed

text \<open>Where byte \<open>i\<close> of a transfer lies in the card, and a byte of the card through its frames.\<close>

definition data_at :: "nat \<Rightarrow> u32 \<Rightarrow> nat \<Rightarrow> nat" where
  "data_at b pos i = (b * kBlockFrames + 1) * kFrameSize + unat pos + i"

definition lin :: "(nat \<Rightarrow> u8 list) \<Rightarrow> nat \<Rightarrow> u8" where
  "lin v x = v (x div kFrameSize) ! (x mod kFrameSize)"

lemma lin_content: "usable k \<Longrightarrow> x < kSize \<Longrightarrow> lin (frame_at k) x = content k ! x"
proof -
  assume u: "usable k" and x: "x < kSize"
  have "x div kFrameSize * kFrameSize \<le> length (content k)" using u x
    by (metis div_times_less_eq_dividend le_trans less_imp_le usable_def)
  then show ?thesis using kFrameSize_pos by (simp add: lin_def frame_at_def nth_drop)
qed

lemma transfer_at:
  assumes "b < kBlocks" and "unat pos + n \<le> data_bytes" and "i < n"
  shows "unat (mc_data_frame (of_nat b) (pos + of_nat i)) = data_at b pos i div kFrameSize"
    "unat (mc_data_frame (of_nat b) (pos + of_nat i)) < kFrames"
    "unat (pos + of_nat i) mod kFrameSize = data_at b pos i mod kFrameSize"
    "mc_data_frame (of_nat b) (pos + of_nat i) \<noteq> 0xFFFFFFFF"
proof -
  have "n \<le> 8064" using assms(2) by (simp add: data_bytes_def card_consts)
  then have u: "unat (pos + of_nat i) = unat pos + i"
    using assms by (subst unat_add_small) (simp_all add: data_bytes_def card_consts)
  then have lt: "unat (pos + of_nat i) < data_bytes" using assms by simp
  note f = data_frame [OF assms(1) lt]
  show "unat (mc_data_frame (of_nat b) (pos + of_nat i)) < kFrames" by (rule f(2))
  then show "mc_data_frame (of_nat b) (pos + of_nat i) \<noteq> 0xFFFFFFFF" by (auto simp: kFrames_def)
  have e: "data_at b pos i = (unat pos + i) + (b * kBlockFrames + 1) * kFrameSize" by (simp add: data_at_def)
  show "unat (mc_data_frame (of_nat b) (pos + of_nat i)) = data_at b pos i div kFrameSize"
    unfolding f(1) e u using div_mult_self1 [of kFrameSize "unat pos + i"] kFrameSize_pos by (metis less_not_refl)
  show "unat (pos + of_nat i) mod kFrameSize = data_at b pos i mod kFrameSize"
    unfolding e u by (simp only: mod_mult_self1)
qed

section \<open>Reading\<close>

lemma read_loop_copies:
  assumes "b < kBlocks" and "unat pos + N \<le> data_bytes" and "kseg0_span buf N" and "i + n = N"
    and "usable (memcard m)" and "\<not> displayPassArmed (mem m)"
    and "loaded = 0xFFFFFFFF \<or> unat loaded < kFrames \<and> fr = frame_at (memcard m) (unat loaded)"
  shows "\<exists>m'. read_loop io (of_nat b) pos buf i n loaded fr ok m = Some (ok, m') \<and> dev (mem m') = dev (mem m) \<and>
    \<not> displayPassArmed (mem m') \<and> hle m' = hle m \<and> cpu m' = cpu m \<and>
    (\<forall>j<N. kbyte m' (buf + of_nat j) = (if i \<le> j then lin (frame_at (memcard m)) (data_at b pos j) else kbyte m (buf + of_nat j)))"
  using assms(4-7)
proof (induction n arbitrary: i loaded fr m)
  case (Suc n)
  have i: "i < N" using Suc.prems(1) by simp
  let ?f = "mc_data_frame (of_nat b) (pos + of_nat i)" and ?t = "unat (pos + of_nat i) mod kFrameSize"
  note at = transfer_at [OF assms(1,2) i]
  let ?fr = "frame_at (memcard m) (unat ?f)"
  have rd: "(if ?f \<noteq> loaded then on_card (readFrame ?f) m else ((True, fr), m)) = ((True, ?fr), m)"
    using Suc.prems(2,4) at card_on_read [of m ?f] by auto
  obtain m1 where m1: "m_w8 io m (buf + of_nat i) (?fr ! ?t) = Some m1" "\<not> displayPassArmed (mem m1)"
    "dev (mem m1) = dev (mem m)" "hle m1 = hle m" "cpu m1 = cpu m"
    "\<forall>j<N. kbyte m1 (buf + of_nat j) = (if j = i then ?fr ! ?t else kbyte m (buf + of_nat j))"
    using kseg0_w8 [OF assms(3) i Suc.prems(3)] by blast
  have k: "memcard m1 = memcard m" using m1(3) by (simp add: memcard_def)
  have v: "?fr ! ?t = lin (frame_at (memcard m)) (data_at b pos i)" by (simp only: lin_def at(1,3))
  obtain m' where m': "read_loop io (of_nat b) pos buf (i + 1) n ?f ?fr ok m1 = Some (ok, m')" "dev (mem m') = dev (mem m1)"
    "\<not> displayPassArmed (mem m')" "hle m' = hle m1" "cpu m' = cpu m1"
    "\<forall>j<N. kbyte m' (buf + of_nat j) = (if i + 1 \<le> j then lin (frame_at (memcard m1)) (data_at b pos j) else kbyte m1 (buf + of_nat j))"
    using Suc.IH [of "i + 1" m1 ?f ?fr] Suc.prems m1 k at(2) by auto
  have "read_loop io (of_nat b) pos buf i (Suc n) loaded fr ok m = Some (ok, m')"
    using rd m1(1) m'(1) by (simp only: read_loop.simps Let_def prod.case bind.bind_lunit simp_thms)
  moreover have "kbyte m' (buf + of_nat j) = (if i \<le> j then lin (frame_at (memcard m)) (data_at b pos j) else kbyte m (buf + of_nat j))"
    if "j < N" for j
    using m'(6) m1(6) k v that by (cases "j = i") (simp_all add: less_le)
  ultimately show ?case using m'(2-5) m1(3-5) by (intro exI [of _ m']) (simp del: read_loop.simps)
qed auto

section \<open>Writing\<close>

text \<open>The frames as they are with the one held in the buffer.\<close>

definition virt :: "u32 \<Rightarrow> u8 list \<Rightarrow> Memcard \<Rightarrow> nat \<Rightarrow> u8 list" where
  "virt cur fr k j = (if cur \<noteq> 0xFFFFFFFF \<and> j = unat cur then fr else frame_at k j)"

definition buffer_ok :: "u32 \<Rightarrow> u8 list \<Rightarrow> bool" where
  "buffer_ok cur fr \<longleftrightarrow> cur = 0xFFFFFFFF \<or> unat cur < kFrames \<and> length fr = kFrameSize"

text \<open>Putting the buffer back leaves the same frames.\<close>

lemma flush_virt:
  assumes "usable (memcard m)" and "buffer_ok cur fr"
  shows "\<exists>k. (if cur \<noteq> 0xFFFFFFFF then on_card (writeFrame cur fr) m else (True, m)) = (True, set_card (\<lambda>_. k) m) \<and>
    usable k \<and> mFd k = mFd (memcard m) \<and> (\<forall>j<kFrames. frame_at k j = virt cur fr (memcard m) j)"
proof (cases "cur = 0xFFFFFFFF")
  case True
  then show ?thesis using assms(1) by (intro exI [of _ "memcard m"]) (simp add: set_card_same virt_def)
next
  case False
  then show ?thesis
    using card_on_write [OF assms(1), of cur fr] assms(2) by (auto simp: buffer_ok_def virt_def)
qed

lemma turn_frame_virt:
  assumes "usable (memcard m)" and "buffer_ok cur fr" and "unat gframe < kFrames" and "gframe \<noteq> 0xFFFFFFFF"
  shows "\<exists>k fr1. turn_frame gframe cur fr ok m = (ok, fr1, set_card (\<lambda>_. k) m) \<and> usable k \<and> mFd k = mFd (memcard m) \<and>
    buffer_ok gframe fr1 \<and> (\<forall>j<kFrames. virt gframe fr1 k j = virt cur fr (memcard m) j)"
proof (cases "gframe = cur")
  case True
  then show ?thesis
    using assms by (intro exI [of _ "memcard m"] exI [of _ fr]) (simp add: turn_frame_def set_card_same)
next
  case False
  obtain k where k: "(if cur \<noteq> 0xFFFFFFFF then on_card (writeFrame cur fr) m else (True, m)) = (True, set_card (\<lambda>_. k) m)"
    "usable k" "mFd k = mFd (memcard m)" "\<forall>j<kFrames. frame_at k j = virt cur fr (memcard m) j"
    using flush_virt [OF assms(1,2)] by blast
  have "on_card (readFrame gframe) (set_card (\<lambda>_. k) m) = ((True, frame_at k (unat gframe)), set_card (\<lambda>_. k) m)"
    using card_on_read [of "set_card (\<lambda>_. k) m" gframe] k(2) assms(3) by simp
  then have "turn_frame gframe cur fr ok m = (ok, frame_at k (unat gframe), set_card (\<lambda>_. k) m)"
    using False k(1) by (simp add: turn_frame_def)
  moreover have "buffer_ok gframe (frame_at k (unat gframe))"
    using card.frame_length [OF k(2) assms(3)] assms(3) by (simp add: buffer_ok_def)
  moreover have "virt gframe (frame_at k (unat gframe)) k j = frame_at k j" for j by (simp add: virt_def)
  ultimately show ?thesis using k by (intro exI [of _ k] exI [of _ "frame_at k (unat gframe)"]) simp
qed

lemma lin_store:
  assumes "gframe \<noteq> 0xFFFFFFFF" and "buffer_ok gframe fr" and "unat gframe = y div kFrameSize"
  shows "lin (virt gframe (fr[y mod kFrameSize := v]) k) x = (if x = y then v else lin (virt gframe fr k) x)"
proof -
  have "x = y \<longleftrightarrow> x div kFrameSize = y div kFrameSize \<and> x mod kFrameSize = y mod kFrameSize"
    by (metis div_mult_mod_eq)
  then show ?thesis
    using assms kFrameSize_pos by (auto simp: lin_def virt_def buffer_ok_def nth_list_update)
qed

lemma write_loop_stores:
  assumes "b < kBlocks" and "unat pos + N \<le> data_bytes" and "kseg0_span buf N" and "i + n = N"
    and "usable (memcard m)" and "buffer_ok cur fr"
  shows "\<exists>cur' fr' k. write_loop io (of_nat b) pos buf i n cur fr ok m = Some (cur', fr', ok, set_card (\<lambda>_. k) m) \<and>
    usable k \<and> mFd k = mFd (memcard m) \<and> buffer_ok cur' fr' \<and>
    (\<forall>x<kSize. lin (virt cur' fr' k) x =
      (if data_at b pos i \<le> x \<and> x < data_at b pos N then kbyte m (buf + of_nat (x - data_at b pos 0))
       else lin (virt cur fr (memcard m)) x))"
  using assms(4-6)
proof (induction n arbitrary: i cur fr m)
  case 0
  then show ?case
    by (intro exI [of _ cur] exI [of _ fr] exI [of _ "memcard m"]) (auto simp: set_card_same data_at_def)
next
  case (Suc n)
  have i: "i < N" using Suc.prems(1) by simp
  let ?f = "mc_data_frame (of_nat b) (pos + of_nat i)" and ?y = "data_at b pos i" and ?v = "kbyte m (buf + of_nat i)"
  note at = transfer_at [OF assms(1,2) i]
  obtain k fr1 where t: "turn_frame ?f cur fr ok m = (ok, fr1, set_card (\<lambda>_. k) m)" "usable k" "mFd k = mFd (memcard m)"
    "buffer_ok ?f fr1" "\<forall>j<kFrames. virt ?f fr1 k j = virt cur fr (memcard m) j"
    using turn_frame_virt [OF Suc.prems(2,3) at(2,4)] by blast
  let ?m = "set_card (\<lambda>_. k) m" and ?fr = "fr1[?y mod kFrameSize := ?v]"
  have "buffer_ok ?f ?fr" using t(4) by (simp add: buffer_ok_def)
  then obtain cur' fr' k' where w: "write_loop io (of_nat b) pos buf (i + 1) n ?f ?fr ok ?m = Some (cur', fr', ok, set_card (\<lambda>_. k') ?m)"
    "usable k'" "mFd k' = mFd k" "buffer_ok cur' fr'"
    "\<forall>x<kSize. lin (virt cur' fr' k') x =
      (if data_at b pos (i + 1) \<le> x \<and> x < data_at b pos N then kbyte ?m (buf + of_nat (x - data_at b pos 0)) else lin (virt ?f ?fr k) x)"
    using Suc.IH [of "i + 1" ?m ?f ?fr] Suc.prems(1) t(2) by auto
  have "write_loop io (of_nat b) pos buf i (Suc n) cur fr ok m = Some (cur', fr', ok, set_card (\<lambda>_. k') m)"
    using t(1) w(1) kseg0_r8 [OF assms(3) i, of io ?m] at(3) by (simp add: Let_def)
  moreover have "lin (virt cur' fr' k') x =
      (if ?y \<le> x \<and> x < data_at b pos N then kbyte m (buf + of_nat (x - data_at b pos 0)) else lin (virt cur fr (memcard m)) x)"
    if x: "x < kSize" for x
  proof -
    have "x div kFrameSize < kFrames" using x by (simp add: less_mult_imp_div_less kSize_def mult.commute)
    then have "lin (virt ?f ?fr k) x = (if x = ?y then ?v else lin (virt cur fr (memcard m)) x)"
      using lin_store [OF at(4) t(4) at(1), of ?v k x] t(5) by (simp add: lin_def)
    then show ?thesis using w(5) x i by (auto simp: data_at_def)
  qed
  ultimately show ?case using w(2-4) t(3) by auto
qed

section \<open>Calls\<close>

definition card_call :: "(Memcard \<times> 'e) kernel_env \<Rightarrow> u32 \<Rightarrow> u32 \<Rightarrow> u32 \<Rightarrow> u32 \<Rightarrow> 'e card_machine \<Rightarrow> (bool \<times> 'e card_machine) option" where
  "card_call g fn a0 a1 a2 m = card_dispatch_b0 g fn (set_reg kA0 a0 (set_reg kA1 a1 (set_reg kA2 a2 m)))"

lemma set_reg_simps [simp]:
  "mem (set_reg r v m) = mem m" "hle (set_reg r v m) = hle m" "memcard (set_reg r v m) = memcard m"
  "kbyte (set_reg r v m) a = kbyte m a" "set_card f (set_reg r v m) = set_reg r v (set_card f m)"
  "reg (set_reg r v m) q = (if q = r then v else reg m q)" "reg (set_card f m) q = reg m q"
  by (simp_all add: set_reg_def memcard_def kbyte_def reg_def set_card_def on_card_def split_def)

lemma set_hle_simps [simp]:
  "mem (set_hle f m) = mem m" "hle (set_hle f m) = f (hle m)" "kbyte (set_hle f m) a = kbyte m a" "reg (set_hle f m) q = reg m q"
  by (simp_all add: set_hle_def kbyte_def reg_def)

lemma memcard_set_hle [simp]: "memcard (set_hle f m) = memcard m"
  by (simp add: memcard_def)

definition announced :: "u32 \<Rightarrow> hle_state \<Rightarrow> hle_state" where
  "announced spec h = h\<lparr>ev := map (\<lambda>e. mark HwCARD spec (mark SwCARD spec e)) (ev h)\<rparr>"

text \<open>The card's events poll; none of them runs guest code.\<close>

definition polled :: "hle_state \<Rightarrow> bool" where
  "polled h \<longleftrightarrow> length (ev h) = kEventSlots \<and>
     (\<forall>spec\<in>{EvSpIOE, EvSpERROR}. list_all (no_handler SwCARD spec) (ev h) \<and> list_all (no_handler HwCARD spec) (ev h))"

lemma no_handler_mark: "no_handler c s (mark c' s' e) = no_handler c s e"
  by (simp add: no_handler_def)

lemma deliver_announces:
  assumes "polled (hle m)" and "spec \<in> {EvSpIOE, EvSpERROR}"
  shows "do { m1 \<leftarrow> deliverEvent g SwCARD spec m; deliverEvent g HwCARD spec m1 } = Some (set_hle (announced spec) m)"
proof -
  let ?m = "set_hle (\<lambda>h. h\<lparr>ev := map (mark SwCARD spec) (ev h)\<rparr>) m"
  have p: "length (ev (hle m)) = kEventSlots" "list_all (no_handler SwCARD spec) (ev (hle m))"
    "list_all (no_handler HwCARD spec) (ev (hle m))" using assms by (auto simp: polled_def)
  have "deliverEvent g SwCARD spec m = Some ?m" by (rule deliver_marks [OF p(2,1)])
  moreover have "deliverEvent g HwCARD spec ?m = Some (set_hle (\<lambda>h. h\<lparr>ev := map (mark HwCARD spec) (ev h)\<rparr>) ?m)"
    using p by (intro deliver_marks) (simp_all add: list_all_length no_handler_mark)
  ultimately show ?thesis by (simp add: set_hle_def announced_def comp_def)
qed

lemma complete_announces: "polled (hle m) \<Longrightarrow> deliverComplete g m = Some (set_hle (announced EvSpIOE) m)"
  unfolding deliverComplete_def by (rule deliver_announces) simp_all

lemma error_announces: "polled (hle m) \<Longrightarrow> deliverError g m = Some (set_hle (announced EvSpERROR) m)"
  unfolding deliverError_def by (rule deliver_announces) simp_all

lemma polled_announced: "polled h \<Longrightarrow> polled (announced spec h)"
  by (auto simp: polled_def announced_def list_all_length no_handler_mark)

lemma announced_twice: "announced spec (announced spec h) = announced spec h"
  by (simp add: announced_def mark_def event_matches_def)

definition at_pos :: "int \<Rightarrow> u32 \<Rightarrow> McFd list \<Rightarrow> McFd list" where
  "at_pos fd p fds = fds[nat fd := (fds ! nat fd)\<lparr>fd_pos := p\<rparr>]"

lemma set_pos_eq: "set_pos fd p = set_card (\<lambda>k. k\<lparr>mFd := at_pos fd p (mFd k)\<rparr>)"
  by (simp add: set_pos_def at_pos_def)

lemma write_effect:
  assumes "fdAt fd (memcard m) = Some f" and "sint (reg m kA0) = fd" and "fd_block f = of_nat b" and "b < kBlocks"
    and "unat (fd_pos f) + unat (reg m kA2) \<le> data_bytes" and "kseg0_span (reg m kA1) (unat (reg m kA2))"
    and "usable (memcard m)" and "polled (hle m)"
  shows "\<exists>k. file_write g m = Some (set_hle (announced EvSpIOE) (set_reg kV0 0 (set_card (\<lambda>_. k) m))) \<and> usable k \<and>
    mFd k = at_pos fd (fd_pos f + reg m kA2) (mFd (memcard m)) \<and>
    (\<forall>x<kSize. content k ! x =
      (if data_at b (fd_pos f) 0 \<le> x \<and> x < data_at b (fd_pos f) (unat (reg m kA2))
       then kbyte m (reg m kA1 + of_nat (x - data_at b (fd_pos f) 0)) else content (memcard m) ! x))"
proof -
  let ?N = "unat (reg m kA2)"
  have fd: "\<not> (fd = 1 \<or> fd = 2)" "mFd (memcard m) ! nat fd = f"
    using assms(1) by (auto simp: fdAt_def fdValid_def kFdBase_def split: if_splits)
  obtain cur fr k1 where w: "write_loop (env_io g) (of_nat b) (fd_pos f) (reg m kA1) 0 ?N 0xFFFFFFFF [] True m = Some (cur, fr, True, set_card (\<lambda>_. k1) m)"
    "usable k1" "mFd k1 = mFd (memcard m)" "buffer_ok cur fr"
    "\<forall>x<kSize. lin (virt cur fr k1) x = (if data_at b (fd_pos f) 0 \<le> x \<and> x < data_at b (fd_pos f) ?N
       then kbyte m (reg m kA1 + of_nat (x - data_at b (fd_pos f) 0)) else lin (virt 0xFFFFFFFF [] (memcard m)) x)"
    using write_loop_stores [OF assms(4,5,6), of 0 ?N m "0xFFFFFFFF" "[]" "env_io g" True] assms(7) by (auto simp: buffer_ok_def)
  obtain k where k: "(if cur \<noteq> 0xFFFFFFFF then on_card (writeFrame cur fr) (set_card (\<lambda>_. k1) m) else (True, set_card (\<lambda>_. k1) m)) =
      (True, set_card (\<lambda>_. k) m)" "usable k" "mFd k = mFd k1" "\<forall>j<kFrames. frame_at k j = virt cur fr k1 j"
    using flush_virt [of "set_card (\<lambda>_. k1) m" cur fr] w(2,4) by auto
  let ?k = "k\<lparr>mFd := at_pos fd (fd_pos f + reg m kA2) (mFd k)\<rparr>"
  have "file_write g m = deliverComplete g (set_reg kV0 0 (set_card (\<lambda>_. ?k) m))"
    using assms(1-3) fd w(1,3) k by (simp add: file_write_def Let_def advance_def set_pos_eq)
  then have "file_write g m = Some (set_hle (announced EvSpIOE) (set_reg kV0 0 (set_card (\<lambda>_. ?k) m)))"
    using assms(8) by (simp add: complete_announces)
  moreover have "content ?k ! x = (if data_at b (fd_pos f) 0 \<le> x \<and> x < data_at b (fd_pos f) ?N
       then kbyte m (reg m kA1 + of_nat (x - data_at b (fd_pos f) 0)) else content (memcard m) ! x)" if x: "x < kSize" for x
  proof -
    have "x div kFrameSize < kFrames" using x by (simp add: less_mult_imp_div_less kSize_def mult.commute)
    then have "content k ! x = lin (virt cur fr k1) x" using lin_content [OF k(2) x] k(4) by (simp add: lin_def)
    moreover have "lin (virt 0xFFFFFFFF [] (memcard m)) x = content (memcard m) ! x"
      using lin_content [OF assms(7) x] by (simp add: lin_def virt_def)
    ultimately show ?thesis using w(5) x by simp
  qed
  ultimately show ?thesis using k(2,3) w(3) by (intro exI [of _ ?k]) simp
qed


lemma read_effect:
  assumes "fdAt fd (memcard m) = Some f" and "sint (reg m kA0) = fd" and "fd_block f = of_nat b" and "b < kBlocks"
    and "unat (fd_pos f) + unat (reg m kA2) \<le> data_bytes" and "kseg0_span (reg m kA1) (unat (reg m kA2))"
    and "usable (memcard m)" and "polled (hle m)" and "\<not> displayPassArmed (mem m)"
  shows "\<exists>m'. file_read g m = Some m' \<and> hle m' = announced EvSpIOE (hle m) \<and> reg m' kV0 = 0 \<and>
    memcard m' = (memcard m)\<lparr>mFd := at_pos fd (fd_pos f + reg m kA2) (mFd (memcard m))\<rparr> \<and>
    (\<forall>j<unat (reg m kA2). kbyte m' (reg m kA1 + of_nat j) = content (memcard m) ! data_at b (fd_pos f) j)"
proof -
  let ?N = "unat (reg m kA2)"
  have fd: "2 < fd" "mFd (memcard m) ! nat fd = f"
    using assms(1) by (auto simp: fdAt_def fdValid_def kFdBase_def split: if_splits)
  obtain m1 where r: "read_loop (env_io g) (of_nat b) (fd_pos f) (reg m kA1) 0 ?N 0xFFFFFFFF [] True m = Some (True, m1)"
    "dev (mem m1) = dev (mem m)" "hle m1 = hle m"
    "\<forall>j<?N. kbyte m1 (reg m kA1 + of_nat j) = lin (frame_at (memcard m)) (data_at b (fd_pos f) j)"
    using read_loop_copies [OF assms(4,5,6), of 0 ?N m "0xFFFFFFFF" "[]" "env_io g" True] assms(7,9) by auto
  have k: "memcard m1 = memcard m" using r(2) by (simp add: memcard_def)
  let ?m = "set_reg kV0 0 (advance fd (reg m kA2) m1)"
  have "file_read g m = deliverComplete g ?m"
    using assms(1-3) fd(1) r(1) by (simp add: file_read_def Let_def)
  then have "file_read g m = Some (set_hle (announced EvSpIOE) ?m)"
    using assms(8) r(3) by (simp add: complete_announces advance_def set_pos_eq)
  moreover have "data_at b (fd_pos f) j < kSize" if "j < ?N" for j
  proof -
    have "unat (fd_pos f) + j < 8064" "b < 16" using assms(4,5) that by (simp_all add: data_bytes_def card_consts)
    then show ?thesis by (simp add: data_at_def card_consts)
  qed
  ultimately show ?thesis
    using r(3,4) k fd(2) lin_content [OF assms(7)] by (simp add: advance_def set_pos_eq)
qed

text \<open>
  C15: What a title saves is what it loads. A write through an open descriptor inside its file's block is accepted (a zero
  result), announces its end and no error, moves the descriptor past the bytes, and leaves the card holding those bytes at
  their place and every other byte as it was. A seek back announces nothing and moves only the descriptor. A read then, whatever
  has become of the events in between, is accepted, announces its own end, delivers the bytes that were written into whatever
  buffer, moves the descriptor past them and leaves the card as it is.
\<close>

theorem card_file_roundtrip:
  fixes m :: "'e card_machine"
  assumes "fdAt (sint fd) (memcard m) = Some f" and "fd_block f = of_nat b" and "b < kBlocks"
    and "unat (fd_pos f) + unat len \<le> data_bytes" and "kseg0_span src (unat len)" and "kseg0_span dst (unat len)"
    and "usable (memcard m)" and "length (mFd (memcard m)) = kFdMax"
    and "polled (hle m)" and "\<not> displayPassArmed (mem m)"
  shows "\<exists>m1 m2. card_call g 0x35 fd src len m = Some (True, m1) \<and> reg m1 kV0 = 0 \<and> hle m1 = announced EvSpIOE (hle m) \<and>
    mFd (memcard m1) = at_pos (sint fd) (fd_pos f + len) (mFd (memcard m)) \<and>
    (\<forall>x<kSize. content (memcard m1) ! x =
      (if data_at b (fd_pos f) 0 \<le> x \<and> x < data_at b (fd_pos f) (unat len)
       then kbyte m (src + of_nat (x - data_at b (fd_pos f) 0)) else content (memcard m) ! x)) \<and>
    card_call g 0x33 fd (fd_pos f) 0 m1 = Some (True, m2) \<and> reg m2 kV0 = fd_pos f \<and> hle m2 = hle m1 \<and>
    memcard m2 = (memcard m1)\<lparr>mFd := at_pos (sint fd) (fd_pos f) (mFd (memcard m1))\<rparr> \<and>
    (\<forall>h. polled h \<longrightarrow> (\<exists>m3. card_call g 0x34 fd dst len (set_hle (\<lambda>_. h) m2) = Some (True, m3) \<and> reg m3 kV0 = 0 \<and>
      hle m3 = announced EvSpIOE h \<and> (\<forall>j<unat len. kbyte m3 (dst + of_nat j) = kbyte m (src + of_nat j)) \<and>
      memcard m3 = (memcard m2)\<lparr>mFd := at_pos (sint fd) (fd_pos f + len) (mFd (memcard m2))\<rparr>))"
proof -
  let ?call = "\<lambda>a0 a1 a2 m. set_reg kA0 a0 (set_reg kA1 a1 (set_reg kA2 a2 (m :: 'e card_machine)))"
  have fdv: "fdValid (sint fd) (memcard m)" "mFd (memcard m) ! nat (sint fd) = f"
    using assms(1) by (auto simp: fdAt_def split: if_splits)
  then have used: "fd_used f" "3 \<le> sint fd" "sint fd < 11" by (simp_all add: fdValid_def card_consts)
  obtain k where w: "file_write g (?call fd src len m) = Some (set_hle (announced EvSpIOE) (set_reg kV0 0 (set_card (\<lambda>_. k) (?call fd src len m))))"
    "usable k" "mFd k = at_pos (sint fd) (fd_pos f + len) (mFd (memcard m))"
    "\<forall>x<kSize. content k ! x = (if data_at b (fd_pos f) 0 \<le> x \<and> x < data_at b (fd_pos f) (unat len)
       then kbyte m (src + of_nat (x - data_at b (fd_pos f) 0)) else content (memcard m) ! x)"
    using write_effect [of "sint fd" "?call fd src len m" f b g] assms by (auto simp: gpr_numbers)
  define m1 where "m1 = set_hle (announced EvSpIOE) (set_reg kV0 0 (set_card (\<lambda>_. k) (?call fd src len m)))"
  have c1: "card_call g 0x35 fd src len m = Some (True, m1)" using w(1) by (simp add: card_call_def card_dispatch_b0_def m1_def)
  have m1: "memcard m1 = k" "reg m1 kV0 = 0" "hle m1 = announced EvSpIOE (hle m)" "displayPassArmed (mem m1) = displayPassArmed (mem m)"
    by (simp_all add: m1_def)
  have n: "nat (sint fd) < length (mFd (memcard m))" using used assms(8) by (simp add: kFdMax_def)
  have f1: "fdAt (sint fd) k = Some (f\<lparr>fd_pos := fd_pos f + len\<rparr>)"
    using used n fdv(2) by (simp add: fdAt_def fdValid_def w(3) at_pos_def card_consts)
  define m2 where "m2 = set_reg kV0 (fd_pos f) (set_pos (sint fd) (fd_pos f) (?call fd (fd_pos f) 0 m1))"
  have c2: "card_call g 0x33 fd (fd_pos f) 0 m1 = Some (True, m2)"
    using used(2) f1 by (simp add: card_call_def card_dispatch_b0_def file_lseek_def m2_def m1(1) gpr_numbers Let_def)
  have k2: "memcard m2 = k\<lparr>mFd := at_pos (sint fd) (fd_pos f) (mFd k)\<rparr>" by (simp add: m2_def set_pos_eq m1(1))
  have m2: "hle m2 = hle m1" "displayPassArmed (mem m2) = displayPassArmed (mem m)" "reg m2 kV0 = fd_pos f"
    by (simp_all add: m2_def set_pos_eq m1)
  have f2: "fdAt (sint fd) (memcard m2) = Some (f\<lparr>fd_pos := fd_pos f\<rparr>)"
    using used n fdv(2) by (simp add: fdAt_def fdValid_def k2 w(3) at_pos_def card_consts)
  have third: "\<exists>m3. card_call g 0x34 fd dst len (set_hle (\<lambda>_. h) m2) = Some (True, m3) \<and> reg m3 kV0 = 0 \<and>
      hle m3 = announced EvSpIOE h \<and> (\<forall>j<unat len. kbyte m3 (dst + of_nat j) = kbyte m (src + of_nat j)) \<and>
      memcard m3 = (memcard m2)\<lparr>mFd := at_pos (sint fd) (fd_pos f + len) (mFd (memcard m2))\<rparr>" if h: "polled h" for h
  proof -
    obtain m3 where m3: "file_read g (?call fd dst len (set_hle (\<lambda>_. h) m2)) = Some m3" "hle m3 = announced EvSpIOE h" "reg m3 kV0 = 0"
      "memcard m3 = (memcard m2)\<lparr>mFd := at_pos (sint fd) (fd_pos f + len) (mFd (memcard m2))\<rparr>"
      "\<forall>j<unat len. kbyte m3 (dst + of_nat j) = content k ! data_at b (fd_pos f) j"
      using read_effect [of "sint fd" "?call fd dst len (set_hle (\<lambda>_. h) m2)" "f\<lparr>fd_pos := fd_pos f\<rparr>" b g] assms w(2) m2 f2 h
      by (auto simp: gpr_numbers k2)
    have "kbyte m3 (dst + of_nat j) = kbyte m (src + of_nat j)" if "j < unat len" for j
    proof -
      have "unat (fd_pos f) + j < 8064" "b < 16" using assms(3,4) that by (simp_all add: data_bytes_def card_consts)
      then have "data_at b (fd_pos f) j < kSize" by (simp add: data_at_def card_consts)
      then show ?thesis using m3(5) w(4) that by (simp add: data_at_def)
    qed
    then show ?thesis using m3 by (intro exI [of _ m3]) (simp add: card_call_def card_dispatch_b0_def)
  qed
  show ?thesis
    by (rule exI [of _ m1], rule exI [of _ m2], unfold m1(1), intro conjI allI impI)
      (use w(4) in \<open>simp_all only: c1 c2 m1(2,3) m2(1,3) k2 w(3) third [unfolded k2 w(3)]\<close>)
qed


section \<open>Outcome of a transfer\<close>

lemma read_loop_outcome:
  assumes "kseg0_span buf N" and "i + n = N" and "usable (memcard m)" and "\<not> displayPassArmed (mem m)"
    and "\<forall>j<N. mc_data_frame block (pos + of_nat j) \<noteq> 0xFFFFFFFF"
    and "loaded = 0xFFFFFFFF \<or> ok = (unat loaded < kFrames \<and> ok)"
  shows "\<exists>m'. read_loop io block pos buf i n loaded fr ok m =
      Some (ok \<and> (\<forall>j. i \<le> j \<and> j < N \<longrightarrow> unat (mc_data_frame block (pos + of_nat j)) < kFrames), m') \<and>
    dev (mem m') = dev (mem m) \<and> \<not> displayPassArmed (mem m') \<and> hle m' = hle m \<and> cpu m' = cpu m"
  using assms(2-4,6)
proof (induction n arbitrary: i loaded fr ok m)
  case (Suc n)
  have i: "i < N" using Suc.prems(1) by simp
  let ?f = "mc_data_frame block (pos + of_nat i)" and ?t = "unat (pos + of_nat i) mod kFrameSize"
  let ?in = "unat ?f < kFrames"
  obtain moved fr1 where rd: "(if ?f \<noteq> loaded then on_card (readFrame ?f) m else ((True, fr), m)) = ((moved, fr1), m)"
    "(moved \<and> ok) = (?in \<and> ok)"
  proof (cases "?f = loaded")
    case True
    then show ?thesis using that Suc.prems(4) assms(5) i by auto
  next
    case False
    then show ?thesis
      using that Suc.prems(2) card_on_read [of m ?f] card.rd_past [OF Suc.prems(2), of ?f]
      by (cases ?in) (auto simp: on_card_eq set_card_same)
  qed
  obtain m1 where m1: "m_w8 io m (buf + of_nat i) (fr1 ! ?t) = Some m1" "\<not> displayPassArmed (mem m1)"
    "dev (mem m1) = dev (mem m)" "hle m1 = hle m" "cpu m1 = cpu m"
    using kseg0_w8 [OF assms(1) i Suc.prems(3)] by blast
  then have k: "memcard m1 = memcard m" by (simp add: memcard_def)
  obtain m' where m': "read_loop io block pos buf (i + 1) n ?f fr1 (?in \<and> ok) m1 =
      Some ((?in \<and> ok) \<and> (\<forall>j. i + 1 \<le> j \<and> j < N \<longrightarrow> unat (mc_data_frame block (pos + of_nat j)) < kFrames), m')"
    "dev (mem m') = dev (mem m1)" "\<not> displayPassArmed (mem m')" "hle m' = hle m1" "cpu m' = cpu m1"
    using Suc.IH [of "i + 1" m1 ?f "?in \<and> ok" fr1] Suc.prems(1,2) m1(2) k by auto
  have "read_loop io block pos buf i (Suc n) loaded fr ok m = read_loop io block pos buf (i + 1) n ?f fr1 (?in \<and> ok) m1"
    using rd m1(1) by (simp only: read_loop.simps Let_def prod.case bind.bind_lunit simp_thms)
  moreover have "((?in \<and> ok) \<and> (\<forall>j. i + 1 \<le> j \<and> j < N \<longrightarrow> unat (mc_data_frame block (pos + of_nat j)) < kFrames)) =
      (ok \<and> (\<forall>j. i \<le> j \<and> j < N \<longrightarrow> unat (mc_data_frame block (pos + of_nat j)) < kFrames))"
    using i by (metis Suc_eq_plus1 Suc_le_eq le_eq_less_or_eq)
  ultimately show ?case using m' m1 by (intro exI [of _ m']) (simp del: read_loop.simps)
qed auto

lemma data_frame_buffer: "b < kBlocks \<Longrightarrow> mc_data_frame (of_nat b) off \<noteq> 0xFFFFFFFF"
proof -
  assume "b < kBlocks"
  then have b: "b < 16" by (simp add: kBlocks_def)
  have d: "unat (off div 128) = unat off div 128" by (simp add: unat_div)
  have "unat off < 2 ^ 32" using unat_less [of off] by simp
  then have "unat off div 128 < 2 ^ 25" by (simp add: less_mult_imp_div_less)
  then have "unat (of_nat b * 64 + 1 + off div 128 :: u32) = b * 64 + 1 + unat off div 128"
    using b d by (simp add: unat_word_ariths unat_of_nat mod_simps)
  with \<open>unat off div 128 < 2 ^ 25\<close> b have "unat (of_nat b * 64 + 1 + off div 128 :: u32) < unat (0xFFFFFFFF :: u32)" by simp
  then have "of_nat b * 64 + 1 + off div 128 \<noteq> (0xFFFFFFFF :: u32)" by (metis less_irrefl)
  then show ?thesis by (simp only: mc_data_frame_def card_consts of_nat_numeral not_False_eq_True)
qed

text \<open>
  A read through an open descriptor always returns zero and always announces an outcome: the end of the transfer when
  every byte asked for lies on the card, an error when some byte lies past its last frame.
\<close>

theorem read_announces_outcome:
  assumes "fdAt (sint fd) (memcard m) = Some f" and "fd_block f = of_nat b" and "b < kBlocks"
    and "kseg0_span buf (unat len)" and "usable (memcard m)" and "polled (hle m)" and "\<not> displayPassArmed (mem m)"
  shows "\<exists>m'. card_call g 0x34 fd buf len m = Some (True, m') \<and> reg m' kV0 = 0 \<and>
    hle m' = announced (if \<forall>j<unat len. unat (mc_data_frame (fd_block f) (fd_pos f + of_nat j)) < kFrames
                        then EvSpIOE else EvSpERROR) (hle m) \<and>
    content (memcard m') = content (memcard m)"
proof -
  let ?m = "set_reg kA0 fd (set_reg kA1 buf (set_reg kA2 len m))"
  define all where "all = (\<forall>j<unat len. unat (mc_data_frame (fd_block f) (fd_pos f + of_nat j)) < kFrames)"
  have fd: "2 < sint fd" using assms(1) by (auto simp: fdAt_def fdValid_def kFdBase_def split: if_splits)
  obtain m1 where r: "read_loop (env_io g) (fd_block f) (fd_pos f) buf 0 (unat len) 0xFFFFFFFF [] True ?m = Some (all, m1)"
    "dev (mem m1) = dev (mem ?m)" "hle m1 = hle ?m"
    using read_loop_outcome [OF assms(4), of 0 "unat len" ?m "fd_block f" "fd_pos f" "0xFFFFFFFF" True "env_io g" "[]"] assms
    by (auto simp: data_frame_buffer all_def)
  have k: "memcard m1 = memcard m" using r(2) by (simp add: memcard_def)
  let ?m2 = "set_reg kV0 0 (advance (sint fd) len m1)"
  have "file_read g ?m = (if all then deliverComplete g ?m2 else deliverError g ?m2)"
    using assms(1) fd r(1) by (simp add: file_read_def Let_def gpr_numbers)
  then have "file_read g ?m = Some (set_hle (announced (if all then EvSpIOE else EvSpERROR)) ?m2)"
    using assms(6) r(3) by (simp add: complete_announces error_announces advance_def set_pos_eq)
  then show ?thesis
    using r(3) k by (simp add: card_call_def card_dispatch_b0_def advance_def set_pos_eq flip: all_def)
qed

text \<open>
  A file of two blocks is given one directory entry, so its second block is another file's first: the frames
  past its first block are those of the block after it, whoever holds that.
\<close>

theorem long_file_shares_frames:
  "mc_data_frame (of_nat b) (of_nat (kBlockFrames * kFrameSize)) = mc_data_frame (of_nat (b + 1)) 0"
proof -
  have "(8192 :: u32) div 128 = 64" by code_simp
  then show ?thesis by (simp add: mc_data_frame_def card_consts algebra_simps)
qed


section \<open>Witnesses\<close>

definition absent_card :: Memcard where
  "absent_card = \<lparr>mCard = False, mHost = \<lparr>host_file = None, host_may_open = True, host_may_read = True, host_may_create = True,
     host_accepts = True, host_stale = []\<rparr>, mFd = replicate 11 \<lparr>fd_used = False, fd_block = 0, fd_pos = 0, fd_size = 0\<rparr>,
     mScanPat = [], mScanBlk = 16\<rparr>"

definition new_card :: Memcard where
  "new_card = card_init absent_card"

lemma new_card_ok: "usable new_card" "\<forall>i. 1 \<le> i \<and> i < kBlocks \<longrightarrow> frame_at new_card i = free_frame"
  using first_access_formats [of absent_card] by (simp_all add: new_card_def absent_card_def)

lemma new_card_lookup: "lookup new_card want = None" "dir_inv new_card"
  using new_card_ok(2) entry_for_frames(2) by (auto simp: lookup_def find_upt_None dir_inv_def)

lemma new_card_fds: "mFd new_card = mFd absent_card"
  by (simp add: new_card_def card_init_def open_image_def complete_image_def format_image_def pad_frames_def fwrite_at_def
      Let_def absent_card_def)

lemma directory_is_map_witness:
  "\<exists>b m'. dirCreate [0x62, 0x75, 0x3A, 0x41] 8064 new_card = (Some b, m') \<and> lookup m' [0x41] = Some b \<and> lookup m' [0x42] = None"
proof -
  have n: "mc_strip_dev [0x62, 0x75, 0x3A, 0x41] = [0x41]" by (simp add: mc_strip_dev_def)
  have free: "frame_at new_card 1 ! 0 = kDirFree" using new_card_ok(2) free_frame_ok(3) by (simp add: kBlocks_def)
  obtain r m' where r: "dirCreate [0x62, 0x75, 0x3A, 0x41] 8064 new_card = (r, m')" by fastforce
  with directory_is_map [OF new_card_ok(1) new_card_lookup(2), of "[0x62, 0x75, 0x3A, 0x41]" 8064] free
  show ?thesis by (cases r) (auto simp: n name_fits_def new_card_lookup(1) kBlocks_def)
qed

lemma scan_complete_witness: "scan_blocks 17 (dirScanBegin [0x2A] new_card) = []"
proof -
  have used: "frame_at new_card b ! 0 \<noteq> kDirUsedFirst" "0x2A \<notin> set (entry_name (frame_at new_card b))"
    if "1 \<le> b" "b < kBlocks" for b
  proof -
    have f: "frame_at new_card b = free_frame" using new_card_ok(2) that by blast
    show "frame_at new_card b ! 0 \<noteq> kDirUsedFirst" by (simp add: f free_frame_ok kDirFree_def kDirUsedFirst_def)
    have "drop 0x0A free_frame ! 0 = 0" "drop 0x0A free_frame \<noteq> []"
      using free_frame_ok(1) by (simp_all add: free_frame_def seal_def kFrameSize_def)
    then have "entry_name free_frame = []" by (cases "drop 0x0A free_frame") (simp_all add: entry_name_def)
    then show "0x2A \<notin> set (entry_name (frame_at new_card b))" by (simp add: f)
  qed
  show ?thesis
    using used scan_complete [of new_card 17 "[0x2A]"] new_card_ok(1) by (auto simp: kBlocks_def filter_empty_conv)
qed

definition card_core :: "(Memcard \<times> unit) core" where
  "card_core = \<lparr>ram = (\<lambda>a. ucast a), scratch = (\<lambda>_. 0), writeRollback = writeRollback blank_core, displayPassArmed = False,
     storeLog = [], execWrites = [],
     dev = (new_card\<lparr>mFd := (mFd new_card)[3 := \<lparr>fd_used = True, fd_block = 1, fd_pos = 100, fd_size = 8064\<rparr>]\<rparr>, ())\<rparr>"

definition save_machine :: "unit card_machine" where
  "save_machine = \<lparr>mem = card_core, cpu = cpu idle_machine, cop0 = cop0 idle_machine, hle = idle_hle, dmar = idle_dma,
     dma_callbacks = (\<lambda>_. 0), pw_irq = False, active_native_address = 0, pending_guest_redirect = 0, exit_requested = False\<rparr>"

definition card_env :: "(Memcard \<times> unit) kernel_env" where
  "card_env = \<lparr>env_io = \<lparr>io_read = (\<lambda>_ _ _. None), io_write = (\<lambda>_ _ _ _. None)\<rparr>, run_guest = (\<lambda>_ _. None), run_exit = (\<lambda>_ _. None),
     latch = id, guest_table = None, cd_path = False, cd_deliver = (\<lambda>m. Some (False, m)), memcard_A0 = (\<lambda>_ m. Some (False, m)),
     memcard_B0 = (\<lambda>_ m. Some (False, m)), load_exec = (\<lambda>m. Some (False, m)), guest_printf = Some\<rparr>"

lemma save_machine_ok:
  "memcard save_machine = new_card\<lparr>mFd := (mFd new_card)[3 := \<lparr>fd_used = True, fd_block = 1, fd_pos = 100, fd_size = 8064\<rparr>]\<rparr>"
  "fdAt 3 (memcard save_machine) = Some \<lparr>fd_used = True, fd_block = 1, fd_pos = 100, fd_size = 8064\<rparr>"
  "usable (memcard save_machine)" "polled (hle save_machine)" "\<not> displayPassArmed (mem save_machine)"
  "length (mFd (memcard save_machine)) = kFdMax"
proof -
  show k: "memcard save_machine = new_card\<lparr>mFd := (mFd new_card)[3 := \<lparr>fd_used = True, fd_block = 1, fd_pos = 100, fd_size = 8064\<rparr>]\<rparr>"
    by (simp add: save_machine_def memcard_def card_core_def)
  have l: "length (mFd new_card) = 11" by (simp add: new_card_fds absent_card_def)
  show "fdAt 3 (memcard save_machine) = Some \<lparr>fd_used = True, fd_block = 1, fd_pos = 100, fd_size = 8064\<rparr>"
    using l by (simp add: k fdAt_def fdValid_def kFdBase_def kFdMax_def)
  show "usable (memcard save_machine)" using new_card_ok(1) by (simp add: k)
  show "polled (hle save_machine)"
    by (auto simp: save_machine_def idle_hle_def polled_def kEventSlots_def list_all_length no_handler_def event_matches_def)
  show "\<not> displayPassArmed (mem save_machine)" by (simp add: save_machine_def card_core_def)
  show "length (mFd (memcard save_machine)) = kFdMax" using l by (simp add: k kFdMax_def)
qed

text \<open>Saved, sought back and loaded with every event cleared in between.\<close>

lemma card_file_roundtrip_witness:
  "\<exists>m1 m2 m3. card_call card_env 0x35 3 0x80010000 300 save_machine = Some (True, m1) \<and>
    hle m1 = announced EvSpIOE (hle save_machine) \<and>
    card_call card_env 0x33 3 100 0 m1 = Some (True, m2) \<and>
    card_call card_env 0x34 3 0x80020000 300 (set_hle (\<lambda>_. idle_hle) m2) = Some (True, m3) \<and> hle m3 = announced EvSpIOE idle_hle \<and>
    kbyte m3 (0x80020000 + of_nat 200) = kbyte save_machine (0x80010000 + of_nat 200)"
proof -
  let ?f = "\<lparr>fd_used = True, fd_block = 1, fd_pos = 100, fd_size = 8064\<rparr>"
  have f: "fdAt (sint (3 :: u32)) (memcard save_machine) = Some ?f" using save_machine_ok(2) by simp
  have span: "kseg0_span 0x80010000 (unat (300 :: u32))" "kseg0_span 0x80020000 (unat (300 :: u32))" by (simp_all add: kseg0_span_def)
  have b: "fd_block ?f = of_nat 1" "1 < kBlocks" "unat (fd_pos ?f) + unat (300 :: u32) \<le> data_bytes"
    by (simp_all add: data_bytes_def card_consts)
  have pos: "fd_pos ?f = 100" by simp
  obtain m1 m2 where m: "card_call card_env 0x35 3 0x80010000 300 save_machine = Some (True, m1)"
    "hle m1 = announced EvSpIOE (hle save_machine)" "card_call card_env 0x33 3 100 0 m1 = Some (True, m2)"
    and rd: "\<forall>h. polled h \<longrightarrow> (\<exists>m3. card_call card_env 0x34 3 0x80020000 300 (set_hle (\<lambda>_. h) m2) = Some (True, m3) \<and> reg m3 kV0 = 0 \<and>
      hle m3 = announced EvSpIOE h \<and> (\<forall>j<unat (300 :: u32). kbyte m3 (0x80020000 + of_nat j) = kbyte save_machine (0x80010000 + of_nat j)) \<and>
      memcard m3 = (memcard m2)\<lparr>mFd := at_pos (sint (3 :: u32)) (fd_pos ?f + 300) (mFd (memcard m2))\<rparr>)"
    using card_file_roundtrip [OF f b span save_machine_ok(3,6,4,5), of card_env] unfolding pos by blast
  have "polled idle_hle" using save_machine_ok(4) by (simp add: save_machine_def)
  with rd obtain m3 where m3: "card_call card_env 0x34 3 0x80020000 300 (set_hle (\<lambda>_. idle_hle) m2) = Some (True, m3)"
    "hle m3 = announced EvSpIOE idle_hle"
    "\<forall>j<unat (300 :: u32). kbyte m3 (0x80020000 + of_nat j) = kbyte save_machine (0x80010000 + of_nat j)" by blast
  have "200 < unat (300 :: u32)" by simp
  with m m3 show ?thesis by blast
qed

lemma read_announces_outcome_witness:
  "\<exists>m'. card_call card_env 0x34 3 0x80010000 4 save_machine = Some (True, m') \<and> hle m' = announced EvSpIOE (hle save_machine)"
proof -
  have "\<forall>j<4. unat (mc_data_frame 1 (100 + of_nat j)) < kFrames"
    using transfer_at(2) [of 1 100 4] by (simp add: data_bytes_def card_consts)
  then show ?thesis
    using read_announces_outcome [of 3 save_machine "\<lparr>fd_used = True, fd_block = 1, fd_pos = 100, fd_size = 8064\<rparr>" 1
        "0x80010000" 4 card_env] save_machine_ok
    by (auto simp: card_consts kseg0_span_def)
qed

end
