(* ===== verification/Io_Bus.thy ===== *)
theory Io_Bus
  imports Hle_Kernel Sio_Pad Cd_Controller
begin

text \<open>
  The I/O decode of a guest access (\<open>Core::io_read\<close>, \<open>Core::io_write\<close> of \<open>core/mem.cpp\<close>, the registers of
  \<open>platform/io_peripherals.cpp\<close>), the interrupt latch (\<open>core/core.cpp\<close>) and the DMA channels it starts. It joins
  the controller port, the CD controller, the DMA registers and the interrupt registers of the
  kernel. The GPU, the MDEC, the SPU and the timers are arguments that act on a state of their own;
  \<open>None\<close> is the abort of \<open>warn_unmapped_ram\<close>. Log lines and the notes that only they read are left out.
\<close>

section \<open>State\<close>

record ('x, 'y) board =
  b_sio :: Sio0
  b_cdc :: "'x cdc"
  b_rest :: 'y

type_synonym ('x, 'y) console = "('x, 'y) board machine"

record ('x, 'y) bus_env =
  ticks :: "'y \<Rightarrow> u64"
  pad_buttons :: "'y \<Rightarrow> u16"
  cd_calls :: "'y \<Rightarrow> 'x cdc_env"
  gpu_status :: "'y \<Rightarrow> u32 \<times> 'y"
  gpu_read :: "'y \<Rightarrow> u32 \<times> 'y"
  gpu_gp0 :: "u32 \<Rightarrow> 'y \<Rightarrow> 'y"
  gpu_gp1 :: "u32 \<Rightarrow> ('x, 'y) console \<Rightarrow> ('x, 'y) console option"
  dma2LinkedList :: "u32 \<Rightarrow> ('x, 'y) console \<Rightarrow> ('x, 'y) console option"
  dma2Block :: "GuestSpan \<Rightarrow> u32 \<Rightarrow> bool \<Rightarrow> ('x, 'y) console \<Rightarrow> ('x, 'y) console option"
  mdec_canWrite :: "'y \<Rightarrow> bool"
  mdec_canRead :: "'y \<Rightarrow> bool"
  mdec_dmaIn :: "u32 list \<Rightarrow> 'y \<Rightarrow> int \<times> 'y"
  mdec_dmaReadWord :: "'y \<Rightarrow> (u32 \<times> u32) \<times> 'y"
  mdec_step :: "'y \<Rightarrow> 'y"
  mdec_read :: "u32 \<Rightarrow> 'y \<Rightarrow> u32 \<times> 'y"
  mdec_write :: "u32 \<Rightarrow> u32 \<Rightarrow> 'y \<Rightarrow> 'y"
  spu_read :: "u32 \<Rightarrow> 'y \<Rightarrow> u32 \<times> 'y"
  spu_write :: "u32 \<Rightarrow> u32 \<Rightarrow> 'y \<Rightarrow> 'y"
  spu_dmaWrite :: "u32 list \<Rightarrow> 'y \<Rightarrow> 'y"
  spu_dmaRead :: "nat \<Rightarrow> 'y \<Rightarrow> u32 list \<times> 'y"
  hSyncCounter :: "'y \<Rightarrow> u32 \<times> 'y"
  hSyncCounterWrite :: "u16 \<Rightarrow> 'y \<Rightarrow> 'y"
  rootCounter2 :: "nat \<Rightarrow> 'y \<Rightarrow> u32 \<times> 'y"
  rootCounter2Write :: "nat \<Rightarrow> u32 \<Rightarrow> 'y \<Rightarrow> 'y"
  publishLanding :: "u32 \<Rightarrow> u32 \<Rightarrow> ('x, 'y) console \<Rightarrow> ('x, 'y) console"

definition set_board :: "(('x, 'y) board \<Rightarrow> ('x, 'y) board) \<Rightarrow> ('x, 'y) console \<Rightarrow> ('x, 'y) console" where
  "set_board f m = m\<lparr>mem := (mem m)\<lparr>dev := f (dev (mem m))\<rparr>\<rparr>"

definition sio :: "('x, 'y) console \<Rightarrow> Sio0" where "sio m = b_sio (dev (mem m))"
definition cdc :: "('x, 'y) console \<Rightarrow> 'x cdc" where "cdc m = b_cdc (dev (mem m))"
definition rest :: "('x, 'y) console \<Rightarrow> 'y" where "rest m = b_rest (dev (mem m))"

definition set_sio :: "Sio0 \<Rightarrow> ('x, 'y) console \<Rightarrow> ('x, 'y) console" where
  "set_sio s = set_board (\<lambda>b. b\<lparr>b_sio := s\<rparr>)"

definition set_cdc :: "'x cdc \<Rightarrow> ('x, 'y) console \<Rightarrow> ('x, 'y) console" where
  "set_cdc c = set_board (\<lambda>b. b\<lparr>b_cdc := c\<rparr>)"

definition set_rest :: "'y \<Rightarrow> ('x, 'y) console \<Rightarrow> ('x, 'y) console" where
  "set_rest y = set_board (\<lambda>b. b\<lparr>b_rest := y\<rparr>)"

definition on_rest :: "('y \<Rightarrow> 'r \<times> 'y) \<Rightarrow> ('x, 'y) console \<Rightarrow> 'r \<times> ('x, 'y) console" where
  "on_rest f m = (let (r, y) = f (rest m) in (r, set_rest y m))"

definition set_channel :: "DmaChannel \<Rightarrow> (ChannelRegisters \<Rightarrow> ChannelRegisters) \<Rightarrow> 'd machine \<Rightarrow> 'd machine" where
  "set_channel ch f m = m\<lparr>dmar := (dmar m)\<lparr>channel := (channel (dmar m))(ch := f (channel (dmar m) ch))\<rparr>\<rparr>"

definition on_mem :: "('d core \<Rightarrow> 'd core option) \<Rightarrow> 'd machine \<Rightarrow> 'd machine option" where
  "on_mem f m = map_option (\<lambda>c. m\<lparr>mem := c\<rparr>) (f (mem m))"

section \<open>Interrupt latch\<close>

definition IRQ_BIT_SIO :: nat where "IRQ_BIT_SIO = 7"

definition raiseInterrupt :: "nat \<Rightarrow> 'd machine \<Rightarrow> 'd machine" where
  "raiseInterrupt b m = (set_hle (\<lambda>h. h\<lparr>i_stat := i_stat h OR push_bit b 1\<rparr>) m)\<lparr>pw_irq := True\<rparr>"

definition with_sio :: "bool \<times> Sio0 \<Rightarrow> ('x, 'y) console \<Rightarrow> ('x, 'y) console" where
  "with_sio r m = (let m1 = set_sio (snd r) m in if fst r then raiseInterrupt IRQ_BIT_SIO m1 else m1)"

definition irqStatLatch :: "('x, 'y) bus_env \<Rightarrow> ('x, 'y) console \<Rightarrow> ('x, 'y) console" where
  "irqStatLatch e m =
     (let m1 = with_sio (sio_service (ticks e (rest m)) (sio m)) m
      in if irq_edge (cdc m1) then raiseInterrupt IRQ_BIT_CD (set_cdc ((cdc m1)\<lparr>irq_edge := False\<rparr>) m1) else m1)"

definition complete_channel :: "DmaChannel \<Rightarrow> 'd machine \<Rightarrow> 'd machine" where
  "complete_channel ch m =
     (let m1 = set_channel ch (\<lambda>r. r\<lparr>chcr := chcr r AND NOT 0x01000000\<rparr>) m;
          (o', d) = dma_completed (dmar m1) ch
      in m1\<lparr>dmar := d, pw_irq := (pw_irq m1 \<or> o')\<rparr>)"

section \<open>Peripheral registers\<close>

definition kIrqStat :: u32 where "kIrqStat = 0x1F801070"
definition kIrqMask :: u32 where "kIrqMask = 0x1F801074"
definition kCounter1Value :: u32 where "kCounter1Value = 0x1F801110"

definition in_range :: "u32 \<Rightarrow> u32 \<Rightarrow> u32 \<Rightarrow> bool" where
  "in_range p lo' hi' \<longleftrightarrow> lo' \<le> p \<and> p \<le> hi'"

text \<open>\<open>None\<close> is a register that belongs to none of them.\<close>

definition readIoPeripheral :: "('x, 'y) bus_env \<Rightarrow> ('x, 'y) console \<Rightarrow> u32 \<Rightarrow> (u32 \<times> ('x, 'y) console) option" where
  "readIoPeripheral e m addr =
     (let p = physical addr; now = ticks e (rest m) in
      if in_range p 0x1F801040 0x1F80104F then
        (let sel = p AND 0xE in
         if sel = 0x0 then (case dataRead now (sio m) of (v, r, s) \<Rightarrow> Some (v, with_sio (r, s) m))
         else if sel = 0x4 then (case sio_status now (sio m) of (v, r, s) \<Rightarrow> Some (v, with_sio (r, s) m))
         else if sel = 0x8 then Some (ucast (sio_mode (sio m)), m)
         else if sel = 0xA then Some (ucast (sio_ctrl (sio m)), m)
         else if sel = 0xE then Some (ucast (sio_baud (sio m)), m)
         else Some (0, m))
      else if p = kIrqStat then (let m1 = irqStatLatch e m in Some (i_stat (hle m1), m1))
      else if p = kIrqMask then Some (i_mask (hle m), m)
      else if p = kCounter1Value then Some (on_rest (hSyncCounter e) m)
      else if in_range p 0x1F801120 0x1F80112B then
        (let sel = unat (p AND 0xC) in if sel < 0xC then Some (on_rest (rootCounter2 e sel) m) else Some (0, m))
      else None)"

definition writeIoPeripheral :: "('x, 'y) bus_env \<Rightarrow> ('x, 'y) console \<Rightarrow> u32 \<Rightarrow> u32 \<Rightarrow> ('x, 'y) console option" where
  "writeIoPeripheral e m addr v =
     (let p = physical addr in
      if in_range p 0x1F801040 0x1F80104F then
        (let sel = p AND 0xE; s = sio m in
         if sel = 0x0 then Some (set_sio (dataWrite (ticks e (rest m)) (pad_buttons e (rest m)) v s) m)
         else if sel = 0x8 then Some (set_sio (s\<lparr>sio_mode := ucast (v AND 0x013F)\<rparr>) m)
         else if sel = 0xA then Some (set_sio (ctrlWrite (ucast v) s) m)
         else if sel = 0xE then Some (set_sio (s\<lparr>sio_baud := ucast v\<rparr>) m)
         else Some m)
      else if p = kIrqStat then
        Some (set_hle (\<lambda>h. h\<lparr>i_stat := i_stat h AND (v AND 0x7FF)\<rparr>) (irqStatLatch e m))
      else if p = kIrqMask then Some ((set_hle (\<lambda>h. h\<lparr>i_mask := v AND 0x7FF\<rparr>) m)\<lparr>pw_irq := True\<rparr>)
      else if in_range p 0x1F801120 0x1F80112B then
        (let sel = unat (p AND 0xC) in Some (if sel < 0xC then set_rest (rootCounter2Write e sel v (rest m)) m else m))
      else if p = kCounter1Value then Some (set_rest (hSyncCounterWrite e (ucast v) (rest m)) m)
      else None)"

section \<open>The MDEC channels\<close>

fun read_words :: "'d io_ops \<Rightarrow> (nat \<Rightarrow> u32) \<Rightarrow> nat list \<Rightarrow> 'd core \<Rightarrow> (u32 list \<times> 'd core) option" where
  "read_words io at [] c = Some ([], c)"
| "read_words io at (k # ks) c =
     do { (w, c1) \<leftarrow> mem_r32 io c (at k); (ws, c2) \<leftarrow> read_words io at ks c1; Some (w # ws, c2) }"

definition set_dmar :: "(DmaRegisters \<Rightarrow> DmaRegisters) \<Rightarrow> 'd machine \<Rightarrow> 'd machine" where
  "set_dmar f m = m\<lparr>dmar := f (dmar m)\<rparr>"

text \<open>The DMA0 loop: whether a word moved; it stops when the decoder takes less than a chunk.\<close>

function feed_mdec :: "('x, 'y) bus_env \<Rightarrow> ('x, 'y) board io_ops \<Rightarrow> bool \<Rightarrow> ('x, 'y) console \<Rightarrow> (bool \<times> ('x, 'y) console) option" where
  "feed_mdec e io progress m =
     (if mdec0Left (dmar m) \<le> 0 \<or> \<not> mdec_canWrite e (rest m) then Some (progress, m)
      else do {
        let chunk = min (mdec0Left (dmar m)) 0x10;
        (ws, c) \<leftarrow> read_words io (\<lambda>k. (mdec0Addr (dmar m) + of_nat k * 4) AND 0x1FFFFC) [0..<nat chunk] (mem m);
        let (fed, m1) = on_rest (mdec_dmaIn e ws) (m\<lparr>mem := c\<rparr>);
        let m2 = set_dmar (\<lambda>d. d\<lparr>mdec0Addr := (mdec0Addr d + of_int fed * 4) AND 0xFFFFFF, mdec0Left := mdec0Left (dmar m) - fed\<rparr>) m1;
        if fed < chunk then Some (progress \<or> fed > 0, m2) else feed_mdec e io (progress \<or> fed > 0) m2 })"
  by pat_completeness auto
termination
  by (relation "measure (\<lambda>(_, _, _, m). nat (mdec0Left (dmar m)))") (auto simp: set_dmar_def)

declare feed_mdec.simps [simp del]

text \<open>One burst of DMA1: the lowest and the highest address written are kept for the notification.\<close>

fun burst_loop :: "('x, 'y) bus_env \<Rightarrow> ('x, 'y) board io_ops \<Rightarrow> nat \<Rightarrow> u32 \<Rightarrow> u32 \<Rightarrow> ('x, 'y) console \<Rightarrow>
    (u32 \<times> u32 \<times> ('x, 'y) console) option" where
  "burst_loop e io 0 low high m = Some (low, high, m)"
| "burst_loop e io (Suc n) low high m =
     (let ((val, offs), m1) = on_rest (mdec_dmaReadWord e) m;
          dest = (mdec1Addr (dmar m1) + push_bit 2 offs) AND 0x1FFFFC
      in do { m2 \<leftarrow> on_mem (\<lambda>c. mem_w32_unnotified io c dest val) m1;
              burst_loop e io n (min dest low) (max dest high)
                (set_dmar (\<lambda>d. d\<lparr>mdec1Addr := (mdec1Addr d + 4) AND 0xFFFFFF\<rparr>) m2) })"

text \<open>The DMA1 loop; \<open>left\<close> is \<open>mdec1Left\<close> at every entry.\<close>

function drain_mdec :: "('x, 'y) bus_env \<Rightarrow> ('x, 'y) board io_ops \<Rightarrow> int \<Rightarrow> bool \<Rightarrow> ('x, 'y) console \<Rightarrow> (bool \<times> ('x, 'y) console) option" where
  "drain_mdec e io left progress m =
     (if left \<le> 0 \<or> \<not> mdec_canRead e (rest m) then Some (progress, m)
      else do {
        let n = uint (bcr (channel (dmar m) MdecOut) AND 0xFFFF);
        let bs = (if n = 0 then 0x10000 else n);
        let burst = min bs left;
        (low, high, m1) \<leftarrow> burst_loop e io (nat burst) 0xFFFFFFFF 0 m;
        let m2 = m1\<lparr>mem := notifyExecutableWrite (mem m1) low (high + 4)\<rparr>;
        drain_mdec e io (left - burst) True (set_dmar (\<lambda>d. d\<lparr>mdec1Left := left - burst\<rparr>) m2) })"
  by pat_completeness auto
termination
proof (relation "measure (\<lambda>(_, _, left, _). nat left)", goal_cases)
  case (2 e io left progress m n bs burst)
  then have "0 < bs" by (auto simp: order_less_le)
  with 2 show ?case by (simp add: nat_less_iff min_def not_le)
qed simp

declare drain_mdec.simps [simp del]

definition retire_mdec :: "DmaChannel \<Rightarrow> int \<Rightarrow> 'd machine \<Rightarrow> 'd machine" where
  "retire_mdec ch left m =
     (if left = 0 \<and> chcr (channel (dmar m) ch) AND 0x01000000 \<noteq> 0 then complete_channel ch m else m)"

text \<open>The pump. Past the decoder's step it only classifies for the log, after one read of the status port.\<close>

partial_function (option) mdec_dma_pump :: "('x, 'y) bus_env \<Rightarrow> ('x, 'y) board io_ops \<Rightarrow> ('x, 'y) console \<Rightarrow> ('x, 'y) console option" where
  "mdec_dma_pump e io m =
     do {
       (p0, m1) \<leftarrow> feed_mdec e io False m;
       (p1, m2) \<leftarrow> drain_mdec e io (mdec1Left (dmar m1)) p0 m1;
       let m3 = retire_mdec MdecIn (mdec0Left (dmar m2)) m2;
       let m4 = retire_mdec MdecOut (mdec1Left (dmar m3)) m3;
       if mdec0Left (dmar m4) = 0 \<and> mdec1Left (dmar m4) = 0 then Some m4
       else if p1 then mdec_dma_pump e io m4
       else
         let m5 = set_rest (mdec_step e (rest m4)) m4
         in if mdec0Left (dmar m5) > 0 \<and> mdec_canWrite e (rest m5) \<or> mdec1Left (dmar m5) > 0 \<and> mdec_canRead e (rest m5)
            then mdec_dma_pump e io m5
            else Some (snd (on_rest (mdec_read e 0x1F801824) m5)) }"

definition mdec_pump_pending :: "('x, 'y) bus_env \<Rightarrow> ('x, 'y) board io_ops \<Rightarrow> ('x, 'y) console \<Rightarrow> ('x, 'y) console option" where
  "mdec_pump_pending e io m =
     (if mdec0Left (dmar m) > 0 \<or> mdec1Left (dmar m) > 0 then mdec_dma_pump e io m else Some m)"

section \<open>Reads\<close>

datatype channel_port = Madr | Bcr | Chcr

text \<open>The channel registers that are storage; the decode names those of six channels.\<close>

definition channel_register :: "u32 \<Rightarrow> (DmaChannel \<times> channel_port) option" where
  "channel_register p =
     (let ch = (case p AND 0xFFFFFFF0 of a \<Rightarrow>
                  if a = 0x1F801080 then Some MdecIn else if a = 0x1F801090 then Some MdecOut
                  else if a = 0x1F8010A0 then Some Gpu else if a = 0x1F8010B0 then Some Cdrom
                  else if a = 0x1F8010C0 then Some Spu else if a = 0x1F8010E0 then Some Otc else None);
          port = (case p AND 0xF of o' \<Rightarrow>
                  if o' = 0 then Some Madr else if o' = 4 then Some Bcr else if o' = 8 then Some Chcr else None)
      in do { c \<leftarrow> ch; r \<leftarrow> port; Some (c, r) })"

fun port_value :: "channel_port \<Rightarrow> ChannelRegisters \<Rightarrow> u32" where
  "port_value Madr r = madr r"
| "port_value Bcr r = bcr r"
| "port_value Chcr r = chcr r"

definition ram_range_addr :: "u32 \<Rightarrow> bool" where
  "ram_range_addr p \<longleftrightarrow> p < 0x1F000000"

definition bus_read :: "('x, 'y) bus_env \<Rightarrow> ('x, 'y) board io_ops \<Rightarrow> ('x, 'y) console \<Rightarrow> u32 \<Rightarrow> (u32 \<times> ('x, 'y) console) option" where
  "bus_read e io m a =
     (let p = physical a in
      case readIoPeripheral e m a of
        Some r \<Rightarrow> Some r
      | None \<Rightarrow>
          if p = 0x1F801814 then Some (on_rest (gpu_status e) m)
          else if in_range p 0x1F801800 0x1F80180F then
            (case cdc_read (cdcRegister p) (cdc m) of (v, c) \<Rightarrow> Some (v, irqStatLatch e (set_cdc c m)))
          else if p = 0x1F801810 then Some (on_rest (gpu_read e) m)
          else if p = 0x1F801820 \<or> p = 0x1F801824 then
            do { m1 \<leftarrow> mdec_pump_pending e io m; Some (on_rest (mdec_read e p) m1) }
          else if p = 0x1F801DAE then Some (0, m)
          else if in_range p 0x1F801C00 0x1F801FFF then Some (on_rest (spu_read e p) m)
          else
            (case channel_register p of
               Some (ch, port) \<Rightarrow>
                 do { m1 \<leftarrow> (if port = Chcr \<and> (ch = MdecIn \<or> ch = MdecOut) then mdec_pump_pending e io m else Some m);
                      Some (port_value port (channel (dmar m1) ch), m1) }
             | None \<Rightarrow>
                 if in_range p 0x1F8010F0 0x1F8010F3 then Some (drop_bit (unat (p AND 3) * 8) (dpcr (dmar m)), m)
                 else if in_range p 0x1F8010F4 0x1F8010F7 then Some (drop_bit (unat (p AND 3) * 8) (readDicr (dicr (dmar m))), m)
                 else if ram_range_addr p then None
                 else Some (0, m)))"

section \<open>Writes\<close>

fun write_words :: "'d io_ops \<Rightarrow> u32 \<Rightarrow> u32 list \<Rightarrow> 'd core \<Rightarrow> 'd core option" where
  "write_words io a [] c = Some c"
| "write_words io a (w # ws) c = do { c1 \<leftarrow> mem_w32_unnotified io c a w; write_words io (a + 4) ws c1 }"

definition kDmaBuffer :: nat where "kDmaBuffer = 0x10000"

text \<open>Words at \<open>a\<close>, the notification of their range and the landing.\<close>

definition land_words :: "('x, 'y) bus_env \<Rightarrow> ('x, 'y) board io_ops \<Rightarrow> u32 \<Rightarrow> u32 list \<Rightarrow> u32 \<Rightarrow> ('x, 'y) console \<Rightarrow> ('x, 'y) console option" where
  "land_words e io a ws stop m =
     do { m1 \<leftarrow> on_mem (write_words io a ws) m;
          Some (publishLanding e a stop (m1\<lparr>mem := notifyExecutableWrite (mem m1) a stop\<rparr>)) }"

fun chain_nodes :: "('x, 'y) bus_env \<Rightarrow> ('x, 'y) board io_ops \<Rightarrow> nat \<Rightarrow> u32 \<Rightarrow> int \<Rightarrow> ('x, 'y) console \<Rightarrow> ('x, 'y) console option" where
  "chain_nodes e io 0 node remaining m = Some m"
| "chain_nodes e io (Suc hops) node remaining m =
     (if remaining \<le> 0 then Some m
      else do {
        (header, c) \<leftarrow> mem_r32 io (mem m) node;
        let count = uint (drop_bit 24 header);
        let nxt = header AND 0x00FFFFFF;
        let n = min count remaining;
        let ((ws, got), k) = dmaRead n (cdc m);
        m1 \<leftarrow> land_words e io (node + 4) ws (node + 4 + of_int n * 4) (set_cdc k (m\<lparr>mem := c\<rparr>));
        if nxt = 0x00FFFFFF \<or> remaining - n \<le> 0 then Some m1
        else chain_nodes e io hops (nxt AND 0x1FFFFC) (remaining - n) m1 })"

definition block_in :: "('x, 'y) bus_env \<Rightarrow> ('x, 'y) board io_ops \<Rightarrow> u32 \<Rightarrow> int \<Rightarrow> ('x, 'y) console \<Rightarrow> ('x, 'y) console option" where
  "block_in e io da n m =
     (let ((ws, got), k) = (if n > 0 then dmaRead (min (int kDmaBuffer) n) (cdc m) else (([], 0), cdc m))
      in land_words e io da (ws @ replicate (nat n - length ws) 0) (da + of_int n * 4) (set_cdc k m))"

definition start_dma3 :: "('x, 'y) bus_env \<Rightarrow> ('x, 'y) board io_ops \<Rightarrow> u32 \<Rightarrow> ('x, 'y) console \<Rightarrow> ('x, 'y) console option" where
  "start_dma3 e io v m =
     (let regs = channel (dmar m) Cdrom; da = madr regs AND 0x1FFFFC in
      if syncMode v = 2 then do {
        ((n, endMadr, refused), c) \<leftarrow> chainWords io (madr regs) (mem m);
        m1 \<leftarrow> chain_nodes e io kChainWordCap da (int n) (m\<lparr>mem := c\<rparr>);
        let m2 = (if refused then m1 else set_channel Cdrom (\<lambda>r. r\<lparr>madr := endMadr\<rparr>) m1);
        let m3 = irqStatLatch e (set_channel Cdrom (\<lambda>r. r\<lparr>chcr := chcr r AND NOT 0x01000000\<rparr>) m2);
        Some (complete_channel Cdrom m3) }
      else do {
        m1 \<leftarrow> block_in e io da (dma_block_words (bcr regs)) m;
        let m2 = irqStatLatch e (set_channel Cdrom (\<lambda>r. r\<lparr>chcr := chcr r AND NOT 0x01000000\<rparr>) m1);
        Some (complete_channel Cdrom m2) })"

text \<open>The SPU transfers, a buffer at a time.\<close>

fun spu_out :: "('x, 'y) bus_env \<Rightarrow> ('x, 'y) board io_ops \<Rightarrow> u32 \<Rightarrow> nat list \<Rightarrow> nat \<Rightarrow> ('x, 'y) console \<Rightarrow> ('x, 'y) console option" where
  "spu_out e io da [] n m = Some m"
| "spu_out e io da (i # is) n m =
     do { let first = i * kDmaBuffer;
          (ws, c) \<leftarrow> read_words io (\<lambda>k. da + of_nat k * 4) [first..<min n (first + kDmaBuffer)] (mem m);
          let m1 = m\<lparr>mem := c\<rparr>;
          spu_out e io da is n (set_rest (spu_dmaWrite e ws (rest m1)) m1) }"

fun spu_in :: "('x, 'y) bus_env \<Rightarrow> ('x, 'y) board io_ops \<Rightarrow> u32 \<Rightarrow> nat list \<Rightarrow> nat \<Rightarrow> ('x, 'y) console \<Rightarrow> ('x, 'y) console option" where
  "spu_in e io da [] n m = Some m"
| "spu_in e io da (i # is) n m =
     (let first = i * kDmaBuffer;
          (ws, m1) = on_rest (spu_dmaRead e (min kDmaBuffer (n - first))) m
      in do { m2 \<leftarrow> on_mem (write_words io (da + of_nat first * 4) ws) m1; spu_in e io da is n m2 })"

definition start_dma4 :: "('x, 'y) bus_env \<Rightarrow> ('x, 'y) board kernel_env \<Rightarrow> u32 \<Rightarrow> ('x, 'y) console \<Rightarrow> ('x, 'y) console option" where
  "start_dma4 e g v m =
     (let io = env_io g; n = dma_block_words (bcr (channel (dmar m) Spu)); da = madr (channel (dmar m) Spu) AND 0x1FFFFC;
          pieces = [0..<(nat n + kDmaBuffer - 1) div kDmaBuffer]
      in do {
        m1 \<leftarrow> (if v AND 1 \<noteq> 0 then spu_out e io da pieces (nat n) m
               else do { m' \<leftarrow> spu_in e io da pieces (nat n) m;
                         Some (m'\<lparr>mem := notifyExecutableWrite (mem m') da (da + of_int n * 4)\<rparr>) });
        deliverEvent g 0xF0000009 0xFFFFFFFF (complete_channel Spu m1) })"

definition start_dma2 :: "('x, 'y) bus_env \<Rightarrow> u32 \<Rightarrow> ('x, 'y) console \<Rightarrow> ('x, 'y) console option" where
  "start_dma2 e v m =
     (let r = channel (dmar m) Gpu; bs = bcr r AND 0xFFFF; to_gpu = (v AND 1 \<noteq> 0); sync = drop_bit 9 v AND 3
      in map_option (complete_channel Gpu)
        (if sync = 2 then dma2LinkedList e (madr r) m
         else if sync = 1 then dma2Block e \<lparr>sp_address = madr r, sp_bytes = bs * drop_bit 16 (bcr r) * 4\<rparr> bs to_gpu m
         else dma2Block e \<lparr>sp_address = madr r, sp_bytes = bs * 4\<rparr> bs to_gpu m))"

text \<open>A store to a CHCR: the register, then the transfer its bit 24 starts, or the stop of an MDEC channel.\<close>

definition write_chcr :: "('x, 'y) bus_env \<Rightarrow> ('x, 'y) board kernel_env \<Rightarrow> DmaChannel \<Rightarrow> u32 \<Rightarrow> ('x, 'y) console \<Rightarrow> ('x, 'y) console option" where
  "write_chcr e g ch v m0 =
     (let io = env_io g; m = set_channel ch (\<lambda>r. r\<lparr>chcr := v\<rparr>) m0; start = (v AND 0x01000000 \<noteq> 0);
          n = dma_block_words (bcr (channel (dmar m) ch))
      in case ch of
           Cdrom \<Rightarrow> if start then start_dma3 e io v m else Some m
         | Spu \<Rightarrow> if start then start_dma4 e g v m else Some m
         | Gpu \<Rightarrow> if start then start_dma2 e v m else Some m
         | MdecIn \<Rightarrow>
             if start then
               mdec_dma_pump e io (set_dmar (\<lambda>d. d\<lparr>mdec0Addr := madr (channel d MdecIn) AND 0xFFFFFC, mdec0Left := n\<rparr>) m)
             else Some (if mdec0Left (dmar m) > 0 then set_dmar (\<lambda>d. d\<lparr>mdec0Left := 0\<rparr>) m else m)
         | MdecOut \<Rightarrow>
             if start then
               mdec_dma_pump e io (set_dmar (\<lambda>d. d\<lparr>mdec1Addr := madr (channel d MdecOut) AND 0xFFFFFF, mdec1Left := n\<rparr>) m)
             else Some (if mdec1Left (dmar m) > 0 then set_dmar (\<lambda>d. d\<lparr>mdec1Left := 0\<rparr>) m else m)
         | Otc \<Rightarrow>
             do { (pw, d, c) \<leftarrow> otc_clear io (dmar m0) v (mem m0);
                  Some (m0\<lparr>mem := c, dmar := d, pw_irq := (pw_irq m0 \<or> pw)\<rparr>) }
         | Pio \<Rightarrow> Some m)"

definition bus_write :: "('x, 'y) bus_env \<Rightarrow> ('x, 'y) board kernel_env \<Rightarrow> ('x, 'y) console \<Rightarrow> u32 \<Rightarrow> u32 \<Rightarrow> u32 \<Rightarrow> ('x, 'y) console option" where
  "bus_write e g m a v bytes =
     (let p = physical a; io = env_io g in
      case writeIoPeripheral e m a v of
        Some m' \<Rightarrow> Some m'
      | None \<Rightarrow>
          if in_range p 0x1F801800 0x1F80180F then
            do { c \<leftarrow> cdc_write (cd_calls e (rest m)) (cdcRegister p) (ucast v) (cdc m);
                 Some (irqStatLatch e (set_cdc c m)) }
          else if p = 0x1F801810 then Some (set_rest (gpu_gp0 e v (rest m)) m)
          else if p = 0x1F801814 then gpu_gp1 e v m
          else if p = 0x1F801820 \<or> p = 0x1F801824 then mdec_pump_pending e io (set_rest (mdec_write e p v (rest m)) m)
          else
            let m0 = (if p = 0x1F801DA6 then set_dmar (\<lambda>d. d\<lparr>spuXferAddr := push_bit 3 (v AND 0xFFFF)\<rparr>) m else m)
            in if in_range p 0x1F801C00 0x1F801FFF then Some (set_rest (spu_write e p v (rest m0)) m0)
               else
                 (case channel_register p of
                    Some (ch, Madr) \<Rightarrow> Some (set_channel ch (\<lambda>r. r\<lparr>madr := v\<rparr>) m)
                  | Some (ch, Bcr) \<Rightarrow> Some (set_channel ch (\<lambda>r. r\<lparr>bcr := v\<rparr>) m)
                  | Some (ch, Chcr) \<Rightarrow> write_chcr e g ch v m
                  | None \<Rightarrow>
                      let store = \<lparr>st_address = p, st_value = v, st_width = bytes\<rparr>
                      in if in_range p 0x1F8010F0 0x1F8010F3 then Some (set_dmar (\<lambda>d. d\<lparr>dpcr := storeDpcr (dpcr d) store\<rparr>) m)
                         else if in_range p 0x1F8010F4 0x1F8010F7 then Some (set_dmar (\<lambda>d. d\<lparr>dicr := storeDicr (dicr d) store\<rparr>) m)
                         else if ram_range_addr p then None
                         else Some m))"

end
