(* ===== verification/Bus_Laws.thy ===== *)
theory Bus_Laws
  imports Io_Bus Kernel_Laws Cd_Timing
begin

text \<open>
  Laws of the I/O decode: the interrupt latch and its acknowledge, the CD transfer of DMA channel 3, and that the MDEC
  pump returns.
\<close>

section \<open>State access\<close>

lemma board_simps [simp]:
  "sio (set_sio s m) = s" "sio (set_cdc c m) = sio m" "sio (set_rest y m) = sio m"
  "cdc (set_sio s m) = cdc m" "cdc (set_cdc c m) = c" "cdc (set_rest y m) = cdc m"
  "rest (set_sio s m) = rest m" "rest (set_cdc c m) = rest m" "rest (set_rest y m) = y"
  "hle (set_sio s m) = hle m" "hle (set_cdc c m) = hle m" "hle (set_rest y m) = hle m"
  "dmar (set_sio s m) = dmar m" "dmar (set_cdc c m) = dmar m" "dmar (set_rest y m) = dmar m"
  by (simp_all add: sio_def cdc_def rest_def set_sio_def set_cdc_def set_rest_def set_board_def)

lemma raise_simps [simp]:
  "sio (raiseInterrupt b m) = sio m" "cdc (raiseInterrupt b m) = cdc m" "rest (raiseInterrupt b m) = rest m"
  by (simp_all add: raiseInterrupt_def set_hle_def sio_def cdc_def rest_def)

lemma raise_hle [simp]:
  "i_stat (hle (raiseInterrupt b m)) = i_stat (hle m) OR push_bit b 1" "mem (raiseInterrupt b m) = mem m"
  "dmar (raiseInterrupt b m) = dmar m"
  by (simp_all add: raiseInterrupt_def set_hle_def)

lemma set_same: "set_sio (sio m) m = m" "set_cdc (cdc m) m = m"
  by (simp_all add: set_sio_def set_cdc_def set_board_def sio_def cdc_def)

section \<open>Interrupt latch\<close>

lemma sio_service_again: "sio_service now (snd (sio_service now s)) = (False, snd (sio_service now s))"
  by (simp add: sio_service_def Let_def)

lemma latch_frame [simp]:
  "rest (irqStatLatch e m) = rest m" "sio (irqStatLatch e m) = snd (sio_service (ticks e (rest m)) (sio m))"
  "\<not> irq_edge (cdc (irqStatLatch e m))"
  by (auto simp: irqStatLatch_def with_sio_def Let_def)

lemma latch_cdc: "cdc (irqStatLatch e m) = (cdc m)\<lparr>irq_edge := False\<rparr>"
proof -
  have "\<not> irq_edge k \<Longrightarrow> k = k\<lparr>irq_edge := False\<rparr>" for k :: "'a cdc" by (cases k) simp
  then show ?thesis by (simp add: irqStatLatch_def with_sio_def Let_def)
qed

lemma latch_settled:
  assumes "sio m = snd (sio_service (ticks e (rest m)) s)" and "\<not> irq_edge (cdc m)"
  shows "irqStatLatch e m = m"
proof -
  have "with_sio (sio_service (ticks e (rest m)) (sio m)) m = m"
    using set_same(1) [of m] by (simp add: with_sio_def assms(1) sio_service_again)
  then show ?thesis using assms(2) by (subst irqStatLatch_def) simp
qed

lemma latch_again: "irqStatLatch e (irqStatLatch e m) = irqStatLatch e m"
  by (rule latch_settled) simp_all

lemma latch_bits:
  "bit (i_stat (hle (irqStatLatch e m))) k \<longleftrightarrow>
     bit (i_stat (hle m)) k \<or> k = IRQ_BIT_CD \<and> irq_edge (cdc m) \<or> k = IRQ_BIT_SIO \<and> fst (sio_service (ticks e (rest m)) (sio m))"
proof -
  have one: "bit (push_bit b 1 :: u32) k \<longleftrightarrow> k = b" if "b < 32" for b using that by (auto simp: bit_exp_iff)
  have "IRQ_BIT_CD < 32" "IRQ_BIT_SIO < 32" by (simp_all add: IRQ_BIT_CD_def IRQ_BIT_SIO_def)
  then have "bit (push_bit IRQ_BIT_CD 1 :: u32) k \<longleftrightarrow> k = IRQ_BIT_CD" "bit (push_bit IRQ_BIT_SIO 1 :: u32) k \<longleftrightarrow> k = IRQ_BIT_SIO"
    using one by blast+
  then show ?thesis by (auto simp: irqStatLatch_def with_sio_def Let_def bit_or_iff)
qed

lemma irq_stat_address: "\<not> in_range kIrqStat 0x1F801040 0x1F80104F"
  by (simp add: in_range_def kIrqStat_def)

text \<open>What one access that latches does to the machine: the edges are consumed, and nothing but the latch and the SIO moves.\<close>

lemma latch_machine:
  "irqStatLatch e m =
     (set_hle (\<lambda>h. h\<lparr>i_stat := i_stat (hle (irqStatLatch e m))\<rparr>)
        (set_cdc ((cdc m)\<lparr>irq_edge := False\<rparr>) (set_sio (snd (sio_service (ticks e (rest m)) (sio m))) m)))
     \<lparr>pw_irq := (pw_irq m \<or> irq_edge (cdc m) \<or> fst (sio_service (ticks e (rest m)) (sio m)))\<rparr>"
proof -
  have same: "\<not> irq_edge k \<Longrightarrow> k\<lparr>irq_edge := False\<rparr> = k" for k :: "'a cdc" by (cases k) simp
  have keep: "set_cdc (cdc m) (set_sio s m) = set_sio s m" for s
    using set_same(2) [of "set_sio s m"] by simp
  show ?thesis
    by (auto simp: irqStatLatch_def with_sio_def raiseInterrupt_def set_hle_def Let_def set_cdc_def set_sio_def set_board_def same cdc_def sio_def)
qed

text \<open>
  C11: I_STAT loses no interrupt and counts none twice. A read returns the bits that were set and those whose edge arrived
  since the last access, and takes the edges: the controller's is cleared and the serial port's serviced, and nothing else of
  the machine moves but the dispatcher's wake-up. Another read then returns the same and changes nothing. A store clears
  just the bits it writes as zero, keeping an edge that arrived between the read and the store; a bit cleared so does not come
  back from an edge already taken, whether it is read or written next.
\<close>

theorem irq_stat_exact:
  assumes "physical a = kIrqStat"
  shows "\<exists>s m1 m2. bus_read e io m a = Some (s, m1) \<and>
    (\<forall>k. bit s k \<longleftrightarrow> bit (i_stat (hle m)) k \<or> k = IRQ_BIT_CD \<and> irq_edge (cdc m) \<or>
       k = IRQ_BIT_SIO \<and> fst (sio_service (ticks e (rest m)) (sio m))) \<and>
    m1 = (set_hle (\<lambda>h. h\<lparr>i_stat := s\<rparr>)
        (set_cdc ((cdc m)\<lparr>irq_edge := False\<rparr>) (set_sio (snd (sio_service (ticks e (rest m)) (sio m))) m)))
      \<lparr>pw_irq := (pw_irq m \<or> irq_edge (cdc m) \<or> fst (sio_service (ticks e (rest m)) (sio m)))\<rparr> \<and>
    bus_read e io m1 a = Some (s, m1) \<and>
    bus_write e g m a v n = Some m2 \<and> (\<forall>k. bit (i_stat (hle m2)) k \<longleftrightarrow> bit s k \<and> bit v k \<and> k < 11) \<and>
    m2 = set_hle (\<lambda>h. h\<lparr>i_stat := i_stat (hle m2)\<rparr>) m1 \<and>
    bus_read e io m2 a = Some (i_stat (hle m2), m2) \<and>
    bus_write e g m1 a v n = Some m2"
proof -
  let ?L = "irqStatLatch e m" and ?w = "v AND 0x7FF"
  let ?m2 = "set_hle (\<lambda>h. h\<lparr>i_stat := i_stat h AND ?w\<rparr>) ?L"
  have r: "bus_read e io m' a = Some (i_stat (hle (irqStatLatch e m')), irqStatLatch e m')" for m'
    using irq_stat_address assms by (simp add: bus_read_def readIoPeripheral_def Let_def)
  have w: "bus_write e g m' a v n = Some (set_hle (\<lambda>h. h\<lparr>i_stat := i_stat h AND ?w\<rparr>) (irqStatLatch e m'))" for m'
    using irq_stat_address assms by (simp add: bus_write_def writeIoPeripheral_def Let_def)
  have m11: "(0x7FF :: u32) = mask 11" by (simp add: mask_eq_exp_minus_1)
  have bits: "bit (i_stat (hle ?L) AND ?w) k \<longleftrightarrow> bit (i_stat (hle ?L)) k \<and> bit v k \<and> k < 11" for k
    unfolding m11 bit_and_iff bit_mask_iff by (auto dest: bit_imp_le_length)
  have "sio ?m2 = sio ?L" "cdc ?m2 = cdc ?L" "rest ?m2 = rest ?L" by (simp_all add: set_hle_def sio_def cdc_def rest_def)
  then have again: "irqStatLatch e ?m2 = ?m2" by (intro latch_settled [where s = "sio m"]) simp_all
  have m2: "?m2 = set_hle (\<lambda>h. h\<lparr>i_stat := i_stat (hle ?m2)\<rparr>) ?L" by (simp add: set_hle_def)
  have i2: "i_stat (hle ?m2) = i_stat (hle ?L) AND ?w" by (simp add: set_hle_def)
  have first: "bus_read e io m a = Some (i_stat (hle ?L), ?L)" by (rule r)
  have second: "bus_read e io ?L a = Some (i_stat (hle ?L), ?L)" using r [of ?L] by (simp only: latch_again)
  have stores: "bus_write e g m a v n = Some ?m2" "bus_write e g ?L a v n = Some ?m2"
    using w [of m] w [of ?L] by (simp_all only: latch_again)
  have last: "bus_read e io ?m2 a = Some (i_stat (hle ?m2), ?m2)" using r [of ?m2] by (simp only: again)
  have bits2: "bit (i_stat (hle ?m2)) k \<longleftrightarrow> bit (i_stat (hle ?L)) k \<and> bit v k \<and> k < 11" for k by (simp only: i2 bits)
  show ?thesis
    by (intro exI [of _ "i_stat (hle ?L)"] exI [of _ ?L] exI [of _ ?m2] conjI allI)
      (rule first latch_bits latch_machine second stores bits2 m2 last)+
qed

section \<open>Words into RAM\<close>

lemma mem_w32_dev:
  assumes "unat a + 4 \<le> 0x200000" and "\<not> displayPassArmed c" and "mem_w32_unnotified io c a v = Some c'"
  shows "dev c' = dev c"
  using writeGuestMemory_mapped [OF ram_host_ptr [OF assms(1)] assms(2), of io False v] assms(3)
  by (auto simp: mem_w32_unnotified_def frame_simps)

lemma unat_slot: "unat a + 4 * n \<le> 0x200000 \<Longrightarrow> i \<le> n \<Longrightarrow> unat (a + of_nat i * 4 :: u32) = unat a + 4 * i"
proof -
  assume "unat a + 4 * n \<le> 0x200000" and "i \<le> n"
  then have l: "unat a + 4 * i < 2 ^ 32" by simp
  have "unat (of_nat (4 * i) :: u32) = 4 * i" using l by (intro unat_of_nat_small) simp
  then have u: "unat (of_nat i * 4 :: u32) = 4 * i" by (simp add: mult.commute)
  then show ?thesis using l by (subst unat_add_small) simp_all
qed

lemma write_words_ram:
  assumes "unat a + 4 * length ws \<le> 0x200000" and "\<not> displayPassArmed c"
  shows "\<exists>c'. write_words io a ws c = Some c' \<and> \<not> displayPassArmed c' \<and> dev c' = dev c \<and>
    (\<forall>i<length ws. ram_word c' (a + of_nat i * 4) = ws ! i) \<and>
    (\<forall>b. unat b + 4 \<le> 0x200000 \<longrightarrow> unat b + 4 \<le> unat a \<or> unat a + 4 * length ws \<le> unat b \<longrightarrow> ram_word c' b = ram_word c b)"
  using assms
proof (induction ws arbitrary: a c)
  case (Cons w ws)
  have fit: "unat a + 4 \<le> 0x200000" using Cons.prems(1) by simp
  have a4: "unat (a + 4) = unat a + 4" using unat_slot [of a 1 1] fit by simp
  obtain c1 where c1: "mem_w32_unnotified io c a w = Some c1" "\<not> displayPassArmed c1" "ram_word c1 a = w"
    "\<forall>b. unat b + 4 \<le> 0x200000 \<longrightarrow> unat b + 4 \<le> unat a \<or> unat a + 4 \<le> unat b \<longrightarrow> ram_word c1 b = ram_word c b"
    using mem_w32_ram [OF fit Cons.prems(2)] by blast
  obtain c' where c': "write_words io (a + 4) ws c1 = Some c'" "\<not> displayPassArmed c'" "dev c' = dev c1"
    "\<forall>i<length ws. ram_word c' (a + 4 + of_nat i * 4) = ws ! i"
    "\<forall>b. unat b + 4 \<le> 0x200000 \<longrightarrow> unat b + 4 \<le> unat (a + 4) \<or> unat (a + 4) + 4 * length ws \<le> unat b \<longrightarrow> ram_word c' b = ram_word c1 b"
    using Cons.IH [of "a + 4" c1] Cons.prems(1) c1(2) a4 by auto
  have "ram_word c' a = w" using c'(5) fit c1(3) a4 by simp
  then have "ram_word c' (a + of_nat i * 4) = (w # ws) ! i" if "i < Suc (length ws)" for i
    using that c'(4) by (cases i) (auto simp: algebra_simps)
  moreover have "ram_word c' b = ram_word c b"
    if "unat b + 4 \<le> 0x200000" "unat b + 4 \<le> unat a \<or> unat a + 4 * Suc (length ws) \<le> unat b" for b
    using c'(5) c1(4) that a4 by auto
  ultimately show ?case using c1(1) c' mem_w32_dev [OF fit Cons.prems(2) c1(1)] by simp
qed simp

section \<open>The CD transfer\<close>

text \<open>Publishing a landing observes the machine.\<close>

definition landing_observes :: "('x, 'y) bus_env \<Rightarrow> bool" where
  "landing_observes e \<longleftrightarrow> (\<forall>a b m. mem (publishLanding e a b m) = mem m \<and> dmar (publishLanding e a b m) = dmar m \<and>
     hle (publishLanding e a b m) = hle m)"

lemma ram_word_frame [simp]:
  "ram_word (notifyExecutableWrite c x y) b = ram_word c b" "ram_word (c\<lparr>dev := d\<rparr>) b = ram_word c b"
  "dev (notifyExecutableWrite c x y) = dev c"
  by (simp_all add: ram_word_def notifyExecutableWrite_def copy_in_def)

lemma mem_set_board [simp]:
  "ram_word (mem (set_cdc k m)) b = ram_word (mem m) b" "displayPassArmed (mem (set_cdc k m)) = displayPassArmed (mem m)"
  "ram_word (mem (set_sio s m)) b = ram_word (mem m) b"
  by (simp_all add: set_cdc_def set_sio_def set_board_def)

lemma latch_mem [simp]: "ram_word (mem (irqStatLatch e m)) b = ram_word (mem m) b" "dmar (irqStatLatch e m) = dmar m"
  by (simp_all add: irqStatLatch_def with_sio_def Let_def)

lemma complete_mem [simp]: "mem (complete_channel ch m) = mem m" "hle (complete_channel ch m) = hle m"
  by (simp_all add: complete_channel_def set_channel_def split_def Let_def)

lemma set_channel_mem [simp]: "mem (set_channel ch f m) = mem m" "hle (set_channel ch f m) = hle m"
  "channel (dmar (set_channel ch f m)) ch' = (if ch' = ch then f (channel (dmar m) ch) else channel (dmar m) ch')"
  by (simp_all add: set_channel_def)

lemma channel_cdc [simp]: "cdc (set_channel ch f m) = cdc m" "cdc (complete_channel ch m) = cdc m"
  by (simp_all add: cdc_def)

lemma complete_idle: "chcr (channel (dmar (complete_channel ch m)) ch) AND 0x01000000 = 0"
proof -
  have "channel (snd (dma_completed d c)) = channel d" for d c
    by (simp add: dma_completed_def split: prod.split)
  then show ?thesis by (simp add: complete_channel_def set_channel_def split_def Let_def and.assoc)
qed

lemma land_words_ram:
  assumes "landing_observes e" and "unat a + 4 * length ws \<le> 0x200000" and "\<not> displayPassArmed (mem m)"
  shows "\<exists>m'. land_words e io a ws stop m = Some m' \<and> dev (mem m') = dev (mem m) \<and> dmar m' = dmar m \<and> hle m' = hle m \<and>
    (\<forall>i<length ws. ram_word (mem m') (a + of_nat i * 4) = ws ! i) \<and>
    (\<forall>b. unat b + 4 \<le> 0x200000 \<longrightarrow> unat b + 4 \<le> unat a \<or> unat a + 4 * length ws \<le> unat b \<longrightarrow>
       ram_word (mem m') b = ram_word (mem m) b)"
proof -
  obtain c where c: "write_words io a ws (mem m) = Some c" "dev c = dev (mem m)"
    "\<forall>i<length ws. ram_word c (a + of_nat i * 4) = ws ! i"
    "\<forall>b. unat b + 4 \<le> 0x200000 \<longrightarrow> unat b + 4 \<le> unat a \<or> unat a + 4 * length ws \<le> unat b \<longrightarrow> ram_word c b = ram_word (mem m) b"
    using write_words_ram [OF assms(2,3)] by blast
  let ?m = "publishLanding e a stop (m\<lparr>mem := notifyExecutableWrite c a stop\<rparr>)"
  have "land_words e io a ws stop m = Some ?m" using c(1) by (simp add: land_words_def on_mem_def)
  moreover have "mem ?m = notifyExecutableWrite c a stop" "dmar ?m = dmar m" "hle ?m = hle m"
    using assms(1) by (simp_all add: landing_observes_def)
  ultimately show ?thesis using c(2-4) by simp
qed

text \<open>What the controller hands out: whole words from its cursor on, least significant byte first, then zeros.\<close>

definition fifo_words :: "'x cdc \<Rightarrow> nat \<Rightarrow> nat" where
  "fifo_words c n = (if bfrd c then min n ((length (data c) - data_rd c) div 4) else 0)"

lemma word_of_four:
  "p + 4 \<le> length bs \<Longrightarrow> word_of_bytes (take 4 (drop p bs)) =
     (ucast (bs ! p) OR push_bit 8 (ucast (bs ! (p + 1))) OR push_bit 16 (ucast (bs ! (p + 2))) OR
      push_bit 24 (ucast (bs ! (p + 3))) :: u32)" for bs :: "u8 list"
proof -
  assume "p + 4 \<le> length bs"
  then have "take 4 (drop p bs) = [bs ! p, bs ! (p + 1), bs ! (p + 2), bs ! (p + 3)]"
    by (intro nth_equalityI) (auto simp: less_Suc_eq numeral_eq_Suc)
  then show ?thesis by (simp add: push_bit_or or.assoc)
qed

lemma dma_words_exact:
  defines "k n rd bs \<equiv> min n ((length bs - rd) div 4)"
  shows "length (fst (dma_words n rd bs)) = k n rd bs \<and> snd (dma_words n rd bs) = rd + 4 * k n rd bs \<and>
    (\<forall>i<k n rd bs. fst (dma_words n rd bs) ! i = word_of_bytes (take 4 (drop (rd + 4 * i) bs)))"
  unfolding k_def
proof (induction n rd bs rule: dma_words.induct)
  case (2 n rd bs)
  show ?case
  proof (cases "rd + 4 \<le> length bs")
    case True
    obtain ws rd' where d: "dma_words n (rd + 4) bs = (ws, rd')" by fastforce
    have len: "(length bs - rd) div 4 = Suc ((length bs - (rd + 4)) div 4)" using True by (simp add: div_if)
    have IH: "length ws = min n ((length bs - (rd + 4)) div 4)" "rd' = rd + 4 + 4 * length ws"
      "\<forall>i<length ws. ws ! i = word_of_bytes (take 4 (drop (rd + 4 + 4 * i) bs))"
      using "2.IH" [OF True refl] d by simp_all
    have step: "dma_words (Suc n) rd bs = (word_of_bytes (take 4 (drop rd bs)) # ws, rd')"
      using True d by (simp add: word_of_four Let_def)
    have k: "min (Suc n) ((length bs - rd) div 4) = Suc (length ws)" using len IH(1) by simp
    have "(word_of_bytes (take 4 (drop rd bs)) # ws) ! i = word_of_bytes (take 4 (drop (rd + 4 * i) bs))" if "i < Suc (length ws)" for i
      using that IH(3) by (cases i) (simp_all add: algebra_simps)
    then show ?thesis unfolding k step using IH(2) by simp
  next
    case False
    then have "(length bs - rd) div 4 = 0" by simp
    then show ?thesis using False by simp
  qed
qed simp

lemma dmaRead_exact:
  fixes n :: int and c :: "'x cdc"
  assumes "0 < n"
  defines "got \<equiv> fifo_words c (nat n)" and "r \<equiv> dmaRead n c"
  shows "length (fst (fst r)) = nat n"
    and "i < nat n \<Longrightarrow> fst (fst r) ! i = (if i < got then word_of_bytes (take 4 (drop (data_rd c + 4 * i) (data c))) else 0)"
    and "snd r = (if got \<noteq> 0 \<and> length (data c) \<le> data_rd c + 4 * got then c\<lparr>data := [], data_rd := 0, bfrd := False\<rparr>
      else c\<lparr>data_rd := data_rd c + 4 * got\<rparr>)"
proof -
  have same: "c\<lparr>data_rd := data_rd c\<rparr> = c" by simp
  obtain ws rd where d: "dma_words (nat n) (data_rd c) (data c) = (ws, rd)" by fastforce
  note e = dma_words_exact [of "nat n" "data_rd c" "data c", unfolded d fst_conv snd_conv]
  show "length (fst (fst r)) = nat n"
    using assms(1) e d by (auto simp: r_def dmaRead_def Let_def)
  show "fst (fst r) ! i = (if i < got then word_of_bytes (take 4 (drop (data_rd c + 4 * i) (data c))) else 0)" if "i < nat n"
  proof -
    have "(ws @ replicate (nat n - length ws) 0) ! i = (if i < length ws then ws ! i else 0)" using that by (simp add: nth_append)
    then show ?thesis using assms(1) e d that by (auto simp: r_def dmaRead_def got_def fifo_words_def Let_def)
  qed
  show "snd r = (if got \<noteq> 0 \<and> length (data c) \<le> data_rd c + 4 * got then c\<lparr>data := [], data_rd := 0, bfrd := False\<rparr>
      else c\<lparr>data_rd := data_rd c + 4 * got\<rparr>)"
    using assms(1) e d same by (auto simp: r_def dmaRead_def got_def fifo_words_def sectorConsumed_def Let_def)
qed

lemma complete_dmar:
  "dmar (complete_channel ch m) = snd (dma_completed (dmar (set_channel ch (\<lambda>r. r\<lparr>chcr := chcr r AND NOT 0x01000000\<rparr>) m)) ch)"
  by (simp add: complete_channel_def Let_def split: prod.split)

lemma completed_channel: "channel (snd (dma_completed d ch)) = channel d"
  by (simp add: dma_completed_def split: prod.split)

text \<open>
  C25: Starting DMA channel 3 in block mode moves the words the CD controller has, one after the other, to the RAM at MADR:
  word by word the bytes of its sector FIFO from its cursor on, least significant first, and zeros where the FIFO has no whole
  word left or is not open to the host. Every other word of RAM keeps its value. The controller's cursor has passed those words,
  a FIFO read to its end is closed and empty, its edge is taken, and nothing else of it changes. Of the DMA registers the
  channel keeps its address and count and is no longer busy, every other channel is as it was, and the completion flag is set
  the way a completion sets it.
\<close>

theorem cd_dma_lands:
  assumes "physical a = 0x1F8010B8" and "v AND 0x01000000 \<noteq> 0" and "syncMode v \<noteq> 2" and "landing_observes e"
    and "n = dma_block_words (bcr (channel (dmar m) Cdrom))" and "0 < n" and "n \<le> 0x10000"
    and "da = madr (channel (dmar m) Cdrom) AND 0x1FFFFC" and "unat da + 4 * nat n \<le> 0x200000"
    and "\<not> displayPassArmed (mem m)" and "got = fifo_words (cdc m) (nat n)"
  shows "\<exists>m'. bus_write e g m a v bytes = Some m' \<and>
    (\<forall>i<nat n. ram_word (mem m') (da + of_nat i * 4) =
       (if i < got then word_of_bytes (take 4 (drop (data_rd (cdc m) + 4 * i) (data (cdc m)))) else 0)) \<and>
    (\<forall>b. unat b + 4 \<le> 0x200000 \<longrightarrow> unat b + 4 \<le> unat da \<or> unat da + 4 * nat n \<le> unat b \<longrightarrow>
       ram_word (mem m') b = ram_word (mem m) b) \<and>
    cdc m' = (if got \<noteq> 0 \<and> length (data (cdc m)) \<le> data_rd (cdc m) + 4 * got
      then (cdc m)\<lparr>data := [], data_rd := 0, bfrd := False, irq_edge := False\<rparr>
      else (cdc m)\<lparr>data_rd := data_rd (cdc m) + 4 * got, irq_edge := False\<rparr>) \<and>
    channel (dmar m') = (channel (dmar m))(Cdrom := (channel (dmar m) Cdrom)\<lparr>chcr := v AND NOT 0x01000000\<rparr>) \<and>
    dmar m' = snd (dma_completed ((dmar m)\<lparr>channel := channel (dmar m')\<rparr>) Cdrom)"
proof -
  let ?io = "env_io g" and ?m0 = "set_channel Cdrom (\<lambda>r. r\<lparr>chcr := v\<rparr>) m"
  obtain ws w k where d: "dmaRead n (cdc m) = ((ws, w), k)" by (metis prod.exhaust)
  note r = dmaRead_exact [OF assms(6), where c = "cdc m", unfolded d fst_conv snd_conv, folded assms(11)]
  have c0: "cdc ?m0 = cdc m" by (simp add: cdc_def)
  obtain m1 where m1: "land_words e ?io da ws (da + of_int n * 4) (set_cdc k ?m0) = Some m1"
    "dev (mem m1) = dev (mem (set_cdc k ?m0))" "dmar m1 = dmar (set_cdc k ?m0)"
    "\<forall>i<nat n. ram_word (mem m1) (da + of_nat i * 4) = ws ! i"
    "\<forall>b. unat b + 4 \<le> 0x200000 \<longrightarrow> unat b + 4 \<le> unat da \<or> unat da + 4 * nat n \<le> unat b \<longrightarrow> ram_word (mem m1) b = ram_word (mem m) b"
    using land_words_ram [OF assms(4), of da ws "set_cdc k ?m0" ?io "da + of_int n * 4"] assms(9,10) r(1) by auto
  have b: "block_in e ?io da n ?m0 = Some m1"
    using m1(1) r(1) assms(6,7) d c0 by (simp add: block_in_def kDmaBuffer_def min_absorb2)
  let ?m2 = "complete_channel Cdrom (irqStatLatch e (set_channel Cdrom (\<lambda>r. r\<lparr>chcr := chcr r AND NOT 0x01000000\<rparr>) m1))"
  have "start_dma3 e ?io v ?m0 = Some ?m2"
    using assms(3,5,8) b by (simp add: start_dma3_def Let_def)
  moreover have "writeIoPeripheral e m a v = None" "channel_register 0x1F8010B8 = Some (Cdrom, Chcr)"
    using assms(1) by (simp_all add: writeIoPeripheral_def in_range_def kIrqStat_def kIrqMask_def kCounter1Value_def channel_register_def Let_def)
  ultimately have w: "bus_write e g m a v bytes = Some ?m2"
    using assms(1,2) by (simp add: bus_write_def write_chcr_def in_range_def Let_def)
  have "cdc m1 = k" using m1(2) board_simps(5) [of k ?m0] by (simp add: cdc_def)
  then have c: "cdc ?m2 = k\<lparr>irq_edge := False\<rparr>" by (simp add: latch_cdc)
  define d0 where "d0 = (dmar m)\<lparr>channel := (channel (dmar m))(Cdrom := (channel (dmar m) Cdrom)\<lparr>chcr := v AND NOT 0x01000000\<rparr>)\<rparr>"
  have dm: "dmar ?m2 = snd (dma_completed d0 Cdrom)"
    by (simp add: complete_dmar d0_def m1(3) set_channel_def and.assoc)
  then have ch: "channel (dmar ?m2) = channel d0" by (simp add: completed_channel)
  have "ram_word (mem ?m2) (da + of_nat i * 4) =
      (if i < got then word_of_bytes (take 4 (drop (data_rd (cdc m) + 4 * i) (data (cdc m)))) else 0)" if "i < nat n" for i
    using m1(4) r(2) that by simp
  moreover have "cdc ?m2 = (if got \<noteq> 0 \<and> length (data (cdc m)) \<le> data_rd (cdc m) + 4 * got
      then (cdc m)\<lparr>data := [], data_rd := 0, bfrd := False, irq_edge := False\<rparr>
      else (cdc m)\<lparr>data_rd := data_rd (cdc m) + 4 * got, irq_edge := False\<rparr>)"
    unfolding c r(3) by simp
  moreover have "dmar ?m2 = snd (dma_completed ((dmar m)\<lparr>channel := channel (dmar ?m2)\<rparr>) Cdrom)"
    unfolding ch using dm by (simp add: d0_def)
  ultimately show ?thesis using w m1(5) ch by (intro exI [of _ ?m2]) (simp add: d0_def)
qed


section \<open>The MDEC pump\<close>

text \<open>A decoder that says it can take input takes at least one word of what it is offered, and no more than that.\<close>

definition decoder_takes :: "('x, 'y) bus_env \<Rightarrow> bool" where
  "decoder_takes e \<longleftrightarrow> (\<forall>y ws. mdec_canWrite e y \<longrightarrow> ws \<noteq> [] \<longrightarrow> 0 < fst (mdec_dmaIn e ws y) \<and> fst (mdec_dmaIn e ws y) \<le> int (length ws))"

definition able :: "('x, 'y) bus_env \<Rightarrow> ('x, 'y) console \<Rightarrow> bool" where
  "able e m \<longleftrightarrow> 0 < mdec0Left (dmar m) \<and> mdec_canWrite e (rest m) \<or> 0 < mdec1Left (dmar m) \<and> mdec_canRead e (rest m)"

text \<open>What a step of the pump keeps: counts that are not negative and never grow, memory open to stores.\<close>

definition pump_ok :: "('x, 'y) console \<Rightarrow> ('x, 'y) console \<Rightarrow> bool" where
  "pump_ok m m' \<longleftrightarrow> \<not> displayPassArmed (mem m') \<and> 0 \<le> mdec0Left (dmar m') \<and> 0 \<le> mdec1Left (dmar m') \<and>
     mdec0Left (dmar m') \<le> mdec0Left (dmar m) \<and> mdec1Left (dmar m') \<le> mdec1Left (dmar m)"

definition work_left :: "('x, 'y) console \<Rightarrow> int" where
  "work_left m = mdec0Left (dmar m) + mdec1Left (dmar m)"

lemma pump_ok_trans: "pump_ok m m1 \<Longrightarrow> pump_ok m1 m2 \<Longrightarrow> pump_ok m m2"
  by (auto simp: pump_ok_def)

lemma read_words_ram:
  "\<exists>ws. read_words io (\<lambda>k. f k AND 0x1FFFFC) ks c = Some (ws, c) \<and> length ws = length ks"
  by (induction ks) (auto simp: mem_r32_ram unat_dma_mask)

lemma on_rest_eq: "on_rest f m = (fst (f (rest m)), set_rest (snd (f (rest m))) m)"
  by (simp add: on_rest_def split_def Let_def)

lemma set_rest_mem [simp]: "displayPassArmed (mem (set_rest y m)) = displayPassArmed (mem m)"
  by (simp add: set_rest_def set_board_def)

lemma set_dmar_simps [simp]: "mem (set_dmar f m) = mem m" "dmar (set_dmar f m) = f (dmar m)"
  by (simp_all add: set_dmar_def)

lemma rest_set_dmar [simp]: "rest (set_dmar f m) = rest m"
  by (simp add: rest_def)

lemma feed_mdec_ok:
  assumes "decoder_takes e" and "pump_ok m m"
  shows "\<exists>p m'. feed_mdec e io p0 m = Some (p, m') \<and> pump_ok m m' \<and> mdec1Left (dmar m') = mdec1Left (dmar m) \<and>
    (if 0 < mdec0Left (dmar m) \<and> mdec_canWrite e (rest m) then p \<and> mdec0Left (dmar m') < mdec0Left (dmar m) else p = p0 \<and> m' = m)"
  using assms(2)
proof (induction "nat (mdec0Left (dmar m))" arbitrary: p0 m rule: less_induct)
  case less
  show ?case
  proof (cases "0 < mdec0Left (dmar m) \<and> mdec_canWrite e (rest m)")
    case False
    then show ?thesis using less.prems by (subst feed_mdec.simps) auto
  next
    case True
    define chunk where "chunk = min (mdec0Left (dmar m)) 0x10"
    have ch: "0 < chunk" using True by (simp add: chunk_def)
    obtain ws where ws: "read_words io (\<lambda>k. (mdec0Addr (dmar m) + of_nat k * 4) AND 0x1FFFFC) [0..<nat chunk] (mem m) = Some (ws, mem m)"
      "length ws = nat chunk" using read_words_ram [of io "\<lambda>k. mdec0Addr (dmar m) + of_nat k * 4" "[0..<nat chunk]" "mem m"] by auto
    define fed where "fed = fst (mdec_dmaIn e ws (rest m))"
    have "ws \<noteq> []" using ws(2) ch by auto
    then have "0 < fed \<and> fed \<le> int (length ws)" using assms(1) True by (simp add: decoder_takes_def fed_def)
    then have fed: "0 < fed" "fed \<le> chunk" using ws(2) ch by simp_all
    define m2 where "m2 = set_dmar (\<lambda>d. d\<lparr>mdec0Addr := (mdec0Addr d + of_int fed * 4) AND 0xFFFFFF,
        mdec0Left := mdec0Left (dmar m) - fed\<rparr>) (set_rest (snd (mdec_dmaIn e ws (rest m))) m)"
    have step: "feed_mdec e io p0 m = (if fed < chunk then Some (p0 \<or> 0 < fed, m2) else feed_mdec e io (p0 \<or> 0 < fed) m2)"
      using True ws(1) by (subst feed_mdec.simps) (simp add: chunk_def [symmetric] on_rest_eq fed_def m2_def Let_def)
    have m2: "pump_ok m m2" "mdec0Left (dmar m2) < mdec0Left (dmar m)" "mdec1Left (dmar m2) = mdec1Left (dmar m)"
      using less.prems fed by (auto simp: pump_ok_def m2_def chunk_def)
    have "pump_ok m2 m2" using m2(1) by (simp add: pump_ok_def)
    from less.hyps [OF _ this, of "True"] m2(2) True obtain p m' where m': "feed_mdec e io True m2 = Some (p, m')" "pump_ok m2 m'"
      "mdec1Left (dmar m') = mdec1Left (dmar m2)" "p"
      by (fastforce split: if_splits)
    show ?thesis
    proof (cases "fed < chunk")
      case short: True
      then show ?thesis using step m2 fed(1) True by auto
    next
      case False
      then have "feed_mdec e io p0 m = Some (p, m')" using step m'(1) fed(1) by simp
      moreover have "mdec0Left (dmar m') < mdec0Left (dmar m)" using m'(2) m2(2) by (simp add: pump_ok_def)
      ultimately show ?thesis using pump_ok_trans [OF m2(1) m'(2)] m'(3,4) m2(3) True by auto
    qed
  qed
qed

lemma burst_loop_ok:
  "\<not> displayPassArmed (mem m) \<Longrightarrow> \<exists>l h m'. burst_loop e io n low high m = Some (l, h, m') \<and> \<not> displayPassArmed (mem m') \<and>
     mdec0Left (dmar m') = mdec0Left (dmar m) \<and> mdec1Left (dmar m') = mdec1Left (dmar m) \<and> channel (dmar m') = channel (dmar m)"
proof (induction n arbitrary: low high m)
  case (Suc n)
  obtain val offs where r: "fst (mdec_dmaReadWord e (rest m)) = (val, offs)" by fastforce
  define m1 where "m1 = set_rest (snd (mdec_dmaReadWord e (rest m))) m"
  define dest where "dest = (mdec1Addr (dmar m) + push_bit 2 offs) AND 0x1FFFFC"
  have "\<not> displayPassArmed (mem m1)" using Suc.prems by (simp add: m1_def)
  then obtain c where c: "mem_w32_unnotified io (mem m1) dest val = Some c" "\<not> displayPassArmed c"
    using mem_w32_ram [OF unat_dma_mask(1)] unfolding dest_def by blast
  let ?m = "set_dmar (\<lambda>d. d\<lparr>mdec1Addr := (mdec1Addr d + 4) AND 0xFFFFFF\<rparr>) (m1\<lparr>mem := c\<rparr>)"
  have "burst_loop e io (Suc n) low high m = burst_loop e io n (min dest low) (max dest high) ?m"
    using r c(1) by (simp add: on_rest_eq Let_def on_mem_def m1_def dest_def)
  moreover have "\<not> displayPassArmed (mem ?m)" using c(2) by simp
  ultimately show ?case using Suc.IH [of ?m "min dest low" "max dest high"] by (auto simp: m1_def)
qed simp


lemma drain_mdec_ok:
  assumes "pump_ok m m"
  shows "\<exists>p m'. drain_mdec e io (mdec1Left (dmar m)) p0 m = Some (p, m') \<and> pump_ok m m' \<and> mdec0Left (dmar m') = mdec0Left (dmar m) \<and>
    (if 0 < mdec1Left (dmar m) \<and> mdec_canRead e (rest m) then p \<and> mdec1Left (dmar m') < mdec1Left (dmar m) else p = p0 \<and> m' = m)"
  using assms
proof (induction "nat (mdec1Left (dmar m))" arbitrary: p0 m rule: less_induct)
  case less
  let ?left = "mdec1Left (dmar m)"
  show ?case
  proof (cases "0 < ?left \<and> mdec_canRead e (rest m)")
    case False
    then show ?thesis using less.prems by (subst drain_mdec.simps) auto
  next
    case True
    define n where "n = uint (bcr (channel (dmar m) MdecOut) AND 0xFFFF)"
    define burst where "burst = min (if n = 0 then 0x10000 else n) ?left"
    have "0 \<le> n" by (simp add: n_def)
    then have b: "0 < burst" "burst \<le> ?left" using True by (auto simp: burst_def)
    obtain l h m1 where m1: "burst_loop e io (nat burst) 0xFFFFFFFF 0 m = Some (l, h, m1)" "\<not> displayPassArmed (mem m1)"
      "mdec0Left (dmar m1) = mdec0Left (dmar m)"
      using burst_loop_ok [of m e io "nat burst" "0xFFFFFFFF" 0] less.prems by (auto simp: pump_ok_def)
    define m2 where "m2 = set_dmar (\<lambda>d. d\<lparr>mdec1Left := ?left - burst\<rparr>) (m1\<lparr>mem := notifyExecutableWrite (mem m1) l (h + 4)\<rparr>)"
    have step: "drain_mdec e io ?left p0 m = drain_mdec e io (mdec1Left (dmar m2)) True m2"
      using True m1(1) by (subst drain_mdec.simps) (simp add: Let_def n_def [symmetric] burst_def [symmetric] m2_def)
    have m2: "pump_ok m m2" "mdec1Left (dmar m2) < ?left" "mdec0Left (dmar m2) = mdec0Left (dmar m)"
      using less.prems b m1 by (auto simp: pump_ok_def m2_def notifyExecutableWrite_def)
    have "pump_ok m2 m2" using m2(1) by (simp add: pump_ok_def)
    from less.hyps [OF _ this, of True] m2(2) True obtain p m' where m': "drain_mdec e io (mdec1Left (dmar m2)) True m2 = Some (p, m')"
      "pump_ok m2 m'" "mdec0Left (dmar m') = mdec0Left (dmar m2)" "p"
      by (fastforce split: if_splits)
    moreover have "mdec1Left (dmar m') < ?left" using m'(2) m2(2) by (simp add: pump_ok_def)
    ultimately show ?thesis using step pump_ok_trans [OF m2(1) m'(2)] m2(3) True by auto
  qed
qed

lemma retire_ok [simp]:
  "mdec0Left (dmar (retire_mdec ch l m)) = mdec0Left (dmar m)" "mdec1Left (dmar (retire_mdec ch l m)) = mdec1Left (dmar m)"
  "mem (retire_mdec ch l m) = mem m"
  by (simp_all add: retire_mdec_def complete_channel_def dma_completed_def set_channel_def Let_def split: prod.split)

lemma rest_retire [simp]: "rest (retire_mdec ch l m) = rest m"
  by (simp add: rest_def)

text \<open>
  The pump returns, whatever the decoder does, as long as it takes input when it says it can: no state of the two
  channels makes a register access loop forever. What is left of either transfer never grows.
\<close>

theorem mdec_pump_returns:
  assumes "decoder_takes e" and "\<not> displayPassArmed (mem m)" and "0 \<le> mdec0Left (dmar m)" and "0 \<le> mdec1Left (dmar m)"
  shows "\<exists>m'. mdec_dma_pump e io m = Some m' \<and> mdec0Left (dmar m') \<le> mdec0Left (dmar m) \<and> mdec1Left (dmar m') \<le> mdec1Left (dmar m)"
proof -
  have "pump_ok m m" using assms by (simp add: pump_ok_def)
  then have "\<exists>m'. mdec_dma_pump e io m = Some m' \<and> pump_ok m m'"
  proof (induction m rule: wf_induct_rule [OF wf_measures [of "[\<lambda>m. nat (work_left m), \<lambda>m. if able e m then 0 else 1]"]])
    case (1 m)
    note IH = 1(1) and ok = 1(2)
    obtain p0 m1 where f: "feed_mdec e io False m = Some (p0, m1)" "pump_ok m m1" "mdec1Left (dmar m1) = mdec1Left (dmar m)"
      "if 0 < mdec0Left (dmar m) \<and> mdec_canWrite e (rest m) then p0 \<and> mdec0Left (dmar m1) < mdec0Left (dmar m) else p0 = False \<and> m1 = m"
      using feed_mdec_ok [OF assms(1) ok, of io False] by blast
    have ok1: "pump_ok m1 m1" using f(2) by (simp add: pump_ok_def)
    obtain p1 m2 where d: "drain_mdec e io (mdec1Left (dmar m1)) p0 m1 = Some (p1, m2)" "pump_ok m1 m2" "mdec0Left (dmar m2) = mdec0Left (dmar m1)"
      "if 0 < mdec1Left (dmar m1) \<and> mdec_canRead e (rest m1) then p1 \<and> mdec1Left (dmar m2) < mdec1Left (dmar m1) else p1 = p0 \<and> m2 = m1"
      using drain_mdec_ok [OF ok1, of e io p0] by blast
    define m4 where "m4 = retire_mdec MdecOut (mdec1Left (dmar (retire_mdec MdecIn (mdec0Left (dmar m2)) m2))) (retire_mdec MdecIn (mdec0Left (dmar m2)) m2)"
    define m5 where "m5 = set_rest (mdec_step e (rest m4)) m4"
    have run: "mdec_dma_pump e io m =
        (if mdec0Left (dmar m4) = 0 \<and> mdec1Left (dmar m4) = 0 then Some m4
         else if p1 then mdec_dma_pump e io m4
         else if able e m5 then mdec_dma_pump e io m5 else Some (snd (on_rest (mdec_read e 0x1F801824) m5)))"
      using f(1) d(1) by (subst mdec_dma_pump.simps) (simp add: Let_def m4_def m5_def able_def)
    have ok4: "pump_ok m m4" using pump_ok_trans [OF f(2) d(2)] by (simp add: pump_ok_def m4_def)
    then have ok5: "pump_ok m m5" by (simp add: pump_ok_def m5_def)
    have self: "pump_ok m4 m4" "pump_ok m5 m5" using ok4 ok5 by (simp_all add: pump_ok_def)
    have moved: "work_left m4 < work_left m" if p1
      using f(2-4) d(2-4) that by (auto simp: work_left_def m4_def pump_ok_def split: if_splits)
    have idle: "\<not> able e m \<and> work_left m5 = work_left m" if "\<not> p1"
      using f(4) d(4) that by (auto simp: able_def work_left_def m5_def m4_def split: if_splits)
    have "0 \<le> work_left m4" using ok4 by (simp add: work_left_def pump_ok_def)
    have next4: "\<exists>m'. mdec_dma_pump e io m4 = Some m' \<and> pump_ok m4 m'" if p1
      using moved [OF that] \<open>0 \<le> work_left m4\<close> self(1) by (intro IH) auto
    have next5: "\<exists>m'. mdec_dma_pump e io m5 = Some m' \<and> pump_ok m5 m'" if "\<not> p1" "able e m5"
      using idle [OF that(1)] that(2) self(2) by (intro IH) auto
    have "pump_ok m (snd (on_rest (mdec_read e 0x1F801824) m5))" using ok5 by (simp add: on_rest_eq pump_ok_def)
    then show ?case unfolding run using next4 next5 ok4 ok5 pump_ok_trans by auto
  qed
  then show ?thesis by (auto simp: pump_ok_def)
qed


section \<open>Witnesses\<close>

text \<open>A console whose decoder takes a fixed number of words and gives none; its state is how many it still takes.\<close>

definition still_bus :: "(unit, nat) bus_env" where
  "still_bus = \<lparr>ticks = (\<lambda>_. 1000), pad_buttons = (\<lambda>_. 0xFFFF), cd_calls = (\<lambda>_. quiet_env 1000), gpu_status = (\<lambda>y. (0, y)),
     gpu_read = (\<lambda>y. (0, y)), gpu_gp0 = (\<lambda>_ y. y), gpu_gp1 = (\<lambda>_. Some), dma2LinkedList = (\<lambda>_. Some), dma2Block = (\<lambda>_ _ _. Some),
     mdec_canWrite = (\<lambda>y. 0 < y), mdec_canRead = (\<lambda>_. False),
     mdec_dmaIn = (\<lambda>ws y. (int (min (length ws) y), y - length ws)), mdec_dmaReadWord = (\<lambda>y. ((0, 0), y)),
     mdec_step = (\<lambda>y. y), mdec_read = (\<lambda>_ y. (0, y)), mdec_write = (\<lambda>_ _ y. y), spu_read = (\<lambda>_ y. (0, y)), spu_write = (\<lambda>_ _ y. y),
     spu_dmaWrite = (\<lambda>_ y. y), spu_dmaRead = (\<lambda>_ y. ([], y)), hSyncCounter = (\<lambda>y. (0, y)), hSyncCounterWrite = (\<lambda>_ y. y),
     rootCounter2 = (\<lambda>_ y. (0, y)), rootCounter2Write = (\<lambda>_ _ y. y), publishLanding = (\<lambda>_ _ m. m)\<rparr>"

definition bus_io :: "(unit, nat) board io_ops" where
  "bus_io = \<lparr>io_read = (\<lambda>_ _ _. None), io_write = (\<lambda>_ _ _ _. None)\<rparr>"

definition still_kernel :: "(unit, nat) board kernel_env" where
  "still_kernel = \<lparr>env_io = bus_io, run_guest = (\<lambda>_ _. None), run_exit = (\<lambda>_ _. None), latch = irqStatLatch still_bus,
     guest_table = None, cd_path = False, cd_deliver = (\<lambda>m. Some (False, m)), memcard_A0 = (\<lambda>_ m. Some (False, m)),
     memcard_B0 = (\<lambda>_ m. Some (False, m)), load_exec = (\<lambda>m. Some (False, m)), guest_printf = Some\<rparr>"

definition still_console :: "(unit, nat) console" where
  "still_console = \<lparr>mem = \<lparr>ram = (\<lambda>_. 0), scratch = (\<lambda>_. 0), writeRollback = writeRollback blank_core, displayPassArmed = False,
     storeLog = [], execWrites = [],
     dev = \<lparr>b_sio = sio_initial, b_cdc = blank_cdc\<lparr>irq_edge := True, bfrd := True, data := [1, 2, 3, 4, 5, 6, 7, 8]\<rparr>, b_rest = 40\<rparr>\<rparr>,
     cpu = cpu idle_machine, cop0 = cop0 idle_machine, hle = idle_hle, dmar = idle_dma\<lparr>mdec0Left := 100\<rparr>,
     dma_callbacks = (\<lambda>_. 0), pw_irq = False, active_native_address = 0, pending_guest_redirect = 0, exit_requested = False\<rparr>"

definition three_words :: "(unit, nat) console" where
  "three_words = still_console\<lparr>dmar := (dmar still_console)\<lparr>channel :=
     (channel (dmar still_console))(Cdrom := \<lparr>madr = 0x100, bcr = 3, chcr = 0\<rparr>)\<rparr>\<rparr>"

text \<open>The controller's edge is latched by the store that acknowledges it, and is not there on the next read.\<close>

lemma irq_stat_exact_witness:
  "\<exists>s m1 m2. bus_read still_bus bus_io still_console 0x1F801070 = Some (s, m1) \<and> bit s 2 \<and> \<not> irq_edge (cdc m1) \<and>
     bus_write still_bus still_kernel still_console 0x1F801070 0xFFFFFFFB 4 = Some m2 \<and>
     bus_read still_bus bus_io m2 0x1F801070 = Some (i_stat (hle m2), m2) \<and> \<not> bit (i_stat (hle m2)) 2"
proof -
  have "physical 0x1F801070 = kIrqStat" by (simp add: physical_def map_consts kIrqStat_def)
  moreover have "irq_edge (cdc still_console)" by (simp add: still_console_def cdc_def)
  moreover have "\<not> bit (0xFFFFFFFB :: u32) 2" by simp
  ultimately obtain s m1 m2 where "bus_read still_bus bus_io still_console 0x1F801070 = Some (s, m1)" "bit s 2"
    "m1 = (set_hle (\<lambda>h. h\<lparr>i_stat := s\<rparr>) (set_cdc ((cdc still_console)\<lparr>irq_edge := False\<rparr>)
        (set_sio (snd (sio_service (ticks still_bus (rest still_console)) (sio still_console))) still_console)))
      \<lparr>pw_irq := (pw_irq still_console \<or> irq_edge (cdc still_console) \<or>
         fst (sio_service (ticks still_bus (rest still_console)) (sio still_console)))\<rparr>"
    "bus_write still_bus still_kernel still_console 0x1F801070 0xFFFFFFFB 4 = Some m2"
    "bus_read still_bus bus_io m2 0x1F801070 = Some (i_stat (hle m2), m2)" "\<not> bit (i_stat (hle m2)) 2"
    using irq_stat_exact [of "0x1F801070" still_bus bus_io still_console still_kernel "0xFFFFFFFB" 4]
    unfolding IRQ_BIT_CD_def by blast
  moreover from this(3) have "\<not> irq_edge (cdc m1)" by (simp add: cdc_def set_hle_def) (simp add: set_cdc_def set_board_def)
  ultimately show ?thesis by blast
qed

text \<open>Three words are asked for and two are left: the third is zero.\<close>

lemma cd_dma_lands_witness:
  "\<exists>m'. bus_write still_bus still_kernel three_words 0x1F8010B8 0x11000000 4 = Some m' \<and>
    ram_word (mem m') (0x100 + of_nat 1 * 4) = 0x08070605 \<and> ram_word (mem m') (0x100 + of_nat 2 * 4) = 0 \<and>
    data (cdc m') = []"
proof -
  have p: "physical 0x1F8010B8 = 0x1F8010B8" by (simp add: physical_def map_consts)
  have l: "landing_observes still_bus" by (simp add: landing_observes_def still_bus_def)
  have n: "3 = dma_block_words (bcr (channel (dmar three_words) Cdrom))" by (simp add: dma_block_words_def three_words_def)
  have d: "0x100 = madr (channel (dmar three_words) Cdrom) AND 0x1FFFFC" by (simp add: three_words_def)
  have c: "data (cdc three_words) = [1, 2, 3, 4, 5, 6, 7, 8]" "data_rd (cdc three_words) = 0" "bfrd (cdc three_words)"
    by (simp_all add: three_words_def still_console_def cdc_def blank_cdc_def cdc_reset_def)
  have g: "2 = fifo_words (cdc three_words) (nat 3)" by (simp add: fifo_words_def c)
  have u: "(0x11000000 :: u32) AND 0x01000000 \<noteq> 0" "syncMode 0x11000000 \<noteq> 2" "\<not> displayPassArmed (mem three_words)"
    by (simp_all add: syncMode_def three_words_def still_console_def)
  obtain m' where m': "bus_write still_bus still_kernel three_words 0x1F8010B8 0x11000000 4 = Some m'"
    "\<forall>i<nat 3. ram_word (mem m') (0x100 + of_nat i * 4) =
       (if i < 2 then word_of_bytes (take 4 (drop (0 + 4 * i) [1, 2, 3, 4, 5, 6, 7, 8])) else 0)"
    "cdc m' = (cdc three_words)\<lparr>data := [], data_rd := 0, bfrd := False, irq_edge := False\<rparr>"
    using cd_dma_lands [OF p u(1,2) l n _ _ d _ u(3) g, of still_kernel 4] by (auto simp: c)
  have "ram_word (mem m') (0x100 + of_nat 1 * 4) = word_of_bytes (take 4 (drop 4 [1, 2, 3, 4, 5, 6, 7, 8 :: u8]))"
    using m'(2) [THEN spec, of 1] by simp
  moreover have "ram_word (mem m') (0x100 + of_nat 2 * 4) = 0" using m'(2) [THEN spec, of 2] by simp
  ultimately show ?thesis using m'(1,3) by (intro exI [of _ m']) simp
qed

lemma mdec_pump_returns_witness: "\<exists>m'. mdec_dma_pump still_bus bus_io still_console = Some m' \<and> mdec0Left (dmar m') \<le> 100"
proof -
  have "decoder_takes still_bus" by (simp add: decoder_takes_def still_bus_def)
  moreover have "\<not> displayPassArmed (mem still_console)" "mdec0Left (dmar still_console) = 100" "mdec1Left (dmar still_console) = 0"
    by (simp_all add: still_console_def idle_dma_def)
  ultimately show ?thesis using mdec_pump_returns [of still_bus still_console bus_io] by auto
qed

end
