(* ===== verification/Cd_Ready.thy ===== *)
theory Cd_Ready
  imports Bus_Laws
begin

text \<open>
  The ready callback of a title's libcd (\<open>cd/cd_ready_delivery.cpp\<close>, \<open>cd/stock_libcd.h\<close>): when a data-ready completion is
  owed, how the response is taken and acknowledged, and the callback run in an interrupt scope of its own. It is the
  CD handler that \<open>irqPoll\<close> of \<open>Hle_Kernel\<close> calls; with it and the interrupt latch of \<open>Io_Bus\<close> in place, the poll is
  transparent to the code it interrupts. The delivered and declined counters only feed the log and are left out.
\<close>

section \<open>The title's library\<close>

datatype CdReadyDelivery = NotOwned | NothingOwed | Delivered | GuestExited

text \<open>A host-dispatched libcd, and one whose INT1 service is the guest's, with its ready slot and \<open>Completion::status\<close>.\<close>

datatype StockLibcd = HostLibcd | GuestInterruptLibcd u32 u8

fun deliversOnInterrupt :: "StockLibcd \<Rightarrow> bool" where
  "deliversOnInterrupt HostLibcd \<longleftrightarrow> False"
| "deliversOnInterrupt (GuestInterruptLibcd readySlot status) \<longleftrightarrow> readySlot \<noteq> 0"

section \<open>Taking a response\<close>

definition kCdcBankData :: u8 where "kCdcBankData = 0"
definition kCdcBankIrq :: u8 where "kCdcBankIrq = 1"
definition kNoFirstWord :: u32 where "kNoFirstWord = 0"

text \<open>One write with its bank selected before and the saved bank put back after.\<close>

definition banked_write :: "'x cdc_env \<Rightarrow> u8 \<Rightarrow> CdcRegister \<Rightarrow> u8 \<Rightarrow> 'x cdc \<Rightarrow> 'x cdc option" where
  "banked_write g selected r v c =
     do { c1 \<leftarrow> cdc_write g RegIndex selected c;
          c2 \<leftarrow> cdc_write g r v c1;
          cdc_write g RegIndex (ucast (bank c)) c2 }"

definition readyCompletionOwed :: "('x, 'y) console \<Rightarrow> bool" where
  "readyCompletionOwed m \<longleftrightarrow>
     i_stat (hle m) AND i_mask (hle m) AND push_bit IRQ_BIT_CD 1 \<noteq> 0 \<and> currentIrqType (cdc m) = response_code DataReady"

text \<open>The response's type, \<open>n\<close> bytes of it padded with zeros, and the machine after. \<open>takeCurrentResponse\<close> leaves the bank as it was.\<close>

definition acknowledgeCurrentCdResponse ::
  "('x, 'y) bus_env \<Rightarrow> nat \<Rightarrow> ('x, 'y) console \<Rightarrow> ((u8 \<times> u8 list) \<times> ('x, 'y) console) option" where
  "acknowledgeCurrentCdResponse e n m =
     (let type = currentIrqType (cdc m) in
      if type = response_code RespNone then Some ((type, replicate n 0), m)
      else do {
        let ((bs, _), c1) = takeCurrentResponse n (cdc m);
        let m1 = set_hle (\<lambda>h. h\<lparr>i_stat := i_stat h AND NOT (push_bit IRQ_BIT_CD 1)\<rparr>) (set_cdc (c1\<lparr>irq_edge := False\<rparr>) m);
        c2 \<leftarrow> banked_write (cd_calls e (rest m)) kCdcBankIrq RegRequest type (cdc m1);
        Some ((type, bs @ replicate (n - length bs) 0), (irqStatLatch e (set_cdc c2 m1))\<lparr>pw_irq := True\<rparr>) })"

section \<open>The callback\<close>

definition deliverReadyCompletion ::
  "('x, 'y) bus_env \<Rightarrow> ('x, 'y) board kernel_env \<Rightarrow> u32 \<Rightarrow> u32 \<Rightarrow> ('x, 'y) console \<Rightarrow>
    (CdReadyDelivery \<times> ('x, 'y) console) option" where
  "deliverReadyCompletion e g slot status m =
     (if \<not> readyCompletionOwed m \<or> \<not> canDispatchInterrupt m then Some (NothingOwed, m)
      else do {
        (callback, m1) \<leftarrow> (if slot \<noteq> 0 then m_r32 (env_io g) m slot else Some (0, m));
        if callback = 0 then Some (NothingOwed, m1)
        else do {
          (_, m2) \<leftarrow> acknowledgeCurrentCdResponse e 1 m1;
          c \<leftarrow> banked_write (cd_calls e (rest m2)) kCdcBankData RegRequest 0 (cdc m2);
          let m3 = set_cdc c m2;
          (_, m4) \<leftarrow> enterInterruptHandlerContext (env_io g) (exception_exit_buf (hle m3)) (scope_enter m3);
          (ok, m5) \<leftarrow> run_guest g (set_reg kA1 kNoFirstWord (set_reg kA0 status m4)) callback;
          let (returned, m6) = completeOrPropagate ok (scope_leave m3 m5);
          Some (if returned then Delivered else GuestExited, m6) } })"

fun deliverOnInterrupt ::
  "('x, 'y) bus_env \<Rightarrow> ('x, 'y) board kernel_env \<Rightarrow> StockLibcd \<Rightarrow> ('x, 'y) console \<Rightarrow>
    (CdReadyDelivery \<times> ('x, 'y) console) option" where
  "deliverOnInterrupt e g HostLibcd m = Some (NotOwned, m)"
| "deliverOnInterrupt e g (GuestInterruptLibcd readySlot status) m =
     (if \<not> deliversOnInterrupt (GuestInterruptLibcd readySlot status) then Some (NotOwned, m)
      else deliverReadyCompletion e g readySlot (ucast status) m)"

text \<open>
  The kernel over this bus: its latch is the bus's, and its CD handler the bound libcd's. What is left of \<open>g\<close> is guest
  code and the calls that \<open>irqPoll\<close> does not make.
\<close>

definition cd_kernel ::
  "('x, 'y) bus_env \<Rightarrow> ('x, 'y) board kernel_env \<Rightarrow> StockLibcd option \<Rightarrow> ('x, 'y) board kernel_env" where
  "cd_kernel e g libcd =
     g\<lparr>latch := irqStatLatch e,
       cd_path := (case libcd of None \<Rightarrow> False | Some l \<Rightarrow> deliversOnInterrupt l),
       cd_deliver := (\<lambda>m. case libcd of None \<Rightarrow> None
                       | Some l \<Rightarrow> map_option (\<lambda>(r, m1). (r = GuestExited, m1)) (deliverOnInterrupt e g l m))\<rparr>"

section \<open>Transparency\<close>

lemma keeps_board: "keeps m (set_sio s m)" "keeps m (set_cdc c m)" "keeps m (set_hle (\<lambda>h. h\<lparr>i_stat := f h\<rparr>) m)"
  "keeps m (raiseInterrupt b m)"
  by (simp_all add: keeps_def set_sio_def set_cdc_def set_board_def set_hle_def raiseInterrupt_def)

lemma keeps_stat_latch: "keeps m (irqStatLatch e m)"
proof -
  have "keeps m (with_sio r m)" for r
    using keeps_board keeps_trans by (simp add: with_sio_def Let_def split_def) blast
  then show ?thesis using keeps_board keeps_trans unfolding irqStatLatch_def Let_def by (smt (verit))
qed

lemma keeps_acknowledge: "acknowledgeCurrentCdResponse e n m = Some (r, m') \<Longrightarrow> keeps m m'"
proof (cases "currentIrqType (cdc m) = response_code RespNone")
  case False
  assume a: "acknowledgeCurrentCdResponse e n m = Some (r, m')"
  obtain bs k c1 where t: "takeCurrentResponse n (cdc m) = ((bs, k), c1)" by (metis surj_pair)
  let ?m1 = "set_hle (\<lambda>h. h\<lparr>i_stat := i_stat h AND NOT (push_bit IRQ_BIT_CD 1)\<rparr>) (set_cdc (c1\<lparr>irq_edge := False\<rparr>) m)"
  have "banked_write (cd_calls e (rest m)) kCdcBankIrq RegRequest (currentIrqType (cdc m)) (cdc ?m1) \<bind>
      (\<lambda>c2. Some ((currentIrqType (cdc m), bs @ replicate (n - length bs) 0), (irqStatLatch e (set_cdc c2 ?m1))\<lparr>pw_irq := True\<rparr>)) = Some (r, m')"
    using a False unfolding acknowledgeCurrentCdResponse_def Let_def t prod.case by (simp only: if_False)
  then obtain c2 where m': "m' = (irqStatLatch e (set_cdc c2 ?m1))\<lparr>pw_irq := True\<rparr>" unfolding Some_bind_iff by blast
  have "keeps m ?m1" by (rule keeps_trans [OF keeps_board(2) keeps_board(3)])
  note keeps_trans [OF keeps_trans [OF keeps_trans [OF this keeps_board(2)] keeps_stat_latch] keeps_mem(3)]
  then show ?thesis unfolding m' .
qed (simp add: acknowledgeCurrentCdResponse_def)

lemma keeps_ready: "deliverReadyCompletion e g slot status m = Some (r, m') \<Longrightarrow> keeps m m'"
proof -
  assume a: "deliverReadyCompletion e g slot status m = Some (r, m')"
  show ?thesis
  proof (cases "\<not> readyCompletionOwed m \<or> \<not> canDispatchInterrupt m")
    case True
    then show ?thesis using a by (simp add: deliverReadyCompletion_def)
  next
    case False
    with a obtain callback m1 where 1: "(if slot \<noteq> 0 then m_r32 (env_io g) m slot else Some (0, m)) = Some (callback, m1)"
      by (auto simp: deliverReadyCompletion_def Some_bind_iff)
    have k1: "keeps m m1" using 1 keeps_r32 by (auto split: if_splits)
    show ?thesis
    proof (cases "callback = 0")
      case True
      then show ?thesis using a 1 False k1 by (simp add: deliverReadyCompletion_def)
    next
      case called: False
      obtain x m2 c m5 ok where 2: "acknowledgeCurrentCdResponse e 1 m1 = Some (x, m2)"
        "m' = snd (completeOrPropagate ok (scope_leave (set_cdc c m2) m5))"
        using a 1 False called unfolding deliverReadyCompletion_def
        by (auto simp: Some_bind_iff Let_def split_def)
      have "keeps (set_cdc c m2) m'"
        using keeps_trans [OF keeps_scope] keeps_propagate 2(2) by (metis prod.collapse)
      then show ?thesis using k1 keeps_acknowledge [OF 2(1)] keeps_board(2) keeps_trans by blast
    qed
  qed
qed

lemma cd_kernel_transparent: "env_transparent (cd_kernel e g libcd)"
proof -
  have "keeps m m'" if "deliverOnInterrupt e g l m = Some (r, m')" for l m r m'
    using that keeps_ready by (cases l) (auto split: if_splits)
  then show ?thesis
    by (auto simp: env_transparent_def cd_kernel_def keeps_stat_latch split: option.splits)
qed

text \<open>
  C16: Polling interrupts is invisible to the code it interrupts. On whichever path the poll ends (owed DMA callbacks, the
  chain's verifiers and handlers, libcd's ready callback for a data-ready response, the custom exit or an exit request), and
  whatever the guest code it runs does to the machine, the register file and the interrupt flag come back as they were. The
  only premise is that the poll returns: neither the guest's code nor a device is assumed to keep anything.
\<close>

theorem irq_poll_transparent:
  assumes "irqPoll (cd_kernel e g libcd) m = Some m'"
  shows "cpu m' = cpu m \<and> in_irq (hle m') = in_irq (hle m)"
  using irq_poll_keeps [OF cd_kernel_transparent assms] .

section \<open>Witness\<close>

text \<open>
  A console with a data-ready response current and its line latched and enabled; the ready slot at \<open>0x80001000\<close> holds
  \<open>0x3000\<close>, and the guest there destroys every register and leaves its argument behind in the board.
\<close>

definition ready_guest :: "(unit, nat) console \<Rightarrow> u32 \<Rightarrow> (bool \<times> (unit, nat) console) option" where
  "ready_guest m entry =
     Some (True, set_rest (unat entry + unat (reg m kA0)) (m\<lparr>cpu := \<lparr>gpr = (\<lambda>_. 0xBAD), hi = 1, lo = 1, pc = 1\<rparr>\<rparr>))"

definition ready_kernel :: "(unit, nat) board kernel_env" where
  "ready_kernel = cd_kernel still_bus (still_kernel\<lparr>run_guest := ready_guest\<rparr>) (Some (GuestInterruptLibcd 0x80001000 1))"

definition ready_cdc :: "unit cdc" where
  "ready_cdc = blank_cdc\<lparr>irq_en := 0x1F, q := \<lparr>irq_type = 1, resp = [0x22]\<rparr> # replicate 7 \<lparr>irq_type = 0, resp = []\<rparr>, q_head := 0, q_tail := 1, resp_rd := 0\<rparr>"

definition ready_console :: "(unit, nat) console" where
  "ready_console = still_console\<lparr>
     mem := (mem still_console)\<lparr>ram := (\<lambda>i. if i = 0x1001 then 0x30 else 0),
       dev := \<lparr>b_sio = sio_initial, b_cdc = ready_cdc, b_rest = 40\<rparr>\<rparr>,
     hle := idle_hle\<lparr>irq_chain := [], i_stat := 4, i_mask := 4\<rparr>, dmar := idle_dma\<rparr>"

lemma ready_slot: "mem m = mem ready_console \<Longrightarrow> m_r32 bus_io m 0x80001000 = Some (0x3000, m)"
proof -
  assume "mem m = mem ready_console"
  moreover have "kseg0_span 0x80001000 4" by (simp add: kseg0_span_def)
  moreover have "kword (mem ready_console) 0x80001000 = 0x3000"
    by (simp add: kword_def physical_def kPhysicalMask_def ram_word_def copy_in_def ready_console_def upt_rec)
  ultimately show ?thesis by (simp add: m_r32_def kword_read)
qed

lemma ready_settled: "irqStatLatch still_bus ready_console = ready_console"
  by (rule latch_settled [where s = sio_initial])
    (simp_all add: ready_console_def sio_def cdc_def ready_cdc_def blank_cdc_def cdc_reset_def sio_service_def sio_initial_def)

lemma ready_taken: "takeCurrentResponse 1 ready_cdc = (([0x22], 1), ready_cdc\<lparr>resp_rd := 1\<rparr>)"
proof -
  let ?c = "ready_cdc\<lparr>resp_rd := 1\<rparr>"
  have e: "resultsEntry ready_cdc = \<lparr>irq_type = 1, resp = [0x22]\<rparr>" "resultsEntry ?c = \<lparr>irq_type = 1, resp = [0x22]\<rparr>" "resp_rd ready_cdc = 0"
    by (simp_all add: resultsEntry_def queueEmpty_def ready_cdc_def)
  have "take_loop ?c = ([], ?c)" by (subst take_loop.simps) (simp only: status_response_ready, simp add: e)
  moreover have "cdc_read RegResponse ready_cdc = (0x22, ?c)" by (simp add: cdc_read_def e Let_def)
  ultimately have "take_loop ready_cdc = ([0x22], ?c)"
    by (subst take_loop.simps) (simp only: status_response_ready, simp add: e)
  then show ?thesis by (simp add: takeCurrentResponse_def)
qed

lemma ready_acknowledged:
  "banked_write g kCdcBankIrq RegRequest 1 (ready_cdc\<lparr>resp_rd := 1, irq_edge := False\<rparr>) = Some (ready_cdc\<lparr>resp_rd := 1, q_head := 1\<rparr>)"
  "banked_write g kCdcBankData RegRequest 0 (ready_cdc\<lparr>resp_rd := 1, q_head := 1\<rparr>) = Some (ready_cdc\<lparr>resp_rd := 1, q_head := 1\<rparr>)"
  by (simp_all add: banked_write_def cdc_write_def kCdcBankIrq_def kCdcBankData_def acknowledge_irq_def writeRequestRegister_def
    queueEmpty_def ready_cdc_def blank_cdc_def cdc_reset_def Let_def)

definition taken_console :: "(unit, nat) console" where
  "taken_console = (set_hle (\<lambda>h. h\<lparr>i_stat := 0\<rparr>) (set_cdc (ready_cdc\<lparr>resp_rd := 1, q_head := 1\<rparr>) ready_console))\<lparr>pw_irq := True\<rparr>"

lemma ready_facts:
  "cdc ready_console = ready_cdc" "sio ready_console = sio_initial" "rest ready_console = 40"
  "hle ready_console = idle_hle\<lparr>irq_chain := [], i_stat := 4, i_mask := 4\<rparr>" "done_mask (dmar ready_console) = 0"
  "active_native_address ready_console = 0" "pending_guest_redirect ready_console = 0"
  by (simp_all add: ready_console_def cdc_def sio_def rest_def still_console_def idle_dma_def)

lemma ready_answered: "acknowledgeCurrentCdResponse still_bus 1 ready_console = Some ((1, [0x22]), taken_console)"
proof -
  have t: "currentIrqType ready_cdc = 1" by (simp add: currentIrqType_def queueEmpty_def ready_cdc_def)
  let ?m = "set_cdc (ready_cdc\<lparr>resp_rd := 1, q_head := 1\<rparr>) (set_hle (\<lambda>h. h\<lparr>i_stat := i_stat h AND NOT (push_bit IRQ_BIT_CD 1)\<rparr>)
      (set_cdc (ready_cdc\<lparr>resp_rd := 1, irq_edge := False\<rparr>) ready_console))"
  have "irqStatLatch still_bus ?m = ?m"
    by (rule latch_settled [where s = sio_initial])
      (simp_all add: ready_console_def sio_def cdc_def set_cdc_def set_board_def set_hle_def ready_cdc_def blank_cdc_def cdc_reset_def
        sio_service_def sio_initial_def)
  moreover have "?m\<lparr>pw_irq := True\<rparr> = taken_console"
    by (simp add: taken_console_def set_cdc_def set_board_def set_hle_def ready_console_def IRQ_BIT_CD_def)
  moreover have "cdc (set_hle (\<lambda>h. h\<lparr>i_stat := i_stat h AND NOT (push_bit IRQ_BIT_CD 1)\<rparr>)
      (set_cdc (ready_cdc\<lparr>resp_rd := 1, irq_edge := False\<rparr>) ready_console)) = ready_cdc\<lparr>resp_rd := 1, irq_edge := False\<rparr>"
    by (simp add: set_hle_def cdc_def set_cdc_def set_board_def)
  ultimately show ?thesis
    using ready_taken ready_acknowledged(1) t by (simp add: acknowledgeCurrentCdResponse_def ready_facts Let_def)
qed

lemma ready_delivered:
  "\<exists>m'. deliverReadyCompletion still_bus (still_kernel\<lparr>run_guest := ready_guest\<rparr>) 0x80001000 1 ready_console = Some (Delivered, m') \<and>
     rest m' = 0x3001 \<and> exception_exit_buf (hle m') = 0 \<and> done_mask (dmar m') = 0"
proof -
  let ?g = "still_kernel\<lparr>run_guest := ready_guest\<rparr>"
  have o: "readyCompletionOwed ready_console" "canDispatchInterrupt ready_console"
    by (simp_all add: readyCompletionOwed_def canDispatchInterrupt_def ready_facts currentIrqType_def queueEmpty_def ready_cdc_def
      IRQ_BIT_CD_def idle_hle_def)
  have g: "env_io ?g = bus_io" by (simp add: still_kernel_def)
  have t: "cdc taken_console = ready_cdc\<lparr>resp_rd := 1, q_head := 1\<rparr>" "exception_exit_buf (hle taken_console) = 0"
    "in_irq (hle taken_console) = False" "done_mask (dmar taken_console) = 0"
    by (simp_all add: taken_console_def set_hle_def cdc_def set_cdc_def set_board_def ready_facts)
      (simp_all add: ready_console_def idle_hle_def idle_dma_def)
  let ?s = "set_reg kA1 kNoFirstWord (set_reg kA0 1 (scope_enter (set_cdc (cdc taken_console) taken_console)))"
  have a: "reg ?s kA0 = 1" by (simp add: reg_def set_reg_def kA0_def kA1_def)
  have r: "run_guest ?g ?s 0x3000 =
      Some (True, set_rest 0x3001 (?s\<lparr>cpu := \<lparr>gpr = (\<lambda>_. 0xBAD), hi = 1, lo = 1, pc = 1\<rparr>\<rparr>))"
    by (simp add: ready_guest_def a)
  have "deliverReadyCompletion still_bus ?g 0x80001000 1 ready_console =
      Some (Delivered, scope_leave (set_cdc (cdc taken_console) taken_console)
        (set_rest 0x3001 (?s\<lparr>cpu := \<lparr>gpr = (\<lambda>_. 0xBAD), hi = 1, lo = 1, pc = 1\<rparr>\<rparr>)))"
    unfolding deliverReadyCompletion_def g
    using o ready_slot [of ready_console] ready_answered ready_acknowledged(2) r t
    by (simp add: enterInterruptHandlerContext_def completeOrPropagate_def Let_def)
  then show ?thesis using t
    by (simp add: scope_leave_def scope_enter_def enterExceptionStack_def set_reg_def set_hle_def rest_def set_rest_def set_board_def
      set_cdc_def)
qed

lemma irq_poll_transparent_witness:
  "\<exists>m'. irqPoll ready_kernel ready_console = Some m' \<and> rest m' = 0x3001 \<and> cpu m' = cpu ready_console \<and> \<not> in_irq (hle m')"
proof -
  obtain m' where m': "deliverReadyCompletion still_bus (still_kernel\<lparr>run_guest := ready_guest\<rparr>) 0x80001000 1 ready_console = Some (Delivered, m')"
    "rest m' = 0x3001" "exception_exit_buf (hle m') = 0" "done_mask (dmar m') = 0"
    using ready_delivered by blast
  have k: "latch ready_kernel = irqStatLatch still_bus" "cd_path ready_kernel" "cd_deliver ready_kernel ready_console = Some (False, m')"
    using m'(1) by (simp_all add: ready_kernel_def cd_kernel_def)
  have s: "scope_leave ready_console (scope_enter ready_console) = ready_console"
    by (simp add: scope_leave_def scope_enter_def enterExceptionStack_def set_reg_def set_hle_def ready_console_def idle_hle_def)
  have w: "chain_walk ready_kernel 0 (scope_enter ready_console) = Some (Unclaimed, scope_enter ready_console)"
    by (subst chain_walk.simps)
      (simp add: scope_enter_def enterExceptionStack_def set_reg_def set_hle_def ready_console_def idle_hle_def)
  have d: "poll_dma ready_kernel all_channels ready_console = Some (True, ready_console)"
    by (simp add: all_channels_def owed_def ready_facts)
  have p: "irqPendingEnabled ready_kernel ready_console = (4, ready_console)"
    by (simp add: irqPendingEnabled_def k ready_settled ready_facts)
  have i: "irqDeliverable ready_kernel True ready_console = (True, ready_console)" "canDispatchInterrupt ready_console"
    "\<not> in_irq (hle ready_console)" "irq_enabled (hle ready_console)"
    by (simp_all add: irqDeliverable_def p canDispatchInterrupt_def ready_facts idle_hle_def)
  have "irqPoll ready_kernel ready_console = Some (disarmIrqGateIfIdle ready_kernel True m')"
    unfolding irqPoll_def using d i p w s k m'(3) by (simp add: poll_custom_exit_def)
  moreover have "rest (disarmIrqGateIfIdle ready_kernel True m') = 0x3001"
  proof -
    have "rest (x\<lparr>pw_irq := b\<rparr>) = rest x" for x :: "(unit, nat) console" and b by (simp add: rest_def)
    then show ?thesis using m'(2)
      by (simp add: disarmIrqGateIfIdle_def irqDeliverable_def irqPendingEnabled_def k Let_def)
  qed
  ultimately show ?thesis
    using irq_poll_transparent [of still_bus "still_kernel\<lparr>run_guest := ready_guest\<rparr>" "Some (GuestInterruptLibcd 0x80001000 1)" ready_console]
      i(3) unfolding ready_kernel_def by auto
qed

end
