(* ===== verification/Side_Effect_Journal.thy ===== *)
theory Side_Effect_Journal
  imports Prelude
begin

text \<open>
  The journal of what a guest call does outside guest RAM (\<open>cpu/side_effect_journal.h\<close>,
  \<open>cpu/side_effect_journal.cpp\<close>) and the device funnel through it (\<open>Core::deviceRead\<close>, \<open>Core::deviceWrite\<close> of
  \<open>core/guest_memory.cpp\<close>): the original of a call records its accesses, a native replacement is run
  against the record. A result \<open>None\<close> is the \<open>JournalBoundExceeded\<close> thrown out of the operation.
\<close>

section \<open>Data\<close>

datatype SideEffectKind = DeviceRead | DeviceWrite | NestedOverride | PlatformService | BiosCall | PadWorkArea
  | Syscall | PendingWork

datatype SideEffectMode = Record | Replay | Discard

record SideEffect =
  se_kind :: SideEffectKind
  se_address :: u32
  se_width :: u32
  se_value :: u32

definition kMaxSideEffectsPerCall :: nat where "kMaxSideEffectsPerCall = 2 ^ 20"

record JournalBoundViolation =
  bv_mode :: SideEffectMode
  bv_offending :: SideEffect
  bv_effects :: nat
  bv_refused :: nat
  bv_stoppedCall :: bool

text \<open>The reason a call cannot be compared, before it is put into words.\<close>

datatype unreplayable_reason = Performed SideEffectMode SideEffect | ServicedPendingWork

record journal =
  j_mode :: SideEffectMode
  j_recorded :: "SideEffect list"
  j_effects :: "SideEffect list"
  j_unreplayable :: "unreplayable_reason option"
  j_firstDivergence :: "nat option"
  j_withheldPendingWork :: u64
  j_boundViolation :: "JournalBoundViolation option"
  j_translatedExecutions :: u32

definition new_journal :: "SideEffectMode \<Rightarrow> SideEffect list \<Rightarrow> journal" where
  "new_journal mode recorded = \<lparr>j_mode = mode, j_recorded = recorded, j_effects = [], j_unreplayable = None,
     j_firstDivergence = None, j_withheldPendingWork = 0, j_boundViolation = None, j_translatedExecutions = 0\<rparr>"

section \<open>The log\<close>

definition matchesRecordedAt :: "nat \<Rightarrow> SideEffect \<Rightarrow> journal \<Rightarrow> bool" where
  "matchesRecordedAt index effect j \<longleftrightarrow> index < length (j_recorded j) \<and> j_recorded j ! index = effect"

definition refuseAtBound :: "SideEffect \<Rightarrow> journal \<Rightarrow> unit option \<times> journal" where
  "refuseAtBound effect j =
     (let v0 = (case j_boundViolation j of
                  Some v \<Rightarrow> v
                | None \<Rightarrow> \<lparr>bv_mode = j_mode j, bv_offending = effect, bv_effects = length (j_effects j), bv_refused = 0,
                           bv_stoppedCall = False\<rparr>);
          v1 = v0\<lparr>bv_refused := bv_refused v0 + 1\<rparr>
      in if j_mode j \<noteq> Replay \<or> j_translatedExecutions j \<noteq> 0 then (Some (), j\<lparr>j_boundViolation := Some v1\<rparr>)
         else (None, j\<lparr>j_boundViolation := Some (v1\<lparr>bv_stoppedCall := True\<rparr>)\<rparr>))"

definition append_effect :: "SideEffect \<Rightarrow> journal \<Rightarrow> unit option \<times> journal" where
  "append_effect effect j =
     (if length (j_effects j) \<ge> kMaxSideEffectsPerCall then refuseAtBound effect j
      else
        let index = length (j_effects j);
            j1 = (if j_mode j = Replay \<and> j_firstDivergence j = None \<and> \<not> matchesRecordedAt index effect j
                  then j\<lparr>j_firstDivergence := Some index\<rparr> else j)
        in (Some (), j1\<lparr>j_effects := j_effects j1 @ [effect]\<rparr>))"

definition after :: "unit option \<times> journal \<Rightarrow> (journal \<Rightarrow> 'a option \<times> journal) \<Rightarrow> 'a option \<times> journal" where
  "after r f = (case r of (Some _, j) \<Rightarrow> f j | (None, j) \<Rightarrow> (None, j))"

definition markUnreplayable :: "unreplayable_reason \<Rightarrow> journal \<Rightarrow> journal" where
  "markUnreplayable reason j = (if j_unreplayable j = None then j\<lparr>j_unreplayable := Some reason\<rparr> else j)"

definition firstDivergence :: "journal \<Rightarrow> nat option" where
  "firstDivergence j =
     (case j_firstDivergence j of
        Some i \<Rightarrow> Some i
      | None \<Rightarrow>
          if length (j_effects j) \<noteq> length (j_recorded j) then Some (min (length (j_effects j)) (length (j_recorded j)))
          else None)"

section \<open>The funnel\<close>

definition same_read :: "u32 \<Rightarrow> u32 \<Rightarrow> SideEffect \<Rightarrow> bool" where
  "same_read address width e \<longleftrightarrow> se_kind e = DeviceRead \<and> se_address e = address \<and> se_width e = width"

definition served_value :: "u32 \<Rightarrow> u32 \<Rightarrow> journal \<Rightarrow> u32" where
  "served_value address width j =
     (let index = length (j_effects j); recorded = j_recorded j
      in if index < length recorded \<and> same_read address width (recorded ! index) then se_value (recorded ! index)
         else foldl (\<lambda>v e. if same_read address width e then se_value e else v) 0 recorded)"

text \<open>The inner \<open>None\<close> is a read the caller performs.\<close>

definition replayDeviceRead :: "u32 \<Rightarrow> u32 \<Rightarrow> journal \<Rightarrow> u32 option option \<times> journal" where
  "replayDeviceRead address width j =
     (case j_mode j of
        Record \<Rightarrow> (Some None, j)
      | Discard \<Rightarrow>
          after (append_effect \<lparr>se_kind = DeviceRead, se_address = address, se_width = width, se_value = 0\<rparr> j)
            (\<lambda>j1. (Some (Some 0), j1))
      | Replay \<Rightarrow>
          let value = served_value address width j
          in after (append_effect \<lparr>se_kind = DeviceRead, se_address = address, se_width = width, se_value = value\<rparr> j)
               (\<lambda>j1. (Some (Some value), j1)))"

definition recordDeviceRead :: "u32 \<Rightarrow> u32 \<Rightarrow> u32 \<Rightarrow> journal \<Rightarrow> unit option \<times> journal" where
  "recordDeviceRead address width value j =
     append_effect \<lparr>se_kind = DeviceRead, se_address = address, se_width = width, se_value = value\<rparr> j"

definition admitDeviceWrite :: "u32 \<Rightarrow> u32 \<Rightarrow> u32 \<Rightarrow> journal \<Rightarrow> bool option \<times> journal" where
  "admitDeviceWrite address width value j =
     after (append_effect \<lparr>se_kind = DeviceWrite, se_address = address, se_width = width, se_value = value\<rparr> j)
       (\<lambda>j1. (Some (j_mode j1 = Record), j1))"

definition admitHostService :: "SideEffectKind \<Rightarrow> u32 \<Rightarrow> u32 \<Rightarrow> journal \<Rightarrow> bool option \<times> journal" where
  "admitHostService kind guestAddress selector j =
     (let effect = \<lparr>se_kind = kind, se_address = guestAddress, se_width = 0, se_value = selector\<rparr>;
          index = length (j_effects j)
      in after (append_effect effect j)
        (\<lambda>j1. if j_mode j1 = Discard then (Some True, j1)
              else if kind = NestedOverride then (Some (j_mode j1 = Record \<or> matchesRecordedAt index effect j1), j1)
              else (Some (j_mode j1 = Record), markUnreplayable (Performed (j_mode j1) effect) j1)))"

definition admitSyscall :: "u32 \<Rightarrow> u32 \<Rightarrow> journal \<Rightarrow> bool option \<times> journal" where
  "admitSyscall code instructionPc j =
     (let effect = \<lparr>se_kind = Syscall, se_address = instructionPc, se_width = 0, se_value = code\<rparr>
      in after (append_effect effect j)
        (\<lambda>j1. (Some (j_mode j1 = Record), markUnreplayable (Performed (j_mode j1) effect) j1)))"

definition admitPendingWork :: "journal \<Rightarrow> bool option \<times> journal" where
  "admitPendingWork j =
     (if j_mode j \<noteq> Record then (Some False, j\<lparr>j_withheldPendingWork := j_withheldPendingWork j + 1\<rparr>)
      else after (append_effect \<lparr>se_kind = PendingWork, se_address = 0, se_width = 0, se_value = 0\<rparr> j)
        (\<lambda>j1. (Some True, markUnreplayable ServicedPendingWork j1)))"

definition withholdsGuestTime :: "journal \<Rightarrow> bool" where
  "withholdsGuestTime j \<longleftrightarrow> j_mode j \<noteq> Record"

definition translated_enter :: "journal \<Rightarrow> journal" where
  "translated_enter j = j\<lparr>j_translatedExecutions := j_translatedExecutions j + 1\<rparr>"

definition translated_leave :: "journal \<Rightarrow> journal" where
  "translated_leave j = j\<lparr>j_translatedExecutions := j_translatedExecutions j - 1\<rparr>"

text \<open>The device funnel of the core under a journal; the device is read and written through arguments.\<close>

definition funnel_read :: "('d \<Rightarrow> u32 \<Rightarrow> u32 \<Rightarrow> u32 \<times> 'd) \<Rightarrow> u32 \<Rightarrow> u32 \<Rightarrow> 'd \<Rightarrow> journal \<Rightarrow> u32 option \<times> 'd \<times> journal" where
  "funnel_read rd a bytes d j =
     (case replayDeviceRead a bytes j of
        (None, j1) \<Rightarrow> (None, d, j1)
      | (Some (Some v), j1) \<Rightarrow> (Some v, d, j1)
      | (Some None, j1) \<Rightarrow>
          let (v, d1) = rd d a bytes; (r, j2) = recordDeviceRead a bytes v j1
          in (case r of None \<Rightarrow> None | Some _ \<Rightarrow> Some v, d1, j2))"

definition funnel_write :: "('d \<Rightarrow> u32 \<Rightarrow> u32 \<Rightarrow> u32 \<Rightarrow> 'd) \<Rightarrow> u32 \<Rightarrow> u32 \<Rightarrow> u32 \<Rightarrow> 'd \<Rightarrow> journal \<Rightarrow> unit option \<times> 'd \<times> journal" where
  "funnel_write wr a v bytes d j =
     (case admitDeviceWrite a bytes v j of
        (None, j1) \<Rightarrow> (None, d, j1)
      | (Some admitted, j1) \<Rightarrow> (Some (), if admitted then wr d a v bytes else d, j1))"

section \<open>Divergence\<close>

definition log_inv :: "journal \<Rightarrow> bool" where
  "log_inv j \<longleftrightarrow> length (j_effects j) \<le> kMaxSideEffectsPerCall \<and>
     (j_mode j = Replay \<longrightarrow>
       (case j_firstDivergence j of
          None \<Rightarrow> length (j_effects j) \<le> length (j_recorded j) \<and> take (length (j_effects j)) (j_recorded j) = j_effects j
        | Some i \<Rightarrow> i < length (j_effects j) \<and> take i (j_effects j) = take i (j_recorded j) \<and>
            (length (j_recorded j) \<le> i \<or> j_recorded j ! i \<noteq> j_effects j ! i)))"

lemma refuse_keeps [simp]:
  "j_effects (snd (refuseAtBound e j)) = j_effects j" "j_recorded (snd (refuseAtBound e j)) = j_recorded j"
  "j_mode (snd (refuseAtBound e j)) = j_mode j" "j_firstDivergence (snd (refuseAtBound e j)) = j_firstDivergence j"
  by (simp_all add: refuseAtBound_def Let_def)

lemma append_keeps [simp]:
  "j_recorded (snd (append_effect e j)) = j_recorded j" "j_mode (snd (append_effect e j)) = j_mode j"
  by (simp_all add: append_effect_def Let_def)

lemma append_inv: "log_inv j \<Longrightarrow> log_inv (snd (append_effect e j))"
proof (cases "length (j_effects j) \<ge> kMaxSideEffectsPerCall")
  case True
  then show "log_inv j \<Longrightarrow> ?thesis" by (auto simp: append_effect_def log_inv_def split: option.splits)
next
  case False
  assume inv: "log_inv j"
  let ?n = "length (j_effects j)"
  show ?thesis
  proof (cases "j_mode j = Replay \<and> j_firstDivergence j = None")
    case True
    then have p: "?n \<le> length (j_recorded j)" "take ?n (j_recorded j) = j_effects j" using inv by (auto simp: log_inv_def)
    show ?thesis
    proof (cases "matchesRecordedAt ?n e j")
      case m: True
      then have "take (Suc ?n) (j_recorded j) = j_effects j @ [e]"
        using p by (simp add: matchesRecordedAt_def take_Suc_conv_app_nth)
      then show ?thesis using True False m p by (auto simp: append_effect_def log_inv_def matchesRecordedAt_def)
    next
      case m: False
      then show ?thesis using True False p by (auto simp: append_effect_def log_inv_def matchesRecordedAt_def Let_def)
    qed
  next
    case other: False
    then show ?thesis
      using inv False by (auto simp: append_effect_def log_inv_def Let_def nth_append split: option.splits)
  qed
qed

lemma log_inv_frame [simp]:
  "log_inv (markUnreplayable r j) = log_inv j" "log_inv (j\<lparr>j_withheldPendingWork := w\<rparr>) = log_inv j"
  "log_inv (translated_enter j) = log_inv j" "log_inv (translated_leave j) = log_inv j"
  by (simp_all add: log_inv_def markUnreplayable_def translated_enter_def translated_leave_def split: option.split)

lemma after_inv:
  assumes "log_inv (snd r)" and "\<And>j. log_inv j \<Longrightarrow> log_inv (snd (f j))"
  shows "log_inv (snd (after r f))"
  using assms by (cases r) (auto simp: after_def split: option.splits)

text \<open>Everything a path does to its journal.\<close>

datatype jcall = CRead u32 u32 | CRecord u32 u32 u32 | CWrite u32 u32 u32 | CService SideEffectKind u32 u32
  | CSyscall u32 u32 | CPending | CEnter | CLeave

fun jstep :: "jcall \<Rightarrow> journal \<Rightarrow> journal" where
  "jstep (CRead a w) j = snd (replayDeviceRead a w j)"
| "jstep (CRecord a w v) j = snd (recordDeviceRead a w v j)"
| "jstep (CWrite a w v) j = snd (admitDeviceWrite a w v j)"
| "jstep (CService k a s) j = snd (admitHostService k a s j)"
| "jstep (CSyscall c p) j = snd (admitSyscall c p j)"
| "jstep CPending j = snd (admitPendingWork j)"
| "jstep CEnter j = translated_enter j"
| "jstep CLeave j = translated_leave j"

lemma jstep_inv: "log_inv j \<Longrightarrow> log_inv (jstep c j)"
  by (cases c) (auto simp: replayDeviceRead_def recordDeviceRead_def admitDeviceWrite_def admitHostService_def admitSyscall_def
      admitPendingWork_def Let_def append_inv intro!: after_inv split: SideEffectMode.splits)

lemma jsteps_inv: "log_inv j \<Longrightarrow> log_inv (fold jstep cs j)"
  by (induction cs arbitrary: j) (simp_all add: jstep_inv)


lemmas journal_ops = replayDeviceRead_def recordDeviceRead_def admitDeviceWrite_def admitHostService_def admitSyscall_def
  admitPendingWork_def translated_enter_def translated_leave_def markUnreplayable_def

lemma after_frame:
  assumes "\<And>j. g (snd (f j)) = g j"
  shows "g (snd (after r f)) = g (snd r)"
  using assms by (cases r) (auto simp: after_def split: option.splits)

lemma jstep_mode: "j_mode (jstep c j) = j_mode j"
  by (cases c) (simp_all add: journal_ops Let_def after_frame [of j_mode] split: SideEffectMode.split)

lemma jstep_recorded: "j_recorded (jstep c j) = j_recorded j"
  by (cases c) (simp_all add: journal_ops Let_def after_frame [of j_recorded] split: SideEffectMode.split)

lemma jsteps_keeps: "j_mode (fold jstep cs j) = j_mode j \<and> j_recorded (fold jstep cs j) = j_recorded j"
  by (induction cs arbitrary: j) (simp_all add: jstep_mode jstep_recorded)

text \<open>
  The divergence a replaying journal reports is exact: none when the log equals the recorded one, entry for entry and
  in length, and otherwise the first position where they differ. The log never passes its bound.
\<close>

theorem divergence_exact:
  "let j = fold jstep cs (new_journal Replay recorded)
   in length (j_effects j) \<le> kMaxSideEffectsPerCall \<and>
      (case firstDivergence j of
         None \<Rightarrow> j_effects j = recorded
       | Some i \<Rightarrow> take i (j_effects j) = take i recorded \<and> take (Suc i) (j_effects j) \<noteq> take (Suc i) recorded)"
proof -
  define j where "j = fold jstep cs (new_journal Replay recorded)"
  have inv: "log_inv j" unfolding j_def by (rule jsteps_inv) (simp add: log_inv_def new_journal_def)
  have k: "j_mode j = Replay" "j_recorded j = recorded" unfolding j_def by (simp_all add: jsteps_keeps new_journal_def)
  have "length (j_effects j) \<le> kMaxSideEffectsPerCall \<and>
    (case firstDivergence j of
       None \<Rightarrow> j_effects j = recorded
     | Some i \<Rightarrow> take i (j_effects j) = take i recorded \<and> take (Suc i) (j_effects j) \<noteq> take (Suc i) recorded)"
  proof (cases "j_firstDivergence j")
    case None
    then have p: "length (j_effects j) \<le> length recorded" "take (length (j_effects j)) recorded = j_effects j"
      using inv k by (auto simp: log_inv_def)
    have short: "take (Suc n) (j_effects j) \<noteq> take (Suc n) recorded" if "n = length (j_effects j)" "n < length recorded" for n
    proof
      assume "take (Suc n) (j_effects j) = take (Suc n) recorded"
      then have "length (take (Suc n) (j_effects j)) = length (take (Suc n) recorded)" by simp
      then show False using that by simp
    qed
    have bound: "length (j_effects j) \<le> kMaxSideEffectsPerCall" using inv by (simp add: log_inv_def)
    show ?thesis
    proof (cases "length (j_effects j) = length recorded")
      case True
      have "j_effects j = recorded" using p(2) unfolding True by simp
      then show ?thesis using None k(2) bound by (simp add: firstDivergence_def)
    next
      case False
      then have "length (j_effects j) < length recorded" using p(1) by simp
      then show ?thesis using None p(2) k bound False short [OF refl] by (simp add: firstDivergence_def min_def)
    qed
  next
    case (Some i)
    then have p: "i < length (j_effects j)" "take i (j_effects j) = take i recorded"
      "length recorded \<le> i \<or> recorded ! i \<noteq> j_effects j ! i" using inv k by (auto simp: log_inv_def)
    have "take (Suc i) (j_effects j) \<noteq> take (Suc i) recorded"
    proof
      assume e: "take (Suc i) (j_effects j) = take (Suc i) recorded"
      then have "length (take (Suc i) recorded) = Suc i" using p(1) by (metis Suc_leI length_take min.absorb2)
      then have "i < length recorded" by simp
      moreover have "take (Suc i) recorded ! i = j_effects j ! i" using e by (metis lessI nth_take)
      ultimately show False using p(3) by simp
    qed
    then show ?thesis using Some p inv by (simp add: firstDivergence_def log_inv_def)
  qed
  then show ?thesis unfolding Let_def j_def .
qed

section \<open>Replay\<close>

text \<open>A call as the journal sees it: the device accesses it makes, each read deciding how it goes on.\<close>

datatype call = Return u32 | Read u32 u32 "u32 \<Rightarrow> call" | Write u32 u32 u32 call

text \<open>A run of a call: its result, unless the journal's bound stopped it, and the device after it.\<close>

primrec run_call :: "('d \<Rightarrow> u32 \<Rightarrow> u32 \<Rightarrow> u32 \<times> 'd) \<Rightarrow> ('d \<Rightarrow> u32 \<Rightarrow> u32 \<Rightarrow> u32 \<Rightarrow> 'd) \<Rightarrow> call \<Rightarrow> 'd \<Rightarrow> journal \<Rightarrow>
    u32 option \<times> 'd \<times> journal" where
  "run_call rd wr (Return r) d j = (Some r, d, j)"
| "run_call rd wr (Read a n k) d j =
     (case funnel_read rd a n d j of (Some v, d1, j1) \<Rightarrow> run_call rd wr (k v) d1 j1 | (None, d1, j1) \<Rightarrow> (None, d1, j1))"
| "run_call rd wr (Write a n v k) d j =
     (case funnel_write wr a v n d j of (Some _, d1, j1) \<Rightarrow> run_call rd wr k d1 j1 | (None, d1, j1) \<Rightarrow> (None, d1, j1))"

lemma append_live: "j_mode j = Record \<Longrightarrow> fst (append_effect e j) = Some ()"
  by (simp add: append_effect_def refuseAtBound_def Let_def)

lemma append_room:
  "j_boundViolation (snd (append_effect e j)) = None \<Longrightarrow> length (j_effects j) < kMaxSideEffectsPerCall"
  by (auto simp: append_effect_def refuseAtBound_def Let_def split: if_splits)

lemma append_grows:
  "\<exists>es. j_effects (snd (append_effect e j)) = j_effects j @ es"
  by (simp add: append_effect_def Let_def)

lemma append_violation:
  "j_boundViolation (snd (append_effect e j)) = None \<Longrightarrow>
     j_boundViolation j = None \<and> j_effects (snd (append_effect e j)) = j_effects j @ [e]"
  using append_room [of e j] by (auto simp: append_effect_def Let_def split: if_splits)

lemma append_replay:
  assumes "j_mode j = Replay" and "j_firstDivergence j = None" and "length (j_effects j) < kMaxSideEffectsPerCall"
    and "j_recorded j = (j_effects j @ [e]) @ rest"
  shows "append_effect e j = (Some (), j\<lparr>j_effects := j_effects j @ [e]\<rparr>)"
  using assms by (simp add: append_effect_def matchesRecordedAt_def Let_def)

text \<open>The entry a device access leaves in the log.\<close>

abbreviation read_entry :: "u32 \<Rightarrow> u32 \<Rightarrow> u32 \<Rightarrow> SideEffect" where
  "read_entry a n v \<equiv> \<lparr>se_kind = DeviceRead, se_address = a, se_width = n, se_value = v\<rparr>"

abbreviation write_entry :: "u32 \<Rightarrow> u32 \<Rightarrow> u32 \<Rightarrow> SideEffect" where
  "write_entry a n v \<equiv> \<lparr>se_kind = DeviceWrite, se_address = a, se_width = n, se_value = v\<rparr>"

lemma live_read:
  assumes "j_mode j = Record"
  shows "funnel_read rd a n d j =
    (Some (fst (rd d a n)), snd (rd d a n), snd (append_effect (read_entry a n (fst (rd d a n))) j))"
  using assms append_live [OF assms]
  by (auto simp: funnel_read_def replayDeviceRead_def recordDeviceRead_def split_def Let_def)

lemma live_write:
  assumes "j_mode j = Record"
  shows "funnel_write wr a v n d j = (Some (), wr d a v n, snd (append_effect (write_entry a n v) j))"
  using append_live [OF assms, of "write_entry a n v"] assms append_keeps(2) [of "write_entry a n v" j]
  by (cases "append_effect (write_entry a n v) j") (auto simp: funnel_write_def admitDeviceWrite_def after_def)

lemma replayed_read:
  assumes "j_mode j = Replay" and "j_firstDivergence j = None" and "length (j_effects j) < kMaxSideEffectsPerCall"
    and "j_recorded j = (j_effects j @ [read_entry a n v]) @ rest"
  shows "funnel_read rd a n d j = (Some v, d, j\<lparr>j_effects := j_effects j @ [read_entry a n v]\<rparr>)"
proof -
  have "served_value a n j = v" using assms(4) by (simp add: served_value_def same_read_def)
  then show ?thesis
    using assms by (simp add: funnel_read_def replayDeviceRead_def append_replay [OF assms] after_def)
qed

lemma replayed_write:
  assumes "j_mode j = Replay" and "j_firstDivergence j = None" and "length (j_effects j) < kMaxSideEffectsPerCall"
    and "j_recorded j = (j_effects j @ [write_entry a n v]) @ rest"
  shows "funnel_write wr a v n d j = (Some (), d, j\<lparr>j_effects := j_effects j @ [write_entry a n v]\<rparr>)"
  using assms by (simp add: funnel_write_def admitDeviceWrite_def append_replay [OF assms] after_def)

text \<open>A recording run returns; without a refusal its log only grew.\<close>

lemma run_record:
  assumes "j_mode j = Record" and "run_call rd wr p d j = (r, d', j')"
  shows "r \<noteq> None \<and> (j_boundViolation j' = None \<longrightarrow> j_boundViolation j = None \<and> (\<exists>es. j_effects j' = j_effects j @ es))"
  using assms
proof (induction p arbitrary: d j)
  case (Return x)
  then show ?case by auto
next
  case (Read a n k)
  let ?v = "fst (rd d a n)" and ?j1 = "snd (append_effect (read_entry a n (fst (rd d a n))) j)"
  have run: "run_call rd wr (k ?v) (snd (rd d a n)) ?j1 = (r, d', j')"
    using Read.prems by (simp add: live_read)
  show ?case
    using Read.IH [OF _ _ run] Read.prems(1) append_violation [of "read_entry a n ?v" j] by fastforce
next
  case (Write a n v k)
  let ?j1 = "snd (append_effect (write_entry a n v) j)"
  have run: "run_call rd wr k (wr d a v n) ?j1 = (r, d', j')"
    using Write.prems by (simp add: live_write)
  show ?case
    using Write.IH [OF _ run] Write.prems(1) append_violation [of "write_entry a n v" j] by fastforce
qed

lemma run_replays:
  assumes "j_mode j = Record" and "run_call rd wr p d j = (r, d', j')" and "j_boundViolation j' = None"
    and "j_mode i = Replay" and "j_firstDivergence i = None" and "j_effects i = j_effects j" and "j_recorded i = j_effects j'"
  shows "\<exists>i'. run_call rd2 wr2 p e i = (r, e, i') \<and> j_effects i' = j_effects j' \<and> j_recorded i' = j_effects j' \<and>
    j_firstDivergence i' = None"
  using assms
proof (induction p arbitrary: d j i)
  case (Return x)
  then show ?case by simp
next
  case (Read a n k)
  let ?v = "fst (rd d a n)"
  let ?x = "read_entry a n ?v"
  let ?j1 = "snd (append_effect ?x j)" and ?i1 = "i\<lparr>j_effects := j_effects i @ [?x]\<rparr>"
  have run: "run_call rd wr (k ?v) (snd (rd d a n)) ?j1 = (r, d', j')"
    using Read.prems by (simp add: live_read)
  have g: "j_boundViolation ?j1 = None" and grow: "\<exists>es. j_effects j' = j_effects ?j1 @ es"
    using run_record [OF _ run] Read.prems by simp_all
  then obtain es where es: "j_effects j' = (j_effects j @ [?x]) @ es" using append_violation [OF g] by auto
  have "funnel_read rd2 a n e i = (Some ?v, e, ?i1)"
    using replayed_read [of i a n ?v es] Read.prems append_room [OF g] es by simp
  moreover have "\<exists>i'. run_call rd2 wr2 (k ?v) e ?i1 = (r, e, i') \<and> j_effects i' = j_effects j' \<and> j_recorded i' = j_effects j' \<and>
    j_firstDivergence i' = None"
    by (rule Read.IH [OF _ _ run]) (use Read.prems append_violation [OF g] in simp_all)
  ultimately show ?case by simp
next
  case (Write a n v k)
  let ?x = "write_entry a n v"
  let ?j1 = "snd (append_effect ?x j)" and ?i1 = "i\<lparr>j_effects := j_effects i @ [?x]\<rparr>"
  have run: "run_call rd wr k (wr d a v n) ?j1 = (r, d', j')"
    using Write.prems by (simp add: live_write)
  have g: "j_boundViolation ?j1 = None" and grow: "\<exists>es. j_effects j' = j_effects ?j1 @ es"
    using run_record [OF _ run] Write.prems by simp_all
  then obtain es where es: "j_effects j' = (j_effects j @ [?x]) @ es" using append_violation [OF g] by auto
  have "funnel_write wr2 a v n e i = (Some (), e, ?i1)"
    using replayed_write [of i a n v es] Write.prems append_room [OF g] es by simp
  moreover have "\<exists>i'. run_call rd2 wr2 k e ?i1 = (r, e, i') \<and> j_effects i' = j_effects j' \<and> j_recorded i' = j_effects j' \<and>
    j_firstDivergence i' = None"
    by (rule Write.IH [OF _ run]) (use Write.prems append_violation [OF g] in simp_all)
  ultimately show ?case by simp
qed

text \<open>
  C21: A call recorded live and replayed against its own log is served the values the devices gave: on any devices, even others
  than those of the recording, it returns the same result, leaves them as they were, writes the same log, and no
  divergence is reported. The recorded call always returned; the hypothesis is that it stayed under the journal's bound.
\<close>

theorem replay_faithful:
  assumes "run_call rd wr p d (new_journal Record []) = (r, d', live)" and "j_boundViolation live = None"
  shows "r \<noteq> None \<and> (\<exists>shadow. run_call rd2 wr2 p e (new_journal Replay (j_effects live)) = (r, e, shadow) \<and>
    j_effects shadow = j_effects live \<and> firstDivergence shadow = None)"
proof -
  have "r \<noteq> None" using run_record [OF _ assms(1)] by (simp add: new_journal_def)
  moreover obtain shadow where "run_call rd2 wr2 p e (new_journal Replay (j_effects live)) = (r, e, shadow)"
    "j_effects shadow = j_effects live" "j_recorded shadow = j_effects live" "j_firstDivergence shadow = None"
    using run_replays [OF _ assms, of "new_journal Replay (j_effects live)" rd2 wr2 e] by (auto simp: new_journal_def)
  ultimately show ?thesis by (simp add: firstDivergence_def)
qed

section \<open>Witnesses\<close>

text \<open>A read that counts up, a write that depends on it, and a replay on a device that would have answered otherwise.\<close>

abbreviation demo_call :: call where
  "demo_call \<equiv> Read 0x1F801104 2 (\<lambda>v. Read 0x1F801104 2 (\<lambda>w. Write 0x1F801810 4 (v + w) (Return w)))"

abbreviation demo_log :: "SideEffect list" where
  "demo_log \<equiv> [read_entry 0x1F801104 2 7, read_entry 0x1F801104 2 8, write_entry 0x1F801810 4 15]"

lemma demo_live:
  "run_call (\<lambda>d a n. (d, d + 1)) (\<lambda>d a v n. v) demo_call 7 (new_journal Record []) =
     (Some 8, 15, (new_journal Record [])\<lparr>j_effects := demo_log\<rparr>)"
  by (simp add: live_read live_write append_effect_def new_journal_def kMaxSideEffectsPerCall_def)

theorem replay_faithful_witness:
  "\<exists>shadow. run_call (\<lambda>d a n. (99, d)) (\<lambda>d a v n. v) demo_call (0 :: u32) (new_journal Replay demo_log) = (Some 8, 0, shadow) \<and>
     j_effects shadow = demo_log \<and> firstDivergence shadow = None"
  using replay_faithful [OF demo_live, of "\<lambda>d a n. (99, d)" "\<lambda>d a v n. v" "0 :: u32"] by (simp add: new_journal_def)

end
