(* ===== verification/Image_Catalog.thy ===== *)
theory Image_Catalog
  imports Guest_Memory
begin

text \<open>
  Which code image owns a guest address (\<open>cpu/image_identity.h\<close>, \<open>cpu/image_identity.cpp\<close>): the activations, the
  subtraction of written bytes, deactivation, the adoption of a loaded state's images and the two resolutions. Every
  change advances the dispatch epoch (\<open>cpu/dispatch_epoch.h\<close>), here a field of the catalog.

  The abstract view is a stack of owners per physical byte, newest first; the operations are shown to push and to remove
  owners on it. A result \<open>None\<close> of \<open>subtractRange\<close> is its \<open>std::invalid_argument\<close>.
\<close>

section \<open>Data\<close>

record ImageIdentity =
  im_id :: u64
  im_generation :: u64

record ImageDescription =
  de_name :: string
  de_content :: u64
  de_ranges :: "GuestAddressRange list"

record catalog_entry =
  ce_name :: string
  ce_ranges :: "GuestAddressRange list"
  ce_content :: u64
  ce_identity :: ImageIdentity
  ce_active :: bool

record ImageCatalog =
  entries :: "catalog_entry list"
  nextId :: u64
  nextGeneration :: u64
  revision :: u64
  dispatchEpoch :: u64

definition new_catalog :: ImageCatalog where
  "new_catalog = \<lparr>entries = [], nextId = 1, nextGeneration = 1, revision = 0, dispatchEpoch = 1\<rparr>"

definition changed :: "ImageCatalog \<Rightarrow> ImageCatalog" where
  "changed c = c\<lparr>revision := revision c + 1, dispatchEpoch := dispatchEpoch c + 1\<rparr>"

section \<open>Operations\<close>

definition activate :: "string \<Rightarrow> GuestAddressRange \<Rightarrow> u64 \<Rightarrow> ImageCatalog \<Rightarrow> ImageIdentity \<times> ImageCatalog" where
  "activate name r content c =
     (let identity = \<lparr>im_id = nextId c, im_generation = nextGeneration c\<rparr>;
          c1 = changed (c\<lparr>nextId := nextId c + 1, nextGeneration := nextGeneration c + 1\<rparr>)
      in (identity, c1\<lparr>entries := entries c1 @ [\<lparr>ce_name = name, ce_ranges = [r], ce_content = content,
            ce_identity = identity, ce_active = True\<rparr>]\<rparr>))"

text \<open>The index \<open>std::find_if\<close> stops at.\<close>

primrec find_index :: "('a \<Rightarrow> bool) \<Rightarrow> 'a list \<Rightarrow> nat option" where
  "find_index P [] = None"
| "find_index P (x # xs) = (if P x then Some 0 else map_option Suc (find_index P xs))"

definition live_as :: "ImageIdentity \<Rightarrow> catalog_entry \<Rightarrow> bool" where
  "live_as i e \<longleftrightarrow> ce_active e \<and> ce_identity e = i"

definition subtract_part :: "GuestAddressRange \<Rightarrow> GuestAddressRange \<Rightarrow> GuestAddressRange list" where
  "subtract_part r part =
     (if rg_end part \<le> rg_begin r \<or> rg_begin part \<ge> rg_end r then [part]
      else (if rg_begin part < rg_begin r then [\<lparr>rg_begin = rg_begin part, rg_end = rg_begin r\<rparr>] else []) @
           (if rg_end r < rg_end part then [\<lparr>rg_begin = rg_end r, rg_end = rg_end part\<rparr>] else []))"

definition physical_range :: "GuestAddressRange \<Rightarrow> bool" where
  "physical_range r \<longleftrightarrow> range_valid r \<and> rg_end r \<le> kPhysicalMask + 1"

definition subtractRange :: "ImageIdentity \<Rightarrow> GuestAddressRange \<Rightarrow> ImageCatalog \<Rightarrow> (nat \<times> ImageCatalog) option" where
  "subtractRange i r c =
     (if \<not> physical_range r then None
      else case find_index (live_as i) (entries c) of
             None \<Rightarrow> Some (0, c)
           | Some k \<Rightarrow>
               let e = entries c ! k;
                   surviving = concat (map (subtract_part r) (ce_ranges e));
                   e1 = e\<lparr>ce_ranges := surviving, ce_active := surviving \<noteq> []\<rparr>
               in Some (length surviving, changed (c\<lparr>entries := (entries c)[k := e1]\<rparr>)))"

definition deactivate :: "ImageIdentity \<Rightarrow> ImageCatalog \<Rightarrow> bool \<times> ImageCatalog" where
  "deactivate i c =
     (case find_index (live_as i) (entries c) of
        None \<Rightarrow> (False, c)
      | Some k \<Rightarrow> (True, changed (c\<lparr>entries := (entries c)[k := (entries c ! k)\<lparr>ce_active := False\<rparr>]\<rparr>)))"

definition entry_covers :: "u32 \<Rightarrow> catalog_entry \<Rightarrow> bool" where
  "entry_covers p e \<longleftrightarrow> ce_active e \<and> list_ex (\<lambda>r. containsPhysical r p) (ce_ranges e)"

definition resolve :: "u32 \<Rightarrow> ImageCatalog \<Rightarrow> ImageIdentity option" where
  "resolve guestAddress c = map_option ce_identity (List.find (entry_covers (physical guestAddress)) (rev (entries c)))"

definition overlaps :: "GuestAddressRange \<Rightarrow> GuestAddressRange \<Rightarrow> bool" where
  "overlaps r part \<longleftrightarrow> \<not> (rg_end part \<le> rg_begin r \<or> rg_begin part \<ge> rg_end r)"

fun resolve_span :: "GuestAddressRange \<Rightarrow> catalog_entry list \<Rightarrow> ImageIdentity option" where
  "resolve_span r [] = None"
| "resolve_span r (e # es) =
     (if \<not> ce_active e then resolve_span r es
      else case List.find (overlaps r) (ce_ranges e) of
             None \<Rightarrow> resolve_span r es
           | Some part \<Rightarrow>
               if rg_begin part \<le> rg_begin r \<and> rg_end part \<ge> rg_end r then Some (ce_identity e) else None)"

definition resolve_range :: "GuestAddressRange \<Rightarrow> ImageCatalog \<Rightarrow> ImageIdentity option" where
  "resolve_range r c = (if \<not> physical_range r then None else resolve_span r (rev (entries c)))"

definition activeCount :: "ImageCatalog \<Rightarrow> nat" where
  "activeCount c = length (filter ce_active (entries c))"

definition description :: "catalog_entry \<Rightarrow> ImageDescription" where
  "description e = \<lparr>de_name = ce_name e, de_content = ce_content e, de_ranges = ce_ranges e\<rparr>"

definition activeResidencies :: "ImageCatalog \<Rightarrow> ImageDescription list" where
  "activeResidencies c = map description (filter ce_active (entries c))"

text \<open>The first loop of \<open>adopt\<close>: the flag is \<open>matching\<close>, the descriptions those from \<open>kept\<close> on.\<close>

fun keep_matching :: "bool \<Rightarrow> catalog_entry list \<Rightarrow> ImageDescription list \<Rightarrow> catalog_entry list \<times> ImageDescription list" where
  "keep_matching matching [] ds = ([], ds)"
| "keep_matching matching (e # es) ds =
     (if \<not> ce_active e then (let (es', rest) = keep_matching matching es ds in (e # es', rest))
      else if matching \<and> ds \<noteq> [] \<and> description e = hd ds
        then (let (es', rest) = keep_matching matching es (tl ds) in (e # es', rest))
      else (let (es', rest) = keep_matching False es ds in (e\<lparr>ce_active := False\<rparr> # es', rest)))"

definition append_residency :: "ImageDescription \<Rightarrow> ImageCatalog \<Rightarrow> ImageCatalog" where
  "append_residency d c =
     c\<lparr>entries := entries c @ [\<lparr>ce_name = de_name d, ce_ranges = de_ranges d, ce_content = de_content d,
         ce_identity = \<lparr>im_id = nextId c, im_generation = nextGeneration c\<rparr>, ce_active = True\<rparr>],
       nextId := nextId c + 1, nextGeneration := nextGeneration c + 1\<rparr>"

definition adopt :: "ImageDescription list \<Rightarrow> ImageCatalog \<Rightarrow> ImageCatalog" where
  "adopt residencies c =
     (let (es, rest) = keep_matching True (entries c) residencies
      in changed (fold append_residency rest (c\<lparr>entries := es\<rparr>)))"

definition describe :: "ImageIdentity \<Rightarrow> ImageCatalog \<Rightarrow> ImageDescription option" where
  "describe i c = map_option description (List.find (\<lambda>e. ce_identity e = i) (entries c))"

section \<open>Identities\<close>

text \<open>Identities are handed out once, until the counters run out of 64 bits.\<close>

definition catalog_inv :: "ImageCatalog \<Rightarrow> bool" where
  "catalog_inv c \<longleftrightarrow> distinct (map ce_identity (entries c)) \<and> 0 < unat (nextId c) \<and>
     (\<forall>e\<in>set (entries c). 0 < unat (im_id (ce_identity e)) \<and> unat (im_id (ce_identity e)) < unat (nextId c))"

lemma changed_sel [simp]:
  "entries (changed c) = entries c" "nextId (changed c) = nextId c" "nextGeneration (changed c) = nextGeneration c"
  "dispatchEpoch (changed c) = dispatchEpoch c + 1"
  by (simp_all add: changed_def)

lemma catalog_inv_changed [simp]: "catalog_inv (changed c) = catalog_inv c"
  by (simp add: catalog_inv_def)

lemma catalog_inv_new: "catalog_inv new_catalog"
  by (simp add: catalog_inv_def new_catalog_def)

lemma unat_suc: "unat (x :: u64) + 1 < 2 ^ 64 \<Longrightarrow> unat (x + 1) = unat x + 1"
  using unat_add_small [of x 1] by simp

lemma find_index_Some: "find_index P xs = Some k \<Longrightarrow> k < length xs \<and> P (xs ! k)"
  by (induction xs arbitrary: k) (auto split: if_splits)

lemma find_index_None: "find_index P xs = None \<longleftrightarrow> (\<forall>x\<in>set xs. \<not> P x)"
  by (induction xs) auto

text \<open>Growing the catalog by one entry, as \<open>activate\<close> and \<open>adopt\<close> do.\<close>

lemma catalog_inv_grow:
  assumes "catalog_inv c" and "unat (nextId c) + 1 < 2 ^ 64" and "ce_identity e = \<lparr>im_id = nextId c, im_generation = nextGeneration c\<rparr>"
  shows "catalog_inv (c\<lparr>entries := entries c @ [e], nextId := nextId c + 1, nextGeneration := g\<rparr>)"
proof -
  have "ce_identity x \<noteq> \<lparr>im_id = nextId c, im_generation = nextGeneration c\<rparr>" if "x \<in> set (entries c)" for x
    using that assms(1) by (metis ImageIdentity.select_convs(1) catalog_inv_def less_irrefl)
  then have "ce_identity e \<notin> ce_identity ` set (entries c)" using assms(3) by force
  then show ?thesis using assms unat_suc [OF assms(2)] by (auto simp: catalog_inv_def less_Suc_eq)
qed

lemma catalog_inv_subset:
  assumes "catalog_inv c" and "map ce_identity es = map ce_identity (entries c)"
  shows "catalog_inv (c\<lparr>entries := es\<rparr>)"
proof -
  have "ce_identity ` set es = ce_identity ` set (entries c)" using assms(2) by (metis image_set)
  then have "\<exists>x\<in>set (entries c). ce_identity e = ce_identity x" if "e \<in> set es" for e
    using that by (metis imageE imageI)
  then show ?thesis using assms by (fastforce simp: catalog_inv_def)
qed

lemma map_update_same: "k < length xs \<Longrightarrow> f y = f (xs ! k) \<Longrightarrow> map f (xs[k := y]) = map f xs"
  by (simp add: map_update list_update_same_conv)

lemma activate_inv:
  assumes "catalog_inv c" and "unat (nextId c) + 1 < 2 ^ 64"
  shows "catalog_inv (snd (activate n r x c))"
  using catalog_inv_grow [OF assms, of "\<lparr>ce_name = n, ce_ranges = [r], ce_content = x,
      ce_identity = \<lparr>im_id = nextId c, im_generation = nextGeneration c\<rparr>, ce_active = True\<rparr>" "nextGeneration c + 1"]
  by (simp add: activate_def Let_def changed_def catalog_inv_def)

lemma subtractRange_inv: "catalog_inv c \<Longrightarrow> subtractRange i r c = Some (n, c') \<Longrightarrow> catalog_inv c'"
  by (auto simp: subtractRange_def Let_def intro!: catalog_inv_subset map_update_same
      dest: find_index_Some split: if_splits option.splits)

lemma deactivate_inv: "catalog_inv c \<Longrightarrow> catalog_inv (snd (deactivate i c))"
  by (auto simp: deactivate_def intro!: catalog_inv_subset map_update_same dest: find_index_Some split: option.splits)

section \<open>Owners\<close>

definition owners :: "u32 \<Rightarrow> ImageCatalog \<Rightarrow> ImageIdentity list" where
  "owners p c = map ce_identity (filter (entry_covers p) (rev (entries c)))"

lemma find_filter: "List.find P xs = (case filter P xs of [] \<Rightarrow> None | x # _ \<Rightarrow> Some x)"
  by (induction xs) auto

lemma resolve_owners: "resolve a c = (case owners (physical a) c of [] \<Rightarrow> None | i # _ \<Rightarrow> Some i)"
  by (simp add: resolve_def owners_def find_filter split: list.split)

lemma contains_part:
  assumes "range_valid r"
  shows "list_ex (\<lambda>x. containsPhysical x p) (subtract_part r part) \<longleftrightarrow> containsPhysical part p \<and> \<not> containsPhysical r p"
  using assms by (auto simp: subtract_part_def containsPhysical_def range_valid_def Let_def)

lemma contains_parts:
  assumes "range_valid r"
  shows "list_ex (\<lambda>x. containsPhysical x p) (concat (map (subtract_part r) rs)) \<longleftrightarrow>
    list_ex (\<lambda>x. containsPhysical x p) rs \<and> \<not> containsPhysical r p"
  by (induction rs) (auto simp: contains_part [OF assms])

text \<open>Changing the one entry an active identity names changes that identity's place in the stacks and nothing else.\<close>

lemma owners_update:
  assumes "catalog_inv c" and "find_index (live_as i) (entries c) = Some k" and "ce_identity e = i"
    and "entry_covers p e \<longleftrightarrow> keep \<and> entry_covers p (entries c ! k)"
  shows "owners p (c\<lparr>entries := (entries c)[k := e]\<rparr>) = (if keep then owners p c else removeAll i (owners p c))"
proof -
  have k: "k < length (entries c)" "ce_identity (entries c ! k) = i"
    using find_index_Some [OF assms(2)] by (auto simp: live_as_def)
  define xs where "xs = take k (entries c)"
  define ys where "ys = drop (Suc k) (entries c)"
  have split: "entries c = xs @ entries c ! k # ys" using k by (simp add: xs_def ys_def id_take_nth_drop)
  have upd: "(entries c)[k := e] = xs @ e # ys" using k by (simp add: xs_def ys_def upd_conv_take_nth_drop)
  have "distinct (map ce_identity (xs @ entries c ! k # ys))"
    using assms(1) unfolding catalog_inv_def by (metis split)
  then have fresh: "i \<notin> ce_identity ` set xs" "i \<notin> ce_identity ` set ys" using k(2) by auto
  have other: "removeAll i (map ce_identity (filter P zs)) = map ce_identity (filter P zs)"
    if "i \<notin> ce_identity ` set zs" for P zs
    using that by (intro removeAll_id) auto
  have o: "owners p c = map ce_identity (filter (entry_covers p) (rev ys)) @
      (if entry_covers p (entries c ! k) then [i] else []) @ map ce_identity (filter (entry_covers p) (rev xs))"
    unfolding owners_def by (subst split) (simp add: k(2))
  have "owners p (c\<lparr>entries := (entries c)[k := e]\<rparr>) = map ce_identity (filter (entry_covers p) (rev ys)) @
      (if entry_covers p e then [i] else []) @ map ce_identity (filter (entry_covers p) (rev xs))"
    by (simp add: owners_def upd assms(3))
  then show ?thesis using fresh by (simp add: o assms(4) other)
qed

lemma owners_absent:
  assumes "find_index (live_as i) (entries c) = None"
  shows "removeAll i (owners p c) = owners p c"
  using assms by (intro removeAll_id) (auto simp: owners_def find_index_None live_as_def entry_covers_def)

lemma owners_changed [simp]: "owners p (changed c) = owners p c"
  by (simp add: owners_def)

lemma subtract_owners:
  assumes "catalog_inv c" and "physical_range r"
  shows "\<exists>n c'. subtractRange i r c = Some (n, c') \<and>
    owners p c' = (if containsPhysical r p then removeAll i (owners p c) else owners p c)"
proof (cases "find_index (live_as i) (entries c)")
  case None
  then show ?thesis using assms by (simp add: subtractRange_def owners_absent)
next
  case (Some k)
  define surviving where "surviving = concat (map (subtract_part r) (ce_ranges (entries c ! k)))"
  define e where "e = (entries c ! k)\<lparr>ce_ranges := surviving, ce_active := surviving \<noteq> []\<rparr>"
  have k: "ce_active (entries c ! k)" "ce_identity (entries c ! k) = i"
    using find_index_Some [OF Some] by (auto simp: live_as_def)
  have rv: "range_valid r" using assms(2) by (simp add: physical_range_def)
  have cv: "entry_covers p e \<longleftrightarrow> \<not> containsPhysical r p \<and> entry_covers p (entries c ! k)"
    using contains_parts [OF rv, of p "ce_ranges (entries c ! k)", folded surviving_def] k(1)
    by (auto simp: entry_covers_def e_def)
  have "subtractRange i r c = Some (length surviving, changed (c\<lparr>entries := (entries c)[k := e]\<rparr>))"
    using Some assms(2) by (simp add: subtractRange_def surviving_def e_def Let_def)
  moreover have "owners p (c\<lparr>entries := (entries c)[k := e]\<rparr>) =
      (if \<not> containsPhysical r p then owners p c else removeAll i (owners p c))"
    by (rule owners_update [OF assms(1) Some _ cv]) (simp add: e_def k(2))
  ultimately show ?thesis by simp
qed

lemma deactivate_owners:
  assumes "catalog_inv c"
  shows "owners p (snd (deactivate i c)) = removeAll i (owners p c)"
proof (cases "find_index (live_as i) (entries c)")
  case None
  then show ?thesis by (simp add: deactivate_def owners_absent)
next
  case (Some k)
  let ?e = "(entries c ! k)\<lparr>ce_active := False\<rparr>"
  have "owners p (c\<lparr>entries := (entries c)[k := ?e]\<rparr>) = (if False then owners p c else removeAll i (owners p c))"
    by (rule owners_update [OF assms Some])
      (use find_index_Some [OF Some] in \<open>auto simp: live_as_def entry_covers_def\<close>)
  then show ?thesis using Some by (simp add: deactivate_def)
qed

lemma activate_owners:
  "owners p (snd (activate n r x c)) = (if containsPhysical r p then [fst (activate n r x c)] else []) @ owners p c"
  by (simp add: activate_def owners_def entry_covers_def Let_def)

text \<open>
  C33: The catalog is a stack of owners for every byte: an address resolves to the newest active image that still owns it, an
  activation goes on top of the bytes of its range, a subtraction removes one image from the bytes of a range and a
  deactivation removes it everywhere, so that what lay underneath shows again.
\<close>

theorem catalog_is_owner_stacks:
  assumes "catalog_inv c"
  shows "resolve a c = (case owners (physical a) c of [] \<Rightarrow> None | i # _ \<Rightarrow> Some i) \<and>
    owners p (snd (activate n r x c)) = (if containsPhysical r p then [fst (activate n r x c)] else []) @ owners p c \<and>
    (physical_range r \<longrightarrow> (\<exists>k c'. subtractRange i r c = Some (k, c') \<and>
       owners p c' = (if containsPhysical r p then removeAll i (owners p c) else owners p c))) \<and>
    owners p (snd (deactivate i c)) = removeAll i (owners p c)"
  using assms by (auto simp: resolve_owners activate_owners deactivate_owners subtract_owners)

text \<open>
  A physical range resolves only when one image owns all of it: every byte of the range then resolves to that image.
\<close>

lemma find_overlap_none:
  assumes "List.find (overlaps r) ps = None" and "rg_begin r \<le> p" and "p < rg_end r" and "physical p = p"
  shows "\<not> list_ex (\<lambda>x. containsPhysical x p) ps"
  using assms
  by (auto simp: find_None_iff list_ex_iff overlaps_def containsPhysical_def Let_def physical_def kPhysicalMask_def)

lemma resolve_span_sound:
  assumes "resolve_span r es = Some i" and "rg_begin r \<le> p" and "p < rg_end r" and "physical p = p"
  shows "\<exists>e. List.find (entry_covers p) es = Some e \<and> ce_identity e = i"
  using assms(1)
proof (induction es)
  case Nil
  then show ?case by simp
next
  case (Cons e es)
  show ?case
  proof (cases "ce_active e")
    case False
    then show ?thesis using Cons by (simp add: entry_covers_def)
  next
    case active: True
    show ?thesis
    proof (cases "List.find (overlaps r) (ce_ranges e)")
      case None
      then have "\<not> entry_covers p e" using find_overlap_none [OF None assms(2-4)] by (simp add: entry_covers_def)
      then show ?thesis using Cons None active by simp
    next
      case (Some part)
      have "part \<in> set (ce_ranges e)" using Some by (auto simp: find_Some_iff)
      moreover have "rg_begin part \<le> rg_begin r \<and> rg_end r \<le> rg_end part \<and> ce_identity e = i"
        using Cons.prems active Some by (simp split: if_splits)
      ultimately have "part \<in> set (ce_ranges e)" "rg_begin part \<le> rg_begin r" "rg_end r \<le> rg_end part" "ce_identity e = i"
        by simp_all
      then have "entry_covers p e" using active assms(2-4)
        by (auto simp: entry_covers_def list_ex_iff containsPhysical_def range_valid_def physical_def kPhysicalMask_def Let_def
            intro!: bexI [of _ part])
      then show ?thesis using \<open>ce_identity e = i\<close> by simp
    qed
  qed
qed

lemma physical_of_range:
  assumes "physical_range r" and "p < rg_end r"
  shows "physical p = p"
proof -
  have "rg_end r \<le> 0x20000000" using assms(1) by (simp add: physical_range_def kPhysicalMask_def)
  then have "p < 0x20000000" using assms(2) by (rule order_less_le_trans [rotated])
  then have "unat p < 2 ^ 29" by (simp add: word_less_nat_alt)
  then show ?thesis by (simp add: word_unat_eq_iff unat_physical)
qed

theorem resolve_range_sound:
  assumes "resolve_range r c = Some i" and "rg_begin r \<le> p" and "p < rg_end r"
  shows "resolve p c = Some i"
proof -
  have r: "physical_range r" "resolve_span r (rev (entries c)) = Some i"
    using assms(1) by (auto simp: resolve_range_def split: if_splits)
  have ph: "physical p = p" by (rule physical_of_range [OF r(1) assms(3)])
  show ?thesis using resolve_span_sound [OF r(2) assms(2,3) ph] by (auto simp: resolve_def ph)
qed

section \<open>Adoption\<close>

lemma keep_matching_active:
  assumes "keep_matching b es ds = (es', rest)"
  shows "map description (filter ce_active es') @ rest = ds"
  using assms
  by (induction b es ds arbitrary: es' rest rule: keep_matching.induct)
    (auto simp: Let_def split: if_splits prod.splits)

lemma append_residency_active: "activeResidencies (append_residency d c) = activeResidencies c @ [d]"
  by (simp add: append_residency_def activeResidencies_def description_def)

lemma append_residencies_active: "activeResidencies (fold append_residency ds c) = activeResidencies c @ ds"
  by (induction ds arbitrary: c) (simp_all add: append_residency_active)

text \<open>Adopting a loaded state's images makes them the active residencies, in their order, whatever was live before.\<close>

theorem adopt_residencies: "activeResidencies (adopt ds c) = ds"
proof -
  obtain es rest where k: "keep_matching True (entries c) ds = (es, rest)" by fastforce
  have "activeResidencies (adopt ds c) = activeResidencies (c\<lparr>entries := es\<rparr>) @ rest"
    using append_residencies_active [of rest "c\<lparr>entries := es\<rparr>"] by (simp add: adopt_def k activeResidencies_def)
  also have "\<dots> = ds" using keep_matching_active [OF k] by (simp add: activeResidencies_def)
  finally show ?thesis .
qed

section \<open>Witnesses\<close>

abbreviation demo_range :: "u32 \<Rightarrow> u32 \<Rightarrow> GuestAddressRange" where
  "demo_range b e \<equiv> \<lparr>rg_begin = b, rg_end = e\<rparr>"

text \<open>An executable over 64 KB and an overlay over part of it.\<close>

definition demo_catalog :: ImageCatalog where
  "demo_catalog = snd (activate ''overlay'' (demo_range 0x14000 0x18000) 2 (snd (activate ''main'' (demo_range 0x10000 0x20000) 1 new_catalog)))"

lemma demo_catalog_inv: "catalog_inv demo_catalog"
  by (simp add: demo_catalog_def activate_def new_catalog_def Let_def changed_def catalog_inv_def)

theorem catalog_is_owner_stacks_witness:
  "owners 0x15000 demo_catalog = [\<lparr>im_id = 2, im_generation = 2\<rparr>, \<lparr>im_id = 1, im_generation = 1\<rparr>] \<and>
   owners 0x15000 (snd (deactivate \<lparr>im_id = 2, im_generation = 2\<rparr> demo_catalog)) = [\<lparr>im_id = 1, im_generation = 1\<rparr>]"
proof -
  have o: "owners 0x15000 demo_catalog = [\<lparr>im_id = 2, im_generation = 2\<rparr>, \<lparr>im_id = 1, im_generation = 1\<rparr>]"
    by (simp add: demo_catalog_def activate_owners containsPhysical_def range_valid_def)
      (simp add: activate_def new_catalog_def Let_def changed_def owners_def)
  then show ?thesis
    using catalog_is_owner_stacks [OF demo_catalog_inv, where i = "\<lparr>im_id = 2, im_generation = 2\<rparr>" and p = "0x15000"] by simp
qed

theorem resolve_range_sound_witness: "resolve 0x14010 demo_catalog = Some \<lparr>im_id = 2, im_generation = 2\<rparr>"
  by (rule resolve_range_sound [of "demo_range 0x14000 0x14100"])
    (simp_all add: demo_catalog_def activate_def new_catalog_def changed_def Let_def resolve_range_def physical_range_def range_valid_def
      kPhysicalMask_def overlaps_def)

end
