(* ===== verification/Native_Dispatch.thy ===== *)
theory Native_Dispatch
  imports Image_Catalog Hle_Kernel Side_Effect_Journal
begin

text \<open>
  What a guest address is when execution reaches it and who serves it: the override table and its suppressions
  (\<open>cpu/native_dispatch.cpp\<close>), the direct-mapped cache of verdicts (\<open>cpu/host_dispatch_cache.h\<close>), the platform table
  (\<open>hle/platform_hle.cpp\<close>) and the requested exits (\<open>cpu/execution_control.cpp\<close>).

  A native body, the BIOS dispatch, the translated execution and the override differential are arguments (\<open>host_env\<close>);
  \<open>None\<close> is a run that does not come back (an abort, or the journal's exception passing through). The call attribution, a
  diagnostic, is left out; the emission scope of a producer is the stack of its keys.
\<close>

section \<open>Data\<close>

datatype ExecutionExitReason = GuestReturn | BudgetExhausted | HostService | InterruptOrException | FrameBoundary
  | CooperativeYield | ProcessExit | Fault

record ExecutionResult =
  ex_reason :: ExecutionExitReason
  ex_pc :: u32
  ex_cycles :: u64
  ex_detail :: string

record ExecutionBudget =
  bu_cycles :: u64
  bu_maxHostDispatches :: u64

definition returned :: "ExecutionResult \<Rightarrow> bool" where
  "returned r \<longleftrightarrow> ex_reason r = GuestReturn"

datatype GuestHostDispatchKind = KindExecuteGuest | KindHostService | KindFault

record NativeKey =
  nk_image :: ImageIdentity
  nk_address :: u32

datatype Arg = ArgA0 | ArgA1 | ArgA2 | ArgA3 | ArgNone

record 'n native_entry =
  en_name :: string
  en_function :: 'n
  en_producer :: "Arg option"

record verdict_slot =
  vs_epoch :: u64
  vs_address :: u32
  vs_kind :: GuestHostDispatchKind
  vs_live :: bool

text \<open>The registered part of the platform table's two arrays, and the VSync entry with its query counter.\<close>

record 'n platform_table =
  pt_leaves :: "(u32 \<times> 'n) list"
  pt_lo :: u32
  pt_hi :: u32
  pt_vsync :: "(u32 \<times> u32) option"

record ('d, 'n) host =
  mach :: "'d machine"
  has_game :: bool
  catalog :: ImageCatalog
  natives :: "NativeKey \<Rightarrow> 'n native_entry option"
  suppressions :: "NativeKey list"
  producerAddresses :: "u32 \<Rightarrow> int option"
  producerRevision :: u64
  verdicts :: "nat \<Rightarrow> verdict_slot"
  platform :: "'n platform_table"
  pending :: "ExecutionResult option"
  unsuspendable :: "ExecutionBudget option"
  stop_flag :: bool
  sideEffectJournal :: "journal option"
  emission :: "(u32 \<times> u32) list"

definition advance_epoch :: "('d, 'n) host \<Rightarrow> ('d, 'n) host" where
  "advance_epoch h = h\<lparr>catalog := (catalog h)\<lparr>dispatchEpoch := dispatchEpoch (catalog h) + 1\<rparr>\<rparr>"

section \<open>The verdict cache\<close>

definition kSlotCount :: nat where "kSlotCount = 2 ^ 14"

definition slotIndex :: "u32 \<Rightarrow> nat" where
  "slotIndex a = unat (drop_bit 2 a AND 0x3FFF)"

definition verdict_find :: "u32 \<Rightarrow> u64 \<Rightarrow> (nat \<Rightarrow> verdict_slot) \<Rightarrow> verdict_slot option" where
  "verdict_find a epoch v =
     (let slot = v (slotIndex a) in if vs_epoch slot \<noteq> epoch \<or> vs_address slot \<noteq> a then None else Some slot)"

definition verdict_store :: "u32 \<Rightarrow> u64 \<Rightarrow> GuestHostDispatchKind \<Rightarrow> bool \<Rightarrow> (nat \<Rightarrow> verdict_slot) \<Rightarrow> nat \<Rightarrow> verdict_slot" where
  "verdict_store a epoch kind live v = v(slotIndex a := \<lparr>vs_epoch = epoch, vs_address = a, vs_kind = kind, vs_live = live\<rparr>)"

definition verdict_forget :: "u32 \<Rightarrow> (nat \<Rightarrow> verdict_slot) \<Rightarrow> nat \<Rightarrow> verdict_slot" where
  "verdict_forget a v = v(slotIndex a := (v (slotIndex a))\<lparr>vs_epoch := 0\<rparr>)"

section \<open>Override table\<close>

definition executor_invalidate :: "u32 \<Rightarrow> u32 \<Rightarrow> ('d, 'n) host \<Rightarrow> ('d, 'n) host" where
  "executor_invalidate b e h =
     (if e > b then h\<lparr>mach := (mach h)\<lparr>mem := (mem (mach h))\<lparr>execWrites := execWrites (mem (mach h)) @
        [InvalidateRanges [\<lparr>rg_begin = b, rg_end = e\<rparr>]]\<rparr>\<rparr>\<rparr> else h)"

definition invalidate_entry :: "u32 \<Rightarrow> ('d, 'n) host \<Rightarrow> ('d, 'n) host" where
  "invalidate_entry a h = executor_invalidate (physical a) (physical a + 4) h"

text \<open>The function argument is an option: \<open>None\<close> is the null pointer a registration may carry.\<close>

definition native_install :: "NativeKey \<Rightarrow> string \<Rightarrow> 'n option \<Rightarrow> Arg option \<Rightarrow> ('d, 'n) host \<Rightarrow> bool \<times> ('d, 'n) host" where
  "native_install key name f producer h =
     (case f of
        None \<Rightarrow> (False, h)
      | Some fn \<Rightarrow>
          if im_id (nk_image key) = 0 \<or> im_generation (nk_image key) = 0 \<or> name = [] then (False, h)
          else if natives h key \<noteq> None then (False, h)
          else
            let h1 = advance_epoch (h\<lparr>natives := (natives h)(key \<mapsto> \<lparr>en_name = name, en_function = fn, en_producer = producer\<rparr>)\<rparr>);
                h2 = (if producer \<noteq> None
                      then h1\<lparr>producerAddresses := (producerAddresses h1)(nk_address key \<mapsto>
                               (case producerAddresses h1 (nk_address key) of None \<Rightarrow> 0 | Some n \<Rightarrow> n) + 1),
                             producerRevision := producerRevision h1 + 1\<rparr>
                      else h1)
            in (True, invalidate_entry (nk_address key) h2))"

definition native_remove :: "NativeKey \<Rightarrow> ('d, 'n) host \<Rightarrow> bool \<times> ('d, 'n) host" where
  "native_remove key h =
     (case natives h key of
        None \<Rightarrow> (False, h)
      | Some e \<Rightarrow>
          let h1 = (if en_producer e \<noteq> None
                    then h\<lparr>producerAddresses := (producerAddresses h)(nk_address key :=
                             (case producerAddresses h (nk_address key) of
                                None \<Rightarrow> None
                              | Some n \<Rightarrow> if n - 1 = 0 then None else Some (n - 1))),
                           producerRevision := producerRevision h + 1\<rparr>
                    else h)
          in (True, invalidate_entry (nk_address key) (advance_epoch (h1\<lparr>natives := (natives h1)(key := None)\<rparr>))))"

definition suppressed :: "NativeKey \<Rightarrow> ('d, 'n) host \<Rightarrow> bool" where
  "suppressed key h \<longleftrightarrow> key \<in> set (suppressions h)"

definition pushSuppression :: "NativeKey \<Rightarrow> ('d, 'n) host \<Rightarrow> ('d, 'n) host" where
  "pushSuppression key h =
     h\<lparr>suppressions := suppressions h @ [key], verdicts := verdict_forget (nk_address key) (verdicts h)\<rparr>"

text \<open>Only \<open>SuppressionScope\<close> calls it, after its own push; on an empty list nothing is left to model.\<close>

definition popSuppression :: "('d, 'n) host \<Rightarrow> ('d, 'n) host" where
  "popSuppression h =
     (if suppressions h = [] then h
      else h\<lparr>suppressions := butlast (suppressions h),
             verdicts := verdict_forget (nk_address (last (suppressions h))) (verdicts h)\<rparr>)"

definition isInstalled :: "NativeKey \<Rightarrow> ('d, 'n) host \<Rightarrow> bool" where
  "isInstalled key h \<longleftrightarrow> natives h key \<noteq> None"

definition intercepts :: "NativeKey \<Rightarrow> ('d, 'n) host \<Rightarrow> bool" where
  "intercepts key h \<longleftrightarrow> isInstalled key h \<and> \<not> suppressed key h"

definition isProducer :: "u32 \<Rightarrow> ('d, 'n) host \<Rightarrow> bool" where
  "isProducer a h \<longleftrightarrow> producerAddresses h a \<noteq> None"

section \<open>Platform table\<close>

definition kPlatformMax :: nat where "kPlatformMax = 32"

definition vsyncAddress :: "'n platform_table \<Rightarrow> u32" where
  "vsyncAddress t = (case pt_vsync t of None \<Rightarrow> 0 | Some (entry, _) \<Rightarrow> entry)"

definition platform_lookup :: "u32 \<Rightarrow> 'n platform_table \<Rightarrow> 'n option" where
  "platform_lookup a t = (if a < pt_lo t \<or> a > pt_hi t then None else map_of (pt_leaves t) a)"

definition platform_insert :: "u32 \<Rightarrow> 'n \<Rightarrow> ('d, 'n) host \<Rightarrow> bool \<times> ('d, 'n) host" where
  "platform_insert a f h =
     (let t = platform h in
      case find_index (\<lambda>x. fst x = a) (pt_leaves t) of
        Some k \<Rightarrow>
          if a = vsyncAddress t \<and> snd (pt_leaves t ! k) \<noteq> f then (False, h)
          else (True, advance_epoch (h\<lparr>platform := t\<lparr>pt_leaves := (pt_leaves t)[k := (a, f)]\<rparr>\<rparr>))
      | None \<Rightarrow>
          if length (pt_leaves t) = kPlatformMax then (False, h)
          else (True, advance_epoch (h\<lparr>platform := t\<lparr>pt_leaves := pt_leaves t @ [(a, f)], pt_lo := min (pt_lo t) a,
                 pt_hi := max (pt_hi t) a\<rparr>\<rparr>)))"

text \<open>\<open>None\<close> is the abort.\<close>

definition bindStock :: "u32 \<Rightarrow> 'n \<Rightarrow> ('d, 'n) host \<Rightarrow> ('d, 'n) host option" where
  "bindStock a f h =
     (if a = 0 then Some h else let (ok, h1) = platform_insert a f h in if ok then Some h1 else None)"

definition bindVSync :: "'n \<Rightarrow> u32 \<Rightarrow> u32 \<Rightarrow> ('d, 'n) host \<Rightarrow> ('d, 'n) host option" where
  "bindVSync vsyncEntry entry queryCounter h =
     (if entry = 0 then Some h
      else case pt_vsync (platform h) of
             Some (e, q) \<Rightarrow>
               if e AND 0x1FFFFFFF \<noteq> entry AND 0x1FFFFFFF \<or> q \<noteq> queryCounter then None
               else let (ok, h1) = platform_insert entry vsyncEntry (h\<lparr>platform := (platform h)\<lparr>pt_vsync := Some (entry, queryCounter)\<rparr>\<rparr>)
                    in if ok then Some h1 else None
           | None \<Rightarrow>
               let (ok, h1) = platform_insert entry vsyncEntry (h\<lparr>platform := (platform h)\<lparr>pt_vsync := Some (entry, queryCounter)\<rparr>\<rparr>)
               in if ok then Some h1 else None)"

definition requireNativeFrameLoopContract :: "('d, 'n) host \<Rightarrow> unit option" where
  "requireNativeFrameLoopContract h = (if vsyncAddress (platform h) = 0 then None else Some ())"

section \<open>Resolution\<close>

text \<open>
  The fields \<open>ResolvedHostDispatch\<close> may have set, as alternatives; \<open>ZeroService\<close> is the service at address zero. A native
  key that intercepts has a non-zero image id, since \<open>install\<close> refuses one without.
\<close>

datatype 'n resolved = NativeService NativeKey | PlatformLeaf 'n | BiosTable char | PadAction PadWorkAreaAction
  | ZeroService | Unclaimed | GuestCode

definition kind_of :: "'n resolved \<Rightarrow> GuestHostDispatchKind" where
  "kind_of r = (case r of GuestCode \<Rightarrow> KindExecuteGuest | Unclaimed \<Rightarrow> KindFault | _ \<Rightarrow> KindHostService)"

definition pad_action :: "'d io_ops \<Rightarrow> u32 \<Rightarrow> 'd machine \<Rightarrow> PadWorkAreaAction option" where
  "pad_action io a m = (case padWorkAreaAction io a m of Some (x, _) \<Rightarrow> x | None \<Rightarrow> None)"

definition bios_table :: "u32 \<Rightarrow> char option" where
  "bios_table target =
     (if target = 0xA0 then Some CHR ''A'' else if target = 0xB0 then Some CHR ''B''
      else if target = 0xC0 then Some CHR ''C'' else None)"

definition resolve_unclaimed :: "u32 \<Rightarrow> ('d, 'n) host \<Rightarrow> 'n resolved" where
  "resolve_unclaimed a h =
     (if physical a = 0 then ZeroService else if resolve a (catalog h) = None then Unclaimed else GuestCode)"

definition resolve_service :: "'d io_ops \<Rightarrow> u32 \<Rightarrow> ('d, 'n) host \<Rightarrow> 'n resolved" where
  "resolve_service io a h =
     (if \<not> has_game h then resolve_unclaimed a h
      else case platform_lookup a (platform h) of
             Some f \<Rightarrow> PlatformLeaf f
           | None \<Rightarrow>
               (case bios_table (physical a) of
                  Some t \<Rightarrow> BiosTable t
                | None \<Rightarrow>
                    (case pad_action io a (mach h) of
                       Some action \<Rightarrow> PadAction action
                     | None \<Rightarrow> resolve_unclaimed a h)))"

definition resolveHostDispatch :: "'d io_ops \<Rightarrow> u32 \<Rightarrow> ('d, 'n) host \<Rightarrow> 'n resolved" where
  "resolveHostDispatch io a h =
     (case (if physical a \<noteq> 0 then resolve a (catalog h) else None) of
        Some identity \<Rightarrow>
          let key = \<lparr>nk_image = identity, nk_address = a\<rparr>
          in if intercepts key h then NativeService key else resolve_service io a h
      | None \<Rightarrow> resolve_service io a h)"

definition classifyUncached :: "'d io_ops \<Rightarrow> u32 \<Rightarrow> ('d, 'n) host \<Rightarrow> GuestHostDispatchKind \<times> ('d, 'n) host" where
  "classifyUncached io a h =
     (let kind = kind_of (resolveHostDispatch io a h)
      in (kind, h\<lparr>verdicts := verdict_store a (dispatchEpoch (catalog h)) kind (isPadWorkAreaEntry a) (verdicts h)\<rparr>))"

definition classify :: "'d io_ops \<Rightarrow> u32 \<Rightarrow> ('d, 'n) host \<Rightarrow> GuestHostDispatchKind \<times> ('d, 'n) host" where
  "classify io a h =
     (case verdict_find a (dispatchEpoch (catalog h)) (verdicts h) of
        Some slot \<Rightarrow> if \<not> vs_live slot then (vs_kind slot, h) else classifyUncached io a h
      | None \<Rightarrow> classifyUncached io a h)"

section \<open>Requested exits\<close>

definition request :: "ExecutionResult \<Rightarrow> ('d, 'n) host \<Rightarrow> bool \<times> ('d, 'n) host" where
  "request r h = (case pending h of Some _ \<Rightarrow> (False, h) | None \<Rightarrow> (True, h\<lparr>pending := Some r\<rparr>))"

definition consume :: "u32 \<Rightarrow> u64 \<Rightarrow> ('d, 'n) host \<Rightarrow> ExecutionResult option \<times> ('d, 'n) host" where
  "consume unstatedPc cycles h =
     (map_option (\<lambda>r. r\<lparr>ex_cycles := ex_cycles r + cycles, ex_pc := (if ex_pc r = 0 then unstatedPc else ex_pc r)\<rparr>) (pending h),
      h\<lparr>pending := None\<rparr>)"

definition requestExecutionExit :: "ExecutionResult \<Rightarrow> ('d, 'n) host \<Rightarrow> ('d, 'n) host" where
  "requestExecutionExit r h = (let (taken, h1) = request r h in if taken then h1\<lparr>stop_flag := True\<rparr> else h1)"

definition complete_or_propagate :: "ExecutionResult \<Rightarrow> ('d, 'n) host \<Rightarrow> bool \<times> ('d, 'n) host" where
  "complete_or_propagate r h = (if returned r then (True, h) else (False, requestExecutionExit r h))"

section \<open>Serving a call\<close>

text \<open>
  What the dispatcher calls: a native body, the BIOS tables (\<open>Hle::dispatchBios\<close>), the translated execution from an
  address to a return address or to its exit, and the differential's \<open>intercept\<close>.
\<close>

record ('d, 'n) host_env =
  he_io :: "'d io_ops"
  native_body :: "'n \<Rightarrow> ('d, 'n) host \<Rightarrow> ('d, 'n) host option"
  bios_call :: "char \<Rightarrow> u32 \<Rightarrow> ('d, 'n) host \<Rightarrow> (bool \<times> ('d, 'n) host) option"
  execute :: "u32 \<Rightarrow> u32 option \<Rightarrow> ExecutionBudget \<Rightarrow> ('d, 'n) host \<Rightarrow> (ExecutionResult \<times> ('d, 'n) host) option"
  differential :: "NativeKey \<Rightarrow> 'n native_entry \<Rightarrow> ('d, 'n) host \<Rightarrow> (ExecutionResult option \<times> ('d, 'n) host) option"

definition exit_with :: "ExecutionExitReason \<Rightarrow> u32 \<Rightarrow> string \<Rightarrow> ExecutionResult" where
  "exit_with reason p detail = \<lparr>ex_reason = reason, ex_pc = p, ex_cycles = 0, ex_detail = detail\<rparr>"

definition host_pc :: "('d, 'n) host \<Rightarrow> u32" where
  "host_pc h = pc (cpu (mach h))"

definition set_pc :: "u32 \<Rightarrow> ('d, 'n) host \<Rightarrow> ('d, 'n) host" where
  "set_pc p h = h\<lparr>mach := (mach h)\<lparr>cpu := (cpu (mach h))\<lparr>pc := p\<rparr>\<rparr>\<rparr>"

definition set_active :: "u32 \<Rightarrow> ('d, 'n) host \<Rightarrow> ('d, 'n) host" where
  "set_active a h = h\<lparr>mach := (mach h)\<lparr>active_native_address := a\<rparr>\<rparr>"

text \<open>\<open>NativeExecutionScope\<close>: its constructor, and its destructor over the state the constructor saw.\<close>

definition native_enter :: "u32 \<Rightarrow> ('d, 'n) host \<Rightarrow> ('d, 'n) host" where
  "native_enter a h = set_pc a (set_active a h)"

definition native_leave :: "('d, 'n) host \<Rightarrow> ('d, 'n) host \<Rightarrow> ('d, 'n) host" where
  "native_leave outer h =
     (let h1 = set_active (active_native_address (mach outer)) h
      in if active_native_address (mach outer) \<noteq> 0 then set_pc (host_pc outer) h1 else h1)"

definition completeHostLeaf :: "u32 \<Rightarrow> ('d, 'n) host \<Rightarrow> ExecutionResult \<times> ('d, 'n) host" where
  "completeHostLeaf continuation h =
     (let unstated = (case pending h of Some r \<Rightarrow> ex_pc r = 0 | None \<Rightarrow> False);
          (requested, h1) = consume continuation 0 h
      in case requested of
           Some r \<Rightarrow> (r, if unstated then set_pc continuation h1 else h1)
         | None \<Rightarrow> (exit_with GuestReturn continuation [], set_pc continuation h1))"

text \<open>A host leaf: the scope around a body, and how it finishes.\<close>

definition host_leaf :: "u32 \<Rightarrow> (('d, 'n) host \<Rightarrow> ('d, 'n) host option) \<Rightarrow> ('d, 'n) host \<Rightarrow> (ExecutionResult \<times> ('d, 'n) host) option" where
  "host_leaf a body h =
     do { h1 \<leftarrow> body (native_enter a h);
          let (r, h2) = completeHostLeaf (reg (mach h) kRa) h1;
          Some (r, native_leave h h2) }"

definition invokeNativeFunction :: "('d, 'n) host_env \<Rightarrow> u32 \<Rightarrow> 'n \<Rightarrow> ('d, 'n) host \<Rightarrow> (ExecutionResult \<times> ('d, 'n) host) option" where
  "invokeNativeFunction g a f h = host_leaf a (native_body g f) h"

definition producer_object :: "Arg \<Rightarrow> 'd machine \<Rightarrow> u32" where
  "producer_object arg m =
     (case arg of ArgNone \<Rightarrow> 0 | ArgA0 \<Rightarrow> reg m 4 | ArgA1 \<Rightarrow> reg m 5 | ArgA2 \<Rightarrow> reg m 6 | ArgA3 \<Rightarrow> reg m 7)"

definition with_emission :: "u32 \<Rightarrow> Arg option \<Rightarrow> ('d, 'n) host \<Rightarrow> ('d, 'n) host" where
  "with_emission a producer h =
     (case producer of None \<Rightarrow> h | Some arg \<Rightarrow> h\<lparr>emission := (a, producer_object arg (mach h)) # emission h\<rparr>)"

definition native_invoke :: "('d, 'n) host_env \<Rightarrow> NativeKey \<Rightarrow> ('d, 'n) host \<Rightarrow> (ExecutionResult option \<times> ('d, 'n) host) option" where
  "native_invoke g key h =
     (case natives h key of
        None \<Rightarrow> Some (None, h)
      | Some e \<Rightarrow>
          if suppressed key h then Some (None, h)
          else do {
            let h1 = with_emission (nk_address key) (en_producer e) h;
            (shadowed, h2) \<leftarrow> differential g key e h1;
            (r, h3) \<leftarrow> (case shadowed of
                          Some r \<Rightarrow> Some (r, h2)
                        | None \<Rightarrow> invokeNativeFunction g (nk_address key) (en_function e) h2);
            Some (Some r, if en_producer e = None then h3 else h3\<lparr>emission := tl (emission h3)\<rparr>) })"

definition journaledKind :: "'n resolved \<Rightarrow> SideEffectKind" where
  "journaledKind r =
     (case r of NativeService _ \<Rightarrow> NestedOverride | BiosTable _ \<Rightarrow> BiosCall | PadAction _ \<Rightarrow> PadWorkArea | _ \<Rightarrow> PlatformService)"

definition journaledSelector :: "'n resolved \<Rightarrow> 'd machine \<Rightarrow> u32" where
  "journaledSelector r m = (case r of BiosTable _ \<Rightarrow> reg m 9 AND 0xFF | _ \<Rightarrow> 0)"

definition return_to_caller :: "('d, 'n) host \<Rightarrow> ExecutionResult \<times> ('d, 'n) host" where
  "return_to_caller h = (exit_with GuestReturn (reg (mach h) kRa) [], set_pc (reg (mach h) kRa) h)"

definition serve :: "('d, 'n) host_env \<Rightarrow> u32 \<Rightarrow> 'n resolved \<Rightarrow> ('d, 'n) host \<Rightarrow> (ExecutionResult \<times> ('d, 'n) host) option" where
  "serve g a r h =
     (case r of
        PlatformLeaf f \<Rightarrow> invokeNativeFunction g a f h
      | PadAction action \<Rightarrow>
          host_leaf a (\<lambda>h1. map_option (\<lambda>m. h1\<lparr>mach := m\<rparr>) (applyPadWorkAreaAction (he_io g) action (mach h1))) h
      | BiosTable t \<Rightarrow>
          do { (ok, h1) \<leftarrow> bios_call g t (reg (mach h) 9 AND 0xFF) (native_enter a h);
               if ok then (let (x, h2) = completeHostLeaf (reg (mach h) kRa) h1 in Some (x, native_leave h h2))
               else Some (exit_with Fault a ''unimplemented BIOS service'', native_leave h h1) }
      | NativeService key \<Rightarrow>
          do { (x, h1) \<leftarrow> native_invoke g key h;
               Some (case x of
                       Some res \<Rightarrow> (res, h1)
                     | None \<Rightarrow> (exit_with Fault a ''native override disappeared during dispatch'', h1)) }
      | _ \<Rightarrow> Some (return_to_caller h))"

text \<open>The journal's answer; without one every service is admitted.\<close>

definition admit_service :: "u32 \<Rightarrow> 'n resolved \<Rightarrow> ('d, 'n) host \<Rightarrow> (bool \<times> ('d, 'n) host) option" where
  "admit_service a r h =
     (case sideEffectJournal h of
        None \<Rightarrow> Some (True, h)
      | Some j \<Rightarrow>
          (case admitHostService (journaledKind r) a (journaledSelector r (mach h)) j of
             (None, _) \<Rightarrow> None
           | (Some admitted, j1) \<Rightarrow> Some (admitted, h\<lparr>sideEffectJournal := Some j1\<rparr>)))"

definition dispatchGuestHostService :: "('d, 'n) host_env \<Rightarrow> u32 \<Rightarrow> ('d, 'n) host \<Rightarrow> (ExecutionResult \<times> ('d, 'n) host) option" where
  "dispatchGuestHostService g a h =
     (let r = resolveHostDispatch (he_io g) a h in
      if kind_of r = KindFault then Some (exit_with Fault a ''ambiguous code-image identity'', h)
      else if kind_of r \<noteq> KindHostService then Some (exit_with Fault a ''guest address has no host service'', h)
      else do { (admitted, h1) \<leftarrow> admit_service a r h;
                if admitted then serve g a r h1 else Some (return_to_caller h1) })"

section \<open>Calls into guest code\<close>

text \<open>\<open>NativeCallerContextScope\<close>: a native caller's program counter is put back after the call.\<close>

definition caller_context :: "(('d, 'n) host \<Rightarrow> (ExecutionResult \<times> ('d, 'n) host) option) \<Rightarrow> ('d, 'n) host \<Rightarrow> (ExecutionResult \<times> ('d, 'n) host) option" where
  "caller_context run h =
     do { (r, h1) \<leftarrow> run h;
          Some (r, if active_native_address (mach h) \<noteq> 0 then set_pc (host_pc h) h1 else h1) }"

definition dispatchGuest :: "('d, 'n) host_env \<Rightarrow> u32 \<Rightarrow> ExecutionBudget \<Rightarrow> ('d, 'n) host \<Rightarrow> (ExecutionResult \<times> ('d, 'n) host) option" where
  "dispatchGuest g a budget =
     caller_context (\<lambda>h. let (kind, h1) = classify (he_io g) a h in
       if kind \<noteq> KindExecuteGuest then dispatchGuestHostService g a h1
       else execute g a (Some (reg (mach h1) kRa)) budget h1)"

definition dispatchGuestUntilExit :: "('d, 'n) host_env \<Rightarrow> u32 \<Rightarrow> ExecutionBudget \<Rightarrow> ('d, 'n) host \<Rightarrow> (ExecutionResult \<times> ('d, 'n) host) option" where
  "dispatchGuestUntilExit g a budget = caller_context (execute g a None budget)"

definition under_suppression :: "NativeKey \<Rightarrow> (('d, 'n) host \<Rightarrow> (ExecutionResult \<times> ('d, 'n) host) option) \<Rightarrow> ('d, 'n) host \<Rightarrow> (ExecutionResult \<times> ('d, 'n) host) option" where
  "under_suppression key run h = do { (r, h1) \<leftarrow> run (pushSuppression key h); Some (r, popSuppression h1) }"

definition executeOriginal :: "('d, 'n) host_env \<Rightarrow> NativeKey \<Rightarrow> ExecutionBudget \<Rightarrow> ('d, 'n) host \<Rightarrow> (ExecutionResult \<times> ('d, 'n) host) option" where
  "executeOriginal g key budget =
     caller_context (under_suppression key (\<lambda>h. execute g (nk_address key) (Some (reg (mach h) kRa)) budget h))"

definition resumeOriginal :: "('d, 'n) host_env \<Rightarrow> NativeKey \<Rightarrow> u32 \<Rightarrow> u32 \<Rightarrow> ExecutionBudget \<Rightarrow> ('d, 'n) host \<Rightarrow> (ExecutionResult \<times> ('d, 'n) host) option" where
  "resumeOriginal g key resumePc returnPc budget =
     caller_context (under_suppression key (execute g resumePc (Some returnPc) budget))"

definition resumeGuestToReturn :: "('d, 'n) host_env \<Rightarrow> u32 \<Rightarrow> u32 \<Rightarrow> ExecutionBudget \<Rightarrow> ('d, 'n) host \<Rightarrow> (ExecutionResult \<times> ('d, 'n) host) option" where
  "resumeGuestToReturn g resumePc returnPc budget = caller_context (execute g resumePc (Some returnPc) budget)"

definition callOriginal :: "('d, 'n) host_env \<Rightarrow> u32 \<Rightarrow> ExecutionBudget \<Rightarrow> ('d, 'n) host \<Rightarrow> (ExecutionResult \<times> ('d, 'n) host) option" where
  "callOriginal g a budget h =
     (case resolve a (catalog h) of
        None \<Rightarrow> Some (exit_with Fault a ''ambiguous code-image identity'', h)
      | Some identity \<Rightarrow> executeOriginal g \<lparr>nk_image = identity, nk_address = a\<rparr> budget h)"

definition callOriginalOrPropagate :: "('d, 'n) host_env \<Rightarrow> ExecutionBudget \<Rightarrow> u32 \<Rightarrow> ('d, 'n) host \<Rightarrow> (bool \<times> ('d, 'n) host) option" where
  "callOriginalOrPropagate g currentTurn a h =
     map_option (\<lambda>(r, h1). complete_or_propagate r h1) (callOriginal g a currentTurn h)"

definition dispatchGuestOrPropagate :: "('d, 'n) host_env \<Rightarrow> ExecutionBudget \<Rightarrow> u32 \<Rightarrow> ('d, 'n) host \<Rightarrow> (bool \<times> ('d, 'n) host) option" where
  "dispatchGuestOrPropagate g currentTurn a h =
     map_option (\<lambda>(r, h1). complete_or_propagate r h1) (dispatchGuest g a currentTurn h)"

definition dispatchGuestWithArguments :: "('d, 'n) host_env \<Rightarrow> u32 \<Rightarrow> u32 list \<Rightarrow> ExecutionBudget \<Rightarrow> ('d, 'n) host \<Rightarrow> (ExecutionResult \<times> ('d, 'n) host) option" where
  "dispatchGuestWithArguments g a arguments budget h =
     (if length arguments > 4 then Some (exit_with Fault a ''too many guest arguments'', h)
      else dispatchGuest g a budget
        (h\<lparr>mach := fold (\<lambda>(i, v) m. set_reg (kA0 + i) v m) (enumerate 0 arguments) (mach h)\<rparr>))"

section \<open>Registration\<close>

definition tryInstallNativeOverride :: "u32 \<Rightarrow> string \<Rightarrow> 'n option \<Rightarrow> Arg option \<Rightarrow> ('d, 'n) host \<Rightarrow> NativeKey option \<times> ('d, 'n) host" where
  "tryInstallNativeOverride a name f producer h =
     (case f of
        None \<Rightarrow> (None, h)
      | Some fn \<Rightarrow>
          (case resolve a (catalog h) of
             None \<Rightarrow> (None, h)
           | Some owner \<Rightarrow>
               let key = \<lparr>nk_image = owner, nk_address = a\<rparr>;
                   (ok, h1) = native_install key name f producer h
               in (if ok then Some key else None, h1)))"

definition removeNativeOverride :: "u32 \<Rightarrow> ('d, 'n) host \<Rightarrow> bool \<times> ('d, 'n) host" where
  "removeNativeOverride a h =
     (case resolve a (catalog h) of
        None \<Rightarrow> (False, h)
      | Some owner \<Rightarrow> native_remove \<lparr>nk_image = owner, nk_address = a\<rparr> h)"

section \<open>The cache answers as the resolution does\<close>

abbreviation epoch :: "('d, 'n) host \<Rightarrow> u64" where
  "epoch h \<equiv> dispatchEpoch (catalog h)"

abbreviation verdict :: "'d io_ops \<Rightarrow> u32 \<Rightarrow> ('d, 'n) host \<Rightarrow> GuestHostDispatchKind" where
  "verdict io a h \<equiv> kind_of (resolveHostDispatch io a h)"

definition slot_ok :: "'d io_ops \<Rightarrow> ('d, 'n) host \<Rightarrow> nat \<Rightarrow> verdict_slot \<Rightarrow> bool" where
  "slot_ok io h i s \<longleftrightarrow> unat (vs_epoch s) \<le> unat (epoch h) \<and>
     (vs_epoch s \<noteq> 0 \<longrightarrow> slotIndex (vs_address s) = i \<and> vs_live s = isPadWorkAreaEntry (vs_address s)) \<and>
     (vs_epoch s = epoch h \<and> \<not> vs_live s \<longrightarrow> vs_kind s = verdict io (vs_address s) h)"

definition verdicts_ok :: "'d io_ops \<Rightarrow> ('d, 'n) host \<Rightarrow> bool" where
  "verdicts_ok io h \<longleftrightarrow> 0 < unat (epoch h) \<and> (\<forall>i. slot_ok io h i (verdicts h i))"

lemma resolve_cong:
  assumes "catalog h' = catalog h" and "platform h' = platform h" and "has_game h' = has_game h"
    and "pad_action io a (mach h') = pad_action io a (mach h)"
    and "\<And>i. intercepts \<lparr>nk_image = i, nk_address = a\<rparr> h' = intercepts \<lparr>nk_image = i, nk_address = a\<rparr> h"
  shows "resolveHostDispatch io a h' = resolveHostDispatch io a h"
proof -
  have "resolve_unclaimed a h' = resolve_unclaimed a h" using assms(1) by (simp add: resolve_unclaimed_def)
  then have "resolve_service io a h' = resolve_service io a h" using assms(2-4) by (simp add: resolve_service_def cong: option.case_cong)
  then show ?thesis using assms(1,5) by (simp add: resolveHostDispatch_def Let_def cong: option.case_cong if_cong)
qed

lemmas intercept_defs = intercepts_def isInstalled_def suppressed_def

lemma resolve_frame [simp]:
  "resolveHostDispatch io a (h\<lparr>verdicts := v\<rparr>) = resolveHostDispatch io a h"
  by (rule resolve_cong) (simp_all add: intercept_defs)

lemma classify_ok:
  assumes "verdicts_ok io h"
  shows "fst (classify io a h) = verdict io a h \<and> verdicts_ok io (snd (classify io a h))"
proof -
  have u: "fst (classifyUncached io a h) = verdict io a h" by (simp add: classifyUncached_def Let_def)
  have "slot_ok io (snd (classifyUncached io a h)) i (verdicts (snd (classifyUncached io a h)) i)" for i
    using assms by (auto simp: classifyUncached_def verdicts_ok_def slot_ok_def verdict_store_def Let_def)
  then have v: "verdicts_ok io (snd (classifyUncached io a h))"
    using assms by (auto simp: verdicts_ok_def classifyUncached_def Let_def)
  have s: "slot_ok io h (slotIndex a) (verdicts h (slotIndex a))" using assms by (simp add: verdicts_ok_def)
  show ?thesis
    using u v s assms by (auto simp: classify_def verdict_find_def slot_ok_def Let_def)
qed

text \<open>A move of the epoch makes every stored verdict stale.\<close>

lemma epoch_moved:
  assumes "verdicts_ok io h" and "verdicts h' = verdicts h" and "epoch h' = epoch h + 1" and "unat (epoch h) + 1 < 2 ^ 64"
  shows "verdicts_ok io h'"
proof -
  have e: "unat (epoch h') = unat (epoch h) + 1" using unat_suc [OF assms(4)] assms(3) by simp
  have "slot_ok io h' i (verdicts h' i)" for i
  proof -
    have s: "slot_ok io h i (verdicts h i)" using assms(1) by (simp add: verdicts_ok_def)
    then have "unat (vs_epoch (verdicts h i)) < unat (epoch h')" using e by (simp add: slot_ok_def)
    then show ?thesis using s assms(2) by (auto simp: slot_ok_def)
  qed
  then show ?thesis using e by (simp add: verdicts_ok_def)
qed

text \<open>A change below the epoch may move only verdicts that are re-derived anyway or were dropped with it.\<close>

lemma verdicts_kept:
  assumes "verdicts_ok io h" and "epoch h' = epoch h"
    and "\<And>i. verdicts h' i = verdicts h i \<or> verdicts h' i = (verdicts h i)\<lparr>vs_epoch := 0\<rparr>"
    and "\<And>i. vs_epoch (verdicts h' i) \<noteq> 0 \<Longrightarrow> \<not> vs_live (verdicts h' i) \<Longrightarrow>
      verdict io (vs_address (verdicts h i)) h' = verdict io (vs_address (verdicts h i)) h"
  shows "verdicts_ok io h'"
proof -
  have "slot_ok io h' i (verdicts h' i)" for i
  proof (cases "vs_epoch (verdicts h' i) = 0")
    case True
    moreover have "vs_address (verdicts h' i) = vs_address (verdicts h i)" using assms(3) [of i] by auto
    moreover have "epoch h' \<noteq> 0" using assms(1,2) by (auto simp: verdicts_ok_def)
    ultimately show ?thesis by (simp add: slot_ok_def)
  next
    case False
    then have same: "verdicts h' i = verdicts h i" using assms(3) [of i] by auto
    have "slot_ok io h i (verdicts h i)" using assms(1) by (simp add: verdicts_ok_def)
    then show ?thesis using assms(4) [of i] False same assms(2) by (auto simp: slot_ok_def)
  qed
  then show ?thesis using assms(1,2) by (simp add: verdicts_ok_def)
qed

lemma pad_action_none: "\<not> isPadWorkAreaEntry a \<Longrightarrow> pad_action io a m = None"
  by (simp add: pad_action_def padWorkAreaAction_def)

lemma machine_ok:
  assumes "verdicts_ok io h"
  shows "verdicts_ok io (h\<lparr>mach := m\<rparr>)"
proof (rule verdicts_kept [OF assms])
  fix i
  assume "vs_epoch (verdicts (h\<lparr>mach := m\<rparr>) i) \<noteq> 0" and "\<not> vs_live (verdicts (h\<lparr>mach := m\<rparr>) i)"
  then have "\<not> isPadWorkAreaEntry (vs_address (verdicts h i))" using assms by (auto simp: verdicts_ok_def slot_ok_def)
  then show "verdict io (vs_address (verdicts h i)) (h\<lparr>mach := m\<rparr>) = verdict io (vs_address (verdicts h i)) h"
    using resolve_cong [of "h\<lparr>mach := m\<rparr>" h io] by (simp add: intercept_defs pad_action_none)
qed simp_all

lemma suppression_elsewhere:
  assumes "set (suppressions h') - {key} = set (suppressions h) - {key}" and "a \<noteq> nk_address key" and "catalog h' = catalog h"
    and "natives h' = natives h" and "platform h' = platform h" and "mach h' = mach h" and "has_game h' = has_game h"
  shows "resolveHostDispatch io a h' = resolveHostDispatch io a h"
proof -
  have "suppressed \<lparr>nk_image = i, nk_address = a\<rparr> h' = suppressed \<lparr>nk_image = i, nk_address = a\<rparr> h" for i
  proof -
    have "\<lparr>nk_image = i, nk_address = a\<rparr> \<noteq> key" using assms(2) by auto
    then show ?thesis using assms(1) unfolding suppressed_def by blast
  qed
  then show ?thesis
    by (intro resolve_cong) (simp_all add: assms(3-7) intercepts_def isInstalled_def)
qed

lemma suppression_ok:
  assumes "verdicts_ok io h" and "set ks - {key} = set (suppressions h) - {key}"
  shows "verdicts_ok io (h\<lparr>suppressions := ks, verdicts := verdict_forget (nk_address key) (verdicts h)\<rparr>)"
proof (rule verdicts_kept [OF assms(1)])
  fix i
  let ?h = "h\<lparr>suppressions := ks, verdicts := verdict_forget (nk_address key) (verdicts h)\<rparr>"
  assume e: "vs_epoch (verdicts ?h i) \<noteq> 0"
  then have "i \<noteq> slotIndex (nk_address key)" by (auto simp: verdict_forget_def)
  moreover have "slotIndex (vs_address (verdicts h i)) = i"
    using assms(1) e \<open>i \<noteq> _\<close> by (auto simp: verdicts_ok_def slot_ok_def verdict_forget_def)
  ultimately have "vs_address (verdicts h i) \<noteq> nk_address key" by auto
  then show "verdict io (vs_address (verdicts h i)) ?h = verdict io (vs_address (verdicts h i)) h"
    using suppression_elsewhere [of ?h key h] assms(2) by simp
qed (auto simp: verdict_forget_def)

text \<open>Everything that moves an input of a verdict, and the lookups in between.\<close>

datatype ('d, 'n) host_op = OpActivate string GuestAddressRange u64 | OpSubtract ImageIdentity GuestAddressRange
  | OpDeactivate ImageIdentity | OpAdopt "ImageDescription list" | OpInstall NativeKey string "'n option" "Arg option"
  | OpRemove NativeKey | OpPush NativeKey | OpPop | OpBind u32 'n | OpVSync 'n u32 u32 | OpGame | OpRun "'d machine"
  | OpClassify u32

fun host_step :: "'d io_ops \<Rightarrow> ('d, 'n) host_op \<Rightarrow> ('d, 'n) host \<Rightarrow> ('d, 'n) host" where
  "host_step io (OpActivate n r x) h = h\<lparr>catalog := snd (activate n r x (catalog h))\<rparr>"
| "host_step io (OpSubtract i r) h =
     (case subtractRange i r (catalog h) of None \<Rightarrow> h | Some (_, c) \<Rightarrow> h\<lparr>catalog := c\<rparr>)"
| "host_step io (OpDeactivate i) h = h\<lparr>catalog := snd (deactivate i (catalog h))\<rparr>"
| "host_step io (OpAdopt ds) h = h\<lparr>catalog := adopt ds (catalog h)\<rparr>"
| "host_step io (OpInstall k n f p) h = snd (native_install k n f p h)"
| "host_step io (OpRemove k) h = snd (native_remove k h)"
| "host_step io (OpPush k) h = pushSuppression k h"
| "host_step io OpPop h = popSuppression h"
| "host_step io (OpBind a f) h = (case bindStock a f h of None \<Rightarrow> h | Some h1 \<Rightarrow> h1)"
| "host_step io (OpVSync f e q) h = (case bindVSync f e q h of None \<Rightarrow> h | Some h1 \<Rightarrow> h1)"
| "host_step io OpGame h = advance_epoch (h\<lparr>has_game := True\<rparr>)"
| "host_step io (OpRun m) h = h\<lparr>mach := m\<rparr>"
| "host_step io (OpClassify a) h = snd (classify io a h)"

lemma fold_append_epoch: "dispatchEpoch (fold append_residency ds c) = dispatchEpoch c"
  by (induction ds arbitrary: c) (simp_all add: append_residency_def)

lemma adopt_epoch: "dispatchEpoch (adopt ds c) = dispatchEpoch c + 1"
  by (simp add: adopt_def split_def Let_def fold_append_epoch)

lemma activate_epoch: "dispatchEpoch (snd (activate n r x c)) = dispatchEpoch c + 1"
  by (simp add: activate_def Let_def)

lemma subtract_epoch: "subtractRange i r c = Some (k, c') \<Longrightarrow> c' = c \<or> dispatchEpoch c' = dispatchEpoch c + 1"
  by (auto simp: subtractRange_def Let_def split: if_splits option.splits)

lemma deactivate_epoch: "snd (deactivate i c) = c \<or> dispatchEpoch (snd (deactivate i c)) = dispatchEpoch c + 1"
  by (auto simp: deactivate_def split: option.splits)

lemma install_epoch: "snd (native_install k n f p h) = h \<or>
    verdicts (snd (native_install k n f p h)) = verdicts h \<and> epoch (snd (native_install k n f p h)) = epoch h + 1"
  by (auto simp: native_install_def advance_epoch_def invalidate_entry_def executor_invalidate_def Let_def split: option.splits)

lemma remove_epoch: "snd (native_remove k h) = h \<or>
    verdicts (snd (native_remove k h)) = verdicts h \<and> epoch (snd (native_remove k h)) = epoch h + 1"
  by (auto simp: native_remove_def advance_epoch_def invalidate_entry_def executor_invalidate_def Let_def split: option.splits)

lemma insert_epoch: "platform_insert a f h = (True, h') \<Longrightarrow> verdicts h' = verdicts h \<and> epoch h' = epoch h + 1"
  by (auto simp: platform_insert_def advance_epoch_def Let_def split: option.splits if_splits)

lemma bind_epoch: "bindStock a f h = Some h' \<Longrightarrow> h' = h \<or> verdicts h' = verdicts h \<and> epoch h' = epoch h + 1"
  using insert_epoch [of a f h] by (auto simp: bindStock_def split: if_splits prod.splits)

lemma vsync_epoch: "bindVSync f e q h = Some h' \<Longrightarrow> h' = h \<or> verdicts h' = verdicts h \<and> epoch h' = epoch h + 1"
  using insert_epoch [of e f "h\<lparr>platform := (platform h)\<lparr>pt_vsync := Some (e, q)\<rparr>\<rparr>"]
  by (auto simp: bindVSync_def Let_def split: if_splits prod.splits option.splits)

lemma catalog_moved:
  assumes "verdicts_ok io h" and "unat (epoch h) + 1 < 2 ^ 64" and "c = catalog h \<or> dispatchEpoch c = epoch h + 1"
  shows "verdicts_ok io (h\<lparr>catalog := c\<rparr>)"
  using assms(3)
proof
  assume "c = catalog h"
  then show ?thesis using assms(1) by simp
next
  assume "dispatchEpoch c = epoch h + 1"
  then show ?thesis by (intro epoch_moved [OF assms(1) _ _ assms(2)]) simp_all
qed

lemma host_step_ok:
  assumes "verdicts_ok io h" and "unat (epoch h) + 1 < 2 ^ 64"
  shows "verdicts_ok io (host_step io op h)"
proof (cases op)
  case (OpActivate n r x)
  then show ?thesis using catalog_moved [OF assms] by (simp add: activate_epoch)
next
  case (OpSubtract i r)
  show ?thesis
  proof (cases "subtractRange i r (catalog h)")
    case None
    then show ?thesis using OpSubtract assms(1) by simp
  next
    case (Some x)
    then show ?thesis
      using OpSubtract catalog_moved [OF assms, of "snd x"] subtract_epoch [of i r "catalog h" "fst x" "snd x"]
      by (simp add: split_def)
  qed
next
  case (OpDeactivate i)
  then show ?thesis using catalog_moved [OF assms] deactivate_epoch [of i "catalog h"] by simp
next
  case (OpAdopt ds)
  then show ?thesis using catalog_moved [OF assms] by (simp add: adopt_epoch)
next
  case (OpInstall k n f p)
  then show ?thesis
    using install_epoch [of k n f p h] assms(1) by (auto intro: epoch_moved [OF assms(1) _ _ assms(2)])
next
  case (OpRemove k)
  then show ?thesis using remove_epoch [of k h] assms(1) by (auto intro: epoch_moved [OF assms(1) _ _ assms(2)])
next
  case (OpPush k)
  then show ?thesis using suppression_ok [OF assms(1), of "suppressions h @ [k]" k] by (auto simp: pushSuppression_def)
next
  case OpPop
  have "set (butlast xs) - {last xs} = set xs - {last xs}" if "xs \<noteq> []" for xs :: "NativeKey list"
    using that by (cases xs rule: rev_cases) auto
  then show ?thesis
    using OpPop assms(1) suppression_ok [OF assms(1), of "butlast (suppressions h)" "last (suppressions h)"]
    by (auto simp: popSuppression_def)
next
  case (OpBind a f)
  then show ?thesis
    using bind_epoch [of a f h] assms(1) by (auto intro: epoch_moved [OF assms(1) _ _ assms(2)] split: option.split)
next
  case (OpVSync f e q)
  then show ?thesis
    using vsync_epoch [of f e q h] assms(1) by (auto intro: epoch_moved [OF assms(1) _ _ assms(2)] split: option.split)
next
  case OpGame
  then show ?thesis by (auto intro!: epoch_moved [OF assms(1) _ _ assms(2)] simp: advance_epoch_def)
next
  case (OpRun m)
  then show ?thesis using machine_ok [OF assms(1)] by simp
next
  case (OpClassify a)
  then show ?thesis using classify_ok [OF assms(1)] by simp
qed

lemma host_step_epoch: "unat (epoch h) + 1 < 2 ^ 64 \<Longrightarrow> unat (epoch (host_step io op h)) \<le> unat (epoch h) + 1"
proof -
  assume b: "unat (epoch h) + 1 < 2 ^ 64"
  have "epoch (host_step io op h) = epoch h \<or> epoch (host_step io op h) = epoch h + 1"
  proof (cases op)
    case (OpSubtract i r)
    then show ?thesis using subtract_epoch [of i r "catalog h"] by (auto split: option.split)
  next
    case (OpDeactivate i)
    then show ?thesis using deactivate_epoch [of i "catalog h"] by auto
  next
    case (OpInstall k n f p)
    then show ?thesis using install_epoch [of k n f p h] by auto
  next
    case (OpRemove k)
    then show ?thesis using remove_epoch [of k h] by auto
  next
    case (OpBind a f)
    then show ?thesis using bind_epoch [of a f h] by (auto split: option.split)
  next
    case (OpVSync f e q)
    then show ?thesis using vsync_epoch [of f e q h] by (auto split: option.split)
  qed (auto simp: activate_epoch adopt_epoch pushSuppression_def popSuppression_def advance_epoch_def classify_def
      classifyUncached_def Let_def split: option.split)
  then show ?thesis using unat_suc [OF b] by auto
qed

lemma host_steps_ok:
  assumes "verdicts_ok io h" and "unat (epoch h) + length ops < 2 ^ 64"
  shows "verdicts_ok io (fold (host_step io) ops h)"
  using assms
proof (induction ops arbitrary: h)
  case Nil
  then show ?case by simp
next
  case (Cons op ops)
  have b: "unat (epoch h) + 1 < 2 ^ 64" using Cons.prems(2) by simp
  have "verdicts_ok io (fold (host_step io) ops (host_step io op h))"
    by (rule Cons.IH) (use host_step_ok [OF Cons.prems(1) b] host_step_epoch [OF b, of io op] Cons.prems(2) in auto)
  then show ?case by simp
qed

text \<open>A core as it is built: an empty catalog at epoch 1 and an empty cache.\<close>

definition new_host :: "'d machine \<Rightarrow> ('d, 'n) host" where
  "new_host m = \<lparr>mach = m, has_game = False, catalog = new_catalog, natives = (\<lambda>_. None), suppressions = [],
     producerAddresses = (\<lambda>_. None), producerRevision = 0,
     verdicts = (\<lambda>_. \<lparr>vs_epoch = 0, vs_address = 0, vs_kind = KindExecuteGuest, vs_live = False\<rparr>),
     platform = \<lparr>pt_leaves = [], pt_lo = 0xFFFFFFFF, pt_hi = 0, pt_vsync = None\<rparr>, pending = None, unsuspendable = None,
     stop_flag = False, sideEffectJournal = None, emission = []\<rparr>"

text \<open>
  C18: The cache is invisible: after any sequence of image loads and unloads, override installations and removals,
  suppressions, platform bindings, guest execution and earlier lookups, a classification gives what the full resolution
  gives, although only one table entry is dropped when a suppression begins or ends and no entry when guest memory
  changes. The bound keeps the 64-bit epoch from coming round.
\<close>

theorem classify_coherent:
  assumes "length ops + 1 < 2 ^ 64" and "h = fold (host_step io) ops (new_host m)"
  shows "fst (classify io a h) = kind_of (resolveHostDispatch io a h)"
proof -
  have "verdicts_ok io (new_host m)" by (simp add: verdicts_ok_def slot_ok_def new_host_def new_catalog_def)
  then have "verdicts_ok io h"
    unfolding assms(2) using assms(1) by (intro host_steps_ok) (simp_all add: new_host_def new_catalog_def)
  then show ?thesis using classify_ok by blast
qed

text \<open>An overlay override: classified, loaded over, suppressed and classified again.\<close>

abbreviation demo_ops :: "(unit, nat) host_op list" where
  "demo_ops \<equiv> [OpActivate ''main'' \<lparr>rg_begin = 0x10000, rg_end = 0x20000\<rparr> 1, OpClassify 0x80010000,
     OpInstall \<lparr>nk_image = \<lparr>im_id = 1, im_generation = 1\<rparr>, nk_address = 0x80010000\<rparr> ''update'' (Some 7) None]"

abbreviation demo_key :: NativeKey where
  "demo_key \<equiv> \<lparr>nk_image = \<lparr>im_id = 1, im_generation = 1\<rparr>, nk_address = 0x80010000\<rparr>"

lemma classify_frame:
  "catalog (snd (classify io a h)) = catalog h" "natives (snd (classify io a h)) = natives h"
  "suppressions (snd (classify io a h)) = suppressions h"
  by (simp_all add: classify_def classifyUncached_def Let_def split: option.split)

lemma install_frame:
  assumes "fst (native_install k n f p h)"
  shows "entries (catalog (snd (native_install k n f p h))) = entries (catalog h)"
    "suppressions (snd (native_install k n f p h)) = suppressions h" "natives (snd (native_install k n f p h)) k \<noteq> None"
  using assms
  by (auto simp: native_install_def advance_epoch_def invalidate_entry_def executor_invalidate_def Let_def split: option.splits if_splits)

theorem classify_coherent_witness:
  "\<forall>m. fst (classify no_devices 0x80010000 (fold (host_step no_devices) demo_ops (new_host m))) = KindHostService"
proof
  fix m
  define h1 where "h1 = snd (classify no_devices 0x80010000
    ((new_host m :: (unit, nat) host)\<lparr>catalog := snd (activate ''main'' \<lparr>rg_begin = 0x10000, rg_end = 0x20000\<rparr> 1 new_catalog)\<rparr>))"
  let ?h = "fold (host_step no_devices) demo_ops (new_host m)"
  have h: "?h = snd (native_install demo_key ''update'' (Some 7) None h1)" by (simp add: h1_def new_host_def)
  have "fst (native_install demo_key ''update'' (Some 7) None h1)"
    by (simp add: native_install_def h1_def classify_frame new_host_def)
  note i = install_frame [OF this]
  have "resolve 0x80010000 (catalog ?h) = Some \<lparr>im_id = 1, im_generation = 1\<rparr>"
    unfolding resolve_def h i(1) unfolding h1_def classify_frame
    by (simp add: activate_def new_catalog_def entry_covers_def containsPhysical_def range_valid_def physical_def kPhysicalMask_def Let_def)
  moreover have "intercepts demo_key ?h"
    using i(2,3) unfolding h by (simp add: intercept_defs h1_def classify_frame new_host_def)
  ultimately have "resolveHostDispatch no_devices 0x80010000 ?h = NativeService demo_key"
    by (simp add: resolveHostDispatch_def physical_def kPhysicalMask_def del: fold_simps)
  then show "fst (classify no_devices 0x80010000 ?h) = KindHostService"
    using classify_coherent [of demo_ops ?h no_devices m "0x80010000"] by (simp add: kind_of_def del: fold_simps)
qed

section \<open>What a replay withholds\<close>

lemma admit_replay:
  assumes "j_mode j = Replay" and "length (j_effects j) < kMaxSideEffectsPerCall" and "k \<noteq> NestedOverride"
  shows "\<exists>j1. admitHostService k a s j = (Some False, j1) \<and> j_unreplayable j1 \<noteq> None \<and>
    j_effects j1 = j_effects j @ [\<lparr>se_kind = k, se_address = a, se_width = 0, se_value = s\<rparr>]"
  using assms by (auto simp: admitHostService_def append_effect_def after_def markUnreplayable_def Let_def)

text \<open>
  While a native is compared against its recorded original, a BIOS call, a platform leaf or a pad service it makes is not
  carried out: whatever those would do, the call only returns to its caller, the service is in the log and the comparison
  is marked impossible.
\<close>

theorem replay_withholds_services:
  assumes "sideEffectJournal h = Some j" and "j_mode j = Replay" and "length (j_effects j) < kMaxSideEffectsPerCall"
    and "kind_of (resolveHostDispatch (he_io g) a h) = KindHostService"
    and "\<And>key. resolveHostDispatch (he_io g) a h \<noteq> NativeService key"
  shows "\<exists>j1. dispatchGuestHostService g a h =
      Some (exit_with GuestReturn (reg (mach h) kRa) [], set_pc (reg (mach h) kRa) (h\<lparr>sideEffectJournal := Some j1\<rparr>)) \<and>
    j_unreplayable j1 \<noteq> None \<and> (\<exists>e. j_effects j1 = j_effects j @ [e] \<and> se_address e = a)"
proof -
  let ?r = "resolveHostDispatch (he_io g) a h"
  have k: "journaledKind ?r \<noteq> NestedOverride" using assms(5) by (cases ?r) (auto simp: journaledKind_def)
  obtain j1 where j1: "admitHostService (journaledKind ?r) a (journaledSelector ?r (mach h)) j = (Some False, j1)"
    "j_unreplayable j1 \<noteq> None" "\<exists>e. j_effects j1 = j_effects j @ [e] \<and> se_address e = a"
    using admit_replay [OF assms(2,3) k, of a "journaledSelector ?r (mach h)"] by force
  then show ?thesis
    using assms(1,4) by (auto simp: dispatchGuestHostService_def admit_service_def return_to_caller_def Let_def)
qed

abbreviation replaying_host :: "'d machine \<Rightarrow> ('d, 'n) host" where
  "replaying_host m \<equiv> (new_host m)\<lparr>has_game := True, sideEffectJournal := Some (new_journal Replay [])\<rparr>"

theorem replay_withholds_services_witness:
  "\<forall>(m :: unit machine) (g :: (unit, nat) host_env). \<exists>j1. dispatchGuestHostService g 0xA0 (replaying_host m) =
     Some (exit_with GuestReturn (reg m kRa) [], set_pc (reg m kRa) ((replaying_host m)\<lparr>sideEffectJournal := Some j1\<rparr>))"
proof (intro allI)
  fix m :: "unit machine" and g :: "(unit, nat) host_env"
  let ?h = "replaying_host m :: (unit, nat) host"
  have r: "resolveHostDispatch (he_io g) 0xA0 ?h = BiosTable CHR ''A''"
    by (simp add: resolveHostDispatch_def resolve_service_def new_host_def new_catalog_def resolve_def platform_lookup_def
        bios_table_def physical_def kPhysicalMask_def)
  show "\<exists>j1. dispatchGuestHostService g 0xA0 ?h =
     Some (exit_with GuestReturn (reg m kRa) [], set_pc (reg m kRa) (?h\<lparr>sideEffectJournal := Some j1\<rparr>))"
  proof -
    have m: "mach ?h = m" by (simp add: new_host_def)
    have "\<exists>j1. dispatchGuestHostService g 0xA0 ?h =
        Some (exit_with GuestReturn (reg (mach ?h) kRa) [], set_pc (reg (mach ?h) kRa) (?h\<lparr>sideEffectJournal := Some j1\<rparr>)) \<and>
      j_unreplayable j1 \<noteq> None \<and> (\<exists>e. j_effects j1 = j_effects (new_journal Replay []) @ [e] \<and> se_address e = 0xA0)"
      by (rule replay_withholds_services; (unfold r)?)
        (simp_all add: kind_of_def new_journal_def kMaxSideEffectsPerCall_def)
    then show ?thesis unfolding m by blast
  qed
qed

end
