(* ===== verification/Machine_Snapshot.thy ===== *)
theory Machine_Snapshot
  imports Hle_Kernel
begin

text \<open>
  The snapshot the override differential takes of a machine (\<open>cpu/machine_snapshot.cpp\<close>): registers, GTE, RAM and
  scratchpad, the scan for the runs in which two memories differ, and the restore that rewrites those runs only and
  announces each as an executable write.

  The restore rewrites the memory it scans, but only behind the scan position, so its runs are those of the memory as it
  was; the model computes them first. The GTE's unrounded places, which are copied and never read here, are an argument of
  the type.
\<close>

section \<open>Differing runs\<close>

definition kSkipChunk :: nat where "kSkipChunk = 64"

text \<open>The end of the run the scan stands in.\<close>

function run_end :: "u8 list \<Rightarrow> u8 list \<Rightarrow> nat \<Rightarrow> nat \<Rightarrow> nat" where
  "run_end a b n i = (if i < n \<and> a ! i \<noteq> b ! i then run_end a b n (i + 1) else i)"
  by auto
termination by (relation "measure (\<lambda>(a, b, n, i). n - i)") auto

declare run_end.simps [simp del]

lemma run_end_step: "i < n \<Longrightarrow> a ! i \<noteq> b ! i \<Longrightarrow> run_end a b n i = run_end a b n (Suc i)"
  by (simp add: run_end.simps [of a b n i])

lemma run_end_stop: "\<not> (i < n \<and> a ! i \<noteq> b ! i) \<Longrightarrow> run_end a b n i = i"
  by (simp only: run_end.simps [of a b n i] if_False)

lemma run_end_spec:
  assumes "i \<le> n"
  shows "i \<le> run_end a b n i \<and> run_end a b n i \<le> n \<and> (\<forall>k. i \<le> k \<and> k < run_end a b n i \<longrightarrow> a ! k \<noteq> b ! k) \<and>
    (run_end a b n i < n \<longrightarrow> a ! run_end a b n i = b ! run_end a b n i)"
  using assms
proof (induction a b n i rule: run_end.induct)
  case (1 a b n i)
  show ?case
  proof (cases "i < n \<and> a ! i \<noteq> b ! i")
    case True
    then have IH: "Suc i \<le> run_end a b n (Suc i) \<and> run_end a b n (Suc i) \<le> n \<and>
        (\<forall>k. Suc i \<le> k \<and> k < run_end a b n (Suc i) \<longrightarrow> a ! k \<noteq> b ! k) \<and>
        (run_end a b n (Suc i) < n \<longrightarrow> a ! run_end a b n (Suc i) = b ! run_end a b n (Suc i))"
      using 1 by simp
    have "a ! k \<noteq> b ! k" if "i \<le> k" "k < run_end a b n (Suc i)" for k
      using that True IH by (cases "k = i") auto
    moreover have e: "run_end a b n i = run_end a b n (Suc i)" using True by (simp only: run_end_step simp_thms)
    ultimately show ?thesis unfolding e using IH by auto
  next
    case False
    have e: "run_end a b n i = i" using False by (rule run_end_stop)
    show ?thesis unfolding e using False 1(2) by auto
  qed
qed

lemma run_end_moves: "i < n \<Longrightarrow> a ! i \<noteq> b ! i \<Longrightarrow> i < run_end a b n i"
  using run_end_spec [of "Suc i" n a b] by (simp add: run_end_step)

function runs_from :: "u8 list \<Rightarrow> u8 list \<Rightarrow> nat \<Rightarrow> (nat \<times> nat) list" where
  "runs_from a b i =
     (let n = min (length a) (length b) in
      if i \<ge> n then []
      else if i + kSkipChunk \<le> n \<and> take kSkipChunk (drop i a) = take kSkipChunk (drop i b) then runs_from a b (i + kSkipChunk)
      else if a ! i = b ! i then runs_from a b (i + 1)
      else let e = run_end a b n i in (i, e - i) # runs_from a b e)"
  by auto
termination
proof (relation "measure (\<lambda>(a, b, i). min (length a) (length b) - i)")
  fix a b :: "u8 list" and i n e
  assume n: "n = min (length a) (length b)" "\<not> n \<le> i" "a ! i \<noteq> b ! i" and e: "e = run_end a b n i"
  have "i < n" using n(2) by (simp only: not_le)
  moreover have "i < e" unfolding e by (rule run_end_moves [OF \<open>i < n\<close> n(3)])
  ultimately have "n - e < n - i" by (intro diff_less_mono2)
  then show "((a, b, e), a, b, i) \<in> measure (\<lambda>(a, b, i). min (length a) (length b) - i)"
    by (simp only: in_measure split_conv n(1) [symmetric])
qed (auto simp: kSkipChunk_def)

declare runs_from.simps [simp del]

definition forEachDifferingRun :: "u8 list \<Rightarrow> u8 list \<Rightarrow> (nat \<times> nat) list" where
  "forEachDifferingRun a b = runs_from a b 0"

text \<open>The runs are apart, in order and maximal, and hold exactly the differing positions.\<close>

definition in_runs :: "(nat \<times> nat) list \<Rightarrow> nat \<Rightarrow> bool" where
  "in_runs rs p \<longleftrightarrow> (\<exists>(off, len)\<in>set rs. off \<le> p \<and> p < off + len)"

lemma in_runs_simps [simp]:
  "\<not> in_runs [] p" "in_runs ((off, len) # rs) p \<longleftrightarrow> off \<le> p \<and> p < off + len \<or> in_runs rs p"
  by (auto simp: in_runs_def)

fun runs_apart :: "nat \<Rightarrow> (nat \<times> nat) list \<Rightarrow> bool" where
  "runs_apart from [] \<longleftrightarrow> True"
| "runs_apart from ((off, len) # rs) \<longleftrightarrow> from \<le> off \<and> 0 < len \<and> runs_apart (off + len + 1) rs"

lemma runs_apart_mono: "runs_apart j rs \<Longrightarrow> i \<le> j \<Longrightarrow> runs_apart i rs"
  by (cases rs) auto

lemma chunk_equal:
  assumes "take n (drop i a) = take n (drop i b)" and "i \<le> p" and "p < i + n" and "i + n \<le> min (length a) (length b)"
  shows "a ! p = b ! p"
proof -
  obtain k where k: "p = i + k" "k < n" using assms(2,3) by (metis le_iff_add nat_add_left_cancel_less)
  then have "take n (drop i a) ! k = a ! p" "take n (drop i b) ! k = b ! p" using assms(4) by simp_all
  then show ?thesis using assms(1) by simp
qed

lemma runs_from_done: "min (length a) (length b) \<le> i \<Longrightarrow> runs_from a b i = []"
  by (simp add: runs_from.simps [of a b i] Let_def)

lemma runs_from_skip:
  "i < min (length a) (length b) \<Longrightarrow> i + kSkipChunk \<le> min (length a) (length b) \<Longrightarrow>
     take kSkipChunk (drop i a) = take kSkipChunk (drop i b) \<Longrightarrow> runs_from a b i = runs_from a b (i + kSkipChunk)"
  by (simp only: runs_from.simps [of a b i] Let_def not_le [symmetric] if_False if_True simp_thms)

lemma runs_from_same:
  "i < min (length a) (length b) \<Longrightarrow> \<not> (i + kSkipChunk \<le> min (length a) (length b) \<and>
     take kSkipChunk (drop i a) = take kSkipChunk (drop i b)) \<Longrightarrow> a ! i = b ! i \<Longrightarrow> runs_from a b i = runs_from a b (i + 1)"
  by (simp only: runs_from.simps [of a b i] Let_def not_le [symmetric] if_False if_True simp_thms)

lemma runs_from_run:
  "i < min (length a) (length b) \<Longrightarrow> \<not> (i + kSkipChunk \<le> min (length a) (length b) \<and>
     take kSkipChunk (drop i a) = take kSkipChunk (drop i b)) \<Longrightarrow> a ! i \<noteq> b ! i \<Longrightarrow>
   runs_from a b i = (i, run_end a b (min (length a) (length b)) i - i) # runs_from a b (run_end a b (min (length a) (length b)) i)"
  by (simp only: runs_from.simps [of a b i] Let_def not_le [symmetric] if_False if_True simp_thms)

definition runs_exact :: "u8 list \<Rightarrow> u8 list \<Rightarrow> nat \<Rightarrow> (nat \<times> nat) list \<Rightarrow> bool" where
  "runs_exact a b i rs \<longleftrightarrow>
     (\<forall>p. in_runs rs p \<longleftrightarrow> i \<le> p \<and> p < min (length a) (length b) \<and> a ! p \<noteq> b ! p) \<and> runs_apart i rs \<and>
     (\<forall>(off, len)\<in>set rs. off + len \<le> min (length a) (length b))"

lemma runs_exact_later:
  assumes "runs_exact a b j rs" and "i \<le> j" and "\<And>p. i \<le> p \<Longrightarrow> p < j \<Longrightarrow> p < min (length a) (length b) \<Longrightarrow> a ! p = b ! p"
  shows "runs_exact a b i rs"
proof -
  have "in_runs rs p \<longleftrightarrow> i \<le> p \<and> p < min (length a) (length b) \<and> a ! p \<noteq> b ! p" for p
  proof (cases "j \<le> p")
    case True
    then show ?thesis using assms(1,2) unfolding runs_exact_def by simp
  next
    case False
    then have "\<not> in_runs rs p" using assms(1) unfolding runs_exact_def by simp
    then show ?thesis using assms(3) [of p] False by auto
  qed
  then show ?thesis using assms(1,2) runs_apart_mono [of j rs i] by (simp add: runs_exact_def)
qed

lemma runs_exact_run:
  assumes "runs_exact a b e rs" and "i < e" and "e \<le> min (length a) (length b)" and "\<And>p. i \<le> p \<Longrightarrow> p < e \<Longrightarrow> a ! p \<noteq> b ! p"
    and "e < min (length a) (length b) \<Longrightarrow> a ! e = b ! e"
  shows "runs_exact a b i ((i, e - i) # rs)"
proof -
  have apart: "runs_apart (e + 1) rs"
  proof (cases rs)
    case (Cons r rs')
    obtain off len where r: "r = (off, len)" by (cases r)
    have "e \<le> off" "0 < len" "runs_apart (off + len + 1) rs'" using assms(1) Cons r by (simp_all add: runs_exact_def)
    moreover have "in_runs rs off" using Cons r \<open>0 < len\<close> by simp
    then have "off < min (length a) (length b)" "a ! off \<noteq> b ! off" using assms(1) unfolding runs_exact_def by blast+
    then have "off \<noteq> e" using assms(5) by auto
    ultimately show ?thesis using Cons r by simp
  qed simp
  have "in_runs ((i, e - i) # rs) p \<longleftrightarrow> i \<le> p \<and> p < min (length a) (length b) \<and> a ! p \<noteq> b ! p" for p
  proof (cases "p < e")
    case True
    then have "\<not> in_runs rs p" using assms(1) unfolding runs_exact_def by (metis not_le)
    then show ?thesis using True assms(2-4) by auto
  next
    case False
    then have "in_runs rs p \<longleftrightarrow> p < min (length a) (length b) \<and> a ! p \<noteq> b ! p"
      using assms(1) unfolding runs_exact_def by (metis not_le)
    then show ?thesis using False assms(2) by auto
  qed
  then show ?thesis using assms(1-3) apart by (simp add: runs_exact_def)
qed

lemma runs_from_exact: "runs_exact a b i (runs_from a b i)"
proof (induction a b i rule: runs_from.induct)
  case (1 a b i)
  let ?n = "min (length a) (length b)"
  let ?chunk = "i + kSkipChunk \<le> ?n \<and> take kSkipChunk (drop i a) = take kSkipChunk (drop i b)"
  show ?case
  proof (cases "i < ?n")
    case False
    then have "runs_from a b i = []" by (intro runs_from_done) (simp only: not_less)
    then show ?thesis using False by (auto simp: runs_exact_def)
  next
    case i: True
    show ?thesis
    proof (cases ?chunk)
      case True
      have later: "runs_exact a b (i + kSkipChunk) (runs_from a b (i + kSkipChunk))"
        by (rule 1(1) [OF refl _ True]) (use i in \<open>simp only: not_le\<close>)
      have eq: "a ! p = b ! p" if "i \<le> p" "p < i + kSkipChunk" for p
        by (rule chunk_equal [OF conjunct2 [OF True] that conjunct1 [OF True]])
      have "runs_exact a b i (runs_from a b (i + kSkipChunk))"
        by (rule runs_exact_later [OF later le_add1]) (rule eq)
      then show ?thesis unfolding runs_from_skip [OF i conjunct1 [OF True] conjunct2 [OF True]] .
    next
      case no: False
      show ?thesis
      proof (cases "a ! i = b ! i")
        case True
        then have "runs_exact a b (i + 1) (runs_from a b (i + 1))" using 1(2) [OF refl] i no by simp
        then have "runs_exact a b i (runs_from a b (i + 1))"
          by (rule runs_exact_later) (use True in \<open>auto simp: less_Suc_eq\<close>)
        then show ?thesis using runs_from_same [OF i no True] by simp
      next
        case False
        let ?e = "run_end a b ?n i"
        have "runs_exact a b ?e (runs_from a b ?e)" using 1(3) [OF refl _ no False refl] i by simp
        then have "runs_exact a b i ((i, ?e - i) # runs_from a b ?e)"
          by (rule runs_exact_run) (use i False run_end_moves [of i ?n a b] run_end_spec [of i ?n a b] in auto)
        then show ?thesis using runs_from_run [OF i no False] by simp
      qed
    qed
  qed
qed

text \<open>
  The scan finds exactly the positions where two memories differ, as runs that are in order, not empty and apart: the
  64-byte comparison it skips equal memory with changes nothing.
\<close>

theorem differing_runs_exact:
  "(\<forall>p. in_runs (forEachDifferingRun a b) p \<longleftrightarrow> p < min (length a) (length b) \<and> a ! p \<noteq> b ! p) \<and>
   runs_apart 0 (forEachDifferingRun a b)"
  using runs_from_exact [of a b 0] by (simp add: forEachDifferingRun_def runs_exact_def)

section \<open>Snapshots\<close>

record 'g GteRawState =
  gte_reg :: "u32 list"
  gte_flags :: u32
  gte_places :: 'g

record 'g MachineSnapshot =
  sn_gpr :: "u32 list"
  sn_hi :: u32
  sn_lo :: u32
  sn_pc :: u32
  sn_cop0 :: "u32 list"
  sn_gte :: "'g GteRawState"
  sn_ram :: "u8 list"
  sn_scratchpad :: "u8 list"

definition kCop0RegisterCount :: nat where "kCop0RegisterCount = 16"

definition snapshot :: "'d machine \<Rightarrow> 'g GteRawState \<Rightarrow> 'g MachineSnapshot" where
  "snapshot m g =
     \<lparr>sn_gpr = map (gpr (cpu m)) [0..<32], sn_hi = hi (cpu m), sn_lo = lo (cpu m), sn_pc = pc (cpu m),
      sn_cop0 = map (cop0 m) [0..<kCop0RegisterCount], sn_gte = g,
      sn_ram = copy_in (mem m) (RamAt 0) (unat kMainRamBytes),
      sn_scratchpad = copy_in (mem m) (ScratchAt 0) (unat kScratchpadBytes)\<rparr>"

text \<open>The rewriting of one region: \<open>at\<close> is its first byte, the range is announced at its physical base.\<close>

definition restore_run :: "host_loc \<Rightarrow> u8 list \<Rightarrow> u32 \<Rightarrow> nat \<times> nat \<Rightarrow> 'd core \<Rightarrow> 'd core" where
  "restore_run at saved physicalBase r c =
     (let (off, len) = r; b = physicalBase + of_nat off
      in notifyExecutableWrite (copy_out c (loc_add at off) (take len (drop off saved))) b (b + of_nat len))"

definition restoreRegion :: "host_loc \<Rightarrow> nat \<Rightarrow> u8 list \<Rightarrow> u32 \<Rightarrow> 'd core \<Rightarrow> (nat \<times> nat) \<times> 'd core" where
  "restoreRegion at size' saved physicalBase c =
     (let rs = forEachDifferingRun (copy_in c at size') saved
      in ((length rs, sum_list (map snd rs)), fold (restore_run at saved physicalBase) rs c))"

text \<open>The report of ranges and bytes written, the machine and the GTE after it.\<close>

definition restoreInto :: "'g MachineSnapshot \<Rightarrow> 'd machine \<Rightarrow> (nat \<times> nat) \<times> 'd machine \<times> 'g GteRawState" where
  "restoreInto s m =
     (let cpu' = \<lparr>gpr = (\<lambda>n. if n = 0 then 0 else if n < 32 then sn_gpr s ! n else gpr (cpu m) n),
                 hi = sn_hi s, lo = sn_lo s, pc = sn_pc s\<rparr>;
          cop0' = (\<lambda>n. if n < kCop0RegisterCount then sn_cop0 s ! n else cop0 m n);
          ((n1, b1), c1) = restoreRegion (RamAt 0) (unat kMainRamBytes) (sn_ram s) 0 (mem m);
          ((n2, b2), c2) = restoreRegion (ScratchAt 0) (unat kScratchpadBytes) (sn_scratchpad s) kScratchpadPhysicalBase c1
      in ((n1 + n2, b1 + b2), m\<lparr>cpu := cpu', cop0 := cop0', mem := c2\<rparr>, sn_gte s))"

definition region_ranges :: "u32 \<Rightarrow> u8 list \<Rightarrow> u8 list \<Rightarrow> GuestAddressRange list" where
  "region_ranges base a b =
     map (\<lambda>(off, len). \<lparr>rg_begin = base + of_nat off, rg_end = base + of_nat off + of_nat len\<rparr>) (forEachDifferingRun a b)"

definition differingRanges :: "'g MachineSnapshot \<Rightarrow> 'g MachineSnapshot \<Rightarrow> GuestAddressRange list" where
  "differingRanges a b =
     region_ranges 0 (sn_ram a) (sn_ram b) @ region_ranges kScratchpadPhysicalBase (sn_scratchpad a) (sn_scratchpad b)"

section \<open>Restoring\<close>

text \<open>One run rewrites its own bytes to the saved ones.\<close>

lemma restore_run_byte:
  assumes "off + len \<le> length saved" and "length saved \<le> 2 ^ 31"
  shows "p < length saved \<Longrightarrow> byte_at (restore_run at saved base (off, len) c) (loc_add at p) =
      (if off \<le> p \<and> p < off + len then saved ! p else byte_at c (loc_add at p))"
    and "(\<And>p. p < length saved \<Longrightarrow> q \<noteq> loc_add at p) \<Longrightarrow> byte_at (restore_run at saved base (off, len) c) q = byte_at c q"
proof -
  let ?bs = "take len (drop off saved)"
  have len: "length ?bs = len" using assms by simp
  have r: "byte_at (restore_run at saved base (off, len) c) q = byte_at (copy_out c (loc_add at off) ?bs) q" for q
    by (cases q) (simp_all add: restore_run_def notifyExecutableWrite_def Let_def)
  have other: "byte_at (restore_run at saved base (off, len) c) q = byte_at c q" if "\<And>i. i < len \<Longrightarrow> q \<noteq> loc_add at (off + i)" for q
    unfolding r by (rule byte_at_copy_out_other) (use that len in simp)
  show "byte_at (restore_run at saved base (off, len) c) (loc_add at p) =
      (if off \<le> p \<and> p < off + len then saved ! p else byte_at c (loc_add at p))" if p: "p < length saved"
  proof (cases "off \<le> p \<and> p < off + len")
    case True
    then obtain i where i: "p = off + i" "i < len" by (metis le_iff_add nat_add_left_cancel_less)
    then have "byte_at (copy_out c (loc_add at off) ?bs) (loc_add (loc_add at off) i) = ?bs ! i"
      using len assms by (intro byte_at_copy_out_at) simp_all
    also have "?bs ! i = saved ! p" using i assms by simp
    finally show ?thesis using True i by (simp add: r)
  next
    case False
    have "loc_add at p \<noteq> loc_add at (off + i)" if "i < len" for i
      using loc_add_inj [of at p "off + i"] False that assms p by auto
    then show ?thesis unfolding if_not_P [OF False] by (rule other)
  qed
  show "byte_at (restore_run at saved base (off, len) c) q = byte_at c q" if "\<And>p. p < length saved \<Longrightarrow> q \<noteq> loc_add at p"
    by (rule other) (rule that, use assms in simp)
qed

lemma restore_runs_byte:
  assumes "\<forall>(off, len)\<in>set rs. off + len \<le> length saved" and "length saved \<le> 2 ^ 31" and "p < length saved"
  shows "byte_at (fold (restore_run at saved base) rs c) (loc_add at p) =
      (if in_runs rs p then saved ! p else byte_at c (loc_add at p))"
  using assms(1)
proof (induction rs arbitrary: c)
  case Nil
  then show ?case by simp
next
  case (Cons r rs)
  obtain off len where r: "r = (off, len)" "off + len \<le> length saved" using Cons.prems by auto
  show ?case
    using Cons.IH [of "restore_run at saved base r c"] Cons.prems restore_run_byte(1) [OF r(2) assms(2,3), of at base c]
    by (auto simp: r(1))
qed

lemma restore_runs_other:
  assumes "\<forall>(off, len)\<in>set rs. off + len \<le> length saved" and "length saved \<le> 2 ^ 31"
    and "\<And>p. p < length saved \<Longrightarrow> q \<noteq> loc_add at p"
  shows "byte_at (fold (restore_run at saved base) rs c) q = byte_at c q"
  using assms(1)
proof (induction rs arbitrary: c)
  case Nil
  then show ?case by simp
next
  case (Cons r rs)
  obtain off len where r: "r = (off, len)" "off + len \<le> length saved" using Cons.prems by auto
  have "byte_at (restore_run at saved base r c) q = byte_at c q"
    unfolding r(1) by (rule restore_run_byte(2) [OF r(2) assms(2)]) (rule assms(3))
  then show ?case using Cons.IH [of "restore_run at saved base r c"] Cons.prems by simp
qed

lemma restore_runs_exec:
  "execWrites (fold (restore_run at saved base) rs c) = execWrites c @
     map (\<lambda>(off, len). invalidationOf \<lparr>rg_begin = base + of_nat off, rg_end = base + of_nat off + of_nat len\<rparr>) rs"
  by (induction rs arbitrary: c)
    (auto simp: restore_run_def notifyExecutableWrite_def frame_simps Let_def)

lemma restore_runs_dev: "dev (fold (restore_run at saved base) rs c) = dev c"
  by (induction rs arbitrary: c) (auto simp: restore_run_def notifyExecutableWrite_def frame_simps Let_def)

text \<open>A region after its restore: its bytes are the saved ones, every other byte is as it was.\<close>

lemma restoreRegion_spec:
  assumes "length saved = n" and "n \<le> 2 ^ 31"
  shows "copy_in (snd (restoreRegion at n saved base c)) at n = saved"
    and "(\<And>p. p < n \<Longrightarrow> q \<noteq> loc_add at p) \<Longrightarrow> byte_at (snd (restoreRegion at n saved base c)) q = byte_at c q"
    and "execWrites (snd (restoreRegion at n saved base c)) =
      execWrites c @ map invalidationOf (region_ranges base (copy_in c at n) saved)"
proof -
  let ?rs = "forEachDifferingRun (copy_in c at n) saved"
  have ex: "runs_exact (copy_in c at n) saved 0 ?rs" by (simp add: forEachDifferingRun_def runs_from_exact)
  then have fit: "\<forall>(off, len)\<in>set ?rs. off + len \<le> length saved" using assms(1) by (auto simp: runs_exact_def)
  have s: "snd (restoreRegion at n saved base c) = fold (restore_run at saved base) ?rs c"
    by (simp add: restoreRegion_def Let_def)
  have len: "length saved \<le> 2 ^ 31" using assms by simp
  show "copy_in (snd (restoreRegion at n saved base c)) at n = saved"
  proof (rule nth_equalityI)
    fix p
    assume "p < length (copy_in (snd (restoreRegion at n saved base c)) at n)"
    then have p: "p < n" "p < length saved" using assms(1) by simp_all
    show "copy_in (snd (restoreRegion at n saved base c)) at n ! p = saved ! p"
      using restore_runs_byte [OF fit len p(2), of at base c] ex p by (auto simp: s runs_exact_def)
  qed (simp add: assms)
  show "byte_at (snd (restoreRegion at n saved base c)) q = byte_at c q" if "\<And>p. p < n \<Longrightarrow> q \<noteq> loc_add at p"
    unfolding s by (rule restore_runs_other [OF fit len]) (use that assms(1) in simp)
  show "execWrites (snd (restoreRegion at n saved base c)) =
      execWrites c @ map invalidationOf (region_ranges base (copy_in c at n) saved)"
    unfolding s restore_runs_exec by (auto simp: region_ranges_def)
qed

definition snapshot_sizes :: "'g MachineSnapshot \<Rightarrow> bool" where
  "snapshot_sizes s \<longleftrightarrow> length (sn_gpr s) = 32 \<and> length (sn_cop0 s) = kCop0RegisterCount \<and>
     length (sn_ram s) = unat kMainRamBytes \<and> length (sn_scratchpad s) = unat kScratchpadBytes"

lemma snapshot_sizes_snapshot [simp]: "snapshot_sizes (snapshot m g)"
  by (simp add: snapshot_sizes_def snapshot_def)

lemma restored_exactly:
  assumes "snapshot_sizes s" and "restoreInto s m = (report, m', g')"
  shows "snapshot m' g' = s\<lparr>sn_gpr := (sn_gpr s)[0 := 0]\<rparr> \<and>
    execWrites (mem m') = execWrites (mem m) @ map invalidationOf (differingRanges (snapshot m g) s) \<and>
    dev (mem m') = dev (mem m) \<and> hle m' = hle m \<and> dmar m' = dmar m"
proof -
  define c1 where "c1 = snd (restoreRegion (RamAt 0) (unat kMainRamBytes) (sn_ram s) 0 (mem m))"
  define c2 where "c2 = snd (restoreRegion (ScratchAt 0) (unat kScratchpadBytes) (sn_scratchpad s) kScratchpadPhysicalBase c1)"
  have len: "length (sn_ram s) = unat kMainRamBytes" "length (sn_scratchpad s) = unat kScratchpadBytes"
    "unat kMainRamBytes \<le> 2 ^ 31" "unat kScratchpadBytes \<le> 2 ^ 31"
    using assms(1) by (simp_all add: snapshot_sizes_def map_consts)
  note r1 = restoreRegion_spec [OF len(1,3), where c = "mem m" and base = 0 and at = "RamAt 0", folded c1_def]
  note r2 = restoreRegion_spec [OF len(2,4), where c = c1 and base = kScratchpadPhysicalBase and at = "ScratchAt 0", folded c2_def]
  have m': "mem m' = c2" "g' = sn_gte s" "hle m' = hle m" "dmar m' = dmar m"
    "cpu m' = \<lparr>gpr = (\<lambda>n. if n = 0 then 0 else if n < 32 then sn_gpr s ! n else gpr (cpu m) n), hi = sn_hi s, lo = sn_lo s,
      pc = sn_pc s\<rparr>" "cop0 m' = (\<lambda>n. if n < kCop0RegisterCount then sn_cop0 s ! n else cop0 m n)"
    using assms(2) by (auto simp: restoreInto_def c1_def c2_def Let_def split_def)
  have "byte_at c2 (loc_add (RamAt 0) p) = byte_at c1 (loc_add (RamAt 0) p)" for p by (rule r2(2)) simp
  then have ram: "copy_in c2 (RamAt 0) (unat kMainRamBytes) = sn_ram s" using r1(1) by (simp add: copy_in_def)
  have "byte_at c1 (loc_add (ScratchAt 0) p) = byte_at (mem m) (loc_add (ScratchAt 0) p)" for p by (rule r1(2)) simp
  then have scr: "copy_in c1 (ScratchAt 0) (unat kScratchpadBytes) = copy_in (mem m) (ScratchAt 0) (unat kScratchpadBytes)"
    by (simp add: copy_in_def)
  have gprs: "map (\<lambda>n. if n = 0 then 0 else if n < 32 then sn_gpr s ! n else gpr (cpu m) n) [0..<32] = (sn_gpr s)[0 := 0]"
    using assms(1) by (intro nth_equalityI) (auto simp: snapshot_sizes_def nth_list_update)
  have cops: "map (\<lambda>n. if n < kCop0RegisterCount then sn_cop0 s ! n else cop0 m n) [0..<kCop0RegisterCount] = sn_cop0 s"
    using assms(1) by (intro nth_equalityI) (auto simp: snapshot_sizes_def)
  have "snapshot m' g' = s\<lparr>sn_gpr := (sn_gpr s)[0 := 0]\<rparr>"
    unfolding snapshot_def m' using gprs cops ram r2(1) by simp
  moreover have "execWrites (mem m') = execWrites (mem m) @ map invalidationOf (differingRanges (snapshot m g) s)"
    using r1(3) r2(3) scr by (simp add: m'(1) differingRanges_def snapshot_def)
  moreover have "dev (mem m') = dev (mem m)"
    by (simp add: m'(1) c1_def c2_def restoreRegion_def Let_def restore_runs_dev)
  ultimately show ?thesis using m' by simp
qed

text \<open>The runs in which two memories differ: apart, in order, none empty, and holding the differing positions and no other.\<close>

definition exact_runs :: "u8 list \<Rightarrow> u8 list \<Rightarrow> (nat \<times> nat) list \<Rightarrow> bool" where
  "exact_runs a b rs \<longleftrightarrow> (\<forall>p. in_runs rs p \<longleftrightarrow> p < min (length a) (length b) \<and> a ! p \<noteq> b ! p) \<and> runs_apart 0 rs"

definition run_ranges :: "u32 \<Rightarrow> (nat \<times> nat) list \<Rightarrow> GuestAddressRange list" where
  "run_ranges base rs =
     map (\<lambda>(off, len). \<lparr>rg_begin = base + of_nat off, rg_end = base + of_nat off + of_nat len\<rparr>) rs"

lemma exact_runs_scan: "exact_runs a b (forEachDifferingRun a b)"
  using differing_runs_exact [of a b] by (simp add: exact_runs_def)

lemma restored_report:
  assumes "snapshot_sizes s" and "restoreInto s m = (report, m', g')"
  shows "report =
    (let ram = forEachDifferingRun (sn_ram (snapshot m g)) (sn_ram s);
         scr = forEachDifferingRun (sn_scratchpad (snapshot m g)) (sn_scratchpad s)
     in (length ram + length scr, sum_list (map snd ram) + sum_list (map snd scr)))"
proof -
  define c1 where "c1 = snd (restoreRegion (RamAt 0) (unat kMainRamBytes) (sn_ram s) 0 (mem m))"
  have len: "length (sn_ram s) = unat kMainRamBytes" "unat kMainRamBytes \<le> 2 ^ 31"
    using assms(1) by (simp_all add: snapshot_sizes_def map_consts)
  note r1 = restoreRegion_spec(2) [OF len, where c = "mem m" and base = 0 and at = "RamAt 0", folded c1_def]
  have "byte_at c1 (loc_add (ScratchAt 0) p) = byte_at (mem m) (loc_add (ScratchAt 0) p)" for p by (rule r1) simp
  then have scr: "copy_in c1 (ScratchAt 0) (unat kScratchpadBytes) = copy_in (mem m) (ScratchAt 0) (unat kScratchpadBytes)"
    by (simp add: copy_in_def)
  show ?thesis
    using assms(2) scr by (auto simp: restoreInto_def restoreRegion_def c1_def snapshot_def Let_def split_def)
qed

text \<open>
  C34: Restoring a snapshot into any machine makes the machine's snapshot that one again, register zero excepted, which reads
  zero. The ranges announced as executable writes are the maximal runs of changed bytes of RAM and of the scratchpad, in
  order: every byte that differed lies in one, every byte of one differed, and no two touch; the report counts those runs and
  their bytes. Nothing outside registers and memory changes.
\<close>

theorem restore_exact:
  assumes "snapshot_sizes s" and "restoreInto s m = (report, m', g')"
  shows "snapshot m' g' = s\<lparr>sn_gpr := (sn_gpr s)[0 := 0]\<rparr> \<and>
    (\<exists>ram scr. exact_runs (sn_ram (snapshot m g)) (sn_ram s) ram \<and>
       exact_runs (sn_scratchpad (snapshot m g)) (sn_scratchpad s) scr \<and>
       execWrites (mem m') =
         execWrites (mem m) @ map invalidationOf (run_ranges 0 ram @ run_ranges kScratchpadPhysicalBase scr) \<and>
       differingRanges (snapshot m g) s = run_ranges 0 ram @ run_ranges kScratchpadPhysicalBase scr \<and>
       report = (length ram + length scr, sum_list (map snd ram) + sum_list (map snd scr))) \<and>
    dev (mem m') = dev (mem m) \<and> hle m' = hle m \<and> dmar m' = dmar m"
proof -
  let ?ram = "forEachDifferingRun (sn_ram (snapshot m g)) (sn_ram s)"
  let ?scr = "forEachDifferingRun (sn_scratchpad (snapshot m g)) (sn_scratchpad s)"
  have r: "differingRanges (snapshot m g) s = run_ranges 0 ?ram @ run_ranges kScratchpadPhysicalBase ?scr"
    by (simp add: differingRanges_def region_ranges_def run_ranges_def)
  have "report = (length ?ram + length ?scr, sum_list (map snd ?ram) + sum_list (map snd ?scr))"
    using restored_report [OF assms, of g] by (simp add: Let_def)
  then show ?thesis
    using restored_exactly [OF assms, of g] r by (intro conjI exI [of _ ?ram] exI [of _ ?scr]) (simp_all add: exact_runs_scan)
qed

text \<open>A word of scratchpad changed after the snapshot was taken is announced, and comes back.\<close>

theorem restore_exact_witness:
  "\<forall>(m :: unit machine) (m0 :: unit machine) (g0 :: unit GteRawState). \<exists>scr.
     exact_runs (sn_scratchpad (snapshot m g0)) (sn_scratchpad (snapshot m0 g0)) scr \<and>
     (case restoreInto (snapshot m0 g0) m of (_, m', g') \<Rightarrow>
        sn_ram (snapshot m' g') = sn_ram (snapshot m0 g0) \<and>
        set (map invalidationOf (run_ranges kScratchpadPhysicalBase scr)) \<subseteq> set (execWrites (mem m')))"
proof (intro allI)
  fix m m0 :: "unit machine" and g0 :: "unit GteRawState"
  show "\<exists>scr. exact_runs (sn_scratchpad (snapshot m g0)) (sn_scratchpad (snapshot m0 g0)) scr \<and>
     (case restoreInto (snapshot m0 g0) m of (_, m', g') \<Rightarrow>
        sn_ram (snapshot m' g') = sn_ram (snapshot m0 g0) \<and>
        set (map invalidationOf (run_ranges kScratchpadPhysicalBase scr)) \<subseteq> set (execWrites (mem m')))"
  proof (cases "restoreInto (snapshot m0 g0) m" rule: prod_cases3)
    case (fields report m' g')
    obtain ram scr where "exact_runs (sn_scratchpad (snapshot m g0)) (sn_scratchpad (snapshot m0 g0)) scr"
      "execWrites (mem m') =
         execWrites (mem m) @ map invalidationOf (run_ranges 0 ram @ run_ranges kScratchpadPhysicalBase scr)"
      "sn_ram (snapshot m' g') = sn_ram (snapshot m0 g0)"
      using restore_exact [OF snapshot_sizes_snapshot fields, of g0] by auto
    then show ?thesis unfolding fields by (intro exI [of _ scr]) auto
  qed
qed

end
