(* ===== verification/Override_Differential.thy ===== *)
theory Override_Differential
  imports Machine_Snapshot Native_Dispatch
begin

text \<open>
  The override differential (\<open>cpu/override_differential.cpp\<close>): a sampled call of a native override is run twice, the
  original live under a recording journal and the native from the restored entry state under a replaying one, the two
  ends are judged by the O32 contract (\<open>cpu/override_differential_contract.cpp\<close>), and the run continues from the
  original's state.

  The running of the original to its exit and of the native body are arguments. A difference and a reason are values here
  and become text in the report, which is not modelled; counters are natural numbers.
\<close>

section \<open>Outcomes\<close>

datatype DifferentialVerdict = Match | Mismatch | Incomparable

datatype difference = DiffPc u32 u32 | DiffRegister nat u32 u32 | DiffStatus u32 u32 | DiffGte nat u32 u32
  | DiffMemory GuestAddressRange "u8 list" "u8 list" | DiffEffect nat "SideEffect option" "SideEffect option"
  | DiffExit ExecutionExitReason u32

datatype outcome_reason = DidNotReturn ExecutionExitReason u32 | CannotReplay unreplayable_reason
  | BoundReached string u32 JournalBoundViolation

definition kListedFurtherDifferences :: nat where "kListedFurtherDifferences = 8"

record DifferentialOutcome =
  oc_verdict :: DifferentialVerdict
  oc_difference :: "difference option"
  oc_further :: "difference list"
  oc_reason :: "outcome_reason option"
  registersDiffering :: nat
  memoryRangesDiffering :: nat
  memoryBytesDiffering :: nat
  deadStackBytesIgnored :: nat
  sideEffectsOriginal :: nat
  sideEffectsNative :: nat

definition new_outcome :: DifferentialOutcome where
  "new_outcome = \<lparr>oc_verdict = Match, oc_difference = None, oc_further = [], oc_reason = None, registersDiffering = 0,
     memoryRangesDiffering = 0, memoryBytesDiffering = 0, deadStackBytesIgnored = 0, sideEffectsOriginal = 0,
     sideEffectsNative = 0\<rparr>"

section \<open>The contract\<close>

record 'g CallObservation =
  ob_state :: "'g MachineSnapshot"
  ob_result :: ExecutionResult
  ob_effects :: "SideEffect list"

text \<open>v0, v1, s0 to s7, gp, sp, fp and ra.\<close>

definition kO32PreservedOrResultRegisters :: "nat list" where
  "kO32PreservedOrResultRegisters = [2, 3, 16, 17, 18, 19, 20, 21, 22, 23, kGp, kSp, kFp, kRa]"

definition deadStackWindow :: "u32 \<Rightarrow> u32 \<Rightarrow> GuestAddressRange" where
  "deadStackWindow entrySp bytes =
     (let address = physical entrySp;
          window = (\<lambda>base top. \<lparr>rg_begin = top - min bytes (top - base), rg_end = top\<rparr>)
      in if address < kRamMirrorSpan then window 0 (the (mainRamOffset address))
         else if address \<ge> kScratchpadPhysicalBase \<and> address \<le> kScratchpadPhysicalBase + kScratchpadBytes
           then window kScratchpadPhysicalBase address
         else \<lparr>rg_begin = 0, rg_end = 0\<rparr>)"

definition bytes_shown :: "'g MachineSnapshot \<Rightarrow> GuestAddressRange \<Rightarrow> u8 list" where
  "bytes_shown s r =
     take (min (unat (rg_end r - rg_begin r)) 16)
       (if rg_begin r \<ge> kScratchpadPhysicalBase then drop (unat (rg_begin r - kScratchpadPhysicalBase)) (sn_scratchpad s)
        else drop (unat (rg_begin r)) (sn_ram s))"

text \<open>VZn and IRn read as signed halfwords, OTZ and SZn as unsigned ones.\<close>

definition architecturalGte :: "'g GteRawState \<Rightarrow> u32 list" where
  "architecturalGte g =
     map (\<lambda>i. let v = gte_reg g ! i in
       if i \<in> {1, 3, 5, 8, 9, 10, 11} then scast (ucast v :: 16 word)
       else if i \<in> {7, 16, 17, 18, 19} then v AND 0xFFFF else v) [0..<64]"

definition noteFirst :: "difference \<Rightarrow> DifferentialOutcome \<Rightarrow> DifferentialOutcome" where
  "noteFirst d o' =
     (if oc_difference o' = None then o'\<lparr>oc_difference := Some d\<rparr>
      else if length (oc_further o') < kListedFurtherDifferences then o'\<lparr>oc_further := oc_further o' @ [d]\<rparr>
      else o')"

definition note_register :: "difference \<Rightarrow> DifferentialOutcome \<Rightarrow> DifferentialOutcome" where
  "note_register d o' = noteFirst d (o'\<lparr>registersDiffering := registersDiffering o' + 1\<rparr>)"

definition register_differences :: "'g CallObservation \<Rightarrow> 'g CallObservation \<Rightarrow> difference list" where
  "register_differences original native =
     (let a = ob_state original; b = ob_state native in
      (if ex_pc (ob_result original) \<noteq> ex_pc (ob_result native)
       then [DiffPc (ex_pc (ob_result original)) (ex_pc (ob_result native))] else []) @
      map (\<lambda>i. DiffRegister i (sn_gpr a ! i) (sn_gpr b ! i))
        (filter (\<lambda>i. sn_gpr a ! i \<noteq> sn_gpr b ! i) kO32PreservedOrResultRegisters) @
      (if sn_cop0 a ! kCop0Status \<noteq> sn_cop0 b ! kCop0Status
       then [DiffStatus (sn_cop0 a ! kCop0Status) (sn_cop0 b ! kCop0Status)] else []) @
      map (\<lambda>i. DiffGte i (architecturalGte (sn_gte a) ! i) (architecturalGte (sn_gte b) ! i))
        (filter (\<lambda>i. architecturalGte (sn_gte a) ! i \<noteq> architecturalGte (sn_gte b) ! i) [0..<64]))"

definition compareRegisters :: "'g CallObservation \<Rightarrow> 'g CallObservation \<Rightarrow> DifferentialOutcome \<Rightarrow> DifferentialOutcome" where
  "compareRegisters original native = fold note_register (register_differences original native)"

definition judgeRange :: "'g CallObservation \<Rightarrow> 'g CallObservation \<Rightarrow> GuestAddressRange \<Rightarrow> DifferentialOutcome \<Rightarrow> DifferentialOutcome" where
  "judgeRange original native r o' =
     (if rg_end r \<le> rg_begin r then o'
      else noteFirst (DiffMemory r (bytes_shown (ob_state original) r) (bytes_shown (ob_state native) r))
        (o'\<lparr>memoryRangesDiffering := memoryRangesDiffering o' + 1,
           memoryBytesDiffering := memoryBytesDiffering o' + unat (rg_end r - rg_begin r)\<rparr>))"

definition judge_outside :: "'g CallObservation \<Rightarrow> 'g CallObservation \<Rightarrow> GuestAddressRange \<Rightarrow> GuestAddressRange \<Rightarrow>
    DifferentialOutcome \<Rightarrow> DifferentialOutcome" where
  "judge_outside original native dead r o' =
     (let ob = max (rg_begin r) (rg_begin dead); oe = min (rg_end r) (rg_end dead)
      in if ob \<ge> oe then judgeRange original native r o'
         else judgeRange original native \<lparr>rg_begin = oe, rg_end = rg_end r\<rparr>
                (judgeRange original native \<lparr>rg_begin = rg_begin r, rg_end = ob\<rparr>
                  (o'\<lparr>deadStackBytesIgnored := deadStackBytesIgnored o' + unat (oe - ob)\<rparr>)))"

definition compareMemory :: "'g CallObservation \<Rightarrow> 'g CallObservation \<Rightarrow> GuestAddressRange \<Rightarrow> DifferentialOutcome \<Rightarrow> DifferentialOutcome" where
  "compareMemory original native dead = fold (judge_outside original native dead) (differingRanges (ob_state original) (ob_state native))"

text \<open>The first position where the logs differ, the end of the shorter one included.\<close>

definition compareSideEffects :: "'g CallObservation \<Rightarrow> 'g CallObservation \<Rightarrow> DifferentialOutcome \<Rightarrow> DifferentialOutcome" where
  "compareSideEffects original native o' =
     (let a = ob_effects original; b = ob_effects native; common = min (length a) (length b);
          at = (\<lambda>xs i. if i < length xs then Some (xs ! i) else None)
      in case List.find (\<lambda>i. a ! i \<noteq> b ! i) [0..<common] of
           Some i \<Rightarrow> noteFirst (DiffEffect i (at a i) (at b i)) o'
         | None \<Rightarrow> if length a \<noteq> length b then noteFirst (DiffEffect common (at a common) (at b common)) o' else o')"

definition judgeCompletedCall :: "'g CallObservation \<Rightarrow> 'g CallObservation \<Rightarrow> u32 \<Rightarrow> u32 \<Rightarrow> DifferentialOutcome" where
  "judgeCompletedCall original native entrySp deadBytes =
     (let o1 = new_outcome\<lparr>sideEffectsOriginal := length (ob_effects original), sideEffectsNative := length (ob_effects native)\<rparr>;
          o2 = compareRegisters original native o1;
          o3 = compareMemory original native (deadStackWindow entrySp deadBytes) o2;
          o4 = compareSideEffects original native o3
      in o4\<lparr>oc_verdict := (if oc_difference o4 \<noteq> None then Mismatch else Match)\<rparr>)"

section \<open>Sampling and statistics\<close>

record DifferentialSelector =
  sel_text :: string
  sel_address :: "u32 option"

record OverrideDifferentialConfig =
  selectors :: "DifferentialSelector list"
  firstCalls :: nat
  everyKth :: nat
  deadStackBytes :: u32

record DifferentialKeyStats =
  ks_key :: NativeKey
  ks_name :: string
  callsSeen :: nat
  sampled :: nat
  matches_seen :: nat
  mismatches :: nat
  incomparables :: nat
  incomparableByReason :: "outcome_reason \<Rightarrow> nat"
  ks_deadStackBytes :: nat
  restoredRanges :: nat
  firstMismatch :: "(nat \<times> DifferentialOutcome) option"
  lastVerdict :: "DifferentialVerdict option"
  largestSampledCallEffects :: nat
  largestSampledCallNumber :: nat
  journalBoundFaults :: nat
  firstJournalBoundFault :: "JournalBoundViolation option"

record differential_state =
  od_config :: OverrideDifferentialConfig
  od_keys :: "DifferentialKeyStats list"
  od_shadowing :: bool

definition selector_matches :: "u32 \<Rightarrow> string \<Rightarrow> DifferentialSelector \<Rightarrow> bool" where
  "selector_matches entry name s = (case sel_address s of Some a \<Rightarrow> entry = a | None \<Rightarrow> name = sel_text s)"

definition selects :: "NativeKey \<Rightarrow> string \<Rightarrow> differential_state \<Rightarrow> bool" where
  "selects key name o' = list_ex (selector_matches (nk_address key) name) (selectors (od_config o'))"

definition sampledFor :: "DifferentialSelector \<Rightarrow> differential_state \<Rightarrow> nat" where
  "sampledFor s o' = sum_list (map sampled (filter (\<lambda>k. selector_matches (nk_address (ks_key k)) (ks_name k) s) (od_keys o')))"

definition new_stats :: "NativeKey \<Rightarrow> string \<Rightarrow> DifferentialKeyStats" where
  "new_stats key name = \<lparr>ks_key = key, ks_name = name, callsSeen = 0, sampled = 0, matches_seen = 0, mismatches = 0,
     incomparables = 0, incomparableByReason = (\<lambda>_. 0), ks_deadStackBytes = 0, restoredRanges = 0, firstMismatch = None,
     lastVerdict = None, largestSampledCallEffects = 0, largestSampledCallNumber = 0, journalBoundFaults = 0,
     firstJournalBoundFault = None\<rparr>"

definition statsFor :: "NativeKey \<Rightarrow> string \<Rightarrow> differential_state \<Rightarrow> nat \<times> differential_state" where
  "statsFor key name o' =
     (case find_index (\<lambda>k. ks_key k = key) (od_keys o') of
        Some i \<Rightarrow> (i, o')
      | None \<Rightarrow> (length (od_keys o'), o'\<lparr>od_keys := od_keys o' @ [new_stats key name]\<rparr>))"

definition samples :: "OverrideDifferentialConfig \<Rightarrow> DifferentialKeyStats \<Rightarrow> bool" where
  "samples cfg s \<longleftrightarrow> callsSeen s \<le> firstCalls cfg \<or> (everyKth cfg \<noteq> 0 \<and> callsSeen s mod everyKth cfg = 0)"

text \<open>The log lines and the report written when a verdict changes are left out.\<close>

definition record_outcome :: "DifferentialOutcome \<Rightarrow> DifferentialKeyStats \<Rightarrow> DifferentialKeyStats" where
  "record_outcome o' s =
     (let s1 = (case oc_verdict o' of
                  Match \<Rightarrow> s\<lparr>matches_seen := matches_seen s + 1\<rparr>
                | Mismatch \<Rightarrow>
                    s\<lparr>mismatches := mismatches s + 1,
                      firstMismatch := (if firstMismatch s = None then Some (callsSeen s, o') else firstMismatch s)\<rparr>
                | Incomparable \<Rightarrow>
                    s\<lparr>incomparables := incomparables s + 1,
                      incomparableByReason := (case oc_reason o' of
                          None \<Rightarrow> incomparableByReason s
                        | Some r \<Rightarrow> (incomparableByReason s)(r := incomparableByReason s r + 1))\<rparr>)
      in s1\<lparr>ks_deadStackBytes := ks_deadStackBytes s1 + deadStackBytesIgnored o', lastVerdict := Some (oc_verdict o')\<rparr>)"

definition incomparable :: "outcome_reason \<Rightarrow> DifferentialOutcome" where
  "incomparable r = new_outcome\<lparr>oc_verdict := Incomparable, oc_reason := Some r\<rparr>"

definition journalBoundFault :: "DifferentialKeyStats \<Rightarrow> JournalBoundViolation \<Rightarrow> nat \<Rightarrow> DifferentialOutcome" where
  "journalBoundFault s v journaled =
     new_outcome\<lparr>oc_verdict := Mismatch, oc_reason := Some (BoundReached (ks_name s) (nk_address (ks_key s)) v),
       sideEffectsOriginal := journaled\<rparr>"

section \<open>Shadowing a call\<close>

record ('d, 'n, 'g) diff_core =
  dc_host :: "('d, 'n) host"
  dc_gte :: "'g GteRawState"

definition capture :: "('d, 'n, 'g) diff_core \<Rightarrow> 'g MachineSnapshot" where
  "capture c = snapshot (mach (dc_host c)) (dc_gte c)"

definition restore :: "'g MachineSnapshot \<Rightarrow> ('d, 'n, 'g) diff_core \<Rightarrow> nat \<times> ('d, 'n, 'g) diff_core" where
  "restore s c =
     (let ((ranges, _), m, g) = restoreInto s (mach (dc_host c))
      in (ranges, c\<lparr>dc_host := (dc_host c)\<lparr>mach := m\<rparr>, dc_gte := g\<rparr>))"

definition with_journal :: "journal option \<Rightarrow> ('d, 'n, 'g) diff_core \<Rightarrow> ('d, 'n, 'g) diff_core" where
  "with_journal j c = c\<lparr>dc_host := (dc_host c)\<lparr>sideEffectJournal := j\<rparr>\<rparr>"

text \<open>A run under a journal (\<open>SideEffectJournal::Scope\<close>): the run, the journal it leaves, the previous one put back.\<close>

definition under_journal :: "journal \<Rightarrow> (('d, 'n, 'g) diff_core \<Rightarrow> 'r \<times> ('d, 'n, 'g) diff_core) \<Rightarrow> ('d, 'n, 'g) diff_core \<Rightarrow>
    'r \<times> journal \<times> ('d, 'n, 'g) diff_core" where
  "under_journal j run c =
     (let (r, c1) = run (with_journal (Some j) c)
      in (r, (case sideEffectJournal (dc_host c1) of Some j1 \<Rightarrow> j1 | None \<Rightarrow> j),
          with_journal (sideEffectJournal (dc_host c)) c1))"

text \<open>
  \<open>run_original\<close> is \<open>callOriginalResumingToExit\<close>, \<open>run_native\<close> is \<open>invokeNativeFunction\<close> with the journal's exception
  caught: no result when it was thrown.
\<close>

definition shadow :: "u32 \<Rightarrow> (('d, 'n, 'g) diff_core \<Rightarrow> ExecutionResult \<times> ('d, 'n, 'g) diff_core) \<Rightarrow>
    (('d, 'n, 'g) diff_core \<Rightarrow> ExecutionResult option \<times> ('d, 'n, 'g) diff_core) \<Rightarrow> DifferentialKeyStats \<Rightarrow> ('d, 'n, 'g) diff_core \<Rightarrow>
    ExecutionResult \<times> DifferentialKeyStats \<times> ('d, 'n, 'g) diff_core" where
  "shadow deadBytes run_original run_native s c =
     (let entrySp = reg (mach (dc_host c)) kSp;
          entry = capture c;
          (original, live, c1) = under_journal (new_journal Record []) run_original c
      in if \<not> returned original
         then (original, record_outcome (incomparable (DidNotReturn (ex_reason original) (ex_pc original))) s, c1)
         else
           let original' = original\<lparr>ex_cycles := 0\<rparr> in
           case j_unreplayable live of
             Some reason \<Rightarrow> (original', record_outcome (incomparable (CannotReplay reason)) s, c1)
           | None \<Rightarrow>
               (case j_boundViolation live of
                  Some v \<Rightarrow> (original', record_outcome (journalBoundFault s v (length (j_effects live))) s, c1)
                | None \<Rightarrow>
                    let s1 = (if length (j_effects live) > largestSampledCallEffects s
                              then s\<lparr>largestSampledCallEffects := length (j_effects live), largestSampledCallNumber := callsSeen s\<rparr>
                              else s);
                        afterOriginal = capture c1;
                        (n1, c2) = restore entry c1;
                        s2 = s1\<lparr>restoredRanges := restoredRanges s1 + n1\<rparr>;
                        (native, replay, c3) = under_journal (new_journal Replay (j_effects live)) run_native c2;
                        afterNative = capture c3;
                        (n2, c4) = restore afterOriginal c3;
                        s3 = s2\<lparr>restoredRanges := restoredRanges s2 + n2\<rparr>
                    in (original',
                        (case native of
                           None \<Rightarrow>
                             let v = (case j_boundViolation replay of
                                        Some v \<Rightarrow> v
                                      | None \<Rightarrow> \<lparr>bv_mode = Record, bv_offending = \<lparr>se_kind = DeviceRead, se_address = 0,
                                           se_width = 0, se_value = 0\<rparr>, bv_effects = 0, bv_refused = 0, bv_stoppedCall = False\<rparr>);
                                 s4 = s3\<lparr>journalBoundFaults := journalBoundFaults s3 + 1,
                                        firstJournalBoundFault := (if firstJournalBoundFault s3 = None then j_boundViolation replay
                                                                   else firstJournalBoundFault s3)\<rparr>
                             in record_outcome (journalBoundFault s4 v (length (j_effects replay))) s4
                         | Some result \<Rightarrow>
                             (case j_unreplayable replay of
                                Some reason \<Rightarrow> record_outcome (incomparable (CannotReplay reason)) s3
                              | None \<Rightarrow>
                                  if \<not> returned result
                                  then record_outcome (new_outcome\<lparr>oc_verdict := Mismatch,
                                         oc_difference := Some (DiffExit (ex_reason result) (ex_pc result))\<rparr>) s3
                                  else record_outcome (judgeCompletedCall
                                         \<lparr>ob_state = afterOriginal, ob_result = original', ob_effects = j_effects live\<rparr>
                                         \<lparr>ob_state = afterNative, ob_result = result, ob_effects = j_effects replay\<rparr>
                                         entrySp deadBytes) s3)),
                        c4)))"

text \<open>
  The dispatcher's hook. A selected override reached inside either run sees the flag and is not shadowed, so the runs
  leave the statistics alone.
\<close>

definition intercept_call :: "NativeKey \<Rightarrow> string \<Rightarrow> (('d, 'n, 'g) diff_core \<Rightarrow> ExecutionResult \<times> ('d, 'n, 'g) diff_core) \<Rightarrow>
    (('d, 'n, 'g) diff_core \<Rightarrow> ExecutionResult option \<times> ('d, 'n, 'g) diff_core) \<Rightarrow> differential_state \<Rightarrow> ('d, 'n, 'g) diff_core \<Rightarrow>
    ExecutionResult option \<times> differential_state \<times> ('d, 'n, 'g) diff_core" where
  "intercept_call key name run_original run_native o' c =
     (if od_shadowing o' \<or> \<not> selects key name o' then (None, o', c)
      else
        let (i, o1) = statsFor key name o';
            s = (od_keys o1 ! i)\<lparr>callsSeen := callsSeen (od_keys o1 ! i) + 1\<rparr>;
            put = (\<lambda>s'. o1\<lparr>od_keys := (od_keys o1)[i := s']\<rparr>)
        in if \<not> samples (od_config o1) s then (None, put s, c)
           else let (r, s', c') = shadow (deadStackBytes (od_config o1)) run_original run_native (s\<lparr>sampled := sampled s + 1\<rparr>) c
                in (Some r, put s', c'))"

section \<open>What a match means\<close>

text \<open>An outcome holds a difference as soon as one was noted, and loses none.\<close>

abbreviation clean :: "DifferentialOutcome \<Rightarrow> bool" where
  "clean o' \<equiv> oc_difference o' = None"

lemma noteFirst_dirty [simp]: "\<not> clean (noteFirst d o')"
  by (simp add: noteFirst_def)

lemma note_register_dirty [simp]: "\<not> clean (note_register d o')"
  by (simp add: note_register_def)

lemma fold_notes_dirty: "\<not> clean o' \<Longrightarrow> \<not> clean (fold note_register ds o')"
  by (induction ds arbitrary: o') (simp_all del: not_None_eq)

lemma compareRegisters_clean:
  "clean (compareRegisters a b o') \<longleftrightarrow> clean o' \<and> register_differences a b = []"
  by (cases "register_differences a b") (simp_all add: compareRegisters_def fold_notes_dirty del: not_None_eq)

lemma judgeRange_clean: "clean (judgeRange a b r o') \<longleftrightarrow> clean o' \<and> rg_end r \<le> rg_begin r"
  by (simp add: judgeRange_def del: not_None_eq)

definition inside :: "GuestAddressRange \<Rightarrow> GuestAddressRange \<Rightarrow> bool" where
  "inside r dead \<longleftrightarrow> rg_begin dead \<le> rg_begin r \<and> rg_end r \<le> rg_end dead"

lemma judge_outside_clean:
  assumes "rg_begin r < rg_end r"
  shows "clean (judge_outside a b dead r o') \<longleftrightarrow> clean o' \<and> inside r dead"
  using assms by (auto simp: judge_outside_def judgeRange_clean inside_def Let_def min_def max_def not_le split: if_splits)

lemma compare_ranges_clean:
  assumes "\<forall>r\<in>set rs. rg_begin r < rg_end r"
  shows "clean (fold (judge_outside a b dead) rs o') \<longleftrightarrow> clean o' \<and> (\<forall>r\<in>set rs. inside r dead)"
  using assms by (induction rs arbitrary: o') (auto simp: judge_outside_clean)

lemma compareSideEffects_clean: "clean (compareSideEffects a b o') \<longleftrightarrow> clean o' \<and> ob_effects a = ob_effects b"
proof -
  let ?a = "ob_effects a" and ?b = "ob_effects b"
  have "(List.find (\<lambda>i. ?a ! i \<noteq> ?b ! i) [0..<min (length ?a) (length ?b)] = None \<and> length ?a = length ?b) \<longleftrightarrow> ?a = ?b"
    by (auto simp: find_None_iff list_eq_iff_nth_eq)
  then show ?thesis
    by (auto simp: compareSideEffects_def Let_def split: option.split simp del: not_None_eq)
qed

lemma runs_fit: "\<forall>(off, len)\<in>set (forEachDifferingRun a b). 0 < len \<and> off + len \<le> min (length a) (length b)"
proof -
  have "runs_exact a b 0 (forEachDifferingRun a b)" by (simp add: forEachDifferingRun_def runs_from_exact)
  moreover have "runs_apart k rs \<Longrightarrow> \<forall>(off, len)\<in>set rs. 0 < len" for k rs by (induction k rs rule: runs_apart.induct) auto
  ultimately show ?thesis unfolding runs_exact_def by fast
qed

text \<open>The ranges of a region whose addresses do not wrap lie inside a window exactly when its differing bytes do.\<close>

lemma region_inside:
  assumes "length a = length b" and "unat base + length a < 2 ^ 32"
  shows "(\<forall>r\<in>set (region_ranges base a b). rg_begin r < rg_end r) \<and>
    ((\<forall>r\<in>set (region_ranges base a b). inside r dead) \<longleftrightarrow>
     (\<forall>p < length a. a ! p \<noteq> b ! p \<longrightarrow> rg_begin dead \<le> base + of_nat p \<and> base + of_nat p < rg_end dead))"
proof -
  let ?rs = "forEachDifferingRun a b"
  have ex: "runs_exact a b 0 ?rs" by (simp add: forEachDifferingRun_def runs_from_exact)
  have at: "unat (base + of_nat k) = unat base + k" if "k \<le> length a" for k
    using that assms(2) by (subst unat_add_small) simp_all
  have run: "rg_begin r < rg_end r \<and> (inside r dead \<longleftrightarrow>
      (\<forall>p. off \<le> p \<and> p < off + len \<longrightarrow> rg_begin dead \<le> base + of_nat p \<and> base + of_nat p < rg_end dead))"
    if "(off, len) \<in> set ?rs" "r = \<lparr>rg_begin = base + of_nat off, rg_end = base + of_nat off + of_nat len\<rparr>" for off len r
  proof -
    have len: "0 < len" "off + len \<le> length a" using runs_fit [of a b] that(1) assms(1) by auto
    have e: "rg_end r = base + of_nat (off + len)" using that(2) by (simp add: add.assoc)
    have lt: "rg_begin r < rg_end r" unfolding e using len at [of off] at [of "off + len"] that(2) by (simp add: word_less_nat_alt)
    have "inside r dead \<longleftrightarrow> unat (rg_begin dead) \<le> unat base + off \<and> unat base + (off + len) \<le> unat (rg_end dead)"
      unfolding inside_def e using len at [of off] at [of "off + len"] that(2) by (simp add: word_le_nat_alt)
    also have "\<dots> \<longleftrightarrow> (\<forall>p. off \<le> p \<and> p < off + len \<longrightarrow> unat (rg_begin dead) \<le> unat base + p \<and> unat base + p < unat (rg_end dead))"
      (is "?L \<longleftrightarrow> ?R")
    proof
      assume r: ?R
      then have "unat (rg_begin dead) \<le> unat base + off" using len by simp
      moreover obtain q where q: "len = Suc q" using len by (cases len) simp_all
      then have "unat base + (off + q) < unat (rg_end dead)" using r by simp
      ultimately show ?L using q by simp
    qed auto
    also have "\<dots> \<longleftrightarrow> (\<forall>p. off \<le> p \<and> p < off + len \<longrightarrow> rg_begin dead \<le> base + of_nat p \<and> base + of_nat p < rg_end dead)"
      using at len by (simp add: word_le_nat_alt word_less_nat_alt)
    finally show ?thesis using lt by simp
  qed
  have "(\<forall>r\<in>set (region_ranges base a b). inside r dead) \<longleftrightarrow>
      (\<forall>p. in_runs ?rs p \<longrightarrow> rg_begin dead \<le> base + of_nat p \<and> base + of_nat p < rg_end dead)"
    using run by (force simp: region_ranges_def in_runs_def)
  moreover have "\<forall>p. in_runs ?rs p \<longleftrightarrow> p < length a \<and> a ! p \<noteq> b ! p" using ex assms(1) by (simp add: runs_exact_def)
  moreover have "\<forall>r\<in>set (region_ranges base a b). rg_begin r < rg_end r" using run by (force simp: region_ranges_def)
  ultimately show ?thesis by auto
qed

lemma no_differing_index:
  "length xs = n \<Longrightarrow> length ys = n \<Longrightarrow> filter (\<lambda>i. xs ! i \<noteq> ys ! i) [0..<n] = [] \<longleftrightarrow> xs = ys"
  by (auto simp: filter_empty_conv intro: nth_equalityI)

text \<open>
  C32: A call is judged a match exactly when both ends agree on what the O32 contract promises: the continuation, the result
  and preserved registers, the COP0 status, the GTE as it can be read, every byte of RAM and scratchpad outside the dead
  stack window, and the whole log of side effects.
\<close>

theorem match_means_contract:
  fixes a b :: "'g CallObservation"
  defines "sa \<equiv> ob_state a" and "sb \<equiv> ob_state b"
  assumes "snapshot_sizes sa" and "snapshot_sizes sb"
  shows "oc_verdict (judgeCompletedCall a b entrySp deadBytes) = Match \<longleftrightarrow>
    ex_pc (ob_result a) = ex_pc (ob_result b) \<and>
    (\<forall>i\<in>set kO32PreservedOrResultRegisters. sn_gpr sa ! i = sn_gpr sb ! i) \<and>
    sn_cop0 sa ! kCop0Status = sn_cop0 sb ! kCop0Status \<and>
    architecturalGte (sn_gte sa) = architecturalGte (sn_gte sb) \<and>
    (\<forall>p < unat kMainRamBytes. sn_ram sa ! p \<noteq> sn_ram sb ! p \<longrightarrow>
       rg_begin (deadStackWindow entrySp deadBytes) \<le> of_nat p \<and> of_nat p < rg_end (deadStackWindow entrySp deadBytes)) \<and>
    (\<forall>p < unat kScratchpadBytes. sn_scratchpad sa ! p \<noteq> sn_scratchpad sb ! p \<longrightarrow>
       rg_begin (deadStackWindow entrySp deadBytes) \<le> kScratchpadPhysicalBase + of_nat p \<and>
       kScratchpadPhysicalBase + of_nat p < rg_end (deadStackWindow entrySp deadBytes)) \<and>
    ob_effects a = ob_effects b"
proof -
  let ?dead = "deadStackWindow entrySp deadBytes"
  have len: "length (sn_ram sa) = unat kMainRamBytes" "length (sn_ram sb) = unat kMainRamBytes"
    "length (sn_scratchpad sa) = unat kScratchpadBytes" "length (sn_scratchpad sb) = unat kScratchpadBytes"
    using assms(3,4) by (simp_all add: snapshot_sizes_def)
  have r1: "(\<forall>r\<in>set (region_ranges 0 (sn_ram sa) (sn_ram sb)). rg_begin r < rg_end r) \<and>
    ((\<forall>r\<in>set (region_ranges 0 (sn_ram sa) (sn_ram sb)). inside r ?dead) \<longleftrightarrow>
     (\<forall>p < length (sn_ram sa). sn_ram sa ! p \<noteq> sn_ram sb ! p \<longrightarrow> rg_begin ?dead \<le> 0 + of_nat p \<and> 0 + of_nat p < rg_end ?dead))"
    by (rule region_inside) (use len in \<open>simp_all add: map_consts\<close>)
  have r2: "(\<forall>r\<in>set (region_ranges kScratchpadPhysicalBase (sn_scratchpad sa) (sn_scratchpad sb)). rg_begin r < rg_end r) \<and>
    ((\<forall>r\<in>set (region_ranges kScratchpadPhysicalBase (sn_scratchpad sa) (sn_scratchpad sb)). inside r ?dead) \<longleftrightarrow>
     (\<forall>p < length (sn_scratchpad sa). sn_scratchpad sa ! p \<noteq> sn_scratchpad sb ! p \<longrightarrow>
        rg_begin ?dead \<le> kScratchpadPhysicalBase + of_nat p \<and> kScratchpadPhysicalBase + of_nat p < rg_end ?dead))"
    by (rule region_inside) (use len in \<open>simp_all add: map_consts\<close>)
  have mem: "clean (compareMemory a b ?dead o') \<longleftrightarrow> clean o' \<and> (\<forall>r\<in>set (differingRanges sa sb). inside r ?dead)" for o'
    unfolding compareMemory_def sa_def sb_def
    by (rule compare_ranges_clean) (use r1 r2 in \<open>auto simp: differingRanges_def sa_def sb_def\<close>)
  have gte: "length (architecturalGte x) = 64" for x :: "'g GteRawState" by (simp add: architecturalGte_def)
  have gteq: "filter (\<lambda>i. architecturalGte (sn_gte sa) ! i \<noteq> architecturalGte (sn_gte sb) ! i) [0..<64] = [] \<longleftrightarrow>
      architecturalGte (sn_gte sa) = architecturalGte (sn_gte sb)"
    by (rule no_differing_index) (simp_all add: gte)
  have reg: "register_differences a b = [] \<longleftrightarrow> ex_pc (ob_result a) = ex_pc (ob_result b) \<and>
      (\<forall>i\<in>set kO32PreservedOrResultRegisters. sn_gpr sa ! i = sn_gpr sb ! i) \<and>
      sn_cop0 sa ! kCop0Status = sn_cop0 sb ! kCop0Status \<and> architecturalGte (sn_gte sa) = architecturalGte (sn_gte sb)"
    unfolding register_differences_def Let_def append_is_Nil_conv map_is_Nil_conv sa_def [symmetric] sb_def [symmetric] gteq
    by (auto simp: filter_empty_conv)
  have verdict: "oc_verdict (judgeCompletedCall a b entrySp deadBytes) = Match \<longleftrightarrow>
      clean (compareSideEffects a b (compareMemory a b ?dead (compareRegisters a b
        (new_outcome\<lparr>sideEffectsOriginal := length (ob_effects a), sideEffectsNative := length (ob_effects b)\<rparr>))))"
    by (simp add: judgeCompletedCall_def Let_def)
  have ranges: "(\<forall>r\<in>set (differingRanges sa sb). inside r ?dead) \<longleftrightarrow>
      (\<forall>p < unat kMainRamBytes. sn_ram sa ! p \<noteq> sn_ram sb ! p \<longrightarrow> rg_begin ?dead \<le> of_nat p \<and> of_nat p < rg_end ?dead) \<and>
      (\<forall>p < unat kScratchpadBytes. sn_scratchpad sa ! p \<noteq> sn_scratchpad sb ! p \<longrightarrow>
         rg_begin ?dead \<le> kScratchpadPhysicalBase + of_nat p \<and> kScratchpadPhysicalBase + of_nat p < rg_end ?dead)"
    using r1 r2 len unfolding differingRanges_def set_append ball_Un by (simp only: add_0)
  show ?thesis
    unfolding verdict compareSideEffects_clean mem compareRegisters_clean reg ranges by (auto simp: new_outcome_def)
qed

section \<open>The run goes on as if only the original had run\<close>

abbreviation device_of :: "('d, 'n, 'g) diff_core \<Rightarrow> 'd" where
  "device_of c \<equiv> dev (mem (mach (dc_host c)))"

text \<open>A snapshot as a restore leaves it: register zero reads zero.\<close>

definition settled :: "'g MachineSnapshot \<Rightarrow> 'g MachineSnapshot" where
  "settled s = s\<lparr>sn_gpr := (sn_gpr s)[0 := 0]\<rparr>"

lemma settled_idem: "settled (settled s) = settled s"
  by (simp add: settled_def)

lemma restore_spec:
  assumes "restore s c = (n, c')" and "snapshot_sizes s"
  shows "capture c' = settled s \<and> device_of c' = device_of c \<and> sideEffectJournal (dc_host c') = sideEffectJournal (dc_host c)"
proof -
  obtain report m g where r: "restoreInto s (mach (dc_host c)) = (report, m, g)" by (cases "restoreInto s (mach (dc_host c))")
  have c': "c' = c\<lparr>dc_host := (dc_host c)\<lparr>mach := m\<rparr>, dc_gte := g\<rparr>" using assms(1) by (simp add: restore_def r split_def)
  have "snapshot m g = settled s \<and> dev (mem m) = dev (mem (mach (dc_host c)))"
    using restored_exactly [OF assms(2) r] by (simp add: settled_def)
  then show ?thesis by (simp add: capture_def c')
qed

lemma under_journal_previous: "under_journal j run c = (r, j', c') \<Longrightarrow> sideEffectJournal (dc_host c') = sideEffectJournal (dc_host c)"
  by (auto simp: under_journal_def with_journal_def split_def Let_def)

lemma under_journal_device:
  assumes "under_journal j run c = (r, j', c')"
    and "\<And>x. sideEffectJournal (dc_host x) = Some j \<Longrightarrow> device_of (snd (run x)) = device_of x"
  shows "device_of c' = device_of c"
proof -
  have "device_of c' = device_of (snd (run (with_journal (Some j) c)))"
    using assms(1) by (auto simp: under_journal_def with_journal_def split_def Let_def)
  also have "\<dots> = device_of c" by (subst assms(2)) (simp_all add: with_journal_def)
  finally show ?thesis .
qed

text \<open>
  C5: Shadowing a call is invisible to the run: whatever the native does to registers and memory and however it ends, the call
  returns what the original returned and the machine goes on with the original's registers, GTE, RAM and scratchpad, the
  devices in the state the original left them in and the previous journal in place. The hypothesis is the documented limit
  of the comparison: the native reaches devices only through the funnel, which a replaying journal closes.
\<close>

theorem shadow_transparent:
  assumes "under_journal (new_journal Record []) run_original c = (original, live, c1)"
    and "shadow deadBytes run_original run_native s c = (r, s', c')"
    and "\<And>x j. sideEffectJournal (dc_host x) = Some j \<Longrightarrow> j_mode j = Replay \<Longrightarrow> device_of (snd (run_native x)) = device_of x"
  shows "r = (if returned original then original\<lparr>ex_cycles := 0\<rparr> else original) \<and>
    settled (capture c') = settled (capture c1) \<and> device_of c' = device_of c1 \<and>
    sideEffectJournal (dc_host c') = sideEffectJournal (dc_host c)"
proof (cases "returned original \<and> j_unreplayable live = None \<and> j_boundViolation live = None")
  case False
  then have "r = (if returned original then original\<lparr>ex_cycles := 0\<rparr> else original) \<and> c' = c1"
    using assms(2) by (auto simp: shadow_def assms(1) Let_def split: if_splits option.splits)
  then show ?thesis using under_journal_previous [OF assms(1)] by simp
next
  case True
  obtain n1 c2 where c2: "restore (capture c) c1 = (n1, c2)" by (cases "restore (capture c) c1")
  obtain native replay c3 where c3: "under_journal (new_journal Replay (j_effects live)) run_native c2 = (native, replay, c3)"
    by (cases "under_journal (new_journal Replay (j_effects live)) run_native c2")
  obtain n2 c4 where c4: "restore (capture c1) c3 = (n2, c4)" by (cases "restore (capture c1) c3")
  have res: "r = original\<lparr>ex_cycles := 0\<rparr>" "c' = c4"
    using assms(2) True by (auto simp: shadow_def assms(1) c2 c3 c4 Let_def)
  have sz: "snapshot_sizes (capture x)" for x :: "('a, 'b, 'c) diff_core" by (simp add: capture_def)
  have "device_of c3 = device_of c2"
    by (rule under_journal_device [OF c3]) (erule assms(3), simp add: new_journal_def)
  then show ?thesis
    using restore_spec [OF c2 sz] restore_spec [OF c4 sz] under_journal_previous [OF assms(1)] under_journal_previous [OF c3]
      True res by (simp add: settled_idem)
qed

section \<open>Witnesses\<close>

lemma run_replay_device:
  "j_mode j = Replay \<Longrightarrow> fst (snd (run_call rd wr p d j)) = d"
proof (induction p arbitrary: j)
  case (Return x)
  then show ?case by simp
next
  case (Read a n k)
  obtain y j1 where y: "append_effect (read_entry a n (served_value a n j)) j = (y, j1)" by fastforce
  then have j1: "j_mode j1 = Replay"
    using Read.prems append_keeps(2) [of "read_entry a n (served_value a n j)" j] by simp
  have "funnel_read rd a n d j = (map_option (\<lambda>_. served_value a n j) y, d, j1)"
    using Read.prems y by (cases y) (simp_all add: funnel_read_def replayDeviceRead_def after_def)
  then show ?case using Read.IH [of _ j1] j1 by (cases y) simp_all
next
  case (Write a n v k)
  obtain y j1 where y: "append_effect (write_entry a n v) j = (y, j1)" by fastforce
  then have j1: "j_mode j1 = Replay" using Write.prems append_keeps(2) [of "write_entry a n v" j] by simp
  have "funnel_write wr a v n d j = (y, d, j1)"
    using y j1 by (cases y) (simp_all add: funnel_write_def admitDeviceWrite_def after_def)
  then show ?case using Write.IH [of j1] j1 by (cases y) simp_all
qed

text \<open>A native body whose every device access goes through the funnel, as a tree of accesses.\<close>

definition funnelled :: "('d \<Rightarrow> u32 \<Rightarrow> u32 \<Rightarrow> u32 \<times> 'd) \<Rightarrow> ('d \<Rightarrow> u32 \<Rightarrow> u32 \<Rightarrow> u32 \<Rightarrow> 'd) \<Rightarrow> call \<Rightarrow> ('d, 'n, 'g) diff_core \<Rightarrow>
    ExecutionResult option \<times> ('d, 'n, 'g) diff_core" where
  "funnelled rd wr p c =
     (case sideEffectJournal (dc_host c) of
        None \<Rightarrow> (None, c)
      | Some j \<Rightarrow>
          let (r, d, j1) = run_call rd wr p (device_of c) j; m = mach (dc_host c)
          in (map_option (\<lambda>v. exit_with GuestReturn (reg m kRa) []) r,
              c\<lparr>dc_host := (dc_host c)\<lparr>mach := m\<lparr>mem := (mem m)\<lparr>dev := d\<rparr>\<rparr>, sideEffectJournal := Some j1\<rparr>\<rparr>))"

lemma funnelled_device:
  assumes "sideEffectJournal (dc_host c) = Some j" and "j_mode j = Replay"
  shows "device_of (snd (funnelled rd wr p c)) = device_of c"
  using run_replay_device [OF assms(2), of rd wr p "device_of c"] assms(1) by (simp add: funnelled_def Let_def split_def)

definition live_original :: "('d, 'n, 'g) diff_core \<Rightarrow> ExecutionResult \<times> ('d, 'n, 'g) diff_core" where
  "live_original c = (exit_with GuestReturn 0x80010008 [], c\<lparr>dc_host := (dc_host c)\<lparr>mach := set_reg 2 5 (mach (dc_host c))\<rparr>\<rparr>)"

theorem shadow_transparent_witness:
  "\<forall>(m :: u32 machine) (g :: unit GteRawState).
     fst (shadow 0x2000 live_original (funnelled (\<lambda>d a n. (d, d + 1)) (\<lambda>d a v n. v) demo_call)
       (new_stats demo_key ''update'') \<lparr>dc_host = (new_host m :: (u32, nat) host), dc_gte = g\<rparr>) = exit_with GuestReturn 0x80010008 []"
proof (intro allI)
  fix m :: "u32 machine" and g :: "unit GteRawState"
  let ?c = "\<lparr>dc_host = (new_host m :: (u32, nat) host), dc_gte = g\<rparr>"
  let ?native = "funnelled (\<lambda>d a n. (d, d + 1)) (\<lambda>d a v n. v) demo_call"
  obtain r s' c' where sh: "shadow 0x2000 live_original ?native (new_stats demo_key ''update'') ?c = (r, s', c')"
    by (cases "shadow 0x2000 live_original ?native (new_stats demo_key ''update'') ?c")
  obtain live c1 where live: "under_journal (new_journal Record []) live_original ?c = (exit_with GuestReturn 0x80010008 [], live, c1)"
    by (simp add: under_journal_def live_original_def split_def Let_def)
  have "r = exit_with GuestReturn 0x80010008 []"
    using shadow_transparent [OF live sh funnelled_device] by (simp add: returned_def exit_with_def)
  then show "fst (shadow 0x2000 live_original ?native (new_stats demo_key ''update'') ?c) = exit_with GuestReturn 0x80010008 []"
    by (simp only: sh fst_conv)
qed

theorem match_means_contract_witness:
  "\<forall>(m :: unit machine) (g :: unit GteRawState) e.
     oc_verdict (judgeCompletedCall \<lparr>ob_state = snapshot m g, ob_result = exit_with GuestReturn e [], ob_effects = demo_log\<rparr>
       \<lparr>ob_state = snapshot (set_reg 8 3 m) g, ob_result = exit_with GuestReturn e [], ob_effects = demo_log\<rparr> 0x801FFF00 0x2000) = Match"
proof (intro allI)
  fix m :: "unit machine" and g :: "unit GteRawState" and e
  let ?b = "\<lparr>ob_state = snapshot (set_reg 8 3 m) g, ob_result = exit_with GuestReturn e [], ob_effects = demo_log\<rparr>"
  have regs: "\<forall>i\<in>set kO32PreservedOrResultRegisters. sn_gpr (snapshot m g) ! i = sn_gpr (snapshot (set_reg 8 3 m) g) ! i"
    by (simp add: kO32PreservedOrResultRegisters_def gpr_numbers snapshot_def set_reg_def)
  have "sn_cop0 (snapshot (set_reg 8 3 m) g) = sn_cop0 (snapshot m g)" "sn_ram (snapshot (set_reg 8 3 m) g) = sn_ram (snapshot m g)"
    "sn_scratchpad (snapshot (set_reg 8 3 m) g) = sn_scratchpad (snapshot m g)" "sn_gte (snapshot (set_reg 8 3 m) g) = sn_gte (snapshot m g)"
    by (simp_all add: snapshot_def set_reg_def)
  then show "oc_verdict (judgeCompletedCall \<lparr>ob_state = snapshot m g, ob_result = exit_with GuestReturn e [], ob_effects = demo_log\<rparr>
      ?b 0x801FFF00 0x2000) = Match"
    using regs by (subst match_means_contract) simp_all
qed

end
