(* ===== verification/Frame_Time.thy ===== *)
theory Frame_Time
  imports Prelude
begin

text \<open>
  Guest time: the 128-bit Q32 clock that executed instructions and display waits move
  (\<open>psx/frame/emulated_time.cpp\<close>), the field phase, root counters and replaced VSync waits kept on it
  (\<open>psx/frame/timing.cpp\<close>), and the host field clock (\<open>cpu/host_turn.cpp\<close>). The devices that
  \<open>Timing\<close> serves are left to their own theories; what it raises for a delivered field is the
  count \<open>consumeCompletedDisplayFields\<close> returns.
\<close>

type_synonym u128 = "128 word"

section \<open>The clock\<close>

record EmulatedTime =
  nowQ32 :: u128
  displayBoundaryQ32 :: u128
  intervalStartQ32 :: u128
  intervalFields :: u32
  intervalParts :: u32
  intervalPart :: u32

definition new_time :: EmulatedTime where
  "new_time = \<lparr>nowQ32 = 0, displayBoundaryQ32 = 0, intervalStartQ32 = 0, intervalFields = 0, intervalParts = 0,
     intervalPart = 0\<rparr>"

definition kPsxCpuHz :: u32 where "kPsxCpuHz = 33868800"

definition kFractionBits :: nat where "kFractionBits = 32"

definition display_field_duration_q32 :: "u32 \<Rightarrow> u32 \<Rightarrow> u32 \<Rightarrow> u128" where
  "display_field_duration_q32 nfields parts fieldRateMilliHz =
     (if nfields = 0 \<or> parts = 0 \<or> fieldRateMilliHz = 0 then 0
      else let numerator = push_bit kFractionBits (ucast kPsxCpuHz * 1000 * ucast nfields);
               denominator = ucast fieldRateMilliHz * ucast parts
           in (numerator + denominator - 1) div denominator)"

definition displayFieldCpuTicks :: "u32 \<Rightarrow> u32 \<Rightarrow> u32 \<Rightarrow> u64" where
  "displayFieldCpuTicks nfields parts fieldRateMilliHz =
     ucast (drop_bit kFractionBits (display_field_duration_q32 nfields parts fieldRateMilliHz))"

definition advanceInstructions :: "u32 \<Rightarrow> EmulatedTime \<Rightarrow> EmulatedTime" where
  "advanceInstructions ticks t = t\<lparr>nowQ32 := nowQ32 t + push_bit kFractionBits (ucast ticks)\<rparr>"

text \<open>The start of a new interval, when the delivered cadence is not the one in progress.\<close>

definition begin_interval :: "u32 \<Rightarrow> u32 \<Rightarrow> u32 \<Rightarrow> EmulatedTime \<Rightarrow> EmulatedTime" where
  "begin_interval nfields parts fieldRateMilliHz t =
     (let whole = display_field_duration_q32 nfields 1 fieldRateMilliHz;
          field = display_field_duration_q32 1 1 fieldRateMilliHz;
          finish = displayBoundaryQ32 t + whole
      in t\<lparr>intervalStartQ32 := displayBoundaryQ32 t +
             (if nowQ32 t > finish then (nowQ32 t - finish) div field * field else 0),
           intervalFields := nfields, intervalParts := parts, intervalPart := 0\<rparr>)"

definition deliver_part :: "u32 \<Rightarrow> u32 \<Rightarrow> u32 \<Rightarrow> EmulatedTime \<Rightarrow> EmulatedTime" where
  "deliver_part nfields parts fieldRateMilliHz t =
     (let part = intervalPart t + 1;
          boundary = intervalStartQ32 t + display_field_duration_q32 (nfields * part) parts fieldRateMilliHz
      in t\<lparr>displayBoundaryQ32 := boundary, nowQ32 := max (nowQ32 t) boundary,
           intervalPart := (if part = parts then 0 else part)\<rparr>)"

definition advanceDisplayFields :: "u32 \<Rightarrow> u32 \<Rightarrow> u32 \<Rightarrow> EmulatedTime \<Rightarrow> bool \<times> EmulatedTime" where
  "advanceDisplayFields nfields parts fieldRateMilliHz t =
     (if display_field_duration_q32 nfields parts fieldRateMilliHz = 0 then (False, t)
      else (True, deliver_part nfields parts fieldRateMilliHz
              (if intervalPart t = 0 \<or> nfields \<noteq> intervalFields t \<or> parts \<noteq> intervalParts t
               then begin_interval nfields parts fieldRateMilliHz t else t)))"

definition nowTicks :: "EmulatedTime \<Rightarrow> u64" where
  "nowTicks t = ucast (drop_bit kFractionBits (nowQ32 t))"

definition boundaryTicks :: "EmulatedTime \<Rightarrow> u64" where
  "boundaryTicks t = ucast (drop_bit kFractionBits (displayBoundaryQ32 t))"

definition fieldsSinceBoundary :: "u32 \<Rightarrow> EmulatedTime \<Rightarrow> u32" where
  "fieldsSinceBoundary fieldRateMilliHz t =
     (let duration = display_field_duration_q32 1 1 fieldRateMilliHz in
      if duration = 0 \<or> nowQ32 t \<le> displayBoundaryQ32 t then 0
      else let nfields = (nowQ32 t - displayBoundaryQ32 t) div duration
           in if nfields > 0xFFFFFFFF then 0xFFFFFFFF else ucast nfields)"

definition ticksToNextField :: "u32 \<Rightarrow> EmulatedTime \<Rightarrow> u64" where
  "ticksToNextField fieldRateMilliHz t =
     (let duration = display_field_duration_q32 1 1 fieldRateMilliHz in
      if duration = 0 then 0
      else let elapsed = (if nowQ32 t > displayBoundaryQ32 t then nowQ32 t - displayBoundaryQ32 t else 0);
               remaining = (elapsed div duration + 1) * duration - elapsed
           in ucast (drop_bit kFractionBits (remaining + push_bit kFractionBits 1 - 1)))"

definition hSyncCountAt :: "u128 \<Rightarrow> u32 \<Rightarrow> u32 \<Rightarrow> u64" where
  "hSyncCountAt timeQ32 fieldRateMilliHz linesPerField =
     (if fieldRateMilliHz = 0 \<or> linesPerField = 0 then 0
      else let scaled = timeQ32 * ucast fieldRateMilliHz * ucast linesPerField;
               denominator = push_bit kFractionBits (ucast kPsxCpuHz * 1000 :: u128)
           in ucast (scaled div denominator))"

definition hSyncCount :: "u32 \<Rightarrow> u32 \<Rightarrow> EmulatedTime \<Rightarrow> u64" where
  "hSyncCount fieldRateMilliHz linesPerField t = hSyncCountAt (nowQ32 t) fieldRateMilliHz linesPerField"

definition hSyncsSinceBoundary :: "u32 \<Rightarrow> u32 \<Rightarrow> EmulatedTime \<Rightarrow> u64" where
  "hSyncsSinceBoundary fieldRateMilliHz linesPerField t =
     hSyncCount fieldRateMilliHz linesPerField t - hSyncCountAt (displayBoundaryQ32 t) fieldRateMilliHz linesPerField"

text \<open>The form a machine state holds.\<close>

record EmulatedTimeQ32 =
  tq_now :: u64
  tq_displayBoundary :: u64

definition q32 :: "EmulatedTime \<Rightarrow> EmulatedTimeQ32" where
  "q32 t = \<lparr>tq_now = ucast (nowQ32 t), tq_displayBoundary = ucast (displayBoundaryQ32 t)\<rparr>"

definition restore_time :: "EmulatedTimeQ32 \<Rightarrow> EmulatedTime \<Rightarrow> EmulatedTime" where
  "restore_time s t = t\<lparr>nowQ32 := ucast (tq_now s), displayBoundaryQ32 := ucast (tq_displayBoundary s), intervalPart := 0\<rparr>"

section \<open>Field phase, VSync waits and root counters\<close>

text \<open>\<open>ti_displayFieldRate\<close> is the rate and line count of the guest's display standard, which the GPU ports decode.\<close>

record Timing =
  emulatedTime :: EmulatedTime
  vblank :: u32
  guestInstructionTicks :: u64
  rootCounter2Mode :: u32
  rootCounter2Target :: u32
  rootCounter2BaseValue :: u16
  rootCounter2OriginTicks :: u64
  rootCounter1Offset :: u64
  vsyncWaitFields :: u32
  fieldsSinceVSyncWait :: u32
  phaseNumerator :: u128
  phaseDenominator :: u128

definition new_timing :: Timing where
  "new_timing = \<lparr>emulatedTime = new_time, vblank = 0, guestInstructionTicks = 0, rootCounter2Mode = 0,
     rootCounter2Target = 0, rootCounter2BaseValue = 0, rootCounter2OriginTicks = 0, rootCounter1Offset = 0,
     vsyncWaitFields = 0, fieldsSinceVSyncWait = 0, phaseNumerator = 0, phaseDenominator = 1\<rparr>"

function gcd128 :: "u128 \<Rightarrow> u128 \<Rightarrow> u128" where
  "gcd128 a b = (if b = 0 then a else gcd128 b (a mod b))"
  by pat_completeness auto
termination
  by (relation "measure (\<lambda>(a, b). unat b)") (auto simp: unat_mod unat_gt_0 intro!: mod_less_divisor)

declare gcd128.simps [simp del]

definition consumeCompletedDisplayFields :: "u32 \<Rightarrow> u32 \<Rightarrow> Timing \<Rightarrow> u32 \<times> Timing" where
  "consumeCompletedDisplayFields nfields parts tm =
     (let common = gcd128 (phaseDenominator tm) (ucast parts);
          leftScale = ucast parts div common;
          rightScale = phaseDenominator tm div common;
          denominator = phaseDenominator tm * leftScale;
          numerator = phaseNumerator tm * leftScale + ucast nfields * rightScale;
          completed = numerator div denominator;
          rest = numerator mod denominator
      in (ucast completed,
          if rest = 0 then tm\<lparr>phaseNumerator := 0, phaseDenominator := 1\<rparr>
          else let reduction = gcd128 rest denominator
               in tm\<lparr>phaseNumerator := rest div reduction, phaseDenominator := denominator div reduction\<rparr>))"

text \<open>
  The clock part of \<open>Timing::advanceDisplayFields\<close>: the guard on the cadence, the clock, and the count of VBlanks the
  caller raises. The cadence is two C integers.
\<close>

definition deliver_fields :: "int \<Rightarrow> int \<Rightarrow> u32 \<Rightarrow> Timing \<Rightarrow> u32 option \<times> Timing" where
  "deliver_fields nfields parts fieldRateMilliHz tm =
     (if nfields \<le> 0 \<or> parts \<le> 0 \<or> fieldRateMilliHz = 0 then (None, tm)
      else case advanceDisplayFields (word_of_int nfields) (word_of_int parts) fieldRateMilliHz (emulatedTime tm) of
             (ok, t1) \<Rightarrow>
               if \<not> ok then (None, tm\<lparr>emulatedTime := t1\<rparr>)
               else (case consumeCompletedDisplayFields (word_of_int nfields) (word_of_int parts) (tm\<lparr>emulatedTime := t1\<rparr>) of
                       (completed, tm2) \<Rightarrow> (Some completed, tm2)))"

definition advance_guest_instructions :: "u32 \<Rightarrow> Timing \<Rightarrow> Timing" where
  "advance_guest_instructions ticks tm =
     tm\<lparr>guestInstructionTicks := guestInstructionTicks tm + ucast ticks,
        emulatedTime := advanceInstructions ticks (emulatedTime tm)\<rparr>"

definition vsyncFields :: "u32 \<Rightarrow> u32 \<Rightarrow> Timing \<Rightarrow> u32" where
  "vsyncFields rate requested tm = max requested (fieldsSinceBoundary rate (emulatedTime tm) + 1)"

definition noteVSyncWait :: "u32 \<Rightarrow> u32 \<Rightarrow> Timing \<Rightarrow> Timing" where
  "noteVSyncWait rate requested tm =
     tm\<lparr>vsyncWaitFields := vsyncFields rate
          (if requested > fieldsSinceVSyncWait tm then requested - fieldsSinceVSyncWait tm else 0) tm\<rparr>"

definition takeStepFields :: "u32 \<Rightarrow> Timing \<Rightarrow> u32 \<times> Timing" where
  "takeStepFields rate tm =
     (if vsyncWaitFields tm \<noteq> 0 then (vsyncWaitFields tm, tm\<lparr>fieldsSinceVSyncWait := 0, vsyncWaitFields := 0\<rparr>)
      else let nfields = max 1 (fieldsSinceBoundary rate (emulatedTime tm))
           in (nfields, tm\<lparr>fieldsSinceVSyncWait := min (fieldsSinceVSyncWait tm) (0xFFFFFFFF - nfields) + nfields\<rparr>))"

definition rootCounter2 :: "Timing \<Rightarrow> u16" where
  "rootCounter2 tm =
     (let syncMode = drop_bit 1 (rootCounter2Mode tm) AND 3;
          stopped = rootCounter2Mode tm AND 1 \<noteq> 0 \<and> (syncMode = 0 \<or> syncMode = 3)
      in if stopped then rootCounter2BaseValue tm
         else let shift = (if rootCounter2Mode tm AND 0x200 \<noteq> 0 then 3 else 0);
                  count = ucast (rootCounter2BaseValue tm) +
                    drop_bit shift (nowTicks (emulatedTime tm) - rootCounter2OriginTicks tm)
              in if rootCounter2Mode tm AND 8 \<noteq> 0
                 then let period = (if rootCounter2Target tm > 1 then rootCounter2Target tm else 1)
                      in ucast (count mod ucast period)
                 else ucast count)"

definition rootCounter2WriteValue :: "u16 \<Rightarrow> Timing \<Rightarrow> Timing" where
  "rootCounter2WriteValue v tm =
     tm\<lparr>rootCounter2BaseValue := v, rootCounter2OriginTicks := nowTicks (emulatedTime tm)\<rparr>"

definition rootCounter2WriteMode :: "u32 \<Rightarrow> Timing \<Rightarrow> Timing" where
  "rootCounter2WriteMode mode tm =
     tm\<lparr>rootCounter2Mode := mode AND 0x3FF, rootCounter2BaseValue := 0,
        rootCounter2OriginTicks := nowTicks (emulatedTime tm)\<rparr>"

definition rootCounter2WriteTarget :: "u32 \<Rightarrow> Timing \<Rightarrow> Timing" where
  "rootCounter2WriteTarget target tm = tm\<lparr>rootCounter2Target := target AND 0xFFFF\<rparr>"

definition hSyncCounter :: "u32 \<Rightarrow> u32 \<Rightarrow> Timing \<Rightarrow> u16" where
  "hSyncCounter rate lines tm = ucast (hSyncCount rate lines (emulatedTime tm) - rootCounter1Offset tm)"

definition hSyncCounterWrite :: "u32 \<Rightarrow> u32 \<Rightarrow> u16 \<Rightarrow> Timing \<Rightarrow> Timing" where
  "hSyncCounterWrite rate lines v tm = tm\<lparr>rootCounter1Offset := hSyncCount rate lines (emulatedTime tm) - ucast v\<rparr>"

definition frameTick :: "Timing \<Rightarrow> Timing" where
  "frameTick tm = tm\<lparr>vblank := vblank tm + 1\<rparr>"

definition displayField :: "u32 \<Rightarrow> u32 \<Rightarrow> Timing \<Rightarrow> u64" where
  "displayField rate lines tm = hSyncCount rate lines (emulatedTime tm) div ucast lines"

definition ticksUntilDeviceEvent :: "u64 option \<Rightarrow> Timing \<Rightarrow> u64 option" where
  "ticksUntilDeviceEvent deadline tm =
     map_option (\<lambda>d. if d > nowTicks (emulatedTime tm) then d - nowTicks (emulatedTime tm) else 0) deadline"

record ClockSnapshot =
  cs_time :: EmulatedTimeQ32
  cs_phaseNumerator :: u64
  cs_phaseDenominator :: u64
  cs_vsyncWaitFields :: u32
  cs_fieldsSinceVSyncWait :: u32

definition clockSnapshot :: "Timing \<Rightarrow> ClockSnapshot" where
  "clockSnapshot tm = \<lparr>cs_time = q32 (emulatedTime tm), cs_phaseNumerator = ucast (phaseNumerator tm),
     cs_phaseDenominator = ucast (phaseDenominator tm), cs_vsyncWaitFields = vsyncWaitFields tm,
     cs_fieldsSinceVSyncWait = fieldsSinceVSyncWait tm\<rparr>"

definition restoreClockSnapshot :: "ClockSnapshot \<Rightarrow> Timing \<Rightarrow> Timing" where
  "restoreClockSnapshot s tm =
     tm\<lparr>emulatedTime := restore_time (cs_time s) (emulatedTime tm), phaseNumerator := ucast (cs_phaseNumerator s),
        phaseDenominator := ucast (cs_phaseDenominator s), vsyncWaitFields := cs_vsyncWaitFields s,
        fieldsSinceVSyncWait := cs_fieldsSinceVSyncWait s\<rparr>"

section \<open>The host field clock\<close>

record 'n HostTurnClock =
  ht_function :: "'n option"
  ht_periodTicks :: u64
  ht_deadlineTicks :: u64
  ht_inTurn :: bool

definition new_turn :: "'n HostTurnClock" where
  "new_turn = \<lparr>ht_function = None, ht_periodTicks = 0, ht_deadlineTicks = 0, ht_inTurn = False\<rparr>"

text \<open>The clock beside the machine it serves: the latch \<open>PW_HOST\<close> and the rest of the core.\<close>

record ('n, 's) turn_host =
  turn :: "'n HostTurnClock"
  pw_host :: bool
  machine_of :: 's

record ('n, 's) turn_env =
  te_now :: "'s \<Rightarrow> u64"
  te_can_dispatch :: "'s \<Rightarrow> bool"
  te_handler :: "'n \<Rightarrow> ('n, 's) turn_host \<Rightarrow> ('n, 's) turn_host option"
  te_put_back :: "'s \<Rightarrow> 's \<Rightarrow> 's"

definition rearm :: "u64 \<Rightarrow> 'n HostTurnClock \<Rightarrow> 'n HostTurnClock" where
  "rearm now c = c\<lparr>ht_deadlineTicks := now + ht_periodTicks c\<rparr>"

definition arm_turn :: "u64 \<Rightarrow> 'n option \<Rightarrow> u32 \<Rightarrow> 'n HostTurnClock \<Rightarrow> 'n HostTurnClock" where
  "arm_turn now f fieldRateMilliHz c =
     (if f = None \<or> fieldRateMilliHz = 0 then c
      else if ht_function c \<noteq> None then c
      else rearm now (c\<lparr>ht_function := f, ht_periodTicks := displayFieldCpuTicks 1 1 fieldRateMilliHz\<rparr>))"

definition requestWhenDue :: "('n, 's) turn_env \<Rightarrow> ('n, 's) turn_host \<Rightarrow> ('n, 's) turn_host" where
  "requestWhenDue g h =
     (if ht_function (turn h) = None \<or> te_now g (machine_of h) < ht_deadlineTicks (turn h) then h
      else h\<lparr>pw_host := True\<rparr>)"

definition ticksUntilDue :: "('n, 's) turn_env \<Rightarrow> ('n, 's) turn_host \<Rightarrow> u64" where
  "ticksUntilDue g h =
     (if ht_function (turn h) = None then 0xFFFFFFFFFFFFFFFF
      else let now = te_now g (machine_of h)
           in if now < ht_deadlineTicks (turn h) then ht_deadlineTicks (turn h) - now else 0)"

definition onDisplayField :: "('n, 's) turn_env \<Rightarrow> ('n, 's) turn_host \<Rightarrow> ('n, 's) turn_host" where
  "onDisplayField g h =
     (if ht_function (turn h) = None then h
      else h\<lparr>turn := rearm (te_now g (machine_of h)) (turn h), pw_host := False\<rparr>)"

text \<open>\<open>te_put_back\<close> is the end of the \<open>GuestContextScope\<close> around the handler; \<open>None\<close> is a handler that does not return.\<close>

definition service_turn :: "('n, 's) turn_env \<Rightarrow> ('n, 's) turn_host \<Rightarrow> ('n, 's) turn_host option" where
  "service_turn g h =
     (if \<not> te_can_dispatch g (machine_of h) then Some h
      else if ht_function (turn h) \<noteq> None \<and> ht_inTurn (turn h) then Some h
      else
        let h1 = h\<lparr>pw_host := False\<rparr> in
        case ht_function (turn h) of
          None \<Rightarrow> Some h1
        | Some f \<Rightarrow>
            do { h2 \<leftarrow> te_handler g f (h1\<lparr>turn := (turn h1)\<lparr>ht_inTurn := True\<rparr>\<rparr>);
                 let h3 = h2\<lparr>machine_of := te_put_back g (machine_of h) (machine_of h2),
                             turn := (turn h2)\<lparr>ht_inTurn := False\<rparr>\<rparr>;
                 let now = te_now g (machine_of h3);
                 Some (if ht_deadlineTicks (turn h3) \<le> now then h3\<lparr>turn := rearm now (turn h3)\<rparr> else h3) })"

end
