(* ===== verification/Frame_Time_Laws.thy ===== *)
theory Frame_Time_Laws
  imports Frame_Time
begin

text \<open>
  What the guest clock keeps (\<open>psx/frame/emulated_time.cpp\<close>, \<open>psx/frame/timing.cpp\<close>): a display interval delivered in
  parts ends on the field grid, the next field edge is found exactly, and the VBlank count over any sequence of
  deliveries is the whole part of the fields delivered. Durations are read as naturals, where the 128-bit arithmetic
  of the code does not wrap.
\<close>

section \<open>Durations\<close>

definition q32_per_milli_field :: nat where "q32_per_milli_field = 33868800 * 1000 * 2 ^ 32"

definition duration_nat :: "nat \<Rightarrow> nat \<Rightarrow> nat \<Rightarrow> nat" where
  "duration_nat f p r = (q32_per_milli_field * f + r * p - 1) div (r * p)"

lemma unat_mult_small:
  "unat x * unat y < 2 ^ LENGTH('a) \<Longrightarrow> unat (x * y) = unat x * unat (y :: 'a::len word)"
  by (simp add: unat_word_ariths)

lemma unat_ucast_up [simp]: "LENGTH('a) \<le> LENGTH('b) \<Longrightarrow> unat (ucast (x :: 'a::len word) :: 'b::len word) = unat x"
  using less_le_trans [OF unat_less [of x] power_increasing [of "LENGTH('a)" "LENGTH('b)" "2 :: nat"]]
  by (simp add: unsigned_ucast_eq take_bit_nat_eq_self_iff)

lemma unat_duration:
  assumes "f \<noteq> 0" and "p \<noteq> 0" and "r \<noteq> 0"
  shows "unat (display_field_duration_q32 f p r) = duration_nat (unat f) (unat p) (unat r)"
proof -
  have f: "unat f < 2 ^ 32" and p: "unat p < 2 ^ 32" and r: "unat r < 2 ^ 32"
    using unat_less [of f] unat_less [of p] unat_less [of r] by simp_all
  have pos: "0 < unat f" "0 < unat p" "0 < unat r" using assms by (simp_all add: unat_gt_0)
  define c :: u128 where "c = ucast kPsxCpuHz * 1000"
  have c: "c = 33868800000" by (simp add: c_def kPsxCpuHz_def)
  have cf: "unat (c * ucast f) = 33868800000 * unat f"
    using f by (subst unat_mult_small) (simp_all add: c)
  have num: "unat (push_bit 32 (c * ucast f)) = q32_per_milli_field * unat f"
    using f cf by (simp add: push_bit_eq_mult q32_per_milli_field_def unat_mult_small [of _ "2 ^ 32"] unat_word_ariths)
  have rp: "unat r * unat p < 2 ^ 64"
    using mult_strict_mono [OF r p] pos by simp
  then have den: "unat (ucast r * ucast p :: u128) = unat r * unat p" by (simp add: unat_word_ariths)
  have bound: "q32_per_milli_field * unat f < 2 ^ 100" using f by (simp add: q32_per_milli_field_def)
  have sum: "unat (push_bit 32 (c * ucast f) + ucast r * ucast p) = q32_per_milli_field * unat f + unat r * unat p"
    using bound rp num den by (subst unat_add_small) (simp_all)
  have "1 \<le> q32_per_milli_field * unat f + unat r * unat p"
    using mult_pos_pos [OF pos(3) pos(2)] by linarith
  then have one: "(1 :: u128) \<le> push_bit 32 (c * ucast f) + ucast r * ucast p"
    using sum by (simp add: word_le_nat_alt)
  show ?thesis
    using assms sum one den
    by (simp add: display_field_duration_q32_def Let_def kFractionBits_def unat_div unat_sub duration_nat_def flip: c_def)
qed

lemma duration_nat_parts: "0 < p \<Longrightarrow> 0 < r \<Longrightarrow> duration_nat (f * p) p r = duration_nat f 1 r"
proof -
  assume p: "0 < p" and r: "0 < r"
  let ?x = "q32_per_milli_field * f + r"
  have e: "q32_per_milli_field * (f * p) + r * p - 1 = p * (?x - 1) + (p - 1)"
    using p r by (cases p; cases r) (simp_all add: algebra_simps)
  have "(q32_per_milli_field * (f * p) + r * p - 1) div p = ?x - 1"
    unfolding e using p by (subst div_mult_self4) simp_all
  then show ?thesis by (simp add: duration_nat_def div_mult2_eq mult.commute [of r p])
qed

lemma duration_nat_mono: "f \<le> g \<Longrightarrow> duration_nat f p r \<le> duration_nat g p r"
  unfolding duration_nat_def by (rule div_le_mono) (simp add: diff_le_mono)

lemma duration_nat_pos: "0 < f \<Longrightarrow> 0 < p \<Longrightarrow> 0 < r \<Longrightarrow> 0 < duration_nat f p r"
proof -
  assume a: "0 < f" "0 < p" "0 < r"
  then have "r * p \<le> q32_per_milli_field * f + r * p - 1" by (simp add: q32_per_milli_field_def)
  then show ?thesis using a by (simp add: duration_nat_def div_greater_zero_iff)
qed

lemma duration_nat_bound: "0 < p \<Longrightarrow> 0 < r \<Longrightarrow> duration_nat f p r \<le> q32_per_milli_field * f + 1"
proof -
  assume a: "0 < p" "0 < r"
  then have p: "0 < r * p" by simp
  have "q32_per_milli_field * f + r * p - 1 \<le> (q32_per_milli_field * f + 1) * (r * p)"
    using p by (cases "r * p") (simp_all add: algebra_simps)
  then have "duration_nat f p r \<le> (q32_per_milli_field * f + 1) * (r * p) div (r * p)"
    unfolding duration_nat_def by (rule div_le_mono)
  also have "\<dots> = q32_per_milli_field * f + 1" using p by (rule div_mult_self_is_m)
  finally show ?thesis .
qed

lemma duration_small:
  "unat f < 2 ^ 32 \<Longrightarrow> 0 < p \<Longrightarrow> 0 < r \<Longrightarrow> duration_nat (unat (f :: u32)) p r < 2 ^ 100"
  by (rule le_less_trans [OF duration_nat_bound]) (simp_all add: q32_per_milli_field_def)

section \<open>A display interval in parts\<close>

abbreviation now_nat :: "EmulatedTime \<Rightarrow> nat" where "now_nat t \<equiv> unat (nowQ32 t)"
abbreviation boundary_nat :: "EmulatedTime \<Rightarrow> nat" where "boundary_nat t \<equiv> unat (displayBoundaryQ32 t)"

definition interval_start_nat :: "nat \<Rightarrow> nat \<Rightarrow> nat \<Rightarrow> nat \<Rightarrow> nat" where
  "interval_start_nat f r now boundary =
     (let finish = boundary + duration_nat f 1 r; field = duration_nat 1 1 r in
      boundary + (if finish < now then (now - finish) div field * field else 0))"

definition clock_small :: "EmulatedTime \<Rightarrow> bool" where
  "clock_small t \<longleftrightarrow> now_nat t < 2 ^ 120 \<and> boundary_nat t < 2 ^ 120"

lemma interval_start_bound:
  "interval_start_nat f r now boundary + duration_nat f 1 r \<le> max now (boundary + duration_nat f 1 r)"
proof (cases "boundary + duration_nat f 1 r < now")
  case True
  have "(now - (boundary + duration_nat f 1 r)) div duration_nat 1 1 r * duration_nat 1 1 r
      \<le> now - (boundary + duration_nat f 1 r)" by simp
  with True show ?thesis
    by (simp add: interval_start_nat_def Let_def del: div_times_less_eq_dividend times_div_less_eq_dividend)
qed (simp add: interval_start_nat_def Let_def)

lemma unat_begin_interval:
  assumes "f \<noteq> 0" and "r \<noteq> 0" and "clock_small t"
  shows "unat (intervalStartQ32 (begin_interval f p r t)) =
    interval_start_nat (unat f) (unat r) (now_nat t) (boundary_nat t)"
proof -
  let ?w = "display_field_duration_q32 f 1 r" and ?f = "display_field_duration_q32 1 1 r"
  have f: "unat f < 2 ^ 32" and r: "0 < unat r" using unat_less [of f] assms by (simp_all add: unat_gt_0)
  have w: "unat ?w = duration_nat (unat f) 1 (unat r)" and fl: "unat ?f = duration_nat 1 1 (unat r)"
    using assms unat_duration [of f 1 r] unat_duration [of 1 1 r] by simp_all
  have ws: "duration_nat (unat f) 1 (unat r) < 2 ^ 100" using duration_small [OF f _ r, of 1] by simp
  have now: "now_nat t < 2 ^ 120" and b: "boundary_nat t < 2 ^ 120" using assms(3) by (simp_all add: clock_small_def)
  have fin: "unat (displayBoundaryQ32 t + ?w) = boundary_nat t + duration_nat (unat f) 1 (unat r)"
    using b ws w by (subst unat_add_small) simp_all
  let ?d = "nowQ32 t - (displayBoundaryQ32 t + ?w)"
  show ?thesis
  proof (cases "nowQ32 t > displayBoundaryQ32 t + ?w")
    case True
    then have lt: "boundary_nat t + duration_nat (unat f) 1 (unat r) < now_nat t" using fin by (simp add: word_less_nat_alt)
    have d: "unat ?d = now_nat t - (boundary_nat t + duration_nat (unat f) 1 (unat r))"
      using True fin by (simp add: unat_sub)
    have le: "unat ?d div unat ?f * unat ?f \<le> unat ?d" by simp
    have "unat ?d div unat ?f * unat ?f < 2 ^ 128" by (rule le_less_trans [OF le]) (use unat_less [of ?d] in simp)
    then have m: "unat (?d div ?f * ?f) = unat ?d div unat ?f * unat ?f"
      by (subst unat_mult_small) (simp_all add: unat_div)
    have "unat (displayBoundaryQ32 t + ?d div ?f * ?f) = boundary_nat t + unat ?d div unat ?f * unat ?f"
    proof (subst unat_add_small)
      show "boundary_nat t + unat (?d div ?f * ?f) < 2 ^ LENGTH(128)"
        unfolding m by (rule le_less_trans [OF add_mono [OF order_refl le]]) (use now b d in simp)
    qed (simp add: m)
    then show ?thesis
      using True lt d fl by (simp add: begin_interval_def interval_start_nat_def Let_def)
  next
    case False
    then have "\<not> boundary_nat t + duration_nat (unat f) 1 (unat r) < now_nat t" using fin by (simp add: word_less_nat_alt)
    with False show ?thesis by (simp add: begin_interval_def interval_start_nat_def Let_def)
  qed
qed

text \<open>One part of an interval that has begun.\<close>

lemma deliver_part_nat:
  assumes "f \<noteq> 0" and "p \<noteq> 0" and "r \<noteq> 0" and "unat f * unat p < 2 ^ 32" and "unat (intervalPart t) < unat p"
    and "unat (intervalStartQ32 t) < 2 ^ 121"
  defines "k \<equiv> unat (intervalPart t) + 1"
  shows "boundary_nat (deliver_part f p r t) = unat (intervalStartQ32 t) + duration_nat (unat f * k) (unat p) (unat r)"
    and "now_nat (deliver_part f p r t) = max (now_nat t) (boundary_nat (deliver_part f p r t))"
    and "unat (intervalPart (deliver_part f p r t)) = (if k = unat p then 0 else k)"
    and "intervalStartQ32 (deliver_part f p r t) = intervalStartQ32 t"
proof -
  have p: "unat p < 2 ^ 32" and pos: "0 < unat f" "0 < unat p" "0 < unat r"
    using unat_less [of p] assms by (simp_all add: unat_gt_0)
  have k: "unat (intervalPart t + 1) = k" using assms(5) p by (subst unat_add_small) (simp_all add: k_def)
  have kp: "k \<le> unat p" using assms(5) by (simp add: k_def)
  have fk: "unat f * k \<le> unat f * unat p" using kp by simp
  have fks: "unat f * k < 2 ^ 32" by (rule le_less_trans [OF fk assms(4)])
  have m: "unat (f * (intervalPart t + 1)) = unat f * k" using fks k by (subst unat_mult_small) simp_all
  have nz: "f * (intervalPart t + 1) \<noteq> 0"
    using m pos by (metis k_def add_is_0 mult_is_0 neq0_conv unat_0 zero_neq_one)
  let ?d = "display_field_duration_q32 (f * (intervalPart t + 1)) p r"
  have d: "unat ?d = duration_nat (unat f * k) (unat p) (unat r)" using unat_duration [OF nz assms(2,3)] m by simp
  have ds: "unat ?d < 2 ^ 100"
    using fks duration_small [of "f * (intervalPart t + 1)"] pos d m by simp
  have b: "unat (intervalStartQ32 t + ?d) = unat (intervalStartQ32 t) + duration_nat (unat f * k) (unat p) (unat r)"
    using ds d assms(6) by (subst unat_add_small) simp_all
  then show "boundary_nat (deliver_part f p r t) = unat (intervalStartQ32 t) + duration_nat (unat f * k) (unat p) (unat r)"
    by (simp add: deliver_part_def Let_def)
  show "now_nat (deliver_part f p r t) = max (now_nat t) (boundary_nat (deliver_part f p r t))"
    by (simp add: deliver_part_def Let_def max_def word_le_nat_alt)
  show "unat (intervalPart (deliver_part f p r t)) = (if k = unat p then 0 else k)"
    using k by (simp add: deliver_part_def Let_def word_unat_eq_iff)
  show "intervalStartQ32 (deliver_part f p r t) = intervalStartQ32 t" by (simp add: deliver_part_def Let_def)
qed

definition delivered :: "u32 \<Rightarrow> u32 \<Rightarrow> u32 \<Rightarrow> nat \<Rightarrow> EmulatedTime \<Rightarrow> EmulatedTime" where
  "delivered f p r n t = ((\<lambda>t. snd (advanceDisplayFields f p r t)) ^^ n) t"

lemma advance_delivers:
  "f \<noteq> 0 \<Longrightarrow> p \<noteq> 0 \<Longrightarrow> r \<noteq> 0 \<Longrightarrow> advanceDisplayFields f p r t =
     (True, deliver_part f p r (if intervalPart t = 0 \<or> f \<noteq> intervalFields t \<or> p \<noteq> intervalParts t
       then begin_interval f p r t else t))"
proof -
  assume a: "f \<noteq> 0" "p \<noteq> 0" "r \<noteq> 0"
  then have "0 < unat (display_field_duration_q32 f p r)"
    using duration_nat_pos [of "unat f" "unat p" "unat r"] by (simp add: unat_duration unat_gt_0)
  then have "display_field_duration_q32 f p r \<noteq> 0" by (simp add: unat_gt_0)
  then show ?thesis by (simp add: advanceDisplayFields_def)
qed

lemma begin_interval_frame [simp]:
  "nowQ32 (begin_interval f p r t) = nowQ32 t" "intervalPart (begin_interval f p r t) = 0"
  "intervalFields (begin_interval f p r t) = f" "intervalParts (begin_interval f p r t) = p"
  by (simp_all add: begin_interval_def Let_def)

lemma deliver_part_frame [simp]:
  "intervalFields (deliver_part f p r t) = intervalFields t" "intervalParts (deliver_part f p r t) = intervalParts t"
  by (simp_all add: deliver_part_def Let_def)

lemma start_small:
  assumes "r \<noteq> 0" and "clock_small t"
  shows "interval_start_nat (unat (f :: u32)) (unat r) (now_nat t) (boundary_nat t) < 2 ^ 121"
proof -
  have "0 < unat r" using assms(1) by (simp add: unat_gt_0)
  then have d: "duration_nat (unat f) 1 (unat r) < 2 ^ 100" using duration_small [of f] unat_less [of f] by simp
  have "interval_start_nat (unat f) (unat r) (now_nat t) (boundary_nat t) \<le>
      max (now_nat t) (boundary_nat t + duration_nat (unat f) 1 (unat r))"
    using interval_start_bound [of "unat f" "unat r" "now_nat t" "boundary_nat t"] by linarith
  also have "\<dots> < 2 ^ 121" using d assms(2) by (simp add: clock_small_def)
  finally show ?thesis .
qed

lemma delivered_parts:
  assumes "f \<noteq> 0" and "p \<noteq> 0" and "r \<noteq> 0" and "unat f * unat p < 2 ^ 32"
    and "clock_small t" and "intervalPart t = 0" and "n < unat p"
  defines "S \<equiv> interval_start_nat (unat f) (unat r) (now_nat t) (boundary_nat t)"
  shows "unat (intervalStartQ32 (delivered f p r (Suc n) t)) = S \<and>
    boundary_nat (delivered f p r (Suc n) t) = S + duration_nat (unat f * Suc n) (unat p) (unat r) \<and>
    now_nat (delivered f p r (Suc n) t) = max (now_nat t) (boundary_nat (delivered f p r (Suc n) t)) \<and>
    unat (intervalPart (delivered f p r (Suc n) t)) = (if Suc n = unat p then 0 else Suc n) \<and>
    intervalFields (delivered f p r (Suc n) t) = f \<and> intervalParts (delivered f p r (Suc n) t) = p"
  using assms(7)
proof (induction n)
  case 0
  have s: "unat (intervalStartQ32 (begin_interval f p r t)) = S" using assms(1,3,5) by (simp add: S_def unat_begin_interval)
  have small: "unat (intervalStartQ32 (begin_interval f p r t)) < 2 ^ 121" using s start_small assms(3,5) by (simp add: S_def)
  have lt: "unat (intervalPart (begin_interval f p r t)) < unat p" using 0 by simp
  note d = deliver_part_nat [OF assms(1-4) lt small]
  show ?case using d s by (simp add: delivered_def advance_delivers assms(1-3,6))
next
  case (Suc n)
  let ?t = "delivered f p r (Suc n) t"
  have ih: "unat (intervalStartQ32 ?t) = S" "boundary_nat ?t = S + duration_nat (unat f * Suc n) (unat p) (unat r)"
    "now_nat ?t = max (now_nat t) (boundary_nat ?t)" "unat (intervalPart ?t) = Suc n" "intervalFields ?t = f" "intervalParts ?t = p"
    using Suc by auto
  then have nz: "intervalPart ?t \<noteq> 0" by (metis Suc_not_Zero unat_0)
  have step: "delivered f p r (Suc (Suc n)) t = deliver_part f p r ?t"
    using nz ih(5,6) by (simp add: delivered_def advance_delivers assms(1-3))
  have small: "unat (intervalStartQ32 ?t) < 2 ^ 121" using ih(1) start_small assms(3,5) by (simp add: S_def)
  have lt: "unat (intervalPart ?t) < unat p" using ih(4) Suc.prems by simp
  note d = deliver_part_nat [OF assms(1-4) lt small]
  have "duration_nat (unat f * Suc n) (unat p) (unat r) \<le> duration_nat (unat f * Suc (Suc n)) (unat p) (unat r)"
    by (rule duration_nat_mono) simp
  then have le: "boundary_nat ?t \<le> boundary_nat (deliver_part f p r ?t)" using d(1) ih(1,2,4) by simp
  show ?case unfolding step using d ih le by (auto simp: max_def)
qed

text \<open>The whole interval: its end is a field edge, and the clock leads the edge by less than a field.\<close>

lemma whole_interval:
  assumes "f \<noteq> 0" and "p \<noteq> 0" and "r \<noteq> 0" and "unat f * unat p < 2 ^ 32"
    and "clock_small t" and "intervalPart t = 0"
  defines "t' \<equiv> delivered f p r (unat p) t" and "k \<equiv>
    (if boundary_nat t + duration_nat (unat f) 1 (unat r) < now_nat t
     then (now_nat t - (boundary_nat t + duration_nat (unat f) 1 (unat r))) div duration_nat 1 1 (unat r) else 0)"
  shows "boundary_nat t' = boundary_nat t + duration_nat (unat f) 1 (unat r) + k * duration_nat 1 1 (unat r)"
    and "boundary_nat t' \<le> now_nat t'" and "now_nat t' < boundary_nat t' + duration_nat 1 1 (unat r)"
    and "now_nat t' = max (now_nat t) (boundary_nat t')" and "intervalPart t' = 0"
proof -
  have pos: "0 < unat f" "0 < unat p" "0 < unat r" using assms(1-3) by (simp_all add: unat_gt_0)
  obtain n where n: "unat p = Suc n" using pos(2) by (cases "unat p") auto
  let ?W = "duration_nat (unat f) 1 (unat r)" and ?F = "duration_nat 1 1 (unat r)"
  let ?x = "now_nat t - (boundary_nat t + ?W)"
  have F: "0 < ?F" using duration_nat_pos [of 1 1 "unat r"] pos by simp
  have d: "boundary_nat t' = interval_start_nat (unat f) (unat r) (now_nat t) (boundary_nat t) + ?W"
    "now_nat t' = max (now_nat t) (boundary_nat t')" "unat (intervalPart t') = 0"
    using delivered_parts [OF assms(1-6), of n] n pos duration_nat_parts [of "unat p" "unat r" "unat f"]
    by (simp_all add: t'_def)
  show b: "boundary_nat t' = boundary_nat t + ?W + k * ?F"
    using d(1) by (simp add: interval_start_nat_def Let_def k_def)
  show m: "now_nat t' = max (now_nat t) (boundary_nat t')" by (rule d(2))
  show "intervalPart t' = 0" using d(3) by (simp add: unat_eq_zero)
  show "boundary_nat t' \<le> now_nat t'" using m by simp
  show "now_nat t' < boundary_nat t' + ?F"
  proof (cases "boundary_nat t + ?W < now_nat t")
    case True
    have "?x = k * ?F + ?x mod ?F" using True by (simp add: k_def)
    then have "now_nat t < boundary_nat t' + ?F" using b True mod_less_divisor [OF F, of ?x] by linarith
    then show ?thesis using m F by simp
  next
    case False
    then show ?thesis using m b F by (simp add: k_def)
  qed
qed

section \<open>The next field edge\<close>

lemma ceil_ticks:
  fixes a n :: nat
  assumes "0 < d"
  shows "a \<le> n * d \<longleftrightarrow> (a + d - 1) div d \<le> n"
proof
  assume "a \<le> n * d"
  then have "a + d - 1 < Suc n * d" using assms by simp
  then show "(a + d - 1) div d \<le> n" using assms by (simp add: less_mult_imp_div_less flip: less_Suc_eq_le)
next
  assume h: "(a + d - 1) div d \<le> n"
  have "a + d - 1 < Suc ((a + d - 1) div d) * d" using dividend_less_div_times [of d "a + d - 1"] assms by simp
  also have "\<dots> \<le> Suc n * d" using h by (intro mult_le_mono1) simp
  finally show "a \<le> n * d" using assms by simp
qed

lemma crosses_next:
  fixes e n F :: nat
  assumes "0 < F"
  shows "e div F < (e + n) div F \<longleftrightarrow> (e div F + 1) * F - e \<le> n"
proof -
  have "e div F < (e + n) div F \<longleftrightarrow> Suc (e div F) * F \<le> e + n"
    using assms by (simp add: Suc_le_eq [symmetric] less_eq_div_iff_mult_less_eq)
  then show ?thesis by auto
qed

lemma field_small: "r \<noteq> 0 \<Longrightarrow> duration_nat 1 1 (unat (r :: u32)) < 2 ^ 68"
  by (rule le_less_trans [OF duration_nat_bound]) (simp_all add: unat_gt_0 q32_per_milli_field_def)

lemma field_pos: "r \<noteq> 0 \<Longrightarrow> 0 < duration_nat 1 1 (unat (r :: u32))"
  by (rule duration_nat_pos) (simp_all add: unat_gt_0)

lemma unat_field: "r \<noteq> 0 \<Longrightarrow> unat (display_field_duration_q32 1 1 r) = duration_nat 1 1 (unat r)"
  using unat_duration [of 1 1 r] by simp

lemma field_nonzero: "r \<noteq> 0 \<Longrightarrow> display_field_duration_q32 1 1 r \<noteq> 0"
  by (metis field_pos neq0_conv unat_0 unat_field)

lemma unat_fieldsSinceBoundary:
  assumes "r \<noteq> 0"
  shows "unat (fieldsSinceBoundary r t) = min ((now_nat t - boundary_nat t) div duration_nat 1 1 (unat r)) (2 ^ 32 - 1)"
proof (cases "nowQ32 t \<le> displayBoundaryQ32 t")
  case True
  then show ?thesis by (simp add: fieldsSinceBoundary_def Let_def word_le_nat_alt)
next
  case False
  let ?q = "(nowQ32 t - displayBoundaryQ32 t) div display_field_duration_q32 1 1 r"
  have q: "unat ?q = (now_nat t - boundary_nat t) div duration_nat 1 1 (unat r)"
    using False assms by (simp add: unat_div unat_sub unat_field)
  show ?thesis
  proof (cases "?q > 0xFFFFFFFF")
    case True
    then show ?thesis using False assms q by (simp add: fieldsSinceBoundary_def Let_def field_nonzero word_less_nat_alt)
  next
    case small: False
    then have "unat ?q < 2 ^ 32" by (simp add: word_less_nat_alt)
    then have "unat (ucast ?q :: u32) = unat ?q" by (simp add: unsigned_ucast_eq take_bit_nat_eq_self_iff)
    then show ?thesis using small False assms q
      by (simp add: fieldsSinceBoundary_def Let_def field_nonzero word_less_nat_alt)
  qed
qed

lemma unat_drop32: "unat (drop_bit 32 w) = unat w div 2 ^ 32" for w :: u128
  by (simp add: drop_bit_eq_div unat_div)

lemma unat_ticksToNextField:
  assumes "r \<noteq> 0" and "clock_small t"
  defines "e \<equiv> now_nat t - boundary_nat t" and "F \<equiv> duration_nat 1 1 (unat r)"
  shows "unat (ticksToNextField r t) = ((e div F + 1) * F - e + 2 ^ 32 - 1) div 2 ^ 32"
proof -
  define d where "d = display_field_duration_q32 1 1 r"
  define x where "x = (if nowQ32 t > displayBoundaryQ32 t then nowQ32 t - displayBoundaryQ32 t else 0)"
  have d: "unat d = F" "d \<noteq> 0" using assms(1) by (simp_all add: d_def F_def unat_field field_nonzero)
  have F: "0 < F" "F < 2 ^ 68" using field_pos [OF assms(1)] field_small [OF assms(1)] by (simp_all add: F_def)
  have x: "unat x = e" by (auto simp: x_def e_def word_less_nat_alt unat_sub word_le_nat_alt)
  have e: "e < 2 ^ 120" using assms(2) by (simp add: e_def clock_small_def less_imp_diff_less)
  have lo: "e \<le> (e div F + 1) * F" and hi: "(e div F + 1) * F \<le> e + F"
    using dividend_less_div_times [OF F(1), of e] by simp_all
  have q: "unat (x div d + 1) = e div F + 1"
    using e x d by (subst unat_add_small) (simp_all add: unat_div le_less_trans [OF div_le_dividend [of e F]] less_SucI)
  have m: "unat ((x div d + 1) * d) = (e div F + 1) * F"
    using q d le_less_trans [OF hi, of "2 ^ 128"] e F by (subst unat_mult_small) simp_all
  have s: "unat ((x div d + 1) * d - x) = (e div F + 1) * F - e"
    using m x lo by (simp add: unat_sub word_le_nat_alt)
  have b: "(e div F + 1) * F - e < 2 ^ 68" using hi F(2) by linarith
  let ?y = "(x div d + 1) * d - x + push_bit 32 1 - 1"
  have a: "unat ((x div d + 1) * d - x + push_bit 32 1) = (e div F + 1) * F - e + 2 ^ 32"
    using s b by (subst unat_add_small) (simp_all add: push_bit_eq_mult)
  then have y: "unat ?y = (e div F + 1) * F - e + 2 ^ 32 - 1" by (subst unat_sub) (simp_all add: word_le_nat_alt)
  have "unat (drop_bit 32 ?y) = unat ?y div 2 ^ 32" by (rule unat_drop32)
  moreover have "unat ?y div 2 ^ 32 < 2 ^ 64" using y b by simp
  ultimately have "unat (ucast (drop_bit 32 ?y) :: u64) = unat ?y div 2 ^ 32"
    by (simp add: unsigned_ucast_eq take_bit_nat_eq_self_iff)
  then show ?thesis using d y by (simp add: ticksToNextField_def Let_def kFractionBits_def flip: d_def x_def)
qed

lemma now_advanceInstructions:
  "clock_small t \<Longrightarrow> now_nat (advanceInstructions n t) = now_nat t + unat n * 2 ^ 32"
proof -
  assume c: "clock_small t"
  have n: "unat n < 2 ^ 32" using unat_less [of n] by simp
  then have "unat (push_bit 32 (ucast n :: u128)) = unat n * 2 ^ 32"
    by (simp add: push_bit_eq_mult unat_word_ariths)
  then show ?thesis using c n
    by (simp add: advanceInstructions_def kFractionBits_def clock_small_def unat_add_small)
qed

lemma next_edge:
  assumes "r \<noteq> 0" and "clock_small t" and "displayBoundaryQ32 t \<le> nowQ32 t" and "fieldsSinceBoundary r t < 0xFFFFFFFF"
  shows "0 < ticksToNextField r t"
    and "fieldsSinceBoundary r t < fieldsSinceBoundary r (advanceInstructions n t) \<longleftrightarrow> ticksToNextField r t \<le> ucast n"
proof -
  let ?e = "now_nat t - boundary_nat t" and ?F = "duration_nat 1 1 (unat r)"
  have F: "0 < ?F" using assms(1) by (rule field_pos)
  have t: "unat (ticksToNextField r t) = ((?e div ?F + 1) * ?F - ?e + 2 ^ 32 - 1) div 2 ^ 32"
    by (rule unat_ticksToNextField [OF assms(1,2)])
  have "?e < (?e div ?F + 1) * ?F" using dividend_less_div_times [OF F, of ?e] by simp
  then have "2 ^ 32 \<le> (?e div ?F + 1) * ?F - ?e + 2 ^ 32 - 1" by linarith
  then have "0 < unat (ticksToNextField r t)" unfolding t by (simp add: div_greater_zero_iff)
  then show "0 < ticksToNextField r t" by (simp add: word_less_nat_alt)
  have b: "boundary_nat t \<le> now_nat t" using assms(3) by (simp add: word_le_nat_alt)
  have e: "now_nat (advanceInstructions n t) - boundary_nat (advanceInstructions n t) = ?e + unat n * 2 ^ 32"
    using b now_advanceInstructions [OF assms(2), of n] by (simp add: advanceInstructions_def)
  have old: "?e div ?F < 2 ^ 32 - 1" using assms(4) by (simp add: word_less_nat_alt unat_fieldsSinceBoundary [OF assms(1)])
  have "fieldsSinceBoundary r t < fieldsSinceBoundary r (advanceInstructions n t) \<longleftrightarrow>
      ?e div ?F < (?e + unat n * 2 ^ 32) div ?F"
    unfolding word_less_nat_alt unat_fieldsSinceBoundary [OF assms(1)] e using old by (auto simp: min_def)
  also have "\<dots> \<longleftrightarrow> ((?e div ?F + 1) * ?F - ?e + 2 ^ 32 - 1) div 2 ^ 32 \<le> unat n"
    unfolding crosses_next [OF F] by (rule ceil_ticks) simp
  also have "\<dots> \<longleftrightarrow> ticksToNextField r t \<le> ucast n" by (simp add: word_le_nat_alt t)
  finally show "fieldsSinceBoundary r t < fieldsSinceBoundary r (advanceInstructions n t) \<longleftrightarrow> ticksToNextField r t \<le> ucast n" .
qed

section \<open>Field phase\<close>

lemma unat_gcd128: "unat (gcd128 a b) = gcd (unat a) (unat b)"
proof (induction a b rule: gcd128.induct)
  case (1 a b)
  then show ?case
    by (subst gcd128.simps) (auto simp: unat_mod gcd_red_nat [of "unat a" "unat b"] gcd.commute)
qed

text \<open>The phase in units of a \<open>D\<close>th of a field, for a common multiple \<open>D\<close> of the parts in use.\<close>

definition phase_units :: "nat \<Rightarrow> Timing \<Rightarrow> nat" where
  "phase_units D tm = unat (phaseNumerator tm) * (D div unat (phaseDenominator tm))"

definition phase_ok :: "nat \<Rightarrow> Timing \<Rightarrow> bool" where
  "phase_ok D tm \<longleftrightarrow> unat (phaseDenominator tm) dvd D \<and> unat (phaseNumerator tm) < unat (phaseDenominator tm)"

lemma phase_below: "phase_ok D tm \<Longrightarrow> 0 < D \<Longrightarrow> phase_units D tm < D"
proof -
  assume a: "phase_ok D tm" "0 < D"
  then obtain c where "D = unat (phaseDenominator tm) * c" by (auto simp: phase_ok_def elim: dvdE)
  with a show ?thesis by (auto simp: phase_ok_def phase_units_def)
qed

lemma consume_phase:
  fixes f :: u32
  assumes "phase_ok D tm" and "0 < D" and "D < 2 ^ 32" and "p \<noteq> 0" and "unat p dvd D"
  defines "res \<equiv> consumeCompletedDisplayFields f p tm"
  shows "unat (fst res) * D + phase_units D (snd res) = phase_units D tm + unat f * (D div unat p)"
    and "phase_ok D (snd res)"
proof -
  let ?N = "unat (phaseNumerator tm)" and ?d = "unat (phaseDenominator tm)" and ?p = "unat p"
  define g where "g = gcd ?d ?p"
  define m where "m = ?d * (?p div g)"
  have d: "0 < ?d" "?N < ?d" "?d dvd D" using assms(1) by (auto simp: phase_ok_def)
  have p: "0 < ?p" using assms(4) by (simp add: unat_gt_0)
  have g: "0 < g" "g dvd ?d" "g dvd ?p" using d by (simp_all add: g_def)
  have ml: "m = lcm ?d ?p" by (simp add: m_def g_def lcm_nat_def div_mult_swap)
  then have "m dvd D" using d assms(5) by simp
  then obtain c where c: "D = m * c" by (elim dvdE)
  have m: "0 < m" "m < 2 ^ 32"
    using assms(2) \<open>m dvd D\<close> le_less_trans [OF dvd_imp_le [OF \<open>m dvd D\<close> assms(2)] assms(3)] by (auto intro: dvd_pos_nat)
  have mp: "m = ?p * (?d div g)" using g by (simp add: m_def div_mult_swap mult.commute)
  have Dd: "D div ?d = ?p div g * c" using d(1) by (simp add: c m_def mult.assoc)
  have Dp: "D div ?p = ?d div g * c" using p by (simp add: c mp mult.assoc)
  define x where "x = ?N * (?p div g) + unat f * (?d div g)"
  let ?common = "gcd128 (phaseDenominator tm) (ucast p)"
  have cm: "unat ?common = g" by (simp add: unat_gcd128 g_def)
  have L: "unat (ucast p div ?common) = ?p div g" and R: "unat (phaseDenominator tm div ?common) = ?d div g"
    using cm by (simp_all add: unat_div)
  let ?den = "phaseDenominator tm * (ucast p div ?common)"
  have den: "unat ?den = m" using L m by (subst unat_mult_small) (simp_all add: m_def)
  have NL: "?N * (?p div g) < 2 ^ 32"
    using m d(2) by (intro le_less_trans [OF _ m(2)]) (simp add: m_def)
  have dg: "?d div g < 2 ^ 32" using mp p m by (metis dvd_imp_le dvd_triv_right le_less_trans)
  have fR: "unat f * (?d div g) < 2 ^ 64"
    using mult_strict_mono' [OF unat_less [of f] dg] by simp
  have fRw: "unat (ucast f * (phaseDenominator tm div ?common)) = unat f * (?d div g)"
    using R fR by (subst unat_mult_small) simp_all
  have NLw: "unat (phaseNumerator tm * (ucast p div ?common)) = ?N * (?p div g)"
    using L NL by (subst unat_mult_small) simp_all
  let ?num = "phaseNumerator tm * (ucast p div ?common) + ucast f * (phaseDenominator tm div ?common)"
  have num: "unat ?num = x" using NLw fRw NL fR by (subst unat_add_small) (simp_all add: x_def)
  have total: "phase_units D tm + unat f * (D div ?p) = x * c" by (simp add: phase_units_def Dd Dp x_def algebra_simps)
  have "0 < ?p div g" using g p by (simp add: dvd_imp_le div_greater_zero_iff)
  then have "?N * (?p div g) < m" using d(2) by (simp add: m_def)
  moreover have "unat f * (?d div g) \<le> unat f * m" using p by (simp add: mp)
  ultimately have "x < m + unat f * m" unfolding x_def by (rule add_less_le_mono)
  then have "x < Suc (unat f) * m" by simp
  then have "x div m < Suc (unat f)" by (rule less_mult_imp_div_less)
  then have cs: "x div m < 2 ^ 32" using unat_less [of f] by simp
  have comp: "unat (fst res) = x div m"
    using num den cs by (simp add: res_def consumeCompletedDisplayFields_def Let_def unat_div unsigned_ucast_eq take_bit_nat_eq_self_iff)
  let ?rest = "?num mod ?den"
  have rest: "unat ?rest = x mod m" using num den by (simp add: unat_mod)
  have units: "phase_units D (snd res) = x mod m * c" and ok: "phase_ok D (snd res)"
  proof -
    have "phase_units D (snd res) = x mod m * c \<and> phase_ok D (snd res)"
    proof (cases "?rest = 0")
      case True
      then have "x mod m = 0" using rest by simp
      then show ?thesis using True
        by (simp add: res_def consumeCompletedDisplayFields_def Let_def phase_units_def phase_ok_def)
    next
      case False
      let ?red = "gcd128 ?rest ?den"
      define h where "h = gcd (x mod m) m"
      have h: "0 < h" "h dvd x mod m" "h dvd m" using m by (simp_all add: h_def)
      have red: "unat ?red = h" using rest den by (simp add: unat_gcd128 h_def)
      have n': "unat (phaseNumerator (snd res)) = x mod m div h" and d': "unat (phaseDenominator (snd res)) = m div h"
        using False red rest den by (simp_all add: res_def consumeCompletedDisplayFields_def Let_def unat_div)
      have Dh: "D = (m div h) * (h * c)" using h by (simp add: c mult.assoc [symmetric])
      have mh: "0 < m div h" using h m by (simp add: dvd_imp_le div_greater_zero_iff)
      have "phase_units D (snd res) = x mod m div h * (h * c)"
        using mh by (simp add: phase_units_def n' d' Dh)
      also have "\<dots> = x mod m * c" using h by (simp add: mult.assoc [symmetric])
      finally have u: "phase_units D (snd res) = x mod m * c" .
      have "x mod m div h < m div h" using h m by (simp add: div_less_mono)
      then have "phase_ok D (snd res)" using Dh by (simp add: phase_ok_def n' d')
      with u show ?thesis by simp
    qed
    then show "phase_units D (snd res) = x mod m * c" "phase_ok D (snd res)" by simp_all
  qed
  show "phase_ok D (snd res)" by (rule ok)
  have "x * c = (x div m * m + x mod m) * c" by simp
  then show "unat (fst res) * D + phase_units D (snd res) = phase_units D tm + unat f * (D div unat p)"
    unfolding units comp total by (simp only: c distrib_right mult.assoc)
qed

text \<open>A sequence of deliveries: how many VBlanks they raise, and the time after them.\<close>

primrec deliver_all :: "(int \<times> int \<times> u32) list \<Rightarrow> Timing \<Rightarrow> nat \<times> Timing" where
  "deliver_all [] tm = (0, tm)"
| "deliver_all (c # cs) tm =
     (case c of (f, p, rate) \<Rightarrow>
        case deliver_fields f p rate tm of (completed, tm1) \<Rightarrow>
          case deliver_all cs tm1 of (n, tm2) \<Rightarrow> ((case completed of None \<Rightarrow> 0 | Some k \<Rightarrow> unat k) + n, tm2))"

definition cadence_ok :: "nat \<Rightarrow> int \<times> int \<times> u32 \<Rightarrow> bool" where
  "cadence_ok D c = (case c of (f, p, rate) \<Rightarrow> 0 < f \<and> f < 2 ^ 31 \<and> 0 < p \<and> p < 2 ^ 31 \<and> p dvd int D \<and> rate \<noteq> 0)"

lemma unat_word_of_int: "0 \<le> k \<Longrightarrow> k < 2 ^ 31 \<Longrightarrow> unat (word_of_int k :: u32) = nat k"
  by (simp add: unsigned_of_int take_bit_int_eq_self)

lemma phase_frame [simp]:
  "phase_units D (tm\<lparr>emulatedTime := t\<rparr>) = phase_units D tm" "phase_ok D (tm\<lparr>emulatedTime := t\<rparr>) = phase_ok D tm"
  by (simp_all add: phase_units_def phase_ok_def)

lemma deliver_fields_phase:
  assumes "cadence_ok D (f, p, rate)" and "phase_ok D tm" and "0 < D" and "D < 2 ^ 32"
  obtains k tm' where "deliver_fields f p rate tm = (Some k, tm')" and "phase_ok D tm'"
    and "unat k * D + phase_units D tm' = phase_units D tm + nat f * (D div nat p)"
proof -
  have c: "0 < f" "f < 2 ^ 31" "0 < p" "p < 2 ^ 31" "p dvd int D" "rate \<noteq> 0" using assms(1) by (simp_all add: cadence_ok_def)
  let ?f = "word_of_int f :: u32" and ?p = "word_of_int p :: u32"
  have u: "unat ?f = nat f" "unat ?p = nat p" using c by (simp_all add: unat_word_of_int)
  then have nz: "?f \<noteq> 0" "?p \<noteq> 0" using c by (metis unat_0 zero_less_nat_eq less_irrefl)+
  have pd: "unat ?p dvd D" using c u by (simp add: nat_dvd_iff)
  obtain t1 where t1: "advanceDisplayFields ?f ?p rate (emulatedTime tm) = (True, t1)"
    using advance_delivers [OF nz c(6)] by blast
  define res where "res = consumeCompletedDisplayFields ?f ?p (tm\<lparr>emulatedTime := t1\<rparr>)"
  have "phase_ok D (tm\<lparr>emulatedTime := t1\<rparr>)" using assms(2) by simp
  note r = consume_phase [OF this assms(3,4) nz(2) pd, of ?f, folded res_def]
  have "deliver_fields f p rate tm = (Some (fst res), snd res)"
    using c t1 by (simp add: deliver_fields_def res_def split_def)
  moreover have "unat (fst res) * D + phase_units D (snd res) = phase_units D tm + nat f * (D div nat p)"
    using r(1) u by simp
  ultimately show ?thesis using r(2) that by blast
qed

lemma deliver_all_phase:
  "\<lbrakk>\<forall>c\<in>set cs. cadence_ok D c; phase_ok D tm; 0 < D; D < 2 ^ 32\<rbrakk> \<Longrightarrow>
     phase_ok D (snd (deliver_all cs tm)) \<and>
     fst (deliver_all cs tm) * D + phase_units D (snd (deliver_all cs tm)) =
       phase_units D tm + (\<Sum>(f, p, rate)\<leftarrow>cs. nat f * (D div nat p))"
proof (induction cs arbitrary: tm)
  case Nil
  then show ?case by simp
next
  case (Cons c cs)
  obtain f p rate where c: "c = (f, p, rate)" by (cases c)
  have ok: "cadence_ok D (f, p, rate)" using Cons.prems(1) c by simp
  obtain k tm1 where d: "deliver_fields f p rate tm = (Some k, tm1)" "phase_ok D tm1"
    "unat k * D + phase_units D tm1 = phase_units D tm + nat f * (D div nat p)"
    using deliver_fields_phase [OF ok Cons.prems(2-4)] by blast
  have "\<forall>c\<in>set cs. cadence_ok D c" using Cons.prems(1) by simp
  note ih = Cons.IH [OF this d(2) Cons.prems(3,4)]
  show ?case using ih d by (simp add: c split_def distrib_right)
qed

section \<open>Properties\<close>

text \<open>
  A display interval of \<open>f\<close> fields delivered in \<open>p\<close> parts, from a clock no interval is in progress on: after the
  last part the display boundary is a field edge, \<open>f\<close> fields after the previous one and moved on by the whole fields
  the guest's work already ran past; the clock never goes back, is at or after the boundary and leads it by less than a
  field, and no interval is in progress. Every earlier part lands on its share of the interval, rounded up.
\<close>

theorem interval_on_field_grid:
  assumes "f \<noteq> 0" and "p \<noteq> 0" and "r \<noteq> 0" and "unat f * unat p < 2 ^ 32"
    and "clock_small t" and "intervalPart t = 0" and "n < unat p"
  shows "boundary_nat (delivered f p r (Suc n) t) =
      interval_start_nat (unat f) (unat r) (now_nat t) (boundary_nat t) + duration_nat (unat f * Suc n) (unat p) (unat r) \<and>
    now_nat (delivered f p r (Suc n) t) = max (now_nat t) (boundary_nat (delivered f p r (Suc n) t)) \<and>
    (\<exists>k. boundary_nat (delivered f p r (unat p) t) =
       boundary_nat t + duration_nat (unat f) 1 (unat r) + k * duration_nat 1 1 (unat r) \<and>
       (now_nat t \<le> boundary_nat t + duration_nat (unat f) 1 (unat r) \<longrightarrow> k = 0)) \<and>
    boundary_nat (delivered f p r (unat p) t) \<le> now_nat (delivered f p r (unat p) t) \<and>
    now_nat (delivered f p r (unat p) t) < boundary_nat (delivered f p r (unat p) t) + duration_nat 1 1 (unat r) \<and>
    intervalPart (delivered f p r (unat p) t) = 0"
proof -
  note w = whole_interval [OF assms(1-6)]
  have "\<exists>k. boundary_nat (delivered f p r (unat p) t) =
       boundary_nat t + duration_nat (unat f) 1 (unat r) + k * duration_nat 1 1 (unat r) \<and>
       (now_nat t \<le> boundary_nat t + duration_nat (unat f) 1 (unat r) \<longrightarrow> k = 0)"
    by (rule exI, rule conjI, rule w(1)) simp
  then show ?thesis using delivered_parts [OF assms] w(2,3,5) by simp
qed

theorem interval_on_field_grid_witness:
  "boundary_nat (delivered 1 2 1000 2 new_time) \<le> now_nat (delivered 1 2 1000 2 new_time) \<and>
   intervalPart (delivered 1 2 1000 2 new_time) = 0"
  using interval_on_field_grid [of 1 2 1000 new_time 1] by (simp add: new_time_def clock_small_def)

text \<open>
  \<open>ticksToNextField\<close> is the exact count of guest ticks to the next field edge: never zero, and executing \<open>n\<close>
  instructions moves the clock into a later field exactly when \<open>n\<close> reaches it.
\<close>

theorem next_field_edge_exact:
  assumes "r \<noteq> 0" and "clock_small t" and "displayBoundaryQ32 t \<le> nowQ32 t" and "fieldsSinceBoundary r t < 0xFFFFFFFF"
  shows "0 < ticksToNextField r t \<and>
    (\<forall>n. fieldsSinceBoundary r t < fieldsSinceBoundary r (advanceInstructions n t) \<longleftrightarrow> ticksToNextField r t \<le> ucast n)"
  using next_edge [OF assms] by simp

theorem next_field_edge_exact_witness:
  "0 < ticksToNextField 59817 new_time"
  using next_field_edge_exact [of 59817 new_time] by (simp add: new_time_def clock_small_def fieldsSinceBoundary_def)

text \<open>
  C17: No VBlank is lost or raised twice by pacing in parts: over any sequence of deliveries whose parts divide \<open>D\<close>, the
  VBlanks raised are the whole part of the fields delivered, counted exactly in \<open>D\<close>ths.
\<close>

theorem vblanks_count_fields:
  assumes "\<forall>c\<in>set cs. cadence_ok D c" and "0 < D" and "D < 2 ^ 32"
  shows "fst (deliver_all cs new_timing) = (\<Sum>(f, p, rate)\<leftarrow>cs. nat f * (D div nat p)) div D"
proof -
  have ok: "phase_ok D new_timing" and z: "phase_units D new_timing = 0"
    by (simp_all add: new_timing_def phase_ok_def phase_units_def)
  note d = deliver_all_phase [OF assms(1) ok assms(2,3)]
  then have "(\<Sum>(f, p, rate)\<leftarrow>cs. nat f * (D div nat p)) =
      fst (deliver_all cs new_timing) * D + phase_units D (snd (deliver_all cs new_timing))" using z by simp
  moreover have "phase_units D (snd (deliver_all cs new_timing)) < D" using d assms(2) by (intro phase_below) simp_all
  ultimately show ?thesis using assms(2) by simp
qed

theorem vblanks_count_fields_witness:
  "fst (deliver_all [(1, 2, 59817), (1, 2, 59817), (3, 2, 59817), (1, 3, 59817)] new_timing) = 2"
  by (subst vblanks_count_fields [of _ 6]) (simp_all add: cadence_ok_def)

text \<open>
  C35: What a machine state keeps of the clock: 64 bits of a Q32 value, so the low 32 bits of the ticks. A restored clock
  has dropped the rest, and a device deadline that was ahead, which is saved whole, is further away by what was dropped.
\<close>

theorem restored_clock_drops_ticks:
  assumes "nowTicks (emulatedTime tm) < d"
  shows "nowTicks (emulatedTime (restoreClockSnapshot (clockSnapshot tm) tm0)) = nowTicks (emulatedTime tm) mod 2 ^ 32 \<and>
    ticksUntilDeviceEvent (Some d) (restoreClockSnapshot (clockSnapshot tm) tm0) =
      map_option (\<lambda>n. n + (nowTicks (emulatedTime tm) - nowTicks (emulatedTime tm) mod 2 ^ 32)) (ticksUntilDeviceEvent (Some d) tm)"
proof -
  let ?n = "nowTicks (emulatedTime tm)"
  have r: "nowTicks (emulatedTime (restoreClockSnapshot (clockSnapshot tm) tm0)) = ?n mod 2 ^ 32"
    unfolding take_bit_eq_mod [symmetric]
    by (simp add: restoreClockSnapshot_def clockSnapshot_def restore_time_def q32_def nowTicks_def kFractionBits_def)
      (rule bit_word_eqI, auto simp: bit_simps)
  have "?n mod 2 ^ 32 \<le> ?n" by (simp add: word_le_nat_alt unat_mod)
  then have "?n mod 2 ^ 32 < d" using assms by (rule le_less_trans)
  then show ?thesis using r assms by (simp add: ticksUntilDeviceEvent_def)
qed

theorem restored_clock_drops_ticks_witness:
  "ticksUntilDeviceEvent (Some 0x100000001)
     (restoreClockSnapshot (clockSnapshot (new_timing\<lparr>emulatedTime := new_time\<lparr>nowQ32 := 0x10000000000000000\<rparr>\<rparr>)) new_timing) = Some 0x100000001"
  using restored_clock_drops_ticks [where tm = "new_timing\<lparr>emulatedTime := new_time\<lparr>nowQ32 := 0x10000000000000000\<rparr>\<rparr>" and d = "0x100000001" and ?tm0.0 = new_timing]
  by (simp add: nowTicks_def kFractionBits_def ticksUntilDeviceEvent_def)

text \<open>Within 64 bits the clock comes back whole.\<close>

lemma clock_roundtrip:
  "now_nat t < 2 ^ 64 \<Longrightarrow> boundary_nat t < 2 ^ 64 \<Longrightarrow>
     nowQ32 (restore_time (q32 t) t0) = nowQ32 t \<and> displayBoundaryQ32 (restore_time (q32 t) t0) = displayBoundaryQ32 t"
  by (simp add: restore_time_def q32_def word_unat_eq_iff unsigned_ucast_eq unsigned_take_bit_eq take_bit_nat_eq_self_iff)

section \<open>The host field clock\<close>

text \<open>
  The host field clock: a turn the guest cannot take, or one asked for inside the handler, leaves the request latched;
  otherwise the handler runs once, marked as inside a turn, and when it returns the mark is gone and the next deadline is
  ahead of the guest clock (within the clock's range).
\<close>

theorem host_turn_served:
  assumes "service_turn g h = Some h'"
    and "\<And>f h1 h2. te_handler g f h1 = Some h2 \<Longrightarrow> ht_periodTicks (turn h2) \<noteq> 0 \<and>
      unat (te_now g (te_put_back g (machine_of h) (machine_of h2))) + unat (ht_periodTicks (turn h2)) < 2 ^ 64"
  shows "(if \<not> te_can_dispatch g (machine_of h) \<or> (ht_function (turn h) \<noteq> None \<and> ht_inTurn (turn h)) then h' = h
     else case ht_function (turn h) of
            None \<Rightarrow> \<not> pw_host h' \<and> machine_of h' = machine_of h
          | Some f \<Rightarrow> (\<exists>h2. te_handler g f (h\<lparr>pw_host := False, turn := (turn h)\<lparr>ht_inTurn := True\<rparr>\<rparr>) = Some h2 \<and>
              machine_of h' = te_put_back g (machine_of h) (machine_of h2) \<and> pw_host h' = pw_host h2) \<and>
            \<not> ht_inTurn (turn h') \<and> te_now g (machine_of h') < ht_deadlineTicks (turn h'))"
proof (cases "\<not> te_can_dispatch g (machine_of h) \<or> (ht_function (turn h) \<noteq> None \<and> ht_inTurn (turn h))")
  case True
  then show ?thesis using assms(1) by (auto simp: service_turn_def split: if_splits)
next
  case False
  show ?thesis
  proof (cases "ht_function (turn h)")
    case None
    then show ?thesis using False assms(1) by (auto simp: service_turn_def Let_def)
  next
    case (Some f)
    then obtain h2 where h2: "te_handler g f (h\<lparr>pw_host := False, turn := (turn h)\<lparr>ht_inTurn := True\<rparr>\<rparr>) = Some h2"
      using False assms(1) by (auto simp: service_turn_def Let_def Some_bind_iff)
    let ?now = "te_now g (te_put_back g (machine_of h) (machine_of h2))"
    have "?now < ?now + ht_periodTicks (turn h2)"
      using assms(2) [OF h2] by (simp add: word_less_nat_alt unat_add_small unat_gt_0)
    then show ?thesis
      using h2 Some False assms(1) by (auto simp: service_turn_def Let_def rearm_def split: if_splits)
  qed
qed

end
