(* ===== verification/Number_Text.thy ===== *)
theory Number_Text
  imports Prelude
begin

text \<open>
  The strict whole-text number parser of configuration values, debug commands and disc metadata
  (\<open>config/number_text.cpp\<close>). \<open>std::from_chars\<close> of an unsigned 64-bit integer is the longest digit prefix in the
  base, an error when there is none or when its value does not fit. \<open>parseFloat\<close> is left out.
\<close>

definition digit_value :: "char \<Rightarrow> nat option" where
  "digit_value c =
     (let n = of_char c in
      if 48 \<le> n \<and> n \<le> 57 then Some (n - 48)
      else if 97 \<le> n \<and> n \<le> 122 then Some (n - 87)
      else if 65 \<le> n \<and> n \<le> 90 then Some (n - 55)
      else None)"

definition is_digit :: "nat \<Rightarrow> char \<Rightarrow> bool" where
  "is_digit base c = (case digit_value c of Some d \<Rightarrow> d < base | None \<Rightarrow> False)"

definition digits_value :: "nat \<Rightarrow> string \<Rightarrow> nat" where
  "digits_value base s = fold (\<lambda>c n. n * base + the (digit_value c)) s 0"

text \<open>The value and what follows it.\<close>

definition from_chars :: "string \<Rightarrow> nat \<Rightarrow> (nat \<times> string) option" where
  "from_chars text base =
     (let digits = takeWhile (is_digit base) text in
      if digits = [] \<or> digits_value base digits \<ge> 2 ^ 64 then None
      else Some (digits_value base digits, dropWhile (is_digit base) text))"

definition resolveBase :: "string \<Rightarrow> nat \<Rightarrow> string \<times> nat" where
  "resolveBase text base =
     (let hexPrefix = length text > 2 \<and> text ! 0 = CHR ''0'' \<and> (text ! 1 = CHR ''x'' \<or> text ! 1 = CHR ''X'') in
      if (base = 16 \<or> base = 0) \<and> hexPrefix then (drop 2 text, 16)
      else if base = 0 then (text, if length text > 1 \<and> text ! 0 = CHR ''0'' then 8 else 10)
      else (text, base))"

definition parseUnsigned64 :: "string \<Rightarrow> nat \<Rightarrow> nat option" where
  "parseUnsigned64 text base =
     (let (t, b) = resolveBase text base in
      case from_chars t b of
        None \<Rightarrow> None
      | Some (value, rest) \<Rightarrow> if t = [] \<or> rest \<noteq> [] then None else Some value)"

definition parseUnsigned :: "string \<Rightarrow> nat \<Rightarrow> nat option" where
  "parseUnsigned text base =
     (case parseUnsigned64 text base of None \<Rightarrow> None | Some v \<Rightarrow> if v > 2 ^ 32 - 1 then None else Some v)"

definition parseSigned :: "string \<Rightarrow> nat \<Rightarrow> int option" where
  "parseSigned text base =
     (let negative = text \<noteq> [] \<and> hd text = CHR ''-'' in
      case parseUnsigned64 (if negative then tl text else text) base of
        None \<Rightarrow> None
      | Some magnitude \<Rightarrow>
          if magnitude > 2 ^ 63 - 1 + (if negative then 1 else 0) then None
          else Some (if negative then - int magnitude else int magnitude))"

definition parseInt :: "string \<Rightarrow> int option" where
  "parseInt text =
     (case parseSigned text 10 of
        None \<Rightarrow> None
      | Some v \<Rightarrow> if v < - (2 ^ 31) \<or> v > 2 ^ 31 - 1 then None else Some v)"

definition find_char :: "char \<Rightarrow> string \<Rightarrow> (string \<times> string) option" where
  "find_char c text = (case dropWhile (\<lambda>x. x \<noteq> c) text of [] \<Rightarrow> None | _ # rest \<Rightarrow> Some (takeWhile (\<lambda>x. x \<noteq> c) text, rest))"

definition parsePair :: "string \<Rightarrow> char \<Rightarrow> nat \<Rightarrow> (nat \<times> nat) option" where
  "parsePair text separator base =
     do { (a, b) \<leftarrow> find_char separator text;
          let first = parseUnsigned a base;
          let second = parseUnsigned b base;
          (case (first, second) of (Some x, Some y) \<Rightarrow> Some (x, y) | _ \<Rightarrow> None) }"

function splitList :: "string \<Rightarrow> string \<Rightarrow> string list" where
  "splitList text separators =
     (let t = dropWhile (\<lambda>c. c \<in> set separators) text in
      if t = [] then []
      else takeWhile (\<lambda>c. c \<notin> set separators) t # splitList (dropWhile (\<lambda>c. c \<notin> set separators) t) separators)"
  by pat_completeness auto
termination
proof (relation "measure (\<lambda>(t, s). length t)")
  fix s separators :: string and t
  assume t: "t = dropWhile (\<lambda>c. c \<in> set separators) s" and ne: "t \<noteq> []"
  then have "hd t \<notin> set separators" using hd_dropWhile [of "\<lambda>c. c \<in> set separators" s] by auto
  then have "length (dropWhile (\<lambda>c. c \<notin> set separators) t) < length t"
    using ne by (cases t) (auto simp: le_imp_less_Suc length_dropWhile_le)
  also have "length t \<le> length s" unfolding t by (rule length_dropWhile_le)
  finally show "((dropWhile (\<lambda>c. c \<notin> set separators) t, separators), s, separators) \<in> measure (\<lambda>(t, s). length t)" by simp
qed simp

declare splitList.simps [simp del]

primrec parse_each :: "nat \<Rightarrow> string list \<Rightarrow> nat list option" where
  "parse_each base [] = Some []"
| "parse_each base (x # xs) =
     (case parseUnsigned x base of None \<Rightarrow> None | Some v \<Rightarrow> map_option (Cons v) (parse_each base xs))"

definition kListSeparators :: string where "kListSeparators = [CHR '','', CHR '' '', char_of (9 :: nat)]"

definition parseUnsignedList :: "string \<Rightarrow> nat \<Rightarrow> nat list option" where
  "parseUnsignedList text base = parse_each base (splitList text kListSeparators)"

section \<open>Decimal round trips\<close>

lemma digit_value_char: "d < 10 \<Longrightarrow> digit_value (char_of (48 + d)) = Some d"
  by (simp add: digit_value_def Let_def of_char_of)

lemma is_digit_char: "d < 10 \<Longrightarrow> is_digit 10 (char_of (48 + d :: nat))"
  by (simp add: is_digit_def digit_value_char)

lemma show_nat_digits: "list_all (is_digit 10) (show_nat n)"
proof (induction n rule: show_nat.induct)
  case (1 n)
  then show ?case by (subst show_nat.simps) (simp add: is_digit_char)
qed

lemma show_nat_value: "digits_value 10 (show_nat n) = n"
proof (induction n rule: show_nat.induct)
  case (1 n)
  show ?case
  proof (cases "n < 10")
    case True
    then show ?thesis by (subst show_nat.simps) (simp add: digits_value_def digit_value_char)
  next
    case False
    then have "digits_value 10 (show_nat n) = digits_value 10 (show_nat (n div 10)) * 10 + n mod 10"
      by (subst show_nat.simps) (simp add: digits_value_def digit_value_char)
    then show ?thesis using 1 False by simp
  qed
qed

lemma show_nat_ne [simp]: "show_nat n \<noteq> []"
  by (subst show_nat.simps) simp

lemma all_digits: "list_all P s \<Longrightarrow> takeWhile P s = s \<and> dropWhile P s = []"
  by (simp add: list_all_iff)

lemma from_chars_show: "n < 2 ^ 64 \<Longrightarrow> from_chars (show_nat n) 10 = Some (n, [])"
proof -
  have t: "takeWhile (is_digit 10) (show_nat n) = show_nat n" "dropWhile (is_digit 10) (show_nat n) = []"
    using all_digits [OF show_nat_digits [of n]] by blast+
  show "n < 2 ^ 64 \<Longrightarrow> ?thesis" by (simp only: from_chars_def Let_def t) (simp add: show_nat_value)
qed

lemma parseUnsigned64_show: "n < 2 ^ 64 \<Longrightarrow> parseUnsigned64 (show_nat n) 10 = Some n"
  by (simp add: parseUnsigned64_def resolveBase_def Let_def from_chars_show)

lemma show_nat_no_sign: "hd (show_nat n) \<noteq> CHR ''-''"
proof
  assume "hd (show_nat n) = CHR ''-''"
  then have "is_digit 10 CHR ''-''" using show_nat_digits [of n] by (metis list_all_iff list.set_sel(1) show_nat_ne)
  then show False by (simp add: is_digit_def digit_value_def Let_def)
qed

text \<open>The text of an integer.\<close>

definition show_int :: "int \<Rightarrow> string" where
  "show_int i = (if i < 0 then CHR ''-'' # show_nat (nat (- i)) else show_nat (nat i))"

lemma parseInt_show: "- (2 ^ 31) \<le> i \<Longrightarrow> i < 2 ^ 31 \<Longrightarrow> parseInt (show_int i) = Some i"
  by (auto simp: parseInt_def parseSigned_def show_int_def parseUnsigned64_show show_nat_no_sign Let_def)

end
