(* ===== verification/Disc_Image.thy ===== *)
theory Disc_Image
  imports Cd_Position Number_Text
begin

text \<open>
  The disc image: its track layout from CHD metadata, sectors out of decoded hunks, the ISO 9660 lookup
  (\<open>cd/disc.cpp\<close>) and the file reader over it (\<open>cd/disc_provision.cpp\<close>). The CHD file itself is an argument
  (\<open>chd_file\<close>): its header, its metadata records and its decoded hunks, which libchdr reads. Choosing the path of the
  image, logging and the read counters are left out.

  A directory walk reads its sector buffer by offsets the disc supplies; a read past the 2048 bytes of the buffer has no
  defined value in the source, and is the outer \<open>None\<close> of \<open>findFile\<close>.
\<close>

section \<open>Track metadata\<close>

definition is_space :: "char \<Rightarrow> bool" where
  "is_space c \<longleftrightarrow> of_char c = (32 :: nat) \<or> of_char c = (9 :: nat) \<or> of_char c = (13 :: nat) \<or> of_char c = (10 :: nat)"

primrec take_fields :: "string list \<Rightarrow> string \<Rightarrow> string list option" where
  "take_fields [] rest = Some []"
| "take_fields (key # keys) rest =
     (let r = dropWhile is_space rest;
          field = takeWhile (\<lambda>c. \<not> is_space c) r;
          remaining = dropWhile (\<lambda>c. \<not> is_space c) r
      in if take (length key) field \<noteq> key \<or> length field = length key then None
         else map_option (Cons (drop (length key) field)) (take_fields keys remaining))"

definition kKeys :: "string list" where
  "kKeys = [''TRACK:'', ''TYPE:'', ''SUBTYPE:'', ''FRAMES:'', ''PREGAP:'', ''PGTYPE:'', ''PGSUB:'', ''POSTGAP:'']"

definition int32_range :: "int \<Rightarrow> bool" where
  "int32_range v \<longleftrightarrow> - (2 ^ 31) \<le> v \<and> v \<le> 2 ^ 31 - 1"

definition place_track :: "int \<Rightarrow> int \<Rightarrow> int \<Rightarrow> int \<Rightarrow> bool \<Rightarrow> int \<Rightarrow> (DiscTrackInfo \<times> int) option" where
  "place_track track_number frames pregap_frames postgap_frames virtual physical_lba =
     (let pregap_in_file = (if virtual then pregap_frames else 0) in
      if frames < pregap_in_file then None
      else
        let gap = (if track_number = 1 then kLeadInSectors else if pregap_in_file \<noteq> 0 then 0 else pregap_frames);
            start = physical_lba + gap + pregap_in_file;
            next' = start + (frames - pregap_in_file) + postgap_frames
        in if \<not> int32_range start \<or> \<not> int32_range next' then None
           else Some (\<lparr>number = of_int track_number, tr_lba = start, sectors = of_int (frames - pregap_in_file),
                       pregap = gap, pregap_dv = pregap_in_file, postgap = postgap_frames\<rparr>, next'))"

definition parseTrackMetadata :: "string \<Rightarrow> bool \<Rightarrow> int \<Rightarrow> (DiscTrackInfo \<times> int) option" where
  "parseTrackMetadata metadata metadata2 physical_lba =
     do { values \<leftarrow> take_fields (take (if metadata2 then 8 else 4) kKeys) metadata;
          track_number \<leftarrow> parseInt (values ! 0);
          frames \<leftarrow> parseInt (values ! 3);
          pregap_frames \<leftarrow> (if metadata2 then parseInt (values ! 4) else Some 0);
          postgap_frames \<leftarrow> (if metadata2 then parseInt (values ! 7) else Some 0);
          if track_number \<le> 0 \<or> track_number > 99 \<or> frames \<le> 0 \<or> pregap_frames < 0 \<or> postgap_frames < 0 \<or>
             (values ! 1 \<noteq> ''MODE2_RAW'' \<and> values ! 1 \<noteq> ''AUDIO'') \<or> values ! 2 \<noteq> ''NONE'' then None
          else place_track track_number frames pregap_frames postgap_frames
                 (metadata2 \<and> values ! 5 \<noteq> [] \<and> hd (values ! 5) = CHR ''V'') physical_lba }"

section \<open>Opening an image\<close>

text \<open>\<open>chd_metadata i\<close> is record \<open>i\<close> with the tag it was found under: true for CHT2.\<close>

record chd_file =
  chd_hunkbytes :: u32
  chd_totalhunks :: u32
  chd_metadata :: "nat \<Rightarrow> (bool \<times> string) option"
  chd_hunk :: "u32 \<Rightarrow> u8 list option"

record disc_image =
  frames_per_hunk :: u32
  hunk_count :: u32
  hunk_data :: "u32 \<Rightarrow> u8 list option"
  toc :: Disc

definition kRawFrame :: u32 where "kRawFrame = of_nat kRawSectorBytes + 96"

text \<open>The metadata loop; the count is what is left of \<open>kDiscMaxTracks\<close>.\<close>

primrec load_tracks :: "(nat \<Rightarrow> (bool \<times> string) option) \<Rightarrow> nat \<Rightarrow> nat \<Rightarrow> int \<Rightarrow> DiscTrackInfo list option" where
  "load_tracks metadata 0 index physical_lba = Some []"
| "load_tracks metadata (Suc n) index physical_lba =
     (case metadata index of
        None \<Rightarrow> Some []
      | Some (metadata2, record') \<Rightarrow>
          (case parseTrackMetadata record' metadata2 physical_lba of
             None \<Rightarrow> None
           | Some (track, next') \<Rightarrow> map_option (Cons track) (load_tracks metadata n (Suc index) next')))"

definition openImage :: "chd_file option \<Rightarrow> disc_image option" where
  "openImage chd =
     do { f \<leftarrow> chd;
          let fph = chd_hunkbytes f div kRawFrame;
          if fph = 0 then None
          else do {
            ts \<leftarrow> load_tracks (chd_metadata f) kDiscMaxTracks 0 (- kLeadInSectors);
            if ts = [] then None
            else Some \<lparr>frames_per_hunk = fph, hunk_count = chd_totalhunks f, hunk_data = chd_hunk f, toc = \<lparr>tracks = ts\<rparr>\<rparr> } }"

section \<open>Sectors\<close>

text \<open>The image is \<open>None\<close> when none could be opened.\<close>

definition resident_frame :: "disc_image \<Rightarrow> u32 \<Rightarrow> u8 list option" where
  "resident_frame d lba =
     (let hunk = lba div frames_per_hunk d; off = (lba mod frames_per_hunk d) * kRawFrame in
      if hunk \<ge> hunk_count d then None else map_option (drop (unat off)) (hunk_data d hunk))"

definition readSector :: "disc_image option \<Rightarrow> u32 \<Rightarrow> u8 list option" where
  "readSector disc lba =
     do { d \<leftarrow> disc;
          raw \<leftarrow> resident_frame d lba;
          Some (take kDataSectorBytes (drop (if isMode2 raw then 24 else 16) raw)) }"

definition readRaw :: "disc_image option \<Rightarrow> u32 \<Rightarrow> u32 \<Rightarrow> u8 list option" where
  "readRaw disc lba n =
     do { d \<leftarrow> disc;
          raw \<leftarrow> resident_frame d lba;
          Some (take (min (unat n) kRawSectorBytes) raw) }"

section \<open>ISO 9660 lookup\<close>

definition semicolon :: u8 where "semicolon = 0x3B"

definition upcase :: "u8 \<Rightarrow> u8" where
  "upcase c = (if 0x61 \<le> c \<and> c \<le> 0x7A then c - 32 else c)"

definition at_end :: "u8 list \<Rightarrow> bool" where
  "at_end want \<longleftrightarrow> want = [] \<or> hd want = semicolon"

text \<open>\<open>name\<close> is the buffer from the name on; \<open>None\<close> is a read past its end.\<close>

fun isoNameEquals :: "u8 list \<Rightarrow> nat \<Rightarrow> u8 list \<Rightarrow> bool option" where
  "isoNameEquals name 0 want = Some (at_end want)"
| "isoNameEquals [] (Suc n) want = None"
| "isoNameEquals (nc # name) (Suc n) want =
     (if nc = semicolon then Some (at_end want)
      else case want of
             [] \<Rightarrow> Some False
           | wc # want' \<Rightarrow>
               if wc = semicolon \<or> upcase nc \<noteq> upcase wc then Some False else isoNameEquals name n want')"

definition readLe32 :: "u8 list \<Rightarrow> nat \<Rightarrow> u32" where
  "readLe32 bytes i = word_of_bytes (take 4 (drop i bytes))"

record DiscFile =
  df_lba :: u32
  df_size :: u32

datatype scan = Hit DiscFile | Miss | Overrun

function scan_records :: "u8 list \<Rightarrow> u8 list \<Rightarrow> nat \<Rightarrow> scan" where
  "scan_records sec want k =
     (if k \<ge> kDataSectorBytes then Miss
      else
        let rlen = unat (sec ! k) in
        if rlen = 0 \<or> k + rlen > kDataSectorBytes then Miss
        else if k + 32 \<ge> kDataSectorBytes then Overrun
        else case isoNameEquals (drop (k + 33) sec) (unat (sec ! (k + 32))) want of
               None \<Rightarrow> Overrun
             | Some True \<Rightarrow> Hit \<lparr>df_lba = readLe32 sec (k + 2), df_size = readLe32 sec (k + 10)\<rparr>
             | Some False \<Rightarrow> scan_records sec want (k + rlen))"
  by pat_completeness auto
termination
  by (relation "measure (\<lambda>(sec, want, k). kDataSectorBytes - k)") auto

declare scan_records.simps [simp del]

datatype dir_result = Entry DiscFile | NoEntry | ReadFailed | OutOfBounds

text \<open>The sectors of one directory, from \<open>lba\<close> on, \<open>n\<close> of them.\<close>

primrec scan_directory :: "disc_image option \<Rightarrow> u8 list \<Rightarrow> nat \<Rightarrow> u32 \<Rightarrow> dir_result" where
  "scan_directory disc want 0 lba = NoEntry"
| "scan_directory disc want (Suc n) lba =
     (case readSector disc lba of
        None \<Rightarrow> ReadFailed
      | Some sec \<Rightarrow>
          (case scan_records sec want 0 of
             Hit f \<Rightarrow> Entry f
           | Overrun \<Rightarrow> OutOfBounds
           | Miss \<Rightarrow> scan_directory disc want n (lba + 1)))"

definition directory_sectors :: "u32 \<Rightarrow> nat" where
  "directory_sectors dir_size = unat ((dir_size + of_nat kDataSectorBytes - 1) div of_nat kDataSectorBytes)"

definition separator :: "u8 \<Rightarrow> bool" where
  "separator c \<longleftrightarrow> c = 0x5C \<or> c = 0x2F"

text \<open>The next component, at most 63 bytes of it, and what follows the separators after it.\<close>

definition next_component :: "u8 list \<Rightarrow> u8 list \<times> u8 list" where
  "next_component p =
     (let want = take 63 (takeWhile (\<lambda>c. \<not> separator c) p) in (want, dropWhile separator (drop (length want) p)))"

text \<open>A walk never stands on a separator: the loop skips them, so that arm is not reached.\<close>

function walk_path :: "disc_image option \<Rightarrow> u8 list \<Rightarrow> u32 \<Rightarrow> u32 \<Rightarrow> DiscFile option option" where
  "walk_path disc p dir_lba dir_size =
     (if p = [] \<or> separator (hd p) then Some None
      else
        let (want, rest) = next_component p in
        case scan_directory disc want (directory_sectors dir_size) dir_lba of
          Entry f \<Rightarrow> if rest = [] then Some (Some f) else walk_path disc rest (df_lba f) (df_size f)
        | OutOfBounds \<Rightarrow> None
        | _ \<Rightarrow> Some None)"
  by pat_completeness auto
termination
proof (relation "measure (\<lambda>(disc, p, l, s). length p)")
  fix disc :: "disc_image option" and p :: "u8 list" and dir_lba dir_size :: u32 and x want rest f
  assume p: "\<not> (p = [] \<or> separator (hd p))" and x: "x = next_component p" and c: "(want, rest) = x"
  have "length rest \<le> length p - length want"
    using x c by (auto simp: next_component_def Let_def intro: le_trans [OF length_dropWhile_le])
  moreover have "0 < length want" using p x c by (cases p) (auto simp: next_component_def Let_def)
  moreover have "0 < length p" using p by simp
  ultimately have "length rest < length p" by arith
  then show "((disc, rest, df_lba f, df_size f), disc, p, dir_lba, dir_size) \<in> measure (\<lambda>(disc, p, l, s). length p)"
    by simp
qed simp

declare walk_path.simps [simp del]

text \<open>The path is the bytes before its terminator; the leading separators are gone once the walk starts.\<close>

definition findFile :: "disc_image option \<Rightarrow> u8 list \<Rightarrow> DiscFile option option" where
  "findFile disc path =
     (case readSector disc 16 of
        None \<Rightarrow> Some None
      | Some sec \<Rightarrow>
          if sec ! 0 \<noteq> 1 then Some None
          else walk_path disc (dropWhile separator path) (readLe32 sec (156 + 2)) (readLe32 sec (156 + 10)))"

section \<open>Reading a file\<close>

definition kDiscFileMaxBytes :: u32 where "kDiscFileMaxBytes = 0x200000"

function read_sectors :: "disc_image option \<Rightarrow> u32 \<Rightarrow> nat \<Rightarrow> u8 list option" where
  "read_sectors disc lba left =
     (if left = 0 then Some []
      else case readSector disc lba of
             None \<Rightarrow> None
           | Some sec \<Rightarrow>
               map_option (append (take left sec)) (read_sectors disc (lba + 1) (left - kDataSectorBytes)))"
  by pat_completeness auto
termination
  by (relation "measure (\<lambda>(disc, lba, left). left)") (auto simp: kDataSectorBytes_def)

declare read_sectors.simps [simp del]

definition readDiscFile :: "disc_image option \<Rightarrow> u8 list \<Rightarrow> u8 list option option" where
  "readDiscFile disc isoPath =
     map_option (\<lambda>file. case file of
        None \<Rightarrow> None
      | Some f \<Rightarrow> if df_size f = 0 \<or> df_size f > kDiscFileMaxBytes then None else read_sectors disc (df_lba f) (unat (df_size f)))
       (findFile disc isoPath)"

end
