(* ===== verification/Disc_Laws.thy ===== *)
theory Disc_Laws
  imports Disc_Image
begin

text \<open>
  What the disc image answers (\<open>cd/disc.cpp\<close>, \<open>cd/disc_provision.cpp\<close>): the tracks of an opened image tile the disc, the
  file lookup is the resolution of a path through directory listings, and when a directory record is short the lookup
  leaves its sector buffer.
\<close>

section \<open>Tracks\<close>

definition track_begin :: "DiscTrackInfo \<Rightarrow> int" where
  "track_begin t = tr_lba t - pregap_dv t - pregap t"

primrec tiled :: "int \<Rightarrow> DiscTrackInfo list \<Rightarrow> bool" where
  "tiled b [] = True"
| "tiled b (t # ts) = (track_begin t = b \<and> b \<le> track_end t \<and> tiled (track_end t) ts)"

definition track_ok :: "DiscTrackInfo \<Rightarrow> bool" where
  "track_ok t \<longleftrightarrow> 1 \<le> unat (number t) \<and> unat (number t) \<le> 99 \<and> 0 \<le> pregap t \<and> 0 \<le> pregap_dv t \<and> 0 \<le> postgap t \<and>
     int32_range (tr_lba t) \<and> int32_range (track_end t)"

lemma uint_small_int: "0 \<le> x \<Longrightarrow> x < 2 ^ 31 \<Longrightarrow> uint (word_of_int x :: u32) = x"
  by (simp add: uint_word_of_int)

lemma place_track_tiles:
  assumes "place_track k frames pre post virtual lba = Some (t, next')"
    and "0 < k" and "k \<le> 99" and "0 < frames" and "frames < 2 ^ 31" and "0 \<le> pre" and "0 \<le> post"
  shows "track_begin t = lba" and "track_end t = next'" and "lba \<le> next'" and "track_ok t"
proof -
  let ?dv = "if virtual then pre else 0"
  let ?gap = "if k = 1 then kLeadInSectors else if ?dv \<noteq> 0 then 0 else pre"
  let ?start = "lba + ?gap + ?dv"
  have fr: "\<not> frames < ?dv" and rng: "int32_range ?start" "int32_range next'"
    and nx: "next' = ?start + (frames - ?dv) + post"
    and t: "t = \<lparr>number = of_int k, tr_lba = ?start, sectors = of_int (frames - ?dv), pregap = ?gap, pregap_dv = ?dv, postgap = post\<rparr>"
    using assms(1) by (auto simp: place_track_def Let_def add.assoc split: if_splits)
  have gap: "0 \<le> ?gap" using assms(6) by (simp add: kLeadInSectors_def)
  have dv: "0 \<le> ?dv" using assms(6) by simp
  have sec: "uint (of_int (frames - ?dv) :: u32) = frames - ?dv"
    by (rule uint_small_int) (use fr assms(5,6) in auto)
  have num: "unat (of_int k :: u8) = nat k" using assms(2,3) by (simp add: unsigned_of_int take_bit_int_eq_self)
  show "track_begin t = lba" by (simp add: t track_begin_def)
  show e: "track_end t = next'" using sec by (simp add: t track_end_def nx)
  show "lba \<le> next'" unfolding nx using gap dv fr assms(7) by linarith
  show "track_ok t" using num gap assms rng e by (auto simp: track_ok_def t)
qed

lemma parseInt_range: "parseInt s = Some v \<Longrightarrow> - (2 ^ 31) \<le> v \<and> v < 2 ^ 31"
  by (auto simp: parseInt_def split: option.splits if_splits)

lemma metadata_tiles:
  assumes "parseTrackMetadata m v2 lba = Some (t, next')"
  shows "track_begin t = lba \<and> track_end t = next' \<and> lba \<le> next' \<and> track_ok t"
proof -
  obtain vs k fr pre post virt where v: "parseInt (vs ! 0) = Some k" "parseInt (vs ! 3) = Some fr"
      "\<not> (k \<le> 0 \<or> k > 99 \<or> fr \<le> 0 \<or> pre < 0 \<or> post < 0)"
      "place_track k fr pre post virt lba = Some (t, next')"
    using assms by (fastforce simp: parseTrackMetadata_def Some_bind_iff split: if_splits)
  then show ?thesis using place_track_tiles [OF v(4)] parseInt_range [OF v(2)] by auto
qed

lemma load_tracks_tile:
  "load_tracks md n i lba = Some ts \<Longrightarrow> tiled lba ts \<and> list_all track_ok ts \<and> length ts \<le> n"
proof (induction n arbitrary: i lba ts)
  case 0
  then show ?case by auto
next
  case (Suc n)
  show ?case
  proof (cases "md i")
    case None
    then show ?thesis using Suc.prems by auto
  next
    case (Some r)
    obtain v2 m where r: "r = (v2, m)" by (cases r)
    obtain t next' us where p: "parseTrackMetadata m v2 lba = Some (t, next')" "load_tracks md n (Suc i) next' = Some us" "ts = t # us"
      using Suc.prems Some r by (auto split: option.splits prod.splits)
    then show ?thesis using Suc.IH [OF p(2)] metadata_tiles [OF p(1)] by auto
  qed
qed

text \<open>Well-formed metadata text gives back its fields.\<close>

definition word_text :: "string \<Rightarrow> bool" where
  "word_text s \<longleftrightarrow> s \<noteq> [] \<and> list_all (\<lambda>c. \<not> is_space c) s"

fun metadata_text :: "string list \<Rightarrow> string list \<Rightarrow> string" where
  "metadata_text (k # ks) (v # vs) = k @ v @ '' '' @ metadata_text ks vs"
| "metadata_text _ _ = []"

lemma word_span:
  "word_text w \<Longrightarrow> dropWhile is_space (w @ CHR '' '' # r) = w @ CHR '' '' # r \<and>
     takeWhile (\<lambda>c. \<not> is_space c) (w @ CHR '' '' # r) = w \<and>
     dropWhile (\<lambda>c. \<not> is_space c) (w @ CHR '' '' # r) = CHR '' '' # r"
proof -
  assume w: "word_text w"
  then have "\<forall>c\<in>set w. \<not> is_space c" by (simp add: word_text_def list_all_iff)
  moreover have "is_space CHR '' ''" by (simp add: is_space_def)
  ultimately show ?thesis using w
    by (cases w) (auto simp: word_text_def takeWhile_append dropWhile_append)
qed

lemma take_fields_space: "take_fields ks (CHR '' '' # r) = take_fields ks r"
  by (cases ks) (simp_all add: is_space_def)

lemma take_fields_text:
  "\<lbrakk>length vs = length ks; list_all word_text ks; list_all word_text vs\<rbrakk> \<Longrightarrow>
     take_fields ks (metadata_text ks vs) = Some vs"
proof (induction ks vs rule: metadata_text.induct)
  case (1 k ks v vs)
  then have w: "word_text (k @ v)" "v \<noteq> []" by (simp_all add: word_text_def)
  show ?case using 1 w word_span [OF w(1), of "metadata_text ks vs"] by (simp add: take_fields_space)
qed simp_all

text \<open>A position inside a tiling lies in exactly one of its tracks.\<close>

lemma tiled_above: "tiled b ts \<Longrightarrow> t \<in> set ts \<Longrightarrow> b \<le> track_begin t"
  by (induction ts arbitrary: b) (auto intro: order_trans)

lemma covers_iff: "covers p t \<longleftrightarrow> track_begin t \<le> p \<and> p < track_end t"
  by (simp add: covers_def track_begin_def)

lemma tiled_unique:
  "tiled b ts \<Longrightarrow> ts \<noteq> [] \<Longrightarrow> b \<le> p \<Longrightarrow> p < track_end (last ts) \<Longrightarrow> \<exists>!i. i < length ts \<and> covers p (ts ! i)"
proof (induction ts arbitrary: b)
  case Nil
  then show ?case by simp
next
  case (Cons t ts)
  show ?case
  proof (cases "p < track_end t")
    case True
    have "\<not> covers p u" if "u \<in> set ts" for u
      using tiled_above [of "track_end t" ts u] that Cons.prems(1) True by (simp add: covers_iff)
    then have "i = 0" if "i < length (t # ts)" "covers p ((t # ts) ! i)" for i
      using that by (cases i) auto
    moreover have "covers p t" using Cons.prems True by (simp add: covers_iff)
    ultimately show ?thesis by (intro ex1I [of _ 0]) auto
  next
    case False
    then have "ts \<noteq> []" using Cons.prems(4) by (auto split: if_splits)
    then obtain i where i: "i < length ts" "covers p (ts ! i)" "\<And>j. j < length ts \<Longrightarrow> covers p (ts ! j) \<Longrightarrow> j = i"
      using Cons.IH [of "track_end t"] Cons.prems False by auto
    have "j = Suc i" if "j < length (t # ts)" "covers p ((t # ts) ! j)" for j
      using that i(3) False by (cases j) (auto simp: covers_iff)
    then show ?thesis using i(1,2) by (intro ex1I [of _ "Suc i"]) auto
  qed
qed

section \<open>The lookup is a resolution of the path\<close>

text \<open>The directory records of a sector, and the listing of a directory.\<close>

type_synonym dir_record = "u8 list \<times> DiscFile"

function sector_records :: "u8 list \<Rightarrow> nat \<Rightarrow> dir_record list" where
  "sector_records sec k =
     (if k \<ge> kDataSectorBytes \<or> unat (sec ! k) = 0 \<or> k + unat (sec ! k) > kDataSectorBytes then []
      else (take (unat (sec ! (k + 32))) (drop (k + 33) sec), \<lparr>df_lba = readLe32 sec (k + 2), df_size = readLe32 sec (k + 10)\<rparr>)
        # sector_records sec (k + unat (sec ! k)))"
  by pat_completeness auto
termination
  by (relation "measure (\<lambda>(sec, k). kDataSectorBytes - k)") auto

declare sector_records.simps [simp del]

text \<open>Every record holds its header and its name.\<close>

function records_ok :: "u8 list \<Rightarrow> nat \<Rightarrow> bool" where
  "records_ok sec k =
     (if k \<ge> kDataSectorBytes \<or> unat (sec ! k) = 0 \<or> k + unat (sec ! k) > kDataSectorBytes then True
      else 33 + unat (sec ! (k + 32)) \<le> unat (sec ! k) \<and> records_ok sec (k + unat (sec ! k)))"
  by pat_completeness auto
termination
  by (relation "measure (\<lambda>(sec, k). kDataSectorBytes - k)") auto

declare records_ok.simps [simp del]

definition base_name :: "u8 list \<Rightarrow> u8 list" where
  "base_name name = map upcase (takeWhile (\<lambda>c. c \<noteq> semicolon) name)"

definition same_name :: "u8 list \<Rightarrow> u8 list \<Rightarrow> bool" where
  "same_name name want \<longleftrightarrow> base_name name = base_name want"

lemma at_end_iff: "at_end want \<longleftrightarrow> base_name want = []"
  by (cases want) (auto simp: at_end_def base_name_def)

lemma isoNameEquals_correct:
  "isoNameEquals name n want = Some b \<Longrightarrow> b \<longleftrightarrow> same_name (take n name) want"
proof (induction name n want rule: isoNameEquals.induct)
  case (1 name want)
  then show ?case by (auto simp: at_end_iff same_name_def base_name_def)
next
  case (2 n want)
  then show ?case by simp
next
  case (3 nc name n want)
  then show ?case
    by (cases want) (auto simp: at_end_iff same_name_def base_name_def split: if_splits)
qed

lemma isoNameEquals_defined: "n \<le> length name \<Longrightarrow> isoNameEquals name n want \<noteq> None"
  by (induction name n want rule: isoNameEquals.induct) (auto split: list.splits)

definition lookup_record :: "u8 list \<Rightarrow> dir_record list \<Rightarrow> DiscFile option" where
  "lookup_record want rs = map_option snd (List.find (\<lambda>r. same_name (fst r) want) rs)"

lemma lookup_record_simps [simp]:
  "lookup_record want [] = None"
  "lookup_record want (r # rs) = (if same_name (fst r) want then Some (snd r) else lookup_record want rs)"
  by (simp_all add: lookup_record_def)

lemma lookup_record_append:
  "lookup_record want (rs @ rs') = (case lookup_record want rs of None \<Rightarrow> lookup_record want rs' | Some f \<Rightarrow> Some f)"
  by (induction rs) auto

lemma scan_stop:
  "k \<ge> kDataSectorBytes \<or> unat (sec ! k) = 0 \<or> k + unat (sec ! k) > kDataSectorBytes \<Longrightarrow>
     scan_records sec want k = Miss \<and> sector_records sec k = []"
  by (subst scan_records.simps, subst sector_records.simps) (auto simp: Let_def)

lemma scan_step:
  "\<not> (k \<ge> kDataSectorBytes \<or> unat (sec ! k) = 0 \<or> k + unat (sec ! k) > kDataSectorBytes) \<Longrightarrow>
     scan_records sec want k =
       (if k + 32 \<ge> kDataSectorBytes then Overrun
        else case isoNameEquals (drop (k + 33) sec) (unat (sec ! (k + 32))) want of
               None \<Rightarrow> Overrun
             | Some b \<Rightarrow> if b then Hit \<lparr>df_lba = readLe32 sec (k + 2), df_size = readLe32 sec (k + 10)\<rparr>
                        else scan_records sec want (k + unat (sec ! k)))"
  by (subst scan_records.simps) (simp add: Let_def split: option.split bool.split)

lemma scan_records_correct:
  "scan_records sec want k \<noteq> Overrun \<Longrightarrow>
     scan_records sec want k = (case lookup_record want (sector_records sec k) of None \<Rightarrow> Miss | Some f \<Rightarrow> Hit f)"
proof (induction sec want k rule: scan_records.induct)
  case (1 sec want k)
  let ?r = "unat (sec ! k)" and ?name = "isoNameEquals (drop (k + 33) sec) (unat (sec ! (k + 32))) want"
  show ?case
  proof (cases "k \<ge> kDataSectorBytes \<or> ?r = 0 \<or> k + ?r > kDataSectorBytes")
    case True
    then show ?thesis using scan_stop [OF True] by simp
  next
    case False
    then have in_buffer: "k + 32 < kDataSectorBytes" and "?name \<noteq> None"
      using 1(2) scan_step [OF False, of want] by (cases ?name; auto split: if_splits)+
    then obtain b where b: "?name = Some b" by auto
    have same: "b \<longleftrightarrow> same_name (take (unat (sec ! (k + 32))) (drop (k + 33) sec)) want"
      by (rule isoNameEquals_correct [OF b])
    have rec: "sector_records sec k = (take (unat (sec ! (k + 32))) (drop (k + 33) sec),
        \<lparr>df_lba = readLe32 sec (k + 2), df_size = readLe32 sec (k + 10)\<rparr>) # sector_records sec (k + ?r)"
      using False by (subst sector_records.simps) simp
    have step: "scan_records sec want k = (if b
        then Hit \<lparr>df_lba = readLe32 sec (k + 2), df_size = readLe32 sec (k + 10)\<rparr> else scan_records sec want (k + ?r))"
      using scan_step [OF False, of want] in_buffer b by simp
    show ?thesis
    proof (cases b)
      case True
      then show ?thesis using step rec same by simp
    next
      case nomatch: False
      have "scan_records sec want (k + ?r) = (case lookup_record want (sector_records sec (k + ?r)) of None \<Rightarrow> Miss | Some f \<Rightarrow> Hit f)"
        by (rule 1(1)) (use False in_buffer b nomatch step 1(2) in auto)
      then show ?thesis using step rec nomatch same by simp
    qed
  qed
qed

lemma scan_records_defined:
  "length sec = kDataSectorBytes \<Longrightarrow> records_ok sec k \<Longrightarrow> scan_records sec want k \<noteq> Overrun"
proof (induction sec want k rule: scan_records.induct)
  case (1 sec want k)
  let ?r = "unat (sec ! k)"
  show ?case
  proof (cases "k \<ge> kDataSectorBytes \<or> ?r = 0 \<or> k + ?r > kDataSectorBytes")
    case True
    then show ?thesis using scan_stop [OF True] by simp
  next
    case False
    then have ok: "33 + unat (sec ! (k + 32)) \<le> ?r" "records_ok sec (k + ?r)"
      using 1(3) by (subst (asm) records_ok.simps, simp)+
    have len: "unat (sec ! (k + 32)) \<le> length (drop (k + 33) sec)" and lt: "k + 32 < kDataSectorBytes"
      using ok(1) False 1(2) by auto
    obtain b where b: "isoNameEquals (drop (k + 33) sec) (unat (sec ! (k + 32))) want = Some b"
      using isoNameEquals_defined [OF len, of want] by auto
    have "\<not> b \<Longrightarrow> scan_records sec want (k + ?r) \<noteq> Overrun"
      by (rule 1(1)) (use False lt b 1(2) ok in auto)
    then show ?thesis using scan_step [OF False, of want] lt b by simp
  qed
qed

text \<open>The listing of a directory: the records of its sectors, up to the first that cannot be read.\<close>

primrec dir_listing :: "disc_image option \<Rightarrow> nat \<Rightarrow> u32 \<Rightarrow> dir_record list" where
  "dir_listing disc 0 lba = []"
| "dir_listing disc (Suc n) lba =
     (case readSector disc lba of None \<Rightarrow> [] | Some sec \<Rightarrow> sector_records sec 0 @ dir_listing disc n (lba + 1))"

lemma scan_directory_correct:
  "scan_directory disc want n lba \<noteq> OutOfBounds \<Longrightarrow>
     (case lookup_record want (dir_listing disc n lba) of
        Some f \<Rightarrow> scan_directory disc want n lba = Entry f
      | None \<Rightarrow> scan_directory disc want n lba = NoEntry \<or> scan_directory disc want n lba = ReadFailed)"
proof (induction n arbitrary: lba)
  case 0
  then show ?case by simp
next
  case (Suc n)
  show ?case
  proof (cases "readSector disc lba")
    case None
    then show ?thesis by simp
  next
    case (Some sec)
    then have "scan_records sec want 0 \<noteq> Overrun" using Suc.prems by auto
    note scan = scan_records_correct [OF this]
    show ?thesis
    proof (cases "lookup_record want (sector_records sec 0)")
      case None
      then have "scan_records sec want 0 = Miss" using scan by simp
      then have e: "scan_directory disc want (Suc n) lba = scan_directory disc want n (lba + 1)" using Some by simp
      show ?thesis using Suc Some None unfolding e by (simp add: lookup_record_append)
    next
      case hit: (Some f)
      then have "scan_records sec want 0 = Hit f" using scan by simp
      then show ?thesis using Some hit by (simp add: lookup_record_append)
    qed
  qed
qed

function path_components :: "u8 list \<Rightarrow> u8 list list" where
  "path_components p =
     (if p = [] \<or> separator (hd p) then []
      else fst (next_component p) # path_components (snd (next_component p)))"
  by pat_completeness auto
termination
proof (relation "measure length")
  fix p :: "u8 list"
  assume p: "\<not> (p = [] \<or> separator (hd p))"
  then have "0 < length (take 63 (takeWhile (\<lambda>c. \<not> separator c) p))" by (cases p) auto
  moreover have "length (snd (next_component p)) \<le> length p - length (take 63 (takeWhile (\<lambda>c. \<not> separator c) p))"
    by (auto simp: next_component_def Let_def intro: le_trans [OF length_dropWhile_le])
  moreover have "0 < length p" using p by simp
  ultimately have "length (snd (next_component p)) < length p" by arith
  then show "(snd (next_component p), p) \<in> measure length" by simp
qed simp

declare path_components.simps [simp del]

primrec resolve_components :: "disc_image option \<Rightarrow> u8 list list \<Rightarrow> DiscFile \<Rightarrow> DiscFile option" where
  "resolve_components disc [] d = None"
| "resolve_components disc (c # cs) d =
     (case lookup_record c (dir_listing disc (directory_sectors (df_size d)) (df_lba d)) of
        None \<Rightarrow> None
      | Some f \<Rightarrow> if cs = [] then Some f else resolve_components disc cs f)"

lemma rest_components: "path_components (snd (next_component p)) = [] \<longleftrightarrow> snd (next_component p) = []"
proof -
  have "snd (next_component p) = [] \<or> \<not> separator (hd (snd (next_component p)))"
    using hd_dropWhile [of separator] by (auto simp: next_component_def Let_def)
  then show ?thesis by (subst path_components.simps) auto
qed

lemma walk_path_correct:
  "walk_path disc p l s = Some r \<Longrightarrow> r = resolve_components disc (path_components p) \<lparr>df_lba = l, df_size = s\<rparr>"
proof (induction disc p l s rule: walk_path.induct)
  case (1 disc p l s)
  show ?case
  proof (cases "p = [] \<or> separator (hd p)")
    case True
    then show ?thesis using 1(2) by (subst (asm) walk_path.simps, subst path_components.simps) auto
  next
    case False
    obtain want rest where n: "next_component p = (want, rest)" by (cases "next_component p")
    let ?scan = "scan_directory disc want (directory_sectors s) l"
    have w: "walk_path disc p l s = (case ?scan of
          Entry f \<Rightarrow> if rest = [] then Some (Some f) else walk_path disc rest (df_lba f) (df_size f)
        | OutOfBounds \<Rightarrow> None | _ \<Rightarrow> Some None)"
      using False n by (subst walk_path.simps) (simp add: Let_def)
    have "?scan \<noteq> OutOfBounds" using 1(2) w by auto
    note sc = scan_directory_correct [OF this]
    have pc: "path_components p = want # path_components rest" using False n by (subst path_components.simps) simp
    show ?thesis
    proof (cases "lookup_record want (dir_listing disc (directory_sectors s) l)")
      case None
      then show ?thesis using sc w 1(2) pc by auto
    next
      case (Some f)
      then have e: "?scan = Entry f" using sc by simp
      show ?thesis
      proof (cases "rest = []")
        case True
        then show ?thesis using e w 1(2) pc Some rest_components [of p] n by simp
      next
        case more: False
        have "r = resolve_components disc (path_components rest) \<lparr>df_lba = df_lba f, df_size = df_size f\<rparr>"
          by (rule 1(1)) (use False n e more w 1(2) in auto)
        moreover have "\<lparr>df_lba = df_lba f, df_size = df_size f\<rparr> = f" by (cases f) simp
        ultimately show ?thesis using pc Some rest_components [of p] n more by simp
      qed
    qed
  qed
qed

section \<open>Whole sectors\<close>

text \<open>What libchdr promises of a decoded hunk: its bytes are as many as the header says.\<close>

definition hunks_whole :: "chd_file \<Rightarrow> bool" where
  "hunks_whole f \<longleftrightarrow> (\<forall>h data. chd_hunk f h = Some data \<longrightarrow> length data = unat (chd_hunkbytes f))"

definition sectors_whole :: "disc_image option \<Rightarrow> bool" where
  "sectors_whole disc \<longleftrightarrow> (\<forall>lba sec. readSector disc lba = Some sec \<longrightarrow> length sec = kDataSectorBytes)"

lemma unat_kRawFrame: "unat kRawFrame = 2448"
  by (simp add: kRawFrame_def kRawSectorBytes_def)

lemma frame_fits:
  assumes "openImage (Some f) = Some d" and "hunks_whole f" and "resident_frame d lba = Some raw"
  shows "2448 \<le> length raw"
proof -
  have fph: "frames_per_hunk d = chd_hunkbytes f div kRawFrame" "frames_per_hunk d \<noteq> 0" "hunk_data d = chd_hunk f"
    using assms(1) by (auto simp: openImage_def Let_def Some_bind_iff split: if_splits)
  let ?n = "unat (frames_per_hunk d)" and ?i = "unat (lba mod frames_per_hunk d)"
  obtain data where data: "length data = unat (chd_hunkbytes f)"
      "raw = drop (unat (lba mod frames_per_hunk d * kRawFrame)) data"
    using assms(2,3) fph(3) by (auto simp: resident_frame_def Let_def hunks_whole_def split: if_splits)
  have "?n * 2448 \<le> unat (chd_hunkbytes f)" by (simp add: fph(1) unat_div unat_kRawFrame)
  moreover have i: "?i < ?n" using fph(2) by (simp add: unat_mod unat_gt_0)
  ultimately have le: "Suc ?i * 2448 \<le> unat (chd_hunkbytes f)" by (meson Suc_leI le_trans mult_le_mono1)
  then have "?i * 2448 < 2 ^ 32" using unat_less [of "chd_hunkbytes f"] by simp
  then have "unat (lba mod frames_per_hunk d * kRawFrame) = ?i * 2448"
    by (simp add: unat_word_ariths unat_kRawFrame)
  then show ?thesis using data le by simp
qed

lemma opened_sectors_whole:
  assumes "openImage (Some f) = Some d" and "hunks_whole f"
  shows "sectors_whole (Some d)"
  unfolding sectors_whole_def
proof (intro allI impI)
  fix lba sec
  assume "readSector (Some d) lba = Some sec"
  then obtain raw where raw: "resident_frame d lba = Some raw" "sec = take kDataSectorBytes (drop (if isMode2 raw then 24 else 16) raw)"
    by (auto simp: readSector_def Some_bind_iff)
  then show "length sec = kDataSectorBytes" using frame_fits [OF assms raw(1)] by (simp add: kDataSectorBytes_def)
qed

lemma read_sectors_exact:
  "\<lbrakk>sectors_whole disc; read_sectors disc lba left = Some bytes\<rbrakk> \<Longrightarrow>
     length bytes = left \<and> (\<forall>i<left. \<exists>sec. readSector disc (lba + of_nat (i div kDataSectorBytes)) = Some sec \<and>
       bytes ! i = sec ! (i mod kDataSectorBytes))"
proof (induction disc lba left arbitrary: bytes rule: read_sectors.induct)
  case (1 disc lba left)
  show ?case
  proof (cases "left = 0")
    case True
    then show ?thesis using 1(3) by (subst (asm) read_sectors.simps) simp
  next
    case False
    then obtain sec more where s: "readSector disc lba = Some sec"
        "read_sectors disc (lba + 1) (left - kDataSectorBytes) = Some more" "bytes = take left sec @ more"
      using 1(3) by (subst (asm) read_sectors.simps) (auto split: option.splits)
    have len: "length sec = kDataSectorBytes" using 1(2) s(1) by (simp add: sectors_whole_def)
    note ih = 1(1) [OF False s(1) 1(2) s(2)]
    have D: "0 < kDataSectorBytes" by (simp add: kDataSectorBytes_def)
    have "\<exists>sec. readSector disc (lba + of_nat (i div kDataSectorBytes)) = Some sec \<and> bytes ! i = sec ! (i mod kDataSectorBytes)"
      if i: "i < left" for i
    proof (cases "i < kDataSectorBytes")
      case True
      then show ?thesis using s(1,3) i len by (simp add: nth_append)
    next
      case far: False
      then obtain j where j: "i = kDataSectorBytes + j" by (metis le_add_diff_inverse not_less)
      then have "j < left - kDataSectorBytes" using i by simp
      then obtain sec' where "readSector disc (lba + 1 + of_nat (j div kDataSectorBytes)) = Some sec'"
          "more ! j = sec' ! (j mod kDataSectorBytes)" using ih by blast
      moreover have "bytes ! i = more ! j" using s(3) len j far i by (simp add: nth_append)
      moreover have "i div kDataSectorBytes = Suc (j div kDataSectorBytes)" "i mod kDataSectorBytes = j mod kDataSectorBytes"
        using D by (simp_all add: j div_add_self1)
      ultimately show ?thesis by (simp add: algebra_simps)
    qed
    moreover have "length bytes = left" using ih s(3) len by simp
    ultimately show ?thesis by blast
  qed
qed

section \<open>Properties\<close>

text \<open>
  C36: The tracks of an opened image are well formed and tile the disc: they start in the lead-in, each begins where the
  one before ends, numbers and gaps are in range, there are 1 to 99 of them, and every sector from the lead-in to the end
  of the last track belongs to exactly one, the one the sub-channel position is answered from.
\<close>

theorem opened_tracks_tile:
  assumes "openImage chd = Some d"
  shows "tiled (- kLeadInSectors) (tracks (toc d)) \<and> list_all track_ok (tracks (toc d)) \<and>
    0 < length (tracks (toc d)) \<and> length (tracks (toc d)) \<le> kDiscMaxTracks \<and>
    (\<forall>p. - kLeadInSectors \<le> p \<longrightarrow> p < track_end (last (tracks (toc d))) \<longrightarrow>
       (\<exists>!i. i < length (tracks (toc d)) \<and> covers p (tracks (toc d) ! i)))"
proof -
  obtain f :: chd_file where l: "load_tracks (chd_metadata f) kDiscMaxTracks 0 (- kLeadInSectors) = Some (tracks (toc d))"
      and ne: "tracks (toc d) \<noteq> []"
    using assms by (auto simp: openImage_def Let_def Some_bind_iff split: if_splits)
  note t = load_tracks_tile [OF l]
  then show ?thesis using ne tiled_unique [OF _ ne] by blast
qed

definition sample_chd :: chd_file where
  "sample_chd = \<lparr>chd_hunkbytes = 2448, chd_totalhunks = 100,
     chd_metadata = (\<lambda>i. if i = 0 then Some (False, metadata_text (take 4 kKeys) [''1'', ''MODE2_RAW'', ''NONE'', ''40''])
                      else if i = 1 then Some (True, metadata_text kKeys [''2'', ''AUDIO'', ''NONE'', ''60'', ''5'', ''VAUDIO'', ''RW'', ''0''])
                      else None),
     chd_hunk = (\<lambda>h. Some (replicate 2448 0))\<rparr>"

definition sample_image :: disc_image where
  "sample_image = \<lparr>frames_per_hunk = 1, hunk_count = 100, hunk_data = chd_hunk sample_chd,
     toc = \<lparr>tracks = [\<lparr>number = 1, tr_lba = 0, sectors = 40, pregap = 150, pregap_dv = 0, postgap = 0\<rparr>,
                     \<lparr>number = 2, tr_lba = 45, sectors = 55, pregap = 0, pregap_dv = 5, postgap = 0\<rparr>]\<rparr>\<rparr>"

lemmas number_defs = parseInt_def parseSigned_def parseUnsigned64_def resolveBase_def from_chars_def digits_value_def is_digit_def
  digit_value_def

lemma sample_ints:
  "parseInt ''1'' = Some 1" "parseInt ''40'' = Some 40" "parseInt ''2'' = Some 2" "parseInt ''60'' = Some 60"
  "parseInt ''5'' = Some 5" "parseInt ''0'' = Some 0"
  by (simp_all add: number_defs Let_def)

lemma keys_words: "list_all word_text kKeys" "list_all word_text (take 4 kKeys)"
  by (simp_all add: kKeys_def word_text_def is_space_def)

lemma sample_parse:
  "parseTrackMetadata (metadata_text (take 4 kKeys) [''1'', ''MODE2_RAW'', ''NONE'', ''40'']) False (- 150) =
     Some (\<lparr>number = 1, tr_lba = 0, sectors = 40, pregap = 150, pregap_dv = 0, postgap = 0\<rparr>, 40)" (is ?A)
  "parseTrackMetadata (metadata_text kKeys [''2'', ''AUDIO'', ''NONE'', ''60'', ''5'', ''VAUDIO'', ''RW'', ''0'']) True 40 =
     Some (\<lparr>number = 2, tr_lba = 45, sectors = 55, pregap = 0, pregap_dv = 5, postgap = 0\<rparr>, 100)" (is ?B)
proof -
  have k: "length kKeys = 8" by (simp add: kKeys_def)
  have a: "take_fields (take 4 kKeys) (metadata_text (take 4 kKeys) [''1'', ''MODE2_RAW'', ''NONE'', ''40'']) =
      Some [''1'', ''MODE2_RAW'', ''NONE'', ''40'']"
    by (rule take_fields_text) (simp_all add: k keys_words word_text_def is_space_def)
  have b: "take_fields kKeys (metadata_text kKeys [''2'', ''AUDIO'', ''NONE'', ''60'', ''5'', ''VAUDIO'', ''RW'', ''0'']) =
      Some [''2'', ''AUDIO'', ''NONE'', ''60'', ''5'', ''VAUDIO'', ''RW'', ''0'']"
    by (rule take_fields_text) (simp_all add: k keys_words word_text_def is_space_def)
  show ?A by (simp add: parseTrackMetadata_def a sample_ints place_track_def Let_def int32_range_def kLeadInSectors_def)
  show ?B by (simp add: parseTrackMetadata_def k b sample_ints place_track_def Let_def int32_range_def)
qed

lemma load_tracks_Suc: "0 < n \<Longrightarrow> load_tracks md n i lba = load_tracks md (Suc (n - 1)) i lba"
  by simp

lemma sample_opens: "openImage (Some sample_chd) = Some sample_image"
proof -
  have "load_tracks (chd_metadata sample_chd) 99 0 (- 150) = Some (tracks (toc sample_image))"
    by (subst load_tracks_Suc, simp, subst load_tracks.simps, simp add: sample_chd_def sample_parse,
        subst load_tracks_Suc, simp, subst load_tracks.simps, simp add: sample_parse,
        subst load_tracks_Suc, simp, subst load_tracks.simps, simp add: sample_image_def)
  then show ?thesis
    by (simp add: openImage_def sample_chd_def sample_image_def Let_def kRawFrame_def kRawSectorBytes_def kDiscMaxTracks_def kLeadInSectors_def)
qed

theorem opened_tracks_tile_witness:
  "tiled (- 150) (tracks (toc sample_image))"
  using opened_tracks_tile [OF sample_opens] by (simp add: kLeadInSectors_def)

text \<open>
  When the lookup of a file is defined it is the resolution of the path: each component, cut at separators and at 63
  bytes, is the first record of the directory's listing with the same name up to case and version, and the last one's
  position and size are the answer; there is none when a component is missing or the path names no file.
\<close>

theorem find_file_resolves:
  assumes "findFile disc path = Some r"
  shows "r = (case readSector disc 16 of
      None \<Rightarrow> None
    | Some sec \<Rightarrow> if sec ! 0 \<noteq> 1 then None
        else resolve_components disc (path_components (dropWhile separator path))
               \<lparr>df_lba = readLe32 sec 158, df_size = readLe32 sec 166\<rparr>)"
  using assms walk_path_correct by (auto simp: findFile_def split: option.splits if_splits)

text \<open>A disc whose root directory, at sector 18, holds one file \<open>A;1\<close> of five bytes at sector 20.\<close>

definition small_root :: "u8 list" where
  "small_root = [40, 0, 20, 0, 0, 0, 0, 0, 0, 0, 5, 0, 0, 0] @ replicate 18 0 @ [3, 0x41, 0x3B, 0x31] @ replicate 2012 0"

definition small_pvd :: "u8 list" where
  "small_pvd = [1] @ replicate 157 0 @ [18, 0, 0, 0] @ replicate 4 0 @ [0, 8, 0, 0] @ replicate 1878 0"

definition small_chd :: chd_file where
  "small_chd = sample_chd\<lparr>chd_hunk := (\<lambda>h. Some (replicate 16 0 @
     (if h = 16 then small_pvd else if h = 18 then small_root else replicate 2048 7) @ replicate 384 0))\<rparr>"

definition small_image :: disc_image where
  "small_image = sample_image\<lparr>hunk_data := chd_hunk small_chd\<rparr>"

lemma openImage_hunk: "openImage (Some (f\<lparr>chd_hunk := h\<rparr>)) = map_option (\<lambda>d. d\<lparr>hunk_data := h\<rparr>) (openImage (Some f))"
  by (cases "load_tracks (chd_metadata f) kDiscMaxTracks 0 (- kLeadInSectors)") (simp_all add: openImage_def Let_def)

lemma small_opens: "openImage (Some small_chd) = Some small_image"
  unfolding small_chd_def openImage_hunk sample_opens by (simp add: small_image_def small_chd_def)

lemma small_whole: "hunks_whole small_chd"
  by (auto simp: hunks_whole_def small_chd_def sample_chd_def small_pvd_def small_root_def)

lemma small_sectors:
  "\<not> 100 \<le> h \<Longrightarrow> readSector (Some small_image) h =
     Some (if h = 16 then small_pvd else if h = 18 then small_root else replicate 2048 7)"
  by (simp add: readSector_def resident_frame_def small_image_def sample_image_def small_chd_def Let_def isMode2_def
      kDataSectorBytes_def small_pvd_def small_root_def nth_append)

lemma isoNameEquals_step:
  "0 < n \<Longrightarrow> isoNameEquals (nc # name) n want =
     (if nc = semicolon then Some (at_end want)
      else case want of
             [] \<Rightarrow> Some False
           | wc # want' \<Rightarrow>
               if wc = semicolon \<or> upcase nc \<noteq> upcase wc then Some False else isoNameEquals name (n - 1) want')"
  by (cases n) (simp_all split: list.split)

lemma small_lookup: "findFile (Some small_image) [0x5C, 0x61] = Some (Some \<lparr>df_lba = 20, df_size = 5\<rparr>)"
proof -
  have r: "small_root ! 0 = 40" "small_root ! 32 = 3" "drop 33 small_root = [0x41, 0x3B, 0x31] @ replicate 2012 0"
      "take 4 (drop 2 small_root) = [20, 0, 0, 0]" "take 4 (drop 10 small_root) = [5, 0, 0, 0]"
    by (simp_all add: small_root_def nth_append)
  have l: "readLe32 small_root (0 + 2) = 20" "readLe32 small_root (0 + 10) = 5"
    unfolding readLe32_def add_0 r by simp_all
  have i: "isoNameEquals ([0x41, 0x3B, 0x31] @ replicate 2012 0) 3 [0x61] = Some True"
    by (simp add: isoNameEquals_step upcase_def semicolon_def at_end_def)
  have scan: "scan_records small_root [0x61] 0 = Hit \<lparr>df_lba = 20, df_size = 5\<rparr>"
    by (subst scan_step) (simp_all only: l, simp_all add: r i [simplified] kDataSectorBytes_def)
  have n: "next_component [0x61] = ([0x61], [])" by (simp add: next_component_def separator_def)
  have ds: "directory_sectors 0x800 = Suc 0" by (simp add: directory_sectors_def kDataSectorBytes_def)
  have "scan_directory (Some small_image) [0x61] (Suc 0) 18 = Entry \<lparr>df_lba = 20, df_size = 5\<rparr>"
    using scan by (simp add: small_sectors)
  then have w: "walk_path (Some small_image) [0x61] 18 0x800 = Some (Some \<lparr>df_lba = 20, df_size = 5\<rparr>)"
    by (subst walk_path.simps) (simp add: n ds separator_def)
  have "readLe32 small_pvd 158 = 18" "readLe32 small_pvd 166 = 0x800" "small_pvd ! 0 = 1"
    by (simp_all add: readLe32_def small_pvd_def push_bit_eq_mult)
  then show ?thesis using w by (simp add: findFile_def small_sectors separator_def)
qed

theorem find_file_resolves_witness:
  "resolve_components (Some small_image) (path_components [0x61]) \<lparr>df_lba = 18, df_size = 0x800\<rparr> =
     Some \<lparr>df_lba = 20, df_size = 5\<rparr>"
proof -
  have "readLe32 small_pvd 158 = 18" "readLe32 small_pvd 166 = 0x800" "small_pvd ! 0 = 1"
    by (simp_all add: readLe32_def small_pvd_def push_bit_eq_mult)
  then show ?thesis using find_file_resolves [OF small_lookup] by (simp add: small_sectors separator_def)
qed

text \<open>
  A file read from an opened image is exactly the bytes its directory record names: as many as its size, at most
  2 MB, each from its sector in order; on any failure nothing is returned.
\<close>

theorem disc_file_exact:
  assumes "openImage (Some f) = Some d" and "hunks_whole f" and "readDiscFile (Some d) path = Some (Some bytes)"
  shows "\<exists>ent. findFile (Some d) path = Some (Some ent) \<and> length bytes = unat (df_size ent) \<and>
    0 < length bytes \<and> length bytes \<le> 0x200000 \<and>
    (\<forall>i<length bytes. \<exists>sec. readSector (Some d) (df_lba ent + of_nat (i div kDataSectorBytes)) = Some sec \<and>
       length sec = kDataSectorBytes \<and> bytes ! i = sec ! (i mod kDataSectorBytes))"
proof -
  obtain ent where f: "findFile (Some d) path = Some (Some ent)" "df_size ent \<noteq> 0" "\<not> df_size ent > kDiscFileMaxBytes"
      "read_sectors (Some d) (df_lba ent) (unat (df_size ent)) = Some bytes"
    using assms(3) by (auto simp: readDiscFile_def split: option.splits if_splits)
  have w: "sectors_whole (Some d)" by (rule opened_sectors_whole [OF assms(1,2)])
  note r = read_sectors_exact [OF w f(4)]
  have "0 < unat (df_size ent)" "unat (df_size ent) \<le> 0x200000"
    using f(2,3) by (simp_all add: unat_gt_0 kDiscFileMaxBytes_def word_less_nat_alt)
  then show ?thesis using f(1) r w unfolding sectors_whole_def by metis
qed

theorem disc_file_exact_witness:
  "readDiscFile (Some small_image) [0x5C, 0x61] = Some (Some [7, 7, 7, 7, 7]) \<and>
   length ([7, 7, 7, 7, 7] :: u8 list) = unat (df_size \<lparr>df_lba = 20, df_size = 5\<rparr>)"
proof -
  have "read_sectors (Some small_image) 20 5 = Some [7, 7, 7, 7, 7]"
    by (subst read_sectors.simps, simp add: small_sectors, subst read_sectors.simps)
      (simp add: kDataSectorBytes_def numeral_eq_Suc)
  then have r: "readDiscFile (Some small_image) [0x5C, 0x61] = Some (Some [7, 7, 7, 7, 7])"
    by (simp add: readDiscFile_def small_lookup kDiscFileMaxBytes_def)
  show ?thesis using disc_file_exact [OF small_opens small_whole r] r small_lookup by simp
qed

text \<open>The sectors a lookup may visit: an extent with every extent its records name, all records holding header and name.\<close>

definition walk_closed :: "disc_image option \<Rightarrow> (u32 \<times> u32) set \<Rightarrow> bool" where
  "walk_closed disc D \<longleftrightarrow> (\<forall>(l, s)\<in>D. \<forall>i<directory_sectors s. \<forall>sec. readSector disc (l + of_nat i) = Some sec \<longrightarrow>
     length sec = kDataSectorBytes \<and> records_ok sec 0 \<and>
     (\<forall>r\<in>set (sector_records sec 0). (df_lba (snd r), df_size (snd r)) \<in> D))"

lemma lookup_record_in: "lookup_record want rs = Some f \<Longrightarrow> \<exists>r\<in>set rs. f = snd r"
  by (induction rs) (auto split: if_splits)

lemma scan_directory_defined:
  "\<forall>i<n. \<forall>sec. readSector disc (lba + of_nat i) = Some sec \<longrightarrow> length sec = kDataSectorBytes \<and> records_ok sec 0 \<and>
     (\<forall>r\<in>set (sector_records sec 0). (df_lba (snd r), df_size (snd r)) \<in> D) \<Longrightarrow>
   scan_directory disc want n lba \<noteq> OutOfBounds \<and>
   (\<forall>f. scan_directory disc want n lba = Entry f \<longrightarrow> (df_lba f, df_size f) \<in> D)"
proof (induction n arbitrary: lba)
  case (Suc n)
  have ih: "scan_directory disc want n (lba + 1) \<noteq> OutOfBounds \<and>
      (\<forall>f. scan_directory disc want n (lba + 1) = Entry f \<longrightarrow> (df_lba f, df_size f) \<in> D)"
  proof (rule Suc.IH, intro allI impI)
    fix i sec
    assume "i < n" and r: "readSector disc (lba + 1 + of_nat i) = Some sec"
    then have "Suc i < Suc n" and "readSector disc (lba + of_nat (Suc i)) = Some sec" by (simp_all add: algebra_simps)
    then show "length sec = kDataSectorBytes \<and> records_ok sec 0 \<and>
        (\<forall>r\<in>set (sector_records sec 0). (df_lba (snd r), df_size (snd r)) \<in> D)" using Suc.prems by blast
  qed
  show ?case
  proof (cases "readSector disc lba")
    case (Some sec)
    then have sec: "length sec = kDataSectorBytes" "records_ok sec 0"
        "\<forall>r\<in>set (sector_records sec 0). (df_lba (snd r), df_size (snd r)) \<in> D"
      using Suc.prems [rule_format, of 0 sec] by simp_all
    have ov: "scan_records sec want 0 \<noteq> Overrun" by (rule scan_records_defined [OF sec(1,2)])
    note scan = scan_records_correct [OF ov]
    show ?thesis
    proof (cases "lookup_record want (sector_records sec 0)")
      case None
      then show ?thesis using scan Some ih by simp
    next
      case hit: (Some f)
      then show ?thesis using scan Some lookup_record_in [OF hit] sec(3) by auto
    qed
  qed simp
qed simp

lemma walk_path_defined: "walk_closed disc D \<Longrightarrow> (l, s) \<in> D \<Longrightarrow> walk_path disc p l s \<noteq> None"
proof (induction disc p l s rule: walk_path.induct)
  case (1 disc p l s)
  show ?case
  proof (cases "p = [] \<or> separator (hd p)")
    case True
    then show ?thesis by (subst walk_path.simps) auto
  next
    case False
    obtain want rest where n: "next_component p = (want, rest)" by (cases "next_component p")
    have ok: "scan_directory disc want (directory_sectors s) l \<noteq> OutOfBounds \<and>
        (\<forall>f. scan_directory disc want (directory_sectors s) l = Entry f \<longrightarrow> (df_lba f, df_size f) \<in> D)"
    proof (rule scan_directory_defined)
      show "\<forall>i<directory_sectors s. \<forall>sec. readSector disc (l + of_nat i) = Some sec \<longrightarrow> length sec = kDataSectorBytes \<and>
          records_ok sec 0 \<and> (\<forall>r\<in>set (sector_records sec 0). (df_lba (snd r), df_size (snd r)) \<in> D)"
        using bspec [OF 1(2) [unfolded walk_closed_def] 1(3)] by simp
    qed
    have ih: "walk_path disc rest (df_lba f) (df_size f) \<noteq> None"
      if "scan_directory disc want (directory_sectors s) l = Entry f" "rest \<noteq> []" for f
      by (rule 1(1)) (use False n that 1(2) ok in auto)
    show ?thesis using False n ok ih
      by (subst walk_path.simps) (auto simp: Let_def split: dir_result.splits)
  qed
qed

definition short_image :: disc_image where
  "short_image = sample_image\<lparr>hunk_count := 0x10000000, hunk_data := (\<lambda>h. Some (replicate 2448 (if h = 16 then 1 else 32)))\<rparr>"

lemma short_scan: "n \<le> 63 \<Longrightarrow> scan_records (replicate 2048 32) [0x41] (2016 - 32 * n) = Overrun"
proof (induction n)
  case 0
  show ?case by (subst scan_step) (simp_all add: kDataSectorBytes_def)
next
  case (Suc n)
  let ?k = "2016 - 32 * Suc n"
  have k: "?k + 32 = 2016 - 32 * n" "?k + 33 < 2048" using Suc.prems by simp_all
  have "isoNameEquals (drop (?k + 33) (replicate 2048 32)) (Suc 31) [0x41] = Some False"
    using k(2) by (cases "2048 - (?k + 33)") (simp_all add: isoNameEquals_step upcase_def semicolon_def)
  then have "scan_records (replicate 2048 32) [0x41] ?k = scan_records (replicate 2048 32) [0x41] (?k + 32)"
    using k(2) by (subst scan_step) (simp_all add: kDataSectorBytes_def)
  then show ?case using Suc k(1) by simp
qed

lemma short_lookup: "findFile (Some short_image) [0x41] = None"
proof -
  have s: "readSector (Some short_image) h = Some (replicate 2048 (if h = 16 then 1 else 32))" if "h < 0x10000000" for h
    using that by (simp add: readSector_def resident_frame_def short_image_def sample_image_def Let_def isMode2_def kDataSectorBytes_def)
  have n: "next_component [0x41] = ([0x41], [])" by (simp add: next_component_def separator_def)
  have "directory_sectors 0x01010101 \<noteq> 0" by (simp add: directory_sectors_def kDataSectorBytes_def)
  then obtain m where m: "directory_sectors 0x01010101 = Suc m" by (cases "directory_sectors 0x01010101") auto
  have "scan_records (replicate 2048 32) [0x41] 0 = Overrun" using short_scan [of 63] by simp
  then have "scan_directory (Some short_image) [0x41] (Suc m) 0x01010101 = OutOfBounds" by (simp add: s)
  then have w: "walk_path (Some short_image) [0x41] 0x01010101 0x01010101 = None"
    by (subst walk_path.simps) (simp add: n m separator_def)
  have "readLe32 (replicate 2048 1) 158 = 0x01010101" "readLe32 (replicate 2048 1) 166 = 0x01010101"
    by (simp_all add: readLe32_def numeral_eq_Suc push_bit_eq_mult)
  then show ?thesis using w by (simp add: findFile_def s separator_def)
qed

text \<open>
  The lookup stays in its sector buffer, whatever the path, when every record it can come across holds its header and its
  name: those of the root directory and of every extent a record names, since a lookup also walks into what is no
  directory. On a disc whose directory ends in a shorter record it reads past the buffer, because a record's length is
  only tested against zero and the end of the sector.
\<close>

theorem lookup_stays_in_buffer:
  assumes "walk_closed disc D"
    and "\<And>sec. readSector disc 16 = Some sec \<Longrightarrow> (readLe32 sec 158, readLe32 sec 166) \<in> D"
  shows "findFile disc path \<noteq> None \<and> findFile (Some short_image) [0x41] = None"
  using assms short_lookup by (auto simp: findFile_def split: option.splits dest: walk_path_defined simp del: not_None_eq)

text \<open>The small disc, its file all zeros.\<close>

definition blank_image :: disc_image where
  "blank_image = sample_image\<lparr>hunk_data := (\<lambda>h. Some (replicate 16 0 @
     (if h = 16 then small_pvd else if h = 18 then small_root else replicate 2048 0) @ replicate 384 0))\<rparr>"

lemma blank_sectors:
  "\<not> 100 \<le> h \<Longrightarrow> readSector (Some blank_image) h =
     Some (if h = 16 then small_pvd else if h = 18 then small_root else replicate 2048 0)"
  by (simp add: readSector_def resident_frame_def blank_image_def sample_image_def Let_def isMode2_def
      kDataSectorBytes_def small_pvd_def small_root_def nth_append)

lemma root_records:
  "records_ok small_root 0" "sector_records small_root 0 = [([0x41, 0x3B, 0x31], \<lparr>df_lba = 20, df_size = 5\<rparr>)]"
proof -
  have r: "small_root ! 0 = 40" "small_root ! 32 = 3" "small_root ! 40 = 0" "drop 33 small_root = [0x41, 0x3B, 0x31] @ replicate 2012 0"
      "take 4 (drop 2 small_root) = [20, 0, 0, 0]" "take 4 (drop 10 small_root) = [5, 0, 0, 0]"
    by (simp_all add: small_root_def nth_append)
  have l: "readLe32 small_root (0 + 2) = 20" "readLe32 small_root (0 + 10) = 5"
    unfolding readLe32_def add_0 r by simp_all
  have a: "records_ok small_root 40" "sector_records small_root 40 = []"
    by (subst records_ok.simps, simp add: r) (subst sector_records.simps, simp add: r)
  show "records_ok small_root 0" by (subst records_ok.simps) (simp add: r a kDataSectorBytes_def)
  show "sector_records small_root 0 = [([0x41, 0x3B, 0x31], \<lparr>df_lba = 20, df_size = 5\<rparr>)]"
    by (subst sector_records.simps) (simp_all only: l, simp_all add: r a kDataSectorBytes_def)
qed

lemma blank_closed: "walk_closed (Some blank_image) {(18, 0x800), (20, 5)}"
proof -
  have z: "records_ok (replicate 2048 0) 0" "sector_records (replicate 2048 0) 0 = []"
    by (subst records_ok.simps, simp) (subst sector_records.simps, simp)
  have d: "directory_sectors 0x800 = 1" "directory_sectors 5 = 1"
    by (simp_all add: directory_sectors_def kDataSectorBytes_def)
  have "length small_root = 2048" by (simp add: small_root_def)
  then show ?thesis by (auto simp: walk_closed_def d blank_sectors root_records z kDataSectorBytes_def)
qed

theorem lookup_stays_in_buffer_witness:
  "findFile (Some blank_image) [0x41, 0x5C, 0x42] \<noteq> None"
proof -
  have "readLe32 small_pvd 158 = 18" "readLe32 small_pvd 166 = 0x800"
    by (simp_all add: readLe32_def small_pvd_def push_bit_eq_mult)
  then show ?thesis
    using lookup_stays_in_buffer [OF blank_closed, of "[0x41, 0x5C, 0x42]"] by (simp add: blank_sectors)
qed

end
