(* ===== verification/Hunk_Reader.thy ===== *)
theory Hunk_Reader
  imports Prelude
begin

text \<open>
  Decoding ahead of the disc reads (\<open>cd/hunk_reader.cpp\<close>): 32 slots shared by the caller and four worker threads under
  one mutex. A step of the relation is what one thread does while it holds the mutex; \<open>chd_read\<close> runs outside it, so a
  read is two steps, and every interleaving of the threads is a path. The image is an argument: what a hunk decodes to,
  where any read may fail. Shutting the workers down is left out.
\<close>

section \<open>Slots\<close>

datatype SlotState = SlotEmpty | SlotQueued | SlotDecoding | SlotReady

record Slot =
  sl_index :: u32
  sl_used :: u64
  sl_state :: SlotState
  sl_data :: "u8 list"

definition kSlots :: nat where "kSlots = 32"
definition kAhead :: u32 where "kAhead = 12"
definition kWorkers :: nat where "kWorkers = 4"

record hunk_slots =
  slots :: "nat \<Rightarrow> Slot"
  request_count :: u64

definition find_slot :: "u32 \<Rightarrow> hunk_slots \<Rightarrow> nat option" where
  "find_slot index r =
     List.find (\<lambda>k. sl_state (slots r k) \<noteq> SlotEmpty \<and> sl_index (slots r k) = index) [0..<kSlots]"

definition blocked :: "hunk_slots \<Rightarrow> nat \<Rightarrow> bool" where
  "blocked r k \<longleftrightarrow> sl_state (slots r k) = SlotDecoding \<or> sl_used (slots r k) = request_count r"

definition victim_step :: "hunk_slots \<Rightarrow> nat \<Rightarrow> nat option \<Rightarrow> nat option" where
  "victim_step r k oldest =
     (if blocked r k then oldest
      else case oldest of
             None \<Rightarrow> Some k
           | Some b \<Rightarrow> if sl_used (slots r k) < sl_used (slots r b) then Some k else oldest)"

definition victim :: "hunk_slots \<Rightarrow> nat option" where
  "victim r = fold (victim_step r) [0..<kSlots] None"

definition set_slot :: "nat \<Rightarrow> (Slot \<Rightarrow> Slot) \<Rightarrow> hunk_slots \<Rightarrow> hunk_slots" where
  "set_slot k f r = r\<lparr>slots := (slots r)(k := f (slots r k))\<rparr>"

primrec queue_loop :: "u32 list \<Rightarrow> hunk_slots \<Rightarrow> hunk_slots" where
  "queue_loop [] r = r"
| "queue_loop (next' # rest) r =
     (case find_slot next' r of
        Some k \<Rightarrow> queue_loop rest (set_slot k (\<lambda>s. s\<lparr>sl_used := request_count r\<rparr>) r)
      | None \<Rightarrow>
          (case victim r of
             None \<Rightarrow> r
           | Some k \<Rightarrow> queue_loop rest
               (set_slot k (\<lambda>s. s\<lparr>sl_index := next', sl_used := request_count r, sl_state := SlotQueued\<rparr>) r)))"

text \<open>The hunks the loop of \<open>queueAhead\<close> visits.\<close>

definition hunks_ahead :: "u32 \<Rightarrow> u32 \<Rightarrow> u32 list" where
  "hunks_ahead hunkCount index =
     takeWhile (\<lambda>n. n \<le> index + kAhead \<and> n < hunkCount) (map (\<lambda>i. index + 1 + of_nat i) [0..<unat kAhead])"

definition queueAhead :: "u32 \<Rightarrow> u32 \<Rightarrow> hunk_slots \<Rightarrow> hunk_slots" where
  "queueAhead hunkCount index r = queue_loop (hunks_ahead hunkCount index) r"

text \<open>The queued slot a worker takes: the most recently asked for, the lowest hunk among those.\<close>

definition pick_step :: "hunk_slots \<Rightarrow> nat \<Rightarrow> nat option \<Rightarrow> nat option" where
  "pick_step r k best =
     (if sl_state (slots r k) \<noteq> SlotQueued then best
      else case best of
             None \<Rightarrow> Some k
           | Some b \<Rightarrow>
               if sl_used (slots r k) > sl_used (slots r b) \<or>
                  (sl_used (slots r k) = sl_used (slots r b) \<and> sl_index (slots r k) < sl_index (slots r b))
               then Some k else best)"

definition pick :: "hunk_slots \<Rightarrow> nat option" where
  "pick r = fold (pick_step r) [0..<kSlots] None"

section \<open>The threads\<close>

text \<open>Where the caller is in \<open>hunk\<close>: outside it with the last answer, waiting, or reading slot \<open>k\<close> outside the mutex.\<close>

datatype caller = NoCall | Awaiting u32 nat | NeedsSlot u32 | Reading u32 nat | Returned u32 nat bool | ReadFailure u32

record reader_threads =
  shared :: hunk_slots
  caller :: caller
  workers :: "nat \<Rightarrow> (nat \<times> u32) option"

definition start :: "hunk_slots \<Rightarrow> bool" where
  "start r \<longleftrightarrow> (\<forall>k<kSlots. sl_state (slots r k) = SlotEmpty \<and> sl_used (slots r k) = 0) \<and> request_count r = 0"

definition claim :: "u32 \<Rightarrow> nat \<Rightarrow> hunk_slots \<Rightarrow> hunk_slots" where
  "claim index k r = set_slot k (\<lambda>s. s\<lparr>sl_index := index, sl_used := request_count r, sl_state := SlotDecoding\<rparr>) r"

definition hand_out :: "u32 \<Rightarrow> u32 \<Rightarrow> nat \<Rightarrow> hunk_slots \<Rightarrow> hunk_slots" where
  "hand_out hunkCount index k r =
     queueAhead hunkCount index (set_slot k (\<lambda>s. s\<lparr>sl_used := request_count r\<rparr>) r)"

definition outside_call :: "caller \<Rightarrow> bool" where
  "outside_call m = (case m of NoCall \<Rightarrow> True | Returned _ _ _ \<Rightarrow> True | ReadFailure _ \<Rightarrow> True | _ \<Rightarrow> False)"

text \<open>The first locked stretch of \<open>hunk\<close>, up to its first wait or its read.\<close>

definition enter_hunk :: "u32 \<Rightarrow> u32 \<Rightarrow> hunk_slots \<Rightarrow> hunk_slots \<times> caller" where
  "enter_hunk hunkCount index r0 =
     (let r = r0\<lparr>request_count := request_count r0 + 1\<rparr> in
      case find_slot index r of
        None \<Rightarrow> (r, NeedsSlot index)
      | Some k \<Rightarrow>
          (case sl_state (slots r k) of
             SlotReady \<Rightarrow> (hand_out hunkCount index k r, Returned index k True)
           | SlotDecoding \<Rightarrow> (r, Awaiting index k)
           | _ \<Rightarrow> (claim index k r, Reading index k)))"

text \<open>After the wait for slot \<open>k\<close>: it holds the hunk, or another slot is needed.\<close>

definition after_wait :: "u32 \<Rightarrow> u32 \<Rightarrow> nat \<Rightarrow> hunk_slots \<Rightarrow> hunk_slots \<times> caller" where
  "after_wait hunkCount index k r =
     (if sl_state (slots r k) = SlotReady \<and> sl_index (slots r k) = index
      then (hand_out hunkCount index k r, Returned index k False)
      else (r, NeedsSlot index))"

definition store_hunk :: "nat \<Rightarrow> u8 list option \<Rightarrow> hunk_slots \<Rightarrow> hunk_slots" where
  "store_hunk k read r =
     set_slot k (\<lambda>s. case read of None \<Rightarrow> s\<lparr>sl_state := SlotEmpty\<rparr> | Some d \<Rightarrow> s\<lparr>sl_data := d, sl_state := SlotReady\<rparr>) r"

definition end_read :: "u32 \<Rightarrow> u32 \<Rightarrow> nat \<Rightarrow> u8 list option \<Rightarrow> hunk_slots \<Rightarrow> hunk_slots \<times> caller" where
  "end_read hunkCount index k read r =
     (let r1 = store_hunk k read r in
      case read of None \<Rightarrow> (r1, ReadFailure index) | Some _ \<Rightarrow> (hand_out hunkCount index k r1, Returned index k False))"

text \<open>\<open>contents\<close> is what a hunk decodes to; a read gives that or fails.\<close>

inductive hunk_step :: "(u32 \<Rightarrow> u8 list) \<Rightarrow> u32 \<Rightarrow> reader_threads \<Rightarrow> reader_threads \<Rightarrow> bool" for contents hunkCount where
  Enter: "outside_call (caller c) \<Longrightarrow> index < hunkCount \<Longrightarrow> enter_hunk hunkCount index (shared c) = (r, m) \<Longrightarrow>
     hunk_step contents hunkCount c (c\<lparr>shared := r, caller := m\<rparr>)"
| Woken: "caller c = Awaiting index k \<Longrightarrow> sl_state (slots (shared c) k) \<noteq> SlotDecoding \<Longrightarrow>
     after_wait hunkCount index k (shared c) = (r, m) \<Longrightarrow> hunk_step contents hunkCount c (c\<lparr>shared := r, caller := m\<rparr>)"
| Claim: "caller c = NeedsSlot index \<Longrightarrow> victim (shared c) = Some k \<Longrightarrow>
     hunk_step contents hunkCount c (c\<lparr>shared := claim index k (shared c), caller := Reading index k\<rparr>)"
| CallerRead: "caller c = Reading index k \<Longrightarrow> read = None \<or> read = Some (contents index) \<Longrightarrow>
     end_read hunkCount index k read (shared c) = (r, m) \<Longrightarrow> hunk_step contents hunkCount c (c\<lparr>shared := r, caller := m\<rparr>)"
| Take: "w < kWorkers \<Longrightarrow> workers c w = None \<Longrightarrow> pick (shared c) = Some k \<Longrightarrow>
     hunk_step contents hunkCount c (c\<lparr>shared := set_slot k (\<lambda>s. s\<lparr>sl_state := SlotDecoding\<rparr>) (shared c),
       workers := (workers c)(w \<mapsto> (k, sl_index (slots (shared c) k)))\<rparr>)"
| WorkerRead: "w < kWorkers \<Longrightarrow> workers c w = Some (k, index) \<Longrightarrow> read = None \<or> read = Some (contents index) \<Longrightarrow>
     hunk_step contents hunkCount c (c\<lparr>shared := store_hunk k read (shared c), workers := (workers c)(w := None)\<rparr>)"

inductive hunk_reachable :: "(u32 \<Rightarrow> u8 list) \<Rightarrow> u32 \<Rightarrow> reader_threads \<Rightarrow> bool" for contents hunkCount where
  Start: "start r \<Longrightarrow> hunk_reachable contents hunkCount \<lparr>shared = r, caller = NoCall, workers = (\<lambda>_. None)\<rparr>"
| Step: "hunk_reachable contents hunkCount c \<Longrightarrow> hunk_step contents hunkCount c c' \<Longrightarrow>
     unat (request_count (shared c)) < 2 ^ 64 - 1 \<Longrightarrow> hunk_reachable contents hunkCount c'"

section \<open>Choosing a slot\<close>

lemma find_slotD:
  "find_slot i r = Some k \<Longrightarrow> k < kSlots \<and> sl_state (slots r k) \<noteq> SlotEmpty \<and> sl_index (slots r k) = i"
  by (auto simp: find_slot_def find_Some_iff)

lemma find_slot_none: "find_slot i r = None \<longleftrightarrow> (\<forall>k<kSlots. sl_state (slots r k) = SlotEmpty \<or> sl_index (slots r k) \<noteq> i)"
  by (auto simp: find_slot_def find_None_iff)

lemma victim_fold:
  "fold (victim_step r) ks b = v \<Longrightarrow> (\<forall>j. b = Some j \<longrightarrow> j \<in> J \<and> \<not> blocked r j) \<Longrightarrow>
     (\<forall>j. v = Some j \<longrightarrow> j \<in> J \<union> set ks \<and> \<not> blocked r j) \<and> (v = None \<longrightarrow> b = None \<and> (\<forall>k\<in>set ks. blocked r k))"
proof (induction ks arbitrary: b J)
  case Nil
  then show ?case by auto
next
  case (Cons k ks)
  have "fold (victim_step r) ks (victim_step r k b) = v" using Cons.prems(1) by simp
  moreover have "\<forall>j. victim_step r k b = Some j \<longrightarrow> j \<in> insert k J \<and> \<not> blocked r j"
    using Cons.prems(2) by (auto simp: victim_step_def split: option.splits if_splits)
  ultimately have "(\<forall>j. v = Some j \<longrightarrow> j \<in> insert k J \<union> set ks \<and> \<not> blocked r j) \<and>
      (v = None \<longrightarrow> victim_step r k b = None \<and> (\<forall>k\<in>set ks. blocked r k))" by (rule Cons.IH)
  then show ?case by (auto simp: victim_step_def split: option.splits if_splits)
qed

lemma victimD: "victim r = Some k \<Longrightarrow> k < kSlots \<and> \<not> blocked r k"
  using victim_fold [of r "[0..<kSlots]" None "victim r" "{}"] by (auto simp: victim_def)

lemma victim_none: "victim r = None \<Longrightarrow> k < kSlots \<Longrightarrow> blocked r k"
  using victim_fold [of r "[0..<kSlots]" None "victim r" "{}"] by (auto simp: victim_def)

lemma pick_fold:
  "fold (pick_step r) ks b = v \<Longrightarrow> (\<forall>j. b = Some j \<longrightarrow> j \<in> J \<and> sl_state (slots r j) = SlotQueued) \<Longrightarrow>
     (\<forall>j. v = Some j \<longrightarrow> j \<in> J \<union> set ks \<and> sl_state (slots r j) = SlotQueued)"
proof (induction ks arbitrary: b J)
  case Nil
  then show ?case by auto
next
  case (Cons k ks)
  have "fold (pick_step r) ks (pick_step r k b) = v" using Cons.prems(1) by simp
  moreover have "\<forall>j. pick_step r k b = Some j \<longrightarrow> j \<in> insert k J \<and> sl_state (slots r j) = SlotQueued"
    using Cons.prems(2) by (auto simp: pick_step_def split: option.splits if_splits)
  ultimately have "\<forall>j. v = Some j \<longrightarrow> j \<in> insert k J \<union> set ks \<and> sl_state (slots r j) = SlotQueued" by (rule Cons.IH)
  then show ?case by auto
qed

lemma pickD: "pick r = Some k \<Longrightarrow> k < kSlots \<and> sl_state (slots r k) = SlotQueued"
  using pick_fold [of r "[0..<kSlots]" None "pick r" "{}"] by (auto simp: pick_def)

section \<open>What the slots keep\<close>

definition content_ok :: "(u32 \<Rightarrow> u8 list) \<Rightarrow> hunk_slots \<Rightarrow> bool" where
  "content_ok contents r \<longleftrightarrow> (\<forall>k<kSlots. sl_state (slots r k) = SlotReady \<longrightarrow> sl_data (slots r k) = contents (sl_index (slots r k)))"

definition unique_ok :: "hunk_slots \<Rightarrow> bool" where
  "unique_ok r \<longleftrightarrow> (\<forall>j<kSlots. \<forall>k<kSlots. sl_state (slots r j) \<noteq> SlotEmpty \<longrightarrow> sl_state (slots r k) \<noteq> SlotEmpty \<longrightarrow>
     sl_index (slots r j) = sl_index (slots r k) \<longrightarrow> j = k)"

definition used_ok :: "hunk_slots \<Rightarrow> bool" where
  "used_ok r \<longleftrightarrow> (\<forall>k<kSlots. sl_used (slots r k) \<le> request_count r)"

definition slots_ok :: "(u32 \<Rightarrow> u8 list) \<Rightarrow> hunk_slots \<Rightarrow> bool" where
  "slots_ok contents r \<longleftrightarrow> content_ok contents r \<and> unique_ok r \<and> used_ok r"

text \<open>What a slot holds, and that two tables agree on it.\<close>

definition same_hunk :: "Slot \<Rightarrow> Slot \<Rightarrow> bool" where
  "same_hunk s t \<longleftrightarrow> sl_state s = sl_state t \<and> sl_index s = sl_index t \<and> sl_data s = sl_data t"

lemmas slots_ok_defs = slots_ok_def content_ok_def unique_ok_def used_ok_def

lemma set_slot_simps [simp]:
  "slots (set_slot k f r) j = (if j = k then f (slots r k) else slots r j)"
  "request_count (set_slot k f r) = request_count r"
  by (simp_all add: set_slot_def)

lemma slots_ok_touch: "slots_ok contents r \<Longrightarrow> slots_ok contents (set_slot k (\<lambda>s. s\<lparr>sl_used := request_count r\<rparr>) r)"
  by (auto simp: slots_ok_defs)

lemma slots_ok_place:
  "slots_ok contents r \<Longrightarrow> find_slot i r = None \<Longrightarrow> st \<noteq> SlotReady \<Longrightarrow>
     slots_ok contents (set_slot k (\<lambda>s. s\<lparr>sl_index := i, sl_used := request_count r, sl_state := st\<rparr>) r)"
  by (auto simp: slots_ok_defs find_slot_none)

text \<open>Queueing ahead leaves alone what a thread is decoding and what this request has touched.\<close>

lemma queue_loop_keeps:
  "slots_ok contents r \<Longrightarrow>
     slots_ok contents (queue_loop ns r) \<and> request_count (queue_loop ns r) = request_count r \<and>
     (\<forall>j. blocked r j \<longrightarrow> same_hunk (slots (queue_loop ns r) j) (slots r j) \<and> blocked (queue_loop ns r) j) \<and>
     (\<forall>j. sl_state (slots (queue_loop ns r) j) = SlotDecoding \<longrightarrow> sl_state (slots r j) = SlotDecoding)"
proof (induction ns arbitrary: r)
  case Nil
  then show ?case by (simp add: same_hunk_def)
next
  case (Cons n ns)
  show ?case
  proof (cases "find_slot n r")
    case (Some k)
    let ?r = "set_slot k (\<lambda>s. s\<lparr>sl_used := request_count r\<rparr>) r"
    have "slots_ok contents ?r" using Cons.prems by (rule slots_ok_touch)
    note ih = Cons.IH [OF this]
    have b: "\<And>j. blocked r j \<Longrightarrow> blocked ?r j" by (auto simp: blocked_def)
    have s: "\<And>j. same_hunk (slots ?r j) (slots r j)" by (simp add: same_hunk_def)
    show ?thesis using ih b s Some by (auto simp: same_hunk_def split: if_splits)
  next
    case None
    show ?thesis
    proof (cases "victim r")
      case None
      with \<open>find_slot n r = None\<close> Cons.prems show ?thesis by (simp add: same_hunk_def)
    next
      case (Some k)
      define q where "q = set_slot k (\<lambda>s. s\<lparr>sl_index := n, sl_used := request_count r, sl_state := SlotQueued\<rparr>) r"
      have "slots_ok contents q" unfolding q_def using Cons.prems None by (intro slots_ok_place) simp_all
      note ih = Cons.IH [OF this]
      have k: "\<not> blocked r k" using victimD [OF Some] by simp
      have b: "\<And>j. blocked r j \<Longrightarrow> blocked q j \<and> slots q j = slots r j" using k by (auto simp: blocked_def q_def)
      have d: "\<And>j. sl_state (slots q j) = SlotDecoding \<Longrightarrow> sl_state (slots r j) = SlotDecoding"
        by (auto simp: q_def split: if_splits)
      have q: "queue_loop (n # ns) r = queue_loop ns q" "request_count q = request_count r" using None Some by (simp_all add: q_def)
      show ?thesis unfolding q using ih b d q(2) by metis
    qed
  qed
qed

text \<open>Enough free slots: the loop leaves every hunk it visits held or queued.\<close>

definition blocked_slots :: "hunk_slots \<Rightarrow> nat set" where
  "blocked_slots r = {k. k < kSlots \<and> blocked r k}"

lemma finite_blocked [simp]: "finite (blocked_slots r)"
  by (simp add: blocked_slots_def)

lemma free_slot: "card (blocked_slots r) < kSlots \<Longrightarrow> victim r \<noteq> None"
proof
  assume c: "card (blocked_slots r) < kSlots" and "victim r = None"
  then have "blocked_slots r = {..<kSlots}" using victim_none by (auto simp: blocked_slots_def)
  then show False using c by simp
qed

lemma blocked_grows:
  assumes "blocked_slots r' \<subseteq> insert k (blocked_slots r)"
  shows "card (blocked_slots r') \<le> Suc (card (blocked_slots r))"
  using card_mono [OF _ assms] by (simp add: card_insert_if le_SucI split: if_splits)

lemma held_stays:
  assumes "slots_ok contents r" and "find_slot n r = Some k" and "blocked r k"
  shows "find_slot n (queue_loop ns r) \<noteq> None"
proof -
  have "same_hunk (slots (queue_loop ns r) k) (slots r k)" using queue_loop_keeps [OF assms(1)] assms(3) by blast
  then show ?thesis using find_slotD [OF assms(2)] by (auto simp: find_slot_none same_hunk_def)
qed

lemma queue_loop_holds:
  "slots_ok contents r \<Longrightarrow> card (blocked_slots r) + length ns < kSlots \<Longrightarrow> n \<in> set ns \<Longrightarrow>
     find_slot n (queue_loop ns r) \<noteq> None"
proof (induction ns arbitrary: r)
  case Nil
  then show ?case by simp
next
  case (Cons m ns)
  show ?case
  proof (cases "find_slot m r")
    case (Some k)
    let ?r = "set_slot k (\<lambda>s. s\<lparr>sl_used := request_count r\<rparr>) r"
    have ok: "slots_ok contents ?r" using Cons.prems(1) by (rule slots_ok_touch)
    have "blocked_slots ?r \<subseteq> insert k (blocked_slots r)" by (auto simp: blocked_slots_def blocked_def)
    from blocked_grows [OF this] have c: "card (blocked_slots ?r) + length ns < kSlots" using Cons.prems(2) by simp
    have "find_slot m ?r \<noteq> None" using find_slotD [OF Some] by (auto simp: find_slot_none)
    then obtain k' where k': "find_slot m ?r = Some k'" by auto
    have "k' = k" using find_slotD [OF Some] find_slotD [OF k'] Cons.prems(1)
      by (auto simp: slots_ok_defs split: if_splits)
    then have "blocked ?r k'" by (simp add: blocked_def)
    then have "find_slot m (queue_loop ns ?r) \<noteq> None" by (rule held_stays [OF ok k'])
    then show ?thesis using Cons.IH [OF ok c] Cons.prems(3) Some by auto
  next
    case None
    have "victim r \<noteq> None" using Cons.prems(2) by (intro free_slot) simp
    then obtain k where v: "victim r = Some k" by auto
    let ?r = "set_slot k (\<lambda>s. s\<lparr>sl_index := m, sl_used := request_count r, sl_state := SlotQueued\<rparr>) r"
    have ok: "slots_ok contents ?r" using Cons.prems(1) None by (intro slots_ok_place) simp_all
    have "blocked_slots ?r \<subseteq> insert k (blocked_slots r)" by (auto simp: blocked_slots_def blocked_def)
    from blocked_grows [OF this] have c: "card (blocked_slots ?r) + length ns < kSlots" using Cons.prems(2) by simp
    have kk: "k < kSlots" using victimD [OF v] by simp
    then have "find_slot m ?r \<noteq> None" by (auto simp: find_slot_none)
    then obtain k' where k': "find_slot m ?r = Some k'" by auto
    have "k' = k" using find_slotD [OF k'] None by (auto simp: find_slot_none split: if_splits)
    then have "blocked ?r k'" by (simp add: blocked_def)
    then have "find_slot m (queue_loop ns ?r) \<noteq> None" by (rule held_stays [OF ok k'])
    then show ?thesis using Cons.IH [OF ok c] Cons.prems(3) None v by auto
  qed
qed

end
