(* ===== verification/Hunk_Laws.thy ===== *)
theory Hunk_Laws
  imports Hunk_Reader
begin

text \<open>
  What holds in every interleaving of the disc reader's threads (\<open>cd/hunk_reader.cpp\<close>): each slot being decoded has
  exactly one decoder, no hunk is held twice, an answer is the hunk asked for and stays so until the next request, and the
  caller never waits for a slot nor for a thread that cannot move.
\<close>

section \<open>Who decodes what\<close>

text \<open>The slot a thread is decoding outside the mutex: the caller's is \<open>None\<close>.\<close>

definition owner :: "reader_threads \<Rightarrow> nat option \<Rightarrow> (nat \<times> u32) option" where
  "owner c a = (case a of
     None \<Rightarrow> (case caller c of Reading i k \<Rightarrow> Some (k, i) | _ \<Rightarrow> None)
   | Some w \<Rightarrow> workers c w)"

definition owners_ok :: "reader_threads \<Rightarrow> bool" where
  "owners_ok c \<longleftrightarrow>
     (\<forall>a k i. owner c a = Some (k, i) \<longrightarrow> k < kSlots \<and> sl_state (slots (shared c) k) = SlotDecoding \<and> sl_index (slots (shared c) k) = i) \<and>
     (\<forall>k<kSlots. sl_state (slots (shared c) k) = SlotDecoding \<longrightarrow> (\<exists>a i. owner c a = Some (k, i))) \<and>
     (\<forall>a b k i j. owner c a = Some (k, i) \<longrightarrow> owner c b = Some (k, j) \<longrightarrow> a = b) \<and>
     (\<forall>w. kWorkers \<le> w \<longrightarrow> workers c w = None)"

text \<open>No slot counts as touched by this request yet.\<close>

definition untouched :: "hunk_slots \<Rightarrow> bool" where
  "untouched r \<longleftrightarrow> (\<forall>k<kSlots. sl_used (slots r k) < request_count r)"

definition caller_ok :: "reader_threads \<Rightarrow> bool" where
  "caller_ok c \<longleftrightarrow> (case caller c of
     Returned i k resident \<Rightarrow> k < kSlots \<and> sl_state (slots (shared c) k) = SlotReady \<and> sl_index (slots (shared c) k) = i
   | NeedsSlot i \<Rightarrow> find_slot i (shared c) = None \<and> untouched (shared c)
   | Awaiting i k \<Rightarrow> k < kSlots \<and> sl_index (slots (shared c) k) = i \<and> sl_state (slots (shared c) k) \<noteq> SlotQueued \<and>
       untouched (shared c) \<and> (\<forall>j<kSlots. j \<noteq> k \<longrightarrow> sl_state (slots (shared c) j) = SlotEmpty \<or> sl_index (slots (shared c) j) \<noteq> i)
   | Reading i k \<Rightarrow> (\<forall>j<kSlots. j \<noteq> k \<longrightarrow> sl_used (slots (shared c) j) < request_count (shared c))
   | _ \<Rightarrow> True)"

definition threads_ok :: "(u32 \<Rightarrow> u8 list) \<Rightarrow> reader_threads \<Rightarrow> bool" where
  "threads_ok contents c \<longleftrightarrow> slots_ok contents (shared c) \<and> owners_ok c \<and> caller_ok c"

section \<open>Handing out a slot\<close>

lemma hand_out_keeps:
  fixes hunkCount i :: u32
  assumes "slots_ok contents r" and "k < kSlots" and "sl_state (slots r k) = SlotReady"
  defines "r' \<equiv> hand_out hunkCount i k r"
  shows "slots_ok contents r'" and "request_count r' = request_count r"
    and "same_hunk (slots r' k) (slots r k)"
    and "sl_state (slots r j) = SlotDecoding \<Longrightarrow> same_hunk (slots r' j) (slots r j)"
    and "sl_state (slots r' j) = SlotDecoding \<Longrightarrow> sl_state (slots r j) = SlotDecoding"
proof -
  define q where "q = set_slot k (\<lambda>s. s\<lparr>sl_used := request_count r\<rparr>) r"
  have "slots_ok contents q" unfolding q_def using assms(1) by (rule slots_ok_touch)
  note keeps = queue_loop_keeps [OF this, of "hunks_ahead hunkCount i"]
  have r': "r' = queue_loop (hunks_ahead hunkCount i) q" by (simp add: r'_def hand_out_def queueAhead_def q_def)
  have qj: "same_hunk (slots q j) (slots r j)" for j by (simp add: q_def same_hunk_def)
  show "slots_ok contents r'" "request_count r' = request_count r" using keeps by (simp_all add: r' q_def)
  have "blocked q k" by (simp add: q_def blocked_def)
  then have "same_hunk (slots r' k) (slots q k)" using keeps by (simp add: r')
  then show "same_hunk (slots r' k) (slots r k)" using qj [of k] by (simp add: same_hunk_def)
  show "same_hunk (slots r' j) (slots r j)" if "sl_state (slots r j) = SlotDecoding"
  proof -
    have "blocked q j" using that qj [of j] by (simp add: blocked_def same_hunk_def)
    then have "same_hunk (slots r' j) (slots q j)" using keeps by (simp add: r')
    then show ?thesis using qj [of j] by (simp add: same_hunk_def)
  qed
  show "sl_state (slots r j) = SlotDecoding" if "sl_state (slots r' j) = SlotDecoding"
    using that keeps qj [of j] by (auto simp: r' same_hunk_def)
qed

definition same_place :: "Slot \<Rightarrow> Slot \<Rightarrow> bool" where
  "same_place s t \<longleftrightarrow> sl_state s = sl_state t \<and> sl_index s = sl_index t"

text \<open>The decoders when none changes, when one thread takes a slot, and when it is done with it.\<close>

lemma owners_kept:
  assumes "owners_ok c" and "owner c' = owner c" and "workers c' = workers c"
    and "\<And>j. sl_state (slots (shared c) j) = SlotDecoding \<Longrightarrow> same_place (slots (shared c') j) (slots (shared c) j)"
    and "\<And>j. sl_state (slots (shared c') j) = SlotDecoding \<Longrightarrow> sl_state (slots (shared c) j) = SlotDecoding"
  shows "owners_ok c'"
  using assms unfolding owners_ok_def same_place_def by metis

lemma owners_gained:
  assumes "owners_ok c" and "owner c' = (owner c)(a \<mapsto> (k, i))" and "owner c a = None" and "k < kSlots"
    and "sl_state (slots (shared c) k) \<noteq> SlotDecoding"
    and "sl_state (slots (shared c') k) = SlotDecoding" and "sl_index (slots (shared c') k) = i"
    and "\<And>j. j \<noteq> k \<Longrightarrow> same_place (slots (shared c') j) (slots (shared c) j)" and "\<forall>w. kWorkers \<le> w \<longrightarrow> workers c' w = None"
  shows "owners_ok c'"
  unfolding owners_ok_def
proof (intro conjI allI impI)
  have other: "owner c b = Some (j, l) \<Longrightarrow> j \<noteq> k \<and> j < kSlots \<and> sl_state (slots (shared c) j) = SlotDecoding \<and> sl_index (slots (shared c) j) = l"
    for b j l using assms(1,5) unfolding owners_ok_def by metis
  fix b j l
  assume b: "owner c' b = Some (j, l)"
  show "j < kSlots" "sl_state (slots (shared c') j) = SlotDecoding" "sl_index (slots (shared c') j) = l"
    using b assms(2,4,6,7,8) other [of b j l] by (auto simp: same_place_def split: if_splits)
next
  fix j
  assume j: "j < kSlots" "sl_state (slots (shared c') j) = SlotDecoding"
  show "\<exists>b l. owner c' b = Some (j, l)"
  proof (cases "j = k")
    case True
    then show ?thesis using assms(2) by auto
  next
    case False
    then have "sl_state (slots (shared c) j) = SlotDecoding" using j assms(8) by (simp add: same_place_def)
    then obtain b l where "owner c b = Some (j, l)" using assms(1) j unfolding owners_ok_def by metis
    moreover from this have "b \<noteq> a" using assms(3) by auto
    ultimately show ?thesis using assms(2) by auto
  qed
next
  have other: "owner c b = Some (j, l) \<Longrightarrow> j \<noteq> k" for b j l using assms(1,5) unfolding owners_ok_def by metis
  fix b b' j l m
  assume "owner c' b = Some (j, l)" "owner c' b' = Some (j, m)"
  then show "b = b'" using assms(1,2) other unfolding owners_ok_def by (auto split: if_splits)
next
  fix w assume "kWorkers \<le> w"
  then show "workers c' w = None" using assms(9) by simp
qed

lemma owners_dropped:
  assumes "owners_ok c" and "owner c' = (owner c)(a := None)" and "owner c a = Some (k, i)"
    and "sl_state (slots (shared c') k) \<noteq> SlotDecoding"
    and "\<And>j. j \<noteq> k \<Longrightarrow> same_place (slots (shared c') j) (slots (shared c) j)" and "\<forall>w. kWorkers \<le> w \<longrightarrow> workers c' w = None"
  shows "owners_ok c'"
  unfolding owners_ok_def
proof (intro conjI allI impI)
  have other: "owner c b = Some (j, l) \<Longrightarrow> b \<noteq> a \<Longrightarrow> j \<noteq> k" for b j l
    using assms(1,3) unfolding owners_ok_def by metis
  fix b j l
  assume b: "owner c' b = Some (j, l)"
  then have "owner c b = Some (j, l)" "b \<noteq> a" using assms(2) by (auto split: if_splits)
  then show "j < kSlots" "sl_state (slots (shared c') j) = SlotDecoding" "sl_index (slots (shared c') j) = l"
    using assms(1,5) other unfolding owners_ok_def same_place_def by metis+
next
  fix j
  assume "j < kSlots" "sl_state (slots (shared c') j) = SlotDecoding"
  then have ne: "j \<noteq> k" using assms(4) by auto
  then have "sl_state (slots (shared c) j) = SlotDecoding"
    using assms(5) [OF ne] \<open>sl_state (slots (shared c') j) = SlotDecoding\<close> by (simp add: same_place_def)
  then obtain b l where "owner c b = Some (j, l)" using assms(1) \<open>j < kSlots\<close> unfolding owners_ok_def by metis
  moreover from this have "b \<noteq> a" using assms(3) ne by auto
  ultimately show "\<exists>b l. owner c' b = Some (j, l)" using assms(2) by auto
next
  fix b b' j l m
  assume "owner c' b = Some (j, l)" "owner c' b' = Some (j, m)"
  then have "owner c b = Some (j, l)" "owner c b' = Some (j, m)" using assms(2) by (auto split: if_splits)
  then show "b = b'" using assms(1) unfolding owners_ok_def by metis
next
  fix w assume "kWorkers \<le> w"
  then show "workers c' w = None" using assms(6) by simp
qed

lemma owner_record [simp]:
  "owner (c\<lparr>shared := r\<rparr>) = owner c"
  "owner (c\<lparr>caller := m\<rparr>) = (owner c)(None := (case m of Reading i k \<Rightarrow> Some (k, i) | _ \<Rightarrow> None))"
  "owner (c\<lparr>shared := r, caller := m\<rparr>) = (owner c)(None := (case m of Reading i k \<Rightarrow> Some (k, i) | _ \<Rightarrow> None))"
  "owner (c\<lparr>shared := r, workers := (workers c)(w := x)\<rparr>) = (owner c)(Some w := x)"
  by (auto simp: owner_def fun_eq_iff split: option.split caller.split)

lemma owner_caller: "owner c None = (case caller c of Reading i k \<Rightarrow> Some (k, i) | _ \<Rightarrow> None)"
  by (simp add: owner_def)

lemma not_decoding: "(\<And>i k. m \<noteq> Reading i k) \<Longrightarrow> (case m of Reading i k \<Rightarrow> Some (k, i) | _ \<Rightarrow> None) = None"
  by (cases m) auto

text \<open>Handing out changes no decoder, so the caller may answer whenever it is not decoding itself.\<close>

lemma hand_out_ok:
  assumes "slots_ok contents r" and "k < kSlots" and "sl_state (slots r k) = SlotReady" and "sl_index (slots r k) = i"
    and "owners_ok (c\<lparr>shared := r, caller := NoCall\<rparr>)"
  shows "threads_ok contents (c\<lparr>shared := hand_out hunkCount i k r, caller := Returned i k resident\<rparr>)"
proof -
  note h = hand_out_keeps [OF assms(1-3), where hunkCount = hunkCount and i = i]
  have "owners_ok (c\<lparr>shared := hand_out hunkCount i k r, caller := Returned i k resident\<rparr>)"
    by (rule owners_kept [OF assms(5)]) (use h(4,5) in \<open>auto simp: same_place_def same_hunk_def\<close>)
  moreover have "caller_ok (c\<lparr>shared := hand_out hunkCount i k r, caller := Returned i k resident\<rparr>)"
    using h(3) assms(2-4) by (simp add: caller_ok_def same_hunk_def)
  ultimately show ?thesis using h(1) by (simp add: threads_ok_def)
qed

section \<open>Every step keeps them\<close>

lemma outside_not_decoding: "outside_call m \<Longrightarrow> (case m of Reading i k \<Rightarrow> Some (k, i) | _ \<Rightarrow> None) = None"
  by (cases m) (auto simp: outside_call_def)

lemma enter_ok:
  assumes "threads_ok contents c" and "outside_call (caller c)" and "unat (request_count (shared c)) < 2 ^ 64 - 1"
    and "enter_hunk hunkCount i (shared c) = (r', m)"
  shows "threads_ok contents (c\<lparr>shared := r', caller := m\<rparr>)"
proof -
  define r where "r = (shared c)\<lparr>request_count := request_count (shared c) + 1\<rparr>"
  have more: "x \<le> request_count (shared c) \<Longrightarrow> x < request_count r" for x
    using assms(3) by (simp add: r_def word_less_nat_alt word_le_nat_alt unat_word_ariths)
  have ok: "slots_ok contents (shared c)" and ow: "owners_ok c" using assms(1) by (simp_all add: threads_ok_def)
  have sr: "slots r = slots (shared c)" by (simp add: r_def)
  have u: "untouched r" using ok more by (auto simp: untouched_def slots_ok_defs sr)
  have okr: "slots_ok contents r" using ok u by (auto simp: slots_ok_defs sr untouched_def intro: less_imp_le)
  have none: "owner c None = None" using assms(2) by (simp add: owner_caller outside_not_decoding)
  have owr: "owners_ok (c\<lparr>shared := r, caller := m'\<rparr>)" if "\<And>i k. m' \<noteq> Reading i k" for m'
    by (rule owners_kept [OF ow]) (use none not_decoding [OF that] in \<open>auto simp: sr same_place_def fun_upd_idem\<close>)
  show ?thesis
  proof (cases "find_slot i r")
    case None
    then have e: "r' = r" "m = NeedsSlot i" using assms(4) by (simp_all add: enter_hunk_def r_def Let_def)
    have "owners_ok (c\<lparr>shared := r, caller := m\<rparr>)" by (rule owr) (simp add: e)
    then show ?thesis using okr u None by (simp add: e threads_ok_def caller_ok_def)
  next
    case (Some k)
    note k = find_slotD [OF Some]
    show ?thesis
    proof (cases "sl_state (slots r k)")
      case SlotReady
      then have e: "r' = hand_out hunkCount i k r" "m = Returned i k True"
        using assms(4) Some by (simp_all add: enter_hunk_def r_def Let_def)
      show ?thesis unfolding e by (rule hand_out_ok) (use okr k SlotReady owr in auto)
    next
      case SlotDecoding
      then have e: "r' = r" "m = Awaiting i k" using assms(4) Some by (simp_all add: enter_hunk_def r_def Let_def)
      have "owners_ok (c\<lparr>shared := r, caller := m\<rparr>)" by (rule owr) (simp add: e)
      moreover have "\<forall>j<kSlots. j \<noteq> k \<longrightarrow> sl_state (slots r j) = SlotEmpty \<or> sl_index (slots r j) \<noteq> i"
        using okr k unfolding slots_ok_defs by metis
      ultimately show ?thesis using okr u k SlotDecoding by (simp add: e threads_ok_def caller_ok_def)
    next
      case SlotQueued
      then have e: "r' = claim i k r" "m = Reading i k" using assms(4) Some by (simp_all add: enter_hunk_def r_def Let_def)
      have "owners_ok (c\<lparr>shared := r', caller := m\<rparr>)"
        by (rule owners_gained [OF ow, where a = None and k = k and i = i])
          (use none k SlotQueued ow in \<open>auto simp: e claim_def sr same_place_def owners_ok_def\<close>)
      moreover have "slots_ok contents r'"
        using okr k SlotQueued unfolding e claim_def slots_ok_defs by auto
      ultimately show ?thesis using u by (simp add: threads_ok_def caller_ok_def e claim_def untouched_def)
    next
      case SlotEmpty
      then show ?thesis using k by simp
    qed
  qed
qed

lemma woken_ok:
  assumes "threads_ok contents c" and "caller c = Awaiting i k" and "sl_state (slots (shared c) k) \<noteq> SlotDecoding"
    and "after_wait hunkCount i k (shared c) = (r', m)"
  shows "threads_ok contents (c\<lparr>shared := r', caller := m\<rparr>)"
proof -
  let ?r = "shared c"
  have ok: "slots_ok contents ?r" and ow: "owners_ok c" and ck: "caller_ok c" using assms(1) by (simp_all add: threads_ok_def)
  have k: "k < kSlots" "sl_index (slots ?r k) = i" "sl_state (slots ?r k) \<noteq> SlotQueued" "untouched ?r"
    "\<forall>j<kSlots. j \<noteq> k \<longrightarrow> sl_state (slots ?r j) = SlotEmpty \<or> sl_index (slots ?r j) \<noteq> i"
    using ck assms(2) by (simp_all add: caller_ok_def)
  have none: "owner c None = None" using assms(2) by (simp add: owner_caller)
  have owr: "owners_ok (c\<lparr>shared := ?r, caller := m'\<rparr>)" if "\<And>i k. m' \<noteq> Reading i k" for m'
    by (rule owners_kept [OF ow]) (use none not_decoding [OF that] in \<open>auto simp: same_place_def fun_upd_idem\<close>)
  show ?thesis
  proof (cases "sl_state (slots ?r k) = SlotReady")
    case True
    then have e: "r' = hand_out hunkCount i k ?r" "m = Returned i k False" using assms(4) k by (simp_all add: after_wait_def)
    show ?thesis unfolding e by (rule hand_out_ok) (use ok k True owr in auto)
  next
    case False
    then have e: "r' = ?r" "m = NeedsSlot i" using assms(4) by (simp_all add: after_wait_def)
    have "sl_state (slots ?r k) = SlotEmpty" using False assms(3) k(3) by (cases "sl_state (slots ?r k)") auto
    then have "find_slot i ?r = None" using k(5) by (auto simp: find_slot_none)
    moreover have "owners_ok (c\<lparr>shared := ?r, caller := m\<rparr>)" by (rule owr) (simp add: e)
    ultimately show ?thesis using ok k(4) by (simp add: e threads_ok_def caller_ok_def)
  qed
qed

lemma claim_ok:
  assumes "threads_ok contents c" and "caller c = NeedsSlot i" and "victim (shared c) = Some k"
  shows "threads_ok contents (c\<lparr>shared := claim i k (shared c), caller := Reading i k\<rparr>)"
proof -
  let ?r = "shared c"
  have ok: "slots_ok contents ?r" and ow: "owners_ok c" and f: "find_slot i ?r = None" "untouched ?r"
    using assms(1,2) by (simp_all add: threads_ok_def caller_ok_def)
  have k: "k < kSlots" "\<not> blocked ?r k" using victimD [OF assms(3)] by simp_all
  have "slots_ok contents (claim i k ?r)" unfolding claim_def by (rule slots_ok_place [OF ok f(1)]) simp
  moreover have "owners_ok (c\<lparr>shared := claim i k ?r, caller := Reading i k\<rparr>)"
    by (rule owners_gained [OF ow, where a = None and k = k and i = i])
      (use assms(2) k ow in \<open>auto simp: owner_caller claim_def blocked_def same_place_def owners_ok_def\<close>)
  ultimately show ?thesis using f(2) by (simp add: threads_ok_def caller_ok_def claim_def untouched_def)
qed

lemma store_hunk_ok:
  assumes "slots_ok contents r" and "sl_state (slots r k) = SlotDecoding" and "sl_index (slots r k) = i"
    and "read = None \<or> read = Some (contents i)"
  shows "slots_ok contents (store_hunk k read r)"
  using assms by (cases read) (auto simp: store_hunk_def slots_ok_defs)

lemma store_hunk_simps [simp]:
  "request_count (store_hunk k read r) = request_count r"
  "j \<noteq> k \<Longrightarrow> slots (store_hunk k read r) j = slots r j"
  "sl_index (slots (store_hunk k read r) j) = sl_index (slots r j)"
  "sl_used (slots (store_hunk k read r) j) = sl_used (slots r j)"
  "sl_state (slots (store_hunk k read r) k) = (if read = None then SlotEmpty else SlotReady)"
  by (auto simp: store_hunk_def split: option.split)

lemma caller_read_ok:
  assumes "threads_ok contents c" and "caller c = Reading i k" and "read = None \<or> read = Some (contents i)"
    and "end_read hunkCount i k read (shared c) = (r', m)"
  shows "threads_ok contents (c\<lparr>shared := r', caller := m\<rparr>)"
proof -
  let ?r = "shared c"
  have ok: "slots_ok contents ?r" and ow: "owners_ok c" using assms(1) by (simp_all add: threads_ok_def)
  have o: "owner c None = Some (k, i)" using assms(2) by (simp add: owner_caller)
  then have k: "k < kSlots" "sl_state (slots ?r k) = SlotDecoding" "sl_index (slots ?r k) = i" using ow unfolding owners_ok_def by metis+
  define r1 where "r1 = store_hunk k read ?r"
  have ok1: "slots_ok contents r1" unfolding r1_def by (rule store_hunk_ok [OF ok k(2,3) assms(3)])
  have ow1: "owners_ok (c\<lparr>shared := r1, caller := m'\<rparr>)" if "\<And>i k. m' \<noteq> Reading i k" for m'
    by (rule owners_dropped [OF ow, where a = None and k = k and i = i])
      (use o not_decoding [OF that] ow in \<open>auto simp: r1_def same_place_def owners_ok_def\<close>)
  show ?thesis
  proof (cases read)
    case None
    then have e: "r' = r1" "m = ReadFailure i" using assms(4) by (simp_all add: end_read_def r1_def Let_def)
    have "owners_ok (c\<lparr>shared := r1, caller := m\<rparr>)" by (rule ow1) (simp add: e)
    then show ?thesis using ok1 by (simp add: e threads_ok_def caller_ok_def)
  next
    case (Some d)
    then have e: "r' = hand_out hunkCount i k r1" "m = Returned i k False" using assms(4) by (simp_all add: end_read_def r1_def Let_def)
    show ?thesis unfolding e by (rule hand_out_ok) (use ok1 k Some ow1 in \<open>auto simp: r1_def\<close>)
  qed
qed

lemma take_ok:
  assumes "threads_ok contents c" and "w < kWorkers" and "workers c w = None" and "pick (shared c) = Some k"
  shows "threads_ok contents (c\<lparr>shared := set_slot k (\<lambda>s. s\<lparr>sl_state := SlotDecoding\<rparr>) (shared c),
    workers := (workers c)(w \<mapsto> (k, sl_index (slots (shared c) k)))\<rparr>)" (is "threads_ok contents ?c")
proof -
  let ?r = "shared c"
  have ok: "slots_ok contents ?r" and ow: "owners_ok c" and ck: "caller_ok c" using assms(1) by (simp_all add: threads_ok_def)
  have k: "k < kSlots" "sl_state (slots ?r k) = SlotQueued" using pickD [OF assms(4)] by simp_all
  have "slots_ok contents (shared ?c)" using ok k by (auto simp: slots_ok_defs)
  moreover have "owners_ok ?c"
    by (rule owners_gained [OF ow, where a = "Some w" and k = k and i = "sl_index (slots ?r k)"])
      (use assms(2,3) k ow in \<open>auto simp: owner_def same_place_def owners_ok_def\<close>)
  moreover have "caller_ok ?c"
    using ck k by (cases "caller c") (auto simp: caller_ok_def find_slot_none untouched_def)
  ultimately show ?thesis by (simp add: threads_ok_def)
qed

lemma worker_read_ok:
  assumes "threads_ok contents c" and "w < kWorkers" and "workers c w = Some (k, i)" and "read = None \<or> read = Some (contents i)"
  shows "threads_ok contents (c\<lparr>shared := store_hunk k read (shared c), workers := (workers c)(w := None)\<rparr>)" (is "threads_ok contents ?c")
proof -
  let ?r = "shared c"
  have ok: "slots_ok contents ?r" and ow: "owners_ok c" and ck: "caller_ok c" using assms(1) by (simp_all add: threads_ok_def)
  have o: "owner c (Some w) = Some (k, i)" using assms(3) by (simp add: owner_def)
  then have k: "k < kSlots" "sl_state (slots ?r k) = SlotDecoding" "sl_index (slots ?r k) = i" using ow unfolding owners_ok_def by metis+
  have "slots_ok contents (shared ?c)" using store_hunk_ok [OF ok k(2,3) assms(4)] by simp
  moreover have "owners_ok ?c"
    by (rule owners_dropped [OF ow, where a = "Some w" and k = k and i = i])
      (use o ow in \<open>auto simp: same_place_def owners_ok_def\<close>)
  moreover have "caller_ok ?c"
  proof (cases "caller c")
    case (Returned j l res)
    then have "l \<noteq> k" using ck k by (auto simp: caller_ok_def)
    then show ?thesis using ck Returned by (simp add: caller_ok_def)
  next
    case (NeedsSlot j)
    have "find_slot j (store_hunk k read ?r) = None"
      using ck NeedsSlot k by (auto simp: caller_ok_def find_slot_none) (metis SlotState.distinct(3) store_hunk_simps(2))
    then show ?thesis using ck NeedsSlot by (simp add: caller_ok_def untouched_def)
  next
    case (Awaiting j l)
    have a: "l < kSlots" "sl_index (slots ?r l) = j" "sl_state (slots ?r l) \<noteq> SlotQueued" "untouched ?r"
      "\<And>h. h < kSlots \<Longrightarrow> h \<noteq> l \<Longrightarrow> sl_state (slots ?r h) = SlotEmpty \<or> sl_index (slots ?r h) \<noteq> j"
      using ck Awaiting by (auto simp: caller_ok_def)
    have "sl_state (slots (store_hunk k read ?r) l) \<noteq> SlotQueued" using a(3) by (cases "l = k") auto
    moreover have "sl_state (slots (store_hunk k read ?r) h) = SlotEmpty \<or> sl_index (slots ?r h) \<noteq> j" if "h < kSlots" "h \<noteq> l" for h
      using a(5) [OF that] k by (cases "h = k") auto
    ultimately show ?thesis using a Awaiting by (simp add: caller_ok_def untouched_def)
  qed (use ck in \<open>simp_all add: caller_ok_def\<close>)
  ultimately show ?thesis by (simp add: threads_ok_def)
qed

lemma step_ok:
  "hunk_step contents hunkCount c c' \<Longrightarrow> threads_ok contents c \<Longrightarrow> unat (request_count (shared c)) < 2 ^ 64 - 1 \<Longrightarrow>
     threads_ok contents c'"
proof (induction rule: hunk_step.induct)
  case (Enter c index r m)
  show ?case by (rule enter_ok [OF Enter(4) Enter(1) Enter(5) Enter(3)])
next
  case (Woken c index k r m)
  show ?case by (rule woken_ok [OF Woken(4) Woken(1-3)])
next
  case (Claim c index k)
  show ?case by (rule claim_ok [OF Claim(3) Claim(1,2)])
next
  case (CallerRead c index k read r m)
  show ?case by (rule caller_read_ok [OF CallerRead(4) CallerRead(1-3)])
next
  case (Take w c k)
  show ?case by (rule take_ok [OF Take(4) Take(1-3)])
next
  case (WorkerRead w c k index read)
  show ?case by (rule worker_read_ok [OF WorkerRead(4) WorkerRead(1-3)])
qed

lemma reachable_ok: "hunk_reachable contents hunkCount c \<Longrightarrow> threads_ok contents c"
proof (induction rule: hunk_reachable.induct)
  case (Start r)
  have "\<And>a. owner \<lparr>shared = r, caller = NoCall, workers = (\<lambda>_. None)\<rparr> a = None" by (auto simp: owner_def split: option.split)
  then show ?case using Start by (auto simp: threads_ok_def owners_ok_def caller_ok_def start_def slots_ok_defs)
next
  case (Step c c')
  show ?case by (rule step_ok [OF Step(2) Step(4) Step(3)])
qed

section \<open>Room for every request\<close>

lemma few_decoding:
  assumes "owners_ok c" and "owner c None = None"
  shows "card {k. k < kSlots \<and> sl_state (slots (shared c) k) = SlotDecoding} \<le> kWorkers"
proof -
  let ?D = "{k. k < kSlots \<and> sl_state (slots (shared c) k) = SlotDecoding}"
  have ex: "\<exists>w<kWorkers. \<exists>i. workers c w = Some (k, i)" if k: "k \<in> ?D" for k
  proof -
    obtain a i where a: "owner c a = Some (k, i)" using assms(1) k unfolding owners_ok_def by blast
    then obtain w where w: "a = Some w" using assms(2) by (cases a) auto
    then have "workers c w = Some (k, i)" using a by (simp add: owner_def)
    moreover from this have "w < kWorkers" using assms(1) unfolding owners_ok_def by (metis not_le option.distinct(1))
    ultimately show ?thesis by blast
  qed
  define f where "f w = (case workers c w of Some (k, i) \<Rightarrow> k | None \<Rightarrow> 0)" for w
  have "?D \<subseteq> f ` {..<kWorkers}"
  proof
    fix k assume "k \<in> ?D"
    then obtain w i where "w < kWorkers" "workers c w = Some (k, i)" using ex by blast
    then show "k \<in> f ` {..<kWorkers}" by (intro image_eqI [of _ _ w]) (simp_all add: f_def)
  qed
  then have "card ?D \<le> card (f ` {..<kWorkers})" by (rule card_mono [rotated]) simp
  also have "\<dots> \<le> kWorkers" using card_image_le [of "{..<kWorkers}" f] by simp
  finally show ?thesis .
qed

lemma victim_exists:
  assumes "owners_ok c" and "owner c None = None" and "untouched (shared c)"
  shows "victim (shared c) \<noteq> None"
proof (rule free_slot)
  have "blocked_slots (shared c) = {k. k < kSlots \<and> sl_state (slots (shared c) k) = SlotDecoding}"
    using assms(3) by (auto simp: blocked_slots_def blocked_def untouched_def)
  then show "card (blocked_slots (shared c)) < kSlots" using few_decoding [OF assms(1,2)] by (simp add: kWorkers_def kSlots_def)
qed

lemma hunks_ahead_length: "length (hunks_ahead hunkCount i) \<le> 12"
  using length_takeWhile_le [of "\<lambda>n. n \<le> i + kAhead \<and> n < hunkCount" "map (\<lambda>j. i + 1 + of_nat j) [0..<unat kAhead]"]
  by (simp add: hunks_ahead_def kAhead_def)

lemma hand_out_holds:
  assumes "slots_ok contents r" and "owners_ok (c\<lparr>shared := r, caller := NoCall\<rparr>)"
    and "\<forall>j<kSlots. j \<noteq> k \<longrightarrow> sl_used (slots r j) < request_count r" and "n \<in> set (hunks_ahead hunkCount i)"
  shows "find_slot n (hand_out hunkCount i k r) \<noteq> None"
  unfolding hand_out_def queueAhead_def
proof (rule queue_loop_holds [OF slots_ok_touch [OF assms(1)] _ assms(4)])
  let ?r = "set_slot k (\<lambda>s. s\<lparr>sl_used := request_count r\<rparr>) r" and ?D = "{j. j < kSlots \<and> sl_state (slots r j) = SlotDecoding}"
  have "blocked_slots ?r \<subseteq> insert k ?D"
    using assms(3) by (auto simp: blocked_slots_def blocked_def)
  then have "card (blocked_slots ?r) \<le> card (insert k ?D)" by (rule card_mono [rotated]) simp
  also have "\<dots> \<le> Suc (card ?D)" by (simp add: card_insert_if)
  also have "card ?D \<le> kWorkers" using few_decoding [OF assms(2)] by simp
  finally show "card (blocked_slots ?r) + length (hunks_ahead hunkCount i) < kSlots"
    using hunks_ahead_length [of hunkCount i] by (simp add: kWorkers_def kSlots_def)
qed

text \<open>A request for a hunk that is resident queues ahead as well.\<close>

lemma resident_holds:
  assumes "threads_ok contents c" and "outside_call (caller c)" and "unat (request_count (shared c)) < 2 ^ 64 - 1"
    and "enter_hunk hunkCount j (shared c) = (r', Returned i k resident)" and "n \<in> set (hunks_ahead hunkCount i)"
  shows "find_slot n r' \<noteq> None"
proof -
  define r where "r = (shared c)\<lparr>request_count := request_count (shared c) + 1\<rparr>"
  have more: "x \<le> request_count (shared c) \<Longrightarrow> x < request_count r" for x
    using assms(3) by (simp add: r_def word_less_nat_alt word_le_nat_alt unat_word_ariths)
  have ok: "slots_ok contents (shared c)" and ow: "owners_ok c" using assms(1) by (simp_all add: threads_ok_def)
  have sr: "slots r = slots (shared c)" by (simp add: r_def)
  have u: "untouched r" using ok more by (auto simp: untouched_def slots_ok_defs sr)
  have okr: "slots_ok contents r" using ok u by (auto simp: slots_ok_defs sr untouched_def intro: less_imp_le)
  have none: "owner c None = None" using assms(2) by (simp add: owner_caller outside_not_decoding)
  have owr: "owners_ok (c\<lparr>shared := r, caller := NoCall\<rparr>)"
    by (rule owners_kept [OF ow]) (use none in \<open>auto simp: owner_caller sr same_place_def fun_upd_idem\<close>)
  have "r' = hand_out hunkCount i k r"
    using assms(4) by (auto simp: enter_hunk_def r_def Let_def split: option.splits SlotState.splits)
  then show ?thesis using hand_out_holds [OF okr owr _ assms(5)] u by (simp add: untouched_def)
qed

lemma unat_shifted:
  fixes i :: u32
  assumes "e \<le> 12"
  shows "unat (i + of_nat e) = (if unat i + e < 2 ^ 32 then unat i + e else unat i + e - 2 ^ 32)"
proof -
  have "unat (of_nat e :: u32) = e" using assms by (simp add: unat_of_nat)
  then have m: "unat (i + of_nat e) = (unat i + e) mod 2 ^ 32" by (simp add: unat_word_ariths)
  have l: "unat i + e < 2 ^ 32 + 2 ^ 32" using assms unsigned_less [of i, where ?'a = nat] by simp
  show ?thesis
  proof (cases "unat i + e < 2 ^ 32")
    case True
    then show ?thesis unfolding m by simp
  next
    case False
    then have "(unat i + e) mod 2 ^ 32 = (unat i + e - 2 ^ 32) mod 2 ^ 32" by (intro le_mod_geq) simp
    also have "\<dots> = unat i + e - 2 ^ 32" using False l by (intro mod_less) linarith
    finally show ?thesis unfolding m using False by simp
  qed
qed

lemma ahead_index:
  fixes i n :: u32
  assumes "i < n" and "n \<le> i + 12"
  shows "\<exists>d<12. n = i + 1 + of_nat d \<and> (\<forall>e\<le>d. i + 1 + of_nat e \<le> n)"
proof -
  define d where "d = unat n - unat i - 1"
  have i: "unat i < unat n" "unat n \<le> unat (i + 12)" using assms(1,2) by (simp_all only: word_less_nat_alt word_le_nat_alt)
  have room: "unat i + 12 < 2 ^ 32" "unat (i + 12) = unat i + 12"
    using unat_shifted [of 12 i] i by (simp_all split: if_splits)
  have d: "d < 12" "unat n = unat i + (1 + d)" using i room by (simp_all add: d_def)
  have at: "unat (i + 1 + of_nat e) = unat i + (1 + e)" if "e < 12" for e
    using that room unat_shifted [of "Suc e" i] by (simp add: ac_simps)
  have n: "n = i + 1 + of_nat d" using at [OF d(1)] d(2) by (simp only: word_unat_eq_iff)
  have "i + 1 + of_nat e \<le> n" if "e \<le> d" for e
    using at [of e] that d by (simp only: word_le_nat_alt)
  then show ?thesis using d(1) n by blast
qed

lemma takeWhile_reaches: "(\<And>e. e \<le> d \<Longrightarrow> P (f e)) \<Longrightarrow> d < k \<Longrightarrow> f d \<in> set (takeWhile P (map f [0..<k]))"
proof -
  assume P: "\<And>e. e \<le> d \<Longrightarrow> P (f e)" and d: "d < k"
  have "[0..<Suc d + (k - Suc d)] = [0..<Suc d] @ [Suc d..<Suc d + (k - Suc d)]" by (rule upt_add_eq_append) simp
  then have "map f [0..<k] = map f [0..<Suc d] @ map f [Suc d..<k]" using d by (simp del: upt_Suc flip: map_append)
  then have "takeWhile P (map f [0..<k]) = map f [0..<Suc d] @ takeWhile P (map f [Suc d..<k])"
    using P by (simp only:) (rule takeWhile_append2, auto simp: less_Suc_eq_le simp del: upt_Suc)
  then show ?thesis by simp
qed

text \<open>The hunks ahead are the twelve after the one asked for, as far as the image goes.\<close>

lemma hunks_ahead_iff:
  fixes i n hunkCount :: u32
  assumes "i < n" and "n \<le> i + kAhead" and "n < hunkCount"
  shows "n \<in> set (hunks_ahead hunkCount i)"
proof -
  obtain d where d: "d < 12" "n = i + 1 + of_nat d" "\<forall>e\<le>d. i + 1 + of_nat e \<le> n"
    using ahead_index [of i n] assms(1,2) by (auto simp: kAhead_def)
  have "unat kAhead = 12" by (simp add: kAhead_def)
  moreover have "i + 1 + of_nat e \<le> i + kAhead \<and> i + 1 + of_nat e < hunkCount" if "e \<le> d" for e
    using d(3) that assms(2,3) by (meson order_trans order_le_less_trans)
  ultimately show ?thesis unfolding d(2) hunks_ahead_def using d(1)
    by (simp only:) (rule takeWhile_reaches, simp_all)
qed

section \<open>Properties\<close>

text \<open>
  C6: In every interleaving of the caller and the four workers, an answer the caller holds is the decoded hunk it asked
  for, and stays so until its next request; no hunk is held by two slots; and every slot being decoded is decoded by
  exactly one thread, for the hunk it is marked with.
\<close>

theorem hunk_answer_exact:
  assumes "hunk_reachable contents hunkCount c"
  shows "(\<forall>i k resident. caller c = Returned i k resident \<longrightarrow>
      k < kSlots \<and> sl_state (slots (shared c) k) = SlotReady \<and> sl_data (slots (shared c) k) = contents i) \<and>
    (\<forall>j<kSlots. \<forall>k<kSlots. sl_state (slots (shared c) j) \<noteq> SlotEmpty \<longrightarrow> sl_state (slots (shared c) k) \<noteq> SlotEmpty \<longrightarrow>
      sl_index (slots (shared c) j) = sl_index (slots (shared c) k) \<longrightarrow> j = k) \<and>
    (\<forall>k<kSlots. sl_state (slots (shared c) k) = SlotDecoding \<longrightarrow>
      (\<exists>!a. owner c a = Some (k, sl_index (slots (shared c) k))))"
proof -
  have ok: "threads_ok contents c" by (rule reachable_ok [OF assms])
  then have s: "slots_ok contents (shared c)" and o: "owners_ok c" and ck: "caller_ok c" by (simp_all add: threads_ok_def)
  have "\<exists>!a. owner c a = Some (k, sl_index (slots (shared c) k))"
    if "k < kSlots" "sl_state (slots (shared c) k) = SlotDecoding" for k
    using o that unfolding owners_ok_def by metis
  then show ?thesis using s ck by (auto simp: slots_ok_defs caller_ok_def)
qed

definition fresh_slots :: hunk_slots where
  "fresh_slots = \<lparr>slots = (\<lambda>_. \<lparr>sl_index = 0, sl_used = 0, sl_state = SlotEmpty, sl_data = []\<rparr>), request_count = 0\<rparr>"

definition asked :: "u32 \<Rightarrow> reader_threads" where
  "asked i = \<lparr>shared = fresh_slots\<lparr>request_count := 1\<rparr>, caller = NeedsSlot i, workers = (\<lambda>_. None)\<rparr>"

lemma asked_reachable: "i < hunkCount \<Longrightarrow> hunk_reachable contents hunkCount (asked i)"
proof -
  assume i: "i < hunkCount"
  let ?c = "\<lparr>shared = fresh_slots, caller = NoCall, workers = (\<lambda>_. None)\<rparr>"
  have r: "hunk_reachable contents hunkCount ?c" by (rule hunk_reachable.Start) (simp add: start_def fresh_slots_def)
  have "find_slot i (fresh_slots\<lparr>request_count := 1\<rparr>) = None" by (simp add: find_slot_none fresh_slots_def)
  then have "enter_hunk hunkCount i (shared ?c) = (fresh_slots\<lparr>request_count := 1\<rparr>, NeedsSlot i)"
    by (simp add: enter_hunk_def Let_def) (simp add: fresh_slots_def)
  then have "hunk_step contents hunkCount ?c (?c\<lparr>shared := fresh_slots\<lparr>request_count := 1\<rparr>, caller := NeedsSlot i\<rparr>)"
    by (intro hunk_step.Enter) (use i in \<open>simp_all add: outside_call_def\<close>)
  then show ?thesis using hunk_reachable.Step [OF r] by (simp add: asked_def) (simp add: fresh_slots_def)
qed

lemma asked_victim: "victim (shared (asked i)) = Some 0"
  by (simp add: victim_def victim_step_def blocked_def asked_def fresh_slots_def kSlots_def upt_rec)

definition answered :: "u32 \<Rightarrow> reader_threads" where
  "answered i = (asked i)\<lparr>shared := hand_out 6 i 0 (store_hunk 0 (Some [1, 2]) (claim i 0 (shared (asked i)))),
     caller := Returned i 0 False\<rparr>"

lemma answered_reachable: "i < 6 \<Longrightarrow> hunk_reachable (\<lambda>_. [1, 2]) 6 (answered i)"
proof -
  assume i: "i < 6"
  let ?c = "(asked i)\<lparr>shared := claim i 0 (shared (asked i)), caller := Reading i 0\<rparr>"
  have "hunk_step (\<lambda>_. [1, 2]) 6 (asked i) ?c" by (rule hunk_step.Claim) (simp_all add: asked_victim, simp add: asked_def)
  then have r: "hunk_reachable (\<lambda>_. [1, 2]) 6 ?c"
    by (rule hunk_reachable.Step [OF asked_reachable [OF i]]) (simp add: asked_def)
  have "hunk_step (\<lambda>_. [1, 2]) 6 ?c (?c\<lparr>shared := hand_out 6 i 0 (store_hunk 0 (Some [1, 2]) (shared ?c)), caller := Returned i 0 False\<rparr>)"
    by (rule hunk_step.CallerRead [where read = "Some [1, 2]" and index = i and k = 0]) (simp_all add: end_read_def Let_def)
  from hunk_reachable.Step [OF r this] show ?thesis by (simp add: answered_def claim_def asked_def)
qed

theorem hunk_answer_exact_witness:
  "sl_data (slots (shared (answered 5)) 0) = [1, 2]"
proof -
  have "caller (answered 5) = Returned 5 0 False" by (simp add: answered_def)
  moreover have "hunk_reachable (\<lambda>_. [1, 2]) 6 (answered 5)" by (rule answered_reachable) simp
  ultimately show ?thesis using hunk_answer_exact by blast
qed

text \<open>The step that answers a request: the caller's own, or the one that starts and ends it at once.\<close>

definition answers :: "reader_threads \<Rightarrow> reader_threads \<Rightarrow> bool" where
  "answers c c' \<longleftrightarrow> \<not> outside_call (caller c) \<or> request_count (shared c') \<noteq> request_count (shared c)"

lemma request_steps:
  assumes o: "owners_ok c" and ck: "caller_ok c" and run: "\<not> outside_call (caller c)"
  shows "\<exists>c'. hunk_step contents hunkCount c c'"
proof (cases "caller c")
  case (Awaiting i k)
  show ?thesis
  proof (cases "sl_state (slots (shared c) k) = SlotDecoding")
    case True
    then obtain a j where a: "owner c a = Some (k, j)" using o ck Awaiting unfolding owners_ok_def caller_ok_def by fastforce
    then obtain w where w: "a = Some w" using Awaiting by (cases a) (auto simp: owner_caller)
    then have ws: "workers c w = Some (k, j)" using a by (simp add: owner_def)
    then have "w < kWorkers" using o unfolding owners_ok_def by (metis not_le option.distinct(1))
    then show ?thesis using hunk_step.WorkerRead [OF _ ws, of None] by blast
  next
    case False
    then show ?thesis using hunk_step.Woken [OF Awaiting False] by (metis surj_pair)
  qed
next
  case (NeedsSlot i)
  have "victim (shared c) \<noteq> None"
    by (rule victim_exists [OF o]) (use NeedsSlot ck in \<open>auto simp: owner_caller caller_ok_def\<close>)
  then show ?thesis using hunk_step.Claim [OF NeedsSlot] by blast
next
  case (Reading i k)
  then show ?thesis using hunk_step.CallerRead [OF Reading, of None] by (metis surj_pair)
qed (use run in \<open>auto simp: outside_call_def\<close>)

lemma answer_holds:
  assumes ok: "threads_ok contents c" and st: "hunk_step contents hunkCount c c'" and r: "caller c' = Returned i k resident"
    and a: "answers c c'" and room: "unat (request_count (shared c)) < 2 ^ 64 - 1"
    and ahead: "i < n" "n \<le> i + kAhead" "n < hunkCount"
  shows "find_slot n (shared c') \<noteq> None"
proof -
  have s: "slots_ok contents (shared c)" and o: "owners_ok c" and ck: "caller_ok c" using ok by (simp_all add: threads_ok_def)
  have n: "n \<in> set (hunks_ahead hunkCount i)" by (rule hunks_ahead_iff [OF ahead])
  show ?thesis using st
  proof cases
    case (Enter index r' m)
    then show ?thesis using resident_holds [OF ok Enter(2) room _ n] r by simp
  next
    case (Woken index l r' m)
    then have ready: "sl_state (slots (shared c) l) = SlotReady" and e: "r' = hand_out hunkCount i l (shared c)" "m = Returned i l False"
      using r by (auto simp: after_wait_def split: if_splits)
    have ow: "owners_ok (c\<lparr>shared := shared c, caller := NoCall\<rparr>)"
      by (rule owners_kept [OF o]) (use Woken in \<open>auto simp: owner_caller same_place_def fun_upd_idem\<close>)
    have "untouched (shared c)" using ck Woken by (simp add: caller_ok_def)
    then have "find_slot n (hand_out hunkCount i l (shared c)) \<noteq> None"
      by (intro hand_out_holds [OF s ow _ n]) (simp add: untouched_def)
    then show ?thesis using Woken(1) e by simp
  next
    case (Claim index l)
    then show ?thesis using r by simp
  next
    case (CallerRead index l read r' m)
    have oo: "owner c None = Some (l, index)" using CallerRead by (simp add: owner_caller)
    then have l: "sl_state (slots (shared c) l) = SlotDecoding" "sl_index (slots (shared c) l) = index" using o unfolding owners_ok_def by metis+
    define r1 where "r1 = store_hunk l read (shared c)"
    have e: "r' = hand_out hunkCount i l r1" using r CallerRead by (auto simp: end_read_def r1_def Let_def split: option.splits)
    have ok1: "slots_ok contents r1" unfolding r1_def by (rule store_hunk_ok [OF s l CallerRead(3)])
    have "owners_ok (c\<lparr>shared := r1, caller := NoCall\<rparr>)"
      by (rule owners_dropped [OF o, where a = None and k = l and i = index])
        (use oo o in \<open>auto simp: r1_def same_place_def owners_ok_def\<close>)
    moreover have "\<forall>j<kSlots. j \<noteq> l \<longrightarrow> sl_used (slots r1 j) < request_count r1"
      using ck CallerRead(2) by (simp add: caller_ok_def r1_def)
    ultimately show ?thesis using hand_out_holds [OF ok1 _ _ n] CallerRead(1) e by simp
  next
    case (Take w l)
    then show ?thesis using r a by (auto simp: answers_def outside_call_def)
  next
    case (WorkerRead w l index read)
    then show ?thesis using r a by (auto simp: answers_def outside_call_def store_hunk_def)
  qed
qed

text \<open>
  C37: No request waits for a slot or for a thread that cannot move: while a request is running some thread has a step, and a
  request that needs a slot always finds one. When a request is answered, by a hunk that was resident, by one that was waited
  for or by one just read, each of the twelve hunks after it that the image has is held or queued. The request counter must
  not be about to wrap.
\<close>

theorem hunk_request_moves:
  assumes "hunk_reachable contents hunkCount c" and "unat (request_count (shared c)) < 2 ^ 64 - 1"
  shows "(\<not> outside_call (caller c) \<longrightarrow> (\<exists>c'. hunk_step contents hunkCount c c')) \<and>
    (\<forall>i. caller c = NeedsSlot i \<longrightarrow> victim (shared c) \<noteq> None) \<and>
    (\<forall>c' i k resident n. hunk_step contents hunkCount c c' \<longrightarrow> caller c' = Returned i k resident \<longrightarrow> answers c c' \<longrightarrow>
      i < n \<longrightarrow> n \<le> i + kAhead \<longrightarrow> n < hunkCount \<longrightarrow> find_slot n (shared c') \<noteq> None)"
proof -
  have ok: "threads_ok contents c" by (rule reachable_ok [OF assms(1)])
  then have o: "owners_ok c" and ck: "caller_ok c" by (simp_all add: threads_ok_def)
  have "victim (shared c) \<noteq> None" if "caller c = NeedsSlot i" for i
    by (rule victim_exists [OF o]) (use that ck in \<open>auto simp: owner_caller caller_ok_def\<close>)
  then show ?thesis using request_steps [OF o ck] answer_holds [OF ok _ _ _ assms(2)] by blast
qed


lemma answered_again:
  "enter_hunk 6 4 (shared (answered 4)) =
     (hand_out 6 4 0 ((shared (answered 4))\<lparr>request_count := request_count (shared (answered 4)) + 1\<rparr>), Returned 4 0 True)"
proof -
  let ?r = "(shared (answered 4))\<lparr>request_count := request_count (shared (answered 4)) + 1\<rparr>"
  have ok: "threads_ok (\<lambda>_. [1, 2]) (answered 4)" by (rule reachable_ok [OF answered_reachable]) simp
  moreover have "caller (answered 4) = Returned 4 0 False" by (simp add: answered_def)
  ultimately have s: "sl_state (slots (shared (answered 4)) 0) = SlotReady" "sl_index (slots (shared (answered 4)) 0) = 4"
    by (simp_all add: threads_ok_def caller_ok_def)
  have "find_slot 4 ?r = Some 0" using s by (simp add: find_slot_def kSlots_def upt_rec)
  then show ?thesis using s by (simp add: enter_hunk_def Let_def)
qed

text \<open>Asking again for a hunk that is resident leaves the next one held or queued.\<close>

theorem hunk_request_moves_witness:
  "(\<exists>c'. hunk_step (\<lambda>_. [1, 2]) 6 (asked 5) c') \<and>
   find_slot 5 (fst (enter_hunk 6 4 (shared (answered 4)))) \<noteq> None"
proof
  have "\<not> outside_call (caller (asked 5))" by (simp add: asked_def outside_call_def)
  then show "\<exists>c'. hunk_step (\<lambda>_. [1, 2]) 6 (asked 5) c'"
    using hunk_request_moves [OF asked_reachable [of 5 6 "\<lambda>_. [1, 2]"]] by (simp add: asked_def)
  let ?c = "answered 4"
  have rc: "request_count (shared ?c) = 1" 
  proof -
    have "slots_ok (\<lambda>_. [1, 2]) (store_hunk 0 (Some [1, 2]) (claim 4 0 (shared (asked 4))))"
      by (simp add: slots_ok_defs store_hunk_def claim_def asked_def fresh_slots_def)
    then show ?thesis
      by (simp add: answered_def hand_out_keeps(2) kSlots_def store_hunk_def claim_def) (simp add: asked_def)
  qed
  define r where "r = fst (enter_hunk 6 4 (shared ?c))"
  have e: "enter_hunk 6 4 (shared ?c) = (r, Returned 4 0 True)" by (simp add: r_def answered_again)
  have o: "outside_call (caller ?c)" by (simp add: answered_def outside_call_def)
  have st: "hunk_step (\<lambda>_. [1, 2]) 6 ?c (?c\<lparr>shared := r, caller := Returned 4 0 True\<rparr>)"
    by (rule hunk_step.Enter [OF o _ e]) simp
  have ok: "threads_ok (\<lambda>_. [1, 2]) (?c\<lparr>shared := r, caller := Returned 4 0 True\<rparr>)"
    by (rule enter_ok [OF reachable_ok [OF answered_reachable [of 4]] o _ e]) (simp_all add: rc)
  have k: "slots_ok (\<lambda>_. [1, 2]) (shared ?c)" "caller_ok ?c"
    using reachable_ok [OF answered_reachable [of 4]] by (simp_all add: threads_ok_def)
  then have "slots_ok (\<lambda>_. [1, 2]) ((shared ?c)\<lparr>request_count := 2\<rparr>)"
    using rc by (auto simp: slots_ok_defs intro: order_trans)
  moreover have "sl_state (slots (shared ?c) 0) = SlotReady" using k(2) by (simp add: caller_ok_def answered_def)
  ultimately have "request_count r = 2" by (simp add: r_def answered_again rc hand_out_keeps(2) kSlots_def)
  then have "answers ?c (?c\<lparr>shared := r, caller := Returned 4 0 True\<rparr>)" by (simp add: answers_def rc)
  then show "find_slot 5 (fst (enter_hunk 6 4 (shared ?c))) \<noteq> None"
    using hunk_request_moves [OF answered_reachable [of 4], THEN conjunct2, THEN conjunct2, rule_format, OF _ _ st, of 4 0 True 5]
    by (simp add: rc r_def [symmetric] kAhead_def)
qed

end
