(* ===== verification/Gp0_Command.thy ===== *)
theory Gp0_Command
  imports Prelude
begin

text \<open>
  GP0 command words and VRAM halfwords decoded by named field: \<open>psx/present/gp0_command.h\<close>, \<open>vram_pixel.h\<close>,
  \<open>vram_rect.h\<close>. A \<open>Gp0Command\<close> is its word; what the C++ \<open>int\<close> fields hold is an \<open>int\<close>.
\<close>

section \<open>VRAM\<close>

definition kVramWidth :: int where "kVramWidth = 1024"
definition kVramHeight :: int where "kVramHeight = 512"

record VramPoint =
  vp_x :: int
  vp_y :: int

record VramRect =
  vr_x :: int
  vr_y :: int
  vr_width :: int
  vr_height :: int

record VramPixel =
  px_red :: int
  px_green :: int
  px_blue :: int
  px_mask :: bool

definition decodeVramPixel :: "u16 \<Rightarrow> VramPixel" where
  "decodeVramPixel halfWord = \<lparr>px_red = uint (halfWord AND 0x1F), px_green = uint (drop_bit 5 halfWord AND 0x1F),
     px_blue = uint (drop_bit 10 halfWord AND 0x1F), px_mask = halfWord AND 0x8000 \<noteq> 0\<rparr>"

definition scale5to8 :: "int \<Rightarrow> int" where
  "scale5to8 fiveBit = push_bit 3 fiveBit OR drop_bit 2 fiveBit"

definition toVram555 :: "int \<Rightarrow> int \<Rightarrow> int \<Rightarrow> u16" where
  "toVram555 red green blue =
     word_of_int ((drop_bit 3 red AND 0x1F) OR push_bit 5 (drop_bit 3 green AND 0x1F) OR
       push_bit 10 (drop_bit 3 blue AND 0x1F))"

datatype TexDepth = Indexed4 | Indexed8 | Direct15 | TexReserved

definition tex_depth :: "nat \<Rightarrow> TexDepth" where
  "tex_depth n = (if n = 0 then Indexed4 else if n = 1 then Indexed8 else if n = 2 then Direct15 else TexReserved)"

definition depth_code :: "TexDepth \<Rightarrow> nat" where
  "depth_code d = (case d of Indexed4 \<Rightarrow> 0 | Indexed8 \<Rightarrow> 1 | Direct15 \<Rightarrow> 2 | TexReserved \<Rightarrow> 3)"

record TexPage =
  tp_x :: int
  tp_y :: int
  tp_blend :: int
  tp_depth :: TexDepth

definition decodeTexPage :: "u16 \<Rightarrow> TexPage" where
  "decodeTexPage attribute = \<lparr>tp_x = uint (attribute AND 0xF) * 64, tp_y = uint (drop_bit 4 attribute AND 1) * 256,
     tp_blend = uint (drop_bit 5 attribute AND 3), tp_depth = tex_depth (unat (drop_bit 7 attribute AND 3))\<rparr>"

definition decodeClut :: "u16 \<Rightarrow> VramPoint" where
  "decodeClut clut = \<lparr>vp_x = uint (clut AND 0x3F) * 16, vp_y = uint (drop_bit 6 clut AND 0x1FF)\<rparr>"

definition clutEntryCount :: "TexDepth \<Rightarrow> nat" where
  "clutEntryCount depth = (if depth = Indexed8 then 256 else 16)"

text \<open>VRAM is its 1024 times 512 halfwords, row by row.\<close>

definition vramHalfWord :: "u16 list \<Rightarrow> VramPoint \<Rightarrow> u16" where
  "vramHalfWord vram p = (let column = nat (vp_x p AND (kVramWidth - 1)); row = nat (vp_y p AND (kVramHeight - 1))
     in vram ! (row * nat kVramWidth + column))"

definition fetchTexel :: "(VramPoint \<Rightarrow> u16) \<Rightarrow> TexPage \<Rightarrow> VramPoint \<Rightarrow> int \<Rightarrow> int \<Rightarrow> u16" where
  "fetchTexel halfWordAt page clut u v =
     (if tp_depth page = Direct15 \<or> tp_depth page = TexReserved
      then halfWordAt \<lparr>vp_x = tp_x page + u, vp_y = tp_y page + v\<rparr>
      else let shift = 2 - depth_code (tp_depth page);
               bits = drop_bit shift (16 :: nat);
               w = halfWordAt \<lparr>vp_x = tp_x page + drop_bit shift u, vp_y = tp_y page + v\<rparr>;
               index = uint (drop_bit (nat (u AND (2 ^ shift - 1)) * bits) w AND (2 ^ bits - 1))
           in halfWordAt \<lparr>vp_x = vp_x clut + index, vp_y = vp_y clut\<rparr>)"

definition sampleTexel :: "u16 list \<Rightarrow> TexPage \<Rightarrow> VramPoint \<Rightarrow> int \<Rightarrow> int \<Rightarrow> u16" where
  "sampleTexel vram = fetchTexel (vramHalfWord vram)"

section \<open>Opcodes\<close>

definition kFlagRawTexel :: u8 where "kFlagRawTexel = 0x01"
definition kFlagSemiTransparent :: u8 where "kFlagSemiTransparent = 0x02"
definition kFlagTextured :: u8 where "kFlagTextured = 0x04"
definition kFlagQuadOrPolyLine :: u8 where "kFlagQuadOrPolyLine = 0x08"
definition kFlagGouraud :: u8 where "kFlagGouraud = 0x10"

definition Op_Nop :: u8 where "Op_Nop = 0x00"
definition Op_ClearCache :: u8 where "Op_ClearCache = 0x01"
definition Op_FillRect :: u8 where "Op_FillRect = 0x02"
definition Op_Polygon :: u8 where "Op_Polygon = 0x20"
definition Op_Line :: u8 where "Op_Line = 0x40"
definition Op_SetDrawMode :: u8 where "Op_SetDrawMode = 0xE1"

definition opcodeByte :: "u32 \<Rightarrow> u8" where
  "opcodeByte w = ucast (drop_bit 24 w)"

definition isInRange :: "u8 \<Rightarrow> u8 \<Rightarrow> u32 \<Rightarrow> bool" where
  "isInRange low high w \<longleftrightarrow> low \<le> opcodeByte w \<and> opcodeByte w \<le> high"

definition isPolygon :: "u32 \<Rightarrow> bool" where "isPolygon = isInRange 0x20 0x3F"
definition isLineOrPolyLine :: "u32 \<Rightarrow> bool" where "isLineOrPolyLine = isInRange 0x40 0x5F"
definition isRectangleOrSprite :: "u32 \<Rightarrow> bool" where "isRectangleOrSprite = isInRange 0x60 0x7F"
definition isVramCopy :: "u32 \<Rightarrow> bool" where "isVramCopy = isInRange 0x80 0x9F"
definition isCpuToVramUpload :: "u32 \<Rightarrow> bool" where "isCpuToVramUpload = isInRange 0xA0 0xBF"
definition isVramToCpuRead :: "u32 \<Rightarrow> bool" where "isVramToCpuRead = isInRange 0xC0 0xDF"

definition isDrawable :: "u32 \<Rightarrow> bool" where
  "isDrawable w \<longleftrightarrow> isPolygon w \<or> isLineOrPolyLine w \<or> isRectangleOrSprite w"

definition isDrawEnvironmentCommand :: "u32 \<Rightarrow> bool" where
  "isDrawEnvironmentCommand w \<longleftrightarrow> 0xE1 \<le> opcodeByte w \<and> opcodeByte w \<le> 0xE6"

definition isDiscardedNoOp :: "u32 \<Rightarrow> bool" where
  "isDiscardedNoOp w \<longleftrightarrow> opcodeByte w = Op_Nop \<or> opcodeByte w = Op_ClearCache"

definition isVramTransfer :: "u32 \<Rightarrow> bool" where
  "isVramTransfer w \<longleftrightarrow> isVramCopy w \<or> isCpuToVramUpload w \<or> isVramToCpuRead w"

record Gp0PrimitiveFlags =
  rawTexel :: bool
  semiTransparent :: bool
  textured :: bool
  quadOrPolyLine :: bool
  gouraud :: bool

definition command_flags :: "u32 \<Rightarrow> Gp0PrimitiveFlags" where
  "command_flags w = (let op = opcodeByte w in
     \<lparr>rawTexel = op AND kFlagRawTexel \<noteq> 0, semiTransparent = op AND kFlagSemiTransparent \<noteq> 0,
      textured = op AND kFlagTextured \<noteq> 0, quadOrPolyLine = op AND kFlagQuadOrPolyLine \<noteq> 0,
      gouraud = op AND kFlagGouraud \<noteq> 0\<rparr>)"

definition isPolyLine :: "u32 \<Rightarrow> bool" where
  "isPolyLine w \<longleftrightarrow> isLineOrPolyLine w \<and> quadOrPolyLine (command_flags w)"

definition polygonVertexCount :: "u32 \<Rightarrow> nat" where
  "polygonVertexCount w = (if quadOrPolyLine (command_flags w) then 4 else 3)"

definition rectangleSizeCode :: "u32 \<Rightarrow> nat" where
  "rectangleSizeCode w = unat (drop_bit 3 (opcodeByte w) AND 3)"

definition rectangleFixedSize :: "u32 \<Rightarrow> int" where
  "rectangleFixedSize w =
     (let c = rectangleSizeCode w in if c = 1 then 1 else if c = 2 then 8 else if c = 3 then 16 else 0)"

section \<open>Payload words\<close>

record Gp0Colour =
  red :: u8
  green :: u8
  blue :: u8

definition word_colour :: "u32 \<Rightarrow> Gp0Colour" where
  "word_colour w = \<lparr>red = ucast (w AND 0xFF), green = ucast (drop_bit 8 w AND 0xFF), blue = ucast (drop_bit 16 w AND 0xFF)\<rparr>"

definition kVertexAxisMask :: u32 where "kVertexAxisMask = 0x7FF"
definition kVertexAxisSign :: u32 where "kVertexAxisSign = 0x400"
definition kVertexAxisRange :: u32 where "kVertexAxisRange = 0x800"

definition signedAxis :: "u32 \<Rightarrow> int" where
  "signedAxis halfWord = (let axis = halfWord AND kVertexAxisMask in
     sint (if axis AND kVertexAxisSign \<noteq> 0 then axis - kVertexAxisRange else axis))"

record Gp0VertexPos =
  pos_x :: int
  pos_y :: int

definition vertexPos :: "u32 \<Rightarrow> Gp0VertexPos" where
  "vertexPos w = \<lparr>pos_x = signedAxis (w AND 0xFFFF), pos_y = signedAxis (drop_bit 16 w AND 0xFFFF)\<rparr>"

record Gp0TextureCoord =
  tc_u :: int
  tc_v :: int
  tc_selector :: u16

definition textureCoord :: "u32 \<Rightarrow> Gp0TextureCoord" where
  "textureCoord w = \<lparr>tc_u = uint (w AND 0xFF), tc_v = uint (drop_bit 8 w AND 0xFF), tc_selector = ucast (drop_bit 16 w AND 0xFFFF)\<rparr>"

definition lowHalfWord :: "u32 \<Rightarrow> u16" where
  "lowHalfWord w = ucast (w AND 0xFFFF)"

definition kSpriteWidthMask :: u32 where "kSpriteWidthMask = 0x3FF"
definition kFillRectHeightMask :: u32 where "kFillRectHeightMask = 0x1FF"
definition kRectCornerAxisShift :: nat where "kRectCornerAxisShift = 16"
definition kDrawAreaAxisShift :: nat where "kDrawAreaAxisShift = 10"
definition kDrawOffsetAxisShift :: nat where "kDrawOffsetAxisShift = 11"
definition kFillRectOriginMask :: u32 where "kFillRectOriginMask = 0x3F0"
definition kFillRectAlign :: int where "kFillRectAlign = 0xF"

definition drawAreaCorner :: "u32 \<Rightarrow> VramPoint" where
  "drawAreaCorner w = \<lparr>vp_x = uint (w AND kSpriteWidthMask), vp_y = uint (drop_bit kDrawAreaAxisShift w AND kFillRectHeightMask)\<rparr>"

definition rectCorner :: "u32 \<Rightarrow> VramPoint" where
  "rectCorner w = \<lparr>vp_x = uint (w AND kSpriteWidthMask), vp_y = uint (drop_bit kRectCornerAxisShift w AND kFillRectHeightMask)\<rparr>"

definition drawOffset :: "u32 \<Rightarrow> Gp0VertexPos" where
  "drawOffset w = \<lparr>pos_x = signedAxis (w AND kVertexAxisMask),
     pos_y = signedAxis (drop_bit kDrawOffsetAxisShift w AND kVertexAxisMask)\<rparr>"

text \<open>Set-mask and check-mask.\<close>

definition maskBits :: "u32 \<Rightarrow> bool \<times> bool" where
  "maskBits w = (w AND 1 \<noteq> 0, w AND 2 \<noteq> 0)"

record Gp0TextureWindow =
  tw_maskX :: int
  tw_maskY :: int
  tw_offsetX :: int
  tw_offsetY :: int

definition textureWindow :: "u32 \<Rightarrow> Gp0TextureWindow" where
  "textureWindow w = (let payload = w AND 0xFFFF in
     \<lparr>tw_maskX = uint (payload AND 0x1F), tw_maskY = uint (drop_bit 5 payload AND 0x1F),
      tw_offsetX = uint (drop_bit 10 payload AND 0x1F), tw_offsetY = uint (drop_bit 15 payload AND 0x1F)\<rparr>)"

section \<open>Packets\<close>

definition packetWordCount :: "u32 \<Rightarrow> nat" where
  "packetWordCount w =
     (let f = command_flags w in
      if isPolygon w then
        (let n = polygonVertexCount w
         in 1 + n * (if textured f then 2 else 1) + (if gouraud f then n - 1 else 0))
      else if isRectangleOrSprite w then
        2 + (if textured f then 1 else 0) + (if rectangleSizeCode w = 0 then 1 else 0)
      else if isLineOrPolyLine w then (if gouraud f then 4 else 3)
      else if isVramCopy w then 4
      else if isCpuToVramUpload w \<or> isVramToCpuRead w then 3
      else if opcodeByte w = Op_FillRect then 3
      else 1)"

definition fillRectRegion :: "u32 \<Rightarrow> u32 \<Rightarrow> VramRect" where
  "fillRectRegion topLeft sizeWord =
     \<lparr>vr_x = uint (topLeft AND kFillRectOriginMask),
      vr_y = uint (drop_bit kRectCornerAxisShift topLeft AND kFillRectHeightMask),
      vr_width = (uint (sizeWord AND kSpriteWidthMask) + kFillRectAlign) AND NOT kFillRectAlign,
      vr_height = uint (drop_bit kRectCornerAxisShift sizeWord AND kFillRectHeightMask)\<rparr>"

definition spriteRegion :: "u32 \<Rightarrow> u32 \<Rightarrow> int \<Rightarrow> VramRect" where
  "spriteRegion topLeft sizeWord fixedSize =
     (let p = vertexPos topLeft in
      \<lparr>vr_x = pos_x p, vr_y = pos_y p,
       vr_width = (if fixedSize \<noteq> 0 then fixedSize else uint (sizeWord AND kSpriteWidthMask)),
       vr_height = (if fixedSize \<noteq> 0 then fixedSize
                    else uint (drop_bit kRectCornerAxisShift sizeWord AND kFillRectHeightMask))\<rparr>)"

definition transferRegion :: "u32 \<Rightarrow> u32 \<Rightarrow> VramRect" where
  "transferRegion topLeft sizeWord =
     (let corner = rectCorner topLeft;
          w = uint (sizeWord AND kSpriteWidthMask);
          h = uint (drop_bit kRectCornerAxisShift sizeWord AND kFillRectHeightMask)
      in \<lparr>vr_x = vp_x corner, vr_y = vp_y corner, vr_width = (if w = 0 then kVramWidth else w),
          vr_height = (if h = 0 then kVramHeight else h)\<rparr>)"

definition isPolyLineTerminator :: "u32 \<Rightarrow> bool" where
  "isPolyLineTerminator w \<longleftrightarrow> w AND 0xF000F000 = 0x50005000"

definition isPolyLineTerminatorSlot :: "nat \<Rightarrow> bool \<Rightarrow> bool" where
  "isPolyLineTerminatorSlot wordIndex is_gouraud \<longleftrightarrow>
     (if is_gouraud then wordIndex \<ge> 4 \<and> even wordIndex else wordIndex \<ge> 3)"

definition opcodeWord :: "u8 \<Rightarrow> u32" where
  "opcodeWord op = push_bit 24 (ucast op)"

record Gp0PolygonShape =
  sh_quad :: bool
  sh_gouraud :: bool
  sh_textured :: bool
  sh_semiTransparent :: bool

definition polygonOpcode :: "Gp0PolygonShape \<Rightarrow> u8" where
  "polygonOpcode s =
     Op_Polygon OR (if sh_gouraud s then kFlagGouraud else 0) OR (if sh_quad s then kFlagQuadOrPolyLine else 0) OR
     (if sh_textured s then kFlagTextured else 0) OR (if sh_semiTransparent s then kFlagSemiTransparent else 0)"

definition packetTag :: "u8 \<Rightarrow> u32" where
  "packetTag op = push_bit 24 (of_nat (packetWordCount (opcodeWord op)))"

definition packetBytes :: "u8 \<Rightarrow> u32" where
  "packetBytes op = (of_nat (packetWordCount (opcodeWord op)) + 1) * 4"

definition kLineF2 :: u8 where "kLineF2 = Op_Line"
definition kLineG2 :: u8 where "kLineG2 = kLineF2 OR kFlagGouraud"

lemmas opcode_class_defs = isPolygon_def isLineOrPolyLine_def isRectangleOrSprite_def isVramCopy_def
  isCpuToVramUpload_def isVramToCpuRead_def isInRange_def

section \<open>What the decoding gives\<close>

lemma opcodeByte_opcodeWord [simp]: "opcodeByte (opcodeWord op) = op"
  by (rule bit_word_eqI) (auto simp: opcodeByte_def opcodeWord_def bit_simps)

text \<open>Only the opcode byte decides a command's class, flags and length.\<close>

lemma opcode_determines:
  assumes "opcodeByte a = opcodeByte b"
  shows "command_flags a = command_flags b" "isPolygon a = isPolygon b" "isLineOrPolyLine a = isLineOrPolyLine b"
    "isRectangleOrSprite a = isRectangleOrSprite b" "polygonVertexCount a = polygonVertexCount b"
    "packetWordCount a = packetWordCount b"
  unfolding packetWordCount_def polygonVertexCount_def rectangleSizeCode_def command_flags_def opcode_class_defs assms
  by (rule refl)+

text \<open>The classes of opcodes exclude each other.\<close>

lemma opcode_classes:
  "isPolygon w \<Longrightarrow> \<not> isLineOrPolyLine w \<and> \<not> isRectangleOrSprite w \<and> \<not> isVramTransfer w"
  "isLineOrPolyLine w \<Longrightarrow> \<not> isPolygon w \<and> \<not> isRectangleOrSprite w \<and> \<not> isVramTransfer w"
  "isRectangleOrSprite w \<Longrightarrow> \<not> isPolygon w \<and> \<not> isLineOrPolyLine w \<and> \<not> isVramTransfer w"
  by (auto simp: opcode_class_defs isVramTransfer_def word_le_nat_alt)

text \<open>A polygon opcode is read back as the shape it was built from.\<close>

lemma polygonOpcode_flags:
  "isPolygon (opcodeWord (polygonOpcode s)) \<and>
   command_flags (opcodeWord (polygonOpcode s)) =
     \<lparr>rawTexel = False, semiTransparent = sh_semiTransparent s, textured = sh_textured s,
      quadOrPolyLine = sh_quad s, gouraud = sh_gouraud s\<rparr>"
  by (cases "sh_gouraud s"; cases "sh_quad s"; cases "sh_textured s"; cases "sh_semiTransparent s")
    (simp_all add: command_flags_def polygonOpcode_def Op_Polygon_def kFlagGouraud_def kFlagQuadOrPolyLine_def
      kFlagTextured_def kFlagSemiTransparent_def kFlagRawTexel_def Let_def opcode_class_defs)

lemma polygon_packet_words:
  "packetWordCount (opcodeWord (polygonOpcode s)) =
     (if sh_quad s then 4 else 3) * (1 + (if sh_textured s then 1 else 0) + (if sh_gouraud s then 1 else 0)) +
     (if sh_gouraud s then 0 else 1)"
  using polygonOpcode_flags [of s] by (simp add: packetWordCount_def polygonVertexCount_def)

lemma packetWordCount_bounds: "0 < packetWordCount w \<and> packetWordCount w \<le> 12"
  by (simp add: packetWordCount_def polygonVertexCount_def Let_def)

lemma signedAxis_take_bit: "signedAxis h = signed_take_bit 10 (uint h)"
proof -
  have "(if (h AND 0x7FF) AND 0x400 \<noteq> 0 then (h AND 0x7FF) - 0x800 else h AND 0x7FF) = signed_take_bit 10 h"
  proof -
    have m: "h AND 0x7FF = take_bit 11 h" by (simp add: take_bit_eq_mask mask_eq_exp_minus_1)
    have b: "take_bit 11 h AND 0x400 \<noteq> 0 \<longleftrightarrow> bit h 10"
      using and_exp_eq_0_iff_not_bit [of "take_bit 11 h" 10] by (simp add: bit_simps)
    show ?thesis unfolding m b
      by (simp add: signed_take_bit_eq_take_bit_minus numeral_eq_Suc)
  qed
  then have "signedAxis h = sint (signed_take_bit 10 h)"
    by (simp only: signedAxis_def Let_def kVertexAxisMask_def kVertexAxisSign_def kVertexAxisRange_def)
  also have "\<dots> = signed_take_bit 10 (uint h)"
    by (rule bit_eqI) (auto simp: bit_simps min_def)
  finally show ?thesis .
qed

lemma signedAxis_range: "- 1024 \<le> signedAxis h \<and> signedAxis h \<le> 1023"
  using signed_take_bit_int_greater_eq_minus_exp [of 10 "uint h"] signed_take_bit_int_less_exp [of 10 "uint h"]
  by (simp add: signedAxis_take_bit)

end
