(* ===== verification/Frame_Record.thy ===== *)
theory Frame_Record
  imports Gp0_Command
begin

text \<open>
  One logic frame's GPU work: \<open>psx/present/frame_record.h\<close>, \<open>frame_record.cpp\<close>. A vertex's depth is the bits of its
  float, which the record only carries; the sub-pixel places of vertices and copies, which are zero for everything the
  device executes, are left out.
\<close>

section \<open>Entries\<close>

record RecordKey =
  rk_producer :: u32
  rk_object :: u32
  rk_element :: u32
  rk_part :: u32
  rk_serial :: u32

definition key_identity :: "RecordKey \<Rightarrow> RecordKey" where
  "key_identity k = k\<lparr>rk_serial := 0\<rparr>"

record OtSlot =
  os_table :: u16
  os_index :: u32

record RecordDrawState =
  ds_clipX0 :: int
  ds_clipY0 :: int
  ds_clipX1 :: int
  ds_clipY1 :: int
  ds_offsetX :: int
  ds_offsetY :: int
  ds_texPageX :: int
  ds_texPageY :: int
  ds_texMode :: int
  ds_blendMode :: int
  ds_windowMaskX :: int
  ds_windowMaskY :: int
  ds_windowOffsetX :: int
  ds_windowOffsetY :: int
  ds_maskSet :: bool
  ds_maskCheck :: bool
  ds_skipRowParity :: int

definition new_draw_state :: RecordDrawState where
  "new_draw_state = \<lparr>ds_clipX0 = 0, ds_clipY0 = 0, ds_clipX1 = 0, ds_clipY1 = 0, ds_offsetX = 0, ds_offsetY = 0,
     ds_texPageX = 0, ds_texPageY = 0, ds_texMode = 0, ds_blendMode = 0, ds_windowMaskX = 0, ds_windowMaskY = 0,
     ds_windowOffsetX = 0, ds_windowOffsetY = 0, ds_maskSet = False, ds_maskCheck = False, ds_skipRowParity = - 1\<rparr>"

record RecordVertex =
  rv_x :: int
  rv_y :: int
  rv_r :: u8
  rv_g :: u8
  rv_b :: u8
  rv_u :: u8
  rv_v :: u8
  rv_depth :: u32

definition new_vertex :: RecordVertex where
  "new_vertex = \<lparr>rv_x = 0, rv_y = 0, rv_r = 0, rv_g = 0, rv_b = 0, rv_u = 0, rv_v = 0, rv_depth = 0\<rparr>"

datatype PrimitiveKind = PolygonKind | LineKind | SpriteKind

definition kNoClut :: u32 where "kNoClut = 0xFFFFFFFF"

record DrawPrimitive =
  dp_kind :: PrimitiveKind
  dp_vertexCount :: nat
  dp_textured :: bool
  dp_gouraud :: bool
  dp_semiTransparent :: bool
  dp_modulate :: bool
  dp_flipX :: bool
  dp_flipY :: bool
  dp_width :: int
  dp_height :: int
  dp_vertices :: "RecordVertex list"
  dp_clutOffset :: u32
  dp_clutWord :: u16
  dp_state :: RecordDrawState
  dp_sourceAddress :: u32
  dp_key :: "RecordKey option"
  dp_slot :: "OtSlot option"
  dp_owner :: u32
  dp_mixedOwner :: u32
  dp_command :: u8

definition new_primitive :: DrawPrimitive where
  "new_primitive = \<lparr>dp_kind = PolygonKind, dp_vertexCount = 0, dp_textured = False, dp_gouraud = False,
     dp_semiTransparent = False, dp_modulate = False, dp_flipX = False, dp_flipY = False, dp_width = 0, dp_height = 0,
     dp_vertices = replicate 4 new_vertex, dp_clutOffset = kNoClut, dp_clutWord = 0, dp_state = new_draw_state,
     dp_sourceAddress = 0, dp_key = None, dp_slot = None, dp_owner = 0, dp_mixedOwner = 0, dp_command = 0\<rparr>"

record VramFill =
  vf_x :: int
  vf_y :: int
  vf_width :: int
  vf_height :: int
  vf_value :: u16
  vf_skipRowParity :: int

record VramCopy =
  vc_srcX :: int
  vc_srcY :: int
  vc_dstX :: int
  vc_dstY :: int
  vc_width :: int
  vc_height :: int
  vc_maskSet :: bool
  vc_maskCheck :: bool
  vc_key :: "RecordKey option"
  vc_slot :: "OtSlot option"
  vc_owner :: u32

record VramUpload =
  vu_x :: int
  vu_y :: int
  vu_width :: int
  vu_height :: int
  vu_maskSet :: bool
  vu_maskCheck :: bool
  vu_pixelOffset :: u32
  vu_sourceAddress :: u32
  vu_key :: "RecordKey option"
  vu_owner :: u32

definition new_upload :: VramUpload where
  "new_upload = \<lparr>vu_x = 0, vu_y = 0, vu_width = 0, vu_height = 0, vu_maskSet = False, vu_maskCheck = False,
     vu_pixelOffset = 0, vu_sourceAddress = 0, vu_key = None, vu_owner = 0\<rparr>"

record ReadBackTexture =
  rb_read :: VramRect
  rb_page :: VramRect
  rb_texMode :: int
  rb_red :: u8
  rb_green :: u8
  rb_blue :: u8
  rb_shift :: u8

datatype RecordEntry = EDraw DrawPrimitive | EFill VramFill | ECopy VramCopy | EUpload VramUpload | EReadBack ReadBackTexture

definition entryKey :: "RecordEntry \<Rightarrow> RecordKey option" where
  "entryKey e = (case e of EDraw p \<Rightarrow> dp_key p | ECopy c \<Rightarrow> vc_key c | _ \<Rightarrow> None)"

definition entrySlot :: "RecordEntry \<Rightarrow> OtSlot option" where
  "entrySlot e = (case e of EDraw p \<Rightarrow> dp_slot p | ECopy c \<Rightarrow> vc_slot c | _ \<Rightarrow> None)"

record SlotStart =
  ss_slot :: OtSlot
  ss_entry :: nat
  ss_descending :: bool
  ss_state :: RecordDrawState

record TableExit =
  te_table :: u16
  te_entry :: nat
  te_state :: RecordDrawState

section \<open>The record\<close>

definition kMaxEntries :: nat where "kMaxEntries = 262144"
definition kMaxPoolHalfwords :: nat where "kMaxPoolHalfwords = 8 * 1024 * 1024"

record FrameRecord =
  fr_sequence :: u64
  fr_complete :: bool
  fr_entries :: "RecordEntry list"
  fr_clutPool :: "u16 list"
  fr_uploadPixels :: "u16 list"
  fr_slotStarts :: "SlotStart list"
  fr_tableExits :: "TableExit list"
  fr_drawEntryField :: "u32 option"

definition reset_record :: "u64 \<Rightarrow> bool \<Rightarrow> FrameRecord" where
  "reset_record sequence complete = \<lparr>fr_sequence = sequence, fr_complete = complete, fr_entries = [], fr_clutPool = [],
     fr_uploadPixels = [], fr_slotStarts = [], fr_tableExits = [], fr_drawEntryField = None\<rparr>"

definition markDrawEntry :: "u32 \<Rightarrow> FrameRecord \<Rightarrow> FrameRecord" where
  "markDrawEntry field r = (if fr_drawEntryField r = None then r\<lparr>fr_drawEntryField := Some field\<rparr> else r)"

definition record_clut :: "FrameRecord \<Rightarrow> DrawPrimitive \<Rightarrow> u16 list" where
  "record_clut r p =
     (let count = (if ds_texMode (dp_state p) = 0 then 16 else 256) in
      if dp_clutOffset p = kNoClut \<or> unat (dp_clutOffset p) + count > length (fr_clutPool r) then []
      else take count (drop (unat (dp_clutOffset p)) (fr_clutPool r)))"

definition record_pixels :: "FrameRecord \<Rightarrow> VramUpload \<Rightarrow> u16 list" where
  "record_pixels r u =
     (let count = nat (vu_width u) * nat (vu_height u) in
      if unat (vu_pixelOffset u) + count > length (fr_uploadPixels r) then []
      else take count (drop (unat (vu_pixelOffset u)) (fr_uploadPixels r)))"

definition markIncomplete :: "FrameRecord \<Rightarrow> FrameRecord" where
  "markIncomplete r =
     (if \<not> fr_complete r then r
      else r\<lparr>fr_complete := False, fr_entries := [], fr_clutPool := [], fr_uploadPixels := [], fr_slotStarts := [],
             fr_tableExits := []\<rparr>)"

definition append_entry :: "RecordEntry \<Rightarrow> FrameRecord \<Rightarrow> FrameRecord" where
  "append_entry e r =
     (if \<not> fr_complete r then r
      else if length (fr_entries r) \<ge> kMaxEntries then markIncomplete r
      else r\<lparr>fr_entries := fr_entries r @ [e]\<rparr>)"

fun last_parity :: "RecordEntry list \<Rightarrow> int option" where
  "last_parity [] = None"
| "last_parity (EDraw p # es) =
     (if ds_skipRowParity (dp_state p) \<ge> 0 then Some (ds_skipRowParity (dp_state p)) else None)"
| "last_parity (EFill f # es) = (if vf_skipRowParity f \<ge> 0 then Some (vf_skipRowParity f) else None)"
| "last_parity (e # es) = last_parity es"

definition undrawnRowParity :: "FrameRecord \<Rightarrow> int option" where
  "undrawnRowParity r = last_parity (rev (fr_entries r))"

definition record_last :: "FrameRecord \<Rightarrow> RecordEntry option" where
  "record_last r = (if fr_entries r = [] then None else Some (last (fr_entries r)))"

text \<open>A store through the pointer \<open>last\<close> gives.\<close>

definition set_last :: "RecordEntry \<Rightarrow> FrameRecord \<Rightarrow> FrameRecord" where
  "set_last e r = r\<lparr>fr_entries := butlast (fr_entries r) @ [e]\<rparr>"

definition dropLast :: "FrameRecord \<Rightarrow> FrameRecord" where
  "dropLast r = r\<lparr>fr_entries := butlast (fr_entries r)\<rparr>"

definition appendClut :: "u16 list \<Rightarrow> FrameRecord \<Rightarrow> u32 \<times> FrameRecord" where
  "appendClut entries r =
     (if \<not> fr_complete r then (kNoClut, r)
      else if length (fr_clutPool r) + length entries > kMaxPoolHalfwords then (kNoClut, markIncomplete r)
      else (of_nat (length (fr_clutPool r)), r\<lparr>fr_clutPool := fr_clutPool r @ entries\<rparr>))"

definition appendUpload :: "VramUpload \<Rightarrow> u16 list \<Rightarrow> FrameRecord \<Rightarrow> FrameRecord" where
  "appendUpload upload pixels r =
     (if \<not> fr_complete r then r
      else if length (fr_uploadPixels r) + length pixels > kMaxPoolHalfwords then markIncomplete r
      else append_entry (EUpload (upload\<lparr>vu_pixelOffset := of_nat (length (fr_uploadPixels r))\<rparr>))
             (r\<lparr>fr_uploadPixels := fr_uploadPixels r @ pixels\<rparr>))"

definition beginSlot :: "OtSlot \<Rightarrow> bool \<Rightarrow> RecordDrawState \<Rightarrow> FrameRecord \<Rightarrow> FrameRecord" where
  "beginSlot slot descending state r =
     (if \<not> fr_complete r then r
      else r\<lparr>fr_slotStarts := fr_slotStarts r @
               [\<lparr>ss_slot = slot, ss_entry = length (fr_entries r), ss_descending = descending, ss_state = state\<rparr>]\<rparr>)"

definition exitTable :: "u16 \<Rightarrow> RecordDrawState \<Rightarrow> FrameRecord \<Rightarrow> FrameRecord" where
  "exitTable table state r =
     (if \<not> fr_complete r then r
      else r\<lparr>fr_tableExits := fr_tableExits r @ [\<lparr>te_table = table, te_entry = length (fr_entries r), te_state = state\<rparr>]\<rparr>)"

definition replaceEntries :: "RecordEntry list \<Rightarrow> FrameRecord \<Rightarrow> FrameRecord" where
  "replaceEntries entries r =
     (if \<not> fr_complete r then r else r\<lparr>fr_entries := entries, fr_slotStarts := [], fr_tableExits := []\<rparr>)"

definition assignPools :: "FrameRecord \<Rightarrow> FrameRecord \<Rightarrow> FrameRecord" where
  "assignPools other r = r\<lparr>fr_sequence := fr_sequence other, fr_complete := fr_complete other, fr_entries := [],
     fr_clutPool := fr_clutPool other, fr_uploadPixels := fr_uploadPixels other, fr_slotStarts := [], fr_tableExits := []\<rparr>"

section \<open>A well-formed record\<close>

text \<open>
  Every upload's pixels and the first sixteen entries of every sampled palette lie in the pools, the entries and pools are bounded, the slot marks
  point into the entries in order, and an incomplete record holds nothing.
\<close>

definition entry_ok :: "nat \<Rightarrow> nat \<Rightarrow> RecordEntry \<Rightarrow> bool" where
  "entry_ok cluts pixels e =
     (case e of
        EUpload u \<Rightarrow> unat (vu_pixelOffset u) + nat (vu_width u) * nat (vu_height u) \<le> pixels
      | EDraw p \<Rightarrow> dp_clutOffset p = kNoClut \<or>
          unat (dp_clutOffset p) + 16 \<le> cluts
      | _ \<Rightarrow> True)"

definition record_ok :: "FrameRecord \<Rightarrow> bool" where
  "record_ok r \<longleftrightarrow>
     list_all (entry_ok (length (fr_clutPool r)) (length (fr_uploadPixels r))) (fr_entries r) \<and>
     length (fr_entries r) \<le> kMaxEntries \<and> length (fr_clutPool r) \<le> kMaxPoolHalfwords \<and>
     length (fr_uploadPixels r) \<le> kMaxPoolHalfwords \<and>
     list_all (\<lambda>s. ss_entry s \<le> length (fr_entries r)) (fr_slotStarts r) \<and>
     list_all (\<lambda>t. te_entry t \<le> length (fr_entries r)) (fr_tableExits r) \<and>
     (\<not> fr_complete r \<longrightarrow> fr_entries r = [] \<and> fr_clutPool r = [] \<and> fr_uploadPixels r = [] \<and> fr_slotStarts r = [] \<and>
        fr_tableExits r = [])"

lemma entry_ok_mono: "entry_ok c p e \<Longrightarrow> c \<le> c' \<Longrightarrow> p \<le> p' \<Longrightarrow> entry_ok c' p' e"
  by (auto simp: entry_ok_def split: RecordEntry.splits)

lemma list_entry_ok_mono: "list_all (entry_ok c p) es \<Longrightarrow> c \<le> c' \<Longrightarrow> p \<le> p' \<Longrightarrow> list_all (entry_ok c' p') es"
  by (auto simp: list_all_iff intro: entry_ok_mono)

lemma reset_record_ok [inv_intros]: "record_ok (reset_record n b)"
  by (simp add: record_ok_def reset_record_def)

lemma markIncomplete_ok [inv_intros]: "record_ok r \<Longrightarrow> record_ok (markIncomplete r)"
  by (simp add: record_ok_def markIncomplete_def)

lemma append_entry_ok [inv_intros]:
  "record_ok r \<Longrightarrow> entry_ok (length (fr_clutPool r)) (length (fr_uploadPixels r)) e \<Longrightarrow> record_ok (append_entry e r)"
  using markIncomplete_ok by (auto simp: append_entry_def record_ok_def list_all_iff intro: le_SucI)

lemma appendClut_ok:
  assumes "record_ok r" and "appendClut entries r = (k, r')"
  shows "record_ok r' \<and> (k \<noteq> kNoClut \<longrightarrow> unat k + length entries \<le> length (fr_clutPool r') \<and>
    take (length entries) (drop (unat k) (fr_clutPool r')) = entries) \<and>
    fr_entries r' = (if fr_complete r' then fr_entries r else []) \<and> fr_uploadPixels r' = (if fr_complete r' then fr_uploadPixels r else [])"
proof (cases "fr_complete r \<and> length (fr_clutPool r) + length entries \<le> kMaxPoolHalfwords")
  case True
  then have r': "r' = r\<lparr>fr_clutPool := fr_clutPool r @ entries\<rparr>" "k = of_nat (length (fr_clutPool r))"
    using assms(2) by (auto simp: appendClut_def)
  have "unat (of_nat (length (fr_clutPool r)) :: u32) = length (fr_clutPool r)"
    using True by (intro unat_of_nat_small) (simp add: kMaxPoolHalfwords_def)
  then show ?thesis using True assms(1) r'
    by (auto simp: record_ok_def intro: list_entry_ok_mono)
next
  case False
  then show ?thesis using assms markIncomplete_ok [OF assms(1)]
    by (auto simp: appendClut_def markIncomplete_def record_ok_def split: if_splits)
qed

lemma appendUpload_ok:
  assumes "record_ok r" and "nat (vu_width u) * nat (vu_height u) = length pixels"
  shows "record_ok (appendUpload u pixels r)"
proof (cases "fr_complete r \<and> length (fr_uploadPixels r) + length pixels \<le> kMaxPoolHalfwords")
  case True
  have n: "unat (of_nat (length (fr_uploadPixels r)) :: u32) = length (fr_uploadPixels r)"
    using True by (intro unat_of_nat_small) (simp add: kMaxPoolHalfwords_def)
  have "record_ok (r\<lparr>fr_uploadPixels := fr_uploadPixels r @ pixels\<rparr>)"
    using assms(1) True by (auto simp: record_ok_def intro: list_entry_ok_mono)
  then show ?thesis using True assms(2) n
    by (simp add: appendUpload_def append_entry_ok entry_ok_def)
next
  case False
  then show ?thesis using assms(1) markIncomplete_ok by (auto simp: appendUpload_def)
qed

lemma marks_ok [inv_intros]:
  "record_ok r \<Longrightarrow> record_ok (beginSlot s d st r)" "record_ok r \<Longrightarrow> record_ok (exitTable t st r)"
  "record_ok r \<Longrightarrow> record_ok (markDrawEntry f r)"
  by (auto simp: record_ok_def beginSlot_def exitTable_def markDrawEntry_def)

text \<open>What an upload put in is what comes out, then and after anything is appended.\<close>

lemma upload_pixels_kept:
  assumes "fr_complete (appendUpload u pixels r)" and "nat (vu_width u) * nat (vu_height u) = length pixels"
    and "record_ok r"
  shows "\<exists>u'. record_last (appendUpload u pixels r) = Some (EUpload u') \<and> record_pixels (appendUpload u pixels r) u' = pixels"
proof -
  have c: "fr_complete r \<and> length (fr_uploadPixels r) + length pixels \<le> kMaxPoolHalfwords \<and> length (fr_entries r) < kMaxEntries"
    using assms(1) by (auto simp: appendUpload_def append_entry_def markIncomplete_def split: if_splits)
  then have n: "unat (of_nat (length (fr_uploadPixels r)) :: u32) = length (fr_uploadPixels r)"
    by (intro unat_of_nat_small) (simp add: kMaxPoolHalfwords_def)
  show ?thesis using c n assms(2)
    by (simp add: appendUpload_def append_entry_def record_last_def record_pixels_def Let_def)
qed

end
