(* ===== verification/Gp0_Decode.thy ===== *)
theory Gp0_Decode
  imports Frame_Record
begin

text \<open>
  GP0 draw packets to record primitives: \<open>psx/present/gp0_primitive_decode.cpp\<close>, for packets whose words carry no
  place, which are those of the guest's own stream. \<open>adjust\<close> is what the caller makes of a vertex and the word its
  position came from.
\<close>

definition colourVertex :: "u32 \<Rightarrow> RecordVertex" where
  "colourVertex w = new_vertex\<lparr>rv_r := red (word_colour w), rv_g := green (word_colour w), rv_b := blue (word_colour w)\<rparr>"

definition polygonPositionWord :: "nat \<Rightarrow> Gp0PrimitiveFlags \<Rightarrow> bool \<Rightarrow> nat" where
  "polygonPositionWord index f isFirst = index + (if isFirst \<or> gouraud f then 1 else 0)"

definition polygonVertex :: "u32 list \<Rightarrow> nat \<Rightarrow> Gp0PrimitiveFlags \<Rightarrow> RecordVertex \<Rightarrow> bool \<Rightarrow> RecordVertex \<times> nat" where
  "polygonVertex ws index f first isFirst =
     (let (v0, i1) = (if isFirst \<or> gouraud f then (colourVertex (ws ! index), index + 1) else (first, index));
          p = vertexPos (ws ! i1);
          v1 = v0\<lparr>rv_x := pos_x p, rv_y := pos_y p, rv_depth := 0\<rparr>;
          i2 = i1 + 1
      in if textured f
         then let c = textureCoord (ws ! i2) in (v1\<lparr>rv_u := word_of_int (tc_u c), rv_v := word_of_int (tc_v c)\<rparr>, i2 + 1)
         else (v1, i2))"

text \<open>The vertices of a polygon after those already read, and the index behind them.\<close>

primrec polygon_points ::
  "nat \<Rightarrow> (nat \<Rightarrow> RecordVertex \<Rightarrow> RecordVertex) \<Rightarrow> u32 list \<Rightarrow> Gp0PrimitiveFlags \<Rightarrow> nat \<Rightarrow> RecordVertex list \<Rightarrow>
   RecordVertex list \<times> nat" where
  "polygon_points 0 adjust ws f index vs = (vs, index)"
| "polygon_points (Suc n) adjust ws f index vs =
     (let (v, index') = polygonVertex ws index f (if vs = [] then new_vertex else hd vs) (vs = [])
      in polygon_points n adjust ws f index' (vs @ [adjust (polygonPositionWord index f (vs = [])) v]))"

definition four_vertices :: "RecordVertex list \<Rightarrow> RecordVertex list" where
  "four_vertices vs = vs @ replicate (4 - length vs) new_vertex"

definition decodeLineEnds :: "u32 list \<Rightarrow> RecordVertex \<times> RecordVertex" where
  "decodeLineEnds ws =
     (let g = gouraud (command_flags (ws ! 0));
          p0 = vertexPos (ws ! 1);
          from' = (colourVertex (ws ! 0))\<lparr>rv_x := pos_x p0, rv_y := pos_y p0\<rparr>;
          p1 = vertexPos (ws ! (if g then 3 else 2))
      in (from', (if g then colourVertex (ws ! 2) else from')\<lparr>rv_x := pos_x p1, rv_y := pos_y p1\<rparr>))"

definition polyLinePoint :: "u32 list \<Rightarrow> nat \<Rightarrow> nat \<Rightarrow> RecordVertex \<Rightarrow> RecordVertex" where
  "polyLinePoint ws colourWord positionWord previous =
     (let p = vertexPos (ws ! positionWord)
      in (if colourWord \<noteq> positionWord then colourVertex (ws ! colourWord) else previous)\<lparr>rv_x := pos_x p, rv_y := pos_y p\<rparr>)"

definition lineSegment :: "u32 \<Rightarrow> RecordVertex \<Rightarrow> RecordVertex \<Rightarrow> DrawPrimitive" where
  "lineSegment w from' to' = new_primitive\<lparr>dp_kind := LineKind, dp_vertexCount := 2,
     dp_gouraud := gouraud (command_flags w), dp_semiTransparent := semiTransparent (command_flags w),
     dp_vertices := four_vertices [from', to']\<rparr>"

definition applyTexPageAttribute :: "u16 \<Rightarrow> RecordDrawState \<Rightarrow> RecordDrawState" where
  "applyTexPageAttribute attribute state =
     (let page = decodeTexPage attribute
      in state\<lparr>ds_texPageX := tp_x page, ds_texPageY := tp_y page, ds_blendMode := tp_blend page,
               ds_texMode := int (depth_code (tp_depth page))\<rparr>)"

definition flagged_primitive :: "Gp0PrimitiveFlags \<Rightarrow> DrawPrimitive" where
  "flagged_primitive f = new_primitive\<lparr>dp_textured := textured f, dp_gouraud := gouraud f,
     dp_semiTransparent := semiTransparent f, dp_modulate := textured f \<and> \<not> rawTexel f\<rparr>"

definition decode_polygon :: "u32 list \<Rightarrow> DrawPrimitive" where
  "decode_polygon ws =
     (let f = command_flags (ws ! 0);
          n = polygonVertexCount (ws ! 0);
          p = (flagged_primitive f)\<lparr>dp_kind := PolygonKind, dp_vertexCount := n,
                dp_vertices := four_vertices (fst (polygon_points n (\<lambda>_ v. v) ws f 0 []))\<rparr>
      in if textured f
         then p\<lparr>dp_clutWord := tc_selector (textureCoord (ws ! 2)) AND 0x7FFF,
                dp_state := applyTexPageAttribute
                  (tc_selector (textureCoord (ws ! (2 + (if gouraud f then 3 else 2))))) (dp_state p)\<rparr>
         else p)"

definition decode_sprite :: "u32 list \<Rightarrow> DrawPrimitive" where
  "decode_sprite ws =
     (let f = command_flags (ws ! 0);
          pos = vertexPos (ws ! 1);
          v0 = (colourVertex (ws ! 0))\<lparr>rv_x := pos_x pos, rv_y := pos_y pos\<rparr>;
          c = textureCoord (ws ! 2);
          v1 = (if textured f then v0\<lparr>rv_u := word_of_int (tc_u c), rv_v := word_of_int (tc_v c)\<rparr> else v0);
          fixedSize = rectangleFixedSize (ws ! 0);
          region = spriteRegion (ws ! 1) (if fixedSize = 0 then ws ! (if textured f then 3 else 2) else 0) fixedSize;
          p = (flagged_primitive f)\<lparr>dp_kind := SpriteKind, dp_vertexCount := 1, dp_width := vr_width region,
                dp_height := vr_height region, dp_vertices := four_vertices [v1]\<rparr>
      in if textured f then p\<lparr>dp_clutWord := tc_selector c AND 0x7FFF\<rparr> else p)"

definition decodePacketPrimitive :: "u32 list \<Rightarrow> DrawPrimitive option" where
  "decodePacketPrimitive ws =
     (if ws = [] \<or> length ws < packetWordCount (ws ! 0) then None
      else if isPolygon (ws ! 0) then Some (decode_polygon ws)
      else if isLineOrPolyLine (ws ! 0) then
        (if isPolyLine (ws ! 0) then None
         else case decodeLineEnds ws of (from', to') \<Rightarrow> Some (lineSegment (ws ! 0) from' to'))
      else if isRectangleOrSprite (ws ! 0) then Some (decode_sprite ws)
      else None)"

text \<open>The loop of \<open>decodePolyLine\<close>: the segments still to come and whether the terminator was met.\<close>

function poly_line_loop :: "u32 list \<Rightarrow> nat \<Rightarrow> nat \<Rightarrow> RecordVertex \<Rightarrow> DrawPrimitive list \<times> bool" where
  "poly_line_loop ws stride index to' =
     (if stride = 0 \<or> index \<ge> length ws then ([], False)
      else if isPolyLineTerminator (ws ! index) then ([], True)
      else if index + stride > length ws then ([], False)
      else let next' = polyLinePoint ws index (index + stride - 1) to';
               (segments, terminated) = poly_line_loop ws stride (index + stride) next'
           in (lineSegment (ws ! 0) to' next' # segments, terminated))"
  by pat_completeness auto
termination
  by (relation "measure (\<lambda>(ws, stride, index, to'). length ws - index)") auto

declare poly_line_loop.simps [simp del]

definition decodePolyLine :: "u32 list \<Rightarrow> DrawPrimitive list \<times> bool" where
  "decodePolyLine ws =
     (let g = gouraud (command_flags (ws ! 0));
          third = (if g then 4 else 3)
      in if length ws < third then ([], False)
         else case decodeLineEnds ws of (from', to') \<Rightarrow>
                (case poly_line_loop ws (if g then 2 else 1) third to' of
                   (segments, terminated) \<Rightarrow> (lineSegment (ws ! 0) from' to' # segments, terminated)))"

text \<open>The draw mode that E1 packets set.\<close>

definition draw_mode_take :: "u32 list \<Rightarrow> u16 \<Rightarrow> bool \<times> u16" where
  "draw_mode_take ws attribute =
     (if ws = [] \<or> opcodeByte (ws ! 0) \<noteq> Op_SetDrawMode then (False, attribute) else (True, ucast (ws ! 0)))"

definition draw_mode_apply :: "u16 \<Rightarrow> DrawPrimitive \<Rightarrow> DrawPrimitive" where
  "draw_mode_apply attribute p =
     (if dp_kind p \<noteq> PolygonKind \<or> \<not> dp_textured p then p\<lparr>dp_state := applyTexPageAttribute attribute (dp_state p)\<rparr> else p)"

section \<open>Packets as they are written\<close>

text \<open>The words of a packet from its parts, as libgpu's macros lay them out.\<close>

definition position_word :: "int \<Rightarrow> int \<Rightarrow> u32" where
  "position_word x y = (word_of_int x AND 0xFFFF) OR push_bit 16 (word_of_int y AND 0xFFFF)"

definition colour_word :: "u8 \<Rightarrow> RecordVertex \<Rightarrow> u32" where
  "colour_word op v = ucast (rv_r v) OR push_bit 8 (ucast (rv_g v)) OR push_bit 16 (ucast (rv_b v)) OR opcodeWord op"

definition uv_word :: "u16 \<Rightarrow> RecordVertex \<Rightarrow> u32" where
  "uv_word selector v = ucast (rv_u v) OR push_bit 8 (ucast (rv_v v)) OR push_bit 16 (ucast selector)"

definition vertex_ok :: "RecordVertex \<Rightarrow> bool" where
  "vertex_ok v \<longleftrightarrow> - 1024 \<le> rv_x v \<and> rv_x v \<le> 1023 \<and> - 1024 \<le> rv_y v \<and> rv_y v \<le> 1023 \<and> rv_depth v = 0"

lemma signedAxis_word: "- 1024 \<le> x \<Longrightarrow> x \<le> 1023 \<Longrightarrow> signedAxis (take_bit 16 (word_of_int x)) = x"
proof -
  assume x: "- 1024 \<le> x" "x \<le> 1023"
  have "signedAxis (take_bit 16 (word_of_int x)) = signed_take_bit 10 (take_bit 16 (uint (word_of_int x :: u32)))"
    by (simp add: signedAxis_take_bit unsigned_take_bit_eq)
  also have "\<dots> = signed_take_bit 10 x"
    by (rule bit_eqI) (auto simp: bit_simps min_def uint_word_of_int_eq)
  also have "\<dots> = x" using x by (intro signed_take_bit_int_eq_self) auto
  finally show ?thesis .
qed

lemma vertexPos_position_word:
  "- 1024 \<le> x \<Longrightarrow> x \<le> 1023 \<Longrightarrow> - 1024 \<le> y \<Longrightarrow> y \<le> 1023 \<Longrightarrow>
     vertexPos (position_word x y) = \<lparr>pos_x = x, pos_y = y\<rparr>"
proof -
  assume x: "- 1024 \<le> x" "x \<le> 1023" and y: "- 1024 \<le> y" "y \<le> 1023"
  have "position_word x y AND 0xFFFF = take_bit 16 (word_of_int x)"
    unfolding position_word_def and_mask_take_bit by (rule bit_word_eqI) (auto simp: bit_simps)
  moreover have "drop_bit 16 (position_word x y) AND 0xFFFF = take_bit 16 (word_of_int y)"
    unfolding position_word_def and_mask_take_bit by (rule bit_word_eqI) (auto simp: bit_simps dest: bit_imp_le_length)
  ultimately show ?thesis using x y by (simp add: vertexPos_def signedAxis_word)
qed

lemma colour_word_decodes:
  "opcodeByte (colour_word op v) = op" "command_flags (colour_word op v) = command_flags (opcodeWord op)"
  "word_colour (colour_word op v) = \<lparr>red = rv_r v, green = rv_g v, blue = rv_b v\<rparr>"
proof -
  show o: "opcodeByte (colour_word op v) = op"
    by (rule bit_word_eqI) (auto simp: opcodeByte_def colour_word_def opcodeWord_def bit_simps dest: bit_imp_le_length)
  show "command_flags (colour_word op v) = command_flags (opcodeWord op)"
    by (simp add: command_flags_def o)
  have "ucast (take_bit 8 (colour_word op v)) = rv_r v" "ucast (take_bit 8 (drop_bit 8 (colour_word op v))) = rv_g v"
      "ucast (take_bit 8 (drop_bit 16 (colour_word op v))) = rv_b v"
    by (rule bit_word_eqI, auto simp: colour_word_def opcodeWord_def bit_simps dest: bit_imp_le_length)+
  then show "word_colour (colour_word op v) = \<lparr>red = rv_r v, green = rv_g v, blue = rv_b v\<rparr>"
    unfolding word_colour_def and_mask_take_bit by simp
qed

lemma colour_word_class:
  "isPolygon (colour_word op v) = isPolygon (opcodeWord op)"
  "polygonVertexCount (colour_word op v) = polygonVertexCount (opcodeWord op)"
  "packetWordCount (colour_word op v) = packetWordCount (opcodeWord op)"
  by (rule opcode_determines; simp add: colour_word_decodes)+

lemma uv_word_decodes:
  "textureCoord (uv_word s v) = \<lparr>tc_u = uint (rv_u v), tc_v = uint (rv_v v), tc_selector = s\<rparr>"
proof -
  have "take_bit 8 (uv_word s v) = ucast (rv_u v)" "take_bit 8 (drop_bit 8 (uv_word s v)) = ucast (rv_v v)"
      "ucast (take_bit 16 (drop_bit 16 (uv_word s v))) = s"
    by (rule bit_word_eqI, auto simp: uv_word_def bit_simps dest: bit_imp_le_length)+
  then show ?thesis unfolding textureCoord_def and_mask_take_bit by (simp add: uint_up_ucast is_up)
qed

text \<open>One vertex's words; the first one's colour is the command word's.\<close>

definition vertex_words :: "Gp0PolygonShape \<Rightarrow> u16 \<Rightarrow> u8 \<Rightarrow> bool \<Rightarrow> RecordVertex \<Rightarrow> u32 list" where
  "vertex_words s selector op isFirst v =
     (if isFirst \<or> sh_gouraud s then [colour_word op v] else []) @ [position_word (rv_x v) (rv_y v)] @
     (if sh_textured s then [uv_word selector v] else [])"

fun polygon_packet :: "Gp0PolygonShape \<Rightarrow> u16 \<Rightarrow> u16 \<Rightarrow> RecordVertex list \<Rightarrow> u32 list" where
  "polygon_packet s clut page (a # b # vs) =
     vertex_words s clut (polygonOpcode s) True a @ vertex_words s page 0 False b @
     concat (map (vertex_words s 0 0 False) vs)"
| "polygon_packet s clut page _ = []"

text \<open>What a shape lets its vertices say: a flat one has one colour, an untextured one no coordinates.\<close>

definition shape_ok :: "Gp0PolygonShape \<Rightarrow> RecordVertex list \<Rightarrow> bool" where
  "shape_ok s vs \<longleftrightarrow> length vs = (if sh_quad s then 4 else 3) \<and> list_all vertex_ok vs \<and>
     (\<not> sh_gouraud s \<longrightarrow> list_all (\<lambda>v. rv_r v = rv_r (hd vs) \<and> rv_g v = rv_g (hd vs) \<and> rv_b v = rv_b (hd vs)) vs) \<and>
     (\<not> sh_textured s \<longrightarrow> list_all (\<lambda>v. rv_u v = 0 \<and> rv_v v = 0) vs)"

definition shape_flags :: "Gp0PolygonShape \<Rightarrow> Gp0PrimitiveFlags" where
  "shape_flags s = \<lparr>rawTexel = False, semiTransparent = sh_semiTransparent s, textured = sh_textured s,
     quadOrPolyLine = sh_quad s, gouraud = sh_gouraud s\<rparr>"

lemma polygonVertex_reads:
  assumes "drop i ws = vertex_words s sel op fst' v @ rest" and "vertex_ok v"
    and "\<not> (fst' \<or> sh_gouraud s) \<Longrightarrow> rv_r v = rv_r first \<and> rv_g v = rv_g first \<and> rv_b v = rv_b first \<and>
           (\<not> sh_textured s \<longrightarrow> rv_u first = 0 \<and> rv_v first = 0)"
    and "\<not> sh_textured s \<Longrightarrow> rv_u v = 0 \<and> rv_v v = 0"
  shows "polygonVertex ws i (shape_flags s) first fst' = (v, i + length (vertex_words s sel op fst' v))"
    and "drop (i + length (vertex_words s sel op fst' v)) ws = rest"
proof -
  have n: "ws ! (i + k) = (vertex_words s sel op fst' v @ rest) ! k" if "k < length (vertex_words s sel op fst' v)" for k
  proof -
    have "length (drop i ws) = length (vertex_words s sel op fst' v) + length rest" using assms(1) by simp
    then have "i + k < length ws" using that by simp
    then show ?thesis using assms(1) by (metis less_or_eq_imp_le nth_drop add_leD1)
  qed
  show "drop (i + length (vertex_words s sel op fst' v)) ws = rest"
    using arg_cong [OF assms(1), of "drop (length (vertex_words s sel op fst' v))"] by (simp add: add.commute)
  have v: "- 1024 \<le> rv_x v" "rv_x v \<le> 1023" "- 1024 \<le> rv_y v" "rv_y v \<le> 1023" "rv_depth v = 0"
    using assms(2) by (simp_all add: vertex_ok_def)
  show "polygonVertex ws i (shape_flags s) first fst' = (v, i + length (vertex_words s sel op fst' v))"
    using n [of 0] n [of 1] n [of 2] assms(3,4) v
    by (cases "fst' \<or> sh_gouraud s"; cases "sh_textured s")
      (auto simp: polygonVertex_def shape_flags_def vertex_words_def Let_def vertexPos_position_word uv_word_decodes
        colourVertex_def colour_word_decodes new_vertex_def)
qed

text \<open>The words of the vertices after the first.\<close>

lemma polygon_points_rest:
  assumes "drop i ws = concat (map (\<lambda>(sel, v). vertex_words s sel 0 False v) svs)"
    and "vs \<noteq> []" and "list_all vertex_ok (map snd svs)"
    and "\<not> sh_gouraud s \<Longrightarrow> list_all (\<lambda>v. rv_r v = rv_r (hd vs) \<and> rv_g v = rv_g (hd vs) \<and> rv_b v = rv_b (hd vs)) (map snd svs)"
    and "\<not> sh_textured s \<Longrightarrow> list_all (\<lambda>v. rv_u v = 0 \<and> rv_v v = 0) (hd vs # map snd svs)"
  shows "fst (polygon_points (length svs) (\<lambda>_ v. v) ws (shape_flags s) i vs) = vs @ map snd svs"
  using assms
proof (induction svs arbitrary: i vs)
  case Nil
  then show ?case by simp
next
  case (Cons sv svs)
  obtain sel v where sv: "sv = (sel, v)" by (cases sv)
  have d: "drop i ws = vertex_words s sel 0 False v @ concat (map (\<lambda>(sel, v). vertex_words s sel 0 False v) svs)"
    using Cons.prems(1) sv by simp
  have ok: "vertex_ok v" using Cons.prems(3) sv by simp
  have c: "\<not> (False \<or> sh_gouraud s) \<Longrightarrow> rv_r v = rv_r (hd vs) \<and> rv_g v = rv_g (hd vs) \<and> rv_b v = rv_b (hd vs) \<and>
      (\<not> sh_textured s \<longrightarrow> rv_u (hd vs) = 0 \<and> rv_v (hd vs) = 0)"
    using Cons.prems(4,5) sv by simp
  have t: "\<not> sh_textured s \<Longrightarrow> rv_u v = 0 \<and> rv_v v = 0" using Cons.prems(5) sv by simp
  note p = polygonVertex_reads [OF d ok c t]
  have "fst (polygon_points (length svs) (\<lambda>_ v. v) ws (shape_flags s) (i + length (vertex_words s sel 0 False v)) (vs @ [v])) =
      (vs @ [v]) @ map snd svs"
    by (rule Cons.IH) (use Cons.prems sv p(2) in auto)
  then show ?case using p(1) Cons.prems(2) sv by simp
qed

text \<open>
  A polygon packet decodes to the polygon it was written from: its vertices with their colours and coordinates, its
  palette word and its texture page; for every shape of polygon.
\<close>

theorem polygon_roundtrip:
  assumes "shape_ok s vs"
  shows "decodePacketPrimitive (polygon_packet s clut page vs) =
    Some (let p = (flagged_primitive (shape_flags s))\<lparr>dp_vertexCount := length vs, dp_vertices := four_vertices vs\<rparr>
          in if sh_textured s
             then p\<lparr>dp_clutWord := clut AND 0x7FFF, dp_state := applyTexPageAttribute page new_draw_state\<rparr> else p)"
proof -
  obtain a b us where vs: "vs = a # b # us" and us: "length us = (if sh_quad s then 2 else 1)"
    using assms by (cases vs; cases "tl vs") (auto simp: shape_ok_def split: if_splits)
  let ?ws = "polygon_packet s clut page vs" and ?op = "polygonOpcode s"
  have w0: "?ws ! 0 = colour_word ?op a" by (simp add: vs vertex_words_def)
  have flags: "command_flags (?ws ! 0) = shape_flags s"
    using polygonOpcode_flags [of s] by (simp add: w0 colour_word_decodes shape_flags_def)
  have count: "polygonVertexCount (?ws ! 0) = length vs"
    using flags us by (simp add: polygonVertexCount_def shape_flags_def vs)
  have lw: "length (vertex_words s sel op fst' v) = (if fst' \<or> sh_gouraud s then 1 else 0) + 1 + (if sh_textured s then 1 else 0)"
    for sel op fst' v by (simp add: vertex_words_def)
  have len: "length ?ws = packetWordCount (?ws ! 0)"
  proof -
    have "sum_list (map (length \<circ> vertex_words s 0 0 False) us) = length us * (1 + (if sh_gouraud s then 1 else 0) + (if sh_textured s then 1 else 0))"
      by (induction us) (simp_all add: lw)
    then have "length ?ws = packetWordCount (opcodeWord ?op)"
      using us by (simp add: polygon_packet_words vs lw length_concat o_def)
    then show ?thesis by (simp only: w0 colour_word_class)
  qed
  have poly: "isPolygon (?ws ! 0)" using polygonOpcode_flags [of s] by (simp add: w0 colour_word_class)
  let ?svs = "(page, b) # map (Pair 0) us"
  have d0: "drop 0 ?ws = vertex_words s clut ?op True a @ concat (map (\<lambda>(sel, v). vertex_words s sel 0 False v) ?svs)"
    by (simp add: vs o_def)
  have oka: "vertex_ok a" and t: "\<not> sh_textured s \<Longrightarrow> rv_u a = 0 \<and> rv_v a = 0"
    using assms by (simp_all add: shape_ok_def vs)
  have pa: "polygonVertex ?ws 0 (shape_flags s) new_vertex True = (a, length (vertex_words s clut ?op True a))"
    and da: "drop (length (vertex_words s clut ?op True a)) ?ws = concat (map (\<lambda>(sel, v). vertex_words s sel 0 False v) ?svs)"
    using polygonVertex_reads [OF d0 oka _ t, of new_vertex] by (simp_all add: new_vertex_def)
  have snd_svs: "map snd ?svs = b # us" by (simp add: o_def)
  have rest: "fst (polygon_points (length ?svs) (\<lambda>_ v. v) ?ws (shape_flags s) (length (vertex_words s clut ?op True a)) [a]) = [a] @ map snd ?svs"
    by (rule polygon_points_rest [OF da]) (use assms snd_svs in \<open>auto simp: shape_ok_def vs\<close>)
  have points: "fst (polygon_points (length vs) (\<lambda>_ v. v) ?ws (shape_flags s) 0 []) = vs"
    using rest pa snd_svs by (simp add: vs)
  have uv: "?ws ! 2 = uv_word clut a" "?ws ! (2 + (if sh_gouraud s then 3 else 2)) = uv_word page b" if "sh_textured s"
    using that by (simp_all add: vs vertex_words_def)
  have ne: "?ws \<noteq> []" by (simp add: vs vertex_words_def)
  have "decodePacketPrimitive ?ws = Some (decode_polygon ?ws)"
    using ne len poly by (simp add: decodePacketPrimitive_def)
  also have "decode_polygon ?ws = (let p = (flagged_primitive (shape_flags s))\<lparr>dp_vertexCount := length vs, dp_vertices := four_vertices vs\<rparr>
      in if sh_textured s
         then p\<lparr>dp_clutWord := clut AND 0x7FFF, dp_state := applyTexPageAttribute page new_draw_state\<rparr> else p)"
    unfolding decode_polygon_def Let_def flags count points
    using uv by (simp add: uv_word_decodes flagged_primitive_def new_primitive_def shape_flags_def)
  finally show ?thesis .
qed

lemma polygon_roundtrip_witness:
  "decodePacketPrimitive (polygon_packet \<lparr>sh_quad = False, sh_gouraud = True, sh_textured = False, sh_semiTransparent = True\<rparr> 0 0
      [new_vertex\<lparr>rv_x := - 3, rv_r := 200\<rparr>, new_vertex\<lparr>rv_y := 1023\<rparr>, new_vertex\<lparr>rv_g := 7\<rparr>]) =
    Some ((flagged_primitive (shape_flags \<lparr>sh_quad = False, sh_gouraud = True, sh_textured = False, sh_semiTransparent = True\<rparr>))
      \<lparr>dp_vertexCount := 3,
       dp_vertices := four_vertices [new_vertex\<lparr>rv_x := - 3, rv_r := 200\<rparr>, new_vertex\<lparr>rv_y := 1023\<rparr>, new_vertex\<lparr>rv_g := 7\<rparr>]\<rparr>)"
  using polygon_roundtrip [of "\<lparr>sh_quad = False, sh_gouraud = True, sh_textured = False, sh_semiTransparent = True\<rparr>"
      "[new_vertex\<lparr>rv_x := - 3, rv_r := 200\<rparr>, new_vertex\<lparr>rv_y := 1023\<rparr>, new_vertex\<lparr>rv_g := 7\<rparr>]" 0 0]
  by (simp add: shape_ok_def vertex_ok_def new_vertex_def)

end
