(* ===== verification/Vram_Bitmap.thy ===== *)
theory Vram_Bitmap
  imports Gp0_Command
begin

text \<open>
  One bit per VRAM pixel (\<open>psx/gpu/vram_bitmap.h\<close>): 16 words a row, and a bit per row that may hold a set pixel, so that
  clearing visits only those. The abstraction is the set of set pixels.
\<close>

section \<open>The bitmap\<close>

record VramBitmap =
  bm_words :: "nat \<Rightarrow> u64"
  bm_markedRows :: "nat \<Rightarrow> u64"

definition kWordsPerRow :: nat where "kWordsPerRow = 16"
definition kRows :: nat where "kRows = 512"
definition kColumns :: nat where "kColumns = 1024"

definition new_bitmap :: VramBitmap where
  "new_bitmap = \<lparr>bm_words = (\<lambda>_. 0), bm_markedRows = (\<lambda>_. 0)\<rparr>"

definition wordMask :: "nat \<Rightarrow> nat \<Rightarrow> u64" where
  "wordMask x0 x1 = push_bit x0 (if x1 - x0 = 64 then NOT 0 else push_bit (x1 - x0) 1 - 1)"

text \<open>\<open>forEachWord\<close> with the visitor of \<open>mark\<close> and with that of \<open>any\<close>.\<close>

function mark_run :: "nat \<Rightarrow> nat \<Rightarrow> nat \<Rightarrow> (nat \<Rightarrow> u64) \<Rightarrow> nat \<Rightarrow> u64" where
  "mark_run base x x1 ws =
     (if x \<ge> x1 then ws
      else let b = x mod 64; e = min 64 (b + x1 - x); k = base + x div 64
           in mark_run base (x + (e - b)) x1 (ws(k := ws k OR wordMask b e)))"
  by pat_completeness auto
termination
  by (relation "measure (\<lambda>(base, x, x1, ws). x1 - x)") (auto simp: min_def diff_less_mono2)

function any_run :: "nat \<Rightarrow> nat \<Rightarrow> nat \<Rightarrow> (nat \<Rightarrow> u64) \<Rightarrow> bool" where
  "any_run base x x1 ws =
     (if x \<ge> x1 then False
      else let b = x mod 64; e = min 64 (b + x1 - x)
           in if ws (base + x div 64) AND wordMask b e \<noteq> 0 then True else any_run base (x + (e - b)) x1 ws)"
  by pat_completeness auto
termination
  by (relation "measure (\<lambda>(base, x, x1, ws). x1 - x)") (auto simp: min_def diff_less_mono2)

declare mark_run.simps [simp del] any_run.simps [simp del]

definition bitmap_mark :: "nat \<Rightarrow> nat \<Rightarrow> nat \<Rightarrow> VramBitmap \<Rightarrow> VramBitmap" where
  "bitmap_mark row x0 x1 b =
     (if x1 \<le> x0 then b
      else b\<lparr>bm_markedRows := (bm_markedRows b)(row div 64 := bm_markedRows b (row div 64) OR push_bit (row mod 64) 1),
             bm_words := mark_run (row * kWordsPerRow) x0 x1 (bm_words b)\<rparr>)"

definition bitmap_any :: "nat \<Rightarrow> nat \<Rightarrow> nat \<Rightarrow> VramBitmap \<Rightarrow> bool" where
  "bitmap_any row x0 x1 b = any_run (row * kWordsPerRow) x0 x1 (bm_words b)"

definition fillAll :: "VramBitmap \<Rightarrow> VramBitmap" where
  "fillAll b = \<lparr>bm_words = (\<lambda>_. NOT 0), bm_markedRows = (\<lambda>_. NOT 0)\<rparr>"

definition clearRow :: "nat \<Rightarrow> (nat \<Rightarrow> u64) \<Rightarrow> nat \<Rightarrow> u64" where
  "clearRow row ws = (\<lambda>k. if row * kWordsPerRow \<le> k \<and> k < row * kWordsPerRow + kWordsPerRow then 0 else ws k)"

definition countr_zero :: "u64 \<Rightarrow> nat" where
  "countr_zero w = length (takeWhile (\<lambda>i. \<not> bit w i) [0..<64])"

function clear_group :: "nat \<Rightarrow> u64 \<Rightarrow> (nat \<Rightarrow> u64) \<Rightarrow> nat \<Rightarrow> u64" where
  "clear_group grp rows ws =
     (if rows = 0 then ws
      else clear_group grp (rows AND (rows - 1)) (clearRow (grp * 64 + countr_zero rows) ws))"
  by pat_completeness auto
termination
proof (relation "measure (\<lambda>(grp, rows, ws). unat rows)")
  fix grp :: nat and rows :: u64 and ws :: "nat \<Rightarrow> u64"
  assume "rows \<noteq> 0"
  moreover have "rows AND (rows - 1) \<le> rows - 1" by (rule word_and_le1)
  ultimately have "unat (rows AND (rows - 1)) < unat rows"
    by (simp add: word_le_nat_alt unat_minus_one unat_gt_0 less_le_trans le_less_trans diff_less)
  then show "((grp, rows AND (rows - 1), clearRow (grp * 64 + countr_zero rows) ws), grp, rows, ws)
      \<in> measure (\<lambda>(grp, rows, ws). unat rows)" by simp
qed simp

declare clear_group.simps [simp del]

definition bitmap_clear :: "VramBitmap \<Rightarrow> VramBitmap" where
  "bitmap_clear b =
     fold (\<lambda>grp b. b\<lparr>bm_words := clear_group grp (bm_markedRows b grp) (bm_words b),
                       bm_markedRows := (bm_markedRows b)(grp := 0)\<rparr>) [0..<kRows div 64] b"

section \<open>The set of set pixels\<close>

definition pixel :: "(nat \<Rightarrow> u64) \<Rightarrow> nat \<Rightarrow> nat \<Rightarrow> bool" where
  "pixel ws row c \<longleftrightarrow> c < kColumns \<and> bit (ws (row * kWordsPerRow + c div 64)) (c mod 64)"

definition pixels :: "VramBitmap \<Rightarrow> (nat \<times> nat) set" where
  "pixels b = {(row, c). row < kRows \<and> pixel (bm_words b) row c}"

definition bitmap_ok :: "VramBitmap \<Rightarrow> bool" where
  "bitmap_ok b \<longleftrightarrow> (\<forall>row<kRows. \<forall>c. pixel (bm_words b) row c \<longrightarrow> bit (bm_markedRows b (row div 64)) (row mod 64))"

lemma word_bit_ex: "w \<noteq> 0 \<Longrightarrow> \<exists>i<LENGTH('a). bit w i" for w :: "'a::len word"
proof (rule ccontr)
  assume w: "w \<noteq> 0" and n: "\<not> (\<exists>i<LENGTH('a). bit w i)"
  have "w = 0" by (rule bit_word_eqI) (use n in simp)
  then show False using w by simp
qed

lemma bit_wordMask: "x0 < x1 \<Longrightarrow> x1 \<le> 64 \<Longrightarrow> bit (wordMask x0 x1) i \<longleftrightarrow> x0 \<le> i \<and> i < x1"
proof -
  assume x: "x0 < x1" "x1 \<le> 64"
  show ?thesis
  proof (cases "x1 - x0 = 64")
    case True
    then have "x0 = 0" "x1 = 64" using x by auto
    then show ?thesis by (auto simp: wordMask_def bit_simps dest: bit_imp_le_length)
  next
    case False
    then have "wordMask x0 x1 = push_bit x0 (mask (x1 - x0))" by (simp add: wordMask_def mask_eq_exp_minus_1)
    then show ?thesis using x by (auto simp: bit_simps)
  qed
qed

text \<open>The run of one word is the columns it holds.\<close>

lemma run_step:
  assumes "x < x1" and "x1 \<le> kColumns"
  defines "n \<equiv> min 64 (x mod 64 + x1 - x) - x mod 64"
  shows "0 < n" "x + n \<le> x1"
    "\<And>c. c < kColumns \<Longrightarrow> c div 64 = x div 64 \<and> bit (wordMask (x mod 64) (min 64 (x mod 64 + x1 - x))) (c mod 64) \<longleftrightarrow> x \<le> c \<and> c < x + n"
proof -
  have m: "x mod 64 < 64" by simp
  show n: "0 < n" "x + n \<le> x1" using assms m by (auto simp: min_def)
  fix c
  assume "c < kColumns"
  have b: "bit (wordMask (x mod 64) (min 64 (x mod 64 + x1 - x))) (c mod 64) \<longleftrightarrow>
      x mod 64 \<le> c mod 64 \<and> c mod 64 < x mod 64 + n"
    using assms m by (subst bit_wordMask) (auto simp: n_def min_def)
  have d: "x = 64 * (x div 64) + x mod 64" "c = 64 * (c div 64) + c mod 64" by simp_all
  have n64: "x mod 64 + n \<le> 64" using assms m by (auto simp: min_def)
  show "c div 64 = x div 64 \<and> bit (wordMask (x mod 64) (min 64 (x mod 64 + x1 - x))) (c mod 64) \<longleftrightarrow> x \<le> c \<and> c < x + n"
    unfolding b
  proof
    assume "c div 64 = x div 64 \<and> x mod 64 \<le> c mod 64 \<and> c mod 64 < x mod 64 + n"
    then show "x \<le> c \<and> c < x + n" using d by linarith
  next
    assume c: "x \<le> c \<and> c < x + n"
    then have "c div 64 = x div 64" using d n64 by linarith
    then show "c div 64 = x div 64 \<and> x mod 64 \<le> c mod 64 \<and> c mod 64 < x mod 64 + n" using c d by linarith
  qed
qed

lemma row_word_inj: "c < kColumns \<Longrightarrow> c' < kColumns \<Longrightarrow>
    row * kWordsPerRow + c div 64 = row' * kWordsPerRow + c' div 64 \<Longrightarrow> row = row' \<and> c div 64 = c' div 64"
proof -
  assume c: "c < kColumns" "c' < kColumns" and e: "row * kWordsPerRow + c div 64 = row' * kWordsPerRow + c' div 64"
  have "c div 64 < kWordsPerRow" "c' div 64 < kWordsPerRow"
    using c by (simp_all add: kWordsPerRow_def kColumns_def less_mult_imp_div_less)
  then show ?thesis using e
    by (metis add.commute div_mult_self3 div_less mod_less mod_mult_self3 add_0_right gr_implies_not0)
qed

lemma pixel_mark_run:
  "x1 \<le> kColumns \<Longrightarrow> pixel (mark_run (row * kWordsPerRow) x x1 ws) r c \<longleftrightarrow> pixel ws r c \<or> (r = row \<and> x \<le> c \<and> c < x1)"
proof (induction "row * kWordsPerRow" x x1 ws rule: mark_run.induct)
  case (1 x x1 ws)
  show ?case
  proof (cases "x < x1")
    case False
    then show ?thesis by (subst mark_run.simps) auto
  next
    case True
    define n where "n = min 64 (x mod 64 + x1 - x) - x mod 64"
    let ?k = "row * kWordsPerRow + x div 64" and ?m = "wordMask (x mod 64) (min 64 (x mod 64 + x1 - x))"
    let ?ws = "ws(?k := ws ?k OR ?m)"
    note s = run_step [OF True 1(2), folded n_def]
    have step: "mark_run (row * kWordsPerRow) x x1 ws = mark_run (row * kWordsPerRow) (x + n) x1 ?ws"
      using True by (subst mark_run.simps) (simp add: Let_def n_def)
    have ih: "pixel (mark_run (row * kWordsPerRow) (x + n) x1 ?ws) r c \<longleftrightarrow> pixel ?ws r c \<or> (r = row \<and> x + n \<le> c \<and> c < x1)"
      by (rule 1(1) [OF _ refl refl refl, folded n_def]) (use True 1(2) in auto)
    have "pixel ?ws r c \<longleftrightarrow> pixel ws r c \<or> (r = row \<and> x \<le> c \<and> c < x + n)"
    proof (cases "c < kColumns")
      case c: True
      have x: "x < kColumns" using True 1(2) by simp
      show ?thesis
      proof (cases "r * kWordsPerRow + c div 64 = ?k")
        case True
        then have "r = row \<and> c div 64 = x div 64" by (rule row_word_inj [OF c x])
        then show ?thesis using s(3) [OF c] c by (auto simp: pixel_def bit_simps)
      next
        case False
        then have "\<not> (r = row \<and> x \<le> c \<and> c < x + n)" using s(3) [OF c] by auto
        moreover have "pixel ?ws r c \<longleftrightarrow> pixel ws r c" using False by (simp add: pixel_def)
        ultimately show ?thesis by blast
      qed
    next
      case False
      then show ?thesis using s(2) 1(2) by (auto simp: pixel_def)
    qed
    then show ?thesis using step ih s(1,2) by auto
  qed
qed

lemma any_run_pixel:
  "x1 \<le> kColumns \<Longrightarrow> any_run (row * kWordsPerRow) x x1 ws \<longleftrightarrow> (\<exists>c. x \<le> c \<and> c < x1 \<and> pixel ws row c)"
proof (induction "row * kWordsPerRow" x x1 ws rule: any_run.induct)
  case (1 x x1 ws)
  show ?case
  proof (cases "x < x1")
    case False
    then show ?thesis by (subst any_run.simps) auto
  next
    case True
    define n where "n = min 64 (x mod 64 + x1 - x) - x mod 64"
    let ?k = "row * kWordsPerRow + x div 64" and ?m = "wordMask (x mod 64) (min 64 (x mod 64 + x1 - x))"
    note s = run_step [OF True 1(2), folded n_def]
    have step: "any_run (row * kWordsPerRow) x x1 ws \<longleftrightarrow> ws ?k AND ?m \<noteq> 0 \<or> any_run (row * kWordsPerRow) (x + n) x1 ws"
      using True by (subst any_run.simps) (simp add: Let_def n_def)
    have hit: "ws ?k AND ?m \<noteq> 0 \<longleftrightarrow> (\<exists>c. x \<le> c \<and> c < x + n \<and> pixel ws row c)"
    proof
      assume "ws ?k AND ?m \<noteq> 0"
      then obtain i where "bit (ws ?k AND ?m) i" using word_bit_ex by blast
      then have i: "bit (ws ?k) i" "bit ?m i" "i < 64" by (auto simp: bit_simps dest: bit_imp_le_length)
      let ?c = "64 * (x div 64) + i"
      have "x div 64 < 16" using True 1(2) by (simp add: kColumns_def less_mult_imp_div_less)
      then have "?c < kColumns" using i(3) by (simp add: kColumns_def)
      moreover have "?c div 64 = x div 64" "?c mod 64 = i" using i(3) by simp_all
      ultimately show "\<exists>c. x \<le> c \<and> c < x + n \<and> pixel ws row c"
        using s(3) [of ?c] i by (intro exI [of _ ?c]) (simp add: pixel_def)
    next
      assume "\<exists>c. x \<le> c \<and> c < x + n \<and> pixel ws row c"
      then obtain c where c: "x \<le> c" "c < x + n" "pixel ws row c" by auto
      then have "bit (ws ?k AND ?m) (c mod 64)" using s(3) [of c] by (auto simp: pixel_def bit_simps)
      then show "ws ?k AND ?m \<noteq> 0" by auto
    qed
    have ih: "any_run (row * kWordsPerRow) (x + n) x1 ws \<longleftrightarrow> (\<exists>c. x + n \<le> c \<and> c < x1 \<and> pixel ws row c)"
      if "\<not> ws ?k AND ?m \<noteq> 0"
      by (rule 1(1) [OF _ refl refl, folded n_def]) (use True 1(2) that in auto)
    show ?thesis
    proof (cases "ws ?k AND ?m \<noteq> 0")
      case True
      then show ?thesis using step hit s(2) by (meson less_le_trans)
    next
      case False
      then have "\<not> (\<exists>c. x \<le> c \<and> c < x + n \<and> pixel ws row c)" using hit by blast
      then have "(\<exists>c. x + n \<le> c \<and> c < x1 \<and> pixel ws row c) \<longleftrightarrow> (\<exists>c. x \<le> c \<and> c < x1 \<and> pixel ws row c)"
        by (meson le_add1 le_trans not_less)
      then show ?thesis using False ih step by blast
    qed
  qed
qed

lemma pixels_mark: "row < kRows \<Longrightarrow> x1 \<le> kColumns \<Longrightarrow> pixels (bitmap_mark row x0 x1 b) = pixels b \<union> {row} \<times> {x0..<x1}"
  by (auto simp: pixels_def bitmap_mark_def pixel_mark_run)

lemma bitmap_any_iff: "row < kRows \<Longrightarrow> x1 \<le> kColumns \<Longrightarrow> bitmap_any row x0 x1 b \<longleftrightarrow> (\<exists>c. x0 \<le> c \<and> c < x1 \<and> (row, c) \<in> pixels b)"
  by (simp add: bitmap_any_def any_run_pixel pixels_def)

lemma bitmap_mark_ok [inv_intros]: "bitmap_ok b \<Longrightarrow> x1 \<le> kColumns \<Longrightarrow> bitmap_ok (bitmap_mark row x0 x1 b)"
  by (auto simp: bitmap_ok_def bitmap_mark_def pixel_mark_run bit_simps)

lemma fillAll_pixels: "pixels (fillAll b) = {..<kRows} \<times> {..<kColumns}" "bitmap_ok (fillAll b)"
  by (auto simp: pixels_def pixel_def fillAll_def bitmap_ok_def bit_simps)

section \<open>Clearing\<close>

lemma countr_zero_bit: "w \<noteq> 0 \<Longrightarrow> bit w (countr_zero w) \<and> (\<forall>i<countr_zero w. \<not> bit w i) \<and> countr_zero w < 64"
proof -
  assume "w \<noteq> 0"
  then obtain i where i: "bit w i" "i < 64" using word_bit_ex [of w] by auto
  let ?t = "takeWhile (\<lambda>i. \<not> bit w i) [0..<64]"
  have lt: "countr_zero w < 64"
  proof (rule ccontr)
    assume "\<not> countr_zero w < 64"
    then have "length ?t = length [0..<64]" using length_takeWhile_le [of "\<lambda>i. \<not> bit w i" "[0..<64]"] by (simp add: countr_zero_def)
    then have "?t = [0..<64]" by (metis takeWhile_eq_take take_all order_refl)
    then have "\<forall>i\<in>set [0..<64]. \<not> bit w i" by (metis set_takeWhileD)
    then show False using i by simp
  qed
  have "\<not> \<not> bit w ([0..<64] ! length ?t)" by (rule nth_length_takeWhile) (use lt in \<open>simp add: countr_zero_def\<close>)
  then have b: "bit w (countr_zero w)" using lt by (simp add: countr_zero_def)
  have "\<not> bit w i" if "i < countr_zero w" for i
  proof -
    have "?t ! i = i" using that lt by (simp add: countr_zero_def takeWhile_nth)
    moreover have "?t ! i \<in> set ?t" using that by (simp add: countr_zero_def)
    ultimately show ?thesis using set_takeWhileD by fastforce
  qed
  then show ?thesis using b lt by blast
qed

lemma clear_lowest_bit: "w \<noteq> 0 \<Longrightarrow> bit (w AND (w - 1)) i \<longleftrightarrow> bit w i \<and> i \<noteq> countr_zero w" for w :: u64
proof -
  assume "w \<noteq> 0"
  note z = countr_zero_bit [OF this]
  define n where "n = countr_zero w"
  define v where "v = w AND NOT (push_bit n 1)"
  have n: "n < 64" "bit w n" "\<And>j. j < n \<Longrightarrow> \<not> bit w j" using z by (auto simp: n_def)
  have "v AND push_bit n 1 = 0" by (rule bit_word_eqI) (auto simp: v_def bit_simps)
  then have "v + push_bit n 1 = v OR push_bit n 1" by (rule disjunctive_add_eq_or)
  also have "\<dots> = w" by (rule bit_word_eqI) (use n in \<open>auto simp: v_def bit_simps\<close>)
  finally have w: "w = v + push_bit n 1" ..
  have "v AND mask n = 0" by (rule bit_word_eqI) (use n in \<open>auto simp: v_def bit_simps\<close>)
  then have "v + mask n = v OR mask n" by (rule disjunctive_add_eq_or)
  moreover have "w - 1 = v + mask n" unfolding w by (simp add: mask_eq_exp_minus_1 push_bit_eq_mult)
  ultimately have m: "w - 1 = v OR mask n" by simp
  show ?thesis unfolding m using n by (auto simp: v_def bit_simps n_def [symmetric] dest: bit_imp_le_length)
qed

lemma clear_group_words:
  "clear_group grp rows ws k = (if k div kWordsPerRow div 64 = grp \<and> bit rows (k div kWordsPerRow mod 64) then 0 else ws k)"
proof (induction grp rows ws rule: clear_group.induct)
  case (1 grp rows ws)
  show ?case
  proof (cases "rows = 0")
    case True
    then show ?thesis by (subst clear_group.simps) simp
  next
    case False
    have lt: "countr_zero rows < 64" using countr_zero_bit [OF False] by simp
    have row: "clearRow (grp * 64 + countr_zero rows) ws k =
        (if k div kWordsPerRow = grp * 64 + countr_zero rows then 0 else ws k)"
    proof -
      have "(grp * 64 + countr_zero rows) * kWordsPerRow \<le> k \<and> k < (grp * 64 + countr_zero rows) * kWordsPerRow + kWordsPerRow \<longleftrightarrow>
          k div kWordsPerRow = grp * 64 + countr_zero rows"
        by (auto simp: kWordsPerRow_def)
      then show ?thesis by (simp add: clearRow_def)
    qed
    have e: "k div kWordsPerRow = grp * 64 + countr_zero rows \<longleftrightarrow>
        k div kWordsPerRow div 64 = grp \<and> k div kWordsPerRow mod 64 = countr_zero rows"
    proof
      assume "k div kWordsPerRow = grp * 64 + countr_zero rows"
      then show "k div kWordsPerRow div 64 = grp \<and> k div kWordsPerRow mod 64 = countr_zero rows" using lt by simp
    next
      assume "k div kWordsPerRow div 64 = grp \<and> k div kWordsPerRow mod 64 = countr_zero rows"
      then show "k div kWordsPerRow = grp * 64 + countr_zero rows"
        using div_mult_mod_eq [of "k div kWordsPerRow" 64] by metis
    qed
    show ?thesis using 1(1) [OF False] False countr_zero_bit [OF False]
      by (subst clear_group.simps) (auto simp: row e clear_lowest_bit)
  qed
qed

lemma clear_fold:
  "fold (\<lambda>grp b. b\<lparr>bm_words := clear_group grp (bm_markedRows b grp) (bm_words b),
       bm_markedRows := (bm_markedRows b)(grp := 0)\<rparr>) [0..<n] b =
   \<lparr>bm_words = (\<lambda>k. if k div kWordsPerRow div 64 < n \<and> bit (bm_markedRows b (k div kWordsPerRow div 64)) (k div kWordsPerRow mod 64)
                   then 0 else bm_words b k),
    bm_markedRows = (\<lambda>g. if g < n then 0 else bm_markedRows b g)\<rparr>"
proof (induction n)
  case 0
  then show ?case by simp
next
  case (Suc n)
  show ?case unfolding upt_Suc_append [OF le0] fold_append comp_def Suc
    by (auto simp: clear_group_words fun_eq_iff less_Suc_eq)
qed

text \<open>Clearing the marked rows clears every pixel.\<close>

lemma bitmap_clear_pixels: "bitmap_ok b \<Longrightarrow> pixels (bitmap_clear b) = {} \<and> bitmap_ok (bitmap_clear b)"
proof -
  assume ok: "bitmap_ok b"
  have no: "\<not> pixel (bm_words (bitmap_clear b)) row c" if "row < kRows" for row c
  proof
    assume p: "pixel (bm_words (bitmap_clear b)) row c"
    then have c: "c < kColumns" by (simp add: pixel_def)
    have d: "(row * kWordsPerRow + c div 64) div kWordsPerRow = row" using c by (simp add: kWordsPerRow_def kColumns_def)
    have r: "row div 64 < kRows div 64" using that by (simp add: kRows_def)
    have "pixel (bm_words b) row c" and "\<not> bit (bm_markedRows b (row div 64)) (row mod 64)"
      using p r by (auto simp: pixel_def bitmap_clear_def clear_fold d split: if_splits)
    then show False using ok that unfolding bitmap_ok_def by blast
  qed
  then show ?thesis by (auto simp: pixels_def bitmap_ok_def)
qed

section \<open>The interface\<close>

text \<open>What a client of a bitmap relies on: a state that keeps its invariant and the set of pixels it stands for.\<close>

locale pixel_store =
  fixes good :: "'b \<Rightarrow> bool" and view :: "'b \<Rightarrow> (nat \<times> nat) set"
    and mark :: "nat \<Rightarrow> nat \<Rightarrow> nat \<Rightarrow> 'b \<Rightarrow> 'b" and test :: "nat \<Rightarrow> nat \<Rightarrow> nat \<Rightarrow> 'b \<Rightarrow> bool"
    and wipe :: "'b \<Rightarrow> 'b" and full :: "'b \<Rightarrow> 'b" and rows :: nat and columns :: nat
  assumes mark_good: "good b \<Longrightarrow> x1 \<le> columns \<Longrightarrow> good (mark row x0 x1 b)"
    and mark_view: "row < rows \<Longrightarrow> x1 \<le> columns \<Longrightarrow> view (mark row x0 x1 b) = view b \<union> {row} \<times> {x0..<x1}"
    and test_view: "row < rows \<Longrightarrow> x1 \<le> columns \<Longrightarrow> test row x0 x1 b \<longleftrightarrow> (\<exists>c. x0 \<le> c \<and> c < x1 \<and> (row, c) \<in> view b)"
    and wipe_view: "good b \<Longrightarrow> good (wipe b) \<and> view (wipe b) = {}"
    and full_view: "good (full b) \<and> view (full b) = {..<rows} \<times> {..<columns}"
begin

lemma fold_mark:
  "good b \<Longrightarrow> x1 \<le> columns \<Longrightarrow> y1 \<le> rows \<Longrightarrow>
     good (fold (\<lambda>row. mark row x0 x1) [y0..<y1] b) \<and>
     view (fold (\<lambda>row. mark row x0 x1) [y0..<y1] b) = view b \<union> {y0..<y1} \<times> {x0..<x1}"
proof (induction y1)
  case 0
  then show ?case by simp
next
  case (Suc y1)
  show ?case
  proof (cases "y0 \<le> y1")
    case True
    let ?b = "fold (\<lambda>row. mark row x0 x1) [y0..<y1] b"
    have ih: "good ?b" "view ?b = view b \<union> {y0..<y1} \<times> {x0..<x1}" using Suc by simp_all
    have "view (mark y1 x0 x1 ?b) = view ?b \<union> {y1} \<times> {x0..<x1}"
      using Suc.prems by (intro mark_view) simp_all
    then show ?thesis using ih True Suc.prems(2) mark_good [OF ih(1) Suc.prems(2)]
      by (auto simp: less_Suc_eq)
  qed (use Suc.prems in simp)
qed

text \<open>A run over several rows is met exactly where the marked rectangle lies.\<close>

lemma test_after_rectangle:
  assumes "good b" and "x1 \<le> columns" and "y1 \<le> rows" and "row < rows" and "c1 \<le> columns"
  shows "test row c0 c1 (fold (\<lambda>row. mark row x0 x1) [y0..<y1] b) \<longleftrightarrow>
    test row c0 c1 b \<or> y0 \<le> row \<and> row < y1 \<and> max c0 x0 < min c1 x1"
proof -
  have "(\<exists>c. c0 \<le> c \<and> c < c1 \<and> x0 \<le> c \<and> c < x1) \<longleftrightarrow> max c0 x0 < min c1 x1"
    by (auto intro!: exI [of _ "max c0 x0"])
  then show ?thesis using fold_mark [OF assms(1-3), of x0 y0] assms(4,5) by (auto simp: test_view)
qed

lemma wiped_tests_nothing: "good b \<Longrightarrow> row < rows \<Longrightarrow> c1 \<le> columns \<Longrightarrow> \<not> test row c0 c1 (wipe b)"
  using wipe_view by (simp add: test_view)

end

interpretation bm: pixel_store bitmap_ok pixels bitmap_mark bitmap_any bitmap_clear fillAll kRows kColumns
  by unfold_locales (use bitmap_mark_ok pixels_mark bitmap_any_iff bitmap_clear_pixels fillAll_pixels in auto)

text \<open>
  C13: The bitmap refines a set of pixels: marking adds a run, testing asks whether a run meets the set, and clearing, which
  visits only the rows marked since the last clear, empties it.
\<close>

theorem bitmap_is_pixel_set:
  assumes "bitmap_ok b" and "row < kRows" and "x1 \<le> kColumns"
  shows "pixels (bitmap_mark row x0 x1 b) = pixels b \<union> {row} \<times> {x0..<x1} \<and> bitmap_ok (bitmap_mark row x0 x1 b) \<and>
    (bitmap_any row x0 x1 b \<longleftrightarrow> pixels b \<inter> {row} \<times> {x0..<x1} \<noteq> {}) \<and>
    pixels (bitmap_clear b) = {} \<and> bitmap_ok (bitmap_clear b) \<and>
    pixels (fillAll b) = {..<kRows} \<times> {..<kColumns} \<and> bitmap_ok (fillAll b)"
  using bm.wipe_view [OF assms(1)] bm.mark_view [OF assms(2,3)] bm.test_view [OF assms(2,3)]
    bm.mark_good [OF assms(1,3)] bm.full_view by auto

theorem bitmap_is_pixel_set_witness:
  "bitmap_any 3 100 140 (bitmap_mark 3 60 130 new_bitmap) \<and> pixels (bitmap_clear (bitmap_mark 3 60 130 new_bitmap)) = {}"
proof -
  have n: "bitmap_ok new_bitmap" by (simp add: bitmap_ok_def new_bitmap_def pixel_def)
  have l: "(3 :: nat) < kRows" "(130 :: nat) \<le> kColumns" "(140 :: nat) \<le> kColumns" by (simp_all add: kRows_def kColumns_def)
  note a = bitmap_is_pixel_set [OF n l(1,2), of 60]
  have ok: "bitmap_ok (bitmap_mark 3 60 130 new_bitmap)" using a by blast
  note b = bitmap_is_pixel_set [OF ok l(1,3), of 100]
  have "(3, 100) \<in> pixels (bitmap_mark 3 60 130 new_bitmap) \<inter> {3} \<times> {100..<140}" using a by simp
  then show ?thesis using b by blast
qed

end
