(* ===== verification/Texture_Feedback.thy ===== *)
theory Texture_Feedback
  imports Frame_Record Vram_Bitmap
begin

text \<open>
  The VRAM a record's entries write (\<open>psx/gpu/record_geometry.cpp\<close>), and which textured draws may read pixels that were
  drawn since the device last invalidated its texture cache (\<open>psx/gpu/texture_feedback.cpp\<close>).
\<close>

section \<open>Extents\<close>

record RecordRect =
  rr_x0 :: int
  rr_y0 :: int
  rr_x1 :: int
  rr_y1 :: int

definition empty_rect :: RecordRect where
  "empty_rect = \<lparr>rr_x0 = 0, rr_y0 = 0, rr_x1 = 0, rr_y1 = 0\<rparr>"

text \<open>\<open>std::clamp\<close>.\<close>

definition clamp :: "int \<Rightarrow> int \<Rightarrow> int \<Rightarrow> int" where
  "clamp v low high = (if v < low then low else if high < v then high else v)"

definition clampedVramRect :: "VramRect \<Rightarrow> RecordRect" where
  "clampedVramRect r =
     (let x0 = clamp (vr_x r) 0 kVramWidth; y0 = clamp (vr_y r) 0 kVramHeight
      in \<lparr>rr_x0 = x0, rr_y0 = y0, rr_x1 = clamp (vr_x r + vr_width r) x0 kVramWidth,
          rr_y1 = clamp (vr_y r + vr_height r) y0 kVramHeight\<rparr>)"

definition rectsOverlap :: "RecordRect \<Rightarrow> RecordRect \<Rightarrow> bool" where
  "rectsOverlap a b \<longleftrightarrow> rr_x0 a < rr_x1 b \<and> rr_x0 b < rr_x1 a \<and> rr_y0 a < rr_y1 b \<and> rr_y0 b < rr_y1 a"

definition extend_to :: "RecordVertex \<Rightarrow> RecordRect \<Rightarrow> RecordRect" where
  "extend_to v r = \<lparr>rr_x0 = min (rr_x0 r) (rv_x v), rr_y0 = min (rr_y0 r) (rv_y v), rr_x1 = max (rr_x1 r) (rv_x v),
     rr_y1 = max (rr_y1 r) (rv_y v)\<rparr>"

definition drawBounds :: "DrawPrimitive \<Rightarrow> RecordRect" where
  "drawBounds p =
     (let v0 = dp_vertices p ! 0;
          r = (if dp_kind p = SpriteKind
               then \<lparr>rr_x0 = rv_x v0, rr_y0 = rv_y v0, rr_x1 = rv_x v0 + dp_width p, rr_y1 = rv_y v0 + dp_height p\<rparr>
               else let b = fold extend_to (map (\<lambda>i. dp_vertices p ! i) [1..<dp_vertexCount p])
                              \<lparr>rr_x0 = rv_x v0, rr_y0 = rv_y v0, rr_x1 = rv_x v0, rr_y1 = rv_y v0\<rparr>
                    in b\<lparr>rr_x1 := rr_x1 b + 1, rr_y1 := rr_y1 b + 1\<rparr>);
          s = dp_state p;
          c = \<lparr>rr_x0 = max (max (rr_x0 r) (ds_clipX0 s)) 0, rr_y0 = max (max (rr_y0 r) (ds_clipY0 s)) 0,
               rr_x1 = min (min (rr_x1 r) (ds_clipX1 s + 1)) kVramWidth,
               rr_y1 = min (min (rr_y1 r) (ds_clipY1 s + 1)) kVramHeight\<rparr>
      in if rr_x1 c \<le> rr_x0 c \<or> rr_y1 c \<le> rr_y0 c then empty_rect else c)"

definition entryWrittenRect :: "RecordEntry \<Rightarrow> RecordRect option" where
  "entryWrittenRect e =
     (case e of
        EDraw p \<Rightarrow> Some (drawBounds p)
      | EFill f \<Rightarrow> Some (clampedVramRect \<lparr>vr_x = vf_x f, vr_y = vf_y f, vr_width = vf_width f, vr_height = vf_height f\<rparr>)
      | ECopy c \<Rightarrow>
          if vc_srcX c = vc_dstX c \<and> vc_srcY c = vc_dstY c then None
          else Some (clampedVramRect \<lparr>vr_x = vc_dstX c, vr_y = vc_dstY c, vr_width = vc_width c, vr_height = vc_height c\<rparr>)
      | EUpload u \<Rightarrow> Some (clampedVramRect \<lparr>vr_x = vu_x u, vr_y = vu_y u, vr_width = vu_width u, vr_height = vu_height u\<rparr>)
      | EReadBack _ \<Rightarrow> None)"

definition entryWritesRect :: "RecordEntry \<Rightarrow> RecordRect \<Rightarrow> bool" where
  "entryWritesRect e r = (case entryWrittenRect e of None \<Rightarrow> False | Some w \<Rightarrow> rectsOverlap w r)"

section \<open>Written pixels\<close>

record TextureFeedback =
  tf_written :: VramBitmap
  tf_pageX :: int
  tf_pageY :: int
  tf_nonFourBit :: bool
  tf_texDisable :: bool

definition new_feedback :: TextureFeedback where
  "new_feedback = \<lparr>tf_written = new_bitmap, tf_pageX = 0, tf_pageY = 0, tf_nonFourBit = False, tf_texDisable = False\<rparr>"

definition feedback_invalidate :: "TextureFeedback \<Rightarrow> TextureFeedback" where
  "feedback_invalidate f = f\<lparr>tf_written := bitmap_clear (tf_written f)\<rparr>"

definition texturePage :: "RecordDrawState \<Rightarrow> bool \<Rightarrow> TextureFeedback \<Rightarrow> TextureFeedback" where
  "texturePage state texDisable f =
     (let notFourBit = ds_texMode state \<noteq> 0;
          f1 = (if notFourBit \<noteq> tf_nonFourBit f \<or> ds_texPageX state \<noteq> tf_pageX f \<or> ds_texPageY state \<noteq> tf_pageY f \<or>
                   texDisable \<noteq> tf_texDisable f
                then feedback_invalidate f else f)
      in f1\<lparr>tf_nonFourBit := notFourBit, tf_pageX := ds_texPageX state, tf_pageY := ds_texPageY state,
            tf_texDisable := texDisable\<rparr>)"

definition feedback_invalidateAll :: "TextureFeedback \<Rightarrow> TextureFeedback" where
  "feedback_invalidateAll f = f\<lparr>tf_written := fillAll (tf_written f)\<rparr>"

definition feedback_written :: "RecordRect \<Rightarrow> TextureFeedback \<Rightarrow> TextureFeedback" where
  "feedback_written r f =
     (let x0 = max (rr_x0 r) 0; y0 = max (rr_y0 r) 0; x1 = min (rr_x1 r) kVramWidth; y1 = min (rr_y1 r) kVramHeight
      in if x1 \<le> x0 \<or> y1 \<le> y0 then f
         else f\<lparr>tf_written := fold (\<lambda>row. bitmap_mark row (nat x0) (nat x1)) [nat y0..<nat y1] (tf_written f)\<rparr>)"

definition testWrapped :: "TextureFeedback \<Rightarrow> nat \<Rightarrow> nat \<Rightarrow> nat \<Rightarrow> bool" where
  "testWrapped f row x0 x1 =
     (if x1 \<le> kColumns then bitmap_any row x0 x1 (tf_written f)
      else bitmap_any row x0 kColumns (tf_written f) \<or>
           bitmap_any row 0 (min (x1 - kColumns) kColumns) (tf_written f))"

definition kTexelMax :: int where "kTexelMax = 255"

text \<open>First and last texel.\<close>

definition sampledSpan :: "int \<Rightarrow> int \<Rightarrow> int \<Rightarrow> int \<times> int" where
  "sampledSpan first' last' windowMask =
     (if windowMask \<noteq> 0 \<or> first' < 0 \<or> last' > kTexelMax then (0, kTexelMax) else (first', last'))"

definition texelShift :: "int \<Rightarrow> nat" where
  "texelShift texMode = nat (2 - clamp texMode 0 2)"

text \<open>The least and greatest coordinate of a polygon's vertices.\<close>

definition vertex_span :: "(RecordVertex \<Rightarrow> u8) \<Rightarrow> DrawPrimitive \<Rightarrow> int \<times> int" where
  "vertex_span coord p =
     fold (\<lambda>i (a, b). (min a (uint (coord (dp_vertices p ! i))), max b (uint (coord (dp_vertices p ! i)))))
       [1..<dp_vertexCount p] (uint (coord (dp_vertices p ! 0)), uint (coord (dp_vertices p ! 0)))"

definition sampled_spans :: "DrawPrimitive \<Rightarrow> (int \<times> int) \<times> (int \<times> int)" where
  "sampled_spans p =
     (let s = dp_state p; v0 = dp_vertices p ! 0; ou = uint (rv_u v0); ov = uint (rv_v v0) in
      if dp_kind p = SpriteKind then
        (let spanU = max (dp_width p - 1) 0; spanV = max (dp_height p - 1) 0
         in (sampledSpan (if dp_flipX p then ou - spanU else ou) (if dp_flipX p then ou else ou + spanU) (ds_windowMaskX s),
             sampledSpan (if dp_flipY p then ov - spanV else ov) (if dp_flipY p then ov else ov + spanV) (ds_windowMaskY s)))
      else
        (let (u0, u1) = vertex_span rv_u p; (v0', v1) = vertex_span rv_v p
         in (sampledSpan (max (u0 - 1) 0) (min (u1 + 1) kTexelMax) (ds_windowMaskX s),
             sampledSpan (max (v0' - 1) 0) (min (v1 + 1) kTexelMax) (ds_windowMaskY s))))"

definition overlapsSampled :: "TextureFeedback \<Rightarrow> DrawPrimitive \<Rightarrow> bool" where
  "overlapsSampled f p =
     (let s = dp_state p; (u, v) = sampled_spans p; shift = texelShift (ds_texMode s);
          x0 = ds_texPageX s + drop_bit shift (fst u);
          x1 = ds_texPageX s + drop_bit shift (snd u) + 1
      in list_ex (\<lambda>texel. testWrapped f (nat ((ds_texPageY s + texel) mod kVramHeight)) (nat x0) (nat x1)) [fst v..snd v])"

definition feedback_drawn :: "DrawPrimitive \<Rightarrow> TextureFeedback \<Rightarrow> bool \<times> TextureFeedback" where
  "feedback_drawn p f =
     (let f1 = feedback_written (drawBounds p) f in (dp_textured p \<and> overlapsSampled f1 p, f1))"

section \<open>What the tracking catches\<close>

definition feedback_ok :: "TextureFeedback \<Rightarrow> bool" where
  "feedback_ok f \<longleftrightarrow> bitmap_ok (tf_written f)"

text \<open>Marking a rectangle adds exactly its pixels inside VRAM.\<close>

lemma written_pixels:
  "feedback_ok f \<Longrightarrow> feedback_ok (feedback_written r f) \<and>
     pixels (tf_written (feedback_written r f)) = pixels (tf_written f) \<union>
       {(row, c). row < kRows \<and> c < kColumns \<and> rr_y0 r \<le> int row \<and> int row < rr_y1 r \<and> rr_x0 r \<le> int c \<and> int c < rr_x1 r}"
proof -
  assume ok: "feedback_ok f"
  let ?x0 = "nat (max (rr_x0 r) 0)" and ?x1 = "nat (min (rr_x1 r) kVramWidth)"
  let ?y0 = "nat (max (rr_y0 r) 0)" and ?y1 = "nat (min (rr_y1 r) kVramHeight)"
  have b: "?x1 \<le> kColumns" "?y1 \<le> kRows" by (simp_all add: kVramWidth_def kVramHeight_def kColumns_def kRows_def)
  note m = bm.fold_mark [OF ok [unfolded feedback_ok_def] b, of ?x0 ?y0]
  have e: "{(row, c). row < kRows \<and> c < kColumns \<and> rr_y0 r \<le> int row \<and> int row < rr_y1 r \<and> rr_x0 r \<le> int c \<and> int c < rr_x1 r} =
      {?y0..<?y1} \<times> {?x0..<?x1}"
    by (auto simp: kVramWidth_def kVramHeight_def kColumns_def kRows_def)
  show ?thesis unfolding e
  proof (cases "min (rr_x1 r) kVramWidth \<le> max (rr_x0 r) 0 \<or> min (rr_y1 r) kVramHeight \<le> max (rr_y0 r) 0")
    case True
    then have "?x1 \<le> ?x0 \<or> ?y1 \<le> ?y0" by (auto intro: nat_mono)
    then have e: "{?y0..<?y1} \<times> {?x0..<?x1} = {}" by auto
    have fw: "feedback_written r f = f" using True by (simp add: feedback_written_def Let_def)
    show "feedback_ok (feedback_written r f) \<and> pixels (tf_written (feedback_written r f)) = pixels (tf_written f) \<union> {?y0..<?y1} \<times> {?x0..<?x1}"
      unfolding fw e using ok by simp
  next
    case False
    then show "feedback_ok (feedback_written r f) \<and> pixels (tf_written (feedback_written r f)) = pixels (tf_written f) \<union> {?y0..<?y1} \<times> {?x0..<?x1}"
      using m by (simp add: feedback_written_def Let_def feedback_ok_def)
  qed
qed

lemma feedback_ok_ops [inv_intros]:
  "feedback_ok f \<Longrightarrow> feedback_ok (feedback_invalidate f)"
  "feedback_ok (feedback_invalidateAll f)"
  "feedback_ok f \<Longrightarrow> feedback_ok (texturePage st d f)"
  "feedback_ok f \<Longrightarrow> feedback_ok (snd (feedback_drawn p f))"
  using written_pixels
  by (simp_all add: feedback_ok_def feedback_invalidate_def feedback_invalidateAll_def texturePage_def feedback_drawn_def
      bitmap_clear_pixels fillAll_pixels Let_def)

text \<open>A row's run that may pass the right edge.\<close>

lemma testWrapped_iff:
  "row < kRows \<Longrightarrow> x1 \<le> 2 * kColumns \<Longrightarrow> x0 \<le> x \<Longrightarrow> x < x1 \<Longrightarrow> (row, x mod kColumns) \<in> pixels (tf_written f) \<Longrightarrow>
     testWrapped f row x0 x1"
proof -
  assume a: "row < kRows" "x1 \<le> 2 * kColumns" "x0 \<le> x" "x < x1" "(row, x mod kColumns) \<in> pixels (tf_written f)"
  show ?thesis
  proof (cases "x < kColumns")
    case True
    then have "(row, x) \<in> pixels (tf_written f)" using a(5) by simp
    then show ?thesis using a True by (auto simp: testWrapped_def bitmap_any_iff)
  next
    case False
    then have "x mod kColumns = x - kColumns" using a by (simp add: mod_if le_mod_geq)
    moreover have "x - kColumns < min (x1 - kColumns) kColumns" "\<not> x1 \<le> kColumns" using a False by auto
    ultimately show ?thesis using a(1,5) by (auto simp: testWrapped_def bitmap_any_iff)
  qed
qed

text \<open>The texels a primitive may sample, before the page base and in halfwords.\<close>

definition samples :: "DrawPrimitive \<Rightarrow> int \<Rightarrow> int \<Rightarrow> bool" where
  "samples p u v \<longleftrightarrow> fst (fst (sampled_spans p)) \<le> u \<and> u \<le> snd (fst (sampled_spans p)) \<and>
     fst (snd (sampled_spans p)) \<le> v \<and> v \<le> snd (snd (sampled_spans p))"

definition texel_halfword :: "RecordDrawState \<Rightarrow> int \<Rightarrow> int \<Rightarrow> nat \<times> nat" where
  "texel_halfword s u v = (nat ((ds_texPageY s + v) mod kVramHeight),
     nat ((ds_texPageX s + drop_bit (texelShift (ds_texMode s)) u) mod kVramWidth))"

lemma sampledSpan_range: "0 \<le> fst (sampledSpan a b m) \<and> snd (sampledSpan a b m) \<le> 255"
  by (auto simp: sampledSpan_def kTexelMax_def)

lemma samples_range: "samples p u v \<Longrightarrow> 0 \<le> u \<and> u \<le> 255 \<and> 0 \<le> v \<and> v \<le> 255"
  unfolding samples_def sampled_spans_def Let_def split_def
  using sampledSpan_range by (auto split: if_splits intro: order_trans)

lemma drop_bit_mono_int: "u \<le> v \<Longrightarrow> drop_bit n u \<le> drop_bit n (v :: int)"
  by (simp add: drop_bit_eq_div zdiv_mono1)

lemma overlapsSampled_catches:
  assumes "\<not> overlapsSampled f p" and "samples p u v" and "0 \<le> ds_texPageX (dp_state p)" and "ds_texPageX (dp_state p) \<le> 960"
  shows "texel_halfword (dp_state p) u v \<notin> pixels (tf_written f)"
proof
  let ?s = "dp_state p" and ?U = "fst (sampled_spans p)" and ?V = "snd (sampled_spans p)"
  let ?sh = "texelShift (ds_texMode ?s)"
  let ?row = "nat ((ds_texPageY ?s + v) mod kVramHeight)"
  let ?x0 = "ds_texPageX ?s + drop_bit ?sh (fst ?U)" and ?x1 = "ds_texPageX ?s + drop_bit ?sh (snd ?U) + 1"
  let ?col = "ds_texPageX ?s + drop_bit ?sh u"
  assume t: "texel_halfword ?s u v \<in> pixels (tf_written f)"
  have uv: "fst ?U \<le> u" "u \<le> snd ?U" "fst ?V \<le> v" "v \<le> snd ?V" using assms(2) by (auto simp: samples_def split_def)
  have u255: "0 \<le> u" "snd ?U \<le> 255"
    using samples_range [OF assms(2)] sampledSpan_range by (auto simp: sampled_spans_def Let_def split_def)
  have row: "?row < kRows" by (simp add: kVramHeight_def kRows_def nat_less_iff)
  have d: "0 \<le> drop_bit ?sh u" "drop_bit ?sh (fst ?U) \<le> drop_bit ?sh u" "drop_bit ?sh u \<le> drop_bit ?sh (snd ?U)"
    using uv u255(1) by (simp_all add: drop_bit_mono_int)
  have "drop_bit ?sh (snd ?U) \<le> 255"
  proof -
    have "drop_bit ?sh (snd ?U) \<le> drop_bit ?sh 255" using u255(2) by (rule drop_bit_mono_int)
    also have "\<dots> \<le> (255 :: int)" using zdiv_mono2 [of 255 1 "2 ^ ?sh"] by (simp add: drop_bit_eq_div)
    finally show ?thesis .
  qed
  then have "?x1 \<le> 1216" "?x0 \<le> ?col" "?col < ?x1" "0 \<le> ?col" using d assms(3,4) by linarith+
  then have x: "nat ?x0 \<le> nat ?col" "nat ?col < nat ?x1" "nat ?x1 \<le> 2 * kColumns"
    by (auto simp: kColumns_def intro: nat_mono)
  have "nat ?col mod kColumns = nat (?col mod kVramWidth)"
    using d(1) assms(3) by (simp add: kColumns_def kVramWidth_def nat_mod_distrib)
  then have "testWrapped f ?row (nat ?x0) (nat ?x1)"
    using testWrapped_iff [OF row x(3,1,2)] t by (simp add: texel_halfword_def)
  then have "overlapsSampled f p"
    using uv(3,4) by (auto simp: overlapsSampled_def Let_def split_def list_ex_iff intro!: bexI [of _ v])
  then show False using assms(1) by simp
qed

text \<open>
  A texel coordinate through the texture window: the mask's bits of the coordinate are replaced by those of the offset, both
  in steps of eight texels (\<open>record_raster_setup.cpp\<close>, the operands \<open>kOpWindowXAnd\<close> and \<open>kOpWindowXAdd\<close>, without the page).
\<close>

definition window_texel :: "int \<Rightarrow> int \<Rightarrow> int \<Rightarrow> int" where
  "window_texel wm offset c = (c AND NOT (push_bit 3 wm)) + push_bit 3 (offset AND wm)"

lemma window_texel_none [simp]: "window_texel 0 offset c = c"
  by (simp add: window_texel_def)

lemma window_texel_range:
  assumes "0 \<le> wm" "wm < 32" "0 \<le> offset" "offset < 32" "0 \<le> c" "c \<le> 255"
  shows "0 \<le> window_texel wm offset c \<and> window_texel wm offset c \<le> 255"
proof -
  let ?a = "c AND NOT (push_bit 3 wm)" and ?b = "push_bit 3 (offset AND wm)"
  have "?a AND ?b = 0" by (rule bit_eqI) (auto simp: bit_simps)
  then have e: "window_texel wm offset c = ?a OR ?b" by (simp add: window_texel_def disjunctive_add_eq_or)
  have a: "0 \<le> ?a" "?a \<le> c" using assms(5) by (simp_all add: AND_upper1)
  have "offset AND wm \<le> offset" "0 \<le> offset AND wm" using assms by (simp_all add: AND_upper1)
  then have b: "0 \<le> ?b" "?b < 2 ^ 8" using assms by (simp_all add: push_bit_eq_mult)
  have "?a OR ?b < 2 ^ 8" by (rule OR_upper) (use a b assms in simp_all)
  then show ?thesis unfolding e using a b by simp
qed

text \<open>What a sprite really samples lies among those texels: the coordinate it has stepped to, through the window.\<close>

definition sprite_texel :: "bool \<Rightarrow> u8 \<Rightarrow> int \<Rightarrow> int" where
  "sprite_texel flip c k = (if flip then uint c - k else uint c + k) mod 256"

definition window_fields :: "RecordDrawState \<Rightarrow> bool" where
  "window_fields s \<longleftrightarrow> ds_windowMaskX s \<in> {0..<32} \<and> ds_windowMaskY s \<in> {0..<32} \<and>
     ds_windowOffsetX s \<in> {0..<32} \<and> ds_windowOffsetY s \<in> {0..<32}"

definition sprite_reads :: "DrawPrimitive \<Rightarrow> int \<Rightarrow> int \<Rightarrow> nat \<times> nat" where
  "sprite_reads p i j =
     (let s = dp_state p; v0 = dp_vertices p ! 0 in
      texel_halfword s
        (window_texel (ds_windowMaskX s) (ds_windowOffsetX s) (sprite_texel (dp_flipX p) (rv_u v0) i))
        (window_texel (ds_windowMaskY s) (ds_windowOffsetY s) (sprite_texel (dp_flipY p) (rv_v v0) j)))"

lemma sprite_span:
  fixes flip :: bool and c :: u8 and k n wm offset :: int
  assumes "0 \<le> k" "k \<le> n" "0 \<le> wm" "wm < 32" "0 \<le> offset" "offset < 32"
  defines "first' \<equiv> if flip then uint c - n else uint c" and "last' \<equiv> if flip then uint c else uint c + n"
  shows "fst (sampledSpan first' last' wm) \<le> window_texel wm offset (sprite_texel flip c k) \<and>
    window_texel wm offset (sprite_texel flip c k) \<le> snd (sampledSpan first' last' wm)"
proof -
  have c: "0 \<le> uint c" "uint c < 256" using unsigned_less [of c] by simp_all
  have r: "0 \<le> sprite_texel flip c k" "sprite_texel flip c k \<le> 255" by (simp_all add: sprite_texel_def)
  show ?thesis
  proof (cases "wm \<noteq> 0 \<or> first' < 0 \<or> last' > 255")
    case True
    then show ?thesis using window_texel_range [OF assms(3-6) r] by (auto simp: sampledSpan_def kTexelMax_def)
  next
    case False
    then have "sprite_texel flip c k = (if flip then uint c - k else uint c + k)"
      using assms(1,2) c unfolding sprite_texel_def first'_def last'_def
      by (auto intro!: mod_pos_pos_trivial split: if_splits)
    then show ?thesis using False assms(1,2) by (auto simp: sampledSpan_def kTexelMax_def first'_def last'_def)
  qed
qed

lemma sprite_samples:
  assumes "dp_kind p = SpriteKind" and "0 \<le> i" and "i < dp_width p" and "0 \<le> j" and "j < dp_height p"
    and "window_fields (dp_state p)"
  defines "s \<equiv> dp_state p" and "v0 \<equiv> dp_vertices p ! 0"
  shows "samples p (window_texel (ds_windowMaskX s) (ds_windowOffsetX s) (sprite_texel (dp_flipX p) (rv_u v0) i))
    (window_texel (ds_windowMaskY s) (ds_windowOffsetY s) (sprite_texel (dp_flipY p) (rv_v v0) j))"
proof -
  have n: "i \<le> max (dp_width p - 1) 0" "j \<le> max (dp_height p - 1) 0" using assms by auto
  have w: "0 \<le> ds_windowMaskX s" "ds_windowMaskX s < 32" "0 \<le> ds_windowOffsetX s" "ds_windowOffsetX s < 32"
    "0 \<le> ds_windowMaskY s" "ds_windowMaskY s < 32" "0 \<le> ds_windowOffsetY s" "ds_windowOffsetY s < 32"
    using assms(6) by (simp_all add: window_fields_def s_def)
  show ?thesis
    using sprite_span [OF assms(2) n(1) w(1-4), of "dp_flipX p" "rv_u v0"] sprite_span [OF assms(4) n(2) w(5-8), of "dp_flipY p" "rv_v v0"]
      assms(1)
    unfolding s_def v0_def
    by (cases "dp_flipX p"; cases "dp_flipY p") (simp_all add: samples_def sampled_spans_def Let_def)
qed

lemma clipped_in_vram:
  "rr_x1 (if C then empty_rect else \<lparr>rr_x0 = a, rr_y0 = b, rr_x1 = min c kVramWidth, rr_y1 = min d kVramHeight\<rparr>) \<le> 1024 \<and>
   rr_y1 (if C then empty_rect else \<lparr>rr_x0 = a, rr_y0 = b, rr_x1 = min c kVramWidth, rr_y1 = min d kVramHeight\<rparr>) \<le> 512"
  by (simp add: empty_rect_def kVramWidth_def kVramHeight_def)

lemma drawBounds_in_vram: "rr_x1 (drawBounds p) \<le> 1024 \<and> rr_y1 (drawBounds p) \<le> 512"
  unfolding drawBounds_def Let_def by (rule clipped_in_vram)


definition small_sprite :: DrawPrimitive where
  "small_sprite = new_primitive\<lparr>dp_kind := SpriteKind, dp_vertexCount := 1, dp_textured := True, dp_width := 1, dp_height := 1,
     dp_vertices := new_vertex\<lparr>rv_x := 100, rv_y := 100\<rparr> # replicate 3 new_vertex,
     dp_state := new_draw_state\<lparr>ds_clipX1 := 1023, ds_clipY1 := 511, ds_windowMaskX := 1, ds_windowOffsetX := 1\<rparr>\<rparr>"

lemma small_sprite_bounds: "drawBounds small_sprite = \<lparr>rr_x0 = 100, rr_y0 = 100, rr_x1 = 101, rr_y1 = 101\<rparr>"
  by (simp add: drawBounds_def small_sprite_def new_primitive_def new_draw_state_def new_vertex_def Let_def
      kVramWidth_def kVramHeight_def)

lemma small_sprite_clean: "\<exists>f'. feedback_drawn small_sprite new_feedback = (False, f')"
proof -
  let ?b = "bitmap_mark 100 100 101 new_bitmap"
  have w: "feedback_written \<lparr>rr_x0 = 100, rr_y0 = 100, rr_x1 = 101, rr_y1 = 101\<rparr> new_feedback = new_feedback\<lparr>tf_written := ?b\<rparr>"
    by (simp add: feedback_written_def Let_def kVramWidth_def kVramHeight_def new_feedback_def upt_rec)
  have "pixels new_bitmap = {}" by (simp add: pixels_def pixel_def new_bitmap_def)
  then have "pixels ?b = {(100, 100)}" by (auto simp: pixels_mark kRows_def kColumns_def)
  then have "\<not> bitmap_any 0 0 64 ?b" by (subst bitmap_any_iff) (simp_all add: kRows_def kColumns_def)
  then have "\<not> overlapsSampled (new_feedback\<lparr>tf_written := ?b\<rparr>) small_sprite"
    by (simp add: overlapsSampled_def sampled_spans_def small_sprite_def new_primitive_def new_draw_state_def
        new_vertex_def Let_def sampledSpan_def kTexelMax_def testWrapped_def kColumns_def texelShift_def clamp_def new_feedback_def kVramHeight_def)
  then show ?thesis by (simp add: feedback_drawn_def Let_def small_sprite_bounds w)
qed


end
