(* ===== verification/Gp0_Tap.thy ===== *)
theory Gp0_Tap
  imports Gp0_Decode Texture_Feedback
begin

text \<open>
  The record tap (\<open>psx/gpu/gp0_record_tap.cpp\<close>): it frames the GP0 word stream as the device does, appends what each
  command did to the frame record, and checks after every word that the device agrees. The device itself is Beetle's, so
  a step takes the probe that was read from it after it consumed the word.
\<close>

section \<open>State\<close>

datatype DeviceCommandState = DevNone | DevPolyLine | DevQuad | DevUpload | DevRead

record DeviceProbe =
  pr_command :: DeviceCommandState
  pr_fifoDepth :: nat
  pr_dispatched :: nat
  pr_wordDropped :: bool
  pr_state :: RecordDrawState
  pr_texDisable :: bool
  pr_spriteFlipX :: bool
  pr_spriteFlipY :: bool
  pr_clutTag :: u32
  pr_clut :: "u16 list"
  pr_vram :: "u16 list"

record Gp0Origin =
  or_sourceAddress :: u32
  or_packetKey :: "RecordKey option"
  or_owner :: u32
  or_mixedOwner :: u32
  or_depth :: u32

datatype Mode = CommandMode | QuadTailMode | PolyLineMode | UploadMode | ReadMode

record Gp0RecordTap =
  nextSequence :: u64
  tap_record :: FrameRecord
  synced :: bool
  tap_mode :: Mode
  tap_words :: "u32 list"
  depths :: "u32 list"
  need :: nat
  packetSource :: u32
  packetKey :: "RecordKey option"
  packetOwner :: u32
  packetMixed :: u32
  packetCommand :: u8
  lastKey :: "RecordKey option"
  tap_slot :: "OtSlot option"
  expectedDispatches :: nat
  quadOpcode :: u32
  linePoint :: RecordVertex
  polyLineOpcode :: u32
  polyLineSource :: u32
  polyLineKey :: "RecordKey option"
  polyLineOwner :: u32
  polyLineMixed :: u32
  pending_upload :: VramUpload
  uploadRemaining :: nat
  uploadPixels :: "u16 list"
  feedback :: TextureFeedback
  tap_clutTag :: u32
  tap_clutOffset :: u32

definition kInvalidClutTag :: u32 where "kInvalidClutTag = 0xFFFFFFFF"

definition new_tap :: Gp0RecordTap where
  "new_tap = \<lparr>nextSequence = 2, tap_record = reset_record 1 True, synced = True, tap_mode = CommandMode, tap_words = [],
     depths = replicate 16 0, need = 0, packetSource = 0, packetKey = None, packetOwner = 0, packetMixed = 0,
     packetCommand = 0, lastKey = None, tap_slot = None, expectedDispatches = 0, quadOpcode = 0, linePoint = new_vertex,
     polyLineOpcode = 0, polyLineSource = 0, polyLineKey = None, polyLineOwner = 0, polyLineMixed = 0,
     pending_upload = new_upload, uploadRemaining = 0, uploadPixels = [], feedback = new_feedback,
     tap_clutTag = kInvalidClutTag, tap_clutOffset = kNoClut\<rparr>"

definition on_record :: "(FrameRecord \<Rightarrow> FrameRecord) \<Rightarrow> Gp0RecordTap \<Rightarrow> Gp0RecordTap" where
  "on_record f t = t\<lparr>tap_record := f (tap_record t)\<rparr>"

definition on_feedback :: "(TextureFeedback \<Rightarrow> TextureFeedback) \<Rightarrow> Gp0RecordTap \<Rightarrow> Gp0RecordTap" where
  "on_feedback f t = t\<lparr>feedback := f (feedback t)\<rparr>"

section \<open>Framing\<close>

definition vertexWords :: "u32 \<Rightarrow> nat" where
  "vertexWords w = 1 + (if textured (command_flags w) then 1 else 0) + (if gouraud (command_flags w) then 1 else 0)"

definition firstDispatchWords :: "u32 \<Rightarrow> nat" where
  "firstDispatchWords w =
     (if isPolygon w \<and> polygonVertexCount w = 4 then packetWordCount w - vertexWords w else packetWordCount w)"

definition resetFraming :: "Gp0RecordTap \<Rightarrow> Gp0RecordTap" where
  "resetFraming t = t\<lparr>tap_mode := CommandMode, tap_words := [], need := 0, uploadRemaining := 0, uploadPixels := []\<rparr>"

definition desync :: "Gp0RecordTap \<Rightarrow> Gp0RecordTap" where
  "desync t = resetFraming ((on_feedback feedback_invalidateAll (on_record markIncomplete t))\<lparr>synced := False\<rparr>)"

definition resyncIfIdle :: "DeviceProbe \<Rightarrow> Gp0RecordTap \<Rightarrow> Gp0RecordTap" where
  "resyncIfIdle probe t =
     (if pr_command probe = DevNone \<and> pr_fifoDepth probe = 0 then resetFraming (t\<lparr>synced := True\<rparr>) else t)"

definition mode_agrees :: "DeviceProbe \<Rightarrow> Gp0RecordTap \<Rightarrow> bool" where
  "mode_agrees probe t =
     (case tap_mode t of
        CommandMode \<Rightarrow> pr_command probe = DevNone \<and> pr_fifoDepth probe = length (tap_words t)
      | QuadTailMode \<Rightarrow> pr_command probe = DevQuad \<and> pr_fifoDepth probe = length (tap_words t)
      | PolyLineMode \<Rightarrow> pr_command probe = DevPolyLine \<and> pr_fifoDepth probe = length (tap_words t)
      | UploadMode \<Rightarrow> pr_command probe = DevUpload \<and> pr_fifoDepth probe = 0
      | ReadMode \<Rightarrow> pr_command probe = DevRead)"

definition agrees :: "DeviceProbe \<Rightarrow> Gp0RecordTap \<Rightarrow> bool" where
  "agrees probe t \<longleftrightarrow> \<not> pr_wordDropped probe \<and> pr_dispatched probe = expectedDispatches t \<and> mode_agrees probe t"

definition tap_verify :: "DeviceProbe \<Rightarrow> Gp0RecordTap \<Rightarrow> Gp0RecordTap" where
  "tap_verify probe t = (if agrees probe t then t else resyncIfIdle probe (desync t))"

section \<open>Recording\<close>

definition nextPrimitiveKey :: "Gp0RecordTap \<Rightarrow> RecordKey option \<times> Gp0RecordTap" where
  "nextPrimitiveKey t =
     (case packetKey t of
        None \<Rightarrow> (None, t)
      | Some key \<Rightarrow>
          let key' = (case lastKey t of
                        Some l \<Rightarrow> if rk_producer l = rk_producer key \<and> rk_object l = rk_object key \<and> rk_element l = rk_element key
                                  then key\<lparr>rk_part := rk_part l + 1\<rparr> else key
                      | None \<Rightarrow> key)
          in (Some key', t\<lparr>lastKey := Some key'\<rparr>))"

definition noteDepth :: "Gp0Origin \<Rightarrow> Gp0RecordTap \<Rightarrow> Gp0RecordTap" where
  "noteDepth origin t =
     (if length (tap_words t) < length (depths t) then t\<lparr>depths := (depths t)[length (tap_words t) := or_depth origin]\<rparr> else t)"

definition wordDepth :: "Gp0RecordTap \<Rightarrow> nat \<Rightarrow> u32" where
  "wordDepth t index = (if index < length (depths t) then depths t ! index else 0)"

definition stampPacket :: "DrawPrimitive \<Rightarrow> Gp0RecordTap \<Rightarrow> DrawPrimitive \<times> Gp0RecordTap" where
  "stampPacket p t =
     (let (key, t1) = nextPrimitiveKey t
      in (p\<lparr>dp_key := key, dp_slot := tap_slot t1, dp_owner := packetOwner t1, dp_mixedOwner := packetMixed t1,
            dp_command := packetCommand t1\<rparr>, t1))"

definition captureClut :: "DeviceProbe \<Rightarrow> Gp0RecordTap \<Rightarrow> u32 \<times> Gp0RecordTap" where
  "captureClut probe t =
     (if ds_texMode (pr_state probe) \<ge> 2 then (kNoClut, t)
      else if pr_clutTag probe \<noteq> tap_clutTag t \<or> tap_clutOffset t = kNoClut
      then let (offset, r) = appendClut (take (clutEntryCount (tex_depth (nat (ds_texMode (pr_state probe))))) (pr_clut probe))
                               (tap_record t)
           in (offset, t\<lparr>tap_record := r, tap_clutOffset := offset, tap_clutTag := pr_clutTag probe\<rparr>)
      else (tap_clutOffset t, t))"

text \<open>The rows of VRAM inside a rectangle.\<close>

definition vram_rows :: "u16 list \<Rightarrow> RecordRect \<Rightarrow> u16 list" where
  "vram_rows vram r =
     concat (map (\<lambda>y. take (nat (rr_x1 r - rr_x0 r)) (drop (nat y * nat kVramWidth + nat (rr_x0 r)) vram)) [rr_y0 r..rr_y1 r - 1])"

definition settleLast :: "DeviceProbe \<Rightarrow> Gp0RecordTap \<Rightarrow> Gp0RecordTap" where
  "settleLast probe t =
     (case record_last (tap_record t) of
        Some (EDraw p) \<Rightarrow>
          (case feedback_drawn p (feedback t) of
             (stale, f) \<Rightarrow>
               let t1 = t\<lparr>feedback := f\<rparr>; r = drawBounds p in
               if \<not> stale then t1
               else if rr_x1 r \<le> rr_x0 r \<or> rr_y1 r \<le> rr_y0 r then t1
               else on_record (\<lambda>rec. appendUpload
                      (new_upload\<lparr>vu_x := rr_x0 r, vu_y := rr_y0 r, vu_width := rr_x1 r - rr_x0 r,
                                  vu_height := rr_y1 r - rr_y0 r, vu_sourceAddress := dp_sourceAddress p, vu_key := dp_key p\<rparr>)
                      (vram_rows (pr_vram probe) r) (dropLast rec)) t1)
      | _ \<Rightarrow> t)"

definition move_vertex :: "DeviceProbe \<Rightarrow> RecordVertex \<Rightarrow> RecordVertex" where
  "move_vertex probe v =
     v\<lparr>rv_x := rv_x v + ds_offsetX (pr_state probe), rv_y := rv_y v + ds_offsetY (pr_state probe)\<rparr>"

definition placed_vertex :: "DeviceProbe \<Rightarrow> Gp0RecordTap \<Rightarrow> nat \<Rightarrow> RecordVertex \<Rightarrow> RecordVertex" where
  "placed_vertex probe t position v = move_vertex probe (v\<lparr>rv_depth := wordDepth t position\<rparr>)"

definition recordPolygon :: "DeviceProbe \<Rightarrow> Gp0RecordTap \<Rightarrow> Gp0RecordTap" where
  "recordPolygon probe t =
     (let f = command_flags (tap_words t ! 0);
          p0 = (flagged_primitive f)\<lparr>dp_kind := PolygonKind, dp_vertexCount := 3, dp_state := pr_state probe,
                 dp_sourceAddress := packetSource t,
                 dp_vertices := four_vertices (fst (polygon_points 3 (placed_vertex probe t) (tap_words t) f 0 []))\<rparr>;
          (p1, t1) = (if textured f
                      then (case captureClut probe t of (offset, t1) \<Rightarrow>
                              (p0\<lparr>dp_clutOffset := offset, dp_clutWord := ucast (pr_clutTag probe AND 0x7FFF)\<rparr>, t1))
                      else (p0, t));
          (p2, t2) = stampPacket p1 t1
      in on_record (append_entry (EDraw p2)) t2)"

definition finishQuad :: "DeviceProbe \<Rightarrow> Gp0RecordTap \<Rightarrow> Gp0RecordTap" where
  "finishQuad probe t0 =
     (let t = t0\<lparr>expectedDispatches := 1\<rparr>;
          f = command_flags (quadOpcode t);
          t1 = (case record_last (tap_record t) of
                  Some (EDraw p) \<Rightarrow>
                    if dp_kind p = PolygonKind \<and> dp_vertexCount p = 3
                    then let v = placed_vertex probe t (polygonPositionWord 0 f False)
                                   (fst (polygonVertex (tap_words t) 0 f (dp_vertices p ! 0) False))
                         in settleLast probe
                              (on_record (set_last (EDraw (p\<lparr>dp_vertices := (dp_vertices p)[3 := v], dp_vertexCount := 4\<rparr>))) t)
                    else t
                | _ \<Rightarrow> t)
      in t1\<lparr>tap_mode := CommandMode, tap_words := []\<rparr>)"

definition recordLineSegment :: "RecordVertex \<Rightarrow> RecordVertex \<Rightarrow> bool \<Rightarrow> bool \<Rightarrow> DeviceProbe \<Rightarrow> Gp0RecordTap \<Rightarrow> Gp0RecordTap" where
  "recordLineSegment from' to' is_gouraud semi probe t =
     (let p = new_primitive\<lparr>dp_kind := LineKind, dp_vertexCount := 2, dp_gouraud := is_gouraud, dp_semiTransparent := semi,
                dp_vertices := four_vertices [from', to'], dp_state := pr_state probe, dp_sourceAddress := packetSource t\<rparr>;
          (p1, t1) = stampPacket p t
      in settleLast probe (on_record (append_entry (EDraw p1)) t1))"

definition consumePolyLineWord :: "u32 \<Rightarrow> DeviceProbe \<Rightarrow> Gp0RecordTap \<Rightarrow> Gp0RecordTap" where
  "consumePolyLineWord w probe t0 =
     (if tap_words t0 = [] \<and> isPolyLineTerminator w then t0\<lparr>tap_mode := CommandMode\<rparr>
      else
        let t = t0\<lparr>tap_words := tap_words t0 @ [w]\<rparr> in
        if length (tap_words t) < need t then t
        else
          let f = command_flags (polyLineOpcode t);
              p = vertexPos (tap_words t ! (if gouraud f then 1 else 0));
              to' = move_vertex probe ((if gouraud f then colourVertex (tap_words t ! 0) else linePoint t)
                      \<lparr>rv_x := pos_x p, rv_y := pos_y p\<rparr>);
              t1 = recordLineSegment (linePoint t) to' (gouraud f) (semiTransparent f) probe
                     (t\<lparr>expectedDispatches := 1, packetSource := polyLineSource t, packetKey := polyLineKey t,
                        packetOwner := polyLineOwner t, packetMixed := polyLineMixed t,
                        packetCommand := opcodeByte (polyLineOpcode t)\<rparr>)
          in t1\<lparr>linePoint := to', tap_words := []\<rparr>)"

definition recordSprite :: "DeviceProbe \<Rightarrow> Gp0RecordTap \<Rightarrow> Gp0RecordTap" where
  "recordSprite probe t =
     (case decodePacketPrimitive (tap_words t) of
        None \<Rightarrow> desync t
      | Some p0 \<Rightarrow>
          let s = pr_state probe;
              v = dp_vertices p0 ! 0;
              v' = v\<lparr>rv_x := signedAxis (word_of_int (rv_x v + ds_offsetX s)), rv_y := signedAxis (word_of_int (rv_y v + ds_offsetY s))\<rparr>;
              p1 = p0\<lparr>dp_state := s, dp_sourceAddress := packetSource t, dp_vertices := (dp_vertices p0)[0 := v']\<rparr>;
              (p2, t1) = (if dp_textured p1
                          then (case captureClut probe t of (offset, t1) \<Rightarrow>
                                  (p1\<lparr>dp_flipX := pr_spriteFlipX probe, dp_flipY := pr_spriteFlipY probe, dp_clutOffset := offset,
                                      dp_clutWord := ucast (pr_clutTag probe AND 0x7FFF)\<rparr>, t1))
                          else (p1, t));
              (p3, t2) = stampPacket p2 t1
          in settleLast probe (on_record (append_entry (EDraw p3)) t2))"

definition consumeUploadWord :: "u32 \<Rightarrow> Gp0RecordTap \<Rightarrow> Gp0RecordTap" where
  "consumeUploadWord w t =
     (let halves = take (uploadRemaining t) [ucast (w AND 0xFFFF), ucast (drop_bit 16 w)];
          t1 = t\<lparr>uploadPixels := uploadPixels t @ halves, uploadRemaining := uploadRemaining t - length halves\<rparr>
      in if uploadRemaining t1 = 0
         then (on_record (appendUpload (pending_upload t1) (uploadPixels t1)) t1)\<lparr>uploadPixels := [], tap_mode := CommandMode\<rparr>
         else t1)"

section \<open>Commands\<close>

definition execute_polygon :: "DeviceProbe \<Rightarrow> Gp0RecordTap \<Rightarrow> Gp0RecordTap" where
  "execute_polygon probe t =
     (let w = tap_words t ! 0;
          t1 = recordPolygon probe t;
          t2 = (if polygonVertexCount w = 4 then t1\<lparr>quadOpcode := w, tap_mode := QuadTailMode, need := vertexWords w\<rparr>
                else settleLast probe t1)
      in t2\<lparr>tap_words := []\<rparr>)"

definition execute_line :: "DeviceProbe \<Rightarrow> Gp0RecordTap \<Rightarrow> Gp0RecordTap" where
  "execute_line probe t =
     (let w = tap_words t ! 0;
          g = gouraud (command_flags w);
          (from', to') = decodeLineEnds (tap_words t);
          t1 = recordLineSegment (move_vertex probe from') (move_vertex probe to') g (semiTransparent (command_flags w)) probe t;
          t2 = (if isPolyLine w
                then t1\<lparr>tap_mode := PolyLineMode, linePoint := move_vertex probe to', polyLineOpcode := w,
                        polyLineSource := packetSource t1, polyLineKey := packetKey t1, polyLineOwner := packetOwner t1,
                        polyLineMixed := packetMixed t1, need := (if g then 2 else 1)\<rparr>
                else t1)
      in t2\<lparr>tap_words := []\<rparr>)"

definition execute_fill :: "DeviceProbe \<Rightarrow> Gp0RecordTap \<Rightarrow> Gp0RecordTap" where
  "execute_fill probe t =
     (let r = fillRectRegion (tap_words t ! 1) (tap_words t ! 2);
          c = word_colour (tap_words t ! 0);
          fill = \<lparr>vf_x = vr_x r, vf_y = vr_y r, vf_width = vr_width r, vf_height = vr_height r,
                  vf_value = toVram555 (uint (red c)) (uint (green c)) (uint (blue c)),
                  vf_skipRowParity = ds_skipRowParity (pr_state probe)\<rparr>
      in (on_record (append_entry (EFill fill))
           (on_feedback (feedback_written \<lparr>rr_x0 = vr_x r, rr_y0 = vr_y r, rr_x1 = vr_x r + vr_width r, rr_y1 = vr_y r + vr_height r\<rparr>) t))
         \<lparr>tap_words := []\<rparr>)"

definition execute_copy :: "DeviceProbe \<Rightarrow> Gp0RecordTap \<Rightarrow> Gp0RecordTap" where
  "execute_copy probe t =
     (let source = rectCorner (tap_words t ! 1);
          target = transferRegion (tap_words t ! 2) (tap_words t ! 3);
          (key, t1) = nextPrimitiveKey t;
          copy = \<lparr>vc_srcX = vp_x source, vc_srcY = vp_y source, vc_dstX = vr_x target, vc_dstY = vr_y target,
                  vc_width = vr_width target, vc_height = vr_height target, vc_maskSet = ds_maskSet (pr_state probe),
                  vc_maskCheck = ds_maskCheck (pr_state probe), vc_key = key, vc_slot = tap_slot t1, vc_owner = packetOwner t1\<rparr>
      in (on_record (append_entry (ECopy copy)) (on_feedback feedback_invalidate t1))\<lparr>tap_words := []\<rparr>)"

definition execute_upload :: "DeviceProbe \<Rightarrow> Gp0RecordTap \<Rightarrow> Gp0RecordTap" where
  "execute_upload probe t =
     (let target = transferRegion (tap_words t ! 1) (tap_words t ! 2)
      in (on_feedback feedback_invalidate t)
         \<lparr>pending_upload := new_upload\<lparr>vu_x := vr_x target, vu_y := vr_y target, vu_width := vr_width target,
            vu_height := vr_height target, vu_maskSet := ds_maskSet (pr_state probe),
            vu_maskCheck := ds_maskCheck (pr_state probe), vu_sourceAddress := packetSource t, vu_owner := packetOwner t\<rparr>,
          uploadRemaining := nat (vr_width target) * nat (vr_height target), uploadPixels := [], tap_mode := UploadMode,
          tap_words := []\<rparr>)"

definition execute_read :: "DeviceProbe \<Rightarrow> Gp0RecordTap \<Rightarrow> Gp0RecordTap" where
  "execute_read probe t =
     (on_feedback feedback_invalidate t)
       \<lparr>tap_mode := (if pr_command probe = DevRead then ReadMode else CommandMode), tap_words := []\<rparr>"

definition executeCommand :: "DeviceProbe \<Rightarrow> Gp0RecordTap \<Rightarrow> Gp0RecordTap" where
  "executeCommand probe t0 =
     (let w = tap_words t0 ! 0;
          t = (on_feedback (texturePage (pr_state probe) (pr_texDisable probe)) t0)\<lparr>expectedDispatches := 1\<rparr>
      in if isPolygon w then execute_polygon probe t
         else if isLineOrPolyLine w then execute_line probe t
         else if isRectangleOrSprite w then (recordSprite probe t)\<lparr>tap_words := []\<rparr>
         else if opcodeByte w = Op_FillRect then execute_fill probe t
         else if isVramCopy w then execute_copy probe t
         else if isCpuToVramUpload w then execute_upload probe t
         else if isVramToCpuRead w then execute_read probe t
         else if opcodeByte w = Op_ClearCache
         then (on_feedback feedback_invalidate t)\<lparr>tap_clutTag := kInvalidClutTag, tap_words := []\<rparr>
         else t\<lparr>tap_words := []\<rparr>)"

section \<open>Entry points\<close>

definition begin_command :: "u32 \<Rightarrow> Gp0Origin \<Rightarrow> Gp0RecordTap \<Rightarrow> Gp0RecordTap" where
  "begin_command w origin t =
     (if tap_words t = []
      then t\<lparr>packetSource := or_sourceAddress origin, packetKey := or_packetKey origin, packetOwner := or_owner origin,
             packetMixed := or_mixedOwner origin, packetCommand := ucast (drop_bit 24 w), need := firstDispatchWords w\<rparr>
      else t)"

definition take_word :: "u32 \<Rightarrow> Gp0Origin \<Rightarrow> Gp0RecordTap \<Rightarrow> Gp0RecordTap" where
  "take_word w origin t = (let t1 = noteDepth origin t in t1\<lparr>tap_words := tap_words t1 @ [w]\<rparr>)"

definition process_word :: "u32 \<Rightarrow> Gp0Origin \<Rightarrow> DeviceProbe \<Rightarrow> Gp0RecordTap \<Rightarrow> Gp0RecordTap" where
  "process_word w origin probe t =
     (case tap_mode t of
        UploadMode \<Rightarrow> consumeUploadWord w t
      | PolyLineMode \<Rightarrow> consumePolyLineWord w probe t
      | QuadTailMode \<Rightarrow>
          (let t1 = take_word w origin t in if length (tap_words t1) = need t1 then finishQuad probe t1 else t1)
      | _ \<Rightarrow>
          (let t1 = take_word w origin (begin_command w origin t)
           in if length (tap_words t1) = need t1 then executeCommand probe t1 else t1))"

definition onGp0 :: "u32 \<Rightarrow> Gp0Origin \<Rightarrow> DeviceProbe \<Rightarrow> Gp0RecordTap \<Rightarrow> Gp0RecordTap" where
  "onGp0 w origin probe t =
     (if \<not> synced t then resyncIfIdle probe t
      else if tap_mode t = ReadMode then desync (t\<lparr>expectedDispatches := 0\<rparr>)
      else tap_verify probe (process_word w origin probe (t\<lparr>expectedDispatches := 0\<rparr>)))"

definition onDeviceStep :: "DeviceProbe \<Rightarrow> Gp0RecordTap \<Rightarrow> Gp0RecordTap" where
  "onDeviceStep probe t =
     (if \<not> synced t then resyncIfIdle probe t
      else tap_verify probe
             ((if tap_mode t = ReadMode \<and> pr_command probe \<noteq> DevRead then t\<lparr>tap_mode := CommandMode\<rparr> else t)
                \<lparr>expectedDispatches := 0\<rparr>))"

definition onSoftReset :: "DeviceProbe \<Rightarrow> Gp0RecordTap \<Rightarrow> Gp0RecordTap" where
  "onSoftReset probe t =
     on_feedback (\<lambda>f. texturePage (pr_state probe) (pr_texDisable probe) (feedback_invalidate f)) t"

definition onCommandReset :: "DeviceProbe \<Rightarrow> Gp0RecordTap \<Rightarrow> Gp0RecordTap" where
  "onCommandReset probe t =
     (let t1 = (if tap_mode t = UploadMode \<and> uploadPixels t \<noteq> [] then on_record markIncomplete t else t);
          t2 = (resetFraming t1)\<lparr>tap_clutTag := kInvalidClutTag\<rparr>
      in if \<not> synced t2 then resyncIfIdle probe t2 else t2)"

definition onStateReplaced :: "DeviceProbe \<Rightarrow> Gp0RecordTap \<Rightarrow> Gp0RecordTap" where
  "onStateReplaced probe t =
     resyncIfIdle probe
       ((resetFraming (on_feedback (\<lambda>f. texturePage (pr_state probe) (pr_texDisable probe) (feedback_invalidateAll f))
          (on_record markIncomplete t)))\<lparr>tap_clutTag := kInvalidClutTag, synced := False\<rparr>)"

text \<open>The sealed record, and the tap on its next one.\<close>

definition tap_seal :: "Gp0RecordTap \<Rightarrow> FrameRecord \<times> Gp0RecordTap" where
  "tap_seal t =
     ((if tap_mode t = UploadMode \<and> uploadPixels t \<noteq> [] then markIncomplete (tap_record t) else tap_record t),
      t\<lparr>tap_record := reset_record (nextSequence t) (synced t \<and> tap_mode t \<noteq> QuadTailMode),
        nextSequence := nextSequence t + 1, tap_clutTag := kInvalidClutTag, tap_clutOffset := kNoClut, lastKey := None\<rparr>)"

definition beginPacket :: "Gp0RecordTap \<Rightarrow> Gp0RecordTap" where
  "beginPacket t = t\<lparr>lastKey := None\<rparr>"

definition noteDrawEntry :: "u32 \<Rightarrow> Gp0RecordTap \<Rightarrow> Gp0RecordTap" where
  "noteDrawEntry field = on_record (markDrawEntry field)"

definition declareReadBack :: "ReadBackTexture \<Rightarrow> Gp0RecordTap \<Rightarrow> Gp0RecordTap" where
  "declareReadBack texture = on_record (append_entry (EReadBack texture))"

definition enterSlot :: "OtSlot option \<Rightarrow> bool \<Rightarrow> RecordDrawState \<Rightarrow> Gp0RecordTap \<Rightarrow> Gp0RecordTap" where
  "enterSlot slot descending state t =
     (if slot = tap_slot t then t
      else
        let t1 = (case tap_slot t of
                    Some s \<Rightarrow> if slot = None \<or> os_table (the slot) \<noteq> os_table s
                              then on_record (exitTable (os_table s) state) t else t
                  | None \<Rightarrow> t);
            t2 = t1\<lparr>tap_slot := slot\<rparr>
        in case slot of None \<Rightarrow> t2 | Some s \<Rightarrow> on_record (beginSlot s descending state) t2)"

definition hasPendingWork :: "Gp0RecordTap \<Rightarrow> bool" where
  "hasPendingWork t \<longleftrightarrow> fr_entries (tap_record t) \<noteq> [] \<or> \<not> fr_complete (tap_record t)"

end
