(* ===== verification/Tap_Laws.thy ===== *)
theory Tap_Laws
  imports Gp0_Tap
begin

text \<open>
  What the record tap keeps and promises: its records are well formed, a record is complete only while the device agreed
  at every word, and a draw packet is recorded as the packet decoder reads it.
\<close>

section \<open>Invariant\<close>

text \<open>The shapes of what is read from the device: the palette cache has 256 entries and the mirror is VRAM.\<close>

definition probe_ok :: "DeviceProbe \<Rightarrow> bool" where
  "probe_ok p \<longleftrightarrow> 0 \<le> ds_texMode (pr_state p) \<and> length (pr_clut p) = 256 \<and>
     length (pr_vram p) = nat kVramWidth * nat kVramHeight"

text \<open>
  A palette the tap has captured has at least the sixteen entries of the shorter kind. Whether a palette of 256 is there for
  an eight-bit draw depends on the device giving another tag to the same palette read at another depth, which is the device's
  own business; a reader of the record finds sixteen entries in any case.
\<close>

definition clut_ok :: "Gp0RecordTap \<Rightarrow> bool" where
  "clut_ok t \<longleftrightarrow> (fr_complete (tap_record t) \<and> tap_clutOffset t \<noteq> kNoClut \<longrightarrow>
     unat (tap_clutOffset t) + 16 \<le> length (fr_clutPool (tap_record t)))"

definition framing_ok :: "Gp0RecordTap \<Rightarrow> bool" where
  "framing_ok t \<longleftrightarrow> length (depths t) = 16 \<and>
     (case tap_mode t of
        CommandMode \<Rightarrow> tap_words t = [] \<or> length (tap_words t) < need t \<and> need t = firstDispatchWords (tap_words t ! 0)
      | QuadTailMode \<Rightarrow> length (tap_words t) < need t \<and> need t = vertexWords (quadOpcode t)
      | PolyLineMode \<Rightarrow> length (tap_words t) < need t \<and> need t = (if gouraud (command_flags (polyLineOpcode t)) then 2 else 1)
      | UploadMode \<Rightarrow> tap_words t = [] \<and> 0 < uploadRemaining t \<and>
          length (uploadPixels t) + uploadRemaining t = nat (vu_width (pending_upload t)) * nat (vu_height (pending_upload t))
      | ReadMode \<Rightarrow> tap_words t = [])"

definition stores_ok :: "Gp0RecordTap \<Rightarrow> bool" where
  "stores_ok t \<longleftrightarrow> record_ok (tap_record t) \<and> feedback_ok (feedback t) \<and> clut_ok t \<and>
     (\<not> synced t \<longrightarrow> \<not> fr_complete (tap_record t))"

definition tap_ok :: "Gp0RecordTap \<Rightarrow> bool" where
  "tap_ok t \<longleftrightarrow> stores_ok t \<and> framing_ok t"

lemmas stores_defs = stores_ok_def clut_ok_def on_record_def on_feedback_def

lemma stores_ok_frame:
  "stores_ok (t\<lparr>tap_mode := a\<rparr>) = stores_ok t" "stores_ok (t\<lparr>tap_words := b\<rparr>) = stores_ok t"
  "stores_ok (t\<lparr>need := c\<rparr>) = stores_ok t" "stores_ok (t\<lparr>expectedDispatches := d\<rparr>) = stores_ok t"
  "stores_ok (t\<lparr>lastKey := e\<rparr>) = stores_ok t" "stores_ok (t\<lparr>quadOpcode := f\<rparr>) = stores_ok t"
  "stores_ok (t\<lparr>uploadRemaining := g\<rparr>) = stores_ok t" "stores_ok (t\<lparr>uploadPixels := h\<rparr>) = stores_ok t"
  "stores_ok (t\<lparr>pending_upload := i\<rparr>) = stores_ok t" "stores_ok (t\<lparr>linePoint := j\<rparr>) = stores_ok t"
  "stores_ok (t\<lparr>polyLineOpcode := k\<rparr>) = stores_ok t" "stores_ok (t\<lparr>polyLineSource := l\<rparr>) = stores_ok t"
  "stores_ok (t\<lparr>polyLineKey := n\<rparr>) = stores_ok t" "stores_ok (t\<lparr>polyLineOwner := o'\<rparr>) = stores_ok t"
  "stores_ok (t\<lparr>polyLineMixed := p\<rparr>) = stores_ok t" "stores_ok (t\<lparr>packetSource := q\<rparr>) = stores_ok t"
  "stores_ok (t\<lparr>packetKey := r\<rparr>) = stores_ok t" "stores_ok (t\<lparr>packetOwner := s\<rparr>) = stores_ok t"
  "stores_ok (t\<lparr>packetMixed := u\<rparr>) = stores_ok t" "stores_ok (t\<lparr>packetCommand := v\<rparr>) = stores_ok t"
  "stores_ok (t\<lparr>depths := w\<rparr>) = stores_ok t" "stores_ok (t\<lparr>tap_slot := x\<rparr>) = stores_ok t"
  by (simp_all add: stores_defs)

lemma stores_ok_feedback:
  "stores_ok t \<Longrightarrow> feedback_ok (f (feedback t)) \<Longrightarrow> stores_ok (on_feedback f t)"
  by (simp add: stores_defs)

lemma record_complete_mono:
  "fr_complete (append_entry e r) \<Longrightarrow> fr_complete r" "fr_complete (appendUpload u ps r) \<Longrightarrow> fr_complete r"
  by (auto simp: append_entry_def appendUpload_def markIncomplete_def split: if_splits)

lemma append_entry_pool: "fr_complete (append_entry e r) \<Longrightarrow> fr_clutPool (append_entry e r) = fr_clutPool r"
  by (auto simp: append_entry_def markIncomplete_def split: if_splits)

lemma appendUpload_pool: "fr_complete (appendUpload u ps r) \<Longrightarrow> fr_clutPool (appendUpload u ps r) = fr_clutPool r"
  by (auto simp: appendUpload_def append_entry_def markIncomplete_def split: if_splits)

lemma stores_ok_append:
  "stores_ok t \<Longrightarrow> (fr_complete (tap_record t) \<Longrightarrow>
      entry_ok (length (fr_clutPool (tap_record t))) (length (fr_uploadPixels (tap_record t))) e) \<Longrightarrow>
    stores_ok (on_record (append_entry e) t)"
  using append_entry_ok [of "tap_record t" e] record_complete_mono(1) [of e "tap_record t"] append_entry_pool [of e "tap_record t"]
  by (cases "fr_complete (tap_record t)") (auto simp: stores_defs append_entry_def)

lemma markIncomplete_not [simp]: "\<not> fr_complete (markIncomplete r)"
  by (simp add: markIncomplete_def)

lemma stores_ok_mark: "stores_ok t \<Longrightarrow> stores_ok (on_record markIncomplete t)"
  by (simp add: stores_defs markIncomplete_ok)

lemma stores_ok_desync: "stores_ok t \<Longrightarrow> stores_ok (desync t)"
  by (simp add: desync_def resetFraming_def stores_defs markIncomplete_ok feedback_ok_ops)

lemma desync_framing: "length (depths t) = 16 \<Longrightarrow> framing_ok (desync t)"
  by (simp add: framing_ok_def desync_def resetFraming_def on_record_def on_feedback_def)

lemma resync_ok: "stores_ok t \<Longrightarrow> stores_ok (resyncIfIdle p t)"
  "framing_ok t \<Longrightarrow> framing_ok (resyncIfIdle p t)"
  by (auto simp: resyncIfIdle_def resetFraming_def stores_defs framing_ok_def)

lemma verify_ok: "tap_ok t \<Longrightarrow> tap_ok (tap_verify p t)"
  by (auto simp: tap_ok_def tap_verify_def stores_ok_desync desync_framing resync_ok framing_ok_def [of t])


text \<open>The palette a draw refers to lies in the pool.\<close>

lemma captureClut_ok:
  assumes "stores_ok t" and "probe_ok probe" and "captureClut probe t = (offset, t')"
  shows "stores_ok t' \<and> (fr_complete (tap_record t') \<longrightarrow> offset = kNoClut \<or>
      unat offset + 16 \<le> length (fr_clutPool (tap_record t')))"
proof (cases "ds_texMode (pr_state probe) \<ge> 2")
  case True
  then show ?thesis using assms by (simp add: captureClut_def)
next
  case False
  let ?mode = "ds_texMode (pr_state probe)"
  have mode: "?mode = 0 \<or> ?mode = 1"
    using False assms(2) by (auto simp: probe_ok_def)
  let ?entries = "take (clutEntryCount (tex_depth (nat ?mode))) (pr_clut probe)"
  have len: "16 \<le> length ?entries"
    using mode assms(2) by (auto simp: probe_ok_def clutEntryCount_def tex_depth_def)
  show ?thesis
  proof (cases "pr_clutTag probe \<noteq> tap_clutTag t \<or> tap_clutOffset t = kNoClut")
    case True
    obtain k r where a: "appendClut ?entries (tap_record t) = (k, r)" by (cases "appendClut ?entries (tap_record t)")
    have t': "offset = k" "t' = t\<lparr>tap_record := r, tap_clutOffset := k, tap_clutTag := pr_clutTag probe\<rparr>"
      using assms(3) False True a by (auto simp: captureClut_def)
    have "record_ok (tap_record t)" using assms(1) by (simp add: stores_ok_def)
    note c = appendClut_ok [OF this a]
    have "fr_complete r \<longrightarrow> fr_complete (tap_record t)"
      using a by (auto simp: appendClut_def split: if_splits)
    then show ?thesis using c len mode assms(1) t' by (auto simp: stores_defs)
  next
    case False2: False
    then have "offset = tap_clutOffset t" "t' = t" using assms(3) False by (auto simp: captureClut_def)
    then show ?thesis using assms(1) False2 mode by (auto simp: stores_defs)
  qed
qed

lemma key_frame:
  assumes "nextPrimitiveKey t = (k, t')"
  shows "\<exists>l. t' = t\<lparr>lastKey := l\<rparr>"
proof (cases "packetKey t")
  case None
  then have "t' = t\<lparr>lastKey := lastKey t\<rparr>" using assms by (simp add: nextPrimitiveKey_def)
  then show ?thesis by blast
next
  case (Some a)
  then show ?thesis using assms by (auto simp: nextPrimitiveKey_def Let_def)
qed

lemma stamp_frame:
  assumes "stampPacket p t = (p', t')"
  shows "(\<exists>l. t' = t\<lparr>lastKey := l\<rparr>) \<and> (\<exists>k s a b c. p' = p\<lparr>dp_key := k, dp_slot := s, dp_owner := a, dp_mixedOwner := b, dp_command := c\<rparr>)"
proof -
  obtain k t1 where n: "nextPrimitiveKey t = (k, t1)" by (cases "nextPrimitiveKey t")
  then have "t' = t1" and "p' = p\<lparr>dp_key := k, dp_slot := tap_slot t1, dp_owner := packetOwner t1, dp_mixedOwner := packetMixed t1,
      dp_command := packetCommand t1\<rparr>" using assms by (auto simp: stampPacket_def)
  then show ?thesis using key_frame [OF n] by blast
qed

lemma draw_entry_ok:
  "entry_ok c u (EDraw p) \<longleftrightarrow> dp_clutOffset p = kNoClut \<or> unat (dp_clutOffset p) + 16 \<le> c"
  by (simp add: entry_ok_def)

text \<open>Settling keeps the count of entries, so the marks into them.\<close>

lemma record_ok_last:
  assumes "record_ok r" and "fr_entries r \<noteq> []"
    and "entry_ok (length (fr_clutPool r)) (length (fr_uploadPixels r)) e"
  shows "record_ok (set_last e r)"
proof -
  have "set (butlast (fr_entries r)) \<subseteq> set (fr_entries r)" by (auto dest: in_set_butlastD)
  moreover have "Suc (length (fr_entries r) - Suc 0) = length (fr_entries r)" using assms(2) by (cases "fr_entries r") auto
  ultimately show ?thesis using assms by (auto simp: record_ok_def set_last_def list_all_iff subset_iff)
qed

lemma settle_record:
  assumes "record_ok r" and "fr_entries r \<noteq> []" and "nat (vu_width u) * nat (vu_height u) = length ps"
  shows "record_ok (appendUpload u ps (dropLast r))"
proof -
  have c: "fr_complete r" using assms(1,2) by (auto simp: record_ok_def)
  have len: "length (butlast (fr_entries r)) < kMaxEntries"
    using assms(1,2) by (cases "fr_entries r") (auto simp: record_ok_def)
  show ?thesis
  proof (cases "length (fr_uploadPixels r) + length ps \<le> kMaxPoolHalfwords")
    case True
    let ?u = "u\<lparr>vu_pixelOffset := of_nat (length (fr_uploadPixels r))\<rparr>" and ?r = "r\<lparr>fr_uploadPixels := fr_uploadPixels r @ ps\<rparr>"
    have n: "unat (of_nat (length (fr_uploadPixels r)) :: u32) = length (fr_uploadPixels r)"
      using True by (intro unat_of_nat_small) (simp add: kMaxPoolHalfwords_def)
    have "record_ok ?r" using assms(1) True by (auto simp: record_ok_def c intro: list_entry_ok_mono)
    then have "record_ok (set_last (EUpload ?u) ?r)"
      by (rule record_ok_last) (use assms(2,3) n in \<open>simp_all add: entry_ok_def\<close>)
    moreover have "appendUpload u ps (dropLast r) = set_last (EUpload ?u) ?r"
      using True c len by (simp add: appendUpload_def dropLast_def append_entry_def set_last_def)
    ultimately show ?thesis by simp
  next
    case False
    then have "appendUpload u ps (dropLast r) = markIncomplete (dropLast r)"
      using c by (simp add: appendUpload_def dropLast_def)
    also have "\<dots> = markIncomplete r" using c by (simp add: markIncomplete_def dropLast_def)
    finally show ?thesis using markIncomplete_ok [OF assms(1)] by simp
  qed
qed

lemma length_vram_rows:
  assumes "length vram = nat kVramWidth * nat kVramHeight" and "0 \<le> rr_x0 r" and "0 \<le> rr_y0 r"
    and "rr_x1 r \<le> kVramWidth" and "rr_y1 r \<le> kVramHeight"
  shows "length (vram_rows vram r) = nat (rr_x1 r - rr_x0 r) * nat (rr_y1 r - rr_y0 r)"
proof -
  have row: "length (take (nat (rr_x1 r - rr_x0 r)) (drop (nat y * nat kVramWidth + nat (rr_x0 r)) vram)) = nat (rr_x1 r - rr_x0 r)"
    if "y \<in> set [rr_y0 r..rr_y1 r - 1]" for y
  proof -
    have y: "nat y < 512" "rr_x1 r \<le> 1024" "0 \<le> rr_x0 r" using that assms by (auto simp: kVramHeight_def kVramWidth_def)
    then have "nat y * 1024 + 1024 \<le> length vram" using assms(1) by (simp add: kVramHeight_def kVramWidth_def)
    then have "nat (rr_x1 r - rr_x0 r) \<le> length vram - (nat y * 1024 + nat (rr_x0 r))" using y by linarith
    then show ?thesis by (simp add: kVramWidth_def)
  qed
  have "length (vram_rows vram r) = sum_list (map (\<lambda>y. nat (rr_x1 r - rr_x0 r)) [rr_y0 r..rr_y1 r - 1])"
    unfolding vram_rows_def length_concat map_map comp_def by (rule arg_cong [where f = sum_list], rule map_cong [OF refl row])
  then show ?thesis by (simp add: sum_list_triv)
qed

lemma drawBounds_corner: "0 \<le> rr_x0 (drawBounds p) \<and> 0 \<le> rr_y0 (drawBounds p)"
proof -
  have "0 \<le> rr_x0 (if C then empty_rect else \<lparr>rr_x0 = max a 0, rr_y0 = max b 0, rr_x1 = c, rr_y1 = d\<rparr>) \<and>
      0 \<le> rr_y0 (if C then empty_rect else \<lparr>rr_x0 = max a 0, rr_y0 = max b 0, rr_x1 = c, rr_y1 = d\<rparr>)" for C a b c d
    by (simp add: empty_rect_def)
  then show ?thesis unfolding drawBounds_def Let_def by blast
qed

lemma settleLast_ok:
  assumes "stores_ok t" and "probe_ok probe"
  shows "stores_ok (settleLast probe t)"
proof (cases "record_last (tap_record t)")
  case None
  then show ?thesis using assms by (simp add: settleLast_def)
next
  case (Some e)
  show ?thesis
  proof (cases "\<exists>p. e = EDraw p")
    case False
    then have "settleLast probe t = t" using Some by (cases e) (auto simp: settleLast_def)
    then show ?thesis using assms by simp
  next
    case True
    then obtain p where e: "e = EDraw p" by auto
    obtain stale f where d: "feedback_drawn p (feedback t) = (stale, f)" by (cases "feedback_drawn p (feedback t)")
    have "feedback_ok f" using feedback_ok_ops(4) [of "feedback t" p] assms(1) d by (simp add: stores_ok_def)
    then have t1: "stores_ok (t\<lparr>feedback := f\<rparr>)" using assms(1) by (simp add: stores_defs)
    let ?r = "drawBounds p"
    let ?u = "new_upload\<lparr>vu_x := rr_x0 ?r, vu_y := rr_y0 ?r, vu_width := rr_x1 ?r - rr_x0 ?r,
        vu_height := rr_y1 ?r - rr_y0 ?r, vu_sourceAddress := dp_sourceAddress p, vu_key := dp_key p\<rparr>"
    let ?ps = "vram_rows (pr_vram probe) ?r"
    show ?thesis
    proof (cases "\<not> stale \<or> rr_x1 ?r \<le> rr_x0 ?r \<or> rr_y1 ?r \<le> rr_y0 ?r")
      case True
      then show ?thesis using t1 Some e d by (auto simp: settleLast_def Let_def)
    next
      case False
      have ne: "fr_entries (tap_record t) \<noteq> []" using Some by (auto simp: record_last_def)
      have ok: "record_ok (tap_record t)" using assms(1) by (simp add: stores_ok_def)
      then have c: "fr_complete (tap_record t)" using ne by (auto simp: record_ok_def)
      have "length ?ps = nat (rr_x1 ?r - rr_x0 ?r) * nat (rr_y1 ?r - rr_y0 ?r)"
        using assms(2) drawBounds_corner [of p] drawBounds_in_vram [of p]
        by (intro length_vram_rows) (simp_all add: probe_ok_def kVramWidth_def kVramHeight_def)
      then have r: "record_ok (appendUpload ?u ?ps (dropLast (tap_record t)))"
        by (intro settle_record [OF ok ne]) simp
      have pool: "fr_complete (appendUpload ?u ?ps (dropLast (tap_record t))) \<Longrightarrow>
          fr_clutPool (appendUpload ?u ?ps (dropLast (tap_record t))) = fr_clutPool (tap_record t)"
        by (simp add: appendUpload_pool) (simp add: dropLast_def)
      show ?thesis using False t1 Some e d r pool c by (auto simp: settleLast_def Let_def stores_defs)
    qed
  qed
qed

text \<open>Settling never runs out of room in a record that has no pixels yet.\<close>

lemma settle_complete:
  assumes "fr_complete (tap_record t)" and "fr_uploadPixels (tap_record t) = []"
    and "length (fr_entries (tap_record t)) \<le> kMaxEntries" and "probe_ok probe"
  shows "fr_complete (tap_record (settleLast probe t))"
proof (cases "\<exists>p. record_last (tap_record t) = Some (EDraw p)")
  case False
  then have "settleLast probe t = t" by (auto simp: settleLast_def split: option.split RecordEntry.split)
  then show ?thesis using assms(1) by simp
next
  case True
  then obtain p where p: "record_last (tap_record t) = Some (EDraw p)" by blast
  obtain stale f where d: "feedback_drawn p (feedback t) = (stale, f)" by (cases "feedback_drawn p (feedback t)")
  let ?r = "drawBounds p"
  have ne: "fr_entries (tap_record t) \<noteq> []" using p by (auto simp: record_last_def)
  have b: "0 \<le> rr_x0 ?r" "0 \<le> rr_y0 ?r" "rr_x1 ?r \<le> 1024" "rr_y1 ?r \<le> 512"
    using drawBounds_corner [of p] drawBounds_in_vram [of p] by simp_all
  have "length (vram_rows (pr_vram probe) ?r) = nat (rr_x1 ?r - rr_x0 ?r) * nat (rr_y1 ?r - rr_y0 ?r)"
    using assms(4) b by (intro length_vram_rows) (simp_all add: probe_ok_def kVramWidth_def kVramHeight_def)
  also have "\<dots> \<le> 1024 * 512" using b by (intro mult_le_mono) simp_all
  also have "\<dots> \<le> kMaxPoolHalfwords" by (simp add: kMaxPoolHalfwords_def)
  finally have "length (vram_rows (pr_vram probe) ?r) \<le> kMaxPoolHalfwords" .
  moreover have "length (butlast (fr_entries (tap_record t))) < kMaxEntries"
    using assms(3) ne by (cases "fr_entries (tap_record t)") simp_all
  ultimately show ?thesis
    using p d assms(1,2) by (auto simp: settleLast_def Let_def on_record_def appendUpload_def append_entry_def dropLast_def)
qed

section \<open>Commands keep the invariant\<close>

text \<open>The fields that say where the tap is in the word stream.\<close>

definition framing :: "Gp0RecordTap \<Rightarrow> _" where
  "framing t = (depths t, tap_mode t, tap_words t, need t, quadOpcode t, polyLineOpcode t, uploadRemaining t, uploadPixels t,
     pending_upload t, expectedDispatches t, synced t)"

lemma framing_frame:
  "framing (on_record f t) = framing t" "framing (on_feedback g t) = framing t" "framing (t\<lparr>lastKey := k\<rparr>) = framing t"
  by (simp_all add: framing_def on_record_def on_feedback_def)

lemma framing_ok_cong:
  assumes "framing t = framing t'"
  shows "framing_ok t = framing_ok t'"
proof -
  have "depths t = depths t'" "tap_mode t = tap_mode t'" "tap_words t = tap_words t'" "need t = need t'"
    "quadOpcode t = quadOpcode t'" "polyLineOpcode t = polyLineOpcode t'" "uploadRemaining t = uploadRemaining t'"
    "uploadPixels t = uploadPixels t'" "pending_upload t = pending_upload t'"
    using assms by (simp_all add: framing_def)
  then show ?thesis unfolding framing_ok_def by (simp only:)
qed

lemma framing_clut: "captureClut probe t = (k, t') \<Longrightarrow> framing t' = framing t"
  by (auto simp: captureClut_def framing_def Let_def split: if_splits prod.splits)

lemma framing_stamp: "stampPacket p t = (p', t') \<Longrightarrow> framing t' = framing t"
  using stamp_frame [of p t p' t'] framing_frame(3) by auto

lemma framing_settle: "framing (settleLast probe t) = framing t"
  by (auto simp: settleLast_def Let_def framing_def on_record_def split: option.splits RecordEntry.splits prod.splits)

lemma stores_stamp: "stampPacket p t = (p', t') \<Longrightarrow> stores_ok t' = stores_ok t"
  using stamp_frame [of p t p' t'] by (auto simp: stores_ok_frame)

lemma stores_draw:
  "stores_ok t \<Longrightarrow> (fr_complete (tap_record t) \<Longrightarrow> dp_clutOffset p = kNoClut \<or>
      unat (dp_clutOffset p) + 16 \<le> length (fr_clutPool (tap_record t))) \<Longrightarrow>
    stores_ok (on_record (append_entry (EDraw p)) t)"
  by (rule stores_ok_append) (simp_all add: draw_entry_ok)

lemma line_segment_ok:
  assumes "stores_ok t" and "probe_ok probe"
  shows "stores_ok (recordLineSegment a b g semi probe t) \<and> framing (recordLineSegment a b g semi probe t) = framing t"
proof -
  let ?p = "new_primitive\<lparr>dp_kind := LineKind, dp_vertexCount := 2, dp_gouraud := g, dp_semiTransparent := semi,
      dp_vertices := four_vertices [a, b], dp_state := pr_state probe, dp_sourceAddress := packetSource t\<rparr>"
  obtain p1 t1 where st: "stampPacket ?p t = (p1, t1)" by (cases "stampPacket ?p t")
  have "dp_clutOffset p1 = kNoClut" using stamp_frame [OF st] by (auto simp: new_primitive_def)
  then have "stores_ok (on_record (append_entry (EDraw p1)) t1)"
    using assms(1) stores_stamp [OF st] by (intro stores_draw) simp_all
  then show ?thesis using settleLast_ok [OF _ assms(2)] framing_settle framing_frame framing_stamp [OF st] st
    by (simp add: recordLineSegment_def)
qed

lemma polygon_ok:
  assumes "stores_ok t" and "probe_ok probe"
  shows "stores_ok (recordPolygon probe t) \<and> framing (recordPolygon probe t) = framing t"
proof -
  let ?f = "command_flags (tap_words t ! 0)"
  let ?p0 = "(flagged_primitive ?f)\<lparr>dp_kind := PolygonKind, dp_vertexCount := 3, dp_state := pr_state probe,
      dp_sourceAddress := packetSource t,
      dp_vertices := four_vertices (fst (polygon_points 3 (placed_vertex probe t) (tap_words t) ?f 0 []))\<rparr>"
  obtain k t0 where c: "captureClut probe t = (k, t0)" by (cases "captureClut probe t")
  let ?pt = "if textured ?f then (?p0\<lparr>dp_clutOffset := k, dp_clutWord := ucast (pr_clutTag probe AND 0x7FFF)\<rparr>, t0) else (?p0, t)"
  obtain p1 t1 where pt: "?pt = (p1, t1)" by (cases ?pt)
  obtain p2 t2 where st: "stampPacket p1 t1 = (p2, t2)" by (cases "stampPacket p1 t1")
  have none: "dp_clutOffset ?p0 = kNoClut" by (simp add: flagged_primitive_def new_primitive_def)
  have t1: "stores_ok t1" "framing t1 = framing t"
    using pt assms(1) captureClut_ok [OF assms c] framing_clut [OF c] by (auto split: if_splits)
  have p1: "fr_complete (tap_record t1) \<longrightarrow> dp_clutOffset p1 = kNoClut \<or>
      unat (dp_clutOffset p1) + 16 \<le> length (fr_clutPool (tap_record t1))"
    using pt captureClut_ok [OF assms c] none by (auto split: if_splits)
  have "stores_ok t2" using stores_stamp [OF st] t1(1) by simp
  then have "stores_ok (on_record (append_entry (EDraw p2)) t2)"
    using p1 stamp_frame [OF st] by (intro stores_draw) auto
  moreover have "recordPolygon probe t = on_record (append_entry (EDraw p2)) t2"
    using pt st c by (auto simp: recordPolygon_def Let_def split: if_splits)
  ultimately show ?thesis using t1(2) framing_stamp [OF st] by (simp add: framing_frame)
qed

text \<open>What the fields of \<open>framing\<close> are, for the goals that open a state.\<close>

lemma framing_fields:
  assumes "framing t = framing t'"
  shows "depths t = depths t'" "tap_mode t = tap_mode t'" "tap_words t = tap_words t'" "need t = need t'"
    "uploadRemaining t = uploadRemaining t'" "uploadPixels t = uploadPixels t'" "expectedDispatches t = expectedDispatches t'"
    "synced t = synced t'" "polyLineOpcode t = polyLineOpcode t'" "quadOpcode t = quadOpcode t'"
  using assms by (simp_all add: framing_def)

lemma finish_quad_record:
  assumes "record_ok r" and "record_last r = Some (EDraw p)"
  shows "record_ok (set_last (EDraw (p\<lparr>dp_vertices := vs, dp_vertexCount := n\<rparr>)) r)"
proof -
  obtain es where es: "fr_entries r = es @ [EDraw p]"
    using assms(2) by (cases "fr_entries r" rule: rev_cases) (auto simp: record_last_def)
  then show ?thesis using assms(1) by (auto simp: record_ok_def set_last_def draw_entry_ok)
qed

lemma finishQuad_ok:
  assumes "stores_ok t" and "probe_ok probe" and "length (depths t) = 16"
  shows "tap_ok (finishQuad probe t)"
proof -
  let ?t = "t\<lparr>expectedDispatches := 1\<rparr>"
  have s: "stores_ok ?t" using assms(1) by (simp add: stores_ok_frame)
  have set_last: "stores_ok (on_record (set_last (EDraw (p\<lparr>dp_vertices := vs, dp_vertexCount := n\<rparr>))) ?t)"
    if "record_last (tap_record ?t) = Some (EDraw p)" for p vs n
    using s finish_quad_record [OF _ that, where vs = vs and n = n] by (simp add: stores_defs set_last_def)
  show ?thesis
    using s settleLast_ok [OF set_last assms(2)] assms(3)
    by (auto simp: finishQuad_def Let_def tap_ok_def stores_ok_frame framing_ok_def framing_fields(1) [OF framing_settle]
        framing_fields(1) [OF framing_frame(1)] split: option.splits RecordEntry.splits)
qed

lemma stores_packet:
  "stores_ok (t\<lparr>expectedDispatches := d, packetSource := q, packetKey := r, packetOwner := s, packetMixed := u, packetCommand := v\<rparr>) = stores_ok t"
  by (simp add: stores_defs)

lemma polyline_word_ok:
  assumes "tap_ok t" and "probe_ok probe" and "tap_mode t = PolyLineMode"
  shows "tap_ok (consumePolyLineWord w probe t)"
proof (cases "tap_words t = [] \<and> isPolyLineTerminator w")
  case True
  then show ?thesis using assms by (simp add: consumePolyLineWord_def tap_ok_def stores_ok_frame framing_ok_def)
next
  case False
  let ?t = "t\<lparr>tap_words := tap_words t @ [w]\<rparr>"
  have st: "stores_ok ?t" "length (depths t) = 16"
    using assms(1) by (simp_all add: tap_ok_def stores_ok_frame framing_ok_def)
  show ?thesis
  proof (cases "length (tap_words ?t) < need ?t")
    case True
    then show ?thesis using False st assms by (auto simp: consumePolyLineWord_def tap_ok_def framing_ok_def)
  next
    case long: False
    define t' where "t' = ?t\<lparr>expectedDispatches := 1, packetSource := polyLineSource ?t, packetKey := polyLineKey ?t,
        packetOwner := polyLineOwner ?t, packetMixed := polyLineMixed ?t, packetCommand := opcodeByte (polyLineOpcode ?t)\<rparr>"
    have "stores_ok t'" using st(1) by (simp add: t'_def stores_packet stores_ok_frame)
    note seg = line_segment_ok [OF this assms(2)]
    have fr: "depths (recordLineSegment a b g s probe t') = depths t" "tap_mode (recordLineSegment a b g s probe t') = PolyLineMode"
        "need (recordLineSegment a b g s probe t') = need t"
        "polyLineOpcode (recordLineSegment a b g s probe t') = polyLineOpcode t" for a b g s
      using framing_fields [OF seg [THEN conjunct2], of a b g s] assms(3) by (simp_all add: t'_def)
    have n: "need t = (if gouraud (command_flags (polyLineOpcode t)) then 2 else 1)"
      using assms(1,3) by (simp add: tap_ok_def framing_ok_def)
    have "\<exists>a b g s p. consumePolyLineWord w probe t = (recordLineSegment a b g s probe t')\<lparr>linePoint := p, tap_words := []\<rparr>"
      unfolding consumePolyLineWord_def if_not_P [OF False] Let_def if_not_P [OF long] t'_def by (intro exI, rule refl)
    then obtain a b g s p where
      "consumePolyLineWord w probe t = (recordLineSegment a b g s probe t')\<lparr>linePoint := p, tap_words := []\<rparr>" by blast
    then show ?thesis using seg fr [of a b g s] st(2) n by (simp add: tap_ok_def framing_ok_def stores_ok_frame)
  qed
qed

lemma upload_word_ok:
  assumes "tap_ok t" and "tap_mode t = UploadMode"
  shows "tap_ok (consumeUploadWord w t)"
proof -
  let ?h = "take (uploadRemaining t) [ucast (w AND 0xFFFF), ucast (drop_bit 16 w)] :: u16 list"
  let ?t = "t\<lparr>uploadPixels := uploadPixels t @ ?h, uploadRemaining := uploadRemaining t - length ?h\<rparr>"
  have f: "length (depths t) = 16" "tap_words t = []" "0 < uploadRemaining t"
      "length (uploadPixels t) + uploadRemaining t = nat (vu_width (pending_upload t)) * nat (vu_height (pending_upload t))"
      and s: "stores_ok t"
    using assms by (simp_all add: tap_ok_def framing_ok_def)
  show ?thesis
  proof (cases "uploadRemaining ?t = 0")
    case True
    then have "nat (vu_width (pending_upload ?t)) * nat (vu_height (pending_upload ?t)) = length (uploadPixels ?t)"
      using f by simp
    moreover have "record_ok (tap_record ?t)" using s by (simp add: stores_ok_def)
    ultimately have "record_ok (appendUpload (pending_upload ?t) (uploadPixels ?t) (tap_record ?t))"
      by (intro appendUpload_ok) simp_all
    then have "stores_ok (on_record (appendUpload (pending_upload ?t) (uploadPixels ?t)) ?t)"
      using s record_complete_mono(2) [of "pending_upload ?t" "uploadPixels ?t" "tap_record ?t"]
        appendUpload_pool [of "pending_upload ?t" "uploadPixels ?t" "tap_record ?t"]
      by (auto simp: stores_defs)
    then show ?thesis using True f
      by (simp add: consumeUploadWord_def Let_def tap_ok_def framing_ok_def stores_defs)
  next
    case False
    then show ?thesis using f s assms(2)
      by (auto simp: consumeUploadWord_def Let_def tap_ok_def stores_ok_frame framing_ok_def)
  qed
qed

lemma decoded_clut: "decodePacketPrimitive ws = Some p \<Longrightarrow> dp_clutOffset p = kNoClut"
  by (auto simp: decodePacketPrimitive_def decode_polygon_def decode_sprite_def lineSegment_def flagged_primitive_def
      new_primitive_def Let_def split: if_splits prod.splits)

lemma sprite_ok:
  assumes "stores_ok t" and "probe_ok probe"
  shows "stores_ok (recordSprite probe t) \<and>
    (framing (recordSprite probe t) = framing t \<or> recordSprite probe t = desync t)"
proof (cases "decodePacketPrimitive (tap_words t)")
  case None
  then show ?thesis using assms(1) by (simp add: recordSprite_def stores_ok_desync)
next
  case (Some p0)
  let ?s = "pr_state probe"
  let ?v = "dp_vertices p0 ! 0"
  let ?p1 = "p0\<lparr>dp_state := ?s, dp_sourceAddress := packetSource t, dp_vertices := (dp_vertices p0)[0 :=
      ?v\<lparr>rv_x := signedAxis (word_of_int (rv_x ?v + ds_offsetX ?s)), rv_y := signedAxis (word_of_int (rv_y ?v + ds_offsetY ?s))\<rparr>]\<rparr>"
  obtain k t0 where c: "captureClut probe t = (k, t0)" by (cases "captureClut probe t")
  let ?pt = "if dp_textured ?p1
      then (?p1\<lparr>dp_flipX := pr_spriteFlipX probe, dp_flipY := pr_spriteFlipY probe, dp_clutOffset := k,
                dp_clutWord := ucast (pr_clutTag probe AND 0x7FFF)\<rparr>, t0) else (?p1, t)"
  obtain p1 t1 where pt: "?pt = (p1, t1)" by (cases ?pt)
  obtain p2 t2 where st: "stampPacket p1 t1 = (p2, t2)" by (cases "stampPacket p1 t1")
  have t1: "stores_ok t1" "framing t1 = framing t"
    using pt assms(1) captureClut_ok [OF assms c] framing_clut [OF c] by (auto split: if_splits)
  have p1: "fr_complete (tap_record t1) \<longrightarrow> dp_clutOffset p1 = kNoClut \<or>
      unat (dp_clutOffset p1) + 16 \<le> length (fr_clutPool (tap_record t1))"
    using pt captureClut_ok [OF assms c] decoded_clut [OF Some] by (auto split: if_splits)
  have "stores_ok t2" using stores_stamp [OF st] t1(1) by simp
  then have "stores_ok (on_record (append_entry (EDraw p2)) t2)"
    using p1 stamp_frame [OF st] by (intro stores_draw) auto
  moreover have "recordSprite probe t = settleLast probe (on_record (append_entry (EDraw p2)) t2)"
    using pt st c Some by (auto simp: recordSprite_def Let_def split: if_splits)
  ultimately show ?thesis
    using t1(2) framing_stamp [OF st] settleLast_ok [OF _ assms(2)] by (simp add: framing_frame framing_settle)
qed

text \<open>A command that has run left the tap at the start of a command or inside one of the four longer ones.\<close>

lemma vertexWords_pos: "0 < vertexWords w" "vertexWords w \<le> 3"
  by (simp_all add: vertexWords_def)

lemma execute_polygon_ok:
  assumes "stores_ok t" and "probe_ok probe" and "length (depths t) = 16" and "tap_mode t = CommandMode"
  shows "tap_ok (execute_polygon probe t)"
proof -
  note p = polygon_ok [OF assms(1,2)]
  have fr: "depths (recordPolygon probe t) = depths t" "tap_mode (recordPolygon probe t) = CommandMode"
    using framing_fields [OF p [THEN conjunct2]] assms(4) by simp_all
  have fs: "depths (settleLast probe (recordPolygon probe t)) = depths t"
      "tap_mode (settleLast probe (recordPolygon probe t)) = CommandMode"
    using framing_fields [OF framing_settle, of probe "recordPolygon probe t"] fr by simp_all
  show ?thesis using p fr fs assms(3) settleLast_ok [OF _ assms(2)]
    by (simp add: execute_polygon_def Let_def tap_ok_def framing_ok_def stores_ok_frame vertexWords_pos)
qed

lemma execute_line_ok:
  assumes "stores_ok t" and "probe_ok probe" and "length (depths t) = 16" and "tap_mode t = CommandMode"
  shows "tap_ok (execute_line probe t)"
proof -
  obtain a b where e: "decodeLineEnds (tap_words t) = (a, b)" by (cases "decodeLineEnds (tap_words t)")
  define t' where "t' = recordLineSegment (move_vertex probe a) (move_vertex probe b)
      (gouraud (command_flags (tap_words t ! 0))) (semiTransparent (command_flags (tap_words t ! 0))) probe t"
  have s: "stores_ok t'" and f: "framing t' = framing t" unfolding t'_def using line_segment_ok [OF assms(1,2)] by blast+
  have "depths t' = depths t" "tap_mode t' = CommandMode" using framing_fields [OF f] assms(4) by simp_all
  then show ?thesis using s assms(3) e
    by (simp add: execute_line_def Let_def tap_ok_def framing_ok_def stores_ok_frame t'_def [symmetric])
qed

lemma feedback_written_ok: "feedback_ok f \<Longrightarrow> feedback_ok (feedback_written r f)"
  using written_pixels [of f r] by simp

lemma execute_fill_ok:
  assumes "stores_ok t" and "length (depths t) = 16" and "tap_mode t = CommandMode"
  shows "tap_ok (execute_fill probe t)"
proof -
  have "stores_ok (on_record (append_entry (EFill f)) (on_feedback (feedback_written r) t))" for f r
    using assms(1) by (intro stores_ok_append stores_ok_feedback) (simp_all add: stores_ok_def feedback_written_ok entry_ok_def)
  then show ?thesis using assms(2,3)
    by (simp add: execute_fill_def Let_def tap_ok_def framing_ok_def stores_ok_frame) (simp add: on_record_def on_feedback_def)
qed

lemma execute_copy_ok:
  assumes "stores_ok t" and "length (depths t) = 16" and "tap_mode t = CommandMode"
  shows "tap_ok (execute_copy probe t)"
proof -
  obtain k t1 where n: "nextPrimitiveKey t = (k, t1)" by (cases "nextPrimitiveKey t")
  then obtain l where t1: "t1 = t\<lparr>lastKey := l\<rparr>" using key_frame by blast
  have "stores_ok (on_record (append_entry (ECopy f)) (on_feedback feedback_invalidate t1))" for f
    using assms(1) t1
    by (intro stores_ok_append stores_ok_feedback) (simp_all add: stores_ok_frame, simp_all add: stores_ok_def feedback_ok_ops entry_ok_def)
  then show ?thesis using assms(2,3) n t1
    by (simp add: execute_copy_def Let_def tap_ok_def framing_ok_def stores_ok_frame) (simp add: on_record_def on_feedback_def)
qed

lemma transferRegion_pos: "0 < vr_width (transferRegion a b)" "0 < vr_height (transferRegion a b)"
proof -
  have "0 < uint x" if "uint x \<noteq> 0" for x :: u32
    using that uint_ge_0 [of x] by linarith
  then show "0 < vr_width (transferRegion a b)" "0 < vr_height (transferRegion a b)"
    by (simp_all add: transferRegion_def Let_def kVramWidth_def kVramHeight_def)
qed

lemma execute_other_ok:
  assumes "stores_ok t" and "length (depths t) = 16" and "tap_mode t = CommandMode"
  shows "tap_ok (execute_upload probe t)" "tap_ok (execute_read probe t)"
    "tap_ok ((on_feedback feedback_invalidate t)\<lparr>tap_clutTag := kInvalidClutTag, tap_words := []\<rparr>)"
    "tap_ok (t\<lparr>tap_words := []\<rparr>)"
proof -
  have s: "stores_ok (on_feedback feedback_invalidate t)"
    using assms(1) by (intro stores_ok_feedback) (simp_all add: stores_ok_def feedback_ok_ops)
  have d: "depths (on_feedback feedback_invalidate t) = depths t" "tap_mode (on_feedback feedback_invalidate t) = CommandMode"
    using assms(3) by (simp_all add: on_feedback_def)
  show "tap_ok (execute_upload probe t)" using s d assms(2) transferRegion_pos
    by (simp add: execute_upload_def Let_def tap_ok_def framing_ok_def stores_ok_frame)
  show "tap_ok (execute_read probe t)" using s d assms(2)
    by (simp add: execute_read_def tap_ok_def framing_ok_def stores_ok_frame)
  have "stores_ok ((on_feedback feedback_invalidate t)\<lparr>tap_clutTag := kInvalidClutTag\<rparr>)"
    using s by (simp add: stores_defs)
  then show "tap_ok ((on_feedback feedback_invalidate t)\<lparr>tap_clutTag := kInvalidClutTag, tap_words := []\<rparr>)"
    using d assms(2) by (simp add: tap_ok_def framing_ok_def stores_ok_frame)
  show "tap_ok (t\<lparr>tap_words := []\<rparr>)" using assms by (simp add: tap_ok_def framing_ok_def stores_ok_frame)
qed

lemma executeCommand_ok:
  assumes "stores_ok t0" and "probe_ok probe" and "length (depths t0) = 16" and "tap_mode t0 = CommandMode"
  shows "tap_ok (executeCommand probe t0)"
proof -
  define t where "t = (on_feedback (texturePage (pr_state probe) (pr_texDisable probe)) t0)\<lparr>expectedDispatches := 1\<rparr>"
  have "stores_ok t" unfolding t_def stores_ok_frame
    using assms(1) by (intro stores_ok_feedback) (simp_all add: stores_ok_def feedback_ok_ops)
  moreover have "length (depths t) = 16" "tap_mode t = CommandMode" using assms(3,4) by (simp_all add: t_def on_feedback_def)
  ultimately have t: "stores_ok t" "length (depths t) = 16" "tap_mode t = CommandMode" by blast+
  have sprite: "tap_ok ((recordSprite probe t)\<lparr>tap_words := []\<rparr>)"
  proof -
    note s = sprite_ok [OF t(1) assms(2)]
    have "length (depths (recordSprite probe t)) = 16 \<and> tap_mode (recordSprite probe t) = CommandMode"
      using s [THEN conjunct2]
    proof
      assume "framing (recordSprite probe t) = framing t"
      from framing_fields [OF this] show ?thesis using t by simp
    next
      assume "recordSprite probe t = desync t"
      then show ?thesis using t by (simp add: desync_def resetFraming_def on_record_def on_feedback_def)
    qed
    then show ?thesis using s by (simp add: tap_ok_def framing_ok_def stores_ok_frame)
  qed
  show ?thesis unfolding executeCommand_def Let_def t_def [symmetric]
    using execute_polygon_ok [OF t(1) assms(2) t(2,3)] execute_line_ok [OF t(1) assms(2) t(2,3)] sprite
      execute_fill_ok [OF t] execute_copy_ok [OF t] execute_other_ok [OF t]
    by (simp only: split: if_split) blast
qed

lemma polygon_vertex_count: "polygonVertexCount w = 3 \<or> polygonVertexCount w = 4"
  by (simp add: polygonVertexCount_def)

lemma firstDispatchWords_pos: "0 < firstDispatchWords w"
proof -
  have "vertexWords w < packetWordCount w" if "isPolygon w" "polygonVertexCount w = 4"
    using that by (simp add: vertexWords_def packetWordCount_def)
  then show ?thesis using packetWordCount_bounds [of w] by (auto simp: firstDispatchWords_def)
qed

lemma process_word_ok:
  assumes "tap_ok t" and "probe_ok probe" and "tap_mode t \<noteq> ReadMode"
  shows "tap_ok (process_word w origin probe t)"
proof (cases "tap_mode t")
  case UploadMode
  then show ?thesis using upload_word_ok assms(1) by (simp add: process_word_def)
next
  case PolyLineMode
  then show ?thesis using polyline_word_ok assms by (simp add: process_word_def)
next
  case QuadTailMode
  define t1 where "t1 = take_word w origin t"
  have f: "stores_ok t1" "length (depths t1) = 16" "tap_mode t1 = QuadTailMode" "need t1 = need t" "quadOpcode t1 = quadOpcode t"
      "tap_words t1 = tap_words t @ [w]"
    using assms(1) QuadTailMode
    by (simp_all add: t1_def take_word_def noteDepth_def tap_ok_def stores_ok_frame framing_ok_def)
  have n: "length (tap_words t) < need t" "need t = vertexWords (quadOpcode t)"
    using assms(1) QuadTailMode by (simp_all add: tap_ok_def framing_ok_def)
  have p: "process_word w origin probe t = (if length (tap_words t1) = need t1 then finishQuad probe t1 else t1)"
    by (simp only: process_word_def QuadTailMode Mode.case Let_def t1_def)
  show ?thesis unfolding p using finishQuad_ok [OF f(1) assms(2) f(2)] f n by (auto simp: tap_ok_def framing_ok_def)
next
  case CommandMode
  define t0 where "t0 = begin_command w origin t"
  define t1 where "t1 = take_word w origin t0"
  have fo: "length (depths t) = 16" "tap_words t = [] \<or> length (tap_words t) < need t \<and> need t = firstDispatchWords (tap_words t ! 0)"
    using assms(1) CommandMode by (simp_all add: tap_ok_def framing_ok_def)
  have f: "stores_ok t1" "length (depths t1) = 16" "tap_mode t1 = CommandMode" "tap_words t1 = tap_words t @ [w]"
    using assms(1) CommandMode fo(1)
    by (auto simp: t1_def t0_def take_word_def begin_command_def noteDepth_def tap_ok_def stores_defs)
  have n: "need t1 = firstDispatchWords (tap_words t1 ! 0) \<and> length (tap_words t) < need t1"
    using fo(2) firstDispatchWords_pos
    by (cases "tap_words t") (auto simp: t1_def t0_def take_word_def begin_command_def noteDepth_def)
  have p: "process_word w origin probe t = (if length (tap_words t1) = need t1 then executeCommand probe t1 else t1)"
    by (simp only: process_word_def CommandMode Mode.case Let_def t1_def t0_def)
  show ?thesis unfolding p using executeCommand_ok [OF f(1) assms(2) f(2,3)] f n by (auto simp: tap_ok_def framing_ok_def)
next
  case ReadMode
  then show ?thesis using assms(3) by simp
qed

section \<open>Everything the tap is told\<close>

datatype TapEvent =
    OnGp0 u32 Gp0Origin DeviceProbe
  | OnDeviceStep DeviceProbe
  | OnSoftReset DeviceProbe
  | OnCommandReset DeviceProbe
  | OnStateReplaced DeviceProbe
  | OnSeal
  | OnPacket
  | OnDrawEntry u32
  | OnReadBack ReadBackTexture
  | OnSlot "OtSlot option" bool RecordDrawState

primrec tap_event :: "TapEvent \<Rightarrow> Gp0RecordTap \<Rightarrow> Gp0RecordTap" where
  "tap_event (OnGp0 w origin p) t = onGp0 w origin p t"
| "tap_event (OnDeviceStep p) t = onDeviceStep p t"
| "tap_event (OnSoftReset p) t = onSoftReset p t"
| "tap_event (OnCommandReset p) t = onCommandReset p t"
| "tap_event (OnStateReplaced p) t = onStateReplaced p t"
| "tap_event OnSeal t = snd (tap_seal t)"
| "tap_event OnPacket t = beginPacket t"
| "tap_event (OnDrawEntry f) t = noteDrawEntry f t"
| "tap_event (OnReadBack b) t = declareReadBack b t"
| "tap_event (OnSlot s d st) t = enterSlot s d st t"

primrec event_ok :: "TapEvent \<Rightarrow> bool" where
  "event_ok (OnGp0 w origin p) \<longleftrightarrow> probe_ok p"
| "event_ok (OnDeviceStep p) \<longleftrightarrow> True"
| "event_ok (OnSoftReset p) \<longleftrightarrow> True"
| "event_ok (OnCommandReset p) \<longleftrightarrow> True"
| "event_ok (OnStateReplaced p) \<longleftrightarrow> True"
| "event_ok OnSeal \<longleftrightarrow> True"
| "event_ok OnPacket \<longleftrightarrow> True"
| "event_ok (OnDrawEntry f) \<longleftrightarrow> True"
| "event_ok (OnReadBack b) \<longleftrightarrow> True"
| "event_ok (OnSlot s d st) \<longleftrightarrow> True"

lemma framing_ok_expected [simp]: "framing_ok (t\<lparr>expectedDispatches := n\<rparr>) = framing_ok t"
  by (cases "tap_mode t") (simp_all add: framing_ok_def)

lemma framing_ok_stores: "framing_ok (on_record f t) = framing_ok t" "framing_ok (on_feedback g t) = framing_ok t"
  "framing_ok (t\<lparr>lastKey := k\<rparr>) = framing_ok t" "framing_ok (t\<lparr>tap_slot := s\<rparr>) = framing_ok t"
  by (cases "tap_mode t"; simp add: framing_ok_def on_record_def on_feedback_def)+

lemma onGp0_ok: "tap_ok t \<Longrightarrow> probe_ok p \<Longrightarrow> tap_ok (onGp0 w origin p t)"
proof -
  assume t: "tap_ok t" and p: "probe_ok p"
  then have t0: "tap_ok (t\<lparr>expectedDispatches := 0\<rparr>)" by (simp add: tap_ok_def stores_ok_frame)
  have "tap_ok (desync (t\<lparr>expectedDispatches := 0\<rparr>))"
    using t0 by (simp add: tap_ok_def stores_ok_desync desync_framing framing_ok_def [of t])
  moreover have "tap_ok (resyncIfIdle p t)" using t resync_ok by (simp add: tap_ok_def)
  moreover have "tap_ok (tap_verify p (process_word w origin p (t\<lparr>expectedDispatches := 0\<rparr>)))" if "tap_mode t \<noteq> ReadMode"
    using process_word_ok [OF t0 p] that by (intro verify_ok) simp
  ultimately show ?thesis by (simp add: onGp0_def)
qed

lemma onDeviceStep_ok: "tap_ok t \<Longrightarrow> tap_ok (onDeviceStep p t)"
proof -
  assume t: "tap_ok t"
  then have "tap_ok (resyncIfIdle p t)" using resync_ok by (simp add: tap_ok_def)
  moreover have "tap_ok (t\<lparr>expectedDispatches := 0\<rparr>)" using t by (simp add: tap_ok_def stores_ok_frame)
  moreover have "tap_ok (t\<lparr>tap_mode := CommandMode, expectedDispatches := 0\<rparr>)" if "tap_mode t = ReadMode"
    using t that by (simp add: tap_ok_def stores_ok_frame framing_ok_def)
  ultimately show ?thesis using verify_ok by (simp add: onDeviceStep_def)
qed

lemma reset_framing_ok: "length (depths t) = 16 \<Longrightarrow> framing_ok (resetFraming t)"
  by (simp add: framing_ok_def resetFraming_def)

lemma onReset_ok:
  assumes "tap_ok t"
  shows "tap_ok (onSoftReset p t)" "tap_ok (onCommandReset p t)" "tap_ok (onStateReplaced p t)"
proof -
  have d: "length (depths t) = 16" and s: "stores_ok t" using assms by (simp_all add: tap_ok_def framing_ok_def)
  show "tap_ok (onSoftReset p t)" using assms
    by (simp add: onSoftReset_def tap_ok_def framing_ok_stores stores_ok_feedback feedback_ok_ops stores_ok_def [of t])
  define t1 where "t1 = (if tap_mode t = UploadMode \<and> uploadPixels t \<noteq> [] then on_record markIncomplete t else t)"
  have t1: "stores_ok t1" "length (depths t1) = 16" using s d stores_ok_mark by (auto simp: t1_def on_record_def)
  have t2: "stores_ok ((resetFraming t1)\<lparr>tap_clutTag := kInvalidClutTag\<rparr>)"
      "framing_ok ((resetFraming t1)\<lparr>tap_clutTag := kInvalidClutTag\<rparr>)"
    using t1 by (simp_all add: resetFraming_def stores_defs framing_ok_def)
  show "tap_ok (onCommandReset p t)"
    using t2 resync_ok by (simp add: onCommandReset_def Let_def t1_def [symmetric] tap_ok_def)
  have "stores_ok ((resetFraming (on_feedback (\<lambda>f. texturePage (pr_state p) (pr_texDisable p) (feedback_invalidateAll f))
      (on_record markIncomplete t)))\<lparr>tap_clutTag := kInvalidClutTag, synced := False\<rparr>)"
    using s by (simp add: resetFraming_def stores_defs markIncomplete_ok feedback_ok_ops)
  moreover have "framing_ok ((resetFraming (on_feedback (\<lambda>f. texturePage (pr_state p) (pr_texDisable p) (feedback_invalidateAll f))
      (on_record markIncomplete t)))\<lparr>tap_clutTag := kInvalidClutTag, synced := False\<rparr>)"
    using d by (simp add: resetFraming_def framing_ok_def on_record_def on_feedback_def)
  ultimately show "tap_ok (onStateReplaced p t)" using resync_ok by (simp add: onStateReplaced_def tap_ok_def)
qed

lemma tap_seal_ok:
  assumes "tap_ok t"
  shows "tap_ok (snd (tap_seal t))" "record_ok (fst (tap_seal t))"
proof -
  have f: "framing t = framing (snd (tap_seal t))" by (simp add: tap_seal_def framing_def)
  have "stores_ok (snd (tap_seal t))"
    using assms by (auto simp: tap_seal_def tap_ok_def stores_defs reset_record_ok) (simp_all add: reset_record_def)
  then show "tap_ok (snd (tap_seal t))" using assms framing_ok_cong [OF f] by (simp add: tap_ok_def)
  show "record_ok (fst (tap_seal t))"
    using assms by (simp add: tap_seal_def tap_ok_def stores_ok_def markIncomplete_ok)
qed

lemma marks_frame:
  "fr_complete (beginSlot s d st r) = fr_complete r" "fr_clutPool (beginSlot s d st r) = fr_clutPool r"
  "fr_complete (exitTable i st r) = fr_complete r" "fr_clutPool (exitTable i st r) = fr_clutPool r"
  "fr_complete (markDrawEntry f r) = fr_complete r" "fr_clutPool (markDrawEntry f r) = fr_clutPool r"
  by (simp_all add: beginSlot_def exitTable_def markDrawEntry_def)

lemma stores_marks:
  "stores_ok t \<Longrightarrow> stores_ok (on_record (beginSlot s d st) t)"
  "stores_ok t \<Longrightarrow> stores_ok (on_record (exitTable i st) t)"
  "stores_ok t \<Longrightarrow> stores_ok (on_record (markDrawEntry f) t)"
  by (simp_all add: stores_defs marks_ok marks_frame)

lemma enterSlot_ok:
  assumes "tap_ok t"
  shows "tap_ok (enterSlot slot d st t)"
proof -
  define t1 where "t1 = (case tap_slot t of
      Some s \<Rightarrow> if slot = None \<or> os_table (the slot) \<noteq> os_table s then on_record (exitTable (os_table s) st) t else t
    | None \<Rightarrow> t)"
  have t1: "stores_ok t1" "framing_ok t1"
    using assms by (auto simp: t1_def tap_ok_def stores_marks framing_ok_stores split: option.splits)
  have "enterSlot slot d st t = (if slot = tap_slot t then t
      else case slot of None \<Rightarrow> t1\<lparr>tap_slot := slot\<rparr> | Some s \<Rightarrow> on_record (beginSlot s d st) (t1\<lparr>tap_slot := slot\<rparr>))"
    unfolding enterSlot_def Let_def t1_def [symmetric] by (rule refl)
  then show ?thesis using assms t1
    by (auto simp: tap_ok_def stores_marks stores_ok_frame framing_ok_stores split: option.splits)
qed

lemma tap_event_ok:
  assumes "tap_ok t" and "event_ok e"
  shows "tap_ok (tap_event e t)"
proof (cases e)
  case (OnGp0 w origin p)
  then show ?thesis using assms onGp0_ok by simp
next
  case (OnReadBack b)
  have "stores_ok (on_record (append_entry (EReadBack b)) t)"
    using assms(1) by (intro stores_ok_append) (simp_all add: tap_ok_def entry_ok_def)
  then show ?thesis using OnReadBack assms(1) by (simp add: tap_ok_def framing_ok_stores declareReadBack_def)
next
  case OnPacket
  then show ?thesis using assms(1) by (simp add: tap_ok_def framing_ok_stores stores_ok_frame beginPacket_def)
next
  case (OnDrawEntry f)
  then show ?thesis using assms(1) by (simp add: tap_ok_def framing_ok_stores stores_marks noteDrawEntry_def)
qed (use assms onDeviceStep_ok onReset_ok tap_seal_ok enterSlot_ok in simp_all)

lemma new_tap_ok: "tap_ok new_tap"
proof -
  have "feedback_ok new_feedback"
    by (simp add: feedback_ok_def new_feedback_def bitmap_ok_def new_bitmap_def pixel_def)
  then show ?thesis by (simp add: tap_ok_def stores_defs framing_ok_def new_tap_def reset_record_ok)
qed

text \<open>
  C12: Whatever the tap is told, in whatever order, by a device whose palette cache has 256 entries and whose mirror has the
  size of VRAM, the tap stays well formed, and so does every record it seals: every upload lies in its pool, every palette a
  draw refers to has at least sixteen entries in its pool, marks point at entries, the pools keep their bounds, and a tap out
  of step holds no complete record. Nothing is asked of the device's palette tags; that an eight-bit draw finds all 256 of its
  entries depends on them and is not claimed.
\<close>

theorem tap_keeps_records:
  assumes "list_all event_ok es"
  shows "tap_ok (fold tap_event es new_tap) \<and> record_ok (fst (tap_seal (fold tap_event es new_tap)))"
proof -
  have "tap_ok t \<Longrightarrow> tap_ok (fold tap_event es t)" for t
    using assms by (induction es arbitrary: t) (simp_all add: tap_event_ok)
  then have "tap_ok (fold tap_event es new_tap)" using new_tap_ok by blast
  then show ?thesis using tap_seal_ok(2) by blast
qed

end
