(* ===== verification/Tap_Polygon.thy ===== *)
theory Tap_Polygon
  imports Tap_Laws
begin

text \<open>
  Two promises of the record tap: a record that is complete was agreed to by the device at every word of it, and a
  polygon that came word by word is recorded as the packet decoder reads the whole packet.
\<close>

section \<open>A lost record stays lost\<close>

abbreviation tap_complete :: "Gp0RecordTap \<Rightarrow> bool" where
  "tap_complete t \<equiv> fr_complete (tap_record t)"

lemma complete_append: "fr_complete (append_entry e r) \<Longrightarrow> fr_complete r"
  by (rule record_complete_mono)

lemma complete_settle: "tap_complete (settleLast probe t) \<Longrightarrow> tap_complete t"
  by (auto simp: settleLast_def Let_def on_record_def split: option.splits RecordEntry.splits prod.splits if_splits
      dest!: record_complete_mono(2)) (simp add: dropLast_def)

lemma complete_clut: "captureClut probe t = (k, t') \<Longrightarrow> tap_complete t' \<Longrightarrow> tap_complete t"
  by (auto simp: captureClut_def appendClut_def Let_def markIncomplete_def split: if_splits prod.splits)

lemma stamp_record: "stampPacket p t = (p', t') \<Longrightarrow> tap_record t' = tap_record t"
  using stamp_frame [of p t p' t'] by auto

lemma complete_stamp: "stampPacket p t = (p', t') \<Longrightarrow> tap_complete t' \<Longrightarrow> tap_complete t"
  using stamp_record [of p t p' t'] by auto

lemma complete_segment: "tap_complete (recordLineSegment a b g s probe t) \<Longrightarrow> tap_complete t"
  by (auto simp: recordLineSegment_def Let_def on_record_def split: prod.splits
      dest!: complete_settle complete_append dest: complete_stamp)

lemma complete_polygon: "tap_complete (recordPolygon probe t) \<Longrightarrow> tap_complete t"
  by (auto simp: recordPolygon_def Let_def on_record_def split: prod.splits if_splits
      dest!: complete_append dest: complete_stamp complete_clut)

lemma complete_sprite: "tap_complete (recordSprite probe t) \<Longrightarrow> tap_complete t"
  by (auto simp: recordSprite_def Let_def on_record_def desync_def resetFraming_def on_feedback_def
      split: prod.splits if_splits option.splits dest!: complete_settle complete_append dest: complete_stamp complete_clut)

lemma complete_finish: "tap_complete (finishQuad probe t) \<Longrightarrow> tap_complete t"
  by (auto simp: finishQuad_def Let_def on_record_def set_last_def split: option.splits RecordEntry.splits if_splits
      dest!: complete_settle)

lemma complete_polyline: "tap_complete (consumePolyLineWord w probe t) \<Longrightarrow> tap_complete t"
  by (auto simp: consumePolyLineWord_def Let_def split: if_splits dest!: complete_segment)

lemma complete_upload: "tap_complete (consumeUploadWord w t) \<Longrightarrow> tap_complete t"
  by (auto simp: consumeUploadWord_def Let_def on_record_def split: if_splits dest!: record_complete_mono(2))

lemma complete_key: "nextPrimitiveKey t = (k, t') \<Longrightarrow> tap_record t' = tap_record t"
  using key_frame [of t k t'] by auto

lemma complete_execute: "tap_complete (executeCommand probe t) \<Longrightarrow> tap_complete t"
proof -
  assume c: "tap_complete (executeCommand probe t)"
  define t1 where "t1 = (on_feedback (texturePage (pr_state probe) (pr_texDisable probe)) t)\<lparr>expectedDispatches := 1\<rparr>"
  have "tap_complete (execute_polygon probe t1) \<Longrightarrow> tap_complete t1"
    by (auto simp: execute_polygon_def Let_def split: if_splits dest!: complete_settle complete_polygon)
  moreover have "tap_complete (execute_line probe t1) \<Longrightarrow> tap_complete t1"
    by (auto simp: execute_line_def Let_def split: if_splits prod.splits dest!: complete_segment)
  moreover have "tap_complete (execute_fill probe t1) \<Longrightarrow> tap_complete t1"
    by (auto simp: execute_fill_def Let_def on_record_def on_feedback_def dest!: complete_append)
  moreover have "tap_complete (execute_copy probe t1) \<Longrightarrow> tap_complete t1"
    by (auto simp: execute_copy_def Let_def on_record_def on_feedback_def split: prod.splits dest!: complete_append complete_key)
  moreover have "tap_complete (execute_upload probe t1) \<Longrightarrow> tap_complete t1" "tap_complete (execute_read probe t1) \<Longrightarrow> tap_complete t1"
    by (simp_all add: execute_upload_def execute_read_def Let_def on_feedback_def)
  moreover have "tap_complete ((on_feedback feedback_invalidate t1)\<lparr>tap_clutTag := kInvalidClutTag, tap_words := []\<rparr>) \<Longrightarrow> tap_complete t1"
    by (simp add: on_feedback_def)
  ultimately have "tap_complete t1"
    using c complete_sprite [of probe t1] unfolding executeCommand_def Let_def t1_def [symmetric] by (auto split: if_splits)
  then show ?thesis by (simp add: t1_def on_feedback_def)
qed

lemma complete_process: "tap_complete (process_word w origin probe t) \<Longrightarrow> tap_complete t"
proof -
  have "tap_record (take_word w origin u) = tap_record u" "tap_record (begin_command w origin u) = tap_record u" for u
    by (simp_all add: take_word_def noteDepth_def begin_command_def Let_def)
  then show "tap_complete (process_word w origin probe t) \<Longrightarrow> tap_complete t"
    by (auto simp: process_word_def Let_def split: Mode.splits if_splits
        dest!: complete_upload complete_polyline complete_finish complete_execute)
qed

section \<open>Complete means agreed\<close>

lemma complete_word:
  assumes "tap_complete (onGp0 w origin p t)" and "tap_ok t"
  shows "synced t \<and> tap_mode t \<noteq> ReadMode \<and> tap_complete t \<and>
    onGp0 w origin p t = process_word w origin p (t\<lparr>expectedDispatches := 0\<rparr>) \<and> agrees p (onGp0 w origin p t)"
proof -
  have resync: "tap_record (resyncIfIdle p u) = tap_record u" for u by (simp add: resyncIfIdle_def resetFraming_def)
  have lost: "\<not> tap_complete (desync u)" for u by (simp add: desync_def resetFraming_def on_record_def on_feedback_def)
  have s: "synced t"
  proof (rule ccontr)
    assume "\<not> synced t"
    then show False using assms resync by (simp add: onGp0_def tap_ok_def stores_ok_def)
  qed
  then have r: "tap_mode t \<noteq> ReadMode" using assms(1) lost by (auto simp: onGp0_def)
  have v: "agrees p (process_word w origin p (t\<lparr>expectedDispatches := 0\<rparr>))"
    using assms(1) s r lost resync by (auto simp: onGp0_def tap_verify_def split: if_splits)
  then have "onGp0 w origin p t = process_word w origin p (t\<lparr>expectedDispatches := 0\<rparr>)"
    using s r by (simp add: onGp0_def tap_verify_def)
  then show ?thesis using s r v assms(1) complete_process [of w origin p "t\<lparr>expectedDispatches := 0\<rparr>"] by simp
qed

text \<open>The tap after a run of words, each with where it came from and what the device looked like behind it.\<close>

primrec feed :: "(u32 \<times> Gp0Origin \<times> DeviceProbe) list \<Rightarrow> Gp0RecordTap \<Rightarrow> Gp0RecordTap" where
  "feed [] t = t"
| "feed (x # xs) t = feed xs (onGp0 (fst x) (fst (snd x)) (snd (snd x)) t)"

lemma feed_append: "feed (xs @ ys) t = feed ys (feed xs t)"
  by (induction xs arbitrary: t) simp_all

lemma feed_ok: "tap_ok t \<Longrightarrow> \<forall>(w, origin, p) \<in> set xs. probe_ok p \<Longrightarrow> tap_ok (feed xs t)"
  by (induction xs arbitrary: t) (auto simp: onGp0_ok)

lemma feed_complete: "tap_ok t \<Longrightarrow> \<forall>(w, origin, p) \<in> set xs. probe_ok p \<Longrightarrow> tap_complete (feed xs t) \<Longrightarrow> tap_complete t"
proof (induction xs arbitrary: t)
  case (Cons x xs)
  then have "tap_ok (onGp0 (fst x) (fst (snd x)) (snd (snd x)) t)" by (intro onGp0_ok) auto
  then show ?case using Cons complete_word [OF _ Cons.prems(1)] by auto
qed simp

text \<open>C3: If a record is complete after a run of GP0 words, then at every one of those words the tap was in step, the
  device dropped nothing, dispatched exactly the commands the tap says, and stood in the command the tap stood in with as
  many words buffered: no disagreement is ever papered over by a later agreement. Of the device's palette cache and VRAM mirror
  only the sizes are asked.\<close>

theorem complete_record_agreed:
  assumes "tap_ok t" and "\<forall>(w, origin, p) \<in> set xs. probe_ok p" and "fr_complete (tap_record (feed xs t))"
    and "i < length xs"
  shows "synced (feed (take i xs) t) \<and> tap_mode (feed (take i xs) t) \<noteq> ReadMode \<and>
    \<not> pr_wordDropped (snd (snd (xs ! i))) \<and>
    pr_dispatched (snd (snd (xs ! i))) = expectedDispatches (feed (take (Suc i) xs) t) \<and>
    mode_agrees (snd (snd (xs ! i))) (feed (take (Suc i) xs) t)"
proof -
  let ?u = "feed (take i xs) t"
  have e: "feed (take (Suc i) xs) t = onGp0 (fst (xs ! i)) (fst (snd (xs ! i))) (snd (snd (xs ! i))) ?u"
    using assms(4) by (simp add: take_Suc_conv_app_nth feed_append)
  have ok: "tap_ok (feed (take k xs) t)" "\<forall>(w, origin, p) \<in> set (drop k xs). probe_ok p" for k
    using assms(1,2) by (auto intro!: feed_ok dest: in_set_takeD in_set_dropD)
  have "feed xs t = feed (drop (Suc i) xs) (feed (take (Suc i) xs) t)" by (simp flip: feed_append)
  then have "tap_complete (feed (take (Suc i) xs) t)" using feed_complete [OF ok] assms(3) by simp
  note w = complete_word [OF this [unfolded e] ok(1) [of i]]
  then have "agrees (snd (snd (xs ! i))) (feed (take (Suc i) xs) t)" unfolding e by blast
  then show ?thesis using w unfolding agrees_def by blast
qed

section \<open>A polygon, word by word\<close>

lemma polygonVertex_first:
  "polygonVertex ws i f (v\<lparr>rv_x := x, rv_y := y\<rparr>) b = polygonVertex ws i f v b"
  by (cases v) (simp add: polygonVertex_def Let_def)

lemma polygonVertex_depth: "rv_depth (fst (polygonVertex ws i f first b)) = 0"
  by (simp add: polygonVertex_def Let_def)

lemma placed_move: "wordDepth t k = 0 \<Longrightarrow> rv_depth v = 0 \<Longrightarrow> placed_vertex probe t k v = move_vertex probe v"
  by (cases v) (simp add: placed_vertex_def move_vertex_def)

lemma polygonVertex_moved: "polygonVertex ws i f (move_vertex probe v) b = polygonVertex ws i f v b"
  unfolding move_vertex_def by (rule polygonVertex_first)

text \<open>Placing the vertices as they are read is moving them after.\<close>

lemma polygon_points_moved:
  assumes "\<And>k. wordDepth t k = 0"
  shows "polygon_points n (placed_vertex probe t) ws f index (map (move_vertex probe) vs) =
    (map (move_vertex probe) (fst (polygon_points n (\<lambda>_ v. v) ws f index vs)), snd (polygon_points n (\<lambda>_ v. v) ws f index vs))"
proof (induction n arbitrary: index vs)
  case (Suc n)
  let ?first = "if vs = [] then new_vertex else hd vs"
  obtain v i where v: "polygonVertex ws index f ?first (vs = []) = (v, i)" by (cases "polygonVertex ws index f ?first (vs = [])")
  have "polygonVertex ws index f (if map (move_vertex probe) vs = [] then new_vertex else hd (map (move_vertex probe) vs)) (vs = []) = (v, i)"
    using v by (cases vs) (simp_all add: polygonVertex_moved)
  moreover have "placed_vertex probe t k v = move_vertex probe v" for k
    using placed_move [OF assms] polygonVertex_depth [of ws index f ?first "vs = []"] v by simp
  ultimately show ?case using v Suc [of i "vs @ [v]"] by (simp add: Let_def)
qed simp

lemma polygon_points_prefix:
  "\<exists>vs'. fst (polygon_points n adjust ws f i vs) = vs @ vs' \<and> length vs' = n"
proof (induction n arbitrary: i vs)
  case (Suc n)
  obtain v j where "polygonVertex ws i f (if vs = [] then new_vertex else hd vs) (vs = []) = (v, j)"
    by (cases "polygonVertex ws i f (if vs = [] then new_vertex else hd vs) (vs = [])")
  then show ?case using Suc [of j "vs @ [adjust (polygonPositionWord i f (vs = [])) v]"] by (auto simp: Let_def)
qed simp

lemma length_polygon_points: "length (fst (polygon_points n adjust ws f i vs)) = length vs + n"
  using polygon_points_prefix [of n adjust ws f i vs] by auto

text \<open>One more vertex is read behind those read before.\<close>

lemma polygon_points_Suc:
  assumes "polygon_points n (\<lambda>_ v. v) ws f i vs = (us, j)"
  shows "fst (polygon_points (Suc n) (\<lambda>_ v. v) ws f i vs) =
    us @ [fst (polygonVertex ws j f (if us = [] then new_vertex else hd us) (us = []))]"
  using assms
proof (induction n arbitrary: i vs)
  case 0
  then show ?case by (simp add: Let_def split: prod.split)
next
  case (Suc n)
  obtain v k where v: "polygonVertex ws i f (if vs = [] then new_vertex else hd vs) (vs = []) = (v, k)"
    by (cases "polygonVertex ws i f (if vs = [] then new_vertex else hd vs) (vs = [])")
  have "polygon_points n (\<lambda>_ v. v) ws f k (vs @ [v]) = (us, j)" using Suc.prems v by simp
  from Suc.IH [OF this] show ?case using v by simp
qed

text \<open>Reading from the tail of a packet is reading the packet behind its head.\<close>

lemma polygonVertex_tail:
  "fst (polygonVertex (xs @ tail) (length xs) f v False) = fst (polygonVertex tail 0 f v False)"
  by (simp add: polygonVertex_def Let_def nth_append Suc_diff_le)

lemma polygonVertex_head:
  assumes "i + (if b \<or> gouraud f then 1 else 0) + 1 + (if textured f then 1 else 0) \<le> length xs"
  shows "polygonVertex (xs @ tail) i f v b = polygonVertex xs i f v b"
  using assms by (auto simp: polygonVertex_def Let_def nth_append)

lemma polygonVertex_index:
  "snd (polygonVertex ws i f v b) = i + (if b \<or> gouraud f then 1 else 0) + 1 + (if textured f then 1 else 0)"
  by (auto simp: polygonVertex_def Let_def)

lemma three_points:
  assumes "length xs = 1 + 3 * (1 + (if textured f then 1 else 0)) + (if gouraud f then 2 else 0)"
  shows "polygon_points 3 (\<lambda>_ v. v) (xs @ tail) f 0 [] = polygon_points 3 (\<lambda>_ v. v) xs f 0 []"
    and "snd (polygon_points 3 (\<lambda>_ v. v) xs f 0 []) = length xs"
proof -
  obtain a i where a: "polygonVertex xs 0 f new_vertex True = (a, i)" by (cases "polygonVertex xs 0 f new_vertex True")
  obtain b j where b: "polygonVertex xs i f a False = (b, j)" by (cases "polygonVertex xs i f a False")
  obtain c k where c: "polygonVertex xs j f a False = (c, k)" by (cases "polygonVertex xs j f a False")
  have i: "i = 2 + (if textured f then 1 else 0)" using polygonVertex_index [of xs 0 f new_vertex True] a by simp
  have j: "j = i + (if gouraud f then 1 else 0) + 1 + (if textured f then 1 else 0)"
    using polygonVertex_index [of xs i f a False] b by simp
  have k: "k = j + (if gouraud f then 1 else 0) + 1 + (if textured f then 1 else 0)"
    using polygonVertex_index [of xs j f a False] c by simp
  have h: "polygonVertex (xs @ tail) 0 f new_vertex True = (a, i)" "polygonVertex (xs @ tail) i f a False = (b, j)"
      "polygonVertex (xs @ tail) j f a False = (c, k)"
    using a b c assms i j by (auto simp: polygonVertex_head)
  show "polygon_points 3 (\<lambda>_ v. v) (xs @ tail) f 0 [] = polygon_points 3 (\<lambda>_ v. v) xs f 0 []"
    "snd (polygon_points 3 (\<lambda>_ v. v) xs f 0 []) = length xs"
    using a b c h assms i j k by (simp_all add: numeral_3_eq_3)
qed

text \<open>A word of the guest's own stream, behind which the device stands with the given drawing offset.\<close>

definition plain_word :: "int \<Rightarrow> int \<Rightarrow> u32 \<times> Gp0Origin \<times> DeviceProbe \<Rightarrow> bool" where
  "plain_word ox oy x \<longleftrightarrow> or_depth (fst (snd x)) = 0 \<and> probe_ok (snd (snd x)) \<and>
     ds_offsetX (pr_state (snd (snd x))) = ox \<and> ds_offsetY (pr_state (snd (snd x))) = oy"

definition placeless :: "Gp0RecordTap \<Rightarrow> bool" where
  "placeless t \<longleftrightarrow> depths t = replicate 16 0"

lemma placeless_depth: "placeless t \<Longrightarrow> wordDepth t k = 0"
  by (simp add: placeless_def wordDepth_def)

lemma placeless_note: "placeless t \<Longrightarrow> or_depth origin = 0 \<Longrightarrow> noteDepth origin t = t"
proof -
  assume t: "placeless t" and o: "or_depth origin = 0"
  have "(replicate 16 0)[k := 0] = replicate 16 (0 :: u32)" for k
    using list_update_id [of "replicate 16 (0 :: u32)" k] by (cases "k < 16") (simp_all only: nth_replicate length_replicate list_update_beyond not_less)
  then have "depths t = (depths t)[length (tap_words t) := or_depth origin]" using t o by (simp add: placeless_def)
  then show ?thesis by (simp add: noteDepth_def)
qed

lemma placeless_framing: "framing t = framing t' \<Longrightarrow> placeless t = placeless t'"
  using framing_fields(1) [of t t'] by (simp add: placeless_def)

definition idle :: "Gp0RecordTap \<Rightarrow> bool" where
  "idle t \<longleftrightarrow> tap_mode t = CommandMode \<and> tap_words t = []"

lemma collect_word:
  assumes "tap_ok t" and "tap_mode t = CommandMode" and "placeless t" and "plain_word ox oy x"
    and "tap_complete (onGp0 (fst x) (fst (snd x)) (snd (snd x)) t)"
  shows "\<exists>u. tap_mode u = CommandMode \<and> placeless u \<and> tap_words u = tap_words t @ [fst x] \<and> tap_record u = tap_record t \<and>
    need u = firstDispatchWords ((tap_words t @ [fst x]) ! 0) \<and> stores_ok u \<and>
    onGp0 (fst x) (fst (snd x)) (snd (snd x)) t =
      (if length (tap_words u) = need u then executeCommand (snd (snd x)) u else u)"
proof -
  define t0 where "t0 = begin_command (fst x) (fst (snd x)) (t\<lparr>expectedDispatches := 0\<rparr>)"
  let ?u = "t0\<lparr>tap_words := tap_words t0 @ [fst x]\<rparr>"
  have f: "tap_mode t0 = CommandMode" "placeless t0" "tap_words t0 = tap_words t" "tap_record t0 = tap_record t"
      "stores_ok t0"
    using assms(1-3) by (auto simp: t0_def begin_command_def placeless_def tap_ok_def stores_defs)
  have n: "need t0 = firstDispatchWords ((tap_words t @ [fst x]) ! 0)"
    using assms(1,2) by (cases "tap_words t") (auto simp: t0_def begin_command_def tap_ok_def framing_ok_def)
  have "take_word (fst x) (fst (snd x)) t0 = ?u"
    using placeless_note [OF f(2)] assms(4) by (simp add: take_word_def plain_word_def)
  then have "process_word (fst x) (fst (snd x)) (snd (snd x)) (t\<lparr>expectedDispatches := 0\<rparr>) =
      (if length (tap_words ?u) = need ?u then executeCommand (snd (snd x)) ?u else ?u)"
    using assms(2) unfolding t0_def process_word_def by (simp add: Let_def)
  then have "onGp0 (fst x) (fst (snd x)) (snd (snd x)) t =
      (if length (tap_words ?u) = need ?u then executeCommand (snd (snd x)) ?u else ?u)"
    using complete_word [OF assms(5,1)] by simp
  then show ?thesis using f n by (intro exI [of _ ?u]) (simp add: placeless_def stores_ok_frame)
qed

lemma collect_words:
  assumes "tap_ok t" and "idle t" and "placeless t" and "\<forall>x \<in> set xs. plain_word ox oy x" and "tap_complete (feed xs t)"
    and "xs \<noteq> [] \<Longrightarrow> length xs < firstDispatchWords (fst (hd xs))"
  shows "tap_ok (feed xs t) \<and> tap_mode (feed xs t) = CommandMode \<and> placeless (feed xs t) \<and>
    tap_words (feed xs t) = map fst xs \<and> tap_record (feed xs t) = tap_record t"
  using assms
proof (induction xs rule: rev_induct)
  case Nil
  then show ?case by (simp add: idle_def)
next
  case (snoc x xs)
  let ?t = "feed xs t"
  have ok: "tap_ok ?t" using snoc.prems(1,4) by (intro feed_ok) (auto simp: plain_word_def)
  have c: "tap_complete (onGp0 (fst x) (fst (snd x)) (snd (snd x)) ?t)" using snoc.prems(5) by (simp add: feed_append)
  have "tap_complete ?t" using complete_word [OF c ok] by blast
  moreover have "xs \<noteq> [] \<Longrightarrow> length xs < firstDispatchWords (fst (hd xs))" using snoc.prems(6) by (cases xs) auto
  ultimately have ih: "tap_mode ?t = CommandMode" "placeless ?t" "tap_words ?t = map fst xs" "tap_record ?t = tap_record t"
    using snoc by auto
  have px: "plain_word ox oy x" using snoc.prems(4) by simp
  obtain u where u: "tap_mode u = CommandMode" "placeless u" "tap_words u = tap_words ?t @ [fst x]" "tap_record u = tap_record ?t"
      "need u = firstDispatchWords ((tap_words ?t @ [fst x]) ! 0)"
      "onGp0 (fst x) (fst (snd x)) (snd (snd x)) ?t = (if length (tap_words u) = need u then executeCommand (snd (snd x)) u else u)"
    using collect_word [OF ok ih(1,2) px c] by blast
  have "(tap_words ?t @ [fst x]) ! 0 = fst (hd (xs @ [x]))" using ih(3) by (cases xs) auto
  then have "length (tap_words u) \<noteq> need u" using u(3,5) ih(3) snoc.prems(6) by simp
  then have e: "feed (xs @ [x]) t = u" using u(6) by (simp add: feed_append)
  have "tap_ok (feed (xs @ [x]) t)" using onGp0_ok [OF ok] px by (simp add: feed_append plain_word_def)
  then show ?case using e u ih by simp
qed

section \<open>What the command leaves\<close>

text \<open>The primitive or, where the draw sampled texels written since, the pixels the device left.\<close>

definition settled_as :: "DrawPrimitive \<Rightarrow> RecordEntry \<Rightarrow> bool" where
  "settled_as p e \<longleftrightarrow> e = EDraw p \<or>
     dp_textured p \<and> (\<exists>u. e = EUpload u \<and> vu_x u = rr_x0 (drawBounds p) \<and> vu_y u = rr_y0 (drawBounds p) \<and>
       vu_width u = rr_x1 (drawBounds p) - rr_x0 (drawBounds p) \<and> vu_height u = rr_y1 (drawBounds p) - rr_y0 (drawBounds p))"

lemma settleLast_entry:
  assumes "fr_entries (tap_record t) = es @ [EDraw p]" and "tap_complete (settleLast probe t)"
  shows "\<exists>e. fr_entries (tap_record (settleLast probe t)) = es @ [e] \<and> settled_as p e"
proof -
  have l: "record_last (tap_record t) = Some (EDraw p)" using assms(1) by (simp add: record_last_def)
  obtain stale f where d: "feedback_drawn p (feedback t) = (stale, f)" by (cases "feedback_drawn p (feedback t)")
  have st: "stale \<Longrightarrow> dp_textured p" using d by (simp add: feedback_drawn_def Let_def)
  let ?r = "drawBounds p"
  show ?thesis
  proof (cases "\<not> stale \<or> rr_x1 ?r \<le> rr_x0 ?r \<or> rr_y1 ?r \<le> rr_y0 ?r")
    case True
    then show ?thesis using l d assms(1) by (auto simp: settleLast_def Let_def settled_as_def)
  next
    case False
    then have "tap_record (settleLast probe t) = appendUpload
        (new_upload\<lparr>vu_x := rr_x0 ?r, vu_y := rr_y0 ?r, vu_width := rr_x1 ?r - rr_x0 ?r,
          vu_height := rr_y1 ?r - rr_y0 ?r, vu_sourceAddress := dp_sourceAddress p, vu_key := dp_key p\<rparr>)
        (vram_rows (pr_vram probe) ?r) (dropLast (tap_record t))"
      using l d by (simp add: settleLast_def Let_def on_record_def)
    then show ?thesis using assms False st
      by (auto simp: appendUpload_def append_entry_def dropLast_def settled_as_def markIncomplete_def split: if_splits)
  qed
qed

text \<open>The drawing of \<open>q\<close>, moved by the offset, as the tap keeps it.\<close>

definition drawn_as :: "(RecordVertex \<Rightarrow> RecordVertex) \<Rightarrow> DrawPrimitive \<Rightarrow> nat \<Rightarrow> DrawPrimitive \<Rightarrow> bool" where
  "drawn_as moved q n p \<longleftrightarrow> dp_kind p = dp_kind q \<and> dp_vertexCount p = n \<and>
     take n (dp_vertices p) = map moved (take n (dp_vertices q)) \<and> length (dp_vertices p) = 4 \<and>
     dp_textured p = dp_textured q \<and> dp_gouraud p = dp_gouraud q \<and> dp_semiTransparent p = dp_semiTransparent q \<and>
     dp_modulate p = dp_modulate q"

lemma drawn_stamp: "stampPacket p t = (p', t') \<Longrightarrow> drawn_as moved q n p' = drawn_as moved q n p"
proof -
  assume "stampPacket p t = (p', t')"
  then obtain k s a b c where "p' = p\<lparr>dp_key := k, dp_slot := s, dp_owner := a, dp_mixedOwner := b, dp_command := c\<rparr>"
    using stamp_frame [of p t p' t'] by blast
  then show ?thesis by (simp add: drawn_as_def)
qed

lemma append_entry_complete: "fr_complete (append_entry e r) \<Longrightarrow> fr_entries (append_entry e r) = fr_entries r @ [e]"
  by (auto simp: append_entry_def markIncomplete_def split: if_splits)

lemma captureClut_entries: "captureClut probe t = (k, t') \<Longrightarrow> tap_complete t' \<Longrightarrow> fr_entries (tap_record t') = fr_entries (tap_record t)"
  by (auto simp: captureClut_def appendClut_def Let_def markIncomplete_def split: if_splits prod.splits)

lemma recordPolygon_entry:
  assumes "placeless t" and "tap_complete (recordPolygon probe t)" and "w = tap_words t ! 0"
  shows "\<exists>p. fr_entries (tap_record (recordPolygon probe t)) = fr_entries (tap_record t) @ [EDraw p] \<and>
    drawn_as (move_vertex probe) ((flagged_primitive (command_flags w))\<lparr>dp_kind := PolygonKind,
      dp_vertices := four_vertices (fst (polygon_points 3 (\<lambda>_ v. v) (tap_words t) (command_flags w) 0 []))\<rparr>) 3 p"
proof -
  let ?f = "command_flags w"
  let ?points = "fst (polygon_points 3 (\<lambda>_ v. v) (tap_words t) ?f 0 [])"
  let ?q = "(flagged_primitive ?f)\<lparr>dp_kind := PolygonKind, dp_vertices := four_vertices ?points\<rparr>"
  let ?p0 = "(flagged_primitive ?f)\<lparr>dp_kind := PolygonKind, dp_vertexCount := 3, dp_state := pr_state probe,
      dp_sourceAddress := packetSource t,
      dp_vertices := four_vertices (fst (polygon_points 3 (placed_vertex probe t) (tap_words t) ?f 0 []))\<rparr>"
  have len: "length ?points = 3" by (simp add: length_polygon_points)
  have "fst (polygon_points 3 (placed_vertex probe t) (tap_words t) ?f 0 []) = map (move_vertex probe) ?points"
    using polygon_points_moved [OF placeless_depth [OF assms(1)], of 3 probe "tap_words t" ?f 0 "[]"] by simp
  then have d0: "drawn_as (move_vertex probe) ?q 3 ?p0"
    using len by (simp add: drawn_as_def four_vertices_def flagged_primitive_def new_primitive_def)
  obtain k t0 where c: "captureClut probe t = (k, t0)" by (cases "captureClut probe t")
  let ?pt = "if textured ?f then (?p0\<lparr>dp_clutOffset := k, dp_clutWord := ucast (pr_clutTag probe AND 0x7FFF)\<rparr>, t0) else (?p0, t)"
  obtain p1 t1 where pt: "?pt = (p1, t1)" by (cases ?pt)
  obtain p2 t2 where st: "stampPacket p1 t1 = (p2, t2)" by (cases "stampPacket p1 t1")
  have e: "recordPolygon probe t = on_record (append_entry (EDraw p2)) t2"
    using pt st c assms(3) by (auto simp: recordPolygon_def Let_def split: if_splits)
  then have a: "fr_complete (append_entry (EDraw p2) (tap_record t2))" using assms(2) by (simp add: on_record_def)
  have "drawn_as (move_vertex probe) ?q 3 p1" using d0 pt by (auto simp: drawn_as_def split: if_splits)
  then have d2: "drawn_as (move_vertex probe) ?q 3 p2" using drawn_stamp [OF st] by simp
  have c1: "tap_complete t1" using complete_append [OF a] stamp_record [OF st] by simp
  have "fr_entries (tap_record t1) = fr_entries (tap_record t)"
    using pt captureClut_entries [OF c] c1 by (auto split: if_splits)
  then have "fr_entries (append_entry (EDraw p2) (tap_record t2)) = fr_entries (tap_record t) @ [EDraw p2]"
    using append_entry_complete [OF a] stamp_record [OF st] by simp
  then show ?thesis using e d2 by (auto simp: on_record_def)
qed

definition shift_vertex :: "int \<Rightarrow> int \<Rightarrow> RecordVertex \<Rightarrow> RecordVertex" where
  "shift_vertex ox oy v = v\<lparr>rv_x := rv_x v + ox, rv_y := rv_y v + oy\<rparr>"

lemma plain_moves: "plain_word ox oy x \<Longrightarrow> move_vertex (snd (snd x)) = shift_vertex ox oy"
  by (rule ext) (simp add: plain_word_def move_vertex_def shift_vertex_def)

definition polygon_q :: "u32 list \<Rightarrow> nat \<Rightarrow> DrawPrimitive" where
  "polygon_q ws n = (flagged_primitive (command_flags (ws ! 0)))\<lparr>dp_kind := PolygonKind,
     dp_vertices := four_vertices (fst (polygon_points n (\<lambda>_ v. v) ws (command_flags (ws ! 0)) 0 []))\<rparr>"

lemma drawn_decoded: "drawn_as moved (polygon_q ws (polygonVertexCount (ws ! 0))) n p = drawn_as moved (decode_polygon ws) n p"
  by (simp add: drawn_as_def polygon_q_def decode_polygon_def flagged_primitive_def new_primitive_def Let_def)

text \<open>The state in which the command runs.\<close>

lemma execute_is_polygon:
  assumes "isPolygon (tap_words u ! 0)"
  shows "executeCommand probe u = execute_polygon probe
    ((on_feedback (texturePage (pr_state probe) (pr_texDisable probe)) u)\<lparr>expectedDispatches := 1\<rparr>)"
  using assms by (simp add: executeCommand_def on_feedback_def)

lemma polygon_dispatch:
  assumes "tap_ok t" and "idle t" and "placeless t" and "\<forall>x \<in> set (xs @ [x]). plain_word ox oy x"
    and "tap_complete (feed (xs @ [x]) t)" and "isPolygon (fst (hd (xs @ [x])))"
    and "Suc (length xs) = firstDispatchWords (fst (hd (xs @ [x])))"
  shows "\<exists>u. feed (xs @ [x]) t = execute_polygon (snd (snd x)) u \<and> tap_words u = map fst (xs @ [x]) \<and> placeless u \<and>
    tap_record u = tap_record t \<and> tap_mode u = CommandMode \<and> stores_ok u"
proof -
  let ?t = "feed xs t"
  have ok: "tap_ok ?t" using assms(1,4) by (intro feed_ok) (auto simp: plain_word_def)
  have c: "tap_complete (onGp0 (fst x) (fst (snd x)) (snd (snd x)) ?t)" using assms(5) by (simp add: feed_append)
  have ct: "tap_complete ?t" using complete_word [OF c ok] by blast
  have lt: "xs \<noteq> [] \<Longrightarrow> length xs < firstDispatchWords (fst (hd xs))" using assms(7) by (cases xs) auto
  have pl: "\<forall>x \<in> set xs. plain_word ox oy x" and px: "plain_word ox oy x" using assms(4) by simp_all
  note ih = collect_words [OF assms(1-3) pl ct lt]
  obtain u where u: "tap_mode u = CommandMode" "placeless u" "tap_words u = tap_words ?t @ [fst x]" "tap_record u = tap_record ?t"
      "need u = firstDispatchWords ((tap_words ?t @ [fst x]) ! 0)" "stores_ok u"
      "onGp0 (fst x) (fst (snd x)) (snd (snd x)) ?t = (if length (tap_words u) = need u then executeCommand (snd (snd x)) u else u)"
    using collect_word [OF ok _ _ px c] ih by blast
  have h: "(tap_words ?t @ [fst x]) ! 0 = fst (hd (xs @ [x]))" using ih by (cases xs) auto
  then have "length (tap_words u) = need u" using u(3,5) ih assms(7) by simp
  then have e: "feed (xs @ [x]) t = executeCommand (snd (snd x)) u" using u(7) by (simp add: feed_append)
  define u1 where "u1 = (on_feedback (texturePage (pr_state (snd (snd x))) (pr_texDisable (snd (snd x)))) u)\<lparr>expectedDispatches := 1\<rparr>"
  have "isPolygon (tap_words u ! 0)" using h u(3) assms(6) by simp
  then have "feed (xs @ [x]) t = execute_polygon (snd (snd x)) u1" using e execute_is_polygon by (simp add: u1_def)
  moreover have "stores_ok u1" unfolding u1_def stores_ok_frame
    using u(6) by (intro stores_ok_feedback) (simp_all add: stores_ok_def feedback_ok_ops)
  ultimately show ?thesis using u ih by (intro exI [of _ u1]) (simp add: u1_def on_feedback_def placeless_def)
qed

lemma triangle_recorded:
  assumes "tap_ok t" and "idle t" and "placeless t" and "\<forall>x \<in> set xs. plain_word ox oy x"
    and "tap_complete (feed xs t)" and "isPolygon (fst (hd xs))" and "polygonVertexCount (fst (hd xs)) = 3"
    and "length xs = packetWordCount (fst (hd xs))"
  shows "\<exists>p e. fr_entries (tap_record (feed xs t)) = fr_entries (tap_record t) @ [e] \<and> settled_as p e \<and>
    drawn_as (shift_vertex ox oy) (decode_polygon (map fst xs)) 3 p \<and> idle (feed xs t)"
proof -
  have "xs \<noteq> []" using assms(8) packetWordCount_bounds [of "fst (hd xs)"] by auto
  then obtain ys x where xs: "xs = ys @ [x]" by (cases xs rule: rev_cases) auto
  have fd: "Suc (length ys) = firstDispatchWords (fst (hd (ys @ [x])))"
    using assms(7,8) by (simp add: xs firstDispatchWords_def)
  obtain u where u: "feed xs t = execute_polygon (snd (snd x)) u" "tap_words u = map fst xs" "placeless u"
      "tap_record u = tap_record t" "tap_mode u = CommandMode" "stores_ok u"
    using polygon_dispatch [OF assms(1-3), of ys x ox oy] assms(4-6) fd unfolding xs by blast
  have w: "tap_words u ! 0 = fst (hd xs)" using u(2) \<open>xs \<noteq> []\<close> by (cases xs) simp_all
  let ?r = "recordPolygon (snd (snd x)) u"
  have f: "feed xs t = (settleLast (snd (snd x)) ?r)\<lparr>tap_words := []\<rparr>"
    using u(1) w assms(7) by (simp add: execute_polygon_def)
  have c: "tap_complete (settleLast (snd (snd x)) ?r)" using assms(5) f by simp
  obtain p where p: "fr_entries (tap_record ?r) = fr_entries (tap_record u) @ [EDraw p]"
      "drawn_as (move_vertex (snd (snd x))) (polygon_q (map fst xs) 3) 3 p"
    using recordPolygon_entry [OF u(3) complete_settle [OF c] refl] u(2) by (auto simp: polygon_q_def)
  obtain e where "fr_entries (tap_record (settleLast (snd (snd x)) ?r)) = fr_entries (tap_record u) @ [e]" "settled_as p e"
    using settleLast_entry [OF p(1) c] by blast
  moreover have "drawn_as (shift_vertex ox oy) (decode_polygon (map fst xs)) 3 p"
    using p(2) drawn_decoded [of "shift_vertex ox oy" "map fst xs" 3 p] w u(2) assms(4,7) plain_moves [of ox oy x] by (simp add: xs)
  moreover have "tap_mode (settleLast (snd (snd x)) ?r) = CommandMode"
    using framing_fields(2) [OF framing_settle, of "snd (snd x)" ?r] u(5) assms(4)
      framing_fields(2) [OF polygon_ok [OF u(6), of "snd (snd x)", THEN conjunct2]] by (simp add: xs plain_word_def)
  ultimately show ?thesis using f u(4) by (auto simp: idle_def)
qed

text \<open>The last vertex of a quad comes behind its own dispatch.\<close>

lemma tail_word:
  assumes "tap_ok t" and "tap_mode t = QuadTailMode" and "placeless t" and "plain_word ox oy x"
    and "tap_complete (onGp0 (fst x) (fst (snd x)) (snd (snd x)) t)"
  shows "\<exists>u. tap_mode u = QuadTailMode \<and> placeless u \<and> tap_words u = tap_words t @ [fst x] \<and> tap_record u = tap_record t \<and>
    need u = need t \<and> quadOpcode u = quadOpcode t \<and>
    onGp0 (fst x) (fst (snd x)) (snd (snd x)) t = (if length (tap_words u) = need u then finishQuad (snd (snd x)) u else u)"
proof -
  let ?t = "t\<lparr>expectedDispatches := 0\<rparr>"
  let ?u = "?t\<lparr>tap_words := tap_words ?t @ [fst x]\<rparr>"
  have f: "placeless ?t" using assms(3) by (simp add: placeless_def)
  have "take_word (fst x) (fst (snd x)) ?t = ?u"
    using placeless_note [OF f] assms(4) by (simp add: take_word_def plain_word_def)
  then have "process_word (fst x) (fst (snd x)) (snd (snd x)) ?t =
      (if length (tap_words ?u) = need ?u then finishQuad (snd (snd x)) ?u else ?u)"
    using assms(2) unfolding process_word_def by (simp add: Let_def)
  then have "onGp0 (fst x) (fst (snd x)) (snd (snd x)) t =
      (if length (tap_words ?u) = need ?u then finishQuad (snd (snd x)) ?u else ?u)"
    using complete_word [OF assms(5,1)] by simp
  then show ?thesis using assms(2) f by (intro exI [of _ ?u]) (simp add: placeless_def)
qed

lemma tail_words:
  assumes "tap_ok t" and "tap_mode t = QuadTailMode" and "placeless t" and "tap_words t = []"
    and "\<forall>x \<in> set xs. plain_word ox oy x" and "tap_complete (feed xs t)" and "length xs < need t"
  shows "tap_ok (feed xs t) \<and> tap_mode (feed xs t) = QuadTailMode \<and> placeless (feed xs t) \<and> need (feed xs t) = need t \<and>
    quadOpcode (feed xs t) = quadOpcode t \<and> tap_words (feed xs t) = map fst xs \<and> tap_record (feed xs t) = tap_record t"
  using assms
proof (induction xs rule: rev_induct)
  case Nil
  then show ?case by simp
next
  case (snoc x xs)
  let ?t = "feed xs t"
  have ok: "tap_ok ?t" using snoc.prems(1,5) by (intro feed_ok) (auto simp: plain_word_def)
  have c: "tap_complete (onGp0 (fst x) (fst (snd x)) (snd (snd x)) ?t)" using snoc.prems(6) by (simp add: feed_append)
  have "tap_complete ?t" using complete_word [OF c ok] by blast
  then have ih: "tap_mode ?t = QuadTailMode" "placeless ?t" "tap_words ?t = map fst xs" "tap_record ?t = tap_record t"
      "need ?t = need t" "quadOpcode ?t = quadOpcode t"
    using snoc by auto
  have px: "plain_word ox oy x" using snoc.prems(5) by simp
  obtain u where u: "tap_mode u = QuadTailMode" "placeless u" "tap_words u = tap_words ?t @ [fst x]" "tap_record u = tap_record ?t"
      "need u = need ?t" "quadOpcode u = quadOpcode ?t"
      "onGp0 (fst x) (fst (snd x)) (snd (snd x)) ?t = (if length (tap_words u) = need u then finishQuad (snd (snd x)) u else u)"
    using tail_word [OF ok ih(1,2) px c] by blast
  have "length (tap_words u) \<noteq> need u" using u(3,5) ih snoc.prems(7) by simp
  then have e: "feed (xs @ [x]) t = u" using u(7) by (simp add: feed_append)
  have "tap_ok (feed (xs @ [x]) t)" using onGp0_ok [OF ok] px by (simp add: feed_append plain_word_def)
  then show ?case using e u ih by simp
qed

lemma quad_tail_recorded:
  assumes "tap_ok t" and "tap_mode t = QuadTailMode" and "placeless t" and "tap_words t = []"
    and "\<forall>x \<in> set xs. plain_word ox oy x" and "tap_complete (feed xs t)" and "length xs = need t" and "xs \<noteq> []"
    and "fr_entries (tap_record t) = es @ [EDraw p]" and "drawn_as (shift_vertex ox oy) (polygon_q ws 3) 3 p"
    and "f = command_flags (quadOpcode t)"
  shows "\<exists>q e. fr_entries (tap_record (feed xs t)) = es @ [e] \<and> settled_as q e \<and> idle (feed xs t) \<and> dp_vertexCount q = 4 \<and>
    q = p\<lparr>dp_vertices := (dp_vertices p)[3 := shift_vertex ox oy (fst (polygonVertex (map fst xs) 0 f (dp_vertices p ! 0) False))],
          dp_vertexCount := 4\<rparr>"
proof -
  obtain ys x where xs: "xs = ys @ [x]" using assms(8) by (cases xs rule: rev_cases) auto
  let ?t = "feed ys t"
  have ok: "tap_ok ?t" using assms(1,5) by (intro feed_ok) (auto simp: plain_word_def xs)
  have c: "tap_complete (onGp0 (fst x) (fst (snd x)) (snd (snd x)) ?t)" using assms(6) by (simp add: xs feed_append)
  have ct: "tap_complete ?t" using complete_word [OF c ok] by blast
  have pl: "\<forall>x \<in> set ys. plain_word ox oy x" and px: "plain_word ox oy x" and n: "length ys < need t"
    using assms(5,7) by (simp_all add: xs)
  note ih = tail_words [OF assms(1-4) pl ct n]
  obtain u where u: "tap_mode u = QuadTailMode" "placeless u" "tap_words u = tap_words ?t @ [fst x]" "tap_record u = tap_record ?t"
      "need u = need ?t" "quadOpcode u = quadOpcode ?t"
      "onGp0 (fst x) (fst (snd x)) (snd (snd x)) ?t = (if length (tap_words u) = need u then finishQuad (snd (snd x)) u else u)"
    using tail_word [OF ok _ _ px c] ih by blast
  have w: "tap_words u = map fst xs" using u(3) ih by (simp add: xs)
  have fin: "feed xs t = finishQuad (snd (snd x)) u" using u(5,7) w ih assms(7) by (simp add: xs feed_append)
  let ?u = "u\<lparr>expectedDispatches := 1\<rparr>"
  let ?v = "fst (polygonVertex (map fst xs) 0 f (dp_vertices p ! 0) False)"
  let ?q = "p\<lparr>dp_vertices := (dp_vertices p)[3 := shift_vertex ox oy ?v], dp_vertexCount := 4\<rparr>"
  let ?s = "on_record (set_last (EDraw ?q)) ?u"
  have es: "fr_entries (tap_record u) = es @ [EDraw p]" using u(4) ih assms(9) by simp
  then have l: "record_last (tap_record u) = Some (EDraw p)" by (simp add: record_last_def)
  have k: "dp_kind p = PolygonKind" "dp_vertexCount p = 3" using assms(10) by (simp_all add: drawn_as_def polygon_q_def)
  have pv: "placed_vertex (snd (snd x)) ?u n ?v = shift_vertex ox oy ?v" for n
  proof -
    have "wordDepth ?u n = 0" using u(2) by (intro placeless_depth) (simp add: placeless_def)
    then show ?thesis using polygonVertex_depth [of "map fst xs" 0 f "dp_vertices p ! 0" False] plain_moves [OF px]
      by (simp add: placed_move)
  qed
  have "finishQuad (snd (snd x)) u = (settleLast (snd (snd x)) ?s)\<lparr>tap_mode := CommandMode, tap_words := []\<rparr>"
    using l k pv w u(6) ih assms(11) by (simp add: finishQuad_def Let_def)
  then have fq: "feed xs t = (settleLast (snd (snd x)) ?s)\<lparr>tap_mode := CommandMode, tap_words := []\<rparr>" using fin by simp
  have "tap_complete (settleLast (snd (snd x)) ?s)" using assms(6) fq by simp
  moreover have "fr_entries (tap_record ?s) = es @ [EDraw ?q]" using es by (simp add: on_record_def set_last_def)
  ultimately obtain e where "fr_entries (tap_record (settleLast (snd (snd x)) ?s)) = es @ [e]" "settled_as ?q e"
    using settleLast_entry by blast
  then show ?thesis using fq by (intro exI [of _ ?q] exI [of _ e]) (simp add: idle_def)
qed

lemma quad_words:
  assumes "isPolygon w" and "polygonVertexCount w = 4"
  shows "firstDispatchWords w = 1 + 3 * (1 + (if textured (command_flags w) then 1 else 0)) + (if gouraud (command_flags w) then 2 else 0)"
    "packetWordCount w = firstDispatchWords w + vertexWords w"
  using assms by (simp_all add: firstDispatchWords_def packetWordCount_def vertexWords_def Let_def)

lemma quad_recorded:
  assumes "tap_ok t" and "idle t" and "placeless t" and "\<forall>x \<in> set xs. plain_word ox oy x"
    and "tap_complete (feed xs t)" and "isPolygon (fst (hd xs))" and "polygonVertexCount (fst (hd xs)) = 4"
    and "length xs = packetWordCount (fst (hd xs))"
  shows "\<exists>p e. fr_entries (tap_record (feed xs t)) = fr_entries (tap_record t) @ [e] \<and> settled_as p e \<and>
    drawn_as (shift_vertex ox oy) (decode_polygon (map fst xs)) 4 p \<and> idle (feed xs t)"
proof -
  let ?w = "fst (hd xs)" and ?ws = "map fst xs"
  let ?f = "command_flags ?w"
  note nw = quad_words [OF assms(6,7)]
  define front tail where "front = take (firstDispatchWords ?w) xs" and "tail = drop (firstDispatchWords ?w) xs"
  have xs: "xs = front @ tail" by (simp add: front_def tail_def)
  have lf: "length front = firstDispatchWords ?w" and lt: "length tail = vertexWords ?w"
    using assms(8) nw by (simp_all add: front_def tail_def)
  have "front \<noteq> []" "tail \<noteq> []" using lf lt firstDispatchWords_pos [of ?w] vertexWords_pos [of ?w] by auto
  then obtain ys x where ys: "front = ys @ [x]" by (cases front rule: rev_cases) auto
  have hd: "fst (hd (ys @ [x])) = ?w" using xs ys by (cases ys) auto
  have hw: "hd xs = hd front" using \<open>front \<noteq> []\<close> by (subst xs) simp
  have "xs \<noteq> []" using \<open>front \<noteq> []\<close> by (subst xs) simp
  then have "?ws ! 0 = ?w" by (cases xs) simp_all
  moreover have "map fst front ! 0 = ?w" unfolding hw using \<open>front \<noteq> []\<close> by (cases front) simp_all
  ultimately have w0: "?ws ! 0 = ?w" "map fst front ! 0 = ?w" .
  have plf: "\<forall>x \<in> set (ys @ [x]). plain_word ox oy x" and plt: "\<forall>x \<in> set tail. plain_word ox oy x"
    using assms(4) xs ys by auto
  have okf: "tap_ok (feed front t)" using assms(1) plf ys by (intro feed_ok) (auto simp: plain_word_def)
  have cf: "tap_complete (feed front t)"
  proof -
    have "\<forall>(w, origin, p) \<in> set tail. probe_ok p" using plt by (auto simp: plain_word_def)
    from feed_complete [OF okf this] show ?thesis using assms(5) by (simp add: xs feed_append)
  qed
  obtain u where u: "feed front t = execute_polygon (snd (snd x)) u" "tap_words u = map fst front" "placeless u"
      "tap_record u = tap_record t" "tap_mode u = CommandMode" "stores_ok u"
    using polygon_dispatch [OF assms(1-3) plf] cf assms(6) lf hd ys by auto
  let ?r = "recordPolygon (snd (snd x)) u"
  have f: "feed front t = ?r\<lparr>quadOpcode := ?w, tap_mode := QuadTailMode, need := vertexWords ?w, tap_words := []\<rparr>"
    using u(1,2) w0 assms(7) by (simp add: execute_polygon_def Let_def)
  have px: "probe_ok (snd (snd x))" "move_vertex (snd (snd x)) = shift_vertex ox oy"
    using plf plain_moves by (auto simp: plain_word_def)
  have plr: "placeless (feed front t)"
    using placeless_framing [OF polygon_ok [OF u(6) px(1), THEN conjunct2]] u(3) f by (simp add: placeless_def)
  obtain p where p: "fr_entries (tap_record (feed front t)) = fr_entries (tap_record t) @ [EDraw p]"
      "drawn_as (shift_vertex ox oy) (polygon_q (map fst front) 3) 3 p"
    using recordPolygon_entry [OF u(3) _ refl, of "snd (snd x)"] cf f u(2,4) px(2) by (auto simp: polygon_q_def)
  let ?v = "fst (polygonVertex (map fst tail) 0 ?f (dp_vertices p ! 0) False)"
  let ?q = "p\<lparr>dp_vertices := (dp_vertices p)[3 := shift_vertex ox oy ?v], dp_vertexCount := 4\<rparr>"
  obtain e where e: "fr_entries (tap_record (feed xs t)) = fr_entries (tap_record t) @ [e]" "settled_as ?q e" "idle (feed xs t)"
    using quad_tail_recorded [OF okf _ plr _ plt _ _ \<open>tail \<noteq> []\<close> p, of ?f] f assms(5) lt by (auto simp: xs feed_append)
  obtain us k where us: "polygon_points 3 (\<lambda>_ v. v) (map fst front) ?f 0 [] = (us, k)"
    by (cases "polygon_points 3 (\<lambda>_ v. v) (map fst front) ?f 0 []")
  have lu: "length us = 3" using length_polygon_points [of 3 _ "map fst front" ?f 0 "[]"] us by (metis add_0 fst_conv list.size(3))
  then obtain a us' where ua: "us = a # us'" by (cases us) auto
  have tp: "polygon_points 3 (\<lambda>_ v. v) ?ws ?f 0 [] = (us, length front)"
    using three_points(1) [of "map fst front" ?f "map fst tail"] three_points(2) [of "map fst front" ?f] us lf nw(1)
    by (subst xs) simp
  have pv: "dp_vertices p = map (shift_vertex ox oy) us @ drop 3 (dp_vertices p)" and dl: "length (dp_vertices p) = 4"
    using p(2) us w0 lu append_take_drop_id [of 3 "dp_vertices p"] by (auto simp: drawn_as_def polygon_q_def four_vertices_def)
  have "?v = fst (polygonVertex ?ws (length front) ?f a False)"
  proof -
    have "dp_vertices p ! 0 = shift_vertex ox oy a" by (subst pv) (simp add: ua)
    then have "polygonVertex (map fst tail) 0 ?f (dp_vertices p ! 0) False = polygonVertex (map fst tail) 0 ?f a False"
      using polygonVertex_first by (simp add: shift_vertex_def)
    then show ?thesis using polygonVertex_tail [of "map fst front" "map fst tail" ?f a] by (simp add: xs)
  qed
  then have p4: "fst (polygon_points 4 (\<lambda>_ v. v) ?ws ?f 0 []) = us @ [?v]"
    using polygon_points_Suc [OF tp] by (simp add: ua eval_nat_numeral)
  have "take 4 ((dp_vertices p)[3 := shift_vertex ox oy ?v]) = map (shift_vertex ox oy) (us @ [?v])"
  proof -
    have "length (drop 3 (dp_vertices p)) = Suc 0" using dl by simp
    then obtain z where z: "drop 3 (dp_vertices p) = [z]" unfolding length_Suc_conv by auto
    have pv4: "dp_vertices p = map (shift_vertex ox oy) us @ [z]" using pv z by simp
    show ?thesis unfolding pv4 using lu by (simp add: list_update_append)
  qed
  then have "drawn_as (shift_vertex ox oy) (polygon_q ?ws 4) 4 ?q"
    using p(2) dl w0 p4 lu by (simp add: drawn_as_def polygon_q_def four_vertices_def flagged_primitive_def)
  then have "drawn_as (shift_vertex ox oy) (decode_polygon ?ws) 4 ?q"
    using drawn_decoded [of "shift_vertex ox oy" ?ws 4 ?q] w0 assms(7) by simp
  then show ?thesis using e by blast
qed


section \<open>Witnesses\<close>

text \<open>A device that is idle, with an empty VRAM and palette, after a word it dispatched as a command of its own.\<close>

definition idle_probe :: "nat \<Rightarrow> nat \<Rightarrow> DeviceProbe" where
  "idle_probe depth dispatched = \<lparr>pr_command = DevNone, pr_fifoDepth = depth, pr_dispatched = dispatched, pr_wordDropped = False,
     pr_state = new_draw_state\<lparr>ds_texMode := 2\<rparr>, pr_texDisable = False, pr_spriteFlipX = False, pr_spriteFlipY = False,
     pr_clutTag = 0, pr_clut = replicate 256 0, pr_vram = replicate (nat kVramWidth * nat kVramHeight) 0\<rparr>"

definition plain_origin :: Gp0Origin where
  "plain_origin = \<lparr>or_sourceAddress = 0, or_packetKey = None, or_owner = 0, or_mixedOwner = 0, or_depth = 0\<rparr>"

text \<open>The same with textures of four or eight bits and an ordinary palette tag, the same for both.\<close>

definition textured_probe :: "int \<Rightarrow> nat \<Rightarrow> nat \<Rightarrow> DeviceProbe" where
  "textured_probe texMode depth dispatched = (idle_probe depth dispatched)\<lparr>pr_state := new_draw_state\<lparr>ds_texMode := texMode\<rparr>,
     pr_clutTag := 0x4321\<rparr>"

lemma textured_probe_ok: "0 \<le> texMode \<Longrightarrow> probe_ok (textured_probe texMode d n)"
  by (simp add: probe_ok_def textured_probe_def idle_probe_def)

lemmas tap_eval = onGp0_def tap_verify_def agrees_def mode_agrees_def process_word_def take_word_def begin_command_def
  noteDepth_def Let_def on_record_def on_feedback_def plain_origin_def

lemma new_tap_fields:
  "synced new_tap" "tap_mode new_tap = CommandMode" "tap_words new_tap = []" "depths new_tap = replicate 16 0"
  "tap_record new_tap = reset_record 1 True"
  by (simp_all add: new_tap_def)

lemma reset_complete: "fr_complete (reset_record n b) = b" "fr_entries (reset_record n b) = []"
  by (simp_all add: reset_record_def)


text \<open>A textured triangle.\<close>

definition textured_words :: "u32 list" where
  "textured_words = [0x24808080, 0x00000000, 0x43210000, 0x00000010, 0x00000008, 0x00100000, 0x00000800]"

definition textured_run :: "int \<Rightarrow> (u32 \<times> Gp0Origin \<times> DeviceProbe) list" where
  "textured_run texMode =
     [(0x24808080, plain_origin, textured_probe texMode 1 0), (0x00000000, plain_origin, textured_probe texMode 2 0),
      (0x43210000, plain_origin, textured_probe texMode 3 0), (0x00000010, plain_origin, textured_probe texMode 4 0),
      (0x00000008, plain_origin, textured_probe texMode 5 0), (0x00100000, plain_origin, textured_probe texMode 6 0),
      (0x00000800, plain_origin, textured_probe texMode 0 1)]"

lemma textured_words_facts:
  "firstDispatchWords 0x24808080 = 7" "isPolygon 0x24808080" "polygonVertexCount 0x24808080 = 3"
  "packetWordCount 0x24808080 = 7" "textured (command_flags 0x24808080)"
  by (code_simp, code_simp, code_simp, code_simp, code_simp)

lemma textured_probe_fields:
  "pr_command (textured_probe k d n) = DevNone" "pr_fifoDepth (textured_probe k d n) = d" "pr_dispatched (textured_probe k d n) = n"
  "\<not> pr_wordDropped (textured_probe k d n)" "ds_texMode (pr_state (textured_probe k d n)) = k"
  "ds_offsetX (pr_state (textured_probe k d n)) = 0" "ds_offsetY (pr_state (textured_probe k d n)) = 0"
  "pr_clutTag (textured_probe k d n) = 0x4321" "pr_clut (textured_probe k d n) = replicate 256 0"
  by (simp_all add: textured_probe_def idle_probe_def new_draw_state_def)

lemma new_tap_stores:
  "packetKey new_tap = None" "tap_clutTag new_tap = kInvalidClutTag" "tap_clutOffset new_tap = kNoClut"
  "fr_clutPool (reset_record n b) = []" "fr_uploadPixels (reset_record n b) = []"
  by (simp_all add: new_tap_def reset_record_def)

lemma settle_framing:
  "expectedDispatches (settleLast probe t) = expectedDispatches t" "tap_mode (settleLast probe t) = tap_mode t"
  by (simp_all add: settleLast_def on_record_def Let_def split: option.split RecordEntry.split prod.split)

lemma textured_complete: "fr_complete (tap_record (feed (textured_run 1) new_tap))"
  by (simp add: textured_run_def tap_eval textured_words_facts textured_probe_fields new_tap_fields new_tap_stores executeCommand_def
      execute_polygon_def settle_complete settle_framing textured_probe_ok append_entry_def reset_complete kMaxEntries_def
      recordPolygon_def stampPacket_def nextPrimitiveKey_def captureClut_def appendClut_def clutEntryCount_def tex_depth_def
      kInvalidClutTag_def kMaxPoolHalfwords_def)

lemma complete_record_agreed_witness:
  "synced (feed (take 6 (textured_run 1)) new_tap) \<and> tap_mode (feed (take 6 (textured_run 1)) new_tap) \<noteq> ReadMode \<and>
    \<not> pr_wordDropped (snd (snd (textured_run 1 ! 6))) \<and>
    pr_dispatched (snd (snd (textured_run 1 ! 6))) = expectedDispatches (feed (take (Suc 6) (textured_run 1)) new_tap) \<and>
    mode_agrees (snd (snd (textured_run 1 ! 6))) (feed (take (Suc 6) (textured_run 1)) new_tap)"
  by (rule complete_record_agreed [OF new_tap_ok _ textured_complete]) (simp_all add: textured_run_def textured_probe_ok)


text \<open>A four-bit and an eight-bit draw under one palette tag, then the seal.\<close>

lemma tap_keeps_records_witness:
  "tap_ok (fold tap_event (map (\<lambda>(w, origin, p). OnGp0 w origin p) (textured_run 0 @ textured_run 1) @ [OnSeal]) new_tap) \<and>
   record_ok (fst (tap_seal (fold tap_event (map (\<lambda>(w, origin, p). OnGp0 w origin p) (textured_run 0 @ textured_run 1) @ [OnSeal]) new_tap)))"
  by (rule tap_keeps_records) (simp add: textured_run_def textured_probe_ok)


end
