(* ===== verification/Writer_Attribution.thy ===== *)
theory Writer_Attribution
  imports Prelude
begin

text \<open>
  Who is running: the shadow call stack the owner ledger reads (\<open>cpu/guest_writer_latch.h\<close>, \<open>guest_call_site.h\<close>) and the
  stack of host-dispatched entries (\<open>cpu/guest_call_attribution.h\<close>). Both are fixed arrays; the specification of each is
  an unbounded stack, a list with the innermost call first.
\<close>

section \<open>Call attribution\<close>

definition Capacity :: nat where "Capacity = 256"

record GuestCallAttribution =
  ca_stack :: "u32 list"
  ca_depth :: nat

definition new_attribution :: GuestCallAttribution where
  "new_attribution = \<lparr>ca_stack = replicate Capacity 0, ca_depth = 0\<rparr>"

definition attribution_push :: "u32 \<Rightarrow> GuestCallAttribution \<Rightarrow> GuestCallAttribution" where
  "attribution_push address a =
     (let a1 = (if ca_depth a < Capacity then a\<lparr>ca_stack := (ca_stack a)[ca_depth a := address]\<rparr> else a)
      in a1\<lparr>ca_depth := ca_depth a1 + 1\<rparr>)"

definition attribution_pop :: "GuestCallAttribution \<Rightarrow> GuestCallAttribution" where
  "attribution_pop a = (if ca_depth a > 0 then a\<lparr>ca_depth := ca_depth a - 1\<rparr> else a)"

definition visibleDepth :: "GuestCallAttribution \<Rightarrow> nat" where
  "visibleDepth a = (if ca_depth a \<le> Capacity then ca_depth a else 0)"

definition frameFromTop :: "int \<Rightarrow> GuestCallAttribution \<Rightarrow> u32" where
  "frameFromTop index a =
     (let visible = int (visibleDepth a)
      in if index \<ge> 0 \<and> index < visible then ca_stack a ! nat (visible - 1 - index) else 0)"

definition attribution_top :: "GuestCallAttribution \<Rightarrow> u32" where
  "attribution_top = frameFromTop 0"

definition attribution_caller :: "GuestCallAttribution \<Rightarrow> u32" where
  "attribution_caller = frameFromTop 1"

text \<open>A scope pushes on entry and pops on exit; a run is any sequence of the two.\<close>

datatype attribution_op = Push_call u32 | Pop_call

fun attribution_step :: "attribution_op \<Rightarrow> GuestCallAttribution \<Rightarrow> GuestCallAttribution" where
  "attribution_step (Push_call address) a = attribution_push address a"
| "attribution_step Pop_call a = attribution_pop a"

fun stack_step :: "attribution_op \<Rightarrow> u32 list \<Rightarrow> u32 list" where
  "stack_step (Push_call address) stack = address # stack"
| "stack_step Pop_call stack = tl stack"

definition attribution_rel :: "u32 list \<Rightarrow> GuestCallAttribution \<Rightarrow> bool" where
  "attribution_rel stack a \<longleftrightarrow> length (ca_stack a) = Capacity \<and> ca_depth a = length stack \<and>
     (\<forall>d < min Capacity (length stack). ca_stack a ! d = rev stack ! d)"

lemma attribution_rel_new: "attribution_rel [] new_attribution"
  by (simp add: attribution_rel_def new_attribution_def)

lemma rev_nth_Cons: "d < length xs \<Longrightarrow> rev (x # xs) ! d = rev xs ! d"
  by (simp add: nth_append)

lemma attribution_rel_step: "attribution_rel stack a \<Longrightarrow> attribution_rel (stack_step op stack) (attribution_step op a)"
proof (induction op)
  case (Push_call address)
  then show ?case
    by (auto simp: attribution_rel_def attribution_push_def Let_def nth_append nth_list_update less_Suc_eq)
next
  case Pop_call
  show ?case
  proof (cases stack)
    case Nil
    then show ?thesis using Pop_call by (simp add: attribution_rel_def attribution_pop_def)
  next
    case (Cons x xs)
    then show ?thesis using Pop_call rev_nth_Cons [of _ xs x]
      by (auto simp: attribution_rel_def attribution_pop_def)
  qed
qed

lemma attribution_rel_run:
  "attribution_rel stack a \<Longrightarrow> attribution_rel (fold stack_step ops stack) (fold attribution_step ops a)"
  by (induction ops arbitrary: stack a) (simp_all add: attribution_rel_step)

lemma attribution_rel_frame:
  assumes "attribution_rel stack a"
  shows "frameFromTop (int i) a = (if length stack \<le> Capacity \<and> i < length stack then stack ! i else 0)"
proof (cases "length stack \<le> Capacity \<and> i < length stack")
  case True
  then have "nat (int (length stack) - 1 - int i) = length stack - Suc i" by simp
  moreover have "rev stack ! (length stack - Suc i) = stack ! i" using True by (subst rev_nth) auto
  moreover have "ca_stack a ! (length stack - Suc i) = rev stack ! (length stack - Suc i)" "ca_depth a = length stack"
    using assms True by (auto simp: attribution_rel_def)
  ultimately show ?thesis using True by (simp add: frameFromTop_def visibleDepth_def Let_def)
next
  case False
  then show ?thesis using assms by (auto simp: attribution_rel_def frameFromTop_def visibleDepth_def Let_def)
qed

text \<open>
  Whatever the pushes and pops, the array answers as the unbounded stack of calls does, at every index, while at
  most 256 calls are open, and 0 while more are; popping back below 256 finds the frames below unharmed, and a pop
  with no call open changes nothing.
\<close>

theorem attribution_is_stack:
  "let a = fold attribution_step ops new_attribution; stack = fold stack_step ops []
   in ca_depth a = length stack \<and>
      frameFromTop (int i) a = (if length stack \<le> Capacity \<and> i < length stack then stack ! i else 0)"
  using attribution_rel_run [OF attribution_rel_new, of ops] attribution_rel_frame
  unfolding Let_def attribution_rel_def by blast

section \<open>The writer latch\<close>

text \<open>\<open>kJalReturnOffset\<close> of \<open>guest_call_site.h\<close>.\<close>

definition kJalReturnOffset :: u32 where "kJalReturnOffset = 8"
definition kDepth :: nat where "kDepth = 64"

record LatchFrame =
  lf_entry :: u32
  lf_returnPc :: u32

record GuestWriterLatch =
  wl_frames :: "LatchFrame list"
  wl_depth :: nat
  wl_blockPc :: u32
  wl_decodedRa :: u32
  wl_callWord :: u32

definition new_latch :: GuestWriterLatch where
  "new_latch = \<lparr>wl_frames = replicate kDepth \<lparr>lf_entry = 0, lf_returnPc = 0\<rparr>, wl_depth = 0, wl_blockPc = 0,
     wl_decodedRa = 1, wl_callWord = 0\<rparr>"

text \<open>\<open>top\<close> is asked for only while a frame is open.\<close>

definition latch_top :: "GuestWriterLatch \<Rightarrow> nat" where
  "latch_top l = (wl_depth l - 1) mod kDepth"

definition wl_top_frame :: "GuestWriterLatch \<Rightarrow> LatchFrame" where
  "wl_top_frame l = wl_frames l ! latch_top l"

definition callsTo :: "u32 \<Rightarrow> u32 \<Rightarrow> u32 \<Rightarrow> (nat \<Rightarrow> u32) \<Rightarrow> bool" where
  "callsTo callWord entry returnPc gpr =
     (let opcode = drop_bit 26 callWord
      in if opcode = 3
         then let site = returnPc - kJalReturnOffset;
                  target = (site AND 0xF0000000) OR push_bit 2 (callWord AND 0x03FFFFFF)
              in target AND 0x1FFFFFFF = entry AND 0x1FFFFFFF
         else opcode = 0 \<and> callWord AND 0x3F = 9 \<and> gpr (unat (drop_bit 21 callWord AND 0x1F)) = entry)"

definition returns_to :: "u32 \<Rightarrow> GuestWriterLatch \<Rightarrow> nat \<Rightarrow> bool" where
  "returns_to pc l i \<longleftrightarrow> lf_returnPc (wl_frames l ! ((latch_top l + kDepth - i) mod kDepth)) = pc"

definition latch_enterBlock :: "u32 \<Rightarrow> u32 \<Rightarrow> (nat \<Rightarrow> u32) \<Rightarrow> u32 \<Rightarrow> GuestWriterLatch \<Rightarrow> GuestWriterLatch" where
  "latch_enterBlock pc ra gpr callWord l0 =
     (let l = l0\<lparr>wl_blockPc := pc\<rparr> in
      if wl_depth l \<noteq> 0 \<and> pc = lf_returnPc (wl_top_frame l) then l\<lparr>wl_depth := wl_depth l - 1\<rparr>
      else if pc = ra
      then case List.find (returns_to pc l) [1..<min (wl_depth l) kDepth] of
             Some i \<Rightarrow> l\<lparr>wl_depth := wl_depth l - (i + 1)\<rparr>
           | None \<Rightarrow> l
      else
        let l1 = (if ra \<noteq> wl_decodedRa l then l\<lparr>wl_decodedRa := ra, wl_callWord := callWord\<rparr> else l) in
        if \<not> callsTo (wl_callWord l1) pc ra gpr then l1
        else if wl_depth l1 \<noteq> 0 \<and> lf_entry (wl_top_frame l1) = pc \<and> lf_returnPc (wl_top_frame l1) = ra then l1
        else let l2 = l1\<lparr>wl_depth := wl_depth l1 + 1\<rparr>
             in l2\<lparr>wl_frames := (wl_frames l2)[latch_top l2 := \<lparr>lf_entry = pc, lf_returnPc = ra\<rparr>]\<rparr>)"

definition needsCallWord :: "u32 \<Rightarrow> GuestWriterLatch \<Rightarrow> bool" where
  "needsCallWord ra l \<longleftrightarrow> ra \<noteq> wl_decodedRa l"

definition latch_function :: "GuestWriterLatch \<Rightarrow> u32" where
  "latch_function l = (if wl_depth l \<noteq> 0 then lf_entry (wl_top_frame l) else 0)"

definition latch_clear :: "GuestWriterLatch \<Rightarrow> GuestWriterLatch" where
  "latch_clear l = l\<lparr>wl_depth := 0, wl_blockPc := 0, wl_decodedRa := 1\<rparr>"

section \<open>The shadow call stack\<close>

text \<open>
  The specification: the open calls, innermost first. Entering a block at an open call's return address ends that call
  and every call inside it, at its top always and below only when the entry is a return (\<open>pc = ra\<close>); any other entry
  opens a call when the instruction before \<open>ra\<close> is one that calls \<open>pc\<close>.
\<close>

record ShadowStack =
  sh_calls :: "LatchFrame list"
  sh_ra :: u32
  sh_word :: u32

definition new_shadow :: ShadowStack where
  "new_shadow = \<lparr>sh_calls = [], sh_ra = 1, sh_word = 0\<rparr>"

definition return_to :: "u32 \<Rightarrow> LatchFrame list \<Rightarrow> LatchFrame list" where
  "return_to pc calls = (case dropWhile (\<lambda>f. lf_returnPc f \<noteq> pc) calls of [] \<Rightarrow> calls | _ # outer \<Rightarrow> outer)"

definition innermost :: "LatchFrame list \<Rightarrow> LatchFrame option" where
  "innermost calls = (case calls of [] \<Rightarrow> None | f # _ \<Rightarrow> Some f)"

definition shadow_enter :: "u32 \<Rightarrow> u32 \<Rightarrow> (nat \<Rightarrow> u32) \<Rightarrow> u32 \<Rightarrow> ShadowStack \<Rightarrow> ShadowStack" where
  "shadow_enter pc ra gpr callWord s =
     (if pc = ra \<or> map_option lf_returnPc (innermost (sh_calls s)) = Some pc
      then s\<lparr>sh_calls := return_to pc (sh_calls s)\<rparr>
      else
        let word = (if ra \<noteq> sh_ra s then callWord else sh_word s);
            call = \<lparr>lf_entry = pc, lf_returnPc = ra\<rparr>
        in \<lparr>sh_calls = (if callsTo word pc ra gpr \<and> innermost (sh_calls s) \<noteq> Some call then call # sh_calls s else sh_calls s),
             sh_ra = ra, sh_word = word\<rparr>)"

type_synonym block_entry = "u32 \<times> u32 \<times> (nat \<Rightarrow> u32) \<times> u32"

definition latch_run :: "block_entry list \<Rightarrow> GuestWriterLatch \<Rightarrow> GuestWriterLatch" where
  "latch_run = fold (\<lambda>(pc, ra, gpr, word). latch_enterBlock pc ra gpr word)"

definition shadow_run :: "block_entry list \<Rightarrow> ShadowStack \<Rightarrow> ShadowStack" where
  "shadow_run = fold (\<lambda>(pc, ra, gpr, word). shadow_enter pc ra gpr word)"

definition latch_rel :: "ShadowStack \<Rightarrow> GuestWriterLatch \<Rightarrow> bool" where
  "latch_rel s l \<longleftrightarrow> length (wl_frames l) = kDepth \<and> wl_depth l = length (sh_calls s) \<and> length (sh_calls s) \<le> kDepth \<and>
     (\<forall>i < length (sh_calls s). wl_frames l ! (length (sh_calls s) - Suc i) = sh_calls s ! i) \<and>
     wl_decodedRa l = sh_ra s \<and> wl_callWord l = sh_word s"

lemma latch_rel_new: "latch_rel new_shadow new_latch"
  by (simp add: latch_rel_def new_shadow_def new_latch_def)

lemma latch_rel_top:
  assumes "latch_rel s l" "sh_calls s = f # outer"
  shows "wl_top_frame l = f" "latch_top l = length outer" "wl_depth l \<noteq> 0"
  using assms by (auto simp: latch_rel_def wl_top_frame_def latch_top_def)

lemma latch_rel_innermost:
  assumes "latch_rel s l"
  shows "wl_depth l \<noteq> 0 \<and> Q (wl_top_frame l) \<longleftrightarrow> (\<exists>f. innermost (sh_calls s) = Some f \<and> Q f)"
  using assms latch_rel_top [OF assms] by (cases "sh_calls s") (auto simp: innermost_def latch_rel_def)

lemma latch_rel_pop:
  assumes "latch_rel s l" "n \<le> length (sh_calls s)"
  shows "latch_rel (s\<lparr>sh_calls := drop n (sh_calls s)\<rparr>) (l\<lparr>wl_depth := wl_depth l - n\<rparr>)"
proof -
  have "wl_frames l ! (length (sh_calls s) - n - Suc i) = sh_calls s ! (n + i)" if "i < length (sh_calls s) - n" for i
    using assms that by (simp add: latch_rel_def)
  then show ?thesis using assms by (auto simp: latch_rel_def)
qed

lemma latch_rel_returns:
  assumes "latch_rel s l" "i < length (sh_calls s)"
  shows "returns_to pc l i \<longleftrightarrow> lf_returnPc (sh_calls s ! i) = pc"
proof -
  let ?n = "length (sh_calls s)"
  have n: "?n \<le> 64" "wl_depth l = ?n" using assms by (simp_all add: latch_rel_def kDepth_def)
  have "(latch_top l + kDepth - i) mod kDepth = ?n - Suc i"
  proof -
    have "latch_top l = ?n - 1" using n assms(2) by (simp add: latch_top_def kDepth_def)
    then have "latch_top l + kDepth - i = ?n - 1 + 64 - i" by (simp only: kDepth_def)
    moreover have "?n - 1 + 64 - i = (?n - Suc i) + 64" "?n - Suc i < 64" using assms(2) n(1) by linarith+
    ultimately show ?thesis unfolding kDepth_def by (simp only: mod_add_self2 mod_less)
  qed
  then show ?thesis using assms by (simp add: returns_to_def latch_rel_def)
qed

lemma dropWhile_first:
  assumes "n < length xs" "Q (xs ! n)" "\<forall>j < n. \<not> Q (xs ! j)"
  shows "dropWhile (\<lambda>x. \<not> Q x) xs = drop n xs"
proof -
  have "takeWhile (\<lambda>x. \<not> Q x) xs = take n xs" using assms by (intro takeWhile_eq_take_P_nth) auto
  then show ?thesis using assms(1) by (simp add: dropWhile_eq_drop)
qed

lemma return_to_first:
  assumes "n < length calls" "lf_returnPc (calls ! n) = pc" "\<forall>j < n. lf_returnPc (calls ! j) \<noteq> pc"
  shows "return_to pc calls = drop (Suc n) calls"
proof -
  have "dropWhile (\<lambda>f. lf_returnPc f \<noteq> pc) calls = drop n calls"
    using dropWhile_first [OF assms(1), of "\<lambda>f. lf_returnPc f = pc"] assms by simp
  then show ?thesis using assms(1) by (simp add: return_to_def Cons_nth_drop_Suc [symmetric])
qed

lemma return_to_none: "\<forall>f \<in> set calls. lf_returnPc f \<noteq> pc \<Longrightarrow> return_to pc calls = calls"
proof -
  assume "\<forall>f \<in> set calls. lf_returnPc f \<noteq> pc"
  then have "dropWhile (\<lambda>f. lf_returnPc f \<noteq> pc) calls = []" by (simp only: dropWhile_eq_Nil_conv)
  then show ?thesis by (simp only: return_to_def list.case)
qed

lemma latch_rel_pop_first:
  assumes "latch_rel s l" "List.find (returns_to pc l) [1..<min (wl_depth l) kDepth] = Some i"
    "\<forall>f. innermost (sh_calls s) = Some f \<longrightarrow> lf_returnPc f \<noteq> pc"
  shows "i < length (sh_calls s)" "return_to pc (sh_calls s) = drop (i + 1) (sh_calls s)"
proof -
  have n: "min (wl_depth l) kDepth = length (sh_calls s)" using assms(1) by (simp add: latch_rel_def)
  obtain k where k: "k < length [1..<length (sh_calls s)]" "returns_to pc l ([1..<length (sh_calls s)] ! k)" "i = [1..<length (sh_calls s)] ! k"
    "\<forall>j < k. \<not> returns_to pc l ([1..<length (sh_calls s)] ! j)"
    using assms(2) unfolding n find_Some_iff by auto
  then have i: "i = Suc k" "i < length (sh_calls s)" by auto
  have none: "lf_returnPc (sh_calls s ! j) \<noteq> pc" if "j < i" for j
  proof (cases j)
    case 0
    then show ?thesis using assms(3) i by (cases "sh_calls s") (auto simp: innermost_def)
  next
    case (Suc m)
    then have "\<not> returns_to pc l j" using k(4) that i by auto
    then show ?thesis using latch_rel_returns [OF assms(1), of j pc] that i by simp
  qed
  have "lf_returnPc (sh_calls s ! i) = pc" using k(2,3) latch_rel_returns [OF assms(1) i(2)] by simp
  then have "return_to pc (sh_calls s) = drop (Suc i) (sh_calls s)" using none i(2) by (intro return_to_first) auto
  then show "i < length (sh_calls s)" "return_to pc (sh_calls s) = drop (i + 1) (sh_calls s)" using i(2) by simp_all
qed

lemma latch_rel_pop_none:
  assumes "latch_rel s l" "List.find (returns_to pc l) [1..<min (wl_depth l) kDepth] = None"
    "\<forall>f. innermost (sh_calls s) = Some f \<longrightarrow> lf_returnPc f \<noteq> pc"
  shows "return_to pc (sh_calls s) = sh_calls s"
proof (intro return_to_none ballI)
  fix f assume "f \<in> set (sh_calls s)"
  then obtain j where j: "j < length (sh_calls s)" "f = sh_calls s ! j" by (auto simp: in_set_conv_nth)
  have n: "min (wl_depth l) kDepth = length (sh_calls s)" using assms(1) by (simp add: latch_rel_def)
  show "lf_returnPc f \<noteq> pc"
  proof (cases j)
    case 0
    then show ?thesis using assms(3) j by (cases "sh_calls s") (auto simp: innermost_def)
  next
    case (Suc m)
    then show ?thesis using assms(2) j latch_rel_returns [OF assms(1) j(1)] unfolding n find_None_iff by auto
  qed
qed

lemma latch_rel_push:
  assumes "latch_rel s l" "length (sh_calls s) < kDepth"
  shows "latch_rel (s\<lparr>sh_calls := f # sh_calls s\<rparr>)
    (l\<lparr>wl_depth := wl_depth l + 1, wl_frames := (wl_frames l)[latch_top (l\<lparr>wl_depth := wl_depth l + 1\<rparr>) := f]\<rparr>)"
  using assms by (auto simp: latch_rel_def latch_top_def nth_Cons nth_list_update split: nat.splits)

lemma latch_rel_enter:
  assumes r: "latch_rel s l" and n: "length (sh_calls (shadow_enter pc ra gpr word s)) \<le> kDepth"
  shows "latch_rel (shadow_enter pc ra gpr word s) (latch_enterBlock pc ra gpr word l)"
proof -
  let ?l = "l\<lparr>wl_blockPc := pc\<rparr>"
  have r': "latch_rel s ?l" using r by (simp add: latch_rel_def)
  note inner = latch_rel_innermost [OF r']
  show ?thesis
  proof (cases "wl_depth ?l \<noteq> 0 \<and> pc = lf_returnPc (wl_top_frame ?l)")
    case True
    then obtain f where f: "innermost (sh_calls s) = Some f" "lf_returnPc f = pc"
      using inner [of "\<lambda>f. pc = lf_returnPc f"] by blast
    then have "return_to pc (sh_calls s) = drop 1 (sh_calls s)"
      by (cases "sh_calls s") (auto simp: innermost_def return_to_def)
    moreover have "1 \<le> length (sh_calls s)" using f(1) by (cases "sh_calls s") (auto simp: innermost_def)
    ultimately show ?thesis using latch_rel_pop [OF r', of 1] f True
      by (simp add: latch_enterBlock_def shadow_enter_def Let_def)
  next
    case top: False
    then have miss: "\<forall>f. innermost (sh_calls s) = Some f \<longrightarrow> lf_returnPc f \<noteq> pc"
      using inner [of "\<lambda>f. pc = lf_returnPc f"] by blast
    then have miss': "map_option lf_returnPc (innermost (sh_calls s)) \<noteq> Some pc" by auto
    show ?thesis
    proof (cases "pc = ra")
      case True
      show ?thesis
      proof (cases "List.find (returns_to pc ?l) [1..<min (wl_depth ?l) kDepth]")
        case None
        have e: "latch_enterBlock pc ra gpr word l = ?l"
          unfolding latch_enterBlock_def Let_def if_not_P [OF top] if_P [OF True] None by simp
        show ?thesis using latch_rel_pop_none [OF r' None miss] r' True unfolding e by (simp add: shadow_enter_def)
      next
        case (Some i)
        have e: "latch_enterBlock pc ra gpr word l = ?l\<lparr>wl_depth := wl_depth ?l - (i + 1)\<rparr>"
          unfolding latch_enterBlock_def Let_def if_not_P [OF top] if_P [OF True] Some by simp
        note p = latch_rel_pop_first [OF r' Some miss]
        show ?thesis using latch_rel_pop [OF r', of "i + 1"] p True unfolding e by (simp add: shadow_enter_def)
      qed
    next
      case go: False
      let ?word = "if ra \<noteq> sh_ra s then word else sh_word s"
      let ?s = "s\<lparr>sh_ra := ra, sh_word := ?word\<rparr>"
      let ?l1 = "if ra \<noteq> wl_decodedRa ?l then ?l\<lparr>wl_decodedRa := ra, wl_callWord := word\<rparr> else ?l"
      let ?call = "\<lparr>lf_entry = pc, lf_returnPc = ra\<rparr>"
      have r1: "latch_rel ?s ?l1" using r by (auto simp: latch_rel_def)
      have w: "wl_callWord ?l1 = ?word" using r by (auto simp: latch_rel_def)
      have i1: "wl_depth ?l1 \<noteq> 0 \<and> lf_entry (wl_top_frame ?l1) = pc \<and> lf_returnPc (wl_top_frame ?l1) = ra \<longleftrightarrow>
          innermost (sh_calls s) = Some ?call"
        using latch_rel_innermost [OF r1, of "\<lambda>f. lf_entry f = pc \<and> lf_returnPc f = ra"]
        by (auto intro: LatchFrame.equality)
      have e: "latch_enterBlock pc ra gpr word l =
          (if \<not> callsTo ?word pc ra gpr then ?l1
           else if innermost (sh_calls s) = Some ?call then ?l1
           else (let l2 = ?l1\<lparr>wl_depth := wl_depth ?l1 + 1\<rparr>
                 in l2\<lparr>wl_frames := (wl_frames l2)[latch_top l2 := ?call]\<rparr>))"
        unfolding latch_enterBlock_def Let_def if_not_P [OF top] if_not_P [OF go] w i1 by simp
      have sh: "shadow_enter pc ra gpr word s =
          (if callsTo ?word pc ra gpr \<and> innermost (sh_calls s) \<noteq> Some ?call then ?s\<lparr>sh_calls := ?call # sh_calls ?s\<rparr> else ?s)"
      proof -
        have c: "\<not> (pc = ra \<or> map_option lf_returnPc (innermost (sh_calls s)) = Some pc)" using go miss' by simp
        show ?thesis unfolding shadow_enter_def Let_def if_not_P [OF c] by simp
      qed
      show ?thesis
      proof (cases "callsTo ?word pc ra gpr \<and> innermost (sh_calls s) \<noteq> Some ?call")
        case True
        have "length (sh_calls ?s) < kDepth" using n True unfolding sh by simp
        from latch_rel_push [OF r1 this, of ?call] True show ?thesis unfolding e sh by (simp add: Let_def)
      next
        case False
        then show ?thesis using r1 unfolding e sh by simp
      qed
    qed
  qed
qed

lemma latch_rel_run:
  "latch_rel s l \<Longrightarrow> \<forall>n \<le> length es. length (sh_calls (shadow_run (take n es) s)) \<le> kDepth \<Longrightarrow>
     latch_rel (shadow_run es s) (latch_run es l)"
proof (induction es rule: rev_induct)
  case Nil
  then show ?case by (simp add: latch_run_def shadow_run_def)
next
  case (snoc e es)
  obtain pc ra gpr word where e: "e = (pc, ra, gpr, word)" by (cases e) auto
  have "\<forall>n \<le> length es. length (sh_calls (shadow_run (take n es) s)) \<le> kDepth"
  proof (intro allI impI)
    fix n assume "n \<le> length es"
    then show "length (sh_calls (shadow_run (take n es) s)) \<le> kDepth" using snoc.prems(2) [rule_format, of n] by simp
  qed
  then have "latch_rel (shadow_run es s) (latch_run es l)" using snoc.IH snoc.prems(1) by blast
  moreover have "length (sh_calls (shadow_run (es @ [e]) s)) \<le> kDepth" using snoc.prems(2) [rule_format, of "Suc (length es)"] by simp
  ultimately show ?case using latch_rel_enter [of "shadow_run es s" "latch_run es l" pc ra gpr word]
    by (simp add: latch_run_def shadow_run_def e)
qed

text \<open>
  C10: While the shadow stack never holds more than 64 calls, the ring of frames answers as the unbounded stack: the same
  depth and the same innermost function, whatever blocks are entered, returns the stack never saw the call of included.
\<close>

theorem latch_is_shadow_stack:
  assumes "\<forall>n \<le> length es. length (sh_calls (shadow_run (take n es) new_shadow)) \<le> kDepth"
  shows "wl_depth (latch_run es new_latch) = length (sh_calls (shadow_run es new_shadow)) \<and>
    latch_function (latch_run es new_latch) = (case innermost (sh_calls (shadow_run es new_shadow)) of Some f \<Rightarrow> lf_entry f | None \<Rightarrow> 0)"
proof -
  have r: "latch_rel (shadow_run es new_shadow) (latch_run es new_latch)" by (rule latch_rel_run [OF latch_rel_new assms])
  then show ?thesis using latch_rel_top [OF r]
    by (cases "sh_calls (shadow_run es new_shadow)") (auto simp: latch_function_def innermost_def latch_rel_def)
qed

definition demo_entries :: "block_entry list" where
  "demo_entries = [(0x80010100, 0x80010008, (\<lambda>_. 0), 0x0C004040), (0x80010200, 0x80010108, (\<lambda>_. 0), 0x0C004080)]"

lemma demo_calls: "callsTo 0x0C004040 0x80010100 0x80010008 (\<lambda>_. 0)" "callsTo 0x0C004080 0x80010200 0x80010108 (\<lambda>_. 0)"
  by code_simp+

lemma demo_bounded: "\<forall>n \<le> length demo_entries. length (sh_calls (shadow_run (take n demo_entries) new_shadow)) \<le> kDepth"
  by (auto simp: demo_entries_def shadow_run_def new_shadow_def shadow_enter_def innermost_def Let_def kDepth_def le_Suc_eq
      return_to_def split: list.splits)

theorem latch_is_shadow_stack_witness:
  "wl_depth (latch_run demo_entries new_latch) = 2 \<and> latch_function (latch_run demo_entries new_latch) = 0x80010200"
  using latch_is_shadow_stack [OF demo_bounded]
  by (simp add: demo_entries_def shadow_run_def new_shadow_def shadow_enter_def innermost_def Let_def demo_calls)

end
