(* ===== verification/Owner_Ledger.thy ===== *)
theory Owner_Ledger
  imports Frame_Record Image_Catalog Writer_Attribution
begin

text \<open>
  The owner of every main-RAM word: \<open>psx/present/owner_ledger.cpp\<close>, \<open>owner_ledger.h\<close>. The ledger's fixed arrays (a word
  of main RAM, a scope slot, a slot of the writers' hash table) are functions of the index: every index the code computes
  is in range by a mask, a remainder or \<open>mainRamWord\<close>. The code that is running is what \<open>Writer_Attribution\<close> answers.
\<close>

section \<open>State\<close>

datatype WriterKind = GuestStore | BlockDma | MmioGp0 | LoadImage

fun kind_value :: "WriterKind \<Rightarrow> u64" where
  "kind_value GuestStore = 0"
| "kind_value BlockDma = 1"
| "kind_value MmioGp0 = 2"
| "kind_value LoadImage = 3"

fun writerKindName :: "WriterKind \<Rightarrow> string" where
  "writerKindName GuestStore = ''guest''"
| "writerKindName BlockDma = ''block-dma''"
| "writerKindName MmioGp0 = ''mmio-gp0''"
| "writerKindName LoadImage = ''load-image''"

record GuestWriter =
  gw_kind :: WriterKind
  gw_blockPc :: u32
  gw_function :: u32
  gw_dispatched :: u32
  gw_image :: ImageIdentity
  gw_revision :: u64

definition no_identity :: ImageIdentity where "no_identity = \<lparr>im_id = 0, im_generation = 0\<rparr>"

definition kNoOwner :: u32 where "kNoOwner = 0"
definition kWriterBit :: u32 where "kWriterBit = 0x80000000"
definition kScopeSlots :: u32 where "kScopeSlots = 0x10000"
definition kEpochMask :: u32 where "kEpochMask = 0x7FFF"
definition kMaxWriters :: nat where "kMaxWriters = 0x10000"
definition kWriterSlots :: nat where "kWriterSlots = kMaxWriters * 2"

definition isScope :: "u32 \<Rightarrow> bool" where
  "isScope handle \<longleftrightarrow> handle \<noteq> kNoOwner \<and> handle AND kWriterBit = 0"

definition isWriter :: "u32 \<Rightarrow> bool" where
  "isWriter handle \<longleftrightarrow> handle AND kWriterBit \<noteq> 0"

record ScopeSlot =
  so_key :: RecordKey
  so_epoch :: u32
  so_opened :: u64

record OwnerLedger =
  ol_words :: "nat \<Rightarrow> u32"
  ol_overwrote :: "nat \<Rightarrow> u32"
  ol_scopes :: "nat \<Rightarrow> ScopeSlot"
  ol_nextScope :: u32
  ol_epoch :: u32
  ol_opened :: u64
  ol_listStart :: u64
  ol_writers :: "GuestWriter list"
  ol_writerSlots :: "nat \<Rightarrow> u32"
  ol_last :: GuestWriter
  ol_lastRevision :: u64
  ol_lastHandle :: u32
  ol_overflowReported :: bool

definition new_writer :: GuestWriter where
  "new_writer = \<lparr>gw_kind = GuestStore, gw_blockPc = 0, gw_function = 0, gw_dispatched = 0, gw_image = no_identity, gw_revision = 0\<rparr>"

definition new_slot :: ScopeSlot where
  "new_slot = \<lparr>so_key = \<lparr>rk_producer = 0, rk_object = 0, rk_element = 0, rk_part = 0, rk_serial = 0\<rparr>, so_epoch = 0, so_opened = 0\<rparr>"

definition new_ledger :: OwnerLedger where
  "new_ledger = \<lparr>ol_words = (\<lambda>_. kNoOwner), ol_overwrote = (\<lambda>_. kNoOwner), ol_scopes = (\<lambda>_. new_slot), ol_nextScope = 0,
     ol_epoch = 1, ol_opened = 0, ol_listStart = 0, ol_writers = [], ol_writerSlots = (\<lambda>_. 0), ol_last = new_writer,
     ol_lastRevision = 0, ol_lastHandle = kNoOwner, ol_overflowReported = False\<rparr>"

section \<open>Scopes\<close>

definition openScope :: "RecordKey \<Rightarrow> OwnerLedger \<Rightarrow> u32 \<times> OwnerLedger" where
  "openScope key l =
     (let slot = ol_nextScope l;
          l1 = l\<lparr>ol_nextScope := (ol_nextScope l + 1) mod kScopeSlots\<rparr>;
          l2 = (if ol_nextScope l1 = 0
                then l1\<lparr>ol_epoch := if ol_epoch l1 = kEpochMask then 1 else ol_epoch l1 + 1\<rparr> else l1)
      in (push_bit 16 (ol_epoch l2) OR slot,
          l2\<lparr>ol_scopes := (ol_scopes l2)(unat slot := \<lparr>so_key = key, so_epoch = ol_epoch l2, so_opened = ol_opened l2\<rparr>),
             ol_opened := ol_opened l2 + 1\<rparr>))"

definition scopeKey :: "u32 \<Rightarrow> OwnerLedger \<Rightarrow> RecordKey option" where
  "scopeKey handle l =
     (if \<not> isScope handle then None
      else let slot = ol_scopes l (unat (handle AND 0xFFFF))
           in if so_epoch slot \<noteq> drop_bit 16 handle then None else Some (so_key slot))"

definition inDrawList :: "u32 \<Rightarrow> OwnerLedger \<Rightarrow> bool" where
  "inDrawList handle l \<longleftrightarrow> scopeKey handle l \<noteq> None \<and> so_opened (ol_scopes l (unat (handle AND 0xFFFF))) \<ge> ol_listStart l"

definition drawListSubmitted :: "OwnerLedger \<Rightarrow> OwnerLedger" where
  "drawListSubmitted l = l\<lparr>ol_listStart := ol_opened l\<rparr>"

section \<open>Writers\<close>

definition sameCode :: "GuestWriter \<Rightarrow> GuestWriter \<Rightarrow> bool" where
  "sameCode a b \<longleftrightarrow> gw_kind a = gw_kind b \<and> gw_blockPc a = gw_blockPc b \<and> gw_function a = gw_function b \<and>
     gw_dispatched a = gw_dispatched b"

definition writerHash :: "GuestWriter \<Rightarrow> u64" where
  "writerHash w =
     (let h0 = ucast (gw_blockPc w);
          h1 = (h0 * 0x9E3779B97F4A7C15) XOR ucast (gw_function w);
          h2 = (h1 * 0x9E3779B97F4A7C15) XOR ucast (gw_dispatched w);
          h3 = (h2 * 0x9E3779B97F4A7C15) XOR kind_value (gw_kind w)
      in h3 XOR drop_bit 29 h3)"

text \<open>What the probe of the hash table stops at: a known writer, or an empty slot with the image it resolved on the way.\<close>

datatype probe_end = KnownWriter nat | EmptySlot nat "ImageIdentity option"

definition resolved_image :: "GuestWriter \<Rightarrow> ImageCatalog \<Rightarrow> ImageIdentity" where
  "resolved_image running catalog = (case resolve (gw_blockPc running) catalog of Some i \<Rightarrow> i | None \<Rightarrow> no_identity)"

partial_function (option) writer_probe ::
  "ImageCatalog \<Rightarrow> GuestWriter \<Rightarrow> OwnerLedger \<Rightarrow> nat \<Rightarrow> ImageIdentity option \<Rightarrow> probe_end option" where
  "writer_probe catalog running l at resolved =
     (let index = unat (ol_writerSlots l at) in
      if index = 0 then Some (EmptySlot at resolved)
      else let known = ol_writers l ! (index - 1) in
        if \<not> sameCode known running then writer_probe catalog running l ((at + 1) mod kWriterSlots) resolved
        else if gw_revision known = revision catalog then Some (KnownWriter (index - 1))
        else let image = (case resolved of Some i \<Rightarrow> i | None \<Rightarrow> resolved_image running catalog) in
          if gw_image known = image then Some (KnownWriter (index - 1))
          else writer_probe catalog running l ((at + 1) mod kWriterSlots) (Some image))"

definition writer_handle :: "nat \<Rightarrow> u32" where
  "writer_handle index = kWriterBit OR word_of_nat index"

definition intern :: "ImageCatalog \<Rightarrow> GuestWriter \<Rightarrow> OwnerLedger \<Rightarrow> (u32 \<times> OwnerLedger) option" where
  "intern catalog running l =
     Option.bind (writer_probe catalog running l (unat (writerHash running) mod kWriterSlots) None)
       (\<lambda>found. Some (case found of
          KnownWriter i \<Rightarrow>
            (writer_handle i, l\<lparr>ol_writers := (ol_writers l)[i := (ol_writers l ! i)\<lparr>gw_revision := revision catalog\<rparr>]\<rparr>)
        | EmptySlot at resolved \<Rightarrow>
            if length (ol_writers l) = kMaxWriters then (kWriterBit, l\<lparr>ol_overflowReported := True\<rparr>)
            else let image = (case resolved of Some i \<Rightarrow> i | None \<Rightarrow> resolved_image running catalog);
                     ws = ol_writers l @ [running\<lparr>gw_image := image, gw_revision := revision catalog\<rparr>]
                 in (writer_handle (length ws - 1),
                     l\<lparr>ol_writers := ws, ol_writerSlots := (ol_writerSlots l)(at := word_of_nat (length ws))\<rparr>)))"

text \<open>The code running, as \<open>port\<close> reads it from the latch, the call attribution and the catalog.\<close>

record RunningCode =
  rc_latch :: GuestWriterLatch
  rc_calls :: GuestCallAttribution
  rc_catalog :: ImageCatalog

definition ledger_port :: "RunningCode \<Rightarrow> WriterKind \<Rightarrow> OwnerLedger \<Rightarrow> (u32 \<times> OwnerLedger) option" where
  "ledger_port code kind l =
     (let running = \<lparr>gw_kind = kind, gw_blockPc = wl_blockPc (rc_latch code), gw_function = latch_function (rc_latch code),
            gw_dispatched = attribution_top (rc_calls code), gw_image = no_identity, gw_revision = 0\<rparr>;
          rev = revision (rc_catalog code)
      in if ol_lastHandle l \<noteq> kNoOwner \<and> ol_lastRevision l = rev \<and> sameCode running (ol_last l)
         then Some (ol_lastHandle l, l)
         else Option.bind (intern (rc_catalog code) running (l\<lparr>ol_last := running, ol_lastRevision := rev\<rparr>))
                (\<lambda>(h, l'). Some (h, l'\<lparr>ol_lastHandle := h\<rparr>)))"

definition runningWriter :: "RunningCode \<Rightarrow> OwnerLedger \<Rightarrow> (u32 \<times> OwnerLedger) option" where
  "runningWriter code = ledger_port code GuestStore"

definition ledger_writer :: "u32 \<Rightarrow> OwnerLedger \<Rightarrow> GuestWriter option" where
  "ledger_writer handle l =
     (if \<not> isWriter handle then None
      else let index = unat (handle AND NOT kWriterBit)
           in if index < length (ol_writers l) then Some (ol_writers l ! index) else None)"

section \<open>Stores\<close>

definition mainRamWord :: "u32 \<Rightarrow> nat option" where
  "mainRamWord address = map_option (\<lambda>offset. unat (drop_bit 2 offset)) (mainRamOffset address)"

definition ownerOf :: "u32 \<Rightarrow> OwnerLedger \<Rightarrow> u32" where
  "ownerOf address l = (case mainRamWord address of Some w \<Rightarrow> ol_words l w | None \<Rightarrow> kNoOwner)"

definition overwrote :: "u32 \<Rightarrow> OwnerLedger \<Rightarrow> u32" where
  "overwrote address l = (case mainRamWord address of Some w \<Rightarrow> ol_overwrote l w | None \<Rightarrow> kNoOwner)"

text \<open>One word stored by a writer.\<close>

definition amend_word :: "u32 \<Rightarrow> nat \<Rightarrow> OwnerLedger \<Rightarrow> OwnerLedger" where
  "amend_word writer w l =
     (let previous = ol_words l w;
          l1 = (if inDrawList previous l then l\<lparr>ol_overwrote := (ol_overwrote l)(w := previous)\<rparr>
                else if \<not> inDrawList (ol_overwrote l w) l then l\<lparr>ol_overwrote := (ol_overwrote l)(w := kNoOwner)\<rparr>
                else l)
      in l1\<lparr>ol_words := (ol_words l1)(w := writer)\<rparr>)"

definition noteStore :: "RunningCode \<Rightarrow> u32 \<Rightarrow> u32 \<Rightarrow> u32 \<Rightarrow> OwnerLedger \<Rightarrow> OwnerLedger option" where
  "noteStore code address bytes scope l =
     (case (mainRamWord address, mainRamWord (address + bytes - 1)) of
        (Some lo, Some hi) \<Rightarrow>
          if hi < lo then Some l
          else if scope \<noteq> kNoOwner
          then Some (l\<lparr>ol_words := (\<lambda>w. if lo \<le> w \<and> w \<le> hi then scope else ol_words l w),
                       ol_overwrote := (\<lambda>w. if lo \<le> w \<and> w \<le> hi then kNoOwner else ol_overwrote l w)\<rparr>)
          else Option.bind (runningWriter code l) (\<lambda>(writer, l'). Some (fold (amend_word writer) [lo..<Suc hi] l'))
      | _ \<Rightarrow> Some l)"

text \<open>\<open>clear\<close> also clears the writer latch, which the model keeps beside the ledger.\<close>

definition ledger_clear :: "OwnerLedger \<times> GuestWriterLatch \<Rightarrow> OwnerLedger \<times> GuestWriterLatch" where
  "ledger_clear = (\<lambda>(l, latch). (l\<lparr>ol_words := (\<lambda>_. kNoOwner), ol_overwrote := (\<lambda>_. kNoOwner), ol_lastHandle := kNoOwner\<rparr>, latch_clear latch))"

section \<open>Handles of scopes\<close>

text \<open>The \<open>n\<close>th scope opened, from 0: its slot is \<open>n mod 2 ^ 16\<close>, its epoch counts the wraps of the ring from 1 to \<open>kEpochMask\<close>.\<close>

definition scope_epoch :: "nat \<Rightarrow> nat" where
  "scope_epoch n = 1 + (Suc n div 65536) mod 32767"

definition scope_handle :: "nat \<Rightarrow> u32" where
  "scope_handle n = push_bit 16 (word_of_nat (scope_epoch n)) OR word_of_nat (n mod 65536)"

text \<open>The last of the first \<open>N\<close> scopes that took slot \<open>s\<close>.\<close>

definition newest :: "nat \<Rightarrow> nat \<Rightarrow> nat option" where
  "newest N s = (if s < N then Some (s + 65536 * ((N - 1 - s) div 65536)) else None)"

definition scopes_are :: "RecordKey list \<Rightarrow> OwnerLedger \<Rightarrow> bool" where
  "scopes_are ks l \<longleftrightarrow> ol_nextScope l = word_of_nat (length ks mod 65536) \<and>
     ol_epoch l = word_of_nat (1 + (length ks div 65536) mod 32767) \<and> ol_opened l = word_of_nat (length ks) \<and>
     (\<forall>s < 65536. ol_scopes l s = (case newest (length ks) s of None \<Rightarrow> new_slot
        | Some n \<Rightarrow> \<lparr>so_key = ks ! n, so_epoch = word_of_nat (scope_epoch n), so_opened = word_of_nat n\<rparr>))"

lemma scopes_are_new: "scopes_are [] new_ledger"
  by (simp add: scopes_are_def new_ledger_def newest_def)

lemma scope_epoch_range: "0 < scope_epoch n \<and> scope_epoch n < 32768"
  by (simp add: scope_epoch_def)

lemma small_no_bit:
  assumes "unat (w :: 'a :: len word) < 2 ^ n" "n \<le> i"
  shows "\<not> bit w i"
proof -
  have "take_bit n (unat w) = unat w" by (rule take_bit_nat_eq_self [OF assms(1)])
  then have "\<not> bit (unat w) i" using assms(2) by (metis bit_take_bit_iff not_le)
  then show ?thesis by (auto simp: bit_unsigned_iff dest: bit_imp_le_length)
qed

lemma bit_kWriterBit: "bit kWriterBit i \<longleftrightarrow> i = 31"
proof -
  have "bit kWriterBit i = bit (push_bit 31 (1 :: u32)) i" by (simp add: kWriterBit_def push_bit_eq_mult)
  also have "\<dots> \<longleftrightarrow> 31 \<le> i \<and> i < 32 \<and> i - 31 = 0" by (simp only: bit_push_bit_iff bit_1_iff) auto
  finally show ?thesis by auto
qed

lemma scope_handle_parts:
  "drop_bit 16 (scope_handle n) = word_of_nat (scope_epoch n)"
  "unat (scope_handle n AND 0xFFFF) = n mod 65536"
  "isScope (scope_handle n)"
proof -
  define e :: u32 where "e = word_of_nat (scope_epoch n)"
  define s :: u32 where "s = word_of_nat (n mod 65536)"
  have es: "scope_handle n = push_bit 16 e OR s" by (simp add: scope_handle_def e_def s_def)
  have ue: "unat e = scope_epoch n" using scope_epoch_range [of n] by (simp add: e_def unsigned_of_nat take_bit_nat_eq_self)
  have us: "unat s = n mod 65536" by (simp add: s_def unsigned_of_nat take_bit_nat_eq_self)
  have be: "\<not> bit e i" if "15 \<le> i" for i
    using ue scope_epoch_range [of n] that by (intro small_no_bit [of e 15]) simp_all
  have bs: "\<not> bit s i" if "16 \<le> i" for i
    using us that by (intro small_no_bit [of s 16]) simp_all
  have be': "i < 15" if "bit e i" for i using be [of i] that not_le by blast
  have bs': "i < 16" if "bit s i" for i using bs [of i] that not_le by blast
  show "drop_bit 16 (scope_handle n) = word_of_nat (scope_epoch n)"
    unfolding es e_def [symmetric]
    using be bs by (intro bit_word_eqI) (auto simp: bit_simps dest: be' bs')
  have "scope_handle n AND 0xFFFF = s"
  proof -
    have m: "(0xFFFF :: u32) = mask 16" by (simp add: mask_eq_exp_minus_1)
    show ?thesis unfolding es m by (intro bit_word_eqI) (auto simp: bit_simps dest: be' bs')
  qed
  then show "unat (scope_handle n AND 0xFFFF) = n mod 65536" using us by simp
  have "scope_handle n AND kWriterBit = 0"
  proof -
    show ?thesis unfolding es by (intro bit_word_eqI) (auto simp: bit_simps bit_kWriterBit dest: be' bs')
  qed
  moreover have "scope_handle n \<noteq> 0"
  proof
    assume "scope_handle n = 0"
    then have "word_of_nat (scope_epoch n) = (0 :: u32)" using \<open>drop_bit 16 (scope_handle n) = word_of_nat (scope_epoch n)\<close> by simp
    then show False using ue scope_epoch_range [of n] by (simp add: e_def [symmetric])
  qed
  ultimately show "isScope (scope_handle n)" by (simp add: isScope_def kNoOwner_def)
qed

lemma word_nat_eq:
  fixes m n :: nat
  shows "m < 2 ^ 32 \<Longrightarrow> n < 2 ^ 32 \<Longrightarrow> (word_of_nat m :: u32) = word_of_nat n \<longleftrightarrow> m = n"
  by (simp add: word_of_nat_eq_iff take_bit_nat_eq_self)

lemma newest_Suc:
  "newest (Suc N) s = (if s < 65536 \<and> s = N mod 65536 then Some N else newest N s)" if "s < 65536"
proof (cases "s < N")
  case True
  then have e: "N - s = Suc (N - 1 - s)" by simp
  show ?thesis
  proof (cases "s = N mod 65536")
    case eq: True
    then have "(N - s) mod 65536 = 0" using True by (simp add: mod_eq_0_iff_dvd dvd_minus_mod)
    then have "s + 65536 * ((N - s) div 65536) = N" using True by (metis add_0_right le_add_diff_inverse less_imp_le mult_div_mod_eq)
    then show ?thesis using True that eq by (simp add: newest_def)
  next
    case False
    have "(N - s) mod 65536 \<noteq> 0"
    proof
      assume "(N - s) mod 65536 = 0"
      then have "(s + (N - s)) mod 65536 = s mod 65536" by (metis add_0_right mod_add_right_eq)
      then show False using False True that by simp
    qed
    then have "(N - s) div 65536 = (N - 1 - s) div 65536" unfolding e by (subst div_Suc) simp
    then show ?thesis using True False by (simp add: newest_def)
  qed
next
  case False
  then show ?thesis using that by (auto simp: newest_def)
qed

lemma newest_less: "newest N s = Some n \<Longrightarrow> n < N"
proof -
  assume n: "newest N s = Some n"
  then have "s < N" "n = s + 65536 * ((N - 1 - s) div 65536)" by (auto simp: newest_def split: if_splits)
  moreover have "65536 * ((N - 1 - s) div 65536) \<le> N - 1 - s" by simp
  ultimately show "n < N" by linarith
qed

lemma scopes_are_open:
  assumes "scopes_are ks l"
  shows "fst (openScope key l) = scope_handle (length ks)" "scopes_are (ks @ [key]) (snd (openScope key l))"
proof -
  let ?N = "length ks"
  have un: "unat (ol_nextScope l) = ?N mod 65536" and ns: "ol_nextScope l = word_of_nat (?N mod 65536)"
    using assms by (simp_all add: scopes_are_def unsigned_of_nat take_bit_nat_eq_self)
  have ep: "ol_epoch l = word_of_nat (1 + (?N div 65536) mod 32767)" using assms by (simp add: scopes_are_def)
  have slots: "\<forall>s < 65536. ol_scopes l s = (case newest ?N s of None \<Rightarrow> new_slot
        | Some n \<Rightarrow> \<lparr>so_key = ks ! n, so_epoch = word_of_nat (scope_epoch n), so_opened = word_of_nat n\<rparr>)"
    using assms by (simp add: scopes_are_def)
  have nx: "(ol_nextScope l + 1) mod kScopeSlots = word_of_nat (Suc ?N mod 65536)"
  proof -
    have u1: "unat (ol_nextScope l + 1) = Suc (?N mod 65536)"
      using un by (simp add: unat_add_lem [THEN iffD1] unat_word_ariths)
    have "unat ((ol_nextScope l + 1) mod kScopeSlots) = Suc ?N mod 65536"
      by (simp add: unat_mod u1 kScopeSlots_def mod_Suc_eq)
    then have "word_of_nat (unat ((ol_nextScope l + 1) mod kScopeSlots)) = (word_of_nat (Suc ?N mod 65536) :: u32)" by simp
    then show ?thesis by simp
  qed
  let ?e = "if (ol_nextScope l + 1) mod kScopeSlots = 0 then if ol_epoch l = kEpochMask then 1 else ol_epoch l + 1 else ol_epoch l"
  have zero: "(ol_nextScope l + 1) mod kScopeSlots = 0 \<longleftrightarrow> Suc ?N mod 65536 = 0"
    unfolding nx using word_nat_eq [of "Suc ?N mod 65536" 0] by simp
  have e: "?e = word_of_nat (scope_epoch ?N)"
  proof (cases "Suc ?N mod 65536 = 0")
    case True
    then have q: "Suc ?N div 65536 = Suc (?N div 65536)" by (simp add: div_Suc)
    let ?q = "(?N div 65536) mod 32767"
    have wrap: "ol_epoch l = kEpochMask \<longleftrightarrow> Suc ?q = 32767"
      unfolding ep kEpochMask_def using word_nat_eq [of "1 + ?q" "0x7FFF"] by simp
    show ?thesis unfolding zero wrap using True q ep
      by (simp add: scope_epoch_def mod_Suc)
  next
    case False
    then have "Suc ?N div 65536 = ?N div 65536" by (simp add: div_Suc)
    then show ?thesis unfolding zero using False ep by (simp add: scope_epoch_def)
  qed
  show "fst (openScope key l) = scope_handle (length ks)"
  proof -
    have "fst (openScope key l) = push_bit 16 ?e OR ol_nextScope l" by (simp add: openScope_def Let_def)
    then have "fst (openScope key l) = push_bit 16 (word_of_nat (scope_epoch ?N)) OR ol_nextScope l" by (simp only: e)
    then show ?thesis by (simp only: ns scope_handle_def)
  qed
  have p: "ol_nextScope (snd (openScope key l)) = (ol_nextScope l + 1) mod kScopeSlots"
    "ol_epoch (snd (openScope key l)) = ?e" "ol_opened (snd (openScope key l)) = ol_opened l + 1"
    "ol_scopes (snd (openScope key l)) =
       (ol_scopes l)(unat (ol_nextScope l) := \<lparr>so_key = key, so_epoch = ?e, so_opened = ol_opened l\<rparr>)"
    by (simp_all add: openScope_def Let_def)
  have op: "ol_opened l = word_of_nat ?N" using assms by (simp add: scopes_are_def)
  show "scopes_are (ks @ [key]) (snd (openScope key l))"
    unfolding scopes_are_def p unfolding e unfolding nx op un
  proof (intro conjI allI impI)
    show "word_of_nat (scope_epoch ?N) = word_of_nat (1 + length (ks @ [key]) div 65536 mod 32767)"
      by (simp add: scope_epoch_def)
    fix s :: nat assume s: "s < 65536"
    show "((ol_scopes l)(?N mod 65536 := \<lparr>so_key = key, so_epoch = word_of_nat (scope_epoch ?N), so_opened = word_of_nat ?N\<rparr>)) s =
      (case newest (length (ks @ [key])) s of None \<Rightarrow> new_slot
        | Some n \<Rightarrow> \<lparr>so_key = (ks @ [key]) ! n, so_epoch = word_of_nat (scope_epoch n), so_opened = word_of_nat n\<rparr>)"
      using s slots newest_Suc [OF s, of ?N] newest_less [of ?N s] by (auto simp: nth_append split: option.splits)
  qed simp_all
qed

lemma scopes_are_run: "scopes_are (ks @ keys) (fold (\<lambda>k. snd \<circ> openScope k) keys l)" if "scopes_are ks l"
  using that
proof (induction keys arbitrary: ks l)
  case (Cons k keys)
  then show ?case using Cons.IH [of "ks @ [k]"] scopes_are_open(2) [OF Cons.prems, of k] by simp
qed simp

lemma scope_epoch_small: "scope_epoch n < 2 ^ 32"
  using scope_epoch_range [of n] by simp

text \<open>Opening \<open>keys\<close> from the empty ledger.\<close>

definition opened_ledger :: "RecordKey list \<Rightarrow> OwnerLedger" where
  "opened_ledger keys = fold (\<lambda>k. snd \<circ> openScope k) keys new_ledger"

lemma opened_ledger_scopes: "scopes_are keys (opened_ledger keys)"
  using scopes_are_run [OF scopes_are_new, of keys] by (simp add: opened_ledger_def)

lemma newest_of_open:
  assumes "n < N"
  shows "newest N (n mod 65536) = Some (n + 65536 * ((N - 1 - n) div 65536))"
proof -
  have n: "n = n mod 65536 + 65536 * (n div 65536)" by simp
  have "n mod 65536 < N" using assms mod_less_eq_dividend [of n 65536] by linarith
  have d: "N - 1 - n mod 65536 = (N - 1 - n) + 65536 * (n div 65536)" using assms n by linarith
  have "(N - 1 - n mod 65536) div 65536 = (N - 1 - n) div 65536 + n div 65536" unfolding d by simp
  then show ?thesis using \<open>n mod 65536 < N\<close> n by (simp add: newest_def algebra_simps)
qed

lemma scope_epoch_ahead: "scope_epoch (n + 65536 * q) = scope_epoch n \<longleftrightarrow> q mod 32767 = 0"
proof -
  have d: "Suc (n + 65536 * q) div 65536 = Suc n div 65536 + q"
  proof -
    have "Suc (n + 65536 * q) = Suc n + q * 65536" by simp
    then show ?thesis by (simp only: div_mult_self1 [of "65536 :: nat"])
  qed
  have "(a + q) mod 32767 = a mod 32767 \<longleftrightarrow> q mod 32767 = 0" for a :: nat
    using mod_eq_dvd_iff_nat [of a "a + q" 32767] by (simp add: dvd_eq_mod_eq_0)
  then show ?thesis by (simp add: scope_epoch_def d)
qed

text \<open>
  C9: The handle of every scope ever opened answers exactly: its own key while fewer than 65536 scopes were opened since,
  nothing after its slot was taken again, and, only once the epoch has gone all the way round (2147418112 scopes later),
  the key of the scope that took its slot.
\<close>

theorem scope_handles_exact:
  assumes "n < length keys"
  shows "fst (openScope (keys ! n) (opened_ledger (take n keys))) = scope_handle n \<and>
    scopeKey (scope_handle n) (opened_ledger keys) =
      (let rounds = (length keys - 1 - n) div 65536
       in if rounds mod 32767 = 0 then Some (keys ! (n + 65536 * rounds)) else None)"
proof (intro conjI)
  show "fst (openScope (keys ! n) (opened_ledger (take n keys))) = scope_handle n"
    using scopes_are_open(1) [OF opened_ledger_scopes [of "take n keys"], of "keys ! n"] assms by simp
  let ?q = "(length keys - 1 - n) div 65536"
  let ?m = "n + 65536 * ?q"
  have slot: "ol_scopes (opened_ledger keys) (n mod 65536) =
      \<lparr>so_key = keys ! ?m, so_epoch = word_of_nat (scope_epoch ?m), so_opened = word_of_nat ?m\<rparr>"
    using opened_ledger_scopes [of keys] newest_of_open [OF assms] by (simp add: scopes_are_def)
  have "(word_of_nat (scope_epoch ?m) :: u32) = word_of_nat (scope_epoch n) \<longleftrightarrow> ?q mod 32767 = 0"
    by (simp only: word_nat_eq [OF scope_epoch_small scope_epoch_small] scope_epoch_ahead)
  then show "scopeKey (scope_handle n) (opened_ledger keys) =
      (let rounds = ?q in if rounds mod 32767 = 0 then Some (keys ! (n + 65536 * rounds)) else None)"
    by (simp add: scopeKey_def scope_handle_parts slot Let_def)
qed

theorem scope_handles_exact_witness:
  "scopeKey (scope_handle 0) (opened_ledger [so_key new_slot]) = Some (so_key new_slot)"
  using scope_handles_exact [of 0 "[so_key new_slot]"] by simp

section \<open>Interning\<close>

definition writer_match :: "ImageCatalog \<Rightarrow> GuestWriter \<Rightarrow> GuestWriter \<Rightarrow> bool" where
  "writer_match catalog running w \<longleftrightarrow>
     sameCode w running \<and> (gw_revision w = revision catalog \<or> gw_image w = resolved_image running catalog)"

definition probe_stops :: "ImageCatalog \<Rightarrow> GuestWriter \<Rightarrow> OwnerLedger \<Rightarrow> nat \<Rightarrow> bool" where
  "probe_stops catalog running l a \<longleftrightarrow>
     ol_writerSlots l a = 0 \<or> writer_match catalog running (ol_writers l ! (unat (ol_writerSlots l a) - 1))"

text \<open>
  At most \<open>kMaxWriters\<close> writers, in a table of twice as many slots, each writer in at most one of them.
\<close>

definition ledger_wf :: "OwnerLedger \<Rightarrow> bool" where
  "ledger_wf l \<longleftrightarrow> length (ol_writers l) \<le> kMaxWriters \<and>
     (\<forall>a < kWriterSlots. unat (ol_writerSlots l a) \<le> length (ol_writers l)) \<and>
     card {a. a < kWriterSlots \<and> ol_writerSlots l a \<noteq> 0} \<le> length (ol_writers l)"

lemma ledger_wf_new: "ledger_wf new_ledger"
  by (simp add: ledger_wf_def new_ledger_def)

lemma unat_zero_word: "unat w = 0 \<longleftrightarrow> w = 0"
  by (simp add: unat_eq_0)

definition resolved_ok :: "ImageCatalog \<Rightarrow> GuestWriter \<Rightarrow> ImageIdentity option \<Rightarrow> bool" where
  "resolved_ok catalog running resolved \<longleftrightarrow> resolved = None \<or> resolved = Some (resolved_image running catalog)"

lemma resolved_ok_image:
  "resolved_ok catalog running resolved \<Longrightarrow>
     (case resolved of Some i \<Rightarrow> i | None \<Rightarrow> resolved_image running catalog) = resolved_image running catalog"
  by (auto simp: resolved_ok_def)

lemma probe_stopped:
  assumes "probe_stops catalog running l at" "resolved_ok catalog running resolved"
  shows "writer_probe catalog running l at resolved =
    Some (if ol_writerSlots l at = 0 then EmptySlot at resolved else KnownWriter (unat (ol_writerSlots l at) - 1))"
  using assms(1) unfolding probe_stops_def writer_match_def writer_probe.simps [of catalog running l at resolved]
    resolved_ok_image [OF assms(2)] Let_def unat_zero_word
  by (cases "ol_writerSlots l at = 0") auto

lemma probe_moves_on:
  assumes "\<not> probe_stops catalog running l at" "resolved_ok catalog running resolved"
  shows "\<exists>r. resolved_ok catalog running r \<and>
      writer_probe catalog running l at resolved = writer_probe catalog running l ((at + 1) mod kWriterSlots) r"
proof -
  have img: "resolved_ok catalog running (Some (resolved_image running catalog))" by (simp add: resolved_ok_def)
  show ?thesis
    using assms img unfolding probe_stops_def writer_match_def writer_probe.simps [of catalog running l at resolved]
      resolved_ok_image [OF assms(2)] Let_def unat_zero_word
    by (cases "sameCode (ol_writers l ! (unat (ol_writerSlots l at) - 1)) running") (simp_all, blast+)
qed

lemma probe_at:
  "at < kWriterSlots \<Longrightarrow> resolved_ok catalog running resolved \<Longrightarrow>
   (\<forall>j < d. \<not> probe_stops catalog running l ((at + j) mod kWriterSlots)) \<Longrightarrow>
   probe_stops catalog running l ((at + d) mod kWriterSlots) \<Longrightarrow>
   \<exists>resolved'. resolved_ok catalog running resolved' \<and>
     writer_probe catalog running l at resolved =
       Some (if ol_writerSlots l ((at + d) mod kWriterSlots) = 0 then EmptySlot ((at + d) mod kWriterSlots) resolved'
             else KnownWriter (unat (ol_writerSlots l ((at + d) mod kWriterSlots)) - 1))"
proof (induction d arbitrary: at resolved)
  case 0
  then show ?case using probe_stopped [of catalog running l at resolved] by auto
next
  case (Suc d)
  have m: "kWriterSlots > 0" by (simp add: kWriterSlots_def kMaxWriters_def)
  have here: "\<not> probe_stops catalog running l at" using Suc.prems(1,3) by fastforce
  let ?next = "(at + 1) mod kWriterSlots"
  have shift: "(?next + j) mod kWriterSlots = (at + Suc j) mod kWriterSlots" for j
    by (simp add: mod_add_left_eq)
  obtain r where r: "resolved_ok catalog running r"
    "writer_probe catalog running l at resolved = writer_probe catalog running l ?next r"
    using probe_moves_on [OF here Suc.prems(2)] by blast
  have "\<forall>j < d. \<not> probe_stops catalog running l ((?next + j) mod kWriterSlots)" using Suc.prems(3) unfolding shift by blast
  moreover have "probe_stops catalog running l ((?next + d) mod kWriterSlots)" using Suc.prems(4) unfolding shift .
  ultimately show ?case using Suc.IH [of ?next r] m r unfolding shift by simp
qed

lemma probe_will_stop:
  assumes "ledger_wf l" "at < kWriterSlots"
  shows "\<exists>d. (\<forall>j < d. \<not> probe_stops catalog running l ((at + j) mod kWriterSlots)) \<and>
    probe_stops catalog running l ((at + d) mod kWriterSlots)"
proof -
  have "\<exists>e < kWriterSlots. ol_writerSlots l e = 0"
  proof (rule ccontr)
    assume "\<not> ?thesis"
    then have "{a. a < kWriterSlots \<and> ol_writerSlots l a \<noteq> 0} = {..<kWriterSlots}" by auto
    then have "kWriterSlots \<le> kMaxWriters" using assms(1) unfolding ledger_wf_def by simp
    then show False by (simp add: kWriterSlots_def kMaxWriters_def)
  qed
  then obtain e where e: "e < kWriterSlots" "ol_writerSlots l e = 0" by blast
  have "(at + (e + kWriterSlots - at)) mod kWriterSlots = e" using e(1) assms(2) by simp
  then have "\<exists>d. probe_stops catalog running l ((at + d) mod kWriterSlots)"
    using e(2) unfolding probe_stops_def by metis
  then show ?thesis
    using exists_least_iff [of "\<lambda>d. probe_stops catalog running l ((at + d) mod kWriterSlots)"] by blast
qed

lemma writer_handle_parts:
  assumes "i < kMaxWriters"
  shows "isWriter (writer_handle i)" "unat (writer_handle i AND NOT kWriterBit) = i"
proof -
  define w :: u32 where "w = word_of_nat i"
  have u: "unat w = i" using assms by (simp add: w_def kMaxWriters_def unsigned_of_nat take_bit_nat_eq_self)
  have b: "\<not> bit w j" if "16 \<le> j" for j
    using u assms that by (intro small_no_bit [of w 16]) (simp_all add: kMaxWriters_def)
  have b': "j < 16" if "bit w j" for j using b [of j] that not_le by blast
  have h: "writer_handle i = kWriterBit OR w" by (simp add: writer_handle_def w_def)
  have "bit (writer_handle i AND kWriterBit) 31" unfolding h by (simp add: bit_simps bit_kWriterBit)
  then show "isWriter (writer_handle i)" unfolding isWriter_def by auto
  have "writer_handle i AND NOT kWriterBit = w"
    unfolding h by (intro bit_word_eqI) (auto simp: bit_simps bit_kWriterBit dest: b')
  then show "unat (writer_handle i AND NOT kWriterBit) = i" using u by simp
qed

lemma ledger_writer_handle:
  "i < length (ol_writers l) \<Longrightarrow> ledger_wf l \<Longrightarrow> ledger_writer (writer_handle i) l = Some (ol_writers l ! i)"
  using writer_handle_parts [of i] by (simp add: ledger_writer_def ledger_wf_def)

text \<open>Every writer last resolved at the catalog's revision holds the image its code resolves to now.\<close>

definition images_current :: "ImageCatalog \<Rightarrow> OwnerLedger \<Rightarrow> bool" where
  "images_current catalog l \<longleftrightarrow>
     (\<forall>w \<in> set (ol_writers l). gw_revision w = revision catalog \<longrightarrow> gw_image w = resolved_image w catalog)"

lemma resolved_image_same: "sameCode v w \<Longrightarrow> resolved_image v catalog = resolved_image w catalog"
  by (simp add: resolved_image_def sameCode_def)

text \<open>Interning by where the probe stops: \<open>d\<close> slots on from the hash.\<close>

definition probe_slot :: "GuestWriter \<Rightarrow> nat \<Rightarrow> nat" where
  "probe_slot running d = (unat (writerHash running) mod kWriterSlots + d) mod kWriterSlots"

definition probe_distance :: "ImageCatalog \<Rightarrow> GuestWriter \<Rightarrow> OwnerLedger \<Rightarrow> nat \<Rightarrow> bool" where
  "probe_distance catalog running l d \<longleftrightarrow>
     (\<forall>j < d. \<not> probe_stops catalog running l (probe_slot running j)) \<and> probe_stops catalog running l (probe_slot running d)"

lemma probe_slot_less: "probe_slot running d < kWriterSlots"
  by (simp add: probe_slot_def kWriterSlots_def kMaxWriters_def)

lemma probe_distance_exists: "ledger_wf l \<Longrightarrow> \<exists>d. probe_distance catalog running l d"
  using probe_will_stop [of l "unat (writerHash running) mod kWriterSlots" catalog running]
  by (simp add: probe_distance_def probe_slot_def kWriterSlots_def kMaxWriters_def)

definition known_again :: "ImageCatalog \<Rightarrow> nat \<Rightarrow> OwnerLedger \<Rightarrow> OwnerLedger" where
  "known_again catalog i l = l\<lparr>ol_writers := (ol_writers l)[i := (ol_writers l ! i)\<lparr>gw_revision := revision catalog\<rparr>]\<rparr>"

definition added_writer :: "ImageCatalog \<Rightarrow> GuestWriter \<Rightarrow> nat \<Rightarrow> OwnerLedger \<Rightarrow> OwnerLedger" where
  "added_writer catalog running at l =
     l\<lparr>ol_writers := ol_writers l @ [running\<lparr>gw_image := resolved_image running catalog, gw_revision := revision catalog\<rparr>],
       ol_writerSlots := (ol_writerSlots l)(at := word_of_nat (Suc (length (ol_writers l))))\<rparr>"

lemma intern_at:
  assumes "probe_distance catalog running l d"
  shows "intern catalog running l =
     Some (if ol_writerSlots l (probe_slot running d) \<noteq> 0
       then (let i = unat (ol_writerSlots l (probe_slot running d)) - 1 in (writer_handle i, known_again catalog i l))
       else if length (ol_writers l) = kMaxWriters then (kWriterBit, l\<lparr>ol_overflowReported := True\<rparr>)
       else (writer_handle (length (ol_writers l)), added_writer catalog running (probe_slot running d) l))"
proof -
  have lt: "unat (writerHash running) mod kWriterSlots < kWriterSlots" by (simp add: kWriterSlots_def kMaxWriters_def)
  have ok: "resolved_ok catalog running None" by (simp add: resolved_ok_def)
  have pd: "\<forall>j < d. \<not> probe_stops catalog running l ((unat (writerHash running) mod kWriterSlots + j) mod kWriterSlots)"
    "probe_stops catalog running l ((unat (writerHash running) mod kWriterSlots + d) mod kWriterSlots)"
    using assms by (simp_all add: probe_distance_def probe_slot_def)
  obtain resolved where r: "resolved_ok catalog running resolved"
    "writer_probe catalog running l (unat (writerHash running) mod kWriterSlots) None =
       Some (if ol_writerSlots l (probe_slot running d) = 0 then EmptySlot (probe_slot running d) resolved
             else KnownWriter (unat (ol_writerSlots l (probe_slot running d)) - 1))"
    using probe_at [OF lt ok pd] unfolding probe_slot_def by blast
  then show ?thesis
    by (auto simp: intern_def known_again_def added_writer_def resolved_ok_def Let_def)
qed

lemma ledger_wf_known: "ledger_wf l \<Longrightarrow> ledger_wf (known_again catalog i l)"
  by (simp add: ledger_wf_def known_again_def)

lemma ledger_wf_added:
  assumes "ledger_wf l" "length (ol_writers l) \<noteq> kMaxWriters" "at < kWriterSlots" "ol_writerSlots l at = 0"
  shows "ledger_wf (added_writer catalog running at l)"
proof -
  let ?n = "length (ol_writers l)"
  let ?l = "added_writer catalog running at l"
  have n: "Suc ?n \<le> kMaxWriters" using assms(1,2) by (simp add: ledger_wf_def)
  have u: "unat (word_of_nat (Suc ?n) :: u32) = Suc ?n"
    using n by (simp add: kMaxWriters_def unsigned_of_nat take_bit_nat_eq_self del: of_nat_Suc)
  have "{a. a < kWriterSlots \<and> ol_writerSlots ?l a \<noteq> 0} \<subseteq> insert at {a. a < kWriterSlots \<and> ol_writerSlots l a \<noteq> 0}"
    by (auto simp: added_writer_def)
  then have "card {a. a < kWriterSlots \<and> ol_writerSlots ?l a \<noteq> 0} \<le> card (insert at {a. a < kWriterSlots \<and> ol_writerSlots l a \<noteq> 0})"
    by (intro card_mono) simp_all
  also have "\<dots> \<le> Suc ?n" using assms(1) card_insert_le_m1 [of "Suc ?n"]
    by (auto simp: ledger_wf_def intro: order_trans [OF card_insert_le_m1])
  finally show ?thesis using assms(1) n u
    by (auto simp: ledger_wf_def added_writer_def simp del: of_nat_Suc intro: le_SucI)
qed

text \<open>A writer that is known: the handle names it, and probing the updated ledger stops at the same slot.\<close>

lemma known_stop:
  assumes "ledger_wf l" "probe_distance catalog running l d" "ol_writerSlots l (probe_slot running d) \<noteq> 0"
    "i = unat (ol_writerSlots l (probe_slot running d)) - 1"
  shows "i < length (ol_writers l)" "writer_match catalog running (ol_writers l ! i)"
proof -
  have "unat (ol_writerSlots l (probe_slot running d)) \<le> length (ol_writers l)"
    using assms(1) probe_slot_less unfolding ledger_wf_def by blast
  moreover have "unat (ol_writerSlots l (probe_slot running d)) \<noteq> 0" using assms(3) by (simp add: unat_zero_word)
  ultimately show "i < length (ol_writers l)" unfolding assms(4) by linarith
  show "writer_match catalog running (ol_writers l ! i)"
    using assms(2,3) unfolding assms(4) probe_distance_def probe_stops_def by blast
qed

lemma match_refreshed: "writer_match catalog running w \<Longrightarrow> writer_match catalog running (w\<lparr>gw_revision := revision catalog\<rparr>)"
  by (simp add: writer_match_def sameCode_def)

lemma stops_known_again:
  assumes "probe_stops catalog running (known_again catalog i l) a" "i < length (ol_writers l)"
    "writer_match catalog running (ol_writers l ! i)"
  shows "probe_stops catalog running l a"
  using assms
  by (cases "unat (ol_writerSlots l a) - 1 = i") (auto simp: probe_stops_def known_again_def nth_list_update)

lemma distance_known_again:
  assumes "ledger_wf l" "probe_distance catalog running l d" "ol_writerSlots l (probe_slot running d) \<noteq> 0"
    "i = unat (ol_writerSlots l (probe_slot running d)) - 1"
  shows "probe_distance catalog running (known_again catalog i l) d"
proof -
  note k = known_stop [OF assms]
  have "probe_stops catalog running (known_again catalog i l) (probe_slot running d)"
    using k assms(4) match_refreshed [OF k(2)] by (simp add: probe_stops_def known_again_def)
  moreover have "\<not> probe_stops catalog running (known_again catalog i l) (probe_slot running j)" if "j < d" for j
    using assms(2) that stops_known_again [OF _ k] unfolding probe_distance_def by blast
  ultimately show ?thesis by (simp add: probe_distance_def)
qed

lemma known_again_twice: "known_again catalog i (known_again catalog i l) = known_again catalog i l"
  by (cases "i < length (ol_writers l)") (simp_all add: known_again_def list_update_beyond)

lemma distance_added:
  assumes "ledger_wf l" "probe_distance catalog running l d" "ol_writerSlots l (probe_slot running d) = 0"
    "length (ol_writers l) \<noteq> kMaxWriters"
  shows "probe_distance catalog running (added_writer catalog running (probe_slot running d) l) d"
    "ol_writerSlots (added_writer catalog running (probe_slot running d) l) (probe_slot running d) =
       word_of_nat (Suc (length (ol_writers l)))"
    "unat (word_of_nat (Suc (length (ol_writers l))) :: u32) = Suc (length (ol_writers l))"
proof -
  let ?a = "probe_slot running d"
  let ?l = "added_writer catalog running ?a l"
  let ?w = "running\<lparr>gw_image := resolved_image running catalog, gw_revision := revision catalog\<rparr>"
  show s: "ol_writerSlots ?l ?a = word_of_nat (Suc (length (ol_writers l)))" by (simp add: added_writer_def)
  have "Suc (length (ol_writers l)) \<le> kMaxWriters" using assms(1,4) by (simp add: ledger_wf_def)
  then show u: "unat (word_of_nat (Suc (length (ol_writers l))) :: u32) = Suc (length (ol_writers l))"
    by (simp add: kMaxWriters_def unsigned_of_nat take_bit_nat_eq_self del: of_nat_Suc)
  have "writer_match catalog running ?w" by (simp add: writer_match_def sameCode_def)
  then have "probe_stops catalog running ?l ?a"
    using s u by (simp add: probe_stops_def added_writer_def nth_append del: of_nat_Suc)
  moreover have "\<not> probe_stops catalog running ?l (probe_slot running j)" if "j < d" for j
  proof -
    have n: "\<not> probe_stops catalog running l (probe_slot running j)" using assms(2) that by (simp add: probe_distance_def)
    then have nz: "ol_writerSlots l (probe_slot running j) \<noteq> 0" by (simp add: probe_stops_def)
    then have ne: "probe_slot running j \<noteq> ?a" using assms(3) by auto
    have "unat (ol_writerSlots l (probe_slot running j)) \<le> length (ol_writers l)"
      using assms(1) probe_slot_less unfolding ledger_wf_def by blast
    moreover have "unat (ol_writerSlots l (probe_slot running j)) \<noteq> 0" using nz by (simp add: unat_zero_word)
    ultimately have "unat (ol_writerSlots l (probe_slot running j)) - 1 < length (ol_writers l)" by linarith
    then show ?thesis using n ne by (simp add: probe_stops_def added_writer_def nth_append)
  qed
  ultimately show "probe_distance catalog running ?l d" by (simp add: probe_distance_def)
qed

lemma distance_flag: "probe_distance catalog running (l\<lparr>ol_overflowReported := b\<rparr>) d = probe_distance catalog running l d"
  by (simp add: probe_distance_def probe_stops_def)

text \<open>What a handle \<open>names\<close>: the running code with the image it resolves to.\<close>

definition names_running :: "ImageCatalog \<Rightarrow> GuestWriter \<Rightarrow> OwnerLedger \<Rightarrow> u32 \<Rightarrow> bool" where
  "names_running catalog running l h \<longleftrightarrow>
     (\<exists>w. ledger_writer h l = Some w \<and> sameCode w running \<and> gw_image w = resolved_image running catalog)"

definition keeps_writers :: "OwnerLedger \<Rightarrow> OwnerLedger \<Rightarrow> bool" where
  "keeps_writers l l' \<longleftrightarrow> (\<forall>h w. ledger_writer h l = Some w \<longrightarrow>
     (\<exists>w'. ledger_writer h l' = Some w' \<and> sameCode w' w \<and> gw_image w' = gw_image w))"

lemma keeps_known: "keeps_writers l (known_again catalog i l)"
  unfolding keeps_writers_def
proof (intro allI impI)
  fix h w assume a: "ledger_writer h l = Some w"
  let ?j = "unat (h AND NOT kWriterBit)"
  have j: "isWriter h" "?j < length (ol_writers l)" "w = ol_writers l ! ?j"
    using a by (auto simp: ledger_writer_def Let_def split: if_splits)
  then show "\<exists>w'. ledger_writer h (known_again catalog i l) = Some w' \<and> sameCode w' w \<and> gw_image w' = gw_image w"
    by (cases "i = ?j") (simp_all add: ledger_writer_def known_again_def sameCode_def)
qed

lemma keeps_added: "keeps_writers l (added_writer catalog running a l)"
  by (auto simp: keeps_writers_def ledger_writer_def added_writer_def Let_def nth_append sameCode_def split: if_splits)

lemma images_known:
  assumes "images_current catalog l" "i < length (ol_writers l)" "writer_match catalog running (ol_writers l ! i)"
  shows "gw_image (ol_writers l ! i) = resolved_image running catalog" "images_current catalog (known_again catalog i l)"
proof -
  show im: "gw_image (ol_writers l ! i) = resolved_image running catalog"
    using assms resolved_image_same unfolding writer_match_def images_current_def by (metis nth_mem)
  have sc: "sameCode (ol_writers l ! i) running" using assms(3) by (simp add: writer_match_def)
  show "images_current catalog (known_again catalog i l)"
    using assms(1) im resolved_image_same [OF sc]
    by (auto simp: images_current_def known_again_def resolved_image_def dest!: set_update_subset_insert [THEN subsetD])
qed

lemma images_added: "images_current catalog l \<Longrightarrow> images_current catalog (added_writer catalog running a l)"
  by (auto simp: images_current_def added_writer_def resolved_image_def)

text \<open>
  C8: Interning a writer always returns. The handle it returns names the running code with the image that holds it, unless
  the table is full and the first writer stands in; every handle given before still names the same code and image; and
  interning the same code again returns the same handle and changes nothing.
\<close>

theorem intern_names_code:
  assumes "ledger_wf l" "images_current catalog l"
  shows "\<exists>h l'. intern catalog running l = Some (h, l') \<and> ledger_wf l' \<and> images_current catalog l' \<and> keeps_writers l l' \<and>
    (names_running catalog running l' h \<or> length (ol_writers l) = kMaxWriters \<and> h = writer_handle 0 \<and> ol_overflowReported l') \<and>
    intern catalog running l' = Some (h, l')"
proof -
  obtain d where d: "probe_distance catalog running l d" using probe_distance_exists [OF assms(1)] by blast
  let ?a = "probe_slot running d"
  consider (known) "ol_writerSlots l ?a \<noteq> 0"
    | (full) "ol_writerSlots l ?a = 0" "length (ol_writers l) = kMaxWriters"
    | (new) "ol_writerSlots l ?a = 0" "length (ol_writers l) \<noteq> kMaxWriters" by blast
  then show ?thesis
  proof cases
    case known
    define i where "i = unat (ol_writerSlots l ?a) - 1"
    note k = known_stop [OF assms(1) d known i_def]
    let ?l = "known_again catalog i l"
    have once: "intern catalog running l = Some (writer_handle i, ?l)"
      using intern_at [OF d] known by (simp add: i_def Let_def)
    have ix: "unat (ol_writerSlots l ?a) - Suc 0 = i" by (simp add: i_def)
    have "ol_writerSlots ?l ?a = ol_writerSlots l ?a" by (simp add: known_again_def)
    then have twice: "intern catalog running ?l = Some (writer_handle i, ?l)"
      using intern_at [OF distance_known_again [OF assms(1) d known i_def]] known
      unfolding Let_def by (simp add: ix known_again_twice)
    have "ledger_writer (writer_handle i) ?l = Some ((ol_writers l ! i)\<lparr>gw_revision := revision catalog\<rparr>)"
      using ledger_writer_handle [of i ?l] ledger_wf_known [OF assms(1)] k(1) by (simp add: known_again_def)
    then have "names_running catalog running ?l (writer_handle i)"
      using images_known(1) [OF assms(2) k] k(2) by (simp add: names_running_def writer_match_def sameCode_def)
    then show ?thesis
      using once twice ledger_wf_known [OF assms(1)] images_known(2) [OF assms(2) k] keeps_known by blast
  next
    case full
    let ?l = "l\<lparr>ol_overflowReported := True\<rparr>"
    have once: "intern catalog running l = Some (kWriterBit, ?l)" using intern_at [OF d] full by simp
    have twice: "intern catalog running ?l = Some (kWriterBit, ?l)"
      using intern_at [of catalog running ?l d] d full by (simp add: distance_flag)
    have "ledger_wf ?l" "images_current catalog ?l" "keeps_writers l ?l" "kWriterBit = writer_handle 0"
      using assms by (simp_all add: ledger_wf_def images_current_def keeps_writers_def ledger_writer_def sameCode_def writer_handle_def
          Let_def)
    then show ?thesis using once twice full(2) by (intro exI [of _ kWriterBit] exI [of _ ?l]) simp
  next
    case new
    let ?l = "added_writer catalog running ?a l"
    let ?h = "writer_handle (length (ol_writers l))"
    note a = distance_added [OF assms(1) d new]
    have once: "intern catalog running l = Some (?h, ?l)" using intern_at [OF d] new by simp
    have wf: "ledger_wf ?l" by (rule ledger_wf_added [OF assms(1) new(2) probe_slot_less new(1)])
    have nz: "ol_writerSlots ?l ?a \<noteq> 0" and ix: "unat (ol_writerSlots ?l ?a) - 1 = length (ol_writers l)"
      using a(2,3) unat_zero_word [of "ol_writerSlots ?l ?a"] by simp_all
    have same: "known_again catalog (length (ol_writers l)) ?l = ?l"
      by (simp add: known_again_def added_writer_def)
    have twice: "intern catalog running ?l = Some (?h, ?l)"
      using intern_at [OF a(1)] nz unfolding ix Let_def same by simp
    have "ledger_writer ?h ?l = Some (running\<lparr>gw_image := resolved_image running catalog, gw_revision := revision catalog\<rparr>)"
      using ledger_writer_handle [of "length (ol_writers l)" ?l] wf by (simp add: added_writer_def)
    then have "names_running catalog running ?l ?h" by (simp add: names_running_def sameCode_def)
    then show ?thesis using once twice wf images_added [OF assms(2)] keeps_added by blast
  qed
qed

theorem intern_names_code_witness:
  "\<exists>h l'. intern new_catalog new_writer new_ledger = Some (h, l') \<and> intern new_catalog new_writer l' = Some (h, l')"
  using intern_names_code [OF ledger_wf_new, of new_catalog new_writer] by (auto simp: images_current_def new_ledger_def)

section \<open>What a store leaves\<close>

lemma inDrawList_amend: "inDrawList h (amend_word writer w l) = inDrawList h l"
  by (simp add: inDrawList_def amend_word_def scopeKey_def Let_def)

lemma amend_one:
  "ol_words (amend_word writer v l) w = (if w = v then writer else ol_words l w)"
  "ol_overwrote (amend_word writer v l) w =
     (if w = v then if inDrawList (ol_words l w) l then ol_words l w
                    else if inDrawList (ol_overwrote l w) l then ol_overwrote l w else kNoOwner
      else ol_overwrote l w)"
  by (auto simp: amend_word_def Let_def)

lemma amend_run:
  "(\<forall>w. ol_words (fold (amend_word writer) [lo..<k] l) w = (if lo \<le> w \<and> w < k then writer else ol_words l w)) \<and>
   (\<forall>w. ol_overwrote (fold (amend_word writer) [lo..<k] l) w =
     (if lo \<le> w \<and> w < k then if inDrawList (ol_words l w) l then ol_words l w
                        else if inDrawList (ol_overwrote l w) l then ol_overwrote l w else kNoOwner
      else ol_overwrote l w)) \<and>
   (\<forall>h. inDrawList h (fold (amend_word writer) [lo..<k] l) = inDrawList h l)"
proof (induction k)
  case (Suc k)
  show ?case
  proof (cases "lo \<le> k")
    case True
    then have f: "fold (amend_word writer) [lo..<Suc k] l = amend_word writer k (fold (amend_word writer) [lo..<k] l)" by simp
    show ?thesis unfolding f using Suc.IH True less_Suc_eq by (auto simp: amend_one inDrawList_amend)
  next
    case False
    then show ?thesis using Suc.IH by auto
  qed
qed simp

lemma port_keeps:
  assumes "ledger_wf l"
  shows "\<exists>h l'. ledger_port code kind l = Some (h, l') \<and> ledger_wf l' \<and> ol_words l' = ol_words l \<and> ol_overwrote l' = ol_overwrote l \<and>
    ol_scopes l' = ol_scopes l \<and> ol_listStart l' = ol_listStart l"
proof -
  have i: "\<exists>h l'. intern catalog running l0 = Some (h, l') \<and> ledger_wf l' \<and> ol_words l' = ol_words l0 \<and> ol_overwrote l' = ol_overwrote l0 \<and>
      ol_scopes l' = ol_scopes l0 \<and> ol_listStart l' = ol_listStart l0" if wf: "ledger_wf l0" for catalog running l0
  proof -
    obtain d where d: "probe_distance catalog running l0 d" using probe_distance_exists [OF wf] by blast
    let ?a = "probe_slot running d"
    have "ledger_wf (added_writer catalog running ?a l0)" if "ol_writerSlots l0 ?a = 0" "length (ol_writers l0) \<noteq> kMaxWriters"
      using ledger_wf_added [OF wf that(2) probe_slot_less that(1)] .
    moreover have "ledger_wf (l0\<lparr>ol_overflowReported := True\<rparr>)" using wf by (simp add: ledger_wf_def)
    ultimately show ?thesis using intern_at [OF d] ledger_wf_known [OF wf]
      by (auto simp: Let_def known_again_def added_writer_def)
  qed
  show ?thesis
  proof (cases "ol_lastHandle l \<noteq> kNoOwner \<and> ol_lastRevision l = revision (rc_catalog code) \<and>
      sameCode \<lparr>gw_kind = kind, gw_blockPc = wl_blockPc (rc_latch code), gw_function = latch_function (rc_latch code),
        gw_dispatched = attribution_top (rc_calls code), gw_image = no_identity, gw_revision = 0\<rparr> (ol_last l)")
    case True
    then show ?thesis using assms by (simp add: ledger_port_def)
  next
    case False
    let ?r = "\<lparr>gw_kind = kind, gw_blockPc = wl_blockPc (rc_latch code), gw_function = latch_function (rc_latch code),
        gw_dispatched = attribution_top (rc_calls code), gw_image = no_identity, gw_revision = 0\<rparr>"
    let ?l = "l\<lparr>ol_last := ?r, ol_lastRevision := revision (rc_catalog code)\<rparr>"
    have "ledger_wf ?l" using assms by (simp add: ledger_wf_def)
    then obtain h l' where h: "intern (rc_catalog code) ?r ?l = Some (h, l')" "ledger_wf l'" "ol_words l' = ol_words l"
      "ol_overwrote l' = ol_overwrote l" "ol_scopes l' = ol_scopes l" "ol_listStart l' = ol_listStart l"
      using i [of ?l "rc_catalog code" ?r] by auto
    have "ledger_port code kind l = Some (h, l'\<lparr>ol_lastHandle := h\<rparr>)"
      unfolding ledger_port_def Let_def if_not_P [OF False] h(1) by simp
    then show ?thesis using h(2-6) by (simp add: ledger_wf_def)
  qed
qed

text \<open>
  A store returns, and leaves every word it touches with its owner: the scope it ran under, or the running writer. A
  writer that stores over a word a scope of the list being built wrote keeps that scope as the word's overwritten owner
  however often it stores there again, and a scope's store forgets it; every other word of RAM is as it was.
\<close>

theorem store_binds_words:
  assumes "ledger_wf l" "mainRamWord address = Some lo" "mainRamWord (address + bytes - 1) = Some hi" "lo \<le> hi"
  shows "\<exists>l' writer. noteStore code address bytes scope l = Some l' \<and> ledger_wf l' \<and>
    (scope = kNoOwner \<longrightarrow> (\<exists>l1. runningWriter code l = Some (writer, l1))) \<and>
    (\<forall>w. ol_words l' w = (if lo \<le> w \<and> w \<le> hi then if scope \<noteq> kNoOwner then scope else writer else ol_words l w)) \<and>
    (\<forall>w. ol_overwrote l' w =
       (if lo \<le> w \<and> w \<le> hi
        then if scope \<noteq> kNoOwner then kNoOwner
             else if inDrawList (ol_words l w) l then ol_words l w
             else if inDrawList (ol_overwrote l w) l then ol_overwrote l w else kNoOwner
        else ol_overwrote l w))"
proof (cases "scope = kNoOwner")
  case False
  then show ?thesis using assms by (auto simp: noteStore_def ledger_wf_def)
next
  case True
  obtain h l1 where h: "runningWriter code l = Some (h, l1)" "ledger_wf l1" "ol_words l1 = ol_words l" "ol_overwrote l1 = ol_overwrote l"
    "ol_scopes l1 = ol_scopes l" "ol_listStart l1 = ol_listStart l"
    using port_keeps [OF assms(1)] unfolding runningWriter_def by blast
  have same: "inDrawList s l1 = inDrawList s l" for s using h(5,6) by (simp add: inDrawList_def scopeKey_def)
  have n: "noteStore code address bytes scope l = Some (fold (amend_word h) [lo..<Suc hi] l1)"
    using assms(2-4) True h(1) by (simp add: noteStore_def)
  have "ledger_wf (fold (amend_word h) ws l1)" for ws
    using h(2)
  proof (induction ws rule: rev_induct)
    case (snoc w ws)
    then show ?case by (auto simp: ledger_wf_def amend_word_def Let_def)
  qed simp
  then show ?thesis using n True h(1,3,4) same amend_run [of h lo "Suc hi" l1]
    by (intro exI [of _ "fold (amend_word h) [lo..<Suc hi] l1"] exI [of _ h]) (auto simp: less_Suc_eq_le simp del: upt_Suc)
qed

definition idle_code :: RunningCode where
  "idle_code = \<lparr>rc_latch = new_latch, rc_calls = new_attribution, rc_catalog = new_catalog\<rparr>"

lemma demo_words: "mainRamWord 0x80001000 = Some 0x400" "mainRamWord (0x80001000 + 8 - 1) = Some 0x401"
  by code_simp+

theorem store_binds_words_witness:
  "\<exists>l'. noteStore idle_code 0x80001000 8 0x10000 new_ledger = Some l' \<and> ol_words l' 0x401 = 0x10000 \<and> ol_words l' 0x402 = 0"
  using store_binds_words [OF ledger_wf_new demo_words, of idle_code "0x10000"] by (auto simp: kNoOwner_def new_ledger_def)

end
