(* ===== verification/Ordering_Table.thy ===== *)
theory Ordering_Table
  imports Gp0_Tap Owner_Ledger
begin

text \<open>
  The walk of the guest's DrawOTag list (\<open>psx/gpu/ordering_table.cpp\<close>, \<open>ordering_table.h\<close>) with its cycle check
  (\<open>draw_list_cycle.h\<close>), the named tables that say which bucket a packet was linked into, and the device calls a walk
  makes. Guest memory is a function of the address: nothing in a walk stores to it.
\<close>

section \<open>Nodes\<close>

definition kOtNextAddressMask :: u32 where "kOtNextAddressMask = 0xFFFFFF"
definition kOtChainEnd :: u32 where "kOtChainEnd = kOtNextAddressMask"
definition kOtChainEndZero :: u32 where "kOtChainEndZero = 0"
definition kMainRamOffsetMask :: u32 where "kMainRamOffsetMask = 0x1FFFFC"
definition kOtHeaderBytes :: u32 where "kOtHeaderBytes = 4"

definition guestAddressOf :: "u32 \<Rightarrow> u32" where
  "guestAddressOf offset = 0x80000000 OR (offset AND kMainRamOffsetMask)"

definition mainRamOffsetOf :: "u32 \<Rightarrow> u32" where
  "mainRamOffsetOf address = address AND kMainRamOffsetMask"

record OtNode =
  on_ramOffset :: u32
  on_header :: u32

definition gp0WordCount :: "OtNode \<Rightarrow> nat" where
  "gp0WordCount n = unat (drop_bit 24 (on_header n))"

definition carriesPrimitive :: "OtNode \<Rightarrow> bool" where
  "carriesPrimitive n \<longleftrightarrow> gp0WordCount n \<noteq> 0"

definition gp0WordRamOffset :: "OtNode \<Rightarrow> nat \<Rightarrow> u32" where
  "gp0WordRamOffset n index = on_ramOffset n + kOtHeaderBytes + kOtHeaderBytes * of_nat index"

definition nextAddressField :: "OtNode \<Rightarrow> u32" where
  "nextAddressField n = on_header n AND kOtNextAddressMask"

definition nextRamOffset :: "OtNode \<Rightarrow> u32" where
  "nextRamOffset n = nextAddressField n AND kMainRamOffsetMask"

definition endsChain :: "OtNode \<Rightarrow> bool" where
  "endsChain n \<longleftrightarrow> nextAddressField n = kOtChainEnd \<or> nextAddressField n = kOtChainEndZero"

definition node_guestAddress :: "OtNode \<Rightarrow> u32" where
  "node_guestAddress n = guestAddressOf (on_ramOffset n)"

section \<open>The cycle check\<close>

record LinkCycleCheck =
  lc_anchor :: u32
  lc_lap :: u64
  lc_steps :: u64

definition kNoAnchor :: u32 where "kNoAnchor = 0xFFFFFFFF"

definition new_cycle_check :: LinkCycleCheck where
  "new_cycle_check = \<lparr>lc_anchor = kNoAnchor, lc_lap = 1, lc_steps = 0\<rparr>"

text \<open>\<open>enter\<close>: false when the node closes a cycle.\<close>

definition cycle_enter :: "u32 \<Rightarrow> LinkCycleCheck \<Rightarrow> bool \<times> LinkCycleCheck" where
  "cycle_enter node c =
     (if node = lc_anchor c then (False, c)
      else if lc_steps c + 1 = lc_lap c
      then (True, \<lparr>lc_anchor = node, lc_lap = push_bit 1 (lc_lap c), lc_steps = 0\<rparr>)
      else (True, c\<lparr>lc_steps := lc_steps c + 1\<rparr>))"

section \<open>The walk\<close>

record OrderingTableCursor =
  cu_node :: OtNode
  cu_nodesEntered :: int
  cu_cycle :: LinkCycleCheck

definition readNode :: "(u32 \<Rightarrow> u32) \<Rightarrow> u32 \<Rightarrow> OtNode" where
  "readNode read32 offset = \<lparr>on_ramOffset = offset, on_header = read32 offset\<rparr>"

definition new_cursor :: "(u32 \<Rightarrow> u32) \<Rightarrow> u32 \<Rightarrow> OrderingTableCursor" where
  "new_cursor read32 root =
     (let node = readNode read32 (mainRamOffsetOf root)
      in \<lparr>cu_node = node, cu_nodesEntered = 1, cu_cycle = snd (cycle_enter (on_ramOffset node) new_cycle_check)\<rparr>)"

text \<open>What \<open>advance\<close> answers: on to a node, the end of the chain, or a refused cycle with the revisited node's address.\<close>

datatype OtAdvance = Advanced | ChainEnded | CycleRefused u32

definition cursor_advance :: "(u32 \<Rightarrow> u32) \<Rightarrow> OrderingTableCursor \<Rightarrow> OtAdvance \<times> OrderingTableCursor" where
  "cursor_advance read32 cur =
     (if endsChain (cu_node cur) then (ChainEnded, cur)
      else
        let node = readNode read32 (nextRamOffset (cu_node cur));
            (fresh, c) = cycle_enter (on_ramOffset node) (cu_cycle cur);
            cur' = \<lparr>cu_node = node, cu_nodesEntered = cu_nodesEntered cur + 1, cu_cycle = c\<rparr>
        in if fresh then (Advanced, cur') else (CycleRefused (node_guestAddress node), cur'))"

text \<open>The nodes a walk visits and, when it was refused, the node it refused: \<open>do { \<dots> } while (walk.advance())\<close>.\<close>

partial_function (option) ot_walk ::
  "(u32 \<Rightarrow> u32) \<Rightarrow> OrderingTableCursor \<Rightarrow> (OtNode list \<times> u32 option) option" where
  "ot_walk read32 cur =
     (case cursor_advance read32 cur of
        (answer, cur') \<Rightarrow>
          if answer = Advanced
          then Option.bind (ot_walk read32 cur') (\<lambda>(nodes, refused). Some (cu_node cur # nodes, refused))
          else Some ([cu_node cur], case answer of CycleRefused a \<Rightarrow> Some a | _ \<Rightarrow> None))"

section \<open>The chain as a sequence\<close>

definition chain_next :: "(u32 \<Rightarrow> u32) \<Rightarrow> u32 \<Rightarrow> u32" where
  "chain_next read32 offset = nextRamOffset (readNode read32 offset)"

definition chain :: "(u32 \<Rightarrow> u32) \<Rightarrow> u32 \<Rightarrow> nat \<Rightarrow> u32" where
  "chain read32 root i = (chain_next read32 ^^ i) (mainRamOffsetOf root)"

definition chain_node :: "(u32 \<Rightarrow> u32) \<Rightarrow> u32 \<Rightarrow> nat \<Rightarrow> OtNode" where
  "chain_node read32 root i = readNode read32 (chain read32 root i)"

definition node_offset :: "u32 \<Rightarrow> bool" where
  "node_offset w \<longleftrightarrow> w AND kMainRamOffsetMask = w"

definition kOtNodes :: nat where "kOtNodes = 2 ^ 19"

lemma chain_Suc: "chain read32 root (Suc i) = nextRamOffset (chain_node read32 root i)"
  by (simp add: chain_def chain_node_def chain_next_def)

lemma chain_add: "chain read32 root (i + j) = (chain_next read32 ^^ j) (chain read32 root i)"
  by (simp add: chain_def funpow_add add.commute [of i j])

lemma node_offset_chain: "node_offset (chain read32 root i)"
proof -
  have "node_offset (w AND kMainRamOffsetMask)" for w by (simp add: node_offset_def word_bw_assocs)
  then show ?thesis by (cases i) (simp_all add: chain_def chain_next_def nextRamOffset_def mainRamOffsetOf_def)
qed

lemma node_offsets_few: "finite {w. node_offset w} \<and> card {w. node_offset w} \<le> kOtNodes"
proof -
  have "{w. node_offset w} \<subseteq> (\<lambda>n. push_bit 2 (word_of_nat n)) ` {..<kOtNodes}"
  proof
    fix w :: u32 assume "w \<in> {w. node_offset w}"
    then have w: "w = w AND 0x1FFFFC" by (simp add: node_offset_def kMainRamOffsetMask_def)
    have range: "2 \<le> i \<and> i < 21" if "bit w i" for i
    proof -
      have "bit w i" by (rule that)
      then have b: "bit (w AND 0x1FFFFC) i" using w by simp
      then have "bit (0x1FFFFC :: u32) i" by (simp add: bit_simps)
      moreover have "(0x1FFFFC :: u32) = push_bit 2 (mask 19)" by (simp add: mask_eq_exp_minus_1)
      ultimately have "bit (push_bit 2 (mask 19 :: u32)) i" by simp
      then show ?thesis by (auto simp: bit_simps)
    qed
    have "w = push_bit 2 (take_bit 19 (drop_bit 2 w))"
    proof (rule bit_word_eqI)
      fix i assume "i < LENGTH(32)"
      show "bit w i \<longleftrightarrow> bit (push_bit 2 (take_bit 19 (drop_bit 2 w))) i"
      proof (cases "2 \<le> i")
        case True
        then have "2 + (i - 2) = i" "i - 2 < 19 \<longleftrightarrow> i < 21" by auto
        then show ?thesis using range [of i] \<open>i < LENGTH(32)\<close> True by (auto simp: bit_simps simp del: add_2_eq_Suc)
      next
        case False
        then show ?thesis using range [of i] by (auto simp: bit_simps)
      qed
    qed
    moreover have "take_bit 19 (drop_bit 2 w) = word_of_nat (unat (take_bit 19 (drop_bit 2 w)))" by simp
    moreover have "unat (take_bit 19 (drop_bit 2 w)) < kOtNodes"
      by (simp add: unsigned_take_bit_eq kOtNodes_def take_bit_nat_less_exp [of 19, simplified])
    ultimately show "w \<in> (\<lambda>n. push_bit 2 (word_of_nat n)) ` {..<kOtNodes}" by (metis imageI lessThan_iff)
  qed
  then show ?thesis using surj_card_le [of "{..<kOtNodes}" "{w. node_offset w}"] by (simp add: finite_subset)
qed

text \<open>Every chain comes back to a node within as many steps as there are node addresses.\<close>

lemma chain_period: "\<exists>s p. 0 < p \<and> s + p \<le> kOtNodes \<and> (\<forall>a \<ge> s. chain read32 root (a + p) = chain read32 root a)"
proof -
  let ?x = "chain read32 root"
  have "\<not> inj_on ?x {..kOtNodes}"
  proof
    assume "inj_on ?x {..kOtNodes}"
    then have "card (?x ` {..kOtNodes}) = Suc kOtNodes" by (simp add: card_image)
    moreover have "?x ` {..kOtNodes} \<subseteq> {w. node_offset w}" using node_offset_chain by auto
    ultimately show False using node_offsets_few card_mono [of "{w. node_offset w}" "?x ` {..kOtNodes}"] by simp
  qed
  then obtain i j where ij: "i < j" "j \<le> kOtNodes" "?x i = ?x j"
    unfolding inj_on_def by (metis atMost_iff linorder_neqE_nat)
  have "?x (a + (j - i)) = ?x a" if "i \<le> a" for a
  proof -
    have "?x (a + (j - i)) = ?x (j + (a - i))" using that ij(1) by (intro arg_cong [of _ _ ?x]) simp
    also have "\<dots> = ?x (i + (a - i))" by (simp only: chain_add ij(3))
    finally show ?thesis using that by simp
  qed
  then show ?thesis using ij by (intro exI [of _ i] exI [of _ "j - i"]) auto
qed

section \<open>Brent's check\<close>

text \<open>
  The cursor after \<open>i\<close> steps of which none was refused: the anchor is the node at \<open>2 ^ k - 2\<close>, the lap \<open>2 ^ k\<close>, and no
  node since met the anchor.
\<close>

definition at_step :: "(u32 \<Rightarrow> u32) \<Rightarrow> u32 \<Rightarrow> nat \<Rightarrow> OrderingTableCursor \<Rightarrow> nat \<Rightarrow> bool" where
  "at_step read32 root i cur k \<longleftrightarrow> cu_node cur = chain_node read32 root i \<and> cu_nodesEntered cur = int i + 1 \<and>
     1 \<le> k \<and> k \<le> 20 \<and> 2 ^ k - 2 \<le> i \<and> i < 2 ^ Suc k - 2 \<and>
     cu_cycle cur = \<lparr>lc_anchor = chain read32 root (2 ^ k - 2), lc_lap = 2 ^ k, lc_steps = word_of_nat (i - (2 ^ k - 2))\<rparr> \<and>
     (\<forall>j. 2 ^ k - 2 < j \<and> j \<le> i \<longrightarrow> chain read32 root j \<noteq> chain read32 root (2 ^ k - 2)) \<and>
     (\<forall>j < i. \<not> endsChain (chain_node read32 root j))"

lemma offset_not_anchor: "node_offset w \<Longrightarrow> w \<noteq> kNoAnchor"
  by (auto simp: node_offset_def kNoAnchor_def kMainRamOffsetMask_def)

lemma at_start: "at_step read32 root 0 (new_cursor read32 root) 1"
proof -
  have c: "chain read32 root 0 = mainRamOffsetOf root" by (simp add: chain_def)
  have "mainRamOffsetOf root \<noteq> kNoAnchor"
    using offset_not_anchor [OF node_offset_chain [of read32 root 0]] c by simp
  then show ?thesis
    by (auto simp: at_step_def new_cursor_def cycle_enter_def new_cycle_check_def chain_node_def c readNode_def Let_def)
qed

lemma at_step_short: "at_step read32 root i cur k \<Longrightarrow> i < 2 ^ 21 - 2"
proof -
  assume "at_step read32 root i cur k"
  then have "i < 2 ^ Suc k - 2" "k \<le> 20" by (simp_all add: at_step_def)
  moreover have "(2 :: nat) ^ Suc k \<le> 2 ^ 21" using \<open>k \<le> 20\<close> by (intro power_increasing) simp_all
  ultimately show ?thesis by linarith
qed

text \<open>At the lap \<open>2 ^ 20\<close> the anchor has been met before the lap is over.\<close>

lemma last_lap:
  assumes "at_step read32 root i cur 20"
  shows "i < 2 ^ 20 - 2 + kOtNodes"
proof (rule ccontr)
  assume n: "\<not> i < 2 ^ 20 - 2 + kOtNodes"
  obtain s p where sp: "0 < p" "s + p \<le> kOtNodes" "\<forall>a \<ge> s. chain read32 root (a + p) = chain read32 root a"
    using chain_period by blast
  have "s \<le> 2 ^ 20 - 2" using sp(2) by (simp add: kOtNodes_def)
  then have "chain read32 root (2 ^ 20 - 2 + p) = chain read32 root (2 ^ 20 - 2)" using sp(3) by blast
  moreover have "2 ^ 20 - 2 < 2 ^ 20 - 2 + p" "2 ^ 20 - 2 + p \<le> i" using sp n by simp_all
  ultimately show False using assms unfolding at_step_def by blast
qed

lemma step_count_word:
  assumes "n < 2 ^ 21" "k \<le> 20"
  shows "(word_of_nat n :: u64) + 1 = 2 ^ k \<longleftrightarrow> Suc n = 2 ^ k"
proof -
  have k: "(2 :: nat) ^ k \<le> 2 ^ 20" using assms(2) by (intro power_increasing) simp_all
  have e: "(word_of_nat n :: u64) + 1 = word_of_nat (Suc n)" "(2 :: u64) ^ k = word_of_nat (2 ^ k)" by simp_all
  have "Suc n < 2 ^ 64" "(2 :: nat) ^ k < 2 ^ 64" using assms(1) k by simp_all
  then have "take_bit 64 (Suc n) = Suc n" "take_bit 64 ((2 :: nat) ^ k) = 2 ^ k"
    by (simp_all only: take_bit_nat_eq_self)
  moreover have "(word_of_nat (Suc n) = (word_of_nat (2 ^ k) :: u64)) = (take_bit 64 (Suc n) = take_bit 64 ((2 :: nat) ^ k))"
    by (simp only: word_of_nat_eq_iff) simp
  ultimately show ?thesis unfolding e by (simp only:)
qed

lemma advance_unless_ended:
  assumes "cu_node cur = chain_node read32 root i" "\<not> endsChain (chain_node read32 root i)"
  shows "cursor_advance read32 cur =
     (let (fresh, c) = cycle_enter (chain read32 root (Suc i)) (cu_cycle cur);
          cur' = \<lparr>cu_node = chain_node read32 root (Suc i), cu_nodesEntered = cu_nodesEntered cur + 1, cu_cycle = c\<rparr>
      in if fresh then (Advanced, cur') else (CycleRefused (guestAddressOf (chain read32 root (Suc i))), cur'))"
proof -
  have x: "readNode read32 (nextRamOffset (chain_node read32 root i)) = chain_node read32 root (Suc i)"
    by (simp only: chain_Suc chain_node_def [of _ _ "Suc i"])
  have o: "on_ramOffset (chain_node read32 root (Suc i)) = chain read32 root (Suc i)"
    by (simp add: chain_node_def readNode_def)
  show ?thesis
    by (simp only: cursor_advance_def assms(1) Let_def x o node_guestAddress_def assms(2) split_def if_False)
qed

text \<open>One \<open>advance\<close>: the end, a refused revisit, or the next node with the invariant.\<close>

lemma at_step_advance:
  assumes s: "at_step read32 root i cur k"
  shows "case cursor_advance read32 cur of
      (ChainEnded, _) \<Rightarrow> endsChain (chain_node read32 root i)
    | (CycleRefused a, _) \<Rightarrow> \<not> endsChain (chain_node read32 root i) \<and> a = guestAddressOf (chain read32 root (Suc i)) \<and>
        (\<exists>j \<le> i. chain read32 root (Suc i) = chain read32 root j)
    | (Advanced, cur') \<Rightarrow> \<not> endsChain (chain_node read32 root i) \<and> (\<exists>k'. at_step read32 root (Suc i) cur' k')"
proof -
  note s' = s [unfolded at_step_def]
  let ?x = "chain read32 root"
  let ?a = "2 ^ k - 2 :: nat"
  have n: "i - ?a < 2 ^ 21" using at_step_short [OF s] by simp
  have cyc: "cu_cycle cur = \<lparr>lc_anchor = ?x ?a, lc_lap = 2 ^ k, lc_steps = word_of_nat (i - ?a)\<rparr>" using s' by blast
  have nd: "cu_node cur = chain_node read32 root i" using s' by blast
  have k: "1 \<le> k" "k \<le> 20" "?a \<le> i" "i < 2 ^ Suc k - 2" using s' by auto
  have two: "(2 :: nat) \<le> 2 ^ k" using k(1) by (cases k) simp_all
  show ?thesis
  proof (cases "endsChain (chain_node read32 root i)")
    case True
    then show ?thesis by (simp add: cursor_advance_def nd)
  next
    case go: False
    note step = advance_unless_ended [OF nd go, unfolded cyc]
    show ?thesis
    proof (cases "?x (Suc i) = ?x ?a")
      case True
      then show ?thesis using go k(3) by (auto simp: step cycle_enter_def)
    next
      case fresh: False
      have before: "\<forall>j < Suc i. \<not> endsChain (chain_node read32 root j)"
        using s' go less_Suc_eq by blast
      have w: "(word_of_nat (i - ?a) :: u64) + 1 = 2 ^ k \<longleftrightarrow> Suc (i - ?a) = 2 ^ k" by (rule step_count_word [OF n k(2)])
      show ?thesis
      proof (cases "Suc (i - ?a) = 2 ^ k")
        case True
        have i: "Suc i = 2 ^ Suc k - 2" using True k(3) two by simp
        have int_Suc: "3 + int i = 2 * 2 ^ k"
        proof -
          have "3 + i = 2 * 2 ^ k" using i two by simp
          then show ?thesis by (metis of_nat_add of_nat_mult of_nat_numeral of_nat_power)
        qed
        have "k \<noteq> 20"
        proof
          assume "k = 20"
          then have "i < 2 ^ 20 - 2 + kOtNodes" using s last_lap by blast
          then show False using i \<open>k = 20\<close> by (simp add: kOtNodes_def)
        qed
        then have "at_step read32 root (Suc i) \<lparr>cu_node = chain_node read32 root (Suc i), cu_nodesEntered = cu_nodesEntered cur + 1,
            cu_cycle = \<lparr>lc_anchor = ?x (Suc i), lc_lap = 2 ^ Suc k, lc_steps = 0\<rparr>\<rparr> (Suc k)"
          unfolding at_step_def using s' k before two i by (auto simp: int_Suc)
        moreover have "cycle_enter (?x (Suc i)) (cu_cycle cur) = (True, \<lparr>lc_anchor = ?x (Suc i), lc_lap = 2 ^ Suc k, lc_steps = 0\<rparr>)"
          using fresh w True by (simp add: cycle_enter_def cyc push_bit_eq_mult)
        ultimately show ?thesis using go by (auto simp: step [folded cyc])
      next
        case False
        have lt: "Suc i < 2 ^ Suc k - 2" using False k two by simp
        have d: "Suc i - ?a = Suc (i - ?a)" using k(3) by simp
        have "at_step read32 root (Suc i) \<lparr>cu_node = chain_node read32 root (Suc i), cu_nodesEntered = cu_nodesEntered cur + 1,
            cu_cycle = \<lparr>lc_anchor = ?x ?a, lc_lap = 2 ^ k, lc_steps = word_of_nat (i - ?a) + 1\<rparr>\<rparr> k"
          unfolding at_step_def using s' k before lt fresh le_Suc_eq by (auto simp: d add.commute)
        moreover have "cycle_enter (?x (Suc i)) (cu_cycle cur) =
            (True, \<lparr>lc_anchor = ?x ?a, lc_lap = 2 ^ k, lc_steps = word_of_nat (i - ?a) + 1\<rparr>)"
          using fresh w False by (simp add: cycle_enter_def cyc)
        ultimately show ?thesis using go by (auto simp: step [folded cyc])
      qed
    qed
  qed
qed

lemma chain_end_repeats: "chain read32 root i = chain read32 root j \<Longrightarrow> chain_node read32 root i = chain_node read32 root j"
  by (simp add: chain_node_def)

lemma ot_walk_from:
  "at_step read32 root i cur k \<Longrightarrow> m = 2 ^ 21 - i \<Longrightarrow>
     \<exists>n refused. i \<le> n \<and> n < 2 ^ 21 \<and> ot_walk read32 cur = Some (map (chain_node read32 root) [i..<Suc n], refused) \<and>
       (\<forall>j < n. \<not> endsChain (chain_node read32 root j)) \<and>
       (case refused of None \<Rightarrow> endsChain (chain_node read32 root n)
        | Some a \<Rightarrow> \<not> endsChain (chain_node read32 root n) \<and> a = guestAddressOf (chain read32 root (Suc n)) \<and>
            (\<exists>j \<le> n. chain read32 root (Suc n) = chain read32 root j))"
proof (induction m arbitrary: i cur k rule: less_induct)
  case (less m)
  have i: "i < 2 ^ 21" using at_step_short [OF less.prems(1)] by simp
  have nd: "cu_node cur = chain_node read32 root i" and prior: "\<forall>j < i. \<not> endsChain (chain_node read32 root j)"
    using less.prems(1) by (simp_all add: at_step_def)
  obtain answer cur' where c: "cursor_advance read32 cur = (answer, cur')" by fastforce
  note st = at_step_advance [OF less.prems(1), unfolded c]
  show ?case
  proof (cases answer)
    case ChainEnded
    then show ?thesis using st i prior
      by (intro exI [of _ i] exI [of _ None]) (simp add: ot_walk.simps [of read32 cur] c nd)
  next
    case (CycleRefused a)
    then show ?thesis using st i prior
      by (intro exI [of _ i] exI [of _ "Some a"]) (simp add: ot_walk.simps [of read32 cur] c nd)
  next
    case Advanced
    then obtain k' where k': "at_step read32 root (Suc i) cur' k'" using st by auto
    have lt: "2 ^ 21 - Suc i < m" using less.prems(2) i by simp
    obtain n refused where r: "Suc i \<le> n" "n < 2 ^ 21"
      "ot_walk read32 cur' = Some (map (chain_node read32 root) [Suc i..<Suc n], refused)"
      "\<forall>j < n. \<not> endsChain (chain_node read32 root j)"
      "case refused of None \<Rightarrow> endsChain (chain_node read32 root n)
        | Some a \<Rightarrow> \<not> endsChain (chain_node read32 root n) \<and> a = guestAddressOf (chain read32 root (Suc n)) \<and>
            (\<exists>j \<le> n. chain read32 root (Suc n) = chain read32 root j)"
      using less.IH [OF lt k' refl] by blast
    have "ot_walk read32 cur = Some (map (chain_node read32 root) [i..<Suc n], refused)"
      using r(1) by (simp add: ot_walk.simps [of read32 cur] c Advanced r(3) nd upt_conv_Cons [of i])
    then show ?thesis using r Suc_leD by blast
  qed
qed

text \<open>
  A chain whose nodes repeat never ends: the node that ends it is met once and last, so the visited nodes of a walk
  that ended are distinct.
\<close>

lemma chain_shift: "chain read32 root i = chain read32 root j \<Longrightarrow> chain read32 root (i + d) = chain read32 root (j + d)"
  by (simp add: chain_add)

lemma ended_distinct:
  assumes "endsChain (chain_node read32 root n)" "\<forall>j < n. \<not> endsChain (chain_node read32 root j)"
  shows "inj_on (chain read32 root) {..n}"
proof (rule linorder_inj_onI')
  fix i j assume "i \<in> {..n}" "j \<in> {..n}" "i < j"
  then have ij: "i < j" "j \<le> n" by auto
  show "chain read32 root i \<noteq> chain read32 root j"
  proof
    assume "chain read32 root i = chain read32 root j"
    then have "chain read32 root (i + (n - j)) = chain read32 root n"
      using ij chain_shift [of read32 root i j "n - j"] by simp
    then have "endsChain (chain_node read32 root (i + (n - j)))" using assms(1) by (simp add: chain_node_def)
    moreover have "i + (n - j) < n" using ij by simp
    ultimately show False using assms(2) by blast
  qed
qed

text \<open>
  Every walk of a draw list ends, whatever guest RAM holds, within two million nodes. It visits the chain's nodes in
  link order, from the root on, and none past the end. It ends without a refusal exactly at the node that ends the chain,
  all visited nodes then being distinct; and it refuses only a node it has already visited.
\<close>

theorem ot_walk_exact:
  "\<exists>n refused. n < 2 ^ 21 \<and>
     ot_walk read32 (new_cursor read32 root) = Some (map (chain_node read32 root) [0..<Suc n], refused) \<and>
     (\<forall>j < n. \<not> endsChain (chain_node read32 root j)) \<and>
     (case refused of
        None \<Rightarrow> endsChain (chain_node read32 root n) \<and> inj_on (chain read32 root) {..n}
      | Some a \<Rightarrow> \<not> endsChain (chain_node read32 root n) \<and> a = guestAddressOf (chain read32 root (Suc n)) \<and>
          (\<exists>j \<le> n. chain read32 root (Suc n) = chain read32 root j))"
proof -
  obtain n refused where n: "n < 2 ^ 21"
     "ot_walk read32 (new_cursor read32 root) = Some (map (chain_node read32 root) [0..<Suc n], refused)"
     "\<forall>j < n. \<not> endsChain (chain_node read32 root j)"
     "case refused of None \<Rightarrow> endsChain (chain_node read32 root n)
        | Some a \<Rightarrow> \<not> endsChain (chain_node read32 root n) \<and> a = guestAddressOf (chain read32 root (Suc n)) \<and>
            (\<exists>j \<le> n. chain read32 root (Suc n) = chain read32 root j)"
    using ot_walk_from [OF at_start refl, of read32 root] by blast
  have "endsChain (chain_node read32 root n) \<Longrightarrow> inj_on (chain read32 root) {..n}" using n(3) by (intro ended_distinct)
  then show ?thesis using n by (intro exI [of _ n] exI [of _ refused]) (auto split: option.splits)
qed

theorem ot_walk_exact_witness:
  "ot_walk (\<lambda>_. 0xFFFFFF) (new_cursor (\<lambda>_. 0xFFFFFF) 0x80001000) = Some ([chain_node (\<lambda>_. 0xFFFFFF) 0x80001000 0], None)"
proof -
  have e: "endsChain (chain_node (\<lambda>_. 0xFFFFFF) 0x80001000 j)" for j
    by (simp add: endsChain_def chain_node_def readNode_def nextAddressField_def kOtChainEnd_def kOtNextAddressMask_def)
  obtain n refused where n: "ot_walk (\<lambda>_. 0xFFFFFF) (new_cursor (\<lambda>_. 0xFFFFFF) 0x80001000) =
      Some (map (chain_node (\<lambda>_. 0xFFFFFF) 0x80001000) [0..<Suc n], refused)" "n = 0" "refused = None"
  proof -
    obtain n refused where n: "ot_walk (\<lambda>_. 0xFFFFFF) (new_cursor (\<lambda>_. 0xFFFFFF) 0x80001000) =
        Some (map (chain_node (\<lambda>_. 0xFFFFFF) 0x80001000) [0..<Suc n], refused)"
      "\<forall>j < n. \<not> endsChain (chain_node (\<lambda>_. 0xFFFFFF) 0x80001000 j)"
      "case refused of None \<Rightarrow> True | Some a \<Rightarrow> \<not> endsChain (chain_node (\<lambda>_. 0xFFFFFF) 0x80001000 n)"
      using ot_walk_exact [of "\<lambda>_. 0xFFFFFF" "0x80001000"] by (fastforce split: option.splits)
    moreover have "n = 0" using n(2) e by (cases n) auto
    moreover have "refused = None" using n(3) e by (cases refused) auto
    ultimately show thesis using that by blast
  qed
  show ?thesis using n(1) unfolding n(2,3) by simp
qed

text \<open>
  A node that links to itself after a tail of three: the walk enters it five times, and draws it four, before the check
  reports it.
\<close>

lemma ot_walk_step:
  "cursor_advance read32 cur = (Advanced, cur') \<Longrightarrow>
     ot_walk read32 cur = Option.bind (ot_walk read32 cur') (\<lambda>(nodes, refused). Some (cu_node cur # nodes, refused))"
  by (simp add: ot_walk.simps [of read32 cur])

lemma ot_walk_refuse: "cursor_advance read32 cur = (CycleRefused a, cur') \<Longrightarrow> ot_walk read32 cur = Some ([cu_node cur], Some a)"
  by (simp add: ot_walk.simps [of read32 cur])

definition tail_chain :: "u32 \<Rightarrow> u32" where
  "tail_chain a = (if a = 0x1000 then 0x1004 else if a = 0x1004 then 0x1008 else 0x100C)"

theorem self_loop_drawn_four_times:
  "map_option (\<lambda>(nodes, refused). (map on_ramOffset nodes, refused)) (ot_walk tail_chain (new_cursor tail_chain 0x80001000)) =
     Some ([0x1000, 0x1004, 0x1008, 0x100C, 0x100C, 0x100C, 0x100C], Some 0x8000100C)"
  by (simp add: new_cursor_def tail_chain_def readNode_def mainRamOffsetOf_def kMainRamOffsetMask_def cycle_enter_def
      new_cycle_check_def kNoAnchor_def ot_walk_step ot_walk_refuse cursor_advance_def endsChain_def nextAddressField_def
      nextRamOffset_def kOtNextAddressMask_def kOtChainEnd_def kOtChainEndZero_def node_guestAddress_def guestAddressOf_def Let_def)

section \<open>Named tables\<close>

datatype OtWalk = HighToLow | LowToHigh

record OtArea =
  ar_table :: u16
  ar_base :: u32
  ar_count :: u32
  ar_stride :: u32
  ar_walk :: OtWalk

record OtAssigned =
  as_offset :: u32
  as_order :: u32
  as_slot :: OtSlot

record OtTables =
  ot_areas :: "OtArea list"
  ot_assigned :: "OtAssigned list"
  ot_empties :: "OtAssigned list"
  ot_sorted :: bool

definition new_tables :: OtTables where
  "new_tables = \<lparr>ot_areas = [], ot_assigned = [], ot_empties = [], ot_sorted = True\<rparr>"

text \<open>\<open>name\<close>: the first area with the same base is replaced.\<close>

fun name_area :: "OtArea \<Rightarrow> OtArea list \<Rightarrow> OtArea list" where
  "name_area area [] = [area]"
| "name_area area (named # areas) = (if ar_base named = ar_base area then area # areas else named # name_area area areas)"

definition ot_name :: "u16 \<Rightarrow> u32 \<Rightarrow> u32 \<Rightarrow> u32 \<Rightarrow> OtWalk \<Rightarrow> OtTables \<Rightarrow> OtTables" where
  "ot_name table baseGuestAddress count strideBytes walk t =
     t\<lparr>ot_areas := name_area \<lparr>ar_table = table, ar_base = mainRamOffsetOf baseGuestAddress, ar_count = count,
         ar_stride = strideBytes, ar_walk = walk\<rparr> (ot_areas t)\<rparr>"

definition ot_assign :: "u32 \<Rightarrow> OtSlot \<Rightarrow> OtTables \<Rightarrow> OtTables" where
  "ot_assign packetGuestAddress slot t =
     t\<lparr>ot_assigned := ot_assigned t @ [\<lparr>as_offset = mainRamOffsetOf packetGuestAddress,
         as_order = word_of_nat (length (ot_assigned t)), as_slot = slot\<rparr>], ot_sorted := False\<rparr>"

definition placeEmpty :: "OtSlot \<Rightarrow> u32 \<Rightarrow> OtTables \<Rightarrow> OtTables" where
  "placeEmpty slot packetGuestAddress t =
     t\<lparr>ot_empties := ot_empties t @ [\<lparr>as_offset = mainRamOffsetOf packetGuestAddress, as_order = 0, as_slot = slot\<rparr>]\<rparr>"

definition emptyAfter :: "u32 \<Rightarrow> OtTables \<Rightarrow> OtSlot option" where
  "emptyAfter packetGuestAddress t =
     map_option as_slot (List.find (\<lambda>e. as_offset e = mainRamOffsetOf packetGuestAddress) (ot_empties t))"

definition tables_clear :: "OtTables \<Rightarrow> OtTables" where
  "tables_clear t = t\<lparr>ot_areas := [], ot_assigned := [], ot_empties := [], ot_sorted := True\<rparr>"

text \<open>
  \<open>slotOf\<close>. An area of stride 0 spans no offset, so the remainder by its stride is never taken.
\<close>

definition area_holds :: "u32 \<Rightarrow> OtArea \<Rightarrow> bool" where
  "area_holds offset area \<longleftrightarrow> offset \<ge> ar_base area \<and> offset < ar_base area + ar_count area * ar_stride area \<and>
     (offset - ar_base area) mod ar_stride area = 0"

definition slotOf :: "u32 \<Rightarrow> OtTables \<Rightarrow> OtSlot option" where
  "slotOf nodeGuestAddress t =
     (let offset = mainRamOffsetOf nodeGuestAddress
      in map_option (\<lambda>area. \<lparr>os_table = ar_table area, os_index = (offset - ar_base area) div ar_stride area\<rparr>)
           (List.find (area_holds offset) (ot_areas t)))"

text \<open>\<open>beginWalk\<close>: sorted by offset, then by order; the orders are distinct, so any sort gives the same list.\<close>

definition assigned_rank :: "OtAssigned \<Rightarrow> nat" where
  "assigned_rank a = unat (as_offset a) * 2 ^ 32 + unat (as_order a)"

definition tables_beginWalk :: "OtTables \<Rightarrow> OtTables" where
  "tables_beginWalk t = t\<lparr>ot_assigned := sort_key assigned_rank (ot_assigned t), ot_sorted := True\<rparr>"

text \<open>\<open>assigned\<close>: None is the abort outside a walk; \<open>upper_bound\<close> is the first entry past \<open>offset\<close>.\<close>

definition ot_assigned_slot :: "u32 \<Rightarrow> OtTables \<Rightarrow> OtSlot option option" where
  "ot_assigned_slot packetGuestAddress t =
     (if \<not> ot_sorted t then None
      else let offset = mainRamOffsetOf packetGuestAddress;
               before = takeWhile (\<lambda>a. \<not> offset < as_offset a) (ot_assigned t)
           in Some (if before = [] \<or> as_offset (last before) \<noteq> offset then None else Some (as_slot (last before))))"

definition ot_descending :: "u16 \<Rightarrow> OtTables \<Rightarrow> bool" where
  "ot_descending table t =
     (case List.find (\<lambda>a. ar_table a = table) (ot_areas t) of Some a \<Rightarrow> ar_walk a = HighToLow | None \<Rightarrow> True)"

definition tables_endWalk :: "OtTables \<Rightarrow> OtTables" where
  "tables_endWalk t = t\<lparr>ot_assigned := [], ot_empties := [], ot_sorted := True\<rparr>"

text \<open>The assignments of one list, in the order the title made them.\<close>

definition assign_all :: "(u32 \<times> OtSlot) list \<Rightarrow> OtTables \<Rightarrow> OtTables" where
  "assign_all = fold (\<lambda>(a, slot). ot_assign a slot)"

definition assigned_entries :: "(u32 \<times> OtSlot) list \<Rightarrow> OtAssigned list" where
  "assigned_entries as = map (\<lambda>(i, a, slot). \<lparr>as_offset = mainRamOffsetOf a, as_order = word_of_nat i, as_slot = slot\<rparr>) (enumerate 0 as)"

lemma assigned_entries_snoc:
  "assigned_entries (as @ [(a, slot)]) =
     assigned_entries as @ [\<lparr>as_offset = mainRamOffsetOf a, as_order = word_of_nat (length as), as_slot = slot\<rparr>]"
  by (simp add: assigned_entries_def enumerate_append_eq)

lemma length_assigned_entries [simp]: "length (assigned_entries as) = length as"
  by (simp add: assigned_entries_def)

lemma assign_all_entries: "ot_assigned t = [] \<Longrightarrow> ot_assigned (assign_all as t) = assigned_entries as"
proof (induction as rule: rev_induct)
  case Nil
  then show ?case by (simp add: assign_all_def assigned_entries_def)
next
  case (snoc x as)
  obtain a slot where x: "x = (a, slot)" by fastforce
  have "ot_assigned (assign_all as t) = assigned_entries as" by (rule snoc.IH [OF snoc.prems])
  then show ?case by (simp add: x assigned_entries_snoc) (simp add: assign_all_def ot_assign_def)
qed

lemma assigned_entries_sorted:
  assumes "length as \<le> 2 ^ 32"
  shows "sorted (map assigned_rank (filter (\<lambda>e. as_offset e = offset) (assigned_entries as)))"
  using assms
proof (induction as rule: rev_induct)
  case (snoc x as)
  obtain a slot where x: "x = (a, slot)" by fastforce
  have small: "as_order e \<le> word_of_nat (length as)" if "e \<in> set (assigned_entries as)" for e
  proof -
    note e = that
    obtain i where i: "i < length as" "as_order e = word_of_nat i"
    proof -
      obtain i where "i < length as" "e = assigned_entries as ! i"
        using e by (metis in_set_conv_nth length_assigned_entries)
      then show thesis using that by (simp add: assigned_entries_def nth_enumerate_eq split_def)
    qed
    then have "unat (as_order e) = i" "unat (word_of_nat (length as) :: u32) = length as"
      using snoc.prems by (simp_all add: unsigned_of_nat take_bit_nat_eq_self)
    then show ?thesis using i(1) by (simp add: word_le_nat_alt)
  qed
  have "sorted (map assigned_rank (filter (\<lambda>e. as_offset e = offset) (assigned_entries as)))" using snoc by simp
  moreover have "assigned_rank e \<le> assigned_rank \<lparr>as_offset = as_offset e, as_order = word_of_nat (length as), as_slot = slot\<rparr>"
    if "e \<in> set (assigned_entries as)" for e
    using small [OF that] by (simp add: assigned_rank_def word_le_nat_alt)
  ultimately show ?case by (fastforce simp: x assigned_entries_snoc sorted_append)
qed (simp add: assigned_entries_def)

lemma last_filter: "zs \<noteq> [] \<Longrightarrow> P (last zs) \<Longrightarrow> last (filter P zs) = last zs"
  by (induction zs rule: rev_induct) simp_all

lemma map_of_rev_last:
  "map_of (rev (map (\<lambda>e. (k e, v e)) es)) x =
     (if filter (\<lambda>e. k e = x) es = [] then None else Some (v (last (filter (\<lambda>e. k e = x) es))))"
  by (induction es rule: rev_induct) auto

lemma sorted_last: "sorted (map f zs) \<Longrightarrow> e \<in> set zs \<Longrightarrow> f e \<le> f (last zs)"
  by (induction zs rule: rev_induct) (auto simp: sorted_append)

lemma sorted_prefix_filter:
  "sorted (map f ys) \<Longrightarrow> (\<And>a b. f a \<le> f b \<Longrightarrow> P b \<Longrightarrow> P a) \<Longrightarrow> takeWhile P ys = filter P ys"
proof (induction ys)
  case (Cons y ys)
  show ?case
  proof (cases "P y")
    case True
    then show ?thesis using Cons by simp
  next
    case False
    then have "filter P ys = []" using Cons.prems by (auto simp: filter_empty_conv)
    then show ?thesis using False by simp
  qed
qed simp

lemma rank_offset: "assigned_rank a \<le> assigned_rank b \<Longrightarrow> as_offset a \<le> as_offset b"
proof (rule ccontr)
  assume r: "assigned_rank a \<le> assigned_rank b" and "\<not> as_offset a \<le> as_offset b"
  then have "unat (as_offset b) < unat (as_offset a)" by (simp add: word_le_nat_alt)
  then have "unat (as_offset b) * 2 ^ 32 + 2 ^ 32 \<le> unat (as_offset a) * 2 ^ 32" by simp
  moreover have "unat (as_order b) < 2 ^ 32" using unsigned_less [of "as_order b"] by simp
  ultimately show False using r by (simp add: assigned_rank_def)
qed

text \<open>
  In a walk, a packet's bucket is the one the title assigned it last, whatever order the packets were assigned in, and
  none when it was assigned none; outside a walk asking is an abort.
\<close>

theorem assigned_is_last:
  assumes "ot_assigned t = []" "length as \<le> 2 ^ 32"
  shows "ot_assigned_slot p (tables_beginWalk (assign_all as t)) =
      Some (map_of (rev (map (\<lambda>(a, slot). (mainRamOffsetOf a, slot)) as)) (mainRamOffsetOf p)) \<and>
    (as \<noteq> [] \<longrightarrow> ot_assigned_slot p (assign_all as t) = None)"
proof (intro conjI impI)
  let ?o = "mainRamOffsetOf p"
  let ?xs = "assigned_entries as"
  let ?ys = "sort_key assigned_rank ?xs"
  let ?P = "\<lambda>e. \<not> ?o < as_offset e"
  let ?Q = "\<lambda>e. as_offset e = ?o"
  have same: "filter ?Q ?ys = filter ?Q ?xs"
    using assigned_entries_sorted [OF assms(2), of ?o] by (simp add: filter_sort sort_key_id_if_sorted)
  have prefix: "takeWhile ?P ?ys = filter ?P ?ys"
    by (rule sorted_prefix_filter [of assigned_rank]) (use rank_offset in \<open>auto simp: not_less intro: order_trans\<close>)
  have lastq: "as_offset (last (filter ?P ?ys)) = ?o \<longleftrightarrow> filter ?Q ?ys \<noteq> []" if "filter ?P ?ys \<noteq> []"
  proof
    assume "as_offset (last (filter ?P ?ys)) = ?o"
    then show "filter ?Q ?ys \<noteq> []" using that last_in_set [OF that] by (auto simp: filter_empty_conv)
  next
    assume "filter ?Q ?ys \<noteq> []"
    then obtain e where e: "e \<in> set (filter ?P ?ys)" "as_offset e = ?o" by (fastforce simp: filter_empty_conv)
    have "sorted (map assigned_rank (filter ?P ?ys))" by (intro sorted_filter) (rule sorted_sort_key)
    then have "assigned_rank e \<le> assigned_rank (last (filter ?P ?ys))" using e(1) by (rule sorted_last)
    then have "as_offset e \<le> as_offset (last (filter ?P ?ys))" by (rule rank_offset)
    then have "?o \<le> as_offset (last (filter ?P ?ys))" using e(2) by simp
    moreover have "?P (last (filter ?P ?ys))" using last_in_set [OF that] by simp
    ultimately show "as_offset (last (filter ?P ?ys)) = ?o" by simp
  qed
  have none: "filter ?Q ?ys = []" if "filter ?P ?ys = []" using that by (auto simp: filter_empty_conv)
  have val: "last (filter ?Q ?ys) = last (filter ?P ?ys)" if "filter ?P ?ys \<noteq> []" "as_offset (last (filter ?P ?ys)) = ?o"
  proof -
    have "filter ?Q ?ys = filter ?Q (filter ?P ?ys)" by (auto intro: filter_cong)
    then show ?thesis using last_filter [OF that(1), of ?Q] that(2) by simp
  qed
  have es: "map (\<lambda>(a, slot). (mainRamOffsetOf a, slot)) as = map (\<lambda>e. (as_offset e, as_slot e)) ?xs"
    by (rule nth_equalityI) (auto simp: assigned_entries_def nth_enumerate_eq split: prod.splits)
  show "ot_assigned_slot p (tables_beginWalk (assign_all as t)) =
      Some (map_of (rev (map (\<lambda>(a, slot). (mainRamOffsetOf a, slot)) as)) ?o)"
    unfolding es map_of_rev_last same [symmetric]
  proof (cases "filter ?P ?ys = []")
    case True
    then show "ot_assigned_slot p (tables_beginWalk (assign_all as t)) =
        Some (if filter ?Q ?ys = [] then None else Some (as_slot (last (filter ?Q ?ys))))"
      using none by (simp add: ot_assigned_slot_def tables_beginWalk_def assign_all_entries [OF assms(1)] prefix Let_def)
  next
    case False
    then show "ot_assigned_slot p (tables_beginWalk (assign_all as t)) =
        Some (if filter ?Q ?ys = [] then None else Some (as_slot (last (filter ?Q ?ys))))"
      using lastq [OF False] val [OF False]
      by (simp add: ot_assigned_slot_def tables_beginWalk_def assign_all_entries [OF assms(1)] prefix Let_def)
  qed
  show "ot_assigned_slot p (assign_all as t) = None" if "as \<noteq> []"
    using that by (cases as rule: rev_cases) (auto simp: assign_all_def ot_assign_def ot_assigned_slot_def)
qed

text \<open>A table of buckets two assignments apart, the later one answering.\<close>

theorem assigned_is_last_witness:
  "ot_assigned_slot 0x80001000 (tables_beginWalk (assign_all [(0x80001000, \<lparr>os_table = 1, os_index = 2\<rparr>),
     (0x80002000, \<lparr>os_table = 1, os_index = 3\<rparr>), (0x1000, \<lparr>os_table = 1, os_index = 4\<rparr>)] new_tables)) =
   Some (Some \<lparr>os_table = 1, os_index = 4\<rparr>)"
  using assigned_is_last [of new_tables "[(0x80001000, \<lparr>os_table = 1, os_index = 2\<rparr>),
     (0x80002000, \<lparr>os_table = 1, os_index = 3\<rparr>), (0x1000, \<lparr>os_table = 1, os_index = 4\<rparr>)]" "0x80001000"]
  by (simp add: new_tables_def mainRamOffsetOf_def kMainRamOffsetMask_def)

section \<open>The device calls of a walk\<close>

text \<open>
  What \<open>submitOrderingTable\<close> asks of the device and the display, in order. The key a packet was emitted under and a
  word's interpolated depth come from components outside this theory, as functions of the address.
\<close>

datatype DeviceCall =
  NoteDrawEntry u32
| EnterSlot "OtSlot option" bool
| ShowIfDue
| BeginPacket
| Gp0Call u32 Gp0Origin
| RefuseCycle u32

record WalkEnv =
  we_read32 :: "u32 \<Rightarrow> u32"
  we_keyFor :: "u32 \<Rightarrow> RecordKey option"
  we_depthAt :: "u32 \<Rightarrow> u32 \<Rightarrow> u32"
  we_displayField :: u32

definition mixed_owner :: "OwnerLedger \<Rightarrow> bool \<Rightarrow> OtNode \<Rightarrow> u32" where
  "mixed_owner ledger owned node =
     fold (\<lambda>i mixed.
         if mixed \<noteq> kNoOwner then mixed
         else let address = guestAddressOf (gp0WordRamOffset node i);
                  replaced = overwrote address ledger
              in if replaced \<noteq> kNoOwner then (if owned then ownerOf address ledger else replaced) else mixed)
       [0..<gp0WordCount node] kNoOwner"

definition packet_origin :: "WalkEnv \<Rightarrow> OwnerLedger \<Rightarrow> OtNode \<Rightarrow> nat \<Rightarrow> Gp0Origin" where
  "packet_origin env ledger node i =
     (let owner = ownerOf (node_guestAddress node + 4) ledger;
          address = guestAddressOf (gp0WordRamOffset node i)
      in \<lparr>or_sourceAddress = address, or_packetKey = we_keyFor env (node_guestAddress node), or_owner = owner,
          or_mixedOwner = mixed_owner ledger (isScope owner) node,
          or_depth = we_depthAt env address (we_read32 env (gp0WordRamOffset node i))\<rparr>)"

definition packet_calls :: "WalkEnv \<Rightarrow> OwnerLedger \<Rightarrow> OtNode \<Rightarrow> DeviceCall list" where
  "packet_calls env ledger node =
     (if carriesPrimitive node
      then BeginPacket # map (\<lambda>i. Gp0Call (we_read32 env (gp0WordRamOffset node i)) (packet_origin env ledger node i)) [0..<gp0WordCount node]
      else [])"

definition slot_call :: "OtTables \<Rightarrow> OtSlot option \<Rightarrow> DeviceCall list" where
  "slot_call tables slot = (case slot of Some s \<Rightarrow> [EnterSlot (Some s) (ot_descending (os_table s) tables)] | None \<Rightarrow> [])"

text \<open>The bucket a node is drawn in: the one it heads, else the one its packet was assigned. None is the abort.\<close>

definition node_slot :: "OtTables \<Rightarrow> OtNode \<Rightarrow> OtSlot option option" where
  "node_slot tables node =
     (case slotOf (node_guestAddress node) tables of
        Some s \<Rightarrow> Some (Some s)
      | None \<Rightarrow> if carriesPrimitive node then ot_assigned_slot (node_guestAddress node) tables else Some None)"

definition node_calls :: "WalkEnv \<Rightarrow> OtTables \<Rightarrow> OwnerLedger \<Rightarrow> OtNode \<Rightarrow> DeviceCall list option" where
  "node_calls env tables ledger node =
     map_option (\<lambda>slot. ShowIfDue # slot_call tables slot @ packet_calls env ledger node @
         slot_call tables (emptyAfter (node_guestAddress node) tables)) (node_slot tables node)"

fun concat_options :: "'a list option list \<Rightarrow> 'a list option" where
  "concat_options [] = Some []"
| "concat_options (x # xs) = Option.bind x (\<lambda>a. Option.bind (concat_options xs) (\<lambda>b. Some (a @ b)))"

definition submitOrderingTable ::
  "WalkEnv \<Rightarrow> u32 \<Rightarrow> OtTables \<Rightarrow> OwnerLedger \<Rightarrow> (DeviceCall list \<times> OtTables \<times> OwnerLedger) option" where
  "submitOrderingTable env root tables0 ledger =
     (let tables = tables_beginWalk tables0 in
      Option.bind (ot_walk (we_read32 env) (new_cursor (we_read32 env) root)) (\<lambda>(nodes, refused).
        Option.bind (concat_options (map (node_calls env tables ledger) nodes)) (\<lambda>calls.
          Some ([NoteDrawEntry (we_displayField env), EnterSlot None True] @ calls @
                (case refused of Some a \<Rightarrow> [RefuseCycle a] | None \<Rightarrow> []) @ [EnterSlot None True],
                tables_endWalk tables, drawListSubmitted ledger))))"

text \<open>The words a call list sends to the GPU, each with where it came from.\<close>

fun gp0_sent :: "DeviceCall list \<Rightarrow> (u32 \<times> Gp0Origin) list" where
  "gp0_sent [] = []"
| "gp0_sent (Gp0Call word origin # calls) = (word, origin) # gp0_sent calls"
| "gp0_sent (_ # calls) = gp0_sent calls"

text \<open>The cycles a call list refuses.\<close>

fun cycles_refused :: "DeviceCall list \<Rightarrow> u32 list" where
  "cycles_refused [] = []"
| "cycles_refused (RefuseCycle a # calls) = a # cycles_refused calls"
| "cycles_refused (_ # calls) = cycles_refused calls"

lemma cycles_refused_append: "cycles_refused (xs @ ys) = cycles_refused xs @ cycles_refused ys"
  by (induction xs rule: cycles_refused.induct) simp_all

lemma cycles_refused_words: "cycles_refused (map (\<lambda>i. Gp0Call (w i) (f i)) is) = []"
  by (induction "is") simp_all

lemma cycles_refused_node: "node_calls env tables ledger node = Some calls \<Longrightarrow> cycles_refused calls = []"
proof -
  have slot: "cycles_refused (slot_call tables s) = []" for s by (cases s) (simp_all add: slot_call_def)
  have packet: "cycles_refused (packet_calls env ledger node) = []" by (simp add: packet_calls_def cycles_refused_words)
  show "node_calls env tables ledger node = Some calls \<Longrightarrow> cycles_refused calls = []"
    by (cases "node_slot tables node") (auto simp: node_calls_def cycles_refused_append slot packet)
qed

lemma gp0_sent_append: "gp0_sent (xs @ ys) = gp0_sent xs @ gp0_sent ys"
  by (induction xs rule: gp0_sent.induct) simp_all

lemma gp0_sent_slot [simp]: "gp0_sent (slot_call tables slot) = []"
  by (simp add: slot_call_def split: option.splits)

lemma gp0_sent_words: "gp0_sent (map (\<lambda>i. Gp0Call (w i) (f i)) is) = map (\<lambda>i. (w i, f i)) is"
  by (induction "is") simp_all

definition packet_words :: "WalkEnv \<Rightarrow> OwnerLedger \<Rightarrow> OtNode \<Rightarrow> (u32 \<times> Gp0Origin) list" where
  "packet_words env ledger node =
     map (\<lambda>i. (we_read32 env (gp0WordRamOffset node i), packet_origin env ledger node i)) [0..<gp0WordCount node]"

lemma gp0_sent_packet: "gp0_sent (packet_calls env ledger node) = packet_words env ledger node"
  by (simp add: packet_calls_def packet_words_def gp0_sent_words carriesPrimitive_def)

lemma node_slot_in_walk: "ot_sorted tables \<Longrightarrow> \<exists>slot. node_slot tables node = Some slot"
  by (auto simp: node_slot_def ot_assigned_slot_def Let_def split: option.splits)

lemma submit_nodes:
  "ot_sorted tables \<Longrightarrow> \<exists>calls. concat_options (map (node_calls env tables ledger) nodes) = Some calls \<and>
     gp0_sent calls = concat (map (packet_words env ledger) nodes) \<and> cycles_refused calls = []"
proof (induction nodes)
  case (Cons node nodes)
  obtain slot where "node_slot tables node = Some slot" using node_slot_in_walk [OF Cons.prems] by blast
  moreover have "cycles_refused calls = []" if "node_calls env tables ledger node = Some calls" for calls
    using that by (rule cycles_refused_node)
  ultimately show ?case using Cons by (auto simp: node_calls_def gp0_sent_append gp0_sent_packet cycles_refused_append)
qed simp

lemma tables_beginWalk_sorted: "ot_sorted (tables_beginWalk tables)"
  by (simp add: tables_beginWalk_def)

text \<open>
  C7: Submitting an ordering table always returns. The GPU gets exactly the words of the chain's packets, packet after
  packet in link order, each with its source address and the owner of its packet's command word; a chain that comes back
  to a node already drawn is refused after its last new node, and one that ends is not refused; and the walk leaves no
  assignment behind.
\<close>

theorem submit_exact:
  "\<exists>n calls tables'. submitOrderingTable env root tables ledger = Some (calls, tables', drawListSubmitted ledger) \<and>
     gp0_sent calls = concat (map (\<lambda>i. packet_words env ledger (chain_node (we_read32 env) root i)) [0..<Suc n]) \<and>
     (\<forall>j < n. \<not> endsChain (chain_node (we_read32 env) root j)) \<and>
     cycles_refused calls = (if endsChain (chain_node (we_read32 env) root n) then []
                             else [guestAddressOf (chain (we_read32 env) root (Suc n))]) \<and>
     (\<not> endsChain (chain_node (we_read32 env) root n) \<longrightarrow>
        (\<exists>j \<le> n. chain (we_read32 env) root (Suc n) = chain (we_read32 env) root j)) \<and>
     ot_assigned tables' = [] \<and> ot_empties tables' = [] \<and> ot_areas tables' = ot_areas tables"
proof -
  let ?r = "we_read32 env"
  obtain n refused where w: "ot_walk ?r (new_cursor ?r root) = Some (map (chain_node ?r root) [0..<Suc n], refused)"
     "\<forall>j < n. \<not> endsChain (chain_node ?r root j)"
     "case refused of None \<Rightarrow> endsChain (chain_node ?r root n)
        | Some a \<Rightarrow> \<not> endsChain (chain_node ?r root n) \<and> a = guestAddressOf (chain ?r root (Suc n)) \<and>
            (\<exists>j \<le> n. chain ?r root (Suc n) = chain ?r root j)"
    using ot_walk_from [OF at_start refl, of ?r root] by blast
  obtain calls where c: "concat_options (map (node_calls env (tables_beginWalk tables) ledger) (map (chain_node ?r root) [0..<Suc n])) = Some calls"
    "gp0_sent calls = concat (map (packet_words env ledger) (map (chain_node ?r root) [0..<Suc n]))" "cycles_refused calls = []"
    using submit_nodes [OF tables_beginWalk_sorted] by blast
  let ?calls = "[NoteDrawEntry (we_displayField env), EnterSlot None True] @ calls @
      (case refused of Some a \<Rightarrow> [RefuseCycle a] | None \<Rightarrow> []) @ [EnterSlot None True]"
  have s: "submitOrderingTable env root tables ledger =
      Some (?calls, tables_endWalk (tables_beginWalk tables), drawListSubmitted ledger)"
    unfolding submitOrderingTable_def Let_def w(1) by (simp only: bind.simps prod.case c(1))
  have g: "gp0_sent ?calls = concat (map (\<lambda>i. packet_words env ledger (chain_node ?r root i)) [0..<Suc n])"
    using c(2) by (cases refused) (simp_all add: gp0_sent_append comp_def)
  have e: "cycles_refused ?calls = (if endsChain (chain_node ?r root n) then [] else [guestAddressOf (chain ?r root (Suc n))])"
    using c(3) w(3) by (cases refused) (simp_all add: cycles_refused_append)
  have t: "ot_assigned (tables_endWalk (tables_beginWalk tables)) = []" "ot_empties (tables_endWalk (tables_beginWalk tables)) = []"
    "ot_areas (tables_endWalk (tables_beginWalk tables)) = ot_areas tables"
    by (simp_all add: tables_endWalk_def tables_beginWalk_def)
  have v: "\<not> endsChain (chain_node ?r root n) \<longrightarrow> (\<exists>j \<le> n. chain ?r root (Suc n) = chain ?r root j)"
    using w(3) by (cases refused) simp_all
  show ?thesis using s g e t v w(2) by blast
qed

definition demo_env :: WalkEnv where
  "demo_env = \<lparr>we_read32 = (\<lambda>_. 0xFFFFFF), we_keyFor = (\<lambda>_. None), we_depthAt = (\<lambda>_ _. 0), we_displayField = 0\<rparr>"

theorem submit_exact_witness:
  "\<exists>calls tables'. submitOrderingTable demo_env 0x80001000 new_tables new_ledger = Some (calls, tables', drawListSubmitted new_ledger) \<and>
     cycles_refused calls = []"
proof -
  have e: "endsChain (chain_node (we_read32 demo_env) 0x80001000 j)" for j
    by (simp add: endsChain_def chain_node_def readNode_def nextAddressField_def kOtChainEnd_def kOtNextAddressMask_def demo_env_def)
  obtain n calls tables' where c: "submitOrderingTable demo_env 0x80001000 new_tables new_ledger =
      Some (calls, tables', drawListSubmitted new_ledger)"
    "cycles_refused calls = (if endsChain (chain_node (we_read32 demo_env) 0x80001000 n) then []
       else [guestAddressOf (chain (we_read32 demo_env) 0x80001000 (Suc n))])"
    using submit_exact [of demo_env "0x80001000" new_tables new_ledger] by blast
  have "cycles_refused calls = []" unfolding c(2) if_P [OF e] ..
  then show ?thesis using c(1) by blast
qed

end
