(* ===== verification/Device_Sections.thy ===== *)
theory Device_Sections
  imports State_File Card_File_Laws Frame_Time_Laws Sio_Pad Dma_Controller Owner_Ledger
begin

text \<open>
  The section codecs of a saved machine: \<open>state/device_cpu.cpp\<close>, \<open>device_gpu.cpp\<close>, \<open>device_bus.cpp\<close>,
  \<open>beetle_device_state.cpp\<close>. A section's writer is the list of fields it writes, in order, through the codec of
  \<open>Blob_Codec\<close>; its reader makes the same read calls on the payload and commits what it decoded. The CD controller and
  the BIOS are the members of their C++ classes as they are, integers and fixed arrays included; timing, DMA, port, card,
  catalog and owner ledger are the records of their own theories. What is Beetle's, a title's or floating point is the
  opaque type \<open>'d\<close>.
\<close>

section \<open>Reading a payload\<close>

datatype section_error =
  BadLayout string
| ShortSection string
| CdcCursors int int
| CdcCompletions u8
| ZeroPhase
| HleIrqElements int
| HleHeapBlocks int
| CardAbsent
| CardImage
| CardDescriptors u32
| CardFrame nat
| CardTable
| CardPattern u32
| CardPatternShort
| CdStockReading
| ImageCount u32
| ImageRanges u32
| DeviceRefused string
| DeviceEmpty string

definition words_bytes :: "nat \<Rightarrow> 'a :: len word list \<Rightarrow> u8 list" where
  "words_bytes n ws = concat (map (bytes_of n) ws)"

definition bytes_words :: "nat \<Rightarrow> nat \<Rightarrow> u8 list \<Rightarrow> 'a :: len word list" where
  "bytes_words n count bs = map (\<lambda>i. word_of_bytes (take n (drop (n * i) bs))) [0..<count]"

text \<open>The value of the \<open>i\<close>th read call; an array a short read left alone keeps what it held.\<close>

definition f_u8 :: "field option list \<Rightarrow> nat \<Rightarrow> u8" where "f_u8 xs i = (case xs ! i of Some (FU8 v) \<Rightarrow> v | _ \<Rightarrow> 0)"
definition f_u16 :: "field option list \<Rightarrow> nat \<Rightarrow> u16" where "f_u16 xs i = (case xs ! i of Some (FU16 v) \<Rightarrow> v | _ \<Rightarrow> 0)"
definition f_u32 :: "field option list \<Rightarrow> nat \<Rightarrow> u32" where "f_u32 xs i = (case xs ! i of Some (FU32 v) \<Rightarrow> v | _ \<Rightarrow> 0)"
definition f_u64 :: "field option list \<Rightarrow> nat \<Rightarrow> u64" where "f_u64 xs i = (case xs ! i of Some (FU64 v) \<Rightarrow> v | _ \<Rightarrow> 0)"
definition f_i8 :: "field option list \<Rightarrow> nat \<Rightarrow> int" where "f_i8 xs i = (case xs ! i of Some (FI8 v) \<Rightarrow> v | _ \<Rightarrow> 0)"
definition f_i32 :: "field option list \<Rightarrow> nat \<Rightarrow> int" where "f_i32 xs i = (case xs ! i of Some (FI32 v) \<Rightarrow> v | _ \<Rightarrow> 0)"
definition f_bool :: "field option list \<Rightarrow> nat \<Rightarrow> bool" where "f_bool xs i = (case xs ! i of Some (FBool v) \<Rightarrow> v | _ \<Rightarrow> False)"
definition f_bytes :: "u8 list \<Rightarrow> field option list \<Rightarrow> nat \<Rightarrow> u8 list" where
  "f_bytes old xs i = (case xs ! i of Some (FArray v) \<Rightarrow> v | _ \<Rightarrow> old)"
definition f_words :: "nat \<Rightarrow> nat \<Rightarrow> 'a :: len word list \<Rightarrow> field option list \<Rightarrow> nat \<Rightarrow> 'a word list" where
  "f_words n count old xs i = (case xs ! i of Some (FArray v) \<Rightarrow> bytes_words n count v | _ \<Rightarrow> old)"

lemmas f_defs = f_u8_def f_u16_def f_u32_def f_u64_def f_i8_def f_i32_def f_bool_def f_bytes_def f_words_def

text \<open>The layout byte, then the reads; the flag is \<open>decoded\<close>.\<close>

definition read_section :: "string \<Rightarrow> u8 \<Rightarrow> field list \<Rightarrow> u8 list \<Rightarrow> section_error + field option list \<times> bool" where
  "read_section name layout kinds bs =
     (case expectLayout name layout (reader_of bs) of
        (Some message, _) \<Rightarrow> Inl (BadLayout message)
      | (None, r) \<Rightarrow> let (xs, r') = read_fields kinds r in Inr (xs, decoded name r' = None))"

definition write_section :: "u8 \<Rightarrow> field list \<Rightarrow> u8 list" where
  "write_section layout fs = fold write_field (FU8 layout # fs) []"

text \<open>Two fields that make the same read call.\<close>

fun kind_tag :: "field \<Rightarrow> nat \<times> nat" where
  "kind_tag (FU8 _) = (0, 0)"
| "kind_tag (FU16 _) = (1, 0)"
| "kind_tag (FU32 _) = (2, 0)"
| "kind_tag (FU64 _) = (3, 0)"
| "kind_tag (FI8 _) = (4, 0)"
| "kind_tag (FI32 _) = (5, 0)"
| "kind_tag (FI64 _) = (6, 0)"
| "kind_tag (FBool _) = (7, 0)"
| "kind_tag (FBytes a) = (8, length a)"
| "kind_tag (FBlob _) = (9, 0)"
| "kind_tag (FArray a) = (10, length a)"

definition same_kind :: "field \<Rightarrow> field \<Rightarrow> bool" where
  "same_kind k f \<longleftrightarrow> kind_tag k = kind_tag f"

lemma same_kind_simps [simp]:
  "same_kind (FU8 a) (FU8 b)" "same_kind (FU16 c) (FU16 d)" "same_kind (FU32 e) (FU32 f)" "same_kind (FU64 g) (FU64 h)"
  "same_kind (FI8 i) (FI8 j)" "same_kind (FI32 k) (FI32 l)" "same_kind (FBool m) (FBool n)" "same_kind (FBlob p) (FBlob q)"
  "same_kind (FArray u) (FArray v) \<longleftrightarrow> length u = length v"
  by (simp_all add: same_kind_def)

lemma read_field_kind: "same_kind k f \<Longrightarrow> read_field k r = read_field f r"
  by (cases k) (cases f; simp add: same_kind_def)+

lemma read_fields_kind: "list_all2 same_kind ks fs \<Longrightarrow> read_fields ks r = read_fields fs r"
  by (induction arbitrary: r rule: list_all2_induct) (simp_all add: read_field_kind)

lemma read_section_written:
  assumes "list_all2 same_kind kinds fs" "list_all field_fits fs"
  shows "read_section name layout kinds (write_section layout fs) = Inr (map Some fs, True)"
proof -
  let ?bs = "write_section layout fs"
  have b: "?bs = layout # fold write_field fs []"
    using write_fields_append [of fs "[layout]"] by (simp add: write_section_def w_u8_def)
  let ?r = "\<lparr>br_bytes = ?bs, br_offset = 1, br_ok = True\<rparr>"
  have e: "expectLayout name layout (reader_of ?bs) = (None, ?r)"
    by (simp add: expectLayout_def r_u8_def reader_of_def b)
  have "read_fields fs ?r = (map Some fs, Blob_Codec.advance (length (fold write_field fs [])) ?r)"
    by (rule read_write_fields [OF assms(2), where rest = "[]"]) (simp_all add: b)
  then show ?thesis by (simp add: read_section_def e read_fields_kind [OF assms(1)] decoded_def Blob_Codec.advance_def)
qed

lemma length_words_bytes [simp]: "length (words_bytes n ws) = n * length ws"
  by (induction ws) (simp_all add: words_bytes_def)

lemma words_bytes_nth: "i < length ws \<Longrightarrow> take n (drop (n * i) (words_bytes n ws)) = bytes_of n (ws ! i)"
proof (induction ws arbitrary: i)
  case (Cons w ws)
  then show ?case by (cases i) (simp_all add: words_bytes_def add.commute)
qed simp

lemma bytes_words_written:
  "LENGTH('a) \<le> 8 * n \<Longrightarrow> bytes_words n (length ws) (words_bytes n ws) = (ws :: 'a :: len word list)"
  by (rule nth_equalityI) (simp_all add: bytes_words_def words_bytes_nth)

text \<open>Runs of fields: \<open>n\<close> entries of \<open>k\<close> reads each from the \<open>at\<close>th.\<close>

definition entry_reads :: "nat \<Rightarrow> nat \<Rightarrow> nat \<Rightarrow> field option list \<Rightarrow> field option list list" where
  "entry_reads at k n xs = map (\<lambda>i. take k (drop (at + k * i) xs)) [0..<n]"

lemma entry_reads_written:
  assumes "length pre = at" "\<forall>e \<in> set es. length (f e) = k" "n = length es"
  shows "entry_reads at k n (map Some (pre @ concat (map f es) @ post)) = map (\<lambda>e. map Some (f e)) es"
proof -
  have "take k (drop (k * i) (map Some (concat (map f es) @ post))) = map Some (f (es ! i))"
    if "i < length es" "\<forall>e \<in> set es. length (f e) = k" for i
    using that
  proof (induction es arbitrary: i)
    case (Cons e es)
    then show ?case by (cases i) (simp_all add: add.commute)
  qed simp
  then show ?thesis using assms by (intro nth_equalityI) (simp_all add: entry_reads_def)
qed

section \<open>The machine\<close>

record CpuState =
  cs_r :: "u32 list"
  cs_hi :: u32
  cs_lo :: u32
  cs_pc :: u32
  cs_cop0 :: "u32 list"
  cs_pending_work :: int
  cs_active_native :: u32

text \<open>\<open>ge_places\<close> are the sub-pixel places of the three SXY entries.\<close>

record 'd GteState =
  ge_REG :: "u32 list"
  ge_FLAGS :: u32
  ge_places :: "'d list"

record CdcQueued =
  qe_type :: u8
  qe_resp :: "u8 list"
  qe_len :: int

record CdcState =
  cx_index :: int
  cx_param :: "u8 list"
  cx_param_n :: int
  cx_data :: "u8 list"
  cx_data_n :: int
  cx_data_rd :: int
  cx_irq_en :: u8
  cx_stat :: u8
  cx_loc_lba :: u32
  cx_command_lba :: u32
  cx_sector_header :: "u8 list"
  cx_sector_header_valid :: u8
  cx_mode :: u8
  cx_filter_file :: u8
  cx_filter_chan :: u8
  cx_reading :: int
  cx_first_sector_pending :: u8
  cx_bfrd :: u8
  cx_following_sector_ready :: u8
  cx_drive_event_armed :: u8
  cx_drive_deadline_ticks :: u64
  cx_command_event_armed :: u8
  cx_pending_command :: u8
  cx_command_phase :: int
  cx_command_arg_latch :: u8
  cx_command_args :: "u8 list"
  cx_command_arg_n :: u8
  cx_command_deadline_ticks :: u64
  cx_read_completion_n :: u8
  cx_read_completion_deadline_ticks :: "u64 list"
  cx_q_head :: int
  cx_q_tail :: int
  cx_resp_rd :: int
  cx_irq_sequence :: u64
  cx_irq_edge :: u8
  cx_q :: "CdcQueued list"

record EventSlot =
  es_open :: int
  es_enabled :: int
  es_fired :: int
  es_class :: u32
  es_spec :: u32
  es_mode :: u32
  es_func :: u32

record HeapSlot =
  hs_addr :: u32
  hs_size :: u32
  hs_used :: int

record HleState =
  hx_ev :: "EventSlot list"
  hx_i_stat :: u32
  hx_i_mask :: u32
  hx_irq_n :: int
  hx_irq_elem :: "u32 list"
  hx_irq_prio :: "u32 list"
  hx_in_irq :: int
  hx_ev_depth :: int
  hx_exception_exit_buf :: u32
  hx_irq_enabled :: int
  hx_heap_base :: u32
  hx_heap_size :: u32
  hx_heap_ok :: int
  hx_nblk :: int
  hx_blk :: "HeapSlot list"
  hx_rand_state :: u32
  hx_work_ok :: int
  hx_bios_pad_initialized :: bool
  hx_bios_pad_irq_started :: bool
  hx_dcb_n :: int

record CdState =
  cd_stockBytes :: "u8 list"
  cd_stockValid :: bool
  cd_setloc_lba :: int
  cd_stock_reading :: int
  cd_in_stock_read :: int

text \<open>What a restore tells the rest of the machine.\<close>

datatype notice = ForgetMdecReports | ClearFrameStates | ExecutableWritten u32 u32 | ResetButtonEdges u16

record 'd Game =
  gm_cpu :: CpuState
  gm_ram :: "u8 list"
  gm_scratch :: "u8 list"
  gm_catalog :: ImageCatalog
  gm_gte :: "'d GteState"
  gm_gpu :: 'd
  gm_spu :: 'd
  gm_mdec :: 'd
  gm_cdc :: CdcState
  gm_timing :: Timing
  gm_logicFrame :: u32
  gm_dma :: DmaRegisters
  gm_hle :: HleState
  gm_sio :: Sio0
  gm_buttons :: u16
  gm_card :: Memcard
  gm_cd :: CdState
  gm_title :: 'd
  gm_owners :: OwnerLedger
  gm_latch :: GuestWriterLatch
  gm_notices :: "notice list"

text \<open>
  What the codecs call outside the repository: the GPU's own stream, Beetle's \<open>StateAction\<close> of the SPU and the MDEC
  (whether it accepted, and the bytes or the device after), and the place a whole-pixel screen word has.
\<close>

record 'd state_env =
  gpu_save :: "'d \<Rightarrow> u8 list"
  gpu_load :: "u8 list \<Rightarrow> 'd \<Rightarrow> bool \<times> 'd"
  spu_save :: "'d \<Rightarrow> bool \<times> u8 list"
  spu_load :: "u8 list \<Rightarrow> 'd \<Rightarrow> bool \<times> 'd"
  mdec_save :: "'d \<Rightarrow> bool \<times> u8 list"
  mdec_load :: "u8 list \<Rightarrow> 'd \<Rightarrow> bool \<times> 'd"
  whole_place :: "u32 \<Rightarrow> 'd"

section \<open>The processor sections\<close>

definition kCpuLayoutVersion :: u8 where "kCpuLayoutVersion = 4"

definition cpu_fields :: "CpuState \<Rightarrow> field list" where
  "cpu_fields c = [FArray (words_bytes 4 (cs_r c)), FU32 (cs_hi c), FU32 (cs_lo c), FU32 (cs_pc c),
     FArray (words_bytes 4 (cs_cop0 c)), FI32 (cs_pending_work c)]"

definition cpu_kinds :: "field list" where
  "cpu_kinds = [FArray (replicate 128 0), FU32 0, FU32 0, FU32 0, FArray (replicate 64 0), FI32 0]"

definition writeCpuSection :: "'d Game \<Rightarrow> u8 list" where
  "writeCpuSection g = write_section kCpuLayoutVersion (cpu_fields (gm_cpu g))"

definition readCpuSection :: "u8 list \<Rightarrow> 'd Game \<Rightarrow> section_error option \<times> 'd Game" where
  "readCpuSection bs g =
     (case read_section ''cpu'' kCpuLayoutVersion cpu_kinds bs of
        Inl e \<Rightarrow> (Some e, g)
      | Inr (xs, ok) \<Rightarrow>
          if \<not> ok then (Some (ShortSection ''cpu''), g)
          else (None, g\<lparr>gm_cpu := \<lparr>cs_r = (f_words 4 32 (replicate 32 0) xs 0)[0 := 0], cs_hi = f_u32 xs 1, cs_lo = f_u32 xs 2,
             cs_pc = f_u32 xs 3, cs_cop0 = f_words 4 16 (replicate 16 0) xs 4, cs_pending_work = f_i32 xs 5,
             cs_active_native = 0\<rparr>\<rparr>))"

definition kRamBytes :: nat where "kRamBytes = 0x200000"
definition kScratchpadSize :: nat where "kScratchpadSize = 0x400"

definition writeRamSection :: "'d Game \<Rightarrow> u8 list" where
  "writeRamSection g = w_bytes (gm_ram g) []"

text \<open>The section and what \<open>kSections\<close> runs after it: main RAM and the scratchpad are executable writes.\<close>

definition readRamSection :: "u8 list \<Rightarrow> 'd Game \<Rightarrow> section_error option \<times> 'd Game" where
  "readRamSection bs g =
     (case r_bytes kRamBytes (reader_of bs) of
        (None, _) \<Rightarrow> (Some (ShortSection ''ram''), g)
      | (Some ram', _) \<Rightarrow>
          let (owners', latch) = ledger_clear (gm_owners g, gm_latch g)
          in (None, g\<lparr>gm_ram := ram', gm_owners := owners', gm_latch := latch,
                gm_notices := gm_notices g @ [ClearFrameStates, ExecutableWritten 0 0x200000,
                  ExecutableWritten 0x1F800000 0x1F800400]\<rparr>))"

definition writeScratchpadSection :: "'d Game \<Rightarrow> u8 list" where
  "writeScratchpadSection g = w_bytes (gm_scratch g) []"

definition readScratchpadSection :: "u8 list \<Rightarrow> 'd Game \<Rightarrow> section_error option \<times> 'd Game" where
  "readScratchpadSection bs g =
     (case r_bytes kScratchpadSize (reader_of bs) of
        (None, _) \<Rightarrow> (Some (ShortSection ''scratchpad''), g)
      | (Some s, _) \<Rightarrow> (None, g\<lparr>gm_scratch := s\<rparr>))"

definition writeGteSection :: "'d Game \<Rightarrow> u8 list" where
  "writeGteSection g = fold write_field [FArray (words_bytes 4 (ge_REG (gm_gte g))), FU32 (ge_FLAGS (gm_gte g))] []"

text \<open>A screen entry whose word changes moves to its new word's pixel.\<close>

definition kSxy0 :: nat where "kSxy0 = 12"

definition placeReplacedScreenEntries :: "'d state_env \<Rightarrow> u32 list \<Rightarrow> 'd GteState \<Rightarrow> 'd GteState" where
  "placeReplacedScreenEntries env regs g =
     g\<lparr>ge_places := map (\<lambda>entry. if regs ! (kSxy0 + entry) \<noteq> ge_REG g ! (kSxy0 + entry)
                            then whole_place env (regs ! (kSxy0 + entry)) else ge_places g ! entry) [0..<3]\<rparr>"

definition readGteSection :: "'d state_env \<Rightarrow> u8 list \<Rightarrow> 'd Game \<Rightarrow> section_error option \<times> 'd Game" where
  "readGteSection env bs g =
     (let (xs, r) = read_fields [FArray (replicate 256 0), FU32 0] (reader_of bs);
          regs = f_words 4 64 (replicate 64 0) xs 0
      in if decoded ''gte'' r \<noteq> None then (Some (ShortSection ''gte''), g)
         else (None, g\<lparr>gm_gte := (placeReplacedScreenEntries env regs (gm_gte g))\<lparr>ge_REG := regs, ge_FLAGS := f_u32 xs 1\<rparr>\<rparr>))"

section \<open>Image residencies\<close>

definition kImagesLayoutVersion :: u8 where "kImagesLayoutVersion = 1"
definition kMaxImages :: u32 where "kMaxImages = 4096"
definition kMaxImageRanges :: u32 where "kMaxImageRanges = 4096"

definition range_fields :: "GuestAddressRange \<Rightarrow> field list" where
  "range_fields r = [FU32 (rg_begin r), FU32 (rg_end r)]"

definition image_fields :: "ImageDescription \<Rightarrow> field list" where
  "image_fields d = [FBlob (char_bytes (de_name d)), FU64 (de_content d), FU32 (of_nat (length (de_ranges d)))] @
     concat (map range_fields (de_ranges d))"

definition writeImagesSection :: "'d Game \<Rightarrow> u8 list" where
  "writeImagesSection g =
     (let active = activeResidencies (gm_catalog g)
      in write_section kImagesLayoutVersion (FU32 (of_nat (length active)) # concat (map image_fields active)))"

primrec read_ranges :: "nat \<Rightarrow> BlobReader \<Rightarrow> GuestAddressRange list \<times> BlobReader" where
  "read_ranges 0 r = ([], r)"
| "read_ranges (Suc n) r =
     (let (lo, r1) = r_u32 r; (hi, r2) = r_u32 r1; (rs, r3) = read_ranges n r2
      in (\<lparr>rg_begin = lo, rg_end = hi\<rparr> # rs, r3))"

primrec read_images :: "nat \<Rightarrow> BlobReader \<Rightarrow> section_error + (ImageDescription list \<times> BlobReader)" where
  "read_images 0 r = Inr ([], r)"
| "read_images (Suc n) r =
     (let (name, r1) = r_blob r; (content', r2) = r_u64 r1; (ranges, r3) = r_u32 r2
      in if ranges > kMaxImageRanges then Inl (ImageRanges ranges)
         else let (rs, r4) = read_ranges (unat ranges) r3
              in case read_images n r4 of
                   Inl e \<Rightarrow> Inl e
                 | Inr (ds, r5) \<Rightarrow>
                     Inr (\<lparr>de_name = bytes_chars (case name of Some b \<Rightarrow> b | None \<Rightarrow> []), de_content = content', de_ranges = rs\<rparr> # ds, r5))"

definition readImagesSection :: "u8 list \<Rightarrow> 'd Game \<Rightarrow> section_error option \<times> 'd Game" where
  "readImagesSection bs g =
     (case expectLayout ''images'' kImagesLayoutVersion (reader_of bs) of
        (Some message, _) \<Rightarrow> (Some (BadLayout message), g)
      | (None, r) \<Rightarrow>
          let (count, r1) = r_u32 r
          in if count > kMaxImages then (Some (ImageCount count), g)
             else case read_images (unat count) r1 of
                    Inl e \<Rightarrow> (Some e, g)
                  | Inr (ds, r2) \<Rightarrow>
                      if decoded ''images'' r2 \<noteq> None then (Some (ShortSection ''images''), g)
                      else (None, g\<lparr>gm_catalog := adopt ds (gm_catalog g)\<rparr>))"

section \<open>The devices outside the repository\<close>

definition kGpuLayoutVersion :: u8 where "kGpuLayoutVersion = 3"

definition writeGpuSection :: "'d state_env \<Rightarrow> 'd Game \<Rightarrow> u8 list" where
  "writeGpuSection env g = write_section kGpuLayoutVersion [FBlob (gpu_save env (gm_gpu g))]"

definition readGpuSection :: "'d state_env \<Rightarrow> u8 list \<Rightarrow> 'd Game \<Rightarrow> section_error option \<times> 'd Game" where
  "readGpuSection env bs g =
     (case expectLayout ''gpu'' kGpuLayoutVersion (reader_of bs) of
        (Some message, _) \<Rightarrow> (Some (BadLayout message), g)
      | (None, r) \<Rightarrow>
          case r_blob r of
            (None, r1) \<Rightarrow> (if decoded ''gpu'' r1 = None then None else Some (ShortSection ''gpu''), g)
          | (Some device, _) \<Rightarrow>
              let (ok, gpu') = gpu_load env device (gm_gpu g)
              in (if ok then None else Some (DeviceRefused ''gpu''), g\<lparr>gm_gpu := gpu'\<rparr>))"

datatype BeetleDevice = BeetleSpu | BeetleMdec

fun device_name :: "BeetleDevice \<Rightarrow> string" where
  "device_name BeetleSpu = ''SPU''"
| "device_name BeetleMdec = ''MDEC''"

fun beetle_state :: "BeetleDevice \<Rightarrow> 'd Game \<Rightarrow> 'd" where
  "beetle_state BeetleSpu g = gm_spu g"
| "beetle_state BeetleMdec g = gm_mdec g"

fun set_beetle :: "BeetleDevice \<Rightarrow> 'd \<Rightarrow> 'd Game \<Rightarrow> 'd Game" where
  "set_beetle BeetleSpu d g = g\<lparr>gm_spu := d\<rparr>"
| "set_beetle BeetleMdec d g = g\<lparr>gm_mdec := d\<rparr>"

fun action_save :: "'d state_env \<Rightarrow> BeetleDevice \<Rightarrow> 'd \<Rightarrow> bool \<times> u8 list" where
  "action_save env BeetleSpu = spu_save env"
| "action_save env BeetleMdec = mdec_save env"

fun action_load :: "'d state_env \<Rightarrow> BeetleDevice \<Rightarrow> u8 list \<Rightarrow> 'd \<Rightarrow> bool \<times> 'd" where
  "action_load env BeetleSpu = spu_load env"
| "action_load env BeetleMdec = mdec_load env"

definition writeBeetle :: "'d state_env \<Rightarrow> BeetleDevice \<Rightarrow> 'd Game \<Rightarrow> section_error + u8 list" where
  "writeBeetle env device g =
     (case action_save env device (beetle_state device g) of
        (ok, bs) \<Rightarrow> if \<not> ok then Inl (DeviceRefused (device_name device))
                    else if bs = [] then Inl (DeviceEmpty (device_name device)) else Inr bs)"

definition readBeetle :: "'d state_env \<Rightarrow> BeetleDevice \<Rightarrow> u8 list \<Rightarrow> 'd Game \<Rightarrow> section_error option \<times> 'd Game" where
  "readBeetle env device bs g =
     (if bs = [] then (Some (DeviceEmpty (device_name device)), g)
      else let (ok, d) = action_load env device bs (beetle_state device g)
           in (if ok then None else Some (DeviceRefused (device_name device)), set_beetle device d g))"

section \<open>The CD controller\<close>

definition kBusLayoutVersion :: u8 where "kBusLayoutVersion = 7"

definition queued_fields :: "CdcQueued \<Rightarrow> field list" where
  "queued_fields e = [FU8 (qe_type e), FArray (qe_resp e), FI32 (qe_len e)]"

definition cdc_fields :: "CdcState \<Rightarrow> field list" where
  "cdc_fields c =
     [FI32 (cx_index c), FArray (cx_param c), FI32 (cx_param_n c), FArray (cx_data c), FI32 (cx_data_n c),
      FI32 (cx_data_rd c), FU8 (cx_irq_en c), FU8 (cx_stat c), FU32 (cx_loc_lba c), FU32 (cx_command_lba c),
      FArray (cx_sector_header c), FU8 (cx_sector_header_valid c), FU8 (cx_mode c), FU8 (cx_filter_file c),
      FU8 (cx_filter_chan c), FI32 (cx_reading c), FU8 (cx_first_sector_pending c), FU8 (cx_bfrd c),
      FU8 (cx_following_sector_ready c), FU8 (cx_drive_event_armed c), FU64 (cx_drive_deadline_ticks c),
      FU8 (cx_command_event_armed c), FU8 (cx_pending_command c), FI8 (cx_command_phase c),
      FU8 (cx_command_arg_latch c), FArray (cx_command_args c), FU8 (cx_command_arg_n c),
      FU64 (cx_command_deadline_ticks c), FU8 (cx_read_completion_n c),
      FArray (words_bytes 8 (cx_read_completion_deadline_ticks c)), FI32 (cx_q_head c), FI32 (cx_q_tail c),
      FI32 (cx_resp_rd c), FU64 (cx_irq_sequence c), FU8 (cx_irq_edge c)] @
     concat (map queued_fields (cx_q c))"

definition cdc_kinds :: "field list" where
  "cdc_kinds =
     [FI32 0, FArray (replicate 16 0), FI32 0, FArray (replicate 2340 0), FI32 0, FI32 0, FU8 0, FU8 0, FU32 0,
      FU32 0, FArray (replicate 8 0), FU8 0, FU8 0, FU8 0, FU8 0, FI32 0, FU8 0, FU8 0, FU8 0, FU8 0, FU64 0,
      FU8 0, FU8 0, FI8 0, FU8 0, FArray (replicate 16 0), FU8 0, FU64 0, FU8 0, FArray (replicate 32 0),
      FI32 0, FI32 0, FI32 0, FU64 0, FU8 0] @
     concat (replicate 8 [FU8 0, FArray (replicate 16 0), FI32 0])"

definition queued_of :: "CdcQueued \<Rightarrow> field option list \<Rightarrow> CdcQueued" where
  "queued_of e xs = \<lparr>qe_type = f_u8 xs 0, qe_resp = f_bytes (qe_resp e) xs 1, qe_len = f_i32 xs 2\<rparr>"

text \<open>Every member as its read call left it.\<close>

definition cdc_of :: "CdcState \<Rightarrow> field option list \<Rightarrow> CdcState" where
  "cdc_of c xs =
     \<lparr>cx_index = f_i32 xs 0, cx_param = f_bytes (cx_param c) xs 1, cx_param_n = f_i32 xs 2,
      cx_data = f_bytes (cx_data c) xs 3, cx_data_n = f_i32 xs 4, cx_data_rd = f_i32 xs 5,
      cx_irq_en = f_u8 xs 6, cx_stat = f_u8 xs 7, cx_loc_lba = f_u32 xs 8, cx_command_lba = f_u32 xs 9,
      cx_sector_header = f_bytes (cx_sector_header c) xs 10, cx_sector_header_valid = f_u8 xs 11,
      cx_mode = f_u8 xs 12, cx_filter_file = f_u8 xs 13, cx_filter_chan = f_u8 xs 14, cx_reading = f_i32 xs 15,
      cx_first_sector_pending = f_u8 xs 16, cx_bfrd = f_u8 xs 17, cx_following_sector_ready = f_u8 xs 18,
      cx_drive_event_armed = f_u8 xs 19, cx_drive_deadline_ticks = f_u64 xs 20,
      cx_command_event_armed = f_u8 xs 21, cx_pending_command = f_u8 xs 22, cx_command_phase = f_i8 xs 23,
      cx_command_arg_latch = f_u8 xs 24, cx_command_args = f_bytes (cx_command_args c) xs 25,
      cx_command_arg_n = f_u8 xs 26, cx_command_deadline_ticks = f_u64 xs 27,
      cx_read_completion_n = f_u8 xs 28,
      cx_read_completion_deadline_ticks = f_words 8 4 (cx_read_completion_deadline_ticks c) xs 29,
      cx_q_head = f_i32 xs 30, cx_q_tail = f_i32 xs 31, cx_resp_rd = f_i32 xs 32,
      cx_irq_sequence = f_u64 xs 33, cx_irq_edge = f_u8 xs 34,
      cx_q = map (\<lambda>i. queued_of (cx_q c ! i) (entry_reads 35 3 8 xs ! i)) [0..<8]\<rparr>"

definition writeCdcSection :: "'d Game \<Rightarrow> u8 list" where
  "writeCdcSection g = write_section kBusLayoutVersion (cdc_fields (gm_cdc g))"

text \<open>The controller takes every value as it is read, before the checks.\<close>

definition readCdcSection :: "u8 list \<Rightarrow> 'd Game \<Rightarrow> section_error option \<times> 'd Game" where
  "readCdcSection bs g =
     (case read_section ''cdc'' kBusLayoutVersion cdc_kinds bs of
        Inl e \<Rightarrow> (Some e, g)
      | Inr (xs, ok) \<Rightarrow>
          let c = cdc_of (gm_cdc g) xs; g' = g\<lparr>gm_cdc := c\<rparr>
          in if \<not> ok then (Some (ShortSection ''cdc''), g')
             else if cx_q_head c < 0 \<or> cx_q_head c \<ge> 8 \<or> cx_q_tail c < 0 \<or> cx_q_tail c \<ge> 8
             then (Some (CdcCursors (cx_q_head c) (cx_q_tail c)), g')
             else if cx_read_completion_n c > 4 then (Some (CdcCompletions (cx_read_completion_n c)), g')
             else (None, g'))"

section \<open>The display clock\<close>

definition timing_fields :: "'d Game \<Rightarrow> field list" where
  "timing_fields g =
     (let tm = gm_timing g; clock = clockSnapshot tm
      in [FU32 (vblank tm), FU32 (gm_logicFrame g), FU64 (guestInstructionTicks tm), FU32 (rootCounter2Mode tm),
          FU32 (rootCounter2Target tm), FU16 (rootCounter2BaseValue tm), FU64 (rootCounter2OriginTicks tm),
          FU64 (rootCounter1Offset tm), FU64 (tq_now (cs_time clock)), FU64 (tq_displayBoundary (cs_time clock)),
          FU64 (cs_phaseNumerator clock), FU64 (cs_phaseDenominator clock), FU32 (cs_vsyncWaitFields clock),
          FU32 (cs_fieldsSinceVSyncWait clock)])"

definition timing_kinds :: "field list" where
  "timing_kinds = [FU32 0, FU32 0, FU64 0, FU32 0, FU32 0, FU16 0, FU64 0, FU64 0, FU64 0, FU64 0, FU64 0, FU64 0, FU32 0, FU32 0]"

definition writeTimingSection :: "'d Game \<Rightarrow> u8 list" where
  "writeTimingSection g = write_section kBusLayoutVersion (timing_fields g)"

definition readTimingSection :: "u8 list \<Rightarrow> 'd Game \<Rightarrow> section_error option \<times> 'd Game" where
  "readTimingSection bs g =
     (case read_section ''timing'' kBusLayoutVersion timing_kinds bs of
        Inl e \<Rightarrow> (Some e, g)
      | Inr (xs, ok) \<Rightarrow>
          let clock = \<lparr>cs_time = \<lparr>tq_now = f_u64 xs 8, tq_displayBoundary = f_u64 xs 9\<rparr>, cs_phaseNumerator = f_u64 xs 10,
                 cs_phaseDenominator = f_u64 xs 11, cs_vsyncWaitFields = f_u32 xs 12, cs_fieldsSinceVSyncWait = f_u32 xs 13\<rparr>
          in if \<not> ok then (Some (ShortSection ''timing''), g)
             else if cs_phaseDenominator clock = 0 then (Some ZeroPhase, g)
             else (None, g\<lparr>gm_timing := (restoreClockSnapshot clock (gm_timing g))\<lparr>vblank := f_u32 xs 0,
                      guestInstructionTicks := f_u64 xs 2, rootCounter2Mode := f_u32 xs 3, rootCounter2Target := f_u32 xs 4,
                      rootCounter2BaseValue := f_u16 xs 5, rootCounter2OriginTicks := f_u64 xs 6, rootCounter1Offset := f_u64 xs 7\<rparr>,
                   gm_logicFrame := f_u32 xs 1\<rparr>))"

section \<open>The DMA controller\<close>

definition dma_channels :: "DmaChannel list" where
  "dma_channels = [MdecIn, MdecOut, Gpu, Cdrom, Spu, Pio, Otc]"

definition channel_fields :: "ChannelRegisters \<Rightarrow> field list" where
  "channel_fields c = [FU32 (madr c), FU32 (bcr c), FU32 (chcr c)]"

definition dma_fields :: "DmaRegisters \<Rightarrow> field list" where
  "dma_fields d = concat (map (\<lambda>ch. channel_fields (channel d ch)) dma_channels) @
     [FU32 (mdec0Addr d), FI32 (mdec0Left d), FU32 (mdec1Addr d), FI32 (mdec1Left d), FU32 (spuXferAddr d), FU32 (dpcr d),
      FU32 (dicr d), FU32 (done_mask d)]"

definition dma_kinds :: "field list" where
  "dma_kinds = replicate 21 (FU32 0) @ [FU32 0, FI32 0, FU32 0, FI32 0, FU32 0, FU32 0, FU32 0, FU32 0]"

definition channel_of :: "field option list \<Rightarrow> ChannelRegisters" where
  "channel_of xs = \<lparr>madr = f_u32 xs 0, bcr = f_u32 xs 1, chcr = f_u32 xs 2\<rparr>"

definition writeDmaSection :: "'d Game \<Rightarrow> u8 list" where
  "writeDmaSection g = write_section kBusLayoutVersion (dma_fields (gm_dma g))"

definition readDmaSection :: "u8 list \<Rightarrow> 'd Game \<Rightarrow> section_error option \<times> 'd Game" where
  "readDmaSection bs g =
     (case read_section ''dma'' kBusLayoutVersion dma_kinds bs of
        Inl e \<Rightarrow> (Some e, g)
      | Inr (xs, ok) \<Rightarrow>
          if \<not> ok then (Some (ShortSection ''dma''), g)
          else (None, g\<lparr>gm_dma := \<lparr>channel = (\<lambda>ch. channel_of (entry_reads 0 3 7 xs ! channelIndex ch)), mdec0Addr = f_u32 xs 21,
                   mdec0Left = f_i32 xs 22, mdec1Addr = f_u32 xs 23, mdec1Left = f_i32 xs 24, spuXferAddr = f_u32 xs 25,
                   dpcr = f_u32 xs 26, dicr = f_u32 xs 27, done_mask = f_u32 xs 28\<rparr>,
                 gm_notices := gm_notices g @ [ForgetMdecReports]\<rparr>))"

section \<open>The BIOS\<close>

definition kSlotsEv :: nat where "kSlotsEv = 16"
definition kIrqChain :: nat where "kIrqChain = 8"
definition kBlkSlots :: nat where "kBlkSlots = 4096"

definition event_fields :: "EventSlot \<Rightarrow> field list" where
  "event_fields s = [FI32 (es_open s), FI32 (es_enabled s), FI32 (es_fired s), FU32 (es_class s), FU32 (es_spec s),
     FU32 (es_mode s), FU32 (es_func s)]"

definition heap_fields :: "HeapSlot \<Rightarrow> field list" where
  "heap_fields b = [FU32 (hs_addr b), FU32 (hs_size b), FI32 (hs_used b)]"

definition hle_middle :: "HleState \<Rightarrow> field list" where
  "hle_middle h = [FU32 (hx_i_stat h), FU32 (hx_i_mask h), FI32 (hx_irq_n h), FArray (words_bytes 4 (hx_irq_elem h)),
     FArray (words_bytes 4 (hx_irq_prio h)), FI32 (hx_in_irq h), FI32 (hx_ev_depth h), FU32 (hx_exception_exit_buf h),
     FI32 (hx_irq_enabled h), FU32 (hx_heap_base h), FU32 (hx_heap_size h), FI32 (hx_heap_ok h), FI32 (hx_nblk h)]"

definition hle_last :: "HleState \<Rightarrow> field list" where
  "hle_last h = [FU32 (hx_rand_state h), FI32 (hx_work_ok h), FBool (hx_bios_pad_initialized h),
     FBool (hx_bios_pad_irq_started h), FI32 (hx_dcb_n h)]"

definition hle_fields :: "HleState \<Rightarrow> field list" where
  "hle_fields h = concat (map event_fields (hx_ev h)) @ hle_middle h @ concat (map heap_fields (hx_blk h)) @ hle_last h"

definition middle_kinds :: "field list" where
  "middle_kinds = [FU32 0, FU32 0, FI32 0, FArray (replicate 32 0), FArray (replicate 32 0), FI32 0, FI32 0, FU32 0, FI32 0,
     FU32 0, FU32 0, FI32 0, FI32 0]"

definition hle_kinds :: "field list" where
  "hle_kinds = concat (replicate kSlotsEv [FI32 0, FI32 0, FI32 0, FU32 0, FU32 0, FU32 0, FU32 0]) @ middle_kinds @
     concat (replicate kBlkSlots [FU32 0, FU32 0, FI32 0]) @ [FU32 0, FI32 0, FBool False, FBool False, FI32 0]"

definition event_of :: "field option list \<Rightarrow> EventSlot" where
  "event_of xs = \<lparr>es_open = f_i32 xs 0, es_enabled = f_i32 xs 1, es_fired = f_i32 xs 2, es_class = f_u32 xs 3,
     es_spec = f_u32 xs 4, es_mode = f_u32 xs 5, es_func = f_u32 xs 6\<rparr>"

definition heap_slot_of :: "field option list \<Rightarrow> HeapSlot" where
  "heap_slot_of xs = \<lparr>hs_addr = f_u32 xs 0, hs_size = f_u32 xs 1, hs_used = f_i32 xs 2\<rparr>"

text \<open>Sixteen events of seven reads, thirteen more, the blocks of three reads each, and the last five.\<close>

definition hle_of :: "field option list \<Rightarrow> HleState" where
  "hle_of xs =
     (let m = take 13 (drop (7 * kSlotsEv) xs); t = drop (7 * kSlotsEv + 13 + 3 * kBlkSlots) xs
      in \<lparr>hx_ev = map event_of (entry_reads 0 7 kSlotsEv xs), hx_i_stat = f_u32 m 0, hx_i_mask = f_u32 m 1, hx_irq_n = f_i32 m 2,
          hx_irq_elem = f_words 4 kIrqChain (replicate kIrqChain 0) m 3, hx_irq_prio = f_words 4 kIrqChain (replicate kIrqChain 0) m 4,
          hx_in_irq = f_i32 m 5, hx_ev_depth = f_i32 m 6, hx_exception_exit_buf = f_u32 m 7, hx_irq_enabled = f_i32 m 8,
          hx_heap_base = f_u32 m 9, hx_heap_size = f_u32 m 10, hx_heap_ok = f_i32 m 11, hx_nblk = f_i32 m 12,
          hx_blk = map heap_slot_of (entry_reads (7 * kSlotsEv + 13) 3 kBlkSlots xs), hx_rand_state = f_u32 t 0,
          hx_work_ok = f_i32 t 1, hx_bios_pad_initialized = f_bool t 2, hx_bios_pad_irq_started = f_bool t 3,
          hx_dcb_n = f_i32 t 4\<rparr>)"

definition writeHleSection :: "'d Game \<Rightarrow> u8 list" where
  "writeHleSection g = write_section kBusLayoutVersion (hle_fields (gm_hle g))"

text \<open>Everything is decoded and every bound checked before the first member changes.\<close>

definition readHleSection :: "u8 list \<Rightarrow> 'd Game \<Rightarrow> section_error option \<times> 'd Game" where
  "readHleSection bs g =
     (case read_section ''hle'' kBusLayoutVersion hle_kinds bs of
        Inl e \<Rightarrow> (Some e, g)
      | Inr (xs, ok) \<Rightarrow>
          let h = hle_of xs
          in if \<not> ok then (Some (ShortSection ''hle''), g)
             else if hx_irq_n h < 0 \<or> hx_irq_n h > int kIrqChain then (Some (HleIrqElements (hx_irq_n h)), g)
             else if hx_nblk h < 0 \<or> hx_nblk h > int kBlkSlots then (Some (HleHeapBlocks (hx_nblk h)), g)
             else (None, g\<lparr>gm_hle := h\<rparr>))"

section \<open>The controller port\<close>

definition sio_fields :: "'d Game \<Rightarrow> field list" where
  "sio_fields g =
     (let s = gm_sio g
      in [FU16 (sio_mode s), FU16 (sio_ctrl s), FU16 (sio_baud s), FI32 (sio_rx s), FI32 (sio_pos s), FBool (sio_irq s),
          FU64 (rxReadyTicks s), FU64 (ackTicks s), FU64 (ackPulseEndTicks s), FU16 (gm_buttons g)])"

definition sio_kinds :: "field list" where
  "sio_kinds = [FU16 0, FU16 0, FU16 0, FI32 0, FI32 0, FBool False, FU64 0, FU64 0, FU64 0, FU16 0]"

definition writeSioSection :: "'d Game \<Rightarrow> u8 list" where
  "writeSioSection g = write_section kBusLayoutVersion (sio_fields g)"

definition readSioSection :: "u8 list \<Rightarrow> 'd Game \<Rightarrow> section_error option \<times> 'd Game" where
  "readSioSection bs g =
     (case read_section ''sio'' kBusLayoutVersion sio_kinds bs of
        Inl e \<Rightarrow> (Some e, g)
      | Inr (xs, ok) \<Rightarrow>
          if \<not> ok then (Some (ShortSection ''sio''), g)
          else (None, g\<lparr>gm_sio := \<lparr>sio_mode = f_u16 xs 0, sio_ctrl = f_u16 xs 1, sio_baud = f_u16 xs 2, sio_rx = f_i32 xs 3,
                   sio_pos = f_i32 xs 4, sio_irq = f_bool xs 5, rxReadyTicks = f_u64 xs 6, ackTicks = f_u64 xs 7,
                   ackPulseEndTicks = f_u64 xs 8\<rparr>, gm_buttons := f_u16 xs 9,
                 gm_notices := gm_notices g @ [ResetButtonEdges (f_u16 xs 9)]\<rparr>))"

section \<open>The memory card\<close>

text \<open>The frames of the card in order; None where one could not be read.\<close>

fun read_frames :: "nat list \<Rightarrow> Memcard \<Rightarrow> (nat + u8 list) \<times> Memcard" where
  "read_frames [] m = (Inr [], m)"
| "read_frames (f # fs) m =
     (let ((ok, bs), m1) = readFrame (of_nat f) m
      in if \<not> ok then (Inl f, m1)
         else case read_frames fs m1 of (Inl e, m2) \<Rightarrow> (Inl e, m2) | (Inr rest, m2) \<Rightarrow> (Inr (bs @ rest), m2))"

definition fd_fields :: "McFd option \<Rightarrow> field list" where
  "fd_fields entry =
     (case entry of
        Some e \<Rightarrow> [FBool (fd_used e), FI32 (sint (fd_block e)), FU32 (fd_pos e), FU32 (fd_size e)]
      | None \<Rightarrow> [FBool False, FI32 0, FU32 0, FU32 0])"

definition card_fields :: "u8 list \<Rightarrow> Memcard \<Rightarrow> field list" where
  "card_fields img m =
     [FBlob img, FU32 (of_nat kFdMax)] @
     concat (map (\<lambda>fd. fd_fields (descriptorAt (int fd) m)) [0..<kFdMax]) @
     [FU32 (of_nat (length (mScanPat m)) + 1), FBytes (mScanPat m @ [0]), FU32 (of_nat (mScanBlk m))]"

definition writeCardSection :: "'d Game \<Rightarrow> (section_error + u8 list) \<times> 'd Game" where
  "writeCardSection g =
     (let m = card_init (gm_card g); g1 = g\<lparr>gm_card := m\<rparr>
      in if \<not> mCard m then (Inl CardAbsent, g1)
         else case read_frames [0..<kFrames] m of
                (Inl f, m1) \<Rightarrow> (Inl (CardFrame f), g1\<lparr>gm_card := m1\<rparr>)
              | (Inr img, m1) \<Rightarrow> (Inr (write_section kBusLayoutVersion (card_fields img m1)), g1\<lparr>gm_card := m1\<rparr>))"

fun write_frames :: "nat list \<Rightarrow> u8 list \<Rightarrow> Memcard \<Rightarrow> nat option \<times> Memcard" where
  "write_frames [] img m = (None, m)"
| "write_frames (f # fs) img m =
     (let (ok, m1) = writeFrame (of_nat f) (take kFrameSize (drop (f * kFrameSize) img)) m
      in if \<not> ok then (Some f, m1) else write_frames fs img m1)"

fun read_fds :: "nat list \<Rightarrow> BlobReader \<Rightarrow> Memcard \<Rightarrow> bool \<times> BlobReader \<times> Memcard" where
  "read_fds [] r m = (True, r, m)"
| "read_fds (fd # fds) r m =
     (let (used, r1) = r_boolean r; (block, r2) = r_i32 r1; (pos, r3) = r_u32 r2; (sz, r4) = r_u32 r3
      in if \<not> br_ok r4 then (False, r4, m)
         else read_fds fds r4 (restoreDescriptor (int fd)
                \<lparr>fd_used = used, fd_block = word_of_int block, fd_pos = pos, fd_size = sz\<rparr> m))"

text \<open>The pattern and the cursor, once the descriptors are back; the scan slot is a C string of 64 bytes.\<close>

definition read_cursor :: "BlobReader \<Rightarrow> Memcard \<Rightarrow> section_error option \<times> Memcard" where
  "read_cursor r m =
     (let (patternLength, r1) = r_u32 r
      in if \<not> br_ok r1 \<or> patternLength = 0 \<or> patternLength > 64 then (Some (CardPattern patternLength), m)
         else case r_bytes (unat patternLength) r1 of
                (None, _) \<Rightarrow> (Some CardPatternShort, m)
              | (Some pattern', r2) \<Rightarrow>
                  let (scanBlock, r3) = r_u32 r2
                  in if \<not> br_ok r3 then (Some (ShortSection ''card''), m)
                     else (None, restoreScanCursor (takeWhile (\<lambda>b. b \<noteq> 0) pattern') (unat scanBlock) m))"

definition readCardSection :: "u8 list \<Rightarrow> 'd Game \<Rightarrow> section_error option \<times> 'd Game" where
  "readCardSection bs g =
     (case expectLayout ''card'' kBusLayoutVersion (reader_of bs) of
        (Some message, _) \<Rightarrow> (Some (BadLayout message), g)
      | (None, r) \<Rightarrow>
          let m = card_init (gm_card g); g1 = g\<lparr>gm_card := m\<rparr>
          in if \<not> mCard m then (Some CardAbsent, g1)
             else case r_blob r of
                    (None, _) \<Rightarrow> (Some CardImage, g1)
                  | (Some img, r1) \<Rightarrow>
                      if length img \<noteq> kSize then (Some CardImage, g1)
                      else
                        let (fdCount, r2) = r_u32 r1
                        in if \<not> br_ok r2 \<or> fdCount \<noteq> of_nat kFdMax then (Some (CardDescriptors fdCount), g1)
                           else case write_frames [0..<kFrames] img m of
                                  (Some f, m1) \<Rightarrow> (Some (CardFrame f), g1\<lparr>gm_card := m1\<rparr>)
                                | (None, m1) \<Rightarrow>
                                    let (ok, r3, m2) = read_fds [0..<kFdMax] r2 m1
                                    in if \<not> ok then (Some CardTable, g1\<lparr>gm_card := m2\<rparr>)
                                       else let (e, m3) = read_cursor r3 m2 in (e, g1\<lparr>gm_card := m3\<rparr>))"

section \<open>The native CD\<close>

definition cd_fields :: "CdState \<Rightarrow> field list" where
  "cd_fields c = [FArray (cd_stockBytes c), FBool (cd_stockValid c), FI32 (cd_setloc_lba c), FI32 (cd_stock_reading c),
     FI32 (cd_in_stock_read c)]"

definition cd_kinds :: "field list" where
  "cd_kinds = [FArray (replicate 8 0), FBool False, FI32 0, FI32 0, FI32 0]"

definition writeCdSection :: "'d Game \<Rightarrow> u8 list" where
  "writeCdSection g = write_section kBusLayoutVersion (cd_fields (gm_cd g))"

text \<open>A response is set or cleared, and the cursors taken, before the checks.\<close>

definition readCdSection :: "u8 list \<Rightarrow> 'd Game \<Rightarrow> section_error option \<times> 'd Game" where
  "readCdSection bs g =
     (case read_section ''cd'' kBusLayoutVersion cd_kinds bs of
        Inl e \<Rightarrow> (Some e, g)
      | Inr (xs, ok) \<Rightarrow>
          let valid = f_bool xs 1;
              c = \<lparr>cd_stockBytes = (if valid then f_bytes (replicate 8 0) xs 0 else replicate 8 0), cd_stockValid = valid,
                    cd_setloc_lba = f_i32 xs 2, cd_stock_reading = f_i32 xs 3, cd_in_stock_read = f_i32 xs 4\<rparr>;
              g' = g\<lparr>gm_cd := c\<rparr>
          in if \<not> ok then (Some (ShortSection ''cd''), g')
             else if cd_in_stock_read c \<noteq> 0 then (Some CdStockReading, g')
             else (None, g'))"

end
