(* ===== verification/Section_Laws.thy ===== *)
theory Section_Laws
  imports Device_Sections
begin

text \<open>
  Every section read back. \<open>section_codec\<close> is the contract of a section: a payload written from a machine that fits is
  accepted by a machine that \<open>takes\<close> it and puts exactly what was saved there, and touches nothing else. Each section of
  \<open>kSections\<close> is an instance.
\<close>

locale section_codec =
  fixes fits :: "'m \<Rightarrow> bool"
    and takes :: "'m \<Rightarrow> bool"
    and written :: "'m \<Rightarrow> u8 list"
    and reads :: "u8 list \<Rightarrow> 'm \<Rightarrow> 'e option \<times> 'm"
    and put :: "'m \<Rightarrow> 'm \<Rightarrow> 'm"
  assumes read_written: "fits m \<Longrightarrow> takes n \<Longrightarrow> reads (written m) n = (None, put m n)"
begin

lemma accepted: "fits m \<Longrightarrow> takes n \<Longrightarrow> fst (reads (written m) n) = None"
  by (simp add: read_written)

lemma same_bytes_same_state: "fits m \<Longrightarrow> fits m' \<Longrightarrow> takes n \<Longrightarrow> written m = written m' \<Longrightarrow> put m n = put m' n"
  using read_written [of m n] read_written [of m' n] by simp

end

section \<open>Fields of records and arrays\<close>

lemma list_all2_runs:
  "(\<And>e. e \<in> set es \<Longrightarrow> list_all2 same_kind ks (f e)) \<Longrightarrow> n = length es \<Longrightarrow>
     list_all2 same_kind (concat (replicate n ks)) (concat (map f es))"
  by (induction es arbitrary: n) (auto intro: list_all2_appendI)

lemma list_all_concat: "list_all P (concat xss) \<longleftrightarrow> list_all (list_all P) xss"
  by (induction xss) simp_all

definition i32_ok :: "int \<Rightarrow> bool" where
  "i32_ok v \<longleftrightarrow> - (2 ^ 31) \<le> v \<and> v < 2 ^ 31"

lemma sint_u32_ok: "i32_ok (sint (w :: u32))"
  using sint_range_size [of w] by (simp add: i32_ok_def word_size)

lemma words4_written: "bytes_words 4 (length ws) (words_bytes 4 ws) = (ws :: u32 list)"
  by (rule bytes_words_written) simp

lemma words8_written: "bytes_words 8 (length ws) (words_bytes 8 ws) = (ws :: u64 list)"
  by (rule bytes_words_written) simp

section \<open>Processor and memory\<close>

definition cpu_fits :: "'d Game \<Rightarrow> bool" where
  "cpu_fits g \<longleftrightarrow> length (cs_r (gm_cpu g)) = 32 \<and> length (cs_cop0 (gm_cpu g)) = 16 \<and> i32_ok (cs_pending_work (gm_cpu g))"

definition put_cpu :: "'d Game \<Rightarrow> 'd Game \<Rightarrow> 'd Game" where
  "put_cpu g n = n\<lparr>gm_cpu := (gm_cpu g)\<lparr>cs_r := (cs_r (gm_cpu g))[0 := 0], cs_active_native := 0\<rparr>\<rparr>"

lemma cpu_read_written: "cpu_fits g \<Longrightarrow> readCpuSection (writeCpuSection g) n = (None, put_cpu g n)"
proof -
  assume f: "cpu_fits g"
  let ?c = "gm_cpu g"
  have "read_section ''cpu'' kCpuLayoutVersion cpu_kinds (writeCpuSection g) = Inr (map Some (cpu_fields ?c), True)"
    unfolding writeCpuSection_def using f
    by (intro read_section_written) (simp_all add: cpu_kinds_def cpu_fields_def cpu_fits_def i32_ok_def)
  moreover have "f_words 4 32 (replicate 32 0) (map Some (cpu_fields ?c)) 0 = cs_r ?c"
    using f words4_written [of "cs_r ?c"] by (simp add: f_words_def cpu_fields_def cpu_fits_def)
  moreover have "f_words 4 16 (replicate 16 0) (map Some (cpu_fields ?c)) 4 = cs_cop0 ?c"
    using f words4_written [of "cs_cop0 ?c"] by (simp add: f_words_def cpu_fields_def cpu_fits_def)
  ultimately show ?thesis
    by (simp add: readCpuSection_def put_cpu_def) (simp add: cpu_fields_def f_u32_def f_i32_def)
qed

interpretation cpu_section: section_codec cpu_fits "\<lambda>_. True" writeCpuSection readCpuSection put_cpu
  by unfold_locales (rule cpu_read_written)

lemma r_bytes_all: "r_bytes (length bs) (reader_of bs) = (Some bs, \<lparr>br_bytes = bs, br_offset = length bs, br_ok = True\<rparr>)"
  by (simp add: r_bytes_def reader_of_def copyOut_def)

definition put_ram :: "'d Game \<Rightarrow> 'd Game \<Rightarrow> 'd Game" where
  "put_ram g n = n\<lparr>gm_ram := gm_ram g, gm_owners := fst (ledger_clear (gm_owners n, gm_latch n)),
     gm_latch := snd (ledger_clear (gm_owners n, gm_latch n)),
     gm_notices := gm_notices n @ [ClearFrameStates, ExecutableWritten 0 0x200000, ExecutableWritten 0x1F800000 0x1F800400]\<rparr>"

lemma ram_read_written: "length (gm_ram g) = kRamBytes \<Longrightarrow> readRamSection (writeRamSection g) n = (None, put_ram g n)"
  using r_bytes_all [of "gm_ram g"]
  by (simp add: readRamSection_def writeRamSection_def w_bytes_def put_ram_def split_def Let_def)

interpretation ram_section: section_codec "\<lambda>g. length (gm_ram g) = kRamBytes" "\<lambda>_. True" writeRamSection readRamSection put_ram
  by unfold_locales (rule ram_read_written)

definition put_scratchpad :: "'d Game \<Rightarrow> 'd Game \<Rightarrow> 'd Game" where
  "put_scratchpad g n = n\<lparr>gm_scratch := gm_scratch g\<rparr>"

lemma scratchpad_read_written:
  "length (gm_scratch g) = kScratchpadSize \<Longrightarrow> readScratchpadSection (writeScratchpadSection g) n = (None, put_scratchpad g n)"
  using r_bytes_all [of "gm_scratch g"]
  by (simp add: readScratchpadSection_def writeScratchpadSection_def w_bytes_def put_scratchpad_def)

interpretation scratchpad_section: section_codec "\<lambda>g. length (gm_scratch g) = kScratchpadSize" "\<lambda>_. True" writeScratchpadSection
  readScratchpadSection put_scratchpad
  by unfold_locales (rule scratchpad_read_written)

definition put_gte :: "'d state_env \<Rightarrow> 'd Game \<Rightarrow> 'd Game \<Rightarrow> 'd Game" where
  "put_gte env g n = n\<lparr>gm_gte := (placeReplacedScreenEntries env (ge_REG (gm_gte g)) (gm_gte n))
     \<lparr>ge_REG := ge_REG (gm_gte g), ge_FLAGS := ge_FLAGS (gm_gte g)\<rparr>\<rparr>"

lemma gte_read_written:
  assumes "length (ge_REG (gm_gte g)) = 64"
  shows "readGteSection env (writeGteSection g) n = (None, put_gte env g n)"
proof -
  let ?fs = "[FArray (words_bytes 4 (ge_REG (gm_gte g))), FU32 (ge_FLAGS (gm_gte g))]"
  have "read_fields [FArray (replicate 256 0), FU32 0] (reader_of (writeGteSection g)) = read_fields ?fs (reader_of (writeGteSection g))"
    using assms by (intro read_fields_kind) simp
  also have "\<dots> = (map Some ?fs, Blob_Codec.advance (length (fold write_field ?fs [])) (reader_of (writeGteSection g)))"
    using assms by (intro read_write_fields [where rest = "[]"]) (simp_all add: reader_of_def writeGteSection_def)
  finally have r: "read_fields [FArray (replicate 256 0), FU32 0] (reader_of (writeGteSection g)) =
      (map Some ?fs, Blob_Codec.advance (length (fold write_field ?fs [])) (reader_of (writeGteSection g)))" .
  show ?thesis using words4_written [of "ge_REG (gm_gte g)"] assms
    unfolding readGteSection_def r
    by (simp add: decoded_def reader_of_def f_words_def f_u32_def put_gte_def Let_def)
qed

interpretation gte_section: section_codec "\<lambda>g. length (ge_REG (gm_gte g)) = 64" "\<lambda>_. True" writeGteSection "readGteSection env" "put_gte env" for env
  by unfold_locales (rule gte_read_written)

section \<open>Reading call by call\<close>

text \<open>The fields a reader still has ahead, and what follows them.\<close>

definition ahead_of :: "field list \<Rightarrow> u8 list \<Rightarrow> BlobReader \<Rightarrow> bool" where
  "ahead_of fs rest r \<longleftrightarrow> br_ok r \<and> drop (br_offset r) (br_bytes r) = fold write_field fs [] @ rest"

lemma ahead_next:
  assumes "ahead_of (f # fs) rest r" "field_fits f"
  shows "\<exists>r'. read_field f r = (Some f, r') \<and> ahead_of fs rest r'"
proof -
  let ?w = "write_field f []"
  have d: "drop (br_offset r) (br_bytes r) = ?w @ (fold write_field fs [] @ rest)" "br_ok r"
    using assms(1) write_fields_append [of fs ?w] by (simp_all add: ahead_of_def)
  have "read_field f r = (Some f, Blob_Codec.advance (length ?w) r)" by (rule read_write_field [OF assms(2) d(2,1)])
  moreover have "drop (length ?w) (drop (br_offset r) (br_bytes r)) = fold write_field fs [] @ rest" unfolding d(1) by simp
  then have "ahead_of fs rest (Blob_Codec.advance (length ?w) r)" using d(2) by (simp add: ahead_of_def add.commute)
  ultimately show ?thesis by blast
qed

lemma ahead_u32: "ahead_of (FU32 v # fs) rest r \<Longrightarrow> \<exists>r'. r_u32 r = (v, r') \<and> ahead_of fs rest r'"
  using ahead_next [of "FU32 v" fs rest r] by (cases "r_u32 r") auto

lemma ahead_u64: "ahead_of (FU64 v # fs) rest r \<Longrightarrow> \<exists>r'. r_u64 r = (v, r') \<and> ahead_of fs rest r'"
  using ahead_next [of "FU64 v" fs rest r] by (cases "r_u64 r") auto

lemma ahead_i32: "ahead_of (FI32 v # fs) rest r \<Longrightarrow> i32_ok v \<Longrightarrow> \<exists>r'. r_i32 r = (v, r') \<and> ahead_of fs rest r'"
  using ahead_next [of "FI32 v" fs rest r] by (cases "r_i32 r") (auto simp: i32_ok_def)

lemma ahead_bool: "ahead_of (FBool v # fs) rest r \<Longrightarrow> \<exists>r'. r_boolean r = (v, r') \<and> ahead_of fs rest r'"
  using ahead_next [of "FBool v" fs rest r] by (cases "r_boolean r") auto

lemma ahead_blob: "ahead_of (FBlob v # fs) rest r \<Longrightarrow> length v < 2 ^ 32 \<Longrightarrow> \<exists>r'. r_blob r = (Some v, r') \<and> ahead_of fs rest r'"
  using ahead_next [of "FBlob v" fs rest r] by (cases "r_blob r") auto

lemma ahead_bytes: "ahead_of (FBytes v # fs) rest r \<Longrightarrow> \<exists>r'. r_bytes (length v) r = (Some v, r') \<and> ahead_of fs rest r'"
  using ahead_next [of "FBytes v" fs rest r] by (cases "r_bytes (length v) r") auto

lemma ahead_ok: "ahead_of fs rest r \<Longrightarrow> br_ok r"
  by (simp add: ahead_of_def)

lemma section_ahead:
  "\<exists>r. expectLayout name layout (reader_of (write_section layout fs)) = (None, r) \<and> ahead_of fs [] r"
proof -
  let ?bs = "write_section layout fs"
  have b: "?bs = layout # fold write_field fs []"
    using write_fields_append [of fs "[layout]"] by (simp add: write_section_def w_u8_def)
  show ?thesis by (simp add: expectLayout_def r_u8_def reader_of_def b ahead_of_def)
qed

section \<open>Image residencies\<close>

lemma ranges_written:
  "ahead_of (concat (map range_fields rs) @ fs) rest r \<Longrightarrow> \<exists>r'. read_ranges (length rs) r = (rs, r') \<and> ahead_of fs rest r'"
proof (induction rs arbitrary: r)
  case (Cons x rs)
  have "ahead_of (FU32 (rg_begin x) # FU32 (rg_end x) # concat (map range_fields rs) @ fs) rest r"
    using Cons.prems by (simp add: range_fields_def [of x])
  then obtain r1 where 1: "r_u32 r = (rg_begin x, r1)" "ahead_of (FU32 (rg_end x) # concat (map range_fields rs) @ fs) rest r1"
    using ahead_u32 by blast
  obtain r2 where 2: "r_u32 r1 = (rg_end x, r2)" "ahead_of (concat (map range_fields rs) @ fs) rest r2"
    using ahead_u32 [OF 1(2)] by blast
  obtain r3 where 3: "read_ranges (length rs) r2 = (rs, r3)" "ahead_of fs rest r3" using Cons.IH [OF 2(2)] by blast
  then show ?case using 1(1) 2(1) by simp
qed simp

definition image_fits :: "ImageDescription \<Rightarrow> bool" where
  "image_fits d \<longleftrightarrow> length (de_name d) < 2 ^ 32 \<and> length (de_ranges d) \<le> 4096"

lemma images_written:
  "list_all image_fits ds \<Longrightarrow> ahead_of (concat (map image_fields ds) @ fs) rest r \<Longrightarrow>
     \<exists>r'. read_images (length ds) r = Inr (ds, r') \<and> ahead_of fs rest r'"
proof (induction ds arbitrary: r)
  case (Cons d ds)
  let ?fs = "concat (map image_fields ds) @ fs"
  have fit: "length (de_name d) < 2 ^ 32" "length (de_ranges d) \<le> 4096" using Cons.prems(1) by (simp_all add: image_fits_def)
  have "ahead_of (FBlob (char_bytes (de_name d)) # FU64 (de_content d) # FU32 (of_nat (length (de_ranges d))) #
      concat (map range_fields (de_ranges d)) @ ?fs) rest r"
    using Cons.prems(2) by (simp add: image_fields_def [of d])
  then obtain r1 where 1: "r_blob r = (Some (char_bytes (de_name d)), r1)"
    "ahead_of (FU64 (de_content d) # FU32 (of_nat (length (de_ranges d))) # concat (map range_fields (de_ranges d)) @ ?fs) rest r1"
    using ahead_blob fit(1) by fastforce
  obtain r2 where 2: "r_u64 r1 = (de_content d, r2)"
    "ahead_of (FU32 (of_nat (length (de_ranges d))) # concat (map range_fields (de_ranges d)) @ ?fs) rest r2"
    using ahead_u64 [OF 1(2)] by blast
  obtain r3 where 3: "r_u32 r2 = (of_nat (length (de_ranges d)), r3)" "ahead_of (concat (map range_fields (de_ranges d)) @ ?fs) rest r3"
    using ahead_u32 [OF 2(2)] by blast
  obtain r4 where 4: "read_ranges (length (de_ranges d)) r3 = (de_ranges d, r4)" "ahead_of ?fs rest r4"
    using ranges_written [OF 3(2)] by blast
  obtain r5 where 5: "read_images (length ds) r4 = Inr (ds, r5)" "ahead_of fs rest r5"
    using Cons.IH [OF _ 4(2)] Cons.prems(1) by auto
  have n: "unat (of_nat (length (de_ranges d)) :: u32) = length (de_ranges d)" using fit(2) by simp
  then have "\<not> (of_nat (length (de_ranges d)) :: u32) > kMaxImageRanges"
    using fit(2) by (simp add: kMaxImageRanges_def word_less_nat_alt)
  then show ?case using 1(1) 2(1) 3(1) 4(1) 5 n by simp
qed simp

definition images_fit :: "'d Game \<Rightarrow> bool" where
  "images_fit g \<longleftrightarrow> length (activeResidencies (gm_catalog g)) \<le> 4096 \<and> list_all image_fits (activeResidencies (gm_catalog g))"

definition put_images :: "'d Game \<Rightarrow> 'd Game \<Rightarrow> 'd Game" where
  "put_images g n = n\<lparr>gm_catalog := adopt (activeResidencies (gm_catalog g)) (gm_catalog n)\<rparr>"

lemma images_read_written:
  assumes "images_fit g"
  shows "readImagesSection (writeImagesSection g) n = (None, put_images g n)"
proof -
  let ?ds = "activeResidencies (gm_catalog g)"
  obtain r where r: "expectLayout ''images'' kImagesLayoutVersion (reader_of (writeImagesSection g)) = (None, r)"
    "ahead_of (FU32 (of_nat (length ?ds)) # concat (map image_fields ?ds)) [] r"
    using section_ahead unfolding writeImagesSection_def Let_def by blast
  obtain r1 where 1: "r_u32 r = (of_nat (length ?ds), r1)" "ahead_of (concat (map image_fields ?ds)) [] r1"
    using ahead_u32 [OF r(2)] by blast
  obtain r2 where 2: "read_images (length ?ds) r1 = Inr (?ds, r2)" "ahead_of [] [] r2"
    using images_written [of ?ds "[]" "[]" r1] 1(2) assms by (auto simp: images_fit_def)
  have n: "unat (of_nat (length ?ds) :: u32) = length ?ds" using assms by (simp add: images_fit_def)
  then have "\<not> (of_nat (length ?ds) :: u32) > kMaxImages" using assms by (simp add: images_fit_def kMaxImages_def word_less_nat_alt)
  then show ?thesis using r(1) 1(1) 2(1) ahead_ok [OF 2(2)] n
    by (simp add: readImagesSection_def put_images_def decoded_def)
qed

interpretation images_section: section_codec images_fit "\<lambda>_. True" writeImagesSection readImagesSection put_images
  by unfold_locales (rule images_read_written)

section \<open>The devices outside the repository\<close>

text \<open>What Beetle's and the GPU's streams are relied on for: a stream a device saved is one it accepts.\<close>

definition devices_accept :: "'d state_env \<Rightarrow> bool" where
  "devices_accept env \<longleftrightarrow> (\<forall>d d'. fst (gpu_load env (gpu_save env d) d') \<and> length (gpu_save env d) < 2 ^ 32 \<and>
     (\<forall>device. fst (action_save env device d) \<and> snd (action_save env device d) \<noteq> [] \<and>
        fst (action_load env device (snd (action_save env device d)) d')))"

definition put_gpu :: "'d state_env \<Rightarrow> 'd Game \<Rightarrow> 'd Game \<Rightarrow> 'd Game" where
  "put_gpu env g n = n\<lparr>gm_gpu := snd (gpu_load env (gpu_save env (gm_gpu g)) (gm_gpu n))\<rparr>"

lemma gpu_read_written:
  assumes "devices_accept env"
  shows "readGpuSection env (writeGpuSection env g) n = (None, put_gpu env g n)"
proof -
  have a: "fst (gpu_load env (gpu_save env (gm_gpu g)) (gm_gpu n))" "length (gpu_save env (gm_gpu g)) < 2 ^ 32"
    using assms by (simp_all add: devices_accept_def)
  obtain r where r: "expectLayout ''gpu'' kGpuLayoutVersion (reader_of (writeGpuSection env g)) = (None, r)"
    "ahead_of [FBlob (gpu_save env (gm_gpu g))] [] r"
    using section_ahead unfolding writeGpuSection_def by blast
  obtain r1 where "r_blob r = (Some (gpu_save env (gm_gpu g)), r1)" using ahead_blob [OF r(2) a(2)] by blast
  then show ?thesis using r(1) a(1) by (simp add: readGpuSection_def put_gpu_def split_def Let_def)
qed

definition put_beetle :: "'d state_env \<Rightarrow> BeetleDevice \<Rightarrow> 'd Game \<Rightarrow> 'd Game \<Rightarrow> 'd Game" where
  "put_beetle env device g n =
     set_beetle device (snd (action_load env device (snd (action_save env device (beetle_state device g))) (beetle_state device n))) n"

definition beetle_bytes :: "'d state_env \<Rightarrow> BeetleDevice \<Rightarrow> 'd Game \<Rightarrow> u8 list" where
  "beetle_bytes env device g = snd (action_save env device (beetle_state device g))"

lemma beetle_read_written:
  "devices_accept env \<Longrightarrow> readBeetle env device (beetle_bytes env device g) n = (None, put_beetle env device g n)"
  by (simp add: devices_accept_def readBeetle_def beetle_bytes_def put_beetle_def split_def Let_def)

lemma beetle_written: "devices_accept env \<Longrightarrow> writeBeetle env device g = Inr (beetle_bytes env device g)"
  by (simp add: devices_accept_def writeBeetle_def beetle_bytes_def split_def)

interpretation gpu_section: section_codec "\<lambda>_. devices_accept env" "\<lambda>_. True" "writeGpuSection env" "readGpuSection env" "put_gpu env" for env
  by unfold_locales (rule gpu_read_written)

interpretation beetle_section: section_codec "\<lambda>_. devices_accept env" "\<lambda>_. True" "beetle_bytes env device" "readBeetle env device" "put_beetle env device"
  for env device
  by unfold_locales (rule beetle_read_written)

section \<open>The device bus\<close>

definition queued_fits :: "CdcQueued \<Rightarrow> bool" where
  "queued_fits e \<longleftrightarrow> length (qe_resp e) = 16 \<and> i32_ok (qe_len e)"

definition cdc_shape :: "CdcState \<Rightarrow> bool" where
  "cdc_shape c \<longleftrightarrow> length (cx_param c) = 16 \<and> length (cx_data c) = 2340 \<and> length (cx_sector_header c) = 8 \<and>
     length (cx_command_args c) = 16 \<and> length (cx_read_completion_deadline_ticks c) = 4 \<and> length (cx_q c) = 8 \<and>
     list_all queued_fits (cx_q c)"

definition cdc_ints :: "CdcState \<Rightarrow> bool" where
  "cdc_ints c \<longleftrightarrow> list_all i32_ok [cx_index c, cx_param_n c, cx_data_n c, cx_data_rd c, cx_reading c, cx_resp_rd c] \<and>
     - (2 ^ 7) \<le> cx_command_phase c \<and> cx_command_phase c < 2 ^ 7"

text \<open>What the reader checks.\<close>

definition cdc_bounded :: "CdcState \<Rightarrow> bool" where
  "cdc_bounded c \<longleftrightarrow> 0 \<le> cx_q_head c \<and> cx_q_head c < 8 \<and> 0 \<le> cx_q_tail c \<and> cx_q_tail c < 8 \<and> cx_read_completion_n c \<le> 4"

definition cdc_fits :: "'d Game \<Rightarrow> bool" where
  "cdc_fits g \<longleftrightarrow> cdc_shape (gm_cdc g) \<and> cdc_ints (gm_cdc g) \<and> cdc_bounded (gm_cdc g)"

definition put_cdc :: "'d Game \<Rightarrow> 'd Game \<Rightarrow> 'd Game" where
  "put_cdc g n = n\<lparr>gm_cdc := gm_cdc g\<rparr>"

lemma queued_read: "queued_of old (map Some (queued_fields e)) = e"
  by (simp add: queued_of_def queued_fields_def f_u8_def f_bytes_def f_i32_def)

lemma cdc_fields_kinds:
  assumes "cdc_shape c" shows "list_all2 same_kind cdc_kinds (cdc_fields c)"
proof -
  have "list_all2 same_kind (concat (replicate 8 [FU8 0, FArray (replicate 16 0), FI32 0])) (concat (map queued_fields (cx_q c)))"
    using assms by (intro list_all2_runs) (auto simp: cdc_shape_def queued_fields_def queued_fits_def list_all_iff)
  then show ?thesis using assms unfolding cdc_kinds_def cdc_fields_def
    by (intro list_all2_appendI) (simp_all add: cdc_shape_def)
qed

lemma cdc_fields_fit:
  assumes "cdc_fits g" shows "list_all field_fits (cdc_fields (gm_cdc g))"
proof -
  have "list_all field_fits (concat (map queued_fields (cx_q (gm_cdc g))))"
    using assms by (auto simp: cdc_fits_def cdc_shape_def list_all_iff queued_fields_def queued_fits_def i32_ok_def)
  then show ?thesis using assms unfolding cdc_fields_def list_all_append
    by (simp add: cdc_fits_def cdc_shape_def cdc_ints_def cdc_bounded_def i32_ok_def)
qed

lemma cdc_of_written:
  assumes "cdc_shape c" shows "cdc_of old (map Some (cdc_fields c)) = c"
proof -
  have e: "entry_reads 35 3 8 (map Some (cdc_fields c)) = map (\<lambda>e. map Some (queued_fields e)) (cx_q c)"
  proof -
    have split: "cdc_fields c = take 35 (cdc_fields c) @ concat (map queued_fields (cx_q c)) @ []" "length (take 35 (cdc_fields c)) = 35"
      by (simp_all add: cdc_fields_def)
    show ?thesis
      by (subst split(1)) (rule entry_reads_written [OF split(2)], use assms in \<open>simp_all add: cdc_shape_def queued_fields_def\<close>)
  qed
  have q: "map (\<lambda>i. queued_of (cx_q old ! i) (entry_reads 35 3 8 (map Some (cdc_fields c)) ! i)) [0..<8] = cx_q c"
    unfolding e using assms by (intro nth_equalityI) (simp_all add: cdc_shape_def queued_read del: upt_Suc)
  have d: "bytes_words 8 4 (words_bytes 8 (cx_read_completion_deadline_ticks c)) = cx_read_completion_deadline_ticks c"
    using words8_written [of "cx_read_completion_deadline_ticks c"] assms by (simp add: cdc_shape_def)
  show ?thesis unfolding cdc_of_def q
    by (rule CdcState.equality) (simp_all add: cdc_fields_def f_defs d)
qed

lemma cdc_read_written: "cdc_fits g \<Longrightarrow> readCdcSection (writeCdcSection g) n = (None, put_cdc g n)"
proof -
  assume f: "cdc_fits g"
  have "read_section ''cdc'' kBusLayoutVersion cdc_kinds (writeCdcSection g) = Inr (map Some (cdc_fields (gm_cdc g)), True)"
    unfolding writeCdcSection_def using f cdc_fields_kinds cdc_fields_fit by (intro read_section_written) (simp_all add: cdc_fits_def)
  then show ?thesis using f cdc_of_written [of "gm_cdc g" "gm_cdc n"]
    by (simp add: readCdcSection_def put_cdc_def cdc_fits_def cdc_bounded_def Let_def not_less)
qed

interpretation cdc_section: section_codec cdc_fits "\<lambda>_. True" writeCdcSection readCdcSection put_cdc
  by unfold_locales (rule cdc_read_written)

text \<open>The clock comes back through its snapshot.\<close>

definition timing_fits :: "'d Game \<Rightarrow> bool" where
  "timing_fits g \<longleftrightarrow> cs_phaseDenominator (clockSnapshot (gm_timing g)) \<noteq> 0"

definition put_timing :: "'d Game \<Rightarrow> 'd Game \<Rightarrow> 'd Game" where
  "put_timing g n =
     (let tm = gm_timing g
      in n\<lparr>gm_timing := (restoreClockSnapshot (clockSnapshot tm) (gm_timing n))\<lparr>vblank := vblank tm,
              guestInstructionTicks := guestInstructionTicks tm, rootCounter2Mode := rootCounter2Mode tm,
              rootCounter2Target := rootCounter2Target tm, rootCounter2BaseValue := rootCounter2BaseValue tm,
              rootCounter2OriginTicks := rootCounter2OriginTicks tm, rootCounter1Offset := rootCounter1Offset tm\<rparr>,
           gm_logicFrame := gm_logicFrame g\<rparr>)"

lemma timing_read_written: "timing_fits g \<Longrightarrow> readTimingSection (writeTimingSection g) n = (None, put_timing g n)"
proof -
  assume f: "timing_fits g"
  have r: "read_section ''timing'' kBusLayoutVersion timing_kinds (writeTimingSection g) = Inr (map Some (timing_fields g), True)"
    unfolding writeTimingSection_def by (intro read_section_written) (simp_all add: timing_kinds_def timing_fields_def Let_def)
  let ?c = "clockSnapshot (gm_timing g)"
  have c: "\<lparr>cs_time = \<lparr>tq_now = f_u64 (map Some (timing_fields g)) 8, tq_displayBoundary = f_u64 (map Some (timing_fields g)) 9\<rparr>,
      cs_phaseNumerator = f_u64 (map Some (timing_fields g)) 10, cs_phaseDenominator = f_u64 (map Some (timing_fields g)) 11,
      cs_vsyncWaitFields = f_u32 (map Some (timing_fields g)) 12, cs_fieldsSinceVSyncWait = f_u32 (map Some (timing_fields g)) 13\<rparr> = ?c"
    by (simp add: timing_fields_def f_u64_def f_u32_def Let_def clockSnapshot_def q32_def)
  show ?thesis unfolding readTimingSection_def r using f
    by (simp add: c timing_fits_def put_timing_def Let_def) (simp add: timing_fields_def f_u64_def f_u32_def f_u16_def Let_def)
qed

interpretation timing_section: section_codec timing_fits "\<lambda>_. True" writeTimingSection readTimingSection put_timing
  by unfold_locales (rule timing_read_written)

definition dma_fits :: "'d Game \<Rightarrow> bool" where
  "dma_fits g \<longleftrightarrow> i32_ok (mdec0Left (gm_dma g)) \<and> i32_ok (mdec1Left (gm_dma g))"

definition put_dma :: "'d Game \<Rightarrow> 'd Game \<Rightarrow> 'd Game" where
  "put_dma g n = n\<lparr>gm_dma := gm_dma g, gm_notices := gm_notices n @ [ForgetMdecReports]\<rparr>"

lemma dma_read_written:
  assumes "dma_fits g" shows "readDmaSection (writeDmaSection g) n = (None, put_dma g n)"
proof -
  let ?d = "gm_dma g"
  have r: "read_section ''dma'' kBusLayoutVersion dma_kinds (writeDmaSection g) = Inr (map Some (dma_fields ?d), True)"
    unfolding writeDmaSection_def using assms
    by (intro read_section_written)
       (simp_all add: dma_kinds_def dma_fields_def dma_channels_def channel_fields_def dma_fits_def i32_ok_def
          numeral_eq_Suc)
  have e: "entry_reads 0 3 7 (map Some (dma_fields ?d)) = map (\<lambda>ch. map Some (channel_fields (channel ?d ch))) dma_channels"
  proof -
    have split: "dma_fields ?d = [] @ concat (map (\<lambda>ch. channel_fields (channel ?d ch)) dma_channels) @ drop 21 (dma_fields ?d)"
      by (simp add: dma_fields_def dma_channels_def channel_fields_def)
    show ?thesis
      by (subst split, rule entry_reads_written) (simp_all add: channel_fields_def dma_channels_def)
  qed
  have ch: "channel_of (entry_reads 0 3 7 (map Some (dma_fields ?d)) ! channelIndex ch) = channel ?d ch" for ch
    unfolding e by (cases ch) (simp_all add: dma_channels_def channel_of_def channel_fields_def f_u32_def)
  have "\<lparr>channel = (\<lambda>ch. channel_of (entry_reads 0 3 7 (map Some (dma_fields ?d)) ! channelIndex ch)),
      mdec0Addr = f_u32 (map Some (dma_fields ?d)) 21, mdec0Left = f_i32 (map Some (dma_fields ?d)) 22,
      mdec1Addr = f_u32 (map Some (dma_fields ?d)) 23, mdec1Left = f_i32 (map Some (dma_fields ?d)) 24,
      spuXferAddr = f_u32 (map Some (dma_fields ?d)) 25, dpcr = f_u32 (map Some (dma_fields ?d)) 26,
      dicr = f_u32 (map Some (dma_fields ?d)) 27, done_mask = f_u32 (map Some (dma_fields ?d)) 28\<rparr> = ?d"
    unfolding ch
    by (rule DmaRegisters.equality) (simp_all add: dma_fields_def dma_channels_def channel_fields_def f_u32_def f_i32_def)
  then show ?thesis unfolding readDmaSection_def r by (simp add: put_dma_def)
qed

interpretation dma_section: section_codec dma_fits "\<lambda>_. True" writeDmaSection readDmaSection put_dma
  by unfold_locales (rule dma_read_written)

definition sio_fits :: "'d Game \<Rightarrow> bool" where
  "sio_fits g \<longleftrightarrow> i32_ok (sio_rx (gm_sio g)) \<and> i32_ok (sio_pos (gm_sio g))"

definition put_sio :: "'d Game \<Rightarrow> 'd Game \<Rightarrow> 'd Game" where
  "put_sio g n = n\<lparr>gm_sio := gm_sio g, gm_buttons := gm_buttons g, gm_notices := gm_notices n @ [ResetButtonEdges (gm_buttons g)]\<rparr>"

lemma sio_read_written:
  assumes "sio_fits g" shows "readSioSection (writeSioSection g) n = (None, put_sio g n)"
proof -
  have "read_section ''sio'' kBusLayoutVersion sio_kinds (writeSioSection g) = Inr (map Some (sio_fields g), True)"
    unfolding writeSioSection_def using assms
    by (intro read_section_written) (simp_all add: sio_kinds_def sio_fields_def sio_fits_def i32_ok_def Let_def)
  then show ?thesis
    by (simp add: readSioSection_def put_sio_def) (simp add: sio_fields_def f_u16_def f_u64_def f_i32_def f_bool_def Let_def)
qed

interpretation sio_section: section_codec sio_fits "\<lambda>_. True" writeSioSection readSioSection put_sio
  by unfold_locales (rule sio_read_written)

definition cd_fits :: "'d Game \<Rightarrow> bool" where
  "cd_fits g \<longleftrightarrow> length (cd_stockBytes (gm_cd g)) = 8 \<and> i32_ok (cd_setloc_lba (gm_cd g)) \<and> i32_ok (cd_stock_reading (gm_cd g)) \<and>
     cd_in_stock_read (gm_cd g) = 0 \<and> (\<not> cd_stockValid (gm_cd g) \<longrightarrow> cd_stockBytes (gm_cd g) = replicate 8 0)"

definition put_cd :: "'d Game \<Rightarrow> 'd Game \<Rightarrow> 'd Game" where
  "put_cd g n = n\<lparr>gm_cd := gm_cd g\<rparr>"

lemma cd_read_written:
  assumes "cd_fits g" shows "readCdSection (writeCdSection g) n = (None, put_cd g n)"
proof -
  let ?c = "gm_cd g"
  have r: "read_section ''cd'' kBusLayoutVersion cd_kinds (writeCdSection g) = Inr (map Some (cd_fields ?c), True)"
    unfolding writeCdSection_def using assms
    by (intro read_section_written) (simp_all add: cd_kinds_def cd_fields_def cd_fits_def i32_ok_def)
  have "\<lparr>cd_stockBytes = (if f_bool (map Some (cd_fields ?c)) 1 then f_bytes (replicate 8 0) (map Some (cd_fields ?c)) 0
        else replicate 8 0), cd_stockValid = f_bool (map Some (cd_fields ?c)) 1, cd_setloc_lba = f_i32 (map Some (cd_fields ?c)) 2,
      cd_stock_reading = f_i32 (map Some (cd_fields ?c)) 3, cd_in_stock_read = f_i32 (map Some (cd_fields ?c)) 4\<rparr> = ?c"
    using assms by (intro CdState.equality) (auto simp: cd_fields_def f_bool_def f_bytes_def f_i32_def cd_fits_def)
  then show ?thesis using assms unfolding readCdSection_def r by (simp add: put_cd_def cd_fits_def Let_def)
qed

interpretation cd_section: section_codec cd_fits "\<lambda>_. True" writeCdSection readCdSection put_cd
  by unfold_locales (rule cd_read_written)

section \<open>The BIOS\<close>

definition event_ints :: "EventSlot \<Rightarrow> bool" where
  "event_ints s \<longleftrightarrow> i32_ok (es_open s) \<and> i32_ok (es_enabled s) \<and> i32_ok (es_fired s)"

definition hle_bounded :: "HleState \<Rightarrow> bool" where
  "hle_bounded h \<longleftrightarrow> 0 \<le> hx_irq_n h \<and> hx_irq_n h \<le> int kIrqChain \<and> 0 \<le> hx_nblk h \<and> hx_nblk h \<le> int kBlkSlots"

definition hle_fits :: "'d Game \<Rightarrow> bool" where
  "hle_fits g \<longleftrightarrow> length (hx_ev (gm_hle g)) = kSlotsEv \<and> list_all event_ints (hx_ev (gm_hle g)) \<and>
     length (hx_irq_elem (gm_hle g)) = kIrqChain \<and> length (hx_irq_prio (gm_hle g)) = kIrqChain \<and>
     length (hx_blk (gm_hle g)) = kBlkSlots \<and> list_all (\<lambda>b. i32_ok (hs_used b)) (hx_blk (gm_hle g)) \<and>
     list_all i32_ok [hx_in_irq (gm_hle g), hx_ev_depth (gm_hle g), hx_irq_enabled (gm_hle g), hx_heap_ok (gm_hle g),
       hx_work_ok (gm_hle g), hx_dcb_n (gm_hle g)] \<and> hle_bounded (gm_hle g)"

definition put_hle :: "'d Game \<Rightarrow> 'd Game \<Rightarrow> 'd Game" where
  "put_hle g n = n\<lparr>gm_hle := gm_hle g\<rparr>"

lemma hle_fields_kinds:
  assumes "hle_fits g" shows "list_all2 same_kind hle_kinds (hle_fields (gm_hle g))"
  unfolding hle_kinds_def hle_fields_def
proof (intro list_all2_appendI)
  show "list_all2 same_kind (concat (replicate kSlotsEv [FI32 0, FI32 0, FI32 0, FU32 0, FU32 0, FU32 0, FU32 0]))
      (concat (map event_fields (hx_ev (gm_hle g))))"
    using assms by (intro list_all2_runs) (simp_all add: event_fields_def hle_fits_def)
  show "list_all2 same_kind middle_kinds (hle_middle (gm_hle g))"
    using assms by (simp add: middle_kinds_def hle_middle_def hle_fits_def kIrqChain_def)
  show "list_all2 same_kind (concat (replicate kBlkSlots [FU32 0, FU32 0, FI32 0])) (concat (map heap_fields (hx_blk (gm_hle g))))"
    using assms by (intro list_all2_runs) (simp_all add: heap_fields_def hle_fits_def)
  show "list_all2 same_kind [FU32 0, FI32 0, FBool False, FBool False, FI32 0] (hle_last (gm_hle g))"
    by (simp add: hle_last_def)
qed

lemma hle_fields_fit:
  assumes "hle_fits g" shows "list_all field_fits (hle_fields (gm_hle g))"
proof -
  have "list_all field_fits (concat (map event_fields (hx_ev (gm_hle g))))"
    using assms by (auto simp: hle_fits_def list_all_iff event_fields_def event_ints_def i32_ok_def)
  moreover have "list_all field_fits (concat (map heap_fields (hx_blk (gm_hle g))))"
    using assms by (auto simp: hle_fits_def list_all_iff heap_fields_def i32_ok_def)
  moreover have "list_all field_fits (hle_middle (gm_hle g))" "list_all field_fits (hle_last (gm_hle g))"
    using assms by (auto simp: hle_fits_def hle_middle_def hle_last_def hle_bounded_def i32_ok_def kIrqChain_def kBlkSlots_def)
  ultimately show ?thesis by (simp add: hle_fields_def)
qed

lemma event_read: "event_of (map Some (event_fields s)) = s"
  by (simp add: event_of_def event_fields_def f_i32_def f_u32_def)

lemma heap_slot_read: "heap_slot_of (map Some (heap_fields b)) = b"
  by (simp add: heap_slot_of_def heap_fields_def f_i32_def f_u32_def)

lemma length_runs: "(\<And>e. e \<in> set es \<Longrightarrow> length (f e) = k) \<Longrightarrow> length (concat (map f es)) = k * length es"
  by (induction es) simp_all

lemma hle_of_written:
  assumes "hle_fits g" shows "hle_of (map Some (hle_fields (gm_hle g))) = gm_hle g"
proof -
  let ?h = "gm_hle g"
  let ?ev = "concat (map event_fields (hx_ev ?h))" and ?blk = "concat (map heap_fields (hx_blk ?h))"
  let ?xs = "map Some (hle_fields ?h)"
  have n: "length (hx_ev ?h) = kSlotsEv" "length (hx_blk ?h) = kBlkSlots" "length (hx_irq_elem ?h) = kIrqChain"
    "length (hx_irq_prio ?h) = kIrqChain"
    using assms by (simp_all add: hle_fits_def)
  have le: "length ?ev = 7 * kSlotsEv" using length_runs [of "hx_ev ?h" event_fields 7] n by (simp add: event_fields_def)
  have lb: "length ?blk = 3 * kBlkSlots" using length_runs [of "hx_blk ?h" heap_fields 3] n by (simp add: heap_fields_def)
  have lm: "length (hle_middle ?h) = 13" by (simp add: hle_middle_def)
  have ev: "map event_of (entry_reads 0 7 kSlotsEv ?xs) = hx_ev ?h"
  proof -
    have "entry_reads 0 7 kSlotsEv (map Some ([] @ ?ev @ hle_middle ?h @ ?blk @ hle_last ?h)) = map (\<lambda>e. map Some (event_fields e)) (hx_ev ?h)"
      using n by (intro entry_reads_written) (simp_all add: event_fields_def)
    then show ?thesis by (simp add: hle_fields_def event_read comp_def)
  qed
  have blk: "map heap_slot_of (entry_reads (7 * kSlotsEv + 13) 3 kBlkSlots ?xs) = hx_blk ?h"
  proof -
    have "entry_reads (7 * kSlotsEv + 13) 3 kBlkSlots (map Some ((?ev @ hle_middle ?h) @ ?blk @ hle_last ?h)) =
        map (\<lambda>e. map Some (heap_fields e)) (hx_blk ?h)"
      using n le lm by (intro entry_reads_written) (simp_all add: heap_fields_def)
    then show ?thesis by (simp add: hle_fields_def heap_slot_read comp_def)
  qed
  have mid: "take 13 (drop (7 * kSlotsEv) ?xs) = map Some (hle_middle ?h)"
    using le lm by (simp add: hle_fields_def)
  have tl: "drop (7 * kSlotsEv + 13 + 3 * kBlkSlots) ?xs = map Some (hle_last ?h)"
    using le lm lb by (simp add: hle_fields_def)
  have w: "bytes_words 4 kIrqChain (words_bytes 4 (hx_irq_elem ?h)) = hx_irq_elem ?h"
    "bytes_words 4 kIrqChain (words_bytes 4 (hx_irq_prio ?h)) = hx_irq_prio ?h"
    using words4_written [of "hx_irq_elem ?h"] words4_written [of "hx_irq_prio ?h"] n by simp_all
  show ?thesis unfolding hle_of_def Let_def ev blk mid tl
    by (rule HleState.equality) (simp_all add: hle_middle_def hle_last_def f_defs w)
qed

lemma hle_read_written: "hle_fits g \<Longrightarrow> readHleSection (writeHleSection g) n = (None, put_hle g n)"
proof -
  assume f: "hle_fits g"
  have "read_section ''hle'' kBusLayoutVersion hle_kinds (writeHleSection g) = Inr (map Some (hle_fields (gm_hle g)), True)"
    unfolding writeHleSection_def by (intro read_section_written hle_fields_kinds [OF f] hle_fields_fit [OF f])
  then show ?thesis using f hle_of_written [OF f]
    by (simp add: readHleSection_def put_hle_def hle_fits_def hle_bounded_def Let_def not_less)
qed

interpretation hle_section: section_codec hle_fits "\<lambda>_. True" writeHleSection readHleSection put_hle
  by unfold_locales (rule hle_read_written)

section \<open>The memory card\<close>

lemma set_content_own: "usable m \<Longrightarrow> set_content (content m) m = m"
  by (cases "host_file (mHost m)") (simp_all add: usable_def set_content_def content_def kSize_def kFrames_def kFrameSize_def)

lemma frames_left:
  fixes f :: nat
  assumes "i < k"
  shows "(k - i) * f = f + (k - Suc i) * f" and "k * f = i * f + f + (k - Suc i) * f"
proof -
  obtain d where "k = Suc (i + d)" using assms less_iff_Suc_add by blast
  then show "(k - i) * f = f + (k - Suc i) * f" and "k * f = i * f + f + (k - Suc i) * f" by (simp_all add: algebra_simps)
qed

lemma read_frames_all:
  "usable m \<Longrightarrow> i \<le> k \<Longrightarrow> k \<le> kFrames \<Longrightarrow>
     read_frames [i..<k] m = (Inr (take ((k - i) * kFrameSize) (drop (i * kFrameSize) (content m))), m)"
proof (induction "k - i" arbitrary: i)
  case 0
  then show ?case by simp
next
  case (Suc d)
  then have ik: "i < k" by simp
  have u: "unat (word_of_nat i :: u32) = i" using ik Suc.prems(3) by (simp add: kFrames_def unsigned_of_nat take_bit_nat_eq_self)
  have fit: "i * kFrameSize + kFrameSize \<le> length (content m)"
    using Suc.prems ik by (simp add: usable_def kSize_def kFrames_def kFrameSize_def)
  have r: "readFrame (word_of_nat i) m = ((True, take kFrameSize (drop (i * kFrameSize) (content m))), m)"
    using Suc.prems ik u fit by (simp add: readFrame_def usable_def Let_def)
  have "read_frames [Suc i..<k] m = (Inr (take ((k - Suc i) * kFrameSize) (drop (Suc i * kFrameSize) (content m))), m)"
    using Suc.hyps(1) [of "Suc i"] Suc.hyps(2) Suc.prems ik by simp
  moreover have "take ((k - i) * kFrameSize) (drop (i * kFrameSize) (content m)) =
      take kFrameSize (drop (i * kFrameSize) (content m)) @ take ((k - Suc i) * kFrameSize) (drop (Suc i * kFrameSize) (content m))"
  proof -
    show ?thesis unfolding frames_left(1) [OF ik] take_add by (simp add: add.commute)
  qed
  ultimately show ?case using ik r by (simp add: upt_conv_Cons Let_def)
qed

lemma put_at_inside: "p \<le> length f \<Longrightarrow> put_at p bs f = take p f @ bs @ drop (p + length bs) f"
  by (simp add: put_at_def)

lemma write_frames_all:
  "usable m \<Longrightarrow> i \<le> k \<Longrightarrow> k \<le> kFrames \<Longrightarrow> length img = kSize \<Longrightarrow>
     write_frames [i..<k] img m =
       (None, set_content (take (i * kFrameSize) (content m) @ take ((k - i) * kFrameSize) (drop (i * kFrameSize) img) @
          drop (k * kFrameSize) (content m)) m)"
proof (induction "k - i" arbitrary: i m)
  case 0
  then show ?case by (simp add: set_content_own)
next
  case (Suc d)
  then have ik: "i < k" by simp
  let ?f = kFrameSize
  let ?bs = "take ?f (drop (i * ?f) img)"
  have u: "unat (word_of_nat i :: u32) = i" using ik Suc.prems(3) by (simp add: kFrames_def unsigned_of_nat take_bit_nat_eq_self)
  have bs: "length ?bs = ?f" using Suc.prems ik by (simp add: kSize_def kFrames_def kFrameSize_def)
  have fit: "i * ?f + ?f \<le> length (content m)"
    using Suc.prems ik by (simp add: usable_def kSize_def kFrames_def kFrameSize_def)
  let ?c = "take (i * ?f) (content m) @ ?bs @ drop (i * ?f + ?f) (content m)"
  have w: "writeFrame (word_of_nat i) ?bs m = (True, set_content ?c m)"
    using Suc.prems ik u fit bs by (simp add: writeFrame_def usable_def fwrite_at_def put_at_inside Let_def)
  have us: "usable (set_content ?c m)" using Suc.prems(1) fit bs by (simp add: usable_def)
  have ih: "write_frames [Suc i..<k] img (set_content ?c m) =
      (None, set_content (take (Suc i * ?f) ?c @ take ((k - Suc i) * ?f) (drop (Suc i * ?f) img) @ drop (k * ?f) ?c) (set_content ?c m))"
    using Suc.hyps(1) [of "Suc i" "set_content ?c m"] Suc.hyps(2) Suc.prems ik us by simp
  have front: "take (Suc i * ?f) ?c = take (i * ?f) (content m) @ ?bs" using fit bs by (simp add: add.commute)
  have rear: "drop (k * ?f) ?c = drop (k * ?f) (content m)"
  proof -
    show ?thesis unfolding frames_left(2) [OF ik] using fit bs by (simp add: ac_simps)
  qed
  have mid: "take ((k - i) * ?f) (drop (i * ?f) img) = ?bs @ take ((k - Suc i) * ?f) (drop (Suc i * ?f) img)"
  proof -
    show ?thesis unfolding frames_left(1) [OF ik] take_add by (simp add: add.commute)
  qed
  have "write_frames [i..<k] img m = write_frames [Suc i..<k] img (set_content ?c m)"
    unfolding upt_conv_Cons [OF ik] by (simp only: write_frames.simps w Let_def split_def fst_conv snd_conv not_True_eq_False if_False)
  also have "\<dots> = (None, set_content (take (i * ?f) (content m) @ (?bs @ take ((k - Suc i) * ?f) (drop (Suc i * ?f) img)) @
      drop (k * ?f) (content m)) m)"
    unfolding ih front rear by (simp add: set_content_def)
  finally show ?case unfolding mid .
qed

lemma fds_written:
  "i \<le> k \<Longrightarrow> length E = k \<Longrightarrow> length (mFd m) = k \<Longrightarrow> k \<le> kFdMax \<Longrightarrow>
     ahead_of (concat (map (\<lambda>fd. fd_fields (Some (E ! fd))) [i..<k]) @ fs) rest r \<Longrightarrow>
     \<exists>r'. read_fds [i..<k] r m = (True, r', m\<lparr>mFd := take i (mFd m) @ drop i E\<rparr>) \<and> ahead_of fs rest r'"
proof (induction "k - i" arbitrary: i m r)
  case 0
  then show ?case by simp
next
  case (Suc d)
  then have ik: "i < k" by simp
  let ?e = "E ! i"
  let ?tail = "concat (map (\<lambda>fd. fd_fields (Some (E ! fd))) [Suc i..<k]) @ fs"
  have "ahead_of (FBool (fd_used ?e) # FI32 (sint (fd_block ?e)) # FU32 (fd_pos ?e) # FU32 (fd_size ?e) # ?tail) rest r"
    using Suc.prems(5) ik by (simp add: upt_conv_Cons fd_fields_def [of "Some (E ! i)"])
  then obtain r1 where 1: "r_boolean r = (fd_used ?e, r1)"
    "ahead_of (FI32 (sint (fd_block ?e)) # FU32 (fd_pos ?e) # FU32 (fd_size ?e) # ?tail) rest r1" using ahead_bool by blast
  obtain r2 where 2: "r_i32 r1 = (sint (fd_block ?e), r2)" "ahead_of (FU32 (fd_pos ?e) # FU32 (fd_size ?e) # ?tail) rest r2"
    using ahead_i32 [OF 1(2) sint_u32_ok] by blast
  obtain r3 where 3: "r_u32 r2 = (fd_pos ?e, r3)" "ahead_of (FU32 (fd_size ?e) # ?tail) rest r3" using ahead_u32 [OF 2(2)] by blast
  obtain r4 where 4: "r_u32 r3 = (fd_size ?e, r4)" "ahead_of ?tail rest r4" using ahead_u32 [OF 3(2)] by blast
  let ?m = "restoreDescriptor (int i) ?e m"
  have m: "?m = m\<lparr>mFd := (mFd m)[i := ?e]\<rparr>" using ik Suc.prems(4) by (simp add: restoreDescriptor_def)
  have d: "d = k - Suc i" "Suc i \<le> k" using Suc.hyps(2) ik by simp_all
  have len: "length (mFd ?m) = k" using Suc.prems(3) by (simp add: m)
  obtain r5 where 5: "read_fds [Suc i..<k] r4 ?m = (True, r5, ?m\<lparr>mFd := take (Suc i) (mFd ?m) @ drop (Suc i) E\<rparr>)" "ahead_of fs rest r5"
    using Suc.hyps(1) [OF d(1) d(2) Suc.prems(2) len Suc.prems(4) 4(2)] by blast
  have "take (Suc i) (mFd ?m) @ drop (Suc i) E = take i (mFd m) @ drop i E"
    using ik Suc.prems(2,3) by (simp add: m take_Suc_conv_app_nth Cons_nth_drop_Suc)
  moreover have "restoreDescriptor (int i) \<lparr>fd_used = fd_used ?e, fd_block = fd_block ?e, fd_pos = fd_pos ?e,
      fd_size = fd_size ?e\<rparr> m = m\<lparr>mFd := (mFd m)[i := ?e]\<rparr>" using m by (cases "E ! i") simp
  ultimately show ?case using ik 1(1) 2(1) 3(1) 4(1) 5 ahead_ok [OF 4(2)] by (simp add: upt_conv_Cons m)
qed

definition card_fits :: "'d Game \<Rightarrow> bool" where
  "card_fits g \<longleftrightarrow> usable (gm_card g) \<and> length (mFd (gm_card g)) = kFdMax \<and> length (mScanPat (gm_card g)) < 64 \<and>
     0 \<notin> set (mScanPat (gm_card g)) \<and> mScanBlk (gm_card g) < 2 ^ 32"

text \<open>A card that takes an image: open, writable, and not longer than a card, since only the card's own frames are written.\<close>

definition card_takes :: "'d Game \<Rightarrow> bool" where
  "card_takes n \<longleftrightarrow> usable (card_init (gm_card n)) \<and> length (content (card_init (gm_card n))) = kSize \<and>
     length (mFd (card_init (gm_card n))) = kFdMax"

definition put_card :: "'d Game \<Rightarrow> 'd Game \<Rightarrow> 'd Game" where
  "put_card g n =
     n\<lparr>gm_card := (set_content (take kSize (content (gm_card g))) (card_init (gm_card n)))
        \<lparr>mFd := mFd (gm_card g), mScanPat := mScanPat (gm_card g), mScanBlk := mScanBlk (gm_card g)\<rparr>\<rparr>"

definition card_bytes :: "'d Game \<Rightarrow> u8 list" where
  "card_bytes g = write_section kBusLayoutVersion (card_fields (take kSize (content (gm_card g))) (gm_card g))"

lemma card_written: "card_fits g \<Longrightarrow> writeCardSection g = (Inr (card_bytes g), g)"
proof -
  assume f: "card_fits g"
  then have u: "usable (gm_card g)" "card_init (gm_card g) = gm_card g" by (simp_all add: card_fits_def usable_def card_init_def)
  have "read_frames [0..<kFrames] (gm_card g) = (Inr (take kSize (content (gm_card g))), gm_card g)"
    using read_frames_all [OF u(1), of 0 kFrames] by (simp add: kSize_def mult.commute)
  then show ?thesis using u by (simp add: writeCardSection_def card_bytes_def usable_def Let_def)
qed

lemma cursor_written:
  assumes "length pat < 64" "0 \<notin> set pat" "b < 2 ^ 32"
    and "ahead_of [FU32 (of_nat (length pat) + 1), FBytes (pat @ [0]), FU32 (of_nat b)] rest r"
  shows "read_cursor r m = (None, m\<lparr>mScanPat := pat, mScanBlk := b\<rparr>)"
proof -
  have len: "unat (of_nat (length pat) + 1 :: u32) = length (pat @ [0])"
  proof -
    have "of_nat (length pat) + 1 = (of_nat (length pat + 1) :: u32)" by simp
    moreover have "length pat + 1 < 2 ^ 32" using assms(1) by simp
    ultimately show ?thesis by (simp only: unsigned_of_nat) (simp add: take_bit_nat_eq_self)
  qed
  have small: "of_nat (length pat) + 1 \<noteq> (0 :: u32)" "\<not> 64 < (of_nat (length pat) + 1 :: u32)"
    using len assms(1) by (auto simp: word_less_nat_alt simp del: of_nat_Suc)
  obtain r1 where 1: "r_u32 r = (of_nat (length pat) + 1, r1)" "ahead_of [FBytes (pat @ [0]), FU32 (of_nat b)] rest r1"
    using ahead_u32 [OF assms(4)] by blast
  obtain r2 where 2: "r_bytes (length (pat @ [0])) r1 = (Some (pat @ [0]), r2)" "ahead_of [FU32 (of_nat b)] rest r2"
    using ahead_bytes [OF 1(2)] by blast
  obtain r3 where 3: "r_u32 r2 = (of_nat b, r3)" "ahead_of [] rest r3" using ahead_u32 [OF 2(2)] by blast
  have b: "unat (of_nat b :: u32) = b" using assms(3) by (simp add: unsigned_of_nat take_bit_nat_eq_self)
  have t: "takeWhile (\<lambda>b. b \<noteq> 0) (pat @ [0]) = pat" using assms(2) by (induction pat) auto
  show ?thesis
    unfolding read_cursor_def 1(1) Let_def split_def fst_conv snd_conv len 2(1)
    using ahead_ok [OF 1(2)] ahead_ok [OF 3(2)] small 3(1) b t assms(1) by (simp add: restoreScanCursor_def)
qed

lemma card_read_written:
  assumes f: "card_fits g" and t: "card_takes n"
  shows "readCardSection (card_bytes g) n = (None, put_card g n)"
proof -
  let ?m = "gm_card g" and ?into = "card_init (gm_card n)" and ?img = "take kSize (content (gm_card g))"
  let ?cursor = "[FU32 (of_nat (length (mScanPat ?m)) + 1), FBytes (mScanPat ?m @ [0]), FU32 (of_nat (mScanBlk ?m))]"
  let ?table = "concat (map (\<lambda>fd. fd_fields (Some (mFd ?m ! fd))) [0..<kFdMax]) @ ?cursor"
  have fields: "card_fields ?img ?m = FBlob ?img # FU32 (of_nat kFdMax) # ?table"
  proof -
    have "map (\<lambda>fd. fd_fields (descriptorAt (int fd) ?m)) [0..<kFdMax] = map (\<lambda>fd. fd_fields (Some (mFd ?m ! fd))) [0..<kFdMax]"
      by (rule map_cong) (simp_all add: descriptorAt_def)
    then show ?thesis unfolding card_fields_def by (simp only: append_Cons append_Nil)
  qed
  have img: "length ?img = kSize" using f by (simp add: card_fits_def usable_def)
  obtain r where r: "expectLayout ''card'' kBusLayoutVersion (reader_of (card_bytes g)) = (None, r)" "ahead_of (card_fields ?img ?m) [] r"
    using section_ahead unfolding card_bytes_def by blast
  obtain r1 where r1: "r_blob r = (Some ?img, r1)" "ahead_of (FU32 (of_nat kFdMax) # ?table) [] r1"
  proof -
    have "length ?img < 2 ^ 32" unfolding img by (simp add: kSize_def kFrames_def kFrameSize_def)
    then show ?thesis using ahead_blob r(2) that unfolding fields by blast
  qed
  obtain r2 where r2: "r_u32 r1 = (of_nat kFdMax, r2)" "ahead_of ?table [] r2" using ahead_u32 [OF r1(2)] by blast
  have u: "usable ?into" "mCard ?into" "length (content ?into) = kSize" "length (mFd ?into) = kFdMax"
    using t by (simp_all add: card_takes_def usable_def)
  let ?after = "set_content ?img ?into"
  have w: "write_frames [0..<kFrames] ?img ?into = (None, ?after)"
    using write_frames_all [OF u(1), of 0 kFrames ?img] img u(3) by (simp add: kSize_def mult.commute)
  have fd: "length (mFd ?m) = kFdMax" "length (mFd ?after) = kFdMax" using f u(4) by (simp_all add: card_fits_def set_content_def)
  obtain r3 where r3: "read_fds [0..<kFdMax] r2 ?after = (True, r3, ?after\<lparr>mFd := take 0 (mFd ?after) @ drop 0 (mFd ?m)\<rparr>)" "ahead_of ?cursor [] r3"
    using fds_written [of 0 kFdMax "mFd ?m" ?after ?cursor "[]" r2] fd r2(2) by blast
  have c: "read_cursor r3 (?after\<lparr>mFd := mFd ?m\<rparr>) =
      (None, ?after\<lparr>mFd := mFd ?m, mScanPat := mScanPat ?m, mScanBlk := mScanBlk ?m\<rparr>)"
    by (rule cursor_written [OF _ _ _ r3(2)]) (use f in \<open>simp_all add: card_fits_def\<close>)
  show ?thesis unfolding readCardSection_def r(1)
    using u(2) img r1(1) r2(1) ahead_ok [OF r2(2)] w r3(1) c by (simp add: put_card_def Let_def)
qed

interpretation card_section: section_codec card_fits card_takes card_bytes readCardSection put_card
  by unfold_locales (rule card_read_written)

end
