(* ===== verification/Machine_State.thy ===== *)
theory Machine_State
  imports Section_Laws
begin

text \<open>
  The whole machine as one image (\<open>state/machine_state.h\<close>, \<open>state/machine_state.cpp\<close>): \<open>kSections\<close> in order, \<open>capture\<close>,
  and \<open>restore\<close>, which reads the sections back from the last to the first after the title's own check. A title's
  \<open>NativeStatePort\<close> is a record of its member functions.
\<close>

section \<open>The title's port\<close>

definition kTitleEnvelopeVersion :: u8 where "kTitleEnvelopeVersion = 1"

record 'd NativeStatePort =
  sp_version :: u32
  sp_save :: "'d \<Rightarrow> bool \<times> u8 list"
  sp_load :: "BlobReader \<Rightarrow> 'd \<Rightarrow> bool \<times> 'd"
  sp_restored :: "'d Game \<Rightarrow> 'd Game"

record StateOutcome =
  so_sections :: "string list"
  so_bytes :: nat
  so_fields :: u32
  so_invalidationRanges :: u32
  so_loaded :: bool

datatype state_error =
  BadFile string
| TitleUnexpected
| TitleMissing u32
| SectionMissing string nat
| TitleEnvelope u8
| TitleVersion u32 u32
| TitleRefusedSave
| TitleRefusedLoad
| NotAppended string
| Refused section_error

section \<open>The sections\<close>

record 'd SectionCodec =
  sc_name :: string
  sc_write :: "'d Game \<Rightarrow> (section_error + u8 list) \<times> 'd Game"
  sc_read :: "u8 list \<Rightarrow> 'd Game \<Rightarrow> section_error option \<times> 'd Game"

text \<open>A writer that cannot refuse and leaves the machine alone.\<close>

definition plain :: "('d Game \<Rightarrow> u8 list) \<Rightarrow> 'd Game \<Rightarrow> (section_error + u8 list) \<times> 'd Game" where
  "plain w g = (Inr (w g), g)"

definition kSections :: "'d state_env \<Rightarrow> 'd SectionCodec list" where
  "kSections env =
     [\<lparr>sc_name = ''cpu'', sc_write = plain writeCpuSection, sc_read = readCpuSection\<rparr>,
      \<lparr>sc_name = ''ram'', sc_write = plain writeRamSection, sc_read = readRamSection\<rparr>,
      \<lparr>sc_name = ''images'', sc_write = plain writeImagesSection, sc_read = readImagesSection\<rparr>,
      \<lparr>sc_name = ''scratchpad'', sc_write = plain writeScratchpadSection, sc_read = readScratchpadSection\<rparr>,
      \<lparr>sc_name = ''gte'', sc_write = plain writeGteSection, sc_read = readGteSection env\<rparr>,
      \<lparr>sc_name = ''gpu'', sc_write = plain (writeGpuSection env), sc_read = readGpuSection env\<rparr>,
      \<lparr>sc_name = ''beetle.spu'', sc_write = (\<lambda>g. (writeBeetle env BeetleSpu g, g)), sc_read = readBeetle env BeetleSpu\<rparr>,
      \<lparr>sc_name = ''beetle.mdec'', sc_write = (\<lambda>g. (writeBeetle env BeetleMdec g, g)), sc_read = readBeetle env BeetleMdec\<rparr>,
      \<lparr>sc_name = ''cdc'', sc_write = plain writeCdcSection, sc_read = readCdcSection\<rparr>,
      \<lparr>sc_name = ''timing'', sc_write = plain writeTimingSection, sc_read = readTimingSection\<rparr>,
      \<lparr>sc_name = ''dma'', sc_write = plain writeDmaSection, sc_read = readDmaSection\<rparr>,
      \<lparr>sc_name = ''hle'', sc_write = plain writeHleSection, sc_read = readHleSection\<rparr>,
      \<lparr>sc_name = ''sio'', sc_write = plain writeSioSection, sc_read = readSioSection\<rparr>,
      \<lparr>sc_name = ''card'', sc_write = writeCardSection, sc_read = readCardSection\<rparr>,
      \<lparr>sc_name = ''cd'', sc_write = plain writeCdSection, sc_read = readCdSection\<rparr>]"

text \<open>\<open>sectionsMatchRequired\<close>, the static assertion.\<close>

definition sectionsMatchRequired :: "'d state_env \<Rightarrow> bool" where
  "sectionsMatchRequired env \<longleftrightarrow> length (kSections env) = length kRequired \<and>
     list_all (\<lambda>i. sc_name (kSections env ! i) = kRequired ! i) [0..<length kRequired]"

section \<open>Capture\<close>

fun capture_sections :: "'d SectionCodec list \<Rightarrow> StateImage \<Rightarrow> 'd Game \<Rightarrow> (state_error + StateImage) \<times> 'd Game" where
  "capture_sections [] img g = (Inr img, g)"
| "capture_sections (c # cs) img g =
     (case sc_write c g of
        (Inl e, g1) \<Rightarrow> (Inl (Refused e), g1)
      | (Inr bs, g1) \<Rightarrow>
          let (ok, img1) = image_add (sc_name c) bs img
          in if \<not> ok then (Inl (NotAppended (sc_name c)), g1) else capture_sections cs img1 g1)"

definition title_blob :: "'d NativeStatePort \<Rightarrow> u8 list \<Rightarrow> u8 list" where
  "title_blob port body = w_u32 (sp_version port) (w_u8 kTitleEnvelopeVersion []) @ body"

definition capture_state :: "'d state_env \<Rightarrow> 'd NativeStatePort option \<Rightarrow> 'd Game \<Rightarrow> (state_error + u8 list) \<times> 'd Game" where
  "capture_state env titlePort g =
     (case capture_sections (kSections env) empty_image g of
        (Inl e, g1) \<Rightarrow> (Inl e, g1)
      | (Inr img, g1) \<Rightarrow>
          (case titlePort of
             None \<Rightarrow> (Inr (si_bytes img), g1)
           | Some port \<Rightarrow>
               let (ok, body) = sp_save port (gm_title g1)
               in if \<not> ok then (Inl TitleRefusedSave, g1)
                  else let (added, img1) = image_add kTitle (title_blob port body) img
                       in if \<not> added then (Inl (NotAppended kTitle), g1) else (Inr (si_bytes img1), g1)))"

section \<open>Restore\<close>

fun find_payloads :: "'d SectionCodec list \<Rightarrow> StateFile \<Rightarrow> string + u8 list list" where
  "find_payloads [] file = Inr []"
| "find_payloads (c # cs) file =
     (case file_section file (sc_name c) of
        None \<Rightarrow> Inl (sc_name c)
      | Some p \<Rightarrow> case find_payloads cs file of Inl n \<Rightarrow> Inl n | Inr ps \<Rightarrow> Inr (p # ps))"

text \<open>The title's envelope and its own load, on the machine's native state.\<close>

definition load_title :: "'d NativeStatePort \<Rightarrow> u8 list \<Rightarrow> 'd Game \<Rightarrow> state_error option \<times> 'd Game" where
  "load_title port payload g =
     (let (envelope, r1) = r_u8 (reader_of payload); (version, r2) = r_u32 r1
      in if \<not> br_ok r2 \<or> envelope \<noteq> kTitleEnvelopeVersion then (Some (TitleEnvelope envelope), g)
         else if version \<noteq> sp_version port then (Some (TitleVersion version (sp_version port)), g)
         else let (ok, d) = sp_load port r2 (gm_title g)
              in (if ok then None else Some TitleRefusedLoad, g\<lparr>gm_title := d\<rparr>))"

fun read_sections :: "('d SectionCodec \<times> u8 list) list \<Rightarrow> 'd Game \<Rightarrow> section_error option \<times> 'd Game" where
  "read_sections [] g = (None, g)"
| "read_sections ((c, bs) # cs) g =
     (case sc_read c bs g of (Some e, g1) \<Rightarrow> (Some e, g1) | (None, g1) \<Rightarrow> read_sections cs g1)"

definition restore_state ::
  "'d state_env \<Rightarrow> 'd NativeStatePort option \<Rightarrow> u8 list \<Rightarrow> 'd Game \<Rightarrow> (state_error + StateOutcome) \<times> 'd Game" where
  "restore_state env titlePort bytes g =
     (case state_open bytes of
        Inl reason \<Rightarrow> (Inl (BadFile reason), g)
      | Inr file \<Rightarrow>
          if titlePort = None \<and> titlePayload file \<noteq> None then (Inl TitleUnexpected, g)
          else case (titlePort, titlePayload file) of
            (Some port, None) \<Rightarrow> (Inl (TitleMissing (sp_version port)), g)
          | (_, title) \<Rightarrow>
              case find_payloads (kSections env) file of
                Inl name \<Rightarrow> (Inl (SectionMissing name (length (sf_names file))), g)
              | Inr payloads \<Rightarrow>
                  case (case (titlePort, title) of (Some port, Some payload) \<Rightarrow> load_title port payload g | _ \<Rightarrow> (None, g)) of
                    (Some e, g1) \<Rightarrow> (Inl e, g1)
                  | (None, g1) \<Rightarrow>
                      case read_sections (rev (zip (kSections env) payloads)) g1 of
                        (Some e, g2) \<Rightarrow> (Inl (Refused e), g2)
                      | (None, g2) \<Rightarrow>
                          (Inr \<lparr>so_sections = sf_names file, so_bytes = length bytes, so_fields = vblank (gm_timing g),
                                so_invalidationRanges = 2, so_loaded = True\<rparr>,
                           case titlePort of None \<Rightarrow> g2 | Some port \<Rightarrow> sp_restored port g2))"

lemma sections_match: "sectionsMatchRequired env"
  by (simp add: sectionsMatchRequired_def kSections_def kRequired_def upt_conv_Cons nth_Cons')

lemma section_names: "map sc_name (kSections env) = kRequired"
  by (simp add: kSections_def kRequired_def)

end
