(* ===== verification/Machine_Laws.thy ===== *)
theory Machine_Laws
  imports Machine_State
begin

text \<open>
  What \<open>capture\<close> and \<open>restore\<close> of the whole machine give: a captured machine is resumed field by field, every refusal
  before the first section leaves the machine alone, an accepted file leaves control state within its bounds, and what a
  section refused after others were read leaves behind.
\<close>

section \<open>The sections a machine writes\<close>

definition machine_sections :: "'d state_env \<Rightarrow> 'd Game \<Rightarrow> (string \<times> u8 list) list" where
  "machine_sections env g =
     [(''cpu'', writeCpuSection g), (''ram'', writeRamSection g), (''images'', writeImagesSection g),
      (''scratchpad'', writeScratchpadSection g), (''gte'', writeGteSection g), (''gpu'', writeGpuSection env g),
      (''beetle.spu'', beetle_bytes env BeetleSpu g), (''beetle.mdec'', beetle_bytes env BeetleMdec g),
      (''cdc'', writeCdcSection g), (''timing'', writeTimingSection g), (''dma'', writeDmaSection g),
      (''hle'', writeHleSection g), (''sio'', writeSioSection g), (''card'', card_bytes g), (''cd'', writeCdSection g)]"

definition title_payload :: "'d NativeStatePort \<Rightarrow> 'd Game \<Rightarrow> u8 list" where
  "title_payload port g = title_blob port (snd (sp_save port (gm_title g)))"

definition state_sections :: "'d state_env \<Rightarrow> 'd NativeStatePort option \<Rightarrow> 'd Game \<Rightarrow> (string \<times> u8 list) list" where
  "state_sections env titlePort g =
     machine_sections env g @ (case titlePort of None \<Rightarrow> [] | Some port \<Rightarrow> [(kTitle, title_payload port g)])"

definition machine_fits :: "'d Game \<Rightarrow> bool" where
  "machine_fits g \<longleftrightarrow> cpu_fits g \<and> length (gm_ram g) = kRamBytes \<and> length (gm_scratch g) = kScratchpadSize \<and>
     length (ge_REG (gm_gte g)) = 64 \<and> images_fit g \<and> cdc_fits g \<and> timing_fits g \<and> dma_fits g \<and> hle_fits g \<and> sio_fits g \<and>
     card_fits g \<and> cd_fits g"

text \<open>A title accepts what it saved.\<close>

definition port_accepts :: "'d NativeStatePort \<Rightarrow> bool" where
  "port_accepts port \<longleftrightarrow> (\<forall>d. fst (sp_save port d) \<and>
     (\<forall>r d'. br_ok r \<and> drop (br_offset r) (br_bytes r) = snd (sp_save port d) \<longrightarrow> fst (sp_load port r d')))"

definition title_reader :: "'d NativeStatePort \<Rightarrow> 'd Game \<Rightarrow> BlobReader" where
  "title_reader port g = \<lparr>br_bytes = title_payload port g, br_offset = 5, br_ok = True\<rparr>"

text \<open>The machine once every section but the processor's is back, and once that is.\<close>

definition put_devices :: "'d state_env \<Rightarrow> 'd Game \<Rightarrow> 'd Game \<Rightarrow> 'd Game" where
  "put_devices env g n =
     put_ram g (put_images g (put_scratchpad g (put_gte env g (put_gpu env g (put_beetle env BeetleSpu g
       (put_beetle env BeetleMdec g (put_cdc g (put_timing g (put_dma g (put_hle g (put_sio g (put_card g (put_cd g n)))))))))))))"

definition put_machine :: "'d state_env \<Rightarrow> 'd Game \<Rightarrow> 'd Game \<Rightarrow> 'd Game" where
  "put_machine env g n = put_cpu g (put_devices env g n)"

definition resumed :: "'d state_env \<Rightarrow> 'd NativeStatePort option \<Rightarrow> 'd Game \<Rightarrow> 'd Game \<Rightarrow> 'd Game" where
  "resumed env titlePort g n =
     (case titlePort of
        None \<Rightarrow> put_machine env g n
      | Some port \<Rightarrow> sp_restored port (put_machine env g
          (n\<lparr>gm_title := snd (sp_load port (title_reader port g) (gm_title n))\<rparr>)))"

section \<open>Capture\<close>

lemma captured:
  assumes "list_all2 (\<lambda>c s. sc_name c = fst s \<and> sc_write c g = (Inr (snd s), g)) cs secs"
    and "list_all sec_ok (pre @ secs)" and "distinct (map fst (pre @ secs))"
    and "si_names img = map fst pre" and "pre \<noteq> [] \<Longrightarrow> si_bytes img = image_bytes pre"
  shows "\<exists>img'. capture_sections cs img g = (Inr img', g) \<and> si_names img' = map fst (pre @ secs) \<and>
    (pre @ secs \<noteq> [] \<longrightarrow> si_bytes img' = image_bytes (pre @ secs))"
  using assms
proof (induction cs secs arbitrary: pre img rule: list_all2_induct)
  case (Cons c cs s secs)
  have a: "image_add (sc_name c) (snd s) img =
      (True, \<lparr>si_bytes = image_bytes (pre @ [s]), si_names = map fst (pre @ [s])\<rparr>)"
    using image_add_bytes [of img pre s] Cons.prems Cons.hyps(1) by simp
  show ?case
    using Cons.IH [of "pre @ [s]" "\<lparr>si_bytes = image_bytes (pre @ [s]), si_names = map fst (pre @ [s])\<rparr>"] Cons.prems Cons.hyps(1) a
    by simp
qed simp

lemma machine_names: "map fst (machine_sections env g) = kRequired"
  by (simp add: machine_sections_def kRequired_def)

lemma state_names: "distinct (map fst (state_sections env titlePort g))"
  "list_all (\<lambda>s. isFrameworkSectionName (fst s)) (state_sections env titlePort g)"
  by (cases titlePort; simp add: state_sections_def machine_sections_def kTitle_def isFrameworkSectionName_def kRequired_def)+

lemma payload_within: "s \<in> set secs \<Longrightarrow> length (snd s) \<le> length (image_bytes secs)"
proof -
  assume "s \<in> set secs"
  then have "length (sec_bytes s) \<le> length (concat (map sec_bytes secs))"
    by (induction secs) auto
  then show ?thesis by (simp add: image_bytes_def sec_bytes_def)
qed

lemma state_sections_ok:
  assumes "length (image_bytes (state_sections env titlePort g)) < 2 ^ 32"
  shows "list_all sec_ok (state_sections env titlePort g)"
  using state_names(2) [of env titlePort g] payload_within [of _ "state_sections env titlePort g"] assms
  by (fastforce simp: list_all_iff sec_ok_def)

lemma writers_written:
  assumes "machine_fits g" and "devices_accept env"
  shows "list_all2 (\<lambda>c s. sc_name c = fst s \<and> sc_write c g = (Inr (snd s), g)) (kSections env) (machine_sections env g)"
  using assms card_written [of g] beetle_written [of env _ g]
  by (simp add: kSections_def machine_sections_def plain_def machine_fits_def)

lemma capture_written:
  assumes "machine_fits g" and "devices_accept env" and "\<And>port. titlePort = Some port \<Longrightarrow> port_accepts port"
    and "length (image_bytes (state_sections env titlePort g)) < 2 ^ 32"
  shows "capture_state env titlePort g = (Inr (image_bytes (state_sections env titlePort g)), g)"
proof -
  let ?secs = "machine_sections env g"
  have ok: "list_all sec_ok (state_sections env titlePort g)" using state_sections_ok [OF assms(4)] .
  then have mok: "list_all sec_ok ?secs" by (simp add: state_sections_def)
  have md: "distinct (map fst ?secs)" using state_names(1) [of env titlePort g] by (simp add: state_sections_def)
  have ne: "?secs \<noteq> []" by (simp add: machine_sections_def)
  obtain img where img: "capture_sections (kSections env) empty_image g = (Inr img, g)" "si_names img = map fst ?secs"
    "si_bytes img = image_bytes ?secs"
    using captured [OF writers_written [OF assms(1,2)], of "[]" empty_image] mok md ne by (auto simp: empty_image_def)
  show ?thesis
  proof (cases titlePort)
    case None
    then show ?thesis using img by (simp add: capture_state_def state_sections_def)
  next
    case (Some port)
    have "fst (sp_save port (gm_title g))" using assms(3) [OF Some] by (simp add: port_accepts_def)
    moreover have "image_add kTitle (title_payload port g) img = (True, \<lparr>si_bytes = image_bytes (?secs @ [(kTitle, title_payload port g)]),
        si_names = map fst (?secs @ [(kTitle, title_payload port g)])\<rparr>)"
      using image_add_bytes [of img ?secs "(kTitle, title_payload port g)"] img ok state_names(1) [of env titlePort g] Some
      by (simp add: state_sections_def)
    ultimately show ?thesis
      using img(1) Some by (simp add: capture_state_def state_sections_def title_payload_def split_def Let_def)
  qed
qed

section \<open>Restore\<close>

lemma payloads_found:
  "list_all2 (\<lambda>c s. sc_name c = fst s \<and> file_section f (fst s) = Some (snd s)) cs secs \<Longrightarrow> find_payloads cs f = Inr (map snd secs)"
  by (induction rule: list_all2_induct) simp_all

lemma title_opened:
  "load_title port (title_payload port g) n =
     (if fst (sp_load port (title_reader port g) (gm_title n)) then None else Some TitleRefusedLoad,
      n\<lparr>gm_title := snd (sp_load port (title_reader port g) (gm_title n))\<rparr>)"
proof -
  let ?body = "snd (sp_save port (gm_title g))"
  have p: "title_payload port g = kTitleEnvelopeVersion # bytes_of 4 (sp_version port) @ ?body"
    by (simp add: title_payload_def title_blob_def codec_simps w_u8_def)
  let ?r1 = "\<lparr>br_bytes = title_payload port g, br_offset = 1, br_ok = True\<rparr>"
  have r1: "r_u8 (reader_of (title_payload port g)) = (kTitleEnvelopeVersion, ?r1)"
    by (simp add: r_u8_def reader_of_def p)
  have "drop (br_offset ?r1) (br_bytes ?r1) = w_u32 (sp_version port) [] @ ?body" by (simp add: p codec_simps)
  then have r2: "r_u32 ?r1 = (sp_version port, title_reader port g)"
    using u32c.dec_enc [OF TrueI, of ?r1 "sp_version port" ?body] by (simp add: codec_simps Blob_Codec.advance_def title_reader_def)
  show ?thesis
    unfolding load_title_def r1 Let_def split_def fst_conv snd_conv r2 by (simp add: title_reader_def)
qed

lemma title_accepted: "port_accepts port \<Longrightarrow> fst (sp_load port (title_reader port g) d)"
  by (simp add: port_accepts_def title_reader_def title_payload_def title_blob_def codec_simps w_u8_def)

lemma title_loaded:
  "port_accepts port \<Longrightarrow>
    load_title port (title_payload port g) n = (None, n\<lparr>gm_title := snd (sp_load port (title_reader port g) (gm_title n))\<rparr>)"
  by (simp add: title_opened title_accepted)

lemma card_takes_cd: "card_takes (put_cd g n) = card_takes n"
  by (simp add: card_takes_def put_cd_def)

lemma devices_read:
  assumes "machine_fits g" and "devices_accept env" and "card_takes n"
  shows "read_sections (rev (zip (kSections env) (map snd ((''cpu'', bs) # tl (machine_sections env g))))) n =
    readCpuSection bs (put_devices env g n)"
proof -
  have t: "card_takes (put_cd g n)" using assms(3) by (simp add: card_takes_cd)
  note f = assms(1) [unfolded machine_fits_def]
  show ?thesis using f
    by (simp add: kSections_def machine_sections_def put_devices_def t cd_section.read_written card_section.read_written
      sio_section.read_written hle_section.read_written dma_section.read_written timing_section.read_written
      cdc_section.read_written beetle_section.read_written [OF assms(2)] gpu_section.read_written [OF assms(2)]
      gte_section.read_written scratchpad_section.read_written images_section.read_written ram_section.read_written
      split: prod.split option.split)
qed

lemma sections_read:
  assumes "machine_fits g" and "devices_accept env" and "card_takes n"
  shows "read_sections (rev (zip (kSections env) (map snd (machine_sections env g)))) n = (None, put_machine env g n)"
proof -
  have "machine_sections env g = (''cpu'', writeCpuSection g) # tl (machine_sections env g)" by (simp add: machine_sections_def)
  then show ?thesis
    using devices_read [OF assms, of "writeCpuSection g"] cpu_section.read_written [of g "put_devices env g n"] assms(1)
    by (simp add: machine_fits_def put_machine_def)
qed

lemma state_file_opened:
  assumes "length (image_bytes (state_sections env titlePort g)) < 2 ^ 32"
  shows "\<exists>f. state_open (image_bytes (state_sections env titlePort g)) = Inr f \<and> sf_names f = map fst (state_sections env titlePort g) \<and>
    (\<forall>n p. (n, p) \<in> set (state_sections env titlePort g) \<longrightarrow> file_section f n = Some p) \<and>
    (\<forall>n. n \<notin> set (map fst (state_sections env titlePort g)) \<longrightarrow> file_section f n = None)"
proof -
  have "state_sections env titlePort g \<noteq> []" by (simp add: state_sections_def machine_sections_def)
  from image_opens [OF this state_sections_ok [OF assms] state_names(1) assms] show ?thesis .
qed

lemma machine_payloads:
  assumes "\<And>n p. (n, p) \<in> set (state_sections env titlePort g) \<Longrightarrow> file_section f n = Some p"
  shows "find_payloads (kSections env) f = Inr (map snd (machine_sections env g))"
proof (rule payloads_found)
  have "\<forall>s \<in> set (machine_sections env g). file_section f (fst s) = Some (snd s)"
    using assms by (simp add: state_sections_def)
  then show "list_all2 (\<lambda>c s. sc_name c = fst s \<and> file_section f (fst s) = Some (snd s)) (kSections env) (machine_sections env g)"
    by (simp add: kSections_def machine_sections_def)
qed

lemma card_takes_title: "card_takes (n\<lparr>gm_title := d\<rparr>) = card_takes n"
  by (simp add: card_takes_def)

lemma restore_written:
  assumes "machine_fits g" and "devices_accept env" and "\<And>port. titlePort = Some port \<Longrightarrow> port_accepts port"
    and "length (image_bytes (state_sections env titlePort g)) < 2 ^ 32" and "card_takes n"
  shows "restore_state env titlePort (image_bytes (state_sections env titlePort g)) n =
    (Inr \<lparr>so_sections = kRequired @ (if titlePort = None then [] else [kTitle]),
           so_bytes = length (image_bytes (state_sections env titlePort g)), so_fields = vblank (gm_timing n),
           so_invalidationRanges = 2, so_loaded = True\<rparr>, resumed env titlePort g n)"
proof -
  obtain f where f: "state_open (image_bytes (state_sections env titlePort g)) = Inr f"
    "sf_names f = map fst (state_sections env titlePort g)"
    "\<And>n p. (n, p) \<in> set (state_sections env titlePort g) \<Longrightarrow> file_section f n = Some p"
    "\<And>n. n \<notin> set (map fst (state_sections env titlePort g)) \<Longrightarrow> file_section f n = None"
    using state_file_opened [OF assms(4)] by blast
  have p: "find_payloads (kSections env) f = Inr (map snd (machine_sections env g))" using machine_payloads [OF f(3)] .
  have "restore_state env titlePort (image_bytes (state_sections env titlePort g)) n =
      (Inr \<lparr>so_sections = sf_names f, so_bytes = length (image_bytes (state_sections env titlePort g)),
             so_fields = vblank (gm_timing n), so_invalidationRanges = 2, so_loaded = True\<rparr>, resumed env titlePort g n)"
  proof (cases titlePort)
    case None
    have "titlePayload f = None" using f(4) [of kTitle] None machine_names [of env g]
      by (simp add: titlePayload_def state_sections_def) (simp add: kRequired_def kTitle_def)
    then show ?thesis unfolding restore_state_def f(1)
      using None p sections_read [OF assms(1,2,5)] by (simp add: resumed_def)
  next
    case (Some port)
    have "titlePayload f = Some (title_payload port g)" using f(3) [of kTitle "title_payload port g"] Some
      by (simp add: titlePayload_def state_sections_def)
    then show ?thesis unfolding restore_state_def f(1)
      using Some p title_loaded [OF assms(3) [OF Some]] sections_read [OF assms(1,2)] assms(5)
      by (simp add: resumed_def card_takes_title)
  qed
  moreover have "sf_names f = kRequired @ (if titlePort = None then [] else [kTitle])"
    unfolding f(2) by (cases titlePort) (simp_all add: state_sections_def machine_names)
  ultimately show ?thesis by simp
qed

lemma wide_clock: "ucast (ucast w :: u128) = (w :: u64)"
  by (rule bit_word_eqI) (simp add: bit_simps)

lemma clock_again: "clockSnapshot (restoreClockSnapshot (clockSnapshot tm) t) = clockSnapshot tm"
  by (simp add: clockSnapshot_def restoreClockSnapshot_def restore_time_def q32_def wide_clock)

text \<open>
  Everything but the processor and the title's own state, once the sections of \<open>g\<close> have been read into \<open>n\<close>: what the
  repository keeps is field for field that of \<open>g\<close>, the clock as its snapshot carries it, the images as the catalog's
  adoption leaves them, a screen entry's place the old one where its word did not change; the GPU's stream and Beetle's
  devices are what their own loaders make of what their own savers wrote. The ownership ledger is cleared, and the rest of
  the machine is told of the buttons, the MDEC, the frame states and the two executable ranges, in that order.
\<close>

definition timing_back :: "Timing \<Rightarrow> Timing \<Rightarrow> bool" where
  "timing_back a b \<longleftrightarrow> clockSnapshot b = clockSnapshot a \<and> vblank b = vblank a \<and> guestInstructionTicks b = guestInstructionTicks a \<and>
     rootCounter2Mode b = rootCounter2Mode a \<and> rootCounter2Target b = rootCounter2Target a \<and>
     rootCounter2BaseValue b = rootCounter2BaseValue a \<and> rootCounter2OriginTicks b = rootCounter2OriginTicks a \<and>
     rootCounter1Offset b = rootCounter1Offset a"

definition card_back :: "Memcard \<Rightarrow> Memcard \<Rightarrow> bool" where
  "card_back a b \<longleftrightarrow> content b = take kSize (content a) \<and> mFd b = mFd a \<and> mScanPat b = mScanPat a \<and> mScanBlk b = mScanBlk a"

definition gte_back :: "'d state_env \<Rightarrow> 'd GteState \<Rightarrow> 'd GteState \<Rightarrow> 'd GteState \<Rightarrow> bool" where
  "gte_back env a old b \<longleftrightarrow> ge_REG b = ge_REG a \<and> ge_FLAGS b = ge_FLAGS a \<and> length (ge_places b) = 3 \<and>
     (\<forall>entry \<in> {0, 1, 2}. ge_places b ! entry =
        (if ge_REG a ! (kSxy0 + entry) = ge_REG old ! (kSxy0 + entry) then ge_places old ! entry
         else whole_place env (ge_REG a ! (kSxy0 + entry))))"

definition devices_back :: "'d state_env \<Rightarrow> 'd Game \<Rightarrow> 'd Game \<Rightarrow> 'd Game \<Rightarrow> bool" where
  "devices_back env g n m \<longleftrightarrow>
     gm_ram m = gm_ram g \<and> gm_scratch m = gm_scratch g \<and>
     activeResidencies (gm_catalog m) = activeResidencies (gm_catalog g) \<and>
     gm_catalog m = adopt (activeResidencies (gm_catalog g)) (gm_catalog n) \<and>
     gte_back env (gm_gte g) (gm_gte n) (gm_gte m) \<and>
     gm_gpu m = snd (gpu_load env (gpu_save env (gm_gpu g)) (gm_gpu n)) \<and>
     gm_spu m = snd (spu_load env (snd (spu_save env (gm_spu g))) (gm_spu n)) \<and>
     gm_mdec m = snd (mdec_load env (snd (mdec_save env (gm_mdec g))) (gm_mdec n)) \<and>
     gm_cdc m = gm_cdc g \<and> timing_back (gm_timing g) (gm_timing m) \<and> gm_logicFrame m = gm_logicFrame g \<and>
     gm_dma m = gm_dma g \<and> gm_hle m = gm_hle g \<and> gm_sio m = gm_sio g \<and> gm_buttons m = gm_buttons g \<and>
     card_back (gm_card g) (gm_card m) \<and> gm_cd m = gm_cd g \<and>
     (gm_owners m, gm_latch m) = ledger_clear (gm_owners n, gm_latch n) \<and>
     gm_notices m = gm_notices n @ [ResetButtonEdges (gm_buttons g), ForgetMdecReports, ClearFrameStates,
       ExecutableWritten 0 0x200000, ExecutableWritten 0x1F800000 0x1F800400]"

text \<open>A title's state is what its port's load makes of the body its save wrote; without a port it is left alone.\<close>

definition title_after :: "'d NativeStatePort option \<Rightarrow> 'd Game \<Rightarrow> 'd Game \<Rightarrow> 'd" where
  "title_after titlePort g n =
     (case titlePort of None \<Rightarrow> gm_title n | Some port \<Rightarrow> snd (sp_load port (title_reader port g) (gm_title n)))"

definition same_state :: "'d state_env \<Rightarrow> 'd NativeStatePort option \<Rightarrow> 'd Game \<Rightarrow> 'd Game \<Rightarrow> 'd Game \<Rightarrow> bool" where
  "same_state env titlePort g n m \<longleftrightarrow>
     gm_cpu m = (gm_cpu g)\<lparr>cs_r := (cs_r (gm_cpu g))[0 := 0], cs_active_native := 0\<rparr> \<and>
     gm_title m = title_after titlePort g n \<and> devices_back env g n m"

lemmas put_defs = put_devices_def put_ram_def put_images_def put_scratchpad_def put_gte_def put_gpu_def put_cdc_def
  put_timing_def put_dma_def put_hle_def put_sio_def put_card_def put_cd_def put_beetle_def

lemma timing_put: "timing_back (gm_timing g) (gm_timing (put_devices env g n))"
proof -
  have "gm_timing (put_devices env g n) = gm_timing (put_timing g n)" by (simp add: put_defs Let_def)
  moreover have "timing_back (gm_timing g) (gm_timing (put_timing g n))"
    using clock_again [of "gm_timing g" "gm_timing n"] by (simp add: put_timing_def timing_back_def Let_def clockSnapshot_def)
  ultimately show ?thesis by simp
qed

lemma gte_put: "gte_back env (gm_gte g) (gm_gte n) (gm_gte (put_devices env g n))"
  by (auto simp: put_defs gte_back_def placeReplacedScreenEntries_def Let_def numeral_2_eq_2)

lemma card_put: "card_back (gm_card g) (gm_card (put_devices env g n))"
  by (simp add: put_defs card_back_def Let_def)

lemma devices_put: "devices_back env g n (put_devices env g n)"
  unfolding devices_back_def
  using timing_put [of g env n] gte_put [of env g n] card_put [of g env n]
  by (simp add: put_defs Let_def adopt_residencies)

lemma devices_back_title [simp]: "devices_back env g (n\<lparr>gm_title := d\<rparr>) m = devices_back env g n m"
  by (simp add: devices_back_def)

lemma devices_back_cpu [simp]: "devices_back env g n (m\<lparr>gm_cpu := c\<rparr>) = devices_back env g n m"
  by (simp add: devices_back_def)

lemma devices_untouched: "gm_cpu (put_devices env g n) = gm_cpu n" "gm_title (put_devices env g n) = gm_title n"
  by (simp_all add: put_defs Let_def)

lemma resumed_same:
  "\<exists>m. resumed env titlePort g n = (case titlePort of None \<Rightarrow> m | Some port \<Rightarrow> sp_restored port m) \<and> same_state env titlePort g n m"
  using devices_put [of env g n] devices_put [of env g "n\<lparr>gm_title := title_after titlePort g n\<rparr>"]
  by (cases titlePort)
    (auto simp: resumed_def same_state_def title_after_def put_machine_def put_cpu_def devices_untouched)

text \<open>C2: A machine that fits its own tables is captured without a change, and the image is accepted by any machine whose
  card can be written. That machine then holds the saved one section by section: the processor with register zero clear and
  no native active; memory, scratchpad, images, coprocessor registers and flags, CD and DMA controllers, BIOS tables, port,
  the clock's snapshot, the field and instruction counts, both root counters, the logic frame, the memory card and the native
  CD equal to the saved ones; the GPU, SPU and MDEC what their own loaders make of their own streams; the screen entries
  that changed placed anew, the ledger of writers cleared and each notice sent in order. The outcome lists the sections, the
  size and the field count of before. A title with a port gets its section loaded first and is told last.\<close>

theorem restore_resumes:
  assumes "machine_fits g" and "devices_accept env" and "\<And>port. titlePort = Some port \<Longrightarrow> port_accepts port"
    and "length (image_bytes (state_sections env titlePort g)) < 2 ^ 32" and "card_takes n"
  shows "\<exists>bytes m. capture_state env titlePort g = (Inr bytes, g) \<and>
    restore_state env titlePort bytes n =
      (Inr \<lparr>so_sections = kRequired @ (if titlePort = None then [] else [kTitle]), so_bytes = length bytes,
             so_fields = vblank (gm_timing n), so_invalidationRanges = 2, so_loaded = True\<rparr>,
       case titlePort of None \<Rightarrow> m | Some port \<Rightarrow> sp_restored port m) \<and>
    same_state env titlePort g n m"
  using capture_written [OF assms(1-4)] restore_written [OF assms] resumed_same [of env titlePort g n] by metis

section \<open>Refusals\<close>

text \<open>\<open>NativeStatePort::load\<close>, as \<open>machine_state.h\<close> requires it of a title: a failed load restores nothing of the title's.\<close>

definition failed_load_keeps :: "'d NativeStatePort \<Rightarrow> bool" where
  "failed_load_keeps port \<longleftrightarrow> (\<forall>r d. fst (sp_load port r d) \<or> snd (sp_load port r d) = d)"

lemma title_kept:
  assumes "failed_load_keeps port" and "fst (load_title port payload g) \<noteq> None"
  shows "snd (load_title port payload g) = g"
proof -
  define env where "env = r_u8 (reader_of payload)"
  define ver where "ver = r_u32 (snd env)"
  define l where "l = sp_load port (snd ver) (gm_title g)"
  have e: "load_title port payload g =
     (if \<not> br_ok (snd ver) \<or> fst env \<noteq> kTitleEnvelopeVersion then (Some (TitleEnvelope (fst env)), g)
         else if fst ver \<noteq> sp_version port then (Some (TitleVersion (fst ver) (sp_version port)), g)
         else (if fst l then None else Some TitleRefusedLoad, g\<lparr>gm_title := snd l\<rparr>))"
    unfolding load_title_def Let_def case_prod_unfold env_def ver_def l_def ..
  have k: "\<not> fst l \<Longrightarrow> snd l = gm_title g" using assms(1) unfolding failed_load_keeps_def l_def by blast
  have u: "g\<lparr>gm_title := gm_title g\<rparr> = g" by (cases g) (simp only: Game.simps)
  show ?thesis
  proof (cases "\<not> br_ok (snd ver) \<or> fst env \<noteq> kTitleEnvelopeVersion")
    case True
    then show ?thesis unfolding e by (simp only: if_True snd_conv)
  next
    case c1: False
    show ?thesis
    proof (cases "fst ver \<noteq> sp_version port")
      case True
      then show ?thesis using c1 unfolding e by (simp only: if_True if_False snd_conv simp_thms)
    next
      case False
      with c1 have e': "load_title port payload g = (if fst l then None else Some TitleRefusedLoad, g\<lparr>gm_title := snd l\<rparr>)"
        unfolding e by (simp only: if_False)
      then have "\<not> fst l" using assms(2) by auto
      then have "snd l = gm_title g" by (rule k)
      with u show ?thesis unfolding e' snd_conv by (simp only:)
    qed
  qed
qed

text \<open>C39: A file refused before its first section is read, for its container, a title section it lacks or should not have, a
  missing section, the title's envelope or version or the title's own refusal, leaves the machine exactly as it was, where a
  title's port keeps what its interface asks: a failed load restores nothing of the title's.\<close>

theorem early_refusal_unchanged:
  assumes "restore_state env titlePort bytes g = (Inl e, m)" and "\<And>s. e \<noteq> Refused s"
    and "\<And>port. titlePort = Some port \<Longrightarrow> failed_load_keeps port"
  shows "m = g"
proof (cases "state_open bytes")
  case (Inl reason)
  then show ?thesis using assms(1) by (simp add: restore_state_def)
next
  case (Inr f)
  note r = assms(1) [unfolded restore_state_def Inr sum.case]
  show ?thesis
  proof (cases titlePort)
    case None
    obtain s g2 where "read_sections (rev (zip (kSections env) (projr (find_payloads (kSections env) f)))) g = (s, g2)" by fastforce
    then show ?thesis using r None assms(2)
      by (cases "titlePayload f"; cases "find_payloads (kSections env) f"; cases s) (use assms(2) in blast | auto)+
  next
    case (Some port)
    obtain x g1 where l: "load_title port (the (titlePayload f)) g = (x, g1)" by fastforce
    have k: "x \<noteq> None \<Longrightarrow> g1 = g" using title_kept [OF assms(3) [OF Some], of "the (titlePayload f)" g] l by simp
    obtain s g2 where "read_sections (rev (zip (kSections env) (projr (find_payloads (kSections env) f)))) g1 = (s, g2)" by fastforce
    then show ?thesis using r Some l k assms(2)
      by (cases "titlePayload f"; cases "find_payloads (kSections env) f"; cases x; cases s) (use assms(2) in blast | auto)+
  qed
qed

text \<open>Nine sections are decoded whole before anything is assigned.\<close>

lemma decoded_first:
  assumes "\<And>xs. fst (h xs) \<noteq> None \<Longrightarrow> snd (h xs) = g"
    and "fst (case x of Inl e \<Rightarrow> (Some e, g) | Inr (xs, ok) \<Rightarrow> if \<not> ok then (Some s, g) else h xs) \<noteq> None"
  shows "snd (case x of Inl e \<Rightarrow> (Some e, g) | Inr (xs, ok) \<Rightarrow> if \<not> ok then (Some s, g) else h xs) = g"
  using assms by (cases x) (simp_all split: prod.splits if_splits)

lemma cpu_refused: "fst (readCpuSection bs g) \<noteq> None \<Longrightarrow> snd (readCpuSection bs g) = g"
  unfolding readCpuSection_def Let_def by (erule decoded_first [rotated]) (simp only: fst_conv snd_conv simp_thms split: if_splits)

lemma ram_refused: "fst (readRamSection bs g) \<noteq> None \<Longrightarrow> snd (readRamSection bs g) = g"
  by (auto simp: readRamSection_def Let_def split: sum.splits option.splits prod.splits if_splits)

lemma scratchpad_refused: "fst (readScratchpadSection bs g) \<noteq> None \<Longrightarrow> snd (readScratchpadSection bs g) = g"
  by (auto simp: readScratchpadSection_def Let_def split: sum.splits option.splits prod.splits if_splits)

lemma images_refused: "fst (readImagesSection bs g) \<noteq> None \<Longrightarrow> snd (readImagesSection bs g) = g"
  by (auto simp: readImagesSection_def Let_def split: sum.splits option.splits prod.splits if_splits)

lemma gte_refused: "fst (readGteSection env bs g) \<noteq> None \<Longrightarrow> snd (readGteSection env bs g) = g"
  by (auto simp: readGteSection_def Let_def split: sum.splits option.splits prod.splits if_splits)

lemma timing_refused: "fst (readTimingSection bs g) \<noteq> None \<Longrightarrow> snd (readTimingSection bs g) = g"
  unfolding readTimingSection_def Let_def by (erule decoded_first [rotated]) (simp only: fst_conv snd_conv simp_thms split: if_splits)

lemma dma_refused: "fst (readDmaSection bs g) \<noteq> None \<Longrightarrow> snd (readDmaSection bs g) = g"
  unfolding readDmaSection_def Let_def by (erule decoded_first [rotated]) (simp only: fst_conv snd_conv simp_thms split: if_splits)

lemma hle_refused: "fst (readHleSection bs g) \<noteq> None \<Longrightarrow> snd (readHleSection bs g) = g"
  unfolding readHleSection_def Let_def by (erule decoded_first [rotated]) (simp only: fst_conv snd_conv simp_thms split: if_splits)

lemma sio_refused: "fst (readSioSection bs g) \<noteq> None \<Longrightarrow> snd (readSioSection bs g) = g"
  unfolding readSioSection_def Let_def by (erule decoded_first [rotated]) (simp only: fst_conv snd_conv simp_thms split: if_splits)


section \<open>What a section leaves alone\<close>

lemma decoded_frame:
  assumes "\<And>xs ok. F (snd (h xs ok)) = F g"
  shows "F (snd (case x of Inl e \<Rightarrow> (Some e, g) | Inr (xs, ok) \<Rightarrow> h xs ok)) = F g"
  using assms by (cases x) (simp_all split: prod.splits)

lemma card_keeps:
  "gm_cd (snd (readCardSection bs g)) = gm_cd g"
  by (simp add: readCardSection_def Let_def split: option.splits prod.splits)

lemma sio_keeps:
  "gm_cd (snd (readSioSection bs g)) = gm_cd g"
  unfolding readSioSection_def Let_def by (rule decoded_frame, simp)+

lemma hle_keeps:
  "gm_cd (snd (readHleSection bs g)) = gm_cd g"
  unfolding readHleSection_def Let_def by (rule decoded_frame, simp)+

lemma dma_keeps:
  "gm_cd (snd (readDmaSection bs g)) = gm_cd g" "gm_hle (snd (readDmaSection bs g)) = gm_hle g"
  unfolding readDmaSection_def Let_def by (rule decoded_frame, simp)+

lemma timing_keeps:
  "gm_cd (snd (readTimingSection bs g)) = gm_cd g" "gm_hle (snd (readTimingSection bs g)) = gm_hle g"
  unfolding readTimingSection_def Let_def by (rule decoded_frame, simp)+

lemma cdc_keeps:
  "gm_cd (snd (readCdcSection bs g)) = gm_cd g" "gm_hle (snd (readCdcSection bs g)) = gm_hle g"
  "gm_timing (snd (readCdcSection bs g)) = gm_timing g"
  unfolding readCdcSection_def Let_def by (rule decoded_frame, simp)+

lemma beetle_keeps:
  "gm_cd (snd (readBeetle env device bs g)) = gm_cd g" "gm_hle (snd (readBeetle env device bs g)) = gm_hle g"
  "gm_timing (snd (readBeetle env device bs g)) = gm_timing g" "gm_cdc (snd (readBeetle env device bs g)) = gm_cdc g"
  by (cases device; simp add: readBeetle_def Let_def split_def)+

lemma gpu_keeps:
  "gm_cd (snd (readGpuSection env bs g)) = gm_cd g" "gm_hle (snd (readGpuSection env bs g)) = gm_hle g"
  "gm_timing (snd (readGpuSection env bs g)) = gm_timing g" "gm_cdc (snd (readGpuSection env bs g)) = gm_cdc g"
  by (simp_all add: readGpuSection_def Let_def split: sum.splits option.splits prod.splits)

lemma gte_keeps:
  "gm_cd (snd (readGteSection env bs g)) = gm_cd g" "gm_hle (snd (readGteSection env bs g)) = gm_hle g"
  "gm_timing (snd (readGteSection env bs g)) = gm_timing g" "gm_cdc (snd (readGteSection env bs g)) = gm_cdc g"
  by (simp_all add: readGteSection_def Let_def split: sum.splits option.splits prod.splits)

lemma scratchpad_keeps:
  "gm_cd (snd (readScratchpadSection bs g)) = gm_cd g" "gm_hle (snd (readScratchpadSection bs g)) = gm_hle g"
  "gm_timing (snd (readScratchpadSection bs g)) = gm_timing g" "gm_cdc (snd (readScratchpadSection bs g)) = gm_cdc g"
  by (simp_all add: readScratchpadSection_def Let_def split: sum.splits option.splits prod.splits)

lemma images_keeps:
  "gm_cd (snd (readImagesSection bs g)) = gm_cd g" "gm_hle (snd (readImagesSection bs g)) = gm_hle g"
  "gm_timing (snd (readImagesSection bs g)) = gm_timing g" "gm_cdc (snd (readImagesSection bs g)) = gm_cdc g"
  "gm_scratch (snd (readImagesSection bs g)) = gm_scratch g"
  by (simp_all add: readImagesSection_def Let_def split: sum.splits option.splits prod.splits)

lemma ram_keeps:
  "gm_cd (snd (readRamSection bs g)) = gm_cd g" "gm_hle (snd (readRamSection bs g)) = gm_hle g"
  "gm_timing (snd (readRamSection bs g)) = gm_timing g" "gm_cdc (snd (readRamSection bs g)) = gm_cdc g"
  "gm_scratch (snd (readRamSection bs g)) = gm_scratch g"
  by (simp_all add: readRamSection_def Let_def split: sum.splits option.splits prod.splits)

lemma cpu_keeps:
  "gm_cd (snd (readCpuSection bs g)) = gm_cd g" "gm_hle (snd (readCpuSection bs g)) = gm_hle g"
  "gm_timing (snd (readCpuSection bs g)) = gm_timing g" "gm_cdc (snd (readCpuSection bs g)) = gm_cdc g"
  "gm_scratch (snd (readCpuSection bs g)) = gm_scratch g" "gm_ram (snd (readCpuSection bs g)) = gm_ram g"
  unfolding readCpuSection_def Let_def by (rule decoded_frame, simp)+

section \<open>What a section checked\<close>

lemma cd_checked: "readCdSection bs g = (None, m) \<Longrightarrow> cd_in_stock_read (gm_cd m) = 0"
  by (auto simp: readCdSection_def Let_def split: sum.splits prod.splits if_splits)

lemma decoded_some:
  "(case x of Inl e \<Rightarrow> (Some e, g) | Inr (xs, ok) \<Rightarrow> h xs ok) = (None, m) \<Longrightarrow> \<exists>xs ok. h xs ok = (None, m)"
  by (cases x) (auto split: prod.splits)

lemma hle_checked: "readHleSection bs g = (None, m) \<Longrightarrow> hle_bounded (gm_hle m)"
  unfolding readHleSection_def Let_def by (drule decoded_some) (auto simp: hle_bounded_def split: if_splits)

lemma cdc_checked: "readCdcSection bs g = (None, m) \<Longrightarrow> cdc_bounded (gm_cdc m)"
  unfolding readCdcSection_def Let_def by (drule decoded_some) (auto simp: cdc_bounded_def split: if_splits)

lemma timing_checked: "readTimingSection bs g = (None, m) \<Longrightarrow> phaseDenominator (gm_timing m) \<noteq> 0"
proof -
  assume "readTimingSection bs g = (None, m)"
  from decoded_some [OF this [unfolded readTimingSection_def Let_def]]
  obtain xs where "f_u64 xs 11 \<noteq> 0" "phaseDenominator (gm_timing m) = ucast (f_u64 xs 11)"
    by (auto simp: restoreClockSnapshot_def split: if_splits)
  moreover have "ucast (w :: u64) = (0 :: u128) \<Longrightarrow> w = 0" for w using wide_clock [of w] by simp
  ultimately show ?thesis by metis
qed

lemma cpu_checked: "readCpuSection bs g = (None, m) \<Longrightarrow> cs_r (gm_cpu m) ! 0 = 0 \<and> cs_active_native (gm_cpu m) = 0"
proof -
  assume "readCpuSection bs g = (None, m)"
  from decoded_some [OF this [unfolded readCpuSection_def Let_def]]
  obtain xs where c: "gm_cpu m = \<lparr>cs_r = (f_words 4 32 (replicate 32 0) xs 0)[0 := 0], cs_hi = f_u32 xs 1, cs_lo = f_u32 xs 2,
      cs_pc = f_u32 xs 3, cs_cop0 = f_words 4 16 (replicate 16 0) xs 4, cs_pending_work = f_i32 xs 5, cs_active_native = 0\<rparr>"
    by (auto split: if_splits)
  have "0 < length (f_words 4 32 (replicate 32 0) xs 0 :: u32 list)"
    by (simp add: f_words_def bytes_words_def split: option.split field.split)
  then show ?thesis unfolding c by simp
qed

lemma scratchpad_checked: "readScratchpadSection bs g = (None, m) \<Longrightarrow> length (gm_scratch m) = kScratchpadSize"
  by (auto simp: readScratchpadSection_def r_bytes_def copyOut_def split: option.splits prod.splits if_splits)

lemma ram_checked: "readRamSection bs g = (None, m) \<Longrightarrow> length (gm_ram m) = kRamBytes"
  by (auto simp: readRamSection_def r_bytes_def copyOut_def Let_def split: option.splits prod.splits if_splits)

section \<open>An accepted file\<close>

text \<open>The bounds the rest of the runtime indexes with.\<close>

definition control_ok :: "'d Game \<Rightarrow> bool" where
  "control_ok m \<longleftrightarrow> cs_r (gm_cpu m) ! 0 = 0 \<and> cs_active_native (gm_cpu m) = 0 \<and> length (gm_ram m) = kRamBytes \<and>
     length (gm_scratch m) = kScratchpadSize \<and> cdc_bounded (gm_cdc m) \<and> phaseDenominator (gm_timing m) \<noteq> 0 \<and>
     hle_bounded (gm_hle m) \<and> cd_in_stock_read (gm_cd m) = 0"

lemma read_sections_Cons:
  "read_sections ((c, bs) # cs) g = (None, m) \<longleftrightarrow> (\<exists>g1. sc_read c bs g = (None, g1) \<and> read_sections cs g1 = (None, m))"
  by (auto split: prod.splits option.splits)

lemma find_payloads_length: "find_payloads cs f = Inr ps \<Longrightarrow> length ps = length cs"
  by (induction cs f arbitrary: ps rule: find_payloads.induct) (auto split: option.splits sum.splits)

lemma fifteen:
  "length ps = 15 \<Longrightarrow> \<exists>a b c d e f g h i j k l m n p. ps = [a, b, c, d, e, f, g, h, i, j, k, l, m, n, p]"
  by (auto simp: numeral_eq_Suc length_Suc_conv)

lemma sections_sound:
  assumes "length ps = 15" and "read_sections (rev (zip (kSections env) ps)) g = (None, m)"
  shows "control_ok m"
proof -
  obtain p0 p1 p2 p3 p4 p5 p6 p7 p8 p9 p10 p11 p12 p13 p14
    where ps: "ps = [p0, p1, p2, p3, p4, p5, p6, p7, p8, p9, p10, p11, p12, p13, p14]"
    using fifteen [OF assms(1)] by blast
  obtain g1 g2 g3 g4 g5 g6 g7 g8 g9 g10 g11 g12 g13 g14 where
    r: "readCdSection p14 g = (None, g1)" "readCardSection p13 g1 = (None, g2)" "readSioSection p12 g2 = (None, g3)"
      "readHleSection p11 g3 = (None, g4)" "readDmaSection p10 g4 = (None, g5)" "readTimingSection p9 g5 = (None, g6)"
      "readCdcSection p8 g6 = (None, g7)" "readBeetle env BeetleMdec p7 g7 = (None, g8)"
      "readBeetle env BeetleSpu p6 g8 = (None, g9)" "readGpuSection env p5 g9 = (None, g10)"
      "readGteSection env p4 g10 = (None, g11)" "readScratchpadSection p3 g11 = (None, g12)"
      "readImagesSection p2 g12 = (None, g13)" "readRamSection p1 g13 = (None, g14)" "readCpuSection p0 g14 = (None, m)"
    using assms(2) unfolding ps
    by (simp add: kSections_def read_sections_Cons del: read_sections.simps(2)) blast
  note cpu = cpu_keeps [of p0 g14, unfolded r, simplified] and ram = ram_keeps [of p1 g13, unfolded r, simplified]
    and images = images_keeps [of p2 g12, unfolded r, simplified] and scratch = scratchpad_keeps [of p3 g11, unfolded r, simplified]
    and gte = gte_keeps [of env p4 g10, unfolded r, simplified] and gpu = gpu_keeps [of env p5 g9, unfolded r, simplified]
    and spu = beetle_keeps [of env BeetleSpu p6 g8, unfolded r, simplified]
    and mdec = beetle_keeps [of env BeetleMdec p7 g7, unfolded r, simplified]
    and cdc = cdc_keeps [of p8 g6, unfolded r, simplified] and timing = timing_keeps [of p9 g5, unfolded r, simplified]
    and dma = dma_keeps [of p10 g4, unfolded r, simplified] and hle = hle_keeps [of p11 g3, unfolded r, simplified]
    and sio = sio_keeps [of p12 g2, unfolded r, simplified] and card = card_keeps [of p13 g1, unfolded r, simplified]
  show ?thesis
    unfolding control_ok_def
    using cpu_checked [OF r(15)] ram_checked [OF r(14)] scratchpad_checked [OF r(12)] cdc_checked [OF r(7)] timing_checked [OF r(6)]
      hle_checked [OF r(4)] cd_checked [OF r(1)]
    by (simp add: cpu ram images scratch gte gpu spu mdec cdc timing dma hle sio card)
qed

text \<open>C14: Whatever the bytes, a file that is accepted leaves exactly this checked: register zero clear and no native active,
  memory and scratchpad of their size, the head and tail of the CD controller's response queue and the count of its read
  completions inside their arrays, a field phase that can be divided by, the BIOS's interrupt chain and heap counts inside
  their tables and no CD read half done; a title's port then runs on that machine. It says nothing of the controller's
  parameter, argument, data and response counts and cursors or of the count of device control blocks, which the loader
  takes from the file unchecked.\<close>

theorem accepted_state_is_sound:
  assumes "restore_state env titlePort bytes g = (Inr outcome, m)"
  shows "\<exists>m'. control_ok m' \<and> m = (case titlePort of None \<Rightarrow> m' | Some port \<Rightarrow> sp_restored port m')"
proof -
  have "\<exists>f ps g1 m'. find_payloads (kSections env) f = Inr ps \<and> read_sections (rev (zip (kSections env) ps)) g1 = (None, m') \<and>
      m = (case titlePort of None \<Rightarrow> m' | Some port \<Rightarrow> sp_restored port m')"
    using assms unfolding restore_state_def
    by (simp split: sum.splits option.splits prod.splits if_splits) blast+
  then obtain f ps g1 m' where p: "find_payloads (kSections env) f = Inr ps"
    "read_sections (rev (zip (kSections env) ps)) g1 = (None, m')"
    "m = (case titlePort of None \<Rightarrow> m' | Some port \<Rightarrow> sp_restored port m')"
    by blast
  have "length ps = 15" using find_payloads_length [OF p(1)] by (simp add: kSections_def)
  then show ?thesis using sections_sound p(2,3) by blast
qed

section \<open>A section refused late\<close>

text \<open>The file of a machine with its processor section replaced.\<close>

definition spoiled_sections :: "'d state_env \<Rightarrow> 'd NativeStatePort option \<Rightarrow> u8 list \<Rightarrow> 'd Game \<Rightarrow> (string \<times> u8 list) list" where
  "spoiled_sections env titlePort bs g = (''cpu'', bs) # tl (state_sections env titlePort g)"

lemma spoiled_split:
  "spoiled_sections env titlePort bs g = ((''cpu'', bs) # tl (machine_sections env g)) @
     (case titlePort of None \<Rightarrow> [] | Some port \<Rightarrow> [(kTitle, title_payload port g)])"
  by (simp add: spoiled_sections_def state_sections_def machine_sections_def)

lemma spoiled_names: "map fst (spoiled_sections env titlePort bs g) = map fst (state_sections env titlePort g)"
  by (simp add: spoiled_sections_def state_sections_def machine_sections_def)

lemma devices_payloads:
  assumes "\<forall>s \<in> set ((''cpu'', bs) # tl (machine_sections env g)). file_section f (fst s) = Some (snd s)"
  shows "find_payloads (kSections env) f = Inr (map snd ((''cpu'', bs) # tl (machine_sections env g)))"
proof (rule payloads_found)
  show "list_all2 (\<lambda>c s. sc_name c = fst s \<and> file_section f (fst s) = Some (snd s)) (kSections env)
      ((''cpu'', bs) # tl (machine_sections env g))"
    using assms by (simp add: kSections_def machine_sections_def)
qed

lemma spoiled_opened:
  assumes "length (image_bytes (spoiled_sections env titlePort bs g)) < 2 ^ 32"
  shows "\<exists>f. state_open (image_bytes (spoiled_sections env titlePort bs g)) = Inr f \<and>
    find_payloads (kSections env) f = Inr (map snd ((''cpu'', bs) # tl (machine_sections env g))) \<and>
    titlePayload f = (case titlePort of None \<Rightarrow> None | Some port \<Rightarrow> Some (title_payload port g))"
proof -
  let ?secs = "spoiled_sections env titlePort bs g"
  have ne: "?secs \<noteq> []" by (simp add: spoiled_sections_def)
  have d: "distinct (map fst ?secs)" unfolding spoiled_names by (rule state_names(1))
  have "isFrameworkSectionName (fst s)" if "s \<in> set ?secs" for s
  proof -
    have "fst s \<in> set (map fst (state_sections env titlePort g))"
      unfolding spoiled_names [of env titlePort bs g, symmetric] using that by simp
    then show ?thesis using state_names(2) [of env titlePort g] by (auto simp: list_all_iff)
  qed
  moreover have "length (snd s) < 2 ^ 32" if "s \<in> set ?secs" for s using payload_within [OF that] assms by linarith
  ultimately have ok: "list_all sec_ok ?secs" by (simp add: list_all_iff sec_ok_def)
  obtain f where f: "state_open (image_bytes ?secs) = Inr f" "\<forall>n p. (n, p) \<in> set ?secs \<longrightarrow> file_section f n = Some p"
    "\<forall>n. n \<notin> set (map fst ?secs) \<longrightarrow> file_section f n = None"
    using image_opens [OF ne ok d assms] by blast
  have "\<forall>s \<in> set ((''cpu'', bs) # tl (machine_sections env g)). file_section f (fst s) = Some (snd s)"
    using f(2) unfolding spoiled_split by simp
  then have p: "find_payloads (kSections env) f = Inr (map snd ((''cpu'', bs) # tl (machine_sections env g)))" by (rule devices_payloads)
  have "titlePayload f = (case titlePort of None \<Rightarrow> None | Some port \<Rightarrow> Some (title_payload port g))"
  proof (cases titlePort)
    case None
    have "kTitle \<notin> set (map fst ?secs)" unfolding spoiled_names using None machine_names [of env g]
      by (simp add: state_sections_def) (simp add: kRequired_def kTitle_def)
    then show ?thesis using None f(3) by (simp add: titlePayload_def)
  next
    case (Some port)
    then have "(kTitle, title_payload port g) \<in> set ?secs" by (simp add: spoiled_split)
    then show ?thesis using Some f(2) by (simp add: titlePayload_def)
  qed
  then show ?thesis using f(1) p by blast
qed

lemma cpu_error_alone: "fst (readCpuSection bs a) = fst (readCpuSection bs b)"
  unfolding readCpuSection_def Let_def by (cases "read_section ''cpu'' kCpuLayoutVersion cpu_kinds bs") (simp_all split: prod.splits)

text \<open>C40: Sections are read back from the last to the first, so a file whose processor section alone is refused has by then
  replaced everything else: the load reports the refusal, and every other section's state, the title's native state and the
  host's card file included, is already the file's, the ledger is cleared and the notices are sent, while the processor still
  runs the old machine's registers and a title's port is not told.\<close>

theorem refused_processor_leaves_the_rest:
  assumes "machine_fits g" and "devices_accept env" and "\<And>port. titlePort = Some port \<Longrightarrow> port_accepts port" and "card_takes n"
    and "length (image_bytes (spoiled_sections env titlePort bs g)) < 2 ^ 32"
    and "fst (readCpuSection bs n) = Some e"
  shows "\<exists>m. restore_state env titlePort (image_bytes (spoiled_sections env titlePort bs g)) n = (Inl (Refused e), m) \<and>
    devices_back env g n m \<and> gm_title m = title_after titlePort g n \<and> gm_cpu m = gm_cpu n"
proof -
  define n' where "n' = n\<lparr>gm_title := title_after titlePort g n\<rparr>"
  have t: "card_takes n'" using assms(4) by (simp add: n'_def card_takes_title)
  obtain f where f: "state_open (image_bytes (spoiled_sections env titlePort bs g)) = Inr f"
    "find_payloads (kSections env) f = Inr (map snd ((''cpu'', bs) # tl (machine_sections env g)))"
    "titlePayload f = (case titlePort of None \<Rightarrow> None | Some port \<Rightarrow> Some (title_payload port g))"
    using spoiled_opened [OF assms(5)] by blast
  have "fst (readCpuSection bs (put_devices env g n')) = Some e" using assms(6) cpu_error_alone by metis
  then have "readCpuSection bs (put_devices env g n') = (Some e, put_devices env g n')"
    using cpu_refused [of bs "put_devices env g n'"] by (simp add: prod_eq_iff)
  note r = trans [OF devices_read [OF assms(1,2) t, of bs] this]
  have "restore_state env titlePort (image_bytes (spoiled_sections env titlePort bs g)) n = (Inl (Refused e), put_devices env g n')"
  proof (cases titlePort)
    case None
    then have "n' = n" by (simp add: n'_def title_after_def)
    then show ?thesis unfolding restore_state_def f(1) sum.case using None r f(2,3) by simp
  next
    case (Some port)
    have "load_title port (title_payload port g) n = (None, n')"
      using title_loaded [OF assms(3) [OF Some]] Some by (simp add: n'_def title_after_def)
    then show ?thesis unfolding restore_state_def f(1) sum.case using Some r f(2,3) by simp
  qed
  moreover have "devices_back env g n (put_devices env g n')" using devices_put [of env g n'] by (simp add: n'_def)
  ultimately show ?thesis by (auto simp: devices_untouched n'_def)
qed

section \<open>A machine\<close>

definition field_size :: "field \<Rightarrow> nat" where
  "field_size f = length (write_field f [])"

lemma length_write_fields: "length (fold write_field fs w) = length w + sum_list (map field_size fs)"
proof (induction fs arbitrary: w)
  case (Cons f fs)
  have "length (write_field f w) = length w + field_size f"
    using write_fields_append [of "[f]" w] by (simp add: field_size_def)
  then show ?case using Cons by simp
qed simp

lemma sum_list_concat_runs: "sum_list (concat xss) = sum_list (map sum_list xss)" for xss :: "nat list list"
  by (induction xss) simp_all

lemma fd_size: "sum_list (map field_size (fd_fields e)) = 13"
  by (cases e) (simp_all add: fd_fields_def field_size_def codec_simps w_i32_def w_boolean_def w_u8_def)

lemma length_write_section: "length (write_section v fs) = 1 + sum_list (map field_size fs)"
  by (simp add: write_section_def length_write_fields field_size_def w_u8_def)

lemma field_sizes [simp]:
  "field_size (FU8 a) = 1" "field_size (FU16 b) = 2" "field_size (FU32 c) = 4" "field_size (FU64 d) = 8" "field_size (FI8 i) = 1"
  "field_size (FI32 i) = 4" "field_size (FBool q) = 1" "field_size (FArray u) = 4 + length u" "field_size (FBytes u) = length u"
  "field_size (FBlob u) = 4 + length u"
  by (simp_all add: field_size_def codec_simps w_u8_def w_i8_def w_i32_def w_boolean_def w_bytes_def)

definition idle_env :: "unit state_env" where
  "idle_env = \<lparr>gpu_save = (\<lambda>_. []), gpu_load = (\<lambda>_ _. (True, ())), spu_save = (\<lambda>_. (True, [1])), spu_load = (\<lambda>_ _. (True, ())),
     mdec_save = (\<lambda>_. (True, [2])), mdec_load = (\<lambda>_ _. (True, ())), whole_place = (\<lambda>_. ())\<rparr>"

definition idle_cdc :: CdcState where
  "idle_cdc = \<lparr>cx_index = 0, cx_param = replicate 16 0, cx_param_n = 0, cx_data = replicate 2340 0, cx_data_n = 0, cx_data_rd = 0,
     cx_irq_en = 0, cx_stat = 2, cx_loc_lba = 0, cx_command_lba = 0, cx_sector_header = replicate 8 0, cx_sector_header_valid = 0,
     cx_mode = 0, cx_filter_file = 0, cx_filter_chan = 0, cx_reading = 0, cx_first_sector_pending = 0, cx_bfrd = 0,
     cx_following_sector_ready = 0, cx_drive_event_armed = 0, cx_drive_deadline_ticks = 0, cx_command_event_armed = 0,
     cx_pending_command = 0, cx_command_phase = 0, cx_command_arg_latch = 0, cx_command_args = replicate 16 0,
     cx_command_arg_n = 0, cx_command_deadline_ticks = 0, cx_read_completion_n = 0,
     cx_read_completion_deadline_ticks = replicate 4 0, cx_q_head = 0, cx_q_tail = 0, cx_resp_rd = 0, cx_irq_sequence = 0,
     cx_irq_edge = 0, cx_q = replicate 8 \<lparr>qe_type = 0, qe_resp = replicate 16 0, qe_len = 0\<rparr>\<rparr>"

definition quiet_hle :: HleState where
  "quiet_hle = \<lparr>hx_ev = replicate kSlotsEv \<lparr>es_open = 0, es_enabled = 0, es_fired = 0, es_class = 0, es_spec = 0, es_mode = 0, es_func = 0\<rparr>,
     hx_i_stat = 0, hx_i_mask = 0, hx_irq_n = 0, hx_irq_elem = replicate kIrqChain 0, hx_irq_prio = replicate kIrqChain 0, hx_in_irq = 0,
     hx_ev_depth = 0, hx_exception_exit_buf = 0, hx_irq_enabled = 1, hx_heap_base = 0, hx_heap_size = 0, hx_heap_ok = 0, hx_nblk = 0,
     hx_blk = replicate kBlkSlots \<lparr>hs_addr = 0, hs_size = 0, hs_used = 0\<rparr>, hx_rand_state = 0, hx_work_ok = 0,
     hx_bios_pad_initialized = False, hx_bios_pad_irq_started = False, hx_dcb_n = 0\<rparr>"

definition idle_card :: Memcard where
  "idle_card = \<lparr>mCard = True,
     mHost = \<lparr>host_file = Some (replicate kSize 0), host_may_open = True, host_may_read = True, host_may_create = True,
       host_accepts = True, host_stale = []\<rparr>,
     mFd = replicate kFdMax \<lparr>fd_used = False, fd_block = 0, fd_pos = 0, fd_size = 0\<rparr>, mScanPat = [], mScanBlk = 0\<rparr>"

definition idle_game :: "u8 \<Rightarrow> unit Game" where
  "idle_game v = \<lparr>gm_cpu = \<lparr>cs_r = replicate 32 0, cs_hi = 0, cs_lo = 0, cs_pc = 0x80010000, cs_cop0 = replicate 16 0,
       cs_pending_work = 0, cs_active_native = 0\<rparr>,
     gm_ram = replicate kRamBytes v, gm_scratch = replicate kScratchpadSize v, gm_catalog = new_catalog,
     gm_gte = \<lparr>ge_REG = replicate 64 0, ge_FLAGS = 0, ge_places = [(), (), ()]\<rparr>, gm_gpu = (), gm_spu = (), gm_mdec = (),
     gm_cdc = idle_cdc, gm_timing = new_timing, gm_logicFrame = 0,
     gm_dma = \<lparr>channel = (\<lambda>_. \<lparr>madr = 0, bcr = 0, chcr = 0\<rparr>), mdec0Addr = 0, mdec0Left = 0, mdec1Addr = 0, mdec1Left = 0,
       spuXferAddr = 0, dpcr = 0, dicr = 0, done_mask = 0\<rparr>,
     gm_hle = quiet_hle,
     gm_sio = \<lparr>sio_mode = 0, sio_ctrl = 0, sio_baud = 0, sio_rx = -1, sio_pos = 0, sio_irq = False, rxReadyTicks = 0, ackTicks = 0,
       ackPulseEndTicks = 0\<rparr>,
     gm_buttons = 0xFFFF, gm_card = idle_card,
     gm_cd = \<lparr>cd_stockBytes = replicate 8 0, cd_stockValid = False, cd_setloc_lba = 0, cd_stock_reading = 0, cd_in_stock_read = 0\<rparr>,
     gm_title = (), gm_owners = new_ledger, gm_latch = new_latch, gm_notices = []\<rparr>"

lemma idle_active: "activeResidencies (gm_catalog (idle_game v)) = []"
  by (simp add: idle_game_def new_catalog_def activeResidencies_def)

lemma idle_accepts: "devices_accept idle_env"
proof -
  have "fst (action_save idle_env device d) \<and> snd (action_save idle_env device d) \<noteq> [] \<and>
      fst (action_load idle_env device bs d')" for device d bs d'
    by (cases device) (simp_all add: idle_env_def)
  then show ?thesis by (simp add: devices_accept_def) (simp add: idle_env_def)
qed

lemma idle_card_fits: "card_fits (idle_game v)" "card_takes (idle_game v)"
  by (simp_all add: card_fits_def card_takes_def idle_game_def idle_card_def usable_def content_def card_init_def)

lemma idle_cdc_fits: "cdc_fits (idle_game v)"
  by (simp add: cdc_fits_def cdc_shape_def cdc_ints_def cdc_bounded_def idle_game_def idle_cdc_def queued_fits_def i32_ok_def
    list_all_iff)

lemma idle_hle_fits: "hle_fits (idle_game v)"
  by (simp add: hle_fits_def hle_bounded_def event_ints_def idle_game_def quiet_hle_def i32_ok_def list_all_iff)

lemma idle_fits: "machine_fits (idle_game v)"
proof -
  have "images_fit (idle_game v)" by (simp add: images_fit_def idle_active)
  moreover have "timing_fits (idle_game v)" by (simp add: timing_fits_def idle_game_def clockSnapshot_def new_timing_def)
  ultimately show ?thesis
    using idle_card_fits idle_cdc_fits idle_hle_fits
    by (simp add: machine_fits_def) (simp add: cpu_fits_def dma_fits_def sio_fits_def cd_fits_def idle_game_def i32_ok_def)
qed

lemma idle_sizes:
  "length (writeCpuSection (idle_game v)) < 300" "length (writeRamSection (idle_game v)) = kRamBytes"
  "length (writeImagesSection (idle_game v)) = 5" "length (writeScratchpadSection (idle_game v)) = kScratchpadSize"
  "length (writeGteSection (idle_game v)) < 300" "length (writeGpuSection idle_env (idle_game v)) = 5"
  "length (beetle_bytes idle_env d (idle_game v)) = 1" "length (writeCdcSection (idle_game v)) < 3000"
  "length (writeTimingSection (idle_game v)) < 100" "length (writeDmaSection (idle_game v)) < 200"
  "length (writeHleSection (idle_game v)) < 60000" "length (writeSioSection (idle_game v)) < 100"
  "length (card_bytes (idle_game v)) < 200000" "length (writeCdSection (idle_game v)) < 100"
proof -
  show "length (writeCpuSection (idle_game v)) < 300"
    by (simp add: writeCpuSection_def length_write_section cpu_fields_def idle_game_def)
  show "length (writeRamSection (idle_game v)) = kRamBytes" by (simp add: writeRamSection_def w_bytes_def idle_game_def)
  show "length (writeImagesSection (idle_game v)) = 5" by (simp add: writeImagesSection_def length_write_section idle_active)
  show "length (writeScratchpadSection (idle_game v)) = kScratchpadSize"
    by (simp add: writeScratchpadSection_def w_bytes_def idle_game_def)
  show "length (writeGteSection (idle_game v)) < 300"
    unfolding writeGteSection_def length_write_fields by (simp add: idle_game_def)
  show "length (writeGpuSection idle_env (idle_game v)) = 5"
    by (simp add: writeGpuSection_def length_write_section idle_env_def)
  show "length (beetle_bytes idle_env d (idle_game v)) = 1" by (cases d) (simp_all add: beetle_bytes_def idle_env_def)
  show "length (writeCdcSection (idle_game v)) < 3000"
    by (simp add: writeCdcSection_def length_write_section cdc_fields_def queued_fields_def idle_game_def idle_cdc_def
      map_concat sum_list_concat_runs sum_list_replicate)
  show "length (writeTimingSection (idle_game v)) < 100"
    by (simp add: writeTimingSection_def length_write_section timing_fields_def Let_def)
  show "length (writeDmaSection (idle_game v)) < 200"
    by (simp add: writeDmaSection_def length_write_section dma_fields_def dma_channels_def channel_fields_def)
  show "length (writeHleSection (idle_game v)) < 60000"
    by (simp add: writeHleSection_def length_write_section hle_fields_def event_fields_def heap_fields_def hle_middle_def hle_last_def
      idle_game_def quiet_hle_def map_concat sum_list_concat_runs comp_def sum_list_replicate kBlkSlots_def kSlotsEv_def kIrqChain_def)
  show "length (writeSioSection (idle_game v)) < 100"
    by (simp add: writeSioSection_def length_write_section sio_fields_def Let_def)
  show "length (card_bytes (idle_game v)) < 200000"
    by (simp add: card_bytes_def length_write_section card_fields_def fd_size map_concat sum_list_concat_runs comp_def
      idle_game_def idle_card_def content_def sum_list_triv kSize_def kFrames_def kFrameSize_def kFdMax_def)
  show "length (writeCdSection (idle_game v)) < 100"
    by (simp add: writeCdSection_def length_write_section cd_fields_def idle_game_def)
qed

text \<open>A title with two bytes of state of its own, which its load takes or refuses.\<close>

definition idle_port :: "bool \<Rightarrow> unit NativeStatePort" where
  "idle_port ok = \<lparr>sp_version = 3, sp_save = (\<lambda>_. (True, [7, 8])), sp_load = (\<lambda>_ d. (ok, d)),
     sp_restored = (\<lambda>m. m\<lparr>gm_logicFrame := 77\<rparr>)\<rparr>"

lemma idle_port_facts: "port_accepts (idle_port True)" "failed_load_keeps (idle_port ok)"
  by (simp_all add: port_accepts_def failed_load_keeps_def idle_port_def)

lemma spoiled_image_size:
  assumes "length bs < 300"
  shows "length (image_bytes (spoiled_sections idle_env (Some (idle_port ok)) bs (idle_game v))) < 2 ^ 32"
  using idle_sizes [where v = v] assms
  by (simp add: image_bytes_def spoiled_sections_def state_sections_def machine_sections_def sec_bytes_def kSectionNameBytes_def
    kRamBytes_def kScratchpadSize_def title_payload_def title_blob_def idle_port_def codec_simps w_u8_def kTitle_def)

lemma spoiled_by_itself: "spoiled_sections env titlePort (writeCpuSection g) g = state_sections env titlePort g"
  by (simp add: spoiled_sections_def state_sections_def machine_sections_def)

lemma idle_image_size: "length (image_bytes (state_sections idle_env (Some (idle_port ok)) (idle_game v))) < 2 ^ 32"
  using spoiled_image_size [OF idle_sizes(1) [of v], of ok v] by (simp only: spoiled_by_itself)

lemma idle_written:
  "restore_state idle_env (Some (idle_port True)) (image_bytes (state_sections idle_env (Some (idle_port True)) (idle_game 5))) (idle_game 9) =
     (Inr \<lparr>so_sections = kRequired @ [kTitle],
           so_bytes = length (image_bytes (state_sections idle_env (Some (idle_port True)) (idle_game 5))), so_fields = vblank (gm_timing (idle_game 9)),
           so_invalidationRanges = 2, so_loaded = True\<rparr>, resumed idle_env (Some (idle_port True)) (idle_game 5) (idle_game 9))"
  using restore_written [OF idle_fits idle_accepts _ idle_image_size idle_card_fits(2), of "True" 5 9] idle_port_facts(1) by simp

lemma title_refused:
  assumes "length (image_bytes (state_sections env (Some port) g)) < 2 ^ 32" and "\<not> fst (sp_load port (title_reader port g) (gm_title n))"
  shows "fst (restore_state env (Some port) (image_bytes (state_sections env (Some port) g)) n) = Inl TitleRefusedLoad"
proof -
  obtain f where f: "state_open (image_bytes (state_sections env (Some port) g)) = Inr f"
    "\<And>n p. (n, p) \<in> set (state_sections env (Some port) g) \<Longrightarrow> file_section f n = Some p"
    using state_file_opened [OF assms(1)] by blast
  have p: "find_payloads (kSections env) f = Inr (map snd (machine_sections env g))" using machine_payloads [OF f(2)] .
  have "titlePayload f = Some (title_payload port g)"
    using f(2) [of kTitle "title_payload port g"] by (simp add: titlePayload_def state_sections_def)
  then show ?thesis unfolding restore_state_def f(1) using p assms(2) by (simp add: title_opened)
qed

theorem restore_resumes_witness:
  "\<exists>bytes m. capture_state idle_env (Some (idle_port True)) (idle_game 5) = (Inr bytes, idle_game 5) \<and>
     restore_state idle_env (Some (idle_port True)) bytes (idle_game 9) =
       (Inr \<lparr>so_sections = kRequired @ [kTitle], so_bytes = length bytes, so_fields = vblank (gm_timing (idle_game 9)),
              so_invalidationRanges = 2, so_loaded = True\<rparr>, m\<lparr>gm_logicFrame := 77\<rparr>) \<and>
     same_state idle_env (Some (idle_port True)) (idle_game 5) (idle_game 9) m"
proof -
  obtain bytes m where r: "capture_state idle_env (Some (idle_port True)) (idle_game 5) = (Inr bytes, idle_game 5)"
    "restore_state idle_env (Some (idle_port True)) bytes (idle_game 9) =
      (Inr \<lparr>so_sections = kRequired @ [kTitle], so_bytes = length bytes, so_fields = vblank (gm_timing (idle_game 9)),
             so_invalidationRanges = 2, so_loaded = True\<rparr>, sp_restored (idle_port True) m)"
    "same_state idle_env (Some (idle_port True)) (idle_game 5) (idle_game 9) m"
    using restore_resumes [OF idle_fits idle_accepts _ idle_image_size idle_card_fits(2), of "True" 5 9] idle_port_facts(1) by auto
  have "sp_restored (idle_port True) m = m\<lparr>gm_logicFrame := 77\<rparr>" by (simp add: idle_port_def)
  then show ?thesis using r by metis
qed

theorem accepted_state_is_sound_witness:
  "\<exists>bytes outcome m. restore_state idle_env (Some (idle_port True)) bytes (idle_game 9) = (Inr outcome, sp_restored (idle_port True) m) \<and>
     control_ok m"
proof -
  obtain m where "control_ok m" "resumed idle_env (Some (idle_port True)) (idle_game 5) (idle_game 9) = sp_restored (idle_port True) m"
    using accepted_state_is_sound [OF idle_written] by auto
  then show ?thesis using idle_written by metis
qed

theorem refused_processor_leaves_the_rest_witness:
  "\<exists>m e. restore_state idle_env (Some (idle_port True))
       (image_bytes (spoiled_sections idle_env (Some (idle_port True)) [9] (idle_game 5))) (idle_game 9) = (Inl (Refused e), m) \<and>
     gm_ram m = replicate kRamBytes 5 \<and> gm_cpu m = gm_cpu (idle_game 9)"
proof -
  obtain e where e: "fst (readCpuSection [9] (idle_game 9)) = Some e"
    by (simp add: readCpuSection_def read_section_def expectLayout_def r_u8_def reader_of_def kCpuLayoutVersion_def)
  have a: "\<And>port. Some (idle_port True) = Some port \<Longrightarrow> port_accepts port" using idle_port_facts(1) by simp
  have "length [9 :: u8] < 300" by simp
  from refused_processor_leaves_the_rest [OF idle_fits idle_accepts a idle_card_fits(2) spoiled_image_size [OF this, of True 5] e]
  obtain m where m: "restore_state idle_env (Some (idle_port True))
       (image_bytes (spoiled_sections idle_env (Some (idle_port True)) [9] (idle_game 5))) (idle_game 9) = (Inl (Refused e), m)"
    "devices_back idle_env (idle_game 5) (idle_game 9) m" "gm_cpu m = gm_cpu (idle_game 9)"
    by auto
  have "gm_ram m = replicate kRamBytes 5" using m(2) by (simp add: devices_back_def idle_game_def)
  then show ?thesis using m(1,3) by blast
qed

theorem early_refusal_unchanged_witness:
  "restore_state idle_env (Some (idle_port False)) (image_bytes (state_sections idle_env (Some (idle_port False)) (idle_game 5))) (idle_game 9) =
     (Inl TitleRefusedLoad, idle_game 9)"
proof -
  let ?r = "restore_state idle_env (Some (idle_port False)) (image_bytes (state_sections idle_env (Some (idle_port False)) (idle_game 5))) (idle_game 9)"
  have "fst ?r = Inl TitleRefusedLoad" 
    by (rule title_refused [OF idle_image_size]) (simp add: idle_port_def)
  then have r: "?r = (Inl TitleRefusedLoad, snd ?r)" by (metis prod.collapse)
  have "snd ?r = idle_game 9" using early_refusal_unchanged [OF r] idle_port_facts(2) by simp
  then show ?thesis using r by metis
qed

text \<open>A file may be accepted with more data bytes counted than the controller's sector buffer has: nothing checks the count.\<close>

definition overfull :: "unit Game" where
  "overfull = (idle_game 5)\<lparr>gm_cdc := idle_cdc\<lparr>cx_data_n := 5000\<rparr>\<rparr>"

lemma overfull_fits: "machine_fits overfull"
proof -
  have "cdc_fits overfull"
    by (simp add: overfull_def cdc_fits_def cdc_shape_def cdc_ints_def cdc_bounded_def idle_cdc_def queued_fits_def i32_ok_def list_all_iff)
  then show ?thesis using idle_fits [of 5]
    by (simp add: machine_fits_def overfull_def cpu_fits_def images_fit_def timing_fits_def dma_fits_def hle_fits_def sio_fits_def
      card_fits_def cd_fits_def)
qed

lemma overfull_image_size: "length (image_bytes (state_sections idle_env None overfull)) < 2 ^ 32"
proof -
  have "length (writeCdcSection overfull) < 3000"
    by (simp add: writeCdcSection_def length_write_section cdc_fields_def queued_fields_def overfull_def idle_cdc_def
      map_concat sum_list_concat_runs sum_list_replicate)
  moreover have "writeCpuSection overfull = writeCpuSection (idle_game 5)" "writeRamSection overfull = writeRamSection (idle_game 5)"
    "writeImagesSection overfull = writeImagesSection (idle_game 5)"
    "writeScratchpadSection overfull = writeScratchpadSection (idle_game 5)" "writeGteSection overfull = writeGteSection (idle_game 5)"
    "writeGpuSection idle_env overfull = writeGpuSection idle_env (idle_game 5)"
    "beetle_bytes idle_env d overfull = beetle_bytes idle_env d (idle_game 5)"
    "writeTimingSection overfull = writeTimingSection (idle_game 5)" "writeDmaSection overfull = writeDmaSection (idle_game 5)"
    "writeHleSection overfull = writeHleSection (idle_game 5)" "writeSioSection overfull = writeSioSection (idle_game 5)"
    "card_bytes overfull = card_bytes (idle_game 5)" "writeCdSection overfull = writeCdSection (idle_game 5)" for d
    by (simp_all add: overfull_def writeCpuSection_def writeRamSection_def writeImagesSection_def writeScratchpadSection_def
      writeGteSection_def writeGpuSection_def beetle_bytes_def writeTimingSection_def timing_fields_def writeDmaSection_def
      writeHleSection_def writeSioSection_def sio_fields_def card_bytes_def writeCdSection_def)
  ultimately show ?thesis using idle_sizes [where v = 5]
    by (simp add: image_bytes_def state_sections_def machine_sections_def sec_bytes_def kSectionNameBytes_def kRamBytes_def
      kScratchpadSize_def)
qed

lemma accepted_count_past_buffer:
  "\<exists>bytes outcome m. restore_state idle_env None bytes (idle_game 9) = (Inr outcome, m) \<and>
     length (cx_data (gm_cdc m)) = 2340 \<and> cx_data_n (gm_cdc m) = 5000"
proof -
  obtain m where m: "resumed idle_env None overfull (idle_game 9) = m" "same_state idle_env None overfull (idle_game 9) m"
    using resumed_same [of idle_env None overfull "idle_game 9"] by auto
  have "gm_cdc m = idle_cdc\<lparr>cx_data_n := 5000\<rparr>" using m(2) by (simp add: same_state_def devices_back_def overfull_def)
  then have "length (cx_data (gm_cdc m)) = 2340 \<and> cx_data_n (gm_cdc m) = 5000" by (simp add: idle_cdc_def)
  moreover have "\<exists>bytes outcome. restore_state idle_env None bytes (idle_game 9) = (Inr outcome, m)"
    using restore_written [OF overfull_fits idle_accepts _ overfull_image_size idle_card_fits(2), of 9] unfolding m(1) by blast
  ultimately show ?thesis by blast
qed

end
