(* ===== verification/Spec2Isabelle.thy ===== *)
theory Spec2Isabelle
  imports Guest_Memory Blob_Codec State_File Pad_Recording Hle_Heap Bios_Libc Dma_Controller
    Hle_Kernel Kernel_Laws Sio_Pad Cd_Position Cd_Controller Cd_Laws Cd_Reachable Cd_Timing
    Memory_Card Card_Laws Card_Bios Card_File_Laws Io_Bus Bus_Laws Cd_Ready Side_Effect_Journal
    Image_Catalog Native_Dispatch Machine_Snapshot Override_Differential Frame_Time Frame_Time_Laws
    Number_Text Disc_Image Disc_Laws Hunk_Reader Hunk_Laws
    Gp0_Command Frame_Record Gp0_Decode Vram_Bitmap Texture_Feedback Gp0_Tap Tap_Laws Tap_Polygon
    Writer_Attribution Owner_Ledger Ordering_Table
    Device_Sections Section_Laws Machine_State Machine_Laws
begin

text \<open>
  A verification development for psxport, a runtime that runs PlayStation programs natively: guest code is translated,
  title functions are replaced by native ones, and the console around them (memory, interrupts, BIOS, CD drive, memory
  card, controller port, DMA) is a set of C++ models under \<open>src/runtime\<close>. This library models those parts from their
  sources and proves what they promise each other. The root theory only collects the others.

  \<^bold>\<open>Reading guide.\<close> Every theory opens with the files it models. A C++ struct is a record with the source's field names,
  an enum a datatype, a fixed-width integer a word of that width; a counter that only reports is a natural number. A
  \<open>std::abort\<close>, an exception and a run that never comes back are \<open>None\<close>; a refusal the source returns is a value. A
  member function takes the state last and returns it updated. Loops are structural recursion, or \<open>function\<close> with a
  measure, or \<open>partial_function (option)\<close> where returning has to be proved.

  \<^bold>\<open>Theories.\<close>
    \<^item> \<open>Prelude\<close>: words as little-endian bytes, word and list lemmas shared by all. \<open>Memory_Interface\<close>: the locale of a
      byte-addressed memory, with lemmas for clients that read and write ranges.
    \<^item> \<open>Guest_Memory\<close> (\<open>psx/core/guest_memory.cpp\<close>, \<open>guest_memory_map.h\<close>, \<open>write_rollback.h\<close>, \<open>cpu/invalidation.cpp\<close>):
      the address map, loads and stores, the undo log and the ranges of translated code a store invalidates. It interprets
      the memory locale. \<open>io_ops\<close> is what lies behind an unmapped address.
    \<^item> \<open>Blob_Codec\<close>, \<open>State_File\<close>, \<open>Pad_Recording\<close> (\<open>psx/state\<close>, \<open>psx/input\<close>): the byte codec, the save-state container and
      the pad recording with its files and the stream they are written through: round trips, bounded reads of hostile input.
    \<^item> \<open>Hle_Heap\<close>, \<open>Bios_Libc\<close>, \<open>Hle_Kernel\<close>, \<open>Kernel_Laws\<close> (\<open>psx/hle\<close>): the BIOS heap, string functions and kernel: events,
      critical sections, the interrupt chain, interrupt delivery, jump buffers. Guest calls are fields of \<open>kernel_env\<close>.
    \<^item> \<open>Dma_Controller\<close> (\<open>psx/platform\<close>): the DMA interrupt registers, ordering-table DMA, edge and spin detectors.
      \<open>Sio_Pad\<close>: the controller port.
    \<^item> \<open>Cd_Position\<close>, \<open>Cd_Controller\<close>, \<open>Cd_Laws\<close>, \<open>Cd_Reachable\<close>, \<open>Cd_Timing\<close> (\<open>psx/cd\<close>): positions and tables of contents, the
      controller with its response queue and timed events, its reachable states and its deadlines.
    \<^item> \<open>Memory_Card\<close>, \<open>Card_Laws\<close>, \<open>Card_Bios\<close>, \<open>Card_File_Laws\<close> (\<open>psx/platform/memcard.cpp\<close>): the card image, its directory, the
      BIOS calls on it. The locale \<open>frame_store\<close> is the frame interface, interpreted on the card.
    \<^item> \<open>Io_Bus\<close>, \<open>Bus_Laws\<close> (\<open>psx/core/mem.cpp\<close>, \<open>psx/platform/io_peripherals.cpp\<close>): the register decode, the interrupt latch and
      the DMA starts over the controllers above; \<open>bus_env\<close> is the hardware behind it that is not modelled. \<open>Cd_Ready\<close>
      (\<open>psx/cd/cd_ready_delivery.cpp\<close>, \<open>stock_libcd.h\<close>): the ready callback of a title's libcd, and the kernel that polls
      interrupts over this bus with it.
    \<^item> \<open>Image_Catalog\<close>, \<open>Native_Dispatch\<close> (\<open>cpu/image_identity.cpp\<close>, \<open>cpu/native_dispatch.cpp\<close>, \<open>cpu/host_dispatch_cache.h\<close>,
      \<open>hle/platform_hle.cpp\<close>, \<open>cpu/execution_control.cpp\<close>): who owns an address, which native or service answers a call, the
      cache of that answer, suppressions and requested exits. \<open>host_env\<close> holds the native bodies and translated execution.
    \<^item> \<open>Side_Effect_Journal\<close>, \<open>Machine_Snapshot\<close>, \<open>Override_Differential\<close> (\<open>cpu/side_effect_journal.cpp\<close>,
      \<open>cpu/machine_snapshot.cpp\<close>, \<open>cpu/override_differential.cpp\<close>): the comparison of a native with the original it replaces.
    \<^item> \<open>Frame_Time\<close>, \<open>Frame_Time_Laws\<close> (\<open>psx/frame/emulated_time.cpp\<close>, \<open>timing.cpp\<close>, \<open>cpu/host_turn.cpp\<close>): the guest clock in
      128-bit Q32 ticks, fields delivered in parts, VSync waits, root counters, the host field clock.
    \<^item> \<open>Number_Text\<close>, \<open>Disc_Image\<close>, \<open>Disc_Laws\<close> (\<open>config/number_text.cpp\<close>, \<open>cd/disc.cpp\<close>, \<open>cd/disc_provision.cpp\<close>): the number
      parser, the track layout of a CHD, sectors, the ISO 9660 lookup and the file reader. \<open>chd_file\<close> is the image.
    \<^item> \<open>Hunk_Reader\<close>, \<open>Hunk_Laws\<close> (\<open>cd/hunk_reader.cpp\<close>): the caller and four workers sharing 32 slots, as a step relation.
    \<^item> \<open>Gp0_Command\<close>, \<open>Frame_Record\<close>, \<open>Gp0_Decode\<close> (\<open>psx/present/gp0_command.h\<close>, \<open>frame_record.cpp\<close>,
      \<open>gp0_primitive_decode.cpp\<close>): GP0 words and their lengths, the record of one frame's drawing, packets decoded into it.
    \<^item> \<open>Vram_Bitmap\<close>, \<open>Texture_Feedback\<close> (\<open>psx/gpu/vram_bitmap.h\<close>, \<open>texture_feedback.cpp\<close>): sets of VRAM pixels and what a
      sprite may read of what the frame drew; the locale \<open>pixel_store\<close> is interpreted on the bitmap.
    \<^item> \<open>Gp0_Tap\<close>, \<open>Tap_Laws\<close>, \<open>Tap_Polygon\<close> (\<open>psx/gpu/gp0_record_tap.cpp\<close>, \<open>record_geometry.cpp\<close>): the tap that records the
      GP0 stream beside the device and compares its state with the device's own answers.
    \<^item> \<open>Writer_Attribution\<close> (\<open>cpu/guest_writer_latch.h\<close>, \<open>guest_call_attribution.h\<close>), \<open>Owner_Ledger\<close>
      (\<open>psx/present/owner_ledger.cpp\<close>): which function runs, which scope or writer owns a word of memory.
    \<^item> \<open>Ordering_Table\<close> (\<open>psx/gpu/ordering_table.cpp\<close>, \<open>draw_list_cycle.h\<close>): the walk of a draw list, its cycle check, the
      tables named in memory and the submission of a list to the device.
    \<^item> \<open>Device_Sections\<close>, \<open>Section_Laws\<close>, \<open>Machine_State\<close>, \<open>Machine_Laws\<close> (\<open>psx/state/device_cpu.cpp\<close>, \<open>device_gpu.cpp\<close>,
      \<open>device_bus.cpp\<close>, \<open>beetle_device_state.cpp\<close>, \<open>machine_state.cpp\<close>): the fifteen sections of a saved machine, capture and
      restore. The locale \<open>section_codec\<close> is the contract of a section, interpreted on each of them.
  \<^bold>\<open>What is shown.\<close> State invariants kept by every operation (the CD controller's reachable states, the heap's blocks, the
  recording's frames, the catalog's identities); refinements of abstract views (response queue as a list, card directory
  as a map, image catalog as a stack of owners per byte, recording file as an encoding); equivalences with reference
  definitions (wildcard matching, the verdict cache with the full resolution, a differential match with its contract);
  round trips (codec, container, recording, card files, malloc and free, snapshots); safety (rollback, code invalidation,
  interrupt transparency, no lost or doubled interrupt edge, a replayed call that reaches no device); termination and
  deadlines (CD service, DMA walks, draw lists with a cycle, the MDEC pump). A frame record called complete agrees with the
  device at every probe, and a polygon packet is recorded as the decoder reads it. A machine captured and restored is the
  saved machine, section by section, with what the GPU and Beetle make of their own streams. An accepted state file has the
  queue ends, the completion count and the BIOS counts it checks inside their tables (the controller's other counts are not
  checked, which \<open>accepted_count_past_buffer\<close> shows), one refused before its sections changes nothing, and one refused at
  the processor section has replaced the rest. Handles of the owner ledger answer their own key until their slot is taken again.

  \<^bold>\<open>Bounds and fuel.\<close> The linked-list DMA walk is cut at the hop count of the source; interrupt chains hold eight elements;
  the retirement loop of CD reads runs over a list of at most 64 deadlines. \<open>glob_loop\<close>, the CD service loop and the MDEC
  pump are partial functions: the first returns on every input, the second when the clock is below \<open>2 ^ 64 - 451584\<close> ticks, so
  that no deadline it sets wraps, the third whenever the decoder takes input it says it can take. The verdict cache is
  coherent for fewer than \<open>2 ^ 64 - 1\<close> operations, after which its epoch would repeat. The journal's bound, \<open>2 ^ 20\<close> effects,
  is the source's.

  \<^bold>\<open>Parameters and hypotheses.\<close> \<open>io_ops\<close>, \<open>kernel_env\<close>, \<open>bus_env\<close>, \<open>cdc_env\<close>, \<open>card_host\<close>, \<open>sink_io\<close> and \<open>host_env\<close> stand for code
  outside the model: device models outside the repository (Beetle), Lightrec, the host's files and the disc image, and
  parts of the runtime modelled elsewhere or not at all. Hypotheses name what is asked of them: \<open>landing_observes\<close> (observers of a DMA landing only look),
  \<open>decoder_takes\<close>, \<open>devices_accept\<close> and \<open>port_accepts\<close> (a device and a title accept the stream they saved), \<open>failed_load_keeps\<close>
  (a title's failed load restores nothing of it, as \<open>machine_state.h\<close> asks), \<open>probe_ok\<close> (the palette cache and the VRAM
  mirror the tap reads have the sizes Beetle declares), \<open>window_fields\<close> (a texture window has five-bit fields, as GP0 gives
  them), and for the differential that a native reaches devices through the journaled funnel only. Nothing is assumed of the
  guest code an interrupt runs: \<open>env_transparent\<close> is proved of the kernel \<open>Cd_Ready\<close> builds. Depths, floats of the source,
  are kept as their 32 bits. Each hypothesis has a
  witness at a concrete instance.

  \<^bold>\<open>Not modelled.\<close> Drawing, raster setup and frame interpolation (floating point, Vulkan), sound mixing, movies, debugging consoles and traces, the
  host shell, configuration files and titles; Lightrec itself, which is a submodule; text of logs and reports. The
  manifest lists every part with the reason.
\<close>

end
